(* ===== verification/Prelude.thy ===== *)
theory Prelude imports Main "HOL-Library.Word" begin

text \<open>
  What every component of the model shares: the error values an endpoint can answer with,
  time, the JavaScript \<open>Map\<close> an in-memory store keeps, the rows of a SQL table as a list,
  and the string operations of the language the sources use.

  Strings are lists of \<open>char\<close>, read as the UTF-16 code units below 256 (Latin-1); the case
  mappings below are JavaScript's on that range, but for the two characters whose upper case
  leaves it (U+00B5 and U+00FF), which stay as they are and which every filter of the sources
  drops.
\<close>

unbundle bit_operations_syntax

named_theorems row_simps \<open>lookups after an insert, an update or a delete on a table of rows\<close>

section \<open>Errors and time\<close>

text \<open>Milliseconds since the epoch, what \<open>Date.now()\<close> answers.\<close>

type_synonym time = int

type_synonym byte = "8 word"

datatype http_status =
    BAD_REQUEST | UNAUTHORIZED | FORBIDDEN | NOT_FOUND | CONFLICT | TOO_MANY_REQUESTS | SERVICE_UNAVAILABLE
  | SERVER_ERROR

text \<open>
  What a handler throws: an \<open>ApiError\<close> carries its status and its stable code, a NestJS
  exception its status and its sentence (with the interpolated values left out), and anything
  else (\<open>throw new Error(...)\<close>, a \<open>RangeError\<close>) reaches the client as a 500.
\<close>

datatype err =
    ApiError http_status string
  | HttpException http_status string
  | Crash string

fun err_status :: "err \<Rightarrow> http_status" where
  "err_status (ApiError st c) = st"
| "err_status (HttpException st m) = st"
| "err_status (Crash m) = SERVER_ERROR"

text \<open>A call's answer and the state it leaves, which an exception does not roll back.\<close>

type_synonym ('a, 's) outcome = "(err + 'a) \<times> 's"

abbreviation throws :: "(err + 'a) \<times> 's \<Rightarrow> bool" where
  "throws r \<equiv> (\<exists>e. fst r = Inl e)"

text \<open>\<open>await\<close> in sequence: the rest of a handler runs on the answer and on the state left, and an
  exception leaves it where it was thrown.\<close>

definition and_then :: "('a, 's) outcome \<Rightarrow> ('a \<Rightarrow> 's \<Rightarrow> ('b, 's) outcome) \<Rightarrow> ('b, 's) outcome" where
  "and_then r f = (case r of (Inl e, s) \<Rightarrow> (Inl e, s) | (Inr a, s) \<Rightarrow> f a s)"

lemma and_then_simps [simp]:
  "and_then (Inl e, s) f = (Inl e, s)" "and_then (Inr a, s) f = f a s"
  by (simp_all add: and_then_def)

lemma and_then_Inr:
  "and_then r f = (Inr b, s') \<longleftrightarrow> (\<exists>a s. r = (Inr a, s) \<and> f a s = (Inr b, s'))"
  by (auto simp: and_then_def split: prod.splits sum.splits)

lemma and_then_Inl:
  "and_then r f = (Inl e, s') \<longleftrightarrow> r = (Inl e, s') \<or> (\<exists>a s. r = (Inr a, s) \<and> f a s = (Inl e, s'))"
  by (auto simp: and_then_def split: prod.splits sum.splits)

section \<open>Out-of-range reads\<close>

text \<open>\<open>xs[i]\<close> where an absent element reads as \<open>undefined\<close>, defaulted.\<close>

definition nth_or :: "'a \<Rightarrow> 'a list \<Rightarrow> nat \<Rightarrow> 'a" where
  "nth_or d xs i = (if i < length xs then xs ! i else d)"

lemma nth_or_in [simp]: "i < length xs \<Longrightarrow> nth_or d xs i = xs ! i"
  by (simp add: nth_or_def)

lemma nth_or_out [simp]: "length xs \<le> i \<Longrightarrow> nth_or d xs i = d"
  by (simp add: nth_or_def)

section \<open>In-memory maps\<close>

text \<open>The loop that deletes every entry of a \<open>Map\<close> a predicate calls dead.\<close>

definition map_sweep :: "('v \<Rightarrow> bool) \<Rightarrow> ('k \<rightharpoonup> 'v) \<Rightarrow> ('k \<rightharpoonup> 'v)" where
  "map_sweep dead m =
     (\<lambda>k. case m k of None \<Rightarrow> None | Some e \<Rightarrow> if dead e then None else Some e)"

lemma map_sweep_Some [simp]: "map_sweep dead m k = Some e \<longleftrightarrow> m k = Some e \<and> \<not> dead e"
  by (auto simp: map_sweep_def split: option.splits if_splits)

lemma map_sweep_None: "map_sweep dead m k = None \<longleftrightarrow> (\<forall>e. m k = Some e \<longrightarrow> dead e)"
  by (auto simp: map_sweep_def split: option.splits)

section \<open>Tables\<close>

text \<open>
  A table is the list of its rows. \<open>findOne\<close> answers the first row that matches, \<open>save\<close>
  replaces the row of the same primary key or inserts it, \<open>update\<close> and \<open>delete\<close> act on every
  row that matches.
\<close>

definition save_row :: "('r \<Rightarrow> 'k) \<Rightarrow> 'r \<Rightarrow> 'r list \<Rightarrow> 'r list" where
  "save_row key r rows =
     (if \<exists>x \<in> set rows. key x = key r
      then map (\<lambda>x. if key x = key r then r else x) rows else rows @ [r])"

definition update_where :: "('r \<Rightarrow> bool) \<Rightarrow> ('r \<Rightarrow> 'r) \<Rightarrow> 'r list \<Rightarrow> 'r list" where
  "update_where P f rows = map (\<lambda>x. if P x then f x else x) rows"

definition delete_where :: "('r \<Rightarrow> bool) \<Rightarrow> 'r list \<Rightarrow> 'r list" where
  "delete_where P rows = filter (\<lambda>x. \<not> P x) rows"

definition count_where :: "('r \<Rightarrow> bool) \<Rightarrow> 'r list \<Rightarrow> nat" where
  "count_where P rows = length (filter P rows)"

text \<open>\<open>COALESCE(SUM(column), 0)\<close> over the rows that match.\<close>

definition sum_where :: "('r \<Rightarrow> int) \<Rightarrow> ('r \<Rightarrow> bool) \<Rightarrow> 'r list \<Rightarrow> int" where
  "sum_where f P rows = sum_list (map f (filter P rows))"

lemma find_map_same:
  "\<exists>x \<in> set rows. key x = key r \<Longrightarrow>
   List.find (\<lambda>x. key x = key r) (map (\<lambda>x. if key x = key r then r else x) rows) = Some r"
  by (induction rows) auto

lemma find_append:
  "List.find P (xs @ ys) = (case List.find P xs of None \<Rightarrow> List.find P ys | Some x \<Rightarrow> Some x)"
  by (induction xs) auto

lemma find_none_notin: "\<not> (\<exists>x \<in> set rows. P x) \<Longrightarrow> List.find P rows = None"
  by (simp add: find_None_iff)

lemma find_in_set: "List.find P rows = Some x \<Longrightarrow> x \<in> set rows \<and> P x"
  by (auto simp: find_Some_iff)

lemma find_by_key:
  "distinct (map key rows) \<Longrightarrow> r \<in> set rows \<Longrightarrow> List.find (\<lambda>x. key x = key r) rows = Some r"
  by (induction rows) auto

lemma find_unique:
  assumes "t \<in> set rows" "P t" "\<forall>x \<in> set rows. P x \<longrightarrow> x = t"
  shows "List.find P rows = Some t"
proof (cases "List.find P rows")
  case None
  with assms(1,2) show ?thesis by (simp add: find_None_iff)
next
  case (Some x)
  with find_in_set [OF Some] assms(3) have "x = t" by blast
  with Some show ?thesis by simp
qed

lemma find_save_same [row_simps]:
  "List.find (\<lambda>x. key x = key r) (save_row key r rows) = Some r"
  by (auto simp: save_row_def find_map_same find_append find_none_notin)

lemma find_save_other [row_simps]:
  "k \<noteq> key r \<Longrightarrow>
   List.find (\<lambda>x. key x = k) (save_row key r rows) = List.find (\<lambda>x. key x = k) rows"
proof -
  assume k: "k \<noteq> key r"
  have "List.find (\<lambda>x. key x = k) (map (\<lambda>x. if key x = key r then r else x) rows)
      = List.find (\<lambda>x. key x = k) rows"
    using k by (induction rows) auto
  with k show ?thesis by (auto simp: save_row_def find_append split: option.splits)
qed

lemma find_delete_same [row_simps]:
  "List.find P (delete_where P rows) = None"
  by (auto simp: delete_where_def find_None_iff)

lemma find_delete_other [row_simps]:
  "k \<noteq> k' \<Longrightarrow> List.find (\<lambda>x. key x = k) (delete_where (\<lambda>x. key x = k') rows)
     = List.find (\<lambda>x. key x = k) rows"
  by (induction rows) (auto simp: delete_where_def)

lemma distinct_save_row:
  "distinct (map key rows) \<Longrightarrow> distinct (map key (save_row key r rows))"
proof -
  assume d: "distinct (map key rows)"
  have "map key (map (\<lambda>x. if key x = key r then r else x) rows) = map key rows"
    by (induction rows) auto
  with d show ?thesis by (auto simp: save_row_def simp del: map_map)
qed

lemma distinct_save_other:
  assumes "distinct (map f rows)" "distinct (map key rows)" "\<forall>x \<in> set rows. key x \<noteq> key t \<longrightarrow> f x \<noteq> f t"
  shows "distinct (map f (save_row key t rows))"
proof (cases "\<exists>x \<in> set rows. key x = key t")
  case True
  let ?g = "\<lambda>x. if key x = key t then t else x"
  have inj: "inj_on f (set rows)" "inj_on key (set rows)" and "distinct rows"
    using assms(1,2) by (simp_all add: distinct_map)
  have "inj_on (f \<circ> ?g) (set rows)"
  proof (rule inj_onI)
    fix x y assume xy: "x \<in> set rows" "y \<in> set rows" "(f \<circ> ?g) x = (f \<circ> ?g) y"
    show "x = y"
    proof (cases "key x = key t"; cases "key y = key t")
      assume "key x = key t" "key y = key t"
      then show ?thesis using inj_onD [OF inj(2)] xy by simp
    next
      assume k: "key x = key t" "key y \<noteq> key t"
      then have "f y \<noteq> f t" using assms(3) xy(2) by blast
      with k show ?thesis using xy(3) by simp
    next
      assume k: "key x \<noteq> key t" "key y = key t"
      then have "f x \<noteq> f t" using assms(3) xy(1) by blast
      with k show ?thesis using xy(3) by simp
    next
      assume "key x \<noteq> key t" "key y \<noteq> key t"
      then show ?thesis using inj_onD [OF inj(1)] xy by simp
    qed
  qed
  with \<open>distinct rows\<close> have "distinct (map f (map ?g rows))" by (simp add: distinct_map)
  with True show ?thesis by (simp add: save_row_def)
next
  case False
  with assms show ?thesis by (auto simp: save_row_def)
qed

lemma distinct_map_filter: "distinct (map f xs) \<Longrightarrow> distinct (map f (filter P xs))"
  by (induction xs) auto

lemma save_row_replaces:
  "x \<in> set rows \<Longrightarrow> key x = key r \<Longrightarrow>
   save_row key r rows = map (\<lambda>x. if key x = key r then r else x) rows"
  by (auto simp: save_row_def)

lemma set_save_row:
  "set (save_row key r rows) = insert r {x \<in> set rows. key x \<noteq> key r}"
  by (auto simp: save_row_def)

section \<open>Strings\<close>

definition upper_char :: "char \<Rightarrow> string" where
  "upper_char c =
     (let n = of_char c :: nat in
      if 97 \<le> n \<and> n \<le> 122 then [char_of (n - 32)]
      else if n = 223 then ''SS''
      else if 224 \<le> n \<and> n \<le> 254 \<and> n \<noteq> 247 then [char_of (n - 32)]
      else [c])"

definition toUpperCase :: "string \<Rightarrow> string" where
  "toUpperCase s = concat (map upper_char s)"

definition lower_char :: "char \<Rightarrow> char" where
  "lower_char c =
     (let n = of_char c :: nat in
      if 65 \<le> n \<and> n \<le> 90 \<or> 192 \<le> n \<and> n \<le> 222 \<and> n \<noteq> 215 then char_of (n + 32) else c)"

definition toLowerCase :: "string \<Rightarrow> string" where
  "toLowerCase s = map lower_char s"

definition is_digit :: "char \<Rightarrow> bool" where
  "is_digit c = (let n = of_char c :: nat in 48 \<le> n \<and> n \<le> 57)"

definition is_upper :: "char \<Rightarrow> bool" where
  "is_upper c = (let n = of_char c :: nat in 65 \<le> n \<and> n \<le> 90)"

text \<open>The characters \<open>\s\<close> matches, below 256.\<close>

definition is_space :: "char \<Rightarrow> bool" where
  "is_space c = (let n = of_char c :: nat in n = 32 \<or> 9 \<le> n \<and> n \<le> 13 \<or> n = 160)"

text \<open>\<open>String(n)\<close> of a non-negative integer.\<close>

fun show_nat :: "nat \<Rightarrow> string" where
  "show_nat n =
     (if n < 10 then [char_of (48 + n)] else show_nat (n div 10) @ [char_of (48 + n mod 10)])"

declare show_nat.simps [simp del]

text \<open>\<open>parts.join(sep)\<close> and \<open>text.split(c)\<close> for a separator of one character.\<close>

fun join_with :: "string \<Rightarrow> string list \<Rightarrow> string" where
  "join_with sep [] = []"
| "join_with sep [x] = x"
| "join_with sep (x # xs) = x @ sep @ join_with sep xs"

fun split_on :: "char \<Rightarrow> string \<Rightarrow> string list" where
  "split_on c [] = [[]]"
| "split_on c (x # xs) =
     (if x = c then [] # split_on c xs
      else case split_on c xs of [] \<Rightarrow> [[x]] | p # ps \<Rightarrow> (x # p) # ps)"

lemma split_on_not_Nil [simp]: "split_on c s \<noteq> []"
  by (induction s) (auto split: list.splits)

lemma split_on_single: "c \<notin> set s \<Longrightarrow> split_on c s = [s]"
  by (induction s) auto

lemma split_on_append: "c \<notin> set s \<Longrightarrow> split_on c (s @ c # t) = s # split_on c t"
  by (induction s) auto

lemma split_on_join:
  "ps \<noteq> [] \<Longrightarrow> \<forall>p \<in> set ps. c \<notin> set p \<Longrightarrow> split_on c (join_with [c] ps) = ps"
proof (induction ps rule: induct_list012)
  case (2 x)
  then show ?case by (simp add: split_on_single)
qed (simp_all add: split_on_append)

definition padStart :: "nat \<Rightarrow> char \<Rightarrow> string \<Rightarrow> string" where
  "padStart n c s = replicate (n - length s) c @ s"

lemma of_char_char_of_small: "n < 256 \<Longrightarrow> (of_char (char_of n :: char) :: nat) = n"
  by simp

lemma show_nat_digits: "\<forall>c \<in> set (show_nat n). is_digit c"
proof (induction n rule: show_nat.induct)
  case (1 n)
  then show ?case
    by (subst show_nat.simps) (auto simp: is_digit_def)
qed

lemma show_nat_length: "n < 10 ^ Suc k \<Longrightarrow> length (show_nat n) \<le> Suc k"
proof (induction k arbitrary: n)
  case 0
  then show ?case by (subst show_nat.simps) simp
next
  case (Suc k)
  show ?case
  proof (cases "n < 10")
    case True
    then show ?thesis by (subst show_nat.simps) simp
  next
    case False
    from Suc.prems have "n div 10 < 10 ^ Suc k" by (simp add: less_mult_imp_div_less)
    then have "length (show_nat (n div 10)) \<le> Suc k" by (rule Suc.IH)
    with False show ?thesis by (subst show_nat.simps) simp
  qed
qed

end
