(* ===== verification/Totp.thy ===== *)
theory Totp imports Prelude begin

text \<open>
  \<open>core/auth/two-factor/totp.ts\<close>: base32, the RFC 6238 codes, the otpauth URI and the
  recovery codes. The HMAC of node's crypto is an argument of the definitions that use it
  (bytes to bytes for the codes, strings to a hex digest for the recovery codes), and so are
  the random numbers. Bit operations of JavaScript numbers are those of \<open>32 word\<close>.
\<close>

definition TOTP_DIGITS :: nat where "TOTP_DIGITS = 6"
definition TOTP_PERIOD_SECONDS :: nat where "TOTP_PERIOD_SECONDS = 30"
definition TOTP_WINDOW :: int where "TOTP_WINDOW = 1"

section \<open>Base32\<close>

definition BASE32_ALPHABET :: string where
  "BASE32_ALPHABET = ''ABCDEFGHIJKLMNOPQRSTUVWXYZ234567''"

fun indexOf :: "string \<Rightarrow> char \<Rightarrow> int" where
  "indexOf [] c = -1"
| "indexOf (x # xs) c = (if x = c then 0 else let i = indexOf xs c in if i = -1 then -1 else i + 1)"

definition b32_char :: "32 word \<Rightarrow> char" where
  "b32_char w = nth_or (CHR ''A'') BASE32_ALPHABET (unat (w AND 31))"

text \<open>The inner \<open>while (bits >= 5)\<close>: the bits left and the characters it appends.\<close>

fun b32_emit :: "nat \<Rightarrow> 32 word \<Rightarrow> nat \<times> string" where
  "b32_emit bits val =
     (if 5 \<le> bits
      then let (b, cs) = b32_emit (bits - 5) val in (b, b32_char (drop_bit (bits - 5) val) # cs)
      else (bits, []))"

declare b32_emit.simps [simp del]

fun b32_encode_loop :: "nat \<Rightarrow> 32 word \<Rightarrow> byte list \<Rightarrow> nat \<times> 32 word \<times> string" where
  "b32_encode_loop bits val [] = (bits, val, [])"
| "b32_encode_loop bits val (byte # bytes) =
     (let val' = push_bit 8 val OR ucast byte;
          (bits', cs) = b32_emit (bits + 8) val';
          (b, v, out) = b32_encode_loop bits' val' bytes
      in (b, v, cs @ out))"

definition base32Encode :: "byte list \<Rightarrow> string" where
  "base32Encode bytes =
     (let (bits, val, out) = b32_encode_loop 0 0 bytes
      in if 0 < bits then out @ [b32_char (push_bit (5 - bits) val)] else out)"

definition b32_keep :: "char \<Rightarrow> bool" where
  "b32_keep c = (is_upper c \<or> (let n = of_char c :: nat in 50 \<le> n \<and> n \<le> 55))"

definition b32_clean :: "string \<Rightarrow> string" where
  "b32_clean text = filter b32_keep (toUpperCase text)"

fun b32_decode_loop :: "nat \<Rightarrow> 32 word \<Rightarrow> string \<Rightarrow> byte list" where
  "b32_decode_loop bits val [] = []"
| "b32_decode_loop bits val (c # cs) =
     (let val' = push_bit 5 val OR word_of_int (indexOf BASE32_ALPHABET c);
          bits' = bits + 5
      in if 8 \<le> bits'
         then ucast (drop_bit (bits' - 8) val' AND 255) # b32_decode_loop (bits' - 8) val' cs
         else b32_decode_loop bits' val' cs)"

definition base32Decode :: "string \<Rightarrow> byte list" where
  "base32Decode text = b32_decode_loop 0 0 (b32_clean text)"

text \<open>\<open>rnd\<close>: the 20 bytes \<open>randomBytes(20)\<close> answers.\<close>

definition generateTotpSecret :: "byte list \<Rightarrow> string" where
  "generateTotpSecret rnd = base32Encode rnd"

section \<open>Codes\<close>

text \<open>\<open>Math.floor(at / 1000 / TOTP_PERIOD_SECONDS)\<close>.\<close>

definition totpStep :: "time \<Rightarrow> int" where
  "totpStep at = at div (1000 * int TOTP_PERIOD_SECONDS)"

text \<open>\<open>writeBigUInt64BE\<close>: a val outside the 64-bit range is a \<open>RangeError\<close>.\<close>

definition uint64_be :: "int \<Rightarrow> err + byte list" where
  "uint64_be n =
     (if n < 0 \<or> 2 ^ 64 \<le> n then Inl (Crash ''ERR_OUT_OF_RANGE'')
      else Inr (map (\<lambda>i. word_of_int (n div 256 ^ (7 - i))) [0..<8]))"

definition truncate_digest :: "byte list \<Rightarrow> 32 word" where
  "truncate_digest digest =
     (let offset = unat (nth_or 0 digest (length digest - 1) AND 0x0F);
          at = (\<lambda>i. ucast (nth_or 0 digest (offset + i)) :: 32 word)
      in push_bit 24 (at 0 AND 0x7F) OR push_bit 16 (at 1 AND 0xFF)
         OR push_bit 8 (at 2 AND 0xFF) OR (at 3 AND 0xFF))"

definition totpCode :: "(byte list \<Rightarrow> byte list \<Rightarrow> byte list) \<Rightarrow> string \<Rightarrow> int \<Rightarrow> err + string" where
  "totpCode hmac secret step =
     (case uint64_be step of
        Inl e \<Rightarrow> Inl e
      | Inr counter \<Rightarrow>
          (let digest = hmac (base32Decode secret) counter;
               binary = truncate_digest digest
           in Inr (padStart TOTP_DIGITS (CHR ''0'')
                     (show_nat (unat binary mod 10 ^ TOTP_DIGITS)))))"

definition safeEqual :: "string \<Rightarrow> string \<Rightarrow> bool" where
  "safeEqual a b = (length a = length b \<and> a = b)"

text \<open>The loop over the window's steps, \<open>continue\<close> on the ones already used.\<close>

fun match_steps ::
  "(byte list \<Rightarrow> byte list \<Rightarrow> byte list) \<Rightarrow> string \<Rightarrow> string \<Rightarrow> int option \<Rightarrow> int list \<Rightarrow> err + int option"
where
  "match_steps hmac secret typed lastUsedStep [] = Inr None"
| "match_steps hmac secret typed lastUsedStep (step # steps) =
     (if (case lastUsedStep of None \<Rightarrow> False | Some l \<Rightarrow> step \<le> l)
      then match_steps hmac secret typed lastUsedStep steps
      else case totpCode hmac secret step of
             Inl e \<Rightarrow> Inl e
           | Inr code \<Rightarrow> if safeEqual code typed then Inr (Some step)
                         else match_steps hmac secret typed lastUsedStep steps)"

definition matchTotp ::
  "(byte list \<Rightarrow> byte list \<Rightarrow> byte list) \<Rightarrow> string \<Rightarrow> string \<Rightarrow> int option \<Rightarrow> time \<Rightarrow> err + int option"
where
  "matchTotp hmac secret code lastUsedStep now =
     (let typed = filter (\<lambda>c. \<not> is_space c) code
      in if \<not> (length typed = 6 \<and> (\<forall>c \<in> set typed. is_digit c)) then Inr None
         else let current = totpStep now
              in match_steps hmac secret typed lastUsedStep
                   [current - TOTP_WINDOW .. current + TOTP_WINDOW])"

section \<open>The otpauth URI\<close>

definition hex_digit :: "nat \<Rightarrow> char" where
  "hex_digit n = nth_or (CHR ''0'') ''0123456789ABCDEF'' n"

definition utf8 :: "char \<Rightarrow> nat list" where
  "utf8 c = (let n = of_char c :: nat in
     if n < 128 then [n] else [192 + n div 64, 128 + n mod 64])"

definition percent :: "char \<Rightarrow> string" where
  "percent c = concat (map (\<lambda>b. [CHR ''%'', hex_digit (b div 16), hex_digit (b mod 16)]) (utf8 c))"

definition is_alnum :: "char \<Rightarrow> bool" where
  "is_alnum c = (is_digit c \<or> is_upper c \<or> (let n = of_char c :: nat in 97 \<le> n \<and> n \<le> 122))"

definition encodeURIComponent :: "string \<Rightarrow> string" where
  "encodeURIComponent s =
     concat (map (\<lambda>c. if is_alnum c \<or> c \<in> set ''-_.!~*()'' \<or> of_char c = (39::nat) then [c] else percent c) s)"

definition form_encode :: "string \<Rightarrow> string" where
  "form_encode s =
     concat (map (\<lambda>c. if c = CHR '' '' then ''+''
                      else if is_alnum c \<or> c \<in> set ''*-._'' then [c] else percent c) s)"

definition url_search_params :: "(string \<times> string) list \<Rightarrow> string" where
  "url_search_params ps = join_with ''&'' (map (\<lambda>(k, v). form_encode k @ ''='' @ form_encode v) ps)"

definition otpauthUri :: "string \<Rightarrow> string \<Rightarrow> string \<Rightarrow> string" where
  "otpauthUri issuer email secret =
     (let label = encodeURIComponent (issuer @ '':'' @ email);
          params = [(''secret'', secret), (''issuer'', issuer), (''algorithm'', ''SHA1''),
                    (''digits'', show_nat TOTP_DIGITS), (''period'', show_nat TOTP_PERIOD_SECONDS)]
      in ''otpauth://totp/'' @ label @ ''?'' @ url_search_params params)"

section \<open>Recovery codes\<close>

definition RECOVERY_CODE_COUNT :: nat where "RECOVERY_CODE_COUNT = 8"
definition RECOVERY_ALPHABET :: string where
  "RECOVERY_ALPHABET = ''ABCDEFGHJKLMNPQRSTUVWXYZ23456789''"
definition RECOVERY_LENGTH :: nat where "RECOVERY_LENGTH = 10"

text \<open>\<open>rnd k i\<close>: the number \<open>randomInt(32)\<close> answers for character \<open>i\<close> of code \<open>k\<close>.\<close>

definition recovery_raw :: "(nat \<Rightarrow> nat \<Rightarrow> nat) \<Rightarrow> nat \<Rightarrow> string" where
  "recovery_raw rnd k = map (\<lambda>i. nth_or (CHR ''A'') RECOVERY_ALPHABET (rnd k i)) [0..<RECOVERY_LENGTH]"

definition generateRecoveryCodes :: "(nat \<Rightarrow> nat \<Rightarrow> nat) \<Rightarrow> string list" where
  "generateRecoveryCodes rnd =
     map (\<lambda>k. let raw = recovery_raw rnd k in take 5 raw @ ''-'' @ drop 5 raw) [0..<RECOVERY_CODE_COUNT]"

definition normalizeRecoveryCode :: "string \<Rightarrow> string" where
  "normalizeRecoveryCode code = filter (\<lambda>c. is_upper c \<or> is_digit c) (toUpperCase code)"

text \<open>\<open>hmac key data\<close>: the hex HMAC-SHA256 of \<open>data\<close>.\<close>

definition hashRecoveryCode :: "(string \<Rightarrow> string \<Rightarrow> string) \<Rightarrow> string \<Rightarrow> string \<Rightarrow> string" where
  "hashRecoveryCode hmac code pepper = hmac (''recovery:'' @ pepper) (normalizeRecoveryCode code)"

fun findIndex :: "('a \<Rightarrow> bool) \<Rightarrow> 'a list \<Rightarrow> int" where
  "findIndex P [] = -1"
| "findIndex P (x # xs) = (if P x then 0 else let i = findIndex P xs in if i = -1 then -1 else i + 1)"

definition matchRecoveryCode ::
  "(string \<Rightarrow> string \<Rightarrow> string) \<Rightarrow> string \<Rightarrow> string list \<Rightarrow> string \<Rightarrow> int" where
  "matchRecoveryCode hmac code hashes pepper =
     (let typed = normalizeRecoveryCode code
      in if length typed \<noteq> RECOVERY_LENGTH then -1
         else let hashed = hashRecoveryCode hmac typed pepper
              in findIndex (\<lambda>candidate. safeEqual candidate hashed) hashes)"

section \<open>The bit stream of a base32 text\<close>

definition lowbits :: "nat \<Rightarrow> 'a::len word \<Rightarrow> bool list" where
  "lowbits n w = map (bit w) (rev [0..<n])"

lemma length_lowbits [simp]: "length (lowbits n w) = n"
  by (simp add: lowbits_def)

lemma lowbits_0 [simp]: "lowbits 0 w = []"
  by (simp add: lowbits_def)

lemma upt_shift: "[m..<n + m] = map (\<lambda>i. m + i) [0..<n]"
  by (induction n) auto

lemma lowbits_split: "lowbits (n + m) w = lowbits n (drop_bit m w) @ lowbits m w"
proof -
  have "[0..<n + m] = [0..<m] @ [m..<n + m]"
    by (metis add.commute le_add1 upt_add_eq_append zero_le)
  then have "rev [0..<n + m] = rev (map (\<lambda>i. m + i) [0..<n]) @ rev [0..<m]"
    by (simp add: upt_shift)
  then show ?thesis
    by (simp add: lowbits_def rev_map bit_drop_bit_eq comp_def)
qed

lemma lowbits_cong: "(\<And>i. i < n \<Longrightarrow> bit v i = bit w i) \<Longrightarrow> lowbits n v = lowbits n w"
  by (simp add: lowbits_def)

lemma lowbits_push_or:
  fixes v x :: "'a::len word"
  assumes "n + m \<le> LENGTH('a)" and "\<And>i. m \<le> i \<Longrightarrow> \<not> bit x i"
  shows "lowbits (n + m) (push_bit m v OR x) = lowbits n v @ lowbits m x"
proof -
  have "lowbits n (drop_bit m (push_bit m v OR x)) = lowbits n v"
    using assms by (intro lowbits_cong) (simp add: bit_simps)
  moreover have "lowbits m (push_bit m v OR x) = lowbits m x"
    by (intro lowbits_cong) (simp add: bit_simps)
  ultimately show ?thesis by (simp add: lowbits_split)
qed

lemma lowbits_inj:
  fixes v w :: byte
  assumes "lowbits 8 v = lowbits 8 w" shows "v = w"
proof (rule bit_word_eqI)
  fix i assume "i < LENGTH(8)"
  then have i: "i < 8" by simp
  from assms have "map (bit v) (rev [0..<8]) = map (bit w) (rev [0..<8])"
    by (simp only: lowbits_def)
  with i show "bit v i = bit w i" by (metis atLeastLessThan_iff map_eq_conv set_rev set_upt zero_le)
qed

lemma lowbits_chunks_inj:
  fixes xs ys :: "byte list"
  assumes "length xs = length ys"
    and "concat (map (lowbits 8) xs) @ r = concat (map (lowbits 8) ys) @ r'"
  shows "xs = ys"
  using assms
  by (induction xs ys rule: list_induct2) (auto dest: lowbits_inj)

lemma length_chunks: "length (concat (map (lowbits n) xs)) = n * length xs"
  by (induction xs) auto

definition b32_bits :: "char \<Rightarrow> bool list" where
  "b32_bits c = lowbits 5 (word_of_int (indexOf BASE32_ALPHABET c) :: 32 word)"

lemma length_b32_bits [simp]: "length (b32_bits c) = 5"
  by (simp add: b32_bits_def)

lemma length_alphabet [simp]: "length BASE32_ALPHABET = 32"
  by (simp add: BASE32_ALPHABET_def)

lemma alphabet_index_all:
  "list_all (\<lambda>k. indexOf BASE32_ALPHABET (BASE32_ALPHABET ! k) = int k) [0..<32]"
  by code_simp

lemma alphabet_index: "k < 32 \<Longrightarrow> indexOf BASE32_ALPHABET (BASE32_ALPHABET ! k) = int k"
  using alphabet_index_all by (simp add: list_all_iff)

lemma alphabet_clean_all:
  "list_all (\<lambda>c. upper_char c = [c] \<and> b32_keep c) BASE32_ALPHABET"
  by code_simp

lemma unat_and_31: "unat (w AND 31 :: 32 word) < 32"
proof -
  have "unat (w AND 31) \<le> unat (31 :: 32 word)"
    by (rule word_and_le1 [THEN word_le_nat_alt [THEN iffD1]])
  then show ?thesis by simp
qed

lemma b32_char_in: "b32_char w \<in> set BASE32_ALPHABET"
  using unat_and_31 [of w] by (simp add: b32_char_def)

lemma b32_bits_char: "b32_bits (b32_char w) = lowbits 5 w"
proof -
  have 31: "(31 :: 32 word) = mask 5" by (simp add: mask_eq_exp_minus_1)
  have "(word_of_int (int (unat (w AND 31))) :: 32 word) = w AND 31" by simp
  moreover have "lowbits 5 (w AND 31) = lowbits 5 w"
    unfolding 31 by (intro lowbits_cong) (simp add: bit_simps)
  ultimately show ?thesis
    using unat_and_31 [of w] by (simp add: b32_bits_def b32_char_def alphabet_index)
qed

section \<open>Encoding and decoding keep the stream\<close>

lemma b32_emit_bits:
  "b32_emit bits val = (b, cs) \<Longrightarrow>
   b < 5 \<and> set cs \<subseteq> set BASE32_ALPHABET \<and>
   concat (map b32_bits cs) @ lowbits b val = lowbits bits val"
proof (induction bits val arbitrary: b cs rule: b32_emit.induct)
  case (1 bits val)
  show ?case
  proof (cases "5 \<le> bits")
    case False
    with "1.prems" show ?thesis by (subst (asm) b32_emit.simps) simp
  next
    case True
    obtain b' cs' where rec: "b32_emit (bits - 5) val = (b', cs')" by force
    with True "1.prems" have eq: "b = b'" "cs = b32_char (drop_bit (bits - 5) val) # cs'"
      by (simp_all add: b32_emit.simps [of bits])
    have "lowbits bits val = lowbits 5 (drop_bit (bits - 5) val) @ lowbits (bits - 5) val"
      using lowbits_split [of 5 "bits - 5" val] True by simp
    with "1.IH" [OF True rec] eq show ?thesis
      by (simp add: b32_bits_char b32_char_in)
  qed
qed

lemma b32_encode_loop_bits:
  "bits < 5 \<Longrightarrow> b32_encode_loop bits val bytes = (b, v, out) \<Longrightarrow>
   b < 5 \<and> set out \<subseteq> set BASE32_ALPHABET \<and>
   concat (map b32_bits out) @ lowbits b v = lowbits bits val @ concat (map (lowbits 8) bytes)"
proof (induction bits val bytes arbitrary: b v out rule: b32_encode_loop.induct)
  case (1 bits val)
  then show ?case by simp
next
  case (2 bits val byte bytes)
  let ?v = "push_bit 8 val OR ucast byte :: 32 word"
  obtain bits' cs where emit: "b32_emit (bits + 8) ?v = (bits', cs)" by force
  obtain b' v' out' where rec: "b32_encode_loop bits' ?v bytes = (b', v', out')"
    by (metis prod_cases3)
  from "2.prems"(2) emit rec have eq: "b = b'" "v = v'" "out = cs @ out'"
    by (simp_all add: Let_def)
  have byte: "lowbits 8 (ucast byte :: 32 word) = lowbits 8 byte"
    by (intro lowbits_cong) (simp add: bit_simps)
  have "lowbits (bits + 8) ?v = lowbits bits val @ lowbits 8 byte"
    using "2.prems"(1) byte
    by (subst lowbits_push_or) (auto simp: bit_simps dest: bit_imp_le_length)
  moreover note b32_emit_bits [OF emit]
  moreover have "b' < 5 \<and> set out' \<subseteq> set BASE32_ALPHABET \<and>
    concat (map b32_bits out') @ lowbits b' v' = lowbits bits' ?v @ concat (map (lowbits 8) bytes)"
    using "2.IH" [OF refl emit [symmetric] refl _ rec] b32_emit_bits [OF emit] by simp
  ultimately show ?case using eq by (simp flip: append_assoc) (metis append_assoc)
qed

lemma base32Encode_bits:
  obtains pad where "pad < 5"
    and "set (base32Encode bytes) \<subseteq> set BASE32_ALPHABET"
    and "concat (map b32_bits (base32Encode bytes))
       = concat (map (lowbits 8) bytes) @ replicate pad False"
proof -
  obtain b v out where loop: "b32_encode_loop 0 0 bytes = (b, v, out)" by (metis prod_cases3)
  note inv = b32_encode_loop_bits [OF _ loop, simplified]
  show thesis
  proof (cases "0 < b")
    case False
    with loop inv show thesis by (intro that [of 0]) (simp_all add: base32Encode_def)
  next
    case True
    have "lowbits (b + (5 - b)) (push_bit (5 - b) v OR 0) = lowbits b v @ lowbits (5 - b) (0 :: 32 word)"
      by (rule lowbits_push_or) (use inv in auto)
    moreover have "lowbits (5 - b) (0 :: 32 word) = replicate (5 - b) False"
      by (rule nth_equalityI) (simp_all add: lowbits_def)
    ultimately have "lowbits 5 (push_bit (5 - b) v) = lowbits b v @ replicate (5 - b) False"
      using inv by simp
    with True loop inv show thesis
      by (intro that [of "5 - b"]) (simp_all add: base32Encode_def b32_bits_char b32_char_in flip: append_assoc)
  qed
qed

lemma base32Encode_not_Nil:
  assumes "bytes \<noteq> []"
  shows "base32Encode bytes \<noteq> []"
proof
  assume "base32Encode bytes = []"
  moreover obtain pad where "concat (map b32_bits (base32Encode bytes))
       = concat (map (lowbits 8) bytes) @ replicate pad False"
    by (rule base32Encode_bits)
  ultimately have "length (concat (map (lowbits 8) bytes)) = 0" by simp
  with assms show False by (simp only: length_chunks) simp
qed

lemma b32_decode_loop_bits:
  "bits < 8 \<Longrightarrow> set cs \<subseteq> set BASE32_ALPHABET \<Longrightarrow>
   \<exists>rest. length rest < 8 \<and>
     concat (map (lowbits 8) (b32_decode_loop bits val cs)) @ rest
     = lowbits bits val @ concat (map b32_bits cs)"
proof (induction bits val cs rule: b32_decode_loop.induct)
  case (1 bits val)
  then show ?case by simp
next
  case (2 bits val c cs)
  let ?idx = "word_of_int (indexOf BASE32_ALPHABET c) :: 32 word"
  let ?v = "push_bit 5 val OR ?idx"
  from "2.prems"(2) obtain k where k: "k < 32" "c = BASE32_ALPHABET ! k"
    by (metis in_set_conv_nth length_alphabet list.set_intros(1) subsetD)
  then have "?idx = of_nat k" by (simp add: alphabet_index)
  moreover have "\<not> bit (of_nat k :: 32 word) i" if "5 \<le> i" for i
  proof -
    have "(of_nat k :: 32 word) = take_bit 5 (of_nat k)"
      using k by (intro word_unat_eq_iff [THEN iffD2]) (simp add: unat_of_nat take_bit_eq_mod unat_mod)
    with that show ?thesis by (metis bit_take_bit_iff not_le)
  qed
  ultimately have "lowbits (bits + 5) ?v = lowbits bits val @ b32_bits c"
    using "2.prems"(1) by (subst lowbits_push_or) (auto simp: b32_bits_def)
  note v = this
  show ?case
  proof (cases "8 \<le> bits + 5")
    case False
    with "2.IH"(2) [OF refl refl False] "2.prems" v show ?thesis
      by (simp add: Let_def)
  next
    case True
    have less: "bits - 3 < 8" using "2.prems"(1) by linarith
    have 255: "(255 :: 32 word) = mask 8" by (simp add: mask_eq_exp_minus_1)
    have "lowbits 8 (ucast (drop_bit (bits + 5 - 8) ?v AND 255) :: byte)
        = lowbits 8 (drop_bit (bits + 5 - 8) ?v)"
      unfolding 255 by (intro lowbits_cong) (simp add: bit_simps)
    moreover have "lowbits (bits + 5) ?v
        = lowbits 8 (drop_bit (bits + 5 - 8) ?v) @ lowbits (bits + 5 - 8) ?v"
      using lowbits_split [of 8 "bits + 5 - 8" ?v] True by (simp add: add.commute)
    moreover obtain rest where "length rest < 8"
      "concat (map (lowbits 8) (b32_decode_loop (bits + 5 - 8) ?v cs)) @ rest
        = lowbits (bits + 5 - 8) ?v @ concat (map b32_bits cs)"
      using "2.IH"(1) [OF refl refl True] "2.prems" less by auto
    ultimately show ?thesis using True v
      by (intro exI [of _ rest]) (simp add: Let_def)
  qed
qed

lemma b32_clean_alphabet: "set cs \<subseteq> set BASE32_ALPHABET \<Longrightarrow> b32_clean cs = cs"
proof (induction cs)
  case (Cons c cs)
  then have "upper_char c = [c]" "b32_keep c"
    using alphabet_clean_all by (auto simp: list_all_iff)
  with Cons show ?case by (simp add: b32_clean_def toUpperCase_def)
qed (simp add: b32_clean_def toUpperCase_def)

text \<open>The secret the user types from the base32 text is the secret that was generated:
  decoding an encoding gives the bytes back, whatever their number.\<close>
theorem base32_roundtrip: "base32Decode (base32Encode bytes) = bytes"
proof -
  obtain pad where pad: "pad < 5" "set (base32Encode bytes) \<subseteq> set BASE32_ALPHABET"
    "concat (map b32_bits (base32Encode bytes))
       = concat (map (lowbits 8) bytes) @ replicate pad False"
    by (rule base32Encode_bits)
  let ?out = "b32_decode_loop 0 0 (base32Encode bytes)"
  obtain rest where rest: "length rest < 8"
    "concat (map (lowbits 8) ?out) @ rest = concat (map (lowbits 8) bytes) @ replicate pad False"
    using b32_decode_loop_bits [of 0 "base32Encode bytes" 0] pad by auto
  from arg_cong [where f = length, OF rest(2)] have "8 * length ?out + length rest = 8 * length bytes + pad"
    by (simp add: length_chunks)
  with rest(1) pad(1) have "length ?out = length bytes" by linarith
  then have "?out = bytes" using rest(2) by (rule lowbits_chunks_inj)
  with pad(2) show ?thesis by (simp add: base32Decode_def b32_clean_alphabet)
qed

section \<open>What a code looks like and when it is accepted\<close>

lemma totpCode_shape:
  assumes "totpCode hmac secret step = Inr code"
  shows "length code = 6 \<and> (\<forall>c \<in> set code. is_digit c)"
proof -
  obtain n where n: "code = padStart 6 (CHR ''0'') (show_nat (n mod 10 ^ 6))"
    using assms by (auto simp: totpCode_def TOTP_DIGITS_def Let_def split: sum.splits)
  have "n mod 10 ^ 6 < 10 ^ Suc 5" by simp
  then have "length (show_nat (n mod 10 ^ 6)) \<le> Suc 5" by (rule show_nat_length)
  moreover have "is_digit (CHR ''0'')" by (simp add: is_digit_def)
  ultimately show ?thesis
    using show_nat_digits [of "n mod 10 ^ 6"] by (auto simp: n padStart_def)
qed

lemma totpCode_total:
  "0 \<le> step \<Longrightarrow> step < 2 ^ 64 \<Longrightarrow> \<exists>code. totpCode hmac secret step = Inr code"
  by (simp add: totpCode_def uint64_be_def Let_def)

definition fresh_step :: "int option \<Rightarrow> int \<Rightarrow> bool" where
  "fresh_step lastUsedStep step = (case lastUsedStep of None \<Rightarrow> True | Some l \<Rightarrow> l < step)"

lemma match_steps_eq:
  assumes "\<forall>s \<in> set steps. 0 \<le> s \<and> s < 2 ^ 64"
  shows "match_steps hmac secret typed l steps =
    Inr (List.find (\<lambda>s. fresh_step l s \<and> totpCode hmac secret s = Inr typed) steps)"
  using assms
proof (induction steps)
  case (Cons s steps)
  then obtain code where "totpCode hmac secret s = Inr code"
    using totpCode_total by (metis list.set_intros(1))
  with Cons show ?case by (auto simp: fresh_step_def safeEqual_def split: option.splits)
qed simp

lemma match_steps_sound:
  "match_steps hmac secret typed l steps = Inr (Some s) \<Longrightarrow>
   s \<in> set steps \<and> fresh_step l s \<and> totpCode hmac secret s = Inr typed"
  by (induction steps)
     (auto simp: fresh_step_def safeEqual_def split: option.splits if_splits sum.splits)

lemma matchTotp_sound:
  "matchTotp hmac secret code l now = Inr (Some s) \<Longrightarrow>
   totpStep now - 1 \<le> s \<and> s \<le> totpStep now + 1 \<and> fresh_step l s
   \<and> totpCode hmac secret s = Inr (filter (\<lambda>c. \<not> is_space c) code)"
  by (auto simp: matchTotp_def Let_def TOTP_WINDOW_def dest!: match_steps_sound split: if_splits)

definition in_counter_range :: "time \<Rightarrow> bool" where
  "in_counter_range now = (30000 \<le> now \<and> now < 2 ^ 64 * 30000 - 30000)"

lemma in_counter_range_step:
  "in_counter_range now \<Longrightarrow> 1 \<le> totpStep now \<and> totpStep now < 2 ^ 64 - 1"
  by (auto simp: in_counter_range_def totpStep_def TOTP_PERIOD_SECONDS_def)

lemma window_steps: "[c - 1 .. c + 1] = [c - 1, c, c + 1 :: int]"
  by (simp add: upto.simps)

lemma matchTotp_eq:
  assumes "in_counter_range now"
  shows "matchTotp hmac secret code l now =
    Inr (List.find (\<lambda>s. fresh_step l s \<and> totpCode hmac secret s = Inr (filter (\<lambda>c. \<not> is_space c) code))
           [totpStep now - 1, totpStep now, totpStep now + 1])"
proof -
  let ?typed = "filter (\<lambda>c. \<not> is_space c) code"
  let ?steps = "[totpStep now - 1, totpStep now, totpStep now + 1]"
  let ?P = "\<lambda>s. fresh_step l s \<and> totpCode hmac secret s = Inr ?typed"
  show ?thesis
  proof (cases "length ?typed = 6 \<and> (\<forall>c \<in> set ?typed. is_digit c)")
    case True
    have "match_steps hmac secret ?typed l ?steps = Inr (List.find ?P ?steps)"
      by (rule match_steps_eq) (use in_counter_range_step [OF assms] in auto)
    with True show ?thesis
      by (auto simp: matchTotp_def Let_def TOTP_WINDOW_def window_steps simp del: match_steps.simps find.simps)
  next
    case False
    then have "\<not> ?P s" for s using totpCode_shape by blast
    then have "List.find ?P ?steps = None" by (simp only: find_None_iff) blast
    with False show ?thesis by (simp only: matchTotp_def Let_def simp_thms if_True)
  qed
qed

text \<open>At any time of day an authenticator can reach, \<open>matchTotp\<close> answers the first step of
  the three around the clock that comes after the last step used and whose code is the typed
  text without its spaces, and null when there is none: no code outside the window, no replay
  and no wrong code is accepted, and no right one is refused.\<close>
theorem matchTotp_exact:
  assumes "in_counter_range now"
  shows "matchTotp hmac secret code l now =
    Inr (List.find (\<lambda>s. fresh_step l s \<and> totpCode hmac secret s = Inr (filter (\<lambda>c. \<not> is_space c) code))
           [totpStep now - 1, totpStep now, totpStep now + 1])"
  by (rule matchTotp_eq [OF assms])

theorem matchTotp_exact_witness:
  "matchTotp (\<lambda>key msg. replicate 20 0) ''MFRGG'' ''000 000'' (Some 2) 61000 =
    Inr (List.find (\<lambda>s. fresh_step (Some 2) s \<and> totpCode (\<lambda>key msg. replicate 20 0) ''MFRGG'' s
           = Inr (filter (\<lambda>c. \<not> is_space c) ''000 000'')) [totpStep 61000 - 1, totpStep 61000, totpStep 61000 + 1])"
  by (rule matchTotp_exact) (simp add: in_counter_range_def)

section \<open>Recovery codes typed back\<close>

lemma recovery_alphabet_ok:
  "list_all (\<lambda>c. upper_char c = [c] \<and> upper_char (lower_char c) = [c] \<and> (is_upper c \<or> is_digit c)) RECOVERY_ALPHABET"
  by code_simp

lemma normalize_append [simp]:
  "normalizeRecoveryCode (a @ b) = normalizeRecoveryCode a @ normalizeRecoveryCode b"
  by (simp add: normalizeRecoveryCode_def toUpperCase_def)

lemma normalize_alphabet:
  "set cs \<subseteq> set RECOVERY_ALPHABET \<Longrightarrow> normalizeRecoveryCode cs = cs"
proof (induction cs)
  case (Cons c cs)
  then have "upper_char c = [c]" "is_upper c \<or> is_digit c"
    using recovery_alphabet_ok by (auto simp: list_all_iff)
  with Cons show ?case by (simp add: normalizeRecoveryCode_def toUpperCase_def)
qed (simp add: normalizeRecoveryCode_def toUpperCase_def)

lemma normalize_lower:
  "set cs \<subseteq> set RECOVERY_ALPHABET \<Longrightarrow> normalizeRecoveryCode (toLowerCase cs) = cs"
proof (induction cs)
  case (Cons c cs)
  then have "upper_char (lower_char c) = [c]" "is_upper c \<or> is_digit c"
    using recovery_alphabet_ok by (auto simp: list_all_iff)
  with Cons show ?case by (simp add: normalizeRecoveryCode_def toUpperCase_def toLowerCase_def)
qed (simp add: normalizeRecoveryCode_def toUpperCase_def toLowerCase_def)

lemma recovery_raw_alphabet: "set (recovery_raw rnd k) \<subseteq> set RECOVERY_ALPHABET"
proof -
  have "CHR ''A'' \<in> set RECOVERY_ALPHABET" by (simp add: RECOVERY_ALPHABET_def)
  then show ?thesis by (auto simp: recovery_raw_def nth_or_def)
qed

lemma length_recovery_raw [simp]: "length (recovery_raw rnd k) = RECOVERY_LENGTH"
  by (simp add: recovery_raw_def)

lemma normalize_idem: "normalizeRecoveryCode (normalizeRecoveryCode c) = normalizeRecoveryCode c"
proof (rule trans [OF _ filter_True])
  have "upper_char c = [c]" if "is_upper c \<or> is_digit c" for c
    using that by (auto simp: upper_char_def is_upper_def is_digit_def Let_def)
  then have *: "toUpperCase s = s" if "\<forall>c \<in> set s. is_upper c \<or> is_digit c" for s
    using that by (induction s) (auto simp: toUpperCase_def)
  have "toUpperCase (normalizeRecoveryCode c) = normalizeRecoveryCode c"
    by (rule *) (simp add: normalizeRecoveryCode_def)
  then show "normalizeRecoveryCode (normalizeRecoveryCode c)
      = filter (\<lambda>c. is_upper c \<or> is_digit c) (normalizeRecoveryCode c)"
    by (subst normalizeRecoveryCode_def) simp
qed (simp add: normalizeRecoveryCode_def)

lemma findIndex_spec:
  "findIndex P xs = (case List.find P xs of None \<Rightarrow> -1
     | Some x \<Rightarrow> int (length (takeWhile (\<lambda>y. \<not> P y) xs)))"
  by (induction xs) (auto split: option.splits simp: Let_def)

lemma findIndex_hit:
  "findIndex P xs = int i \<Longrightarrow> i < length xs \<and> P (xs ! i) \<and> (\<forall>j < i. \<not> P (xs ! j))"
proof (induction xs arbitrary: i)
  case (Cons x xs)
  then show ?case
    by (cases i) (auto simp: Let_def less_Suc_eq_0_disj split: if_splits)
qed simp

lemma findIndex_nat: "findIndex P xs = -1 \<or> (\<exists>i. findIndex P xs = int i)"
  by (induction xs) (auto simp: Let_def intro: exI [of _ 0] exI [of _ "Suc _"])

lemma findIndex_miss: "findIndex P xs = -1 \<longleftrightarrow> (\<forall>x \<in> set xs. \<not> P x)"
proof (induction xs)
  case (Cons x xs)
  then show ?case using findIndex_nat [of P xs] by (auto simp: Let_def)
qed simp

lemma matchRecoveryCode_hit:
  "matchRecoveryCode hmac code hashes pepper = int i \<Longrightarrow>
   i < length hashes \<and> hashes ! i = hashRecoveryCode hmac code pepper"
  by (auto simp: matchRecoveryCode_def Let_def hashRecoveryCode_def normalize_idem safeEqual_def
      dest!: findIndex_hit split: if_splits)

lemma generated_code:
  "k < 8 \<Longrightarrow> generateRecoveryCodes rnd ! k = take 5 (recovery_raw rnd k) @ ''-'' @ drop 5 (recovery_raw rnd k)"
  by (simp add: generateRecoveryCodes_def RECOVERY_CODE_COUNT_def Let_def)

lemma length_generated [simp]: "length (generateRecoveryCodes rnd) = 8"
  by (simp add: generateRecoveryCodes_def RECOVERY_CODE_COUNT_def)

lemma normalize_dash [simp]: "normalizeRecoveryCode ''-'' = []" "normalizeRecoveryCode (toLowerCase ''-'') = []"
  by code_simp+

lemma generated_normalizes:
  assumes "k < 8"
  shows "normalizeRecoveryCode (generateRecoveryCodes rnd ! k) = recovery_raw rnd k"
    and "normalizeRecoveryCode (toLowerCase (generateRecoveryCodes rnd ! k)) = recovery_raw rnd k"
    and "normalizeRecoveryCode (recovery_raw rnd k) = recovery_raw rnd k"
proof -
  have sub: "set (take 5 (recovery_raw rnd k)) \<subseteq> set RECOVERY_ALPHABET"
            "set (drop 5 (recovery_raw rnd k)) \<subseteq> set RECOVERY_ALPHABET"
    by (meson recovery_raw_alphabet order_trans set_take_subset set_drop_subset)+
  show "normalizeRecoveryCode (generateRecoveryCodes rnd ! k) = recovery_raw rnd k"
    by (simp only: generated_code [OF assms] normalize_append normalize_dash
        normalize_alphabet [OF sub(1)] normalize_alphabet [OF sub(2)] append_Nil append_take_drop_id)
  have low: "toLowerCase (a @ b) = toLowerCase a @ toLowerCase b" for a b
    by (simp add: toLowerCase_def)
  show "normalizeRecoveryCode (toLowerCase (generateRecoveryCodes rnd ! k)) = recovery_raw rnd k"
    by (simp only: generated_code [OF assms] low normalize_append normalize_dash
        normalize_lower [OF sub(1)] normalize_lower [OF sub(2)] append_Nil append_take_drop_id)
  show "normalizeRecoveryCode (recovery_raw rnd k) = recovery_raw rnd k"
    by (rule normalize_alphabet [OF recovery_raw_alphabet])
qed

lemma matchRecoveryCode_presentation:
  assumes "normalizeRecoveryCode typed = normalizeRecoveryCode code"
  shows "matchRecoveryCode hmac typed hashes pepper = matchRecoveryCode hmac code hashes pepper"
  by (simp add: matchRecoveryCode_def assms)

lemma recovery_code_matches:
  assumes "k < 8"
  shows "\<exists>i < 8. map (\<lambda>c. hashRecoveryCode hmac c pepper) (generateRecoveryCodes rnd) ! i
                 = hashRecoveryCode hmac (generateRecoveryCodes rnd ! k) pepper
     \<and> (\<forall>typed \<in> {generateRecoveryCodes rnd ! k, toLowerCase (generateRecoveryCodes rnd ! k), recovery_raw rnd k}.
          matchRecoveryCode hmac typed (map (\<lambda>c. hashRecoveryCode hmac c pepper) (generateRecoveryCodes rnd)) pepper
            = int i)"
proof -
  let ?code = "generateRecoveryCodes rnd ! k"
  let ?hashes = "map (\<lambda>c. hashRecoveryCode hmac c pepper) (generateRecoveryCodes rnd)"
  have "hashRecoveryCode hmac ?code pepper \<in> set ?hashes"
    using assms by (metis length_generated length_map nth_map nth_mem)
  moreover have "length (normalizeRecoveryCode ?code) = RECOVERY_LENGTH"
    by (simp add: generated_normalizes [OF assms])
  ultimately have "matchRecoveryCode hmac ?code ?hashes pepper \<noteq> -1"
    by (auto simp: matchRecoveryCode_def Let_def findIndex_miss safeEqual_def hashRecoveryCode_def
        normalize_idem)
  then obtain i where i: "matchRecoveryCode hmac ?code ?hashes pepper = int i"
    using findIndex_nat by (auto simp: matchRecoveryCode_def Let_def split: if_splits)
  then have "matchRecoveryCode hmac typed ?hashes pepper = int i"
    if "typed \<in> {?code, toLowerCase ?code, recovery_raw rnd k}" for typed
    using that matchRecoveryCode_presentation [of typed ?code]
    by (auto simp: generated_normalizes [OF assms])
  with matchRecoveryCode_hit [OF i] show ?thesis by (metis length_generated length_map)
qed

text \<open>Each of the eight codes handed out is recognised against the hashes kept of them,
  typed as shown, in lower case or without its dash, whatever the keyed hash: the answer is an
  index holding that code's hash, and it is the same index for every way of typing it.\<close>
theorem recovery_code_typed_back:
  assumes "k < 8"
  shows "\<exists>i < 8. map (\<lambda>c. hashRecoveryCode hmac c pepper) (generateRecoveryCodes rnd) ! i
                 = hashRecoveryCode hmac (generateRecoveryCodes rnd ! k) pepper
     \<and> (\<forall>typed \<in> {generateRecoveryCodes rnd ! k, toLowerCase (generateRecoveryCodes rnd ! k), recovery_raw rnd k}.
          matchRecoveryCode hmac typed (map (\<lambda>c. hashRecoveryCode hmac c pepper) (generateRecoveryCodes rnd)) pepper
            = int i)"
  by (rule recovery_code_matches [OF assms])

theorem recovery_code_typed_back_witness:
  "\<exists>i < 8. map (\<lambda>c. hashRecoveryCode (@) c ''p'') (generateRecoveryCodes (\<lambda>k i. k + i)) ! i
                 = hashRecoveryCode (@) (generateRecoveryCodes (\<lambda>k i. k + i) ! 3) ''p''
     \<and> (\<forall>typed \<in> {generateRecoveryCodes (\<lambda>k i. k + i) ! 3,
                     toLowerCase (generateRecoveryCodes (\<lambda>k i. k + i) ! 3), recovery_raw (\<lambda>k i. k + i) 3}.
          matchRecoveryCode (@) typed (map (\<lambda>c. hashRecoveryCode (@) c ''p'') (generateRecoveryCodes (\<lambda>k i. k + i))) ''p''
            = int i)"
  by (rule recovery_code_typed_back) simp

end
