(* ===== verification/Challenges.thy ===== *)
theory Challenges imports Prelude begin

text \<open>
  The three in-memory stores a sign-in leans on between two requests:
  \<open>core/auth/two-factor/two-factor-challenge.store.ts\<close>,
  \<open>core/auth/mfa/mfa-challenge.store.ts\<close> and
  \<open>core/auth/passport/passport-exchange.store.ts\<close>. A store is the JavaScript \<open>Map\<close> it keeps; the
  random identifier a mint draws and the time are arguments. The contract the three share (a
  mint gives a bounded number of answers, before a deadline, about one account) is the locale
  \<open>bounded_tickets\<close>, interpreted on each of them.
\<close>

section \<open>The second factor's store\<close>

definition TWO_FACTOR_TTL_MS :: time where "TWO_FACTOR_TTL_MS = 5 * 60000"
definition TWO_FACTOR_MAX_ATTEMPTS :: nat where "TWO_FACTOR_MAX_ATTEMPTS = 5"

record tf_challenge =
  tc_accountId :: string
  tc_expiresAt :: time
  tc_attempts :: nat

type_synonym tf_store = "string \<rightharpoonup> tf_challenge"

definition tf_sweep :: "time \<Rightarrow> tf_store \<Rightarrow> tf_store" where
  "tf_sweep now s = map_sweep (\<lambda>e. tc_expiresAt e < now) s"

definition tf_mint :: "string \<Rightarrow> string \<Rightarrow> time \<Rightarrow> tf_store \<Rightarrow> (string \<times> time) \<times> tf_store" where
  "tf_mint challenge accountId now s =
     (let expiresAt = now + TWO_FACTOR_TTL_MS
      in ((challenge, expiresAt),
          (tf_sweep now s)(challenge \<mapsto>
             \<lparr>tc_accountId = accountId, tc_expiresAt = expiresAt, tc_attempts = 0\<rparr>)))"

definition tf_attempt :: "string \<Rightarrow> time \<Rightarrow> tf_store \<Rightarrow> string option \<times> tf_store" where
  "tf_attempt challenge now s =
     (case s challenge of
        None \<Rightarrow> (None, s(challenge := None))
      | Some e \<Rightarrow>
          if tc_expiresAt e < now then (None, s(challenge := None))
          else let e' = e\<lparr>tc_attempts := tc_attempts e + 1\<rparr>
               in if TWO_FACTOR_MAX_ATTEMPTS < tc_attempts e' then (None, s(challenge := None))
                  else (Some (tc_accountId e'), s(challenge \<mapsto> e')))"

definition tf_settle :: "string \<Rightarrow> tf_store \<Rightarrow> tf_store" where
  "tf_settle challenge s = s(challenge := None)"

section \<open>The challenge of a risky sign-in\<close>

definition MFA_TTL_MS :: time where "MFA_TTL_MS = 10 * 60000"
definition MFA_MAX_ATTEMPTS :: nat where "MFA_MAX_ATTEMPTS = 5"

datatype mfa_method = Email | Question

record mfa_challenge =
  mc_accountId :: string
  mc_method :: mfa_method
  mc_codeHash :: "string option"
  mc_expiresAt :: time
  mc_attempts :: nat
  mc_mailSentAt :: "time option"

record mfa_view =
  mv_accountId :: string
  mv_method :: mfa_method
  mv_mailSentAt :: "time option"
  mv_expiresAt :: time

type_synonym mfa_store = "string \<rightharpoonup> mfa_challenge"

definition mfa_hash :: "(string \<Rightarrow> string \<Rightarrow> string) \<Rightarrow> string \<Rightarrow> string" where
  "mfa_hash hmac code = hmac ''mfa-login-code'' code"

text \<open>\<open>code ? f(code) : null\<close>: absent and empty are both falsy.\<close>

definition if_code :: "string option \<Rightarrow> (string \<Rightarrow> 'a) \<Rightarrow> 'a option" where
  "if_code code f = (case code of None \<Rightarrow> None | Some c \<Rightarrow> if c = [] then None else Some (f c))"

definition mfa_view_of :: "mfa_challenge \<Rightarrow> mfa_view" where
  "mfa_view_of e = \<lparr>mv_accountId = mc_accountId e, mv_method = mc_method e,
     mv_mailSentAt = mc_mailSentAt e, mv_expiresAt = mc_expiresAt e\<rparr>"

definition mfa_sweep :: "time \<Rightarrow> mfa_store \<Rightarrow> mfa_store" where
  "mfa_sweep now s = map_sweep (\<lambda>e. mc_expiresAt e < now) s"

definition mfa_mint ::
  "(string \<Rightarrow> string \<Rightarrow> string) \<Rightarrow> string \<Rightarrow> string \<Rightarrow> mfa_method \<Rightarrow> string option \<Rightarrow> time \<Rightarrow> mfa_store
   \<Rightarrow> (string \<times> time) \<times> mfa_store" where
  "mfa_mint hmac challenge accountId method code now s =
     (let expiresAt = now + MFA_TTL_MS
      in ((challenge, expiresAt),
          (mfa_sweep now s)(challenge \<mapsto>
             \<lparr>mc_accountId = accountId, mc_method = method, mc_codeHash = if_code code (mfa_hash hmac),
              mc_expiresAt = expiresAt, mc_attempts = 0, mc_mailSentAt = if_code code (\<lambda>_. now)\<rparr>)))"

definition mfa_peek :: "string \<Rightarrow> time \<Rightarrow> mfa_store \<Rightarrow> mfa_view option \<times> mfa_store" where
  "mfa_peek challenge now s =
     (case s challenge of
        None \<Rightarrow> (None, s(challenge := None))
      | Some e \<Rightarrow> if mc_expiresAt e < now then (None, s(challenge := None))
                  else (Some (mfa_view_of e), s))"

definition mfa_attempt :: "string \<Rightarrow> time \<Rightarrow> mfa_store \<Rightarrow> mfa_view option \<times> mfa_store" where
  "mfa_attempt challenge now s =
     (case s challenge of
        None \<Rightarrow> (None, s(challenge := None))
      | Some e \<Rightarrow>
          if mc_expiresAt e < now then (None, s(challenge := None))
          else let e' = e\<lparr>mc_attempts := mc_attempts e + 1\<rparr>
               in if MFA_MAX_ATTEMPTS < mc_attempts e' then (None, s(challenge := None))
                  else (Some (mfa_view_of e'), s(challenge \<mapsto> e')))"

definition mfa_matches :: "(string \<Rightarrow> string \<Rightarrow> string) \<Rightarrow> string \<Rightarrow> string \<Rightarrow> mfa_store \<Rightarrow> bool" where
  "mfa_matches hmac challenge code s =
     (case s challenge of
        None \<Rightarrow> False
      | Some e \<Rightarrow> (case mc_codeHash e of
                     None \<Rightarrow> False
                   | Some stored \<Rightarrow> stored \<noteq> [] \<and> length (mfa_hash hmac code) = length stored
                                     \<and> mfa_hash hmac code = stored))"

definition mfa_replaceCode :: "(string \<Rightarrow> string \<Rightarrow> string) \<Rightarrow> string \<Rightarrow> string \<Rightarrow> time \<Rightarrow> mfa_store \<Rightarrow> mfa_store" where
  "mfa_replaceCode hmac challenge code now s =
     (case s challenge of
        None \<Rightarrow> s
      | Some e \<Rightarrow> s(challenge \<mapsto> e\<lparr>mc_codeHash := Some (mfa_hash hmac code), mc_mailSentAt := Some now\<rparr>))"

definition mfa_switchTo ::
  "(string \<Rightarrow> string \<Rightarrow> string) \<Rightarrow> string \<Rightarrow> mfa_method \<Rightarrow> string option \<Rightarrow> time \<Rightarrow> mfa_store \<Rightarrow> mfa_store" where
  "mfa_switchTo hmac challenge method code now s =
     (case s challenge of
        None \<Rightarrow> s
      | Some e \<Rightarrow>
          let e1 = e\<lparr>mc_method := method, mc_codeHash := if_code code (mfa_hash hmac)\<rparr>
          in s(challenge \<mapsto> (case if_code code (\<lambda>_. now) of
                                 None \<Rightarrow> e1 | Some t \<Rightarrow> e1\<lparr>mc_mailSentAt := Some t\<rparr>)))"

definition mfa_settle :: "string \<Rightarrow> mfa_store \<Rightarrow> mfa_store" where
  "mfa_settle challenge s = s(challenge := None)"

section \<open>The code a provider's redirect carries\<close>

definition PASSPORT_TTL_MS :: time where "PASSPORT_TTL_MS = 30000"

record passport_code =
  pc_accountId :: string
  pc_expiresAt :: time

type_synonym passport_store = "string \<rightharpoonup> passport_code"

definition passport_sweep :: "time \<Rightarrow> passport_store \<Rightarrow> passport_store" where
  "passport_sweep now s = map_sweep (\<lambda>e. pc_expiresAt e < now) s"

definition passport_mint :: "string \<Rightarrow> string \<Rightarrow> time \<Rightarrow> passport_store \<Rightarrow> string \<times> passport_store" where
  "passport_mint code accountId now s =
     (code, (passport_sweep now s)(code \<mapsto> \<lparr>pc_accountId = accountId, pc_expiresAt = now + PASSPORT_TTL_MS\<rparr>))"

definition passport_claim :: "string \<Rightarrow> time \<Rightarrow> passport_store \<Rightarrow> string option \<times> passport_store" where
  "passport_claim code now s =
     (let s' = s(code := None)
      in case s code of
           None \<Rightarrow> (None, s')
         | Some e \<Rightarrow> if pc_expiresAt e < now then (None, s') else (Some (pc_accountId e), s'))"

section \<open>What the three promise\<close>

text \<open>
  A sequence of operations on a store, and how many of them answered about ticket \<open>k\<close>.
  \<open>answer k op s\<close> is the account and the time an operation answers for \<open>k\<close> in state \<open>s\<close>.
\<close>

fun answers ::
  "('op \<Rightarrow> 's \<Rightarrow> 's) \<Rightarrow> ('k \<Rightarrow> 'op \<Rightarrow> 's \<Rightarrow> (string \<times> time) option) \<Rightarrow> 'k \<Rightarrow> 'op list \<Rightarrow> 's \<Rightarrow> (string \<times> time) list"
where
  "answers exec answer k [] s = []"
| "answers exec answer k (op # ops) s =
     (case answer k op s of None \<Rightarrow> [] | Some a \<Rightarrow> [a]) @ answers exec answer k ops (exec op s)"

locale bounded_tickets =
  fixes exec :: "'op \<Rightarrow> 's \<Rightarrow> 's"
    and answer :: "'k \<Rightarrow> 'op \<Rightarrow> 's \<Rightarrow> (string \<times> time) option"
    and mints :: "'k \<Rightarrow> 'op \<Rightarrow> bool"
    and budget :: "'s \<Rightarrow> 'k \<Rightarrow> nat"
    and ticket :: "'s \<Rightarrow> 'k \<Rightarrow> (string \<times> time) option"
  assumes spend: "answer k op s \<noteq> None \<Longrightarrow> Suc (budget (exec op s) k) \<le> budget s k"
    and keep: "\<not> mints k op \<Longrightarrow> budget (exec op s) k \<le> budget s k"
    and honest: "answer k op s = Some (a, now) \<Longrightarrow> \<exists>d. ticket s k = Some (a, d) \<and> now \<le> d"
    and frozen: "\<not> mints k op \<Longrightarrow> ticket (exec op s) k = None \<or> ticket (exec op s) k = ticket s k"
begin

lemma answers_bounded:
  "\<forall>op \<in> set ops. \<not> mints k op \<Longrightarrow>
   length (answers exec answer k ops s) + budget (fold exec ops s) k \<le> budget s k"
proof (induction ops arbitrary: s)
  case (Cons op ops)
  then have "length (answers exec answer k ops (exec op s)) + budget (fold exec ops (exec op s)) k
      \<le> budget (exec op s) k" by simp
  moreover have "\<not> mints k op" using Cons.prems by simp
  ultimately show ?case
    using spend [of k op s] keep [of k op s] by (auto split: option.splits)
qed simp

lemma answers_honest:
  "\<forall>op \<in> set ops. \<not> mints k op \<Longrightarrow> (a, now) \<in> set (answers exec answer k ops s) \<Longrightarrow>
   \<exists>d. ticket s k = Some (a, d) \<and> now \<le> d"
proof (induction ops arbitrary: s)
  case (Cons op ops)
  show ?case
  proof (cases "answer k op s = Some (a, now)")
    case True
    then show ?thesis by (rule honest)
  next
    case False
    with Cons.prems have "(a, now) \<in> set (answers exec answer k ops (exec op s))"
      by (auto split: option.splits)
    then obtain d where "ticket (exec op s) k = Some (a, d)" "now \<le> d"
      using Cons by auto
    with frozen [of k op s] Cons.prems(1) show ?thesis by (metis list.set_intros(1) option.distinct(1))
  qed
qed simp

end

section \<open>The stores keep the promise\<close>

datatype tf_op = TfMint string string time | TfAttempt string time | TfSettle string

fun tf_exec :: "tf_op \<Rightarrow> tf_store \<Rightarrow> tf_store" where
  "tf_exec (TfMint c a now) s = snd (tf_mint c a now s)"
| "tf_exec (TfAttempt c now) s = snd (tf_attempt c now s)"
| "tf_exec (TfSettle c) s = tf_settle c s"

fun tf_answer :: "string \<Rightarrow> tf_op \<Rightarrow> tf_store \<Rightarrow> (string \<times> time) option" where
  "tf_answer k (TfAttempt c now) s =
     (if c = k then map_option (\<lambda>a. (a, now)) (fst (tf_attempt c now s)) else None)"
| "tf_answer k op s = None"

fun tf_mints :: "string \<Rightarrow> tf_op \<Rightarrow> bool" where
  "tf_mints k (TfMint c a now) = (c = k)"
| "tf_mints k op = False"

definition tf_budget :: "tf_store \<Rightarrow> string \<Rightarrow> nat" where
  "tf_budget s k = (case s k of None \<Rightarrow> 0 | Some e \<Rightarrow> TWO_FACTOR_MAX_ATTEMPTS - tc_attempts e)"

definition tf_ticket :: "tf_store \<Rightarrow> string \<Rightarrow> (string \<times> time) option" where
  "tf_ticket s k = map_option (\<lambda>e. (tc_accountId e, tc_expiresAt e)) (s k)"

lemmas tf_store_defs = tf_mint_def tf_attempt_def tf_settle_def tf_budget_def tf_ticket_def tf_sweep_def
  map_sweep_def Let_def

interpretation tfs: bounded_tickets tf_exec tf_answer tf_mints tf_budget tf_ticket
proof
  fix k op s a now
  show "tf_answer k op s \<noteq> None \<Longrightarrow> Suc (tf_budget (tf_exec op s) k) \<le> tf_budget s k"
    by (cases op) (auto simp: tf_store_defs split: option.splits if_splits)
  show "\<not> tf_mints k op \<Longrightarrow> tf_budget (tf_exec op s) k \<le> tf_budget s k"
    by (cases op) (auto simp: tf_store_defs split: option.splits if_splits)
  show "tf_answer k op s = Some (a, now) \<Longrightarrow> \<exists>d. tf_ticket s k = Some (a, d) \<and> now \<le> d"
    by (cases op) (auto simp: tf_store_defs split: option.splits if_splits)
  show "\<not> tf_mints k op \<Longrightarrow> tf_ticket (tf_exec op s) k = None \<or> tf_ticket (tf_exec op s) k = tf_ticket s k"
    by (cases op) (auto simp: tf_store_defs split: option.splits if_splits)
qed

datatype mfa_op =
    MfaMint string string mfa_method "string option" time
  | MfaPeek string time | MfaAttempt string time
  | MfaReplaceCode string string time
  | MfaSwitchTo string mfa_method "string option" time
  | MfaSettle string

fun mfa_exec :: "(string \<Rightarrow> string \<Rightarrow> string) \<Rightarrow> mfa_op \<Rightarrow> mfa_store \<Rightarrow> mfa_store" where
  "mfa_exec h (MfaMint c a m code now) s = snd (mfa_mint h c a m code now s)"
| "mfa_exec h (MfaPeek c now) s = snd (mfa_peek c now s)"
| "mfa_exec h (MfaAttempt c now) s = snd (mfa_attempt c now s)"
| "mfa_exec h (MfaReplaceCode c code now) s = mfa_replaceCode h c code now s"
| "mfa_exec h (MfaSwitchTo c m code now) s = mfa_switchTo h c m code now s"
| "mfa_exec h (MfaSettle c) s = mfa_settle c s"

fun mfa_answer :: "string \<Rightarrow> mfa_op \<Rightarrow> mfa_store \<Rightarrow> (string \<times> time) option" where
  "mfa_answer k (MfaAttempt c now) s =
     (if c = k then map_option (\<lambda>v. (mv_accountId v, now)) (fst (mfa_attempt c now s)) else None)"
| "mfa_answer k op s = None"

fun mfa_mints :: "string \<Rightarrow> mfa_op \<Rightarrow> bool" where
  "mfa_mints k (MfaMint c a m code now) = (c = k)"
| "mfa_mints k op = False"

definition mfa_budget :: "mfa_store \<Rightarrow> string \<Rightarrow> nat" where
  "mfa_budget s k = (case s k of None \<Rightarrow> 0 | Some e \<Rightarrow> MFA_MAX_ATTEMPTS - mc_attempts e)"

definition mfa_ticket :: "mfa_store \<Rightarrow> string \<Rightarrow> (string \<times> time) option" where
  "mfa_ticket s k = map_option (\<lambda>e. (mc_accountId e, mc_expiresAt e)) (s k)"

lemmas mfa_store_defs = mfa_mint_def mfa_peek_def mfa_attempt_def mfa_replaceCode_def mfa_switchTo_def
  mfa_settle_def mfa_budget_def mfa_ticket_def mfa_sweep_def mfa_view_of_def map_sweep_def Let_def

interpretation mfas: bounded_tickets "mfa_exec h" mfa_answer mfa_mints mfa_budget mfa_ticket for h
proof
  fix k op s a now
  show "mfa_answer k op s \<noteq> None \<Longrightarrow> Suc (mfa_budget (mfa_exec h op s) k) \<le> mfa_budget s k"
    by (cases op) (auto simp: mfa_store_defs split: option.splits if_splits)
  show "\<not> mfa_mints k op \<Longrightarrow> mfa_budget (mfa_exec h op s) k \<le> mfa_budget s k"
    by (cases op) (auto simp: mfa_store_defs split: option.splits if_splits)
  show "mfa_answer k op s = Some (a, now) \<Longrightarrow> \<exists>d. mfa_ticket s k = Some (a, d) \<and> now \<le> d"
    by (cases op) (auto simp: mfa_store_defs split: option.splits if_splits)
  show "\<not> mfa_mints k op \<Longrightarrow> mfa_ticket (mfa_exec h op s) k = None \<or> mfa_ticket (mfa_exec h op s) k = mfa_ticket s k"
    by (cases op) (auto simp: mfa_store_defs split: option.splits if_splits)
qed

datatype passport_op = PassportMint string string time | PassportClaim string time

fun passport_exec :: "passport_op \<Rightarrow> passport_store \<Rightarrow> passport_store" where
  "passport_exec (PassportMint c a now) s = snd (passport_mint c a now s)"
| "passport_exec (PassportClaim c now) s = snd (passport_claim c now s)"

fun passport_answer :: "string \<Rightarrow> passport_op \<Rightarrow> passport_store \<Rightarrow> (string \<times> time) option" where
  "passport_answer k (PassportClaim c now) s =
     (if c = k then map_option (\<lambda>a. (a, now)) (fst (passport_claim c now s)) else None)"
| "passport_answer k op s = None"

fun passport_mints :: "string \<Rightarrow> passport_op \<Rightarrow> bool" where
  "passport_mints k (PassportMint c a now) = (c = k)"
| "passport_mints k op = False"

definition passport_budget :: "passport_store \<Rightarrow> string \<Rightarrow> nat" where
  "passport_budget s k = (if s k = None then 0 else 1)"

definition passport_ticket :: "passport_store \<Rightarrow> string \<Rightarrow> (string \<times> time) option" where
  "passport_ticket s k = map_option (\<lambda>e. (pc_accountId e, pc_expiresAt e)) (s k)"

lemmas passport_store_defs = passport_mint_def passport_claim_def passport_budget_def passport_ticket_def
  passport_sweep_def map_sweep_def Let_def

interpretation passports: bounded_tickets passport_exec passport_answer passport_mints passport_budget passport_ticket
proof
  fix k op s a now
  show "passport_answer k op s \<noteq> None \<Longrightarrow> Suc (passport_budget (passport_exec op s) k) \<le> passport_budget s k"
    by (cases op) (auto simp: passport_store_defs split: option.splits if_splits)
  show "\<not> passport_mints k op \<Longrightarrow> passport_budget (passport_exec op s) k \<le> passport_budget s k"
    by (cases op) (auto simp: passport_store_defs split: option.splits if_splits)
  show "passport_answer k op s = Some (a, now) \<Longrightarrow> \<exists>d. passport_ticket s k = Some (a, d) \<and> now \<le> d"
    by (cases op) (auto simp: passport_store_defs split: option.splits if_splits)
  show "\<not> passport_mints k op \<Longrightarrow> passport_ticket (passport_exec op s) k = None \<or> passport_ticket (passport_exec op s) k = passport_ticket s k"
    by (cases op) (auto simp: passport_store_defs split: option.splits if_splits)
qed

section \<open>What a minted ticket is worth\<close>

text \<open>Whatever is done to the second factor's store after a challenge is minted, other than
  minting the same identifier again, it answers at most five times, always for the account it was
  minted for and never after its five minutes; and tries made in time do answer, up to the fifth.\<close>
theorem tf_challenge_five_tries:
  assumes "\<forall>op \<in> set ops. \<not> tf_mints c op" and "\<forall>t \<in> set ts. t \<le> now + TWO_FACTOR_TTL_MS"
  shows "length (answers tf_exec tf_answer c ops (snd (tf_mint c a now s))) \<le> 5
    \<and> (\<forall>(a', t) \<in> set (answers tf_exec tf_answer c ops (snd (tf_mint c a now s))).
         a' = a \<and> t \<le> now + TWO_FACTOR_TTL_MS)
    \<and> answers tf_exec tf_answer c (map (TfAttempt c) ts) (snd (tf_mint c a now s))
        = map (Pair a) (take 5 ts)"
proof -
  let ?s = "snd (tf_mint c a now s)"
  have b: "tf_budget ?s c = 5" and t: "tf_ticket ?s c = Some (a, now + TWO_FACTOR_TTL_MS)"
    by (simp_all add: tf_store_defs TWO_FACTOR_MAX_ATTEMPTS_def)
  have "answers tf_exec tf_answer c (map (TfAttempt c) ts) s'
      = map (Pair a) (take (5 - tc_attempts e) ts)"
    if "s' c = Some e" "tc_accountId e = a" "tc_expiresAt e = now + TWO_FACTOR_TTL_MS" "tc_attempts e \<le> 5" for s' e
    using that assms(2)
  proof (induction ts arbitrary: s' e)
    case (Cons x xs)
    show ?case
    proof (cases "tc_attempts e = 5")
      case True
      have gone: "answers tf_exec tf_answer c (map (TfAttempt c) ys) s'' = []" if "s'' c = None" for ys s''
        using that by (induction ys arbitrary: s'') (auto simp: tf_attempt_def)
      from True Cons.prems show ?thesis
        by (auto simp: tf_attempt_def Let_def TWO_FACTOR_MAX_ATTEMPTS_def gone)
    next
      case False
      then have "take (5 - tc_attempts e) (x # xs) = x # take (5 - Suc (tc_attempts e)) xs"
        using Cons.prems(4) by (simp add: Suc_diff_Suc take_Cons')
      moreover have "fst (tf_attempt c x s') = Some a"
        using False Cons.prems by (auto simp: tf_attempt_def Let_def TWO_FACTOR_MAX_ATTEMPTS_def)
      moreover have "snd (tf_attempt c x s') c = Some (e\<lparr>tc_attempts := Suc (tc_attempts e)\<rparr>)"
        using False Cons.prems by (auto simp: tf_attempt_def Let_def TWO_FACTOR_MAX_ATTEMPTS_def)
      ultimately show ?thesis
        using Cons.IH [of "snd (tf_attempt c x s')" "e\<lparr>tc_attempts := Suc (tc_attempts e)\<rparr>"] Cons.prems False
        by auto
    qed
  qed simp
  then have "answers tf_exec tf_answer c (map (TfAttempt c) ts) ?s = map (Pair a) (take 5 ts)"
    by (simp add: tf_mint_def Let_def)
  with tfs.answers_bounded [OF assms(1), of ?s] tfs.answers_honest [OF assms(1), where s = ?s] b t
  show ?thesis by fastforce
qed

theorem tf_challenge_five_tries_witness:
  "length (answers tf_exec tf_answer ''c'' [TfAttempt ''c'' 5, TfSettle ''d'', TfAttempt ''c'' 6]
       (snd (tf_mint ''c'' ''a'' 0 (\<lambda>_. None)))) \<le> 5"
  by (rule tf_challenge_five_tries [where ts = "[5]", THEN conjunct1]) (simp_all add: TWO_FACTOR_TTL_MS_def)

text \<open>The challenge of a risky sign-in answers at most five times, for its own account and
  within its ten minutes, whatever peeks, resends, switches of proof and settlements come between:
  neither a new code nor another proof gives a try back or moves the deadline.\<close>
theorem mfa_challenge_five_tries:
  assumes "\<forall>op \<in> set ops. \<not> mfa_mints c op"
  shows "length (answers (mfa_exec h) mfa_answer c ops (snd (mfa_mint h c a m code now s))) \<le> 5
    \<and> (\<forall>(a', t) \<in> set (answers (mfa_exec h) mfa_answer c ops (snd (mfa_mint h c a m code now s))).
         a' = a \<and> t \<le> now + MFA_TTL_MS)"
proof -
  let ?s = "snd (mfa_mint h c a m code now s)"
  have b: "mfa_budget ?s c = 5" and t: "mfa_ticket ?s c = Some (a, now + MFA_TTL_MS)"
    by (simp_all add: mfa_store_defs MFA_MAX_ATTEMPTS_def)
  from mfas.answers_bounded [OF assms, where s = ?s and h = h] mfas.answers_honest [OF assms, where s = ?s and h = h] b t
  show ?thesis by fastforce
qed

theorem mfa_challenge_five_tries_witness:
  "length (answers (mfa_exec (@)) mfa_answer ''c''
       [MfaAttempt ''c'' 5, MfaSwitchTo ''c'' Question None 6, MfaAttempt ''c'' 7]
       (snd (mfa_mint (@) ''c'' ''a'' Email (Some ''123456'') 0 (\<lambda>_. None)))) \<le> 5"
  by (rule mfa_challenge_five_tries [THEN conjunct1]) simp

text \<open>The code of a provider's redirect opens one session at most: after it is minted, any run
  of claims and mints of other codes gets at most one answer for it, the account it was minted
  for, and within thirty seconds.\<close>
theorem passport_code_single_use:
  assumes "\<forall>op \<in> set ops. \<not> passport_mints c op"
  shows "length (answers passport_exec passport_answer c ops (snd (passport_mint c a now s))) \<le> 1
    \<and> (\<forall>(a', t) \<in> set (answers passport_exec passport_answer c ops (snd (passport_mint c a now s))).
         a' = a \<and> t \<le> now + PASSPORT_TTL_MS)"
proof -
  let ?s = "snd (passport_mint c a now s)"
  have b: "passport_budget ?s c = 1" and t: "passport_ticket ?s c = Some (a, now + PASSPORT_TTL_MS)"
    by (simp_all add: passport_store_defs)
  from passports.answers_bounded [OF assms, of ?s] passports.answers_honest [OF assms, where s = ?s] b t
  show ?thesis by fastforce
qed

theorem passport_code_single_use_witness:
  "length (answers passport_exec passport_answer ''c'' [PassportClaim ''c'' 5, PassportClaim ''c'' 6]
       (snd (passport_mint ''c'' ''a'' 0 (\<lambda>_. None)))) \<le> 1"
  by (rule passport_code_single_use [THEN conjunct1]) simp

end
