(* ===== verification/Cipher.thy ===== *)
theory Cipher imports Prelude begin

text \<open>
  \<open>core/auth/api-token/api-token.cipher.ts\<close>: the sealing of the secrets kept in the database,
  with the base64url of node's \<open>Buffer\<close>. AES-256-GCM and SHA-256 are arguments:
  \<open>gcm_seal key iv text\<close> answers the tag and the ciphertext, \<open>gcm_open key iv tag ciphertext\<close>
  the text, or nothing when node's \<open>final()\<close> throws.
\<close>

section \<open>base64url\<close>

definition B64_ALPHABET :: string where
  "B64_ALPHABET = ''ABCDEFGHIJKLMNOPQRSTUVWXYZabcdefghijklmnopqrstuvwxyz0123456789-_''"

definition b64_char :: "nat \<Rightarrow> char" where
  "b64_char n = nth_or (CHR ''A'') B64_ALPHABET n"

fun index_of :: "char \<Rightarrow> string \<Rightarrow> nat" where
  "index_of c [] = 0"
| "index_of c (x # xs) = (if x = c then 0 else Suc (index_of c xs))"

definition b64_value :: "char \<Rightarrow> nat" where
  "b64_value c = index_of c B64_ALPHABET"

fun b64_encode :: "byte list \<Rightarrow> string" where
  "b64_encode [] = []"
| "b64_encode [a] = [b64_char (unat a div 4), b64_char (unat a mod 4 * 16)]"
| "b64_encode [a, b] =
     [b64_char (unat a div 4), b64_char (unat a mod 4 * 16 + unat b div 16), b64_char (unat b mod 16 * 4)]"
| "b64_encode (a # b # c # rest) =
     b64_char (unat a div 4) # b64_char (unat a mod 4 * 16 + unat b div 16)
     # b64_char (unat b mod 16 * 4 + unat c div 64) # b64_char (unat c mod 64) # b64_encode rest"

text \<open>Characters outside the alphabet are skipped, and a lone last character gives no byte.\<close>

fun b64_values_decode :: "nat list \<Rightarrow> byte list" where
  "b64_values_decode (p # q # r # s # rest) =
     of_nat (p * 4 + q div 16) # of_nat (q mod 16 * 16 + r div 4) # of_nat (r mod 4 * 64 + s)
     # b64_values_decode rest"
| "b64_values_decode [p, q, r] = [of_nat (p * 4 + q div 16), of_nat (q mod 16 * 16 + r div 4)]"
| "b64_values_decode [p, q] = [of_nat (p * 4 + q div 16)]"
| "b64_values_decode vs = []"

definition b64_decode :: "string \<Rightarrow> byte list" where
  "b64_decode text = b64_values_decode (map b64_value (filter (\<lambda>c. c \<in> set B64_ALPHABET) text))"

lemma b64_value_char_all: "list_all (\<lambda>n. b64_value (b64_char n) = n \<and> b64_char n \<in> set B64_ALPHABET) [0..<64]"
  by code_simp

lemma b64_value_char [simp]: "n < 64 \<Longrightarrow> b64_value (b64_char n) = n"
  and b64_char_in [simp]: "n < 64 \<Longrightarrow> b64_char n \<in> set B64_ALPHABET"
  using b64_value_char_all by (auto simp: list_all_iff)

lemma unat_byte_less: "unat (a :: byte) < 256"
  using unsigned_less [of a, where 'a = nat] by simp

lemma byte_quotients [simp]:
  fixes a :: byte
  shows "unat a div 4 < 64" "unat a div 16 < 16" "unat a div 64 < 4"
  using unat_byte_less [of a] by simp_all

lemma shifted_bounds [simp]:
  fixes m n k x :: nat
  shows "n mod 4 * 16 < 64" "n mod 16 * 4 < 64"
    "x < 16 \<Longrightarrow> n mod 4 * 16 + x < 64" "x < 4 \<Longrightarrow> n mod 16 * 4 + x < 64"
proof -
  have "n mod 4 \<le> 3" "n mod 16 \<le> 15" by simp_all
  then show "n mod 4 * 16 < 64" "n mod 16 * 4 < 64"
    "x < 16 \<Longrightarrow> n mod 4 * 16 + x < 64" "x < 4 \<Longrightarrow> n mod 16 * 4 + x < 64"
    by linarith+
qed

lemma byte_pieces:
  fixes a b c :: byte
  shows "(of_nat (unat a div 4 * 4 + (unat a mod 4 * 16 + unat b div 16) div 16) :: byte) = a"
    and "(of_nat (unat a div 4 * 4 + unat a mod 4 * 16 div 16) :: byte) = a"
    and "(of_nat ((unat a mod 4 * 16 + unat b div 16) mod 16 * 16 + (unat b mod 16 * 4 + unat c div 64) div 4) :: byte) = b"
    and "(of_nat ((unat a mod 4 * 16 + unat b div 16) mod 16 * 16 + unat b mod 16 * 4 div 4) :: byte) = b"
    and "(of_nat ((unat b mod 16 * 4 + unat c div 64) mod 4 * 64 + unat c mod 64) :: byte) = c"
  by (simp_all only: div_mult_self3 mod_mult_self3 div_less mod_less byte_quotients add_0_right
      div_mult_mod_eq nonzero_mult_div_cancel_right zero_neq_numeral [symmetric] not_False_eq_True
      numeral_neq_zero of_nat_unat ucast_id)

lemma b64_encode_alphabet: "set (b64_encode bs) \<subseteq> set B64_ALPHABET"
  by (induction bs rule: b64_encode.induct) auto

lemma b64_encode_values: "b64_values_decode (map b64_value (b64_encode bs)) = bs"
  by (induction bs rule: b64_encode.induct) (simp_all only: b64_encode.simps list.map b64_value_char
      byte_quotients shifted_bounds mod_less_divisor zero_less_numeral b64_values_decode.simps byte_pieces)

lemma b64_round_trip [simp]: "b64_decode (b64_encode bs) = bs"
proof -
  have "filter (\<lambda>c. c \<in> set B64_ALPHABET) (b64_encode bs) = b64_encode bs"
    using b64_encode_alphabet [of bs] by (simp add: filter_id_conv subset_iff)
  then show ?thesis by (simp add: b64_decode_def b64_encode_values)
qed

lemma b64_encode_Nil [simp]: "b64_encode bs = [] \<longleftrightarrow> bs = []"
  by (cases bs rule: b64_encode.cases) simp_all

section \<open>Sealing\<close>

text \<open>What the program takes from node's crypto and from its environment.\<close>

record crypto =
  cr_pepper :: "string option"
  cr_sha256 :: "string \<Rightarrow> byte list"
  cr_seal :: "byte list \<Rightarrow> byte list \<Rightarrow> string \<Rightarrow> byte list \<times> byte list"
  cr_open :: "byte list \<Rightarrow> byte list \<Rightarrow> byte list \<Rightarrow> byte list \<Rightarrow> string option"
  cr_hmac_sha1 :: "byte list \<Rightarrow> byte list \<Rightarrow> byte list"
  cr_hmac_sha256 :: "string \<Rightarrow> string \<Rightarrow> string"

definition CIPHER_VERSION :: string where "CIPHER_VERSION = ''v1''"

definition cipherKey :: "crypto \<Rightarrow> string \<Rightarrow> byte list" where
  "cipherKey cr pepper = cr_sha256 cr (''cipher:'' @ pepper)"

text \<open>\<open>iv\<close>: the twelve random bytes.\<close>

definition encryptSecret :: "crypto \<Rightarrow> byte list \<Rightarrow> string \<Rightarrow> string \<Rightarrow> string" where
  "encryptSecret cr iv secret pepper =
     (let (tag, encrypted) = cr_seal cr (cipherKey cr pepper) iv secret
      in join_with ''$'' [CIPHER_VERSION, b64_encode iv, b64_encode tag, b64_encode encrypted])"

definition decryptSecret :: "crypto \<Rightarrow> string \<Rightarrow> string \<Rightarrow> string option" where
  "decryptSecret cr payload pepper =
     (let parts = split_on (CHR ''$'') payload;
          version = nth_or [] parts 0; iv = nth_or [] parts 1;
          tag = nth_or [] parts 2; encrypted = nth_or [] parts 3
      in if version \<noteq> CIPHER_VERSION \<or> iv = [] \<or> tag = [] \<or> encrypted = [] then None
         else cr_open cr (cipherKey cr pepper) (b64_decode iv) (b64_decode tag) (b64_decode encrypted))"

text \<open>What AES-GCM documents: the tag opens what it sealed, and neither it nor a ciphertext of
  some text is empty.\<close>

definition gcm_lawful :: "crypto \<Rightarrow> bool" where
  "gcm_lawful cr = (\<forall>key iv secret. secret \<noteq> [] \<longrightarrow>
     (case cr_seal cr key iv secret of (tag, encrypted) \<Rightarrow>
        tag \<noteq> [] \<and> encrypted \<noteq> [] \<and> cr_open cr key iv tag encrypted = Some secret))"

lemma dollar_not_in_b64: "CHR ''$'' \<notin> set (b64_encode bs)"
proof -
  have "CHR ''$'' \<notin> set B64_ALPHABET" by (simp add: B64_ALPHABET_def)
  then show ?thesis using b64_encode_alphabet [of bs] by blast
qed

lemma decrypt_encrypt:
  assumes "gcm_lawful cr" "secret \<noteq> []" "iv \<noteq> []"
  shows "decryptSecret cr (encryptSecret cr iv secret pepper) pepper = Some secret"
proof -
  obtain tag enc where seal: "cr_seal cr (cipherKey cr pepper) iv secret = (tag, enc)" by force
  with assms have ok: "tag \<noteq> []" "enc \<noteq> []" "cr_open cr (cipherKey cr pepper) iv tag enc = Some secret"
    unfolding gcm_lawful_def by (metis (mono_tags, lifting) case_prod_conv)+
  have "split_on (CHR ''$'') (encryptSecret cr iv secret pepper)
      = [CIPHER_VERSION, b64_encode iv, b64_encode tag, b64_encode enc]"
    unfolding encryptSecret_def seal
    by (simp only: Let_def case_prod_conv, rule split_on_join)
       (auto simp: dollar_not_in_b64 CIPHER_VERSION_def)
  with ok assms(3) show ?thesis by (simp add: decryptSecret_def Let_def)
qed

text \<open>A secret sealed for the database opens again with the same pepper, AES-GCM opening what
  it seals: joining the four base64url parts with dollars and splitting them back loses nothing.\<close>
theorem sealed_secret_opens:
  assumes "gcm_lawful cr" and "secret \<noteq> []" and "length iv = 12"
  shows "decryptSecret cr (encryptSecret cr iv secret pepper) pepper = Some secret"
  using assms by (intro decrypt_encrypt) auto

definition toy_crypto :: crypto where
  "toy_crypto = \<lparr>cr_pepper = Some ''pepper'', cr_sha256 = (\<lambda>s. map (\<lambda>c. of_nat (of_char c)) s),
     cr_seal = (\<lambda>key iv s. ([1], map (\<lambda>c. of_nat (of_char c)) s)),
     cr_open = (\<lambda>key iv tag enc. Some (map (\<lambda>b. char_of (unat b)) enc)),
     cr_hmac_sha1 = (\<lambda>key msg. replicate 20 0), cr_hmac_sha256 = (\<lambda>key s. key @ s)\<rparr>"

lemma toy_gcm: "gcm_lawful toy_crypto"
proof -
  have "unat (of_nat (of_char c) :: byte) = of_char c" for c
  proof -
    have "(of_char c :: nat) < 256" by simp
    then show ?thesis by (simp add: unat_of_nat)
  qed
  then show ?thesis by (simp add: gcm_lawful_def toy_crypto_def comp_def)
qed

theorem sealed_secret_opens_witness:
  "decryptSecret toy_crypto (encryptSecret toy_crypto (replicate 12 7) ''secret'' ''p'') ''p'' = Some ''secret''"
  by (rule sealed_secret_opens [OF toy_gcm]) simp_all

end
