(* ===== verification/Activity.thy ===== *)
theory Activity imports Prelude begin

text \<open>
  \<open>core/activity/activity-log.service.ts\<close> and \<open>activity-context.ts\<close>: the lines other services
  write. The journal is the list of its rows; a failing insert is swallowed by the code, so
  recording is a total function. The free-form details of a line, its ip and its user agent are
  left out, being read by nothing but a listing.
\<close>

text \<open>The request's own account, when there is a request and the auth guard has set one.\<close>

type_synonym activity_context = "string option"

text \<open>\<open>None\<close> is a field left out (\<open>undefined\<close>), \<open>Some None\<close> an explicit \<open>null\<close>.\<close>

record activity_input =
  ai_action :: string
  ai_actorId :: "string option option"
  ai_subjectId :: "string option option"
  ai_entity :: "(string \<times> string) option"

record activity_row =
  al_action :: string
  al_actorId :: "string option"
  al_subjectId :: "string option"
  al_entityType :: "string option"
  al_entityId :: "string option"

definition record_activity :: "activity_context \<Rightarrow> activity_input \<Rightarrow> activity_row list \<Rightarrow> activity_row list" where
  "record_activity ctx input rows =
     (let actorId = (case ai_actorId input of None \<Rightarrow> ctx | Some a \<Rightarrow> a);
          subjectId = (case ai_subjectId input of None \<Rightarrow> actorId | Some s \<Rightarrow> s)
      in rows @ [\<lparr>al_action = ai_action input, al_actorId = actorId, al_subjectId = subjectId,
                  al_entityType = map_option fst (ai_entity input),
                  al_entityId = map_option snd (ai_entity input)\<rparr>])"

text \<open>The two shapes most services use: a line about the actor, and one about another account.\<close>

definition by_actor :: "string \<Rightarrow> string \<Rightarrow> activity_input" where
  "by_actor action actorId =
     \<lparr>ai_action = action, ai_actorId = Some (Some actorId), ai_subjectId = None, ai_entity = None\<rparr>"

definition about_account :: "string \<Rightarrow> string \<Rightarrow> activity_input" where
  "about_account action accountId =
     \<lparr>ai_action = action, ai_actorId = None, ai_subjectId = Some (Some accountId),
      ai_entity = Some (''account'', accountId)\<rparr>"

text \<open>\<open>listForAccount\<close>'s scope: what the account did and what was done to it.\<close>

definition lines_of_account :: "string \<Rightarrow> activity_row list \<Rightarrow> activity_row list" where
  "lines_of_account me rows =
     filter (\<lambda>l. al_actorId l = Some me \<or> al_subjectId l = Some me) rows"

end
