(* ===== verification/Lockout.thy ===== *)
theory Lockout imports Prelude begin

text \<open>
  The brake two services share: a count of consecutive refusals per account, and a deadline until
  which a full count stops the check. The locale \<open>lockout\<close> states what a service's three
  operations on its \<open>failures\<close> map promise; \<open>TwoFactor\<close> and \<open>Mfa\<close> interpret it on theirs.
\<close>

type_synonym failures = "string \<rightharpoonup> nat \<times> time"

text \<open>Wrong guesses one after the other: which of them the brake stopped before they were checked.\<close>

fun wrong_guesses ::
  "(string \<Rightarrow> time \<Rightarrow> 's \<Rightarrow> (err + unit) \<times> 's) \<Rightarrow> (string \<Rightarrow> time \<Rightarrow> 's \<Rightarrow> 's) \<Rightarrow> string \<Rightarrow> time list \<Rightarrow> 's
   \<Rightarrow> bool list"
where
  "wrong_guesses check miss k [] s = []"
| "wrong_guesses check miss k (t # ts) s =
     (case check k t s of
        (Inl e, s') \<Rightarrow> True # wrong_guesses check miss k ts s'
      | (Inr u, s') \<Rightarrow> False # wrong_guesses check miss k ts (miss k t s'))"

locale lockout =
  fixes check :: "string \<Rightarrow> time \<Rightarrow> 's \<Rightarrow> (err + unit) \<times> 's"
    and miss :: "string \<Rightarrow> time \<Rightarrow> 's \<Rightarrow> 's"
    and misses :: "'s \<Rightarrow> string \<Rightarrow> (nat \<times> time) option"
    and limit :: nat
    and hold :: time
  assumes locked: "isl (fst (check k now s)) \<longleftrightarrow> (\<exists>c u. misses s k = Some (c, u) \<and> limit \<le> c \<and> now < u)"
    and checked: "misses (snd (check k now s)) k' =
      (if k' = k \<and> (\<exists>c u. misses s k = Some (c, u) \<and> u \<le> now) then None else misses s k')"
    and counted: "misses (miss k now s) k' =
      (if k' = k then Some (Suc (case misses s k of None \<Rightarrow> 0 | Some (c, u) \<Rightarrow> c), now + hold)
       else misses s k')"
begin

lemma check_cases:
  obtains (stopped) e s' where "check k t s = (Inl e, s')"
      "\<exists>c u. misses s k = Some (c, u) \<and> limit \<le> c \<and> t < u" "misses s' = misses s"
  | (passed) u s' where "check k t s = (Inr u, s')"
      "\<not> (\<exists>c u. misses s k = Some (c, u) \<and> limit \<le> c \<and> t < u)"
      "misses s' k = (if \<exists>c u. misses s k = Some (c, u) \<and> u \<le> t then None else misses s k)"
proof (cases "check k t s")
  case (Pair r s')
  show thesis
  proof (cases r)
    case (Inl e)
    with Pair locked [of k t s] have "\<exists>c u. misses s k = Some (c, u) \<and> limit \<le> c \<and> t < u" by simp
    moreover from this have "misses s' = misses s" using Pair checked [of k t s] by (intro ext) auto
    ultimately show thesis using Pair Inl stopped by simp
  next
    case (Inr u)
    with Pair locked [of k t s] checked [of k t s k] show thesis by (intro passed [of u s']) auto
  qed
qed

lemma counting:
  assumes "\<forall>t \<in> set ts. t0 \<le> t \<and> t < t0 + hold" "misses s k = Some (n, u)" "t0 + hold \<le> u"
  shows "wrong_guesses check miss k ts s = map (\<lambda>i. limit \<le> n + i) [0..<length ts]"
  using assms
proof (induction ts arbitrary: s n u)
  case (Cons t ts)
  have shift: "map (\<lambda>i. limit \<le> n + i) [0..<length (t # ts)]
      = (limit \<le> n) # map (\<lambda>i. limit \<le> Suc n + i) [0..<length ts]"
    by (simp add: upt_conv_Cons map_Suc_upt [symmetric] del: upt_Suc)
  show ?case
  proof (cases rule: check_cases [of k t s])
    case (stopped e s')
    then have "limit \<le> n" using Cons.prems(2) by auto
    moreover have "wrong_guesses check miss k ts s' = map (\<lambda>i. limit \<le> n + i) [0..<length ts]"
      by (rule Cons.IH) (use Cons.prems stopped in auto)
    ultimately show ?thesis unfolding shift using stopped by simp
  next
    case (passed u' s')
    then have n: "\<not> limit \<le> n" and s': "misses s' k = Some (n, u)" using Cons.prems by auto
    have "wrong_guesses check miss k ts (miss k t s') = map (\<lambda>i. limit \<le> Suc n + i) [0..<length ts]"
      by (rule Cons.IH [where u = "t + hold"]) (use Cons.prems s' in \<open>auto simp: counted\<close>)
    then show ?thesis unfolding shift using passed n by simp
  qed
qed simp

text \<open>From a count that is empty or has run out, the first \<open>limit\<close> wrong guesses within the hold of
  the first are checked and every later one is stopped.\<close>

lemma guesses_braked:
  assumes "\<forall>t \<in> set ts. t0 \<le> t \<and> t < t0 + hold" "0 < hold" "0 < limit"
    and "\<forall>c u. misses s k = Some (c, u) \<longrightarrow> u \<le> t0"
  shows "wrong_guesses check miss k (t0 # ts) s = map (\<lambda>i. limit \<le> i) [0..<Suc (length ts)]"
proof (cases rule: check_cases [of k t0 s])
  case (stopped e s')
  with assms(4) show ?thesis by force
next
  case (passed u s')
  have "misses s' k = None" using passed assms(4) by (cases "misses s k") auto
  then have m: "misses (miss k t0 s') k = Some (1, t0 + hold)" by (simp add: counted)
  have "wrong_guesses check miss k ts (miss k t0 s') = map (\<lambda>i. limit \<le> 1 + i) [0..<length ts]"
    by (rule counting [OF assms(1) m]) simp
  with passed assms(3) show ?thesis
    by (simp add: upt_conv_Cons map_Suc_upt [symmetric] del: upt_Suc)
qed

end

end
