(* ===== verification/TwoFactor.thy ===== *)
theory TwoFactor imports Totp Cipher Activity Lockout begin

text \<open>
  \<open>core/auth/two-factor/two-factor.service.ts\<close> on the table of \<open>account-two-factor.entity.ts\<close>:
  setting the factor up, proving it, spending its codes and taking it off. The state is the
  table, the in-memory count of refusals and the activity journal. \<open>lastUsedStep\<close>, a bigint read
  with \<open>Number\<close> and written with \<open>String\<close>, is an integer.
\<close>

definition TF_MAX_FAILURES :: nat where "TF_MAX_FAILURES = 5"
definition TF_LOCKOUT_MS :: time where "TF_LOCKOUT_MS = 15 * 60000"

record account_two_factor =
  at_accountId :: string
  at_secretCipher :: string
  at_enabledAt :: "time option"
  at_lastUsedStep :: "int option"
  at_recoveryCodes :: "string list"

record tf_state =
  tf_rows :: "account_two_factor list"
  tf_failures :: failures
  tf_log :: "activity_row list"

section \<open>Reading\<close>

definition tf_row :: "string \<Rightarrow> tf_state \<Rightarrow> account_two_factor option" where
  "tf_row accountId st = List.find (\<lambda>r. at_accountId r = accountId) (tf_rows st)"

definition tf_save :: "account_two_factor \<Rightarrow> tf_state \<Rightarrow> tf_state" where
  "tf_save row st = st\<lparr>tf_rows := save_row at_accountId row (tf_rows st)\<rparr>"

definition tf_pepper :: "crypto \<Rightarrow> err + string" where
  "tf_pepper cr = (case cr_pepper cr of
      None \<Rightarrow> Inl (Crash ''MANAGER_API_TOKEN_PEPPER env var is required'')
    | Some p \<Rightarrow> if p = [] then Inl (Crash ''MANAGER_API_TOKEN_PEPPER env var is required'') else Inr p)"

definition secretOf :: "crypto \<Rightarrow> account_two_factor \<Rightarrow> err + string" where
  "secretOf cr row = (case tf_pepper cr of
      Inl e \<Rightarrow> Inl e
    | Inr p \<Rightarrow> (case decryptSecret cr (at_secretCipher row) p of
          None \<Rightarrow> Inl (Crash ''Two-factor secret cannot be opened with this pepper'')
        | Some secret \<Rightarrow> if secret = [] then Inl (Crash ''Two-factor secret cannot be opened with this pepper'')
                         else Inr secret))"

lemma secretOf_cong: "at_secretCipher r = at_secretCipher r' \<Longrightarrow> secretOf cr r = secretOf cr r'"
  by (simp add: secretOf_def split: sum.splits)

record two_factor_status =
  ts_enabled :: bool
  ts_enabledAt :: "time option"
  ts_recoveryCodesLeft :: nat

definition tf_isEnabled :: "string \<Rightarrow> tf_state \<Rightarrow> bool" where
  "tf_isEnabled accountId st =
     (case tf_row accountId st of None \<Rightarrow> False | Some row \<Rightarrow> at_enabledAt row \<noteq> None)"

definition tf_status :: "string \<Rightarrow> tf_state \<Rightarrow> two_factor_status" where
  "tf_status accountId st =
     (let row = tf_row accountId st;
          enabled = (case row of None \<Rightarrow> False | Some r \<Rightarrow> at_enabledAt r \<noteq> None)
      in \<lparr>ts_enabled = enabled,
          ts_enabledAt = (case row of None \<Rightarrow> None | Some r \<Rightarrow> at_enabledAt r),
          ts_recoveryCodesLeft = (if enabled then length (at_recoveryCodes (the row)) else 0)\<rparr>)"

definition enabledAmong :: "string list \<Rightarrow> tf_state \<Rightarrow> string set" where
  "enabledAmong accountIds st =
     (if accountIds = [] then {}
      else let rows = filter (\<lambda>r. at_accountId r \<in> set accountIds) (tf_rows st)
           in set (map at_accountId (filter (\<lambda>r. at_enabledAt r \<noteq> None) rows)))"

definition enabledRow :: "string \<Rightarrow> tf_state \<Rightarrow> err + account_two_factor" where
  "enabledRow accountId st =
     (case tf_row accountId st of
        None \<Rightarrow> Inl (ApiError BAD_REQUEST ''twoFactor.notEnabled'')
      | Some row \<Rightarrow> if at_enabledAt row = None then Inl (ApiError BAD_REQUEST ''twoFactor.notEnabled'')
                    else Inr row)"

section \<open>The brake\<close>

definition tf_assertNotLocked :: "string \<Rightarrow> time \<Rightarrow> failures \<Rightarrow> (err + unit) \<times> failures" where
  "tf_assertNotLocked accountId now failures =
     (case failures accountId of
        None \<Rightarrow> (Inr (), failures)
      | Some (count, until) \<Rightarrow>
          if TF_MAX_FAILURES \<le> count \<and> now < until
          then (Inl (ApiError TOO_MANY_REQUESTS ''twoFactor.tooManyAttempts''), failures)
          else (Inr (), if until \<le> now then failures(accountId := None) else failures))"

definition tf_miss :: "string \<Rightarrow> time \<Rightarrow> failures \<Rightarrow> failures" where
  "tf_miss accountId now failures =
     (let (count, until) = (case failures accountId of None \<Rightarrow> (0, 0) | Some e \<Rightarrow> e)
      in failures(accountId \<mapsto> (count + 1, now + TF_LOCKOUT_MS)))"

definition tf_check :: "string \<Rightarrow> time \<Rightarrow> tf_state \<Rightarrow> (unit, tf_state) outcome" where
  "tf_check accountId now st =
     (let (r, f) = tf_assertNotLocked accountId now (tf_failures st) in (r, st\<lparr>tf_failures := f\<rparr>))"

definition tf_refuse :: "activity_context \<Rightarrow> string \<Rightarrow> time \<Rightarrow> tf_state \<Rightarrow> ('a, tf_state) outcome" where
  "tf_refuse ctx accountId now st =
     (Inl (ApiError BAD_REQUEST ''twoFactor.invalidCode''),
      st\<lparr>tf_failures := tf_miss accountId now (tf_failures st),
         tf_log := record_activity ctx (by_actor ''auth.two-factor.refused'' accountId) (tf_log st)\<rparr>)"

definition tf_forgive :: "string \<Rightarrow> tf_state \<Rightarrow> tf_state" where
  "tf_forgive accountId st = st\<lparr>tf_failures := (tf_failures st)(accountId := None)\<rparr>"

definition tf_note :: "activity_context \<Rightarrow> activity_input \<Rightarrow> tf_state \<Rightarrow> tf_state" where
  "tf_note ctx input st = st\<lparr>tf_log := record_activity ctx input (tf_log st)\<rparr>"

section \<open>Spending a code\<close>

text \<open>The answer, and the row object as the call left it.\<close>

definition consumeTotp ::
  "crypto \<Rightarrow> account_two_factor \<Rightarrow> string \<Rightarrow> time \<Rightarrow> tf_state \<Rightarrow> (bool \<times> account_two_factor, tf_state) outcome" where
  "consumeTotp cr row code now st =
     (case secretOf cr row of
        Inl e \<Rightarrow> (Inl e, st)
      | Inr secret \<Rightarrow>
          (case matchTotp (cr_hmac_sha1 cr) secret code (at_lastUsedStep row) now of
             Inl e \<Rightarrow> (Inl e, st)
           | Inr None \<Rightarrow> (Inr (False, row), st)
           | Inr (Some step) \<Rightarrow>
               let row' = row\<lparr>at_lastUsedStep := Some step\<rparr> in (Inr (True, row'), tf_save row' st)))"

definition remove_nth :: "int \<Rightarrow> 'a list \<Rightarrow> 'a list" where
  "remove_nth index xs = map snd (filter (\<lambda>(i, x). int i \<noteq> index) (enumerate 0 xs))"

definition consume ::
  "crypto \<Rightarrow> account_two_factor \<Rightarrow> string \<Rightarrow> time \<Rightarrow> tf_state \<Rightarrow> (bool, tf_state) outcome" where
  "consume cr row code now st =
     and_then (consumeTotp cr row code now st) (\<lambda>(ok, row) st.
       if ok then (Inr True, st)
       else case tf_pepper cr of
         Inl e \<Rightarrow> (Inl e, st)
       | Inr p \<Rightarrow>
           let index = matchRecoveryCode (cr_hmac_sha256 cr) code (at_recoveryCodes row) p
           in if index < 0 then (Inr False, st)
              else (Inr True, tf_save (row\<lparr>at_recoveryCodes := remove_nth index (at_recoveryCodes row)\<rparr>) st))"

section \<open>The operations\<close>

text \<open>\<open>iv\<close> and \<open>rnd\<close> are the bytes drawn for the sealing and for the secret.\<close>

definition beginSetup ::
  "crypto \<Rightarrow> string \<Rightarrow> byte list \<Rightarrow> byte list \<Rightarrow> string \<Rightarrow> string \<Rightarrow> tf_state \<Rightarrow> (string \<times> string, tf_state) outcome" where
  "beginSetup cr appName iv rnd accountId email st =
     (if (case tf_row accountId st of None \<Rightarrow> False | Some row \<Rightarrow> at_enabledAt row \<noteq> None)
      then (Inl (ApiError CONFLICT ''twoFactor.alreadyEnabled''), st)
      else let secret = generateTotpSecret rnd in
        case tf_pepper cr of
          Inl e \<Rightarrow> (Inl e, st)
        | Inr p \<Rightarrow>
            (Inr (secret, otpauthUri appName email secret),
             tf_save \<lparr>at_accountId = accountId, at_secretCipher = encryptSecret cr iv secret p,
                      at_enabledAt = None, at_lastUsedStep = None, at_recoveryCodes = []\<rparr> st))"

definition hash_codes :: "crypto \<Rightarrow> string \<Rightarrow> string list \<Rightarrow> string list" where
  "hash_codes cr pepper codes = map (\<lambda>code. hashRecoveryCode (cr_hmac_sha256 cr) code pepper) codes"

text \<open>In \<open>enable\<close> and in \<open>regenerateRecoveryCodes\<close>, \<open>rnd\<close> gives the characters of the codes.\<close>

definition enable ::
  "crypto \<Rightarrow> activity_context \<Rightarrow> (nat \<Rightarrow> nat \<Rightarrow> nat) \<Rightarrow> string \<Rightarrow> string \<Rightarrow> time \<Rightarrow> tf_state
   \<Rightarrow> (string list, tf_state) outcome" where
  "enable cr ctx rnd accountId code now st =
     (case tf_row accountId st of
        None \<Rightarrow> (Inl (ApiError BAD_REQUEST ''twoFactor.noSetupPending''), st)
      | Some row \<Rightarrow>
          if at_enabledAt row \<noteq> None then (Inl (ApiError CONFLICT ''twoFactor.alreadyEnabled''), st)
          else and_then (tf_check accountId now st) (\<lambda>_ st.
            case secretOf cr row of
              Inl e \<Rightarrow> (Inl e, st)
            | Inr secret \<Rightarrow>
                (case matchTotp (cr_hmac_sha1 cr) secret code None now of
                   Inl e \<Rightarrow> (Inl e, st)
                 | Inr None \<Rightarrow> tf_refuse ctx accountId now st
                 | Inr (Some step) \<Rightarrow>
                     let st = tf_forgive accountId st; recoveryCodes = generateRecoveryCodes rnd in
                     case tf_pepper cr of
                       Inl e \<Rightarrow> (Inl e, st)
                     | Inr p \<Rightarrow>
                         (Inr recoveryCodes,
                          tf_note ctx (by_actor ''auth.two-factor.enabled'' accountId)
                            (tf_save (row\<lparr>at_enabledAt := Some now, at_lastUsedStep := Some step,
                                          at_recoveryCodes := hash_codes cr p recoveryCodes\<rparr>) st)))))"

definition disable ::
  "crypto \<Rightarrow> activity_context \<Rightarrow> string \<Rightarrow> string \<Rightarrow> time \<Rightarrow> tf_state \<Rightarrow> (unit, tf_state) outcome" where
  "disable cr ctx accountId code now st =
     (case enabledRow accountId st of
        Inl e \<Rightarrow> (Inl e, st)
      | Inr row \<Rightarrow>
          and_then (tf_check accountId now st) (\<lambda>_ st.
          and_then (consume cr row code now st) (\<lambda>ok st.
            if \<not> ok then tf_refuse ctx accountId now st
            else let st = tf_forgive accountId st;
                     st = st\<lparr>tf_rows := delete_where (\<lambda>r. at_accountId r = accountId) (tf_rows st)\<rparr>
                 in (Inr (), tf_note ctx (by_actor ''auth.two-factor.disabled'' accountId) st))))"

definition regenerateRecoveryCodes ::
  "crypto \<Rightarrow> activity_context \<Rightarrow> (nat \<Rightarrow> nat \<Rightarrow> nat) \<Rightarrow> string \<Rightarrow> string \<Rightarrow> time \<Rightarrow> tf_state
   \<Rightarrow> (string list, tf_state) outcome" where
  "regenerateRecoveryCodes cr ctx rnd accountId code now st =
     (case enabledRow accountId st of
        Inl e \<Rightarrow> (Inl e, st)
      | Inr row \<Rightarrow>
          and_then (tf_check accountId now st) (\<lambda>_ st.
          and_then (consumeTotp cr row code now st) (\<lambda>(ok, row) st.
            if \<not> ok then tf_refuse ctx accountId now st
            else let st = tf_forgive accountId st; recoveryCodes = generateRecoveryCodes rnd in
              case tf_pepper cr of
                Inl e \<Rightarrow> (Inl e, st)
              | Inr p \<Rightarrow>
                  (Inr recoveryCodes,
                   tf_note ctx (by_actor ''auth.two-factor.recovery-codes-regenerated'' accountId)
                     (tf_save (row\<lparr>at_recoveryCodes := hash_codes cr p recoveryCodes\<rparr>) st)))))"

definition verifyForLogin :: "crypto \<Rightarrow> string \<Rightarrow> string \<Rightarrow> time \<Rightarrow> tf_state \<Rightarrow> (bool, tf_state) outcome" where
  "verifyForLogin cr accountId code now st =
     (case tf_row accountId st of
        None \<Rightarrow> (Inr False, st)
      | Some row \<Rightarrow> if at_enabledAt row = None then (Inr False, st) else consume cr row code now st)"

definition tf_reset :: "activity_context \<Rightarrow> string \<Rightarrow> tf_state \<Rightarrow> bool \<times> tf_state" where
  "tf_reset ctx accountId st =
     (let reset = (\<exists>r \<in> set (tf_rows st). at_accountId r = accountId);
          st = st\<lparr>tf_rows := delete_where (\<lambda>r. at_accountId r = accountId) (tf_rows st)\<rparr>
      in (reset, if reset then tf_note ctx (about_account ''auth.two-factor.reset'' accountId) st else st))"

section \<open>The brake keeps its contract\<close>

interpretation tf_brake: lockout tf_assertNotLocked tf_miss "\<lambda>f k. f k" TF_MAX_FAILURES TF_LOCKOUT_MS
  by unfold_locales (auto simp: tf_assertNotLocked_def tf_miss_def split: option.splits prod.splits if_splits)

definition tf_refused :: "activity_context \<Rightarrow> string \<Rightarrow> time \<Rightarrow> tf_state \<Rightarrow> tf_state" where
  "tf_refused ctx k t st = snd (tf_refuse ctx k t st :: (unit, tf_state) outcome)"

interpretation tf_service_brake: lockout tf_check "tf_refused ctx" "\<lambda>st. tf_failures st"
  TF_MAX_FAILURES TF_LOCKOUT_MS for ctx
  by unfold_locales
     (simp_all add: tf_check_def tf_refused_def tf_refuse_def case_prod_unfold Let_def tf_brake.locked tf_brake.checked
      tf_brake.counted)

lemma tf_check_rows: "tf_check a now st = (r, st') \<Longrightarrow> tf_rows st' = tf_rows st"
  by (auto simp: tf_check_def split: prod.splits)

lemma tf_check_error: "tf_check a now st = (Inl e, st') \<Longrightarrow> e = ApiError TOO_MANY_REQUESTS ''twoFactor.tooManyAttempts''"
  by (auto simp: tf_check_def tf_assertNotLocked_def split: option.splits prod.splits if_splits)

lemma tf_row_rows: "tf_rows st' = tf_rows st \<Longrightarrow> tf_row a st' = tf_row a st"
  by (simp add: tf_row_def)

lemma tf_row_save [simp]:
  "tf_row a (tf_save row st) = (if a = at_accountId row then Some row else tf_row a st)"
  by (simp add: tf_row_def tf_save_def row_simps)

lemma tf_row_key: "tf_row a st = Some row \<Longrightarrow> at_accountId row = a"
  by (auto simp: tf_row_def dest: find_in_set)

section \<open>What spending a code does\<close>

lemma remove_nth_eq: "i < length xs \<Longrightarrow> remove_nth (int i) xs = take i xs @ drop (Suc i) xs"
proof -
  have general: "map snd (filter (\<lambda>(j, x). int j \<noteq> int (n + i)) (enumerate n xs)) = take i xs @ drop (Suc i) xs"
    if "i < length xs" for i n and xs :: "'b list"
    using that
  proof (induction xs arbitrary: i n)
    case (Cons x xs)
    show ?case
    proof (cases i)
      case 0
      have "filter (\<lambda>(j, x). int j \<noteq> int n) (enumerate (Suc n) xs) = enumerate (Suc n) xs"
        by (rule filter_True) (auto simp: in_set_enumerate_eq)
      with 0 show ?thesis by simp
    next
      case (Suc k)
      with Cons.IH [of k "Suc n"] Cons.prems show ?thesis by simp
    qed
  qed simp
  show "i < length xs \<Longrightarrow> ?thesis"
    unfolding remove_nth_def using general [of i xs 0] by simp
qed

lemma consumeTotp_cases:
  "consumeTotp cr row code now st = (Inr (ok, row'), st') \<Longrightarrow>
   (\<exists>secret. secretOf cr row = Inr secret \<and>
     (if ok then \<exists>s. matchTotp (cr_hmac_sha1 cr) secret code (at_lastUsedStep row) now = Inr (Some s)
                    \<and> row' = row\<lparr>at_lastUsedStep := Some s\<rparr> \<and> st' = tf_save row' st
      else matchTotp (cr_hmac_sha1 cr) secret code (at_lastUsedStep row) now = Inr None
           \<and> row' = row \<and> st' = st))"
  by (auto simp: consumeTotp_def Let_def split: sum.splits option.splits)

lemma matchTotp_needs_six:
  "matchTotp hmac secret code l now = Inr (Some s) \<Longrightarrow>
   length (filter (\<lambda>c. \<not> is_space c) code) = 6 \<and> (\<forall>c \<in> set (filter (\<lambda>c. \<not> is_space c) code). is_digit c)"
  by (auto simp: matchTotp_def Let_def split: if_splits)

lemma six_digits_normalize:
  assumes "length (filter (\<lambda>c. \<not> is_space c) code) = 6"
    and "\<forall>c \<in> set (filter (\<lambda>c. \<not> is_space c) code). is_digit c"
  shows "length (normalizeRecoveryCode code) = 6"
proof -
  have "normalizeRecoveryCode code = filter (\<lambda>c. \<not> is_space c) code"
    if "\<forall>c \<in> set (filter (\<lambda>c. \<not> is_space c) code). is_digit c"
    using that
  proof (induction code)
    case (Cons c code)
    have "upper_char c = [c] \<and> (is_upper c \<or> is_digit c) = is_digit c" if "is_space c \<or> is_digit c"
      using that by (auto simp: upper_char_def is_upper_def is_digit_def is_space_def Let_def)
    moreover have "\<not> (is_space c \<and> is_digit c)" by (auto simp: is_digit_def is_space_def Let_def)
    ultimately show ?case using Cons
      by (cases "is_space c") (auto simp: normalizeRecoveryCode_def toUpperCase_def)
  qed (simp add: normalizeRecoveryCode_def toUpperCase_def)
  with assms show ?thesis by simp
qed

lemma totp_and_recovery_disjoint:
  "length (normalizeRecoveryCode code) = RECOVERY_LENGTH \<Longrightarrow> matchTotp hmac secret code l now = Inr None"
proof -
  assume l: "length (normalizeRecoveryCode code) = RECOVERY_LENGTH"
  have "\<not> (length (filter (\<lambda>c. \<not> is_space c) code) = 6 \<and> (\<forall>c \<in> set (filter (\<lambda>c. \<not> is_space c) code). is_digit c))"
    using six_digits_normalize [of code] l by (auto simp: RECOVERY_LENGTH_def)
  then show ?thesis unfolding matchTotp_def Let_def by (simp only: if_True simp_thms)
qed

lemma consume_accepts:
  assumes "consume cr row code now st = (Inr True, st')"
  obtains (step) s secret where "secretOf cr row = Inr secret"
      "matchTotp (cr_hmac_sha1 cr) secret code (at_lastUsedStep row) now = Inr (Some s)"
      "st' = tf_save (row\<lparr>at_lastUsedStep := Some s\<rparr>) st"
  | (recovery) i p secret where "secretOf cr row = Inr secret" "tf_pepper cr = Inr p"
      "matchRecoveryCode (cr_hmac_sha256 cr) code (at_recoveryCodes row) p = int i"
      "i < length (at_recoveryCodes row)"
      "at_recoveryCodes row ! i = hashRecoveryCode (cr_hmac_sha256 cr) code p"
      "st' = tf_save (row\<lparr>at_recoveryCodes := take i (at_recoveryCodes row) @ drop (Suc i) (at_recoveryCodes row)\<rparr>) st"
proof -
  from assms obtain ok row1 st1 where c: "consumeTotp cr row code now st = (Inr (ok, row1), st1)"
    and rest: "(if ok then (Inr True, st1) else case tf_pepper cr of Inl e \<Rightarrow> (Inl e, st1)
       | Inr p \<Rightarrow> let index = matchRecoveryCode (cr_hmac_sha256 cr) code (at_recoveryCodes row1) p
           in if index < 0 then (Inr False, st1)
              else (Inr True, tf_save (row1\<lparr>at_recoveryCodes := remove_nth index (at_recoveryCodes row1)\<rparr>) st1))
       = (Inr True, st')"
    by (auto simp: consume_def and_then_Inr)
  show thesis
  proof (cases ok)
    case True
    with rest consumeTotp_cases [OF c] step show thesis by auto
  next
    case False
    with consumeTotp_cases [OF c] obtain secret where s: "secretOf cr row = Inr secret" "row1 = row" "st1 = st"
      by auto
    from False rest s obtain p where p: "tf_pepper cr = Inr p"
      and i: "0 \<le> matchRecoveryCode (cr_hmac_sha256 cr) code (at_recoveryCodes row) p"
      and st': "st' = tf_save (row\<lparr>at_recoveryCodes := remove_nth
           (matchRecoveryCode (cr_hmac_sha256 cr) code (at_recoveryCodes row) p) (at_recoveryCodes row)\<rparr>) st"
      by (auto simp: Let_def split: sum.splits if_splits)
    from i obtain n where n: "matchRecoveryCode (cr_hmac_sha256 cr) code (at_recoveryCodes row) p = int n"
      using nonneg_int_cases by blast
    from matchRecoveryCode_hit [OF n] s p n st' show thesis
      by (intro recovery [of secret p n]) (simp_all add: remove_nth_eq)
  qed
qed

section \<open>Guessing\<close>

fun disable_run ::
  "crypto \<Rightarrow> activity_context \<Rightarrow> string \<Rightarrow> (string \<times> time) list \<Rightarrow> tf_state \<Rightarrow> (err + unit) list \<times> tf_state" where
  "disable_run cr ctx a [] st = ([], st)"
| "disable_run cr ctx a ((code, now) # tries) st =
     (let (r, st1) = disable cr ctx a code now st; (rs, st2) = disable_run cr ctx a tries st1 in (r # rs, st2))"

definition guess_answer :: "bool \<Rightarrow> err + unit" where
  "guess_answer stopped = Inl (if stopped then ApiError TOO_MANY_REQUESTS ''twoFactor.tooManyAttempts''
                               else ApiError BAD_REQUEST ''twoFactor.invalidCode'')"

definition wrong_code :: "crypto \<Rightarrow> account_two_factor \<Rightarrow> string \<Rightarrow> time \<Rightarrow> bool" where
  "wrong_code cr row code now = (\<exists>secret p. secretOf cr row = Inr secret \<and> tf_pepper cr = Inr p
     \<and> matchTotp (cr_hmac_sha1 cr) secret code (at_lastUsedStep row) now = Inr None
     \<and> matchRecoveryCode (cr_hmac_sha256 cr) code (at_recoveryCodes row) p < 0)"

lemma consume_wrong: "wrong_code cr row code now \<Longrightarrow> consume cr row code now st = (Inr False, st)"
  by (auto simp: wrong_code_def consume_def consumeTotp_def Let_def)

lemma disable_wrong:
  assumes "tf_row a st = Some row" "at_enabledAt row \<noteq> None" "wrong_code cr row code now"
  shows "disable cr ctx a code now st = and_then (tf_check a now st) (\<lambda>_ st. tf_refuse ctx a now st)"
  using assms by (auto simp: disable_def enabledRow_def consume_wrong)

text \<open>A try that the brake stops may carry any code at all: the code is not looked at.\<close>

lemma disable_run_braked:
  assumes "tf_row a st = Some row" "at_enabledAt row \<noteq> None"
    and "list_all2 (\<lambda>(code, t) stopped. stopped \<or> wrong_code cr row code t) tries
           (wrong_guesses tf_check (tf_refused ctx) a (map snd tries) st)"
  shows "fst (disable_run cr ctx a tries st)
      = map guess_answer (wrong_guesses tf_check (tf_refused ctx) a (map snd tries) st)
    \<and> tf_row a (snd (disable_run cr ctx a tries st)) = Some row"
  using assms
proof (induction tries arbitrary: st)
  case (Cons g tries)
  obtain code t where [simp]: "g = (code, t)" by force
  obtain r st' where c: "tf_check a t st = (r, st')" by force
  have keep: "tf_row a st' = Some row" "tf_row a (tf_refused ctx a t st') = Some row"
    using tf_check_rows [OF c] Cons.prems(1) tf_row_rows by (simp_all add: tf_refused_def tf_refuse_def tf_row_def)
  show ?case
  proof (cases r)
    case (Inl e)
    with c have w: "wrong_guesses tf_check (tf_refused ctx) a (map snd (g # tries)) st
        = True # wrong_guesses tf_check (tf_refused ctx) a (map snd tries) st'" by simp
    have d: "disable cr ctx a code t st = (Inl e, st')"
      using Cons.prems(1,2) c Inl by (auto simp: disable_def enabledRow_def split: option.splits)
    have "e = ApiError TOO_MANY_REQUESTS ''twoFactor.tooManyAttempts''" using Inl tf_check_error c by blast
    with d w Cons.IH [OF keep(1) Cons.prems(2)] Cons.prems(3) show ?thesis
      by (simp add: guess_answer_def case_prod_unfold)
  next
    case (Inr u)
    with c have w: "wrong_guesses tf_check (tf_refused ctx) a (map snd (g # tries)) st
        = False # wrong_guesses tf_check (tf_refused ctx) a (map snd tries) (tf_refused ctx a t st')" by simp
    with Cons.prems(3) have "wrong_code cr row code t" by simp
    from disable_wrong [OF Cons.prems(1,2) this] c Inr
    have "disable cr ctx a code t st = (Inl (ApiError BAD_REQUEST ''twoFactor.invalidCode''), tf_refused ctx a t st')"
      by (simp add: tf_refused_def tf_refuse_def)
    with w Cons.IH [OF keep(2) Cons.prems(2)] Cons.prems(3) show ?thesis
      by (simp add: guess_answer_def case_prod_unfold)
  qed
qed simp

text \<open>C21: from a clean count, the factor is not switched off by guessing: of the codes sent to switch it off
  within the quarter hour of the first, the five first, when they are wrong, are answered as wrong, and every
  later one is answered 429 whatever it is, a right code or a recovery code included. The row stays as it was
  through all of them.\<close>
theorem wrong_codes_stop_after_five:
  assumes "tf_row a st = Some row" "at_enabledAt row \<noteq> None" "tf_failures st a = None"
    and "\<forall>(code, t) \<in> set (take 5 ((code0, t0) # tries)). wrong_code cr row code t"
    and "\<forall>(code, t) \<in> set tries. t0 \<le> t \<and> t < t0 + TF_LOCKOUT_MS"
  shows "fst (disable_run cr ctx a ((code0, t0) # tries) st) = map (\<lambda>i. guess_answer (5 \<le> i)) [0..<Suc (length tries)]
    \<and> tf_row a (snd (disable_run cr ctx a ((code0, t0) # tries) st)) = Some row"
proof -
  let ?all = "(code0, t0) # tries"
  have w: "wrong_guesses tf_check (tf_refused ctx) a (map snd ?all) st = map (\<lambda>i. 5 \<le> i) [0..<Suc (length tries)]"
  proof -
    have "\<forall>t \<in> set (map snd tries). t0 \<le> t \<and> t < t0 + TF_LOCKOUT_MS" using assms(5) by auto
    from tf_service_brake.guesses_braked [OF this, where s = st and k = a and ctx = ctx] assms(3) show ?thesis
      by (simp add: TF_LOCKOUT_MS_def TF_MAX_FAILURES_def del: upt_Suc wrong_guesses.simps)
  qed
  have "wrong_code cr row (fst (?all ! i)) (snd (?all ! i))" if "i < 5" "i < length ?all" for i
  proof -
    have "?all ! i \<in> set (take 5 ?all)" using that nth_mem [of i "take 5 ?all"] nth_take [of i 5 ?all] by simp
    with assms(4) show ?thesis by (auto simp: case_prod_unfold)
  qed
  then have "list_all2 (\<lambda>(code, t) stopped. stopped \<or> wrong_code cr row code t) ?all
      (map (\<lambda>i. 5 \<le> i) [0..<Suc (length tries)])"
    by (auto simp: list_all2_conv_all_nth case_prod_unfold not_le simp del: upt_Suc dest: leI)
  from disable_run_braked [OF assms(1,2) this [folded w]] w show ?thesis
    by (simp add: comp_def del: upt_Suc disable_run.simps wrong_guesses.simps list.map(2))
qed

definition toy_row :: account_two_factor where
  "toy_row = \<lparr>at_accountId = ''a'', at_secretCipher = encryptSecret toy_crypto (replicate 12 1) ''MFRGG'' ''pepper'',
     at_enabledAt = Some 0, at_lastUsedStep = Some 1, at_recoveryCodes = [''recovery:pepperABCDEFGHJK'']\<rparr>"

definition toy_tf_state :: tf_state where
  "toy_tf_state = \<lparr>tf_rows = [toy_row], tf_failures = (\<lambda>_. None), tf_log = []\<rparr>"

lemma toy_row_facts:
  "tf_row ''a'' toy_tf_state = Some toy_row" "at_enabledAt toy_row \<noteq> None" "tf_failures toy_tf_state ''a'' = None"
  "secretOf toy_crypto toy_row = Inr ''MFRGG''" "tf_pepper toy_crypto = Inr ''pepper''"
  "at_lastUsedStep toy_row = Some 1" "at_recoveryCodes toy_row = [''recovery:pepperABCDEFGHJK'']"
proof -
  have p: "tf_pepper toy_crypto = Inr ''pepper''" by (simp add: tf_pepper_def toy_crypto_def)
  have "decryptSecret toy_crypto (at_secretCipher toy_row) ''pepper'' = Some ''MFRGG''"
    unfolding toy_row_def by (simp, rule decrypt_encrypt [OF toy_gcm]) simp_all
  with p show "secretOf toy_crypto toy_row = Inr ''MFRGG''" by (simp add: secretOf_def)
  show "tf_pepper toy_crypto = Inr ''pepper''" by (rule p)
qed (simp_all add: toy_tf_state_def toy_row_def tf_row_def)

lemma toy_wrong: "wrong_code toy_crypto toy_row ''12'' t"
  by (simp add: wrong_code_def toy_row_facts matchTotp_def matchRecoveryCode_def Let_def is_space_def
      normalizeRecoveryCode_def toUpperCase_def RECOVERY_LENGTH_def upper_char_def is_upper_def is_digit_def)

theorem wrong_codes_stop_after_five_witness:
  "fst (disable_run toy_crypto None ''a'' ((''12'', 10) # replicate 4 (''12'', 20) @ [(''ABCDEFGHJK'', 30), (''12'', 40)]) toy_tf_state)
     = map (\<lambda>i. guess_answer (5 \<le> i)) [0..<7]
   \<and> \<not> wrong_code toy_crypto toy_row ''ABCDEFGHJK'' 30"
proof -
  have "normalizeRecoveryCode ''ABCDEFGHJK'' = ''ABCDEFGHJK''" by code_simp
  then have "matchRecoveryCode (cr_hmac_sha256 toy_crypto) ''ABCDEFGHJK'' (at_recoveryCodes toy_row) ''pepper'' = 0"
    by (simp add: matchRecoveryCode_def RECOVERY_LENGTH_def toy_row_facts hashRecoveryCode_def safeEqual_def toy_crypto_def)
  then have right: "\<not> wrong_code toy_crypto toy_row ''ABCDEFGHJK'' 30" by (simp add: wrong_code_def toy_row_facts)
  have "fst (disable_run toy_crypto None ''a'' ((''12'', 10) # replicate 4 (''12'', 20) @ [(''ABCDEFGHJK'', 30), (''12'', 40)]) toy_tf_state)
     = map (\<lambda>i. guess_answer (5 \<le> i)) [0..<7]"
    using wrong_codes_stop_after_five [OF toy_row_facts(1-3), where ?code0.0 = "''12''" and ?t0.0 = 10
        and tries = "replicate 4 (''12'', 20) @ [(''ABCDEFGHJK'', 30), (''12'', 40)]" and cr = toy_crypto and ctx = None]
    by (simp add: toy_wrong TF_LOCKOUT_MS_def eval_nat_numeral del: disable_run.simps upt_Suc)
  with right show ?thesis by blast
qed

section \<open>A code is spent by being used\<close>

lemma verifyForLogin_True:
  assumes "verifyForLogin cr a code now st = (Inr True, st')"
  obtains row where "tf_row a st = Some row" "at_enabledAt row \<noteq> None" "at_accountId row = a"
    "consume cr row code now st = (Inr True, st')"
  using assms by (auto simp: verifyForLogin_def split: option.splits if_splits dest: tf_row_key)

lemma distinct_without_nth:
  "distinct xs \<Longrightarrow> i < length xs \<Longrightarrow> xs ! i \<notin> set (take i xs @ drop (Suc i) xs)"
  by (metis distinct.simps(2) distinct_append id_take_nth_drop not_distinct_conv_prefix Un_iff append_Cons set_append)

lemma hash_presentation:
  "normalizeRecoveryCode code = normalizeRecoveryCode code' \<Longrightarrow>
   hashRecoveryCode h code p = hashRecoveryCode h code' p"
  by (simp add: hashRecoveryCode_def)

lemma verifyForLogin_recovery_gone:
  assumes "tf_row a st = Some row" "at_enabledAt row \<noteq> None" "secretOf cr row = Inr secret" "tf_pepper cr = Inr p"
    and "length (normalizeRecoveryCode code) = RECOVERY_LENGTH"
    and "hashRecoveryCode (cr_hmac_sha256 cr) code p \<notin> set (at_recoveryCodes row)"
  shows "verifyForLogin cr a code now st = (Inr False, st)"
proof -
  have "matchRecoveryCode (cr_hmac_sha256 cr) code (at_recoveryCodes row) p = -1"
    using assms(5,6)
    by (auto simp: matchRecoveryCode_def Let_def findIndex_miss safeEqual_def hashRecoveryCode_def normalize_idem)
  then have "wrong_code cr row code now"
    using assms totp_and_recovery_disjoint by (simp add: wrong_code_def)
  with assms show ?thesis by (auto simp: verifyForLogin_def consume_wrong)
qed

text \<open>A recovery code that let someone in lets nobody in again: typed a second time, in
  whatever case, with or without its dash, at whatever moment, it is refused and the table is
  left as it is.\<close>
theorem recovery_code_single_use:
  assumes "verifyForLogin cr a code now st = (Inr True, st')"
    and "length (normalizeRecoveryCode code) = 10"
    and "\<And>row. tf_row a st = Some row \<Longrightarrow> distinct (at_recoveryCodes row)"
    and "normalizeRecoveryCode again = normalizeRecoveryCode code"
  shows "verifyForLogin cr a again later st' = (Inr False, st')"
proof -
  obtain row where row: "tf_row a st = Some row" "at_enabledAt row \<noteq> None" "at_accountId row = a"
    "consume cr row code now st = (Inr True, st')"
    by (rule verifyForLogin_True [OF assms(1)])
  from row(4) show ?thesis
  proof (cases rule: consume_accepts)
    case (step s secret)
    with totp_and_recovery_disjoint [of code] assms(2) show ?thesis by (simp add: RECOVERY_LENGTH_def)
  next
    case (recovery i p secret)
    let ?codes = "take i (at_recoveryCodes row) @ drop (Suc i) (at_recoveryCodes row)"
    have "hashRecoveryCode (cr_hmac_sha256 cr) again p \<notin> set ?codes"
      using distinct_without_nth [OF assms(3) [OF row(1)] recovery(4)] recovery(5)
        hash_presentation [OF assms(4)] by simp
    with recovery row assms(2,4) show ?thesis
      by (intro verifyForLogin_recovery_gone [where row = "row\<lparr>at_recoveryCodes := ?codes\<rparr>"])
         (simp_all add: secretOf_def RECOVERY_LENGTH_def)
  qed
qed

lemma toy_login:
  "verifyForLogin toy_crypto ''a'' ''abcde-fghjk'' 100 toy_tf_state
    = (Inr True, tf_save (toy_row\<lparr>at_recoveryCodes := []\<rparr>) toy_tf_state)"
proof -
  have n: "normalizeRecoveryCode ''abcde-fghjk'' = ''ABCDEFGHJK''" by code_simp
  have "normalizeRecoveryCode ''ABCDEFGHJK'' = ''ABCDEFGHJK''" by code_simp
  then have m: "matchRecoveryCode (cr_hmac_sha256 toy_crypto) ''abcde-fghjk'' (at_recoveryCodes toy_row) ''pepper'' = 0"
    by (simp add: matchRecoveryCode_def n RECOVERY_LENGTH_def toy_row_facts hashRecoveryCode_def safeEqual_def
        toy_crypto_def)
  have "matchTotp (cr_hmac_sha1 toy_crypto) ''MFRGG'' ''abcde-fghjk'' (Some 1) 100 = Inr None"
    by (rule totp_and_recovery_disjoint) (simp add: n RECOVERY_LENGTH_def)
  then show ?thesis
    using toy_row_facts m
    by (auto simp: verifyForLogin_def consume_def consumeTotp_def remove_nth_def)
qed

theorem recovery_code_single_use_witness:
  "verifyForLogin toy_crypto ''a'' ''ABCDE FGHJK'' 200 (tf_save (toy_row\<lparr>at_recoveryCodes := []\<rparr>) toy_tf_state)
    = (Inr False, tf_save (toy_row\<lparr>at_recoveryCodes := []\<rparr>) toy_tf_state)"
proof (rule recovery_code_single_use [OF toy_login])
  show "length (normalizeRecoveryCode ''abcde-fghjk'') = 10" by code_simp
  show "normalizeRecoveryCode ''ABCDE FGHJK'' = normalizeRecoveryCode ''abcde-fghjk''" by code_simp
qed (simp add: toy_row_facts)

text \<open>Sign-ins one after the other, on any account.\<close>

fun login_run :: "crypto \<Rightarrow> (string \<times> string \<times> time) list \<Rightarrow> tf_state \<Rightarrow> tf_state" where
  "login_run cr [] st = st"
| "login_run cr ((a, code, now) # tries) st = login_run cr tries (snd (verifyForLogin cr a code now st))"

definition step_at_least :: "tf_state \<Rightarrow> string \<Rightarrow> string \<Rightarrow> int \<Rightarrow> bool" where
  "step_at_least st a cipher s = (\<exists>row l. tf_row a st = Some row \<and> at_secretCipher row = cipher
     \<and> at_enabledAt row \<noteq> None \<and> at_lastUsedStep row = Some l \<and> s \<le> l)"

lemma consume_state:
  assumes "consume cr row code now st = (r, st')"
  shows "st' = st \<or> (\<exists>s. fresh_step (at_lastUsedStep row) s \<and> st' = tf_save (row\<lparr>at_lastUsedStep := Some s\<rparr>) st)
    \<or> (\<exists>codes. st' = tf_save (row\<lparr>at_recoveryCodes := codes\<rparr>) st)"
proof -
  obtain x st1 where c: "consumeTotp cr row code now st = (x, st1)" by force
  show ?thesis
  proof (cases x)
    case (Inl e)
    with c assms show ?thesis
      by (auto simp: consume_def consumeTotp_def Let_def split: sum.splits option.splits)
  next
    case (Inr y)
    obtain ok row1 where y: "y = (ok, row1)" by force
    from consumeTotp_cases [OF c [unfolded Inr y]] Inr y c assms show ?thesis
      by (cases ok) (auto simp: consume_def Let_def dest!: matchTotp_sound split: sum.splits if_splits)
  qed
qed

lemma verify_keeps_step:
  assumes "step_at_least st a cipher s"
  shows "step_at_least (snd (verifyForLogin cr b code now st)) a cipher s"
proof (cases "tf_row b st")
  case (Some row)
  then have b: "at_accountId row = b" by (rule tf_row_key)
  show ?thesis
  proof (cases "at_enabledAt row = None")
    case False
    obtain r st' where c: "consume cr row code now st = (r, st')" by force
    with Some False have "snd (verifyForLogin cr b code now st) = st'" by (auto simp: verifyForLogin_def)
    with consume_state [OF c] Some assms b show ?thesis
      by (auto simp: step_at_least_def fresh_step_def split: option.splits)
  qed (use Some assms in \<open>simp add: verifyForLogin_def\<close>)
qed (use assms in \<open>simp add: verifyForLogin_def\<close>)

lemma login_run_keeps_step: "step_at_least st a cipher s \<Longrightarrow> step_at_least (login_run cr tries st) a cipher s"
  by (induction cr tries st rule: login_run.induct) (auto simp: verify_keeps_step)

lemma accepted_step:
  assumes "verifyForLogin cr a code now st = (Inr True, st')" "length (normalizeRecoveryCode code) = 6"
  obtains row s where "tf_row a st = Some row" "at_enabledAt row \<noteq> None"
    "fresh_step (at_lastUsedStep row) s" "totpStep now - 1 \<le> s" "s \<le> totpStep now + 1"
    "tf_row a st' = Some (row\<lparr>at_lastUsedStep := Some s\<rparr>)"
    "\<exists>secret. secretOf cr row = Inr secret \<and>
       totpCode (cr_hmac_sha1 cr) secret s = Inr (filter (\<lambda>c. \<not> is_space c) code)"
proof -
  obtain row where row: "tf_row a st = Some row" "at_enabledAt row \<noteq> None" "at_accountId row = a"
    "consume cr row code now st = (Inr True, st')"
    by (rule verifyForLogin_True [OF assms(1)])
  from row(4) show thesis
  proof (cases rule: consume_accepts)
    case (step s secret)
    from matchTotp_sound [OF step(2)] step row show thesis by (intro that [of row s]) auto
  next
    case (recovery i p secret)
    with assms(2) show thesis by (simp add: matchRecoveryCode_def RECOVERY_LENGTH_def)
  qed
qed

text \<open>C20: the app's codes are never replayed: when two six-digit codes are accepted for an account,
  whatever sign-ins happen in between, the second belongs to a strictly later half-minute than
  the first, and each is the code its secret gives for its own half-minute.\<close>
theorem totp_code_not_replayed:
  assumes "verifyForLogin cr a code1 now1 st = (Inr True, st1)" "length (normalizeRecoveryCode code1) = 6"
    and "verifyForLogin cr a code2 now2 (login_run cr tries st1) = (Inr True, st2)"
      "length (normalizeRecoveryCode code2) = 6"
  shows "\<exists>s1 s2 secret row1 row2. s1 < s2
    \<and> tf_row a st1 = Some row1 \<and> at_lastUsedStep row1 = Some s1 \<and> \<bar>s1 - totpStep now1\<bar> \<le> 1
    \<and> tf_row a st2 = Some row2 \<and> at_lastUsedStep row2 = Some s2 \<and> \<bar>s2 - totpStep now2\<bar> \<le> 1
    \<and> totpCode (cr_hmac_sha1 cr) secret s1 = Inr (filter (\<lambda>c. \<not> is_space c) code1)
    \<and> totpCode (cr_hmac_sha1 cr) secret s2 = Inr (filter (\<lambda>c. \<not> is_space c) code2)"
proof -
  obtain row s1 secret where 1: "at_enabledAt row \<noteq> None" "totpStep now1 - 1 \<le> s1" "s1 \<le> totpStep now1 + 1"
    "tf_row a st1 = Some (row\<lparr>at_lastUsedStep := Some s1\<rparr>)" "secretOf cr row = Inr secret"
    "totpCode (cr_hmac_sha1 cr) secret s1 = Inr (filter (\<lambda>c. \<not> is_space c) code1)"
    using accepted_step [OF assms(1,2)] by metis
  then have "step_at_least st1 a (at_secretCipher row) s1" by (auto simp: step_at_least_def)
  then have "step_at_least (login_run cr tries st1) a (at_secretCipher row) s1" by (rule login_run_keeps_step)
  moreover obtain row' s2 secret' where 2: "tf_row a (login_run cr tries st1) = Some row'"
    "fresh_step (at_lastUsedStep row') s2" "totpStep now2 - 1 \<le> s2" "s2 \<le> totpStep now2 + 1"
    "tf_row a st2 = Some (row'\<lparr>at_lastUsedStep := Some s2\<rparr>)" "secretOf cr row' = Inr secret'"
    "totpCode (cr_hmac_sha1 cr) secret' s2 = Inr (filter (\<lambda>c. \<not> is_space c) code2)"
    using accepted_step [OF assms(3,4)] by metis
  ultimately have "s1 < s2" "at_secretCipher row' = at_secretCipher row"
    by (auto simp: step_at_least_def fresh_step_def)
  moreover from this(2) have "secretOf cr row' = secretOf cr row" by (rule secretOf_cong)
  ultimately show ?thesis using 1 2 by (intro exI [of _ s1] exI [of _ s2] exI [of _ secret]) auto
qed

lemma digits_no_space: "\<forall>c \<in> set code. is_digit c \<Longrightarrow> filter (\<lambda>c. \<not> is_space c) code = code"
  by (rule filter_True) (auto simp: is_digit_def is_space_def Let_def)

lemma toy_code:
  "0 \<le> step \<Longrightarrow> step < 2 ^ 64 \<Longrightarrow> totpCode (cr_hmac_sha1 toy_crypto) secret step = Inr ''000000''"
proof -
  have "truncate_digest (replicate 20 0) = 0" by code_simp
  moreover have "padStart TOTP_DIGITS (CHR ''0'') (show_nat 0) = ''000000''" by code_simp
  ultimately show "0 \<le> step \<Longrightarrow> step < 2 ^ 64 \<Longrightarrow> ?thesis"
    by (simp add: totpCode_def uint64_be_def toy_crypto_def Let_def)
qed

lemma toy_totp_login:
  assumes "tf_row ''a'' st = Some (toy_row\<lparr>at_lastUsedStep := Some l\<rparr>)" "l = totpStep now - 1" "in_counter_range now"
  shows "verifyForLogin toy_crypto ''a'' ''000 000'' now st
    = (Inr True, tf_save (toy_row\<lparr>at_lastUsedStep := Some (l + 1)\<rparr>) st)"
proof -
  have code: "filter (\<lambda>c. \<not> is_space c) ''000 000'' = ''000000''" by (simp add: is_space_def)
  have "matchTotp (cr_hmac_sha1 toy_crypto) ''MFRGG'' ''000 000'' (Some l) now = Inr (Some (l + 1))"
    using in_counter_range_step [OF assms(3)] assms(2)
    unfolding matchTotp_eq [OF assms(3)] code by (simp add: toy_code fresh_step_def)
  moreover have "secretOf toy_crypto (toy_row\<lparr>at_lastUsedStep := Some l\<rparr>) = Inr ''MFRGG''"
    using toy_row_facts(4) secretOf_cong [of "toy_row\<lparr>at_lastUsedStep := Some l\<rparr>" toy_row] by simp
  ultimately show ?thesis
    using assms(1) toy_row_facts(2) by (auto simp: verifyForLogin_def consume_def consumeTotp_def Let_def)
qed

definition toy_after :: "int \<Rightarrow> tf_state" where
  "toy_after s = tf_save (toy_row\<lparr>at_lastUsedStep := Some s\<rparr>) toy_tf_state"

theorem totp_code_not_replayed_witness:
  "\<exists>s1 s2 secret row1 row2. s1 < s2
    \<and> tf_row ''a'' (toy_after 2) = Some row1 \<and> at_lastUsedStep row1 = Some s1 \<and> \<bar>s1 - totpStep 61000\<bar> \<le> 1
    \<and> tf_row ''a'' (tf_save (toy_row\<lparr>at_lastUsedStep := Some 3\<rparr>) (toy_after 2)) = Some row2
    \<and> at_lastUsedStep row2 = Some s2 \<and> \<bar>s2 - totpStep 91000\<bar> \<le> 1
    \<and> totpCode (cr_hmac_sha1 toy_crypto) secret s1 = Inr (filter (\<lambda>c. \<not> is_space c) ''000 000'')
    \<and> totpCode (cr_hmac_sha1 toy_crypto) secret s2 = Inr (filter (\<lambda>c. \<not> is_space c) ''000 000'')"
proof (rule totp_code_not_replayed [where st = toy_tf_state and tries = "[]"])
  have l: "tf_row ''a'' toy_tf_state = Some (toy_row\<lparr>at_lastUsedStep := Some 1\<rparr>)"
    using toy_row_facts by simp
  show "verifyForLogin toy_crypto ''a'' ''000 000'' 61000 toy_tf_state = (Inr True, toy_after 2)"
    using toy_totp_login [OF l] by (simp add: toy_after_def totpStep_def TOTP_PERIOD_SECONDS_def in_counter_range_def)
  have "tf_row ''a'' (toy_after 2) = Some (toy_row\<lparr>at_lastUsedStep := Some 2\<rparr>)"
    by (simp add: toy_after_def toy_row_def)
  from toy_totp_login [OF this, of 91000]
  show "verifyForLogin toy_crypto ''a'' ''000 000'' 91000 (login_run toy_crypto [] (toy_after 2))
      = (Inr True, tf_save (toy_row\<lparr>at_lastUsedStep := Some 3\<rparr>) (toy_after 2))"
    by (simp add: totpStep_def TOTP_PERIOD_SECONDS_def in_counter_range_def)
  show "length (normalizeRecoveryCode ''000 000'') = 6" by code_simp
  then show "length (normalizeRecoveryCode ''000 000'') = 6" .
qed

section \<open>From the setup to a sign-in\<close>

text \<open>The factor works as set up: the secret shown, typed into an app, proves the setup with the
  code of the current half-minute; from then on the factor is on with eight recovery codes left,
  and each recovery code handed out signs the account in.\<close>
theorem setup_then_sign_in:
  assumes "gcm_lawful cr" "cr_pepper cr = Some p" "p \<noteq> []" "length iv = 12" "length bytes = 20"
    and "\<not> tf_isEnabled a st" "tf_failures st a = None" "in_counter_range now"
    and "beginSetup cr appName iv bytes a email st = (Inr (secret, uri), st1)"
    and "totpCode (cr_hmac_sha1 cr) secret (totpStep now) = Inr code"
  shows "\<exists>codes st2. enable cr ctx rnd a code now st1 = (Inr codes, st2)
    \<and> ts_enabled (tf_status a st2) \<and> ts_recoveryCodesLeft (tf_status a st2) = 8
    \<and> codes = generateRecoveryCodes rnd
    \<and> (\<forall>k < 8. \<forall>later. fst (verifyForLogin cr a (codes ! k) later st2) = Inr True)"
proof -
  have none: "\<forall>row. tf_row a st = Some row \<longrightarrow> at_enabledAt row = None"
    using assms(6) by (auto simp: tf_isEnabled_def)
  let ?row = "\<lparr>at_accountId = a, at_secretCipher = encryptSecret cr iv secret p, at_enabledAt = None,
    at_lastUsedStep = None, at_recoveryCodes = []\<rparr>"
  have pep: "tf_pepper cr = Inr p" using assms(2,3) by (simp add: tf_pepper_def)
  have sec: "secret = base32Encode bytes" and st1: "st1 = tf_save ?row st"
    using assms(9) none pep by (auto simp: beginSetup_def Let_def generateTotpSecret_def split: option.splits)
  have secret: "secret \<noteq> []" unfolding sec by (rule base32Encode_not_Nil) (use assms(5) in auto)
  have open_row: "secretOf cr r = Inr secret" if "at_secretCipher r = encryptSecret cr iv secret p" for r
  proof -
    have "decryptSecret cr (at_secretCipher r) p = Some secret"
      unfolding that using assms(1,4) secret by (intro decrypt_encrypt) auto
    then show ?thesis using secret by (simp add: secretOf_def pep)
  qed
  let ?m = "matchTotp (cr_hmac_sha1 cr) secret code None now"
  have "filter (\<lambda>c. \<not> is_space c) code = code"
    using totpCode_shape [OF assms(10)] digits_no_space by blast
  then obtain step where step: "?m = Inr (Some step)"
    using matchTotp_eq [OF assms(8), of "cr_hmac_sha1 cr" secret code None] assms(10)
    by (cases "totpCode (cr_hmac_sha1 cr) secret (totpStep now - 1) = Inr code") (auto simp: fresh_step_def)
  let ?codes = "generateRecoveryCodes rnd"
  let ?new = "?row\<lparr>at_enabledAt := Some now, at_lastUsedStep := Some step, at_recoveryCodes := hash_codes cr p ?codes\<rparr>"
  obtain st2 where en: "enable cr ctx rnd a code now st1 = (Inr ?codes, st2)" and row2: "tf_row a st2 = Some ?new"
  proof -
    have "tf_check a now st1 = (Inr (), st1)"
      using assms(7) by (simp add: tf_check_def tf_assertNotLocked_def st1 tf_save_def)
    then have "enable cr ctx rnd a code now st1 = (Inr ?codes,
        tf_note ctx (by_actor ''auth.two-factor.enabled'' a) (tf_save ?new (tf_forgive a st1)))"
      using open_row [of ?row] step pep by (simp add: enable_def st1 Let_def)
    moreover have "tf_row a (tf_note ctx i (tf_save ?new s)) = Some ?new" for i s
      using tf_row_save [of a ?new s] by (simp add: tf_row_def tf_note_def)
    ultimately show thesis by (rule that)
  qed
  have "fst (verifyForLogin cr a (?codes ! k) later st2) = Inr True" if k: "k < 8" for k later
  proof -
    have "length (normalizeRecoveryCode (?codes ! k)) = RECOVERY_LENGTH"
      by (simp add: generated_normalizes [OF k])
    then have "matchTotp (cr_hmac_sha1 cr) secret (?codes ! k) (Some step) later = Inr None"
      by (rule totp_and_recovery_disjoint)
    moreover obtain i where "matchRecoveryCode (cr_hmac_sha256 cr) (?codes ! k) (hash_codes cr p ?codes) p = int i"
      using recovery_code_matches [OF k, where hmac = "cr_hmac_sha256 cr" and pepper = p and rnd = rnd]
      by (auto simp: hash_codes_def)
    ultimately show ?thesis
      using row2 open_row [of ?new] pep
      by (simp add: verifyForLogin_def consume_def consumeTotp_def Let_def)
  qed
  moreover have "ts_enabled (tf_status a st2)" "ts_recoveryCodesLeft (tf_status a st2) = 8"
    using row2 by (simp_all add: tf_status_def hash_codes_def Let_def)
  ultimately show ?thesis using en by blast
qed

theorem setup_then_sign_in_witness:
  "\<exists>codes st2. enable toy_crypto None (\<lambda>k i. k + i) ''b'' ''000000'' 61000
       (snd (beginSetup toy_crypto ''App'' (replicate 12 1) (replicate 20 5) ''b'' ''b@x'' toy_tf_state)) = (Inr codes, st2)
    \<and> ts_enabled (tf_status ''b'' st2) \<and> ts_recoveryCodesLeft (tf_status ''b'' st2) = 8
    \<and> codes = generateRecoveryCodes (\<lambda>k i. k + i)
    \<and> (\<forall>k < 8. \<forall>later. fst (verifyForLogin toy_crypto ''b'' (codes ! k) later st2) = Inr True)"
proof (rule setup_then_sign_in [OF toy_gcm, where p = "''pepper''"])
  have row: "tf_row ''b'' toy_tf_state = None" by (simp add: tf_row_def toy_tf_state_def toy_row_def)
  show "cr_pepper toy_crypto = Some ''pepper''" by (simp add: toy_crypto_def)
  show "\<not> tf_isEnabled ''b'' toy_tf_state" by (simp add: tf_isEnabled_def row)
  show "beginSetup toy_crypto ''App'' (replicate 12 1) (replicate 20 5) ''b'' ''b@x'' toy_tf_state
     = (Inr (generateTotpSecret (replicate 20 5), otpauthUri ''App'' ''b@x'' (generateTotpSecret (replicate 20 5))),
        snd (beginSetup toy_crypto ''App'' (replicate 12 1) (replicate 20 5) ''b'' ''b@x'' toy_tf_state))"
    by (simp add: beginSetup_def row toy_row_facts Let_def)
  show "totpCode (cr_hmac_sha1 toy_crypto) (generateTotpSecret (replicate 20 5)) (totpStep 61000) = Inr ''000000''"
    by (rule toy_code) (simp_all add: totpStep_def TOTP_PERIOD_SECONDS_def)
qed (simp_all add: in_counter_range_def toy_tf_state_def)

end
