(* ===== verification/Mfa.thy ===== *)
theory Mfa imports Cipher Activity Lockout begin

text \<open>
  \<open>core/auth/mfa/security-answer.ts\<close>, \<open>security-questions.ts\<close>, \<open>mfa.service.ts\<close> and
  \<open>security-question.guard.ts\<close>: the security question of an account, chosen once, checked behind
  the same brake as the second factor, and the guard that stops a session without one. The state
  is the table of \<open>account-mfa.entity.ts\<close>, whether it can be read (the service answers for a
  table its migration has not created yet), the count of wrong answers and the journal.
\<close>

section \<open>Answers\<close>

text \<open>\<open>normalize("NFD")\<close> then the removal of the combining marks, on Latin-1.\<close>

definition strip_accent :: "char \<Rightarrow> char" where
  "strip_accent c =
     (let n = of_char c :: nat in
      if 192 \<le> n \<and> n \<le> 197 then CHR ''A'' else if n = 199 then CHR ''C''
      else if 200 \<le> n \<and> n \<le> 203 then CHR ''E'' else if 204 \<le> n \<and> n \<le> 207 then CHR ''I''
      else if n = 209 then CHR ''N'' else if 210 \<le> n \<and> n \<le> 214 then CHR ''O''
      else if 217 \<le> n \<and> n \<le> 220 then CHR ''U'' else if n = 221 then CHR ''Y''
      else if 224 \<le> n \<and> n \<le> 229 then CHR ''a'' else if n = 231 then CHR ''c''
      else if 232 \<le> n \<and> n \<le> 235 then CHR ''e'' else if 236 \<le> n \<and> n \<le> 239 then CHR ''i''
      else if n = 241 then CHR ''n'' else if 242 \<le> n \<and> n \<le> 246 then CHR ''o''
      else if 249 \<le> n \<and> n \<le> 252 then CHR ''u'' else if n = 253 \<or> n = 255 then CHR ''y''
      else c)"

text \<open>\<open>replace(/\s+/g, " ")\<close> and \<open>trim()\<close>.\<close>

lemma dropWhile_shorter [termination_simp]: "length (dropWhile P xs) < Suc (length xs)"
  by (simp add: length_dropWhile_le less_Suc_eq_le)

fun collapse_spaces :: "string \<Rightarrow> string" where
  "collapse_spaces [] = []"
| "collapse_spaces (c # cs) =
     (if is_space c then CHR '' '' # collapse_spaces (dropWhile is_space cs) else c # collapse_spaces cs)"

definition trim :: "string \<Rightarrow> string" where
  "trim s = rev (dropWhile is_space (rev (dropWhile is_space s)))"

definition normaliseAnswer :: "string \<Rightarrow> string" where
  "normaliseAnswer answer = trim (collapse_spaces (toLowerCase (map strip_accent answer)))"

definition hashAnswer :: "crypto \<Rightarrow> string \<Rightarrow> string \<Rightarrow> string" where
  "hashAnswer cr answer pepper = cr_hmac_sha256 cr (''security-answer:'' @ pepper) (normaliseAnswer answer)"

definition matchAnswer :: "crypto \<Rightarrow> string \<Rightarrow> string \<Rightarrow> string \<Rightarrow> bool" where
  "matchAnswer cr answer hash pepper =
     (length (hashAnswer cr answer pepper) = length hash \<and> hashAnswer cr answer pepper = hash)"

definition SECURITY_QUESTIONS :: "string list" where
  "SECURITY_QUESTIONS = [''father'', ''mother'', ''grandfather'', ''grandmother'', ''birthCity'']"

definition isSecurityQuestion :: "string \<Rightarrow> bool" where
  "isSecurityQuestion q = (q \<in> set SECURITY_QUESTIONS)"

section \<open>The service\<close>

definition MFA_MAX_FAILURES :: nat where "MFA_MAX_FAILURES = 5"
definition MFA_LOCKOUT_MS :: time where "MFA_LOCKOUT_MS = 15 * 60000"

record account_mfa =
  am_accountId :: string
  am_question :: "string option"
  am_answerHash :: "string option"

record mf_state =
  mf_reachable :: bool
  mf_rows :: "account_mfa list"
  mf_failures :: failures
  mf_log :: "activity_row list"

text \<open>\<open>!!value\<close> of a nullable string.\<close>

definition truthy :: "string option \<Rightarrow> bool" where
  "truthy v = (v \<noteq> None \<and> v \<noteq> Some [])"

definition mf_pepper :: "crypto \<Rightarrow> err + string" where
  "mf_pepper cr = (case cr_pepper cr of
      None \<Rightarrow> Inl (Crash ''MANAGER_API_TOKEN_PEPPER env var is required'')
    | Some p \<Rightarrow> if p = [] then Inl (Crash ''MANAGER_API_TOKEN_PEPPER env var is required'') else Inr p)"

definition mf_rowOf :: "string \<Rightarrow> 'a mf_state_scheme \<Rightarrow> account_mfa option" where
  "mf_rowOf accountId st =
     (if mf_reachable st then List.find (\<lambda>r. am_accountId r = accountId) (mf_rows st) else None)"

definition mf_save :: "account_mfa \<Rightarrow> 'a mf_state_scheme \<Rightarrow> (unit, 'a mf_state_scheme) outcome" where
  "mf_save row st =
     (if mf_reachable st then (Inr (), st\<lparr>mf_rows := save_row am_accountId row (mf_rows st)\<rparr>)
      else (Inl (Crash ''account_mfa''), st))"

definition mf_note :: "activity_context \<Rightarrow> activity_input \<Rightarrow> 'a mf_state_scheme \<Rightarrow> 'a mf_state_scheme" where
  "mf_note ctx input st = st\<lparr>mf_log := record_activity ctx input (mf_log st)\<rparr>"

definition hasQuestion :: "string \<Rightarrow> 'a mf_state_scheme \<Rightarrow> bool" where
  "hasQuestion accountId st =
     (case mf_rowOf accountId st of None \<Rightarrow> False | Some row \<Rightarrow> truthy (am_answerHash row))"

datatype question_state = Set | Missing | Unknown

definition questionState :: "string \<Rightarrow> 'a mf_state_scheme \<Rightarrow> question_state" where
  "questionState accountId st =
     (if \<not> mf_reachable st then Unknown
      else case List.find (\<lambda>r. am_accountId r = accountId) (mf_rows st) of
             None \<Rightarrow> Missing
           | Some row \<Rightarrow> if truthy (am_answerHash row) then Set else Missing)"

definition questionOf :: "string \<Rightarrow> 'a mf_state_scheme \<Rightarrow> string option" where
  "questionOf accountId st =
     (case mf_rowOf accountId st of
        None \<Rightarrow> None
      | Some row \<Rightarrow>
          if \<not> truthy (am_answerHash row) \<or> \<not> truthy (am_question row)
             \<or> \<not> isSecurityQuestion (the (am_question row)) then None
          else am_question row)"

record question_status =
  qs_set :: bool
  qs_question :: "string option"
  qs_catalogue :: "string list"

definition mf_status :: "string \<Rightarrow> 'a mf_state_scheme \<Rightarrow> question_status" where
  "mf_status accountId st =
     (let question = questionOf accountId st
      in \<lparr>qs_set = (question \<noteq> None), qs_question = question, qs_catalogue = SECURITY_QUESTIONS\<rparr>)"

definition questionSetAmong :: "string list \<Rightarrow> 'a mf_state_scheme \<Rightarrow> string set" where
  "questionSetAmong accountIds st =
     (if accountIds = [] then {}
      else let rows = (if mf_reachable st then filter (\<lambda>r. am_accountId r \<in> set accountIds) (mf_rows st) else [])
           in set (map am_accountId (filter (\<lambda>r. truthy (am_answerHash r)) rows)))"

definition setQuestion ::
  "crypto \<Rightarrow> activity_context \<Rightarrow> string \<Rightarrow> string \<Rightarrow> string \<Rightarrow> 'a mf_state_scheme
   \<Rightarrow> (question_status, 'a mf_state_scheme) outcome" where
  "setQuestion cr ctx accountId question answer st =
     (let existing = mf_rowOf accountId st in
      if (case existing of None \<Rightarrow> False | Some row \<Rightarrow> truthy (am_answerHash row))
      then (Inl (ApiError CONFLICT ''securityQuestion.alreadySet''), st)
      else let row = (case existing of
                 None \<Rightarrow> \<lparr>am_accountId = accountId, am_question = None, am_answerHash = None\<rparr> | Some r \<Rightarrow> r) in
        case mf_pepper cr of
          Inl e \<Rightarrow> (Inl e, st)
        | Inr p \<Rightarrow>
            and_then (mf_save (row\<lparr>am_question := Some question, am_answerHash := Some (hashAnswer cr answer p)\<rparr>) st)
              (\<lambda>_ st. (Inr \<lparr>qs_set = True, qs_question = Some question, qs_catalogue = SECURITY_QUESTIONS\<rparr>,
                       mf_note ctx (by_actor ''auth.security-question.set'' accountId) st)))"

definition mf_assertNotLocked :: "string \<Rightarrow> time \<Rightarrow> failures \<Rightarrow> (err + unit) \<times> failures" where
  "mf_assertNotLocked accountId now failures =
     (case failures accountId of
        None \<Rightarrow> (Inr (), failures)
      | Some (count, until) \<Rightarrow>
          if MFA_MAX_FAILURES \<le> count \<and> now < until
          then (Inl (ApiError TOO_MANY_REQUESTS ''mfa.tooManyAttempts''), failures)
          else (Inr (), if until \<le> now then failures(accountId := None) else failures))"

definition countFailure :: "string \<Rightarrow> time \<Rightarrow> failures \<Rightarrow> failures" where
  "countFailure accountId now failures =
     (let (count, until) = (case failures accountId of None \<Rightarrow> (0, 0) | Some e \<Rightarrow> e)
      in failures(accountId \<mapsto> (count + 1, now + MFA_LOCKOUT_MS)))"

definition verifyAnswer ::
  "crypto \<Rightarrow> string \<Rightarrow> string \<Rightarrow> time \<Rightarrow> 'a mf_state_scheme \<Rightarrow> (bool, 'a mf_state_scheme) outcome" where
  "verifyAnswer cr accountId answer now st =
     (case mf_assertNotLocked accountId now (mf_failures st) of
        (Inl e, f) \<Rightarrow> (Inl e, st\<lparr>mf_failures := f\<rparr>)
      | (Inr _, f) \<Rightarrow>
          let st = st\<lparr>mf_failures := f\<rparr> in
          case mf_rowOf accountId st of
            None \<Rightarrow> (Inr False, st)
          | Some row \<Rightarrow>
              if \<not> truthy (am_answerHash row) then (Inr False, st)
              else case mf_pepper cr of
                Inl e \<Rightarrow> (Inl e, st)
              | Inr p \<Rightarrow>
                  if \<not> matchAnswer cr answer (the (am_answerHash row)) p
                  then (Inr False, st\<lparr>mf_failures := countFailure accountId now f\<rparr>)
                  else (Inr True, st\<lparr>mf_failures := f(accountId := None)\<rparr>))"

definition resetQuestion ::
  "activity_context \<Rightarrow> string \<Rightarrow> 'a mf_state_scheme \<Rightarrow> (bool, 'a mf_state_scheme) outcome" where
  "resetQuestion ctx accountId st =
     (case mf_rowOf accountId st of
        None \<Rightarrow> (Inr False, st)
      | Some row \<Rightarrow>
          if \<not> truthy (am_answerHash row) then (Inr False, st)
          else and_then (mf_save (row\<lparr>am_question := None, am_answerHash := None\<rparr>) st)
            (\<lambda>_ st. (Inr True, mf_note ctx (about_account ''auth.security-question.reset'' accountId) st)))"

section \<open>The guard\<close>

definition starts_with :: "string \<Rightarrow> string \<Rightarrow> bool" where
  "starts_with pre s = (take (length pre) s = pre)"

definition GUARD_ALLOWED_EXACT :: "string list" where "GUARD_ALLOWED_EXACT = [''/api/v1/auth/jwt/me'']"
definition GUARD_ALLOWED_PREFIX :: string where "GUARD_ALLOWED_PREFIX = ''/api/v1/auth/jwt/me/security-question''"

text \<open>The request: its account, its authorization header, its url.\<close>

definition question_guard :: "string option \<Rightarrow> string option \<Rightarrow> string \<Rightarrow> 'a mf_state_scheme \<Rightarrow> err + bool" where
  "question_guard accountId authHeader url st =
     (case accountId of
        None \<Rightarrow> Inr True
      | Some a \<Rightarrow>
          if a = [] then Inr True
          else if (case authHeader of None \<Rightarrow> True | Some h \<Rightarrow> \<not> starts_with ''Bearer '' h) then Inr True
          else let path = hd (split_on (CHR ''?'') url) in
            if path \<in> set GUARD_ALLOWED_EXACT \<or> starts_with GUARD_ALLOWED_PREFIX path then Inr True
            else if questionState a st \<noteq> Missing then Inr True
            else Inl (ApiError FORBIDDEN ''securityQuestion.required''))"

section \<open>The brake keeps its contract\<close>

interpretation mf_brake: lockout mf_assertNotLocked countFailure "\<lambda>f k. f k" MFA_MAX_FAILURES MFA_LOCKOUT_MS
  by unfold_locales (auto simp: mf_assertNotLocked_def countFailure_def split: option.splits prod.splits if_splits)

section \<open>What an answer comes down to\<close>

text \<open>The words of a text, by its spaces.\<close>

function text_words :: "string \<Rightarrow> string list" where
  "text_words s =
     (case dropWhile is_space s of
        [] \<Rightarrow> []
      | c # cs \<Rightarrow> (c # takeWhile (\<lambda>x. \<not> is_space x) cs) # text_words (dropWhile (\<lambda>x. \<not> is_space x) cs))"
  by pat_completeness auto
termination
proof (relation "measure length")
  fix s c cs assume "dropWhile is_space s = c # cs"
  then have "length (c # cs) \<le> length s" by (metis length_dropWhile_le)
  then show "(dropWhile (\<lambda>x. \<not> is_space x) cs, s) \<in> measure length"
    using length_dropWhile_le [of "\<lambda>x. \<not> is_space x" cs] by simp
qed simp

declare text_words.simps [simp del]

definition fold_char :: "char \<Rightarrow> char" where
  "fold_char c = lower_char (strip_accent c)"

definition rtrim :: "string \<Rightarrow> string" where
  "rtrim s = rev (dropWhile is_space (rev s))"

lemma rtrim_append: "\<exists>x \<in> set b. \<not> is_space x \<Longrightarrow> rtrim (a @ b) = a @ rtrim b"
  using dropWhile_append1 [of _ "rev b" is_space "rev a"] by (auto simp: rtrim_def)

lemma rtrim_id: "s = [] \<or> \<not> is_space (last s) \<Longrightarrow> rtrim s = s"
  by (cases s rule: rev_cases) (auto simp: rtrim_def)

lemma collapse_word: "\<forall>c \<in> set w. \<not> is_space c \<Longrightarrow> collapse_spaces (w @ s) = w @ collapse_spaces s"
  by (induction w) auto

lemma dropWhile_collapse: "dropWhile is_space (collapse_spaces s) = collapse_spaces (dropWhile is_space s)"
proof (cases s)
  case (Cons c cs)
  have sp: "is_space (CHR '' '')" by (simp add: is_space_def)
  have "dropWhile is_space (collapse_spaces (dropWhile is_space t)) = collapse_spaces (dropWhile is_space t)" for t
  proof (cases "dropWhile is_space t")
    case Nil
    show ?thesis unfolding Nil by simp
  next
    case (Cons a l)
    have "\<not> is_space a" using hd_dropWhile [of is_space t] Cons by simp
    then show ?thesis unfolding Cons by simp
  qed
  with Cons sp show ?thesis by simp
qed simp

lemma text_words_dropWhile [simp]: "text_words (dropWhile is_space s) = text_words s"
  by (subst (1 2) text_words.simps) simp

lemma collapse_words:
  "dropWhile is_space s = s \<Longrightarrow> rtrim (collapse_spaces s) = join_with '' '' (text_words s)"
proof (induction s rule: measure_induct_rule [of length])
  case (less s)
  show ?case
  proof (cases s)
    case Nil
    then show ?thesis by (simp add: text_words.simps rtrim_def)
  next
    case (Cons c cs)
    have c: "\<not> is_space c"
    proof
      assume "is_space c"
      with less.prems Cons have "dropWhile is_space cs = c # cs" by simp
      with length_dropWhile_le [of is_space cs] show False by simp
    qed
    let ?w = "c # takeWhile (\<lambda>x. \<not> is_space x) cs"
    let ?t = "dropWhile (\<lambda>x. \<not> is_space x) cs"
    let ?t' = "dropWhile is_space ?t"
    have w: "\<forall>x \<in> set ?w. \<not> is_space x" using c by (auto dest: set_takeWhileD)
    have s: "s = ?w @ ?t" using Cons by simp
    have words: "text_words s = ?w # text_words ?t'" using Cons c by (subst text_words.simps) simp
    have col: "collapse_spaces s = ?w @ collapse_spaces ?t" using collapse_word [OF w] s by metis
    have rt: "rtrim ?w = ?w" by (rule rtrim_id) (use w last_in_set [of ?w] in auto)
    show ?thesis
    proof (cases ?t)
      case Nil
      with words col rt show ?thesis by (simp add: text_words.simps)
    next
      case (Cons d ds)
      then have d: "is_space d" using hd_dropWhile [of "\<lambda>x. \<not> is_space x" cs] by simp
      have ct: "collapse_spaces ?t = CHR '' '' # collapse_spaces ?t'"
        using Cons d by simp
      have shorter: "length ?t' < length s"
        using length_dropWhile_le [of is_space ?t] length_dropWhile_le [of "\<lambda>x. \<not> is_space x" cs]
        by (simp add: \<open>s = c # cs\<close>)
      have "dropWhile is_space ?t' = ?t'" by (simp add: dropWhile_idem)
      from less.IH [OF shorter this] have IH: "rtrim (collapse_spaces ?t') = join_with '' '' (text_words ?t')" .
      show ?thesis
      proof (cases ?t')
        case Nil
        have "rtrim (?w @ '' '') = ?w"
          using rt by (simp add: rtrim_def is_space_def)
        moreover have "text_words ?t' = []" unfolding Nil by (subst text_words.simps) simp
        ultimately show ?thesis unfolding words col ct unfolding Nil
          by (simp only: collapse_spaces.simps(1) join_with.simps(2))
      next
        case (Cons e es)
        then have e: "\<not> is_space e" using hd_dropWhile [of is_space ?t] by simp
        then have "\<exists>x \<in> set (collapse_spaces ?t'). \<not> is_space x" unfolding Cons by simp
        then have "rtrim (?w @ '' '' @ collapse_spaces ?t') = ?w @ '' '' @ rtrim (collapse_spaces ?t')"
          by (subst append_assoc [symmetric], subst rtrim_append) simp_all
        moreover have "text_words ?t' \<noteq> []" unfolding Cons using e by (subst text_words.simps) simp
        ultimately show ?thesis unfolding words col ct using IH
          by (cases "text_words ?t'") (simp_all only: append_Cons append_Nil join_with.simps simp_thms)
      qed
    qed
  qed
qed

lemma normaliseAnswer_words: "normaliseAnswer answer = join_with '' '' (text_words (map fold_char answer))"
proof -
  have m: "toLowerCase (map strip_accent answer) = map fold_char answer"
    by (simp add: toLowerCase_def fold_char_def comp_def)
  have "normaliseAnswer answer = rtrim (collapse_spaces (dropWhile is_space (map fold_char answer)))"
    by (simp add: normaliseAnswer_def trim_def rtrim_def m dropWhile_collapse)
  then show ?thesis by (simp add: collapse_words dropWhile_idem)
qed

section \<open>What the question is worth\<close>

lemma mf_row_after_save:
  "mf_save row st = (Inr u, st') \<Longrightarrow> mf_rowOf (am_accountId row) st' = Some row \<and> mf_reachable st'"
  by (auto simp: mf_save_def mf_rowOf_def row_simps split: if_splits)

lemma mf_rowOf_note [simp]: "mf_rowOf a (mf_note ctx i st) = mf_rowOf a st"
  by (simp add: mf_rowOf_def mf_note_def)

lemma mf_rowOf_key: "mf_rowOf a st = Some row \<Longrightarrow> am_accountId row = a"
  by (auto simp: mf_rowOf_def dest: find_in_set split: if_splits)

lemma setQuestion_row:
  assumes "setQuestion cr ctx a question answer st = (Inr r, st')"
  obtains p row where "mf_pepper cr = Inr p" "mf_rowOf a st' = Some row"
    "am_question row = Some question" "am_answerHash row = Some (hashAnswer cr answer p)" "mf_reachable st'"
proof -
  let ?row = "case mf_rowOf a st of None \<Rightarrow> \<lparr>am_accountId = a, am_question = None, am_answerHash = None\<rparr> | Some r \<Rightarrow> r"
  from assms obtain p u st1 where p: "mf_pepper cr = Inr p"
    and save: "mf_save (?row\<lparr>am_question := Some question, am_answerHash := Some (hashAnswer cr answer p)\<rparr>) st = (Inr u, st1)"
    and st': "st' = mf_note ctx (by_actor ''auth.security-question.set'' a) st1"
    by (auto simp: setQuestion_def Let_def and_then_Inr split: if_splits sum.splits)
  have "am_accountId ?row = a" using mf_rowOf_key by (auto split: option.splits)
  with mf_row_after_save [OF save] p st' show thesis
    by (intro that [of p "?row\<lparr>am_question := Some question, am_answerHash := Some (hashAnswer cr answer p)\<rparr>"])
       (simp_all, simp add: mf_note_def)
qed

text \<open>An answer is its words: typed again with other capitals, without the accents or with
  other spacing, it is accepted unless the brake is on, and the count of wrong answers is
  cleared.\<close>
theorem answer_accepted_however_typed:
  assumes "setQuestion cr ctx a question answer st = (Inr r, st')"
    and "text_words (map fold_char typed) = text_words (map fold_char answer)"
    and "hashAnswer cr answer (the (cr_pepper cr)) \<noteq> []"
    and "mf_failures st' a = None"
  shows "verifyAnswer cr a typed now st' = (Inr True, st'\<lparr>mf_failures := (mf_failures st')(a := None)\<rparr>)"
proof -
  obtain p row where row: "mf_pepper cr = Inr p" "mf_rowOf a st' = Some row"
    "am_question row = Some question" "am_answerHash row = Some (hashAnswer cr answer p)" "mf_reachable st'"
    by (rule setQuestion_row [OF assms(1)])
  have p: "the (cr_pepper cr) = p" using row(1) by (auto simp: mf_pepper_def split: option.splits if_splits)
  have "hashAnswer cr typed p = hashAnswer cr answer p"
    by (simp add: hashAnswer_def normaliseAnswer_words assms(2))
  moreover have "mf_rowOf a (st'\<lparr>mf_failures := f\<rparr>) = Some row" for f
    using row(2) by (auto simp: mf_rowOf_def split: if_splits)
  ultimately show ?thesis
    using row p assms(3,4) by (simp add: verifyAnswer_def mf_assertNotLocked_def truthy_def matchAnswer_def Let_def)
qed

definition toy_mf_state :: mf_state where
  "toy_mf_state = \<lparr>mf_reachable = True, mf_rows = [], mf_failures = (\<lambda>_. None), mf_log = []\<rparr>"

definition toy_mf_set :: mf_state where
  "toy_mf_set = snd (setQuestion toy_crypto None ''a'' ''father'' ''Jo de'' toy_mf_state)"

lemma toy_set: "\<exists>r. setQuestion toy_crypto None ''a'' ''father'' ''Jo de'' toy_mf_state = (Inr r, toy_mf_set)"
  by (simp add: toy_mf_set_def setQuestion_def toy_mf_state_def mf_rowOf_def Let_def mf_pepper_def toy_crypto_def
      mf_save_def save_row_def)

lemma toy_set_failures: "mf_failures toy_mf_set = (\<lambda>_. None)"
  by (simp add: toy_mf_set_def setQuestion_def toy_mf_state_def mf_rowOf_def Let_def mf_pepper_def toy_crypto_def
      mf_save_def save_row_def mf_note_def)

theorem answer_accepted_however_typed_witness:
  "verifyAnswer toy_crypto ''a'' ''  JO   dE '' 5 toy_mf_set
    = (Inr True, toy_mf_set\<lparr>mf_failures := (mf_failures toy_mf_set)(''a'' := None)\<rparr>)"
proof -
  obtain r where set: "setQuestion toy_crypto None ''a'' ''father'' ''Jo de'' toy_mf_state = (Inr r, toy_mf_set)"
    using toy_set by blast
  have "text_words (map fold_char ''  JO   dE '') = text_words (map fold_char ''Jo de'')" by code_simp
  moreover have "hashAnswer toy_crypto ''Jo de'' (the (cr_pepper toy_crypto)) \<noteq> []"
    by (simp add: hashAnswer_def toy_crypto_def)
  ultimately show ?thesis by (rule answer_accepted_however_typed [OF set]) (simp add: toy_set_failures)
qed

text \<open>A question is chosen once: after it is set, no later choice replaces it, whatever the
  new question and answer; only the administrator's reset makes the account choose again.\<close>
theorem question_set_once:
  assumes "setQuestion cr ctx a question answer st = (Inr r, st')"
    and "hashAnswer cr answer (the (cr_pepper cr)) \<noteq> []"
  shows "setQuestion cr ctx' a question' answer' st' = (Inl (ApiError CONFLICT ''securityQuestion.alreadySet''), st')
    \<and> hasQuestion a st' \<and> questionState a st' = Set
    \<and> questionState a (snd (resetQuestion ctx' a st')) = Missing"
proof -
  obtain p row where row: "mf_pepper cr = Inr p" "mf_rowOf a st' = Some row"
    "am_question row = Some question" "am_answerHash row = Some (hashAnswer cr answer p)" "mf_reachable st'"
    by (rule setQuestion_row [OF assms(1)])
  have p: "the (cr_pepper cr) = p" using row(1) by (auto simp: mf_pepper_def split: option.splits if_splits)
  with row assms(2) have t: "truthy (am_answerHash row)" by (simp add: truthy_def)
  with row have set: "setQuestion cr ctx' a question' answer' st' = (Inl (ApiError CONFLICT ''securityQuestion.alreadySet''), st')"
    by (simp add: setQuestion_def Let_def)
  from row t have has: "hasQuestion a st'" by (simp add: hasQuestion_def)
  from row t have state: "questionState a st' = Set" by (simp add: questionState_def mf_rowOf_def)
  let ?row = "row\<lparr>am_question := None, am_answerHash := None\<rparr>"
  have key: "am_accountId ?row = a" using mf_rowOf_key [OF row(2)] by simp
  obtain u st1 where save: "mf_save ?row st' = (Inr u, st1)" using row(5) by (auto simp: mf_save_def)
  have "mf_rowOf a st1 = Some ?row" "mf_reachable st1" using mf_row_after_save [OF save] key by simp_all
  then have "questionState a (mf_note ctx' i st1) = Missing" for i
    by (simp add: questionState_def mf_rowOf_def mf_note_def truthy_def)
  then have "questionState a (snd (resetQuestion ctx' a st')) = Missing"
    using row t save by (simp add: resetQuestion_def)
  with set has state show ?thesis by blast
qed

theorem question_set_once_witness:
  "setQuestion toy_crypto None ''a'' ''mother'' ''x'' toy_mf_set
     = (Inl (ApiError CONFLICT ''securityQuestion.alreadySet''), toy_mf_set)"
proof -
  obtain r where set: "setQuestion toy_crypto None ''a'' ''father'' ''Jo de'' toy_mf_state = (Inr r, toy_mf_set)"
    using toy_set by blast
  show ?thesis by (rule question_set_once [OF set, THEN conjunct1]) (simp add: hashAnswer_def toy_crypto_def)
qed

section \<open>Guessing the answer\<close>

fun verify_run :: "crypto \<Rightarrow> string \<Rightarrow> (string \<times> time) list \<Rightarrow> 'a mf_state_scheme \<Rightarrow> (err + bool) list" where
  "verify_run cr a [] st = []"
| "verify_run cr a ((answer, now) # tries) st =
     (let (r, st') = verifyAnswer cr a answer now st in r # verify_run cr a tries st')"

definition answer_refusal :: "bool \<Rightarrow> err + bool" where
  "answer_refusal stopped = (if stopped then Inl (ApiError TOO_MANY_REQUESTS ''mfa.tooManyAttempts'') else Inr False)"

definition wrong_answer :: "crypto \<Rightarrow> account_mfa \<Rightarrow> string \<Rightarrow> bool" where
  "wrong_answer cr row answer = (truthy (am_answerHash row) \<and>
     (\<exists>p. mf_pepper cr = Inr p \<and> \<not> matchAnswer cr answer (the (am_answerHash row)) p))"

lemma mf_rowOf_failures [simp]: "mf_rowOf a (st\<lparr>mf_failures := f\<rparr>) = mf_rowOf a st"
  by (simp add: mf_rowOf_def)

lemma verifyAnswer_wrong:
  assumes "mf_rowOf a st = Some row" "wrong_answer cr row answer"
  shows "verifyAnswer cr a answer now st =
    (case mf_assertNotLocked a now (mf_failures st) of
       (Inl e, f) \<Rightarrow> (answer_refusal True, st\<lparr>mf_failures := f\<rparr>)
     | (Inr u, f) \<Rightarrow> (answer_refusal False, st\<lparr>mf_failures := countFailure a now f\<rparr>))"
proof -
  have "e = ApiError TOO_MANY_REQUESTS ''mfa.tooManyAttempts''"
    if "mf_assertNotLocked a now (mf_failures st) = (Inl e, f)" for e f
    using that by (auto simp: mf_assertNotLocked_def split: option.splits prod.splits if_splits)
  with assms show ?thesis
    by (auto simp: verifyAnswer_def wrong_answer_def answer_refusal_def Let_def split: prod.splits sum.splits)
qed

lemma verify_run_wrong:
  assumes "mf_rowOf a st = Some row" "\<forall>(answer, t) \<in> set tries. wrong_answer cr row answer"
  shows "verify_run cr a tries st
    = map answer_refusal (wrong_guesses mf_assertNotLocked countFailure a (map snd tries) (mf_failures st))"
  using assms
proof (induction tries arbitrary: st)
  case (Cons g tries)
  obtain answer t where [simp]: "g = (answer, t)" by force
  have "verifyAnswer cr a answer t st = (case mf_assertNotLocked a t (mf_failures st) of
       (Inl e, f) \<Rightarrow> (answer_refusal True, st\<lparr>mf_failures := f\<rparr>)
     | (Inr u, f) \<Rightarrow> (answer_refusal False, st\<lparr>mf_failures := countFailure a t f\<rparr>))"
    using Cons.prems by (intro verifyAnswer_wrong) auto
  moreover have "verify_run cr a tries (st\<lparr>mf_failures := f\<rparr>)
      = map answer_refusal (wrong_guesses mf_assertNotLocked countFailure a (map snd tries) f)" for f
    using Cons.IH [of "st\<lparr>mf_failures := f\<rparr>"] Cons.prems by simp
  ultimately show ?case by (simp split: prod.splits sum.splits)
qed simp

text \<open>From a clean count, wrong answers to the security question within the quarter hour of the
  first are checked five times: every later one is stopped before the answer is looked at.\<close>
theorem wrong_answers_stop_after_five:
  assumes "mf_rowOf a st = Some row" "mf_failures st a = None"
    and "\<forall>(answer, t) \<in> set ((answer0, t0) # tries). wrong_answer cr row answer"
    and "\<forall>(answer, t) \<in> set tries. t0 \<le> t \<and> t < t0 + MFA_LOCKOUT_MS"
  shows "verify_run cr a ((answer0, t0) # tries) st = map (\<lambda>i. answer_refusal (5 \<le> i)) [0..<Suc (length tries)]"
proof -
  have "wrong_guesses mf_assertNotLocked countFailure a (t0 # map snd tries) (mf_failures st)
      = map (\<lambda>i. MFA_MAX_FAILURES \<le> i) [0..<Suc (length (map snd tries))]"
    by (rule mf_brake.guesses_braked) (use assms in \<open>auto simp: MFA_LOCKOUT_MS_def MFA_MAX_FAILURES_def\<close>)
  moreover have "verify_run cr a ((answer0, t0) # tries) st = map answer_refusal
      (wrong_guesses mf_assertNotLocked countFailure a (t0 # map snd tries) (mf_failures st))"
    using verify_run_wrong [OF assms(1,3)] by (simp only: list.map snd_conv)
  ultimately show ?thesis
    by (simp add: MFA_MAX_FAILURES_def comp_def del: upt_Suc verify_run.simps wrong_guesses.simps)
qed

theorem wrong_answers_stop_after_five_witness:
  "verify_run toy_crypto ''a'' ((''no'', 10) # replicate 6 (''no'', 20)) toy_mf_set
    = map (\<lambda>i. answer_refusal (5 \<le> i)) [0..<Suc (length (replicate 6 (''no'', 20 :: time)))]"
proof -
  obtain r where set: "setQuestion toy_crypto None ''a'' ''father'' ''Jo de'' toy_mf_state = (Inr r, toy_mf_set)"
    using toy_set by blast
  obtain p row where row: "mf_pepper toy_crypto = Inr p" "mf_rowOf ''a'' toy_mf_set = Some row"
    "am_answerHash row = Some (hashAnswer toy_crypto ''Jo de'' p)"
    by (rule setQuestion_row [OF set])
  have "normaliseAnswer ''no'' \<noteq> normaliseAnswer ''Jo de''" by code_simp
  then have "wrong_answer toy_crypto row ''no''"
    using row by (simp add: wrong_answer_def truthy_def matchAnswer_def hashAnswer_def toy_crypto_def)
  with row show ?thesis
    by (intro wrong_answers_stop_after_five [where row = row]) (auto simp: toy_set_failures MFA_LOCKOUT_MS_def)
qed

end
