(* ===== verification/LoginRisk.thy ===== *)
theory LoginRisk imports Complex_Main Prelude begin

text \<open>
  \<open>core/common/haversine.ts\<close> and \<open>core/auth/mfa/login-risk.service.ts\<close>: whether a sign-in comes
  from too far, from a network never seen or after too long, against the places an account is
  known to sign in from. Coordinates are real numbers, those of a row being kept to seven
  decimals; the tables are those of \<open>account-network.entity.ts\<close> and
  \<open>account-address.entity.ts\<close>, with whether they can be reached. The debug block of the answer,
  filled in development only, is left out.
\<close>

section \<open>Distances\<close>

record geo_point =
  latitude :: real
  longitude :: real

definition EARTH_RADIUS_KM :: real where "EARTH_RADIUS_KM = 6371"

definition toRadians :: "real \<Rightarrow> real" where "toRadians degrees = degrees * pi / 180"

definition chord :: "geo_point \<Rightarrow> geo_point \<Rightarrow> real" where
  "chord p q =
     (let deltaLat = toRadians (latitude q - latitude p);
          deltaLon = toRadians (longitude q - longitude p);
          fromLat = toRadians (latitude p);
          toLat = toRadians (latitude q)
      in sin (deltaLat / 2) ^ 2 + cos fromLat * cos toLat * sin (deltaLon / 2) ^ 2)"

definition haversineKm :: "geo_point \<Rightarrow> geo_point \<Rightarrow> real" where
  "haversineKm p q = 2 * EARTH_RADIUS_KM * arcsin (min 1 (sqrt (chord p q)))"

text \<open>\<open>Math.round\<close>, and \<open>Number(x.toFixed(7))\<close>.\<close>

definition math_round :: "real \<Rightarrow> int" where "math_round x = \<lfloor>x + 1 / 2\<rfloor>"

definition to_fixed7 :: "real \<Rightarrow> real" where
  "to_fixed7 x = real_of_int (math_round (x * 10 ^ 7)) / 10 ^ 7"

section \<open>The tables\<close>

record ip_location =
  il_ip :: string
  il_point :: geo_point
  il_countryCode :: string
  il_asn :: "nat option"
  il_asnOrg :: string
  il_city :: string

record account_network =
  an_accountId :: string
  an_countryCode :: string
  an_asn :: nat
  an_asnOrg :: "string option"
  an_lastCity :: "string option"
  an_lastIp :: "string option"
  an_loginCount :: nat
  an_firstSeenAt :: time
  an_lastSeenAt :: time

record account_address =
  aa_accountId :: string
  aa_ip :: string
  aa_countryCode :: "string option"
  aa_asn :: "nat option"
  aa_asnOrg :: "string option"
  aa_city :: "string option"
  aa_point :: geo_point
  aa_loginCount :: nat
  aa_firstSeenAt :: time
  aa_lastSeenAt :: time

record login_settings =
  loginRadiusKm :: int
  loginAddressDays :: int
  loginNetworkDays :: int

record lr_state =
  lr_reachable :: bool
  lr_networks :: "account_network list"
  lr_addresses :: "account_address list"
  lr_prunedAt :: time

definition DAY_MS :: time where "DAY_MS = 24 * 3600000"

definition hasNetwork :: "ip_location \<Rightarrow> bool" where
  "hasNetwork w = (length (il_countryCode w) = 2 \<and> (case il_asn w of None \<Rightarrow> False | Some n \<Rightarrow> 0 < n))"

definition pointOf :: "account_address \<Rightarrow> geo_point" where "pointOf row = aa_point row"

text \<open>The loop of \<open>nearestOf\<close>, \<open>best = None\<close> being the infinity it starts from.\<close>

fun nearest_loop :: "geo_point \<Rightarrow> account_address option \<Rightarrow> account_address list \<Rightarrow> account_address option" where
  "nearest_loop w best [] = best"
| "nearest_loop w best (row # rows) =
     (if (case best of None \<Rightarrow> True | Some b \<Rightarrow> haversineKm (pointOf row) w < haversineKm (pointOf b) w)
      then nearest_loop w (Some row) rows else nearest_loop w best rows)"

definition nearestOf :: "account_address list \<Rightarrow> geo_point \<Rightarrow> account_address option" where
  "nearestOf rows w = nearest_loop w None rows"

definition sinceAddresses :: "login_settings \<Rightarrow> time \<Rightarrow> time" where
  "sinceAddresses cfg now = now - loginAddressDays cfg * DAY_MS"

definition sinceNetworks :: "login_settings \<Rightarrow> time \<Rightarrow> time" where
  "sinceNetworks cfg now = now - loginNetworkDays cfg * DAY_MS"

definition knownAddresses :: "login_settings \<Rightarrow> string \<Rightarrow> time \<Rightarrow> lr_state \<Rightarrow> account_address list" where
  "knownAddresses cfg accountId now st =
     (if lr_reachable st
      then filter (\<lambda>r. aa_accountId r = accountId \<and> sinceAddresses cfg now \<le> aa_lastSeenAt r) (lr_addresses st)
      else [])"

definition knownNetworks :: "login_settings \<Rightarrow> string \<Rightarrow> time \<Rightarrow> lr_state \<Rightarrow> account_network list" where
  "knownNetworks cfg accountId now st =
     (if lr_reachable st
      then sort_key (\<lambda>r. - an_lastSeenAt r)
             (filter (\<lambda>r. an_accountId r = accountId \<and> sinceNetworks cfg now \<le> an_lastSeenAt r) (lr_networks st))
      else [])"

section \<open>The assessment\<close>

datatype reference_kind = Address | Nearest

record reference_place =
  rf_kind :: reference_kind
  rf_ip :: string
  rf_city :: string
  rf_point :: geo_point

definition referenceOf :: "account_address list \<Rightarrow> ip_location \<Rightarrow> reference_place option" where
  "referenceOf known w =
     (let own = List.find (\<lambda>row. aa_ip row = il_ip w) known;
          row = (case own of None \<Rightarrow> nearestOf known (il_point w) | Some r \<Rightarrow> Some r)
      in case row of
           None \<Rightarrow> None
         | Some r \<Rightarrow> Some \<lparr>rf_kind = (if own = None then Nearest else Address), rf_ip = aa_ip r,
                           rf_city = (case aa_city r of None \<Rightarrow> [] | Some c \<Rightarrow> c), rf_point = pointOf r\<rparr>)"

datatype suspicion = Distance | Network | Expired

record far_away =
  fa_distanceKm :: "int option"
  fa_thresholdKm :: int
  fa_countryCode :: string
  fa_asn :: "nat option"
  fa_asnOrg :: string
  fa_city :: string
  fa_reasons :: "suspicion list"

record risk_assessment =
  ra_far :: bool
  ra_unknownNetwork :: bool
  ra_expired :: bool
  ra_suspicious :: "far_away option"

text \<open>\<open>lastLogin\<close> is the account's; \<open>w\<close> the place the address resolves to, when it does.\<close>

definition assess ::
  "login_settings \<Rightarrow> string \<Rightarrow> time option \<Rightarrow> ip_location option \<Rightarrow> time \<Rightarrow> lr_state \<Rightarrow> risk_assessment" where
  "assess cfg accountId lastLogin w now st =
     (let radiusKm = loginRadiusKm cfg;
          addresses = (if w = None then [] else knownAddresses cfg accountId now st);
          networks = (if w = None then [] else knownNetworks cfg accountId now st);
          reference = (case w of None \<Rightarrow> None | Some l \<Rightarrow> referenceOf addresses l);
          distanceKm = (case (w, reference) of
                          (Some l, Some r) \<Rightarrow> Some (math_round (haversineKm (rf_point r) (il_point l)))
                        | _ \<Rightarrow> None);
          far = (0 < radiusKm \<and> (case distanceKm of None \<Rightarrow> False | Some d \<Rightarrow> radiusKm < d));
          unknownNetwork = (case w of None \<Rightarrow> False | Some l \<Rightarrow>
             hasNetwork l \<and> networks \<noteq> []
             \<and> \<not> (\<exists>row \<in> set networks. an_countryCode row = il_countryCode l \<and> Some (an_asn row) = il_asn l));
          expired = (w \<noteq> None \<and> lastLogin \<noteq> None \<and> (addresses = [] \<or> networks = []))
      in if \<not> far \<and> \<not> unknownNetwork \<and> \<not> expired
         then \<lparr>ra_far = far, ra_unknownNetwork = unknownNetwork, ra_expired = expired, ra_suspicious = None\<rparr>
         else \<lparr>ra_far = far, ra_unknownNetwork = unknownNetwork, ra_expired = expired,
               ra_suspicious = Some \<lparr>fa_distanceKm = distanceKm, fa_thresholdKm = radiusKm,
                 fa_countryCode = (case w of None \<Rightarrow> [] | Some l \<Rightarrow> il_countryCode l),
                 fa_asn = (case w of None \<Rightarrow> None | Some l \<Rightarrow> il_asn l),
                 fa_asnOrg = (case w of None \<Rightarrow> [] | Some l \<Rightarrow> il_asnOrg l),
                 fa_city = (case w of None \<Rightarrow> [] | Some l \<Rightarrow> il_city l),
                 fa_reasons = (if far then [Distance] else []) @ (if unknownNetwork then [Network] else [])
                   @ (if expired then [Expired] else [])\<rparr>\<rparr>)"

section \<open>Remembering a place\<close>

definition or_null :: "string \<Rightarrow> string option \<Rightarrow> string option" where
  "or_null s d = (if s = [] then d else Some s)"

definition network_key :: "account_network \<Rightarrow> string \<times> string \<times> nat" where
  "network_key r = (an_accountId r, an_countryCode r, an_asn r)"

definition address_key :: "account_address \<Rightarrow> string \<times> string" where
  "address_key r = (aa_accountId r, aa_ip r)"

text \<open>\<open>findOne(...) ?? create(...)\<close>: the row of the place, or a new one.\<close>

definition network_row :: "string \<Rightarrow> string \<Rightarrow> nat \<Rightarrow> time \<Rightarrow> account_network list \<Rightarrow> account_network" where
  "network_row accountId countryCode asn now rows =
     (case List.find (\<lambda>r. network_key r = (accountId, countryCode, asn)) rows of
        None \<Rightarrow> \<lparr>an_accountId = accountId, an_countryCode = countryCode, an_asn = asn,
                 an_asnOrg = None, an_lastCity = None, an_lastIp = None, an_loginCount = 0,
                 an_firstSeenAt = now, an_lastSeenAt = now\<rparr>
      | Some r \<Rightarrow> r)"

definition address_row :: "string \<Rightarrow> string \<Rightarrow> time \<Rightarrow> account_address list \<Rightarrow> account_address" where
  "address_row accountId ip now rows =
     (case List.find (\<lambda>r. address_key r = (accountId, ip)) rows of
        None \<Rightarrow> \<lparr>aa_accountId = accountId, aa_ip = ip, aa_countryCode = None, aa_asn = None,
                 aa_asnOrg = None, aa_city = None, aa_point = \<lparr>latitude = 0, longitude = 0\<rparr>,
                 aa_loginCount = 0, aa_firstSeenAt = now, aa_lastSeenAt = now\<rparr>
      | Some r \<Rightarrow> r)"

definition rememberNetwork :: "string \<Rightarrow> ip_location option \<Rightarrow> string option \<Rightarrow> time \<Rightarrow> lr_state \<Rightarrow> lr_state" where
  "rememberNetwork accountId w ip now st =
     (case w of None \<Rightarrow> st | Some l \<Rightarrow>
        if \<not> hasNetwork l \<or> \<not> lr_reachable st then st
        else let asn = the (il_asn l);
                 row = network_row accountId (il_countryCode l) asn now (lr_networks st);
                 row' = row\<lparr>an_asnOrg := or_null (il_asnOrg l) (an_asnOrg row),
                            an_lastCity := or_null (il_city l) (an_lastCity row),
                            an_lastIp := (case ip of None \<Rightarrow> an_lastIp row | Some i \<Rightarrow> Some i),
                            an_loginCount := an_loginCount row + 1, an_lastSeenAt := now\<rparr>
             in st\<lparr>lr_networks := save_row network_key row' (lr_networks st)\<rparr>)"

definition rememberAddress :: "string \<Rightarrow> ip_location option \<Rightarrow> time \<Rightarrow> lr_state \<Rightarrow> lr_state" where
  "rememberAddress accountId w now st =
     (case w of None \<Rightarrow> st | Some l \<Rightarrow>
        if \<not> lr_reachable st then st
        else let row = address_row accountId (il_ip l) now (lr_addresses st);
                 row' = row\<lparr>aa_countryCode := (if length (il_countryCode l) = 2 then Some (il_countryCode l) else None),
                            aa_asn := (if hasNetwork l then il_asn l else None),
                            aa_asnOrg := or_null (il_asnOrg l) None,
                            aa_city := or_null (take 64 (il_city l)) None,
                            aa_point := \<lparr>latitude = to_fixed7 (latitude (il_point l)),
                                         longitude = to_fixed7 (longitude (il_point l))\<rparr>,
                            aa_loginCount := aa_loginCount row + 1, aa_lastSeenAt := now\<rparr>
             in st\<lparr>lr_addresses := save_row address_key row' (lr_addresses st)\<rparr>)"

definition pruneOncePerDay :: "login_settings \<Rightarrow> time \<Rightarrow> lr_state \<Rightarrow> lr_state" where
  "pruneOncePerDay cfg now st =
     (if now - lr_prunedAt st < DAY_MS then st
      else let st = st\<lparr>lr_prunedAt := now\<rparr> in
        if \<not> lr_reachable st then st
        else st\<lparr>lr_addresses := delete_where (\<lambda>r. aa_lastSeenAt r < sinceAddresses cfg now) (lr_addresses st),
                lr_networks := delete_where (\<lambda>r. an_lastSeenAt r < sinceNetworks cfg now) (lr_networks st)\<rparr>)"

definition remember ::
  "login_settings \<Rightarrow> string \<Rightarrow> ip_location option \<Rightarrow> string option \<Rightarrow> time \<Rightarrow> lr_state \<Rightarrow> lr_state" where
  "remember cfg accountId w ip now st =
     pruneOncePerDay cfg now (rememberAddress accountId w now (rememberNetwork accountId w ip now st))"

record known_address =
  ka_ip :: string
  ka_city :: string
  ka_loginCount :: nat
  ka_firstSeenAt :: time
  ka_lastSeenAt :: time
  ka_expiresAt :: time

record known_network =
  kn_countryCode :: string
  kn_asn :: nat
  kn_asnOrg :: string
  kn_lastCity :: string
  kn_lastIp :: string
  kn_loginCount :: nat
  kn_firstSeenAt :: time
  kn_lastSeenAt :: time
  kn_expiresAt :: time
  kn_addresses :: "known_address list"

definition or_empty :: "string option \<Rightarrow> string" where
  "or_empty v = (case v of None \<Rightarrow> [] | Some s \<Rightarrow> s)"

definition listFor :: "login_settings \<Rightarrow> string \<Rightarrow> time \<Rightarrow> lr_state \<Rightarrow> known_network list" where
  "listFor cfg accountId now st =
     (let known = knownAddresses cfg accountId now st in
      map (\<lambda>row. \<lparr>kn_countryCode = an_countryCode row, kn_asn = an_asn row,
          kn_asnOrg = or_empty (an_asnOrg row), kn_lastCity = or_empty (an_lastCity row),
          kn_lastIp = or_empty (an_lastIp row), kn_loginCount = an_loginCount row,
          kn_firstSeenAt = an_firstSeenAt row, kn_lastSeenAt = an_lastSeenAt row, kn_expiresAt = an_lastSeenAt row + loginNetworkDays cfg * DAY_MS,
          kn_addresses = map (\<lambda>a. \<lparr>ka_ip = aa_ip a, ka_city = or_empty (aa_city a),
              ka_loginCount = aa_loginCount a, ka_firstSeenAt = aa_firstSeenAt a, ka_lastSeenAt = aa_lastSeenAt a,
              ka_expiresAt = aa_lastSeenAt a + loginAddressDays cfg * DAY_MS\<rparr>)
            (sort_key (\<lambda>a. - aa_lastSeenAt a)
              (filter (\<lambda>a. aa_countryCode a = Some (an_countryCode row) \<and> aa_asn a = Some (an_asn row)) known))\<rparr>)
        (knownNetworks cfg accountId now st))"

definition forget :: "string \<Rightarrow> string \<Rightarrow> nat \<Rightarrow> lr_state \<Rightarrow> (bool, lr_state) outcome" where
  "forget accountId countryCode asn st =
     (if \<not> lr_reachable st then (Inl (Crash ''account_networks''), st)
      else let P = (\<lambda>r. an_accountId r = accountId \<and> an_countryCode r = countryCode \<and> an_asn r = asn) in
        (Inr (\<exists>r \<in> set (lr_networks st). P r),
         st\<lparr>lr_networks := delete_where P (lr_networks st),
            lr_addresses := delete_where (\<lambda>r. aa_accountId r = accountId \<and> aa_countryCode r = Some countryCode
                                              \<and> aa_asn r = Some asn) (lr_addresses st)\<rparr>))"

section \<open>The distance is one\<close>

lemma chord_same [simp]: "chord p p = 0"
  by (simp add: chord_def toRadians_def)

lemma haversine_same [simp]: "haversineKm p p = 0"
  by (simp add: haversineKm_def)

lemma chord_sym: "chord p q = chord q p"
proof -
  have "sin (toRadians (a - b) / 2) ^ 2 = sin (toRadians (b - a) / 2) ^ 2" for a b
  proof -
    have "toRadians (a - b) / 2 = - (toRadians (b - a) / 2)" by (simp add: toRadians_def field_simps)
    then show ?thesis by (metis power2_minus sin_minus)
  qed
  then show ?thesis by (simp add: chord_def Let_def mult.commute)
qed

definition on_globe :: "geo_point \<Rightarrow> bool" where
  "on_globe p = (\<bar>latitude p\<bar> \<le> 90 \<and> \<bar>longitude p\<bar> \<le> 180)"

lemma on_globe_cos: "on_globe p \<Longrightarrow> 0 \<le> cos (toRadians (latitude p))"
proof -
  assume "on_globe p"
  then have "\<bar>latitude p\<bar> * pi \<le> 90 * pi" by (auto simp: on_globe_def intro: mult_right_mono)
  then have "\<bar>toRadians (latitude p)\<bar> \<le> pi / 2" by (simp add: toRadians_def abs_mult)
  then show ?thesis by (intro cos_ge_zero) auto
qed

lemma chord_nonneg: "on_globe p \<Longrightarrow> on_globe q \<Longrightarrow> 0 \<le> chord p q"
  by (simp add: chord_def Let_def on_globe_cos)

text \<open>The kilometres between two places on the globe are the same both ways, zero from a place
  to itself, never negative and never more than half the circumference of the sphere.\<close>
theorem haversine_distance:
  assumes "on_globe p" "on_globe q"
  shows "haversineKm p q = haversineKm q p \<and> haversineKm p p = 0
    \<and> 0 \<le> haversineKm p q \<and> haversineKm p q \<le> pi * EARTH_RADIUS_KM"
proof -
  have m: "0 \<le> min 1 (sqrt (chord p q))" "min 1 (sqrt (chord p q)) \<le> 1"
    using chord_nonneg [OF assms] by simp_all
  have "0 \<le> arcsin (min 1 (sqrt (chord p q)))"
    using arcsin_le_arcsin [of 0 "min 1 (sqrt (chord p q))"] m by simp
  moreover have "arcsin (min 1 (sqrt (chord p q))) \<le> pi / 2"
    by (rule arcsin_ubound) (use m in linarith)+
  ultimately show ?thesis by (simp add: haversineKm_def EARTH_RADIUS_KM_def chord_sym [of p q])
qed

theorem haversine_distance_witness:
  "0 \<le> haversineKm \<lparr>latitude = 48, longitude = 2\<rparr> \<lparr>latitude = -33, longitude = 151\<rparr>"
  using haversine_distance [of "\<lparr>latitude = 48, longitude = 2\<rparr>" "\<lparr>latitude = -33, longitude = 151\<rparr>"]
  by (simp add: on_globe_def)

section \<open>Known places\<close>

definition network_row_ok :: "string \<Rightarrow> ip_location \<Rightarrow> time \<Rightarrow> account_network \<Rightarrow> bool" where
  "network_row_ok a l now r = (network_key r = (a, il_countryCode l, the (il_asn l)) \<and> an_lastSeenAt r = now)"

lemma network_row_key: "network_key (network_row a c n now rows) = (a, c, n)"
  by (auto simp: network_row_def network_key_def split: option.splits dest: find_in_set)

lemma address_row_key: "address_key (address_row a ip now rows) = (a, ip)"
  by (auto simp: address_row_def address_key_def split: option.splits dest: find_in_set)

lemma rememberNetwork_row:
  assumes "hasNetwork l" "lr_reachable st"
  shows "\<exists>r \<in> set (lr_networks (rememberNetwork a (Some l) ip now st)). network_row_ok a l now r"
proof -
  let ?row = "network_row a (il_countryCode l) (the (il_asn l)) now (lr_networks st)"
  let ?r = "?row\<lparr>an_asnOrg := or_null (il_asnOrg l) (an_asnOrg ?row), an_lastCity := or_null (il_city l) (an_lastCity ?row),
     an_lastIp := (case ip of None \<Rightarrow> an_lastIp ?row | Some i \<Rightarrow> Some i),
     an_loginCount := an_loginCount ?row + 1, an_lastSeenAt := now\<rparr>"
  have "lr_networks (rememberNetwork a (Some l) ip now st) = save_row network_key ?r (lr_networks st)"
    using assms by (simp add: rememberNetwork_def Let_def)
  moreover have "network_row_ok a l now ?r"
    using network_row_key [of a "il_countryCode l" "the (il_asn l)" now "lr_networks st"]
    by (simp add: network_row_ok_def network_key_def)
  ultimately show ?thesis by (auto simp: set_save_row)
qed

lemma rememberAddress_row:
  assumes "lr_reachable st"
  obtains r where "address_key r = (a, il_ip l)" "aa_lastSeenAt r = now"
    "aa_point r = \<lparr>latitude = to_fixed7 (latitude (il_point l)), longitude = to_fixed7 (longitude (il_point l))\<rparr>"
    "lr_addresses (rememberAddress a (Some l) now st) = save_row address_key r (lr_addresses st)"
proof -
  let ?row = "address_row a (il_ip l) now (lr_addresses st)"
  let ?r = "?row\<lparr>aa_countryCode := (if length (il_countryCode l) = 2 then Some (il_countryCode l) else None),
      aa_asn := (if hasNetwork l then il_asn l else None), aa_asnOrg := or_null (il_asnOrg l) None,
      aa_city := or_null (take 64 (il_city l)) None,
      aa_point := \<lparr>latitude = to_fixed7 (latitude (il_point l)), longitude = to_fixed7 (longitude (il_point l))\<rparr>,
      aa_loginCount := aa_loginCount ?row + 1, aa_lastSeenAt := now\<rparr>"
  have "address_key ?r = (a, il_ip l)"
    using address_row_key [of a "il_ip l" now "lr_addresses st"] by (simp add: address_key_def)
  then show thesis
    by (rule that) (use assms in \<open>simp_all add: rememberAddress_def Let_def\<close>)
qed

definition seven_decimals :: "geo_point \<Rightarrow> bool" where
  "seven_decimals p = (to_fixed7 (latitude p) = latitude p \<and> to_fixed7 (longitude p) = longitude p)"

lemma remember_state:
  assumes "lr_reachable st" "hasNetwork l" "0 \<le> loginAddressDays cfg" "0 \<le> loginNetworkDays cfg"
    and "seven_decimals (il_point l)"
  shows "lr_reachable (remember cfg a (Some l) ip now st)"
    and "\<exists>r \<in> set (lr_networks (remember cfg a (Some l) ip now st)). network_row_ok a l now r"
    and "\<exists>r \<in> set (lr_addresses (remember cfg a (Some l) ip now st)). address_key r = (a, il_ip l) \<and> aa_lastSeenAt r = now"
    and "\<forall>r \<in> set (lr_addresses (remember cfg a (Some l) ip now st)). address_key r = (a, il_ip l) \<longrightarrow> aa_point r = il_point l"
proof -
  let ?st1 = "rememberNetwork a (Some l) ip now st"
  let ?st2 = "rememberAddress a (Some l) now ?st1"
  have r1: "lr_reachable ?st1" using assms by (simp add: rememberNetwork_def Let_def)
  obtain r where r: "address_key r = (a, il_ip l)" "aa_lastSeenAt r = now"
    "aa_point r = \<lparr>latitude = to_fixed7 (latitude (il_point l)), longitude = to_fixed7 (longitude (il_point l))\<rparr>"
    "lr_addresses ?st2 = save_row address_key r (lr_addresses ?st1)"
    by (rule rememberAddress_row [OF r1])
  have pt: "aa_point r = il_point l"
    using r(3) assms(5) by (cases "il_point l") (simp add: seven_decimals_def)
  have st2: "lr_reachable ?st2" "lr_networks ?st2 = lr_networks ?st1"
    using r1 by (simp_all add: rememberAddress_def Let_def)
  have since: "sinceAddresses cfg now \<le> now" "sinceNetworks cfg now \<le> now"
    using assms(3,4) by (simp_all add: sinceAddresses_def sinceNetworks_def DAY_MS_def)
  show "lr_reachable (remember cfg a (Some l) ip now st)"
    using st2 by (simp add: remember_def pruneOncePerDay_def Let_def)
  obtain n where n: "n \<in> set (lr_networks ?st1)" "network_row_ok a l now n"
    using rememberNetwork_row [OF assms(2,1)] by blast
  then show "\<exists>r \<in> set (lr_networks (remember cfg a (Some l) ip now st)). network_row_ok a l now r"
    using st2 since by (intro bexI [of _ n]) (auto simp: remember_def pruneOncePerDay_def Let_def delete_where_def network_row_ok_def)
  have "r \<in> set (lr_addresses ?st2)" by (simp add: r(4) set_save_row)
  then show "\<exists>r \<in> set (lr_addresses (remember cfg a (Some l) ip now st)). address_key r = (a, il_ip l) \<and> aa_lastSeenAt r = now"
    using r(1,2) since by (intro bexI [of _ r]) (auto simp: remember_def pruneOncePerDay_def Let_def delete_where_def)
  have "\<forall>x \<in> set (lr_addresses ?st2). address_key x = (a, il_ip l) \<longrightarrow> aa_point x = il_point l"
    using r(1) pt by (auto simp: r(4) set_save_row)
  moreover have "set (lr_addresses (remember cfg a (Some l) ip now st)) \<subseteq> set (lr_addresses ?st2)"
    by (auto simp: remember_def pruneOncePerDay_def Let_def delete_where_def)
  ultimately show "\<forall>r \<in> set (lr_addresses (remember cfg a (Some l) ip now st)). address_key r = (a, il_ip l) \<longrightarrow> aa_point r = il_point l"
    by blast
qed

text \<open>The place an account has just signed in from raises no suspicion at its next sign-in from
  there, however small the radius, as long as the address and the network are still within their
  days of memory: not far, not an unknown network, not expired.\<close>
theorem familiar_place_trusted:
  assumes "lr_reachable st" "hasNetwork l" "seven_decimals (il_point l)"
    and "now \<le> later" "later \<le> now + loginAddressDays cfg * DAY_MS" "later \<le> now + loginNetworkDays cfg * DAY_MS"
    and "0 \<le> loginAddressDays cfg" "0 \<le> loginNetworkDays cfg"
  shows "ra_suspicious (assess cfg a lastLogin (Some l) later (remember cfg a (Some l) ip now st)) = None"
proof -
  let ?st = "remember cfg a (Some l) ip now st"
  note kept = remember_state [OF assms(1,2,7,8,3), where a = a and ip = ip and now = now]
  obtain n where n: "n \<in> set (lr_networks ?st)" "network_row_ok a l now n" using kept(2) by blast
  obtain r where r: "r \<in> set (lr_addresses ?st)" "address_key r = (a, il_ip l)" "aa_lastSeenAt r = now"
    using kept(3) by blast
  have since: "sinceAddresses cfg later \<le> now" "sinceNetworks cfg later \<le> now"
    using assms(5,6) by (simp_all add: sinceAddresses_def sinceNetworks_def)
  have nn: "n \<in> set (knownNetworks cfg a later ?st)"
    using n since kept(1) by (simp add: knownNetworks_def network_row_ok_def network_key_def)
  have rr: "r \<in> set (knownAddresses cfg a later ?st)"
    using r since kept(1) by (simp add: knownAddresses_def address_key_def)
  then obtain own where own: "List.find (\<lambda>row. aa_ip row = il_ip l) (knownAddresses cfg a later ?st) = Some own"
    using r(2) by (cases "List.find (\<lambda>row. aa_ip row = il_ip l) (knownAddresses cfg a later ?st)")
      (auto simp: find_None_iff address_key_def)
  have "own \<in> set (lr_addresses ?st)" "address_key own = (a, il_ip l)"
    using find_in_set [OF own] by (auto simp: knownAddresses_def address_key_def split: if_splits)
  then have pt: "pointOf own = il_point l" using kept(4) by (simp add: pointOf_def)
  have "an_countryCode n = il_countryCode l" "Some (an_asn n) = il_asn l"
    using n(2) assms(2) by (auto simp: network_row_ok_def network_key_def hasNetwork_def split: option.splits)
  then show ?thesis
    using nn rr own pt assms by (auto simp: assess_def referenceOf_def Let_def math_round_def)
qed

definition toy_place :: ip_location where
  "toy_place = \<lparr>il_ip = ''1.2.3.4'', il_point = \<lparr>latitude = 48, longitude = 2\<rparr>, il_countryCode = ''FR'',
     il_asn = Some 12, il_asnOrg = ''ISP'', il_city = ''Paris''\<rparr>"

definition toy_lr_state :: lr_state where
  "toy_lr_state = \<lparr>lr_reachable = True, lr_networks = [], lr_addresses = [], lr_prunedAt = 0\<rparr>"

lemma toy_place_ok: "hasNetwork toy_place" "seven_decimals (il_point toy_place)"
proof -
  have "to_fixed7 (real_of_int n) = real_of_int n" for n
  proof -
    have "real_of_int n * 10 ^ 7 + 1 / 2 = real_of_int (n * 10 ^ 7) + 1 / 2" by simp
    then have "math_round (real_of_int n * 10 ^ 7) = n * 10 ^ 7"
      unfolding math_round_def by (simp only: floor_add_int [symmetric] add.commute) simp
    then show ?thesis by (simp add: to_fixed7_def)
  qed
  from this [of 48] this [of 2] show "seven_decimals (il_point toy_place)"
    by (simp add: seven_decimals_def toy_place_def)
qed (simp add: hasNetwork_def toy_place_def)

theorem familiar_place_trusted_witness:
  "ra_suspicious (assess \<lparr>loginRadiusKm = 100, loginAddressDays = 30, loginNetworkDays = 180\<rparr> ''a'' (Some 0)
     (Some toy_place) 2000 (remember \<lparr>loginRadiusKm = 100, loginAddressDays = 30, loginNetworkDays = 180\<rparr> ''a''
       (Some toy_place) (Some ''1.2.3.4'') 1000 toy_lr_state)) = None"
  by (rule familiar_place_trusted) (simp_all add: toy_place_ok toy_lr_state_def DAY_MS_def)

text \<open>A network its owner has forgotten is asked for proof again: an account that has signed in
  before is held suspicious at its next sign-in from that network.\<close>
theorem forgotten_network_suspicious:
  assumes "lr_reachable st" "hasNetwork l" "il_asn l = Some asn"
    and "forget a (il_countryCode l) asn st = (Inr forgotten, st')"
  shows "ra_suspicious (assess cfg a (Some before) (Some l) now st') \<noteq> None"
proof -
  have "\<not> (\<exists>row \<in> set (knownNetworks cfg a now st'). an_countryCode row = il_countryCode l \<and> an_asn row = asn)"
    using assms(1,4) by (auto simp: forget_def knownNetworks_def delete_where_def Let_def)
  then show ?thesis using assms(2,3) by (auto simp: assess_def Let_def)
qed

definition toy_login_settings :: login_settings where
  "toy_login_settings = \<lparr>loginRadiusKm = 0, loginAddressDays = 30, loginNetworkDays = 180\<rparr>"

theorem forgotten_network_suspicious_witness:
  "ra_suspicious (assess toy_login_settings ''a'' (Some 0) (Some toy_place) 2000
     (snd (forget ''a'' ''FR'' 12 (remember toy_login_settings ''a'' (Some toy_place) None 1000 toy_lr_state)))) \<noteq> None"
proof -
  let ?st = "remember toy_login_settings ''a'' (Some toy_place) None 1000 toy_lr_state"
  have reach: "lr_reachable ?st"
    by (rule remember_state(1)) (simp_all add: toy_place_ok toy_lr_state_def toy_login_settings_def)
  then obtain b where "forget ''a'' (il_countryCode toy_place) 12 ?st = (Inr b, snd (forget ''a'' ''FR'' 12 ?st))"
    by (simp add: forget_def Let_def toy_place_def)
  with toy_place_ok(1) show ?thesis
    by (intro forgotten_network_suspicious [OF reach, where asn = 12]) (simp_all add: toy_place_def)
qed

end
