(* ===== verification/MfaLogin.thy ===== *)
theory MfaLogin imports Mfa Challenges LoginRisk begin

text \<open>
  \<open>core/auth/mfa/mfa-login.service.ts\<close>: the proof a suspicious sign-in is asked for, by a code sent
  by mail or by the security question. The state extends that of \<open>Mfa\<close> with the challenge store,
  the accounts' addresses and the mails handed over. The mail transport (whether it is configured,
  whether it delivers), the settings and the random draws are arguments.
\<close>

record login_mail =
  lm_to :: string
  lm_code :: string
  lm_distanceKm :: "int option"
  lm_network :: "string option"
  lm_absence :: bool

record mfa_login = mf_state +
  ml_store :: mfa_store
  ml_accounts :: "(string \<times> string) list"
  ml_mails :: "login_mail list"

record login_env =
  le_crypto :: crypto
  le_order :: string
  le_exclusive :: bool
  le_mailMinIntervalMs :: int
  le_mailEnabled :: bool
  le_delivers :: "string \<Rightarrow> bool"

record mfa_required =
  mr_method :: string
  mr_challenge :: string
  mr_expiresAt :: time
  mr_hint :: "string option"
  mr_question :: "string option"
  mr_alternative :: "string option"

definition maskEmail :: "string \<Rightarrow> string" where
  "maskEmail email =
     (let parts = split_on (CHR ''@'') email
      in take 1 (nth_or [] parts 0) @ ''***@'' @ nth_or [] parts 1)"

definition sixDigits :: "nat \<Rightarrow> string" where
  "sixDigits n = padStart 6 (CHR ''0'') (show_nat n)"

definition operatorOf :: "far_away \<Rightarrow> string" where
  "operatorOf far =
     (let name = (if fa_asnOrg far \<noteq> [] then fa_asnOrg far
                  else case fa_asn far of None \<Rightarrow> [] | Some n \<Rightarrow> if n = 0 then [] else ''AS'' @ show_nat n)
      in if name \<noteq> [] \<and> fa_countryCode far \<noteq> [] then name @ '', '' @ fa_countryCode far else name)"

definition far_note :: "activity_context \<Rightarrow> string \<Rightarrow> mfa_login \<Rightarrow> mfa_login" where
  "far_note ctx accountId st = mf_note ctx (by_actor ''auth.login.far'' accountId) st"

definition offered :: "login_env \<Rightarrow> string list" where
  "offered env =
     (let order = split_on (CHR '','') (le_order env) in if le_exclusive env then take 1 order else order)"

definition otherWay :: "login_env \<Rightarrow> string \<Rightarrow> string \<Rightarrow> mfa_login \<Rightarrow> string option" where
  "otherWay env accountId current st =
     (let other = (if current = ''email'' then ''question'' else ''email'')
      in if other \<notin> set (offered env) then None
         else if other = ''question'' then map_option (\<lambda>_. ''question'') (questionOf accountId st)
         else if le_mailEnabled env then Some ''email'' else None)"

text \<open>\<open>sendLoginCode\<close>: handed over, or an exception.\<close>

definition sendLoginCode :: "login_env \<Rightarrow> login_mail \<Rightarrow> mfa_login \<Rightarrow> (unit, mfa_login) outcome" where
  "sendLoginCode env mail st =
     (if le_delivers env (lm_to mail) then (Inr (), st\<lparr>ml_mails := ml_mails st @ [mail]\<rparr>)
      else (Inl (Crash ''sendLoginCode''), st))"

section \<open>Opening a challenge\<close>

text \<open>\<open>challenge\<close> and \<open>n\<close> are the identifier and the six digits drawn.\<close>

definition askByMail ::
  "login_env \<Rightarrow> string \<Rightarrow> nat \<Rightarrow> string \<Rightarrow> string \<Rightarrow> far_away \<Rightarrow> time \<Rightarrow> mfa_login \<Rightarrow> mfa_required option \<times> mfa_login" where
  "askByMail env challenge n accountId email far now st =
     (if \<not> le_mailEnabled env then (None, st)
      else let code = sixDigits n;
               (minted, store) = mfa_mint (cr_hmac_sha256 (le_crypto env)) challenge accountId Email (Some code) now (ml_store st);
               st = st\<lparr>ml_store := store\<rparr>;
               mail = \<lparr>lm_to = email, lm_code = code,
                       lm_distanceKm = (if Distance \<in> set (fa_reasons far) then fa_distanceKm far else None),
                       lm_network = (if Network \<in> set (fa_reasons far) then Some (operatorOf far) else None),
                       lm_absence = (Expired \<in> set (fa_reasons far))\<rparr>
           in case sendLoginCode env mail st of
                (Inl e, st) \<Rightarrow> (None, st\<lparr>ml_store := mfa_settle (fst minted) (ml_store st)\<rparr>)
              | (Inr _, st) \<Rightarrow>
                  (Some \<lparr>mr_method = ''email'', mr_challenge = fst minted, mr_expiresAt = snd minted,
                         mr_hint = Some (maskEmail email), mr_question = None, mr_alternative = None\<rparr>, st))"

definition askTheQuestion ::
  "login_env \<Rightarrow> string \<Rightarrow> string \<Rightarrow> time \<Rightarrow> mfa_login \<Rightarrow> mfa_required option \<times> mfa_login" where
  "askTheQuestion env challenge accountId now st =
     (case questionOf accountId st of
        None \<Rightarrow> (None, st)
      | Some question \<Rightarrow>
          let (minted, store) = mfa_mint (cr_hmac_sha256 (le_crypto env)) challenge accountId Question None now (ml_store st)
          in (Some \<lparr>mr_method = ''question'', mr_challenge = fst minted, mr_expiresAt = snd minted,
                    mr_hint = None, mr_question = Some question, mr_alternative = None\<rparr>,
              st\<lparr>ml_store := store\<rparr>))"

fun open_loop ::
  "login_env \<Rightarrow> activity_context \<Rightarrow> string \<Rightarrow> nat \<Rightarrow> string \<Rightarrow> string \<Rightarrow> far_away \<Rightarrow> time \<Rightarrow> string list \<Rightarrow> mfa_login
   \<Rightarrow> mfa_required option \<times> mfa_login" where
  "open_loop env ctx challenge n accountId email far now [] st = (None, far_note ctx accountId st)"
| "open_loop env ctx challenge n accountId email far now (m # methods) st =
     (let (asked, st) = (if m = ''email'' then askByMail env challenge n accountId email far now st
                         else askTheQuestion env challenge accountId now st)
      in case asked of
           Some required \<Rightarrow>
             let st = far_note ctx accountId st
             in (Some (required\<lparr>mr_alternative := otherWay env accountId m st\<rparr>), st)
         | None \<Rightarrow> open_loop env ctx challenge n accountId email far now methods st)"

definition mfa_open ::
  "login_env \<Rightarrow> activity_context \<Rightarrow> string \<Rightarrow> nat \<Rightarrow> string \<Rightarrow> string \<Rightarrow> far_away \<Rightarrow> time \<Rightarrow> mfa_login
   \<Rightarrow> mfa_required option \<times> mfa_login" where
  "mfa_open env ctx challenge n accountId email far now st =
     open_loop env ctx challenge n accountId email far now (offered env) st"

section \<open>Answering, switching, sending again\<close>

definition account_email :: "string \<Rightarrow> mfa_login \<Rightarrow> string option" where
  "account_email accountId st = map_option snd (List.find (\<lambda>a. fst a = accountId) (ml_accounts st))"

definition ml_peek :: "string \<Rightarrow> time \<Rightarrow> mfa_login \<Rightarrow> mfa_view option \<times> mfa_login" where
  "ml_peek challenge now st =
     (let (view, store) = mfa_peek challenge now (ml_store st) in (view, st\<lparr>ml_store := store\<rparr>))"

definition plain_mail :: "string \<Rightarrow> string \<Rightarrow> login_mail" where
  "plain_mail email code =
     \<lparr>lm_to = email, lm_code = code, lm_distanceKm = None, lm_network = None, lm_absence = False\<rparr>"

definition mfa_switch ::
  "login_env \<Rightarrow> nat \<Rightarrow> string \<Rightarrow> string \<Rightarrow> time \<Rightarrow> mfa_login \<Rightarrow> (mfa_required, mfa_login) outcome" where
  "mfa_switch env n challenge m now st =
     (case ml_peek challenge now st of
        (None, st) \<Rightarrow> (Inl (ApiError UNAUTHORIZED ''mfa.challengeExpired''), st)
      | (Some entry, st) \<Rightarrow>
          if m \<notin> set (offered env) then (Inl (ApiError CONFLICT ''mfa.methodUnavailable''), st)
          else case account_email (mv_accountId entry) st of
            None \<Rightarrow> (Inl (ApiError UNAUTHORIZED ''mfa.challengeExpired''), st)
          | Some email \<Rightarrow>
              if m = ''question''
              then (case questionOf (mv_accountId entry) st of
                  None \<Rightarrow> (Inl (ApiError CONFLICT ''mfa.methodUnavailable''), st)
                | Some question \<Rightarrow>
                    let st = st\<lparr>ml_store := mfa_switchTo (cr_hmac_sha256 (le_crypto env)) challenge Question None now (ml_store st)\<rparr>
                    in (Inr \<lparr>mr_method = ''question'', mr_challenge = challenge, mr_expiresAt = mv_expiresAt entry,
                             mr_hint = None, mr_question = Some question,
                             mr_alternative = otherWay env (mv_accountId entry) ''question'' st\<rparr>, st))
              else if \<not> le_mailEnabled env then (Inl (ApiError CONFLICT ''mfa.methodUnavailable''), st)
              else let waitMs = (case mv_mailSentAt entry of None \<Rightarrow> 0
                                 | Some t \<Rightarrow> le_mailMinIntervalMs env - (now - t)) in
                if 0 < waitMs then (Inl (ApiError TOO_MANY_REQUESTS ''mfa.resendTooSoon''), st)
                else let code = sixDigits n in
                  and_then (sendLoginCode env (plain_mail email code) st) (\<lambda>_ st.
                    let st = st\<lparr>ml_store := mfa_switchTo (cr_hmac_sha256 (le_crypto env)) challenge Email (Some code) now (ml_store st)\<rparr>
                    in (Inr \<lparr>mr_method = ''email'', mr_challenge = challenge, mr_expiresAt = mv_expiresAt entry,
                             mr_hint = Some (maskEmail email), mr_question = None,
                             mr_alternative = otherWay env (mv_accountId entry) ''email'' st\<rparr>, st)))"

definition mfa_verify ::
  "login_env \<Rightarrow> activity_context \<Rightarrow> string \<Rightarrow> string \<Rightarrow> time \<Rightarrow> mfa_login \<Rightarrow> (string, mfa_login) outcome" where
  "mfa_verify env ctx challenge answer now st =
     (let (entry, store) = mfa_attempt challenge now (ml_store st); st = st\<lparr>ml_store := store\<rparr> in
      case entry of
        None \<Rightarrow> (Inl (ApiError UNAUTHORIZED ''mfa.challengeExpired''), st)
      | Some e \<Rightarrow>
          and_then (if mv_method e = Email
                    then (Inr (mfa_matches (cr_hmac_sha256 (le_crypto env)) challenge answer (ml_store st)), st)
                    else verifyAnswer (le_crypto env) (mv_accountId e) answer now st)
            (\<lambda>accepted st.
              if \<not> accepted
              then (Inl (ApiError BAD_REQUEST (if mv_method e = Email then ''mfa.invalidCode'' else ''mfa.invalidAnswer'')),
                    mf_note ctx (by_actor ''auth.mfa.refused'' (mv_accountId e)) st)
              else (Inr (mv_accountId e), st\<lparr>ml_store := mfa_settle challenge (ml_store st)\<rparr>)))"

definition mfa_resend ::
  "login_env \<Rightarrow> nat \<Rightarrow> string \<Rightarrow> time \<Rightarrow> mfa_login \<Rightarrow> (string, mfa_login) outcome" where
  "mfa_resend env n challenge now st =
     (case ml_peek challenge now st of
        (None, st) \<Rightarrow> (Inl (ApiError UNAUTHORIZED ''mfa.challengeExpired''), st)
      | (Some entry, st) \<Rightarrow>
          if mv_method entry \<noteq> Email then (Inl (ApiError UNAUTHORIZED ''mfa.challengeExpired''), st)
          else let waitMs = le_mailMinIntervalMs env
                 - (now - (case mv_mailSentAt entry of None \<Rightarrow> 0 | Some t \<Rightarrow> t)) in
            if 0 < waitMs then (Inl (ApiError TOO_MANY_REQUESTS ''mfa.resendTooSoon''), st)
            else case account_email (mv_accountId entry) st of
              None \<Rightarrow> (Inl (ApiError UNAUTHORIZED ''mfa.challengeExpired''), st)
            | Some email \<Rightarrow>
                let code = sixDigits n;
                    st = st\<lparr>ml_store := mfa_replaceCode (cr_hmac_sha256 (le_crypto env)) challenge code now (ml_store st)\<rparr>
                in and_then (sendLoginCode env (plain_mail email code) st) (\<lambda>_ st. (Inr (maskEmail email), st)))"

section \<open>What an accepted proof means\<close>

definition proves :: "login_env \<Rightarrow> mfa_challenge \<Rightarrow> string \<Rightarrow> mfa_login \<Rightarrow> bool" where
  "proves env e answer st =
     (case mc_method e of
        Email \<Rightarrow> mc_codeHash e = Some (mfa_hash (cr_hmac_sha256 (le_crypto env)) answer)
      | Question \<Rightarrow> (\<exists>p row. mf_pepper (le_crypto env) = Inr p \<and> mf_rowOf (mc_accountId e) st = Some row
          \<and> am_answerHash row = Some (hashAnswer (le_crypto env) answer p)))"

lemma mf_rowOf_store [simp]: "mf_rowOf a (st\<lparr>ml_store := s\<rparr>) = mf_rowOf a st"
  by (simp add: mf_rowOf_def)

lemma mfa_attempt_Some:
  assumes "mfa_attempt ch now s = (Some v, s')"
  obtains e where "s ch = Some e" "now \<le> mc_expiresAt e" "mc_attempts e < MFA_MAX_ATTEMPTS"
    "v = mfa_view_of e" "s' = s(ch \<mapsto> e\<lparr>mc_attempts := mc_attempts e + 1\<rparr>)"
  using assms by (auto simp: mfa_attempt_def mfa_view_of_def Let_def split: option.splits if_splits)

lemma verifyAnswer_True:
  assumes "verifyAnswer cr a answer now st = (Inr True, st')"
  shows "\<exists>p row. mf_pepper cr = Inr p \<and> mf_rowOf a st = Some row \<and> am_answerHash row = Some (hashAnswer cr answer p)
    \<and> (\<exists>f. st' = st\<lparr>mf_failures := f\<rparr>)"
  using assms
  by (auto simp: verifyAnswer_def Let_def matchAnswer_def truthy_def split: prod.splits sum.splits option.splits if_splits)

lemma verify_accepted:
  assumes "mfa_verify env ctx ch answer now st = (Inr a, st')"
  obtains e where "ml_store st ch = Some e" "mc_accountId e = a" "now \<le> mc_expiresAt e"
    "mc_attempts e < MFA_MAX_ATTEMPTS" "proves env e answer st" "ml_store st' ch = None"
proof -
  obtain v s where at: "mfa_attempt ch now (ml_store st) = (Some v, s)"
    using assms by (auto simp: mfa_verify_def Let_def split: prod.splits option.splits)
  obtain e where e: "ml_store st ch = Some e" "now \<le> mc_expiresAt e" "mc_attempts e < MFA_MAX_ATTEMPTS"
    "v = mfa_view_of e" "s = (ml_store st)(ch \<mapsto> e\<lparr>mc_attempts := mc_attempts e + 1\<rparr>)"
    by (rule mfa_attempt_Some [OF at])
  have v: "mv_method v = mc_method e" "mv_accountId v = mc_accountId e" by (simp_all add: e(4) mfa_view_of_def)
  show thesis
  proof (cases "mc_method e")
    case Email
    then have "mfa_matches (cr_hmac_sha256 (le_crypto env)) ch answer s" "a = mc_accountId e"
      "st' = st\<lparr>ml_store := mfa_settle ch s\<rparr>"
      using assms at v by (auto simp: mfa_verify_def Let_def split: if_splits)
    moreover from this(1) have "mc_codeHash e = Some (mfa_hash (cr_hmac_sha256 (le_crypto env)) answer)"
      by (auto simp: mfa_matches_def e(5) split: option.splits)
    ultimately show thesis using e Email by (intro that [of e]) (simp_all add: proves_def mfa_settle_def)
  next
    case Question
    let ?rest = "\<lambda>accepted st. if \<not> accepted
              then (Inl (ApiError BAD_REQUEST ''mfa.invalidAnswer''),
                    mf_note ctx (by_actor ''auth.mfa.refused'' (mc_accountId e)) st)
              else (Inr (mc_accountId e), st\<lparr>ml_store := mfa_settle ch (ml_store st)\<rparr>)"
    from Question assms have
      "and_then (verifyAnswer (le_crypto env) (mc_accountId e) answer now (st\<lparr>ml_store := s\<rparr>)) ?rest = (Inr a, st')"
      by (simp add: mfa_verify_def at v cong: if_cong)
    then obtain ok st1 where ans: "verifyAnswer (le_crypto env) (mc_accountId e) answer now (st\<lparr>ml_store := s\<rparr>) = (Inr ok, st1)"
      and rest: "?rest ok st1 = (Inr a, st')"
      unfolding and_then_Inr by blast
    from rest have ok: ok "a = mc_accountId e" "st' = st1\<lparr>ml_store := mfa_settle ch (ml_store st1)\<rparr>"
      by (simp_all split: if_splits)
    from verifyAnswer_True [OF ans [unfolded eqTrueI [OF ok(1)]]] have "proves env e answer st"
      using Question by (auto simp: proves_def)
    with ok e show thesis by (intro that [of e]) (simp_all add: mfa_settle_def)
  qed
qed

text \<open>A suspicious sign-in goes through only for the account the challenge was minted for, in
  time, within its five tries and with the proof the challenge asks for (the code mailed, or the
  account's own answer); and the challenge is then gone, so the same proof does not open a second
  session.\<close>
theorem mfa_proof_needed_once:
  assumes "mfa_verify env ctx ch answer now st = (Inr a, st')"
  shows "(\<exists>e. ml_store st ch = Some e \<and> mc_accountId e = a \<and> now \<le> mc_expiresAt e
       \<and> mc_attempts e < 5 \<and> proves env e answer st)
    \<and> fst (mfa_verify env ctx ch answer' later st') = Inl (ApiError UNAUTHORIZED ''mfa.challengeExpired'')"
proof -
  obtain e where e: "ml_store st ch = Some e" "mc_accountId e = a" "now \<le> mc_expiresAt e"
    "mc_attempts e < MFA_MAX_ATTEMPTS" "proves env e answer st" "ml_store st' ch = None"
    by (rule verify_accepted [OF assms])
  then have "fst (mfa_verify env ctx ch answer' later st') = Inl (ApiError UNAUTHORIZED ''mfa.challengeExpired'')"
    by (simp add: mfa_verify_def mfa_attempt_def)
  with e show ?thesis by (auto simp: MFA_MAX_ATTEMPTS_def)
qed

lemma verify_email_code:
  assumes "ml_store st ch = Some e" "mc_method e = Email" "now \<le> mc_expiresAt e" "mc_attempts e < MFA_MAX_ATTEMPTS"
    and "mc_codeHash e = Some (mfa_hash (cr_hmac_sha256 (le_crypto env)) code)"
    and "mfa_hash (cr_hmac_sha256 (le_crypto env)) code \<noteq> []"
  shows "fst (mfa_verify env ctx ch code now st) = Inr (mc_accountId e)"
  using assms by (simp add: mfa_verify_def mfa_attempt_def mfa_matches_def mfa_view_of_def Let_def)

section \<open>Opening and sending again\<close>

definition available :: "login_env \<Rightarrow> string \<Rightarrow> string \<Rightarrow> mfa_login \<Rightarrow> string \<Rightarrow> bool" where
  "available env accountId email st m =
     (if m = ''email'' then le_mailEnabled env \<and> le_delivers env email else questionOf accountId st \<noteq> None)"

lemma questionOf_store [simp]: "questionOf a (st\<lparr>ml_store := s\<rparr>) = questionOf a st"
  by (simp add: questionOf_def)

lemma ask_cases:
  obtains (asked) r st1 where
      "(if m = ''email'' then askByMail env ch n a email far now st else askTheQuestion env ch a now st) = (Some r, st1)"
      "available env a email st m" "mr_challenge r = ch" "mr_expiresAt r = now + MFA_TTL_MS" "mr_method r = (if m = ''email'' then ''email'' else ''question'')"
      "ml_store st1 ch = Some \<lparr>mc_accountId = a, mc_method = (if m = ''email'' then Email else Question),
         mc_codeHash = (if m = ''email'' then Some (mfa_hash (cr_hmac_sha256 (le_crypto env)) (sixDigits n)) else None),
         mc_expiresAt = now + MFA_TTL_MS, mc_attempts = 0, mc_mailSentAt = (if m = ''email'' then Some now else None)\<rparr>"
  | (not_asked) st1 where
      "(if m = ''email'' then askByMail env ch n a email far now st else askTheQuestion env ch a now st) = (None, st1)"
      "\<not> available env a email st m" "\<And>b. questionOf b st1 = questionOf b st"
proof -
  have digits: "sixDigits n \<noteq> []"
    by (auto simp: sixDigits_def padStart_def show_nat.simps [of n])
  show thesis
  proof (cases "m = ''email''")
    case True
    show thesis
    proof (cases "le_mailEnabled env \<and> le_delivers env email")
      case yes: True
      with True digits show thesis
        by (intro asked) (auto simp: askByMail_def mfa_mint_def sendLoginCode_def available_def if_code_def Let_def)
    next
      case False
      then have "fst (askByMail env ch n a email far now st) = None"
        "questionOf b (snd (askByMail env ch n a email far now st)) = questionOf b st" for b
        by (auto simp: askByMail_def mfa_mint_def sendLoginCode_def Let_def)
      then show thesis using True False
        by (intro not_asked [of "snd (askByMail env ch n a email far now st)"])
           (simp_all add: available_def prod_eq_iff)
    qed
  next
    case False
    show thesis
    proof (cases "questionOf a st")
      case None
      with False show thesis
        by (intro not_asked [of st]) (simp_all add: askTheQuestion_def available_def)
    next
      case (Some q)
      with False show thesis
        by (intro asked) (auto simp: askTheQuestion_def mfa_mint_def available_def if_code_def Let_def)
    qed
  qed
qed

lemma far_note_store [simp]: "ml_store (far_note ctx a st) = ml_store st"
  by (simp add: far_note_def mf_note_def)

lemma available_questions: "(\<And>b. questionOf b st1 = questionOf b st) \<Longrightarrow> available env a email st1 m = available env a email st m"
  by (simp add: available_def)

definition fresh_challenge :: "login_env \<Rightarrow> nat \<Rightarrow> string \<Rightarrow> string \<Rightarrow> time \<Rightarrow> mfa_challenge" where
  "fresh_challenge env n a m now =
     \<lparr>mc_accountId = a, mc_method = (if m = ''email'' then Email else Question),
      mc_codeHash = (if m = ''email'' then Some (mfa_hash (cr_hmac_sha256 (le_crypto env)) (sixDigits n)) else None),
      mc_expiresAt = now + MFA_TTL_MS, mc_attempts = 0, mc_mailSentAt = (if m = ''email'' then Some now else None)\<rparr>"

lemma open_loop_result:
  "case List.find (available env a email st) methods of
     None \<Rightarrow> fst (open_loop env ctx ch n a email far now methods st) = None
   | Some m \<Rightarrow> \<exists>r st'. open_loop env ctx ch n a email far now methods st = (Some r, st')
        \<and> mr_challenge r = ch \<and> mr_method r = (if m = ''email'' then ''email'' else ''question'')
        \<and> mr_expiresAt r = now + MFA_TTL_MS \<and> ml_store st' ch = Some (fresh_challenge env n a m now)"
proof (induction methods arbitrary: st)
  case (Cons m methods)
  show ?case
  proof (cases rule: ask_cases [where m = m and env = env and ch = ch and n = n and a = a and email = email
        and far = far and now = now and st = st])
    case (asked r st1)
    then show ?thesis by (simp add: Let_def fresh_challenge_def)
  next
    case (not_asked st1)
    have "available env a email st1 = available env a email st"
      by (rule ext) (rule available_questions [OF not_asked(3)])
    moreover have "open_loop env ctx ch n a email far now (m # methods) st
        = open_loop env ctx ch n a email far now methods st1"
      using not_asked(1) by simp
    moreover have "List.find (available env a email st) (m # methods) = List.find (available env a email st) methods"
      using not_asked(2) by simp
    ultimately show ?thesis using Cons.IH [of st1] by (simp only:)
  qed
qed simp

text \<open>A suspicious sign-in is asked for the first proof on offer that can be asked (a mail that
  goes out, a question the account has chosen) and is let through without one only when none can;
  the challenge it gets belongs to the account, lives ten minutes and has no try spent.\<close>
theorem first_available_proof_asked:
  "case List.find (available env a email st) (offered env) of
     None \<Rightarrow> fst (mfa_open env ctx ch n a email far now st) = None
   | Some m \<Rightarrow> \<exists>r st'. mfa_open env ctx ch n a email far now st = (Some r, st')
        \<and> mr_challenge r = ch \<and> mr_method r = (if m = ''email'' then ''email'' else ''question'')
        \<and> mr_expiresAt r = now + MFA_TTL_MS \<and> ml_store st' ch = Some (fresh_challenge env n a m now)"
  unfolding mfa_open_def by (rule open_loop_result)

lemma mfa_peek_Some:
  "mfa_peek ch now s = (Some v, s') \<Longrightarrow> \<exists>e. s ch = Some e \<and> v = mfa_view_of e \<and> s' = s \<and> now \<le> mc_expiresAt e"
  by (auto simp: mfa_peek_def split: option.splits if_splits)

lemma resend_state:
  assumes "mfa_resend env n ch now st = (Inr hint, st')"
  obtains e email where "ml_store st ch = Some e" "mc_method e = Email"
    "le_mailMinIntervalMs env \<le> now - (case mc_mailSentAt e of None \<Rightarrow> 0 | Some t \<Rightarrow> t)"
    "account_email (mc_accountId e) st = Some email"
    "ml_store st' ch = Some (e\<lparr>mc_codeHash := Some (mfa_hash (cr_hmac_sha256 (le_crypto env)) (sixDigits n)), mc_mailSentAt := Some now\<rparr>)"
    "ml_mails st' = ml_mails st @ [plain_mail email (sixDigits n)]"
proof -
  obtain v s where peek: "mfa_peek ch now (ml_store st) = (Some v, s)"
    using assms by (auto simp: mfa_resend_def ml_peek_def split: prod.splits option.splits)
  with mfa_peek_Some obtain e where e: "ml_store st ch = Some e" "v = mfa_view_of e" "s = ml_store st" by blast
  from assms show thesis
    by (auto simp: mfa_resend_def ml_peek_def peek e(2,3) mfa_view_of_def account_email_def mfa_replaceCode_def e(1)
        sendLoginCode_def Let_def plain_mail_def split: if_splits option.splits
        intro!: that [OF e(1)])
qed

text \<open>Sending a code again kills the one before: after a resend, a code whose keyed hash is not
  the new one's is refused, the new one opens the sign-in while a try and time are left, and
  the second mail waited for the interval every mail obeys.\<close>
theorem resend_replaces_code:
  assumes "mfa_resend env n ch now st = (Inr hint, st')" "ml_store st ch = Some e"
    and "mfa_hash (cr_hmac_sha256 (le_crypto env)) old \<noteq> mfa_hash (cr_hmac_sha256 (le_crypto env)) (sixDigits n)"
    and "mfa_hash (cr_hmac_sha256 (le_crypto env)) (sixDigits n) \<noteq> []"
    and "mc_attempts e < 5" "later \<le> mc_expiresAt e"
  shows "isl (fst (mfa_verify env ctx ch old later st'))
    \<and> fst (mfa_verify env ctx ch (sixDigits n) later st') = Inr (mc_accountId e)
    \<and> (\<forall>t. mc_mailSentAt e = Some t \<longrightarrow> t + le_mailMinIntervalMs env \<le> now)"
proof -
  obtain e' email where r: "ml_store st ch = Some e'" "mc_method e' = Email"
    "le_mailMinIntervalMs env \<le> now - (case mc_mailSentAt e' of None \<Rightarrow> 0 | Some t \<Rightarrow> t)"
    "ml_store st' ch = Some (e'\<lparr>mc_codeHash := Some (mfa_hash (cr_hmac_sha256 (le_crypto env)) (sixDigits n)), mc_mailSentAt := Some now\<rparr>)"
    by (rule resend_state [OF assms(1)])
  have e': "e' = e" using r(1) assms(2) by simp
  have "isl (fst (mfa_verify env ctx ch old later st'))"
  proof (rule ccontr)
    assume "\<not> isl (fst (mfa_verify env ctx ch old later st'))"
    then obtain a st2 where "mfa_verify env ctx ch old later st' = (Inr a, st2)"
      by (metis isl_def prod.collapse sum.exhaust_sel)
    from verify_accepted [OF this] r(2,4) assms(3) show False
      by (auto simp: proves_def)
  qed
  moreover have "fst (mfa_verify env ctx ch (sixDigits n) later st') = Inr (mc_accountId e)"
    using verify_email_code [OF r(4)] r(2) assms(4-6) e' by (simp add: MFA_MAX_ATTEMPTS_def)
  moreover have "\<forall>t. mc_mailSentAt e = Some t \<longrightarrow> t + le_mailMinIntervalMs env \<le> now"
    using r(3) e' by auto
  ultimately show ?thesis by blast
qed

section \<open>A concrete sign-in\<close>

definition toy_env :: login_env where
  "toy_env = \<lparr>le_crypto = toy_crypto, le_order = ''question,email'', le_exclusive = False,
     le_mailMinIntervalMs = 30000, le_mailEnabled = True, le_delivers = (\<lambda>_. True)\<rparr>"

definition toy_login_state :: mfa_login where
  "toy_login_state = \<lparr>mf_reachable = True, mf_rows = [], mf_failures = (\<lambda>_. None), mf_log = [],
     ml_store = [''c'' \<mapsto> fresh_challenge toy_env 7 ''a'' ''email'' 0],
     ml_accounts = [(''a'', ''a@x'')], ml_mails = []\<rparr>"

lemma toy_hash: "mfa_hash (cr_hmac_sha256 (le_crypto toy_env)) code = ''mfa-login-code'' @ code"
  by (simp add: mfa_hash_def toy_env_def toy_crypto_def)

lemma toy_verify:
  "\<exists>st'. mfa_verify toy_env None ''c'' (sixDigits 7) 5 toy_login_state = (Inr ''a'', st')"
proof -
  have "fst (mfa_verify toy_env None ''c'' (sixDigits 7) 5 toy_login_state)
      = Inr (mc_accountId (fresh_challenge toy_env 7 ''a'' ''email'' 0))"
    by (rule verify_email_code)
       (simp_all add: toy_login_state_def fresh_challenge_def toy_hash MFA_TTL_MS_def MFA_MAX_ATTEMPTS_def)
  then show ?thesis by (simp add: fresh_challenge_def prod_eq_iff)
qed

theorem mfa_proof_needed_once_witness:
  "fst (mfa_verify toy_env None ''c'' ''000007'' 9 (snd (mfa_verify toy_env None ''c'' (sixDigits 7) 5 toy_login_state)))
    = Inl (ApiError UNAUTHORIZED ''mfa.challengeExpired'')"
proof -
  obtain st' where v: "mfa_verify toy_env None ''c'' (sixDigits 7) 5 toy_login_state = (Inr ''a'', st')"
    using toy_verify by blast
  show ?thesis unfolding v snd_conv by (rule mfa_proof_needed_once [OF v, THEN conjunct2])
qed

theorem resend_replaces_code_witness:
  "isl (fst (mfa_verify toy_env None ''c'' ''000007'' 40000 (snd (mfa_resend toy_env 8 ''c'' 30000 toy_login_state))))"
proof -
  have code: "sixDigits 8 = ''000008''" by code_simp
  obtain h where r: "mfa_resend toy_env 8 ''c'' 30000 toy_login_state
      = (Inr h, snd (mfa_resend toy_env 8 ''c'' 30000 toy_login_state))"
    by (simp add: mfa_resend_def ml_peek_def mfa_peek_def toy_login_state_def fresh_challenge_def mfa_view_of_def
        toy_env_def MFA_TTL_MS_def account_email_def sendLoginCode_def plain_mail_def Let_def)
  show ?thesis
    by (rule resend_replaces_code [OF r, where e = "fresh_challenge toy_env 7 ''a'' ''email'' 0", THEN conjunct1])
       (simp_all add: toy_hash code, simp_all add: toy_login_state_def fresh_challenge_def MFA_TTL_MS_def)
qed

end
