(* ===== verification/Accounts.thy ===== *)
theory Accounts imports Prelude begin

text \<open>The row of \<open>account.entity.ts\<close>, which most services read: the login identity and its flags.\<close>

record account =
  ac_id :: string
  ac_email :: string
  ac_password :: "string option"
  ac_isRoot :: int
  ac_isProtected :: int
  ac_enabled :: int
  ac_lastLogin :: "time option"
  ac_createdAt :: time

definition find_account :: "string \<Rightarrow> account list \<Rightarrow> account option" where
  "find_account i accounts = List.find (\<lambda>a. ac_id a = i) accounts"

text \<open>A JavaScript number as a condition.\<close>

abbreviation is_set :: "int \<Rightarrow> bool" where "is_set n \<equiv> n \<noteq> 0"

end
