(* ===== verification/ApiToken.thy ===== *)
theory ApiToken imports Accounts Cipher Activity begin

text \<open>
  \<open>core/auth/api-token/\<close>: the keys of an account. \<open>api-token.request.ts\<close> reads a key off a
  request, \<open>api-token.scopes.ts\<close> says what a key may use out of what its account holds, and
  \<open>api-token.service.ts\<close> mints, narrows, checks, revokes and replaces keys on the table of
  \<open>api-token.entity.ts\<close>. The permission library's assertion is an argument: the set of what an
  account holds. A JSON column is kept as what it parses to, with the two ways of holding nothing.
\<close>

section \<open>Keys on the wire\<close>

definition KEY_PREFIX :: string where "KEY_PREFIX = ''sms_''"

definition parseApiKey :: "string \<Rightarrow> (string \<times> string) option" where
  "parseApiKey rawKey =
     (if take (length KEY_PREFIX) rawKey \<noteq> KEY_PREFIX then None
      else let body = drop (length KEY_PREFIX) rawKey in
        if CHR ''.'' \<notin> set body then None
        else let dot = length (takeWhile (\<lambda>c. c \<noteq> CHR ''.'') body);
                 clientId = take dot body; secret = drop (dot + 1) body
             in if clientId = [] \<or> secret = [] then None else Some (clientId, secret))"

text \<open>\<open>/^::ffff:(\d+\.\d+\.\d+\.\d+)$/\<close>: four groups of digits.\<close>

definition is_dotted_quad :: "string \<Rightarrow> bool" where
  "is_dotted_quad s =
     (let parts = split_on (CHR ''.'') s
      in length parts = 4 \<and> (\<forall>p \<in> set parts. p \<noteq> [] \<and> (\<forall>c \<in> set p. is_digit c)))"

definition normalizeIp :: "string \<Rightarrow> string" where
  "normalizeIp ip =
     (if take 7 ip = ''::ffff:'' \<and> is_dotted_quad (drop 7 ip) then drop 7 ip else ip)"

section \<open>Scopes\<close>

record scope_entry =
  se_resource :: string
  se_actions :: "string list"

record domain_scope_entry = scope_entry +
  se_domainId :: int

record token_scopes =
  sc_global :: "scope_entry list"
  sc_domain :: "domain_scope_entry list"

text \<open>What the \<open>scopes\<close> column holds: nothing, text that does not parse, or an object whose two
  members may fail to be arrays.\<close>

datatype stored_scopes =
    NoScopes | Unreadable | StoredScopes "scope_entry list option" "domain_scope_entry list option"

definition parseScopes :: "stored_scopes \<Rightarrow> token_scopes option" where
  "parseScopes stored = (case stored of
      NoScopes \<Rightarrow> None
    | Unreadable \<Rightarrow> None
    | StoredScopes g d \<Rightarrow>
        let global = (case g of None \<Rightarrow> [] | Some l \<Rightarrow> l); domain = (case d of None \<Rightarrow> [] | Some l \<Rightarrow> l)
        in if global = [] \<and> domain = [] then None else Some \<lparr>sc_global = global, sc_domain = domain\<rparr>)"

definition serialiseScopes :: "token_scopes option \<Rightarrow> stored_scopes" where
  "serialiseScopes scopes = (case scopes of
      None \<Rightarrow> NoScopes
    | Some s \<Rightarrow>
        let global = filter (\<lambda>e. se_resource e \<noteq> [] \<and> se_actions e \<noteq> []) (sc_global s);
            domain = filter (\<lambda>e. se_resource e \<noteq> [] \<and> se_actions e \<noteq> []) (sc_domain s)
        in if global = [] \<and> domain = [] then NoScopes else StoredScopes (Some global) (Some domain))"

definition withAccess :: "string list \<Rightarrow> string list" where
  "withAccess actions = (if ''access'' \<in> set actions then actions else ''access'' # actions)"

definition covers :: "string list option \<Rightarrow> string list \<Rightarrow> bool" where
  "covers held wanted = (case held of None \<Rightarrow> False | Some h \<Rightarrow> \<forall>action \<in> set wanted. action \<in> set h)"

definition scopeAllowsGlobal :: "token_scopes \<Rightarrow> string \<Rightarrow> string list \<Rightarrow> bool" where
  "scopeAllowsGlobal scopes resource actions =
     covers (map_option (\<lambda>e. withAccess (se_actions e)) (List.find (\<lambda>e. se_resource e = resource) (sc_global scopes)))
       (withAccess actions)"

definition scopeAllowsDomain :: "token_scopes \<Rightarrow> int \<Rightarrow> string \<Rightarrow> string list \<Rightarrow> bool" where
  "scopeAllowsDomain scopes domainId resource actions =
     covers (map_option (\<lambda>e. withAccess (se_actions e))
         (List.find (\<lambda>e. se_domainId e = domainId \<and> se_resource e = resource) (sc_domain scopes)))
       (withAccess actions)"

text \<open>\<open>assert.global\<close> and \<open>assert.domain\<close>, true where the library's assertion returns.\<close>

record permission_assert =
  pa_global :: "string \<Rightarrow> string \<Rightarrow> string list \<Rightarrow> bool"
  pa_domain :: "string \<Rightarrow> int \<Rightarrow> string \<Rightarrow> string list \<Rightarrow> bool"

text \<open>The entries refused, as \<open>Inl\<close> a global one or \<open>Inr\<close> one on a domain.\<close>

definition refuseScopesBeyondAccount ::
  "permission_assert \<Rightarrow> string \<Rightarrow> bool \<Rightarrow> token_scopes \<Rightarrow> (scope_entry + domain_scope_entry) list" where
  "refuseScopesBeyondAccount pa accountId isRoot scopes =
     (if isRoot then []
      else map Inl (filter (\<lambda>e. \<not> pa_global pa accountId (se_resource e) (withAccess (se_actions e))) (sc_global scopes))
         @ map Inr (filter (\<lambda>e. \<not> pa_domain pa accountId (se_domainId e) (se_resource e) (withAccess (se_actions e)))
                      (sc_domain scopes)))"

section \<open>The table\<close>

definition TOKEN_MAX_FAILED :: nat where "TOKEN_MAX_FAILED = 5"
definition LOCK_MINUTES :: time where "LOCK_MINUTES = 15"

record api_token =
  tk_id :: nat
  tk_accountId :: string
  tk_name :: string
  tk_clientId :: string
  tk_secretHash :: string
  tk_secretCipher :: string
  tk_allowedIps :: "string list option"
  tk_scopes :: stored_scopes
  tk_expiresAt :: "time option"
  tk_failedAttempts :: nat
  tk_lockedUntil :: "time option"
  tk_revokedAt :: "time option"
  tk_lastUsedAt :: "time option"
  tk_lastUsedIp :: "string option"
  tk_createdAt :: time

record tk_state =
  tks_rows :: "api_token list"
  tks_accounts :: "account list"
  tks_nextId :: nat
  tks_log :: "activity_row list"

definition tk_find :: "string \<Rightarrow> nat \<Rightarrow> tk_state \<Rightarrow> api_token option" where
  "tk_find accountId i st = List.find (\<lambda>t. tk_id t = i \<and> tk_accountId t = accountId) (tks_rows st)"

text \<open>\<open>save\<close>, against the two unique keys of the table (the client id; the name per account).\<close>

definition tk_save :: "api_token \<Rightarrow> tk_state \<Rightarrow> (unit, tk_state) outcome" where
  "tk_save t st =
     (if \<exists>x \<in> set (tks_rows st). tk_id x \<noteq> tk_id t \<and>
           (tk_clientId x = tk_clientId t \<or> tk_accountId x = tk_accountId t \<and> tk_name x = tk_name t)
      then (Inl (HttpException CONFLICT ''A token with this name already exists''), st)
      else (Inr (), st\<lparr>tks_rows := save_row tk_id t (tks_rows st)\<rparr>))"

definition tk_note :: "activity_context \<Rightarrow> string \<Rightarrow> string \<Rightarrow> nat \<Rightarrow> tk_state \<Rightarrow> tk_state" where
  "tk_note ctx action accountId i st =
     st\<lparr>tks_log := record_activity ctx \<lparr>ai_action = action, ai_actorId = Some (Some accountId),
          ai_subjectId = None, ai_entity = Some (''api-token'', show_nat i)\<rparr> (tks_log st)\<rparr>"

section \<open>Secrets\<close>

definition tk_pepper :: "crypto \<Rightarrow> err + string" where
  "tk_pepper cr = (case cr_pepper cr of
      None \<Rightarrow> Inl (Crash ''MANAGER_API_TOKEN_PEPPER env var is required'')
    | Some p \<Rightarrow> if p = [] then Inl (Crash ''MANAGER_API_TOKEN_PEPPER env var is required'') else Inr p)"

definition hashSecret :: "crypto \<Rightarrow> string \<Rightarrow> string \<Rightarrow> string" where
  "hashSecret cr pepper raw = cr_hmac_sha256 cr pepper raw"

text \<open>\<open>Buffer.from(text, "hex")\<close>: pairs of digits up to the first that is none.\<close>

definition hex_value :: "char \<Rightarrow> nat option" where
  "hex_value c = (let n = of_char c :: nat in
     if 48 \<le> n \<and> n \<le> 57 then Some (n - 48)
     else if 97 \<le> n \<and> n \<le> 102 then Some (n - 87)
     else if 65 \<le> n \<and> n \<le> 70 then Some (n - 55) else None)"

fun hex_bytes :: "string \<Rightarrow> nat list" where
  "hex_bytes (a # b # cs) =
     (case (hex_value a, hex_value b) of (Some x, Some y) \<Rightarrow> (16 * x + y) # hex_bytes cs | _ \<Rightarrow> [])"
| "hex_bytes s = []"

definition verifySecret :: "crypto \<Rightarrow> string \<Rightarrow> string \<Rightarrow> string \<Rightarrow> bool" where
  "verifySecret cr pepper raw storedHex =
     (let computed = hex_bytes (hashSecret cr pepper raw); stored = hex_bytes storedHex
      in if length computed \<noteq> length stored then False else computed = stored)"

section \<open>The operations\<close>

record safe_token =
  st_id :: nat
  st_name :: string
  st_clientId :: string
  st_allowedIps :: "string list option"
  st_scopes :: "token_scopes option"
  st_expiresAt :: "time option"
  st_revokedAt :: "time option"
  st_lastUsedAt :: "time option"
  st_lastUsedIp :: "string option"
  st_createdAt :: time
  st_secretAvailable :: bool

definition toSafe :: "api_token \<Rightarrow> safe_token" where
  "toSafe t = \<lparr>st_id = tk_id t, st_name = tk_name t, st_clientId = tk_clientId t,
     st_allowedIps = tk_allowedIps t, st_scopes = parseScopes (tk_scopes t), st_expiresAt = tk_expiresAt t,
     st_revokedAt = tk_revokedAt t, st_lastUsedAt = tk_lastUsedAt t, st_lastUsedIp = tk_lastUsedIp t,
     st_createdAt = tk_createdAt t, st_secretAvailable = (tk_secretCipher t \<noteq> [])\<rparr>"

definition assertScopesWithinAccount ::
  "permission_assert \<Rightarrow> string \<Rightarrow> bool \<Rightarrow> token_scopes option \<Rightarrow> err + unit" where
  "assertScopesWithinAccount pa accountId isRoot scopes =
     (case scopes of
        None \<Rightarrow> Inr ()
      | Some s \<Rightarrow> if refuseScopesBeyondAccount pa accountId isRoot s \<noteq> []
                  then Inl (HttpException FORBIDDEN ''You do not hold, so a key of yours cannot either'') else Inr ())"

record create_token =
  ct_name :: string
  ct_allowedIps :: "string list option"
  ct_scopes :: "token_scopes option"
  ct_expiresAt :: "time option"

text \<open>\<open>input.allowedIps?.length ? JSON.stringify(input.allowedIps) : null\<close>.\<close>

definition ips_column :: "string list option \<Rightarrow> string list option" where
  "ips_column ips = (case ips of None \<Rightarrow> None | Some l \<Rightarrow> if l = [] then None else Some l)"

definition api_key :: "string \<Rightarrow> string \<Rightarrow> string" where
  "api_key clientId secret = KEY_PREFIX @ clientId @ ''.'' @ secret"

record created_token =
  nt_id :: nat
  nt_name :: string
  nt_clientId :: string
  nt_key :: string
  nt_allowedIps :: "string list option"
  nt_scopes :: "token_scopes option"
  nt_expiresAt :: "time option"
  nt_createdAt :: time

text \<open>\<open>client\<close> and \<open>secret\<close> are the random bytes of the two halves, \<open>iv\<close> those of the sealing.\<close>

definition tk_create ::
  "crypto \<Rightarrow> permission_assert \<Rightarrow> activity_context \<Rightarrow> byte list \<Rightarrow> byte list \<Rightarrow> byte list \<Rightarrow> string \<Rightarrow> bool
   \<Rightarrow> create_token \<Rightarrow> time \<Rightarrow> tk_state \<Rightarrow> (created_token, tk_state) outcome" where
  "tk_create cr pa ctx client secret iv accountId isRoot input now st =
     (case assertScopesWithinAccount pa accountId isRoot (ct_scopes input) of
        Inl e \<Rightarrow> (Inl e, st)
      | Inr _ \<Rightarrow>
          let clientId = b64_encode client; rawSecret = b64_encode secret in
          case tk_pepper cr of
            Inl e \<Rightarrow> (Inl e, st)
          | Inr p \<Rightarrow>
              let token = \<lparr>tk_id = tks_nextId st, tk_accountId = accountId, tk_name = ct_name input,
                    tk_clientId = clientId, tk_secretHash = hashSecret cr p rawSecret,
                    tk_secretCipher = encryptSecret cr iv rawSecret p,
                    tk_allowedIps = ips_column (ct_allowedIps input),
                    tk_scopes = serialiseScopes (ct_scopes input), tk_expiresAt = ct_expiresAt input,
                    tk_failedAttempts = 0, tk_lockedUntil = None, tk_revokedAt = None,
                    tk_lastUsedAt = None, tk_lastUsedIp = None, tk_createdAt = now\<rparr>
              in and_then (tk_save token st) (\<lambda>_ st.
                   (Inr \<lparr>nt_id = tk_id token, nt_name = tk_name token, nt_clientId = clientId,
                         nt_key = api_key clientId rawSecret, nt_allowedIps = ct_allowedIps input,
                         nt_scopes = parseScopes (tk_scopes token), nt_expiresAt = tk_expiresAt token,
                         nt_createdAt = now\<rparr>,
                    tk_note ctx ''api-tokens.created'' accountId (tk_id token) (st\<lparr>tks_nextId := tks_nextId st + 1\<rparr>))))"

definition tk_list :: "string \<Rightarrow> tk_state \<Rightarrow> safe_token list" where
  "tk_list accountId st =
     map toSafe (sort_key (\<lambda>t. - tk_createdAt t) (filter (\<lambda>t. tk_accountId t = accountId) (tks_rows st)))"

text \<open>An update names the fields it changes: \<open>None\<close> is a field left out.\<close>

record update_token =
  ut_name :: "string option"
  ut_allowedIps :: "string list option option"
  ut_scopes :: "token_scopes option option"
  ut_expiresAt :: "time option option"

definition apply_update :: "update_token \<Rightarrow> api_token \<Rightarrow> api_token" where
  "apply_update input t =
     (let t = (case ut_name input of None \<Rightarrow> t | Some n \<Rightarrow> t\<lparr>tk_name := n\<rparr>);
          t = (case ut_allowedIps input of None \<Rightarrow> t | Some ips \<Rightarrow> t\<lparr>tk_allowedIps := ips_column ips\<rparr>);
          t = (case ut_scopes input of None \<Rightarrow> t | Some sc \<Rightarrow> t\<lparr>tk_scopes := serialiseScopes sc\<rparr>)
      in (case ut_expiresAt input of None \<Rightarrow> t | Some e \<Rightarrow> t\<lparr>tk_expiresAt := e\<rparr>))"

definition tk_update ::
  "permission_assert \<Rightarrow> string \<Rightarrow> bool \<Rightarrow> nat \<Rightarrow> update_token \<Rightarrow> tk_state \<Rightarrow> (safe_token, tk_state) outcome" where
  "tk_update pa accountId isRoot i input st =
     (case tk_find accountId i st of
        None \<Rightarrow> (Inl (HttpException NOT_FOUND ''Token not found''), st)
      | Some t \<Rightarrow>
          (case assertScopesWithinAccount pa accountId isRoot
                  (case ut_scopes input of None \<Rightarrow> None | Some sc \<Rightarrow> sc) of
             Inl e \<Rightarrow> (Inl e, st)
           | Inr _ \<Rightarrow>
               let t = apply_update input t in and_then (tk_save t st) (\<lambda>_ st. (Inr (toSafe t), st))))"

definition tk_reveal ::
  "crypto \<Rightarrow> activity_context \<Rightarrow> string \<Rightarrow> nat \<Rightarrow> tk_state \<Rightarrow> (string option, tk_state) outcome" where
  "tk_reveal cr ctx accountId i st =
     (case tk_find accountId i st of
        None \<Rightarrow> (Inl (HttpException NOT_FOUND ''Token not found''), st)
      | Some t \<Rightarrow>
          if tk_secretCipher t = [] then (Inr None, st)
          else case tk_pepper cr of
            Inl e \<Rightarrow> (Inl e, st)
          | Inr p \<Rightarrow>
              (Inr (map_option (api_key (tk_clientId t)) (decryptSecret cr (tk_secretCipher t) p)),
               tk_note ctx ''api-tokens.revealed'' accountId (tk_id t) st))"

definition tk_revoke ::
  "activity_context \<Rightarrow> string \<Rightarrow> nat \<Rightarrow> time \<Rightarrow> tk_state \<Rightarrow> (safe_token, tk_state) outcome" where
  "tk_revoke ctx accountId i now st =
     (case tk_find accountId i st of
        None \<Rightarrow> (Inl (HttpException NOT_FOUND ''Token not found''), st)
      | Some t \<Rightarrow>
          if tk_revokedAt t \<noteq> None then (Inl (HttpException BAD_REQUEST ''Token is already revoked''), st)
          else let t = t\<lparr>tk_revokedAt := Some now\<rparr> in
            and_then (tk_save t st) (\<lambda>_ st. (Inr (toSafe t), tk_note ctx ''api-tokens.revoked'' accountId (tk_id t) st)))"

definition tk_delete :: "activity_context \<Rightarrow> string \<Rightarrow> nat \<Rightarrow> tk_state \<Rightarrow> (unit, tk_state) outcome" where
  "tk_delete ctx accountId i st =
     (case tk_find accountId i st of
        None \<Rightarrow> (Inl (HttpException NOT_FOUND ''Token not found''), st)
      | Some t \<Rightarrow>
          if tk_revokedAt t = None then (Inl (HttpException BAD_REQUEST ''Token must be revoked before deletion''), st)
          else (Inr (), tk_note ctx ''api-tokens.deleted'' accountId i
                          (st\<lparr>tks_rows := delete_where (\<lambda>x. tk_id x = i) (tks_rows st)\<rparr>)))"

definition tk_regenerate ::
  "crypto \<Rightarrow> activity_context \<Rightarrow> byte list \<Rightarrow> byte list \<Rightarrow> string \<Rightarrow> nat \<Rightarrow> tk_state \<Rightarrow> (created_token, tk_state) outcome" where
  "tk_regenerate cr ctx secret iv accountId i st =
     (case tk_find accountId i st of
        None \<Rightarrow> (Inl (HttpException NOT_FOUND ''Token not found''), st)
      | Some t \<Rightarrow>
          if tk_revokedAt t \<noteq> None then (Inl (HttpException BAD_REQUEST ''Cannot regenerate a revoked token''), st)
          else case tk_pepper cr of
            Inl e \<Rightarrow> (Inl e, st)
          | Inr p \<Rightarrow>
              let rawSecret = b64_encode secret;
                  t = t\<lparr>tk_secretHash := hashSecret cr p rawSecret, tk_secretCipher := encryptSecret cr iv rawSecret p,
                        tk_failedAttempts := 0, tk_lockedUntil := None\<rparr>
              in and_then (tk_save t st) (\<lambda>_ st.
                   (Inr \<lparr>nt_id = tk_id t, nt_name = tk_name t, nt_clientId = tk_clientId t,
                         nt_key = api_key (tk_clientId t) rawSecret, nt_allowedIps = tk_allowedIps t,
                         nt_scopes = None, nt_expiresAt = tk_expiresAt t, nt_createdAt = tk_createdAt t\<rparr>,
                    tk_note ctx ''api-tokens.regenerated'' accountId (tk_id t) st)))"

text \<open>What a request authenticates as.\<close>

record request_user =
  ru_id :: string
  ru_email :: string
  ru_isRoot :: bool

definition tk_validate ::
  "crypto \<Rightarrow> string \<Rightarrow> string \<Rightarrow> time \<Rightarrow> tk_state
   \<Rightarrow> ((request_user \<times> token_scopes option) option, tk_state) outcome" where
  "tk_validate cr rawKey requestIp now st =
     (case parseApiKey rawKey of
        None \<Rightarrow> (Inr None, st)
      | Some (clientId, rawSecret) \<Rightarrow>
          (case List.find (\<lambda>t. tk_clientId t = clientId) (tks_rows st) of
             None \<Rightarrow> (Inr None, st)
           | Some t \<Rightarrow>
               if (case tk_lockedUntil t of None \<Rightarrow> False | Some u \<Rightarrow> now < u) then (Inr None, st)
               else if (case tk_expiresAt t of None \<Rightarrow> False | Some e \<Rightarrow> e < now) then (Inr None, st)
               else if tk_revokedAt t \<noteq> None then (Inr None, st)
               else case tk_pepper cr of
                 Inl e \<Rightarrow> (Inl e, st)
               | Inr p \<Rightarrow>
                   if \<not> verifySecret cr p rawSecret (tk_secretHash t)
                   then let t = t\<lparr>tk_failedAttempts := tk_failedAttempts t + 1\<rparr>;
                            t = (if TOKEN_MAX_FAILED \<le> tk_failedAttempts t
                                 then t\<lparr>tk_lockedUntil := Some (now + LOCK_MINUTES * 60 * 1000), tk_failedAttempts := 0\<rparr>
                                 else t)
                        in and_then (tk_save t st) (\<lambda>_ st. (Inr None, st))
                   else let ip = normalizeIp requestIp in
                     if (case tk_allowedIps t of None \<Rightarrow> False | Some allowed \<Rightarrow> allowed \<noteq> [] \<and> ip \<notin> set allowed)
                     then (Inr None, st)
                     else case find_account (tk_accountId t) (tks_accounts st) of
                       None \<Rightarrow> (Inl (Crash ''account''), st)
                     | Some a \<Rightarrow>
                         if \<not> is_set (ac_enabled a) then (Inr None, st)
                         else let t = t\<lparr>tk_failedAttempts := 0, tk_lockedUntil := None,
                                        tk_lastUsedAt := Some now, tk_lastUsedIp := Some ip\<rparr>
                           in and_then (tk_save t st) (\<lambda>_ st.
                                (Inr (Some (\<lparr>ru_id = ac_id a, ru_email = ac_email a, ru_isRoot = (ac_isRoot a = 1)\<rparr>,
                                            parseScopes (tk_scopes t))), st))))"

section \<open>Keys parse back\<close>

lemma dot_not_in_b64: "CHR ''.'' \<notin> set (b64_encode bs)"
proof -
  have "CHR ''.'' \<notin> set B64_ALPHABET" by (simp add: B64_ALPHABET_def)
  then show ?thesis using b64_encode_alphabet [of bs] by blast
qed

lemma parse_api_key:
  assumes "CHR ''.'' \<notin> set clientId" "clientId \<noteq> []" "secret \<noteq> []"
  shows "parseApiKey (api_key clientId secret) = Some (clientId, secret)"
proof -
  have "takeWhile (\<lambda>c. c \<noteq> CHR ''.'') (clientId @ ''.'' @ secret) = clientId"
    using assms(1) by (subst takeWhile_append2) auto
  then show ?thesis
    using assms by (simp add: parseApiKey_def api_key_def KEY_PREFIX_def Let_def)
qed

text \<open>A key handed out is read back as its two halves, whatever random bytes they were drawn
  from: neither the prefix nor the dot can be mistaken for part of them.\<close>
theorem key_parses_back:
  assumes "client \<noteq> []" "secret \<noteq> []"
  shows "parseApiKey (api_key (b64_encode client) (b64_encode secret)) = Some (b64_encode client, b64_encode secret)"
  using assms by (intro parse_api_key) (simp_all add: dot_not_in_b64)

theorem key_parses_back_witness:
  "parseApiKey (api_key (b64_encode [1, 2]) (b64_encode [3])) = Some (b64_encode [1, 2], b64_encode [3])"
  by (rule key_parses_back) simp_all

section \<open>The table keeps its keys unique\<close>

definition tk_ok :: "tk_state \<Rightarrow> bool" where
  "tk_ok st = (distinct (map tk_id (tks_rows st)) \<and> distinct (map tk_clientId (tks_rows st))
     \<and> distinct (map (\<lambda>t. (tk_accountId t, tk_name t)) (tks_rows st))
     \<and> (\<forall>t \<in> set (tks_rows st). tk_id t < tks_nextId st))"

lemma tk_save_ok:
  assumes "tk_ok st" "tk_save t st = (Inr u, st')" "tk_id t < tks_nextId st"
  shows "tk_ok st'"
proof -
  from assms(2) have st': "st' = st\<lparr>tks_rows := save_row tk_id t (tks_rows st)\<rparr>"
    and free: "\<forall>x \<in> set (tks_rows st). tk_id x \<noteq> tk_id t \<longrightarrow> tk_clientId x \<noteq> tk_clientId t
      \<and> (tk_accountId x, tk_name x) \<noteq> (tk_accountId t, tk_name t)"
    by (auto simp: tk_save_def split: if_splits)
  have "distinct (map tk_clientId (save_row tk_id t (tks_rows st)))"
    using assms(1) free by (intro distinct_save_other) (auto simp: tk_ok_def)
  moreover have "distinct (map (\<lambda>t. (tk_accountId t, tk_name t)) (save_row tk_id t (tks_rows st)))"
    using assms(1) free by (intro distinct_save_other) (auto simp: tk_ok_def)
  ultimately show ?thesis
    using assms(1,3) by (auto simp: st' tk_ok_def distinct_save_row set_save_row)
qed

lemma tk_save_state: "tk_save t st = (r, st') \<Longrightarrow> isl r \<Longrightarrow> st' = st"
  by (auto simp: tk_save_def split: if_splits)

lemma tk_note_ok [simp]: "tk_ok (tk_note ctx a i n st) = tk_ok st"
  by (simp add: tk_ok_def tk_note_def)

lemma tk_find_in: "tk_find a i st = Some t \<Longrightarrow> t \<in> set (tks_rows st) \<and> tk_id t = i \<and> tk_accountId t = a"
  by (auto simp: tk_find_def dest: find_in_set)

lemma tk_ok_saved:
  assumes "tk_ok st" "t \<in> set (tks_rows st)" "tk_id t' = tk_id t"
  shows "tk_ok (snd (and_then (tk_save t' st) (\<lambda>_ st. (r st, st))))"
    and "tk_ok (snd (and_then (tk_save t' st) (\<lambda>_ st. (r st, tk_note ctx a n i st))))"
proof -
  have "tk_id t' < tks_nextId st" using assms by (auto simp: tk_ok_def)
  then have "tk_ok (snd (tk_save t' st))"
    using tk_save_ok [OF assms(1), of t'] assms(1) by (auto simp: tk_save_def)
  then show "tk_ok (snd (and_then (tk_save t' st) (\<lambda>_ st. (r st, st))))"
    and "tk_ok (snd (and_then (tk_save t' st) (\<lambda>_ st. (r st, tk_note ctx a n i st))))"
    by (auto simp: and_then_def split: prod.splits sum.splits)
qed

lemma apply_update_id [simp]: "tk_id (apply_update input t) = tk_id t"
  by (auto simp: apply_update_def Let_def split: option.splits)

datatype tk_op =
    TkCreate "byte list" "byte list" "byte list" string bool create_token time
  | TkUpdate string bool nat update_token
  | TkReveal string nat | TkRevoke string nat time | TkDelete string nat
  | TkRegenerate "byte list" "byte list" string nat
  | TkValidate string string time

fun tk_exec :: "crypto \<Rightarrow> permission_assert \<Rightarrow> activity_context \<Rightarrow> tk_op \<Rightarrow> tk_state \<Rightarrow> tk_state" where
  "tk_exec cr pa ctx (TkCreate c s iv a root input now) st = snd (tk_create cr pa ctx c s iv a root input now st)"
| "tk_exec cr pa ctx (TkUpdate a root i input) st = snd (tk_update pa a root i input st)"
| "tk_exec cr pa ctx (TkReveal a i) st = snd (tk_reveal cr ctx a i st)"
| "tk_exec cr pa ctx (TkRevoke a i now) st = snd (tk_revoke ctx a i now st)"
| "tk_exec cr pa ctx (TkDelete a i) st = snd (tk_delete ctx a i st)"
| "tk_exec cr pa ctx (TkRegenerate s iv a i) st = snd (tk_regenerate cr ctx s iv a i st)"
| "tk_exec cr pa ctx (TkValidate key ip now) st = snd (tk_validate cr key ip now st)"

lemma tk_create_ok: "tk_ok st \<Longrightarrow> tk_ok (snd (tk_create cr pa ctx c s iv a root input now st))"
proof -
  assume ok: "tk_ok st"
  have "tk_ok (snd (and_then (tk_save t st) (\<lambda>_ st. (r st, tk_note ctx x y z (st\<lparr>tks_nextId := tks_nextId st + 1\<rparr>)))))"
    if "tk_id t = tks_nextId st" for t and r :: "tk_state \<Rightarrow> err + created_token" and x y z
  proof (cases "tk_save t st")
    case (Pair u st')
    show ?thesis
    proof (cases u)
      case (Inl e)
      with Pair tk_save_state [OF Pair] ok show ?thesis by simp
    next
      case (Inr v)
      let ?st = "st\<lparr>tks_nextId := tks_nextId st + 1\<rparr>"
      have "tk_ok ?st" using ok by (auto simp: tk_ok_def less_Suc_eq)
      moreover have "tk_save t ?st = (Inr v, st'\<lparr>tks_nextId := tks_nextId st + 1\<rparr>)"
        using Pair Inr by (auto simp: tk_save_def split: if_splits)
      moreover have "tks_nextId st' = tks_nextId st" using Pair Inr by (auto simp: tk_save_def split: if_splits)
      ultimately show ?thesis using tk_save_ok [of ?st t v] Pair Inr that by simp
    qed
  qed
  with ok show ?thesis by (simp add: tk_create_def Let_def split: sum.splits)
qed

lemma tk_exec_ok: "tk_ok st \<Longrightarrow> tk_ok (tk_exec cr pa ctx op st)"
proof (cases op)
  case (TkUpdate a root i input)
  assume "tk_ok st"
  then show ?thesis
    by (auto simp: TkUpdate tk_update_def Let_def intro!: tk_ok_saved dest: tk_find_in split: option.splits sum.splits)
next
  case (TkRevoke a i now)
  assume "tk_ok st"
  then show ?thesis
    by (auto simp: TkRevoke tk_revoke_def Let_def intro!: tk_ok_saved dest: tk_find_in split: option.splits)
next
  case (TkRegenerate s iv a i)
  assume "tk_ok st"
  then show ?thesis
    by (auto simp: TkRegenerate tk_regenerate_def Let_def intro!: tk_ok_saved dest: tk_find_in split: option.splits sum.splits)
next
  case (TkValidate key ip now)
  assume "tk_ok st"
  then show ?thesis
    by (auto simp: TkValidate tk_validate_def Let_def intro!: tk_ok_saved dest: find_in_set split: option.splits sum.splits)
next
  case (TkDelete a i)
  assume "tk_ok st"
  then show ?thesis
    by (auto simp: TkDelete tk_delete_def tk_ok_def delete_where_def tk_note_def distinct_map_filter split: option.splits)
qed (auto simp: tk_create_ok tk_reveal_def split: option.splits sum.splits)

text \<open>Whatever keys are minted, narrowed, revealed, revoked, replaced, deleted or presented, no
  two rows of the table share an id or a client id, no account has two keys of one name, and the
  next id is free.\<close>
theorem token_table_unique:
  assumes "tk_ok st"
  shows "tk_ok (fold (tk_exec cr pa ctx) ops st)"
  using assms by (induction ops arbitrary: st) (auto simp: tk_exec_ok)

definition toy_tk_state :: tk_state where
  "toy_tk_state = \<lparr>tks_rows = [],
     tks_accounts = [\<lparr>ac_id = ''a'', ac_email = ''a@x'', ac_password = None, ac_isRoot = 0, ac_isProtected = 0,
        ac_enabled = 1, ac_lastLogin = None, ac_createdAt = 0\<rparr>], tks_nextId = 1, tks_log = []\<rparr>"

lemma toy_tk_ok: "tk_ok toy_tk_state" by (simp add: tk_ok_def toy_tk_state_def)

definition toy_input :: create_token where
  "toy_input = \<lparr>ct_name = ''n'', ct_allowedIps = None, ct_scopes = None, ct_expiresAt = None\<rparr>"

definition toy_pa :: permission_assert where
  "toy_pa = \<lparr>pa_global = (\<lambda>a r acts. r = ''domains''), pa_domain = (\<lambda>a d r acts. True)\<rparr>"

theorem token_table_unique_witness:
  "tk_ok (fold (tk_exec toy_crypto toy_pa None)
     [TkCreate [1] [2] [3] ''a'' False toy_input 0, TkCreate [4] [2] [3] ''a'' False toy_input 0] toy_tk_state)"
  by (rule token_table_unique [OF toy_tk_ok])

section \<open>A key works, and only as it was meant to\<close>

definition tk_row :: "string \<Rightarrow> tk_state \<Rightarrow> api_token option" where
  "tk_row clientId st = List.find (\<lambda>t. tk_clientId t = clientId) (tks_rows st)"

lemma tk_find_by:
  assumes "tk_ok st" "t \<in> set (tks_rows st)"
  shows "tk_find (tk_accountId t) (tk_id t) st = Some t"
proof -
  have "\<forall>x \<in> set (tks_rows st). tk_id x = tk_id t \<longrightarrow> x = t"
    using assms by (simp add: tk_ok_def distinct_map inj_on_def)
  then show ?thesis unfolding tk_find_def using assms(2) by (intro find_unique) auto
qed

lemma tk_save_found:
  assumes "tk_ok st" "t \<in> set (tks_rows st)" "tk_id t' = tk_id t" "tk_clientId t' = tk_clientId t"
    "tk_accountId t' = tk_accountId t" "tk_name t' = tk_name t"
  obtains st' where "tk_save t' st = (Inr (), st')" "tk_ok st'" "tk_row (tk_clientId t) st' = Some t'"
    "t' \<in> set (tks_rows st')" "tks_accounts st' = tks_accounts st"
proof -
  have free: "\<not> (\<exists>x \<in> set (tks_rows st). tk_id x \<noteq> tk_id t' \<and>
      (tk_clientId x = tk_clientId t' \<or> tk_accountId x = tk_accountId t' \<and> tk_name x = tk_name t'))"
    using assms by (auto simp: tk_ok_def distinct_map inj_on_def)
  let ?st = "st\<lparr>tks_rows := save_row tk_id t' (tks_rows st)\<rparr>"
  have save: "tk_save t' st = (Inr (), ?st)" using free by (auto simp: tk_save_def)
  have "tk_id t' < tks_nextId st" using assms by (auto simp: tk_ok_def)
  then have ok: "tk_ok ?st" using tk_save_ok [OF assms(1) save] by blast
  have in_rows: "t' \<in> set (tks_rows ?st)" by (simp add: set_save_row)
  have "tk_row (tk_clientId t) ?st = Some t'"
    using find_by_key [of tk_clientId "tks_rows ?st" t'] ok in_rows assms(4) by (simp add: tk_row_def tk_ok_def)
  with save ok in_rows show thesis by (intro that [of ?st]) simp_all
qed

lemma tk_row_in: "tk_row c st = Some t \<Longrightarrow> t \<in> set (tks_rows st) \<and> tk_clientId t = c"
  by (auto simp: tk_row_def dest: find_in_set)

definition usable :: "api_token \<Rightarrow> string \<Rightarrow> time \<Rightarrow> bool" where
  "usable t ip now =
     ((\<forall>u. tk_lockedUntil t = Some u \<longrightarrow> u \<le> now) \<and> (\<forall>e. tk_expiresAt t = Some e \<longrightarrow> now \<le> e)
      \<and> tk_revokedAt t = None
      \<and> (\<forall>ips. tk_allowedIps t = Some ips \<longrightarrow> ips = [] \<or> normalizeIp ip \<in> set ips))"

lemma tk_validate_accepts:
  assumes "tk_ok st"
  shows "(\<exists>st'. tk_validate cr key ip now st = (Inr (Some (user, scopes)), st')) \<longleftrightarrow>
    (\<exists>c secret t p a. parseApiKey key = Some (c, secret) \<and> tk_row c st = Some t \<and> usable t ip now
       \<and> tk_pepper cr = Inr p \<and> verifySecret cr p secret (tk_secretHash t)
       \<and> find_account (tk_accountId t) (tks_accounts st) = Some a \<and> is_set (ac_enabled a)
       \<and> user = \<lparr>ru_id = ac_id a, ru_email = ac_email a, ru_isRoot = (ac_isRoot a = 1)\<rparr>
       \<and> scopes = parseScopes (tk_scopes t))" (is "?L = ?R")
proof
  assume ?L
  then show ?R
    by (auto simp: tk_validate_def tk_row_def usable_def Let_def and_then_Inr not_le
        split: option.splits sum.splits if_splits)
next
  assume ?R
  then obtain c secret t p a where r: "parseApiKey key = Some (c, secret)" "tk_row c st = Some t" "usable t ip now"
    "tk_pepper cr = Inr p" "verifySecret cr p secret (tk_secretHash t)"
    "find_account (tk_accountId t) (tks_accounts st) = Some a" "is_set (ac_enabled a)"
    "user = \<lparr>ru_id = ac_id a, ru_email = ac_email a, ru_isRoot = (ac_isRoot a = 1)\<rparr>"
    "scopes = parseScopes (tk_scopes t)" by blast
  have t: "t \<in> set (tks_rows st)" using tk_row_in [OF r(2)] by simp
  let ?t = "t\<lparr>tk_failedAttempts := 0, tk_lockedUntil := None, tk_lastUsedAt := Some now, tk_lastUsedIp := Some (normalizeIp ip)\<rparr>"
  obtain st' where save: "tk_save ?t st = (Inr (), st')"
    by (rule tk_save_found [OF assms t, of ?t]) simp_all
  have "\<not> (case tk_lockedUntil t of None \<Rightarrow> False | Some u \<Rightarrow> now < u)"
    "\<not> (case tk_expiresAt t of None \<Rightarrow> False | Some e \<Rightarrow> e < now)" "tk_revokedAt t = None"
    "\<not> (case tk_allowedIps t of None \<Rightarrow> False | Some allowed \<Rightarrow> allowed \<noteq> [] \<and> normalizeIp ip \<notin> set allowed)"
    using r(3) by (auto simp: usable_def split: option.splits)
  then have "tk_validate cr key ip now st = (Inr (Some (user, scopes)), st')"
    using r save by (simp add: tk_validate_def tk_row_def Let_def)
  then show ?L by blast
qed

text \<open>C17: a request authenticates by key exactly when the key reads as two halves, the first names a
  row that is neither locked, expired nor revoked and that allows the caller's address, the
  second has the row's hash, and the account is enabled; it then acts as that account, root only
  if the account is, within the scopes of that row.\<close>
theorem key_accepted_exactly:
  assumes "tk_ok st"
  shows "(\<exists>st'. tk_validate cr key ip now st = (Inr (Some (user, scopes)), st')) \<longleftrightarrow>
    (\<exists>c secret t p a. parseApiKey key = Some (c, secret) \<and> tk_row c st = Some t \<and> usable t ip now
       \<and> tk_pepper cr = Inr p \<and> verifySecret cr p secret (tk_secretHash t)
       \<and> find_account (tk_accountId t) (tks_accounts st) = Some a \<and> is_set (ac_enabled a)
       \<and> user = \<lparr>ru_id = ac_id a, ru_email = ac_email a, ru_isRoot = (ac_isRoot a = 1)\<rparr>
       \<and> scopes = parseScopes (tk_scopes t))"
  by (rule tk_validate_accepts [OF assms])

definition toy_token :: api_token where
  "toy_token = \<lparr>tk_id = 0, tk_accountId = ''a'', tk_name = ''n0'', tk_clientId = ''x'', tk_secretHash = ''ab'',
     tk_secretCipher = [], tk_allowedIps = Some [''1.2.3.4''], tk_scopes = NoScopes, tk_expiresAt = None,
     tk_failedAttempts = 0, tk_lockedUntil = None, tk_revokedAt = None, tk_lastUsedAt = None, tk_lastUsedIp = None,
     tk_createdAt = 0\<rparr>"

definition toy_hex_crypto :: crypto where
  "toy_hex_crypto = toy_crypto\<lparr>cr_hmac_sha256 := (\<lambda>key s. if s = ''y'' then ''AB'' else ''cd'')\<rparr>"

definition toy_tk_state1 :: tk_state where
  "toy_tk_state1 = toy_tk_state\<lparr>tks_rows := [toy_token]\<rparr>"

lemma toy_tk_ok1: "tk_ok toy_tk_state1"
  by (simp add: tk_ok_def toy_tk_state1_def toy_tk_state_def toy_token_def)

lemma toy_key: "parseApiKey ''sms_x.y'' = Some (''x'', ''y'')" "parseApiKey ''sms_x.z'' = Some (''x'', ''z'')"
  by code_simp+

lemma toy_key_facts:
  "tk_row ''x'' toy_tk_state1 = Some toy_token" "tk_pepper toy_hex_crypto = Inr ''pepper''"
  "verifySecret toy_hex_crypto ''pepper'' ''y'' (tk_secretHash toy_token)"
  "\<not> verifySecret toy_hex_crypto ''pepper'' ''z'' (tk_secretHash toy_token)"
  by (simp_all add: tk_row_def toy_tk_state1_def toy_token_def tk_pepper_def toy_hex_crypto_def toy_crypto_def
      verifySecret_def hashSecret_def hex_value_def)

theorem key_accepted_exactly_witness:
  "\<exists>st'. tk_validate toy_hex_crypto ''sms_x.y'' ''::ffff:1.2.3.4'' 5 toy_tk_state1
         = (Inr (Some (\<lparr>ru_id = ''a'', ru_email = ''a@x'', ru_isRoot = False\<rparr>, None)), st')"
proof -
  have "normalizeIp ''::ffff:1.2.3.4'' = ''1.2.3.4''" by code_simp
  then show ?thesis
    unfolding key_accepted_exactly [OF toy_tk_ok1]
    using toy_key toy_key_facts
    by (simp add: usable_def toy_token_def toy_tk_state1_def toy_tk_state_def find_account_def parseScopes_def)
qed

text \<open>A key just created opens its account at once, from an address it allows and before it
  expires, with the scopes it was given; and a key revoked never opens anything again.\<close>
theorem created_key_works_revoked_never:
  assumes "tk_ok st" "tk_create cr pa ctx client secret iv a root input now st = (Inr made, st1)"
    and "find_account a (tks_accounts st) = Some acc" "is_set (ac_enabled acc)" "client \<noteq> []" "secret \<noteq> []"
    and "\<forall>ips. ct_allowedIps input = Some ips \<longrightarrow> ips = [] \<or> normalizeIp ip \<in> set ips"
    and "\<forall>e. ct_expiresAt input = Some e \<longrightarrow> later \<le> e"
  shows "(\<exists>st'. tk_validate cr (nt_key made) ip later st1
       = (Inr (Some (\<lparr>ru_id = ac_id acc, ru_email = ac_email acc, ru_isRoot = (ac_isRoot acc = 1)\<rparr>,
                     parseScopes (serialiseScopes (ct_scopes input)))), st'))
    \<and> fst (tk_validate cr (nt_key made) ip' later' (snd (tk_revoke ctx' a (nt_id made) now' st1))) = Inr None"
proof -
  obtain p token st0 where p: "tk_pepper cr = Inr p"
    and token: "token = \<lparr>tk_id = tks_nextId st, tk_accountId = a, tk_name = ct_name input,
                    tk_clientId = b64_encode client, tk_secretHash = hashSecret cr p (b64_encode secret),
                    tk_secretCipher = encryptSecret cr iv (b64_encode secret) p,
                    tk_allowedIps = ips_column (ct_allowedIps input),
                    tk_scopes = serialiseScopes (ct_scopes input), tk_expiresAt = ct_expiresAt input,
                    tk_failedAttempts = 0, tk_lockedUntil = None, tk_revokedAt = None,
                    tk_lastUsedAt = None, tk_lastUsedIp = None, tk_createdAt = now\<rparr>"
    and save: "tk_save token st = (Inr (), st0)"
    and made: "nt_key made = api_key (b64_encode client) (b64_encode secret)" "nt_id made = tks_nextId st"
    and st1: "st1 = tk_note ctx ''api-tokens.created'' a (tks_nextId st) (st0\<lparr>tks_nextId := tks_nextId st0 + 1\<rparr>)"
    using assms(2) by (auto simp: tk_create_def Let_def and_then_Inr split: sum.splits)
  have st0: "st0 = st\<lparr>tks_rows := save_row tk_id token (tks_rows st)\<rparr>"
    using save by (auto simp: tk_save_def split: if_splits)
  have ok1: "tk_ok st1" using tk_create_ok [OF assms(1), of cr pa ctx client secret iv a root input now] assms(2) by simp
  have t_in: "token \<in> set (tks_rows st1)" by (simp add: st1 st0 tk_note_def set_save_row)
  have row1: "tk_row (b64_encode client) st1 = Some token"
    using find_by_key [of tk_clientId "tks_rows st1" token] ok1 t_in by (simp add: tk_row_def tk_ok_def token)
  have parse: "parseApiKey (nt_key made) = Some (b64_encode client, b64_encode secret)"
    unfolding made by (rule parse_api_key) (use assms(5,6) in \<open>simp_all add: dot_not_in_b64\<close>)
  have "usable token ip later"
    using assms(7,8) by (auto simp: usable_def token ips_column_def split: option.splits)
  moreover have "verifySecret cr p (b64_encode secret) (tk_secretHash token)"
    by (simp add: verifySecret_def token)
  moreover have "tks_accounts st1 = tks_accounts st" by (simp add: st1 st0 tk_note_def)
  ultimately have "\<exists>st'. tk_validate cr (nt_key made) ip later st1
       = (Inr (Some (\<lparr>ru_id = ac_id acc, ru_email = ac_email acc, ru_isRoot = (ac_isRoot acc = 1)\<rparr>,
                     parseScopes (serialiseScopes (ct_scopes input)))), st')"
    unfolding tk_validate_accepts [OF ok1]
    using parse row1 p assms(3,4) by (auto simp: token)
  moreover have "fst (tk_validate cr (nt_key made) ip' later' (snd (tk_revoke ctx' a (nt_id made) now' st1))) = Inr None"
  proof -
    have "tk_find a (nt_id made) st1 = Some token"
      using tk_find_by [OF ok1 t_in] made(2) by (simp add: token)
    moreover obtain st2 where "tk_save (token\<lparr>tk_revokedAt := Some now'\<rparr>) st1 = (Inr (), st2)"
      "tk_row (tk_clientId token) st2 = Some (token\<lparr>tk_revokedAt := Some now'\<rparr>)"
      by (rule tk_save_found [OF ok1 t_in, of "token\<lparr>tk_revokedAt := Some now'\<rparr>"]) simp_all
    ultimately have "tk_row (b64_encode client) (snd (tk_revoke ctx' a (nt_id made) now' st1))
        = Some (token\<lparr>tk_revokedAt := Some now'\<rparr>)"
      by (simp add: tk_revoke_def token Let_def tk_note_def tk_row_def)
    then show ?thesis
      using parse by (simp add: tk_validate_def tk_row_def token)
  qed
  ultimately show ?thesis by blast
qed

lemma toy_created:
  "\<exists>made. tk_create toy_crypto toy_pa None [1] [2] [3] ''a'' False toy_input 0 toy_tk_state
     = (Inr made, snd (tk_create toy_crypto toy_pa None [1] [2] [3] ''a'' False toy_input 0 toy_tk_state))"
  by (simp add: tk_create_def assertScopesWithinAccount_def toy_input_def tk_pepper_def toy_crypto_def tk_save_def
      toy_tk_state_def Let_def)

theorem created_key_works_revoked_never_witness:
  "\<exists>made st1 user. tk_create toy_crypto toy_pa None [1] [2] [3] ''a'' False toy_input 0 toy_tk_state = (Inr made, st1)
    \<and> (\<exists>st'. tk_validate toy_crypto (nt_key made) ''1.2.3.4'' 5 st1 = (Inr (Some (user, None)), st'))
    \<and> fst (tk_validate toy_crypto (nt_key made) ''1.2.3.4'' 9 (snd (tk_revoke None ''a'' (nt_id made) 7 st1))) = Inr None"
proof -
  obtain made where made: "tk_create toy_crypto toy_pa None [1] [2] [3] ''a'' False toy_input 0 toy_tk_state
     = (Inr made, snd (tk_create toy_crypto toy_pa None [1] [2] [3] ''a'' False toy_input 0 toy_tk_state))"
    using toy_created by blast
  obtain acc where acc: "find_account ''a'' (tks_accounts toy_tk_state) = Some acc" "is_set (ac_enabled acc)"
    by (simp add: find_account_def toy_tk_state_def)
  have "ct_allowedIps toy_input = None" "ct_expiresAt toy_input = None" "ct_scopes toy_input = None"
    by (simp_all add: toy_input_def)
  with created_key_works_revoked_never [OF toy_tk_ok made acc, where ip = "''1.2.3.4''" and later = 5
      and ip' = "''1.2.3.4''" and later' = 9 and now' = 7 and ctx' = None] made
  show ?thesis by (auto simp: serialiseScopes_def parseScopes_def)
qed

section \<open>Guessing a secret\<close>

definition tk_wrong :: "crypto \<Rightarrow> string \<Rightarrow> api_token \<Rightarrow> string \<Rightarrow> bool" where
  "tk_wrong cr clientId t key = (\<exists>secret p. parseApiKey key = Some (clientId, secret) \<and> tk_pepper cr = Inr p
     \<and> \<not> verifySecret cr p secret (tk_secretHash t))"

definition tk_run :: "crypto \<Rightarrow> (string \<times> string \<times> time) list \<Rightarrow> tk_state \<Rightarrow> tk_state" where
  "tk_run cr tries st = fold (\<lambda>(key, ip, now) st. snd (tk_validate cr key ip now st)) tries st"

lemma tk_validate_wrong:
  assumes "tk_ok st" "tk_row c st = Some t" "tk_wrong cr c t key" "tk_lockedUntil t = None"
    "tk_revokedAt t = None" "\<forall>e. tk_expiresAt t = Some e \<longrightarrow> now \<le> e"
  defines "t' \<equiv> if 4 \<le> tk_failedAttempts t
      then t\<lparr>tk_lockedUntil := Some (now + 900000), tk_failedAttempts := 0\<rparr>
      else t\<lparr>tk_failedAttempts := tk_failedAttempts t + 1\<rparr>"
  shows "fst (tk_validate cr key ip now st) = Inr None"
    and "tk_ok (snd (tk_validate cr key ip now st))" and "tk_row c (snd (tk_validate cr key ip now st)) = Some t'"
proof -
  have t: "t \<in> set (tks_rows st)" "tk_clientId t = c" using tk_row_in [OF assms(2)] by simp_all
  obtain secret p where w: "parseApiKey key = Some (c, secret)" "tk_pepper cr = Inr p"
    "\<not> verifySecret cr p secret (tk_secretHash t)" using assms(3) by (auto simp: tk_wrong_def)
  have same: "tk_id t' = tk_id t" "tk_clientId t' = tk_clientId t" "tk_accountId t' = tk_accountId t" "tk_name t' = tk_name t"
    by (simp_all add: t'_def)
  obtain st' where st': "tk_save t' st = (Inr (), st')" "tk_ok st'" "tk_row (tk_clientId t) st' = Some t'"
    by (rule tk_save_found [OF assms(1) t(1) same])
  have exp: "\<not> (case tk_expiresAt t of None \<Rightarrow> False | Some e \<Rightarrow> e < now)"
    using assms(6) by (auto split: option.splits)
  have "t' = (let u = t\<lparr>tk_failedAttempts := tk_failedAttempts t + 1\<rparr>
      in if TOKEN_MAX_FAILED \<le> tk_failedAttempts u
         then u\<lparr>tk_lockedUntil := Some (now + LOCK_MINUTES * 60 * 1000), tk_failedAttempts := 0\<rparr> else u)"
    by (simp add: t'_def TOKEN_MAX_FAILED_def LOCK_MINUTES_def Let_def)
  then have "tk_validate cr key ip now st = (Inr None, st')"
    using w assms(2,4,5) exp st'(1) by (simp add: tk_validate_def tk_row_def Let_def)
  with st' t(2) show "fst (tk_validate cr key ip now st) = Inr None"
    and "tk_ok (snd (tk_validate cr key ip now st))" and "tk_row c (snd (tk_validate cr key ip now st)) = Some t'"
    by simp_all
qed

lemma tk_validate_locked:
  "tk_row c st = Some t \<Longrightarrow> tk_lockedUntil t = Some u \<Longrightarrow> now < u \<Longrightarrow> parseApiKey key = Some (c, secret) \<Longrightarrow>
   tk_validate cr key ip now st = (Inr None, st)"
  by (simp add: tk_validate_def tk_row_def)

lemma wrong_count:
  assumes "tk_ok st" "tk_row c st = Some t" "tk_lockedUntil t = None" "tk_revokedAt t = None" "tk_expiresAt t = None"
    and "tk_failedAttempts t + length tries = 4" "\<forall>(key, ip, now) \<in> set tries. tk_wrong cr c t key"
  shows "tk_ok (tk_run cr tries st) \<and> tk_row c (tk_run cr tries st) = Some (t\<lparr>tk_failedAttempts := 4\<rparr>)"
  using assms
proof (induction tries arbitrary: st t)
  case Nil
  then have "t = t\<lparr>tk_failedAttempts := 4\<rparr>" by simp
  with Nil show ?case by (simp add: tk_run_def)
next
  case (Cons g tries)
  obtain key ip now where g: "g = (key, ip, now)" using prod_cases3 by blast
  let ?st = "snd (tk_validate cr key ip now st)"
  let ?t = "t\<lparr>tk_failedAttempts := tk_failedAttempts t + 1\<rparr>"
  have step: "tk_ok ?st" "tk_row c ?st = Some ?t"
    using tk_validate_wrong [OF Cons.prems(1,2) _ Cons.prems(3,4), of cr key now ip] Cons.prems
    by (auto simp: g split: if_splits)
  have "tk_wrong cr c ?t k = tk_wrong cr c t k" for k by (simp add: tk_wrong_def)
  then have "tk_ok (tk_run cr tries ?st) \<and> tk_row c (tk_run cr tries ?st) = Some (?t\<lparr>tk_failedAttempts := 4\<rparr>)"
    using Cons.prems by (intro Cons.IH step) auto
  then show ?case by (simp add: tk_run_def g)
qed

text \<open>Five wrong secrets for a key lock it for a quarter of an hour: until then no secret is
  accepted for it, the right one included, and the table is left as it is.\<close>
theorem five_wrong_secrets_lock:
  assumes "tk_ok st" "tk_row c st = Some t" "tk_lockedUntil t = None" "tk_revokedAt t = None" "tk_expiresAt t = None"
    "tk_failedAttempts t = 0" "length tries = 4"
    and "\<forall>(key, ip, now) \<in> set (tries @ [(key5, ip5, now5)]). tk_wrong cr c t key"
    and "parseApiKey key = Some (c, secret)" "now < now5 + 15 * 60 * 1000"
  shows "tk_validate cr key ip now (tk_run cr (tries @ [(key5, ip5, now5)]) st)
    = (Inr None, tk_run cr (tries @ [(key5, ip5, now5)]) st)"
proof -
  let ?st4 = "tk_run cr tries st"
  have 4: "tk_ok ?st4" "tk_row c ?st4 = Some (t\<lparr>tk_failedAttempts := 4\<rparr>)"
    using wrong_count [OF assms(1-5), of tries cr] assms(6-8) by auto
  have "tk_wrong cr c (t\<lparr>tk_failedAttempts := 4\<rparr>) key5" using assms(8) by (simp add: tk_wrong_def)
  then have "tk_row c (snd (tk_validate cr key5 ip5 now5 ?st4))
      = Some (t\<lparr>tk_lockedUntil := Some (now5 + 900000), tk_failedAttempts := 0\<rparr>)"
    using tk_validate_wrong(3) [OF 4, of cr key5 now5 ip5] assms(3-5) by simp
  moreover have "tk_run cr (tries @ [(key5, ip5, now5)]) st = snd (tk_validate cr key5 ip5 now5 ?st4)"
    by (simp add: tk_run_def)
  ultimately show ?thesis
    using assms(9,10) by (simp add: tk_validate_locked)
qed

theorem five_wrong_secrets_lock_witness:
  "let st = tk_run toy_hex_crypto (replicate 4 (''sms_x.z'', ''1.2.3.4'', 1) @ [(''sms_x.z'', ''1.2.3.4'', 5)]) toy_tk_state1
   in tk_validate toy_hex_crypto ''sms_x.y'' ''1.2.3.4'' 899999 st = (Inr None, st)"
  unfolding Let_def
  by (rule five_wrong_secrets_lock [OF toy_tk_ok1 toy_key_facts(1)])
     (use toy_key toy_key_facts(2,4) in \<open>auto simp: tk_wrong_def\<close>, simp_all add: toy_token_def)

section \<open>A scope narrows\<close>

lemma covers_find:
  assumes "covers (map_option (\<lambda>e. withAccess (se_actions e)) (List.find P xs)) wanted"
  shows "\<exists>e \<in> set xs. P e \<and> set wanted \<subseteq> set (withAccess (se_actions e))"
  using assms by (cases "List.find P xs") (auto simp: covers_def dest: find_in_set)

lemma scopes_held:
  assumes "assertScopesWithinAccount pa a False scopes = Inr u" "parseScopes (serialiseScopes scopes) = Some sc"
  shows "(\<forall>e \<in> set (sc_global sc). pa_global pa a (se_resource e) (withAccess (se_actions e)))
    \<and> (\<forall>e \<in> set (sc_domain sc). pa_domain pa a (se_domainId e) (se_resource e) (withAccess (se_actions e)))"
  using assms
  by (auto simp: assertScopesWithinAccount_def refuseScopesBeyondAccount_def parseScopes_def serialiseScopes_def Let_def
      filter_empty_conv split: option.splits if_splits)

text \<open>A key never reaches beyond its author: whatever a scoped key that is not a root account's
  allows, on the server or on a domain, was held by the account (as the permission library
  asserts it) when the key was minted.\<close>
theorem scope_within_author:
  assumes "tk_create cr pa ctx client secret iv a False input now st = (Inr made, st')"
    and "nt_scopes made = Some sc"
  shows "(\<forall>resource actions. scopeAllowsGlobal sc resource actions \<longrightarrow>
       (\<exists>held. set (withAccess actions) \<subseteq> set held \<and> pa_global pa a resource held))
    \<and> (\<forall>d resource actions. scopeAllowsDomain sc d resource actions \<longrightarrow>
       (\<exists>held. set (withAccess actions) \<subseteq> set held \<and> pa_domain pa a d resource held))"
proof -
  have "assertScopesWithinAccount pa a False (ct_scopes input) = Inr ()"
    "parseScopes (serialiseScopes (ct_scopes input)) = Some sc"
    using assms by (auto simp: tk_create_def Let_def and_then_Inr split: sum.splits)
  note held = scopes_held [OF this]
  have "\<exists>held. set (withAccess actions) \<subseteq> set held \<and> pa_global pa a resource held"
    if "scopeAllowsGlobal sc resource actions" for resource actions
    using covers_find [OF that [unfolded scopeAllowsGlobal_def]] held by auto
  moreover have "\<exists>held. set (withAccess actions) \<subseteq> set held \<and> pa_domain pa a d resource held"
    if "scopeAllowsDomain sc d resource actions" for d resource actions
    using covers_find [OF that [unfolded scopeAllowsDomain_def]] held by auto
  ultimately show ?thesis by blast
qed

definition toy_scopes :: token_scopes where
  "toy_scopes = \<lparr>sc_global = [\<lparr>se_resource = ''domains'', se_actions = [''read'']\<rparr>], sc_domain = []\<rparr>"

theorem scope_within_author_witness:
  "scopeAllowsGlobal toy_scopes ''domains'' [''read'']
     \<and> (\<exists>held. set (withAccess [''read'']) \<subseteq> set held \<and> pa_global toy_pa ''a'' ''domains'' held)"
proof -
  let ?r = "tk_create toy_crypto toy_pa None [1] [2] [3] ''a'' False (toy_input\<lparr>ct_scopes := Some toy_scopes\<rparr>) 0 toy_tk_state"
  obtain made where made: "?r = (Inr made, snd ?r)" "nt_scopes made = Some toy_scopes"
    by (simp add: tk_create_def assertScopesWithinAccount_def toy_input_def tk_pepper_def toy_crypto_def tk_save_def
        toy_tk_state_def Let_def toy_scopes_def refuseScopesBeyondAccount_def toy_pa_def serialiseScopes_def parseScopes_def)
  have "scopeAllowsGlobal toy_scopes ''domains'' [''read'']"
    by (simp add: scopeAllowsGlobal_def toy_scopes_def covers_def)
  with scope_within_author [OF made, THEN conjunct1] show ?thesis by blast
qed

end
