(* ===== verification/PermissionCatalog.thy ===== *)
theory PermissionCatalog imports Prelude begin

text \<open>
  \<open>core/custom-permission-guard/permission-catalog.ts\<close>: the resources of the two tiers with the
  actions each offers, what ticking one resource brings along, and the check made when the
  module is loaded that the actions of the domain-tier \<open>domain\<close> exist on the global \<open>domains\<close>. A
  JavaScript object is the list of its entries in the order written.
\<close>

section \<open>The catalog\<close>

definition GLOBAL_ACTIONS :: "(string \<times> string list) list" where
  "GLOBAL_ACTIONS = [
      (''sieve'', [''access'', ''list-reject-senders'', ''create-reject-sender'',
          ''edit-reject-sender'', ''delete-reject-sender'']),
      (''rspamd'', [''access'', ''view-rspamd-stats'', ''view-rspamd-history'',
          ''view-rspamd-thresholds'', ''edit-rspamd-thresholds'', ''reset-rspamd-thresholds'']),
      (''postfix'', [''access'', ''view-postfix-queue'', ''purge-postfix-queue-message'',
          ''retry-postfix-queue-message'']),
      (''accounts'', [''access'', ''list-account-names'', ''list-accounts'', ''view-account'',
          ''edit-account'', ''revoke-account'', ''invite-account'', ''set-domain-owner'',
          ''view-account-sessions'', ''revoke-account-sessions'', ''purge-account-sessions'',
          ''assign-recipient-owner'', ''unassign-recipient-owner'', ''assign-alias-owner'',
          ''unassign-alias-owner'']),
      (''api-tokens'', [''access'', ''list-api-tokens'', ''create-api-token'', ''edit-api-token'',
          ''revoke-api-token'', ''regenerate-api-token'', ''delete-api-token'']),
      (''groups'', [''access'', ''list-groups'', ''view-group'', ''list-group-members'',
          ''create-group'', ''edit-group'', ''edit-group-global-permissions'',
          ''edit-group-domain-permissions'', ''delete-group'', ''transfer-group-ownership'',
          ''add-group-member'', ''remove-group-member'']),
      (''domains'', [''access'', ''list-all-domains'', ''view-disk-usage'', ''create-domain'',
          ''view-domain'', ''toggle-domain-active'', ''transfer-domain-ownership'']),
      (''domain_owner_elevated'', [''access'', ''delete-dkim-key'', ''transfer-domain-ownership'']),
      (''tickets'', [''access'', ''list-tickets'', ''view-ticket'', ''create-ticket'',
          ''reply-ticket'', ''handle-ticket'', ''notification'']),
      (''supervision'', [''access'', ''view-machine-metrics'', ''view-metrics-history'',
          ''view-activity-log'', ''view-mail-logs'']),
      (''deliverability'', [''access'', ''run-diagnostics'']),
      (''fail2ban'', [''access'', ''view-fail2ban-jails'', ''ban-ip'', ''unban-ip'']),
      (''clamav'', [''access'', ''view-clamav-status'', ''update-signatures'', ''reload-database'']),
      (''dmarc'', [''access'', ''view-dmarc-reports'', ''send-dmarc-reports'',
          ''import-dmarc-reports'', ''manage-dmarc-settings'']),
      (''misc'', [''access'', ''protect-resource'']),
      (''superadmin'', [''access'', ''resize-any-domain-quota'', ''delete-any-domain''])]"

definition DOMAIN_ACTIONS :: "(string \<times> string list) list" where
  "DOMAIN_ACTIONS = [
      (''domain'', [''access'', ''view-domain'', ''toggle-domain-active'',
          ''transfer-domain-ownership'']),
      (''recipients'', [''access'', ''list-recipients'', ''view-recipient'',
          ''view-recipient-headroom'', ''create-recipient'', ''edit-recipient'',
          ''delete-recipient'']),
      (''aliases'', [''access'', ''list-aliases'', ''view-alias'', ''create-alias'', ''edit-alias'',
          ''delete-alias'']),
      (''mailboxes'', [''access'', ''assign-recipient-owner'', ''unassign-recipient-owner'',
          ''assign-alias-owner'', ''unassign-alias-owner'']),
      (''quotas'', [''access'', ''view-quotas'']),
      (''rspamd'', [''access'', ''view-rspamd-stats'', ''view-rspamd-history'']),
      (''admin'', [''access'', ''view-admin-page'', ''toggle-domain-active'', ''manage-dkim'']),
      (''dkim'', [''access'', ''view-dkim'', ''check-dkim-dns'', ''rotate-dkim-key'',
          ''delete-dkim-key''])]"

definition GLOBAL_RESOURCES :: "string list" where
  "GLOBAL_RESOURCES = map fst GLOBAL_ACTIONS"

definition DOMAIN_RESOURCES :: "string list" where
  "DOMAIN_RESOURCES = map fst DOMAIN_ACTIONS"

definition actions_of :: "(string \<times> string list) list \<Rightarrow> string \<Rightarrow> string list" where
  "actions_of catalog resource = (case map_of catalog resource of None \<Rightarrow> [] | Some acts \<Rightarrow> acts)"

section \<open>Dependencies\<close>

type_synonym depends_on = "(string \<times> (string \<times> string list) list) list"

text \<open>\<open>superadmin\<close> brings every other resource along, with all of its actions.\<close>

definition dependsOnSuperadmin :: depends_on where
  "dependsOnSuperadmin =
     [(''superadmin'', map (\<lambda>r. (r, actions_of GLOBAL_ACTIONS r)) (filter (\<lambda>r. r \<noteq> ''superadmin'') GLOBAL_RESOURCES))]"

definition GLOBAL_RESOURCES_DEPENDS_ON :: depends_on where
  "GLOBAL_RESOURCES_DEPENDS_ON =
     [(''groups'', [(''accounts'', [''access'', ''list-account-names''])]),
      (''domain_owner_elevated'', [(''domains'', [''access'', ''view-domain''])]),
      (''deliverability'', [(''domains'', [''access''])])] @ dependsOnSuperadmin"

definition DOMAIN_RESOURCE_DEPENDS_ON :: depends_on where
  "DOMAIN_RESOURCE_DEPENDS_ON =
     [(''recipients'', [(''domain'', [''access''])]),
      (''aliases'', [(''domain'', [''access''])]),
      (''mailboxes'', [(''domain'', [''access''])]),
      (''quotas'', [(''domain'', [''access''])]),
      (''rspamd'', [(''domain'', [''access''])]),
      (''admin'', [(''domain'', [''access''])]),
      (''dkim'', [(''domain'', [''access'']), (''admin'', [''access'', ''view-admin-page''])])]"

definition flatten_deps :: "(string \<times> string list) list \<Rightarrow> (string \<times> string) list" where
  "flatten_deps deps = concat (map (\<lambda>(resource, acts). map (\<lambda>a. (resource, a)) acts) deps)"

definition dependsOnFor :: "string \<Rightarrow> (string \<times> string) list option" where
  "dependsOnFor resource = map_option (\<lambda>e. flatten_deps (snd e))
     (List.find (\<lambda>e. fst e = resource) DOMAIN_RESOURCE_DEPENDS_ON)"

definition dependsOnForGlobal :: "string \<Rightarrow> (string \<times> string) list option" where
  "dependsOnForGlobal resource = map_option (\<lambda>e. flatten_deps (snd e))
     (List.find (\<lambda>e. fst e = resource) GLOBAL_RESOURCES_DEPENDS_ON)"

definition assertBridgeIsSound :: "err + unit" where
  "assertBridgeIsSound =
     (let missing = filter (\<lambda>a. a \<notin> set (actions_of GLOBAL_ACTIONS ''domains'')) (actions_of DOMAIN_ACTIONS ''domain'')
      in if missing \<noteq> [] then Inl (Crash ''ACL catalog: Missing'') else Inr ())"

section \<open>What the guard library is given\<close>

record resource_schema =
  rs_rules :: "string list"
  rs_dependsOn :: "(string \<times> string) list option"
  rs_bridgeFromGlobal :: "string option"

definition global_schemas :: "(string \<times> resource_schema) list" where
  "global_schemas = map (\<lambda>(resource, acts).
     (resource, \<lparr>rs_rules = acts, rs_dependsOn = dependsOnForGlobal resource, rs_bridgeFromGlobal = None\<rparr>)) GLOBAL_ACTIONS"

definition domain_schemas :: "(string \<times> resource_schema) list" where
  "domain_schemas = map (\<lambda>(resource, acts).
     (resource, if resource = ''domain''
                then \<lparr>rs_rules = acts, rs_dependsOn = None, rs_bridgeFromGlobal = Some ''domains''\<rparr>
                else \<lparr>rs_rules = acts, rs_dependsOn = dependsOnFor resource, rs_bridgeFromGlobal = None\<rparr>)) DOMAIN_ACTIONS"

definition lockoutProtected :: "(string \<times> string list) list" where
  "lockoutProtected = [(''groups'', [''access'', ''edit-group-global-permissions''])]"

section \<open>The catalog is well formed\<close>

definition catalog_ok :: "(string \<times> string list) list \<Rightarrow> bool" where
  "catalog_ok catalog = (distinct (map fst catalog) \<and>
     list_all (\<lambda>(r, acts). distinct acts \<and> (case acts of [] \<Rightarrow> False | a # _ \<Rightarrow> a = ''access'')) catalog)"

definition deps_ok :: "(string \<times> string list) list \<Rightarrow> depends_on \<Rightarrow> bool" where
  "deps_ok catalog deps = (distinct (map fst deps) \<and>
     list_all (\<lambda>(r, ds). r \<in> set (map fst catalog) \<and>
       list_all (\<lambda>(d, acts). d \<noteq> r \<and> ''access'' \<in> set acts \<and>
         (\<forall>a \<in> set acts. a \<in> set (actions_of catalog d))) ds) deps)"

text \<open>Following the dependencies of a resource comes to an end: a rank that goes down.\<close>

definition deps_rank :: "string \<Rightarrow> nat" where
  "deps_rank r = (if r = ''superadmin'' then 3 else if r = ''dkim'' then 2
     else if r \<in> set [''groups'', ''domain_owner_elevated'', ''deliverability'', ''recipients'', ''aliases'', ''mailboxes'',
                      ''quotas'', ''rspamd'', ''admin''] then 1 else 0)"

definition deps_acyclic :: "depends_on \<Rightarrow> bool" where
  "deps_acyclic deps = list_all (\<lambda>(r, ds). list_all (\<lambda>(d, acts). deps_rank d < deps_rank r) ds) deps"

text \<open>The catalog holds together: in both tiers no resource is declared twice, every resource
  offers \<open>access\<close> first and no action twice; every dependency names another declared resource with
  actions it has, \<open>access\<close> among them, and none is circular; the bridge from \<open>domain\<close> to \<open>domains\<close>
  is sound, so the module loads; and the permissions whose loss the library refuses exist.\<close>
theorem catalog_well_formed:
  "catalog_ok GLOBAL_ACTIONS \<and> catalog_ok DOMAIN_ACTIONS
   \<and> deps_ok GLOBAL_ACTIONS GLOBAL_RESOURCES_DEPENDS_ON \<and> deps_ok DOMAIN_ACTIONS DOMAIN_RESOURCE_DEPENDS_ON
   \<and> deps_acyclic GLOBAL_RESOURCES_DEPENDS_ON \<and> deps_acyclic DOMAIN_RESOURCE_DEPENDS_ON
   \<and> assertBridgeIsSound = Inr ()
   \<and> list_all (\<lambda>(r, acts). set acts \<subseteq> set (actions_of GLOBAL_ACTIONS r)) lockoutProtected"
proof (intro conjI)
  show "catalog_ok GLOBAL_ACTIONS" by code_simp
  show "catalog_ok DOMAIN_ACTIONS" by code_simp
  show "deps_ok GLOBAL_ACTIONS GLOBAL_RESOURCES_DEPENDS_ON" by code_simp
  show "deps_ok DOMAIN_ACTIONS DOMAIN_RESOURCE_DEPENDS_ON" by code_simp
  show "deps_acyclic GLOBAL_RESOURCES_DEPENDS_ON" by code_simp
  show "deps_acyclic DOMAIN_RESOURCE_DEPENDS_ON" by code_simp
  show "assertBridgeIsSound = Inr ()" by code_simp
  show "list_all (\<lambda>(r, acts). set acts \<subseteq> set (actions_of GLOBAL_ACTIONS r)) lockoutProtected"
    by code_simp
qed

text \<open>Ticking \<open>superadmin\<close> grants the whole server: its dependencies list every action of every
  other global resource, and nothing that is not one.\<close>
theorem superadmin_grants_everything:
  "\<exists>deps. dependsOnForGlobal ''superadmin'' = Some deps \<and>
     set deps = {(r, a). (\<exists>acts. (r, acts) \<in> set GLOBAL_ACTIONS \<and> a \<in> set acts) \<and> r \<noteq> ''superadmin''}"
proof -
  have d: "distinct (map fst GLOBAL_ACTIONS)" by code_simp
  have "dependsOnForGlobal ''superadmin'' = Some (flatten_deps
      (map (\<lambda>r. (r, actions_of GLOBAL_ACTIONS r)) (filter (\<lambda>r. r \<noteq> ''superadmin'') GLOBAL_RESOURCES)))"
    by (simp add: dependsOnForGlobal_def GLOBAL_RESOURCES_DEPENDS_ON_def dependsOnSuperadmin_def)
  moreover have "set (actions_of GLOBAL_ACTIONS r) = {a. \<exists>acts. (r, acts) \<in> set GLOBAL_ACTIONS \<and> a \<in> set acts}" for r
    using d by (auto simp: actions_of_def map_of_eq_Some_iff [OF d] map_of_eq_None_iff split: option.splits
        intro: rev_image_eqI)
  moreover have "set (flatten_deps (map (\<lambda>r. (r, f r)) rs)) = {(r, a). r \<in> set rs \<and> a \<in> set (f r)}"
    for f :: "string \<Rightarrow> string list" and rs
    by (auto simp: flatten_deps_def)
  ultimately show ?thesis by (auto simp: GLOBAL_RESOURCES_def) force
qed

end
