(* ===== verification/Guards.thy ===== *)
theory Guards imports PermissionCatalog begin

text \<open>
  The guards in front of the routes: \<open>global-permission.guard.ts\<close> and
  \<open>domain-permission.guard.ts\<close> of \<open>core/custom-permission-guard/\<close>, \<open>root.guard.ts\<close>,
  \<open>loopback.guard.ts\<close>, and the anti-escalation check of \<open>core/acl/anti-escalation.service.ts\<close>.
  The permission library is not under \<open>src/\<close>: its assertions and its two utilities are arguments,
  an assertion granting, refusing, or failing on its configuration.
\<close>

section \<open>The library's answers\<close>

datatype lib_answer = Granted | Refused | ConfigError

record guard_lib =
  gl_global :: "string \<Rightarrow> string \<Rightarrow> string list \<Rightarrow> lib_answer"
  gl_domain :: "string \<Rightarrow> int \<Rightarrow> string \<Rightarrow> string list \<Rightarrow> lib_answer"

definition lib_throw :: "lib_answer \<Rightarrow> err + unit" where
  "lib_throw a = (case a of
      Granted \<Rightarrow> Inr ()
    | Refused \<Rightarrow> Inl (HttpException FORBIDDEN ''permission'')
    | ConfigError \<Rightarrow> Inl (Crash ''CustomPermissionGuardConfigError''))"

definition isGranted :: "lib_answer \<Rightarrow> err + bool" where
  "isGranted a = (case a of Granted \<Rightarrow> Inr True | Refused \<Rightarrow> Inr False
    | ConfigError \<Rightarrow> Inl (Crash ''CustomPermissionGuardConfigError''))"

text \<open>The user the auth guard left on the request.\<close>

record guard_user =
  gu_id :: string
  gu_isRoot :: bool

type_synonym requirement = "string \<times> string list"

section \<open>The global guard\<close>

fun assert_all :: "(requirement \<Rightarrow> lib_answer) \<Rightarrow> requirement list \<Rightarrow> err + bool" where
  "assert_all ask [] = Inr True"
| "assert_all ask (entry # entries) =
     (case lib_throw (ask entry) of Inl e \<Rightarrow> Inl e | Inr _ \<Rightarrow> assert_all ask entries)"

definition global_guard :: "guard_lib \<Rightarrow> requirement list option \<Rightarrow> guard_user option \<Rightarrow> err + bool" where
  "global_guard lib required user =
     (case required of
        None \<Rightarrow> Inr True
      | Some entries \<Rightarrow>
          if entries = [] then Inr True
          else case user of
            None \<Rightarrow> Inl (HttpException FORBIDDEN ''Authentication required'')
          | Some u \<Rightarrow>
              if gu_isRoot u then Inr True
              else assert_all (\<lambda>(resource, acts). gl_global lib (gu_id u) resource acts) entries)"

section \<open>The domain guard\<close>

text \<open>The actions of a \<open>domain\<close> requirement the global \<open>domains\<close> does not grant.\<close>

fun still_needed :: "guard_lib \<Rightarrow> string \<Rightarrow> string list \<Rightarrow> err + string list" where
  "still_needed lib userId [] = Inr []"
| "still_needed lib userId (action # rest) =
     (case isGranted (gl_global lib userId ''domains'' [action]) of
        Inl e \<Rightarrow> Inl e
      | Inr viaGlobal \<Rightarrow>
          (case still_needed lib userId rest of
             Inl e \<Rightarrow> Inl e
           | Inr needed \<Rightarrow> Inr (if viaGlobal then needed else action # needed)))"

fun remaining_requirements :: "guard_lib \<Rightarrow> string \<Rightarrow> requirement list \<Rightarrow> err + requirement list" where
  "remaining_requirements lib userId [] = Inr []"
| "remaining_requirements lib userId ((resource, acts) # entries) =
     (if resource \<noteq> ''domain''
      then (case remaining_requirements lib userId entries of
              Inl e \<Rightarrow> Inl e | Inr rest \<Rightarrow> Inr ((resource, acts) # rest))
      else case still_needed lib userId acts of
             Inl e \<Rightarrow> Inl e
           | Inr needed \<Rightarrow>
               (case remaining_requirements lib userId entries of
                  Inl e \<Rightarrow> Inl e
                | Inr rest \<Rightarrow> Inr (if needed \<noteq> [] then (resource, needed) # rest else rest)))"

text \<open>\<open>domainId\<close> is the route parameter when it is a number; \<open>ownerOf\<close> reads \<open>virtual_domains\<close>.\<close>

definition domain_guard ::
  "guard_lib \<Rightarrow> (int \<Rightarrow> string option option) \<Rightarrow> requirement list option \<Rightarrow> guard_user option \<Rightarrow> int option \<Rightarrow> err + bool" where
  "domain_guard lib ownerOf required user domainIdParam =
     (case required of
        None \<Rightarrow> Inr True
      | Some entries \<Rightarrow>
          if entries = [] then Inr True
          else case user of
            None \<Rightarrow> Inl (HttpException FORBIDDEN ''Authentication required'')
          | Some u \<Rightarrow>
              if gu_isRoot u then Inr True
              else case domainIdParam of
                None \<Rightarrow> Inl (Crash ''@RequireDomainPermissions used on a route without a numeric :domainId param'')
              | Some domainId \<Rightarrow>
                  if ownerOf domainId = Some (Some (gu_id u)) then Inr True
                  else case remaining_requirements lib (gu_id u) entries of
                    Inl e \<Rightarrow> Inl e
                  | Inr remaining \<Rightarrow>
                      if remaining = [] then Inr True
                      else case isGranted (gl_global lib (gu_id u) ''domains'' [''access'']) of
                        Inl e \<Rightarrow> Inl e
                      | Inr hasDomainsAccess \<Rightarrow>
                          if \<not> hasDomainsAccess then Inl (HttpException FORBIDDEN ''Missing permission domains:access'')
                          else case lib_throw (gl_domain lib (gu_id u) domainId ''domain'' [''access'']) of
                            Inl e \<Rightarrow> Inl e
                          | Inr _ \<Rightarrow>
                              assert_all (\<lambda>(resource, acts). gl_domain lib (gu_id u) domainId resource acts) remaining)"

section \<open>Root and the machine itself\<close>

definition root_guard :: "guard_user option \<Rightarrow> err + bool" where
  "root_guard user = (case user of
      None \<Rightarrow> Inl (HttpException FORBIDDEN ''Root access required'')
    | Some u \<Rightarrow> if gu_isRoot u then Inr True else Inl (HttpException FORBIDDEN ''Root access required''))"

definition LOOPBACK :: "string list" where
  "LOOPBACK = [''127.0.0.1'', ''::1'', ''::ffff:127.0.0.1'']"

definition FORWARDED_HEADERS :: "string list" where
  "FORWARDED_HEADERS = [''x-forwarded-for'', ''x-forwarded-host'', ''x-real-ip'', ''forwarded'']"

definition loopback_guard :: "string option \<Rightarrow> (string \<rightharpoonup> string) \<Rightarrow> err + bool" where
  "loopback_guard remoteAddress headers =
     (let peer = (case remoteAddress of None \<Rightarrow> [] | Some a \<Rightarrow> a);
          forwarded = (\<exists>name \<in> set FORWARDED_HEADERS. headers name \<noteq> None)
      in if peer \<in> set LOOPBACK \<and> \<not> forwarded then Inr True
         else Inl (HttpException FORBIDDEN ''This route only answers the machine itself''))"

section \<open>Anti-escalation\<close>

type_synonym global_perm = "string \<times> string"
type_synonym domain_perm = "int \<times> string \<times> string"

record perm_set =
  ps_global :: "global_perm list"
  ps_domain :: "domain_perm list"

text \<open>\<open>findUnheldPermissions\<close> and \<open>diffPermissions\<close> of the library.\<close>

record perm_utils =
  pu_unheld :: "string \<Rightarrow> perm_set \<Rightarrow> perm_set"
  pu_diff :: "perm_set \<Rightarrow> perm_set \<Rightarrow> perm_set \<times> perm_set"

definition assertActingUserHolds ::
  "perm_utils \<Rightarrow> guard_user \<Rightarrow> global_perm list \<Rightarrow> domain_perm list \<Rightarrow> string \<Rightarrow> err + unit" where
  "assertActingUserHolds u actor g d message =
     (if gu_isRoot actor then Inr ()
      else let unheld = pu_unheld u (gu_id actor) \<lparr>ps_global = g, ps_domain = d\<rparr>
           in if ps_global unheld \<noteq> [] \<or> ps_domain unheld \<noteq> [] then Inl (HttpException FORBIDDEN message) else Inr ())"

definition assertActingUserCanReplace ::
  "perm_utils \<Rightarrow> guard_user \<Rightarrow> global_perm list \<Rightarrow> global_perm list \<Rightarrow> domain_perm list \<Rightarrow> domain_perm list \<Rightarrow> err + unit" where
  "assertActingUserCanReplace u actor beforeGlobal afterGlobal beforeDomain afterDomain =
     (let (added, removed) = pu_diff u \<lparr>ps_global = beforeGlobal, ps_domain = beforeDomain\<rparr>
                                       \<lparr>ps_global = afterGlobal, ps_domain = afterDomain\<rparr>
      in assertActingUserHolds u actor (ps_global added @ ps_global removed) (ps_domain added @ ps_domain removed)
           ''Cannot grant or revoke a permission you do not hold'')"

text \<open>What the two utilities document, for a relation telling what an account holds.\<close>

record holdings =
  ho_global :: "string \<Rightarrow> global_perm \<Rightarrow> bool"
  ho_domain :: "string \<Rightarrow> domain_perm \<Rightarrow> bool"

definition utils_lawful :: "holdings \<Rightarrow> perm_utils \<Rightarrow> bool" where
  "utils_lawful h u =
     ((\<forall>a p. set (ps_global (pu_unheld u a p)) = {x \<in> set (ps_global p). \<not> ho_global h a x}
           \<and> set (ps_domain (pu_unheld u a p)) = {x \<in> set (ps_domain p). \<not> ho_domain h a x})
      \<and> (\<forall>p q. (case pu_diff u p q of (added, removed) \<Rightarrow>
            set (ps_global added) = set (ps_global q) - set (ps_global p)
          \<and> set (ps_domain added) = set (ps_domain q) - set (ps_domain p)
          \<and> set (ps_global removed) = set (ps_global p) - set (ps_global q)
          \<and> set (ps_domain removed) = set (ps_domain p) - set (ps_domain q))))"

lemma holds_iff:
  assumes "utils_lawful h u"
  shows "assertActingUserHolds u actor g d m = Inr () \<longleftrightarrow>
    gu_isRoot actor \<or> (\<forall>p \<in> set g. ho_global h (gu_id actor) p) \<and> (\<forall>p \<in> set d. ho_domain h (gu_id actor) p)"
proof -
  let ?p = "\<lparr>ps_global = g, ps_domain = d\<rparr>"
  have "set (ps_global (pu_unheld u (gu_id actor) ?p)) = {x \<in> set g. \<not> ho_global h (gu_id actor) x}"
    "set (ps_domain (pu_unheld u (gu_id actor) ?p)) = {x \<in> set d. \<not> ho_domain h (gu_id actor) x}"
    using assms by (simp_all add: utils_lawful_def)
  then have "ps_global (pu_unheld u (gu_id actor) ?p) = [] \<longleftrightarrow> (\<forall>p \<in> set g. ho_global h (gu_id actor) p)"
    "ps_domain (pu_unheld u (gu_id actor) ?p) = [] \<longleftrightarrow> (\<forall>p \<in> set d. ho_domain h (gu_id actor) p)"
    by (auto simp: set_empty [symmetric] simp del: set_empty)
  then show ?thesis by (auto simp: assertActingUserHolds_def Let_def)
qed

lemma replace_iff:
  assumes "utils_lawful h u"
  shows "assertActingUserCanReplace u actor g g' d d' = Inr () \<longleftrightarrow>
    gu_isRoot actor \<or> (\<forall>p. (p \<in> set g) \<noteq> (p \<in> set g') \<longrightarrow> ho_global h (gu_id actor) p)
      \<and> (\<forall>p. (p \<in> set d) \<noteq> (p \<in> set d') \<longrightarrow> ho_domain h (gu_id actor) p)"
proof -
  obtain a r where diff: "pu_diff u \<lparr>ps_global = g, ps_domain = d\<rparr> \<lparr>ps_global = g', ps_domain = d'\<rparr> = (a, r)" by force
  have "set (ps_global a) = set g' - set g" "set (ps_domain a) = set d' - set d"
    "set (ps_global r) = set g - set g'" "set (ps_domain r) = set d - set d'"
    using assms diff unfolding utils_lawful_def by (fastforce split: prod.splits)+
  then show ?thesis
    by (auto simp: assertActingUserCanReplace_def diff holds_iff [OF assms])
qed

section \<open>The order of resolution\<close>

definition no_config_error :: "guard_lib \<Rightarrow> bool" where
  "no_config_error lib = ((\<forall>u r acts. gl_global lib u r acts \<noteq> ConfigError)
     \<and> (\<forall>u d r acts. gl_domain lib u d r acts \<noteq> ConfigError))"

lemma assert_all_iff:
  "(\<And>entry. ask entry \<noteq> ConfigError) \<Longrightarrow> assert_all ask entries = Inr True \<longleftrightarrow> (\<forall>e \<in> set entries. ask e = Granted)"
proof (induction entries)
  case (Cons e es)
  then show ?case by (cases "ask e") (auto simp: lib_throw_def)
qed simp

lemma still_needed_eq:
  assumes "no_config_error lib"
  shows "still_needed lib u acts = Inr (filter (\<lambda>a. gl_global lib u ''domains'' [a] \<noteq> Granted) acts)"
proof (induction acts)
  case (Cons a acts)
  have "gl_global lib u ''domains'' [a] \<noteq> ConfigError" using assms by (simp add: no_config_error_def)
  with Cons show ?case by (cases "gl_global lib u ''domains'' [a]") (auto simp: isGranted_def)
qed simp

text \<open>What is left of one requirement once the global \<open>domains\<close> has answered for the domain's own actions.\<close>

definition left_of :: "guard_lib \<Rightarrow> string \<Rightarrow> requirement \<Rightarrow> requirement list" where
  "left_of lib u entry =
     (let missing = filter (\<lambda>a. gl_global lib u ''domains'' [a] \<noteq> Granted) (snd entry)
      in if fst entry \<noteq> ''domain'' then [entry] else if missing = [] then [] else [(''domain'', missing)])"

lemma remaining_eq:
  assumes "no_config_error lib"
  shows "remaining_requirements lib u entries = Inr (concat (map (left_of lib u) entries))"
proof (induction entries)
  case (Cons entry entries)
  obtain r acts where [simp]: "entry = (r, acts)" by force
  with Cons show ?case by (auto simp: still_needed_eq [OF assms] left_of_def Let_def)
qed simp

definition global_grants :: "guard_lib \<Rightarrow> string \<Rightarrow> string \<Rightarrow> bool" where
  "global_grants lib u a \<longleftrightarrow> gl_global lib u ''domains'' [a] = Granted"

lemma left_of_none: "left_of lib u e = [] \<longleftrightarrow> fst e = ''domain'' \<and> (\<forall>a \<in> set (snd e). global_grants lib u a)"
  by (simp add: left_of_def Let_def global_grants_def filter_empty_conv)

lemma left_none:
  "concat (map (left_of lib u) entries) = []
     \<longleftrightarrow> (\<forall>e \<in> set entries. fst e = ''domain'' \<and> (\<forall>a \<in> set (snd e). global_grants lib u a))"
  by (simp add: concat_eq_Nil_conv left_of_none)

lemma isGranted_ok: "a \<noteq> ConfigError \<Longrightarrow> isGranted a = Inr (a = Granted)"
  by (cases a) (simp_all add: isGranted_def)

lemma lib_throw_ok: "a \<noteq> ConfigError \<Longrightarrow> (lib_throw a = Inr ()) = (a = Granted)"
  by (cases a) (simp_all add: lib_throw_def)

text \<open>One requirement, asked of the two tiers: a domain requirement is asked for the actions the
  global resource does not grant, any other as it is.\<close>

definition requirement_met :: "guard_lib \<Rightarrow> string \<Rightarrow> int \<Rightarrow> requirement \<Rightarrow> bool" where
  "requirement_met lib u d entry =
     (if fst entry = ''domain''
      then let missing = filter (\<lambda>a. \<not> global_grants lib u a) (snd entry)
           in missing = [] \<or> gl_domain lib u d ''domain'' missing = Granted
      else gl_domain lib u d (fst entry) (snd entry) = Granted)"

lemma left_asked:
  "(\<forall>x \<in> set (left_of lib u e). (case x of (r, acts) \<Rightarrow> gl_domain lib u d r acts) = Granted) \<longleftrightarrow> requirement_met lib u d e"
  by (simp add: left_of_def requirement_met_def Let_def global_grants_def case_prod_beta)

lemma left_all:
  "(\<forall>x \<in> set (concat (map (left_of lib u) entries)). P x)
     \<longleftrightarrow> (\<forall>e \<in> set entries. \<forall>x \<in> set (left_of lib u e). P x)"
  by simp

lemma domain_guard_asks:
  assumes "no_config_error lib" "ownerOf d \<noteq> Some (Some (gu_id u))" "entries \<noteq> []" "\<not> gu_isRoot u"
    "concat (map (left_of lib (gu_id u)) entries) \<noteq> []"
  shows "domain_guard lib ownerOf (Some entries) (Some u) (Some d) = Inr True
    \<longleftrightarrow> gl_global lib (gu_id u) ''domains'' [''access''] = Granted
      \<and> gl_domain lib (gu_id u) d ''domain'' [''access''] = Granted
      \<and> (\<forall>e \<in> set entries. requirement_met lib (gu_id u) d e)"
proof -
  note left = remaining_eq [OF assms(1)]
  have g: "gl_global lib a r acts \<noteq> ConfigError" and e: "gl_domain lib a k r acts \<noteq> ConfigError" for a k r acts
    using assms(1) by (simp_all add: no_config_error_def)
  have all: "assert_all (\<lambda>(r, acts). gl_domain lib (gu_id u) d r acts) (concat (map (left_of lib (gu_id u)) entries)) = Inr True
      \<longleftrightarrow> (\<forall>e \<in> set entries. requirement_met lib (gu_id u) d e)"
    by (subst assert_all_iff) (simp_all only: left_all left_asked, auto simp: e)
  show ?thesis
    using assms(2-5) all
    by (cases "gl_domain lib (gu_id u) d ''domain'' [''access'']")
       (auto simp: domain_guard_def left isGranted_ok [OF g] lib_throw_def e)
qed

lemma domain_guard_early:
  assumes "no_config_error lib" "entries \<noteq> []" "\<not> gu_isRoot u" "concat (map (left_of lib (gu_id u)) entries) = []"
  shows "domain_guard lib ownerOf (Some entries) (Some u) (Some d) = Inr True"
  using assms(2-4) by (auto simp: domain_guard_def remaining_eq [OF assms(1)])

text \<open>C19: The guard of a domain's routes (\<open>DomainPermissionGuard.canActivate\<close>) lets a signed-in account
  through exactly when it is root, or owns the domain, or every requirement of the route is on the domain
  itself and is granted by the global \<open>domains\<close> resource, or it holds \<open>domains:access\<close>, holds
  \<open>domain:access\<close> on this domain, and every requirement is met: one on another resource by the domain tier
  alone, one on the domain itself by the global resource for some actions and by the domain tier for the others.\<close>
theorem domain_route_opens_exactly:
  assumes "no_config_error lib" and "entries \<noteq> []"
  shows "domain_guard lib ownerOf (Some entries) (Some u) (Some d) = Inr True \<longleftrightarrow>
      gu_isRoot u \<or> ownerOf d = Some (Some (gu_id u))
    \<or> (\<forall>e \<in> set entries. fst e = ''domain'' \<and> (\<forall>a \<in> set (snd e). global_grants lib (gu_id u) a))
    \<or> (gl_global lib (gu_id u) ''domains'' [''access''] = Granted
       \<and> gl_domain lib (gu_id u) d ''domain'' [''access''] = Granted
       \<and> (\<forall>e \<in> set entries. requirement_met lib (gu_id u) d e))"
proof (cases "gu_isRoot u \<or> ownerOf d = Some (Some (gu_id u))")
  case True
  with assms(2) show ?thesis by (auto simp: domain_guard_def)
next
  case False
  show ?thesis
  proof (cases "concat (map (left_of lib (gu_id u)) entries) = []")
    case True
    with False assms show ?thesis using domain_guard_early left_none by blast
  next
    case left: False
    with False assms show ?thesis using domain_guard_asks left_none by blast
  qed
qed

definition toy_guard_lib :: guard_lib where
  "toy_guard_lib = \<lparr>
     gl_global = (\<lambda>u r acts. if r = ''domains'' \<and> set acts \<subseteq> {''access'', ''view-domain''} then Granted else Refused),
     gl_domain = (\<lambda>u d r acts. if d = 7 then Granted else Refused)\<rparr>"

theorem domain_route_opens_exactly_witness:
  "domain_guard toy_guard_lib (\<lambda>_. None) (Some [(''aliases'', [''list-aliases''])])
      (Some \<lparr>gu_id = ''a'', gu_isRoot = False\<rparr>) (Some 7) = Inr True
   \<and> domain_guard toy_guard_lib (\<lambda>_. None) (Some [(''aliases'', [''list-aliases''])])
      (Some \<lparr>gu_id = ''a'', gu_isRoot = False\<rparr>) (Some 8) \<noteq> Inr True"
proof -
  have ok: "no_config_error toy_guard_lib" by (simp add: no_config_error_def toy_guard_lib_def)
  show ?thesis
    by (simp add: domain_route_opens_exactly [OF ok]) (simp add: toy_guard_lib_def requirement_met_def)
qed

text \<open>Replacing a permission set (\<open>assertActingUserCanReplace\<close>) is judged on the difference: the check passes
  exactly when the acting user is root or holds every permission, of either tier, the change adds or takes
  away; what is on both sides is not asked.\<close>
theorem replace_judged_on_difference:
  assumes "utils_lawful h u"
  shows "assertActingUserCanReplace u actor g g' d d' = Inr () \<longleftrightarrow>
    gu_isRoot actor \<or> (\<forall>p. (p \<in> set g) \<noteq> (p \<in> set g') \<longrightarrow> ho_global h (gu_id actor) p)
      \<and> (\<forall>p. (p \<in> set d) \<noteq> (p \<in> set d') \<longrightarrow> ho_domain h (gu_id actor) p)"
  by (rule replace_iff [OF assms])

definition toy_holdings :: holdings where
  "toy_holdings = \<lparr>ho_global = (\<lambda>a p. fst p = ''tickets''), ho_domain = (\<lambda>a p. fst p = 7)\<rparr>"

definition toy_utils :: perm_utils where
  "toy_utils = \<lparr>
     pu_unheld = (\<lambda>a p. \<lparr>ps_global = filter (\<lambda>x. fst x \<noteq> ''tickets'') (ps_global p),
                         ps_domain = filter (\<lambda>x. fst x \<noteq> 7) (ps_domain p)\<rparr>),
     pu_diff = (\<lambda>p q. (\<lparr>ps_global = filter (\<lambda>x. x \<notin> set (ps_global p)) (ps_global q),
                        ps_domain = filter (\<lambda>x. x \<notin> set (ps_domain p)) (ps_domain q)\<rparr>,
                       \<lparr>ps_global = filter (\<lambda>x. x \<notin> set (ps_global q)) (ps_global p),
                        ps_domain = filter (\<lambda>x. x \<notin> set (ps_domain q)) (ps_domain p)\<rparr>))\<rparr>"

lemma toy_utils_lawful: "utils_lawful toy_holdings toy_utils"
  by (auto simp: utils_lawful_def toy_holdings_def toy_utils_def)

theorem replace_judged_on_difference_witness:
  "assertActingUserCanReplace toy_utils \<lparr>gu_id = ''a'', gu_isRoot = False\<rparr>
      [(''groups'', ''access''), (''tickets'', ''access'')] [(''groups'', ''access'')] [] [] = Inr ()
   \<and> assertActingUserCanReplace toy_utils \<lparr>gu_id = ''a'', gu_isRoot = False\<rparr>
      [(''groups'', ''access'')] [] [] [] \<noteq> Inr ()"
  by (simp only: replace_judged_on_difference [OF toy_utils_lawful]) (auto simp: toy_holdings_def)

end
