(* ===== verification/MailTables.thy ===== *)
theory MailTables imports Accounts begin

text \<open>
  The rows the administration services share: \<open>account-profile.entity.ts\<close>, the domains, mailboxes,
  aliases and disk counters of the mail server (\<open>virtual-*.entity.ts\<close>), the delegations of
  \<open>domain-delegation.entity.ts\<close>, and the trail of \<open>audit-log.entity.ts\<close> with
  \<open>AuditLogService.record\<close>. A \<open>bigint\<close> column, which TypeORM reads as a decimal string, is the
  integer it writes.
\<close>

section \<open>Profiles\<close>

record profile =
  pr_accountId :: string
  pr_presence :: int
  pr_presenceAt :: "time option"
  pr_locale :: "string option"
  pr_offlineNotifiedAt :: "time option"
  pr_firstName :: "string option"
  pr_lastName :: "string option"
  pr_gender :: "string option"
  pr_avatarUrl :: "string option"
  pr_phone :: "string option"
  pr_addressLine :: "string option"
  pr_addressComplement :: "string option"
  pr_city :: "string option"
  pr_postalCode :: "string option"
  pr_country :: "string option"
  pr_latitude :: "string option"
  pr_longitude :: "string option"
  pr_createdAt :: time
  pr_updatedAt :: time

definition str_trim :: "string \<Rightarrow> string" where
  "str_trim s = rev (dropWhile is_space (rev (dropWhile is_space s)))"

definition composeDisplayName :: "string option \<Rightarrow> string option \<Rightarrow> string option" where
  "composeDisplayName firstName lastName =
     (let name = join_with '' '' (filter (\<lambda>v. v \<noteq> [])
            (map (\<lambda>v. case v of None \<Rightarrow> [] | Some t \<Rightarrow> str_trim t) [firstName, lastName]))
      in if name = [] then None else Some name)"

section \<open>Mail tables\<close>

record virtual_domain =
  vd_id :: int
  vd_ownerId :: "string option"
  vd_domain :: string
  vd_quota :: int
  vd_active :: int
  vd_isProtected :: int
  vd_userStartDate :: string
  vd_userEndDate :: "string option"
  vd_lastActivity :: time
  vd_createdAt :: time

record virtual_user =
  vu_id :: int
  vu_ownerId :: "string option"
  vu_domain :: string
  vu_email :: string
  vu_password :: string
  vu_maildir :: string
  vu_quota :: int
  vu_active :: int
  vu_isProtected :: int
  vu_uid :: string
  vu_gid :: string
  vu_userStartDate :: string
  vu_userEndDate :: "string option"
  vu_lastActivity :: "time option"
  vu_createdAt :: time

record virtual_alias =
  va_id :: int
  va_ownerId :: "string option"
  va_isProtected :: int
  va_domain :: string
  va_source :: string
  va_destination :: string
  va_userStartDate :: string
  va_userEndDate :: "string option"
  va_lastActivity :: time
  va_createdAt :: time

record virtual_quota_user =
  vqu_id :: int
  vqu_domain :: string
  vqu_email :: string
  vqu_bytes :: int
  vqu_messages :: int
  vqu_lastActivity :: time

record virtual_quota_domain =
  vqd_id :: int
  vqd_domain :: string
  vqd_bytes :: int
  vqd_messages :: int
  vqd_lastActivity :: time

record domain_delegation =
  dd_id :: int
  dd_accountId :: string
  dd_domainId :: int
  dd_maxRecipients :: "int option"
  dd_maxAliases :: "int option"
  dd_quotaMb :: int
  dd_baseRecipients :: int
  dd_baseAliases :: int
  dd_baseBytes :: int
  dd_createdBy :: "string option"
  dd_createdAt :: time
  dd_updatedAt :: time

section \<open>The audit trail\<close>

text \<open>What \<open>JSON.stringify\<close> is given.\<close>

datatype json =
    JNull | JBool bool | JNum int | JStr string | JArr "json list" | JObj "(string \<times> json) list"

record audit_log =
  au_id :: nat
  au_actorId :: "string option"
  au_action :: string
  au_entityType :: string
  au_entityId :: "string option"
  au_before :: "json option"
  au_after :: "json option"
  au_createdAt :: time

record audit_input =
  an_actorId :: "string option"
  an_action :: string
  an_entityType :: string
  an_entityId :: "string option"
  an_before :: "json option"
  an_after :: "json option"

definition audit_record :: "time \<Rightarrow> audit_input \<Rightarrow> audit_log list \<Rightarrow> audit_log list" where
  "audit_record now input rows = rows @ [\<lparr>au_id = Suc (length rows), au_actorId = an_actorId input,
     au_action = an_action input, au_entityType = an_entityType input, au_entityId = an_entityId input,
     au_before = an_before input, au_after = an_after input, au_createdAt = now\<rparr>]"

end
