(* ===== verification/AclGroups.thy ===== *)
theory AclGroups imports MailTables Guards begin

text \<open>
  \<open>api/groups/groups.service.ts\<close> on the tables of the group model, with the queries of
  \<open>core/custom-permission-guard/custom-permission-guard.service.ts\<close> it hands the permission library. The
  library is not under \<open>src/\<close>: its operations are the argument \<open>guard_ops\<close>, and what the code relies on
  is \<open>guard_lawful\<close> below, that it runs the query of the same name, refusing or cleaning up
  where the sources say it may.
\<close>

section \<open>Tables\<close>

record acl_group =
  gr_id :: string
  gr_name :: string
  gr_description :: "string option"
  gr_ownerId :: "string option"
  gr_isDefault :: int
  gr_isProtected :: int
  gr_isInvisible :: int
  gr_createdAt :: time

record group_member =
  gm_groupId :: string
  gm_accountId :: string
  gm_createdAt :: time

record group_global_permission =
  gg_groupId :: string
  gg_resource :: string
  gg_action :: string

record group_domain_permission =
  gd_groupId :: string
  gd_domainId :: int
  gd_resource :: string
  gd_action :: string

record grp_state =
  gs_groups :: "acl_group list"
  gs_members :: "group_member list"
  gs_globalPerms :: "group_global_permission list"
  gs_domainPerms :: "group_domain_permission list"
  gs_accounts :: "account list"
  gs_profiles :: "profile list"
  gs_domains :: "virtual_domain list"
  gs_audit :: "audit_log list"

definition find_group :: "string \<Rightarrow> grp_state \<Rightarrow> acl_group option" where
  "find_group i st = List.find (\<lambda>g. gr_id g = i) (gs_groups st)"

section \<open>The queries handed to the library\<close>

definition db_findAccountGroupIds :: "string \<Rightarrow> grp_state \<Rightarrow> string list" where
  "db_findAccountGroupIds accountId st = map gm_groupId (filter (\<lambda>m. gm_accountId m = accountId) (gs_members st))"

definition db_findGlobalPermissions :: "string \<Rightarrow> grp_state \<Rightarrow> global_perm list" where
  "db_findGlobalPermissions groupId st =
     map (\<lambda>p. (gg_resource p, gg_action p)) (filter (\<lambda>p. gg_groupId p = groupId) (gs_globalPerms st))"

definition db_findDomainPermissions :: "string \<Rightarrow> grp_state \<Rightarrow> domain_perm list" where
  "db_findDomainPermissions groupId st =
     map (\<lambda>p. (gd_domainId p, gd_resource p, gd_action p)) (filter (\<lambda>p. gd_groupId p = groupId) (gs_domainPerms st))"

definition db_findOwnedDomainIds :: "string \<Rightarrow> grp_state \<Rightarrow> int list" where
  "db_findOwnedDomainIds accountId st = map vd_id (filter (\<lambda>d. vd_ownerId d = Some accountId) (gs_domains st))"

text \<open>\<open>groups.update(id, patch)\<close>.\<close>

definition patch_group :: "string \<Rightarrow> (acl_group \<Rightarrow> acl_group) \<Rightarrow> grp_state \<Rightarrow> grp_state" where
  "patch_group groupId f st = st\<lparr>gs_groups := update_where (\<lambda>g. gr_id g = groupId) f (gs_groups st)\<rparr>"

definition db_createGroup :: "string \<Rightarrow> time \<Rightarrow> string \<Rightarrow> grp_state \<Rightarrow> (string, grp_state) outcome" where
  "db_createGroup newId now name st =
     (Inr newId, st\<lparr>gs_groups := save_row gr_id \<lparr>gr_id = newId, gr_name = name, gr_description = None, gr_ownerId = None,
        gr_isDefault = 0, gr_isProtected = 0, gr_isInvisible = 0, gr_createdAt = now\<rparr> (gs_groups st)\<rparr>)"

definition group_patch :: "string option \<Rightarrow> string option option \<Rightarrow> acl_group \<Rightarrow> acl_group" where
  "group_patch name description g =
     (let g1 = (case name of None \<Rightarrow> g | Some n \<Rightarrow> g\<lparr>gr_name := n\<rparr>)
      in case description of None \<Rightarrow> g1 | Some d \<Rightarrow> g1\<lparr>gr_description := d\<rparr>)"

definition db_updateGroup ::
  "string \<Rightarrow> string option \<Rightarrow> string option option \<Rightarrow> grp_state \<Rightarrow> (unit, grp_state) outcome" where
  "db_updateGroup groupId name description st = (Inr (), patch_group groupId (group_patch name description) st)"

lemma group_patch_simps [simp]:
  "gr_id (group_patch n d g) = gr_id g" "gr_isDefault (group_patch n d g) = gr_isDefault g"
  "gr_isProtected (group_patch n d g) = gr_isProtected g" "gr_isInvisible (group_patch n d g) = gr_isInvisible g"
  "gr_name (group_patch n d g) = (case n of None \<Rightarrow> gr_name g | Some x \<Rightarrow> x)"
  by (simp_all add: group_patch_def Let_def split: option.splits)

definition db_setGroupOwner :: "string \<Rightarrow> string option \<Rightarrow> grp_state \<Rightarrow> (unit, grp_state) outcome" where
  "db_setGroupOwner groupId accountId st = (Inr (), patch_group groupId (\<lambda>g. g\<lparr>gr_ownerId := accountId\<rparr>) st)"

definition db_findGroupProtected :: "string \<Rightarrow> grp_state \<Rightarrow> bool" where
  "db_findGroupProtected groupId st =
     (case find_group groupId st of None \<Rightarrow> False | Some g \<Rightarrow> gr_isProtected g = 1)"

definition db_setGroupProtected :: "string \<Rightarrow> bool \<Rightarrow> grp_state \<Rightarrow> (unit, grp_state) outcome" where
  "db_setGroupProtected groupId isProtected st =
     (Inr (), patch_group groupId (\<lambda>g. g\<lparr>gr_isProtected := if isProtected then 1 else 0\<rparr>) st)"

text \<open>The three tables that name a group go with it (\<open>ON DELETE CASCADE\<close>).\<close>

definition db_deleteGroup :: "string \<Rightarrow> grp_state \<Rightarrow> (unit, grp_state) outcome" where
  "db_deleteGroup groupId st =
     (Inr (), st\<lparr>gs_groups := delete_where (\<lambda>g. gr_id g = groupId) (gs_groups st),
        gs_members := delete_where (\<lambda>m. gm_groupId m = groupId) (gs_members st),
        gs_globalPerms := delete_where (\<lambda>p. gg_groupId p = groupId) (gs_globalPerms st),
        gs_domainPerms := delete_where (\<lambda>p. gd_groupId p = groupId) (gs_domainPerms st)\<rparr>)"

text \<open>Delete then insert in one transaction; \<open>uq_group_global_permissions\<close> rolls it back on a repeated pair.\<close>

definition writeGlobalPermissions :: "string \<Rightarrow> global_perm list \<Rightarrow> grp_state \<Rightarrow> (unit, grp_state) outcome" where
  "writeGlobalPermissions groupId permissions st =
     (if \<not> distinct permissions then (Inl (Crash ''ER_DUP_ENTRY''), st)
      else (Inr (), st\<lparr>gs_globalPerms := delete_where (\<lambda>p. gg_groupId p = groupId) (gs_globalPerms st)
          @ map (\<lambda>(r, a). \<lparr>gg_groupId = groupId, gg_resource = r, gg_action = a\<rparr>) permissions\<rparr>))"

definition db_setGroupDomainPermissions :: "string \<Rightarrow> domain_perm list \<Rightarrow> grp_state \<Rightarrow> (unit, grp_state) outcome" where
  "db_setGroupDomainPermissions groupId permissions st =
     (if \<not> distinct permissions then (Inl (Crash ''ER_DUP_ENTRY''), st)
      else (Inr (), st\<lparr>gs_domainPerms := delete_where (\<lambda>p. gd_groupId p = groupId) (gs_domainPerms st)
          @ map (\<lambda>(d, r, a). \<lparr>gd_groupId = groupId, gd_domainId = d, gd_resource = r, gd_action = a\<rparr>) permissions\<rparr>))"

text \<open>Groups holding every one of the actions on the resource, for a list of actions without repeats.\<close>

definition db_countGroupsWithGlobalPermission :: "string \<Rightarrow> string list \<Rightarrow> grp_state \<Rightarrow> nat" where
  "db_countGroupsWithGlobalPermission resource acts st =
     (let rows = filter (\<lambda>p. gg_resource p = resource \<and> gg_action p \<in> set acts) (gs_globalPerms st)
      in length (filter (\<lambda>g. length (remdups (map gg_action (filter (\<lambda>p. gg_groupId p = g) rows))) = length acts)
           (remdups (map gg_groupId rows))))"

text \<open>\<open>group_members\<close> refers to the groups and to the accounts: a row naming one that is gone is refused.\<close>

definition db_assignAccountToGroup :: "time \<Rightarrow> string \<Rightarrow> string \<Rightarrow> grp_state \<Rightarrow> (unit, grp_state) outcome" where
  "db_assignAccountToGroup now accountId groupId st =
     (if \<exists>m \<in> set (gs_members st). gm_accountId m = accountId \<and> gm_groupId m = groupId then (Inr (), st)
      else if find_group groupId st = None \<or> find_account accountId (gs_accounts st) = None
      then (Inl (Crash ''ER_NO_REFERENCED_ROW''), st)
      else (Inr (), st\<lparr>gs_members := gs_members st @ [\<lparr>gm_groupId = groupId, gm_accountId = accountId, gm_createdAt = now\<rparr>]\<rparr>))"

definition db_removeAccountFromGroup :: "string \<Rightarrow> string \<Rightarrow> grp_state \<Rightarrow> (unit, grp_state) outcome" where
  "db_removeAccountFromGroup accountId groupId st =
     (Inr (), st\<lparr>gs_members := delete_where (\<lambda>m. gm_accountId m = accountId \<and> gm_groupId m = groupId) (gs_members st)\<rparr>)"

definition db_setDefaultGroup :: "string option \<Rightarrow> grp_state \<Rightarrow> (unit, grp_state) outcome" where
  "db_setDefaultGroup groupId st =
     (let cleared = update_where (\<lambda>g. gr_isDefault g = 1) (\<lambda>g. g\<lparr>gr_isDefault := 0\<rparr>) (gs_groups st)
      in (Inr (), st\<lparr>gs_groups := (case groupId of None \<Rightarrow> cleared
            | Some i \<Rightarrow> update_where (\<lambda>g. gr_id g = i) (\<lambda>g. g\<lparr>gr_isDefault := 1\<rparr>) cleared)\<rparr>))"

definition db_findDefaultGroupId :: "grp_state \<Rightarrow> string option" where
  "db_findDefaultGroupId st = map_option gr_id (List.find (\<lambda>g. gr_isDefault g = 1) (gs_groups st))"

record group_info =
  in_id :: string
  in_name :: string
  in_description :: "string option"
  in_ownerId :: "string option"
  in_isDefault :: bool
  in_protected :: bool
  in_createdAt :: time

definition group_info_of :: "acl_group \<Rightarrow> group_info" where
  "group_info_of g = \<lparr>in_id = gr_id g, in_name = gr_name g, in_description = gr_description g, in_ownerId = gr_ownerId g,
     in_isDefault = (gr_isDefault g = 1), in_protected = (gr_isProtected g = 1), in_createdAt = gr_createdAt g\<rparr>"

definition members_of :: "string \<Rightarrow> grp_state \<Rightarrow> group_member list" where
  "members_of groupId st = filter (\<lambda>m. gm_groupId m = groupId) (gs_members st)"

definition db_listGroups :: "grp_state \<Rightarrow> (group_info \<times> nat) list" where
  "db_listGroups st = map (\<lambda>g. (group_info_of g, length (members_of (gr_id g) st))) (gs_groups st)"

definition db_findGroup :: "string \<Rightarrow> grp_state \<Rightarrow> group_info option" where
  "db_findGroup groupId st = map_option group_info_of (find_group groupId st)"

section \<open>The library's operations\<close>

record guard_ops =
  go_createGroup :: "string \<Rightarrow> time \<Rightarrow> string \<Rightarrow> grp_state \<Rightarrow> (string, grp_state) outcome"
  go_updateGroup :: "string \<Rightarrow> string option \<Rightarrow> string option option \<Rightarrow> grp_state \<Rightarrow> (unit, grp_state) outcome"
  go_setGroupOwner :: "string \<Rightarrow> string option \<Rightarrow> grp_state \<Rightarrow> (unit, grp_state) outcome"
  go_setDefaultGroup :: "string option \<Rightarrow> grp_state \<Rightarrow> (unit, grp_state) outcome"
  go_setGroupProtected :: "string \<Rightarrow> bool \<Rightarrow> grp_state \<Rightarrow> (unit, grp_state) outcome"
  go_deleteGroup :: "string \<Rightarrow> grp_state \<Rightarrow> (unit, grp_state) outcome"
  go_setGroupGlobalPermissions :: "string \<Rightarrow> global_perm list \<Rightarrow> grp_state \<Rightarrow> (unit, grp_state) outcome"
  go_setGroupDomainPermissions :: "string \<Rightarrow> domain_perm list \<Rightarrow> grp_state \<Rightarrow> (unit, grp_state) outcome"
  go_assignAccountToGroup :: "time \<Rightarrow> string \<Rightarrow> string \<Rightarrow> grp_state \<Rightarrow> (unit, grp_state) outcome"
  go_removeAccountFromGroup :: "string \<Rightarrow> string \<Rightarrow> grp_state \<Rightarrow> (unit, grp_state) outcome"
  go_findGroupGlobalPermissions :: "string \<Rightarrow> grp_state \<Rightarrow> global_perm list"
  go_findGroupDomainPermissions :: "string \<Rightarrow> grp_state \<Rightarrow> domain_perm list"
  go_check_global :: "string \<Rightarrow> string \<Rightarrow> string \<Rightarrow> grp_state \<Rightarrow> bool"
  go_findUnheldPermissions :: "string \<Rightarrow> perm_set \<Rightarrow> grp_state \<Rightarrow> perm_set"
  go_diffPermissions :: "perm_set \<Rightarrow> perm_set \<Rightarrow> perm_set \<times> perm_set"

definition utils_at :: "guard_ops \<Rightarrow> grp_state \<Rightarrow> perm_utils" where
  "utils_at ops st = \<lparr>pu_unheld = (\<lambda>a p. go_findUnheldPermissions ops a p st), pu_diff = go_diffPermissions ops\<rparr>"

text \<open>
  What the service relies on: the operations with no rule of their own run their query; \<open>deleteGroup\<close> and
  \<open>setGroupGlobalPermissions\<close> may refuse and change nothing (\<open>lockoutProtected\<close>, a protected group), and
  the second may drop from the list the actions whose resource has lost its \<open>access\<close>.
\<close>

definition guard_lawful :: "guard_ops \<Rightarrow> bool" where
  "guard_lawful ops =
     (go_createGroup ops = db_createGroup \<and> go_updateGroup ops = db_updateGroup \<and> go_setGroupOwner ops = db_setGroupOwner
      \<and> go_setDefaultGroup ops = db_setDefaultGroup \<and> go_setGroupProtected ops = db_setGroupProtected
      \<and> go_assignAccountToGroup ops = db_assignAccountToGroup \<and> go_removeAccountFromGroup ops = db_removeAccountFromGroup
      \<and> go_findGroupGlobalPermissions ops = db_findGlobalPermissions
      \<and> go_findGroupDomainPermissions ops = db_findDomainPermissions
      \<and> (\<forall>i st. go_deleteGroup ops i st = db_deleteGroup i st \<or> (\<exists>e. go_deleteGroup ops i st = (Inl e, st)))
      \<and> (\<forall>i ps st. (\<exists>keep. go_setGroupGlobalPermissions ops i ps st = writeGlobalPermissions i (filter keep ps) st)
            \<or> (\<exists>e. go_setGroupGlobalPermissions ops i ps st = (Inl e, st)))
      \<and> (\<forall>i ps st. (\<exists>keep. go_setGroupDomainPermissions ops i ps st = db_setGroupDomainPermissions i (filter keep ps) st)
            \<or> (\<exists>e. go_setGroupDomainPermissions ops i ps st = (Inl e, st))))"

text \<open>What an account holds, as the utilities see it.\<close>

definition holds_in :: "(grp_state \<Rightarrow> holdings) \<Rightarrow> guard_ops \<Rightarrow> bool" where
  "holds_in h ops = (\<forall>st. utils_lawful (h st) (utils_at ops st))"

section \<open>Reading a group\<close>

definition findOrFail :: "string \<Rightarrow> guard_user option \<Rightarrow> grp_state \<Rightarrow> err + acl_group" where
  "findOrFail i actor st =
     (case find_group i st of
        None \<Rightarrow> Inl (HttpException NOT_FOUND ''Group not found'')
      | Some g \<Rightarrow>
          (case actor of
             None \<Rightarrow> Inr g
           | Some u \<Rightarrow> if \<not> gu_isRoot u \<and> gr_isInvisible g = 1 then Inl (HttpException NOT_FOUND ''Group not found'') else Inr g))"

definition assertOwnerOrRootOrPermitted :: "guard_ops \<Rightarrow> acl_group \<Rightarrow> guard_user \<Rightarrow> string \<Rightarrow> grp_state \<Rightarrow> err + unit" where
  "assertOwnerOrRootOrPermitted ops g u action st =
     (if gu_isRoot u then Inr ()
      else if gr_ownerId g = Some (gu_id u) then Inr ()
      else if go_check_global ops (gu_id u) ''groups'' action st then Inr ()
      else Inl (HttpException FORBIDDEN ''Only the group owner, a root account, or an account holding groups:action can do this''))"

record group_item =
  gi_id :: string
  gi_name :: string
  gi_description :: "string option"
  gi_createdAt :: time
  gi_ownerId :: "string option"
  gi_ownerEmail :: "string option"
  gi_isDefault :: bool
  gi_protected :: bool
  gi_invisible :: bool
  gi_memberCount :: nat

definition toItem :: "acl_group \<Rightarrow> grp_state \<Rightarrow> group_item" where
  "toItem g st =
     (let memberCount = count_where (\<lambda>m. gm_groupId m = gr_id g) (gs_members st);
          ownerEmail = (case gr_ownerId g of None \<Rightarrow> None | Some o' \<Rightarrow> map_option ac_email (find_account o' (gs_accounts st)))
      in \<lparr>gi_id = gr_id g, gi_name = gr_name g, gi_description = gr_description g, gi_createdAt = gr_createdAt g,
          gi_ownerId = gr_ownerId g, gi_ownerEmail = ownerEmail, gi_isDefault = (gr_isDefault g = 1),
          gi_protected = (gr_isProtected g = 1), gi_invisible = (gr_isInvisible g = 1), gi_memberCount = memberCount\<rparr>)"

text \<open>The database's collation: the pattern matching of \<open>LIKE\<close> and the sorting of \<open>ORDER BY\<close>, of rows by the
  text of some columns, ascending or not.\<close>

record group_db =
  gb_like :: "string \<Rightarrow> string \<Rightarrow> bool"
  gb_order_groups :: "string \<Rightarrow> bool \<Rightarrow> acl_group list \<Rightarrow> acl_group list"
  gb_order_accounts :: "string list \<Rightarrow> bool \<Rightarrow> (account \<times> profile option) list \<Rightarrow> (account \<times> profile option) list"

record member_item =
  mi_id :: string
  mi_email :: string
  mi_displayName :: "string option"
  mi_avatarUrl :: "string option"

definition find_profile :: "string \<Rightarrow> grp_state \<Rightarrow> profile option" where
  "find_profile accountId st = List.find (\<lambda>p. pr_accountId p = accountId) (gs_profiles st)"

definition memberList :: "group_db \<Rightarrow> string \<Rightarrow> grp_state \<Rightarrow> member_item list" where
  "memberList db i st =
     (let accountIds = map gm_accountId (members_of i st);
          accs = map fst (gb_order_accounts db [''email''] True
            (map (\<lambda>a. (a, None)) (filter (\<lambda>a. ac_id a \<in> set accountIds) (gs_accounts st))))
      in if accountIds = [] then []
         else map (\<lambda>a. \<lparr>mi_id = ac_id a, mi_email = ac_email a,
             mi_displayName = (case find_profile (ac_id a) st of None \<Rightarrow> None
                | Some p \<Rightarrow> composeDisplayName (pr_firstName p) (pr_lastName p)),
             mi_avatarUrl = (case find_profile (ac_id a) st of None \<Rightarrow> None | Some p \<Rightarrow> pr_avatarUrl p)\<rparr>) accs)"

record pagination_query =
  pq_limit :: "nat option"
  pq_offset :: nat
  pq_search :: "string option"
  pq_sortDir :: string
  pq_sortBy :: "string option"
  pq_searchBy :: "string option"

definition resolveSortColumn :: "string option \<Rightarrow> string list \<Rightarrow> string \<Rightarrow> string" where
  "resolveSortColumn requested allowed fallback =
     (case requested of None \<Rightarrow> fallback | Some c \<Rightarrow> if c \<in> set allowed then c else fallback)"

definition resolveSearchColumn :: "string option \<Rightarrow> string list \<Rightarrow> string option" where
  "resolveSearchColumn requested allowed =
     (case requested of None \<Rightarrow> None | Some c \<Rightarrow> if c \<in> set allowed then Some c else None)"

definition page_of :: "nat \<Rightarrow> nat \<Rightarrow> 'a list \<Rightarrow> 'a list" where
  "page_of offset limit rows = take limit (drop offset rows)"

definition enrichGroups :: "acl_group list \<Rightarrow> grp_state \<Rightarrow> group_item list" where
  "enrichGroups allGroups st =
     map (\<lambda>g. \<lparr>gi_id = gr_id g, gi_name = gr_name g, gi_description = gr_description g, gi_createdAt = gr_createdAt g,
        gi_ownerId = gr_ownerId g,
        gi_ownerEmail = (case gr_ownerId g of None \<Rightarrow> None | Some o' \<Rightarrow> map_option ac_email (find_account o' (gs_accounts st))),
        gi_isDefault = (gr_isDefault g = 1), gi_protected = (gr_isProtected g = 1), gi_invisible = (gr_isInvisible g = 1),
        gi_memberCount = length (members_of (gr_id g) st)\<rparr>) allGroups"

definition GROUPS_SORTABLE_COLUMNS :: "string list" where
  "GROUPS_SORTABLE_COLUMNS = [''name'', ''description'', ''createdAt'']"

definition GROUPS_SEARCHABLE_COLUMNS :: "string list" where
  "GROUPS_SEARCHABLE_COLUMNS = [''name'', ''description'']"

definition GROUP_MEMBERS_SORTABLE_COLUMNS :: "string list" where
  "GROUP_MEMBERS_SORTABLE_COLUMNS = [''email'', ''displayName'']"

definition GROUP_MEMBERS_SEARCHABLE_COLUMNS :: "string list" where
  "GROUP_MEMBERS_SEARCHABLE_COLUMNS = [''email'', ''displayName'']"

text \<open>A column \<open>LIKE\<close> the term between two \<open>%\<close>; a null column matches nothing.\<close>

definition group_column_like :: "group_db \<Rightarrow> string \<Rightarrow> acl_group \<Rightarrow> string \<Rightarrow> bool" where
  "group_column_like db term g column =
     (if column = ''name'' then gb_like db (gr_name g) (''%'' @ term @ ''%'')
      else case gr_description g of None \<Rightarrow> False | Some d \<Rightarrow> gb_like db d (''%'' @ term @ ''%''))"

text \<open>The answer: the bare list without a limit, a page with the total otherwise.\<close>

definition grp_list :: "group_db \<Rightarrow> guard_user \<Rightarrow> pagination_query \<Rightarrow> grp_state \<Rightarrow> group_item list \<times> nat option" where
  "grp_list db actor q st =
     (let base = filter (\<lambda>g. gu_isRoot actor \<or> gr_isInvisible g = 0) (gs_groups st)
      in case pq_limit q of
           None \<Rightarrow> (enrichGroups (gb_order_groups db ''name'' True base) st, None)
         | Some limit \<Rightarrow>
             (let searchBy = resolveSearchColumn (pq_searchBy q) GROUPS_SEARCHABLE_COLUMNS;
                  columns = filter (\<lambda>c. searchBy = None \<or> searchBy = Some c) GROUPS_SEARCHABLE_COLUMNS;
                  matching = (case pq_search q of None \<Rightarrow> base
                    | Some term \<Rightarrow> if term = [] then base else filter (\<lambda>g. \<exists>c \<in> set columns. group_column_like db term g c) base);
                  sortBy = resolveSortColumn (pq_sortBy q) GROUPS_SORTABLE_COLUMNS ''createdAt'';
                  rows = page_of (pq_offset q) limit (gb_order_groups db sortBy (pq_sortDir q = ''asc'') matching)
              in (enrichGroups rows st, Some (length matching))))"

section \<open>A group in detail\<close>

record group_detail =
  gt_item :: group_item
  gt_nonMemberCount :: int
  gt_owner :: "(string \<times> string) option"
  gt_globalPermissions :: "global_perm list"
  gt_domainPermissions :: "(int \<times> string \<times> string \<times> string) list"

definition getDetail :: "guard_ops \<Rightarrow> string \<Rightarrow> guard_user \<Rightarrow> grp_state \<Rightarrow> (group_detail, grp_state) outcome" where
  "getDetail ops i actor st =
     (case findOrFail i (Some actor) st of
        Inl e \<Rightarrow> (Inl e, st)
      | Inr g \<Rightarrow>
          (let item = toItem g st;
               nonMemberCount = int (length (gs_accounts st)) - int (gi_memberCount item);
               globalRows = go_findGroupGlobalPermissions ops i st;
               domainRows = go_findGroupDomainPermissions ops i st;
               domainName = (\<lambda>d. case List.find (\<lambda>v. vd_id v = d) (gs_domains st) of None \<Rightarrow> [] | Some v \<Rightarrow> vd_domain v);
               owner = (case gr_ownerId g of None \<Rightarrow> None
                 | Some o' \<Rightarrow> map_option (\<lambda>a. (ac_id a, ac_email a)) (find_account o' (gs_accounts st)))
           in (Inr \<lparr>gt_item = item, gt_nonMemberCount = nonMemberCount, gt_owner = owner,
                 gt_globalPermissions = globalRows,
                 gt_domainPermissions = map (\<lambda>(d, r, a). (d, domainName d, r, a)) domainRows\<rparr>, st)))"

section \<open>Writing groups\<close>

definition grp_audit ::
  "time \<Rightarrow> string \<Rightarrow> string \<Rightarrow> string \<Rightarrow> json option \<Rightarrow> json option \<Rightarrow> grp_state \<Rightarrow> (unit, grp_state) outcome" where
  "grp_audit now actorId action entityId before after st =
     (Inr (), st\<lparr>gs_audit := audit_record now \<lparr>an_actorId = Some actorId, an_action = action, an_entityType = ''group'',
        an_entityId = Some entityId, an_before = before, an_after = after\<rparr> (gs_audit st)\<rparr>)"

definition applyDefaultGroup :: "guard_ops \<Rightarrow> time \<Rightarrow> string \<Rightarrow> string \<Rightarrow> grp_state \<Rightarrow> (unit, grp_state) outcome" where
  "applyDefaultGroup ops now groupId actorId st =
     and_then (go_setDefaultGroup ops (Some groupId) st) (\<lambda>_ st1.
       grp_audit now actorId ''group.default.changed'' groupId None (Some (JObj [(''isDefault'', JBool True)])) st1)"

record create_group =
  cg_name :: string
  cg_description :: "string option"
  cg_isDefault :: bool

definition grp_create ::
  "guard_ops \<Rightarrow> string \<Rightarrow> time \<Rightarrow> string \<Rightarrow> string \<Rightarrow> create_group \<Rightarrow> grp_state \<Rightarrow> (group_item, grp_state) outcome" where
  "grp_create ops newId now ownerId actingUserId input st =
     (if \<exists>g \<in> set (gs_groups st). gr_name g = cg_name input
      then (Inl (HttpException CONFLICT ''Group already exists''), st)
      else and_then (go_createGroup ops newId now (cg_name input) st) (\<lambda>groupId st1.
        and_then (go_setGroupOwner ops groupId (Some ownerId) st1) (\<lambda>_ st2.
        and_then (case cg_description input of None \<Rightarrow> (Inr (), st2)
            | Some d \<Rightarrow> if d = [] then (Inr (), st2) else go_updateGroup ops groupId None (Some (Some d)) st2) (\<lambda>_ st3.
        and_then (if cg_isDefault input then applyDefaultGroup ops now groupId actingUserId st3 else (Inr (), st3)) (\<lambda>_ st4.
        case findOrFail groupId None st4 of
          Inl e \<Rightarrow> (Inl e, st4)
        | Inr g \<Rightarrow> (Inr (toItem g st4), st4))))))"

text \<open>An absent field is \<open>None\<close>; the description may be given as null.\<close>

record update_group =
  ug_name :: "string option"
  ug_description :: "string option option"
  ug_isDefault :: "bool option"
  ug_protected :: "bool option"
  ug_invisible :: "bool option"

definition update_text :: "guard_ops \<Rightarrow> string \<Rightarrow> update_group \<Rightarrow> grp_state \<Rightarrow> (unit, grp_state) outcome" where
  "update_text ops i input st =
     (if ug_name input \<noteq> None \<or> ug_description input \<noteq> None
      then go_updateGroup ops i (ug_name input) (ug_description input) st else (Inr (), st))"

definition update_default ::
  "guard_ops \<Rightarrow> time \<Rightarrow> acl_group \<Rightarrow> string \<Rightarrow> guard_user \<Rightarrow> update_group \<Rightarrow> grp_state \<Rightarrow> (unit, grp_state) outcome" where
  "update_default ops now g i actor input st =
     (case ug_isDefault input of
        None \<Rightarrow> (Inr (), st)
      | Some True \<Rightarrow> applyDefaultGroup ops now i (gu_id actor) st
      | Some False \<Rightarrow>
          if gr_isDefault g = 1
          then and_then (go_setDefaultGroup ops None st) (\<lambda>_ st1.
            grp_audit now (gu_id actor) ''group.default.changed'' i
              (Some (JObj [(''isDefault'', JBool True)])) (Some (JObj [(''isDefault'', JBool False)])) st1)
          else (Inr (), st))"

definition update_protected ::
  "guard_ops \<Rightarrow> time \<Rightarrow> acl_group \<Rightarrow> string \<Rightarrow> guard_user \<Rightarrow> update_group \<Rightarrow> grp_state \<Rightarrow> (unit, grp_state) outcome" where
  "update_protected ops now g i actor input st =
     (case ug_protected input of
        None \<Rightarrow> (Inr (), st)
      | Some p \<Rightarrow>
          if p = (gr_isProtected g = 1) then (Inr (), st)
          else if \<not> gu_isRoot actor then (Inl (HttpException FORBIDDEN ''Only a root account can change a group's protection''), st)
          else and_then (go_setGroupProtected ops i p st) (\<lambda>_ st1.
            grp_audit now (gu_id actor) ''group.protection.changed'' i
              (Some (JObj [(''protected'', JBool (gr_isProtected g = 1))])) (Some (JObj [(''protected'', JBool p)])) st1))"

definition update_invisible ::
  "time \<Rightarrow> acl_group \<Rightarrow> string \<Rightarrow> guard_user \<Rightarrow> update_group \<Rightarrow> grp_state \<Rightarrow> (unit, grp_state) outcome" where
  "update_invisible now g i actor input st =
     (case ug_invisible input of
        None \<Rightarrow> (Inr (), st)
      | Some v \<Rightarrow>
          if v = (gr_isInvisible g = 1) then (Inr (), st)
          else if \<not> gu_isRoot actor then (Inl (HttpException FORBIDDEN ''Only a root account can change a group's visibility''), st)
          else grp_audit now (gu_id actor) ''group.visibility.changed'' i
              (Some (JObj [(''invisible'', JBool (gr_isInvisible g = 1))])) (Some (JObj [(''invisible'', JBool v)]))
              (patch_group i (\<lambda>g. g\<lparr>gr_isInvisible := if v then 1 else 0\<rparr>) st))"

definition grp_update ::
  "guard_ops \<Rightarrow> time \<Rightarrow> string \<Rightarrow> guard_user \<Rightarrow> update_group \<Rightarrow> grp_state \<Rightarrow> (group_item, grp_state) outcome" where
  "grp_update ops now i actor input st =
     (case findOrFail i (Some actor) st of
        Inl e \<Rightarrow> (Inl e, st)
      | Inr g \<Rightarrow>
          if \<exists>n. ug_name input = Some n \<and> n \<noteq> gr_name g \<and> (\<exists>x \<in> set (gs_groups st). gr_name x = n \<and> gr_id x \<noteq> i)
          then (Inl (HttpException CONFLICT ''Group already exists''), st)
          else and_then (update_text ops i input st) (\<lambda>_ st1.
               and_then (update_default ops now g i actor input st1) (\<lambda>_ st2.
               and_then (update_protected ops now g i actor input st2) (\<lambda>_ st3.
               and_then (update_invisible now g i actor input st3) (\<lambda>_ st4.
               case findOrFail i (Some actor) st4 of
                 Inl e \<Rightarrow> (Inl e, st4)
               | Inr g' \<Rightarrow> (Inr (toItem g' st4), st4))))))"

definition grp_remove :: "guard_ops \<Rightarrow> time \<Rightarrow> string \<Rightarrow> guard_user \<Rightarrow> grp_state \<Rightarrow> (unit, grp_state) outcome" where
  "grp_remove ops now i actor st =
     (case findOrFail i (Some actor) st of
        Inl e \<Rightarrow> (Inl e, st)
      | Inr g \<Rightarrow>
          if gr_isProtected g = 1 then (Inl (HttpException FORBIDDEN ''This group is protected and cannot be deleted''), st)
          else (case assertActingUserHolds (utils_at ops st) actor (go_findGroupGlobalPermissions ops i st) []
                       ''Cannot delete a group carrying permissions you do not hold'' of
             Inl e \<Rightarrow> (Inl e, st)
           | Inr _ \<Rightarrow>
               (let members = members_of i st
                in and_then (if gu_isRoot actor then db_deleteGroup i st else go_deleteGroup ops i st) (\<lambda>_ st1.
                     grp_audit now (gu_id actor) ''group.deleted'' i None
                       (Some (JObj [(''detachedAccountIds'', JArr (map (\<lambda>m. JStr (gm_accountId m)) members))])) st1))))"

section \<open>Writing its permissions\<close>

definition global_json :: "global_perm list \<Rightarrow> json" where
  "global_json ps = JArr (map (\<lambda>(r, a). JObj [(''resource'', JStr r), (''action'', JStr a)]) ps)"

definition domain_json :: "domain_perm list \<Rightarrow> json" where
  "domain_json ps = JArr (map (\<lambda>(d, r, a). JObj [(''domainId'', JNum d), (''resource'', JStr r), (''action'', JStr a)]) ps)"

definition grp_setGlobalPermissions ::
  "guard_ops \<Rightarrow> time \<Rightarrow> string \<Rightarrow> guard_user \<Rightarrow> global_perm list \<Rightarrow> grp_state \<Rightarrow> (group_detail, grp_state) outcome" where
  "grp_setGlobalPermissions ops now i actor permissions st =
     (case findOrFail i (Some actor) st of
        Inl e \<Rightarrow> (Inl e, st)
      | Inr g \<Rightarrow>
          (let before = go_findGroupGlobalPermissions ops i st
           in case assertActingUserCanReplace (utils_at ops st) actor before permissions [] [] of
             Inl e \<Rightarrow> (Inl e, st)
           | Inr _ \<Rightarrow>
               and_then (if gu_isRoot actor then writeGlobalPermissions i permissions st
                         else go_setGroupGlobalPermissions ops i permissions st) (\<lambda>_ st1.
               and_then (grp_audit now (gu_id actor) ''group.permissions.set'' i
                  (Some (global_json before)) (Some (global_json permissions)) st1) (\<lambda>_ st2.
               getDetail ops i actor st2))))"

definition grp_setDomainPermissions ::
  "guard_ops \<Rightarrow> time \<Rightarrow> string \<Rightarrow> guard_user \<Rightarrow> domain_perm list \<Rightarrow> grp_state \<Rightarrow> (group_detail, grp_state) outcome" where
  "grp_setDomainPermissions ops now i actor permissions st =
     (case findOrFail i (Some actor) st of
        Inl e \<Rightarrow> (Inl e, st)
      | Inr g \<Rightarrow>
          (let domainIds = remdups (map fst permissions);
               found = filter (\<lambda>d. vd_id d \<in> set domainIds) (gs_domains st)
           in if permissions \<noteq> [] \<and> length found \<noteq> length domainIds
              then (Inl (HttpException NOT_FOUND ''One or more domain IDs not found''), st)
              else (let before = go_findGroupDomainPermissions ops i st
                in case assertActingUserCanReplace (utils_at ops st) actor [] [] before permissions of
                  Inl e \<Rightarrow> (Inl e, st)
                | Inr _ \<Rightarrow>
                    and_then (go_setGroupDomainPermissions ops i permissions st) (\<lambda>_ st1.
                    and_then (grp_audit now (gu_id actor) ''group.permissions.set'' i
                       (Some (domain_json before)) (Some (domain_json permissions)) st1) (\<lambda>_ st2.
                    getDetail ops i actor st2)))))"

definition owner_json :: "string option \<Rightarrow> json" where
  "owner_json o' = JObj [(''ownerId'', case o' of None \<Rightarrow> JNull | Some a \<Rightarrow> JStr a)]"

definition grp_updateOwner ::
  "guard_ops \<Rightarrow> time \<Rightarrow> string \<Rightarrow> guard_user \<Rightarrow> string \<Rightarrow> grp_state \<Rightarrow> (group_detail, grp_state) outcome" where
  "grp_updateOwner ops now i actor newOwnerId st =
     (case findOrFail i (Some actor) st of
        Inl e \<Rightarrow> (Inl e, st)
      | Inr g \<Rightarrow>
          (case assertOwnerOrRootOrPermitted ops g actor ''transfer-group-ownership'' st of
             Inl e \<Rightarrow> (Inl e, st)
           | Inr _ \<Rightarrow>
               if find_account newOwnerId (gs_accounts st) = None then (Inl (HttpException NOT_FOUND ''Account not found''), st)
               else and_then (go_setGroupOwner ops i (Some newOwnerId) st) (\<lambda>_ st1.
                    and_then (grp_audit now (gu_id actor) ''group.owner.changed'' i
                       (Some (owner_json (gr_ownerId g))) (Some (owner_json (Some newOwnerId))) st1) (\<lambda>_ st2.
                    getDetail ops i actor st2))))"

section \<open>Members\<close>

definition column_text :: "string option \<Rightarrow> string" where
  "column_text v = (case v of None \<Rightarrow> [] | Some t \<Rightarrow> t)"

text \<open>\<open>CONCAT_WS(' ', first, last)\<close>, and its trimmed form, null when empty.\<close>

definition concat_ws_name :: "profile option \<Rightarrow> string" where
  "concat_ws_name p = (case p of None \<Rightarrow> []
     | Some r \<Rightarrow> join_with '' '' (map column_text (filter (\<lambda>v. v \<noteq> None) [pr_firstName r, pr_lastName r])))"

definition sql_trim :: "string \<Rightarrow> string" where
  "sql_trim s = rev (dropWhile (\<lambda>c. c = CHR '' '') (rev (dropWhile (\<lambda>c. c = CHR '' '') s)))"

definition member_like :: "group_db \<Rightarrow> string \<Rightarrow> string \<Rightarrow> account \<times> profile option \<Rightarrow> bool" where
  "member_like db term column row =
     (if column = ''email'' then gb_like db (ac_email (fst row)) (''%'' @ term @ ''%'')
      else gb_like db (concat_ws_name (snd row)) (''%'' @ term @ ''%''))"

definition listMembers ::
  "group_db \<Rightarrow> string \<Rightarrow> guard_user \<Rightarrow> pagination_query \<Rightarrow> grp_state \<Rightarrow> (member_item list \<times> nat option, grp_state) outcome" where
  "listMembers db i actor q st =
     (case findOrFail i (Some actor) st of
        Inl e \<Rightarrow> (Inl e, st)
      | Inr g \<Rightarrow>
          (case pq_limit q of
             None \<Rightarrow> (Inr (memberList db i st, None), st)
           | Some limit \<Rightarrow>
               (let sortBy = resolveSortColumn (pq_sortBy q) GROUP_MEMBERS_SORTABLE_COLUMNS ''email'';
                    order = (if sortBy = ''displayName'' then [''lastName'', ''firstName''] else [''email'']);
                    joined = map (\<lambda>a. (a, find_profile (ac_id a) st))
                       (filter (\<lambda>a. \<exists>m \<in> set (members_of i st). gm_accountId m = ac_id a) (gs_accounts st));
                    columns = (case resolveSearchColumn (pq_searchBy q) GROUP_MEMBERS_SEARCHABLE_COLUMNS of
                       None \<Rightarrow> GROUP_MEMBERS_SEARCHABLE_COLUMNS | Some c \<Rightarrow> [c]);
                    matching = (case pq_search q of None \<Rightarrow> joined
                       | Some term \<Rightarrow> if term = [] then joined else filter (\<lambda>r. \<exists>c \<in> set columns. member_like db term c r) joined);
                    rows = page_of (pq_offset q) limit (gb_order_accounts db order (pq_sortDir q = ''asc'') matching)
                in (Inr (map (\<lambda>(a, p). \<lparr>mi_id = ac_id a, mi_email = ac_email a,
                      mi_displayName = (let n = sql_trim (concat_ws_name p) in if n = [] then None else Some n),
                      mi_avatarUrl = (case p of None \<Rightarrow> None | Some r \<Rightarrow> pr_avatarUrl r)\<rparr>) rows, Some (length matching)), st))))"

definition grp_addMember ::
  "guard_ops \<Rightarrow> group_db \<Rightarrow> time \<Rightarrow> string \<Rightarrow> guard_user \<Rightarrow> string \<Rightarrow> grp_state \<Rightarrow> (member_item list, grp_state) outcome" where
  "grp_addMember ops db now i actor accountId st =
     (case findOrFail i (Some actor) st of
        Inl e \<Rightarrow> (Inl e, st)
      | Inr g \<Rightarrow>
          (case assertOwnerOrRootOrPermitted ops g actor ''add-group-member'' st of
             Inl e \<Rightarrow> (Inl e, st)
           | Inr _ \<Rightarrow>
               if find_account accountId (gs_accounts st) = None then (Inl (HttpException NOT_FOUND ''Account not found''), st)
               else (case assertActingUserHolds (utils_at ops st) actor (go_findGroupGlobalPermissions ops i st)
                            (go_findGroupDomainPermissions ops i st) ''Cannot grant a permission you do not hold'' of
                  Inl e \<Rightarrow> (Inl e, st)
                | Inr _ \<Rightarrow> and_then (go_assignAccountToGroup ops now accountId i st) (\<lambda>_ st1. (Inr (memberList db i st1), st1)))))"

fun assign_each :: "guard_ops \<Rightarrow> time \<Rightarrow> string \<Rightarrow> account list \<Rightarrow> grp_state \<Rightarrow> (unit, grp_state) outcome" where
  "assign_each ops now i [] st = (Inr (), st)"
| "assign_each ops now i (a # accs) st =
     and_then (go_assignAccountToGroup ops now (ac_id a) i st) (\<lambda>_ st1. assign_each ops now i accs st1)"

definition grp_addMembers ::
  "guard_ops \<Rightarrow> time \<Rightarrow> string \<Rightarrow> guard_user \<Rightarrow> string list \<Rightarrow> grp_state \<Rightarrow> (nat, grp_state) outcome" where
  "grp_addMembers ops now i actor accountIds st =
     (case findOrFail i (Some actor) st of
        Inl e \<Rightarrow> (Inl e, st)
      | Inr g \<Rightarrow>
          (case assertOwnerOrRootOrPermitted ops g actor ''add-group-member'' st of
             Inl e \<Rightarrow> (Inl e, st)
           | Inr _ \<Rightarrow>
               (let ids = remdups accountIds; accs = filter (\<lambda>a. ac_id a \<in> set ids) (gs_accounts st)
                in if length accs \<noteq> length ids then (Inl (HttpException NOT_FOUND ''One or more accounts do not exist''), st)
                   else (case assertActingUserHolds (utils_at ops st) actor (go_findGroupGlobalPermissions ops i st)
                                (go_findGroupDomainPermissions ops i st) ''Cannot grant a permission you do not hold'' of
                      Inl e \<Rightarrow> (Inl e, st)
                    | Inr _ \<Rightarrow> and_then (assign_each ops now i accs st) (\<lambda>_ st1. (Inr (length accs), st1))))))"

definition grp_removeMember ::
  "guard_ops \<Rightarrow> group_db \<Rightarrow> string \<Rightarrow> guard_user \<Rightarrow> string \<Rightarrow> grp_state \<Rightarrow> (member_item list, grp_state) outcome" where
  "grp_removeMember ops db i actor accountId st =
     (case findOrFail i (Some actor) st of
        Inl e \<Rightarrow> (Inl e, st)
      | Inr g \<Rightarrow>
          (case assertOwnerOrRootOrPermitted ops g actor ''remove-group-member'' st of
             Inl e \<Rightarrow> (Inl e, st)
           | Inr _ \<Rightarrow>
               if \<not> (\<exists>m \<in> set (gs_members st). gm_accountId m = accountId \<and> gm_groupId m = i)
               then (Inl (HttpException NOT_FOUND ''Account is not a member of group''), st)
               else and_then (go_removeAccountFromGroup ops accountId i st) (\<lambda>_ st1. (Inr (memberList db i st1), st1))))"

definition grp_addAllAccounts ::
  "guard_ops \<Rightarrow> group_db \<Rightarrow> time \<Rightarrow> string \<Rightarrow> guard_user \<Rightarrow> grp_state \<Rightarrow> (member_item list, grp_state) outcome" where
  "grp_addAllAccounts ops db now i actor st =
     (if \<not> gu_isRoot actor then (Inl (HttpException FORBIDDEN ''Only a root account can assign every account to a group''), st)
      else case findOrFail i (Some actor) st of
        Inl e \<Rightarrow> (Inl e, st)
      | Inr g \<Rightarrow>
          and_then (assign_each ops now i (gs_accounts st) st) (\<lambda>_ st1.
          and_then (grp_audit now (gu_id actor) ''group.members.assigned-all'' i None
             (Some (JObj [(''count'', JNum (int (length (gs_accounts st))))])) st1) (\<lambda>_ st2.
          (Inr (memberList db i st2), st2))))"

fun remove_each :: "guard_ops \<Rightarrow> string \<Rightarrow> group_member list \<Rightarrow> grp_state \<Rightarrow> (unit, grp_state) outcome" where
  "remove_each ops i [] st = (Inr (), st)"
| "remove_each ops i (m # ms) st =
     and_then (go_removeAccountFromGroup ops (gm_accountId m) i st) (\<lambda>_ st1. remove_each ops i ms st1)"

definition grp_removeAllMembers ::
  "guard_ops \<Rightarrow> group_db \<Rightarrow> time \<Rightarrow> string \<Rightarrow> guard_user \<Rightarrow> grp_state \<Rightarrow> (member_item list, grp_state) outcome" where
  "grp_removeAllMembers ops db now i actor st =
     (if \<not> gu_isRoot actor then (Inl (HttpException FORBIDDEN ''Only a root account can remove every member of a group''), st)
      else case findOrFail i (Some actor) st of
        Inl e \<Rightarrow> (Inl e, st)
      | Inr g \<Rightarrow>
          (let rows = members_of i st
           in and_then (remove_each ops i rows st) (\<lambda>_ st1.
              and_then (grp_audit now (gu_id actor) ''group.members.removed-all'' i
                 (Some (JObj [(''count'', JNum (int (length rows)))])) None st1) (\<lambda>_ st2.
              (Inr (memberList db i st2), st2)))))"

section \<open>What each step leaves\<close>

lemma findOrFail_Inr:
  "findOrFail i (Some u) st = Inr g \<longleftrightarrow> find_group i st = Some g \<and> (gu_isRoot u \<or> gr_isInvisible g \<noteq> 1)"
  by (auto simp: findOrFail_def split: option.splits if_splits)

lemma grp_audit_ok [simp]: "\<exists>st'. grp_audit now a act i b c st = (Inr (), st') \<and> st' = st\<lparr>gs_audit := gs_audit st'\<rparr>"
  by (simp add: grp_audit_def)

lemma grp_audit_Inr:
  "grp_audit now a act i b c st = (r, st') \<Longrightarrow> r = Inr () \<and> (\<exists>rows. st' = st\<lparr>gs_audit := rows\<rparr>)"
  by (auto simp: grp_audit_def)

lemma getDetail_state: "getDetail ops i u st = (r, st') \<Longrightarrow> st' = st"
  by (auto simp: getDetail_def Let_def split: sum.splits)

lemma find_perms_audit [simp]:
  "db_findGlobalPermissions j (st\<lparr>gs_audit := rows\<rparr>) = db_findGlobalPermissions j st"
  "db_findDomainPermissions j (st\<lparr>gs_audit := rows\<rparr>) = db_findDomainPermissions j st"
  "find_group j (st\<lparr>gs_audit := rows\<rparr>) = find_group j st"
  by (simp_all add: db_findGlobalPermissions_def db_findDomainPermissions_def find_group_def)

lemma write_global:
  assumes "writeGlobalPermissions i ps st = (Inr (), st')"
  shows "db_findGlobalPermissions i st' = ps"
    "j \<noteq> i \<Longrightarrow> db_findGlobalPermissions j st' = db_findGlobalPermissions j st"
proof -
  have st': "gs_globalPerms st' = delete_where (\<lambda>p. gg_groupId p = i) (gs_globalPerms st)
          @ map (\<lambda>(r, a). \<lparr>gg_groupId = i, gg_resource = r, gg_action = a\<rparr>) ps"
    using assms by (auto simp: writeGlobalPermissions_def split: if_splits)
  have mine: "filter (\<lambda>p. gg_groupId p = i) (map (\<lambda>(r, a). \<lparr>gg_groupId = i, gg_resource = r, gg_action = a\<rparr>) qs)
      = map (\<lambda>(r, a). \<lparr>gg_groupId = i, gg_resource = r, gg_action = a\<rparr>) qs" for qs
    by (induction qs) auto
  show "db_findGlobalPermissions i st' = ps"
    by (simp add: db_findGlobalPermissions_def st' mine delete_where_def filter_empty_conv comp_def case_prod_beta)
  assume "j \<noteq> i"
  then have none: "filter (\<lambda>p. gg_groupId p = j) (map (\<lambda>(r, a). \<lparr>gg_groupId = i, gg_resource = r, gg_action = a\<rparr>) qs) = []" for qs
    by (induction qs) auto
  have "filter (\<lambda>p. gg_groupId p = j) (delete_where (\<lambda>p. gg_groupId p = i) rows) = filter (\<lambda>p. gg_groupId p = j) rows"
    for rows :: "group_global_permission list"
    using \<open>j \<noteq> i\<close> by (induction rows) (auto simp: delete_where_def)
  then show "db_findGlobalPermissions j st' = db_findGlobalPermissions j st"
    by (simp add: db_findGlobalPermissions_def st' none)
qed

lemma write_domain:
  assumes "db_setGroupDomainPermissions i ps st = (Inr (), st')"
  shows "db_findDomainPermissions i st' = ps"
    "j \<noteq> i \<Longrightarrow> db_findDomainPermissions j st' = db_findDomainPermissions j st"
proof -
  have st': "gs_domainPerms st' = delete_where (\<lambda>p. gd_groupId p = i) (gs_domainPerms st)
          @ map (\<lambda>(d, r, a). \<lparr>gd_groupId = i, gd_domainId = d, gd_resource = r, gd_action = a\<rparr>) ps"
    using assms by (auto simp: db_setGroupDomainPermissions_def split: if_splits)
  have mine: "filter (\<lambda>p. gd_groupId p = i) (map (\<lambda>(d, r, a). \<lparr>gd_groupId = i, gd_domainId = d, gd_resource = r, gd_action = a\<rparr>) qs)
      = map (\<lambda>(d, r, a). \<lparr>gd_groupId = i, gd_domainId = d, gd_resource = r, gd_action = a\<rparr>) qs" for qs
    by (induction qs) auto
  show "db_findDomainPermissions i st' = ps"
    by (simp add: db_findDomainPermissions_def st' mine delete_where_def filter_empty_conv comp_def case_prod_beta)
  assume "j \<noteq> i"
  then have none: "filter (\<lambda>p. gd_groupId p = j) (map (\<lambda>(d, r, a). \<lparr>gd_groupId = i, gd_domainId = d, gd_resource = r, gd_action = a\<rparr>) qs) = []" for qs
    by (induction qs) auto
  have "filter (\<lambda>p. gd_groupId p = j) (delete_where (\<lambda>p. gd_groupId p = i) rows) = filter (\<lambda>p. gd_groupId p = j) rows"
    for rows :: "group_domain_permission list"
    using \<open>j \<noteq> i\<close> by (induction rows) (auto simp: delete_where_def)
  then show "db_findDomainPermissions j st' = db_findDomainPermissions j st"
    by (simp add: db_findDomainPermissions_def st' none)
qed

lemma lawful_finds:
  assumes "guard_lawful ops"
  shows "go_findGroupGlobalPermissions ops = db_findGlobalPermissions"
    "go_findGroupDomainPermissions ops = db_findDomainPermissions"
    "go_assignAccountToGroup ops = db_assignAccountToGroup"
    "go_removeAccountFromGroup ops = db_removeAccountFromGroup"
    "go_createGroup ops = db_createGroup" "go_updateGroup ops = db_updateGroup"
    "go_setGroupOwner ops = db_setGroupOwner" "go_setDefaultGroup ops = db_setDefaultGroup"
    "go_setGroupProtected ops = db_setGroupProtected"
  using assms by (simp_all add: guard_lawful_def)

lemma lawful_set_global:
  assumes "guard_lawful ops" "go_setGroupGlobalPermissions ops i ps st = (Inr (), st')"
  obtains keep where "writeGlobalPermissions i (filter keep ps) st = (Inr (), st')"
proof -
  from assms(1) have "(\<exists>keep. go_setGroupGlobalPermissions ops i ps st = writeGlobalPermissions i (filter keep ps) st)
      \<or> (\<exists>e. go_setGroupGlobalPermissions ops i ps st = (Inl e, st))"
    by (simp add: guard_lawful_def)
  with assms(2) that show thesis by auto
qed

lemma lawful_set_domain:
  assumes "guard_lawful ops" "go_setGroupDomainPermissions ops i ps st = (Inr (), st')"
  obtains keep where "db_setGroupDomainPermissions i (filter keep ps) st = (Inr (), st')"
proof -
  from assms(1) have "(\<exists>keep. go_setGroupDomainPermissions ops i ps st = db_setGroupDomainPermissions i (filter keep ps) st)
      \<or> (\<exists>e. go_setGroupDomainPermissions ops i ps st = (Inl e, st))"
    by (simp add: guard_lawful_def)
  with assms(2) that show thesis by auto
qed

section \<open>Editing permissions\<close>

definition change_allowed :: "('p \<Rightarrow> bool) \<Rightarrow> 'p list \<Rightarrow> 'p list \<Rightarrow> 'p list \<Rightarrow> bool" where
  "change_allowed holds before asked after =
     ((\<forall>p \<in> set after. p \<in> set before \<or> holds p)
      \<and> (\<forall>p \<in> set before. p \<in> set after \<or> holds p \<or> p \<in> set asked))"

lemma set_global_allowed:
  assumes ok: "guard_lawful ops" "holds_in h ops" "\<not> gu_isRoot actor"
    and run: "grp_setGlobalPermissions ops now i actor ps st = (Inr d, st')"
  shows "change_allowed (ho_global (h st) (gu_id actor)) (db_findGlobalPermissions i st) ps (db_findGlobalPermissions i st')"
    "j \<noteq> i \<Longrightarrow> db_findGlobalPermissions j st' = db_findGlobalPermissions j st"
proof -
  let ?before = "db_findGlobalPermissions i st"
  have law: "utils_lawful (h st) (utils_at ops st)" using ok(2) by (simp add: holds_in_def)
  from run ok(3) have asked: "assertActingUserCanReplace (utils_at ops st) actor ?before ps [] [] = Inr ()"
    by (auto simp: grp_setGlobalPermissions_def Let_def lawful_finds [OF ok(1)] split: sum.splits)
  with run ok(3) obtain st1 where set: "go_setGroupGlobalPermissions ops i ps st = (Inr (), st1)"
    and rest: "and_then (grp_audit now (gu_id actor) ''group.permissions.set'' i
       (Some (global_json ?before)) (Some (global_json ps)) st1) (\<lambda>_ st2. getDetail ops i actor st2) = (Inr d, st')"
    by (auto simp: grp_setGlobalPermissions_def Let_def lawful_finds [OF ok(1)] and_then_Inr split: sum.splits)
  from rest obtain rows where st': "st' = st1\<lparr>gs_audit := rows\<rparr>"
    by (auto simp: and_then_Inr dest!: getDetail_state grp_audit_Inr)
  from lawful_set_global [OF ok(1) set] obtain keep where w: "writeGlobalPermissions i (filter keep ps) st = (Inr (), st1)" .
  have held: "\<forall>p. (p \<in> set ?before) \<noteq> (p \<in> set ps) \<longrightarrow> ho_global (h st) (gu_id actor) p"
    using asked ok(3) replace_iff [OF law] by blast
  have after: "db_findGlobalPermissions i st' = filter keep ps" using write_global(1) [OF w] by (simp add: st')
  show "change_allowed (ho_global (h st) (gu_id actor)) ?before ps (db_findGlobalPermissions i st')"
    unfolding change_allowed_def after set_filter using held by blast
  show "j \<noteq> i \<Longrightarrow> db_findGlobalPermissions j st' = db_findGlobalPermissions j st"
    using write_global(2) [OF w] by (simp add: st')
qed

lemma set_domain_allowed:
  assumes ok: "guard_lawful ops" "holds_in h ops" "\<not> gu_isRoot actor"
    and run: "grp_setDomainPermissions ops now i actor ps st = (Inr d, st')"
  shows "change_allowed (ho_domain (h st) (gu_id actor)) (db_findDomainPermissions i st) ps (db_findDomainPermissions i st')"
    "j \<noteq> i \<Longrightarrow> db_findDomainPermissions j st' = db_findDomainPermissions j st"
proof -
  let ?before = "db_findDomainPermissions i st"
  have law: "utils_lawful (h st) (utils_at ops st)" using ok(2) by (simp add: holds_in_def)
  from run have asked: "assertActingUserCanReplace (utils_at ops st) actor [] [] ?before ps = Inr ()"
    by (auto simp: grp_setDomainPermissions_def Let_def lawful_finds [OF ok(1)] split: sum.splits if_splits)
  with run obtain st1 where set: "go_setGroupDomainPermissions ops i ps st = (Inr (), st1)"
    and rest: "and_then (grp_audit now (gu_id actor) ''group.permissions.set'' i
       (Some (domain_json ?before)) (Some (domain_json ps)) st1) (\<lambda>_ st2. getDetail ops i actor st2) = (Inr d, st')"
    by (auto simp: grp_setDomainPermissions_def Let_def lawful_finds [OF ok(1)] and_then_Inr split: sum.splits if_splits)
  from rest obtain rows where st': "st' = st1\<lparr>gs_audit := rows\<rparr>"
    by (auto simp: and_then_Inr dest!: getDetail_state grp_audit_Inr)
  from lawful_set_domain [OF ok(1) set] obtain keep where w: "db_setGroupDomainPermissions i (filter keep ps) st = (Inr (), st1)" .
  have held: "\<forall>p. (p \<in> set ?before) \<noteq> (p \<in> set ps) \<longrightarrow> ho_domain (h st) (gu_id actor) p"
    using asked ok(3) replace_iff [OF law] by blast
  have after: "db_findDomainPermissions i st' = filter keep ps" using write_domain(1) [OF w] by (simp add: st')
  show "change_allowed (ho_domain (h st) (gu_id actor)) ?before ps (db_findDomainPermissions i st')"
    unfolding change_allowed_def after set_filter using held by blast
  show "j \<noteq> i \<Longrightarrow> db_findDomainPermissions j st' = db_findDomainPermissions j st"
    using write_domain(2) [OF w] by (simp add: st')
qed

text \<open>C15: No group edit lets a non-root account rise above itself (\<open>GroupsService.setGlobalPermissions\<close> and
  \<open>setDomainPermissions\<close>): after an accepted call, every permission the group has gained is one the account
  holds, and every permission it has lost is one the account holds or one the request kept and the library's
  clean-up dropped; no other group's permissions of that tier change.\<close>
theorem group_edit_never_escalates:
  assumes "guard_lawful ops" and "holds_in h ops" and "\<not> gu_isRoot actor"
  shows "(grp_setGlobalPermissions ops now i actor gps st = (Inr d, st') \<longrightarrow>
      change_allowed (ho_global (h st) (gu_id actor)) (db_findGlobalPermissions i st) gps (db_findGlobalPermissions i st')
      \<and> (\<forall>j. j \<noteq> i \<longrightarrow> db_findGlobalPermissions j st' = db_findGlobalPermissions j st))
    \<and> (grp_setDomainPermissions ops now i actor dps st = (Inr d, st') \<longrightarrow>
      change_allowed (ho_domain (h st) (gu_id actor)) (db_findDomainPermissions i st) dps (db_findDomainPermissions i st')
      \<and> (\<forall>j. j \<noteq> i \<longrightarrow> db_findDomainPermissions j st' = db_findDomainPermissions j st))"
  by (simp add: set_global_allowed [OF assms] set_domain_allowed [OF assms])

section \<open>Members\<close>

definition member_pairs :: "grp_state \<Rightarrow> (string \<times> string) list" where
  "member_pairs st = map (\<lambda>m. (gm_groupId m, gm_accountId m)) (gs_members st)"

lemma assign_pairs:
  "db_assignAccountToGroup now a i st = (Inr u, st') \<Longrightarrow>
     set (member_pairs st') = insert (i, a) (set (member_pairs st))
     \<and> (distinct (member_pairs st) \<longrightarrow> distinct (member_pairs st'))"
  by (auto simp: db_assignAccountToGroup_def member_pairs_def image_iff split: if_splits)

lemma assign_each_pairs:
  assumes "go_assignAccountToGroup ops = db_assignAccountToGroup"
  shows "assign_each ops now i accs st = (Inr u, st') \<Longrightarrow>
     set (member_pairs st') = (\<lambda>a. (i, ac_id a)) ` set accs \<union> set (member_pairs st)
     \<and> (distinct (member_pairs st) \<longrightarrow> distinct (member_pairs st'))"
proof (induction accs arbitrary: st)
  case (Cons a accs)
  obtain v st1 where one: "db_assignAccountToGroup now (ac_id a) i st = (Inr v, st1)"
    and rest: "assign_each ops now i accs st1 = (Inr u, st')"
    using Cons.prems by (auto simp: assms and_then_Inr)
  from Cons.IH [OF rest] assign_pairs [OF one] show ?case by auto
qed simp

text \<open>C16: Joining a group gives all it carries, so a non-root account may add members to a group
  (\<open>addMember\<close>, \<open>addMembers\<close>) only when it owns the group or holds \<open>groups:add-group-member\<close>, and
  also holds every permission of both tiers the group carries; the members added are accounts that exist, the
  others stay, and a membership is never held twice.\<close>
theorem joining_needs_holding:
  assumes "guard_lawful ops" and "holds_in h ops" and "\<not> gu_isRoot actor"
    and "grp_addMember ops db now i actor a st = (Inr r, st') \<and> joined = {a}
       \<or> grp_addMembers ops now i actor as st = (Inr n, st') \<and> joined = set as"
  shows "\<exists>g. find_group i st = Some g \<and> gr_isInvisible g \<noteq> 1
      \<and> (gr_ownerId g = Some (gu_id actor) \<or> go_check_global ops (gu_id actor) ''groups'' ''add-group-member'' st)
      \<and> (\<forall>p \<in> set (db_findGlobalPermissions i st). ho_global (h st) (gu_id actor) p)
      \<and> (\<forall>p \<in> set (db_findDomainPermissions i st). ho_domain (h st) (gu_id actor) p)
      \<and> set (member_pairs st') = Pair i ` {x \<in> joined. \<exists>acc \<in> set (gs_accounts st). ac_id acc = x} \<union> set (member_pairs st)
      \<and> (distinct (member_pairs st) \<longrightarrow> distinct (member_pairs st'))"
proof -
  note finds = lawful_finds [OF assms(1)]
  have law: "utils_lawful (h st) (utils_at ops st)" using assms(2) by (simp add: holds_in_def)
  have owner: "assertOwnerOrRootOrPermitted ops g actor act st = Inr () \<longleftrightarrow>
      gr_ownerId g = Some (gu_id actor) \<or> go_check_global ops (gu_id actor) ''groups'' act st" for g act
    using assms(3) by (simp add: assertOwnerOrRootOrPermitted_def)
  from assms(4) consider
      (one) "grp_addMember ops db now i actor a st = (Inr r, st')" "joined = {a}"
    | (many) "grp_addMembers ops now i actor as st = (Inr n, st')" "joined = set as" by blast
  then show ?thesis
  proof cases
    case one
    then obtain g where g: "findOrFail i (Some actor) st = Inr g"
      "assertOwnerOrRootOrPermitted ops g actor ''add-group-member'' st = Inr ()"
      "assertActingUserHolds (utils_at ops st) actor (db_findGlobalPermissions i st) (db_findDomainPermissions i st)
          ''Cannot grant a permission you do not hold'' = Inr ()"
      "find_account a (gs_accounts st) \<noteq> None" "db_assignAccountToGroup now a i st = (Inr (), st')"
      by (auto simp: grp_addMember_def finds and_then_Inr split: sum.splits if_splits)
    from g(4) obtain acc where "acc \<in> set (gs_accounts st)" "ac_id acc = a"
      by (auto simp: find_account_def find_None_iff)
    then have "Pair i ` {x \<in> joined. \<exists>acc \<in> set (gs_accounts st). ac_id acc = x} = {(i, a)}" using one(2) by auto
    with g assign_pairs [OF g(5)] assms(3) show ?thesis
      by (auto simp: findOrFail_Inr holds_iff [OF law] owner)
  next
    case many
    let ?accs = "filter (\<lambda>x. ac_id x \<in> set as) (gs_accounts st)"
    from many obtain g where g: "findOrFail i (Some actor) st = Inr g"
      "assertOwnerOrRootOrPermitted ops g actor ''add-group-member'' st = Inr ()"
      "assertActingUserHolds (utils_at ops st) actor (db_findGlobalPermissions i st) (db_findDomainPermissions i st)
          ''Cannot grant a permission you do not hold'' = Inr ()"
      "assign_each ops now i ?accs st = (Inr (), st')"
      by (auto simp: grp_addMembers_def finds and_then_Inr Let_def split: sum.splits if_splits)
    have "Pair i ` {x \<in> joined. \<exists>acc \<in> set (gs_accounts st). ac_id acc = x} = (\<lambda>a. (i, ac_id a)) ` set ?accs"
      using many(2) by auto
    with g assign_each_pairs [OF finds(3) g(4)] assms(3) show ?thesis
      by (auto simp: findOrFail_Inr holds_iff [OF law] owner)
  qed
qed

section \<open>Deleting a group\<close>

lemma delete_where_other:
  "j \<noteq> i \<Longrightarrow> filter (\<lambda>x. k x = j) (delete_where (\<lambda>x. k x = i) rows) = filter (\<lambda>x. k x = j) rows"
  by (induction rows) (auto simp: delete_where_def)

lemma deleted_group:
  assumes "db_deleteGroup i st = (Inr (), st')"
  shows "find_group i st' = None" "members_of i st' = []"
    "db_findGlobalPermissions i st' = []" "db_findDomainPermissions i st' = []"
    "j \<noteq> i \<Longrightarrow> find_group j st' = find_group j st"
    "j \<noteq> i \<Longrightarrow> members_of j st' = members_of j st"
    "j \<noteq> i \<Longrightarrow> db_findGlobalPermissions j st' = db_findGlobalPermissions j st"
    "j \<noteq> i \<Longrightarrow> db_findDomainPermissions j st' = db_findDomainPermissions j st"
proof -
  have st': "st' = st\<lparr>gs_groups := delete_where (\<lambda>g. gr_id g = i) (gs_groups st),
        gs_members := delete_where (\<lambda>m. gm_groupId m = i) (gs_members st),
        gs_globalPerms := delete_where (\<lambda>p. gg_groupId p = i) (gs_globalPerms st),
        gs_domainPerms := delete_where (\<lambda>p. gd_groupId p = i) (gs_domainPerms st)\<rparr>"
    using assms by (simp add: db_deleteGroup_def)
  show "find_group i st' = None" "members_of i st' = []"
    "db_findGlobalPermissions i st' = []" "db_findDomainPermissions i st' = []"
    by (simp_all add: st' find_group_def members_of_def db_findGlobalPermissions_def db_findDomainPermissions_def
        delete_where_def filter_empty_conv find_None_iff)
  assume "j \<noteq> i"
  then show "find_group j st' = find_group j st" "members_of j st' = members_of j st"
    "db_findGlobalPermissions j st' = db_findGlobalPermissions j st"
    "db_findDomainPermissions j st' = db_findDomainPermissions j st"
    by (simp_all add: st' find_group_def members_of_def db_findGlobalPermissions_def db_findDomainPermissions_def
        find_delete_other delete_where_other)
qed

definition group_untouched :: "string \<Rightarrow> grp_state \<Rightarrow> grp_state \<Rightarrow> bool" where
  "group_untouched j st st' = (find_group j st' = find_group j st \<and> members_of j st' = members_of j st
     \<and> db_findGlobalPermissions j st' = db_findGlobalPermissions j st
     \<and> db_findDomainPermissions j st' = db_findDomainPermissions j st)"

lemma members_audit [simp]: "members_of j (st\<lparr>gs_audit := rows\<rparr>) = members_of j st"
  by (simp add: members_of_def)

lemma lawful_delete:
  assumes "guard_lawful ops"
  shows "go_deleteGroup ops i st = db_deleteGroup i st \<or> (\<exists>e. go_deleteGroup ops i st = (Inl e, st))"
  using assms by (simp add: guard_lawful_def)

text \<open>Deleting a group (\<open>GroupsService.remove\<close>): an accepted call was made on a group that is not
  protected, whoever asks, root included, and by root or by an account to which the group is visible and which
  holds every global permission it carries; nothing of the group is left in the four tables and no other group
  loses anything. A refused call changes nothing.\<close>
theorem group_deletion_rules:
  assumes "guard_lawful ops" and "holds_in h ops" and "grp_remove ops now i actor st = (r, st')"
  shows "case r of
      Inl e \<Rightarrow> st' = st
    | Inr _ \<Rightarrow> (\<exists>g. find_group i st = Some g \<and> gr_isProtected g \<noteq> 1
         \<and> (gu_isRoot actor \<or> gr_isInvisible g \<noteq> 1
              \<and> (\<forall>p \<in> set (db_findGlobalPermissions i st). ho_global (h st) (gu_id actor) p)))
        \<and> find_group i st' = None \<and> members_of i st' = []
        \<and> db_findGlobalPermissions i st' = [] \<and> db_findDomainPermissions i st' = []
        \<and> (\<forall>j. j \<noteq> i \<longrightarrow> group_untouched j st st')"
proof (cases r)
  case (Inl e)
  have never: "db_deleteGroup i st \<noteq> (Inl x, y)" "(Inl x, y) \<noteq> db_deleteGroup i st" for x y
    by (simp_all add: db_deleteGroup_def)
  from Inl assms(3) lawful_delete [OF assms(1), of i st] show ?thesis
    by (auto simp: grp_remove_def Let_def and_then_Inl never dest!: grp_audit_Inr split: sum.splits if_splits)
next
  case (Inr u)
  have law: "utils_lawful (h st) (utils_at ops st)" using assms(2) by (simp add: holds_in_def)
  from Inr assms(3) obtain g st1 rows where g: "findOrFail i (Some actor) st = Inr g" "gr_isProtected g \<noteq> 1"
    "assertActingUserHolds (utils_at ops st) actor (db_findGlobalPermissions i st) []
        ''Cannot delete a group carrying permissions you do not hold'' = Inr ()"
    and del: "(if gu_isRoot actor then db_deleteGroup i st else go_deleteGroup ops i st) = (Inr (), st1)"
    and st': "st' = st1\<lparr>gs_audit := rows\<rparr>"
    by (auto simp: grp_remove_def Let_def and_then_Inr lawful_finds [OF assms(1)] dest!: grp_audit_Inr
        split: sum.splits if_splits)
  have del': "db_deleteGroup i st = (Inr (), st1)"
    using del lawful_delete [OF assms(1), of i st] by (auto split: if_splits)
  show ?thesis
    using g deleted_group [OF del'] Inr
    by (auto simp: findOrFail_Inr holds_iff [OF law] st' group_untouched_def)
qed

section \<open>Invisible groups\<close>

definition orders_rows :: "group_db \<Rightarrow> bool" where
  "orders_rows db = ((\<forall>c asc rows. set (gb_order_groups db c asc rows) = set rows)
     \<and> (\<forall>c asc rows. set (gb_order_accounts db c asc rows) = set rows))"

lemma set_page: "set (page_of off n rows) \<subseteq> set rows"
  by (auto simp: page_of_def dest: in_set_takeD in_set_dropD)

lemma enriched_ids: "gi_id ` set (enrichGroups rows st) = gr_id ` set rows"
  by (auto simp: enrichGroups_def image_iff)

lemma list_ids:
  assumes "orders_rows db"
  shows "gi_id ` set (fst (grp_list db actor q st))
    \<subseteq> gr_id ` {g \<in> set (gs_groups st). gu_isRoot actor \<or> gr_isInvisible g = 0}"
proof -
  let ?base = "filter (\<lambda>g. gu_isRoot actor \<or> gr_isInvisible g = 0) (gs_groups st)"
  have order: "set (gb_order_groups db c asc rows) = set rows" for c asc rows
    using assms by (simp add: orders_rows_def)
  have page: "set (page_of off n (gb_order_groups db c asc rows)) \<subseteq> set rows" for off n c asc rows
    using set_page [of off n "gb_order_groups db c asc rows"] unfolding order .
  have "\<exists>rows. fst (grp_list db actor q st) = enrichGroups rows st \<and> set rows \<subseteq> set ?base"
  proof (cases "pq_limit q")
    case None
    then show ?thesis by (auto simp: grp_list_def order)
  next
    case (Some n)
    then show ?thesis
      unfolding grp_list_def Let_def Some option.case fst_conv
      by (cases "pq_search q") (auto intro!: exI dest!: subsetD [OF page])
  qed
  then obtain rows where "fst (grp_list db actor q st) = enrichGroups rows st" "set rows \<subseteq> set ?base" by blast
  then show ?thesis by (auto simp: enriched_ids)
qed

text \<open>An invisible group does not exist for an account that is not root: it is in no list, and reading,
  editing, deleting or transferring it, setting its permissions, listing, adding or removing its members answer
  as for an identifier no group has, whatever the account owns or holds, and change nothing; the two
  operations on every account at once are refused before the group is read.\<close>
theorem invisible_group_hidden:
  assumes "\<not> gu_isRoot actor" and "\<forall>g \<in> set (gs_groups st). gr_id g = i \<longrightarrow> gr_isInvisible g = 1"
    and "orders_rows db"
  defines "gone \<equiv> HttpException NOT_FOUND ''Group not found''"
  shows "i \<notin> gi_id ` set (fst (grp_list db actor q st))
    \<and> getDetail ops i actor st = (Inl gone, st)
    \<and> grp_update ops now i actor input st = (Inl gone, st)
    \<and> grp_remove ops now i actor st = (Inl gone, st)
    \<and> grp_setGlobalPermissions ops now i actor gps st = (Inl gone, st)
    \<and> grp_setDomainPermissions ops now i actor dps st = (Inl gone, st)
    \<and> grp_updateOwner ops now i actor a st = (Inl gone, st)
    \<and> listMembers db i actor q st = (Inl gone, st)
    \<and> grp_addMember ops db now i actor a st = (Inl gone, st)
    \<and> grp_addMembers ops now i actor as st = (Inl gone, st)
    \<and> grp_removeMember ops db i actor a st = (Inl gone, st)
    \<and> (\<exists>e. err_status e = FORBIDDEN \<and> grp_addAllAccounts ops db now i actor st = (Inl e, st))
    \<and> (\<exists>e. err_status e = FORBIDDEN \<and> grp_removeAllMembers ops db now i actor st = (Inl e, st))"
proof -
  have gone: "findOrFail i (Some actor) st = Inl gone"
  proof (cases "find_group i st")
    case None
    then show ?thesis by (simp add: findOrFail_def gone_def)
  next
    case (Some g)
    then have "gr_isInvisible g = 1" using assms(2) find_in_set by (force simp: find_group_def)
    with Some assms(1) show ?thesis by (simp add: findOrFail_def gone_def)
  qed
  have "i \<notin> gr_id ` {g \<in> set (gs_groups st). gu_isRoot actor \<or> gr_isInvisible g = 0}"
    using assms(1,2) by auto
  then have "i \<notin> gi_id ` set (fst (grp_list db actor q st))" using list_ids [OF assms(3)] by blast
  then show ?thesis
    using assms(1)
    by (simp add: gone getDetail_def grp_update_def grp_remove_def grp_setGlobalPermissions_def
        grp_setDomainPermissions_def grp_updateOwner_def listMembers_def grp_addMember_def grp_addMembers_def
        grp_removeMember_def grp_addAllAccounts_def grp_removeAllMembers_def)
qed

section \<open>The tables stay sound\<close>

definition groups_ok :: "string list \<Rightarrow> grp_state \<Rightarrow> bool" where
  "groups_ok ids st = (map gr_id (gs_groups st) = ids \<and> distinct ids
     \<and> distinct (map gr_name (gs_groups st))
     \<and> length (filter (\<lambda>g. gr_isDefault g = 1) (gs_groups st)) \<le> 1
     \<and> distinct (member_pairs st) \<and> fst ` set (member_pairs st) \<subseteq> set ids
     \<and> distinct (map (\<lambda>p. (gg_groupId p, gg_resource p, gg_action p)) (gs_globalPerms st))
     \<and> gg_groupId ` set (gs_globalPerms st) \<subseteq> set ids
     \<and> distinct (map (\<lambda>p. (gd_groupId p, gd_domainId p, gd_resource p, gd_action p)) (gs_domainPerms st))
     \<and> gd_groupId ` set (gs_domainPerms st) \<subseteq> set ids)"

lemma one_of_key: "distinct (map f xs) \<Longrightarrow> length (filter (\<lambda>x. f x = k) xs) \<le> 1"
  by (induction xs) (auto simp: filter_empty_conv image_iff)

lemma map_update_where: "(\<And>x. k (f x) = k x) \<Longrightarrow> map k (update_where P f rows) = map k rows"
  by (simp add: update_where_def)

lemma groups_ok_patch:
  assumes "groups_ok ids st" "\<And>g. gr_id (f g) = gr_id g" "\<And>g. gr_isDefault (f g) = gr_isDefault g"
    "distinct (map gr_name (gs_groups (patch_group i f st)))"
  shows "groups_ok ids (patch_group i f st)"
proof -
  have "length (filter (\<lambda>g. gr_isDefault g = 1) (update_where P f rows)) = length (filter (\<lambda>g. gr_isDefault g = 1) rows)" for P rows
    using assms(3) by (induction rows) (auto simp: update_where_def)
  with assms show ?thesis
    by (simp add: groups_ok_def patch_group_def member_pairs_def map_update_where)
qed

lemma groups_ok_patch_same_name:
  assumes "groups_ok ids st" "\<And>g. gr_id (f g) = gr_id g" "\<And>g. gr_isDefault (f g) = gr_isDefault g" "\<And>g. gr_name (f g) = gr_name g"
  shows "groups_ok ids (patch_group i f st)"
  by (rule groups_ok_patch) (use assms in \<open>simp_all add: patch_group_def map_update_where groups_ok_def\<close>)

lemma groups_ok_default:
  assumes "groups_ok ids st"
  shows "groups_ok ids (snd (db_setDefaultGroup k st))"
proof -
  let ?clear = "update_where (\<lambda>g. gr_isDefault g = 1) (\<lambda>g. g\<lparr>gr_isDefault := 0\<rparr>) (gs_groups st)"
  have none: "filter (\<lambda>g. gr_isDefault g = 1) (update_where (\<lambda>g. gr_isDefault g = 1) (\<lambda>g. g\<lparr>gr_isDefault := 0\<rparr>) rows) = []"
    for rows :: "acl_group list" by (induction rows) (auto simp: update_where_def)
  have ids: "map gr_id ?clear = ids" "map gr_name ?clear = map gr_name (gs_groups st)" "distinct (map gr_id ?clear)"
    using assms by (simp_all add: groups_ok_def map_update_where)
  have le: "length (filter (\<lambda>g. gr_isDefault g = 1) (update_where (\<lambda>g. gr_id g = i) (\<lambda>g. g\<lparr>gr_isDefault := 1\<rparr>) rows))
      \<le> length (filter (\<lambda>g. gr_id g = i) rows)" if "filter (\<lambda>g. gr_isDefault g = 1) rows = []" for i and rows :: "acl_group list"
    using that by (induction rows) (auto simp: update_where_def split: if_splits)
  have one: "length (filter (\<lambda>g. gr_isDefault g = 1) (update_where (\<lambda>g. gr_id g = i) (\<lambda>g. g\<lparr>gr_isDefault := 1\<rparr>) ?clear)) \<le> 1" for i
    using le [OF none] one_of_key [OF ids(3), of i] le_trans by blast
  have "groups_ok ids st \<Longrightarrow> map gr_id gs' = ids \<Longrightarrow> map gr_name gs' = map gr_name (gs_groups st) \<Longrightarrow>
      length (filter (\<lambda>g. gr_isDefault g = 1) gs') \<le> 1 \<Longrightarrow> groups_ok ids (st\<lparr>gs_groups := gs'\<rparr>)" for gs'
    by (simp add: groups_ok_def member_pairs_def)
  note step = this [OF assms]
  show ?thesis
  proof (cases k)
    case None
    then show ?thesis using step [of ?clear] ids none by (simp add: db_setDefaultGroup_def)
  next
    case (Some i)
    then show ?thesis
      using step [of "update_where (\<lambda>g. gr_id g = i) (\<lambda>g. g\<lparr>gr_isDefault := 1\<rparr>) ?clear"] ids one [of i]
      by (simp add: db_setDefaultGroup_def map_update_where)
  qed
qed

lemma groups_ok_audit: "groups_ok ids st \<Longrightarrow> groups_ok ids (snd (grp_audit now a act i b c st))"
  by (simp add: grp_audit_def groups_ok_def member_pairs_def)

lemma groups_ok_assign:
  assumes "groups_ok ids st" "i \<in> set ids"
  shows "groups_ok ids (snd (db_assignAccountToGroup now a i st))"
proof -
  obtain r st' where run: "db_assignAccountToGroup now a i st = (r, st')" by force
  then have same: "gs_groups st' = gs_groups st" "gs_globalPerms st' = gs_globalPerms st" "gs_domainPerms st' = gs_domainPerms st"
    by (auto simp: db_assignAccountToGroup_def split: if_splits)
  show ?thesis
  proof (cases r)
    case (Inl e)
    with run have "st' = st" by (auto simp: db_assignAccountToGroup_def split: if_splits)
    with assms run show ?thesis by simp
  next
    case (Inr u)
    with assign_pairs [of now a i st u st'] same run assms show ?thesis by (simp add: groups_ok_def)
  qed
qed

lemma groups_ok_unassign:
  assumes "groups_ok ids st"
  shows "groups_ok ids (snd (db_removeAccountFromGroup a i st))"
proof -
  let ?st' = "snd (db_removeAccountFromGroup a i st)"
  have "member_pairs ?st' = filter (\<lambda>p. p \<noteq> (i, a)) (member_pairs st)"
    by (simp add: db_removeAccountFromGroup_def member_pairs_def delete_where_def filter_map comp_def conj_commute)
  with assms show ?thesis
    by (auto simp: groups_ok_def db_removeAccountFromGroup_def)
qed

lemma distinct_rows_replaced:
  assumes "distinct (map k rows)" "distinct (map k new)" "\<forall>x \<in> set new. fst (k x) = i" "\<forall>x \<in> set rows. fst (k x) = g x"
  shows "distinct (map k (delete_where (\<lambda>x. g x = i) rows @ new))"
  using assms distinct_map_filter [OF assms(1), of "\<lambda>x. g x \<noteq> i"]
  by (auto simp: delete_where_def)

lemma groups_ok_write_global:
  assumes "groups_ok ids st" "i \<in> set ids"
  shows "groups_ok ids (snd (writeGlobalPermissions i ps st))"
proof (cases "distinct ps")
  case True
  let ?new = "map (\<lambda>(r, a). \<lparr>gg_groupId = i, gg_resource = r, gg_action = a\<rparr>) ps"
  let ?key = "\<lambda>p. (gg_groupId p, gg_resource p, gg_action p)"
  have "map ?key ?new = map (Pair i) ps" by (simp add: comp_def case_prod_beta)
  with True have "distinct (map ?key ?new)" by (simp add: distinct_map inj_on_def)
  then have "distinct (map ?key (delete_where (\<lambda>p. gg_groupId p = i) (gs_globalPerms st) @ ?new))"
    using assms(1) by (intro distinct_rows_replaced) (auto simp: groups_ok_def)
  with True assms show ?thesis
    by (auto simp: groups_ok_def writeGlobalPermissions_def member_pairs_def delete_where_def)
qed (use assms in \<open>simp add: writeGlobalPermissions_def\<close>)

lemma groups_ok_write_domain:
  assumes "groups_ok ids st" "i \<in> set ids"
  shows "groups_ok ids (snd (db_setGroupDomainPermissions i ps st))"
proof (cases "distinct ps")
  case True
  let ?new = "map (\<lambda>(d, r, a). \<lparr>gd_groupId = i, gd_domainId = d, gd_resource = r, gd_action = a\<rparr>) ps"
  let ?key = "\<lambda>p. (gd_groupId p, gd_domainId p, gd_resource p, gd_action p)"
  have "map ?key ?new = map (Pair i) ps" by (simp add: comp_def case_prod_beta)
  with True have "distinct (map ?key ?new)" by (simp add: distinct_map inj_on_def)
  then have "distinct (map ?key (delete_where (\<lambda>p. gd_groupId p = i) (gs_domainPerms st) @ ?new))"
    using assms(1) by (intro distinct_rows_replaced) (auto simp: groups_ok_def)
  with True assms show ?thesis
    by (auto simp: groups_ok_def db_setGroupDomainPermissions_def member_pairs_def delete_where_def)
qed (use assms in \<open>simp add: db_setGroupDomainPermissions_def\<close>)

lemma ok_then:
  assumes "groups_ok ids (snd r)" "\<And>a s. r = (Inr a, s) \<Longrightarrow> groups_ok ids s \<Longrightarrow> groups_ok ids (snd (f a s))"
  shows "groups_ok ids (snd (and_then r f))"
  using assms by (auto simp: and_then_def split: prod.splits sum.splits)

lemma getDetail_keeps [simp]: "snd (getDetail ops i u st) = st"
  by (simp add: getDetail_def Let_def split: sum.splits)

lemma found_in_ids: "groups_ok ids st \<Longrightarrow> findOrFail i (Some u) st = Inr g \<Longrightarrow> i \<in> set ids"
  by (auto simp: findOrFail_Inr find_group_def groups_ok_def dest!: find_in_set)

lemma lawful_global_ok:
  assumes "guard_lawful ops" "groups_ok ids st" "i \<in> set ids"
  shows "groups_ok ids (snd (go_setGroupGlobalPermissions ops i ps st))"
proof -
  from assms(1) have "(\<exists>keep. go_setGroupGlobalPermissions ops i ps st = writeGlobalPermissions i (filter keep ps) st)
      \<or> (\<exists>e. go_setGroupGlobalPermissions ops i ps st = (Inl e, st))"
    by (simp add: guard_lawful_def)
  then show ?thesis using groups_ok_write_global [OF assms(2,3)] assms(2) by auto
qed

lemma lawful_domain_ok:
  assumes "guard_lawful ops" "groups_ok ids st" "i \<in> set ids"
  shows "groups_ok ids (snd (go_setGroupDomainPermissions ops i ps st))"
proof -
  from assms(1) have "(\<exists>keep. go_setGroupDomainPermissions ops i ps st = db_setGroupDomainPermissions i (filter keep ps) st)
      \<or> (\<exists>e. go_setGroupDomainPermissions ops i ps st = (Inl e, st))"
    by (simp add: guard_lawful_def)
  then show ?thesis using groups_ok_write_domain [OF assms(2,3)] assms(2) by auto
qed

lemma assign_each_ok:
  "go_assignAccountToGroup ops = db_assignAccountToGroup \<Longrightarrow> groups_ok ids st \<Longrightarrow> i \<in> set ids \<Longrightarrow>
   groups_ok ids (snd (assign_each ops now i accs st))"
  by (induction accs arbitrary: st) (auto intro!: ok_then groups_ok_assign)

lemma remove_each_ok:
  "go_removeAccountFromGroup ops = db_removeAccountFromGroup \<Longrightarrow> groups_ok ids st \<Longrightarrow>
   groups_ok ids (snd (remove_each ops i ms st))"
  by (induction ms arbitrary: st) (auto intro!: ok_then groups_ok_unassign)

lemma applyDefault_ok:
  "guard_lawful ops \<Longrightarrow> groups_ok ids st \<Longrightarrow> groups_ok ids (snd (applyDefaultGroup ops now i a st))"
  unfolding applyDefaultGroup_def
  by (rule ok_then) (simp_all add: lawful_finds groups_ok_default groups_ok_audit)

lemma update_name_ok:
  assumes "guard_lawful ops" "groups_ok ids st" "find_group i st = Some g"
    "\<not> (\<exists>n. ug_name input = Some n \<and> n \<noteq> gr_name g \<and> (\<exists>x \<in> set (gs_groups st). gr_name x = n \<and> gr_id x \<noteq> i))"
  shows "groups_ok ids (snd (update_text ops i input st))"
proof (cases "ug_name input = None \<and> ug_description input = None")
  case True
  with assms(2) show ?thesis by (simp add: update_text_def)
next
  case False
  let ?f = "group_patch (ug_name input) (ug_description input)"
  from assms(3) have g: "g \<in> set (gs_groups st)" "gr_id g = i" by (auto simp: find_group_def dest!: find_in_set)
  have ids: "distinct (map gr_id (gs_groups st))" "distinct (map gr_name (gs_groups st))"
    using assms(2) by (auto simp: groups_ok_def)
  have "distinct (map gr_name (update_where (\<lambda>g. gr_id g = i) ?f (gs_groups st)))"
  proof (cases "ug_name input")
    case None
    with ids(2) show ?thesis by (simp add: map_update_where)
  next
    case (Some n)
    have free: "\<forall>x \<in> set (gs_groups st). gr_id x \<noteq> i \<longrightarrow> gr_name x \<noteq> n"
    proof (cases "n = gr_name g")
      case True
      then show ?thesis using ids(2) g by (auto simp: distinct_map dest: inj_onD)
    next
      case False
      with assms(4) Some show ?thesis by blast
    qed
    have "map gr_name (update_where (\<lambda>g. gr_id g = i) ?f (gs_groups st)) = map gr_name (save_row gr_id (?f g) (gs_groups st))"
      using g by (auto simp: save_row_def update_where_def Some)
    moreover have "distinct (map gr_name (save_row gr_id (?f g) (gs_groups st)))"
      by (rule distinct_save_other) (use ids free g in \<open>simp_all add: Some\<close>)
    ultimately show ?thesis by simp
  qed
  then have "groups_ok ids (patch_group i ?f st)"
    by (intro groups_ok_patch [OF assms(2)]) (simp_all add: patch_group_def)
  with False show ?thesis by (simp add: update_text_def lawful_finds [OF assms(1)] db_updateGroup_def)
qed

lemma update_rest_ok:
  assumes "guard_lawful ops" "groups_ok ids st"
  shows "groups_ok ids (snd (update_default ops now g i actor input st))"
    "groups_ok ids (snd (update_protected ops now g i actor input st))"
    "groups_ok ids (snd (update_invisible now g i actor input st))"
proof -
  show "groups_ok ids (snd (update_default ops now g i actor input st))"
    unfolding update_default_def
    by (auto split: option.splits bool.splits intro!: ok_then groups_ok_audit applyDefault_ok
        simp: assms lawful_finds [OF assms(1)] groups_ok_default)
  have "groups_ok ids (patch_group i (\<lambda>g. g\<lparr>gr_isProtected := v\<rparr>) st)"
    "groups_ok ids (patch_group i (\<lambda>g. g\<lparr>gr_isInvisible := v\<rparr>) st)" for v
    by (rule groups_ok_patch_same_name [OF assms(2)]; simp)+
  then show "groups_ok ids (snd (update_protected ops now g i actor input st))"
    "groups_ok ids (snd (update_invisible now g i actor input st))"
    unfolding update_protected_def update_invisible_def
    by (auto split: option.splits intro!: ok_then groups_ok_audit
        simp: assms lawful_finds [OF assms(1)] db_setGroupProtected_def)
qed

section \<open>Any sequence of calls\<close>

text \<open>One call of the service on the tables, whoever makes it and whatever it answers; a new group gets an
  identifier no group has (\<open>randomUUID\<close>).\<close>

inductive grp_step :: "guard_ops \<Rightarrow> group_db \<Rightarrow> grp_state \<Rightarrow> grp_state \<Rightarrow> bool" for ops db where
  create: "newId \<notin> gr_id ` set (gs_groups st) \<Longrightarrow> grp_step ops db st (snd (grp_create ops newId now o' a ci st))"
| update: "grp_step ops db st (snd (grp_update ops now i actor ui st))"
| remove: "grp_step ops db st (snd (grp_remove ops now i actor st))"
| setGlobal: "grp_step ops db st (snd (grp_setGlobalPermissions ops now i actor gps st))"
| setDomain: "grp_step ops db st (snd (grp_setDomainPermissions ops now i actor dps st))"
| owner: "grp_step ops db st (snd (grp_updateOwner ops now i actor a st))"
| add: "grp_step ops db st (snd (grp_addMember ops db now i actor a st))"
| adds: "grp_step ops db st (snd (grp_addMembers ops now i actor as st))"
| drop: "grp_step ops db st (snd (grp_removeMember ops db i actor a st))"
| addAll: "grp_step ops db st (snd (grp_addAllAccounts ops db now i actor st))"
| dropAll: "grp_step ops db st (snd (grp_removeAllMembers ops db now i actor st))"

inductive grp_reach :: "guard_ops \<Rightarrow> group_db \<Rightarrow> grp_state \<Rightarrow> grp_state \<Rightarrow> bool" for ops db where
  start: "grp_reach ops db st st"
| step: "grp_reach ops db st st1 \<Longrightarrow> grp_step ops db st1 st2 \<Longrightarrow> grp_reach ops db st st2"

lemma create_ok:
  assumes "guard_lawful ops" "groups_ok ids st" "newId \<notin> set ids"
  shows "\<exists>ids'. groups_ok ids' (snd (grp_create ops newId now o' a ci st))"
proof (cases "\<exists>g \<in> set (gs_groups st). gr_name g = cg_name ci")
  case True
  with assms(2) show ?thesis by (auto simp: grp_create_def)
next
  case False
  have key: "newId \<notin> gr_id ` set (gs_groups st)"
    using assms(2,3) by (auto simp: groups_ok_def)
  have row: "gr_id r = newId \<Longrightarrow> save_row gr_id r (gs_groups st) = gs_groups st @ [r]" for r
    using key by (auto simp: save_row_def image_iff)
  have pairs: "member_pairs (snd (db_createGroup newId now (cg_name ci) st)) = member_pairs st"
    by (simp add: db_createGroup_def member_pairs_def)
  have name: "cg_name ci \<notin> gr_name ` set (gs_groups st)" using False by auto
  have st1: "groups_ok (ids @ [newId]) (snd (db_createGroup newId now (cg_name ci) st))"
    using assms(2,3) key name pairs
    by (auto simp: groups_ok_def db_createGroup_def row)
  have owner: "groups_ok (ids @ [newId]) (snd (db_setGroupOwner k o'' s))" if "groups_ok (ids @ [newId]) s" for k o'' s
    using groups_ok_patch_same_name [OF that] by (simp add: db_setGroupOwner_def)
  have descr: "groups_ok (ids @ [newId]) (snd (db_updateGroup k None d s))" if "groups_ok (ids @ [newId]) s" for k d s
    using groups_ok_patch_same_name [OF that] by (simp add: db_updateGroup_def)
  have "groups_ok (ids @ [newId]) (snd (grp_create ops newId now o' a ci st))"
    using False st1
    by (auto simp: grp_create_def lawful_finds [OF assms(1)] owner descr applyDefault_ok [OF assms(1)]
        intro!: ok_then split: sum.splits option.splits)
  then show ?thesis by blast
qed

lemma update_ok:
  assumes "guard_lawful ops" "groups_ok ids st"
  shows "groups_ok ids (snd (grp_update ops now i actor ui st))"
  using assms(2)
  by (auto simp: grp_update_def findOrFail_Inr intro!: ok_then update_name_ok [OF assms(1)] update_rest_ok [OF assms(1)]
      split: sum.splits)

lemma filter_conj_le: "length (filter (\<lambda>x. Q x \<and> P x) xs) \<le> length (filter P xs)"
  by (induction xs) auto

lemma remove_ok:
  assumes "guard_lawful ops" "groups_ok ids st"
  shows "\<exists>ids'. groups_ok ids' (snd (grp_remove ops now i actor st))"
proof -
  let ?ids = "filter (\<lambda>k. k \<noteq> i) ids"
  have one: "length (filter (\<lambda>x. gr_id x \<noteq> i \<and> gr_isDefault x = 1) (gs_groups st)) \<le> 1"
    using assms(2) filter_conj_le [of "\<lambda>x. gr_id x \<noteq> i" "\<lambda>x. gr_isDefault x = 1" "gs_groups st"]
    unfolding groups_ok_def by linarith
  have mp: "member_pairs (snd (db_deleteGroup i st)) = filter (\<lambda>p. fst p \<noteq> i) (member_pairs st)"
    by (simp add: db_deleteGroup_def delete_where_def member_pairs_def filter_map comp_def)
  let ?del = "snd (db_deleteGroup i st)"
  from assms(2) have ids: "map gr_id (gs_groups st) = ids" "distinct ids" and names: "distinct (map gr_name (gs_groups st))"
    and pairs: "distinct (member_pairs st)" "fst ` set (member_pairs st) \<subseteq> set ids"
    and globals: "distinct (map (\<lambda>p. (gg_groupId p, gg_resource p, gg_action p)) (gs_globalPerms st))"
      "gg_groupId ` set (gs_globalPerms st) \<subseteq> set ids"
    and domains: "distinct (map (\<lambda>p. (gd_groupId p, gd_domainId p, gd_resource p, gd_action p)) (gs_domainPerms st))"
      "gd_groupId ` set (gs_domainPerms st) \<subseteq> set ids"
    by (simp_all add: groups_ok_def)
  have del: "groups_ok ?ids ?del"
    unfolding groups_ok_def mp
  proof (intro conjI)
    show "map gr_id (gs_groups ?del) = ?ids" using ids(1) by (auto simp: db_deleteGroup_def delete_where_def filter_map comp_def)
    show "distinct (map gr_name (gs_groups ?del))" using names by (simp add: db_deleteGroup_def delete_where_def distinct_map_filter)
    show "length (filter (\<lambda>g. gr_isDefault g = 1) (gs_groups ?del)) \<le> 1"
      using one by (simp add: db_deleteGroup_def delete_where_def conj_commute)
    show "fst ` set (filter (\<lambda>p. fst p \<noteq> i) (member_pairs st)) \<subseteq> set ?ids" using pairs by auto
    show "gg_groupId ` set (gs_globalPerms ?del) \<subseteq> set ?ids" using globals by (auto simp: db_deleteGroup_def delete_where_def)
    show "gd_groupId ` set (gs_domainPerms ?del) \<subseteq> set ?ids" using domains by (auto simp: db_deleteGroup_def delete_where_def)
  qed (use ids pairs globals domains in \<open>simp_all add: db_deleteGroup_def delete_where_def distinct_map_filter\<close>)
  from lawful_delete [OF assms(1), of i st]
  have "(\<exists>e. go_deleteGroup ops i st = (Inl e, st)) \<or> groups_ok ?ids (snd (go_deleteGroup ops i st))"
    using del by auto
  moreover have "\<exists>ids'. groups_ok ids' (snd (grp_audit now a act j b c s))" if "groups_ok k s" for k a act j b c s
    using groups_ok_audit [OF that] by blast
  ultimately show ?thesis
    using del assms(2)
    by (auto simp: grp_remove_def Let_def and_then_def split: sum.splits prod.splits)
qed

lemma step_ok:
  assumes "guard_lawful ops" "grp_step ops db st st'" "groups_ok ids st"
  shows "\<exists>ids'. groups_ok ids' st'"
  using assms(2)
proof cases
  case (create newId now o' a ci)
  then have "newId \<notin> set ids" using assms(3) by (auto simp: groups_ok_def)
  with create create_ok [OF assms(1,3)] show ?thesis by blast
next
  case update
  then show ?thesis using update_ok [OF assms(1,3)] by blast
next
  case remove
  then show ?thesis using remove_ok [OF assms(1,3)] by simp
next
  case setGlobal
  then have "groups_ok ids st'"
    by (auto simp: grp_setGlobalPermissions_def Let_def assms(3) intro!: ok_then groups_ok_audit lawful_global_ok [OF assms(1)]
        groups_ok_write_global dest: found_in_ids [OF assms(3)] split: sum.splits)
  then show ?thesis by blast
next
  case setDomain
  then have "groups_ok ids st'"
    by (auto simp: grp_setDomainPermissions_def Let_def assms(3) intro!: ok_then groups_ok_audit lawful_domain_ok [OF assms(1)]
        dest: found_in_ids [OF assms(3)] split: sum.splits)
  then show ?thesis by blast
next
  case owner
  have "groups_ok ids (snd (db_setGroupOwner k o'' s))" if "groups_ok ids s" for k o'' s
    using groups_ok_patch_same_name [OF that] by (simp add: db_setGroupOwner_def)
  then have "groups_ok ids st'" using owner
    by (auto simp: grp_updateOwner_def assms(3) lawful_finds [OF assms(1)] intro!: ok_then groups_ok_audit split: sum.splits)
  then show ?thesis by blast
next
  case add
  then have "groups_ok ids st'"
    by (auto simp: grp_addMember_def assms(3) lawful_finds [OF assms(1)] intro!: ok_then groups_ok_assign
        dest: found_in_ids [OF assms(3)] split: sum.splits)
  then show ?thesis by blast
next
  case adds
  then have "groups_ok ids st'"
    by (auto simp: grp_addMembers_def Let_def assms(3) intro!: ok_then assign_each_ok lawful_finds [OF assms(1)]
        dest: found_in_ids [OF assms(3)] split: sum.splits)
  then show ?thesis by blast
next
  case drop
  then have "groups_ok ids st'"
    by (auto simp: grp_removeMember_def assms(3) lawful_finds [OF assms(1)] intro!: ok_then groups_ok_unassign split: sum.splits)
  then show ?thesis by blast
next
  case addAll
  then have "groups_ok ids st'"
    by (auto simp: grp_addAllAccounts_def assms(3) intro!: ok_then groups_ok_audit assign_each_ok lawful_finds [OF assms(1)]
        dest: found_in_ids [OF assms(3)] split: sum.splits)
  then show ?thesis by blast
next
  case dropAll
  then have "groups_ok ids st'"
    by (auto simp: grp_removeAllMembers_def Let_def assms(3) intro!: ok_then groups_ok_audit remove_each_ok lawful_finds [OF assms(1)]
        split: sum.splits)
  then show ?thesis by blast
qed

lemma reach_ok:
  assumes "guard_lawful ops"
  shows "grp_reach ops db st st' \<Longrightarrow> groups_ok ids st \<Longrightarrow> \<exists>ids'. groups_ok ids' st'"
proof (induction rule: grp_reach.induct)
  case (step st st1 st2)
  then show ?case using step_ok [OF assms] by blast
qed blast

text \<open>C40: Whatever calls are made, in any order, by anyone, and whatever each answers, the tables of the group
  model stay sound: identifiers and names are unique, at most one group is the default one, no membership and
  no permission is stored twice, and each names a group that exists.\<close>
theorem group_tables_stay_sound:
  assumes "guard_lawful ops" and "grp_reach ops db st st'" and "groups_ok ids st"
  shows "\<exists>ids'. groups_ok ids' st'"
  by (rule reach_ok [OF assms])

section \<open>Flags only root changes\<close>

definition root_flags :: "grp_state \<Rightarrow> (string \<times> bool \<times> bool) list" where
  "root_flags st = map (\<lambda>g. (gr_id g, gr_isProtected g = 1, gr_isInvisible g = 1)) (gs_groups st)"

lemma flags_patch:
  "(\<And>g. gr_id (f g) = gr_id g \<and> gr_isProtected (f g) = gr_isProtected g \<and> gr_isInvisible (f g) = gr_isInvisible g) \<Longrightarrow>
   root_flags (patch_group i f st) = root_flags st"
  by (simp add: root_flags_def patch_group_def update_where_def)

lemma flags_default: "root_flags (snd (db_setDefaultGroup k st)) = root_flags st"
  by (cases k) (auto simp: root_flags_def db_setDefaultGroup_def update_where_def Let_def)

lemma flags_audit: "root_flags (snd (grp_audit now a act i b c st)) = root_flags st"
  by (simp add: grp_audit_def root_flags_def)

lemma flags_then:
  assumes "root_flags (snd r) = k" "\<And>a s. r = (Inr a, s) \<Longrightarrow> root_flags s = k \<Longrightarrow> root_flags (snd (f a s)) = k"
  shows "root_flags (snd (and_then r f)) = k"
  using assms by (auto simp: and_then_def split: prod.splits sum.splits)

lemma flags_text: "guard_lawful ops \<Longrightarrow> root_flags (snd (update_text ops i input st)) = root_flags st"
  by (simp add: update_text_def lawful_finds db_updateGroup_def flags_patch)

lemma flags_apply: "guard_lawful ops \<Longrightarrow> root_flags (snd (applyDefaultGroup ops now i a st)) = root_flags st"
  unfolding applyDefaultGroup_def
  by (rule flags_then) (simp_all add: lawful_finds flags_default flags_audit)

lemma flags_update_default:
  "guard_lawful ops \<Longrightarrow> root_flags (snd (update_default ops now g i actor input st)) = root_flags st"
  by (auto simp: update_default_def flags_apply lawful_finds flags_default flags_audit intro!: flags_then
      split: option.splits bool.splits)

lemma flags_update_root:
  assumes "\<not> gu_isRoot actor"
  shows "root_flags (snd (update_protected ops now g i actor input st)) = root_flags st"
    "root_flags (snd (update_invisible now g i actor input st)) = root_flags st"
  using assms by (auto simp: update_protected_def update_invisible_def split: option.splits)

text \<open>A group's protection and its visibility are root's alone: no update by another account, accepted or
  refused, changes the protected or the invisible flag of any group, and an update that asks for a change of
  either is not accepted.\<close>
theorem protection_is_roots:
  assumes "guard_lawful ops" and "\<not> gu_isRoot actor"
    and "grp_update ops now i actor input st = (r, st')"
  shows "root_flags st' = root_flags st
    \<and> (\<forall>x g. r = Inr x \<longrightarrow> find_group i st = Some g \<longrightarrow>
         (\<forall>p. ug_protected input = Some p \<longrightarrow> p = (gr_isProtected g = 1))
         \<and> (\<forall>v. ug_invisible input = Some v \<longrightarrow> v = (gr_isInvisible g = 1)))"
proof -
  have "root_flags (snd (grp_update ops now i actor input st)) = root_flags st"
    by (auto simp: grp_update_def flags_text [OF assms(1)] flags_update_default [OF assms(1)] flags_update_root [OF assms(2)]
        intro!: flags_then split: sum.splits)
  moreover have "\<forall>p. ug_protected input = Some p \<longrightarrow> p = (gr_isProtected g = 1)"
    "\<forall>v. ug_invisible input = Some v \<longrightarrow> v = (gr_isInvisible g = 1)"
    if "r = Inr x" "find_group i st = Some g" for x g
  proof -
    from that assms(3) obtain s2 s3 s4 where
      "update_protected ops now g i actor input s2 = (Inr (), s3)" "update_invisible now g i actor input s3 = (Inr (), s4)"
      by (auto simp: grp_update_def findOrFail_Inr dest!: and_then_Inr [THEN iffD1] split: sum.splits if_splits)
    with assms(2) show "\<forall>p. ug_protected input = Some p \<longrightarrow> p = (gr_isProtected g = 1)"
      "\<forall>v. ug_invisible input = Some v \<longrightarrow> v = (gr_isInvisible g = 1)"
      by (auto simp: update_protected_def update_invisible_def split: if_splits)
  qed
  ultimately show ?thesis using assms(3) by simp
qed

text \<open>The order of the writes shows: an update by an account that is not root which renames a visible group
  and asks for another protection is answered 403, and the rename stays written.\<close>
theorem refused_update_keeps_rename:
  assumes "guard_lawful ops" and "\<not> gu_isRoot actor"
    and "find_group i st = Some g" and "gr_isInvisible g \<noteq> 1"
    and "ug_name input = Some n" and "\<forall>x \<in> set (gs_groups st). gr_name x \<noteq> n"
    and "ug_isDefault input = None" and "ug_protected input = Some (gr_isProtected g \<noteq> 1)"
  shows "\<exists>e g'. grp_update ops now i actor input st
        = (Inl e, patch_group i (group_patch (Some n) (ug_description input)) st)
      \<and> err_status e = FORBIDDEN
      \<and> find_group i (patch_group i (group_patch (Some n) (ug_description input)) st) = Some g' \<and> gr_name g' = n"
proof -
  have "findOrFail i (Some actor) st = Inr g" using assms(2-4) by (simp add: findOrFail_Inr)
  moreover have "find_group i (patch_group i f st) = Some (f g)" if "\<And>x. gr_id (f x) = gr_id x" for f
  proof -
    have "List.find (\<lambda>g. gr_id g = i) (map (\<lambda>x. if gr_id x = i then f x else x) rows)
        = map_option f (List.find (\<lambda>g. gr_id g = i) rows)" for rows
      using that by (induction rows) auto
    then show ?thesis using assms(3) by (simp add: find_group_def patch_group_def update_where_def)
  qed
  ultimately show ?thesis
    using assms(2,5-8)
    by (auto simp: grp_update_def update_text_def lawful_finds [OF assms(1)] db_updateGroup_def
        update_default_def update_protected_def)
qed

section \<open>A library that runs its queries, and what the properties say of it\<close>

definition held_global :: "grp_state \<Rightarrow> string \<Rightarrow> global_perm list" where
  "held_global st a = concat (map (\<lambda>i. db_findGlobalPermissions i st) (db_findAccountGroupIds a st))"

definition held_domain :: "grp_state \<Rightarrow> string \<Rightarrow> domain_perm list" where
  "held_domain st a = concat (map (\<lambda>i. db_findDomainPermissions i st) (db_findAccountGroupIds a st))"

definition plain_ops :: guard_ops where
  "plain_ops = \<lparr>go_createGroup = db_createGroup, go_updateGroup = db_updateGroup, go_setGroupOwner = db_setGroupOwner,
     go_setDefaultGroup = db_setDefaultGroup, go_setGroupProtected = db_setGroupProtected,
     go_deleteGroup = (\<lambda>i st. if db_findGroupProtected i st then (Inl (HttpException FORBIDDEN ''protected''), st)
        else db_deleteGroup i st),
     go_setGroupGlobalPermissions = (\<lambda>i ps st. writeGlobalPermissions i (filter (\<lambda>p. (fst p, ''access'') \<in> set ps) ps) st),
     go_setGroupDomainPermissions = (\<lambda>i ps st. db_setGroupDomainPermissions i
        (filter (\<lambda>p. (fst p, fst (snd p), ''access'') \<in> set ps) ps) st),
     go_assignAccountToGroup = db_assignAccountToGroup, go_removeAccountFromGroup = db_removeAccountFromGroup,
     go_findGroupGlobalPermissions = db_findGlobalPermissions, go_findGroupDomainPermissions = db_findDomainPermissions,
     go_check_global = (\<lambda>a r act st. (r, ''access'') \<in> set (held_global st a) \<and> (r, act) \<in> set (held_global st a)),
     go_findUnheldPermissions = (\<lambda>a p st. \<lparr>ps_global = filter (\<lambda>x. x \<notin> set (held_global st a)) (ps_global p),
        ps_domain = filter (\<lambda>x. x \<notin> set (held_domain st a)) (ps_domain p)\<rparr>),
     go_diffPermissions = pu_diff toy_utils\<rparr>"

definition held_in :: "grp_state \<Rightarrow> holdings" where
  "held_in st = \<lparr>ho_global = (\<lambda>a p. p \<in> set (held_global st a)), ho_domain = (\<lambda>a p. p \<in> set (held_domain st a))\<rparr>"

lemma plain_lawful: "guard_lawful plain_ops"
  by (auto simp: guard_lawful_def plain_ops_def)

lemma plain_holds: "holds_in held_in plain_ops"
  by (auto simp: holds_in_def utils_lawful_def utils_at_def plain_ops_def held_in_def toy_utils_def)

definition plain_db :: group_db where
  "plain_db = \<lparr>gb_like = (\<lambda>c t. c = t), gb_order_groups = (\<lambda>c asc rows. rows), gb_order_accounts = (\<lambda>c asc rows. rows)\<rparr>"

definition toy_group :: "string \<Rightarrow> int \<Rightarrow> int \<Rightarrow> acl_group" where
  "toy_group n prot invis = \<lparr>gr_id = n, gr_name = n, gr_description = None, gr_ownerId = Some ''a'', gr_isDefault = 0,
     gr_isProtected = prot, gr_isInvisible = invis, gr_createdAt = 0\<rparr>"

definition toy_account :: "string \<Rightarrow> account" where
  "toy_account i = \<lparr>ac_id = i, ac_email = i, ac_password = None, ac_isRoot = 0, ac_isProtected = 0, ac_enabled = 1,
     ac_lastLogin = None, ac_createdAt = 0\<rparr>"

text \<open>Account \<open>a\<close> is in group \<open>g\<close>, which may read tickets; \<open>p\<close> is protected, \<open>v\<close> invisible.\<close>

definition toy_groups :: grp_state where
  "toy_groups = \<lparr>gs_groups = [toy_group ''g'' 0 0, toy_group ''p'' 1 0, toy_group ''v'' 0 1],
     gs_members = [\<lparr>gm_groupId = ''g'', gm_accountId = ''a'', gm_createdAt = 0\<rparr>],
     gs_globalPerms = [\<lparr>gg_groupId = ''g'', gg_resource = ''tickets'', gg_action = ''access''\<rparr>],
     gs_domainPerms = [], gs_accounts = [toy_account ''a'', toy_account ''b''], gs_profiles = [], gs_domains = [],
     gs_audit = []\<rparr>"

definition toy_actor :: guard_user where "toy_actor = \<lparr>gu_id = ''a'', gu_isRoot = False\<rparr>"

lemma toy_actor_plain [simp]: "\<not> gu_isRoot toy_actor" "gu_id toy_actor = ''a''"
  by (simp_all add: toy_actor_def)

lemmas toy_acl_run = toy_groups_def toy_group_def toy_account_def plain_ops_def plain_db_def findOrFail_def find_group_def
  db_findGlobalPermissions_def db_findDomainPermissions_def utils_at_def assertActingUserHolds_def
  assertActingUserCanReplace_def toy_utils_def held_global_def held_domain_def db_findAccountGroupIds_def

theorem group_edit_never_escalates_witness:
  "let run = grp_setGlobalPermissions plain_ops 5 ''p'' toy_actor [(''tickets'', ''access'')] toy_groups in
     (\<exists>d st'. run = (Inr d, st') \<and> db_findGlobalPermissions ''p'' st' = [(''tickets'', ''access'')]
       \<and> change_allowed (ho_global (held_in toy_groups) ''a'') (db_findGlobalPermissions ''p'' toy_groups)
           [(''tickets'', ''access'')] (db_findGlobalPermissions ''p'' st'))"
proof -
  obtain d st' where run: "grp_setGlobalPermissions plain_ops 5 ''p'' toy_actor [(''tickets'', ''access'')] toy_groups = (Inr d, st')"
      "db_findGlobalPermissions ''p'' st' = [(''tickets'', ''access'')]"
    by (simp add: grp_setGlobalPermissions_def toy_acl_run writeGlobalPermissions_def grp_audit_def getDetail_def
        toItem_def Let_def delete_where_def find_account_def del: set_map set_filter set_concat)
  show ?thesis
    using run group_edit_never_escalates [OF plain_lawful plain_holds toy_actor_plain(1),
        of 5 "''p''" "[(''tickets'', ''access'')]" toy_groups d st' "[]"]
    by simp
qed

theorem joining_needs_holding_witness:
  "\<exists>st'. grp_addMembers plain_ops 5 ''g'' toy_actor [''b''] toy_groups = (Inr 1, st')
     \<and> set (member_pairs st') = {(''g'', ''b''), (''g'', ''a'')}
     \<and> (\<forall>p \<in> set (db_findGlobalPermissions ''g'' toy_groups). ho_global (held_in toy_groups) ''a'' p)"
proof -
  obtain st' where run: "grp_addMembers plain_ops 5 ''g'' toy_actor [''b''] toy_groups = (Inr 1, st')"
    by (simp add: grp_addMembers_def toy_acl_run assertOwnerOrRootOrPermitted_def db_assignAccountToGroup_def find_account_def Let_def
        del: set_map set_filter set_concat)
  have "Pair ''g'' ` {x \<in> set [''b'']. \<exists>acc \<in> set (gs_accounts toy_groups). ac_id acc = x} = {(''g'', ''b'')}"
    "set (member_pairs toy_groups) = {(''g'', ''a'')}"
    by (auto simp: toy_groups_def toy_account_def member_pairs_def)
  with run joining_needs_holding [OF plain_lawful plain_holds toy_actor_plain(1),
      of plain_db 5 "''g''" "''b''" toy_groups undefined st' "set [''b'']" "[''b'']" 1]
  show ?thesis by (auto simp del: set_simps)
qed

theorem group_deletion_rules_witness:
  "(\<exists>st'. grp_remove plain_ops 5 ''g'' toy_actor toy_groups = (Inr (), st') \<and> find_group ''g'' st' = None
      \<and> group_untouched ''p'' toy_groups st')
   \<and> (\<exists>e. grp_remove plain_ops 5 ''p'' \<lparr>gu_id = ''r'', gu_isRoot = True\<rparr> toy_groups = (Inl e, toy_groups))"
proof -
  obtain st' where run: "grp_remove plain_ops 5 ''g'' toy_actor toy_groups = (Inr (), st')"
    by (simp add: grp_remove_def toy_acl_run db_findGroupProtected_def db_deleteGroup_def grp_audit_def Let_def
        del: set_map set_filter set_concat)
  obtain e st2 where refused: "grp_remove plain_ops 5 ''p'' \<lparr>gu_id = ''r'', gu_isRoot = True\<rparr> toy_groups = (Inl e, st2)"
    by (simp add: grp_remove_def toy_acl_run)
  show ?thesis
    using run refused group_deletion_rules [OF plain_lawful plain_holds run]
      group_deletion_rules [OF plain_lawful plain_holds refused] by simp
qed

theorem invisible_group_hidden_witness:
  "''v'' \<notin> gi_id ` set (fst (grp_list plain_db toy_actor
        \<lparr>pq_limit = None, pq_offset = 0, pq_search = None, pq_sortDir = ''asc'', pq_sortBy = None, pq_searchBy = None\<rparr> toy_groups))
   \<and> getDetail plain_ops ''v'' toy_actor toy_groups = (Inl (HttpException NOT_FOUND ''Group not found''), toy_groups)"
proof -
  have db: "orders_rows plain_db" by (simp add: orders_rows_def plain_db_def)
  have "\<forall>g \<in> set (gs_groups toy_groups). gr_id g = ''v'' \<longrightarrow> gr_isInvisible g = 1"
    by (simp add: toy_groups_def toy_group_def)
  from invisible_group_hidden [OF toy_actor_plain(1) this db] show ?thesis by blast
qed

theorem group_tables_stay_sound_witness:
  "\<exists>ids. groups_ok ids (snd (grp_update plain_ops 5 ''g'' toy_actor
      \<lparr>ug_name = Some ''new'', ug_description = None, ug_isDefault = Some True, ug_protected = None, ug_invisible = None\<rparr> toy_groups))"
proof -
  have "groups_ok [''g'', ''p'', ''v''] toy_groups"
    by (auto simp: groups_ok_def toy_groups_def toy_group_def member_pairs_def)
  then show ?thesis
    by (rule group_tables_stay_sound [OF plain_lawful grp_reach.step [OF grp_reach.start grp_step.update [of _ plain_db]]])
qed

theorem protection_is_roots_witness:
  "\<exists>r st'. grp_update plain_ops 5 ''g'' toy_actor
      \<lparr>ug_name = Some ''new'', ug_description = None, ug_isDefault = None, ug_protected = Some True, ug_invisible = None\<rparr> toy_groups = (r, st')
    \<and> root_flags st' = root_flags toy_groups"
proof -
  obtain r st' where run: "grp_update plain_ops 5 ''g'' toy_actor
      \<lparr>ug_name = Some ''new'', ug_description = None, ug_isDefault = None, ug_protected = Some True, ug_invisible = None\<rparr> toy_groups = (r, st')"
    by force
  then show ?thesis using protection_is_roots [OF plain_lawful toy_actor_plain(1) run] by blast
qed

theorem refused_update_keeps_rename_witness:
  "\<exists>e st'. grp_update plain_ops 5 ''g'' toy_actor
      \<lparr>ug_name = Some ''new'', ug_description = None, ug_isDefault = None, ug_protected = Some True, ug_invisible = None\<rparr> toy_groups = (Inl e, st')
    \<and> err_status e = FORBIDDEN \<and> map_option gr_name (find_group ''g'' st') = Some ''new''"
  using refused_update_keeps_rename [OF plain_lawful toy_actor_plain(1), of "''g''" toy_groups "toy_group ''g'' 0 0"
      "\<lparr>ug_name = Some ''new'', ug_description = None, ug_isDefault = None, ug_protected = Some True, ug_invisible = None\<rparr>" "''new''" 5]
  by (auto simp: toy_groups_def toy_group_def find_group_def)

end
