(* ===== verification/Sessions.thy ===== *)
theory Sessions imports MfaLogin TwoFactor AclGroups ApiToken begin

text \<open>
  \<open>core/auth/jwt/jwt.service.ts\<close> and \<open>core/auth/auth.guard.ts\<close>: a session is one row of
  \<open>refresh_tokens\<close> from sign-in to sign-out, its secret replaced in place at each refresh, and an
  access token names the row it was minted for. The state puts together the stores of the services a
  sign-in goes through, each with the lines of the journal it writes. Signing and verifying a JSON web
  token, SHA-256, scrypt, the resolution of an address and of a city, and the mail transport are
  arguments; so are the random values a call draws.
\<close>

section \<open>State\<close>

record refresh_token =
  rt_id :: int
  rt_accountId :: string
  rt_tokenHash :: string
  rt_userAgent :: "string option"
  rt_ip :: "string option"
  rt_expiresAt :: time
  rt_revokedAt :: "time option"
  rt_lastSeenAt :: "time option"
  rt_createdAt :: time

record session_state =
  ss_accounts :: "account list"
  ss_profiles :: "profile list"
  ss_groups :: "acl_group list"
  ss_members :: "group_member list"
  ss_tokens :: "refresh_token list"
  ss_nextId :: int
  ss_log :: "activity_row list"
  ss_twoFactor :: tf_state
  ss_challenges :: tf_store
  ss_risk :: lr_state
  ss_mfa :: mfa_login

record jwt_payload =
  jp_sub :: string
  jp_email :: string
  jp_isRoot :: bool
  jp_sid :: "int option"

record session_env =
  sv_login :: login_env
  sv_settings :: login_settings
  sv_locate :: "string option \<Rightarrow> ip_location option"
  sv_sign :: "jwt_payload \<Rightarrow> time \<Rightarrow> string"
  sv_verify :: "string \<Rightarrow> time \<Rightarrow> jwt_payload option"
  sv_sha256 :: "string \<Rightarrow> string"
  sv_scryptHash :: "string \<Rightarrow> string"
  sv_scryptVerify :: "string \<Rightarrow> string \<Rightarrow> bool"
  sv_geocode :: "string \<Rightarrow> string option \<Rightarrow> (string \<times> string) option"
  sv_refreshTtl :: int

text \<open>What one call draws: a challenge, six digits, the 48 bytes of a refresh token in base64url.\<close>

record session_draws =
  sd_challenge :: string
  sd_digits :: nat
  sd_refreshRaw :: string

definition ss_note :: "activity_context \<Rightarrow> activity_input \<Rightarrow> session_state \<Rightarrow> session_state" where
  "ss_note ctx input st = st\<lparr>ss_log := record_activity ctx input (ss_log st)\<rparr>"

definition ss_saveAccount :: "account \<Rightarrow> session_state \<Rightarrow> session_state" where
  "ss_saveAccount a st = st\<lparr>ss_accounts := save_row ac_id a (ss_accounts st)\<rparr>"

definition ss_saveToken :: "refresh_token \<Rightarrow> session_state \<Rightarrow> session_state" where
  "ss_saveToken t st = st\<lparr>ss_tokens := save_row rt_id t (ss_tokens st)\<rparr>"

section \<open>Opening a session\<close>

definition rt_live :: "time \<Rightarrow> refresh_token \<Rightarrow> bool" where
  "rt_live now t = (rt_revokedAt t = None \<and> now < rt_expiresAt t)"

definition revokeDeviceSessions ::
  "string \<Rightarrow> string option \<Rightarrow> string option \<Rightarrow> time \<Rightarrow> session_state \<Rightarrow> session_state" where
  "revokeDeviceSessions accountId ua ip now st =
     (if (ua = None \<or> ua = Some []) \<and> (ip = None \<or> ip = Some []) then st
      else st\<lparr>ss_tokens := update_where
        (\<lambda>t. rt_accountId t = accountId \<and> rt_userAgent t = ua \<and> rt_ip t = ip \<and> rt_revokedAt t = None)
        (\<lambda>t. t\<lparr>rt_revokedAt := Some now\<rparr>) (ss_tokens st)\<rparr>)"

definition payload_of :: "account \<Rightarrow> int \<Rightarrow> jwt_payload" where
  "payload_of a sid = \<lparr>jp_sub = ac_id a, jp_email = ac_email a, jp_isRoot = (ac_isRoot a = 1), jp_sid = Some sid\<rparr>"

definition signAccessToken :: "session_env \<Rightarrow> account \<Rightarrow> int \<Rightarrow> time \<Rightarrow> string" where
  "signAccessToken env a sid now = sv_sign env (payload_of a sid) now"

record issued =
  is_accessToken :: string
  is_refreshToken :: string
  is_expiresAt :: time

definition issueTokens ::
  "session_env \<Rightarrow> session_draws \<Rightarrow> account \<Rightarrow> string option \<Rightarrow> string option \<Rightarrow> time \<Rightarrow> session_state \<Rightarrow> issued \<times> session_state" where
  "issueTokens env draws a ua ip now st =
     (let refreshRaw = sd_refreshRaw draws;
          expiresAt = now + sv_refreshTtl env * 1000;
          sid = ss_nextId st;
          row = \<lparr>rt_id = sid, rt_accountId = ac_id a, rt_tokenHash = sv_sha256 env refreshRaw, rt_userAgent = ua, rt_ip = ip,
                 rt_expiresAt = expiresAt, rt_revokedAt = None, rt_lastSeenAt = None, rt_createdAt = now\<rparr>
      in (\<lparr>is_accessToken = signAccessToken env a sid now, is_refreshToken = refreshRaw, is_expiresAt = expiresAt\<rparr>,
          st\<lparr>ss_tokens := ss_tokens st @ [row], ss_nextId := sid + 1\<rparr>))"

text \<open>\<open>w\<close> is the place already resolved, \<open>None\<close> when the caller has not looked it up.\<close>

definition finishSession ::
  "session_env \<Rightarrow> activity_context \<Rightarrow> session_draws \<Rightarrow> account \<Rightarrow> string option \<Rightarrow> string option \<Rightarrow> ip_location option option
   \<Rightarrow> time \<Rightarrow> session_state \<Rightarrow> issued \<times> session_state" where
  "finishSession env ctx draws a ua ip w now st =
     (let a' = a\<lparr>ac_lastLogin := Some now\<rparr>;
          st1 = ss_note ctx (by_actor ''auth.login'' (ac_id a)) (ss_saveAccount a' st);
          seen = (case w of None \<Rightarrow> sv_locate env ip | Some known \<Rightarrow> known);
          st2 = st1\<lparr>ss_risk := remember (sv_settings env) (ac_id a) seen ip now (ss_risk st1)\<rparr>;
          st3 = revokeDeviceSessions (ac_id a) ua ip now st2
      in issueTokens env draws a' ua ip now st3)"

datatype sign_in =
    Opened issued
  | TwoFactorRequired string time
  | MfaRequired mfa_required

definition openSessionFor ::
  "session_env \<Rightarrow> activity_context \<Rightarrow> session_draws \<Rightarrow> account \<Rightarrow> string option \<Rightarrow> string option \<Rightarrow> time \<Rightarrow> session_state
   \<Rightarrow> sign_in \<times> session_state" where
  "openSessionFor env ctx draws a ua ip now st =
     (let w = sv_locate env ip;
          suspicious = ra_suspicious (assess (sv_settings env) (ac_id a) (ac_lastLogin a) w now (ss_risk st))
      in if tf_isEnabled (ac_id a) (ss_twoFactor st)
         then (let st1 = (case suspicious of None \<Rightarrow> st | Some far \<Rightarrow> st\<lparr>ss_mfa := far_note ctx (ac_id a) (ss_mfa st)\<rparr>);
                   (minted, store) = tf_mint (sd_challenge draws) (ac_id a) now (ss_challenges st1)
               in (TwoFactorRequired (fst minted) (snd minted), st1\<lparr>ss_challenges := store\<rparr>))
         else (case suspicious of
                 None \<Rightarrow> (let (i, st') = finishSession env ctx draws a ua ip (Some w) now st in (Opened i, st'))
               | Some far \<Rightarrow>
                   (let (asked, m) = mfa_open (sv_login env) ctx (sd_challenge draws) (sd_digits draws) (ac_id a) (ac_email a) far now (ss_mfa st);
                        st1 = st\<lparr>ss_mfa := m\<rparr>
                    in case asked of
                         Some r \<Rightarrow> (MfaRequired r, st1)
                       | None \<Rightarrow> (let (i, st') = finishSession env ctx draws a ua ip (Some w) now st1 in (Opened i, st')))))"

definition enabled_account :: "string \<Rightarrow> session_state \<Rightarrow> account option" where
  "enabled_account i st = List.find (\<lambda>a. ac_id a = i \<and> ac_enabled a = 1) (ss_accounts st)"

definition completeMfa ::
  "session_env \<Rightarrow> activity_context \<Rightarrow> session_draws \<Rightarrow> string \<Rightarrow> string \<Rightarrow> string option \<Rightarrow> string option \<Rightarrow> time \<Rightarrow> session_state
   \<Rightarrow> (issued, session_state) outcome" where
  "completeMfa env ctx draws challenge answer ua ip now st =
     (case mfa_verify (sv_login env) ctx challenge answer now (ss_mfa st) of
        (Inl e, m) \<Rightarrow> (Inl e, st\<lparr>ss_mfa := m\<rparr>)
      | (Inr accountId, m) \<Rightarrow>
          (let st1 = st\<lparr>ss_mfa := m\<rparr>
           in case enabled_account accountId st1 of
                None \<Rightarrow> (Inl (HttpException UNAUTHORIZED ''This account is disabled''), st1)
              | Some a \<Rightarrow> (let (i, st') = finishSession env ctx draws a ua ip None now st1 in (Inr i, st'))))"

definition completeTwoFactor ::
  "session_env \<Rightarrow> activity_context \<Rightarrow> session_draws \<Rightarrow> string \<Rightarrow> string \<Rightarrow> string option \<Rightarrow> string option \<Rightarrow> time \<Rightarrow> session_state
   \<Rightarrow> (issued, session_state) outcome" where
  "completeTwoFactor env ctx draws challenge code ua ip now st =
     (let (found, store) = tf_attempt challenge now (ss_challenges st); st1 = st\<lparr>ss_challenges := store\<rparr> in
      case found of
        None \<Rightarrow> (Inl (ApiError UNAUTHORIZED ''twoFactor.challengeExpired''), st1)
      | Some accountId \<Rightarrow>
          (case verifyForLogin (le_crypto (sv_login env)) accountId code now (ss_twoFactor st1) of
             (Inl e, t) \<Rightarrow> (Inl e, st1\<lparr>ss_twoFactor := t\<rparr>)
           | (Inr False, t) \<Rightarrow>
               (Inl (ApiError BAD_REQUEST ''twoFactor.invalidCode''),
                ss_note ctx (by_actor ''auth.two-factor.refused'' accountId) (st1\<lparr>ss_twoFactor := t\<rparr>))
           | (Inr True, t) \<Rightarrow>
               (let st2 = st1\<lparr>ss_twoFactor := t, ss_challenges := tf_settle challenge (ss_challenges st1)\<rparr>
                in case enabled_account accountId st2 of
                     None \<Rightarrow> (Inl (HttpException UNAUTHORIZED ''This account is disabled''), st2)
                   | Some a \<Rightarrow> (let (i, st') = finishSession env ctx draws a ua ip None now st2 in (Inr i, st')))))"

section \<open>Refreshing and signing out\<close>

text \<open>\<open>relations: ["account"]\<close>: the account of the row, which its foreign key keeps there. An absent
  \<open>ua\<close> or \<open>ip\<close> leaves the column.\<close>

definition refresh ::
  "session_env \<Rightarrow> session_draws \<Rightarrow> string \<Rightarrow> string option \<Rightarrow> string option \<Rightarrow> time \<Rightarrow> session_state \<Rightarrow> (issued, session_state) outcome" where
  "refresh env draws rawToken ua ip now st =
     (case List.find (\<lambda>t. rt_tokenHash t = sv_sha256 env rawToken) (ss_tokens st) of
        None \<Rightarrow> (Inl (HttpException UNAUTHORIZED ''Refresh token invalid''), st)
      | Some stored \<Rightarrow>
          if rt_revokedAt stored \<noteq> None \<or> rt_expiresAt stored < now
          then (Inl (HttpException UNAUTHORIZED ''Refresh token invalid''), st)
          else (let refreshRaw = sd_refreshRaw draws;
                    stored1 = stored\<lparr>rt_tokenHash := sv_sha256 env refreshRaw, rt_expiresAt := now + sv_refreshTtl env * 1000\<rparr>;
                    stored2 = (case ua of None \<Rightarrow> stored1 | Some u \<Rightarrow> stored1\<lparr>rt_userAgent := Some u\<rparr>);
                    stored3 = (case ip of None \<Rightarrow> stored2 | Some i \<Rightarrow> stored2\<lparr>rt_ip := Some i\<rparr>);
                    st1 = ss_saveToken stored3 st
                in case find_account (rt_accountId stored) (ss_accounts st) of
                     None \<Rightarrow> (Inl (Crash ''account of undefined''), st1)
                   | Some a \<Rightarrow> (Inr \<lparr>is_accessToken = signAccessToken env a (rt_id stored3) now, is_refreshToken = refreshRaw,
                                    is_expiresAt = rt_expiresAt stored3\<rparr>, st1)))"

definition revoke :: "session_env \<Rightarrow> activity_context \<Rightarrow> string \<Rightarrow> time \<Rightarrow> session_state \<Rightarrow> session_state" where
  "revoke env ctx rawToken now st =
     (case List.find (\<lambda>t. rt_tokenHash t = sv_sha256 env rawToken) (ss_tokens st) of
        None \<Rightarrow> st
      | Some stored \<Rightarrow>
          if rt_revokedAt stored = None
          then ss_note ctx (by_actor ''auth.logout'' (rt_accountId stored)) (ss_saveToken (stored\<lparr>rt_revokedAt := Some now\<rparr>) st)
          else st)"

definition revokeSession ::
  "activity_context \<Rightarrow> string \<Rightarrow> int \<Rightarrow> time \<Rightarrow> session_state \<Rightarrow> (unit, session_state) outcome" where
  "revokeSession ctx accountId i now st =
     (case List.find (\<lambda>t. rt_id t = i \<and> rt_accountId t = accountId) (ss_tokens st) of
        None \<Rightarrow> (Inl (HttpException NOT_FOUND ''Session not found''), st)
      | Some stored \<Rightarrow>
          (let st1 = (if rt_revokedAt stored = None then ss_saveToken (stored\<lparr>rt_revokedAt := Some now\<rparr>) st else st)
           in (Inr (), ss_note ctx (by_actor ''auth.session.revoked'' accountId) st1)))"

definition purgeAccountSessionHistory :: "string \<Rightarrow> time \<Rightarrow> session_state \<Rightarrow> nat \<times> session_state" where
  "purgeAccountSessionHistory accountId now st =
     (let gone = (\<lambda>t. rt_accountId t = accountId \<and> (rt_revokedAt t \<noteq> None \<or> rt_expiresAt t \<le> now))
      in (count_where gone (ss_tokens st), st\<lparr>ss_tokens := delete_where gone (ss_tokens st)\<rparr>))"

definition revokeAllActiveSessions :: "string \<Rightarrow> time \<Rightarrow> session_state \<Rightarrow> nat \<times> session_state" where
  "revokeAllActiveSessions accountId now st =
     (let live = (\<lambda>t. rt_accountId t = accountId \<and> rt_live now t)
      in (count_where live (ss_tokens st),
          st\<lparr>ss_tokens := update_where live (\<lambda>t. t\<lparr>rt_revokedAt := Some now\<rparr>) (ss_tokens st)\<rparr>))"

section \<open>Listing\<close>

record session_dto =
  sn_id :: int
  sn_userAgent :: "string option"
  sn_ip :: "string option"
  sn_createdAt :: time
  sn_expiresAt :: time
  sn_revokedAt :: "time option"
  sn_lastSeenAt :: "time option"
  sn_active :: bool
  sn_online :: bool

definition seen_within_minute :: "time option \<Rightarrow> time \<Rightarrow> bool" where
  "seen_within_minute seen now = (case seen of None \<Rightarrow> False | Some t \<Rightarrow> now - t \<le> 60000)"

definition toSessionDto :: "time \<Rightarrow> bool \<Rightarrow> refresh_token \<Rightarrow> session_dto" where
  "toSessionDto now active r =
     \<lparr>sn_id = rt_id r, sn_userAgent = rt_userAgent r, sn_ip = rt_ip r, sn_createdAt = rt_createdAt r, sn_expiresAt = rt_expiresAt r,
      sn_revokedAt = rt_revokedAt r, sn_lastSeenAt = rt_lastSeenAt r, sn_active = active,
      sn_online = (active \<and> seen_within_minute (rt_lastSeenAt r) now)\<rparr>"

definition listActiveSessions :: "string \<Rightarrow> time \<Rightarrow> session_state \<Rightarrow> session_dto list" where
  "listActiveSessions accountId now st =
     map (toSessionDto now True)
       (sort_key (\<lambda>t. - rt_createdAt t) (filter (\<lambda>t. rt_accountId t = accountId \<and> rt_live now t) (ss_tokens st)))"

definition SESSIONS_SORTABLE_COLUMNS :: "string list" where
  "SESSIONS_SORTABLE_COLUMNS = [''createdAt'', ''expiresAt'', ''revokedAt'']"

definition SESSIONS_SEARCHABLE_COLUMNS :: "string list" where
  "SESSIONS_SEARCHABLE_COLUMNS = [''userAgent'', ''ip'']"

definition DEFAULT_PAGE_SIZE :: nat where "DEFAULT_PAGE_SIZE = 25"

text \<open>The column sorted on, a null \<open>revoked_at\<close> before every date.\<close>

definition session_sort_key :: "string \<Rightarrow> refresh_token \<Rightarrow> time option" where
  "session_sort_key column t =
     (if column = ''expiresAt'' then Some (rt_expiresAt t) else if column = ''revokedAt'' then rt_revokedAt t
      else Some (rt_createdAt t))"

definition sort_tokens :: "string \<Rightarrow> bool \<Rightarrow> refresh_token list \<Rightarrow> refresh_token list" where
  "sort_tokens column asc rows =
     (let nulls = filter (\<lambda>t. session_sort_key column t = None) rows;
          dated = filter (\<lambda>t. session_sort_key column t \<noteq> None) rows;
          k = (\<lambda>t. the (session_sort_key column t))
      in if asc then nulls @ sort_key k dated else sort_key (\<lambda>t. - k t) dated @ nulls)"

definition session_like :: "(string \<Rightarrow> string \<Rightarrow> bool) \<Rightarrow> string \<Rightarrow> string \<Rightarrow> refresh_token \<Rightarrow> bool" where
  "session_like like term column t =
     (case (if column = ''ip'' then rt_ip t else rt_userAgent t) of
        None \<Rightarrow> False | Some v \<Rightarrow> like v (''%'' @ term @ ''%''))"

definition listSessionHistory ::
  "(string \<Rightarrow> string \<Rightarrow> bool) \<Rightarrow> string \<Rightarrow> pagination_query \<Rightarrow> time \<Rightarrow> session_state \<Rightarrow> session_dto list \<times> nat" where
  "listSessionHistory like accountId q now st =
     (let base = filter (\<lambda>t. rt_accountId t = accountId \<and> (rt_revokedAt t \<noteq> None \<or> rt_expiresAt t \<le> now)) (ss_tokens st);
          columns = (case resolveSearchColumn (pq_searchBy q) SESSIONS_SEARCHABLE_COLUMNS of
             None \<Rightarrow> SESSIONS_SEARCHABLE_COLUMNS | Some c \<Rightarrow> [c]);
          matching = (case pq_search q of None \<Rightarrow> base
             | Some term \<Rightarrow> if term = [] then base else filter (\<lambda>t. \<exists>c \<in> set columns. session_like like term c t) base);
          sortBy = resolveSortColumn (pq_sortBy q) SESSIONS_SORTABLE_COLUMNS ''createdAt'';
          limit = (case pq_limit q of None \<Rightarrow> DEFAULT_PAGE_SIZE | Some n \<Rightarrow> n);
          rows = page_of (pq_offset q) limit (sort_tokens sortBy (pq_sortDir q = ''asc'') matching)
      in (map (toSessionDto now False) rows, length matching))"

record sessions_overview =
  so_accountId :: string
  so_email :: "string option"
  so_displayName :: "string option"
  so_activeCount :: nat
  so_expiredCount :: nat
  so_online :: bool
  so_lastSeenAt :: "time option"
  so_expiredLastSeenAt :: "time option"

text \<open>\<open>MAX\<close> over a bucket, null on none.\<close>

definition max_seen :: "refresh_token list \<Rightarrow> time option" where
  "max_seen rows = fold (\<lambda>t best. case (rt_lastSeenAt t, best) of
     (None, b) \<Rightarrow> b | (Some s, None) \<Rightarrow> Some s | (Some s, Some b) \<Rightarrow> Some (max s b)) rows None"

definition listSessionsOverview :: "time \<Rightarrow> session_state \<Rightarrow> sessions_overview list" where
  "listSessionsOverview now st =
     (let rows = map (\<lambda>i.
            (let mine = filter (\<lambda>t. rt_accountId t = i) (ss_tokens st);
                 live = filter (rt_live now) mine; gone = filter (\<lambda>t. \<not> rt_live now t) mine
             in \<lparr>so_accountId = i, so_email = map_option ac_email (find_account i (ss_accounts st)),
                 so_displayName = (case List.find (\<lambda>p. pr_accountId p = i) (ss_profiles st) of None \<Rightarrow> None
                    | Some p \<Rightarrow> composeDisplayName (pr_firstName p) (pr_lastName p)),
                 so_activeCount = length live, so_expiredCount = length gone,
                 so_online = seen_within_minute (max_seen live) now,
                 so_lastSeenAt = max_seen live, so_expiredLastSeenAt = max_seen gone\<rparr>))
          (remdups (map rt_accountId (ss_tokens st)))
      in sort_key (\<lambda>r. - int (so_activeCount r)) (sort_key (\<lambda>r. - int (so_expiredCount r)) rows))"

section \<open>The account's own page\<close>

record profile_response =
  pf_account :: account
  pf_profile :: "profile option"
  pf_displayName :: "string option"
  pf_hasPassword :: bool
  pf_isRoot :: bool
  pf_mailEnabled :: bool
  pf_twoFactorEnabled :: bool
  pf_securityQuestionSet :: bool
  pf_groups :: "(string \<times> string) list"

definition toProfile :: "session_env \<Rightarrow> account \<Rightarrow> session_state \<Rightarrow> profile_response" where
  "toProfile env a st =
     (let p = List.find (\<lambda>p. pr_accountId p = ac_id a) (ss_profiles st);
          groupIds = map gm_groupId (filter (\<lambda>m. gm_accountId m = ac_id a) (ss_members st));
          groupRows = filter (\<lambda>g. gr_id g \<in> set groupIds) (ss_groups st)
      in \<lparr>pf_account = a, pf_profile = p,
          pf_displayName = (case p of None \<Rightarrow> None | Some r \<Rightarrow> composeDisplayName (pr_firstName r) (pr_lastName r)),
          pf_hasPassword = truthy (ac_password a), pf_isRoot = (ac_isRoot a = 1),
          pf_mailEnabled = le_mailEnabled (sv_login env), pf_twoFactorEnabled = tf_isEnabled (ac_id a) (ss_twoFactor st),
          pf_securityQuestionSet = hasQuestion (ac_id a) (ss_mfa st),
          pf_groups = map (\<lambda>g. (gr_id g, gr_name g)) groupRows\<rparr>)"

definition session_me :: "session_env \<Rightarrow> string \<Rightarrow> session_state \<Rightarrow> err + profile_response" where
  "session_me env accountId st =
     (case find_account accountId (ss_accounts st) of
        None \<Rightarrow> Inl (HttpException NOT_FOUND ''Account not found'')
      | Some a \<Rightarrow> Inr (toProfile env a st))"

definition changePassword ::
  "session_env \<Rightarrow> activity_context \<Rightarrow> string \<Rightarrow> string option \<Rightarrow> string \<Rightarrow> session_state \<Rightarrow> (unit, session_state) outcome" where
  "changePassword env ctx accountId currentPassword newPassword st =
     (case find_account accountId (ss_accounts st) of
        None \<Rightarrow> (Inl (HttpException NOT_FOUND ''Account not found''), st)
      | Some a \<Rightarrow>
          if truthy (ac_password a)
             \<and> (\<not> truthy currentPassword \<or> \<not> sv_scryptVerify env (the currentPassword) (the (ac_password a)))
          then (Inl (ApiError BAD_REQUEST ''auth.wrongPassword''), st)
          else (Inr (), ss_note ctx (by_actor ''auth.password.changed'' accountId)
                  (ss_saveAccount (a\<lparr>ac_password := Some (sv_scryptHash env newPassword)\<rparr>) st)))"

text \<open>\<open>None\<close> is an absent field; the profile's own may be given as null.\<close>

record update_profile =
  up_email :: "string option"
  up_firstName :: "string option option"
  up_lastName :: "string option option"
  up_gender :: "string option option"
  up_locale :: "string option option"
  up_avatarUrl :: "string option option"
  up_phone :: "string option option"
  up_addressLine :: "string option option"
  up_addressComplement :: "string option option"
  up_city :: "string option option"
  up_postalCode :: "string option option"
  up_country :: "string option option"

definition or_keep :: "'a option \<Rightarrow> 'a \<Rightarrow> 'a" where
  "or_keep v old = (case v of None \<Rightarrow> old | Some x \<Rightarrow> x)"

definition new_profile :: "string \<Rightarrow> time \<Rightarrow> profile" where
  "new_profile accountId now = \<lparr>pr_accountId = accountId, pr_presence = 0, pr_presenceAt = None, pr_locale = None,
     pr_offlineNotifiedAt = None, pr_firstName = None, pr_lastName = None, pr_gender = None, pr_avatarUrl = None,
     pr_phone = None, pr_addressLine = None, pr_addressComplement = None, pr_city = None, pr_postalCode = None,
     pr_country = None, pr_latitude = None, pr_longitude = None, pr_createdAt = now, pr_updatedAt = now\<rparr>"

definition edited_profile :: "session_env \<Rightarrow> update_profile \<Rightarrow> profile \<Rightarrow> profile" where
  "edited_profile env input p =
     (let p1 = p\<lparr>pr_firstName := or_keep (up_firstName input) (pr_firstName p),
                 pr_lastName := or_keep (up_lastName input) (pr_lastName p),
                 pr_gender := or_keep (up_gender input) (pr_gender p),
                 pr_locale := or_keep (up_locale input) (pr_locale p),
                 pr_avatarUrl := or_keep (up_avatarUrl input) (pr_avatarUrl p),
                 pr_phone := or_keep (up_phone input) (pr_phone p),
                 pr_addressLine := or_keep (up_addressLine input) (pr_addressLine p),
                 pr_addressComplement := or_keep (up_addressComplement input) (pr_addressComplement p),
                 pr_postalCode := or_keep (up_postalCode input) (pr_postalCode p),
                 pr_country := or_keep (up_country input) (pr_country p),
                 pr_city := or_keep (up_city input) (pr_city p)\<rparr>
      in if up_city input = None \<and> up_country input = None then p1
         else if truthy (pr_city p1)
         then (let coords = sv_geocode env (the (pr_city p1)) (pr_country p1)
               in p1\<lparr>pr_latitude := map_option fst coords, pr_longitude := map_option snd coords\<rparr>)
         else p1\<lparr>pr_latitude := None, pr_longitude := None\<rparr>)"

definition profile_fields :: "update_profile \<Rightarrow> bool" where
  "profile_fields input = (\<exists>v \<in> set [up_firstName input, up_lastName input, up_gender input, up_locale input, up_avatarUrl input,
     up_phone input, up_addressLine input, up_addressComplement input, up_city input, up_postalCode input, up_country input]. v \<noteq> None)"

definition updateProfile ::
  "session_env \<Rightarrow> activity_context \<Rightarrow> string \<Rightarrow> update_profile \<Rightarrow> time \<Rightarrow> session_state \<Rightarrow> (profile_response, session_state) outcome" where
  "updateProfile env ctx accountId input now st =
     (case find_account accountId (ss_accounts st) of
        None \<Rightarrow> (Inl (HttpException NOT_FOUND ''Account not found''), st)
      | Some a \<Rightarrow>
          (let moves = (up_email input \<noteq> None \<and> up_email input \<noteq> Some (ac_email a))
           in if moves \<and> (\<exists>x \<in> set (ss_accounts st). Some (ac_email x) = up_email input \<and> ac_id x \<noteq> accountId)
              then (Inl (HttpException CONFLICT ''Email is already used by another account''), st)
              else (let a' = (if moves then a\<lparr>ac_email := the (up_email input)\<rparr> else a);
                        st1 = (if moves then ss_note ctx (by_actor ''auth.email.changed'' accountId) (ss_saveAccount a' st) else st);
                        p = (case List.find (\<lambda>p. pr_accountId p = accountId) (ss_profiles st1) of
                               None \<Rightarrow> new_profile accountId now | Some r \<Rightarrow> r);
                        p' = edited_profile env input p;
                        p'' = (if p' = p then p else p'\<lparr>pr_updatedAt := now\<rparr>);
                        st2 = st1\<lparr>ss_profiles := save_row pr_accountId p'' (ss_profiles st1)\<rparr>;
                        st3 = (if profile_fields input then ss_note ctx (by_actor ''profile.updated'' accountId) st2 else st2)
                    in (Inr (toProfile env a' st3), st3))))"

section \<open>The guard in front of every route\<close>

datatype auth_strategy = AuthApiToken | AuthJwt

text \<open>What the guard reads of a request and of its route.\<close>

record auth_request =
  rq_public :: bool
  rq_strategies :: "auth_strategy list option"
  rq_apiKey :: "string option"
  rq_authorization :: "string option"
  rq_ip :: "string option"
  rq_global :: "requirement list option"
  rq_domain :: "requirement list option"
  rq_domainId :: "int option"

definition sessionIsLive :: "jwt_payload \<Rightarrow> time \<Rightarrow> session_state \<Rightarrow> bool \<times> session_state" where
  "sessionIsLive payload now st =
     (case jp_sid payload of
        None \<Rightarrow> (True, st)
      | Some sid \<Rightarrow>
          (case List.find (\<lambda>t. rt_id t = sid) (ss_tokens st) of
             None \<Rightarrow> (False, st)
           | Some session \<Rightarrow>
               if rt_revokedAt session \<noteq> None \<or> rt_expiresAt session \<le> now then (False, st)
               else (True, if (case rt_lastSeenAt session of None \<Rightarrow> True | Some t \<Rightarrow> 30000 < now - t)
                           then st\<lparr>ss_tokens := update_where (\<lambda>t. rt_id t = sid) (\<lambda>t. t\<lparr>rt_lastSeenAt := Some now\<rparr>) (ss_tokens st)\<rparr>
                           else st)))"

definition entries_of :: "requirement list option \<Rightarrow> requirement list" where
  "entries_of r = (case r of None \<Rightarrow> [] | Some es \<Rightarrow> es)"

fun refuse_entries :: "(requirement \<Rightarrow> bool) \<Rightarrow> requirement list \<Rightarrow> err + unit" where
  "refuse_entries allows [] = Inr ()"
| "refuse_entries allows (e # es) =
     (if \<not> allows e then Inl (HttpException FORBIDDEN ''This API key is not scoped for'') else refuse_entries allows es)"

definition refuseOutOfScope :: "auth_request \<Rightarrow> token_scopes \<Rightarrow> err + unit" where
  "refuseOutOfScope req scopes =
     (if entries_of (rq_global req) = [] \<and> entries_of (rq_domain req) = []
      then Inl (HttpException FORBIDDEN ''This API key is scoped and may not call'')
      else case refuse_entries (\<lambda>(r, acts). scopeAllowsGlobal scopes r acts) (entries_of (rq_global req)) of
        Inl e \<Rightarrow> Inl e
      | Inr _ \<Rightarrow>
          if entries_of (rq_domain req) = [] then Inr ()
          else case rq_domainId req of
            None \<Rightarrow> Inl (HttpException FORBIDDEN ''This API key is scoped and may not call'')
          | Some d \<Rightarrow> refuse_entries (\<lambda>(r, acts). scopeAllowsDomain scopes d r acts) (entries_of (rq_domain req)))"

record auth_user =
  us_id :: string
  us_email :: string
  us_isRoot :: bool

record auth_state =
  as_sessions :: session_state
  as_tokens :: tk_state

text \<open>One strategy tried: an exception that ends the request, an identity, or nothing.\<close>

definition try_api_key ::
  "session_env \<Rightarrow> auth_request \<Rightarrow> time \<Rightarrow> auth_state \<Rightarrow> (auth_user option, auth_state) outcome" where
  "try_api_key env req now st =
     (if \<not> truthy (rq_apiKey req) then (Inr None, st)
      else case tk_validate (le_crypto (sv_login env)) (the (rq_apiKey req)) (or_empty (rq_ip req)) now (as_tokens st) of
        (Inl e, t) \<Rightarrow> (Inl e, st\<lparr>as_tokens := t\<rparr>)
      | (Inr None, t) \<Rightarrow> (Inr None, st\<lparr>as_tokens := t\<rparr>)
      | (Inr (Some (u, scopes)), t) \<Rightarrow>
          (let user = \<lparr>us_id = ru_id u, us_email = ru_email u, us_isRoot = ru_isRoot u\<rparr>
           in case (case scopes of None \<Rightarrow> Inr () | Some s \<Rightarrow> refuseOutOfScope req s) of
                Inl e \<Rightarrow> (Inl e, st\<lparr>as_tokens := t\<rparr>)
              | Inr _ \<Rightarrow> (Inr (Some user), st\<lparr>as_tokens := t\<rparr>)))"

definition try_jwt ::
  "session_env \<Rightarrow> auth_request \<Rightarrow> time \<Rightarrow> auth_state \<Rightarrow> auth_user option \<times> auth_state" where
  "try_jwt env req now st =
     (case rq_authorization req of
        None \<Rightarrow> (None, st)
      | Some header \<Rightarrow>
          if take 7 header \<noteq> ''Bearer '' then (None, st)
          else case sv_verify env (drop 7 header) now of
            None \<Rightarrow> (None, st)
          | Some payload \<Rightarrow>
              if jp_sub payload = [] then (None, st)
              else (let (live, s) = sessionIsLive payload now (as_sessions st)
                    in (if live then Some \<lparr>us_id = jp_sub payload, us_email = jp_email payload, us_isRoot = jp_isRoot payload\<rparr>
                        else None, st\<lparr>as_sessions := s\<rparr>)))"

fun try_strategies ::
  "session_env \<Rightarrow> auth_request \<Rightarrow> time \<Rightarrow> auth_strategy list \<Rightarrow> auth_state \<Rightarrow> (auth_user, auth_state) outcome" where
  "try_strategies env req now [] st = (Inl (HttpException UNAUTHORIZED ''Unauthorized''), st)"
| "try_strategies env req now (AuthApiToken # rest) st =
     (case try_api_key env req now st of
        (Inl e, st1) \<Rightarrow> (Inl e, st1)
      | (Inr (Some u), st1) \<Rightarrow> (Inr u, st1)
      | (Inr None, st1) \<Rightarrow> try_strategies env req now rest st1)"
| "try_strategies env req now (AuthJwt # rest) st =
     (case try_jwt env req now st of
        (Some u, st1) \<Rightarrow> (Inr u, st1)
      | (None, st1) \<Rightarrow> try_strategies env req now rest st1)"

text \<open>The user put on the request, none on a public route.\<close>

definition auth_guard ::
  "session_env \<Rightarrow> auth_request \<Rightarrow> time \<Rightarrow> auth_state \<Rightarrow> (auth_user option, auth_state) outcome" where
  "auth_guard env req now st =
     (if rq_public req then (Inr None, st)
      else let active = (case rq_strategies req of None \<Rightarrow> [AuthApiToken, AuthJwt] | Some ss \<Rightarrow> ss)
           in and_then (try_strategies env req now active st) (\<lambda>u st1. (Inr (Some u), st1)))"

section \<open>The session table\<close>

definition tokens_ok :: "session_state \<Rightarrow> bool" where
  "tokens_ok st = (distinct (map rt_id (ss_tokens st)) \<and> (\<forall>t \<in> set (ss_tokens st). rt_id t < ss_nextId st)
     \<and> distinct (map rt_tokenHash (ss_tokens st)))"

lemma note_tokens [simp]:
  "ss_tokens (ss_note ctx i st) = ss_tokens st" "ss_nextId (ss_note ctx i st) = ss_nextId st"
  "ss_accounts (ss_note ctx i st) = ss_accounts st"
  by (simp_all add: ss_note_def)

lemma saveAccount_tokens [simp]:
  "ss_tokens (ss_saveAccount a st) = ss_tokens st" "ss_nextId (ss_saveAccount a st) = ss_nextId st"
  by (simp_all add: ss_saveAccount_def)

lemma saveToken_parts [simp]:
  "ss_tokens (ss_saveToken t st) = save_row rt_id t (ss_tokens st)" "ss_nextId (ss_saveToken t st) = ss_nextId st"
  "ss_accounts (ss_saveToken t st) = ss_accounts st"
  by (simp_all add: ss_saveToken_def)

text \<open>The row a session has, by its identifier.\<close>

definition session_row :: "int \<Rightarrow> session_state \<Rightarrow> refresh_token option" where
  "session_row sid st = List.find (\<lambda>t. rt_id t = sid) (ss_tokens st)"

definition session_usable :: "int \<Rightarrow> time \<Rightarrow> session_state \<Rightarrow> bool" where
  "session_usable sid now st = (case session_row sid st of None \<Rightarrow> False | Some t \<Rightarrow> rt_live now t)"

lemma sessionIsLive_iff: "jp_sid payload = Some sid \<Longrightarrow> fst (sessionIsLive payload now st) = session_usable sid now st"
  by (auto simp: sessionIsLive_def session_usable_def session_row_def rt_live_def not_less split: option.splits)

end
