(* ===== verification/SessionSafety.thy ===== *)
theory SessionSafety imports Sessions begin

text \<open>
  What the sessions of \<open>Sessions\<close> guarantee: a revoked session is dead for good, a refresh token is
  replaced at each use, a second factor is never skipped, a device holds one session, and a narrowed
  key stays within its scope.
\<close>

section \<open>A session that ended stays ended\<close>

datatype session_op =
    SOpen activity_context session_draws account "string option" "string option" time
  | SMfa activity_context session_draws string string "string option" "string option" time
  | STwoFactor activity_context session_draws string string "string option" "string option" time
  | SRefresh session_draws string "string option" "string option" time
  | SRevoke activity_context string time
  | SRevokeSession activity_context string int time
  | SPurge string time
  | SRevokeAll string time
  | SSeen jwt_payload time
  | SPassword activity_context string "string option" string
  | SProfile activity_context string update_profile time

fun se_exec :: "session_env \<Rightarrow> session_op \<Rightarrow> session_state \<Rightarrow> session_state" where
  "se_exec env (SOpen ctx draws a ua ip now) st = snd (openSessionFor env ctx draws a ua ip now st)"
| "se_exec env (SMfa ctx draws challenge answer ua ip now) st = snd (completeMfa env ctx draws challenge answer ua ip now st)"
| "se_exec env (STwoFactor ctx draws challenge code ua ip now) st = snd (completeTwoFactor env ctx draws challenge code ua ip now st)"
| "se_exec env (SRefresh draws raw ua ip now) st = snd (refresh env draws raw ua ip now st)"
| "se_exec env (SRevoke ctx raw now) st = revoke env ctx raw now st"
| "se_exec env (SRevokeSession ctx a i now) st = snd (revokeSession ctx a i now st)"
| "se_exec env (SPurge a now) st = snd (purgeAccountSessionHistory a now st)"
| "se_exec env (SRevokeAll a now) st = snd (revokeAllActiveSessions a now st)"
| "se_exec env (SSeen p now) st = snd (sessionIsLive p now st)"
| "se_exec env (SPassword ctx a old new) st = snd (changePassword env ctx a old new st)"
| "se_exec env (SProfile ctx a input now) st = snd (updateProfile env ctx a input now st)"

definition session_ended :: "int \<Rightarrow> session_state \<Rightarrow> bool" where
  "session_ended sid st = (sid < ss_nextId st \<and> (\<forall>t \<in> set (ss_tokens st). rt_id t = sid \<longrightarrow> rt_revokedAt t \<noteq> None))"

lemma ended_same:
  "ss_tokens st' = ss_tokens st \<Longrightarrow> ss_nextId st' = ss_nextId st \<Longrightarrow> session_ended sid st' = session_ended sid st"
  by (simp add: session_ended_def)

lemma ended_not_usable: "session_ended sid st \<Longrightarrow> \<not> session_usable sid now st"
  by (auto simp: session_ended_def session_usable_def session_row_def rt_live_def split: option.splits dest!: find_in_set)

lemma ended_device: "session_ended sid st \<Longrightarrow> session_ended sid (revokeDeviceSessions a ua ip now st)"
  by (auto simp: session_ended_def revokeDeviceSessions_def update_where_def)

lemma finish_parts:
  "\<exists>i rows. finishSession env ctx draws a ua ip w now st = (i, rows)
    \<and> ss_tokens rows = ss_tokens (revokeDeviceSessions (ac_id a) ua ip now st)
         @ [\<lparr>rt_id = ss_nextId st, rt_accountId = ac_id a, rt_tokenHash = sv_sha256 env (sd_refreshRaw draws), rt_userAgent = ua,
             rt_ip = ip, rt_expiresAt = now + sv_refreshTtl env * 1000, rt_revokedAt = None, rt_lastSeenAt = None, rt_createdAt = now\<rparr>]
    \<and> ss_nextId rows = ss_nextId st + 1
    \<and> is_refreshToken i = sd_refreshRaw draws
    \<and> is_accessToken i = sv_sign env (payload_of a (ss_nextId st)) now"
  by (simp add: finishSession_def issueTokens_def revokeDeviceSessions_def Let_def signAccessToken_def payload_of_def)

lemma ended_finish:
  assumes "session_ended sid st" "finishSession env ctx draws a ua ip w now st = (i, st')"
  shows "session_ended sid st'"
  using finish_parts [of env ctx draws a ua ip w now st] ended_device [OF assms(1), of "ac_id a" ua ip now] assms
  by (auto simp: session_ended_def)

lemma ended_save:
  "session_ended sid st \<Longrightarrow> rt_id t \<noteq> sid \<or> rt_revokedAt t \<noteq> None \<Longrightarrow> session_ended sid (ss_saveToken t st)"
  by (auto simp: session_ended_def set_save_row)

lemma ended_parts [simp]:
  "session_ended sid (st\<lparr>ss_mfa := m\<rparr>) = session_ended sid st"
  "session_ended sid (st\<lparr>ss_twoFactor := t\<rparr>) = session_ended sid st"
  "session_ended sid (st\<lparr>ss_challenges := c\<rparr>) = session_ended sid st"
  "session_ended sid (st\<lparr>ss_profiles := p\<rparr>) = session_ended sid st"
  "session_ended sid (ss_note ctx i st) = session_ended sid st"
  "session_ended sid (ss_saveAccount a st) = session_ended sid st"
  by (simp_all add: session_ended_def)

lemma ended_open: "session_ended sid st \<Longrightarrow> session_ended sid (snd (openSessionFor env ctx draws a ua ip now st))"
  by (auto simp: openSessionFor_def Let_def split: prod.splits option.splits dest: ended_finish [rotated])

lemma ended_second:
  assumes "session_ended sid st"
  shows "session_ended sid (snd (completeMfa env ctx draws challenge answer ua ip now st))"
    "session_ended sid (snd (completeTwoFactor env ctx draws challenge answer ua ip now st))"
  using assms
  by (auto simp: completeMfa_def completeTwoFactor_def Let_def split: prod.splits option.splits sum.splits bool.splits
      dest: ended_finish [rotated])

lemma ended_refresh:
  assumes "session_ended sid st"
  shows "session_ended sid (snd (refresh env draws raw ua ip now st))"
proof (cases "List.find (\<lambda>t. rt_tokenHash t = sv_sha256 env raw) (ss_tokens st)")
  case None
  with assms show ?thesis by (simp add: refresh_def)
next
  case (Some stored)
  then have "stored \<in> set (ss_tokens st)" by (auto dest: find_in_set)
  with assms have "rt_id stored \<noteq> sid \<or> rt_revokedAt stored \<noteq> None" by (auto simp: session_ended_def)
  then show ?thesis
    using assms by (auto simp: refresh_def Some Let_def split: option.splits intro!: ended_save)
qed

lemma ended_update_where:
  "session_ended sid st \<Longrightarrow> session_ended sid (st\<lparr>ss_tokens := update_where P (\<lambda>t. t\<lparr>rt_revokedAt := Some now\<rparr>) (ss_tokens st)\<rparr>)"
  "session_ended sid st \<Longrightarrow> session_ended sid (st\<lparr>ss_tokens := update_where P (\<lambda>t. t\<lparr>rt_lastSeenAt := Some now\<rparr>) (ss_tokens st)\<rparr>)"
  "session_ended sid st \<Longrightarrow> session_ended sid (st\<lparr>ss_tokens := delete_where P (ss_tokens st)\<rparr>)"
  by (auto simp: session_ended_def update_where_def delete_where_def)

lemma ended_exec: "session_ended sid st \<Longrightarrow> session_ended sid (se_exec env op st)"
proof (cases op)
  case (SRevoke ctx raw now)
  assume "session_ended sid st"
  then show ?thesis unfolding SRevoke by (auto simp: revoke_def split: option.splits intro!: ended_save)
next
  case (SRevokeSession ctx a i now)
  assume "session_ended sid st"
  then show ?thesis unfolding SRevokeSession
    by (auto simp: revokeSession_def Let_def split: option.splits intro!: ended_save)
next
  case (SSeen p now)
  assume "session_ended sid st"
  then show ?thesis unfolding SSeen
    by (auto simp: sessionIsLive_def split: option.splits intro!: ended_update_where)
next
  case (SProfile ctx a input now)
  assume "session_ended sid st"
  then show ?thesis unfolding SProfile by (auto simp: updateProfile_def Let_def split: option.splits)
qed (auto simp: ended_open ended_second ended_refresh ended_update_where purgeAccountSessionHistory_def
      revokeAllActiveSessions_def changePassword_def Let_def split: option.splits)

lemma ended_run: "session_ended sid st \<Longrightarrow> session_ended sid (fold (se_exec env) ops st)"
  by (induction ops arbitrary: st) (simp_all add: ended_exec)

lemma only_bearer:
  assumes "\<not> rq_public req" "\<not> truthy (rq_apiKey req)"
    "rq_authorization req = Some (''Bearer '' @ token)" "sv_verify env token now = Some p" "jp_sid p = Some sid"
    "\<not> session_usable sid now (as_sessions st)"
  shows "\<exists>st'. auth_guard env req now st = (Inl (HttpException UNAUTHORIZED ''Unauthorized''), st')"
proof -
  have jwt: "\<exists>st'. try_jwt env req now s = (None, st') \<and> \<not> session_usable sid now (as_sessions st')"
    if "\<not> session_usable sid now (as_sessions s)" for s
  proof (cases "jp_sub p = []")
    case True
    with assms that show ?thesis by (auto simp: try_jwt_def)
  next
    case False
    have "sessionIsLive p now (as_sessions s) = (False, as_sessions s)"
      using that sessionIsLive_iff [OF assms(5), of now "as_sessions s"]
      by (auto simp: sessionIsLive_def assms(5) split: option.splits if_splits)
    with False assms that show ?thesis by (auto simp: try_jwt_def)
  qed
  have key: "try_api_key env req now s = (Inr None, s)" for s using assms(2) by (simp add: try_api_key_def)
  have "\<exists>st'. try_strategies env req now strategies s = (Inl (HttpException UNAUTHORIZED ''Unauthorized''), st')"
    if "\<not> session_usable sid now (as_sessions s)" for strategies s
    using that
  proof (induction strategies arbitrary: s)
    case (Cons a strategies)
    from jwt [OF Cons.prems] obtain s' where "try_jwt env req now s = (None, s')" "\<not> session_usable sid now (as_sessions s')"
      by blast
    with Cons show ?case by (cases a) (auto simp: key)
  qed simp
  from this [OF assms(6)] obtain st' where
    "try_strategies env req now (case rq_strategies req of None \<Rightarrow> [AuthApiToken, AuthJwt] | Some ss \<Rightarrow> ss) st
      = (Inl (HttpException UNAUTHORIZED ''Unauthorized''), st')" by blast
  with assms(1) show ?thesis by (simp add: auth_guard_def Let_def)
qed

text \<open>The ways a session is ended from outside: by its refresh token, from its owner's list, all at once.\<close>

definition ends_session :: "session_env \<Rightarrow> int \<Rightarrow> session_state \<Rightarrow> session_state \<Rightarrow> bool" where
  "ends_session env sid st st' =
     ((\<exists>ctx raw now. st' = revoke env ctx raw now st
         \<and> (\<exists>t \<in> set (ss_tokens st). rt_id t = sid \<and> rt_tokenHash t = sv_sha256 env raw))
      \<or> (\<exists>ctx a now. revokeSession ctx a sid now st = (Inr (), st'))
      \<or> (\<exists>a now. st' = snd (revokeAllActiveSessions a now st)
           \<and> (\<exists>t \<in> set (ss_tokens st). rt_id t = sid \<and> rt_accountId t = a \<and> rt_live now t)))"

lemma same_row: "tokens_ok st \<Longrightarrow> t \<in> set (ss_tokens st) \<Longrightarrow> t' \<in> set (ss_tokens st) \<Longrightarrow> rt_id t = rt_id t' \<Longrightarrow> t = t'"
  by (auto simp: tokens_ok_def distinct_map dest: inj_onD)

lemma same_hash:
  "tokens_ok st \<Longrightarrow> t \<in> set (ss_tokens st) \<Longrightarrow> t' \<in> set (ss_tokens st) \<Longrightarrow> rt_tokenHash t = rt_tokenHash t' \<Longrightarrow> t = t'"
  by (auto simp: tokens_ok_def distinct_map dest: inj_onD)

lemma ended_by_save:
  assumes "tokens_ok st" "t \<in> set (ss_tokens st)" "rt_id t = sid"
  shows "session_ended sid (if rt_revokedAt t = None then ss_saveToken (t\<lparr>rt_revokedAt := Some now\<rparr>) st else st)"
proof -
  have uniq: "x = t" if "x \<in> set (ss_tokens st)" "rt_id x = sid" for x
    using same_row [OF assms(1) that(1) assms(2)] that(2) assms(3) by simp
  have "sid < ss_nextId st" using assms by (auto simp: tokens_ok_def)
  then show ?thesis
    using assms(3) by (cases "rt_revokedAt t = None") (auto simp: session_ended_def set_save_row dest: uniq)
qed

lemma ends_ended:
  assumes ok: "tokens_ok st" and "ends_session env sid st st'"
  shows "session_ended sid st'"
  using assms(2) unfolding ends_session_def
proof (elim disjE exE conjE bexE)
  fix ctx raw now t
  assume t: "t \<in> set (ss_tokens st)" "rt_id t = sid" "rt_tokenHash t = sv_sha256 env raw" and st': "st' = revoke env ctx raw now st"
  have "List.find (\<lambda>x. rt_tokenHash x = sv_sha256 env raw) (ss_tokens st) = Some t"
  proof (rule find_unique)
    show "\<forall>x \<in> set (ss_tokens st). rt_tokenHash x = sv_sha256 env raw \<longrightarrow> x = t"
      using same_hash [OF ok _ t(1)] t(3) by (metis (no_types))
  qed (use t in simp_all)
  with ended_by_save [OF ok t(1,2), of now] show ?thesis
    by (auto simp: st' revoke_def split: if_splits)
next
  fix ctx a now
  assume run: "revokeSession ctx a sid now st = (Inr (), st')"
  then obtain t where t: "List.find (\<lambda>t. rt_id t = sid \<and> rt_accountId t = a) (ss_tokens st) = Some t"
    by (auto simp: revokeSession_def split: option.splits)
  then have "t \<in> set (ss_tokens st)" "rt_id t = sid" by (auto dest: find_in_set)
  with ended_by_save [OF ok, of t sid now] run t show ?thesis
    by (auto simp: revokeSession_def Let_def split: if_splits)
next
  fix a now t
  assume t: "t \<in> set (ss_tokens st)" "rt_id t = sid" "rt_accountId t = a" "rt_live now t"
    and st': "st' = snd (revokeAllActiveSessions a now st)"
  have uniq: "x = t" if "x \<in> set (ss_tokens st)" "rt_id x = sid" for x
    using same_row [OF ok that(1) t(1)] that(2) t(2) by simp
  have "sid < ss_nextId st" using ok t by (auto simp: tokens_ok_def)
  then show ?thesis
    using t(3,4) by (auto simp: session_ended_def revokeAllActiveSessions_def Let_def update_where_def st' dest: uniq)
qed

text \<open>C2: A session that is revoked, by its refresh token, from its owner's list or with all the account's
  others, is dead at once and for good: whatever sign-ins, refreshes and other operations follow, a request
  that carries an access token minted for it and no key is answered 401, however long that token still has.\<close>
theorem revoked_session_stays_dead:
  assumes "tokens_ok st" and "ends_session env sid st st0"
    and "\<not> rq_public req" and "\<not> truthy (rq_apiKey req)"
    and "rq_authorization req = Some (''Bearer '' @ token)"
    and "sv_verify env token now = Some p" and "jp_sid p = Some sid"
  shows "\<exists>st'. auth_guard env req now \<lparr>as_sessions = fold (se_exec env) ops st0, as_tokens = tks\<rparr>
    = (Inl (HttpException UNAUTHORIZED ''Unauthorized''), st')"
proof -
  have "session_ended sid (fold (se_exec env) ops st0)" by (rule ended_run [OF ends_ended [OF assms(1,2)]])
  then have "\<not> session_usable sid now (as_sessions \<lparr>as_sessions = fold (se_exec env) ops st0, as_tokens = tks\<rparr>)"
    by (simp add: ended_not_usable)
  from only_bearer [OF assms(3-7) this] show ?thesis .
qed

definition toy_session_env :: session_env where
  "toy_session_env = \<lparr>sv_login = toy_env, sv_settings = toy_login_settings, sv_locate = (\<lambda>_. None),
     sv_sign = (\<lambda>p now. ''T''),
     sv_verify = (\<lambda>token now. if token = ''T''
        then Some \<lparr>jp_sub = ''a'', jp_email = ''a'', jp_isRoot = False, jp_sid = Some 1\<rparr> else None),
     sv_sha256 = (\<lambda>s. s), sv_scryptHash = (\<lambda>s. s), sv_scryptVerify = (=), sv_geocode = (\<lambda>_ _. None),
     sv_refreshTtl = 60\<rparr>"

definition toy_draws :: session_draws where
  "toy_draws = \<lparr>sd_challenge = ''ch'', sd_digits = 7, sd_refreshRaw = ''new''\<rparr>"

definition toy_session_row :: refresh_token where
  "toy_session_row = \<lparr>rt_id = 1, rt_accountId = ''a'', rt_tokenHash = ''old'', rt_userAgent = Some ''ua'', rt_ip = None,
     rt_expiresAt = 1000, rt_revokedAt = None, rt_lastSeenAt = None, rt_createdAt = 0\<rparr>"

definition toy_sessions :: session_state where
  "toy_sessions = \<lparr>ss_accounts = [toy_account ''a''], ss_profiles = [], ss_groups = [], ss_members = [],
     ss_tokens = [toy_session_row], ss_nextId = 2, ss_log = [], ss_twoFactor = toy_tf_state, ss_challenges = (\<lambda>_. None),
     ss_risk = toy_lr_state, ss_mfa = toy_login_state\<rparr>"

definition toy_request :: auth_request where
  "toy_request = \<lparr>rq_public = False, rq_strategies = None, rq_apiKey = None, rq_authorization = Some ''Bearer T'',
     rq_ip = None, rq_global = None, rq_domain = None, rq_domainId = None\<rparr>"

lemma toy_tokens_ok: "tokens_ok toy_sessions"
  by (simp add: tokens_ok_def toy_sessions_def toy_session_row_def)

theorem revoked_session_stays_dead_witness:
  "\<exists>st'. auth_guard toy_session_env toy_request 7
      \<lparr>as_sessions = fold (se_exec toy_session_env) [SRefresh toy_draws ''old'' None None 6]
         (snd (revokeSession None ''a'' 1 5 toy_sessions)), as_tokens = toy_tk_state\<rparr>
    = (Inl (HttpException UNAUTHORIZED ''Unauthorized''), st')"
proof -
  have "revokeSession None ''a'' 1 5 toy_sessions = (Inr (), snd (revokeSession None ''a'' 1 5 toy_sessions))"
    by (simp add: revokeSession_def toy_sessions_def toy_session_row_def Let_def)
  then have "ends_session toy_session_env 1 toy_sessions (snd (revokeSession None ''a'' 1 5 toy_sessions))"
    unfolding ends_session_def by metis
  then show ?thesis
    by (rule revoked_session_stays_dead [OF toy_tokens_ok, where token = "''T''"
          and p = "\<lparr>jp_sub = ''a'', jp_email = ''a'', jp_isRoot = False, jp_sid = Some 1\<rparr>"])
       (simp_all add: toy_request_def toy_session_env_def truthy_def)
qed

section \<open>Refreshing\<close>

lemma saved_row_ids: "x \<in> set rows \<Longrightarrow> key x = key t \<Longrightarrow> map key (save_row key t rows) = map key rows"
  by (simp add: save_row_replaces comp_def)

text \<open>Refreshing replaces a session's secret in place: the row is the one the old secret named, neither
  revoked nor expired, and keeps its identifier, account and sign-in time while its secret and its expiry are
  new; no row is added and none of the others changes, the secrets stay unique, the access token names that
  row, and the old secret is refused from then on.\<close>
theorem refresh_rotates_in_place:
  assumes "tokens_ok st" and "refresh env draws raw ua ip now st = (Inr i, st')"
    and "sv_sha256 env (sd_refreshRaw draws) \<notin> rt_tokenHash ` set (ss_tokens st)"
  shows "\<exists>t t' a. t \<in> set (ss_tokens st) \<and> rt_tokenHash t = sv_sha256 env raw \<and> rt_revokedAt t = None \<and> now \<le> rt_expiresAt t
    \<and> session_row (rt_id t) st' = Some t'
    \<and> rt_accountId t' = rt_accountId t \<and> rt_createdAt t' = rt_createdAt t \<and> rt_revokedAt t' = None
    \<and> rt_tokenHash t' = sv_sha256 env (is_refreshToken i) \<and> rt_expiresAt t' = now + sv_refreshTtl env * 1000
    \<and> find_account (rt_accountId t) (ss_accounts st) = Some a
    \<and> is_accessToken i = sv_sign env (payload_of a (rt_id t)) now
    \<and> map rt_id (ss_tokens st') = map rt_id (ss_tokens st)
    \<and> (\<forall>x \<in> set (ss_tokens st). rt_id x \<noteq> rt_id t \<longrightarrow> x \<in> set (ss_tokens st'))
    \<and> tokens_ok st'
    \<and> refresh env draws' raw ua' ip' now' st' = (Inl (HttpException UNAUTHORIZED ''Refresh token invalid''), st')"
proof -
  let ?h = "sv_sha256 env (sd_refreshRaw draws)"
  from assms(2) obtain t a where found: "List.find (\<lambda>t. rt_tokenHash t = sv_sha256 env raw) (ss_tokens st) = Some t"
    and live: "rt_revokedAt t = None" "now \<le> rt_expiresAt t"
    and a: "find_account (rt_accountId t) (ss_accounts st) = Some a"
    by (auto simp: refresh_def Let_def split: option.splits if_splits)
  define t' where "t' = (let t1 = t\<lparr>rt_tokenHash := ?h, rt_expiresAt := now + sv_refreshTtl env * 1000\<rparr>;
      t2 = (case ua of None \<Rightarrow> t1 | Some u \<Rightarrow> t1\<lparr>rt_userAgent := Some u\<rparr>)
    in case ip of None \<Rightarrow> t2 | Some p \<Rightarrow> t2\<lparr>rt_ip := Some p\<rparr>)"
  have t': "rt_id t' = rt_id t" "rt_accountId t' = rt_accountId t" "rt_createdAt t' = rt_createdAt t" "rt_revokedAt t' = None"
    "rt_tokenHash t' = ?h" "rt_expiresAt t' = now + sv_refreshTtl env * 1000"
    using live by (auto simp: t'_def Let_def split: option.splits)
  from assms(2) have st': "st' = ss_saveToken t' st" and i: "is_refreshToken i = sd_refreshRaw draws"
    "is_accessToken i = sv_sign env (payload_of a (rt_id t)) now"
    using found live a t' by (auto simp: refresh_def t'_def Let_def signAccessToken_def)
  from found have t: "t \<in> set (ss_tokens st)" "rt_tokenHash t = sv_sha256 env raw" by (auto dest: find_in_set)
  have ids: "map rt_id (ss_tokens st') = map rt_id (ss_tokens st)"
    using saved_row_ids [OF t(1), of rt_id t'] t' by (simp add: st')
  have "distinct (map rt_tokenHash (save_row rt_id t' (ss_tokens st)))"
  proof (rule distinct_save_other)
    show "\<forall>x \<in> set (ss_tokens st). rt_id x \<noteq> rt_id t' \<longrightarrow> rt_tokenHash x \<noteq> rt_tokenHash t'"
      using assms(3) t'(5) by (metis imageI)
  qed (use assms(1) in \<open>simp_all add: tokens_ok_def\<close>)
  then have ok: "tokens_ok st'"
    using assms(1) ids t t' by (auto simp: tokens_ok_def st' set_save_row)
  have old: "rt_tokenHash x \<noteq> sv_sha256 env raw" if x: "x \<in> set (ss_tokens st')" for x
  proof (cases "x = t'")
    case True
    then show ?thesis using t assms(3) t'(5) by (metis imageI)
  next
    case False
    with x have "x \<in> set (ss_tokens st)" "rt_id x \<noteq> rt_id t" by (auto simp: st' set_save_row t')
    with same_hash [OF assms(1) this(1) t(1)] t(2) show ?thesis by auto
  qed
  then have gone: "List.find (\<lambda>t. rt_tokenHash t = sv_sha256 env raw) (ss_tokens st') = None"
    by (auto simp: find_None_iff)
  have row: "session_row (rt_id t) st' = Some t'"
    using find_save_same [of rt_id t' "ss_tokens st"] t'(1) by (simp add: session_row_def st')
  have others: "\<forall>x \<in> set (ss_tokens st). rt_id x \<noteq> rt_id t \<longrightarrow> x \<in> set (ss_tokens st')"
    by (simp add: st' set_save_row t')
  have refused: "refresh env draws' raw ua' ip' now' st' = (Inl (HttpException UNAUTHORIZED ''Refresh token invalid''), st')"
    by (simp add: refresh_def gone)
  show ?thesis
    using t live row t' a i ids others ok refused by (intro exI [of _ t] exI [of _ t'] exI [of _ a]) simp
qed

theorem refresh_rotates_in_place_witness:
  "\<exists>i st'. refresh toy_session_env toy_draws ''old'' None (Some ''ip'') 5 toy_sessions = (Inr i, st')
     \<and> refresh toy_session_env toy_draws ''old'' None None 6 st' = (Inl (HttpException UNAUTHORIZED ''Refresh token invalid''), st')"
proof -
  obtain i st' where run: "refresh toy_session_env toy_draws ''old'' None (Some ''ip'') 5 toy_sessions = (Inr i, st')"
    by (simp add: refresh_def toy_sessions_def toy_session_row_def toy_session_env_def find_account_def toy_account_def Let_def)
  have "sv_sha256 toy_session_env (sd_refreshRaw toy_draws) \<notin> rt_tokenHash ` set (ss_tokens toy_sessions)"
    by (simp add: toy_session_env_def toy_draws_def toy_sessions_def toy_session_row_def)
  from refresh_rotates_in_place [OF toy_tokens_ok run this, of toy_draws None None 6] run show ?thesis by blast
qed

section \<open>The second factor\<close>

lemma finish_tokens:
  assumes "finishSession env ctx draws a ua ip w now st = (i, st')"
  shows "ss_tokens st' = ss_tokens (revokeDeviceSessions (ac_id a) ua ip now st)
      @ [\<lparr>rt_id = ss_nextId st, rt_accountId = ac_id a, rt_tokenHash = sv_sha256 env (is_refreshToken i), rt_userAgent = ua,
          rt_ip = ip, rt_expiresAt = now + sv_refreshTtl env * 1000, rt_revokedAt = None, rt_lastSeenAt = None, rt_createdAt = now\<rparr>]"
  using finish_parts [of env ctx draws a ua ip w now st] assms by auto

lemma finish_stores:
  assumes "finishSession env ctx draws a ua ip w now st = (i, st')"
  shows "ss_challenges st' = ss_challenges st" "ss_twoFactor st' = ss_twoFactor st"
  using assms
  by (auto simp: finishSession_def issueTokens_def revokeDeviceSessions_def ss_note_def ss_saveAccount_def Let_def split: if_splits)

lemma revoke_device_size [simp]: "length (ss_tokens (revokeDeviceSessions a ua ip now st)) = length (ss_tokens st)"
  by (simp add: revokeDeviceSessions_def update_where_def)

text \<open>C1: The second factor is never skipped. The shared tail of every sign-in (\<open>openSessionFor\<close>) opens no session
  for an account that has an authenticator app: it answers a challenge and adds no row. The second step
  (\<open>completeTwoFactor\<close>) opens one only when the challenge was still good for that account, the code was
  accepted for it, and the account is enabled; the challenge is then used up, and exactly one row is added.
  A refused second step leaves the session table as it was.\<close>
theorem second_factor_never_skipped:
  "(tf_isEnabled (ac_id a) (ss_twoFactor st) \<longrightarrow>
      (\<exists>c t st'. openSessionFor env ctx draws a ua ip now st = (TwoFactorRequired c t, st')
         \<and> ss_tokens st' = ss_tokens st \<and> c = sd_challenge draws))
   \<and> (case completeTwoFactor env ctx draws challenge code ua ip now st of
        (Inl e, st') \<Rightarrow> ss_tokens st' = ss_tokens st
      | (Inr i, st') \<Rightarrow> \<exists>k acc.
          fst (tf_attempt challenge now (ss_challenges st)) = Some k
        \<and> fst (verifyForLogin (le_crypto (sv_login env)) k code now (ss_twoFactor st)) = Inr True
        \<and> acc \<in> set (ss_accounts st) \<and> ac_id acc = k \<and> ac_enabled acc = 1
        \<and> ss_challenges st' challenge = None
        \<and> length (ss_tokens st') = Suc (length (ss_tokens st))
        \<and> rt_accountId (last (ss_tokens st')) = k)"
proof
  show "tf_isEnabled (ac_id a) (ss_twoFactor st) \<longrightarrow>
      (\<exists>c t st'. openSessionFor env ctx draws a ua ip now st = (TwoFactorRequired c t, st')
         \<and> ss_tokens st' = ss_tokens st \<and> c = sd_challenge draws)"
    by (auto simp: openSessionFor_def Let_def tf_mint_def split: option.splits)
next
  obtain r st' where run: "completeTwoFactor env ctx draws challenge code ua ip now st = (r, st')" by force
  obtain found store where attempt: "tf_attempt challenge now (ss_challenges st) = (found, store)" by force
  show "case completeTwoFactor env ctx draws challenge code ua ip now st of
        (Inl e, st') \<Rightarrow> ss_tokens st' = ss_tokens st
      | (Inr i, st') \<Rightarrow> \<exists>k acc.
          fst (tf_attempt challenge now (ss_challenges st)) = Some k
        \<and> fst (verifyForLogin (le_crypto (sv_login env)) k code now (ss_twoFactor st)) = Inr True
        \<and> acc \<in> set (ss_accounts st) \<and> ac_id acc = k \<and> ac_enabled acc = 1
        \<and> ss_challenges st' challenge = None
        \<and> length (ss_tokens st') = Suc (length (ss_tokens st))
        \<and> rt_accountId (last (ss_tokens st')) = k"
  proof (cases r)
    case (Inl e)
    with run attempt show ?thesis
      by (auto simp: completeTwoFactor_def Let_def split: option.splits prod.splits sum.splits bool.splits)
  next
    case (Inr i)
    with run attempt obtain k t acc where k: "found = Some k"
      "verifyForLogin (le_crypto (sv_login env)) k code now (ss_twoFactor st) = (Inr True, t)"
      "enabled_account k (st\<lparr>ss_twoFactor := t, ss_challenges := tf_settle challenge store\<rparr>) = Some acc"
      "finishSession env ctx draws acc ua ip None now (st\<lparr>ss_twoFactor := t, ss_challenges := tf_settle challenge store\<rparr>) = (i, st')"
      by (auto simp: completeTwoFactor_def Let_def split: option.splits prod.splits sum.splits bool.splits)
    from k(3) have acc: "acc \<in> set (ss_accounts st)" "ac_id acc = k" "ac_enabled acc = 1"
      by (auto simp: enabled_account_def dest!: find_in_set)
    have "ss_challenges st' challenge = None" using finish_stores(1) [OF k(4)] by (simp add: tf_settle_def)
    with run Inr attempt k acc finish_tokens [OF k(4)] show ?thesis by auto
  qed
qed

theorem second_factor_never_skipped_witness:
  "\<exists>c t st'. openSessionFor toy_session_env None toy_draws (toy_account ''a'') None None 5 toy_sessions = (TwoFactorRequired c t, st')
     \<and> ss_tokens st' = [toy_session_row]"
proof -
  have "tf_isEnabled (ac_id (toy_account ''a'')) (ss_twoFactor toy_sessions)"
    by (simp add: tf_isEnabled_def tf_row_def toy_tf_state_def toy_row_def toy_sessions_def toy_account_def)
  with second_factor_never_skipped [THEN conjunct1, of "toy_account ''a''" toy_sessions toy_session_env None toy_draws None None 5]
  show ?thesis by (auto simp: toy_sessions_def)
qed

section \<open>One session per device\<close>

definition device_sessions :: "string \<Rightarrow> string option \<Rightarrow> string option \<Rightarrow> session_state \<Rightarrow> refresh_token list" where
  "device_sessions a ua ip st =
     filter (\<lambda>t. rt_accountId t = a \<and> rt_userAgent t = ua \<and> rt_ip t = ip \<and> rt_revokedAt t = None) (ss_tokens st)"

text \<open>A sign-in that opens a session from a device with a fingerprint (a user agent or an address) leaves
  that account exactly one session on that device that is not revoked, the one whose secret was just handed
  out, and no row that was there changes but the ones of that device, which are revoked.\<close>
theorem one_session_per_device:
  assumes "openSessionFor env ctx draws a ua ip now st = (Opened i, st')"
    and "(ua \<noteq> None \<and> ua \<noteq> Some []) \<or> (ip \<noteq> None \<and> ip \<noteq> Some [])"
  shows "(\<exists>t. device_sessions (ac_id a) ua ip st' = [t] \<and> rt_id t = ss_nextId st
        \<and> rt_tokenHash t = sv_sha256 env (is_refreshToken i) \<and> rt_expiresAt t = now + sv_refreshTtl env * 1000)
    \<and> (\<forall>x \<in> set (ss_tokens st). x \<notin> set (device_sessions (ac_id a) ua ip st) \<longrightarrow> x \<in> set (ss_tokens st'))
    \<and> (\<forall>x \<in> set (device_sessions (ac_id a) ua ip st). x\<lparr>rt_revokedAt := Some now\<rparr> \<in> set (ss_tokens st'))"
proof -
  from assms(1) obtain w st0 where fin: "finishSession env ctx draws a ua ip w now st0 = (i, st')"
    and st0: "ss_tokens st0 = ss_tokens st" "ss_nextId st0 = ss_nextId st"
    by (auto simp: openSessionFor_def Let_def split: if_splits option.splits prod.splits)
  let ?P = "\<lambda>t. rt_accountId t = ac_id a \<and> rt_userAgent t = ua \<and> rt_ip t = ip \<and> rt_revokedAt t = None"
  have rev: "ss_tokens (revokeDeviceSessions (ac_id a) ua ip now st0) = update_where ?P (\<lambda>t. t\<lparr>rt_revokedAt := Some now\<rparr>) (ss_tokens st)"
    using assms(2) st0 by (auto simp: revokeDeviceSessions_def)
  have none: "filter ?P (update_where ?P (\<lambda>t. t\<lparr>rt_revokedAt := Some now\<rparr>) rows) = []" for rows :: "refresh_token list"
    by (induction rows) (auto simp: update_where_def)
  show ?thesis
    using finish_tokens [OF fin] st0(2) by (auto simp: device_sessions_def rev none) (auto simp: update_where_def)
qed

theorem one_session_per_device_witness:
  "\<exists>i st' t. openSessionFor toy_session_env None toy_draws (toy_account ''b'') (Some ''ua'') None 5 toy_sessions = (Opened i, st')
     \<and> device_sessions ''b'' (Some ''ua'') None st' = [t]"
proof -
  have w: "sv_locate toy_session_env None = None" by (simp add: toy_session_env_def)
  have "\<not> tf_isEnabled ''b'' toy_tf_state" by (simp add: tf_isEnabled_def tf_row_def toy_tf_state_def toy_row_def)
  then obtain i st' where run: "openSessionFor toy_session_env None toy_draws (toy_account ''b'') (Some ''ua'') None 5 toy_sessions = (Opened i, st')"
  proof -
    assume go: "\<And>i st'. openSessionFor toy_session_env None toy_draws (toy_account ''b'') (Some ''ua'') None 5 toy_sessions
        = (Opened i, st') \<Longrightarrow> thesis"
    obtain i st' where "finishSession toy_session_env None toy_draws (toy_account ''b'') (Some ''ua'') None (Some None) 5 toy_sessions
        = (i, st')" by force
    moreover have "ra_suspicious (assess (sv_settings toy_session_env) ''b'' None None 5 (ss_risk toy_sessions)) = None"
      by (simp add: assess_def)
    moreover have "ss_twoFactor toy_sessions = toy_tf_state" "ac_id (toy_account ''b'') = ''b''"
        "ac_lastLogin (toy_account ''b'') = None"
      by (simp_all add: toy_sessions_def toy_account_def)
    ultimately show thesis
      using \<open>\<not> tf_isEnabled ''b'' toy_tf_state\<close> by (intro go) (simp add: openSessionFor_def Let_def w)
  qed
  from one_session_per_device [OF run] run show ?thesis by (auto simp: toy_account_def)
qed

section \<open>A narrowed key\<close>

lemma refuse_entries_eq:
  "refuse_entries allows es = (if \<forall>e \<in> set es. allows e then Inr ()
     else Inl (HttpException FORBIDDEN ''This API key is not scoped for''))"
  by (induction es) auto

text \<open>
  What a scope promises, said without the code's own comparison: the first entry it has for the resource, on that
  domain in the domain tier, names every action demanded, \<open>access\<close> alone going without saying.
\<close>

definition names_each :: "string list option \<Rightarrow> string list \<Rightarrow> bool" where
  "names_each granted demanded = (\<exists>g. granted = Some g \<and> (\<forall>a \<in> set demanded. a = ''access'' \<or> a \<in> set g))"

definition within_scope :: "auth_request \<Rightarrow> token_scopes \<Rightarrow> bool" where
  "within_scope req scopes =
    ((entries_of (rq_global req) \<noteq> [] \<or> entries_of (rq_domain req) \<noteq> [])
    \<and> (\<forall>(r, acts) \<in> set (entries_of (rq_global req)).
         names_each (map_option se_actions (List.find (\<lambda>e. se_resource e = r) (sc_global scopes))) acts)
    \<and> (entries_of (rq_domain req) \<noteq> [] \<longrightarrow> (\<exists>d. rq_domainId req = Some d
         \<and> (\<forall>(r, acts) \<in> set (entries_of (rq_domain req)). names_each (map_option se_actions
              (List.find (\<lambda>e. se_domainId e = d \<and> se_resource e = r) (sc_domain scopes))) acts))))"

lemma covers_names_each:
  "covers (map_option (\<lambda>e. withAccess (se_actions e)) x) (withAccess demanded) = names_each (map_option se_actions x) demanded"
  by (cases x) (auto simp: covers_def names_each_def withAccess_def)

lemma within_scope_allows:
  "within_scope req scopes =
    ((entries_of (rq_global req) \<noteq> [] \<or> entries_of (rq_domain req) \<noteq> [])
    \<and> (\<forall>(r, acts) \<in> set (entries_of (rq_global req)). scopeAllowsGlobal scopes r acts)
    \<and> (entries_of (rq_domain req) \<noteq> [] \<longrightarrow> (\<exists>d. rq_domainId req = Some d
         \<and> (\<forall>(r, acts) \<in> set (entries_of (rq_domain req)). scopeAllowsDomain scopes d r acts))))"
  by (simp add: within_scope_def scopeAllowsGlobal_def scopeAllowsDomain_def covers_names_each)

lemma out_of_scope:
  "if within_scope req scopes then refuseOutOfScope req scopes = Inr ()
   else (\<exists>m. refuseOutOfScope req scopes = Inl (HttpException FORBIDDEN m))"
  by (auto simp: refuseOutOfScope_def refuse_entries_eq within_scope_allows split: option.splits)

text \<open>C18: A key is capped by its scope: a request that authenticates by a narrowed key, on a route that takes keys
  first, goes on as the key's account exactly when the route demands at least one permission, the scope's entry for
  each resource demanded of the global tier names every action demanded of it (access alone goes without saying),
  and, if anything is demanded of the domain tier, the route names a domain and the scope's entry for each resource
  on that domain names every action demanded. Otherwise it is answered 403, and a bearer token sent along is not
  tried.\<close>
theorem narrowed_key_stays_in_scope:
  assumes "\<not> rq_public req" and "rq_strategies req = None \<or> rq_strategies req = Some (AuthApiToken # others)"
    and "rq_apiKey req = Some key" and "key \<noteq> []"
    and "tk_validate (le_crypto (sv_login env)) key (or_empty (rq_ip req)) now (as_tokens st) = (Inr (Some (u, Some scopes)), t)"
  shows "if within_scope req scopes
    then auth_guard env req now st
      = (Inr (Some \<lparr>us_id = ru_id u, us_email = ru_email u, us_isRoot = ru_isRoot u\<rparr>), st\<lparr>as_tokens := t\<rparr>)
    else (\<exists>m. auth_guard env req now st = (Inl (HttpException FORBIDDEN m), st\<lparr>as_tokens := t\<rparr>))"
proof -
  have "try_api_key env req now st = (case refuseOutOfScope req scopes of
      Inl e \<Rightarrow> (Inl e, st\<lparr>as_tokens := t\<rparr>)
    | Inr _ \<Rightarrow> (Inr (Some \<lparr>us_id = ru_id u, us_email = ru_email u, us_isRoot = ru_isRoot u\<rparr>), st\<lparr>as_tokens := t\<rparr>))"
    using assms(3-5) by (simp add: try_api_key_def truthy_def Let_def split: sum.splits)
  then show ?thesis
    using out_of_scope [of req scopes] assms(1,2) by (auto simp: auth_guard_def Let_def split: if_splits)
qed

definition toy_scoped_tokens :: tk_state where
  "toy_scoped_tokens = toy_tk_state\<lparr>tks_rows := [toy_token\<lparr>tk_allowedIps := None, tk_scopes := serialiseScopes (Some toy_scopes)\<rparr>]\<rparr>"

lemma toy_scoped_key:
  "\<exists>t. tk_validate toy_hex_crypto ''sms_x.y'' [] 7 toy_scoped_tokens
     = (Inr (Some (\<lparr>ru_id = ''a'', ru_email = ''a@x'', ru_isRoot = False\<rparr>, Some toy_scopes)), t)"
proof -
  have ok: "tk_ok toy_scoped_tokens"
    by (simp add: tk_ok_def toy_scoped_tokens_def toy_tk_state_def toy_token_def)
  have row: "tk_row ''x'' toy_scoped_tokens = Some (toy_token\<lparr>tk_allowedIps := None, tk_scopes := serialiseScopes (Some toy_scopes)\<rparr>)"
    by (simp add: tk_row_def toy_scoped_tokens_def toy_token_def)
  have scopes: "parseScopes (serialiseScopes (Some toy_scopes)) = Some toy_scopes"
    by (simp add: toy_scopes_def serialiseScopes_def parseScopes_def)
  show ?thesis
    unfolding tk_validate_accepts [OF ok]
    using toy_key toy_key_facts row scopes
    by (simp add: usable_def toy_token_def toy_scoped_tokens_def toy_tk_state_def find_account_def)
qed

text \<open>A key scoped to reading the domains: a route that demands to read and to create is closed to it, one that
  demands to read is open.\<close>

theorem narrowed_key_stays_in_scope_witness:
  "(\<exists>m st'. auth_guard (toy_session_env\<lparr>sv_login := toy_env\<lparr>le_crypto := toy_hex_crypto\<rparr>\<rparr>)
       (toy_request\<lparr>rq_apiKey := Some ''sms_x.y'', rq_global := Some [(''domains'', [''read'', ''create''])]\<rparr>) 7
       \<lparr>as_sessions = toy_sessions, as_tokens = toy_scoped_tokens\<rparr> = (Inl (HttpException FORBIDDEN m), st'))
   \<and> (\<exists>u st'. auth_guard (toy_session_env\<lparr>sv_login := toy_env\<lparr>le_crypto := toy_hex_crypto\<rparr>\<rparr>)
       (toy_request\<lparr>rq_apiKey := Some ''sms_x.y'', rq_global := Some [(''domains'', [''read''])]\<rparr>) 7
       \<lparr>as_sessions = toy_sessions, as_tokens = toy_scoped_tokens\<rparr> = (Inr (Some u), st'))"
proof -
  obtain t where t: "tk_validate toy_hex_crypto ''sms_x.y'' [] 7 toy_scoped_tokens
     = (Inr (Some (\<lparr>ru_id = ''a'', ru_email = ''a@x'', ru_isRoot = False\<rparr>, Some toy_scopes)), t)"
    using toy_scoped_key by blast
  have guard: "if within_scope (toy_request\<lparr>rq_apiKey := Some ''sms_x.y'', rq_global := Some es\<rparr>) toy_scopes
      then \<exists>u st'. auth_guard (toy_session_env\<lparr>sv_login := toy_env\<lparr>le_crypto := toy_hex_crypto\<rparr>\<rparr>)
         (toy_request\<lparr>rq_apiKey := Some ''sms_x.y'', rq_global := Some es\<rparr>) 7
         \<lparr>as_sessions = toy_sessions, as_tokens = toy_scoped_tokens\<rparr> = (Inr (Some u), st')
      else \<exists>m st'. auth_guard (toy_session_env\<lparr>sv_login := toy_env\<lparr>le_crypto := toy_hex_crypto\<rparr>\<rparr>)
         (toy_request\<lparr>rq_apiKey := Some ''sms_x.y'', rq_global := Some es\<rparr>) 7
         \<lparr>as_sessions = toy_sessions, as_tokens = toy_scoped_tokens\<rparr> = (Inl (HttpException FORBIDDEN m), st')" for es
    using narrowed_key_stays_in_scope [where req = "toy_request\<lparr>rq_apiKey := Some ''sms_x.y'', rq_global := Some es\<rparr>"
        and key = "''sms_x.y''" and st = "\<lparr>as_sessions = toy_sessions, as_tokens = toy_scoped_tokens\<rparr>"
        and env = "toy_session_env\<lparr>sv_login := toy_env\<lparr>le_crypto := toy_hex_crypto\<rparr>\<rparr>" and t = t
        and scopes = toy_scopes and now = 7] t
    by (simp add: toy_request_def or_empty_def split: if_splits) blast
  have "\<not> within_scope (toy_request\<lparr>rq_apiKey := Some ''sms_x.y'', rq_global := Some [(''domains'', [''read'', ''create''])]\<rparr>)
      toy_scopes"
    by (simp add: within_scope_def names_each_def toy_request_def entries_of_def toy_scopes_def)
  moreover have "within_scope (toy_request\<lparr>rq_apiKey := Some ''sms_x.y'', rq_global := Some [(''domains'', [''read''])]\<rparr>)
      toy_scopes"
    by (simp add: within_scope_def names_each_def toy_request_def entries_of_def toy_scopes_def)
  ultimately show ?thesis using guard by presburger
qed

end
