(* ===== verification/MailState.thy ===== *)
theory MailState imports MailTables Activity begin

text \<open>
  What the administration of domains, mailboxes, aliases and delegations shares: the tables they
  read and write as one state, the invitations of \<open>account-invitation.entity.ts\<close>, the reserved local
  parts of \<open>reserved-mailboxes.ts\<close>, and the dates a row is valid between. Identifiers the database
  draws are arguments of the operations that insert. A JavaScript number is exact up to \<open>2 ^ 53\<close>, far
  above any sum of byte counts the validation lets in (a grant is at most \<open>2 ^ 50\<close> bytes): integers.
  The timestamps the database refreshes by itself on an update (\<open>last_activity\<close>, \<open>updated_at\<close>) stay as inserted.
\<close>

section \<open>Invitations\<close>

text \<open>A \<open>text\<close> column holding JSON: \<open>NULL\<close>, what does not parse, or the value.\<close>

type_synonym json_column = "json option option"

record account_invitation =
  iv_id :: int
  iv_token :: string
  iv_email :: "string option"
  iv_invitedBy :: "string option"
  iv_groupId :: "string option"
  iv_groupIds :: json_column
  iv_recipientIds :: json_column
  iv_aliasIds :: json_column
  iv_ownerDomainId :: "int option"
  iv_delegationDomainId :: "int option"
  iv_delegationMaxRecipients :: "int option"
  iv_delegationMaxAliases :: "int option"
  iv_delegationQuotaMb :: "int option"
  iv_note :: "string option"
  iv_acceptedAt :: "time option"
  iv_expiresAt :: "time option"
  iv_createdAt :: time

section \<open>The tables\<close>

record invitation_mail =
  im_to :: string
  im_link :: string
  im_fromDomain :: string
  im_groupNames :: "string list"

record mail_state =
  ms_domains :: "virtual_domain list"
  ms_users :: "virtual_user list"
  ms_aliases :: "virtual_alias list"
  ms_quotaUsers :: "virtual_quota_user list"
  ms_quotaDomains :: "virtual_quota_domain list"
  ms_delegations :: "domain_delegation list"
  ms_invitations :: "account_invitation list"
  ms_accounts :: "account list"
  ms_journal :: "activity_row list"
  ms_audit :: "audit_log list"
  ms_mails :: "invitation_mail list"
  ms_erased :: "string list list"

text \<open>
  What the services take from outside: the configured public address, whether handing a mail over
  fails, what \<open>openssl passwd -6 -salt\<close> prints for a salt and a password, the salt drawn, and whether
  a directory can be erased.
\<close>

record mail_env =
  me_managerUrl :: "string option"
  me_mailFails :: "invitation_mail \<Rightarrow> bool"
  me_openssl :: "string \<Rightarrow> string \<Rightarrow> string"
  me_salt :: string
  me_eraseFails :: "string \<Rightarrow> bool"
  me_mailVolume :: string

text \<open>\<open>core/common/sha512-crypt.ts\<close>; the salt of a hash is what stands between its second and third \<open>$\<close>.\<close>

definition sha512crypt :: "mail_env \<Rightarrow> string \<Rightarrow> string" where
  "sha512crypt env plain = str_trim (me_openssl env (me_salt env) plain)"

definition salt_of :: "string \<Rightarrow> string option" where
  "salt_of hash =
     (if take 3 hash \<noteq> ''$6$'' then None
      else let body = drop 3 hash; salt = takeWhile (\<lambda>c. c \<noteq> CHR ''$'') body
           in if salt = [] \<or> length salt = length body then None else Some salt)"

definition sha512cryptMatches :: "mail_env \<Rightarrow> string \<Rightarrow> string \<Rightarrow> bool" where
  "sha512cryptMatches env plain hash =
     (case salt_of hash of None \<Rightarrow> False | Some salt \<Rightarrow> str_trim (me_openssl env salt plain) = hash)"

definition show_int :: "int \<Rightarrow> string" where
  "show_int i = (if i < 0 then CHR ''-'' # show_nat (nat (- i)) else show_nat (nat i))"

definition MB :: int where "MB = 1024 * 1024"

lemma MB_pos [simp]: "0 < MB" "MB \<noteq> 0" "0 \<le> MB"
  by (simp_all add: MB_def)

definition find_domain :: "int \<Rightarrow> mail_state \<Rightarrow> virtual_domain option" where
  "find_domain i st = List.find (\<lambda>d. vd_id d = i) (ms_domains st)"

definition find_domain_named :: "string \<Rightarrow> mail_state \<Rightarrow> virtual_domain option" where
  "find_domain_named fqdn st = List.find (\<lambda>d. vd_domain d = fqdn) (ms_domains st)"

section \<open>Dates\<close>

definition UNBOUNDED_START_DATE :: string where "UNBOUNDED_START_DATE = ''1970-01-01''"

text \<open>JavaScript's \<open><\<close> on strings, code unit by code unit.\<close>

fun str_less :: "string \<Rightarrow> string \<Rightarrow> bool" where
  "str_less xs [] = False"
| "str_less [] (y # ys) = True"
| "str_less (x # xs) (y # ys) =
     (let a = of_char x :: nat; b = of_char y in a < b \<or> a = b \<and> str_less xs ys)"

text \<open>\<open>new Date(t).toISOString().slice(0, 10)\<close>: the civil date of a day since 1970.\<close>

definition iso_date :: "time \<Rightarrow> string" where
  "iso_date t =
     (let z = t div 86400000 + 719468; era = z div 146097; doe = z - era * 146097;
          yoe = (doe - doe div 1460 + doe div 36524 - doe div 146096) div 365;
          doy = doe - (365 * yoe + yoe div 4 - yoe div 100); mp = (5 * doy + 2) div 153;
          d = doy - (153 * mp + 2) div 5 + 1; m = (if mp < 10 then mp + 3 else mp - 9);
          y = yoe + era * 400 + (if m \<le> 2 then 1 else 0)
      in padStart 4 (CHR ''0'') (show_int y) @ ''-'' @ padStart 2 (CHR ''0'') (show_int m) @ ''-''
         @ padStart 2 (CHR ''0'') (show_int d))"

text \<open>The start a body asks for: left out, today; \<open>null\<close>, the unbounded date.\<close>

definition start_date :: "time \<Rightarrow> string option option \<Rightarrow> string" where
  "start_date now input =
     (case input of None \<Rightarrow> iso_date now | Some None \<Rightarrow> UNBOUNDED_START_DATE | Some (Some s) \<Rightarrow> s)"

definition window_reversed :: "string \<Rightarrow> string option \<Rightarrow> bool" where
  "window_reversed start finish =
     (case finish of None \<Rightarrow> False
      | Some e \<Rightarrow> e \<noteq> [] \<and> str_less UNBOUNDED_START_DATE (take 10 start) \<and> str_less (take 10 e) (take 10 start))"

section \<open>Reserved local parts\<close>

definition DMARC_REPORTS_LOCAL_PART :: string where "DMARC_REPORTS_LOCAL_PART = ''dmarc_reports''"

definition RESERVED_LOCAL_PARTS :: "string list" where
  "RESERVED_LOCAL_PARTS = [''postmaster'', DMARC_REPORTS_LOCAL_PART]"

definition asReservedLocalPart :: "string \<Rightarrow> string option" where
  "asReservedLocalPart localPart =
     (let lower = toLowerCase localPart in if lower \<in> set RESERVED_LOCAL_PARTS then Some lower else None)"

definition ends_with :: "string \<Rightarrow> string \<Rightarrow> bool" where
  "ends_with s suffix = (length suffix \<le> length s \<and> drop (length s - length suffix) s = suffix)"

definition reservedLocalPartOf :: "string \<Rightarrow> string \<Rightarrow> string option" where
  "reservedLocalPartOf email domain =
     (let lower = toLowerCase email; suffix = ''@'' @ toLowerCase domain
      in if \<not> ends_with lower suffix then None
         else asReservedLocalPart (take (length lower - length suffix) lower))"

definition dmarcReportsAddress :: "string \<Rightarrow> string" where
  "dmarcReportsAddress domain = DMARC_REPORTS_LOCAL_PART @ ''@'' @ toLowerCase domain"

lemma reservedLocalPartOf_composed:
  "reservedLocalPartOf (localPart @ ''@'' @ domain) domain = asReservedLocalPart (toLowerCase localPart)"
  by (simp add: reservedLocalPartOf_def ends_with_def Let_def toLowerCase_def lower_char_def)

section \<open>Rows found after an update\<close>

lemma find_update_where:
  "(\<And>x. P (f x) = P x) \<Longrightarrow> List.find P (update_where P f rows) = map_option f (List.find P rows)"
  by (induction rows) (auto simp: update_where_def)

lemma find_update_other:
  "(\<And>x. P (f x) = P x) \<Longrightarrow> (\<And>x. Q x \<Longrightarrow> \<not> P x) \<Longrightarrow> List.find P (update_where Q f rows) = List.find P rows"
  by (induction rows) (auto simp: update_where_def)

end
