(* ===== verification/MailDb.thy ===== *)
theory MailDb imports MailState begin

text \<open>
  What the database itself does to the mail tables: the five triggers and the foreign keys of
  \<open>core/database/migrations/1782760166966-CreateVirtualMail.ts\<close>, on which the services lean. A trigger
  runs for each row a statement inserts, updates or deletes, and not for the rows a foreign key's
  cascade deletes. The counters of a mailbox are dovecot's to write.
\<close>

section \<open>The triggers\<close>

definition recount_domain :: "string \<Rightarrow> mail_state \<Rightarrow> mail_state" where
  "recount_domain fqdn st =
     st\<lparr>ms_quotaDomains := update_where (\<lambda>q. vqd_domain q = fqdn)
         (\<lambda>q. q\<lparr>vqd_bytes := sum_where vqu_bytes (\<lambda>u. vqu_domain u = fqdn) (ms_quotaUsers st),
                vqd_messages := sum_where vqu_messages (\<lambda>u. vqu_domain u = fqdn) (ms_quotaUsers st)\<rparr>)
         (ms_quotaDomains st)\<rparr>"

text \<open>\<open>virtual_quota_users_after_insert_agg\<close>.\<close>

definition insert_quota_user :: "virtual_quota_user \<Rightarrow> mail_state \<Rightarrow> mail_state" where
  "insert_quota_user q st = recount_domain (vqu_domain q) (st\<lparr>ms_quotaUsers := ms_quotaUsers st @ [q]\<rparr>)"

text \<open>\<open>virtual_users_after_insert_quota\<close>; \<open>uq_virtual_users_email\<close> refuses a repeated address, and the
  foreign key a domain that does not exist.\<close>

definition insert_user :: "int \<Rightarrow> time \<Rightarrow> virtual_user \<Rightarrow> mail_state \<Rightarrow> (virtual_user, mail_state) outcome" where
  "insert_user quotaId now u st =
     (if vu_email u \<in> vu_email ` set (ms_users st) then (Inl (Crash ''ER_DUP_ENTRY''), st)
      else if vu_domain u \<notin> vd_domain ` set (ms_domains st) then (Inl (Crash ''ER_NO_REFERENCED_ROW''), st)
      else let st1 = st\<lparr>ms_users := ms_users st @ [u]\<rparr>
           in (Inr u, if vu_email u \<in> vqu_email ` set (ms_quotaUsers st) then st1
                      else insert_quota_user \<lparr>vqu_id = quotaId, vqu_domain = vu_domain u, vqu_email = vu_email u,
                             vqu_bytes = 0, vqu_messages = 0, vqu_lastActivity = now\<rparr> st1))"

text \<open>\<open>virtual_domains_after_insert_quota\<close>.\<close>

definition insert_domain :: "int \<Rightarrow> time \<Rightarrow> virtual_domain \<Rightarrow> mail_state \<Rightarrow> (virtual_domain, mail_state) outcome" where
  "insert_domain quotaId now d st =
     (if vd_domain d \<in> vd_domain ` set (ms_domains st) then (Inl (Crash ''ER_DUP_ENTRY''), st)
      else (Inr d, st\<lparr>ms_domains := ms_domains st @ [d],
             ms_quotaDomains := (if vd_domain d \<in> vqd_domain ` set (ms_quotaDomains st) then ms_quotaDomains st
                else ms_quotaDomains st @ [\<lparr>vqd_id = quotaId, vqd_domain = vd_domain d, vqd_bytes = 0,
                                             vqd_messages = 0, vqd_lastActivity = now\<rparr>])\<rparr>))"

text \<open>\<open>virtual_quota_users_after_update_agg\<close>, on dovecot's writes.\<close>

definition dovecot_counts :: "string \<Rightarrow> int \<Rightarrow> int \<Rightarrow> mail_state \<Rightarrow> mail_state" where
  "dovecot_counts email bytes messages st =
     fold recount_domain (map vqu_domain (filter (\<lambda>q. vqu_email q = email) (ms_quotaUsers st)))
       (st\<lparr>ms_quotaUsers := update_where (\<lambda>q. vqu_email q = email)
            (\<lambda>q. q\<lparr>vqu_bytes := bytes, vqu_messages := messages\<rparr>) (ms_quotaUsers st)\<rparr>)"

text \<open>\<open>virtual_quota_users_after_delete_agg\<close>, on an explicit \<open>DELETE\<close>.\<close>

definition delete_quota_users :: "string \<Rightarrow> mail_state \<Rightarrow> mail_state" where
  "delete_quota_users email st =
     fold recount_domain (map vqu_domain (filter (\<lambda>q. vqu_email q = email) (ms_quotaUsers st)))
       (st\<lparr>ms_quotaUsers := delete_where (\<lambda>q. vqu_email q = email) (ms_quotaUsers st)\<rparr>)"

section \<open>The cascades\<close>

definition delete_user :: "virtual_user \<Rightarrow> mail_state \<Rightarrow> mail_state" where
  "delete_user u st =
     st\<lparr>ms_users := delete_where (\<lambda>x. vu_id x = vu_id u) (ms_users st),
        ms_quotaUsers := delete_where (\<lambda>q. vqu_email q = vu_email u) (ms_quotaUsers st)\<rparr>"

definition delete_domain :: "virtual_domain \<Rightarrow> mail_state \<Rightarrow> mail_state" where
  "delete_domain d st =
     (let gone = map vu_email (filter (\<lambda>u. vu_domain u = vd_domain d) (ms_users st))
      in st\<lparr>ms_domains := delete_where (\<lambda>x. vd_id x = vd_id d) (ms_domains st),
            ms_users := delete_where (\<lambda>u. vu_domain u = vd_domain d) (ms_users st),
            ms_aliases := delete_where (\<lambda>a. va_domain a = vd_domain d) (ms_aliases st),
            ms_quotaUsers := delete_where (\<lambda>q. vqu_domain q = vd_domain d \<or> vqu_email q \<in> set gone) (ms_quotaUsers st),
            ms_quotaDomains := delete_where (\<lambda>q. vqd_domain q = vd_domain d) (ms_quotaDomains st),
            ms_delegations := delete_where (\<lambda>r. dd_domainId r = vd_id d) (ms_delegations st),
            ms_invitations := update_where (\<lambda>i. iv_delegationDomainId i = Some (vd_id d))
              (\<lambda>i. i\<lparr>iv_delegationDomainId := None\<rparr>) (ms_invitations st)\<rparr>)"

section \<open>Soundness of the counters\<close>

text \<open>
  A domain's counters are the sums of its mailboxes': \<open>counted\<close> says so for one domain, \<open>counters_but\<close> for
  all but some.
\<close>

definition counted :: "mail_state \<Rightarrow> virtual_quota_domain \<Rightarrow> bool" where
  "counted st q = (vqd_bytes q = sum_where vqu_bytes (\<lambda>u. vqu_domain u = vqd_domain q) (ms_quotaUsers st)
     \<and> vqd_messages q = sum_where vqu_messages (\<lambda>u. vqu_domain u = vqd_domain q) (ms_quotaUsers st))"

definition counters_but :: "string set \<Rightarrow> mail_state \<Rightarrow> bool" where
  "counters_but F st = (\<forall>q \<in> set (ms_quotaDomains st). vqd_domain q \<in> F \<or> counted st q)"

lemma recount_other [simp]:
  "ms_quotaUsers (recount_domain f st) = ms_quotaUsers st" "ms_users (recount_domain f st) = ms_users st"
  "ms_domains (recount_domain f st) = ms_domains st" "ms_aliases (recount_domain f st) = ms_aliases st"
  "ms_delegations (recount_domain f st) = ms_delegations st"
  "ms_invitations (recount_domain f st) = ms_invitations st"
  "ms_accounts (recount_domain f st) = ms_accounts st" "ms_journal (recount_domain f st) = ms_journal st"
  "ms_audit (recount_domain f st) = ms_audit st" "ms_mails (recount_domain f st) = ms_mails st"
  "ms_erased (recount_domain f st) = ms_erased st"
  by (simp_all add: recount_domain_def)

lemma fold_recount_other [simp]:
  "ms_quotaUsers (fold recount_domain fs st) = ms_quotaUsers st" "ms_users (fold recount_domain fs st) = ms_users st"
  "ms_domains (fold recount_domain fs st) = ms_domains st" "ms_aliases (fold recount_domain fs st) = ms_aliases st"
  "ms_delegations (fold recount_domain fs st) = ms_delegations st"
  "ms_invitations (fold recount_domain fs st) = ms_invitations st"
  "ms_accounts (fold recount_domain fs st) = ms_accounts st" "ms_journal (fold recount_domain fs st) = ms_journal st"
  "ms_audit (fold recount_domain fs st) = ms_audit st" "ms_mails (fold recount_domain fs st) = ms_mails st"
  "ms_erased (fold recount_domain fs st) = ms_erased st"
  by (induction fs arbitrary: st) simp_all

lemma counted_cong: "ms_quotaUsers st = ms_quotaUsers st' \<Longrightarrow> counted st q = counted st' q"
  by (simp add: counted_def)

text \<open>A recount mends its own domain and leaves the others as they were.\<close>

lemma recount_mends: "counters_but F st \<Longrightarrow> counters_but (F - {f}) (recount_domain f st)"
proof -
  assume but: "counters_but F st"
  have "vqd_domain r \<in> F - {f} \<or> counted (recount_domain f st) r"
    if r: "r \<in> set (ms_quotaDomains (recount_domain f st))" for r
  proof -
    obtain q where q: "q \<in> set (ms_quotaDomains st)" and
      r_def: "r = (if vqd_domain q = f
        then q\<lparr>vqd_bytes := sum_where vqu_bytes (\<lambda>u. vqu_domain u = f) (ms_quotaUsers st),
               vqd_messages := sum_where vqu_messages (\<lambda>u. vqu_domain u = f) (ms_quotaUsers st)\<rparr> else q)"
      using r unfolding recount_domain_def update_where_def by auto
    show ?thesis
    proof (cases "vqd_domain q = f")
      case True
      then show ?thesis by (simp add: r_def counted_def)
    next
      case False
      then have "r = q" by (simp add: r_def)
      moreover have "counted (recount_domain f st) q = counted st q" by (rule counted_cong) simp
      moreover have "vqd_domain q \<in> F \<or> counted st q" using but q by (simp add: counters_but_def)
      ultimately show ?thesis using False by blast
    qed
  qed
  then show ?thesis by (simp add: counters_but_def)
qed

lemma fold_recount_mends: "counters_but F st \<Longrightarrow> counters_but (F - set fs) (fold recount_domain fs st)"
proof (induction fs arbitrary: F st)
  case (Cons f fs)
  have "F - {f} - set fs = F - set (f # fs)" by auto
  with Cons.IH [OF recount_mends [OF Cons.prems, of f]] show ?case by (simp only: fold_simps)
qed simp

lemma sum_where_other:
  "(\<And>x. x \<in> set rows \<Longrightarrow> P x \<Longrightarrow> \<not> Q x) \<Longrightarrow> sum_where f Q (delete_where P rows) = sum_where f Q rows"
  by (induction rows) (auto simp: sum_where_def delete_where_def)

lemma sum_where_update_other:
  "(\<And>x. P x \<Longrightarrow> Q x = Q (g x)) \<Longrightarrow> (\<And>x. x \<in> set rows \<Longrightarrow> P x \<Longrightarrow> \<not> Q x) \<Longrightarrow>
   sum_where f Q (update_where P g rows) = sum_where f Q rows"
  by (induction rows) (auto simp: sum_where_def update_where_def)

lemma sum_where_append [simp]: "sum_where f P (xs @ ys) = sum_where f P xs + sum_where f P ys"
  by (simp add: sum_where_def)

end
