(* ===== verification/MailStorage.thy ===== *)
theory MailStorage imports MailState begin

text \<open>
  \<open>core/mail-storage/mail-storage.service.ts\<close>: which directory an erasure may reach. A resolved path is
  the list of its components; \<open>resolve\<close>, \<open>join\<close> and \<open>relative\<close> are those of node's \<open>path\<close> on POSIX, the
  volume's own path being absolute. The trees erased are kept in order.
\<close>

type_synonym path = "string list"

definition VHOSTS_DIR :: string where "VHOSTS_DIR = ''vhosts''"

definition path_parts :: "string \<Rightarrow> path" where
  "path_parts s = filter (\<lambda>p. p \<noteq> []) (split_on (CHR ''/'') s)"

text \<open>\<open>.\<close> stays, \<open>..\<close> goes up, and the root has no parent.\<close>

fun walk_path :: "path \<Rightarrow> path \<Rightarrow> path" where
  "walk_path here [] = here"
| "walk_path here (p # ps) =
     walk_path (if p = ''.'' then here else if p = ''..'' then butlast here else here @ [p]) ps"

definition is_absolute :: "string \<Rightarrow> bool" where
  "is_absolute s = (take 1 s = ''/'')"

definition resolve_path :: "path \<Rightarrow> string \<Rightarrow> path" where
  "resolve_path root segment =
     (if is_absolute segment then walk_path [] (path_parts segment) else walk_path root (path_parts segment))"

fun relative_path :: "path \<Rightarrow> path \<Rightarrow> path" where
  "relative_path (x # xs) (y # ys) =
     (if x = y then relative_path xs ys else replicate (length (x # xs)) ''..'' @ y # ys)"
| "relative_path xs ys = replicate (length xs) ''..'' @ ys"

definition vhostsRoot :: "mail_env \<Rightarrow> path" where
  "vhostsRoot env = walk_path [] (path_parts (me_mailVolume env) @ [VHOSTS_DIR])"

text \<open>\<open>rel\<close> as text is its components joined: it is empty, or starts with its first component.\<close>

definition safeResolve :: "mail_env \<Rightarrow> string \<Rightarrow> path option" where
  "safeResolve env segment =
     (let root = vhostsRoot env; target = resolve_path root segment; rel = join_with ''/'' (relative_path root target)
      in if rel = [] then None
         else if take 2 rel = ''..'' \<or> is_absolute rel then None
         else Some target)"

definition removeTree :: "mail_env \<Rightarrow> path option \<Rightarrow> mail_state \<Rightarrow> bool \<times> mail_state" where
  "removeTree env target st =
     (case target of
        None \<Rightarrow> (False, st)
      | Some t \<Rightarrow>
          if me_eraseFails env (join_with ''/'' t) then (False, st)
          else (True, st\<lparr>ms_erased := ms_erased st @ [t]\<rparr>))"

definition removeDomainTree :: "mail_env \<Rightarrow> string \<Rightarrow> mail_state \<Rightarrow> bool \<times> mail_state" where
  "removeDomainTree env domain st = removeTree env (safeResolve env domain) st"

definition removeRecipientTree :: "mail_env \<Rightarrow> string \<Rightarrow> mail_state \<Rightarrow> bool \<times> mail_state" where
  "removeRecipientTree env maildir st = removeTree env (safeResolve env maildir) st"

section \<open>What may be erased\<close>

lemma relative_same: "relative_path (r @ xs) (r @ ys) = relative_path xs ys"
  by (induction r) auto

lemma relative_prefix: "relative_path r (r @ ys) = ys"
  using relative_same [of r "[]" ys] by (cases ys) auto

text \<open>A target that does not extend the root is reached by going up first.\<close>

lemma relative_outside:
  "(\<And>ys. t \<noteq> r @ ys) \<Longrightarrow> \<exists>rest. relative_path r t = ''..'' # rest"
proof (induction r arbitrary: t)
  case Nil
  from Nil.prems [of t] show ?case by simp
next
  case (Cons x xs)
  show ?case
  proof (cases t)
    case (Cons y ys)
    with Cons.prems Cons.IH [of ys] show ?thesis by auto
  qed simp
qed

lemma join_with_first: "take 2 (join_with ''/'' (''..'' # rest)) = ''..''"
  by (cases rest) auto

lemma safeResolve_under:
  assumes "safeResolve env segment = Some target"
  shows "\<exists>x xs. target = vhostsRoot env @ x # xs"
proof -
  let ?rel = "relative_path (vhostsRoot env) target"
  have rel: "join_with ''/'' ?rel \<noteq> []" "take 2 (join_with ''/'' ?rel) \<noteq> ''..''"
    using assms by (auto simp: safeResolve_def Let_def split: if_splits)
  have "\<exists>ys. target = vhostsRoot env @ ys"
  proof (rule ccontr)
    assume "\<nexists>ys. target = vhostsRoot env @ ys"
    then obtain rest where "?rel = ''..'' # rest" using relative_outside by blast
    with rel(2) show False by (simp add: join_with_first del: join_with.simps)
  qed
  then obtain ys where ys: "target = vhostsRoot env @ ys" by blast
  with rel(1) have "ys \<noteq> []" by (auto simp: relative_prefix)
  with ys show ?thesis by (cases ys) auto
qed

lemma removeTree_under:
  assumes "removeTree env (safeResolve env segment) st = (b, st')" "t \<in> set (ms_erased st')"
  shows "t \<in> set (ms_erased st) \<or> (\<exists>x xs. t = vhostsRoot env @ x # xs)"
  using assms safeResolve_under [of env segment]
  by (force simp: removeTree_def split: option.splits if_splits)

lemma walk_path_plain:
  "(\<And>p. p \<in> set ps \<Longrightarrow> p \<noteq> ''.'' \<and> p \<noteq> ''..'') \<Longrightarrow> walk_path here ps = here @ ps"
  by (induction ps arbitrary: here) auto

end
