(* ===== verification/Protection.thy ===== *)
theory Protection imports MailState begin

text \<open>
  \<open>core/protection/protection.service.ts\<close>: the flag that keeps an account, a mailbox, an alias or a domain
  as it is. A path parameter is kept as its text and as the integer \<open>Number(id)\<close> is, if it is one.
\<close>

datatype protectable = PAccount | PRecipient | PAlias | PDomain

record row_id =
  ri_text :: string
  ri_number :: "int option"

definition numbered :: "int \<Rightarrow> row_id" where
  "numbered n = \<lparr>ri_text = show_int n, ri_number = Some n\<rparr>"

definition find_user :: "int \<Rightarrow> mail_state \<Rightarrow> virtual_user option" where
  "find_user i st = List.find (\<lambda>r. vu_id r = i) (ms_users st)"

definition find_alias :: "int \<Rightarrow> mail_state \<Rightarrow> virtual_alias option" where
  "find_alias i st = List.find (\<lambda>r. va_id r = i) (ms_aliases st)"

definition prot_find :: "protectable \<Rightarrow> row_id \<Rightarrow> mail_state \<Rightarrow> (int \<times> string) option" where
  "prot_find type i st =
     (if type = PAccount then map_option (\<lambda>r. (ac_isProtected r, ac_email r)) (find_account (ri_text i) (ms_accounts st))
      else case ri_number i of
        None \<Rightarrow> None
      | Some n \<Rightarrow>
          if type = PRecipient then map_option (\<lambda>r. (vu_isProtected r, vu_email r)) (find_user n st)
          else if type = PAlias then map_option (\<lambda>r. (va_isProtected r, va_source r)) (find_alias n st)
          else map_option (\<lambda>r. (vd_isProtected r, vd_domain r)) (find_domain n st))"

definition isProtected :: "protectable \<Rightarrow> row_id \<Rightarrow> mail_state \<Rightarrow> bool" where
  "isProtected type i st = (case prot_find type i st of None \<Rightarrow> False | Some row \<Rightarrow> fst row = 1)"

definition locked :: err where "locked = ApiError FORBIDDEN ''protection.locked''"

definition assertUnprotected :: "protectable \<Rightarrow> row_id \<Rightarrow> mail_state \<Rightarrow> err + unit" where
  "assertUnprotected type i st = (if isProtected type i st then Inl locked else Inr ())"

definition assertDomainRemovable :: "int \<Rightarrow> mail_state \<Rightarrow> err + unit" where
  "assertDomainRemovable domainId st =
     (case find_domain domainId st of
        None \<Rightarrow> Inr ()
      | Some domain \<Rightarrow>
          if vd_isProtected domain = 1 then Inl locked
          else let held = count_where (\<lambda>r. vu_domain r = vd_domain domain \<and> vu_isProtected r = 1) (ms_users st)
                        + count_where (\<lambda>r. va_domain r = vd_domain domain \<and> va_isProtected r = 1) (ms_aliases st)
               in if 0 < held then Inl (ApiError FORBIDDEN ''protection.domainHoldsProtected'') else Inr ())"

definition setProtected :: "protectable \<Rightarrow> row_id \<Rightarrow> bool \<Rightarrow> mail_state \<Rightarrow> (string, mail_state) outcome" where
  "setProtected type i v st =
     (case prot_find type i st of
        None \<Rightarrow> (Inl (HttpException NOT_FOUND ''not found''), st)
      | Some (_, label) \<Rightarrow>
          let flag = (if v then 1 else 0); n = (case ri_number i of None \<Rightarrow> 0 | Some n \<Rightarrow> n) in
          (Inr label,
           if type = PAccount
           then st\<lparr>ms_accounts := update_where (\<lambda>r. ac_id r = ri_text i) (\<lambda>r. r\<lparr>ac_isProtected := flag\<rparr>) (ms_accounts st)\<rparr>
           else if type = PRecipient
           then st\<lparr>ms_users := update_where (\<lambda>r. vu_id r = n) (\<lambda>r. r\<lparr>vu_isProtected := flag\<rparr>) (ms_users st)\<rparr>
           else if type = PAlias
           then st\<lparr>ms_aliases := update_where (\<lambda>r. va_id r = n) (\<lambda>r. r\<lparr>va_isProtected := flag\<rparr>) (ms_aliases st)\<rparr>
           else st\<lparr>ms_domains := update_where (\<lambda>r. vd_id r = n) (\<lambda>r. r\<lparr>vd_isProtected := flag\<rparr>) (ms_domains st)\<rparr>))"

text \<open>\<open>api/protection/protection.controller.ts\<close>, after its guards: \<open>resourceOf\<close>, then the flag and a line.\<close>

definition protectable_types :: "(string \<times> protectable) list" where
  "protectable_types = [(''account'', PAccount), (''recipient'', PRecipient), (''alias'', PAlias), (''domain'', PDomain)]"

definition resource_id_ok :: "string \<Rightarrow> bool" where
  "resource_id_ok s = (1 \<le> length s \<and> length s \<le> 64
     \<and> list_all (\<lambda>c. is_digit c \<or> is_upper c \<or> (97 \<le> (of_char c :: nat) \<and> (of_char c :: nat) \<le> 122) \<or> c = CHR ''-'') s)"

definition resourceOf :: "string \<Rightarrow> row_id \<Rightarrow> err + protectable" where
  "resourceOf type i =
     (case map_of protectable_types type of
        None \<Rightarrow> Inl (HttpException BAD_REQUEST ''Unknown resource type'')
      | Some r \<Rightarrow> if resource_id_ok (ri_text i) then Inr r else Inl (HttpException BAD_REQUEST ''Invalid resource id''))"

definition protection_line :: "string \<Rightarrow> string \<Rightarrow> row_id \<Rightarrow> activity_input" where
  "protection_line action type i =
     \<lparr>ai_action = action, ai_actorId = None, ai_subjectId = None, ai_entity = Some (type, ri_text i)\<rparr>"

definition protect :: "activity_context \<Rightarrow> string \<Rightarrow> row_id \<Rightarrow> bool \<Rightarrow> mail_state \<Rightarrow> (unit, mail_state) outcome" where
  "protect ctx type i isRoot st =
     (case resourceOf type i of
        Inl e \<Rightarrow> (Inl e, st)
      | Inr resource \<Rightarrow>
          if resource \<in> {PAccount, PDomain} \<and> \<not> isRoot
          then (Inl (HttpException FORBIDDEN ''Only a root account can protect this''), st)
          else and_then (setProtected resource i True st) (\<lambda>_ st1.
            (Inr (), st1\<lparr>ms_journal := record_activity ctx (protection_line ''protection.enabled'' type i) (ms_journal st1)\<rparr>)))"

definition unprotect :: "activity_context \<Rightarrow> string \<Rightarrow> row_id \<Rightarrow> mail_state \<Rightarrow> (unit, mail_state) outcome" where
  "unprotect ctx type i st =
     (case resourceOf type i of
        Inl e \<Rightarrow> (Inl e, st)
      | Inr resource \<Rightarrow>
          and_then (setProtected resource i False st) (\<lambda>_ st1.
            (Inr (), st1\<lparr>ms_journal := record_activity ctx (protection_line ''protection.disabled'' type i) (ms_journal st1)\<rparr>)))"

lemma setProtected_sets:
  assumes "setProtected type i v st = (Inr label, st')"
  shows "isProtected type i st' = v"
  using assms
  by (auto simp: setProtected_def isProtected_def prot_find_def find_account_def find_user_def find_alias_def
      find_domain_def find_update_where Let_def split: option.splits if_splits)

end
