(* ===== verification/Delegations.thy ===== *)
theory Delegations imports MailState begin

text \<open>
  \<open>api/domains/delegations/delegations.service.ts\<close>: the capped allowance an account holds on a domain,
  the invitations and open links that promise one, and what a domain can still commit. A mail that
  cannot be handed over fails after the rows are written.
\<close>

section \<open>Bodies\<close>

record delegation_caps =
  cp_maxRecipients :: "int option"
  cp_maxAliases :: "int option"
  cp_quotaMb :: int

record delegation_offer = delegation_caps +
  of_expiresDays :: "int option"

record invite_delegation = delegation_offer +
  id_email :: string

record delegation_token = delegation_offer +
  dt_note :: "string option"

definition cap_ok :: "int option \<Rightarrow> bool" where
  "cap_ok m = (case m of None \<Rightarrow> True | Some n \<Rightarrow> 0 \<le> n \<and> n \<le> 100000)"

definition caps_ok :: "'a delegation_caps_scheme \<Rightarrow> bool" where
  "caps_ok c = (cap_ok (cp_maxRecipients c) \<and> cap_ok (cp_maxAliases c)
     \<and> 0 \<le> cp_quotaMb c \<and> cp_quotaMb c \<le> 1073741824)"

definition expiresDays_ok :: "int option \<Rightarrow> bool" where
  "expiresDays_ok e = (case e of None \<Rightarrow> True | Some n \<Rightarrow> 1 \<le> n \<and> n \<le> 3650)"

definition offer_note :: "string option option \<Rightarrow> (string option) option" where
  "offer_note v = (case v of None \<Rightarrow> Some None | Some None \<Rightarrow> Some None
     | Some (Some t) \<Rightarrow> (let n = str_trim t in
         if 30 < length n then None else Some (if n = [] then None else Some n)))"

section \<open>What is used, promised and left\<close>

definition MS_PER_DAY :: time where "MS_PER_DAY = 24 * 3600 * 1000"

definition expiryFrom :: "time \<Rightarrow> int option \<Rightarrow> time option" where
  "expiryFrom now expiresDays = map_option (\<lambda>d. now + d * MS_PER_DAY) expiresDays"

definition stillPending :: "time \<Rightarrow> account_invitation \<Rightarrow> bool" where
  "stillPending now ivt = (iv_acceptedAt ivt = None
     \<and> (case iv_expiresAt ivt of None \<Rightarrow> True | Some t \<Rightarrow> now < t))"

definition resolveDomain :: "int \<Rightarrow> mail_state \<Rightarrow> err + virtual_domain" where
  "resolveDomain domainId st =
     (case find_domain domainId st of
        None \<Rightarrow> Inl (HttpException NOT_FOUND ''Domain not found'') | Some d \<Rightarrow> Inr d)"

definition owned_by :: "string option \<Rightarrow> string option \<Rightarrow> bool" where
  "owned_by owner row = (case owner of None \<Rightarrow> True | Some a \<Rightarrow> row = Some a)"

definition sumQuota :: "string \<Rightarrow> string option \<Rightarrow> mail_state \<Rightarrow> int" where
  "sumQuota fqdn ownerId st =
     sum_where vu_quota (\<lambda>r. vu_domain r = fqdn \<and> owned_by ownerId (vu_ownerId r)) (ms_users st)"

definition countRecipientsOf :: "string \<Rightarrow> string \<Rightarrow> mail_state \<Rightarrow> int" where
  "countRecipientsOf accountId fqdn st =
     int (count_where (\<lambda>r. vu_domain r = fqdn \<and> vu_ownerId r = Some accountId) (ms_users st))"

definition countAliasesOf :: "string \<Rightarrow> string \<Rightarrow> mail_state \<Rightarrow> int" where
  "countAliasesOf accountId fqdn st =
     int (count_where (\<lambda>r. va_domain r = fqdn \<and> va_ownerId r = Some accountId) (ms_aliases st))"

definition usedBytesOf :: "string \<Rightarrow> string \<Rightarrow> mail_state \<Rightarrow> int" where
  "usedBytesOf accountId fqdn st = sumQuota fqdn (Some accountId) st"

definition usedRecipientsOf :: "domain_delegation \<Rightarrow> string \<Rightarrow> mail_state \<Rightarrow> int" where
  "usedRecipientsOf dl fqdn st = max 0 (countRecipientsOf (dd_accountId dl) fqdn st - dd_baseRecipients dl)"

definition usedAliasesOf :: "domain_delegation \<Rightarrow> string \<Rightarrow> mail_state \<Rightarrow> int" where
  "usedAliasesOf dl fqdn st = max 0 (countAliasesOf (dd_accountId dl) fqdn st - dd_baseAliases dl)"

definition spentBytesOf :: "domain_delegation \<Rightarrow> string \<Rightarrow> mail_state \<Rightarrow> int" where
  "spentBytesOf dl fqdn st = max 0 (usedBytesOf (dd_accountId dl) fqdn st - dd_baseBytes dl)"

definition unusedReserve :: "domain_delegation \<Rightarrow> string \<Rightarrow> mail_state \<Rightarrow> int" where
  "unusedReserve dl fqdn st = max 0 (dd_quotaMb dl * MB - spentBytesOf dl fqdn st)"

definition pendingInvitationsOf :: "int \<Rightarrow> time \<Rightarrow> mail_state \<Rightarrow> account_invitation list" where
  "pendingInvitationsOf domainId now st =
     sort_key iv_createdAt (filter (\<lambda>i. iv_delegationDomainId i = Some domainId \<and> stillPending now i) (ms_invitations st))"

definition offered_mb :: "account_invitation \<Rightarrow> int" where
  "offered_mb i = (case iv_delegationQuotaMb i of None \<Rightarrow> 0 | Some q \<Rightarrow> q)"

definition pendingReservedBytes :: "int \<Rightarrow> int option \<Rightarrow> time \<Rightarrow> mail_state \<Rightarrow> int" where
  "pendingReservedBytes domainId exclude now st =
     sum_where offered_mb (\<lambda>r. exclude \<noteq> Some (iv_id r)) (pendingInvitationsOf domainId now st) * MB"

definition delegations_on :: "int \<Rightarrow> mail_state \<Rightarrow> domain_delegation list" where
  "delegations_on domainId st = filter (\<lambda>r. dd_domainId r = domainId) (ms_delegations st)"

fun add_unused :: "string \<Rightarrow> mail_state \<Rightarrow> domain_delegation list \<Rightarrow> int \<Rightarrow> int" where
  "add_unused fqdn st [] acc = acc"
| "add_unused fqdn st (row # rows) acc = add_unused fqdn st rows (acc + unusedReserve row fqdn st)"

definition reservedForAccountsBytes :: "int \<Rightarrow> time \<Rightarrow> mail_state \<Rightarrow> err + int" where
  "reservedForAccountsBytes domainId now st =
     (case resolveDomain domainId st of
        Inl e \<Rightarrow> Inl e
      | Inr domain \<Rightarrow>
          Inr (add_unused (vd_domain domain) st (delegations_on domainId st) (pendingReservedBytes domainId None now st)))"

text \<open>The loop over the delegations of a domain: what the others hold unused, what the account spent.\<close>

fun grant_sums ::
  "string \<Rightarrow> string option \<Rightarrow> mail_state \<Rightarrow> domain_delegation list \<Rightarrow> int \<times> int \<Rightarrow> int \<times> int"
where
  "grant_sums fqdn accountId st [] sums = sums"
| "grant_sums fqdn accountId st (row # rows) (othersUnused, ownSpent) =
     grant_sums fqdn accountId st rows
       (if accountId = Some (dd_accountId row) then (othersUnused, spentBytesOf row fqdn st)
        else (othersUnused + unusedReserve row fqdn st, ownSpent))"

definition grantableMb :: "virtual_domain \<Rightarrow> string option \<Rightarrow> int option \<Rightarrow> time \<Rightarrow> mail_state \<Rightarrow> int option" where
  "grantableMb domain accountId exclude now st =
     (let domainQuota = vd_quota domain in
      if domainQuota = 0 then None
      else let allocated = sumQuota (vd_domain domain) None st;
               pending = pendingReservedBytes (vd_id domain) exclude now st;
               (othersUnused, ownSpent) =
                 grant_sums (vd_domain domain) accountId st (delegations_on (vd_id domain) st) (0, 0)
           in Some (max 0 ((domainQuota - allocated - pending - othersUnused + ownSpent) div MB)))"

definition assertGrantFits ::
  "virtual_domain \<Rightarrow> string option \<Rightarrow> int \<Rightarrow> int option \<Rightarrow> time \<Rightarrow> mail_state \<Rightarrow> err + unit" where
  "assertGrantFits domain accountId quotaMb exclude now st =
     (case grantableMb domain accountId exclude now st of
        None \<Rightarrow> Inr ()
      | Some grantable \<Rightarrow>
          if quotaMb \<le> grantable then Inr () else Inl (ApiError BAD_REQUEST ''delegations.quotaExceedsDomain''))"

section \<open>Granting\<close>

definition find_delegation :: "string \<Rightarrow> int \<Rightarrow> mail_state \<Rightarrow> domain_delegation option" where
  "find_delegation accountId domainId st =
     List.find (\<lambda>r. dd_accountId r = accountId \<and> dd_domainId r = domainId) (ms_delegations st)"

definition save_delegation :: "domain_delegation \<Rightarrow> mail_state \<Rightarrow> mail_state" where
  "save_delegation dl st = st\<lparr>ms_delegations := save_row dd_id dl (ms_delegations st)\<rparr>"

definition save_invitation :: "account_invitation \<Rightarrow> mail_state \<Rightarrow> mail_state" where
  "save_invitation i st = st\<lparr>ms_invitations := save_row iv_id i (ms_invitations st)\<rparr>"

text \<open>Two caps, or two quotas: unlimited swallows any number.\<close>

definition add_caps :: "int option \<Rightarrow> int option \<Rightarrow> int option" where
  "add_caps a b = (case (a, b) of (Some x, Some y) \<Rightarrow> Some (x + y) | _ \<Rightarrow> None)"

definition upsertRow ::
  "int \<Rightarrow> time \<Rightarrow> virtual_domain \<Rightarrow> string \<Rightarrow> string option \<Rightarrow> 'a delegation_caps_scheme \<Rightarrow> mail_state \<Rightarrow> mail_state" where
  "upsertRow newId now domain accountId createdBy caps st =
     (case find_delegation accountId (vd_id domain) st of
        Some existing \<Rightarrow>
          save_delegation (existing\<lparr>
            dd_maxRecipients := add_caps (dd_maxRecipients existing) (cp_maxRecipients caps),
            dd_maxAliases := add_caps (dd_maxAliases existing) (cp_maxAliases caps),
            dd_quotaMb := dd_quotaMb existing + cp_quotaMb caps\<rparr>) st
      | None \<Rightarrow>
          save_delegation \<lparr>dd_id = newId, dd_accountId = accountId, dd_domainId = vd_id domain,
            dd_maxRecipients = cp_maxRecipients caps, dd_maxAliases = cp_maxAliases caps, dd_quotaMb = cp_quotaMb caps,
            dd_baseRecipients = countRecipientsOf accountId (vd_domain domain) st,
            dd_baseAliases = countAliasesOf accountId (vd_domain domain) st,
            dd_baseBytes = usedBytesOf accountId (vd_domain domain) st,
            dd_createdBy = createdBy, dd_createdAt = now, dd_updatedAt = now\<rparr> st)"

definition inviteLink :: "mail_env \<Rightarrow> string \<Rightarrow> string \<Rightarrow> string" where
  "inviteLink env baseUrl token =
     (let base = (case me_managerUrl env of None \<Rightarrow> baseUrl | Some u \<Rightarrow> if u = [] then baseUrl else u)
      in rev (dropWhile (\<lambda>c. c = CHR ''/'') (rev base)) @ ''/invite/'' @ token)"

text \<open>\<open>uq_invitation_token\<close> refuses an insert that repeats a token.\<close>

definition insert_invitation :: "account_invitation \<Rightarrow> mail_state \<Rightarrow> (unit, mail_state) outcome" where
  "insert_invitation i st =
     (if iv_token i \<in> iv_token ` set (ms_invitations st) then (Inl (Crash ''ER_DUP_ENTRY''), st)
      else (Inr (), save_invitation i st))"

definition staged_offer ::
  "int \<Rightarrow> time \<Rightarrow> string \<Rightarrow> string option \<Rightarrow> string \<Rightarrow> int \<Rightarrow> 'a delegation_offer_scheme \<Rightarrow> string option \<Rightarrow> account_invitation" where
  "staged_offer newId now token email invitedBy domainId offer note =
     \<lparr>iv_id = newId, iv_token = token, iv_email = email, iv_invitedBy = Some invitedBy, iv_groupId = None,
      iv_groupIds = Some (Some (JArr [])), iv_recipientIds = Some (Some (JArr [])), iv_aliasIds = Some (Some (JArr [])),
      iv_ownerDomainId = None, iv_delegationDomainId = Some domainId,
      iv_delegationMaxRecipients = cp_maxRecipients offer, iv_delegationMaxAliases = cp_maxAliases offer,
      iv_delegationQuotaMb = Some (cp_quotaMb offer), iv_note = note, iv_acceptedAt = None,
      iv_expiresAt = expiryFrom now (of_expiresDays offer), iv_createdAt = now\<rparr>"

definition send_invitation :: "mail_env \<Rightarrow> invitation_mail \<Rightarrow> mail_state \<Rightarrow> (unit, mail_state) outcome" where
  "send_invitation env m st =
     (if me_mailFails env m then (Inl (Crash ''mail''), st) else (Inr (), st\<lparr>ms_mails := ms_mails st @ [m]\<rparr>))"

text \<open>A former invitation to the same address, still pending, is made to expire now.\<close>

definition expire_former :: "string \<Rightarrow> time \<Rightarrow> mail_state \<Rightarrow> mail_state" where
  "expire_former email now st =
     (case List.find (\<lambda>i. iv_email i = Some email \<and> iv_acceptedAt i = None) (ms_invitations st) of
        None \<Rightarrow> st
      | Some pending \<Rightarrow>
          if (case iv_expiresAt pending of None \<Rightarrow> True | Some t \<Rightarrow> now < t)
          then save_invitation (pending\<lparr>iv_expiresAt := Some now\<rparr>) st else st)"

datatype grant_mode = GrantedNow string | InvitedNow string

definition find_account_by_email :: "string \<Rightarrow> account list \<Rightarrow> account option" where
  "find_account_by_email email accounts = List.find (\<lambda>a. ac_email a = email) accounts"

definition held_mb :: "string \<Rightarrow> int \<Rightarrow> mail_state \<Rightarrow> int" where
  "held_mb accountId domainId st =
     (case find_delegation accountId domainId st of None \<Rightarrow> 0 | Some d \<Rightarrow> dd_quotaMb d)"

definition grantOrInvite ::
  "mail_env \<Rightarrow> int \<Rightarrow> string \<Rightarrow> string \<Rightarrow> int \<Rightarrow> invite_delegation \<Rightarrow> string \<Rightarrow> time \<Rightarrow> mail_state
   \<Rightarrow> (grant_mode, mail_state) outcome" where
  "grantOrInvite env newId token actingUserId domainId input baseUrl now st =
     (case resolveDomain domainId st of
        Inl e \<Rightarrow> (Inl e, st)
      | Inr domain \<Rightarrow>
          (let account = find_account_by_email (id_email input) (ms_accounts st) in
           if (case account of None \<Rightarrow> False | Some a \<Rightarrow> Some (ac_id a) = vd_ownerId domain)
           then (Inl (ApiError BAD_REQUEST ''delegations.ownerNotDelegable''), st)
           else let held = (case account of None \<Rightarrow> 0 | Some a \<Rightarrow> held_mb (ac_id a) domainId st) in
             case assertGrantFits domain (map_option ac_id account) (held + cp_quotaMb input) None now st of
               Inl e \<Rightarrow> (Inl e, st)
             | Inr _ \<Rightarrow>
                 (case account of
                    Some a \<Rightarrow> (Inr (GrantedNow (ac_email a)), upsertRow newId now domain (ac_id a) (Some actingUserId) input st)
                  | None \<Rightarrow>
                      and_then (insert_invitation
                          (staged_offer newId now token (Some (id_email input)) actingUserId domainId input None)
                          (expire_former (id_email input) now st)) (\<lambda>_ st1.
                      and_then (send_invitation env \<lparr>im_to = id_email input, im_link = inviteLink env baseUrl token,
                          im_fromDomain = vd_domain domain, im_groupNames = []\<rparr> st1) (\<lambda>_ st2.
                      (Inr (InvitedNow (id_email input)), st2))))))"

definition createToken ::
  "mail_env \<Rightarrow> int \<Rightarrow> string \<Rightarrow> string \<Rightarrow> int \<Rightarrow> delegation_token \<Rightarrow> string \<Rightarrow> time \<Rightarrow> mail_state
   \<Rightarrow> (string \<times> string, mail_state) outcome" where
  "createToken env newId token actingUserId domainId caps baseUrl now st =
     (case resolveDomain domainId st of
        Inl e \<Rightarrow> (Inl e, st)
      | Inr domain \<Rightarrow>
          (case assertGrantFits domain None (cp_quotaMb caps) None now st of
             Inl e \<Rightarrow> (Inl e, st)
           | Inr _ \<Rightarrow>
               and_then (insert_invitation (staged_offer newId now token None actingUserId domainId caps (dt_note caps)) st)
                 (\<lambda>_ st1. (Inr (token, inviteLink env baseUrl token), st1))))"

definition find_offer :: "int \<Rightarrow> int \<Rightarrow> mail_state \<Rightarrow> account_invitation option" where
  "find_offer invitationId domainId st =
     List.find (\<lambda>i. iv_id i = invitationId \<and> iv_delegationDomainId i = Some domainId) (ms_invitations st)"

definition editInvitation ::
  "int \<Rightarrow> int \<Rightarrow> delegation_token \<Rightarrow> time \<Rightarrow> mail_state \<Rightarrow> (unit, mail_state) outcome" where
  "editInvitation domainId invitationId input now st =
     (case resolveDomain domainId st of
        Inl e \<Rightarrow> (Inl e, st)
      | Inr domain \<Rightarrow>
          (case find_offer invitationId domainId st of
             None \<Rightarrow> (Inl (HttpException NOT_FOUND ''Invitation not found''), st)
           | Some ivt \<Rightarrow>
               if \<not> stillPending now ivt then (Inl (HttpException NOT_FOUND ''Invitation not found''), st)
               else case assertGrantFits domain None (cp_quotaMb input) (Some invitationId) now st of
                 Inl e \<Rightarrow> (Inl e, st)
               | Inr _ \<Rightarrow>
                   (Inr (), save_invitation (ivt\<lparr>
                      iv_delegationMaxRecipients := cp_maxRecipients input, iv_delegationMaxAliases := cp_maxAliases input,
                      iv_delegationQuotaMb := Some (cp_quotaMb input), iv_expiresAt := expiryFrom now (of_expiresDays input),
                      iv_note := (if iv_email ivt = None then dt_note input else iv_note ivt)\<rparr>) st)))"

definition revokeInvitation :: "int \<Rightarrow> int \<Rightarrow> time \<Rightarrow> mail_state \<Rightarrow> (unit, mail_state) outcome" where
  "revokeInvitation domainId invitationId now st =
     (case find_offer invitationId domainId st of
        None \<Rightarrow> (Inl (HttpException NOT_FOUND ''Invitation not found''), st)
      | Some ivt \<Rightarrow>
          if iv_acceptedAt ivt \<noteq> None then (Inl (HttpException NOT_FOUND ''Invitation not found''), st)
          else (Inr (), save_invitation (ivt\<lparr>iv_expiresAt := Some now\<rparr>) st))"

text \<open>A staged grant lands: clamped to what the domain can still commit beside the account's own grant.\<close>

definition clamped_mb :: "int option \<Rightarrow> int \<Rightarrow> int \<Rightarrow> int" where
  "clamped_mb grantable offered held =
     (case grantable of None \<Rightarrow> offered | Some g \<Rightarrow> max 0 (min offered (g - held)))"

definition grantFromInvitation :: "int \<Rightarrow> time \<Rightarrow> account_invitation \<Rightarrow> string \<Rightarrow> mail_state \<Rightarrow> mail_state" where
  "grantFromInvitation newId now ivt accountId st =
     (case (iv_delegationDomainId ivt, iv_delegationQuotaMb ivt) of
        (Some domainId, Some offered) \<Rightarrow>
          if domainId = 0 then st
          else (case find_domain domainId st of
             None \<Rightarrow> st
           | Some domain \<Rightarrow>
               upsertRow newId now domain accountId (iv_invitedBy ivt)
                 \<lparr>cp_maxRecipients = iv_delegationMaxRecipients ivt, cp_maxAliases = iv_delegationMaxAliases ivt,
                  cp_quotaMb = clamped_mb (grantableMb domain (Some accountId) (Some (iv_id ivt)) now st) offered
                    (held_mb accountId (vd_id domain) st)\<rparr> st)
      | _ \<Rightarrow> st)"

definition setCaps ::
  "int \<Rightarrow> string \<Rightarrow> 'a delegation_caps_scheme \<Rightarrow> time \<Rightarrow> mail_state \<Rightarrow> (domain_delegation, mail_state) outcome" where
  "setCaps domainId accountId caps now st =
     (case resolveDomain domainId st of
        Inl e \<Rightarrow> (Inl e, st)
      | Inr domain \<Rightarrow>
          (case find_delegation accountId domainId st of
             None \<Rightarrow> (Inl (HttpException NOT_FOUND ''No delegation for account''), st)
           | Some existing \<Rightarrow>
               (case assertGrantFits domain (Some accountId) (cp_quotaMb caps) None now st of
                  Inl e \<Rightarrow> (Inl e, st)
                | Inr _ \<Rightarrow>
                    (let row = existing\<lparr>dd_maxRecipients := cp_maxRecipients caps, dd_maxAliases := cp_maxAliases caps,
                                        dd_quotaMb := cp_quotaMb caps\<rparr>
                     in (Inr row, save_delegation row st)))))"

definition dl_revoke :: "int \<Rightarrow> string \<Rightarrow> mail_state \<Rightarrow> (unit, mail_state) outcome" where
  "dl_revoke domainId accountId st =
     (case find_delegation accountId domainId st of
        None \<Rightarrow> (Inl (HttpException NOT_FOUND ''No delegation for account''), st)
      | Some existing \<Rightarrow>
          (Inr (), st\<lparr>ms_delegations := delete_where (\<lambda>r. dd_id r = dd_id existing) (ms_delegations st)\<rparr>))"

section \<open>Reading\<close>

record delegation_view =
  dv_accountId :: string
  dv_accountEmail :: "string option"
  dv_maxRecipients :: "int option"
  dv_maxAliases :: "int option"
  dv_quotaMb :: int
  dv_usedRecipients :: int
  dv_usedAliases :: int
  dv_usedBytes :: int
  dv_grantableMb :: "int option"

record offer_view =
  ov_id :: int
  ov_email :: "string option"
  ov_note :: "string option"
  ov_token :: "string option"
  ov_maxRecipients :: "int option"
  ov_maxAliases :: "int option"
  ov_quotaMb :: int
  ov_expiresAt :: "time option"
  ov_grantableMb :: "int option"

definition delegation_view_of :: "virtual_domain \<Rightarrow> time \<Rightarrow> mail_state \<Rightarrow> domain_delegation \<Rightarrow> delegation_view" where
  "delegation_view_of domain now st d =
     \<lparr>dv_accountId = dd_accountId d,
      dv_accountEmail = map_option ac_email (find_account (dd_accountId d) (ms_accounts st)),
      dv_maxRecipients = dd_maxRecipients d, dv_maxAliases = dd_maxAliases d, dv_quotaMb = dd_quotaMb d,
      dv_usedRecipients = usedRecipientsOf d (vd_domain domain) st,
      dv_usedAliases = usedAliasesOf d (vd_domain domain) st,
      dv_usedBytes = spentBytesOf d (vd_domain domain) st,
      dv_grantableMb = grantableMb domain (Some (dd_accountId d)) None now st\<rparr>"

definition offer_view_of :: "virtual_domain \<Rightarrow> time \<Rightarrow> mail_state \<Rightarrow> account_invitation \<Rightarrow> offer_view" where
  "offer_view_of domain now st p =
     \<lparr>ov_id = iv_id p, ov_email = iv_email p, ov_note = iv_note p,
      ov_token = (if iv_email p = None then Some (iv_token p) else None),
      ov_maxRecipients = iv_delegationMaxRecipients p, ov_maxAliases = iv_delegationMaxAliases p,
      ov_quotaMb = offered_mb p, ov_expiresAt = iv_expiresAt p,
      ov_grantableMb = grantableMb domain None (Some (iv_id p)) now st\<rparr>"

definition dl_listForDomain ::
  "int \<Rightarrow> time \<Rightarrow> mail_state \<Rightarrow> err + (int option \<times> delegation_view list \<times> offer_view list)" where
  "dl_listForDomain domainId now st =
     (case resolveDomain domainId st of
        Inl e \<Rightarrow> Inl e
      | Inr domain \<Rightarrow>
          Inr (grantableMb domain None None now st,
               map (delegation_view_of domain now st) (sort_key dd_createdAt (delegations_on domainId st)),
               map (offer_view_of domain now st) (pendingInvitationsOf domainId now st)))"

record my_delegation =
  my_domainId :: int
  my_domain :: string
  my_maxRecipients :: "int option"
  my_maxAliases :: "int option"
  my_quotaMb :: int
  my_usedRecipients :: int
  my_usedAliases :: int
  my_usedBytes :: int

definition myDelegations :: "string \<Rightarrow> mail_state \<Rightarrow> my_delegation list" where
  "myDelegations accountId st =
     map (\<lambda>d. let fqdn = (case find_domain (dd_domainId d) st of None \<Rightarrow> [] | Some vd \<Rightarrow> vd_domain vd) in
        \<lparr>my_domainId = dd_domainId d, my_domain = fqdn, my_maxRecipients = dd_maxRecipients d,
         my_maxAliases = dd_maxAliases d, my_quotaMb = dd_quotaMb d, my_usedRecipients = usedRecipientsOf d fqdn st,
         my_usedAliases = usedAliasesOf d fqdn st, my_usedBytes = spentBytesOf d fqdn st\<rparr>)
       (sort_key dd_domainId (filter (\<lambda>d. dd_accountId d = accountId) (ms_delegations st)))"

section \<open>Spending\<close>

definition assertCanCreateRecipient :: "string \<Rightarrow> int \<Rightarrow> int \<Rightarrow> mail_state \<Rightarrow> err + domain_delegation" where
  "assertCanCreateRecipient accountId domainId quotaBytes st =
     (case resolveDomain domainId st of
        Inl e \<Rightarrow> Inl e
      | Inr domain \<Rightarrow>
          (case find_delegation accountId domainId st of
             None \<Rightarrow> Inl (ApiError FORBIDDEN ''delegations.noDelegation'')
           | Some dl \<Rightarrow>
               if (case dd_maxRecipients dl of None \<Rightarrow> False | Some m \<Rightarrow> m \<le> usedRecipientsOf dl (vd_domain domain) st)
               then Inl (ApiError BAD_REQUEST ''delegations.recipientCapReached'')
               else if dd_quotaMb dl * MB < spentBytesOf dl (vd_domain domain) st + quotaBytes
               then Inl (ApiError BAD_REQUEST ''delegations.reserveExceeded'')
               else Inr dl))"

definition assertCanRaiseQuota :: "string \<Rightarrow> string \<Rightarrow> int \<Rightarrow> mail_state \<Rightarrow> err + unit" where
  "assertCanRaiseQuota accountId fqdn deltaBytes st =
     (case find_domain_named fqdn st of
        None \<Rightarrow> Inl (HttpException NOT_FOUND ''Domain not found'')
      | Some domain \<Rightarrow>
          (case find_delegation accountId (vd_id domain) st of
             None \<Rightarrow> Inl (ApiError FORBIDDEN ''delegations.noDelegation'')
           | Some dl \<Rightarrow>
               if deltaBytes \<le> 0 then Inr ()
               else if dd_quotaMb dl * MB < spentBytesOf dl fqdn st + deltaBytes
               then Inl (ApiError BAD_REQUEST ''delegations.reserveExceeded'')
               else Inr ()))"

definition assertCanCreateAlias :: "string \<Rightarrow> int \<Rightarrow> mail_state \<Rightarrow> err + domain_delegation" where
  "assertCanCreateAlias accountId domainId st =
     (case resolveDomain domainId st of
        Inl e \<Rightarrow> Inl e
      | Inr domain \<Rightarrow>
          (case find_delegation accountId domainId st of
             None \<Rightarrow> Inl (ApiError FORBIDDEN ''delegations.noDelegation'')
           | Some dl \<Rightarrow>
               if (case dd_maxAliases dl of None \<Rightarrow> False | Some m \<Rightarrow> m \<le> usedAliasesOf dl (vd_domain domain) st)
               then Inl (ApiError BAD_REQUEST ''delegations.aliasCapReached'')
               else Inr dl))"

end
