(* ===== verification/Recipients.thy ===== *)
theory Recipients imports Delegations MailDb MailStorage Protection begin

text \<open>
  \<open>api/domains/recipients/recipients.service.ts\<close>: the mailboxes of a domain, their quotas under the
  domain's, and their owners. The paginated listing, a join sorted in SQL, is not modelled.
\<close>

section \<open>The reserved mailboxes\<close>

datatype reserved_refusal = Reserved | Unassignable | Immutable | Undeletable

definition reserved_code :: "string \<Rightarrow> reserved_refusal \<Rightarrow> string" where
  "reserved_code part refusal =
     (if part = ''postmaster'' then
        (case refusal of Reserved \<Rightarrow> ''recipients.postmasterReserved'' | Unassignable \<Rightarrow> ''recipients.postmasterUnassignable''
         | Immutable \<Rightarrow> ''recipients.postmasterImmutable'' | Undeletable \<Rightarrow> ''recipients.postmasterUndeletable'')
      else
        (case refusal of Reserved \<Rightarrow> ''recipients.dmarcReportsReserved''
         | Unassignable \<Rightarrow> ''recipients.dmarcReportsUnassignable''
         | Immutable \<Rightarrow> ''recipients.dmarcReportsImmutable'' | Undeletable \<Rightarrow> ''recipients.dmarcReportsUndeletable''))"

section \<open>Bodies\<close>

record create_recipient =
  nr_localPart :: string
  nr_password :: string
  nr_quota :: int
  nr_active :: "bool option"
  nr_userStartDate :: "string option option"
  nr_userEndDate :: "string option option"

record update_recipient =
  ur_password :: "string option"
  ur_quota :: "int option"
  ur_active :: "bool option"
  ur_userStartDate :: "string option option"
  ur_userEndDate :: "string option option"

definition MIN_RECIPIENT_QUOTA_BYTES :: int where "MIN_RECIPIENT_QUOTA_BYTES = 1024 * 1024"

definition local_part_char :: "char \<Rightarrow> bool" where
  "local_part_char c = (is_digit c \<or> is_upper c \<or> (97 \<le> (of_char c :: nat) \<and> (of_char c :: nat) \<le> 122)
     \<or> c \<in> set ''._+-'')"

text \<open>\<open>createRecipientSchema\<close>'s address and quota: the local part comes out in lower case.\<close>

definition valid_local_part :: "string \<Rightarrow> string option" where
  "valid_local_part s =
     (if 1 \<le> length s \<and> length s \<le> 64 \<and> list_all local_part_char s then Some (toLowerCase s) else None)"

definition recipient_quota_ok :: "int \<Rightarrow> bool" where
  "recipient_quota_ok q = (MIN_RECIPIENT_QUOTA_BYTES \<le> q)"

section \<open>Reading\<close>

definition rcp_get :: "int \<Rightarrow> string \<Rightarrow> mail_state \<Rightarrow> err + virtual_user" where
  "rcp_get i domain st =
     (case List.find (\<lambda>r. vu_id r = i \<and> vu_domain r = domain) (ms_users st) of
        None \<Rightarrow> Inl (ApiError NOT_FOUND ''recipients.notFound'') | Some r \<Rightarrow> Inr r)"

definition rcp_resolveDomain :: "int \<Rightarrow> mail_state \<Rightarrow> err + string" where
  "rcp_resolveDomain domainId st =
     (case find_domain domainId st of
        None \<Rightarrow> Inl (HttpException NOT_FOUND ''Domain not found'') | Some d \<Rightarrow> Inr (vd_domain d))"

definition resolveOwnerEmail :: "string option \<Rightarrow> mail_state \<Rightarrow> string option" where
  "resolveOwnerEmail ownerId st =
     (case ownerId of None \<Rightarrow> None
      | Some o' \<Rightarrow> if o' = [] then None else map_option ac_email (find_account o' (ms_accounts st)))"

text \<open>\<open>Map.set\<close> for each row: the last one of an address stays.\<close>

definition used_bytes :: "string \<Rightarrow> mail_state \<Rightarrow> int" where
  "used_bytes email st =
     (case List.find (\<lambda>q. vqu_email q = email) (rev (ms_quotaUsers st)) of None \<Rightarrow> 0 | Some q \<Rightarrow> vqu_bytes q)"

definition attachUsage :: "mail_state \<Rightarrow> virtual_user list \<Rightarrow> (virtual_user \<times> int) list" where
  "attachUsage st rows = map (\<lambda>r. (r, used_bytes (vu_email r) st)) rows"

record recipient_view =
  rv_row :: virtual_user
  rv_usedBytes :: int
  rv_ownerEmail :: "string option"
  rv_reserved :: "string option"

definition getWithUsage :: "int \<Rightarrow> string \<Rightarrow> mail_state \<Rightarrow> err + recipient_view" where
  "getWithUsage i domain st =
     (case rcp_get i domain st of
        Inl e \<Rightarrow> Inl e
      | Inr found \<Rightarrow>
          Inr \<lparr>rv_row = found, rv_usedBytes = used_bytes (vu_email found) st,
               rv_ownerEmail = resolveOwnerEmail (vu_ownerId found) st,
               rv_reserved = reservedLocalPartOf (vu_email found) domain\<rparr>)"

record headroom =
  hr_domainQuota :: int
  hr_allocated :: int
  hr_available :: int

definition rcp_headroom :: "string \<Rightarrow> int option \<Rightarrow> time \<Rightarrow> mail_state \<Rightarrow> err + headroom" where
  "rcp_headroom domain exclude now st =
     (case find_domain_named domain st of
        None \<Rightarrow> Inl (HttpException NOT_FOUND ''Domain not found'')
      | Some parent \<Rightarrow>
          (let allocated = sum_where vu_quota (\<lambda>r. vu_domain r = domain \<and> exclude \<noteq> Some (vu_id r)) (ms_users st)
           in case (if 0 < vd_quota parent then reservedForAccountsBytes (vd_id parent) now st else Inr 0) of
                Inl e \<Rightarrow> Inl e
              | Inr reserved \<Rightarrow> Inr \<lparr>hr_domainQuota = vd_quota parent, hr_allocated = allocated,
                                     hr_available = vd_quota parent - allocated - reserved\<rparr>))"

section \<open>The two quota rules\<close>

definition assertQuotaCoversUsage :: "string \<Rightarrow> int \<Rightarrow> mail_state \<Rightarrow> err + unit" where
  "assertQuotaCoversUsage email quota st =
     (let used = (case List.find (\<lambda>q. vqu_email q = email) (ms_quotaUsers st) of None \<Rightarrow> 0 | Some q \<Rightarrow> vqu_bytes q)
      in if used \<le> quota then Inr () else Inl (ApiError BAD_REQUEST ''recipients.quotaBelowUsage''))"

definition assertQuotaFitsDomain ::
  "string \<Rightarrow> int \<Rightarrow> (int \<times> int) option \<Rightarrow> time \<Rightarrow> mail_state \<Rightarrow> err + unit" where
  "assertQuotaFitsDomain domain quota recipient now st =
     (if (case recipient of None \<Rightarrow> False | Some (_, held) \<Rightarrow> quota \<le> held) then Inr ()
      else case rcp_headroom domain (map_option fst recipient) now st of
        Inl e \<Rightarrow> Inl e
      | Inr h \<Rightarrow>
          if quota \<le> hr_available h then Inr () else Inl (ApiError BAD_REQUEST ''recipients.quotaExceedsDomain''))"

section \<open>Owners\<close>

definition save_user :: "virtual_user \<Rightarrow> mail_state \<Rightarrow> mail_state" where
  "save_user r st = st\<lparr>ms_users := save_row vu_id r (ms_users st)\<rparr>"

definition rcp_assignOwner :: "int \<Rightarrow> string \<Rightarrow> string \<Rightarrow> mail_state \<Rightarrow> (virtual_user, mail_state) outcome" where
  "rcp_assignOwner i domain ownerId st =
     (case rcp_get i domain st of
        Inl e \<Rightarrow> (Inl e, st)
      | Inr r \<Rightarrow>
          (case reservedLocalPartOf (vu_email r) domain of
             Some reserved \<Rightarrow> (Inl (ApiError FORBIDDEN (reserved_code reserved Unassignable)), st)
           | None \<Rightarrow>
               if find_account ownerId (ms_accounts st) = None then (Inl (HttpException NOT_FOUND ''Account not found''), st)
               else let r = r\<lparr>vu_ownerId := Some ownerId\<rparr> in (Inr r, save_user r st)))"

definition rcp_clearOwner :: "int \<Rightarrow> string \<Rightarrow> mail_state \<Rightarrow> (virtual_user, mail_state) outcome" where
  "rcp_clearOwner i domain st =
     (case rcp_get i domain st of
        Inl e \<Rightarrow> (Inl e, st)
      | Inr r \<Rightarrow> let r = r\<lparr>vu_ownerId := None\<rparr> in (Inr r, save_user r st))"

section \<open>Creating, changing, removing\<close>

definition recipient_line :: "string \<Rightarrow> int \<Rightarrow> activity_input" where
  "recipient_line action i =
     \<lparr>ai_action = action, ai_actorId = None, ai_subjectId = None, ai_entity = Some (''recipient'', show_int i)\<rparr>"

definition note_recipient :: "activity_context \<Rightarrow> string \<Rightarrow> int \<Rightarrow> mail_state \<Rightarrow> mail_state" where
  "note_recipient ctx action i st = st\<lparr>ms_journal := record_activity ctx (recipient_line action i) (ms_journal st)\<rparr>"

record user_ids =
  ui_row :: int
  ui_counter :: int

definition rcp_create ::
  "mail_env \<Rightarrow> activity_context \<Rightarrow> user_ids \<Rightarrow> create_recipient \<Rightarrow> string \<Rightarrow> string option \<Rightarrow> bool \<Rightarrow> time \<Rightarrow> mail_state
   \<Rightarrow> (virtual_user, mail_state) outcome" where
  "rcp_create env ctx ids input domain ownerId skipDomainQuota now st =
     (case asReservedLocalPart (nr_localPart input) of
        Some part \<Rightarrow> (Inl (ApiError CONFLICT (reserved_code part Reserved)), st)
      | None \<Rightarrow>
          (let email = nr_localPart input @ ''@'' @ domain in
           if email \<in> vu_email ` set (ms_users st) then (Inl (ApiError CONFLICT ''recipients.alreadyExists''), st)
           else case (if skipDomainQuota then Inr () else assertQuotaFitsDomain domain (nr_quota input) None now st) of
             Inl e \<Rightarrow> (Inl e, st)
           | Inr _ \<Rightarrow>
               (let start = start_date now (nr_userStartDate input);
                    finish = (case nr_userEndDate input of None \<Rightarrow> None | Some e \<Rightarrow> e) in
                if (case finish of None \<Rightarrow> False
                    | Some e \<Rightarrow> e \<noteq> [] \<and> str_less UNBOUNDED_START_DATE start \<and> str_less e start)
                then (Inl (ApiError BAD_REQUEST ''recipients.windowReversed''), st)
                else and_then (insert_user (ui_counter ids) now
                    \<lparr>vu_id = ui_row ids, vu_ownerId = ownerId, vu_domain = domain, vu_email = email,
                     vu_password = sha512crypt env (nr_password input),
                     vu_maildir = domain @ ''/'' @ nr_localPart input @ ''/'', vu_quota = nr_quota input,
                     vu_active = (if nr_active input = Some False then 0 else 1), vu_isProtected = 0,
                     vu_uid = ''vmail'', vu_gid = ''vmail'', vu_userStartDate = start, vu_userEndDate = finish,
                     vu_lastActivity = None, vu_createdAt = now\<rparr> st)
                  (\<lambda>saved st1. (Inr saved, note_recipient ctx ''recipients.created'' (vu_id saved) st1)))))"

text \<open>The row a body leaves, once its quota has been accepted.\<close>

definition changed_user :: "mail_env \<Rightarrow> update_recipient \<Rightarrow> virtual_user \<Rightarrow> virtual_user" where
  "changed_user env input r =
     r\<lparr>vu_password := (case ur_password input of None \<Rightarrow> vu_password r
         | Some p \<Rightarrow> if p = [] then vu_password r else sha512crypt env p),
       vu_quota := (case ur_quota input of None \<Rightarrow> vu_quota r | Some q \<Rightarrow> q),
       vu_active := (case ur_active input of None \<Rightarrow> vu_active r | Some b \<Rightarrow> if b then 1 else 0),
       vu_userStartDate := (case ur_userStartDate input of None \<Rightarrow> vu_userStartDate r
         | Some None \<Rightarrow> UNBOUNDED_START_DATE | Some (Some s) \<Rightarrow> s),
       vu_userEndDate := (case ur_userEndDate input of None \<Rightarrow> vu_userEndDate r | Some e \<Rightarrow> e)\<rparr>"

definition quota_change_ok ::
  "update_recipient \<Rightarrow> virtual_user \<Rightarrow> string \<Rightarrow> bool \<Rightarrow> time \<Rightarrow> mail_state \<Rightarrow> err + unit" where
  "quota_change_ok input current domain skipDomainQuota now st =
     (case ur_quota input of
        None \<Rightarrow> Inr ()
      | Some quota \<Rightarrow>
          (case assertQuotaCoversUsage (vu_email current) quota st of
             Inl e \<Rightarrow> Inl e
           | Inr _ \<Rightarrow>
               if skipDomainQuota then Inr ()
               else assertQuotaFitsDomain domain quota (Some (vu_id current, vu_quota current)) now st))"

definition rcp_update ::
  "mail_env \<Rightarrow> activity_context \<Rightarrow> int \<Rightarrow> update_recipient \<Rightarrow> string \<Rightarrow> bool \<Rightarrow> time \<Rightarrow> mail_state
   \<Rightarrow> (virtual_user, mail_state) outcome" where
  "rcp_update env ctx i input domain skipDomainQuota now st =
     (case rcp_get i domain st of
        Inl e \<Rightarrow> (Inl e, st)
      | Inr current \<Rightarrow>
          (case reservedLocalPartOf (vu_email current) domain of
             Some reserved \<Rightarrow> (Inl (ApiError FORBIDDEN (reserved_code reserved Immutable)), st)
           | None \<Rightarrow>
               (case quota_change_ok input current domain skipDomainQuota now st of
                  Inl e \<Rightarrow> (Inl e, st)
                | Inr _ \<Rightarrow>
                    (let r = changed_user env input current in
                     if window_reversed (vu_userStartDate r) (vu_userEndDate r)
                     then (Inl (ApiError BAD_REQUEST ''recipients.windowReversed''), st)
                     else (Inr r, note_recipient ctx ''recipients.updated'' i (save_user r st))))))"

definition rcp_remove ::
  "mail_env \<Rightarrow> activity_context \<Rightarrow> int \<Rightarrow> string \<Rightarrow> mail_state \<Rightarrow> (unit, mail_state) outcome" where
  "rcp_remove env ctx i domain st =
     (case rcp_get i domain st of
        Inl e \<Rightarrow> (Inl e, st)
      | Inr current \<Rightarrow>
          (case reservedLocalPartOf (vu_email current) domain of
             Some reserved \<Rightarrow> (Inl (ApiError FORBIDDEN (reserved_code reserved Undeletable)), st)
           | None \<Rightarrow>
               (let st1 = delete_quota_users (vu_email current) st;
                    st2 = delete_user current st1;
                    (_, st3) = removeRecipientTree env (vu_maildir current) st2
                in (Inr (), note_recipient ctx ''recipients.deleted'' i st3))))"

end
