(* ===== verification/Aliases.thy ===== *)
theory Aliases imports Recipients begin

text \<open>
  \<open>api/domains/aliases/aliases.service.ts\<close>: the aliases of a domain. The paginated listing is not
  modelled.
\<close>

definition isPostmaster :: "string \<Rightarrow> string \<Rightarrow> bool" where
  "isPostmaster source domain = (toLowerCase source = ''postmaster@'' @ toLowerCase domain)"

definition alias_window :: "string \<Rightarrow> string option \<Rightarrow> err + unit" where
  "alias_window start finish =
     (if window_reversed start finish then Inl (ApiError BAD_REQUEST ''aliases.windowReversed'') else Inr ())"

record create_alias =
  na_localPart :: string
  na_destination :: string
  na_userStartDate :: "string option option"
  na_userEndDate :: "string option option"

record update_alias =
  pa_localPart :: "string option"
  pa_destination :: "string option"
  pa_userStartDate :: "string option option"
  pa_userEndDate :: "string option option"

definition als_get :: "int \<Rightarrow> string \<Rightarrow> mail_state \<Rightarrow> err + virtual_alias" where
  "als_get i domain st =
     (case List.find (\<lambda>a. va_id a = i \<and> va_domain a = domain) (ms_aliases st) of
        None \<Rightarrow> Inl (ApiError NOT_FOUND ''aliases.notFound'') | Some a \<Rightarrow> Inr a)"

definition als_resolveDomain :: "int \<Rightarrow> mail_state \<Rightarrow> err + string" where
  "als_resolveDomain domainId st =
     (case find_domain domainId st of
        None \<Rightarrow> Inl (HttpException NOT_FOUND ''Domain not found'') | Some d \<Rightarrow> Inr (vd_domain d))"

definition getWithOwner :: "int \<Rightarrow> string \<Rightarrow> mail_state \<Rightarrow> err + (virtual_alias \<times> string option)" where
  "getWithOwner i domain st =
     (case als_get i domain st of Inl e \<Rightarrow> Inl e | Inr a \<Rightarrow> Inr (a, resolveOwnerEmail (va_ownerId a) st))"

definition save_alias :: "virtual_alias \<Rightarrow> mail_state \<Rightarrow> mail_state" where
  "save_alias a st = st\<lparr>ms_aliases := save_row va_id a (ms_aliases st)\<rparr>"

definition als_assignOwner :: "int \<Rightarrow> string \<Rightarrow> string \<Rightarrow> mail_state \<Rightarrow> (virtual_alias, mail_state) outcome" where
  "als_assignOwner i domain ownerId st =
     (case als_get i domain st of
        Inl e \<Rightarrow> (Inl e, st)
      | Inr a \<Rightarrow>
          if isPostmaster (va_source a) domain then (Inl (ApiError FORBIDDEN ''aliases.postmasterUnassignable''), st)
          else if find_account ownerId (ms_accounts st) = None then (Inl (HttpException NOT_FOUND ''Account not found''), st)
          else let a = a\<lparr>va_ownerId := Some ownerId\<rparr> in (Inr a, save_alias a st))"

definition als_clearOwner :: "int \<Rightarrow> string \<Rightarrow> mail_state \<Rightarrow> (virtual_alias, mail_state) outcome" where
  "als_clearOwner i domain st =
     (case als_get i domain st of
        Inl e \<Rightarrow> (Inl e, st)
      | Inr a \<Rightarrow> let a = a\<lparr>va_ownerId := None\<rparr> in (Inr a, save_alias a st))"

definition assertSourceFree :: "string \<Rightarrow> int option \<Rightarrow> mail_state \<Rightarrow> err + unit" where
  "assertSourceFree source exclude st =
     (if \<exists>a \<in> set (ms_aliases st). va_source a = source \<and> exclude \<noteq> Some (va_id a)
      then Inl (ApiError CONFLICT ''aliases.alreadyExists'') else Inr ())"

definition alias_line :: "string \<Rightarrow> int \<Rightarrow> activity_input" where
  "alias_line action i =
     \<lparr>ai_action = action, ai_actorId = None, ai_subjectId = None, ai_entity = Some (''alias'', show_int i)\<rparr>"

definition note_alias :: "activity_context \<Rightarrow> string \<Rightarrow> int \<Rightarrow> mail_state \<Rightarrow> mail_state" where
  "note_alias ctx action i st = st\<lparr>ms_journal := record_activity ctx (alias_line action i) (ms_journal st)\<rparr>"

definition als_create ::
  "activity_context \<Rightarrow> int \<Rightarrow> create_alias \<Rightarrow> string \<Rightarrow> string option \<Rightarrow> time \<Rightarrow> mail_state
   \<Rightarrow> (virtual_alias, mail_state) outcome" where
  "als_create ctx newId input domain ownerId now st =
     (let source = na_localPart input @ ''@'' @ domain in
      case assertSourceFree source None st of
        Inl e \<Rightarrow> (Inl e, st)
      | Inr _ \<Rightarrow>
          (let start = start_date now (na_userStartDate input);
               finish = (case na_userEndDate input of None \<Rightarrow> None | Some e \<Rightarrow> e) in
           case alias_window start finish of
             Inl e \<Rightarrow> (Inl e, st)
           | Inr _ \<Rightarrow>
               (let a = \<lparr>va_id = newId, va_ownerId = ownerId, va_isProtected = 0, va_domain = domain, va_source = source,
                         va_destination = na_destination input, va_userStartDate = start, va_userEndDate = finish,
                         va_lastActivity = now, va_createdAt = now\<rparr>
                in (Inr a, note_alias ctx ''aliases.created'' newId (st\<lparr>ms_aliases := ms_aliases st @ [a]\<rparr>)))))"

definition changed_alias :: "update_alias \<Rightarrow> virtual_alias \<Rightarrow> virtual_alias" where
  "changed_alias input a =
     a\<lparr>va_source := (case pa_localPart input of None \<Rightarrow> va_source a | Some l \<Rightarrow> l @ ''@'' @ va_domain a),
       va_destination := (case pa_destination input of None \<Rightarrow> va_destination a | Some d \<Rightarrow> d),
       va_userStartDate := (case pa_userStartDate input of None \<Rightarrow> va_userStartDate a
         | Some None \<Rightarrow> UNBOUNDED_START_DATE | Some (Some s) \<Rightarrow> s),
       va_userEndDate := (case pa_userEndDate input of None \<Rightarrow> va_userEndDate a | Some e \<Rightarrow> e)\<rparr>"

definition als_update ::
  "activity_context \<Rightarrow> int \<Rightarrow> update_alias \<Rightarrow> string \<Rightarrow> mail_state \<Rightarrow> (virtual_alias, mail_state) outcome" where
  "als_update ctx i input domain st =
     (case als_get i domain st of
        Inl e \<Rightarrow> (Inl e, st)
      | Inr current \<Rightarrow>
          (case (case pa_localPart input of None \<Rightarrow> Inr () | Some l \<Rightarrow> assertSourceFree (l @ ''@'' @ domain) (Some i) st) of
             Inl e \<Rightarrow> (Inl e, st)
           | Inr _ \<Rightarrow>
               (let a = changed_alias input current in
                case alias_window (va_userStartDate a) (va_userEndDate a) of
                  Inl e \<Rightarrow> (Inl e, st)
                | Inr _ \<Rightarrow> (Inr a, note_alias ctx ''aliases.updated'' i (save_alias a st)))))"

definition als_remove :: "activity_context \<Rightarrow> int \<Rightarrow> string \<Rightarrow> mail_state \<Rightarrow> (unit, mail_state) outcome" where
  "als_remove ctx i domain st =
     (case als_get i domain st of
        Inl e \<Rightarrow> (Inl e, st)
      | Inr current \<Rightarrow>
          (Inr (), note_alias ctx ''aliases.deleted'' i
             (st\<lparr>ms_aliases := delete_where (\<lambda>a. va_id a = va_id current) (ms_aliases st)\<rparr>)))"

end
