(* ===== verification/MySpace.thy ===== *)
theory MySpace imports Aliases begin

text \<open>
  \<open>api/my-space/my-space.service.ts\<close>: an account managing the mailboxes and aliases it owns, and
  creating under the delegations it holds.
\<close>

definition ownedRecipient :: "string \<Rightarrow> int \<Rightarrow> mail_state \<Rightarrow> err + virtual_user" where
  "ownedRecipient userId i st =
     (case List.find (\<lambda>r. vu_id r = i \<and> vu_ownerId r = Some userId) (ms_users st) of
        None \<Rightarrow> Inl (HttpException NOT_FOUND ''Recipient not found'') | Some r \<Rightarrow> Inr r)"

definition ownedAlias :: "string \<Rightarrow> int \<Rightarrow> mail_state \<Rightarrow> err + virtual_alias" where
  "ownedAlias userId i st =
     (case List.find (\<lambda>a. va_id a = i \<and> va_ownerId a = Some userId) (ms_aliases st) of
        None \<Rightarrow> Inl (HttpException NOT_FOUND ''Alias not found'') | Some a \<Rightarrow> Inr a)"

record my_recipient =
  mr_id :: int
  mr_email :: string
  mr_domain :: string
  mr_quota :: int
  mr_usedBytes :: int
  mr_active :: bool
  mr_userStartDate :: string
  mr_userEndDate :: "string option"
  mr_createdAt :: time
  mr_lastActivity :: "time option"

definition my_getRecipient :: "string \<Rightarrow> int \<Rightarrow> mail_state \<Rightarrow> err + my_recipient" where
  "my_getRecipient userId i st =
     (case ownedRecipient userId i st of
        Inl e \<Rightarrow> Inl e
      | Inr r \<Rightarrow>
          (case getWithUsage (vu_id r) (vu_domain r) st of
             Inl e \<Rightarrow> Inl e
           | Inr v \<Rightarrow>
               Inr \<lparr>mr_id = vu_id (rv_row v), mr_email = vu_email (rv_row v), mr_domain = vu_domain (rv_row v),
                    mr_quota = vu_quota (rv_row v), mr_usedBytes = rv_usedBytes v, mr_active = (vu_active (rv_row v) = 1),
                    mr_userStartDate = vu_userStartDate (rv_row v), mr_userEndDate = vu_userEndDate (rv_row v),
                    mr_createdAt = vu_createdAt (rv_row v), mr_lastActivity = vu_lastActivity (rv_row v)\<rparr>))"

definition my_updateRecipient ::
  "mail_env \<Rightarrow> activity_context \<Rightarrow> string \<Rightarrow> int \<Rightarrow> update_recipient \<Rightarrow> time \<Rightarrow> mail_state
   \<Rightarrow> (my_recipient, mail_state) outcome" where
  "my_updateRecipient env ctx userId i input now st =
     (case ownedRecipient userId i st of
        Inl e \<Rightarrow> (Inl e, st)
      | Inr r \<Rightarrow>
          (case (case ur_quota input of None \<Rightarrow> Inr ()
                 | Some q \<Rightarrow> assertCanRaiseQuota userId (vu_domain r) (q - vu_quota r) st) of
             Inl e \<Rightarrow> (Inl e, st)
           | Inr _ \<Rightarrow>
               and_then (rcp_update env ctx (vu_id r) input (vu_domain r) (ur_quota input \<noteq> None) now st)
                 (\<lambda>_ st1. (my_getRecipient userId i st1, st1))))"

definition my_deleteRecipient ::
  "mail_env \<Rightarrow> activity_context \<Rightarrow> string \<Rightarrow> int \<Rightarrow> mail_state \<Rightarrow> (unit, mail_state) outcome" where
  "my_deleteRecipient env ctx userId i st =
     (case ownedRecipient userId i st of
        Inl e \<Rightarrow> (Inl e, st) | Inr r \<Rightarrow> rcp_remove env ctx (vu_id r) (vu_domain r) st)"

record my_alias =
  ml_id :: int
  ml_source :: string
  ml_destination :: string
  ml_domain :: string
  ml_userStartDate :: string
  ml_userEndDate :: "string option"
  ml_createdAt :: time
  ml_lastActivity :: time

definition my_getAlias :: "string \<Rightarrow> int \<Rightarrow> mail_state \<Rightarrow> err + my_alias" where
  "my_getAlias userId i st =
     (case ownedAlias userId i st of
        Inl e \<Rightarrow> Inl e
      | Inr a \<Rightarrow> Inr \<lparr>ml_id = va_id a, ml_source = va_source a, ml_destination = va_destination a, ml_domain = va_domain a,
           ml_userStartDate = va_userStartDate a, ml_userEndDate = va_userEndDate a, ml_createdAt = va_createdAt a,
           ml_lastActivity = va_lastActivity a\<rparr>)"

definition my_updateAlias ::
  "activity_context \<Rightarrow> string \<Rightarrow> int \<Rightarrow> update_alias \<Rightarrow> mail_state \<Rightarrow> (my_alias, mail_state) outcome" where
  "my_updateAlias ctx userId i input st =
     (case ownedAlias userId i st of
        Inl e \<Rightarrow> (Inl e, st)
      | Inr a \<Rightarrow>
          and_then (als_update ctx (va_id a) (input\<lparr>pa_localPart := None\<rparr>) (va_domain a) st)
            (\<lambda>_ st1. (my_getAlias userId i st1, st1)))"

definition my_deleteAlias :: "activity_context \<Rightarrow> string \<Rightarrow> int \<Rightarrow> mail_state \<Rightarrow> (unit, mail_state) outcome" where
  "my_deleteAlias ctx userId i st =
     (case ownedAlias userId i st of
        Inl e \<Rightarrow> (Inl e, st) | Inr a \<Rightarrow> als_remove ctx (va_id a) (va_domain a) st)"

definition my_createRecipient ::
  "mail_env \<Rightarrow> activity_context \<Rightarrow> user_ids \<Rightarrow> string \<Rightarrow> int \<Rightarrow> create_recipient \<Rightarrow> time \<Rightarrow> mail_state
   \<Rightarrow> (my_recipient, mail_state) outcome" where
  "my_createRecipient env ctx ids userId domainId input now st =
     (case rcp_resolveDomain domainId st of
        Inl e \<Rightarrow> (Inl e, st)
      | Inr domain \<Rightarrow>
          (case assertCanCreateRecipient userId domainId (nr_quota input) st of
             Inl e \<Rightarrow> (Inl e, st)
           | Inr _ \<Rightarrow>
               and_then (rcp_create env ctx ids input domain (Some userId) True now st)
                 (\<lambda>created st1. (my_getRecipient userId (vu_id created) st1, st1))))"

definition my_createAlias ::
  "activity_context \<Rightarrow> int \<Rightarrow> string \<Rightarrow> int \<Rightarrow> create_alias \<Rightarrow> time \<Rightarrow> mail_state \<Rightarrow> (my_alias, mail_state) outcome" where
  "my_createAlias ctx newId userId domainId input now st =
     (case als_resolveDomain domainId st of
        Inl e \<Rightarrow> (Inl e, st)
      | Inr domain \<Rightarrow>
          (case assertCanCreateAlias userId domainId st of
             Inl e \<Rightarrow> (Inl e, st)
           | Inr _ \<Rightarrow>
               and_then (als_create ctx newId input domain (Some userId) now st)
                 (\<lambda>created st1. (my_getAlias userId (va_id created) st1, st1))))"

end
