(* ===== verification/DomainAdmin.thy ===== *)
theory DomainAdmin imports Recipients begin

text \<open>
  \<open>api/domains/domains.service.ts\<close> with \<open>core/dmarc/dmarc-mailbox.ts\<close>: the domains, the disk they may
  reserve, and the two mailboxes each is born with. The statistics of the volume, the opendkim sidecar
  and the random password of \<open>postmaster@\<close> are arguments. The listing is not modelled.
\<close>

record volume_stats =
  vs_blocks :: int
  vs_bavail :: int
  vs_bsize :: int

record disk_view =
  dk_totalBytes :: int
  dk_freeBytes :: int
  dk_reservedBytes :: int
  dk_assignableBytes :: int

definition disk :: "volume_stats \<Rightarrow> mail_state \<Rightarrow> disk_view" where
  "disk stats st =
     (let totalBytes = vs_blocks stats * vs_bsize stats; freeBytes = vs_bavail stats * vs_bsize stats;
          reservedBytes = sum_where vd_quota (\<lambda>_. True) (ms_domains st)
      in \<lparr>dk_totalBytes = totalBytes, dk_freeBytes = freeBytes, dk_reservedBytes = reservedBytes,
          dk_assignableBytes = max 0 (min totalBytes (freeBytes + reservedBytes) - reservedBytes)\<rparr>)"

definition MIN_DOMAIN_QUOTA_BYTES :: int where "MIN_DOMAIN_QUOTA_BYTES = 10 * 1024 * 1024"

record create_domain =
  nd_domain :: string
  nd_quota :: int
  nd_active :: "bool option"
  nd_userStartDate :: "string option option"
  nd_userEndDate :: "string option option"

record update_domain =
  ud_quota :: "int option"
  ud_active :: "bool option"
  ud_userStartDate :: "string option option"
  ud_userEndDate :: "string option option"

text \<open>\<open>/^[a-z0-9.-]+\.[a-z]{2,}$/i\<close>, then the lower case.\<close>

definition ascii_letter :: "char \<Rightarrow> bool" where
  "ascii_letter c = (is_upper c \<or> (97 \<le> (of_char c :: nat) \<and> (of_char c :: nat) \<le> 122))"

definition valid_fqdn :: "string \<Rightarrow> string option" where
  "valid_fqdn s =
     (let tld = rev (takeWhile (\<lambda>c. c \<noteq> CHR ''.'') (rev s)); prefix = take (length s - length tld - 1) s
      in if 3 \<le> length s \<and> length s \<le> 255 \<and> CHR ''.'' \<in> set s \<and> prefix \<noteq> []
            \<and> list_all (\<lambda>c. ascii_letter c \<or> is_digit c \<or> c \<in> set ''.-'') prefix
            \<and> 2 \<le> length tld \<and> list_all ascii_letter tld
         then Some (toLowerCase s) else None)"

definition domain_quota_ok :: "int \<Rightarrow> bool" where "domain_quota_ok q = (MIN_DOMAIN_QUOTA_BYTES \<le> q)"

definition domain_window :: "string \<Rightarrow> string option \<Rightarrow> err + unit" where
  "domain_window start finish =
     (if window_reversed start finish then Inl (ApiError BAD_REQUEST ''domains.windowReversed'') else Inr ())"

definition dom_get :: "int \<Rightarrow> mail_state \<Rightarrow> err + (virtual_domain \<times> string option)" where
  "dom_get i st =
     (case find_domain i st of
        None \<Rightarrow> Inl (HttpException NOT_FOUND ''Domain not found'')
      | Some d \<Rightarrow> Inr (d, case vd_ownerId d of None \<Rightarrow> None
                          | Some a \<Rightarrow> map_option ac_email (find_account a (ms_accounts st))))"

text \<open>\<open>attachUsage\<close>: the occupancy of each domain, a domain with no counter reading as empty.\<close>

definition domain_usage :: "mail_state \<Rightarrow> virtual_domain list \<Rightarrow> (virtual_domain \<times> int) list" where
  "domain_usage st domains =
     map (\<lambda>d. (d, case List.find (\<lambda>q. vqd_domain q = vd_domain d) (rev (ms_quotaDomains st)) of
                     None \<Rightarrow> 0 | Some q \<Rightarrow> vqd_bytes q)) domains"

section \<open>The two mailboxes of a domain\<close>

record domain_draws =
  dw_domainId :: int
  dw_domainCounter :: int
  dw_postmaster :: user_ids
  dw_dmarc :: user_ids
  dw_password :: string

definition reserved_user :: "int \<Rightarrow> string \<Rightarrow> string \<Rightarrow> string \<Rightarrow> string \<Rightarrow> string \<Rightarrow> int \<Rightarrow> time \<Rightarrow> virtual_user" where
  "reserved_user i domain email password maildir start active now =
     \<lparr>vu_id = i, vu_ownerId = None, vu_domain = domain, vu_email = email, vu_password = password, vu_maildir = maildir,
      vu_quota = 0, vu_active = active, vu_isProtected = 0, vu_uid = ''vmail'', vu_gid = ''vmail'',
      vu_userStartDate = start, vu_userEndDate = None, vu_lastActivity = None, vu_createdAt = now\<rparr>"

definition reservePostmaster ::
  "mail_env \<Rightarrow> user_ids \<Rightarrow> string \<Rightarrow> string \<Rightarrow> time \<Rightarrow> mail_state \<Rightarrow> (unit, mail_state) outcome" where
  "reservePostmaster env ids drawn domain now st =
     (let email = ''postmaster@'' @ domain in
      case List.find (\<lambda>u. vu_email u = email) (ms_users st) of
        Some existing \<Rightarrow>
          (Inr (), if vu_active existing \<noteq> 0 then save_user (existing\<lparr>vu_active := 0\<rparr>) st else st)
      | None \<Rightarrow>
          and_then (insert_user (ui_counter ids) now
              (reserved_user (ui_row ids) domain email (sha512crypt env drawn) (domain @ ''/postmaster/'') (iso_date now) 0 now) st)
            (\<lambda>_ st1. (Inr (), st1)))"

text \<open>The IMAP password of the reports mailbox, when the instance has a pepper: its keyed digest, in hex.\<close>

definition dmarcReportsPassword :: "(string \<Rightarrow> string) option \<Rightarrow> string \<Rightarrow> string option" where
  "dmarcReportsPassword hmac address =
     (case hmac of None \<Rightarrow> None | Some h \<Rightarrow> Some (h (''dmarc-reports-imap:'' @ toLowerCase address)))"

datatype dmarc_outcome = MailboxCreated | MailboxReactivated | MailboxUpdated | MailboxPresent

definition ensureDmarcReportsMailbox ::
  "mail_env \<Rightarrow> (string \<Rightarrow> string) option \<Rightarrow> user_ids \<Rightarrow> string \<Rightarrow> string \<Rightarrow> time \<Rightarrow> mail_state
   \<Rightarrow> (dmarc_outcome, mail_state) outcome" where
  "ensureDmarcReportsMailbox env hmac ids drawn domain now st =
     (let email = dmarcReportsAddress domain; password = dmarcReportsPassword hmac email in
      case List.find (\<lambda>u. vu_email u = email) (ms_users st) of
        Some existing \<Rightarrow>
          (let hash = (case password of None \<Rightarrow> None
                 | Some p \<Rightarrow> if sha512cryptMatches env p (vu_password existing) then None else Some (sha512crypt env p))
           in if vu_active existing = 1 \<and> vu_quota existing = 0 \<and> hash = None then (Inr MailboxPresent, st)
              else (Inr (if vu_active existing = 1 then MailboxUpdated else MailboxReactivated),
                    save_user (existing\<lparr>vu_active := 1, vu_quota := 0,
                       vu_password := (case hash of None \<Rightarrow> vu_password existing | Some h \<Rightarrow> h)\<rparr>) st))
      | None \<Rightarrow>
          and_then (insert_user (ui_counter ids) now
              (reserved_user (ui_row ids) domain email
                 (sha512crypt env (case password of None \<Rightarrow> drawn | Some p \<Rightarrow> p))
                 (domain @ ''/'' @ DMARC_REPORTS_LOCAL_PART @ ''/'') (iso_date now) 1 now) st)
            (\<lambda>_ st1. (Inr MailboxCreated, st1)))"

section \<open>Domains\<close>

text \<open>A transaction: what throws inside leaves the state it started from.\<close>

definition transaction :: "mail_state \<Rightarrow> ('a, mail_state) outcome \<Rightarrow> ('a, mail_state) outcome" where
  "transaction st r = (case r of (Inl e, _) \<Rightarrow> (Inl e, st) | (Inr a, st') \<Rightarrow> (Inr a, st'))"

definition dom_create ::
  "mail_env \<Rightarrow> (string \<Rightarrow> string) option \<Rightarrow> (string \<Rightarrow> 'k option) \<Rightarrow> volume_stats \<Rightarrow> domain_draws \<Rightarrow> create_domain \<Rightarrow> string
   \<Rightarrow> time \<Rightarrow> mail_state \<Rightarrow> (virtual_domain \<times> 'k option, mail_state) outcome" where
  "dom_create env hmac dkimCreate stats dw input ownerId now st =
     (if nd_domain input \<in> vd_domain ` set (ms_domains st) then (Inl (HttpException CONFLICT ''Domain already exists''), st)
      else if dk_assignableBytes (disk stats st) < nd_quota input
      then (Inl (HttpException BAD_REQUEST ''Quota exceeds the bytes still assignable''), st)
      else let start = start_date now (nd_userStartDate input);
               finish = (case nd_userEndDate input of None \<Rightarrow> None | Some e \<Rightarrow> e) in
        case domain_window start finish of
          Inl e \<Rightarrow> (Inl e, st)
        | Inr _ \<Rightarrow>
            and_then (transaction st
              (and_then (insert_domain (dw_domainCounter dw) now
                  \<lparr>vd_id = dw_domainId dw, vd_ownerId = Some ownerId, vd_domain = nd_domain input, vd_quota = nd_quota input,
                   vd_active = (if nd_active input = Some True then 1 else 0), vd_isProtected = 0,
                   vd_userStartDate = start, vd_userEndDate = finish, vd_lastActivity = now, vd_createdAt = now\<rparr> st)
                (\<lambda>d st1. and_then (reservePostmaster env (dw_postmaster dw) (dw_password dw) (vd_domain d) now st1)
                (\<lambda>_ st2. and_then (ensureDmarcReportsMailbox env hmac (dw_dmarc dw) (dw_password dw) (vd_domain d) now st2)
                (\<lambda>_ st3. (Inr d, st3))))))
              (\<lambda>saved st4. (Inr (saved, dkimCreate (vd_domain saved)), st4)))"

definition save_domain :: "virtual_domain \<Rightarrow> mail_state \<Rightarrow> mail_state" where
  "save_domain d st = st\<lparr>ms_domains := save_row vd_id d (ms_domains st)\<rparr>"

definition changed_domain :: "update_domain \<Rightarrow> virtual_domain \<Rightarrow> virtual_domain" where
  "changed_domain input d =
     d\<lparr>vd_quota := (case ud_quota input of None \<Rightarrow> vd_quota d | Some q \<Rightarrow> q),
       vd_active := (case ud_active input of None \<Rightarrow> vd_active d | Some b \<Rightarrow> if b then 1 else 0),
       vd_userStartDate := (case ud_userStartDate input of None \<Rightarrow> vd_userStartDate d
         | Some None \<Rightarrow> UNBOUNDED_START_DATE | Some (Some s) \<Rightarrow> s),
       vd_userEndDate := (case ud_userEndDate input of None \<Rightarrow> vd_userEndDate d | Some e \<Rightarrow> e)\<rparr>"

definition dom_update :: "volume_stats \<Rightarrow> int \<Rightarrow> update_domain \<Rightarrow> mail_state \<Rightarrow> (virtual_domain, mail_state) outcome" where
  "dom_update stats i input st =
     (case dom_get i st of
        Inl e \<Rightarrow> (Inl e, st)
      | Inr (current, _) \<Rightarrow>
          if (case ud_quota input of None \<Rightarrow> False
              | Some q \<Rightarrow> 0 < q \<and> dk_assignableBytes (disk stats st) + vd_quota current < q)
          then (Inl (HttpException BAD_REQUEST ''Quota exceeds the bytes still assignable''), st)
          else let d = changed_domain input current in
            case domain_window (vd_userStartDate d) (vd_userEndDate d) of
              Inl e \<Rightarrow> (Inl e, st)
            | Inr _ \<Rightarrow> (Inr d, save_domain d st))"

definition dom_remove :: "mail_env \<Rightarrow> int \<Rightarrow> mail_state \<Rightarrow> (unit, mail_state) outcome" where
  "dom_remove env i st =
     (case dom_get i st of
        Inl e \<Rightarrow> (Inl e, st)
      | Inr (d, _) \<Rightarrow> (Inr (), snd (removeDomainTree env (vd_domain d) (delete_domain d st))))"

definition transferOwner ::
  "int \<Rightarrow> string \<Rightarrow> string \<Rightarrow> time \<Rightarrow> mail_state \<Rightarrow> (virtual_domain, mail_state) outcome" where
  "transferOwner i actingUserId newOwnerId now st =
     (case find_domain i st of
        None \<Rightarrow> (Inl (HttpException NOT_FOUND ''Domain not found''), st)
      | Some domain \<Rightarrow>
          if find_account newOwnerId (ms_accounts st) = None then (Inl (HttpException NOT_FOUND ''Account not found''), st)
          else let d = domain\<lparr>vd_ownerId := Some newOwnerId\<rparr>; st1 = save_domain d st in
            (Inr d, st1\<lparr>ms_audit := audit_record now \<lparr>an_actorId = Some actingUserId, an_action = ''domain.owner.changed'',
               an_entityType = ''domain'', an_entityId = Some (show_int i),
               an_before = Some (JObj [(''ownerId'', case vd_ownerId domain of None \<Rightarrow> JNull | Some a \<Rightarrow> JStr a)]),
               an_after = Some (JObj [(''ownerId'', JStr newOwnerId)])\<rparr> (ms_audit st1)\<rparr>))"

end
