(* ===== verification/MailRoutes.thy ===== *)
theory MailRoutes imports MySpace DomainAdmin Guards begin

text \<open>
  The routes that change the mail tables: the controllers of \<open>api/domains\<close> (domains, administration,
  mailboxes, aliases, delegations), of \<open>api/my-space\<close> and of \<open>api/protection\<close>. \<open>serve\<close> runs a request the
  way the framework does: the guards with the permissions the route declares, the schema of the body,
  then the handler, which resolves the domain of the path, checks the protection and calls the service.
\<close>

section \<open>Requests\<close>

text \<open>A body is what its schema puts out: trimmed, in lower case, defaults filled in.\<close>

datatype mail_request =
    CreateDomain create_domain
  | SetDomainActive bool
  | SetDomainValidity "string option" "string option"
  | TransferDomain string
  | ResizeQuota int
  | DeleteDomain
  | CreateRecipient create_recipient
  | UpdateRecipient int update_recipient
  | DeleteRecipient int
  | AssignRecipient int string
  | ReleaseRecipient int
  | CreateAlias create_alias
  | UpdateAlias int update_alias
  | DeleteAlias int
  | AssignAlias int string
  | ReleaseAlias int
  | InviteDelegate invite_delegation
  | OpenLink delegation_token
  | EditOffer int delegation_token
  | RevokeOffer int
  | SetCaps string delegation_caps
  | RevokeDelegation string
  | MyCreateRecipient create_recipient
  | MyUpdateRecipient int update_recipient
  | MyDeleteRecipient int
  | MyCreateAlias create_alias
  | MyUpdateAlias int update_alias
  | MyDeleteAlias int
  | Protect string row_id
  | Unprotect string row_id

fun body_ok :: "mail_request \<Rightarrow> bool" where
  "body_ok (ResizeQuota q) = domain_quota_ok q"
| "body_ok (CreateDomain b) = (valid_fqdn (nd_domain b) = Some (nd_domain b) \<and> domain_quota_ok (nd_quota b))"
| "body_ok (CreateRecipient b) = (valid_local_part (nr_localPart b) = Some (nr_localPart b) \<and> recipient_quota_ok (nr_quota b))"
| "body_ok (MyCreateRecipient b) = (valid_local_part (nr_localPart b) = Some (nr_localPart b) \<and> recipient_quota_ok (nr_quota b))"
| "body_ok (UpdateRecipient i b) = (case ur_quota b of None \<Rightarrow> True | Some q \<Rightarrow> recipient_quota_ok q)"
| "body_ok (MyUpdateRecipient i b) = ((case ur_quota b of None \<Rightarrow> True | Some q \<Rightarrow> recipient_quota_ok q)
     \<and> (ur_password b \<noteq> None \<or> ur_active b \<noteq> None \<or> ur_quota b \<noteq> None
        \<or> ur_userStartDate b \<noteq> None \<or> ur_userEndDate b \<noteq> None))"
| "body_ok (CreateAlias b) = (valid_local_part (na_localPart b) = Some (na_localPart b))"
| "body_ok (MyCreateAlias b) = (valid_local_part (na_localPart b) = Some (na_localPart b))"
| "body_ok (UpdateAlias i b) = (case pa_localPart b of None \<Rightarrow> True | Some l \<Rightarrow> valid_local_part l = Some l)"
| "body_ok (MyUpdateAlias i b) =
     (pa_destination b \<noteq> None \<or> pa_userStartDate b \<noteq> None \<or> pa_userEndDate b \<noteq> None)"
| "body_ok (InviteDelegate b) = (caps_ok b \<and> expiresDays_ok (of_expiresDays b))"
| "body_ok (OpenLink b) = (caps_ok b \<and> expiresDays_ok (of_expiresDays b) \<and> offer_note (Some (dt_note b)) = Some (dt_note b))"
| "body_ok (EditOffer i b) = (caps_ok b \<and> expiresDays_ok (of_expiresDays b) \<and> offer_note (Some (dt_note b)) = Some (dt_note b))"
| "body_ok (SetCaps a b) = caps_ok b"
| "body_ok _ = True"

text \<open>\<open>@RequireGlobalPermissions\<close> and \<open>@RequireDomainPermissions\<close>.\<close>

definition delegating :: "requirement list" where
  "delegating = [(''recipients'', [''access'', ''create-recipient'']), (''aliases'', [''access'', ''create-alias''])]"

definition toggling :: "requirement list" where
  "toggling = [(''admin'', [''access'', ''toggle-domain-active'']), (''domain'', [''access'', ''toggle-domain-active''])]"

fun requires_global :: "mail_request \<Rightarrow> requirement list" where
  "requires_global (CreateDomain b) = [(''domains'', [''access'', ''create-domain''])]"
| "requires_global (TransferDomain a) = [(''domain_owner_elevated'', [''transfer-domain-ownership''])]"
| "requires_global (ResizeQuota q) = [(''domains'', [''access'']), (''superadmin'', [''access'', ''resize-any-domain-quota''])]"
| "requires_global DeleteDomain = [(''domains'', [''access'']), (''superadmin'', [''access'', ''delete-any-domain''])]"
| "requires_global (Protect t i) = [(''misc'', [''access'', ''protect-resource''])]"
| "requires_global _ = []"

fun requires_domain :: "mail_request \<Rightarrow> requirement list" where
  "requires_domain (SetDomainActive b) = toggling"
| "requires_domain (SetDomainValidity s e) = toggling"
| "requires_domain (TransferDomain a) = [(''domain'', [''access'', ''transfer-domain-ownership''])]"
| "requires_domain (CreateRecipient b) = [(''recipients'', [''access'', ''create-recipient''])]"
| "requires_domain (UpdateRecipient i b) = [(''recipients'', [''access'', ''edit-recipient''])]"
| "requires_domain (DeleteRecipient i) = [(''recipients'', [''access'', ''delete-recipient''])]"
| "requires_domain (AssignRecipient i a) = [(''mailboxes'', [''access'', ''assign-recipient-owner''])]"
| "requires_domain (ReleaseRecipient i) = [(''mailboxes'', [''access'', ''unassign-recipient-owner''])]"
| "requires_domain (CreateAlias b) = [(''aliases'', [''access'', ''create-alias''])]"
| "requires_domain (UpdateAlias i b) = [(''aliases'', [''access'', ''edit-alias''])]"
| "requires_domain (DeleteAlias i) = [(''aliases'', [''access'', ''delete-alias''])]"
| "requires_domain (AssignAlias i a) = [(''mailboxes'', [''access'', ''assign-alias-owner''])]"
| "requires_domain (ReleaseAlias i) = [(''mailboxes'', [''access'', ''unassign-alias-owner''])]"
| "requires_domain (InviteDelegate b) = delegating"
| "requires_domain (OpenLink b) = delegating"
| "requires_domain (EditOffer i b) = delegating"
| "requires_domain (RevokeOffer i) = delegating"
| "requires_domain (SetCaps a b) = delegating"
| "requires_domain (RevokeDelegation a) = delegating"
| "requires_domain _ = []"

section \<open>Handlers\<close>

record route_env =
  re_mail :: mail_env
  re_guard :: guard_lib
  re_ctx :: activity_context
  re_stats :: volume_stats
  re_baseUrl :: string
  re_row :: int
  re_token :: string
  re_ids :: user_ids
  re_draws :: domain_draws
  re_hmac :: "(string \<Rightarrow> string) option"
  re_dkim :: "string \<Rightarrow> string option"

text \<open>What a route answers beside its status is dropped; an exception or a success remains.\<close>

definition done_with :: "('a, mail_state) outcome \<Rightarrow> (unit, mail_state) outcome" where
  "done_with r = (case fst r of Inl e \<Rightarrow> Inl e | Inr _ \<Rightarrow> Inr (), snd r)"

text \<open>\<open>resolveDomain\<close>, then \<open>assertUnprotected\<close>, then the service.\<close>

definition on_domain ::
  "int \<Rightarrow> (protectable \<times> int) option \<Rightarrow> (string \<Rightarrow> mail_state \<Rightarrow> ('a, mail_state) outcome) \<Rightarrow> mail_state
   \<Rightarrow> (unit, mail_state) outcome" where
  "on_domain domainId protected f st =
     (case rcp_resolveDomain domainId st of
        Inl e \<Rightarrow> (Inl e, st)
      | Inr domain \<Rightarrow>
          (case (case protected of None \<Rightarrow> Inr () | Some (type, i) \<Rightarrow> assertUnprotected type (numbered i) st) of
             Inl e \<Rightarrow> (Inl e, st) | Inr _ \<Rightarrow> done_with (f domain st)))"

definition unprotected_then ::
  "protectable \<Rightarrow> int \<Rightarrow> (mail_state \<Rightarrow> ('a, mail_state) outcome) \<Rightarrow> mail_state \<Rightarrow> (unit, mail_state) outcome" where
  "unprotected_then type i f st =
     (case assertUnprotected type (numbered i) st of Inl e \<Rightarrow> (Inl e, st) | Inr _ \<Rightarrow> done_with (f st))"

definition no_change :: update_domain where
  "no_change = \<lparr>ud_quota = None, ud_active = None, ud_userStartDate = None, ud_userEndDate = None\<rparr>"

fun handle ::
  "route_env \<Rightarrow> guard_user \<Rightarrow> int \<Rightarrow> time \<Rightarrow> mail_request \<Rightarrow> mail_state \<Rightarrow> (unit, mail_state) outcome"
where
  "handle env u d now (CreateDomain b) st =
     done_with (dom_create (re_mail env) (re_hmac env) (re_dkim env) (re_stats env) (re_draws env) b (gu_id u) now st)"
| "handle env u d now (SetDomainActive b) st =
     unprotected_then PDomain d (dom_update (re_stats env) d (no_change\<lparr>ud_active := Some b\<rparr>)) st"
| "handle env u d now (SetDomainValidity s e) st =
     unprotected_then PDomain d (dom_update (re_stats env) d (no_change\<lparr>ud_userStartDate := Some s, ud_userEndDate := Some e\<rparr>)) st"
| "handle env u d now (TransferDomain a) st = unprotected_then PDomain d (transferOwner d (gu_id u) a now) st"
| "handle env u d now (ResizeQuota q) st =
     unprotected_then PDomain d (dom_update (re_stats env) d (no_change\<lparr>ud_quota := Some q\<rparr>)) st"
| "handle env u d now DeleteDomain st =
     (case assertDomainRemovable d st of Inl e \<Rightarrow> (Inl e, st) | Inr _ \<Rightarrow> dom_remove (re_mail env) d st)"
| "handle env u d now (CreateRecipient b) st =
     on_domain d None (\<lambda>domain. rcp_create (re_mail env) (re_ctx env) (re_ids env) b domain None False now) st"
| "handle env u d now (UpdateRecipient i b) st =
     on_domain d (Some (PRecipient, i)) (\<lambda>domain. rcp_update (re_mail env) (re_ctx env) i b domain False now) st"
| "handle env u d now (DeleteRecipient i) st =
     on_domain d (Some (PRecipient, i)) (rcp_remove (re_mail env) (re_ctx env) i) st"
| "handle env u d now (AssignRecipient i a) st =
     on_domain d (Some (PRecipient, i)) (\<lambda>domain. rcp_assignOwner i domain a) st"
| "handle env u d now (ReleaseRecipient i) st = on_domain d (Some (PRecipient, i)) (rcp_clearOwner i) st"
| "handle env u d now (CreateAlias b) st =
     on_domain d None (\<lambda>domain. als_create (re_ctx env) (re_row env) b domain None now) st"
| "handle env u d now (UpdateAlias i b) st = on_domain d (Some (PAlias, i)) (als_update (re_ctx env) i b) st"
| "handle env u d now (DeleteAlias i) st = on_domain d (Some (PAlias, i)) (als_remove (re_ctx env) i) st"
| "handle env u d now (AssignAlias i a) st = on_domain d (Some (PAlias, i)) (\<lambda>domain. als_assignOwner i domain a) st"
| "handle env u d now (ReleaseAlias i) st = on_domain d (Some (PAlias, i)) (als_clearOwner i) st"
| "handle env u d now (InviteDelegate b) st =
     done_with (grantOrInvite (re_mail env) (re_row env) (re_token env) (gu_id u) d b (re_baseUrl env) now st)"
| "handle env u d now (OpenLink b) st =
     done_with (createToken (re_mail env) (re_row env) (re_token env) (gu_id u) d b (re_baseUrl env) now st)"
| "handle env u d now (EditOffer i b) st = editInvitation d i b now st"
| "handle env u d now (RevokeOffer i) st = revokeInvitation d i now st"
| "handle env u d now (SetCaps a b) st = done_with (setCaps d a b now st)"
| "handle env u d now (RevokeDelegation a) st = dl_revoke d a st"
| "handle env u d now (MyCreateRecipient b) st =
     done_with (my_createRecipient (re_mail env) (re_ctx env) (re_ids env) (gu_id u) d b now st)"
| "handle env u d now (MyUpdateRecipient i b) st =
     unprotected_then PRecipient i (my_updateRecipient (re_mail env) (re_ctx env) (gu_id u) i b now) st"
| "handle env u d now (MyDeleteRecipient i) st =
     unprotected_then PRecipient i (my_deleteRecipient (re_mail env) (re_ctx env) (gu_id u) i) st"
| "handle env u d now (MyCreateAlias b) st = done_with (my_createAlias (re_ctx env) (re_row env) (gu_id u) d b now st)"
| "handle env u d now (MyUpdateAlias i b) st = unprotected_then PAlias i (my_updateAlias (re_ctx env) (gu_id u) i b) st"
| "handle env u d now (MyDeleteAlias i) st = unprotected_then PAlias i (my_deleteAlias (re_ctx env) (gu_id u) i) st"
| "handle env u d now (Protect t i) st = protect (re_ctx env) t i (gu_isRoot u) st"
| "handle env u d now (Unprotect t i) st = unprotect (re_ctx env) t i st"

section \<open>Serving a request\<close>

definition needs_root :: "mail_request \<Rightarrow> bool" where
  "needs_root r = (case r of Unprotect t i \<Rightarrow> True | _ \<Rightarrow> False)"

definition owner_of :: "mail_state \<Rightarrow> int \<Rightarrow> string option option" where
  "owner_of st d = map_option vd_ownerId (find_domain d st)"

definition serve ::
  "route_env \<Rightarrow> guard_user \<Rightarrow> int \<Rightarrow> time \<Rightarrow> mail_request \<Rightarrow> mail_state \<Rightarrow> (unit, mail_state) outcome" where
  "serve env u d now r st =
     (case global_guard (re_guard env) (Some (requires_global r)) (Some u) of
        Inl e \<Rightarrow> (Inl e, st)
      | Inr _ \<Rightarrow>
          (case domain_guard (re_guard env) (owner_of st) (Some (requires_domain r)) (Some u) (Some d) of
             Inl e \<Rightarrow> (Inl e, st)
           | Inr _ \<Rightarrow>
               (case (if needs_root r then root_guard (Some u) else Inr True) of
                  Inl e \<Rightarrow> (Inl e, st)
                | Inr _ \<Rightarrow>
                    if \<not> body_ok r then (Inl (HttpException BAD_REQUEST ''Validation failed''), st)
                    else handle env u d now r st)))"

end
