(* ===== verification/MailLedger.thy ===== *)
theory MailLedger imports Delegations begin

text \<open>
  The books of a domain: what its mailboxes take, what pending offers promise and what delegations
  still hold unused. \<open>committed\<close> is their sum; a delegation's comment in the sources asks that the quota
  of the domain always covers it. The lemmas say what each change of a table does to the sum.
\<close>

section \<open>Sums\<close>

lemma sum_list_sort_key: "sum_list (map f (filter P (sort_key g xs))) = sum_list (map (f :: _ \<Rightarrow> int) (filter P xs))"
proof (induction xs)
  case (Cons x xs)
  have "sum_list (map f (filter P (insort_key g x ys))) = (if P x then f x else 0) + sum_list (map f (filter P ys))" for ys
    by (induction ys) auto
  with Cons show ?case by simp
qed simp

text \<open>One row of a keyed table counts differently: the sum moves by the difference.\<close>

lemma sum_list_change_one:
  fixes f f' :: "'a \<Rightarrow> int"
  assumes "distinct (map key rows)" "r \<in> set rows" "\<And>x. x \<in> set rows \<Longrightarrow> key x \<noteq> key r \<Longrightarrow> f' x = f x"
  shows "sum_list (map f' rows) = sum_list (map f rows) + (f' r - f r)"
  using assms
proof (induction rows)
  case (Cons x rows)
  show ?case
  proof (cases "x = r")
    case True
    with Cons.prems(1) have "key r \<notin> key ` set rows" by simp
    then have "key y \<noteq> key r" if "y \<in> set rows" for y using that by (metis image_eqI)
    with Cons.prems(3) have "map f' rows = map f rows" by simp
    then have "sum_list (map f' rows) = sum_list (map f rows)" by (rule arg_cong)
    with True show ?thesis by simp
  next
    case False
    with Cons.prems have "r \<in> set rows" by simp
    moreover from this Cons.prems(1) have "key x \<noteq> key r" by auto
    ultimately show ?thesis using Cons.IH Cons.prems by simp
  qed
qed simp

lemma sum_list_change_none:
  "(\<And>x. x \<in> set rows \<Longrightarrow> f' x = f x) \<Longrightarrow> sum_list (map f' rows) = sum_list (map (f :: _ \<Rightarrow> int) rows)"
  by (metis map_eq_conv)

text \<open>A row of a keyed table replaced by another of the same key.\<close>

lemma sum_save_row:
  fixes f :: "'a \<Rightarrow> int"
  assumes "distinct (map key rows)" "r \<in> set rows" "key r' = key r"
  shows "sum_list (map f (filter P (save_row key r' rows)))
       = sum_list (map f (filter P rows)) - (if P r then f r else 0) + (if P r' then f r' else 0)"
  using assms
proof (induction rows)
  case (Cons x rows)
  show ?case
  proof (cases "x = r")
    case True
    with Cons.prems(1) have "key r \<notin> key ` set rows" by simp
    with Cons.prems(3) have "map (\<lambda>x. if key x = key r' then r' else x) rows = rows"
      by (intro map_idI) (metis image_eqI)
    with True Cons.prems(3) show ?thesis by (simp add: save_row_def)
  next
    case False
    with Cons.prems have r: "r \<in> set rows" "key x \<noteq> key r'" by auto
    with Cons.prems(3) have "save_row key r' (x # rows) = x # save_row key r' rows" by (auto simp: save_row_def)
    with Cons.IH Cons.prems r show ?thesis by simp
  qed
qed simp

lemma sum_delete_row:
  fixes f :: "'a \<Rightarrow> int"
  assumes "distinct (map key rows)" "r \<in> set rows"
  shows "sum_list (map f (filter P (delete_where (\<lambda>x. key x = key r) rows)))
       = sum_list (map f (filter P rows)) - (if P r then f r else 0)"
  using assms
proof (induction rows)
  case (Cons x rows)
  show ?case
  proof (cases "x = r")
    case True
    with Cons.prems(1) have "key r \<notin> key ` set rows" by simp
    then have "delete_where (\<lambda>x. key x = key r) rows = rows"
      unfolding delete_where_def by (intro filter_True) (metis image_eqI)
    with True show ?thesis by (simp add: delete_where_def)
  next
    case False
    with Cons.prems have r: "r \<in> set rows" "key x \<noteq> key r" by auto
    with Cons show ?thesis by (simp add: delete_where_def)
  qed
qed simp

section \<open>The books\<close>

definition reserve_sum :: "virtual_domain \<Rightarrow> mail_state \<Rightarrow> int" where
  "reserve_sum d st = sum_list (map (\<lambda>r. unusedReserve r (vd_domain d) st) (delegations_on (vd_id d) st))"

definition committed :: "time \<Rightarrow> virtual_domain \<Rightarrow> mail_state \<Rightarrow> int" where
  "committed now d st =
     sumQuota (vd_domain d) None st + pendingReservedBytes (vd_id d) None now st + reserve_sum d st"

definition one_grant_each :: "mail_state \<Rightarrow> bool" where
  "one_grant_each st = (distinct (map (\<lambda>r. (dd_accountId r, dd_domainId r)) (ms_delegations st))
     \<and> distinct (map dd_id (ms_delegations st)))"

lemma committed_cong:
  "ms_users st' = ms_users st \<Longrightarrow> ms_invitations st' = ms_invitations st \<Longrightarrow> ms_delegations st' = ms_delegations st \<Longrightarrow>
   committed now d st' = committed now d st"
  by (simp add: committed_def sumQuota_def pendingReservedBytes_def pendingInvitationsOf_def reserve_sum_def
      delegations_on_def unusedReserve_def spentBytesOf_def usedBytesOf_def)

lemma add_unused_sum:
  "add_unused fqdn st rows acc = acc + sum_list (map (\<lambda>r. unusedReserve r fqdn st) rows)"
  by (induction rows arbitrary: acc) simp_all

lemma reservedForAccounts_eq:
  "find_domain i st = Some d \<Longrightarrow> vd_id d = i \<Longrightarrow>
   reservedForAccountsBytes i now st = Inr (pendingReservedBytes i None now st + reserve_sum d st)"
  by (simp add: reservedForAccountsBytes_def resolveDomain_def add_unused_sum reserve_sum_def)

lemma pending_sum:
  "pendingReservedBytes i exclude now st =
     sum_where offered_mb (\<lambda>v. iv_delegationDomainId v = Some i \<and> stillPending now v \<and> exclude \<noteq> Some (iv_id v))
       (ms_invitations st) * MB"
proof -
  have "filter (\<lambda>r. exclude \<noteq> Some (iv_id r)) (filter (\<lambda>v. iv_delegationDomainId v = Some i \<and> stillPending now v) xs)
      = filter (\<lambda>v. iv_delegationDomainId v = Some i \<and> stillPending now v \<and> exclude \<noteq> Some (iv_id v)) xs" for xs
    by (simp add: conj_ac)
  then show ?thesis
    by (simp only: pendingReservedBytes_def pendingInvitationsOf_def sum_where_def sum_list_sort_key)
qed

lemma unusedReserve_nonneg [simp]: "0 \<le> unusedReserve r fqdn st"
  by (simp add: unusedReserve_def)

lemma spentBytes_nonneg [simp]: "0 \<le> spentBytesOf r fqdn st"
  by (simp add: spentBytesOf_def)

lemma reserve_sum_nonneg [simp]: "0 \<le> reserve_sum d st"
  by (auto simp: reserve_sum_def intro!: sum_list_nonneg)

section \<open>When mailboxes change\<close>

lemma accounts_distinct: "one_grant_each st \<Longrightarrow> distinct (map dd_accountId (delegations_on i st))"
proof -
  assume "one_grant_each st"
  then have "distinct (map (\<lambda>r. (dd_accountId r, dd_domainId r)) (delegations_on i st))"
    unfolding one_grant_each_def delegations_on_def by (blast intro: distinct_map_filter)
  moreover have "map (\<lambda>r. (dd_accountId r, dd_domainId r)) (delegations_on i st) = map (\<lambda>a. (a, i)) (map dd_accountId (delegations_on i st))"
    by (simp add: delegations_on_def)
  ultimately show ?thesis by (metis distinct_map)
qed

lemma find_delegation_in:
  "find_delegation a i st = Some r \<Longrightarrow> r \<in> set (delegations_on i st) \<and> dd_accountId r = a \<and> dd_domainId r = i"
  by (auto simp: find_delegation_def delegations_on_def dest: find_in_set)

lemma find_delegation_none:
  "find_delegation a i st = None \<Longrightarrow> r \<in> set (delegations_on i st) \<Longrightarrow> dd_accountId r \<noteq> a"
  by (auto simp: find_delegation_def find_None_iff delegations_on_def)

text \<open>The quotas of one owner's mailboxes move by \<open>delta\<close>, those of everybody else stay.\<close>

definition boxes_move :: "virtual_domain \<Rightarrow> string option \<Rightarrow> int \<Rightarrow> mail_state \<Rightarrow> mail_state \<Rightarrow> bool" where
  "boxes_move d owner delta st st' =
     (ms_delegations st' = ms_delegations st \<and> ms_invitations st' = ms_invitations st
      \<and> sumQuota (vd_domain d) None st' = sumQuota (vd_domain d) None st + delta
      \<and> (\<forall>a. usedBytesOf a (vd_domain d) st' = usedBytesOf a (vd_domain d) st + (if owner = Some a then delta else 0)))"

definition own_row :: "virtual_domain \<Rightarrow> string option \<Rightarrow> mail_state \<Rightarrow> domain_delegation option" where
  "own_row d owner st = (case owner of None \<Rightarrow> None | Some a \<Rightarrow> find_delegation a (vd_id d) st)"

lemma boxes_move_committed:
  assumes uniq: "one_grant_each st" and move: "boxes_move d owner delta st st'"
  shows "committed now d st' = committed now d st + delta
     + (case own_row d owner st of None \<Rightarrow> 0
        | Some r \<Rightarrow> unusedReserve r (vd_domain d) st' - unusedReserve r (vd_domain d) st)"
proof -
  let ?rows = "delegations_on (vd_id d) st" and ?f = "\<lambda>s r. unusedReserve r (vd_domain d) s"
  have rows: "delegations_on (vd_id d) st' = ?rows" using move by (simp add: boxes_move_def delegations_on_def)
  have other: "?f st' x = ?f st x" if "owner \<noteq> Some (dd_accountId x)" for x
    using move that by (simp add: boxes_move_def unusedReserve_def spentBytesOf_def)
  have "reserve_sum d st' = reserve_sum d st
     + (case own_row d owner st of None \<Rightarrow> 0 | Some r \<Rightarrow> ?f st' r - ?f st r)"
  proof (cases "own_row d owner st")
    case None
    then have "owner \<noteq> Some (dd_accountId x)" if "x \<in> set ?rows" for x
      using that find_delegation_none by (auto simp: own_row_def split: option.splits)
    with other have "sum_list (map (?f st') ?rows) = sum_list (map (?f st) ?rows)" by (intro sum_list_change_none) blast
    with None rows show ?thesis by (simp add: reserve_sum_def)
  next
    case (Some r)
    then obtain a where a: "owner = Some a" "find_delegation a (vd_id d) st = Some r"
      by (auto simp: own_row_def split: option.splits)
    note r = find_delegation_in [OF a(2)]
    have "sum_list (map (?f st') ?rows) = sum_list (map (?f st) ?rows) + (?f st' r - ?f st r)"
      using accounts_distinct [OF uniq] r a(1) other by (intro sum_list_change_one [where key = dd_accountId]) auto
    with Some rows show ?thesis by (simp add: reserve_sum_def)
  qed
  moreover have "pendingReservedBytes (vd_id d) None now st' = pendingReservedBytes (vd_id d) None now st"
    using move by (simp add: boxes_move_def pending_sum)
  ultimately show ?thesis using move by (simp add: committed_def boxes_move_def)
qed

lemma own_row_owner: "own_row d owner st = Some r \<Longrightarrow> owner = Some (dd_accountId r)"
  by (auto simp: own_row_def dest: find_delegation_in split: option.splits)

lemma boxes_down:
  assumes "one_grant_each st" "boxes_move d owner delta st st'" "delta \<le> 0"
  shows "committed now d st' \<le> committed now d st"
proof -
  have "unusedReserve r (vd_domain d) st' - unusedReserve r (vd_domain d) st \<le> - delta" if "own_row d owner st = Some r" for r
    using assms(2,3) own_row_owner [OF that]
    by (auto simp: boxes_move_def unusedReserve_def spentBytesOf_def)
  with boxes_move_committed [OF assms(1,2), of now] assms(3) show ?thesis by (auto split: option.splits)
qed

lemma boxes_up:
  assumes "one_grant_each st" "boxes_move d owner delta st st'" "0 \<le> delta"
  shows "committed now d st' \<le> committed now d st + delta"
proof -
  have "unusedReserve r (vd_domain d) st' - unusedReserve r (vd_domain d) st \<le> 0" if "own_row d owner st = Some r" for r
    using assms(2,3) own_row_owner [OF that]
    by (auto simp: boxes_move_def unusedReserve_def spentBytesOf_def)
  with boxes_move_committed [OF assms(1,2), of now] show ?thesis by (auto split: option.splits)
qed

text \<open>A delegate draws on the grant: as long as it still owns what it owned when the grant was made.\<close>

lemma boxes_drawn:
  assumes "one_grant_each st" "boxes_move d owner delta st st'" "0 \<le> delta"
    and row: "own_row d owner st = Some r" "dd_baseBytes r \<le> usedBytesOf (dd_accountId r) (vd_domain d) st"
      "spentBytesOf r (vd_domain d) st + delta \<le> dd_quotaMb r * MB"
  shows "committed now d st' = committed now d st"
proof -
  have "unusedReserve r (vd_domain d) st' - unusedReserve r (vd_domain d) st = - delta"
    using assms(2,3) own_row_owner [OF row(1)] row(2,3)
    by (auto simp: boxes_move_def unusedReserve_def spentBytesOf_def)
  with boxes_move_committed [OF assms(1,2), of now] row(1) show ?thesis by simp
qed

lemma boxes_insert:
  assumes "ms_users st' = ms_users st @ [u]" "ms_delegations st' = ms_delegations st" "ms_invitations st' = ms_invitations st"
  shows "boxes_move d (vu_ownerId u) (if vu_domain u = vd_domain d then vu_quota u else 0) st st'"
  using assms by (auto simp: boxes_move_def usedBytesOf_def sumQuota_def owned_by_def sum_where_def)

lemma boxes_replace:
  assumes "distinct (map vu_id (ms_users st))" "u \<in> set (ms_users st)"
    "vu_id u' = vu_id u" "vu_domain u' = vu_domain u" "vu_ownerId u' = vu_ownerId u"
    "ms_users st' = save_row vu_id u' (ms_users st)"
    "ms_delegations st' = ms_delegations st" "ms_invitations st' = ms_invitations st"
  shows "boxes_move d (vu_ownerId u) (if vu_domain u = vd_domain d then vu_quota u' - vu_quota u else 0) st st'"
  using assms sum_save_row [OF assms(1-3), of vu_quota]
  by (auto simp: boxes_move_def usedBytesOf_def sumQuota_def owned_by_def sum_where_def)

lemma boxes_delete:
  assumes "distinct (map vu_id (ms_users st))" "u \<in> set (ms_users st)"
    "ms_users st' = delete_where (\<lambda>x. vu_id x = vu_id u) (ms_users st)"
    "ms_delegations st' = ms_delegations st" "ms_invitations st' = ms_invitations st"
  shows "boxes_move d (vu_ownerId u) (if vu_domain u = vd_domain d then - vu_quota u else 0) st st'"
  using assms sum_delete_row [OF assms(1,2), of vu_quota]
  by (auto simp: boxes_move_def usedBytesOf_def sumQuota_def owned_by_def sum_where_def)

section \<open>When a delegation changes\<close>

lemma spent_cong: "ms_users st' = ms_users st \<Longrightarrow> spentBytesOf r f st' = spentBytesOf r f st"
  by (simp add: spentBytesOf_def usedBytesOf_def sumQuota_def)

lemma unused_cong: "ms_users st' = ms_users st \<Longrightarrow> unusedReserve r f st' = unusedReserve r f st"
  by (simp add: unusedReserve_def spent_cong [of st' st])

lemma pending_cong: "ms_invitations st' = ms_invitations st \<Longrightarrow> pendingReservedBytes i x now st' = pendingReservedBytes i x now st"
  by (simp add: pending_sum)

lemma sumQuota_cong: "ms_users st' = ms_users st \<Longrightarrow> sumQuota f x st' = sumQuota f x st"
  by (simp add: sumQuota_def)

definition counted_on :: "virtual_domain \<Rightarrow> mail_state \<Rightarrow> domain_delegation \<Rightarrow> int" where
  "counted_on d st r = (if dd_domainId r = vd_id d then unusedReserve r (vd_domain d) st else 0)"

lemma committed_save_delegation:
  assumes "one_grant_each st" "r \<in> set (ms_delegations st)" "dd_id r' = dd_id r" "dd_domainId r' = dd_domainId r"
  shows "committed now d (save_delegation r' st) = committed now d st - counted_on d st r + counted_on d st r'"
proof -
  let ?f = "\<lambda>r. unusedReserve r (vd_domain d) st"
  have "sum_list (map ?f (filter (\<lambda>r. dd_domainId r = vd_id d) (save_row dd_id r' (ms_delegations st))))
     = sum_list (map ?f (filter (\<lambda>r. dd_domainId r = vd_id d) (ms_delegations st)))
       - (if dd_domainId r = vd_id d then ?f r else 0) + (if dd_domainId r' = vd_id d then ?f r' else 0)"
    using assms(1) by (intro sum_save_row assms(2,3)) (simp add: one_grant_each_def)
  moreover have "unusedReserve x f (save_delegation r' st) = unusedReserve x f st" for x f
    by (rule unused_cong) (simp add: save_delegation_def)
  moreover have "pendingReservedBytes i x now (save_delegation r' st) = pendingReservedBytes i x now st" for i x
    by (rule pending_cong) (simp add: save_delegation_def)
  moreover have "sumQuota f x (save_delegation r' st) = sumQuota f x st" for f x
    by (rule sumQuota_cong) (simp add: save_delegation_def)
  ultimately show ?thesis
    by (simp add: committed_def reserve_sum_def delegations_on_def counted_on_def save_delegation_def)
qed

lemma committed_new_delegation:
  assumes "dd_id r' \<notin> dd_id ` set (ms_delegations st)"
  shows "committed now d (save_delegation r' st) = committed now d st + counted_on d st r'"
proof -
  have "ms_delegations (save_delegation r' st) = ms_delegations st @ [r']"
    using assms by (auto simp: save_delegation_def save_row_def image_def)
  moreover have "unusedReserve x f (save_delegation r' st) = unusedReserve x f st" for x f
    by (rule unused_cong) (simp add: save_delegation_def)
  moreover have "pendingReservedBytes i x now (save_delegation r' st) = pendingReservedBytes i x now st" for i x
    by (rule pending_cong) (simp add: save_delegation_def)
  moreover have "sumQuota f x (save_delegation r' st) = sumQuota f x st" for f x
    by (rule sumQuota_cong) (simp add: save_delegation_def)
  ultimately show ?thesis by (simp add: committed_def reserve_sum_def delegations_on_def counted_on_def)
qed

lemma committed_delete_delegation:
  assumes "one_grant_each st" "r \<in> set (ms_delegations st)"
    "st' = st\<lparr>ms_delegations := delete_where (\<lambda>x. dd_id x = dd_id r) (ms_delegations st)\<rparr>"
  shows "committed now d st' = committed now d st - counted_on d st r"
proof -
  let ?f = "\<lambda>r. unusedReserve r (vd_domain d) st"
  have "sum_list (map ?f (filter (\<lambda>r. dd_domainId r = vd_id d) (delete_where (\<lambda>x. dd_id x = dd_id r) (ms_delegations st))))
     = sum_list (map ?f (filter (\<lambda>r. dd_domainId r = vd_id d) (ms_delegations st)))
       - (if dd_domainId r = vd_id d then ?f r else 0)"
    using assms(1) by (intro sum_delete_row assms(2)) (simp add: one_grant_each_def)
  moreover have "unusedReserve x f st' = unusedReserve x f st" for x f by (rule unused_cong) (simp add: assms(3))
  moreover have "pendingReservedBytes i x now st' = pendingReservedBytes i x now st" for i x
    by (rule pending_cong) (simp add: assms(3))
  moreover have "sumQuota f x st' = sumQuota f x st" for f x by (rule sumQuota_cong) (simp add: assms(3))
  moreover have "delegations_on i st' = filter (\<lambda>r. dd_domainId r = i) (delete_where (\<lambda>x. dd_id x = dd_id r) (ms_delegations st))" for i
    by (simp add: assms(3) delegations_on_def)
  ultimately show ?thesis by (simp add: committed_def reserve_sum_def counted_on_def delegations_on_def)
qed

lemma counted_on_nonneg [simp]: "0 \<le> counted_on d st r"
  by (simp add: counted_on_def)

section \<open>When an offer changes\<close>

definition promised_on :: "time \<Rightarrow> virtual_domain \<Rightarrow> account_invitation \<Rightarrow> int" where
  "promised_on now d i =
     (if iv_delegationDomainId i = Some (vd_id d) \<and> stillPending now i then offered_mb i * MB else 0)"

lemma pending_promised:
  "pendingReservedBytes (vd_id d) None now st = sum_list (map (promised_on now d) (ms_invitations st))"
proof -
  have "sum_where offered_mb (\<lambda>v. iv_delegationDomainId v = Some (vd_id d) \<and> stillPending now v) xs * MB
      = sum_list (map (promised_on now d) xs)" for xs
    by (induction xs) (auto simp: sum_where_def promised_on_def algebra_simps)
  then show ?thesis by (simp add: pending_sum)
qed

lemma committed_invitations:
  assumes "ms_users st' = ms_users st" "ms_delegations st' = ms_delegations st"
  shows "committed now d st' = committed now d st - sum_list (map (promised_on now d) (ms_invitations st))
     + sum_list (map (promised_on now d) (ms_invitations st'))"
proof -
  have "reserve_sum d st' = reserve_sum d st"
    using assms(2) unused_cong [OF assms(1)] by (simp add: reserve_sum_def delegations_on_def)
  then show ?thesis using sumQuota_cong [OF assms(1)] by (simp add: committed_def pending_promised)
qed

lemma committed_save_invitation:
  assumes "distinct (map iv_id (ms_invitations st))" "i \<in> set (ms_invitations st)" "iv_id i' = iv_id i"
  shows "committed now d (save_invitation i' st) = committed now d st - promised_on now d i + promised_on now d i'"
proof -
  have "sum_list (map (promised_on now d) (save_row iv_id i' (ms_invitations st)))
      = sum_list (map (promised_on now d) (ms_invitations st)) - promised_on now d i + promised_on now d i'"
    using sum_save_row [OF assms, of "promised_on now d" "\<lambda>_. True"] by simp
  then show ?thesis
    using committed_invitations [of "save_invitation i' st" st now d] by (simp add: save_invitation_def)
qed

lemma committed_new_invitation:
  assumes "iv_id i \<notin> iv_id ` set (ms_invitations st)"
  shows "committed now d (save_invitation i st) = committed now d st + promised_on now d i"
proof -
  have "ms_invitations (save_invitation i st) = ms_invitations st @ [i]"
    using assms by (auto simp: save_invitation_def save_row_def image_def)
  then show ?thesis
    using committed_invitations [of "save_invitation i st" st now d] by (simp add: save_invitation_def)
qed

end
