(* ===== verification/GrantBooks.thy ===== *)
theory GrantBooks imports MailLedger begin

text \<open>
  Every operation of \<open>DelegationsService\<close> against the books of \<open>MailLedger\<close>: a domain is never committed
  further than its quota, nor further than it already was.
\<close>

definition books :: "int option \<Rightarrow> time \<Rightarrow> virtual_domain \<Rightarrow> mail_state \<Rightarrow> int" where
  "books ex now d st =
     sumQuota (vd_domain d) None st + pendingReservedBytes (vd_id d) ex now st + reserve_sum d st"

lemma books_none: "books None now d st = committed now d st"
  by (simp add: books_def committed_def)

definition domains_sound :: "mail_state \<Rightarrow> bool" where
  "domains_sound st = (distinct (map vd_id (ms_domains st)) \<and> distinct (map vd_domain (ms_domains st)))"

definition offers_sound :: "mail_state \<Rightarrow> bool" where
  "offers_sound st = (distinct (map iv_id (ms_invitations st)) \<and> distinct (map iv_token (ms_invitations st))
     \<and> (\<forall>i \<in> set (ms_invitations st). 0 \<le> offered_mb i))"

definition grants_sound :: "mail_state \<Rightarrow> bool" where
  "grants_sound st = (one_grant_each st \<and> (\<forall>r \<in> set (ms_delegations st). 0 \<le> dd_quotaMb r))"

lemma find_domain_unique:
  assumes "domains_sound st" "d \<in> set (ms_domains st)" "find_domain i st = Some d'"
  shows "vd_id d' = i \<and> d' \<in> set (ms_domains st) \<and> (vd_id d = i \<longrightarrow> d = d')"
proof -
  have d': "d' \<in> set (ms_domains st) \<and> vd_id d' = i" using assms(3) by (auto simp: find_domain_def dest: find_in_set)
  moreover have "inj_on vd_id (set (ms_domains st))" using assms(1) by (simp add: domains_sound_def distinct_map)
  ultimately show ?thesis using assms(2) by (auto dest: inj_onD)
qed

section \<open>What may be granted\<close>

lemma grant_sums_none:
  "grant_sums f None st rows (u, s) = (u + sum_list (map (\<lambda>r. unusedReserve r f st) rows), s)"
  by (induction rows arbitrary: u s) simp_all

lemma grant_sums_absent:
  "a \<notin> dd_accountId ` set rows \<Longrightarrow>
   grant_sums f (Some a) st rows (u, s) = (u + sum_list (map (\<lambda>r. unusedReserve r f st) rows), s)"
  by (induction rows arbitrary: u s) auto

lemma grant_sums_own:
  "distinct (map dd_accountId rows) \<Longrightarrow> r \<in> set rows \<Longrightarrow>
   grant_sums f (Some (dd_accountId r)) st rows (u, s) =
     (u + sum_list (map (\<lambda>r. unusedReserve r f st) rows) - unusedReserve r f st, spentBytesOf r f st)"
proof (induction rows arbitrary: u s)
  case (Cons x rows)
  show ?case
  proof (cases "x = r")
    case True
    with Cons.prems(1) have "dd_accountId r \<notin> dd_accountId ` set rows" by simp
    with True show ?thesis by (simp add: grant_sums_absent)
  next
    case False
    with Cons.prems have r: "r \<in> set rows" by simp
    with Cons.prems(1) have "dd_accountId x \<noteq> dd_accountId r" by (auto simp: image_iff)
    with Cons.IH [OF _ r] Cons.prems(1) show ?thesis by simp
  qed
qed simp

lemma grantable_some: "vd_quota d \<noteq> 0 \<Longrightarrow> \<exists>g. grantableMb d account ex now st = Some g"
  by (simp add: grantableMb_def Let_def split_def)

text \<open>What an account spent and holds unused is its own to be granted again.\<close>

definition own_share :: "virtual_domain \<Rightarrow> string option \<Rightarrow> mail_state \<Rightarrow> int" where
  "own_share d account st = (case own_row d account st of None \<Rightarrow> 0
     | Some r \<Rightarrow> unusedReserve r (vd_domain d) st + spentBytesOf r (vd_domain d) st)"

lemma grantable_room:
  assumes uniq: "one_grant_each st" and g: "grantableMb d account ex now st = Some g" and q: "0 < q" "q \<le> g"
  shows "books ex now d st - own_share d account st + q * MB \<le> vd_quota d"
proof -
  let ?rows = "delegations_on (vd_id d) st"
  obtain u s where us: "grant_sums (vd_domain d) account st ?rows (0, 0) = (u, s)" by fastforce
  have share: "u - s = reserve_sum d st - own_share d account st"
  proof (cases account)
    case None
    with us show ?thesis by (simp add: grant_sums_none reserve_sum_def own_share_def own_row_def)
  next
    case (Some a)
    show ?thesis
    proof (cases "find_delegation a (vd_id d) st")
      case None
      then have "a \<notin> dd_accountId ` set ?rows" using find_delegation_none by blast
      with us Some None show ?thesis
        by (simp add: grant_sums_absent reserve_sum_def own_share_def own_row_def)
    next
      case found: (Some r)
      note r = find_delegation_in [OF found]
      with grant_sums_own [OF accounts_distinct [OF uniq], of r "vd_id d" "vd_domain d" st 0 0] us Some
      have "u = sum_list (map (\<lambda>r. unusedReserve r (vd_domain d) st) ?rows) - unusedReserve r (vd_domain d) st"
        "s = spentBytesOf r (vd_domain d) st" by auto
      with Some found show ?thesis by (simp add: reserve_sum_def own_share_def own_row_def)
    qed
  qed
  let ?x = "vd_quota d - sumQuota (vd_domain d) None st - pendingReservedBytes (vd_id d) ex now st - u + s"
  have "g = max 0 (?x div MB)" using g us by (auto simp: grantableMb_def Let_def split: if_splits)
  with q have "q \<le> ?x div MB" by simp
  then have "q * MB \<le> ?x div MB * MB" by (simp add: mult_right_mono)
  also have "\<dots> \<le> ?x" using div_mult_mod_eq [of ?x MB] pos_mod_sign [OF MB_pos(1), of ?x] by linarith
  finally show ?thesis using share by (simp add: books_def)
qed

lemma own_share_nonneg [simp]: "0 \<le> own_share d account st"
  by (simp add: own_share_def split: option.splits)

section \<open>Granting to an account\<close>

lemma save_delegation_tables [simp]:
  "ms_users (save_delegation r st) = ms_users st" "ms_invitations (save_delegation r st) = ms_invitations st"
  "ms_domains (save_delegation r st) = ms_domains st" "ms_accounts (save_delegation r st) = ms_accounts st"
  by (simp_all add: save_delegation_def)

lemma books_save_delegation:
  "books ex now d (save_delegation r st) = books ex now d st + committed now d (save_delegation r st) - committed now d st"
  using pending_cong [OF save_delegation_tables(2), of "vd_id d" ex now r st]
    pending_cong [OF save_delegation_tables(2), of "vd_id d" None now r st]
  by (simp add: books_def committed_def)

lemma unused_of_quota: "unusedReserve r f st = max 0 (dd_quotaMb r * MB - spentBytesOf r f st)"
  by (simp add: unusedReserve_def)

text \<open>A grant of \<open>quota\<close> megabytes in place of the one the account has.\<close>

lemma regrant_books:
  assumes uniq: "one_grant_each st" and r: "find_delegation a (vd_id d) st = Some r"
    and r': "dd_id r' = dd_id r" "dd_domainId r' = dd_domainId r" "dd_accountId r' = dd_accountId r"
      "dd_baseBytes r' = dd_baseBytes r"
    and q: "0 \<le> dd_quotaMb r'" "dd_quotaMb r' = 0 \<or> dd_quotaMb r' \<le> g"
    and g: "grantableMb d (Some a) ex now st = Some g"
  shows "books ex now d (save_delegation r' st) \<le> max (books ex now d st) (vd_quota d)"
proof -
  let ?u = "\<lambda>r. unusedReserve r (vd_domain d) st" and ?s = "spentBytesOf r (vd_domain d) st"
  note rin = find_delegation_in [OF r]
  have "r \<in> set (ms_delegations st)" using rin by (simp add: delegations_on_def)
  then have new: "books ex now d (save_delegation r' st) = books ex now d st - ?u r + ?u r'"
    using committed_save_delegation [OF uniq _ r'(1,2), of now d] rin r'(2)
    by (simp add: books_save_delegation counted_on_def)
  have spent: "spentBytesOf r' (vd_domain d) st = ?s" using r' by (simp add: spentBytesOf_def)
  have share: "own_share d (Some a) st = ?u r + ?s" using r by (simp add: own_share_def own_row_def)
  show ?thesis
  proof (cases "dd_quotaMb r' = 0")
    case True
    then have "?u r' = 0" using spent by (simp add: unused_of_quota)
    with new unusedReserve_nonneg [of r "vd_domain d" st] show ?thesis by linarith
  next
    case False
    with grantable_room [OF uniq g, of "dd_quotaMb r'"] q share
    have "books ex now d st - ?u r - ?s + dd_quotaMb r' * MB \<le> vd_quota d" by simp
    moreover have "?u r' = max 0 (dd_quotaMb r' * MB - ?s)" using spent by (simp add: unused_of_quota)
    ultimately show ?thesis using new unusedReserve_nonneg [of r "vd_domain d" st] by linarith
  qed
qed

lemma first_grant_books:
  assumes uniq: "one_grant_each st" and none: "find_delegation a (vd_id d) st = None"
    and fresh: "dd_id r \<notin> dd_id ` set (ms_delegations st)"
    and r: "dd_accountId r = a" "dd_domainId r = vd_id d" "dd_baseBytes r = usedBytesOf a (vd_domain d) st"
    and q: "0 \<le> dd_quotaMb r" "dd_quotaMb r = 0 \<or> dd_quotaMb r \<le> g"
    and g: "grantableMb d (Some a) ex now st = Some g"
  shows "books ex now d (save_delegation r st) \<le> max (books ex now d st) (vd_quota d)"
proof -
  have "unusedReserve r (vd_domain d) st = dd_quotaMb r * MB"
    using r q(1) by (simp add: unusedReserve_def spentBytesOf_def)
  then have new: "books ex now d (save_delegation r st) = books ex now d st + dd_quotaMb r * MB"
    using committed_new_delegation [OF fresh, of now d] r(2) by (simp add: books_save_delegation counted_on_def)
  have "own_share d (Some a) st = 0" using none by (simp add: own_share_def own_row_def)
  with grantable_room [OF uniq g, of "dd_quotaMb r"] q
  have "0 < dd_quotaMb r \<Longrightarrow> books ex now d st + dd_quotaMb r * MB \<le> vd_quota d" by auto
  with q(1) have "dd_quotaMb r = 0 \<or> books ex now d st + dd_quotaMb r * MB \<le> vd_quota d" by linarith
  with new show ?thesis by auto
qed

lemma other_grant_books:
  assumes "one_grant_each st" "r \<in> set (ms_delegations st) \<and> dd_id r' = dd_id r \<and> dd_domainId r = dd_domainId r'
      \<or> dd_id r' \<notin> dd_id ` set (ms_delegations st)" "dd_domainId r' \<noteq> vd_id d"
  shows "books ex now d (save_delegation r' st) = books ex now d st"
  using assms committed_save_delegation [OF assms(1), of r r' now d] committed_new_delegation [of r' st now d]
  by (auto simp: books_save_delegation counted_on_def)

lemma upsert_books:
  assumes grants: "grants_sound st" and dm: "domains_sound st" "dm \<in> set (ms_domains st)" "d \<in> set (ms_domains st)"
    and fresh: "newId \<notin> dd_id ` set (ms_delegations st)" and cap: "0 \<le> cp_quotaMb caps"
    and fits: "\<And>g. grantableMb dm (Some a) ex now st = Some g \<Longrightarrow>
        held_mb a (vd_id dm) st + cp_quotaMb caps \<le> g \<or> cp_quotaMb caps = 0"
    and quota: "vd_quota d \<noteq> 0"
  shows "books ex now d (upsertRow newId now dm a by_whom caps st) \<le> max (books ex now d st) (vd_quota d)"
proof (cases "vd_id d = vd_id dm")
  case True
  then have "d = dm" using dm by (auto simp: domains_sound_def distinct_map dest: inj_onD)
  obtain g where g: "grantableMb d (Some a) ex now st = Some g" using grantable_some [OF quota] by blast
  have uniq: "one_grant_each st" using grants by (simp add: grants_sound_def)
  show ?thesis
  proof (cases "find_delegation a (vd_id d) st")
    case None
    then have "held_mb a (vd_id d) st = 0" by (simp add: held_mb_def)
    with fits g \<open>d = dm\<close> have "cp_quotaMb caps = 0 \<or> cp_quotaMb caps \<le> g" by auto
    with None fresh cap g \<open>d = dm\<close> uniq show ?thesis
      by (auto simp: upsertRow_def intro!: first_grant_books [where a = a and g = g])
  next
    case (Some r)
    have "r \<in> set (ms_delegations st)" using find_delegation_in [OF Some] by (simp add: delegations_on_def)
    with grants have pos: "0 \<le> dd_quotaMb r" by (simp add: grants_sound_def)
    show ?thesis
    proof (cases "cp_quotaMb caps = 0")
      case True
      let ?r' = "r\<lparr>dd_maxRecipients := add_caps (dd_maxRecipients r) (cp_maxRecipients caps),
            dd_maxAliases := add_caps (dd_maxAliases r) (cp_maxAliases caps), dd_quotaMb := dd_quotaMb r + cp_quotaMb caps\<rparr>"
      have "counted_on d st ?r' = counted_on d st r" using True by (simp add: counted_on_def unusedReserve_def spentBytesOf_def)
      with committed_save_delegation [OF uniq \<open>r \<in> set (ms_delegations st)\<close>, of ?r' now d]
      have "books ex now d (save_delegation ?r' st) = books ex now d st" by (simp add: books_save_delegation)
      with Some \<open>d = dm\<close> show ?thesis by (simp add: upsertRow_def)
    next
      case False
      with fits g \<open>d = dm\<close> Some have "dd_quotaMb r + cp_quotaMb caps \<le> g" by (auto simp: held_mb_def)
      with Some cap pos g \<open>d = dm\<close> uniq show ?thesis by (auto simp: upsertRow_def intro!: regrant_books [where a = a and r = r and g = g])
    qed
  qed
next
  case False
  have uniq: "one_grant_each st" using grants by (simp add: grants_sound_def)
  show ?thesis
  proof (cases "find_delegation a (vd_id dm) st")
    case None
    with other_grant_books [OF uniq _ ] fresh False show ?thesis by (simp add: upsertRow_def)
  next
    case (Some r)
    note r = find_delegation_in [OF Some]
    have "r \<in> set (ms_delegations st)" using r by (simp add: delegations_on_def)
    with other_grant_books [OF uniq, of r] r False Some show ?thesis by (simp add: upsertRow_def)
  qed
qed

section \<open>Offers\<close>

lemma promised_nonneg: "0 \<le> offered_mb i \<Longrightarrow> 0 \<le> promised_on now d i"
  by (simp add: promised_on_def)

lemma sum_where_but_one:
  "distinct (map key rows) \<Longrightarrow> r \<in> set rows \<Longrightarrow>
   sum_where f (\<lambda>x. P x \<and> key r \<noteq> key x) rows = sum_where f P rows - (if P r then f r else 0)"
proof (induction rows)
  case (Cons x rows)
  show ?case
  proof (cases "x = r")
    case True
    with Cons.prems(1) have "key r \<notin> key ` set rows" by simp
    then have "filter (\<lambda>x. P x \<and> key r \<noteq> key x) rows = filter P rows"
      by (intro filter_cong refl) (metis image_eqI)
    with True show ?thesis by (simp add: sum_where_def)
  next
    case False
    with Cons.prems have r: "r \<in> set rows" by simp
    with Cons.prems(1) have "key r \<noteq> key x" by (auto simp: image_iff)
    with Cons r show ?thesis by (simp add: sum_where_def)
  qed
qed simp

lemma books_excluding:
  assumes "distinct (map iv_id (ms_invitations st))" "i \<in> set (ms_invitations st)"
  shows "books (Some (iv_id i)) now d st = committed now d st - promised_on now d i"
proof -
  let ?P = "\<lambda>v. iv_delegationDomainId v = Some (vd_id d) \<and> stillPending now v"
  have "(\<lambda>v. ?P v \<and> Some (iv_id i) \<noteq> Some (iv_id v)) = (\<lambda>v. ?P v \<and> iv_id i \<noteq> iv_id v)" by auto
  then have "pendingReservedBytes (vd_id d) (Some (iv_id i)) now st
      = sum_where offered_mb (\<lambda>v. ?P v \<and> iv_id i \<noteq> iv_id v) (ms_invitations st) * MB"
    by (simp add: pending_sum conj_ac)
  also have "\<dots> = pendingReservedBytes (vd_id d) None now st - promised_on now d i"
    using sum_where_but_one [OF assms, of offered_mb ?P]
    by (simp add: pending_sum promised_on_def left_diff_distrib)
  finally show ?thesis by (simp add: books_def committed_def)
qed

lemma fits_room:
  assumes "one_grant_each st" "assertGrantFits d account q ex now st = Inr ()" "0 < q" "vd_quota d \<noteq> 0"
  shows "books ex now d st - own_share d account st + q * MB \<le> vd_quota d"
proof -
  obtain g where g: "grantableMb d account ex now st = Some g" using grantable_some [OF assms(4)] by blast
  with assms(2) have "q \<le> g" by (simp add: assertGrantFits_def split: if_splits)
  with grantable_room [OF assms(1) g assms(3)] show ?thesis by simp
qed

lemma own_share_nobody [simp]: "own_share d None st = 0"
  by (simp add: own_share_def own_row_def)

text \<open>A new offer within what fits, for a domain that the books may or may not be those of.\<close>

lemma new_offer_books:
  assumes "one_grant_each st" "domains_sound st" "dm \<in> set (ms_domains st)" "d \<in> set (ms_domains st)"
    and "assertGrantFits dm None q None now st = Inr ()" "0 \<le> q" "vd_quota d \<noteq> 0"
    and "iv_delegationDomainId i = Some (vd_id dm)" "offered_mb i = q"
  shows "committed now d st + promised_on now d i \<le> max (committed now d st) (vd_quota d)"
proof (cases "vd_id d = vd_id dm \<and> 0 < q")
  case True
  then have "d = dm" using assms(2-4) by (auto simp: domains_sound_def distinct_map dest: inj_onD)
  with fits_room [OF assms(1) assms(5)] True assms(7) have "committed now d st + q * MB \<le> vd_quota d"
    by (simp add: books_none)
  moreover have "promised_on now d i \<le> q * MB" using assms(6,9) by (simp add: promised_on_def)
  ultimately show ?thesis by simp
next
  case False
  with assms(6,8,9) have "promised_on now d i = 0" by (auto simp: promised_on_def)
  then show ?thesis by simp
qed

lemma save_invitation_books:
  assumes "offers_sound st" "i \<in> set (ms_invitations st)" "iv_id i' = iv_id i"
    "promised_on now d i' = 0"
  shows "committed now d (save_invitation i' st) \<le> committed now d st"
  using committed_save_invitation [OF _ assms(2,3), of now d] assms(1,2,4) promised_nonneg [of i now d]
  by (auto simp: offers_sound_def)

lemma expire_former_books:
  assumes "offers_sound st"
  shows "committed now d (expire_former email now st) \<le> committed now d st"
proof (cases "List.find (\<lambda>i. iv_email i = Some email \<and> iv_acceptedAt i = None) (ms_invitations st)")
  case (Some i)
  have "promised_on now d (i\<lparr>iv_expiresAt := Some now\<rparr>) = 0" by (simp add: promised_on_def stillPending_def)
  with save_invitation_books [OF assms, of i "i\<lparr>iv_expiresAt := Some now\<rparr>"] find_in_set [OF Some] Some
  show ?thesis by (simp add: expire_former_def split: option.split)
qed (simp add: expire_former_def)

lemma save_row_ids: "x \<in> set rows \<Longrightarrow> key x = key r \<Longrightarrow> map key (save_row key r rows) = map key rows"
  by (auto simp: save_row_def)

lemma expire_former_tables [simp]:
  "ms_users (expire_former e now st) = ms_users st" "ms_delegations (expire_former e now st) = ms_delegations st"
  "ms_domains (expire_former e now st) = ms_domains st" "ms_accounts (expire_former e now st) = ms_accounts st"
  by (simp_all add: expire_former_def save_invitation_def split: option.splits)

lemma expire_former_ids: "map iv_id (ms_invitations (expire_former e now st)) = map iv_id (ms_invitations st)"
proof (cases "List.find (\<lambda>i. iv_email i = Some e \<and> iv_acceptedAt i = None) (ms_invitations st)")
  case (Some i)
  with find_in_set [OF Some] save_row_ids [of i "ms_invitations st" iv_id "i\<lparr>iv_expiresAt := Some now\<rparr>"]
  show ?thesis by (simp add: expire_former_def save_invitation_def split: option.split)
qed (simp add: expire_former_def)

lemma insert_invitation_books:
  assumes "insert_invitation i st = (res, st')" "iv_id i \<notin> iv_id ` set (ms_invitations st)" "0 \<le> offered_mb i"
  shows "committed now d st' \<le> committed now d st + promised_on now d i"
  using assms committed_new_invitation [OF assms(2), of now d] promised_nonneg [OF assms(3), of now d]
  by (auto simp: insert_invitation_def split: if_splits)

lemma send_invitation_tables:
  "send_invitation env m st = (res, st') \<Longrightarrow>
   ms_users st' = ms_users st \<and> ms_invitations st' = ms_invitations st \<and> ms_delegations st' = ms_delegations st
   \<and> ms_domains st' = ms_domains st"
  by (auto simp: send_invitation_def split: if_splits)

section \<open>The operations\<close>

definition mail_rows_sound :: "mail_state \<Rightarrow> bool" where
  "mail_rows_sound st = (domains_sound st \<and> offers_sound st \<and> grants_sound st)"

lemma mail_rows_soundD:
  assumes "mail_rows_sound st"
  shows "domains_sound st" "offers_sound st" "grants_sound st" "one_grant_each st" "distinct (map iv_id (ms_invitations st))"
  using assms by (simp_all add: mail_rows_sound_def grants_sound_def offers_sound_def)

lemma offered_staged [simp]: "offered_mb (staged_offer n now tk e by_whom i offer note) = cp_quotaMb offer"
  "iv_id (staged_offer n now tk e by_whom i offer note) = n"
  "iv_delegationDomainId (staged_offer n now tk e by_whom i offer note) = Some i"
  by (simp_all add: staged_offer_def offered_mb_def)

lemma resolveDomain_Inr:
  "resolveDomain i st = Inr dm \<Longrightarrow> vd_id dm = i \<and> dm \<in> set (ms_domains st) \<and> find_domain i st = Some dm"
  by (auto simp: resolveDomain_def find_domain_def split: option.splits dest: find_in_set)

lemma grantOrInvite_books:
  assumes sound: "mail_rows_sound st" and d: "d \<in> set (ms_domains st)" "vd_quota d \<noteq> 0"
    and op: "grantOrInvite env n tk me i b url now st = (res, st')" and q: "0 \<le> cp_quotaMb b"
    and fresh: "n \<notin> dd_id ` set (ms_delegations st)" "n \<notin> iv_id ` set (ms_invitations st)"
  shows "committed now d st' \<le> max (committed now d st) (vd_quota d)"
proof -
  note S = mail_rows_soundD [OF sound]
  let ?acc = "find_account_by_email (id_email b) (ms_accounts st)"
  show ?thesis
  proof (cases "st' = st")
    case False
    obtain dm where dm: "resolveDomain i st = Inr dm" using op False by (auto simp: grantOrInvite_def split: sum.splits)
    note dm' = resolveDomain_Inr [OF dm]
    let ?held = "case ?acc of None \<Rightarrow> 0 | Some a \<Rightarrow> held_mb (ac_id a) i st"
    have fits: "assertGrantFits dm (map_option ac_id ?acc) (?held + cp_quotaMb b) None now st = Inr ()"
      using op False dm by (auto simp: grantOrInvite_def Let_def split: sum.splits option.splits if_splits)
    show ?thesis
    proof (cases ?acc)
      case (Some a)
      have st': "st' = upsertRow n now dm (ac_id a) (Some me) b st"
        using op False dm Some fits by (auto simp: grantOrInvite_def Let_def split: if_splits)
      have "held_mb (ac_id a) (vd_id dm) st + cp_quotaMb b \<le> g"
        if "grantableMb dm (Some (ac_id a)) None now st = Some g" for g
        using fits Some that dm' by (simp add: assertGrantFits_def split: if_splits)
      with upsert_books [OF S(3,1) _ d(1) fresh(1) q, of dm "ac_id a" None now "Some me"] d dm' st'
      show ?thesis by (simp add: books_none)
    next
      case None
      let ?st1 = "expire_former (id_email b) now st"
      let ?o = "staged_offer n now tk (Some (id_email b)) me i b None"
      obtain r1 st2 where ins: "insert_invitation ?o ?st1 = (r1, st2)" by fastforce
      have "ms_users st' = ms_users st2 \<and> ms_invitations st' = ms_invitations st2 \<and> ms_delegations st' = ms_delegations st2"
        using op False dm None fits ins
        by (auto simp: grantOrInvite_def Let_def and_then_def send_invitation_def split: sum.splits if_splits prod.splits)
      then have "committed now d st' = committed now d st2" by (intro committed_cong) simp_all
      also have "\<dots> \<le> committed now d ?st1 + promised_on now d ?o"
      proof (rule insert_invitation_books [OF ins])
        have "iv_id ` set (ms_invitations ?st1) = iv_id ` set (ms_invitations st)"
          by (metis expire_former_ids image_set)
        with fresh(2) show "iv_id ?o \<notin> iv_id ` set (ms_invitations ?st1)" by simp
      qed (simp add: q)
      also have "\<dots> \<le> committed now d st + promised_on now d ?o" using expire_former_books [OF S(2)] by simp
      also have "\<dots> \<le> max (committed now d st) (vd_quota d)"
        using new_offer_books [OF S(4,1) _ d(1) _ q d(2), of dm now ?o] dm' fits None by simp
      finally show ?thesis .
    qed
  qed simp
qed

lemma createToken_books:
  assumes sound: "mail_rows_sound st" and d: "d \<in> set (ms_domains st)" "vd_quota d \<noteq> 0"
    and op: "createToken env n tk me i b url now st = (res, st')" and q: "0 \<le> cp_quotaMb b"
    and fresh: "n \<notin> iv_id ` set (ms_invitations st)"
  shows "committed now d st' \<le> max (committed now d st) (vd_quota d)"
proof (cases "st' = st")
  case False
  note S = mail_rows_soundD [OF sound]
  let ?o = "staged_offer n now tk None me i b (dt_note b)"
  obtain dm r1 where dm: "resolveDomain i st = Inr dm" and fits: "assertGrantFits dm None (cp_quotaMb b) None now st = Inr ()"
    and ins: "insert_invitation ?o st = (r1, st')"
    using op False by (auto simp: createToken_def and_then_def split: sum.splits prod.splits)
  note dm' = resolveDomain_Inr [OF dm]
  have "committed now d st' \<le> committed now d st + promised_on now d ?o"
    using insert_invitation_books [OF ins] fresh q by simp
  also have "\<dots> \<le> max (committed now d st) (vd_quota d)"
    using new_offer_books [OF S(4,1) _ d(1) fits q d(2), of ?o] dm' by simp
  finally show ?thesis .
qed simp

lemma find_offer_in:
  "find_offer n i st = Some v \<Longrightarrow> v \<in> set (ms_invitations st) \<and> iv_id v = n \<and> iv_delegationDomainId v = Some i"
  by (auto simp: find_offer_def dest: find_in_set)

lemma editInvitation_books:
  assumes sound: "mail_rows_sound st" and d: "d \<in> set (ms_domains st)" "vd_quota d \<noteq> 0"
    and op: "editInvitation i n b now st = (res, st')" and q: "0 \<le> cp_quotaMb b"
  shows "committed now d st' \<le> max (committed now d st) (vd_quota d)"
proof (cases "st' = st")
  case False
  note S = mail_rows_soundD [OF sound]
  obtain dm v where dm: "resolveDomain i st = Inr dm" and v: "find_offer n i st = Some v"
    and fits: "assertGrantFits dm None (cp_quotaMb b) (Some n) now st = Inr ()"
    using op False by (auto simp: editInvitation_def split: sum.splits option.splits if_splits)
  define w where "w = v\<lparr>iv_delegationMaxRecipients := cp_maxRecipients b, iv_delegationMaxAliases := cp_maxAliases b,
      iv_delegationQuotaMb := Some (cp_quotaMb b), iv_expiresAt := expiryFrom now (of_expiresDays b),
      iv_note := (if iv_email v = None then dt_note b else iv_note v)\<rparr>"
  have st': "st' = save_invitation w st"
    using op False dm v fits by (auto simp: editInvitation_def w_def split: if_splits)
  note dm' = resolveDomain_Inr [OF dm] and v' = find_offer_in [OF v]
  have w: "iv_id w = iv_id v" "iv_delegationDomainId w = Some i" "offered_mb w = cp_quotaMb b"
    using v' by (simp_all add: w_def offered_mb_def)
  have new: "committed now d st' = committed now d st - promised_on now d v + promised_on now d w"
    using committed_save_invitation [OF S(5), of v w now d] v' w st' by simp
  have old: "0 \<le> promised_on now d v" using S(2) v' by (simp add: offers_sound_def promised_nonneg)
  show ?thesis
  proof (cases "vd_id d = i \<and> 0 < cp_quotaMb b")
    case True
    then have "d = dm" using dm' d(1) S(1) by (auto simp: domains_sound_def distinct_map dest: inj_onD)
    with fits_room [OF S(4) fits] True d(2) books_excluding [OF S(5), of v now d] v'
    have "committed now d st - promised_on now d v + cp_quotaMb b * MB \<le> vd_quota d" by simp
    moreover have "promised_on now d w \<le> cp_quotaMb b * MB" using q w by (simp add: promised_on_def)
    ultimately show ?thesis using new by linarith
  next
    case False
    with q w have "promised_on now d w = 0" by (auto simp: promised_on_def)
    with new old show ?thesis by linarith
  qed
qed simp

lemma revokeInvitation_books:
  assumes "mail_rows_sound st" "revokeInvitation i n now st = (res, st')"
  shows "committed now d st' \<le> committed now d st"
proof (cases "st' = st")
  case False
  then obtain v where v: "find_offer n i st = Some v" "st' = save_invitation (v\<lparr>iv_expiresAt := Some now\<rparr>) st"
    using assms(2) by (auto simp: revokeInvitation_def split: option.splits if_splits)
  have "promised_on now d (v\<lparr>iv_expiresAt := Some now\<rparr>) = 0" by (simp add: promised_on_def stillPending_def)
  with save_invitation_books [OF mail_rows_soundD(2) [OF assms(1)], of v "v\<lparr>iv_expiresAt := Some now\<rparr>"] find_offer_in [OF v(1)] v(2)
  show ?thesis by simp
qed simp

lemma setCaps_books:
  assumes sound: "mail_rows_sound st" and d: "d \<in> set (ms_domains st)" "vd_quota d \<noteq> 0"
    and op: "setCaps i a caps now st = (res, st')" and q: "0 \<le> cp_quotaMb caps"
  shows "committed now d st' \<le> max (committed now d st) (vd_quota d)"
proof (cases "st' = st")
  case False
  note S = mail_rows_soundD [OF sound]
  obtain dm r where dm: "resolveDomain i st = Inr dm" and r: "find_delegation a i st = Some r"
    and fits: "assertGrantFits dm (Some a) (cp_quotaMb caps) None now st = Inr ()"
    using op False by (auto simp: setCaps_def split: sum.splits option.splits)
  let ?r' = "r\<lparr>dd_maxRecipients := cp_maxRecipients caps, dd_maxAliases := cp_maxAliases caps, dd_quotaMb := cp_quotaMb caps\<rparr>"
  have st': "st' = save_delegation ?r' st" using op dm r fits by (simp add: setCaps_def Let_def)
  note dm' = resolveDomain_Inr [OF dm] and r' = find_delegation_in [OF r]
  show ?thesis
  proof (cases "vd_id d = i")
    case True
    then have "d = dm" using dm' d(1) S(1) by (auto simp: domains_sound_def distinct_map dest: inj_onD)
    obtain g where g: "grantableMb d (Some a) None now st = Some g" using grantable_some [OF d(2)] by blast
    with fits \<open>d = dm\<close> have "cp_quotaMb caps \<le> g" by (simp add: assertGrantFits_def split: if_splits)
    with regrant_books [OF S(4), of a d r ?r' g None now] r r' True q g st' show ?thesis by (simp add: books_none)
  next
    case False
    have "r \<in> set (ms_delegations st)" using r' by (simp add: delegations_on_def)
    with other_grant_books [OF S(4), of r ?r' d None now] r' False st' show ?thesis by (simp add: books_none)
  qed
qed simp

lemma dl_revoke_books:
  assumes "mail_rows_sound st" "dl_revoke i a st = (res, st')"
  shows "committed now d st' \<le> committed now d st"
proof (cases "st' = st")
  case False
  then obtain r where r: "find_delegation a i st = Some r"
    "st' = st\<lparr>ms_delegations := delete_where (\<lambda>x. dd_id x = dd_id r) (ms_delegations st)\<rparr>"
    using assms(2) by (auto simp: dl_revoke_def split: option.splits)
  have "r \<in> set (ms_delegations st)" using find_delegation_in [OF r(1)] by (simp add: delegations_on_def)
  with committed_delete_delegation [OF mail_rows_soundD(4) [OF assms(1)] _ r(2), of now d] show ?thesis by simp
qed simp

end
