(* ===== verification/MailboxBooks.thy ===== *)
theory MailboxBooks imports MailRoutes GrantBooks begin

text \<open>
  The operations on mailboxes against the books: what each leaves of the tables the books are kept of,
  and that a domain is not committed further than its quota by them.
\<close>

section \<open>What the operations leave\<close>

definition same_grants :: "mail_state \<Rightarrow> mail_state \<Rightarrow> bool" where
  "same_grants st st' = (ms_delegations st' = ms_delegations st \<and> ms_invitations st' = ms_invitations st
     \<and> ms_domains st' = ms_domains st \<and> ms_accounts st' = ms_accounts st)"

lemma same_grants_refl [simp]: "same_grants st st"
  by (simp add: same_grants_def)

lemma note_recipient_tables [simp]:
  "ms_users (note_recipient c a i st) = ms_users st" "ms_quotaUsers (note_recipient c a i st) = ms_quotaUsers st"
  "ms_quotaDomains (note_recipient c a i st) = ms_quotaDomains st" "ms_domains (note_recipient c a i st) = ms_domains st"
  "ms_aliases (note_recipient c a i st) = ms_aliases st" "ms_accounts (note_recipient c a i st) = ms_accounts st"
  "ms_delegations (note_recipient c a i st) = ms_delegations st"
  "ms_invitations (note_recipient c a i st) = ms_invitations st"
  "ms_erased (note_recipient c a i st) = ms_erased st"
  by (simp_all add: note_recipient_def)

lemma insert_user_Inr:
  assumes "insert_user q now u st = (Inr s, st')"
  shows "s = u \<and> ms_users st' = ms_users st @ [u] \<and> same_grants st st' \<and> ms_aliases st' = ms_aliases st
    \<and> vu_email u \<notin> vu_email ` set (ms_users st) \<and> vu_domain u \<in> vd_domain ` set (ms_domains st)"
  using assms by (auto simp: insert_user_def Let_def insert_quota_user_def same_grants_def split: if_splits)

lemma insert_user_Inl: "insert_user q now u st = (Inl e, st') \<Longrightarrow> st' = st"
  by (auto simp: insert_user_def Let_def split: if_splits)

lemma rcp_create_effect:
  assumes "rcp_create env ctx ids b domain owner skip now st = (res, st')"
  shows "(\<exists>e. res = Inl e) \<and> st' = st
    \<or> (\<exists>u. res = Inr u \<and> ms_users st' = ms_users st @ [u] \<and> same_grants st st' \<and> ms_aliases st' = ms_aliases st
        \<and> vu_id u = ui_row ids \<and> vu_ownerId u = owner \<and> vu_domain u = domain \<and> vu_quota u = nr_quota b
        \<and> vu_email u = nr_localPart b @ ''@'' @ domain \<and> vu_isProtected u = 0
        \<and> vu_email u \<notin> vu_email ` set (ms_users st) \<and> domain \<in> vd_domain ` set (ms_domains st)
        \<and> (skip \<or> assertQuotaFitsDomain domain (nr_quota b) None now st = Inr ()))"
  using assms
  by (auto simp: rcp_create_def Let_def and_then_def same_grants_def dest!: insert_user_Inr insert_user_Inl
      split: option.splits if_splits sum.splits prod.splits)

lemma rcp_get_in: "rcp_get i domain st = Inr u \<Longrightarrow> u \<in> set (ms_users st) \<and> vu_id u = i \<and> vu_domain u = domain"
  by (auto simp: rcp_get_def split: option.splits dest: find_in_set)

lemma changed_user_keeps [simp]:
  "vu_id (changed_user env b u) = vu_id u" "vu_ownerId (changed_user env b u) = vu_ownerId u"
  "vu_domain (changed_user env b u) = vu_domain u" "vu_email (changed_user env b u) = vu_email u"
  "vu_isProtected (changed_user env b u) = vu_isProtected u" "vu_maildir (changed_user env b u) = vu_maildir u"
  "vu_quota (changed_user env b u) = (case ur_quota b of None \<Rightarrow> vu_quota u | Some q \<Rightarrow> q)"
  by (simp_all add: changed_user_def)

lemma rcp_update_effect:
  assumes "rcp_update env ctx i b domain skip now st = (res, st')"
  shows "(\<exists>e. res = Inl e) \<and> st' = st
    \<or> (\<exists>u. rcp_get i domain st = Inr u \<and> res = Inr (changed_user env b u)
        \<and> st' = note_recipient ctx ''recipients.updated'' i (save_user (changed_user env b u) st)
        \<and> quota_change_ok b u domain skip now st = Inr () \<and> reservedLocalPartOf (vu_email u) domain = None)"
proof (cases "rcp_get i domain st")
  case (Inl e)
  with assms have "res = Inl e \<and> st' = st" by (simp add: rcp_update_def)
  then show ?thesis by blast
next
  case (Inr u)
  with assms show ?thesis by (auto simp: rcp_update_def Let_def split: sum.splits option.splits if_splits)
qed

lemma delete_quota_users_tables [simp]:
  "ms_users (delete_quota_users e st) = ms_users st" "ms_domains (delete_quota_users e st) = ms_domains st"
  "ms_delegations (delete_quota_users e st) = ms_delegations st" "ms_aliases (delete_quota_users e st) = ms_aliases st"
  "ms_invitations (delete_quota_users e st) = ms_invitations st" "ms_accounts (delete_quota_users e st) = ms_accounts st"
  "ms_erased (delete_quota_users e st) = ms_erased st"
  by (simp_all add: delete_quota_users_def)

lemma delete_user_tables [simp]:
  "ms_users (delete_user u st) = delete_where (\<lambda>x. vu_id x = vu_id u) (ms_users st)"
  "ms_domains (delete_user u st) = ms_domains st" "ms_delegations (delete_user u st) = ms_delegations st"
  "ms_invitations (delete_user u st) = ms_invitations st" "ms_accounts (delete_user u st) = ms_accounts st"
  "ms_aliases (delete_user u st) = ms_aliases st" "ms_erased (delete_user u st) = ms_erased st"
  "ms_quotaDomains (delete_user u st) = ms_quotaDomains st"
  by (simp_all add: delete_user_def)

lemma removeTree_tables:
  "removeTree env t st = (b, st') \<Longrightarrow> \<exists>es. st' = st\<lparr>ms_erased := es\<rparr>"
  by (auto simp: removeTree_def split: option.splits if_splits intro: exI [of _ "ms_erased st"])

lemma rcp_remove_effect:
  assumes "rcp_remove env ctx i domain st = (res, st')"
  shows "(\<exists>e. res = Inl e) \<and> st' = st
    \<or> (\<exists>u es. res = Inr () \<and> rcp_get i domain st = Inr u \<and> reservedLocalPartOf (vu_email u) domain = None
        \<and> st' = note_recipient ctx ''recipients.deleted'' i
            ((delete_user u (delete_quota_users (vu_email u) st))\<lparr>ms_erased := es\<rparr>))"
proof (cases "rcp_get i domain st")
  case (Inr u)
  obtain b st3 where t: "removeRecipientTree env (vu_maildir u) (delete_user u (delete_quota_users (vu_email u) st)) = (b, st3)"
    by fastforce
  then obtain es where "st3 = (delete_user u (delete_quota_users (vu_email u) st))\<lparr>ms_erased := es\<rparr>"
    using removeTree_tables unfolding removeRecipientTree_def by blast
  with assms t Inr show ?thesis by (auto simp: rcp_remove_def Let_def split: option.splits)
next
  case (Inl e)
  with assms have "res = Inl e \<and> st' = st" by (simp add: rcp_remove_def)
  then show ?thesis by blast
qed

section \<open>The books\<close>

definition users_sound :: "mail_state \<Rightarrow> bool" where
  "users_sound st = (distinct (map vu_id (ms_users st)) \<and> distinct (map vu_email (ms_users st))
     \<and> (\<forall>u \<in> set (ms_users st). vu_domain u \<in> vd_domain ` set (ms_domains st)
          \<and> (\<exists>l. CHR ''@'' \<notin> set l \<and> vu_email u = l @ ''@'' @ vu_domain u)))"

lemma find_domain_named_unique:
  assumes "domains_sound st" "d \<in> set (ms_domains st)"
  shows "find_domain_named (vd_domain d) st = Some d"
  unfolding find_domain_named_def using assms by (intro find_by_key) (auto simp: domains_sound_def)

lemma find_domain_of:
  assumes "domains_sound st" "d \<in> set (ms_domains st)"
  shows "find_domain (vd_id d) st = Some d"
  unfolding find_domain_def using assms by (intro find_by_key) (auto simp: domains_sound_def)

text \<open>What a mailbox may still take is what the books leave of the domain's quota.\<close>

lemma headroom_room:
  assumes dom: "domains_sound st" "d \<in> set (ms_domains st)" "0 < vd_quota d"
    and ids: "distinct (map vu_id (ms_users st))"
    and held: "case r of None \<Rightarrow> held = 0
      | Some (i, q) \<Rightarrow> \<exists>u \<in> set (ms_users st). vu_id u = i \<and> vu_domain u = vd_domain d \<and> held = vu_quota u"
    and fits: "assertQuotaFitsDomain (vd_domain d) quota r now st = Inr ()" "\<And>i q. r = Some (i, q) \<Longrightarrow> q < quota"
  shows "committed now d st - held + quota \<le> vd_quota d"
proof -
  let ?alloc = "sum_where vu_quota (\<lambda>u. vu_domain u = vd_domain d \<and> map_option fst r \<noteq> Some (vu_id u)) (ms_users st)"
  have alloc: "?alloc = sumQuota (vd_domain d) None st - held"
  proof (cases r)
    case None
    with held show ?thesis by (simp add: sumQuota_def owned_by_def)
  next
    case (Some p)
    then obtain u where u: "u \<in> set (ms_users st)" "vu_id u = fst p" "vu_domain u = vd_domain d" "held = vu_quota u"
      using held by (auto split: prod.splits)
    have "sum_where vu_quota (\<lambda>x. vu_domain x = vd_domain d \<and> vu_id u \<noteq> vu_id x) (ms_users st)
        = sum_where vu_quota (\<lambda>x. vu_domain x = vd_domain d) (ms_users st) - vu_quota u"
      using sum_where_but_one [OF ids u(1), of vu_quota "\<lambda>x. vu_domain x = vd_domain d"] u(3) by simp
    with Some u show ?thesis by (simp add: sumQuota_def owned_by_def)
  qed
  have "reservedForAccountsBytes (vd_id d) now st = Inr (pendingReservedBytes (vd_id d) None now st + reserve_sum d st)"
    using find_domain_of [OF dom(1,2)] by (rule reservedForAccounts_eq) simp
  then have head: "rcp_headroom (vd_domain d) (map_option fst r) now st = Inr \<lparr>hr_domainQuota = vd_quota d, hr_allocated = ?alloc,
      hr_available = vd_quota d - ?alloc - (pendingReservedBytes (vd_id d) None now st + reserve_sum d st)\<rparr>"
    using find_domain_named_unique [OF dom(1,2)] dom(3) by (simp add: rcp_headroom_def Let_def)
  have "\<not> (case r of None \<Rightarrow> False | Some (_, q) \<Rightarrow> quota \<le> q)" using fits(2) by (auto split: option.splits)
  with fits(1) head have "quota \<le> vd_quota d - ?alloc - (pendingReservedBytes (vd_id d) None now st + reserve_sum d st)"
    by (auto simp: assertQuotaFitsDomain_def split: if_splits)
  with alloc show ?thesis by (simp add: committed_def)
qed

lemma rcp_create_books:
  assumes sound: "mail_rows_sound st" "users_sound st" and d: "d \<in> set (ms_domains st)" "0 < vd_quota d"
    and op: "rcp_create env ctx ids b domain owner False now st = (res, st')" and q: "0 \<le> nr_quota b"
  shows "committed now d st' \<le> max (committed now d st) (vd_quota d)"
  using rcp_create_effect [OF op]
proof (elim disjE)
  note S = mail_rows_soundD [OF sound(1)]
  assume "\<exists>u. res = Inr u \<and> ms_users st' = ms_users st @ [u] \<and> same_grants st st' \<and> ms_aliases st' = ms_aliases st
        \<and> vu_id u = ui_row ids \<and> vu_ownerId u = owner \<and> vu_domain u = domain \<and> vu_quota u = nr_quota b
        \<and> vu_email u = nr_localPart b @ ''@'' @ domain \<and> vu_isProtected u = 0
        \<and> vu_email u \<notin> vu_email ` set (ms_users st) \<and> domain \<in> vd_domain ` set (ms_domains st)
        \<and> (False \<or> assertQuotaFitsDomain domain (nr_quota b) None now st = Inr ())"
  then obtain u where u: "ms_users st' = ms_users st @ [u]" "same_grants st st'" "vu_domain u = domain" "vu_quota u = nr_quota b"
    and fits: "assertQuotaFitsDomain domain (nr_quota b) None now st = Inr ()" by auto
  have move: "boxes_move d (vu_ownerId u) (if vu_domain u = vd_domain d then vu_quota u else 0) st st'"
    using u(2) by (intro boxes_insert u(1)) (simp_all add: same_grants_def)
  have up: "committed now d st' \<le> committed now d st + (if domain = vd_domain d then nr_quota b else 0)"
    using boxes_up [OF S(4) move, of now] u q by (cases "domain = vd_domain d") simp_all
  show ?thesis
  proof (cases "domain = vd_domain d")
    case True
    have "committed now d st - 0 + nr_quota b \<le> vd_quota d"
      using headroom_room [OF S(1) d, where r = None and held = 0 and quota = "nr_quota b" and now = now] fits True sound(2) by (simp add: users_sound_def)
    with up True show ?thesis by simp
  qed (use up in simp)
qed auto

lemma rcp_update_books:
  assumes sound: "mail_rows_sound st" "users_sound st" and d: "d \<in> set (ms_domains st)" "0 < vd_quota d"
    and op: "rcp_update env ctx i b domain False now st = (res, st')"
  shows "committed now d st' \<le> max (committed now d st) (vd_quota d)"
proof (cases "st' = st")
  case False
  note S = mail_rows_soundD [OF sound(1)]
  obtain u where u: "rcp_get i domain st = Inr u" and ok: "quota_change_ok b u domain False now st = Inr ()"
    and st': "st' = note_recipient ctx ''recipients.updated'' i (save_user (changed_user env b u) st)"
    using rcp_update_effect [OF op] False by auto
  note u' = rcp_get_in [OF u]
  let ?u' = "changed_user env b u"
  have ids: "distinct (map vu_id (ms_users st))" using sound(2) by (simp add: users_sound_def)
  have move: "boxes_move d (vu_ownerId u) (if vu_domain u = vd_domain d then vu_quota ?u' - vu_quota u else 0) st st'"
    using u' by (intro boxes_replace [OF ids]) (simp_all add: st' save_user_def)
  show ?thesis
  proof (cases "vu_domain u = vd_domain d \<and> vu_quota u < vu_quota ?u'")
    case True
    then obtain q where q: "ur_quota b = Some q" "vu_quota u < q" by (auto split: option.splits)
    with ok u' True have "assertQuotaFitsDomain (vd_domain d) q (Some (vu_id u, vu_quota u)) now st = Inr ()"
      by (auto simp: quota_change_ok_def split: sum.splits)
    then have "committed now d st - vu_quota u + q \<le> vd_quota d"
      using u' q True by (intro headroom_room [OF S(1) d ids, where r = "Some (vu_id u, vu_quota u)"]) auto
    with boxes_up [OF S(4) move, of now] True q show ?thesis by simp
  next
    case False
    then have "committed now d st' \<le> committed now d st" by (intro boxes_down [OF S(4) move]) auto
    then show ?thesis by simp
  qed
qed simp

lemma rcp_remove_books:
  assumes sound: "mail_rows_sound st" "users_sound st" and op: "rcp_remove env ctx i domain st = (res, st')"
    and pos: "\<forall>u \<in> set (ms_users st). 0 \<le> vu_quota u"
  shows "committed now d st' \<le> committed now d st"
  using rcp_remove_effect [OF op]
proof (elim disjE)
  assume "\<exists>u es. res = Inr () \<and> rcp_get i domain st = Inr u \<and> reservedLocalPartOf (vu_email u) domain = None
        \<and> st' = note_recipient ctx ''recipients.deleted'' i
            ((delete_user u (delete_quota_users (vu_email u) st))\<lparr>ms_erased := es\<rparr>)"
  then obtain u es where u: "rcp_get i domain st = Inr u"
    and st': "st' = note_recipient ctx ''recipients.deleted'' i
            ((delete_user u (delete_quota_users (vu_email u) st))\<lparr>ms_erased := es\<rparr>)" by blast
  note u' = rcp_get_in [OF u]
  have "boxes_move d (vu_ownerId u) (if vu_domain u = vd_domain d then - vu_quota u else 0) st st'"
    using sound(2) u' by (intro boxes_delete) (simp_all add: st' users_sound_def)
  then show ?thesis using mail_rows_soundD(4) [OF sound(1)] pos u' by (intro boxes_down) auto
qed auto

section \<open>Under a delegation\<close>

text \<open>The account still owns at least what it owned on the domain when its grant was made.\<close>

definition baseline_kept :: "string \<Rightarrow> virtual_domain \<Rightarrow> mail_state \<Rightarrow> bool" where
  "baseline_kept a d st = (case find_delegation a (vd_id d) st of None \<Rightarrow> True
     | Some r \<Rightarrow> dd_baseBytes r \<le> usedBytesOf a (vd_domain d) st)"

lemma rcp_resolveDomain_Inr:
  "rcp_resolveDomain i st = Inr n \<Longrightarrow> \<exists>dm \<in> set (ms_domains st). vd_id dm = i \<and> vd_domain dm = n \<and> find_domain i st = Some dm"
  by (auto simp: rcp_resolveDomain_def find_domain_def split: option.splits dest: find_in_set)

lemma name_unique:
  "domains_sound st \<Longrightarrow> d \<in> set (ms_domains st) \<Longrightarrow> e \<in> set (ms_domains st) \<Longrightarrow> vd_domain d = vd_domain e \<Longrightarrow> d = e"
  by (auto simp: domains_sound_def distinct_map dest: inj_onD)

lemma id_unique:
  "domains_sound st \<Longrightarrow> d \<in> set (ms_domains st) \<Longrightarrow> e \<in> set (ms_domains st) \<Longrightarrow> vd_id d = vd_id e \<Longrightarrow> d = e"
  by (auto simp: domains_sound_def distinct_map dest: inj_onD)

lemma my_create_run:
  assumes "my_createRecipient env ctx ids a i b now st = (res, st')"
  shows "st' = st \<or> (\<exists>n r. rcp_resolveDomain i st = Inr n \<and> assertCanCreateRecipient a i (nr_quota b) st = Inr r
    \<and> (\<exists>res2. rcp_create env ctx ids b n (Some a) True now st = (res2, st')))"
  using assms by (auto simp: my_createRecipient_def and_then_def split: sum.splits prod.splits)

lemma my_create_books:
  assumes sound: "mail_rows_sound st" "users_sound st" and d: "d \<in> set (ms_domains st)"
    and op: "my_createRecipient env ctx ids a i b now st = (res, st')" and q: "0 \<le> nr_quota b"
    and base: "baseline_kept a d st"
  shows "committed now d st' \<le> committed now d st"
proof (cases "st' = st")
  case False
  note S = mail_rows_soundD [OF sound(1)]
  obtain n r res2 where n: "rcp_resolveDomain i st = Inr n" and can: "assertCanCreateRecipient a i (nr_quota b) st = Inr r"
    and run: "rcp_create env ctx ids b n (Some a) True now st = (res2, st')" using my_create_run [OF op] False by blast
  obtain dm where dm: "dm \<in> set (ms_domains st)" "vd_id dm = i" "vd_domain dm = n" "find_domain i st = Some dm"
    using rcp_resolveDomain_Inr [OF n] by blast
  have r: "find_delegation a i st = Some r" "spentBytesOf r n st + nr_quota b \<le> dd_quotaMb r * MB"
    using can dm by (auto simp: assertCanCreateRecipient_def resolveDomain_def split: option.splits if_splits)
  obtain u where u: "ms_users st' = ms_users st @ [u]" "same_grants st st'" "vu_ownerId u = Some a" "vu_domain u = n"
    "vu_quota u = nr_quota b" using rcp_create_effect [OF run] False by auto
  have move: "boxes_move d (Some a) (if n = vd_domain d then nr_quota b else 0) st st'"
    using boxes_insert [OF u(1), of d] u by (cases "n = vd_domain d") (simp_all add: same_grants_def)
  show ?thesis
  proof (cases "n = vd_domain d")
    case True
    then have "d = dm" using name_unique [OF S(1) d dm(1)] dm(3) by simp
    then have own: "own_row d (Some a) st = Some r" using r(1) dm(2) by (simp add: own_row_def)
    have "dd_baseBytes r \<le> usedBytesOf (dd_accountId r) (vd_domain d) st"
      using base r(1) \<open>d = dm\<close> dm(2) find_delegation_in [OF r(1)] by (simp add: baseline_kept_def)
    with boxes_drawn [OF S(4) move _ own] True q r(2) show ?thesis by simp
  next
    case False
    with boxes_up [OF S(4) move, of now] show ?thesis by simp
  qed
qed simp

lemma ownedRecipient_in:
  "ownedRecipient a i st = Inr u \<Longrightarrow> u \<in> set (ms_users st) \<and> vu_id u = i \<and> vu_ownerId u = Some a"
  by (auto simp: ownedRecipient_def split: option.splits dest: find_in_set)

lemma my_update_run:
  assumes "my_updateRecipient env ctx a i b now st = (res, st')"
  shows "st' = st \<or> (\<exists>u. ownedRecipient a i st = Inr u
    \<and> (\<forall>q. ur_quota b = Some q \<longrightarrow> assertCanRaiseQuota a (vu_domain u) (q - vu_quota u) st = Inr ())
    \<and> (\<exists>res2. rcp_update env ctx i b (vu_domain u) (ur_quota b \<noteq> None) now st = (res2, st')))"
proof (cases "ownedRecipient a i st")
  case (Inr u)
  with assms ownedRecipient_in [OF Inr] show ?thesis
    by (auto simp: my_updateRecipient_def and_then_def split: sum.splits prod.splits option.splits)
qed (use assms in \<open>simp add: my_updateRecipient_def\<close>)

lemma user_by_id:
  assumes "users_sound st" "u \<in> set (ms_users st)" "rcp_get (vu_id u) (vu_domain u) st = Inr v"
  shows "v = u"
  using assms rcp_get_in [OF assms(3)] by (auto simp: users_sound_def distinct_map dest: inj_onD)

lemma my_update_books:
  assumes sound: "mail_rows_sound st" "users_sound st" and d: "d \<in> set (ms_domains st)"
    and op: "my_updateRecipient env ctx a i b now st = (res, st')" and base: "baseline_kept a d st"
  shows "committed now d st' \<le> committed now d st"
proof (cases "st' = st")
  case False
  note S = mail_rows_soundD [OF sound(1)]
  obtain u res2 where u: "ownedRecipient a i st = Inr u"
    and can: "\<And>q. ur_quota b = Some q \<Longrightarrow> assertCanRaiseQuota a (vu_domain u) (q - vu_quota u) st = Inr ()"
    and run: "rcp_update env ctx i b (vu_domain u) (ur_quota b \<noteq> None) now st = (res2, st')"
    using my_update_run [OF op] False by blast
  note u' = ownedRecipient_in [OF u]
  obtain v where v: "rcp_get i (vu_domain u) st = Inr v"
    and st': "st' = note_recipient ctx ''recipients.updated'' i (save_user (changed_user env b v) st)"
    using rcp_update_effect [OF run] False by auto
  have "v = u" using user_by_id [OF sound(2), of u v] u' v by simp
  have ids: "distinct (map vu_id (ms_users st))" using sound(2) by (simp add: users_sound_def)
  let ?u' = "changed_user env b u"
  have move: "boxes_move d (Some a) (if vu_domain u = vd_domain d then vu_quota ?u' - vu_quota u else 0) st st'"
    using boxes_replace [OF ids, of u ?u' st' d] u' \<open>v = u\<close> by (simp add: st' save_user_def)
  show ?thesis
  proof (cases "vu_domain u = vd_domain d \<and> vu_quota u < vu_quota ?u'")
    case True
    then obtain q where q: "ur_quota b = Some q" "vu_quota u < q" by (auto split: option.splits)
    have named: "find_domain_named (vd_domain d) st = Some d" using find_domain_named_unique [OF S(1) d] .
    obtain r where r: "find_delegation a (vd_id d) st = Some r"
      "spentBytesOf r (vd_domain d) st + (q - vu_quota u) \<le> dd_quotaMb r * MB"
      using can [OF q(1)] True q(2) named by (auto simp: assertCanRaiseQuota_def split: option.splits if_splits)
    then have own: "own_row d (Some a) st = Some r" by (simp add: own_row_def)
    have "dd_baseBytes r \<le> usedBytesOf (dd_accountId r) (vd_domain d) st"
      using base r(1) find_delegation_in [OF r(1)] by (simp add: baseline_kept_def)
    with boxes_drawn [OF S(4) move _ own] True q r(2) show ?thesis by simp
  next
    case False
    then show ?thesis by (intro boxes_down [OF S(4) move]) auto
  qed
qed simp

end
