(* ===== verification/MailInvariant.thy ===== *)
theory MailInvariant imports MailboxBooks begin

text \<open>
  The well-formedness of the mail tables, which every request of \<open>MailRoutes\<close> preserves: keys are unique,
  an account has one delegation a domain, a mailbox stands in an existing domain under an address of it,
  and no quota is negative.
\<close>

definition tables_sound :: "mail_state \<Rightarrow> bool" where
  "tables_sound st = (mail_rows_sound st \<and> users_sound st \<and> (\<forall>u \<in> set (ms_users st). 0 \<le> vu_quota u)
     \<and> distinct (map va_id (ms_aliases st)) \<and> distinct (map va_source (ms_aliases st)))"

text \<open>The identifiers the database is about to draw are nobody's.\<close>

definition drawn_fresh :: "route_env \<Rightarrow> mail_state \<Rightarrow> bool" where
  "drawn_fresh env st = (re_row env \<notin> va_id ` set (ms_aliases st) \<and> re_row env \<notin> dd_id ` set (ms_delegations st)
     \<and> re_row env \<notin> iv_id ` set (ms_invitations st) \<and> ui_row (re_ids env) \<notin> vu_id ` set (ms_users st)
     \<and> dw_domainId (re_draws env) \<notin> vd_id ` set (ms_domains st)
     \<and> dw_domainId (re_draws env) \<notin> dd_domainId ` set (ms_delegations st)
     \<and> Some (dw_domainId (re_draws env)) \<notin> iv_delegationDomainId ` set (ms_invitations st)
     \<and> ui_row (dw_postmaster (re_draws env)) \<notin> vu_id ` set (ms_users st)
     \<and> ui_row (dw_dmarc (re_draws env)) \<notin> insert (ui_row (dw_postmaster (re_draws env))) (vu_id ` set (ms_users st)))"

section \<open>Per table\<close>

definition address_ok :: "virtual_user \<Rightarrow> bool" where
  "address_ok u = (\<exists>l. CHR ''@'' \<notin> set l \<and> vu_email u = l @ ''@'' @ vu_domain u)"

lemma users_sound_iff:
  "users_sound st = (distinct (map vu_id (ms_users st)) \<and> distinct (map vu_email (ms_users st))
     \<and> (\<forall>u \<in> set (ms_users st). vu_domain u \<in> vd_domain ` set (ms_domains st) \<and> address_ok u))"
  by (simp add: users_sound_def address_ok_def)

definition users_fine :: "mail_state \<Rightarrow> bool" where
  "users_fine st = (users_sound st \<and> (\<forall>u \<in> set (ms_users st). 0 \<le> vu_quota u))"

lemma users_fine_append:
  assumes "users_fine st" "ms_users st' = ms_users st @ [u]" "ms_domains st' = ms_domains st"
    "vu_id u \<notin> vu_id ` set (ms_users st)" "vu_email u \<notin> vu_email ` set (ms_users st)"
    "vu_domain u \<in> vd_domain ` set (ms_domains st)" "address_ok u" "0 \<le> vu_quota u"
  shows "users_fine st'"
  using assms by (auto simp: users_fine_def users_sound_iff)

lemma save_row_other_key:
  "distinct (map key rows) \<Longrightarrow> x \<in> set rows \<Longrightarrow> key r = key x \<Longrightarrow> f r = f x \<Longrightarrow>
   map f (save_row key r rows) = map f rows"
proof -
  assume a: "distinct (map key rows)" "x \<in> set rows" "key r = key x" "f r = f x"
  have "f (if key y = key r then r else y) = f y" if "y \<in> set rows" for y
    using a that by (auto simp: distinct_map dest: inj_onD)
  moreover have "save_row key r rows = map (\<lambda>y. if key y = key r then r else y) rows"
    using a(2,3) by (auto simp: save_row_def)
  ultimately show ?thesis by (simp cong: map_cong)
qed

lemma users_fine_save:
  assumes "users_fine st" "u \<in> set (ms_users st)" "vu_id u' = vu_id u" "vu_email u' = vu_email u"
    "vu_domain u' = vu_domain u" "0 \<le> vu_quota u'"
  shows "users_fine (save_user u' st)"
proof -
  have ids: "distinct (map vu_id (ms_users st))" using assms(1) by (simp add: users_fine_def users_sound_iff)
  have "map vu_id (ms_users (save_user u' st)) = map vu_id (ms_users st)"
    "map vu_email (ms_users (save_user u' st)) = map vu_email (ms_users st)"
    using save_row_other_key [OF ids assms(2,3)] assms(3,4) by (simp_all add: save_user_def)
  moreover have "set (ms_users (save_user u' st)) \<subseteq> insert u' (set (ms_users st))"
    by (auto simp: save_user_def set_save_row)
  moreover have "address_ok u'" using assms by (auto simp: users_fine_def users_sound_iff address_ok_def)
  moreover have "vu_domain u' \<in> vd_domain ` set (ms_domains st)" using assms by (auto simp: users_fine_def users_sound_iff)
  moreover have "ms_domains (save_user u' st) = ms_domains st" by (simp add: save_user_def)
  ultimately show ?thesis using assms(1,6) unfolding users_fine_def users_sound_iff by (metis (no_types, lifting) insertE subsetD)
qed

lemma users_fine_filter:
  assumes "users_fine st" "ms_users st' = filter P (ms_users st)"
    "\<And>u. u \<in> set (ms_users st) \<Longrightarrow> P u \<Longrightarrow> vu_domain u \<in> vd_domain ` set (ms_domains st')"
  shows "users_fine st'"
  using assms by (auto simp: users_fine_def users_sound_iff distinct_map_filter)

lemma users_fine_same:
  assumes "users_fine st" "ms_users st' = ms_users st" "vd_domain ` set (ms_domains st) \<subseteq> vd_domain ` set (ms_domains st')"
  shows "users_fine st'"
  using assms by (auto simp: users_fine_def users_sound_iff)

lemma save_row_new: "key r \<notin> key ` set rows \<Longrightarrow> save_row key r rows = rows @ [r]"
  unfolding save_row_def by (metis image_eqI)

definition aliases_fine :: "mail_state \<Rightarrow> bool" where
  "aliases_fine st = (distinct (map va_id (ms_aliases st)) \<and> distinct (map va_source (ms_aliases st)))"

lemma tables_sound_parts:
  "tables_sound st = (domains_sound st \<and> offers_sound st \<and> grants_sound st \<and> users_fine st \<and> aliases_fine st)"
  by (auto simp: tables_sound_def mail_rows_sound_def users_fine_def aliases_fine_def)

lemma parts_cong:
  "ms_domains st' = ms_domains st \<Longrightarrow> domains_sound st' = domains_sound st"
  "ms_invitations st' = ms_invitations st \<Longrightarrow> offers_sound st' = offers_sound st"
  "ms_delegations st' = ms_delegations st \<Longrightarrow> grants_sound st' = grants_sound st"
  "ms_aliases st' = ms_aliases st \<Longrightarrow> aliases_fine st' = aliases_fine st"
  by (simp_all add: domains_sound_def offers_sound_def grants_sound_def one_grant_each_def aliases_fine_def)

text \<open>An operation that changes one table has that table to account for.\<close>

lemma only_users:
  assumes "tables_sound st" "same_grants st st'" "ms_aliases st' = ms_aliases st" "users_fine st'"
  shows "tables_sound st'"
  using assms parts_cong [of st' st] by (simp add: tables_sound_parts same_grants_def)

lemma only_aliases:
  assumes "tables_sound st" "same_grants st st'" "ms_users st' = ms_users st" "aliases_fine st'"
  shows "tables_sound st'"
  using assms parts_cong [of st' st] users_fine_same [of st st'] by (simp add: tables_sound_parts same_grants_def)

lemma only_grants:
  assumes "tables_sound st" "ms_domains st' = ms_domains st" "ms_users st' = ms_users st" "ms_aliases st' = ms_aliases st"
    "offers_sound st'" "grants_sound st'"
  shows "tables_sound st'"
  using assms parts_cong [of st' st] users_fine_same [of st st'] by (simp add: tables_sound_parts)

section \<open>Mailboxes\<close>

lemma rcp_create_sound:
  assumes sound: "tables_sound st" and op: "rcp_create env ctx ids b domain owner skip now st = (res, st')"
    and b: "CHR ''@'' \<notin> set (nr_localPart b)" "0 \<le> nr_quota b" and fresh: "ui_row ids \<notin> vu_id ` set (ms_users st)"
  shows "tables_sound st'"
proof (cases "st' = st")
  case False
  then obtain u where u: "ms_users st' = ms_users st @ [u]" "same_grants st st'" "ms_aliases st' = ms_aliases st"
    "vu_id u = ui_row ids" "vu_domain u = domain" "vu_quota u = nr_quota b" "vu_email u = nr_localPart b @ ''@'' @ domain"
    "vu_email u \<notin> vu_email ` set (ms_users st)" "domain \<in> vd_domain ` set (ms_domains st)"
    using rcp_create_effect [OF op] by auto
  show ?thesis
  proof (rule only_users [OF sound u(2,3)])
    show "users_fine st'"
      using sound u b fresh by (intro users_fine_append [of st st' u]) (auto simp: tables_sound_parts same_grants_def address_ok_def)
  qed
qed (use sound in simp)

lemma users_fine_ids: "users_fine st \<Longrightarrow> ms_users st' = ms_users st \<Longrightarrow> ms_domains st' = ms_domains st \<Longrightarrow> users_fine st'"
  by (erule users_fine_same) simp_all

lemma save_user_sound:
  assumes "tables_sound st" "u \<in> set (ms_users st)" "vu_id u' = vu_id u" "vu_email u' = vu_email u"
    "vu_domain u' = vu_domain u" "0 \<le> vu_quota u'"
    and "ms_users st' = ms_users (save_user u' st)" "same_grants st st'" "ms_aliases st' = ms_aliases st"
  shows "tables_sound st'"
proof (rule only_users [OF assms(1,8,9)])
  have "users_fine st" using assms(1) by (simp add: tables_sound_parts)
  from users_fine_save [OF this assms(2-6)] show "users_fine st'"
    by (rule users_fine_ids) (use assms(7,8) in \<open>simp_all add: save_user_def same_grants_def\<close>)
qed

lemma sound_quota: "tables_sound st \<Longrightarrow> u \<in> set (ms_users st) \<Longrightarrow> 0 \<le> vu_quota u"
  by (simp add: tables_sound_def)

lemma rcp_update_sound:
  assumes sound: "tables_sound st" and op: "rcp_update env ctx i b domain skip now st = (res, st')"
    and q: "\<And>q. ur_quota b = Some q \<Longrightarrow> 0 \<le> q"
  shows "tables_sound st'"
proof (cases "st' = st")
  case False
  then obtain u where u: "rcp_get i domain st = Inr u"
    "st' = note_recipient ctx ''recipients.updated'' i (save_user (changed_user env b u) st)"
    using rcp_update_effect [OF op] by auto
  note u' = rcp_get_in [OF u(1)]
  have "0 \<le> vu_quota (changed_user env b u)" using q sound_quota [OF sound, of u] u' by (auto split: option.split)
  then show ?thesis
    using save_user_sound [OF sound, of u "changed_user env b u" st'] u' u(2) by (simp add: same_grants_def save_user_def)
qed (use sound in simp)

lemma rcp_owner_sound:
  assumes sound: "tables_sound st"
    and op: "rcp_assignOwner i domain a st = (res, st') \<or> rcp_clearOwner i domain st = (res, st')"
  shows "tables_sound st'"
proof (cases "st' = st")
  case False
  with op obtain u o' where u: "rcp_get i domain st = Inr u" "st' = save_user (u\<lparr>vu_ownerId := o'\<rparr>) st"
    by (auto simp: rcp_assignOwner_def rcp_clearOwner_def Let_def split: sum.splits option.splits if_splits)
  with save_user_sound [OF sound, of u "u\<lparr>vu_ownerId := o'\<rparr>" st'] rcp_get_in [OF u(1)] sound_quota [OF sound, of u]
  show ?thesis by (simp add: same_grants_def save_user_def)
qed (use sound in simp)

lemma rcp_remove_sound:
  assumes sound: "tables_sound st" and op: "rcp_remove env ctx i domain st = (res, st')"
  shows "tables_sound st'"
proof (cases "st' = st")
  case False
  then obtain u es where st': "st' = note_recipient ctx ''recipients.deleted'' i
            ((delete_user u (delete_quota_users (vu_email u) st))\<lparr>ms_erased := es\<rparr>)"
    using rcp_remove_effect [OF op] by auto
  have "users_fine st'"
    using sound by (intro users_fine_filter [of st st' "\<lambda>x. vu_id x \<noteq> vu_id u"])
      (auto simp: st' delete_where_def tables_sound_parts users_fine_def users_sound_iff)
  then show ?thesis using only_users [OF sound, of st'] by (simp add: st' same_grants_def)
qed (use sound in simp)

section \<open>Aliases\<close>

lemma note_alias_tables [simp]:
  "ms_users (note_alias c a i st) = ms_users st" "ms_domains (note_alias c a i st) = ms_domains st"
  "ms_aliases (note_alias c a i st) = ms_aliases st" "ms_accounts (note_alias c a i st) = ms_accounts st"
  "ms_delegations (note_alias c a i st) = ms_delegations st" "ms_invitations (note_alias c a i st) = ms_invitations st"
  "ms_quotaUsers (note_alias c a i st) = ms_quotaUsers st" "ms_quotaDomains (note_alias c a i st) = ms_quotaDomains st"
  by (simp_all add: note_alias_def)

lemma als_get_in: "als_get i domain st = Inr a \<Longrightarrow> a \<in> set (ms_aliases st) \<and> va_id a = i \<and> va_domain a = domain"
  by (auto simp: als_get_def split: option.splits dest: find_in_set)

lemma als_create_effect:
  assumes "als_create ctx n b domain owner now st = (res, st')"
  shows "st' = st \<or> (\<exists>a. st' = note_alias ctx ''aliases.created'' n (st\<lparr>ms_aliases := ms_aliases st @ [a]\<rparr>) \<and> va_id a = n
    \<and> va_domain a = domain \<and> va_isProtected a = 0 \<and> (\<forall>x \<in> set (ms_aliases st). va_source x \<noteq> va_source a))"
  using assms unfolding als_create_def Let_def assertSourceFree_def
  by (simp split: sum.splits if_splits) force

lemma als_create_sound:
  assumes sound: "tables_sound st" and op: "als_create ctx n b domain owner now st = (res, st')"
    and fresh: "n \<notin> va_id ` set (ms_aliases st)"
  shows "tables_sound st'"
proof (cases "st' = st")
  case False
  then obtain a where a: "st' = note_alias ctx ''aliases.created'' n (st\<lparr>ms_aliases := ms_aliases st @ [a]\<rparr>)" "va_id a = n"
    "\<forall>x \<in> set (ms_aliases st). va_source x \<noteq> va_source a" using als_create_effect [OF op] by blast
  then show ?thesis
    using sound fresh by (intro only_aliases [OF sound]) (auto simp: same_grants_def aliases_fine_def tables_sound_parts)
qed (use sound in simp)

lemma save_alias_sound:
  assumes sound: "tables_sound st" and a: "a \<in> set (ms_aliases st)" "va_id a' = va_id a"
    and free: "\<forall>x \<in> set (ms_aliases st). va_id x \<noteq> va_id a \<longrightarrow> va_source x \<noteq> va_source a'"
  shows "tables_sound (save_alias a' st)"
proof (rule only_aliases [OF sound])
  have "distinct (map va_id (ms_aliases st))" "distinct (map va_source (ms_aliases st))"
    using sound by (simp_all add: tables_sound_def)
  then show "aliases_fine (save_alias a' st)"
    using distinct_save_row [of va_id "ms_aliases st" a'] distinct_save_other [of va_source "ms_aliases st" va_id a'] free a(2)
    by (simp add: aliases_fine_def save_alias_def)
qed (simp_all add: save_alias_def same_grants_def)

lemma note_alias_sound: "tables_sound st \<Longrightarrow> tables_sound (note_alias c a i st)"
  by (rule only_aliases [of st]) (simp_all add: same_grants_def aliases_fine_def tables_sound_parts)

lemma als_source_unique:
  assumes "tables_sound st" "a \<in> set (ms_aliases st)" "x \<in> set (ms_aliases st)" "va_id x \<noteq> va_id a"
  shows "va_source x \<noteq> va_source a"
  using assms by (auto simp: tables_sound_def distinct_map dest: inj_onD)

lemma als_update_effect:
  assumes "als_update ctx i b domain st = (res, st')"
  shows "st' = st \<or> (\<exists>a. als_get i domain st = Inr a
    \<and> st' = note_alias ctx ''aliases.updated'' i (save_alias (changed_alias b a) st)
    \<and> (\<forall>l. pa_localPart b = Some l \<longrightarrow> assertSourceFree (l @ ''@'' @ domain) (Some i) st = Inr ()))"
proof (cases "als_get i domain st")
  case (Inr a)
  with assms show ?thesis by (auto simp: als_update_def Let_def split: sum.splits option.splits)
qed (use assms in \<open>simp add: als_update_def\<close>)

lemma als_update_sound:
  assumes sound: "tables_sound st" and op: "als_update ctx i b domain st = (res, st')"
  shows "tables_sound st'"
proof (cases "st' = st")
  case False
  then obtain a where a: "als_get i domain st = Inr a"
    "st' = note_alias ctx ''aliases.updated'' i (save_alias (changed_alias b a) st)"
    "\<And>l. pa_localPart b = Some l \<Longrightarrow> assertSourceFree (l @ ''@'' @ domain) (Some i) st = Inr ()"
    using als_update_effect [OF op] by blast
  note a' = als_get_in [OF a(1)]
  have "va_source x \<noteq> va_source (changed_alias b a)" if x: "x \<in> set (ms_aliases st)" "va_id x \<noteq> va_id a" for x
  proof (cases "pa_localPart b")
    case None
    with als_source_unique [OF sound, of a x] a' x show ?thesis by (simp add: changed_alias_def)
  next
    case (Some l)
    with a(3) [OF Some] a' x show ?thesis by (auto simp: changed_alias_def assertSourceFree_def split: if_splits)
  qed
  then have "tables_sound (save_alias (changed_alias b a) st)"
    using a' by (intro save_alias_sound [OF sound, of a]) (auto simp: changed_alias_def)
  with a(2) show ?thesis by (simp add: note_alias_sound)
qed (use sound in simp)

lemma als_owner_sound:
  assumes sound: "tables_sound st"
    and op: "als_assignOwner i domain o' st = (res, st') \<or> als_clearOwner i domain st = (res, st')"
  shows "tables_sound st'"
proof (cases "st' = st")
  case False
  with op obtain a w where a: "als_get i domain st = Inr a" "st' = save_alias (a\<lparr>va_ownerId := w\<rparr>) st"
    by (auto simp: als_assignOwner_def als_clearOwner_def Let_def split: sum.splits if_splits)
  with save_alias_sound [OF sound, of a "a\<lparr>va_ownerId := w\<rparr>"] als_get_in [OF a(1)] als_source_unique [OF sound, of a]
  show ?thesis by simp
qed (use sound in simp)

lemma als_remove_sound:
  assumes sound: "tables_sound st" and op: "als_remove ctx i domain st = (res, st')"
  shows "tables_sound st'"
proof (cases "als_get i domain st")
  case (Inr a)
  with op have "st' = note_alias ctx ''aliases.deleted'' i (st\<lparr>ms_aliases := delete_where (\<lambda>x. va_id x = va_id a) (ms_aliases st)\<rparr>)"
    by (simp add: als_remove_def)
  then show ?thesis using sound
    by (intro only_aliases [OF sound]) (auto simp: same_grants_def aliases_fine_def delete_where_def tables_sound_parts distinct_map_filter)
qed (use sound op in \<open>simp add: als_remove_def\<close>)

section \<open>Delegations and offers\<close>

lemma save_delegation_sound:
  assumes sound: "tables_sound st" and q: "0 \<le> dd_quotaMb r'"
    and r: "r \<in> set (ms_delegations st) \<and> dd_id r' = dd_id r \<and> dd_accountId r' = dd_accountId r \<and> dd_domainId r' = dd_domainId r
      \<or> dd_id r' \<notin> dd_id ` set (ms_delegations st)
        \<and> (dd_accountId r', dd_domainId r') \<notin> (\<lambda>x. (dd_accountId x, dd_domainId x)) ` set (ms_delegations st)"
  shows "tables_sound (save_delegation r' st)"
proof -
  let ?key = "\<lambda>x. (dd_accountId x, dd_domainId x)"
  have g: "distinct (map dd_id (ms_delegations st))" "distinct (map ?key (ms_delegations st))"
    "\<forall>x \<in> set (ms_delegations st). 0 \<le> dd_quotaMb x"
    using sound by (simp_all add: tables_sound_parts grants_sound_def one_grant_each_def)
  have "distinct (map ?key (save_row dd_id r' (ms_delegations st)))"
    using r
  proof
    assume "r \<in> set (ms_delegations st) \<and> dd_id r' = dd_id r \<and> dd_accountId r' = dd_accountId r \<and> dd_domainId r' = dd_domainId r"
    then have "map ?key (save_row dd_id r' (ms_delegations st)) = map ?key (ms_delegations st)"
      by (intro save_row_other_key [OF g(1), of r]) auto
    with g(2) show ?thesis by simp
  next
    assume "dd_id r' \<notin> dd_id ` set (ms_delegations st)
        \<and> (dd_accountId r', dd_domainId r') \<notin> ?key ` set (ms_delegations st)"
    with g(2) show ?thesis by (auto simp: save_row_new)
  qed
  moreover have "distinct (map dd_id (save_row dd_id r' (ms_delegations st)))" by (rule distinct_save_row [OF g(1)])
  moreover have "\<forall>x \<in> set (save_row dd_id r' (ms_delegations st)). 0 \<le> dd_quotaMb x"
    using g(3) q by (auto simp: set_save_row)
  ultimately have "grants_sound (save_delegation r' st)" by (simp add: grants_sound_def one_grant_each_def save_delegation_def)
  moreover have "offers_sound (save_delegation r' st)" using sound parts_cong(2) [of "save_delegation r' st" st]
    by (simp add: tables_sound_parts)
  ultimately show ?thesis by (intro only_grants [OF sound]) (simp_all add: save_delegation_def)
qed

lemma upsert_sound:
  assumes sound: "tables_sound st" and fresh: "n \<notin> dd_id ` set (ms_delegations st)" and q: "0 \<le> cp_quotaMb caps"
  shows "tables_sound (upsertRow n now dm a by_whom caps st)"
proof (cases "find_delegation a (vd_id dm) st")
  case None
  then have "(a, vd_id dm) \<notin> (\<lambda>x. (dd_accountId x, dd_domainId x)) ` set (ms_delegations st)"
    by (auto simp: find_delegation_def find_None_iff)
  with None fresh q show ?thesis by (simp add: upsertRow_def) (intro save_delegation_sound [OF sound], auto)
next
  case (Some r)
  have "r \<in> set (ms_delegations st)" using find_delegation_in [OF Some] by (simp add: delegations_on_def)
  moreover from this have "0 \<le> dd_quotaMb r" using sound by (simp add: tables_sound_parts grants_sound_def)
  ultimately show ?thesis using Some q by (simp add: upsertRow_def) (intro save_delegation_sound [OF sound, of _ r], auto)
qed

lemma save_invitation_sound:
  assumes sound: "tables_sound st" and q: "0 \<le> offered_mb i'"
    and i: "i \<in> set (ms_invitations st) \<and> iv_id i' = iv_id i \<and> iv_token i' = iv_token i
      \<or> iv_id i' \<notin> iv_id ` set (ms_invitations st) \<and> iv_token i' \<notin> iv_token ` set (ms_invitations st)"
  shows "tables_sound (save_invitation i' st)"
proof -
  have g: "distinct (map iv_id (ms_invitations st))" "distinct (map iv_token (ms_invitations st))"
    "\<forall>x \<in> set (ms_invitations st). 0 \<le> offered_mb x"
    using sound by (simp_all add: tables_sound_parts offers_sound_def)
  have "distinct (map iv_token (save_row iv_id i' (ms_invitations st)))"
    using i
  proof
    assume "i \<in> set (ms_invitations st) \<and> iv_id i' = iv_id i \<and> iv_token i' = iv_token i"
    then have "map iv_token (save_row iv_id i' (ms_invitations st)) = map iv_token (ms_invitations st)"
      by (intro save_row_other_key [OF g(1), of i]) auto
    with g(2) show ?thesis by simp
  qed (use g(2) in \<open>auto simp: save_row_new\<close>)
  moreover have "distinct (map iv_id (save_row iv_id i' (ms_invitations st)))" by (rule distinct_save_row [OF g(1)])
  moreover have "\<forall>x \<in> set (save_row iv_id i' (ms_invitations st)). 0 \<le> offered_mb x"
    using g(3) q by (auto simp: set_save_row)
  ultimately have "offers_sound (save_invitation i' st)" by (simp add: offers_sound_def save_invitation_def)
  moreover have "grants_sound (save_invitation i' st)"
    using sound parts_cong(3) [of "save_invitation i' st" st] by (simp add: tables_sound_parts save_invitation_def)
  ultimately show ?thesis by (intro only_grants [OF sound]) (simp_all add: save_invitation_def)
qed

lemma expire_former_sound:
  assumes "tables_sound st"
  shows "tables_sound (expire_former e now st)"
proof (cases "List.find (\<lambda>i. iv_email i = Some e \<and> iv_acceptedAt i = None) (ms_invitations st)")
  case (Some i)
  have "tables_sound (save_invitation (i\<lparr>iv_expiresAt := Some now\<rparr>) st)"
    using find_in_set [OF Some] assms
    by (intro save_invitation_sound [OF assms, of _ i]) (auto simp: tables_sound_parts offers_sound_def offered_mb_def)
  with Some assms show ?thesis by (simp add: expire_former_def split: option.split)
qed (use assms in \<open>simp add: expire_former_def\<close>)

lemma insert_invitation_sound:
  assumes "tables_sound st" "insert_invitation i st = (res, st')" "iv_id i \<notin> iv_id ` set (ms_invitations st)" "0 \<le> offered_mb i"
  shows "tables_sound st'"
  using assms by (auto simp: insert_invitation_def split: if_splits intro!: save_invitation_sound [OF assms(1,4)])

lemma mails_sound: "tables_sound st \<Longrightarrow> tables_sound (st\<lparr>ms_mails := ms\<rparr>)"
  by (rule only_aliases [of st]) (simp_all add: same_grants_def aliases_fine_def tables_sound_parts)

lemma send_invitation_sound: "tables_sound st \<Longrightarrow> send_invitation env m st = (res, st') \<Longrightarrow> tables_sound st'"
  by (auto simp: send_invitation_def mails_sound split: if_splits)

lemma same_tables_sound:
  assumes "tables_sound st" "ms_domains st' = ms_domains st" "ms_users st' = ms_users st" "ms_aliases st' = ms_aliases st"
    "ms_delegations st' = ms_delegations st" "ms_invitations st' = ms_invitations st"
  shows "tables_sound st'"
  using assms parts_cong [of st' st] users_fine_same [of st st'] by (simp add: tables_sound_parts)

lemma grantOrInvite_sound:
  assumes sound: "tables_sound st" and op: "grantOrInvite env n tk me i b url now st = (res, st')" and q: "0 \<le> cp_quotaMb b"
    and fresh: "n \<notin> dd_id ` set (ms_delegations st)" "n \<notin> iv_id ` set (ms_invitations st)"
  shows "tables_sound st'"
proof (cases "st' = st")
  case False
  let ?acc = "find_account_by_email (id_email b) (ms_accounts st)"
  obtain dm where dm: "resolveDomain i st = Inr dm" using op False by (auto simp: grantOrInvite_def split: sum.splits)
  show ?thesis
  proof (cases ?acc)
    case (Some a)
    have "st' = upsertRow n now dm (ac_id a) (Some me) b st"
      using op False dm Some by (auto simp: grantOrInvite_def Let_def split: if_splits sum.splits)
    then show ?thesis using upsert_sound [OF sound fresh(1) q] by simp
  next
    case None
    let ?st1 = "expire_former (id_email b) now st"
    let ?o = "staged_offer n now tk (Some (id_email b)) me i b None"
    obtain r1 st2 where ins: "insert_invitation ?o ?st1 = (r1, st2)" by fastforce
    have "iv_id ` set (ms_invitations ?st1) = iv_id ` set (ms_invitations st)" by (metis expire_former_ids image_set)
    with fresh(2) have "tables_sound st2"
      by (intro insert_invitation_sound [OF expire_former_sound [OF sound] ins]) (simp_all add: q)
    moreover have "ms_users st' = ms_users st2 \<and> ms_invitations st' = ms_invitations st2 \<and> ms_delegations st' = ms_delegations st2
        \<and> ms_domains st' = ms_domains st2 \<and> ms_aliases st' = ms_aliases st2"
      using op False dm None ins
      by (auto simp: grantOrInvite_def Let_def and_then_def send_invitation_def split: sum.splits if_splits prod.splits)
    ultimately show ?thesis by (elim same_tables_sound) simp_all
  qed
qed (use sound in simp)

lemma createToken_sound:
  assumes sound: "tables_sound st" and op: "createToken env n tk me i b url now st = (res, st')" and q: "0 \<le> cp_quotaMb b"
    and fresh: "n \<notin> iv_id ` set (ms_invitations st)"
  shows "tables_sound st'"
proof (cases "st' = st")
  case False
  then obtain r1 where "insert_invitation (staged_offer n now tk None me i b (dt_note b)) st = (r1, st')"
    using op by (auto simp: createToken_def and_then_def split: sum.splits prod.splits)
  then show ?thesis by (rule insert_invitation_sound [OF sound]) (simp_all add: fresh q)
qed (use sound in simp)

lemma offer_edit_sound:
  assumes sound: "tables_sound st" and v: "find_offer n i st = Some v" "iv_id w = iv_id v" "iv_token w = iv_token v" "0 \<le> offered_mb w"
  shows "tables_sound (save_invitation w st)"
  using find_offer_in [OF v(1)] v by (intro save_invitation_sound [OF sound, of _ v]) auto

lemma editInvitation_sound:
  assumes sound: "tables_sound st" and op: "editInvitation i n b now st = (res, st')" and q: "0 \<le> cp_quotaMb b"
  shows "tables_sound st'"
proof (cases "st' = st")
  case False
  then obtain v w where v: "find_offer n i st = Some v" "st' = save_invitation w st" "iv_id w = iv_id v" "iv_token w = iv_token v"
    "iv_delegationQuotaMb w = Some (cp_quotaMb b)"
    using op by (auto simp: editInvitation_def split: sum.splits option.splits if_splits)
  then show ?thesis using offer_edit_sound [OF sound v(1,3,4)] q by (simp add: offered_mb_def)
qed (use sound in simp)

lemma revokeInvitation_sound:
  assumes sound: "tables_sound st" and op: "revokeInvitation i n now st = (res, st')"
  shows "tables_sound st'"
proof (cases "st' = st")
  case False
  then obtain v where v: "find_offer n i st = Some v" "st' = save_invitation (v\<lparr>iv_expiresAt := Some now\<rparr>) st"
    using op by (auto simp: revokeInvitation_def split: option.splits if_splits)
  have "0 \<le> offered_mb v" using sound find_offer_in [OF v(1)] by (simp add: tables_sound_parts offers_sound_def)
  then have "0 \<le> offered_mb (v\<lparr>iv_expiresAt := Some now\<rparr>)" by (simp add: offered_mb_def)
  with offer_edit_sound [OF sound v(1), of "v\<lparr>iv_expiresAt := Some now\<rparr>"] v(2) show ?thesis by simp
qed (use sound in simp)

lemma setCaps_sound:
  assumes sound: "tables_sound st" and op: "setCaps i a caps now st = (res, st')" and q: "0 \<le> cp_quotaMb caps"
  shows "tables_sound st'"
proof (cases "st' = st")
  case False
  then obtain r where r: "find_delegation a i st = Some r"
    "st' = save_delegation (r\<lparr>dd_maxRecipients := cp_maxRecipients caps, dd_maxAliases := cp_maxAliases caps, dd_quotaMb := cp_quotaMb caps\<rparr>) st"
    using op by (auto simp: setCaps_def Let_def split: sum.splits option.splits)
  have "r \<in> set (ms_delegations st)" using find_delegation_in [OF r(1)] by (simp add: delegations_on_def)
  then show ?thesis using q by (simp add: r(2)) (intro save_delegation_sound [OF sound, of _ r], auto)
qed (use sound in simp)

lemma dl_revoke_sound:
  assumes sound: "tables_sound st" and op: "dl_revoke i a st = (res, st')"
  shows "tables_sound st'"
proof (cases "st' = st")
  case False
  then obtain r where r: "find_delegation a i st = Some r" using op by (auto simp: dl_revoke_def split: option.splits)
  with op have st': "st' = st\<lparr>ms_delegations := delete_where (\<lambda>x. dd_id x = dd_id r) (ms_delegations st)\<rparr>"
    by (simp add: dl_revoke_def)
  have "grants_sound st'"
    using sound by (auto simp: st' tables_sound_parts grants_sound_def one_grant_each_def delete_where_def distinct_map_filter)
  moreover have "offers_sound st'" using sound parts_cong(2) [of st' st] by (simp add: st' tables_sound_parts)
  ultimately show ?thesis by (intro only_grants [OF sound]) (simp_all add: st')
qed (use sound in simp)

section \<open>Domains\<close>

lemma save_domain_sound:
  assumes sound: "tables_sound st" and d: "d \<in> set (ms_domains st)" "vd_id d' = vd_id d" "vd_domain d' = vd_domain d"
  shows "tables_sound (save_domain d' st)"
proof -
  have "distinct (map vd_id (ms_domains st))" using sound by (simp add: tables_sound_parts domains_sound_def)
  then have names: "map vd_id (ms_domains (save_domain d' st)) = map vd_id (ms_domains st)"
    "map vd_domain (ms_domains (save_domain d' st)) = map vd_domain (ms_domains st)"
    using save_row_other_key [of vd_id "ms_domains st" d d'] d by (simp_all add: save_domain_def)
  then have "vd_domain ` set (ms_domains (save_domain d' st)) = vd_domain ` set (ms_domains st)" by (metis image_set)
  moreover have "users_fine st" using sound by (simp add: tables_sound_parts)
  moreover have "ms_users (save_domain d' st) = ms_users st" by (simp add: save_domain_def)
  ultimately have "users_fine (save_domain d' st)" using users_fine_same [of st "save_domain d' st"] by blast
  moreover have "domains_sound (save_domain d' st)" using sound names by (simp add: tables_sound_parts domains_sound_def)
  moreover have "offers_sound (save_domain d' st) = offers_sound st" by (rule parts_cong) (simp add: save_domain_def)
  moreover have "grants_sound (save_domain d' st) = grants_sound st" by (rule parts_cong) (simp add: save_domain_def)
  moreover have "aliases_fine (save_domain d' st) = aliases_fine st" by (rule parts_cong) (simp add: save_domain_def)
  ultimately show ?thesis using sound by (simp add: tables_sound_parts)
qed

lemma dom_update_effect:
  assumes "dom_update stats i b st = (res, st')"
  shows "st' = st \<or> (\<exists>d. find_domain i st = Some d \<and> st' = save_domain (changed_domain b d) st)"
proof (cases "find_domain i st")
  case (Some d)
  then have "dom_get i st = Inr (d, case vd_ownerId d of None \<Rightarrow> None
                          | Some a \<Rightarrow> map_option ac_email (find_account a (ms_accounts st)))" by (simp add: dom_get_def)
  with assms Some show ?thesis by (auto simp: dom_update_def Let_def split: sum.splits if_splits)
qed (use assms in \<open>simp add: dom_update_def dom_get_def\<close>)

lemma find_domain_in: "find_domain i st = Some d \<Longrightarrow> d \<in> set (ms_domains st) \<and> vd_id d = i"
  by (auto simp: find_domain_def dest: find_in_set)

lemma dom_update_sound:
  assumes sound: "tables_sound st" and op: "dom_update stats i b st = (res, st')"
  shows "tables_sound st'"
  using dom_update_effect [OF op] sound
  by (auto simp: changed_domain_def dest!: find_domain_in intro: save_domain_sound)

lemma transferOwner_sound:
  assumes sound: "tables_sound st" and op: "transferOwner i me a now st = (res, st')"
  shows "tables_sound st'"
proof (cases "st' = st")
  case False
  then obtain d w where d: "find_domain i st = Some d" "st' = (save_domain (d\<lparr>vd_ownerId := Some a\<rparr>) st)\<lparr>ms_audit := w\<rparr>"
    using op by (auto simp: transferOwner_def Let_def split: option.splits if_splits)
  have "tables_sound (save_domain (d\<lparr>vd_ownerId := Some a\<rparr>) st)"
    using find_domain_in [OF d(1)] by (intro save_domain_sound [OF sound, of d]) auto
  then show ?thesis by (rule same_tables_sound) (simp_all add: d(2))
qed (use sound in simp)

lemma delete_domain_sound:
  assumes sound: "tables_sound st" and d: "d \<in> set (ms_domains st)"
  shows "tables_sound (delete_domain d st)"
proof -
  let ?st = "delete_domain d st"
  have doms: "ms_domains ?st = filter (\<lambda>x. vd_id x \<noteq> vd_id d) (ms_domains st)"
    by (simp add: delete_domain_def Let_def delete_where_def)
  have "domains_sound st" using sound by (simp add: tables_sound_parts)
  then have "domains_sound ?st" by (simp add: domains_sound_def doms distinct_map_filter)
  moreover have "users_fine ?st"
  proof (rule users_fine_filter)
    show "users_fine st" using sound by (simp add: tables_sound_parts)
    show "ms_users ?st = filter (\<lambda>u. vu_domain u \<noteq> vd_domain d) (ms_users st)"
      by (simp add: delete_domain_def Let_def delete_where_def)
    show "vu_domain u \<in> vd_domain ` set (ms_domains ?st)" if u: "u \<in> set (ms_users st)" "vu_domain u \<noteq> vd_domain d" for u
    proof -
      have "vu_domain u \<in> vd_domain ` set (ms_domains st)"
        using sound u(1) by (simp add: tables_sound_parts users_fine_def users_sound_iff)
      then obtain e where e: "e \<in> set (ms_domains st)" "vd_domain e = vu_domain u" by auto
      with u(2) id_unique [OF \<open>domains_sound st\<close> e(1) d] have "vd_id e \<noteq> vd_id d" by auto
      with e(1) have "e \<in> set (ms_domains ?st)" by (simp add: doms)
      with e(2) show ?thesis by (metis image_eqI)
    qed
  qed
  moreover have "aliases_fine ?st"
    using sound by (simp add: tables_sound_parts aliases_fine_def delete_domain_def Let_def delete_where_def distinct_map_filter)
  moreover have "grants_sound ?st"
    using sound by (auto simp: tables_sound_parts grants_sound_def one_grant_each_def delete_domain_def Let_def delete_where_def distinct_map_filter)
  moreover have "offers_sound ?st"
  proof -
    let ?f = "\<lambda>i. if iv_delegationDomainId i = Some (vd_id d) then i\<lparr>iv_delegationDomainId := None\<rparr> else i"
    have inv: "ms_invitations ?st = map ?f (ms_invitations st)" by (simp add: delete_domain_def Let_def update_where_def)
    have keys: "map iv_id (map ?f xs) = map iv_id xs" "map iv_token (map ?f xs) = map iv_token xs" for xs
      by (induction xs) auto
    have off: "offered_mb (?f i) = offered_mb i" for i by (simp add: offered_mb_def)
    have "list_all (\<lambda>x. 0 \<le> offered_mb x) (map ?f xs) = list_all (\<lambda>x. 0 \<le> offered_mb x) xs" for xs
      by (induction xs) (simp_all only: list.pred_inject list.map off)
    then have "(\<forall>x \<in> set (map ?f xs). 0 \<le> offered_mb x) = (\<forall>x \<in> set xs. 0 \<le> offered_mb x)" for xs
      by (simp only: list_all_iff)
    moreover have "offers_sound st" using sound by (simp add: tables_sound_parts)
    ultimately show ?thesis unfolding offers_sound_def inv keys by blast
  qed
  ultimately show ?thesis by (simp add: tables_sound_parts)
qed

lemma dom_remove_effect:
  assumes "dom_remove env i st = (res, st')"
  shows "st' = st \<or> (\<exists>d es. find_domain i st = Some d \<and> st' = (delete_domain d st)\<lparr>ms_erased := es\<rparr>)"
proof (cases "find_domain i st")
  case (Some d)
  obtain b st3 where t: "removeDomainTree env (vd_domain d) (delete_domain d st) = (b, st3)" by fastforce
  then obtain es where "st3 = (delete_domain d st)\<lparr>ms_erased := es\<rparr>"
    using removeTree_tables unfolding removeDomainTree_def by blast
  with assms t Some show ?thesis by (auto simp: dom_remove_def dom_get_def)
qed (use assms in \<open>simp add: dom_remove_def dom_get_def\<close>)

lemma dom_remove_sound:
  assumes sound: "tables_sound st" and op: "dom_remove env i st = (res, st')"
  shows "tables_sound st'"
proof (cases "st' = st")
  case False
  then obtain d es where d: "find_domain i st = Some d" "st' = (delete_domain d st)\<lparr>ms_erased := es\<rparr>"
    using dom_remove_effect [OF op] by blast
  have "tables_sound (delete_domain d st)" using find_domain_in [OF d(1)] by (intro delete_domain_sound [OF sound]) simp
  then show ?thesis by (rule same_tables_sound) (simp_all add: d(2))
qed (use sound in simp)

section \<open>A new domain\<close>

lemma insert_domain_Inr:
  assumes "insert_domain q now d st = (Inr s, st')"
  shows "s = d \<and> ms_domains st' = ms_domains st @ [d] \<and> vd_domain d \<notin> vd_domain ` set (ms_domains st)
    \<and> ms_users st' = ms_users st \<and> ms_aliases st' = ms_aliases st \<and> ms_delegations st' = ms_delegations st
    \<and> ms_invitations st' = ms_invitations st \<and> ms_accounts st' = ms_accounts st \<and> ms_quotaUsers st' = ms_quotaUsers st"
  using assms by (auto simp: insert_domain_def split: if_splits)

text \<open>The two reserved mailboxes: an existing one is kept under its address, a missing one is inserted with no quota.\<close>

definition reserve_effect :: "int \<Rightarrow> string \<Rightarrow> string \<Rightarrow> mail_state \<Rightarrow> mail_state \<Rightarrow> bool" where
  "reserve_effect i email domain st st' =
     (same_grants st st' \<and> ms_aliases st' = ms_aliases st
      \<and> (ms_users st' = ms_users st
         \<or> (\<exists>u u'. u \<in> set (ms_users st) \<and> vu_email u = email \<and> ms_users st' = ms_users (save_user u' st) \<and> vu_id u' = vu_id u
              \<and> vu_email u' = vu_email u \<and> vu_domain u' = vu_domain u \<and> vu_ownerId u' = vu_ownerId u
              \<and> (vu_quota u' = vu_quota u \<or> vu_quota u' = 0))
         \<or> (\<exists>u. ms_users st' = ms_users st @ [u] \<and> vu_id u = i \<and> vu_email u = email \<and> vu_domain u = domain \<and> vu_quota u = 0
              \<and> vu_ownerId u = None \<and> email \<notin> vu_email ` set (ms_users st) \<and> domain \<in> vd_domain ` set (ms_domains st))))"

lemma reservePostmaster_effect:
  assumes "reservePostmaster env ids drawn domain now st = (Inr x, st')"
  shows "reserve_effect (ui_row ids) (''postmaster@'' @ domain) domain st st'"
proof (cases "List.find (\<lambda>u. vu_email u = ''postmaster@'' @ domain) (ms_users st)")
  case None
  then obtain s where "insert_user (ui_counter ids) now
      (reserved_user (ui_row ids) domain (''postmaster@'' @ domain) (sha512crypt env drawn) (domain @ ''/postmaster/'') (iso_date now) 0 now) st = (Inr s, st')"
    using assms by (auto simp: reservePostmaster_def Let_def and_then_Inr)
  from insert_user_Inr [OF this] show ?thesis
    unfolding reserve_effect_def by (intro conjI disjI2) (auto simp: reserved_user_def)
next
  case (Some u)
  then show ?thesis using find_in_set [OF Some] assms
    unfolding reserve_effect_def
    by (cases "vu_active u = 0") (force simp: reservePostmaster_def Let_def same_grants_def save_user_def)+
qed

lemma ensureDmarc_effect:
  assumes "ensureDmarcReportsMailbox env hmac ids drawn domain now st = (Inr x, st')"
  shows "reserve_effect (ui_row ids) (dmarcReportsAddress domain) domain st st'"
proof (cases "List.find (\<lambda>u. vu_email u = dmarcReportsAddress domain) (ms_users st)")
  case None
  then obtain s where "insert_user (ui_counter ids) now
      (reserved_user (ui_row ids) domain (dmarcReportsAddress domain)
         (sha512crypt env (case dmarcReportsPassword hmac (dmarcReportsAddress domain) of None \<Rightarrow> drawn | Some p \<Rightarrow> p))
         (domain @ ''/'' @ DMARC_REPORTS_LOCAL_PART @ ''/'') (iso_date now) 1 now) st = (Inr s, st')"
    using assms by (auto simp: ensureDmarcReportsMailbox_def Let_def and_then_Inr)
  from insert_user_Inr [OF this] show ?thesis
    unfolding reserve_effect_def by (intro conjI disjI2) (auto simp: reserved_user_def)
next
  case (Some u)
  have "st' = st \<or> (\<exists>h. st' = save_user (u\<lparr>vu_active := 1, vu_quota := 0, vu_password := h\<rparr>) st)"
    using Some assms by (auto simp: ensureDmarcReportsMailbox_def Let_def split: if_splits)
  then show ?thesis
  proof (elim disjE exE)
    fix h assume "st' = save_user (u\<lparr>vu_active := 1, vu_quota := 0, vu_password := h\<rparr>) st"
    then show ?thesis using find_in_set [OF Some] unfolding reserve_effect_def
      by (intro conjI disjI2 disjI1 exI [of _ u] exI [of _ "u\<lparr>vu_active := 1, vu_quota := 0, vu_password := h\<rparr>"])
        (simp_all add: same_grants_def save_user_def)
  qed (simp add: reserve_effect_def same_grants_def)
qed

lemma reserve_effect_sound:
  assumes sound: "tables_sound st" and eff: "reserve_effect i (l @ ''@'' @ domain) domain st st'"
    and l: "CHR ''@'' \<notin> set l" and fresh: "i \<notin> vu_id ` set (ms_users st)"
  shows "tables_sound st'"
proof -
  have same: "same_grants st st'" "ms_aliases st' = ms_aliases st" using eff by (simp_all add: reserve_effect_def)
  consider "ms_users st' = ms_users st"
    | u u' where "u \<in> set (ms_users st)" "ms_users st' = ms_users (save_user u' st)" "vu_id u' = vu_id u"
      "vu_email u' = vu_email u" "vu_domain u' = vu_domain u" "vu_quota u' = vu_quota u \<or> vu_quota u' = 0"
    | u where "ms_users st' = ms_users st @ [u]" "vu_id u = i" "vu_email u = l @ ''@'' @ domain" "vu_domain u = domain"
      "vu_quota u = 0" "l @ ''@'' @ domain \<notin> vu_email ` set (ms_users st)" "domain \<in> vd_domain ` set (ms_domains st)"
    using eff unfolding reserve_effect_def by blast
  then show ?thesis
  proof cases
    case 1
    with same show ?thesis by (intro same_tables_sound [OF sound]) (simp_all add: same_grants_def)
  next
    case 2
    with sound_quota [OF sound, of u] show ?thesis by (intro save_user_sound [OF sound, of u u'] same) auto
  next
    case 3
    have "users_fine st'"
      using sound 3 l fresh same by (intro users_fine_append [of st st' u]) (auto simp: tables_sound_parts same_grants_def address_ok_def)
    with only_users [OF sound same] show ?thesis by simp
  qed
qed

lemma dom_create_effect:
  assumes "dom_create env hmac dkim stats dw b a now st = (res, st')"
  shows "st' = st \<or> (\<exists>d st1 st2. ms_domains st1 = ms_domains st @ [d] \<and> vd_domain d \<notin> vd_domain ` set (ms_domains st)
    \<and> ms_users st1 = ms_users st \<and> ms_aliases st1 = ms_aliases st \<and> ms_delegations st1 = ms_delegations st
    \<and> ms_invitations st1 = ms_invitations st \<and> vd_id d = dw_domainId dw \<and> vd_domain d = nd_domain b \<and> vd_quota d = nd_quota b
    \<and> insert_domain (dw_domainCounter dw) now d st = (Inr d, st1)
    \<and> reservePostmaster env (dw_postmaster dw) (dw_password dw) (vd_domain d) now st1 = (Inr (), st2)
    \<and> (\<exists>o'. ensureDmarcReportsMailbox env hmac (dw_dmarc dw) (dw_password dw) (vd_domain d) now st2 = (Inr o', st')))"
proof (cases "st' = st")
  case False
  let ?d = "\<lparr>vd_id = dw_domainId dw, vd_ownerId = Some a, vd_domain = nd_domain b, vd_quota = nd_quota b,
     vd_active = (if nd_active b = Some True then 1 else 0), vd_isProtected = 0, vd_userStartDate = start_date now (nd_userStartDate b),
     vd_userEndDate = (case nd_userEndDate b of None \<Rightarrow> None | Some e \<Rightarrow> e), vd_lastActivity = now, vd_createdAt = now\<rparr>"
  let ?run = "and_then (insert_domain (dw_domainCounter dw) now ?d st)
     (\<lambda>d st1. and_then (reservePostmaster env (dw_postmaster dw) (dw_password dw) (vd_domain d) now st1)
     (\<lambda>_ st2. and_then (ensureDmarcReportsMailbox env hmac (dw_dmarc dw) (dw_password dw) (vd_domain d) now st2)
     (\<lambda>_ st3. (Inr d, st3))))"
  have st': "st' = snd (transaction st ?run)"
    using assms False by (auto simp: dom_create_def Let_def and_then_def split: if_splits sum.splits prod.splits)
  with False obtain d where "?run = (Inr d, st')" by (auto simp: transaction_def split: prod.splits sum.splits)
  then obtain st1 st2 o' where ins: "insert_domain (dw_domainCounter dw) now ?d st = (Inr d, st1)"
    and rest: "reservePostmaster env (dw_postmaster dw) (dw_password dw) (vd_domain d) now st1 = (Inr (), st2)"
      "ensureDmarcReportsMailbox env hmac (dw_dmarc dw) (dw_password dw) (vd_domain d) now st2 = (Inr o', st')"
    by (auto simp: and_then_Inr)
  with insert_domain_Inr [OF ins] have "d = ?d" by simp
  with insert_domain_Inr [OF ins] ins rest show ?thesis
    by (intro disjI2 exI [of _ ?d] exI [of _ st1] exI [of _ st2]) auto
qed simp

lemma dom_create_sound:
  assumes sound: "tables_sound st" and op: "dom_create env hmac dkim stats dw b a now st = (res, st')"
    and name: "toLowerCase (nd_domain b) = nd_domain b"
    and fresh: "dw_domainId dw \<notin> vd_id ` set (ms_domains st)" "ui_row (dw_postmaster dw) \<notin> vu_id ` set (ms_users st)"
      "ui_row (dw_dmarc dw) \<notin> insert (ui_row (dw_postmaster dw)) (vu_id ` set (ms_users st))"
  shows "tables_sound st'"
proof (cases "st' = st")
  case False
  then obtain d st1 st2 o' where st1: "ms_domains st1 = ms_domains st @ [d]" "vd_domain d \<notin> vd_domain ` set (ms_domains st)"
      "ms_users st1 = ms_users st" "ms_aliases st1 = ms_aliases st" "ms_delegations st1 = ms_delegations st"
      "ms_invitations st1 = ms_invitations st" "vd_id d = dw_domainId dw" "vd_domain d = nd_domain b"
    and pm: "reservePostmaster env (dw_postmaster dw) (dw_password dw) (vd_domain d) now st1 = (Inr (), st2)"
    and dm: "ensureDmarcReportsMailbox env hmac (dw_dmarc dw) (dw_password dw) (vd_domain d) now st2 = (Inr o', st')"
    using dom_create_effect [OF op] by blast
  have "domains_sound st1" using sound st1 fresh(1) by (auto simp: tables_sound_parts domains_sound_def)
  moreover have "users_fine st1" using sound st1 by (intro users_fine_same [of st st1]) (auto simp: tables_sound_parts)
  ultimately have s1: "tables_sound st1" using sound st1 parts_cong(2-4) [of st1 st] by (simp add: tables_sound_parts)
  note e1 = reservePostmaster_effect [OF pm] and e2 = ensureDmarc_effect [OF dm]
  have s2: "tables_sound st2"
    by (rule reserve_effect_sound [OF s1, of _ "''postmaster''" "vd_domain d"]) (use e1 fresh(2) st1(3) in simp_all)
  have "vu_id ` set (ms_users st2) \<subseteq> insert (ui_row (dw_postmaster dw)) (vu_id ` set (ms_users st1))"
    using e1 by (auto simp: reserve_effect_def save_user_def set_save_row)
  with fresh(3) st1(3) have "ui_row (dw_dmarc dw) \<notin> vu_id ` set (ms_users st2)" by auto
  moreover have "dmarcReportsAddress (vd_domain d) = ''dmarc_reports'' @ ''@'' @ vd_domain d"
    using name st1(8) by (simp add: dmarcReportsAddress_def DMARC_REPORTS_LOCAL_PART_def)
  ultimately show ?thesis using e2
    by (intro reserve_effect_sound [OF s2, of _ "''dmarc_reports''" "vd_domain d"]) simp_all
qed (use sound in simp)

section \<open>The personal space and the protection\<close>

lemma my_delete_run:
  "my_deleteRecipient env ctx a i st = (res, st') \<Longrightarrow>
   st' = st \<or> (\<exists>u. ownedRecipient a i st = Inr u \<and> rcp_remove env ctx i (vu_domain u) st = (res, st'))"
  by (auto simp: my_deleteRecipient_def dest: ownedRecipient_in split: sum.splits)

lemma ownedAlias_in:
  "ownedAlias a i st = Inr x \<Longrightarrow> x \<in> set (ms_aliases st) \<and> va_id x = i \<and> va_ownerId x = Some a"
  by (auto simp: ownedAlias_def split: option.splits dest: find_in_set)

lemma my_alias_update_run:
  assumes "my_updateAlias ctx a i b st = (res, st')"
  shows "st' = st \<or> (\<exists>x r. ownedAlias a i st = Inr x
    \<and> als_update ctx i (b\<lparr>pa_localPart := None\<rparr>) (va_domain x) st = (r, st'))"
proof (cases "ownedAlias a i st")
  case (Inr x)
  with assms ownedAlias_in [OF Inr] show ?thesis by (auto simp: my_updateAlias_def and_then_def split: sum.splits prod.splits)
qed (use assms in \<open>simp add: my_updateAlias_def\<close>)

lemma my_alias_delete_run:
  "my_deleteAlias ctx a i st = (res, st') \<Longrightarrow>
   st' = st \<or> (\<exists>x. ownedAlias a i st = Inr x \<and> als_remove ctx i (va_domain x) st = (res, st'))"
  by (auto simp: my_deleteAlias_def dest: ownedAlias_in split: sum.splits)

lemma my_alias_create_run:
  assumes "my_createAlias ctx n a i b now st = (res, st')"
  shows "st' = st \<or> (\<exists>d r. als_create ctx n b d (Some a) now st = (r, st'))"
  using assms by (auto simp: my_createAlias_def and_then_def split: sum.splits prod.splits)

lemma flags_sound:
  assumes sound: "tables_sound st"
  shows "tables_sound (st\<lparr>ms_accounts := as\<rparr>)"
    "tables_sound (st\<lparr>ms_users := update_where (\<lambda>r. vu_id r = n) (\<lambda>r. r\<lparr>vu_isProtected := v\<rparr>) (ms_users st)\<rparr>)"
    "tables_sound (st\<lparr>ms_aliases := update_where (\<lambda>r. va_id r = n) (\<lambda>r. r\<lparr>va_isProtected := v\<rparr>) (ms_aliases st)\<rparr>)"
    "tables_sound (st\<lparr>ms_domains := update_where (\<lambda>r. vd_id r = n) (\<lambda>r. r\<lparr>vd_isProtected := v\<rparr>) (ms_domains st)\<rparr>)"
proof -
  show "tables_sound (st\<lparr>ms_accounts := as\<rparr>)" by (rule same_tables_sound [OF sound]) simp_all
  let ?u = "st\<lparr>ms_users := update_where (\<lambda>r. vu_id r = n) (\<lambda>r. r\<lparr>vu_isProtected := v\<rparr>) (ms_users st)\<rparr>"
  have maps: "map vu_id (update_where (\<lambda>r. vu_id r = n) (\<lambda>r. r\<lparr>vu_isProtected := v\<rparr>) us) = map vu_id us"
    "map vu_email (update_where (\<lambda>r. vu_id r = n) (\<lambda>r. r\<lparr>vu_isProtected := v\<rparr>) us) = map vu_email us" for us :: "virtual_user list"
    by (induction us) (simp_all add: update_where_def)
  have "users_fine ?u"
    using sound unfolding tables_sound_parts users_fine_def users_sound_iff
    by (auto simp: maps) (auto simp: update_where_def address_ok_def)
  then show "tables_sound ?u" by (intro only_users [OF sound]) (simp_all add: same_grants_def)
  let ?a = "st\<lparr>ms_aliases := update_where (\<lambda>r. va_id r = n) (\<lambda>r. r\<lparr>va_isProtected := v\<rparr>) (ms_aliases st)\<rparr>"
  have "map va_id (update_where (\<lambda>r. va_id r = n) (\<lambda>r. r\<lparr>va_isProtected := v\<rparr>) us) = map va_id us"
    "map va_source (update_where (\<lambda>r. va_id r = n) (\<lambda>r. r\<lparr>va_isProtected := v\<rparr>) us) = map va_source us" for us :: "virtual_alias list"
    by (induction us) (simp_all add: update_where_def)
  then have "aliases_fine ?a" using sound by (simp add: tables_sound_parts aliases_fine_def)
  then show "tables_sound ?a" by (intro only_aliases [OF sound]) (simp_all add: same_grants_def)
  let ?d = "st\<lparr>ms_domains := update_where (\<lambda>r. vd_id r = n) (\<lambda>r. r\<lparr>vd_isProtected := v\<rparr>) (ms_domains st)\<rparr>"
  have names: "map vd_id (ms_domains ?d) = map vd_id (ms_domains st)" "map vd_domain (ms_domains ?d) = map vd_domain (ms_domains st)"
    by (simp_all add: update_where_def)
  then have "vd_domain ` set (ms_domains ?d) = vd_domain ` set (ms_domains st)" by (metis image_set)
  moreover have "users_fine st" using sound by (simp add: tables_sound_parts)
  moreover have "ms_users ?d = ms_users st" by simp
  ultimately have "users_fine ?d" using users_fine_same [of st ?d] by blast
  moreover have "domains_sound ?d" using sound names by (simp add: tables_sound_parts domains_sound_def)
  moreover have "offers_sound ?d = offers_sound st" by (rule parts_cong) simp
  moreover have "grants_sound ?d = grants_sound st" by (rule parts_cong) simp
  moreover have "aliases_fine ?d = aliases_fine st" by (rule parts_cong) simp
  ultimately show "tables_sound ?d" using sound by (simp add: tables_sound_parts)
qed

lemma setProtected_effect:
  assumes "setProtected type i v st = (Inr l, st')"
  shows "\<exists>n f as. st' = st\<lparr>ms_accounts := as\<rparr>
    \<or> st' = st\<lparr>ms_users := update_where (\<lambda>r. vu_id r = n) (\<lambda>r. r\<lparr>vu_isProtected := f\<rparr>) (ms_users st)\<rparr>
    \<or> st' = st\<lparr>ms_aliases := update_where (\<lambda>r. va_id r = n) (\<lambda>r. r\<lparr>va_isProtected := f\<rparr>) (ms_aliases st)\<rparr>
    \<or> st' = st\<lparr>ms_domains := update_where (\<lambda>r. vd_id r = n) (\<lambda>r. r\<lparr>vd_isProtected := f\<rparr>) (ms_domains st)\<rparr>"
  using assms by (auto simp: setProtected_def Let_def split: option.splits if_splits)

lemma setProtected_Inl: "setProtected type i v st = (Inl e, st') \<Longrightarrow> st' = st"
  by (auto simp: setProtected_def Let_def split: option.splits prod.splits)

lemma protect_run:
  assumes "protect ctx t i root st = (res, st') \<or> unprotect ctx t i st = (res, st')"
  shows "st' = st \<or> (\<exists>type v l st1 j. setProtected type i v st = (Inr l, st1) \<and> st' = st1\<lparr>ms_journal := j\<rparr>)"
proof (cases "resourceOf t i")
  case (Inr type)
  have step: "st' = st \<or> (\<exists>type v l st1 j. setProtected type i v st = (Inr l, st1) \<and> st' = st1\<lparr>ms_journal := j\<rparr>)"
    if "st' = snd (and_then (setProtected type i v st) (\<lambda>_ st1. (Inr (), st1\<lparr>ms_journal := f st1\<rparr>)))" for v f
  proof (cases "setProtected type i v st")
    case (Pair r st1)
    show ?thesis
    proof (cases r)
      case (Inl e)
      with that Pair setProtected_Inl [of type i v st e st1] show ?thesis by simp
    next
      case (Inr l)
      with that Pair have "setProtected type i v st = (Inr l, st1) \<and> st' = st1\<lparr>ms_journal := f st1\<rparr>" by simp
      then show ?thesis by blast
    qed
  qed
  define run where "run v line = and_then (setProtected type i v st)
     (\<lambda>_ st1. (Inr (), st1\<lparr>ms_journal := record_activity ctx (protection_line line t i) (ms_journal st1)\<rparr>))" for v line
  have "(\<exists>v line. (res, st') = run v line) \<or> st' = st"
    using assms Inr unfolding protect_def unprotect_def run_def by (simp del: and_then_simps split: if_splits) metis+
  then consider v line where "st' = snd (run v line)" | "st' = st" by (metis snd_conv)
  then show ?thesis
  proof cases
    case (1 v line)
    then show ?thesis unfolding run_def by (rule step)
  qed simp
qed (use assms in \<open>auto simp: protect_def unprotect_def\<close>)

lemma protect_sound:
  assumes sound: "tables_sound st" and op: "protect ctx t i root st = (res, st') \<or> unprotect ctx t i st = (res, st')"
  shows "tables_sound st'"
proof (cases "st' = st")
  case False
  obtain type v l st1 j where st1: "setProtected type i v st = (Inr l, st1)" "st' = st1\<lparr>ms_journal := j\<rparr>"
    using protect_run [OF op] False by blast
  have "tables_sound st1" using setProtected_effect [OF st1(1)] flags_sound [OF sound] by auto
  then show ?thesis by (rule same_tables_sound) (simp_all add: st1(2))
qed (use sound in simp)

end
