(* ===== verification/RequestBooks.thy ===== *)
theory RequestBooks imports MailInvariant begin

text \<open>
  What holds of every request of \<open>MailRoutes\<close>, and of every sequence of them: the tables stay well-formed,
  a domain is committed no further than its quota or than it already was, a protected row stays as it is,
  and the occupancy dovecot's triggers keep agrees with the mailboxes.
\<close>

section \<open>Handlers\<close>

lemma done_with_state: "done_with r = (res, st') \<Longrightarrow> \<exists>x. r = (x, st')"
  by (cases r) (auto simp: done_with_def)

lemma unprotected_then_run:
  assumes "unprotected_then type i f st = (res, st')"
  shows "st' = st \<or> (\<not> isProtected type (numbered i) st \<and> (\<exists>x. f st = (x, st')))"
  using assms by (auto simp: unprotected_then_def assertUnprotected_def dest: done_with_state split: if_splits)

lemma on_domain_run:
  assumes "on_domain d protected f st = (res, st')"
  shows "st' = st \<or> (\<exists>dm x. dm \<in> set (ms_domains st) \<and> vd_id dm = d \<and> f (vd_domain dm) st = (x, st')
    \<and> (case protected of None \<Rightarrow> True | Some (type, i) \<Rightarrow> \<not> isProtected type (numbered i) st))"
proof (cases "rcp_resolveDomain d st")
  case (Inr n)
  with rcp_resolveDomain_Inr [OF Inr] assms show ?thesis
    by (auto simp: on_domain_def assertUnprotected_def dest!: done_with_state split: option.splits prod.splits sum.splits if_splits)
qed (use assms in \<open>simp add: on_domain_def\<close>)

lemma valid_local_part_no_at: "valid_local_part l = Some l \<Longrightarrow> CHR ''@'' \<notin> set l"
  by (auto simp: valid_local_part_def list_all_iff local_part_char_def is_digit_def is_upper_def Let_def split: if_splits)

lemma valid_fqdn_lower: "valid_fqdn s = Some s \<Longrightarrow> toLowerCase s = s"
  by (auto simp: valid_fqdn_def Let_def split: if_splits)

lemma recipient_quota_pos: "recipient_quota_ok q \<Longrightarrow> 0 \<le> q"
  by (simp add: recipient_quota_ok_def MIN_RECIPIENT_QUOTA_BYTES_def)

lemma caps_quota_pos: "caps_ok c \<Longrightarrow> 0 \<le> cp_quotaMb c"
  by (simp add: caps_ok_def)

lemma handle_sound:
  assumes sound: "tables_sound st" and fresh: "drawn_fresh env st" and body: "body_ok r"
    and op: "handle env u d now r st = (res, st')"
  shows "tables_sound st'"
proof (cases r)
  case (CreateDomain b)
  with op obtain x where "dom_create (re_mail env) (re_hmac env) (re_dkim env) (re_stats env) (re_draws env) b (gu_id u) now st = (x, st')"
    by (auto dest: done_with_state)
  then show ?thesis using body fresh CreateDomain
    by (intro dom_create_sound [OF sound]) (auto simp: drawn_fresh_def valid_fqdn_lower)
next
  case (CreateRecipient b)
  with op body fresh show ?thesis
    by (auto dest!: on_domain_run intro: rcp_create_sound [OF sound]
        simp: sound drawn_fresh_def valid_local_part_no_at recipient_quota_pos)
next
  case (UpdateRecipient i b)
  with op body show ?thesis
    by (auto dest!: on_domain_run intro: rcp_update_sound [OF sound] simp: sound recipient_quota_pos)
next
  case (MyCreateRecipient b)
  with op obtain x where "my_createRecipient (re_mail env) (re_ctx env) (re_ids env) (gu_id u) d b now st = (x, st')"
    by (auto dest: done_with_state)
  from my_create_run [OF this] body fresh MyCreateRecipient show ?thesis
    by (auto intro: rcp_create_sound [OF sound] simp: sound drawn_fresh_def valid_local_part_no_at recipient_quota_pos)
next
  case (MyUpdateRecipient i b)
  with op body show ?thesis
    by (auto dest!: unprotected_then_run my_update_run intro: rcp_update_sound [OF sound] simp: sound recipient_quota_pos)
next
  case (InviteDelegate b)
  with op body fresh show ?thesis
    by (auto dest!: done_with_state intro: grantOrInvite_sound [OF sound] simp: drawn_fresh_def caps_quota_pos)
next
  case (OpenLink b)
  with op body fresh show ?thesis
    by (auto dest!: done_with_state intro: createToken_sound [OF sound] simp: drawn_fresh_def caps_quota_pos)
next
  case (MyCreateAlias b)
  with op fresh show ?thesis
    by (auto dest!: done_with_state my_alias_create_run intro: als_create_sound [OF sound] simp: sound drawn_fresh_def)
next
  case DeleteDomain
  with op sound show ?thesis by (auto intro: dom_remove_sound [OF sound] split: sum.splits)
qed (use op body fresh in
  \<open>auto dest!: on_domain_run unprotected_then_run done_with_state my_delete_run my_alias_update_run my_alias_delete_run
     intro: dom_update_sound [OF sound] transferOwner_sound [OF sound] rcp_remove_sound [OF sound] rcp_owner_sound [OF sound]
       als_create_sound [OF sound] als_update_sound [OF sound] als_remove_sound [OF sound] als_owner_sound [OF sound]
       editInvitation_sound [OF sound] revokeInvitation_sound [OF sound] setCaps_sound [OF sound] dl_revoke_sound [OF sound]
       protect_sound [OF sound]
     simp: sound drawn_fresh_def caps_quota_pos\<close>)

lemma serve_run:
  assumes "serve env u d now r st = (res, st')"
  shows "st' = st \<or> (body_ok r \<and> (needs_root r \<longrightarrow> gu_isRoot u) \<and> handle env u d now r st = (res, st'))"
  using assms by (auto simp: serve_def root_guard_def split: sum.splits if_splits)

lemma serve_sound:
  "tables_sound st \<Longrightarrow> drawn_fresh env st \<Longrightarrow> serve env u d now r st = (res, st') \<Longrightarrow> tables_sound st'"
  using serve_run [of env u d now r st res st'] handle_sound [of st env r u d now res st'] by blast

section \<open>The books of a domain\<close>

lemma committed_same_domain:
  "vd_id e' = vd_id e \<Longrightarrow> vd_domain e' = vd_domain e \<Longrightarrow> committed now e' st = committed now e st"
  by (simp add: committed_def reserve_sum_def)

text \<open>A request keeps the names of the domains it leaves, and what it changes of them.\<close>

definition domains_follow :: "mail_state \<Rightarrow> mail_state \<Rightarrow> bool" where
  "domains_follow st st' = (\<forall>e \<in> set (ms_domains st). \<forall>e' \<in> set (ms_domains st'). vd_id e' = vd_id e \<longrightarrow> vd_domain e' = vd_domain e)"

lemma domains_follow_same: "domains_sound st \<Longrightarrow> set (ms_domains st') \<subseteq> set (ms_domains st) \<Longrightarrow> domains_follow st st'"
  unfolding domains_follow_def using id_unique by blast

lemma domains_follow_save:
  assumes "domains_sound st" "d \<in> set (ms_domains st)" "vd_id d' = vd_id d" "vd_domain d' = vd_domain d"
    "ms_domains st' = ms_domains (save_domain d' st)"
  shows "domains_follow st st'"
  unfolding domains_follow_def
proof (intro ballI impI)
  fix e e' assume e: "e \<in> set (ms_domains st)" "e' \<in> set (ms_domains st')" "vd_id e' = vd_id e"
  from e(2) consider "e' = d'" | "e' \<in> set (ms_domains st)" by (auto simp: assms(5) save_domain_def set_save_row)
  then show "vd_domain e' = vd_domain e"
  proof cases
    case 1
    with e(3) assms(3) have "vd_id e = vd_id d" by simp
    with id_unique [OF assms(1) e(1) assms(2)] have "e = d" by blast
    with 1 assms(4) show ?thesis by simp
  next
    case 2
    with id_unique [OF assms(1) _ e(1), of e'] e(3) show ?thesis by simp
  qed
qed

text \<open>What a request that leaves the grants alone does to the books of a domain, through its mailboxes.\<close>

lemma committed_bounded_same: "committed now e st' = committed now e st \<Longrightarrow> committed now e st' \<le> max (committed now e st) q"
  by simp

lemma committed_same_tables:
  "same_grants st st' \<Longrightarrow> ms_users st' = ms_users st \<Longrightarrow> committed now e st' = committed now e st"
  by (intro committed_cong) (simp_all add: same_grants_def)

lemma reserve_effect_books:
  assumes sound: "tables_sound st" and eff: "reserve_effect i email domain st st'"
  shows "committed now e st' \<le> committed now e st"
proof -
  have uniq: "one_grant_each st" using sound by (simp add: tables_sound_parts grants_sound_def)
  have ids: "distinct (map vu_id (ms_users st))" using sound by (simp add: tables_sound_parts users_fine_def users_sound_iff)
  have same: "ms_delegations st' = ms_delegations st" "ms_invitations st' = ms_invitations st"
    using eff by (simp_all add: reserve_effect_def same_grants_def)
  consider "ms_users st' = ms_users st"
    | u u' where "u \<in> set (ms_users st)" "ms_users st' = ms_users (save_user u' st)" "vu_id u' = vu_id u"
      "vu_domain u' = vu_domain u" "vu_ownerId u' = vu_ownerId u" "vu_quota u' = vu_quota u \<or> vu_quota u' = 0"
    | u where "ms_users st' = ms_users st @ [u]" "vu_quota u = 0"
    using eff unfolding reserve_effect_def by blast
  then show ?thesis
  proof cases
    case 1
    then show ?thesis using committed_cong [of st' st] same by simp
  next
    case 2
    have "boxes_move e (vu_ownerId u) (if vu_domain u = vd_domain e then vu_quota u' - vu_quota u else 0) st st'"
      using 2 same by (intro boxes_replace [OF ids]) (simp_all add: save_user_def)
    then show ?thesis using 2(6) sound_quota [OF sound 2(1)] by (intro boxes_down [OF uniq]) auto
  next
    case 3
    from boxes_insert [OF 3(1) same, of e] have "boxes_move e (vu_ownerId u) 0 st st'" using 3(2) by (simp split: if_splits)
    then show ?thesis by (intro boxes_down [OF uniq]) auto
  qed
qed

lemma dom_create_books:
  assumes sound: "tables_sound st" and op: "dom_create env hmac dkim stats dw b a now st = (res, st')"
    and name: "toLowerCase (nd_domain b) = nd_domain b"
    and fresh: "dw_domainId dw \<notin> vd_id ` set (ms_domains st)" "ui_row (dw_postmaster dw) \<notin> vu_id ` set (ms_users st)"
  shows "committed now e st' \<le> committed now e st"
    and "st' = st \<or> (\<exists>d. ms_domains st' = ms_domains st @ [d] \<and> vd_id d = dw_domainId dw)"
proof -
  have "committed now e st' \<le> committed now e st
    \<and> (st' = st \<or> (\<exists>d. ms_domains st' = ms_domains st @ [d] \<and> vd_id d = dw_domainId dw))"
  proof (cases "st' = st")
    case False
    then obtain d st1 st2 o' where st1: "ms_domains st1 = ms_domains st @ [d]" "vd_domain d \<notin> vd_domain ` set (ms_domains st)"
        "ms_users st1 = ms_users st" "ms_aliases st1 = ms_aliases st" "ms_delegations st1 = ms_delegations st"
        "ms_invitations st1 = ms_invitations st" "vd_id d = dw_domainId dw" "vd_domain d = nd_domain b"
      and pm: "reservePostmaster env (dw_postmaster dw) (dw_password dw) (vd_domain d) now st1 = (Inr (), st2)"
      and dm: "ensureDmarcReportsMailbox env hmac (dw_dmarc dw) (dw_password dw) (vd_domain d) now st2 = (Inr o', st')"
      using dom_create_effect [OF op] by blast
    have "domains_sound st1" using sound st1 fresh(1) by (auto simp: tables_sound_parts domains_sound_def)
    moreover have "users_fine st1" using sound st1 by (intro users_fine_same [of st st1]) (auto simp: tables_sound_parts)
    ultimately have s1: "tables_sound st1" using sound st1 parts_cong(2-4) [of st1 st] by (simp add: tables_sound_parts)
    note e1 = reservePostmaster_effect [OF pm] and e2 = ensureDmarc_effect [OF dm]
    have s2: "tables_sound st2"
      by (rule reserve_effect_sound [OF s1, of _ "''postmaster''" "vd_domain d"]) (use e1 fresh(2) st1(3) in simp_all)
    have "committed now e st' \<le> committed now e st2" by (rule reserve_effect_books [OF s2 e2])
    also have "\<dots> \<le> committed now e st1" by (rule reserve_effect_books [OF s1 e1])
    also have "\<dots> = committed now e st" by (rule committed_cong) (simp_all add: st1)
    finally have "committed now e st' \<le> committed now e st" .
    moreover have "ms_domains st' = ms_domains st @ [d]"
      using e1 e2 st1(1) by (simp add: reserve_effect_def same_grants_def)
    ultimately show ?thesis using st1(7) by blast
  qed simp
  then show "committed now e st' \<le> committed now e st"
    "st' = st \<or> (\<exists>d. ms_domains st' = ms_domains st @ [d] \<and> vd_id d = dw_domainId dw)" by blast+
qed

lemma delete_domain_books:
  assumes sound: "domains_sound st" and d: "d \<in> set (ms_domains st)" and e: "e \<in> set (ms_domains (delete_domain d st))"
  shows "committed now e (delete_domain d st) = committed now e st"
proof -
  let ?st = "delete_domain d st"
  have e': "e \<in> set (ms_domains st)" "vd_id e \<noteq> vd_id d" using e by (auto simp: delete_domain_def Let_def delete_where_def)
  have name: "vd_domain e \<noteq> vd_domain d" using name_unique [OF sound e'(1) d] e'(2) by auto
  have users: "sumQuota (vd_domain e) x ?st = sumQuota (vd_domain e) x st" for x
  proof -
    have us: "ms_users ?st = delete_where (\<lambda>u. vu_domain u = vd_domain d) (ms_users st)"
      by (simp add: delete_domain_def Let_def)
    show ?thesis unfolding sumQuota_def us using name by (intro sum_where_other) auto
  qed
  have "unusedReserve r (vd_domain e) ?st = unusedReserve r (vd_domain e) st" for r
    by (simp add: unusedReserve_def spentBytesOf_def usedBytesOf_def users)
  moreover have "delegations_on (vd_id e) ?st = delegations_on (vd_id e) st"
    using e'(2) by (auto simp: delegations_on_def delete_domain_def Let_def delete_where_def intro: filter_cong)
  moreover have "pendingReservedBytes (vd_id e) None now ?st = pendingReservedBytes (vd_id e) None now st"
  proof -
    have inv: "ms_invitations ?st = update_where (\<lambda>i. iv_delegationDomainId i = Some (vd_id d))
       (\<lambda>i. i\<lparr>iv_delegationDomainId := None\<rparr>) (ms_invitations st)" by (simp add: delete_domain_def Let_def)
    have "sum_list (map (promised_on now e) (update_where (\<lambda>i. iv_delegationDomainId i = Some (vd_id d))
       (\<lambda>i. i\<lparr>iv_delegationDomainId := None\<rparr>) is)) = sum_list (map (promised_on now e) is)" for "is"
      using e'(2) by (induction "is") (auto simp: promised_on_def update_where_def)
    then show ?thesis unfolding pending_promised inv .
  qed
  ultimately show ?thesis by (simp add: committed_def reserve_sum_def users)
qed

text \<open>The requests that may commit more of a domain than it was judged for: see below.\<close>

definition moves_ownership :: "mail_request \<Rightarrow> bool" where
  "moves_ownership r = (case r of AssignRecipient i a \<Rightarrow> True | ReleaseRecipient i \<Rightarrow> True | _ \<Rightarrow> False)"

definition spends_grant :: "mail_request \<Rightarrow> bool" where
  "spends_grant r = (case r of MyCreateRecipient b \<Rightarrow> True | MyUpdateRecipient i b \<Rightarrow> True | _ \<Rightarrow> False)"

lemma als_books:
  assumes "als_create ctx n b dm owner t st = (x, st') \<or> als_update ctx i b' dm st = (x, st')
    \<or> als_remove ctx i dm st = (y, st') \<or> als_assignOwner i dm a st = (x, st') \<or> als_clearOwner i dm st = (x, st')"
  shows "committed now e st' = committed now e st \<and> ms_domains st' = ms_domains st"
proof -
  have "same_grants st st' \<and> ms_users st' = ms_users st"
    using assms
  proof (elim disjE)
    assume "als_create ctx n b dm owner t st = (x, st')"
    from als_create_effect [OF this] show ?thesis by (auto simp: same_grants_def)
  next
    assume "als_update ctx i b' dm st = (x, st')"
    from als_update_effect [OF this] show ?thesis by (auto simp: same_grants_def save_alias_def)
  qed (auto simp: als_remove_def als_assignOwner_def als_clearOwner_def same_grants_def save_alias_def Let_def split: sum.splits if_splits)
  then have "committed now e st' = committed now e st" "ms_domains st' = ms_domains st"
    using committed_same_tables [of st st' now e] by (simp_all add: same_grants_def)
  then show ?thesis by simp
qed

lemma protect_books:
  assumes "protect ctx t i root st = (res, st') \<or> unprotect ctx t i st = (res, st')"
  shows "committed now e st' = committed now e st"
proof (cases "st' = st")
  case False
  then obtain type v l st1 j where st1: "setProtected type i v st = (Inr l, st1)" "st' = st1\<lparr>ms_journal := j\<rparr>"
    using protect_run [OF assms] by blast
  have map_sum: "sum_where vu_quota P (update_where (\<lambda>r. vu_id r = n) (\<lambda>r. r\<lparr>vu_isProtected := f\<rparr>) us) = sum_where vu_quota P us"
    if "\<And>r w. P (r\<lparr>vu_isProtected := w\<rparr>) = P r" for P n f and us :: "virtual_user list"
    using that by (induction us) (auto simp: sum_where_def update_where_def)
  have users: "sumQuota f x st1 = sumQuota f x st" for f x
    using setProtected_effect [OF st1(1)] by (auto simp: sumQuota_def map_sum)
  have tables: "ms_delegations st1 = ms_delegations st" "ms_invitations st1 = ms_invitations st"
    using setProtected_effect [OF st1(1)] by auto
  have "unusedReserve r f st1 = unusedReserve r f st" for r f
    by (simp add: unusedReserve_def spentBytesOf_def usedBytesOf_def users)
  then have "committed now e st1 = committed now e st"
    by (simp add: committed_def reserve_sum_def delegations_on_def users tables pending_promised)
  moreover have "committed now e st' = committed now e st1" by (rule committed_cong) (simp_all add: st1(2))
  ultimately show ?thesis by simp
qed simp

lemma save_domain_books:
  "committed now e (save_domain d st) = committed now e st"
  by (rule committed_cong) (simp_all add: save_domain_def)

lemma dom_update_books:
  assumes "dom_update stats i b st = (res, st')"
  shows "committed now e st' = committed now e st"
  using dom_update_effect [OF assms] save_domain_books by auto

lemma transferOwner_books:
  assumes "transferOwner i me a t st = (res, st')"
  shows "committed now e st' = committed now e st"
proof (cases "st' = st")
  case False
  then obtain d w where "st' = (save_domain (d\<lparr>vd_ownerId := Some a\<rparr>) st)\<lparr>ms_audit := w\<rparr>"
    using assms by (auto simp: transferOwner_def Let_def split: option.splits if_splits)
  then show ?thesis by (intro committed_cong) (simp_all add: save_domain_def)
qed simp

lemma rcp_remove_books':
  assumes "tables_sound st" "rcp_remove env ctx i dm st = (res, st')"
  shows "committed now e st' \<le> committed now e st"
  using assms by (intro rcp_remove_books) (auto simp: tables_sound_def)

lemma handle_books:
  assumes sound: "tables_sound st" and fresh: "drawn_fresh env st" and body: "body_ok r"
    and op: "handle env u d now r st = (res, st')"
    and e: "e \<in> set (ms_domains st)" "0 < vd_quota e" "\<exists>e' \<in> set (ms_domains st'). vd_id e' = vd_id e"
    and r: "\<not> moves_ownership r" "spends_grant r \<Longrightarrow> baseline_kept (gu_id u) e st"
  shows "committed now e st' \<le> max (committed now e st) (vd_quota e)"
proof -
  have S: "mail_rows_sound st" "users_sound st" "domains_sound st" using sound by (simp_all add: tables_sound_def mail_rows_sound_def)
  have q: "vd_quota e \<noteq> 0" using e(2) by simp
  have le: "committed now e st' \<le> max (committed now e st) (vd_quota e)" if "committed now e st' \<le> committed now e st"
    using that by simp
  show ?thesis
  proof (cases r)
    case (CreateDomain b)
    with op obtain x where "dom_create (re_mail env) (re_hmac env) (re_dkim env) (re_stats env) (re_draws env) b (gu_id u) now st = (x, st')"
      by (auto dest: done_with_state)
    from dom_create_books(1) [OF sound this] show ?thesis using body fresh CreateDomain
      by (intro le) (auto simp: drawn_fresh_def valid_fqdn_lower)
  next
    case DeleteDomain
    with op consider "st' = st" | x where "dom_remove (re_mail env) d st = (x, st')" by (auto split: sum.splits)
    then show ?thesis
    proof cases
      case 2
      show ?thesis
      proof (cases "st' = st")
        case False
        then obtain dm es where dm: "find_domain d st = Some dm" "st' = (delete_domain dm st)\<lparr>ms_erased := es\<rparr>"
          using dom_remove_effect [OF 2] by blast
        obtain e' where e': "e' \<in> set (ms_domains (delete_domain dm st))" "vd_id e' = vd_id e" using e(3) dm(2) by auto
        have "e' \<in> set (ms_domains st)" using e'(1) by (auto simp: delete_domain_def Let_def delete_where_def)
        with id_unique [OF S(3) this e(1)] e' have "e \<in> set (ms_domains (delete_domain dm st))" by simp
        from delete_domain_books [OF S(3) _ this] find_domain_in [OF dm(1)]
        have "committed now e (delete_domain dm st) = committed now e st" by blast
        moreover have "committed now e st' = committed now e (delete_domain dm st)" by (rule committed_cong) (simp_all add: dm(2))
        ultimately show ?thesis by simp
      qed simp
    qed simp
  next
    case (CreateRecipient b)
    with op body show ?thesis
      by (auto dest!: on_domain_run intro: rcp_create_books [OF S(1,2) e(1,2)] simp: recipient_quota_pos)
  next
    case (UpdateRecipient i b)
    with op show ?thesis by (auto dest!: on_domain_run intro: rcp_update_books [OF S(1,2) e(1,2)])
  next
    case (MyCreateRecipient b)
    with op obtain x where x: "my_createRecipient (re_mail env) (re_ctx env) (re_ids env) (gu_id u) d b now st = (x, st')"
      by (auto dest: done_with_state)
    show ?thesis using body r(2) MyCreateRecipient
      by (intro le my_create_books [OF S(1,2) e(1) x]) (auto simp: spends_grant_def recipient_quota_pos)
  next
    case (MyUpdateRecipient i b)
    with op r(2) show ?thesis
      by (auto dest!: unprotected_then_run intro: le my_update_books [OF S(1,2) e(1)] simp: spends_grant_def)
  next
    case (InviteDelegate b)
    with op body fresh show ?thesis
      by (auto dest!: done_with_state intro: grantOrInvite_books [OF S(1) e(1) q] simp: drawn_fresh_def caps_quota_pos)
  next
    case (OpenLink b)
    with op body fresh show ?thesis
      by (auto dest!: done_with_state intro: createToken_books [OF S(1) e(1) q] simp: drawn_fresh_def caps_quota_pos)
  next
    case (EditOffer i b)
    with op body show ?thesis by (auto intro: editInvitation_books [OF S(1) e(1) q] simp: caps_quota_pos)
  next
    case (RevokeOffer i)
    with op show ?thesis by (auto intro: le revokeInvitation_books [OF S(1)])
  next
    case (SetCaps a b)
    with op body show ?thesis
      by (auto dest!: done_with_state intro: setCaps_books [OF S(1) e(1) q] simp: caps_quota_pos)
  next
    case (RevokeDelegation a)
    with op show ?thesis by (auto intro: le dl_revoke_books [OF S(1)])
  next
    case (DeleteRecipient i)
    with op show ?thesis by (auto dest!: on_domain_run intro: le rcp_remove_books' [OF sound])
  next
    case (MyDeleteRecipient i)
    with op show ?thesis by (auto dest!: unprotected_then_run my_delete_run intro: le rcp_remove_books' [OF sound])
  next
    case (Protect t i)
    with op protect_books [of "re_ctx env" t i "gu_isRoot u" st res st' now e] show ?thesis by simp
  next
    case (Unprotect t i)
    with op protect_books [of "re_ctx env" t i "gu_isRoot u" st res st' now e] show ?thesis by simp
  next
    case (SetDomainActive v)
    with op show ?thesis by (auto dest!: unprotected_then_run dest: dom_update_books [where now = now and e = e])
  next
    case (SetDomainValidity v w)
    with op show ?thesis by (auto dest!: unprotected_then_run dest: dom_update_books [where now = now and e = e])
  next
    case (ResizeQuota v)
    with op show ?thesis by (auto dest!: unprotected_then_run dest: dom_update_books [where now = now and e = e])
  next
    case (TransferDomain v)
    with op show ?thesis by (auto dest!: unprotected_then_run dest: transferOwner_books [where now = now and e = e])
  qed (use op r(1) in \<open>auto simp: moves_ownership_def dest!: on_domain_run unprotected_then_run done_with_state my_alias_update_run
       my_alias_delete_run my_alias_create_run dest: als_books [OF disjI1, where now = now and e = e] als_books [OF disjI2, OF disjI1, where now = now and e = e]
       als_books [OF disjI2, OF disjI2, OF disjI1, where now = now and e = e] als_books [OF disjI2, OF disjI2, OF disjI2, OF disjI1, where now = now and e = e]
       als_books [OF disjI2, OF disjI2, OF disjI2, OF disjI2, where now = now and e = e]\<close>)
qed

section \<open>Domains through a request\<close>

definition same_domain :: "mail_request \<Rightarrow> virtual_domain \<Rightarrow> virtual_domain \<Rightarrow> bool" where
  "same_domain r e e' = (vd_id e' = vd_id e \<and> vd_domain e' = vd_domain e
     \<and> ((\<forall>q. r \<noteq> ResizeQuota q) \<longrightarrow> vd_quota e' = vd_quota e))"

definition domain_born :: "route_env \<Rightarrow> mail_request \<Rightarrow> virtual_domain \<Rightarrow> bool" where
  "domain_born env r e' = (\<exists>b. r = CreateDomain b \<and> vd_id e' = dw_domainId (re_draws env) \<and> vd_domain e' = nd_domain b
     \<and> vd_quota e' = nd_quota b)"

lemma grants_domains:
  "grantOrInvite me n tk a i b url now st = (x, st') \<Longrightarrow> ms_domains st' = ms_domains st"
  "createToken me n tk a i b' url now st = (y, st') \<Longrightarrow> ms_domains st' = ms_domains st"
  "editInvitation i n b' now st = (z, st') \<Longrightarrow> ms_domains st' = ms_domains st"
  "revokeInvitation i n now st = (z, st') \<Longrightarrow> ms_domains st' = ms_domains st"
  "setCaps i a c now st = (w, st') \<Longrightarrow> ms_domains st' = ms_domains st"
  "dl_revoke i a st = (z, st') \<Longrightarrow> ms_domains st' = ms_domains st"
  by (auto simp: grantOrInvite_def createToken_def editInvitation_def revokeInvitation_def setCaps_def dl_revoke_def Let_def
      and_then_def insert_invitation_def send_invitation_def save_invitation_def upsertRow_def
      split: sum.splits option.splits if_splits prod.splits)

lemma recipient_domains:
  "rcp_create me ctx ids b dm o' skip now st = (x, st') \<Longrightarrow> ms_domains st' = ms_domains st"
  "rcp_update me ctx i b' dm skip now st = (x, st') \<Longrightarrow> ms_domains st' = ms_domains st"
  "rcp_remove me ctx i dm st = (y, st') \<Longrightarrow> ms_domains st' = ms_domains st"
  "rcp_assignOwner i dm a st = (x, st') \<Longrightarrow> ms_domains st' = ms_domains st"
  "rcp_clearOwner i dm st = (x, st') \<Longrightarrow> ms_domains st' = ms_domains st"
  using rcp_create_effect [of me ctx ids b dm o' skip now st x st'] rcp_update_effect [of me ctx i b' dm skip now st x st']
    rcp_remove_effect [of me ctx i dm st y st']
  by (auto simp: same_grants_def save_user_def rcp_assignOwner_def rcp_clearOwner_def Let_def
      split: sum.splits option.splits if_splits)

lemma alias_domains:
  "als_create ctx n b dm o' now st = (x, st') \<Longrightarrow> ms_domains st' = ms_domains st"
  "als_update ctx i b' dm st = (x, st') \<Longrightarrow> ms_domains st' = ms_domains st"
  "als_remove ctx i dm st = (y, st') \<Longrightarrow> ms_domains st' = ms_domains st"
  "als_assignOwner i dm a st = (x, st') \<Longrightarrow> ms_domains st' = ms_domains st"
  "als_clearOwner i dm st = (x, st') \<Longrightarrow> ms_domains st' = ms_domains st"
  using als_create_effect [of ctx n b dm o' now st x st'] als_update_effect [of ctx i b' dm st x st']
  by (auto simp: als_remove_def als_assignOwner_def als_clearOwner_def save_alias_def Let_def split: sum.splits if_splits)

lemma save_domain_same:
  assumes "d \<in> set (ms_domains st)" "same_domain r d d'" "e' \<in> set (ms_domains (save_domain d' st))"
  shows "\<exists>e \<in> set (ms_domains st). same_domain r e e'"
  using assms by (auto simp: save_domain_def set_save_row same_domain_def)

lemma dom_update_domains:
  assumes "dom_update stats i b st = (res, st')" "e' \<in> set (ms_domains st')" "(\<forall>q. r \<noteq> ResizeQuota q) \<longrightarrow> ud_quota b = None"
  shows "\<exists>e \<in> set (ms_domains st). same_domain r e e'"
proof (cases "st' = st")
  case True
  with assms(2) show ?thesis by (auto simp: same_domain_def)
next
  case False
  then obtain d where d: "find_domain i st = Some d" "st' = save_domain (changed_domain b d) st"
    using dom_update_effect [OF assms(1)] by blast
  have "same_domain r d (changed_domain b d)" using assms(3) by (auto simp: same_domain_def changed_domain_def)
  with save_domain_same [of d st r] find_domain_in [OF d(1)] d(2) assms(2) show ?thesis by blast
qed

lemma transfer_domains:
  assumes "transferOwner i me a now st = (res, st')" "e' \<in> set (ms_domains st')"
  shows "\<exists>e \<in> set (ms_domains st). same_domain r e e'"
proof (cases "st' = st")
  case True
  with assms(2) show ?thesis by (auto simp: same_domain_def)
next
  case False
  then obtain d w where d: "find_domain i st = Some d" "st' = (save_domain (d\<lparr>vd_ownerId := Some a\<rparr>) st)\<lparr>ms_audit := w\<rparr>"
    using assms(1) by (auto simp: transferOwner_def Let_def split: option.splits if_splits)
  have "same_domain r d (d\<lparr>vd_ownerId := Some a\<rparr>)" by (simp add: same_domain_def)
  with save_domain_same [of d st r] find_domain_in [OF d(1)] d(2) assms(2) show ?thesis by auto
qed

lemma protect_domains:
  assumes "protect ctx t i root st = (res, st') \<or> unprotect ctx t i st = (res, st')" "e' \<in> set (ms_domains st')"
  shows "\<exists>e \<in> set (ms_domains st). same_domain r e e'"
proof (cases "st' = st")
  case True
  with assms(2) show ?thesis by (auto simp: same_domain_def)
next
  case False
  then obtain type v l st1 j where st1: "setProtected type i v st = (Inr l, st1)" "st' = st1\<lparr>ms_journal := j\<rparr>"
    using protect_run [OF assms(1)] by blast
  from assms(2) st1(2) have "e' \<in> set (ms_domains st1)" by simp
  with setProtected_effect [OF st1(1)] consider "e' \<in> set (ms_domains st)"
    | e f where "e \<in> set (ms_domains st)" "e' = e" | e f where "e \<in> set (ms_domains st)" "e' = e\<lparr>vd_isProtected := f\<rparr>"
    by (auto simp: update_where_def split: if_splits)
  then show ?thesis by cases (force simp: same_domain_def)+
qed

definition touches_domains :: "mail_request \<Rightarrow> bool" where
  "touches_domains r = (case r of CreateDomain b \<Rightarrow> True | SetDomainActive v \<Rightarrow> True | SetDomainValidity v w \<Rightarrow> True
     | ResizeQuota q \<Rightarrow> True | TransferDomain a \<Rightarrow> True | DeleteDomain \<Rightarrow> True | Protect t i \<Rightarrow> True | Unprotect t i \<Rightarrow> True
     | _ \<Rightarrow> False)"

lemma handle_keeps_domains:
  assumes "handle env u d now r st = (res, st')" "\<not> touches_domains r"
  shows "ms_domains st' = ms_domains st"
  using assms
  by (cases r) (auto simp: touches_domains_def dest!: on_domain_run unprotected_then_run done_with_state my_create_run my_update_run
      my_delete_run my_alias_create_run my_alias_update_run my_alias_delete_run
      dest: grants_domains recipient_domains alias_domains)

lemma handle_domains:
  assumes sound: "tables_sound st" and fresh: "drawn_fresh env st" and body: "body_ok r"
    and op: "handle env u d now r st = (res, st')" and e': "e' \<in> set (ms_domains st')"
  shows "(\<exists>e \<in> set (ms_domains st). same_domain r e e') \<or> domain_born env r e'"
proof -
  have same: "\<exists>e \<in> set (ms_domains st). same_domain r e e'" if "ms_domains st' = ms_domains st"
    using that e' by (auto simp: same_domain_def)
  show ?thesis
  proof (cases r)
    case (CreateDomain b)
    with op obtain x where x: "dom_create (re_mail env) (re_hmac env) (re_dkim env) (re_stats env) (re_draws env) b (gu_id u) now st = (x, st')"
      by (auto dest: done_with_state)
    show ?thesis
    proof (cases "st' = st")
      case False
      then obtain dm st1 st2 o' where st1: "ms_domains st1 = ms_domains st @ [dm]" "vd_id dm = dw_domainId (re_draws env)"
          "vd_domain dm = nd_domain b" "vd_quota dm = nd_quota b"
        and pm: "reservePostmaster (re_mail env) (dw_postmaster (re_draws env)) (dw_password (re_draws env)) (vd_domain dm) now st1 = (Inr (), st2)"
        and dm: "ensureDmarcReportsMailbox (re_mail env) (re_hmac env) (dw_dmarc (re_draws env)) (dw_password (re_draws env)) (vd_domain dm) now st2 = (Inr o', st')"
        using dom_create_effect [OF x] by blast
      have "ms_domains st' = ms_domains st @ [dm]"
        using reservePostmaster_effect [OF pm] ensureDmarc_effect [OF dm] st1(1) by (simp add: reserve_effect_def same_grants_def)
      with e' CreateDomain st1(2-4) show ?thesis by (auto simp: same_domain_def domain_born_def)
    qed (use same in simp)
  next
    case DeleteDomain
    with op consider "st' = st" | x where "dom_remove (re_mail env) d st = (x, st')" by (auto split: sum.splits)
    then show ?thesis
    proof cases
      case (2 x)
      from dom_remove_effect [OF 2] e' show ?thesis by (auto simp: same_domain_def delete_domain_def Let_def delete_where_def)
    qed (use same in simp)
  next
    case (SetDomainActive v)
    with op e' same show ?thesis
      by (auto dest!: unprotected_then_run intro: dom_update_domains simp: no_change_def)
  next
    case (SetDomainValidity v w)
    with op e' same show ?thesis
      by (auto dest!: unprotected_then_run intro: dom_update_domains simp: no_change_def)
  next
    case (ResizeQuota v)
    with op e' same show ?thesis by (auto dest!: unprotected_then_run intro: dom_update_domains)
  next
    case (TransferDomain v)
    with op e' same show ?thesis by (auto dest!: unprotected_then_run intro: transfer_domains)
  next
    case (Protect t i)
    with op e' protect_domains [of "re_ctx env" t i "gu_isRoot u" st res st' e' r] show ?thesis by simp
  next
    case (Unprotect t i)
    with op e' protect_domains [of "re_ctx env" t i "gu_isRoot u" st res st' e' r] show ?thesis by simp
  qed (use same handle_keeps_domains [OF op] in \<open>simp_all add: touches_domains_def\<close>)
qed

end
