(* ===== verification/Occupancy.thy ===== *)
theory Occupancy imports RequestBooks begin

text \<open>
  How full the mailboxes are. The abstract view is a map from an address to its domain and what dovecot last
  counted in it; the concrete tables keep one row per mailbox and, per domain, totals the triggers recompute.
  Every operation of the services is simulated by steps on the map, the totals staying its sums.
\<close>

section \<open>The map\<close>

type_synonym occ_view = "string \<rightharpoonup> string \<times> int \<times> int"

definition view_of :: "virtual_quota_user \<Rightarrow> string \<times> int \<times> int" where
  "view_of q = (vqu_domain q, vqu_bytes q, vqu_messages q)"

definition occupancy :: "mail_state \<Rightarrow> occ_view" where
  "occupancy st m = map_option view_of (List.find (\<lambda>q. vqu_email q = m) (ms_quotaUsers st))"

definition in_domain :: "occ_view \<Rightarrow> string \<Rightarrow> string set" where
  "in_domain occ d = {m \<in> dom occ. fst (the (occ m)) = d}"

definition total_bytes :: "occ_view \<Rightarrow> string \<Rightarrow> int" where
  "total_bytes occ d = (\<Sum>m \<in> in_domain occ d. fst (snd (the (occ m))))"

definition total_messages :: "occ_view \<Rightarrow> string \<Rightarrow> int" where
  "total_messages occ d = (\<Sum>m \<in> in_domain occ d. snd (snd (the (occ m))))"

text \<open>What may happen to it. A request opens a mailbox empty, closes one or drops a domain, and recounts nothing;
  dovecot recounts one mailbox it has.\<close>

inductive occ_request :: "occ_view \<Rightarrow> occ_view \<Rightarrow> bool" where
  opened: "occ m = None \<Longrightarrow> occ_request occ (occ(m \<mapsto> (d, 0, 0)))"
| closed: "occ_request occ (occ(m := None))"
| domain_gone: "occ_request occ (\<lambda>m. case occ m of None \<Rightarrow> None | Some (d', u) \<Rightarrow> if d' = d then None else Some (d', u))"

inductive occ_step :: "occ_view \<Rightarrow> occ_view \<Rightarrow> bool" where
  requested: "occ_request occ occ' \<Longrightarrow> occ_step occ occ'"
| recounted: "occ m = Some (d, b, k) \<Longrightarrow> occ_step occ (occ(m \<mapsto> (d, b', k')))"

lemma request_steps: "occ_request\<^sup>*\<^sup>* occ occ' \<Longrightarrow> occ_step\<^sup>*\<^sup>* occ occ'"
  by (erule rtranclp_mono [THEN predicate2D, rotated]) (auto intro: occ_step.requested)

text \<open>So what a mailbox holds after requests alone is what it held, or nothing yet.\<close>

lemma requests_invent_nothing:
  "occ_request\<^sup>*\<^sup>* occ occ' \<Longrightarrow> occ' m = Some (d, b, k) \<Longrightarrow> occ m = Some (d, b, k) \<or> b = 0 \<and> k = 0"
  by (induction arbitrary: d b k rule: rtranclp_induct)
    (auto elim!: occ_request.cases split: if_splits option.splits prod.splits)

section \<open>The tables\<close>

text \<open>One counter a mailbox, in the mailbox's domain, and totals that are the sums.\<close>

definition occupancy_ok :: "mail_state \<Rightarrow> bool" where
  "occupancy_ok st = (distinct (map vqu_email (ms_quotaUsers st))
     \<and> (\<forall>q \<in> set (ms_quotaUsers st). \<exists>u \<in> set (ms_users st). vu_email u = vqu_email q \<and> vu_domain u = vqu_domain q)
     \<and> (\<forall>q \<in> set (ms_quotaDomains st). counted st q))"

lemma find_by_email:
  "distinct (map vqu_email qs) \<Longrightarrow> q \<in> set qs \<Longrightarrow> List.find (\<lambda>r. vqu_email r = vqu_email q) qs = Some q"
  by (induction qs) (auto simp: image_iff)

lemma occupancy_row: "occupancy_ok st \<Longrightarrow> q \<in> set (ms_quotaUsers st) \<Longrightarrow> occupancy st (vqu_email q) = Some (view_of q)"
  by (simp add: occupancy_def occupancy_ok_def find_by_email)

lemma occupancy_None: "occupancy st m = None \<longleftrightarrow> m \<notin> vqu_email ` set (ms_quotaUsers st)"
  by (auto simp: occupancy_def find_None_iff)

lemma in_domain_rows:
  assumes "occupancy_ok st"
  shows "in_domain (occupancy st) d = vqu_email ` set (filter (\<lambda>q. vqu_domain q = d) (ms_quotaUsers st))"
proof -
  have "m \<in> in_domain (occupancy st) d \<longleftrightarrow> (\<exists>q \<in> set (ms_quotaUsers st). vqu_email q = m \<and> vqu_domain q = d)" for m
  proof (cases "occupancy st m")
    case None
    with occupancy_None [of st m] show ?thesis by (auto simp: in_domain_def)
  next
    case (Some v)
    then have "occupancy st m \<noteq> None" by simp
    then obtain q where "q \<in> set (ms_quotaUsers st)" "vqu_email q = m" by (auto simp: occupancy_None)
    note q = this
    have "vqu_domain r = vqu_domain q" if "r \<in> set (ms_quotaUsers st)" "vqu_email r = m" for r
      using occupancy_row [OF assms that(1)] occupancy_row [OF assms q(1)] q(2) that(2) by (simp add: view_of_def)
    moreover have "m \<in> in_domain (occupancy st) d \<longleftrightarrow> vqu_domain q = d"
      using occupancy_row [OF assms q(1)] q(2) by (auto simp: in_domain_def view_of_def)
    ultimately show ?thesis using q by metis
  qed
  then show ?thesis by (auto simp: image_iff)
qed

lemma sum_rows:
  assumes ok: "occupancy_ok st" and g: "\<And>q. g (view_of q) = f q"
  shows "(\<Sum>m \<in> in_domain (occupancy st) d. g (the (occupancy st m))) = sum_where f (\<lambda>q. vqu_domain q = d) (ms_quotaUsers st)"
proof -
  let ?rows = "filter (\<lambda>q. vqu_domain q = d) (ms_quotaUsers st)"
  have uniq: "distinct (map vqu_email (ms_quotaUsers st))" using ok by (simp add: occupancy_ok_def)
  then have rows: "distinct ?rows" "inj_on vqu_email (set ?rows)"
    by (auto simp: distinct_map intro: inj_on_subset)
  have "(\<Sum>m \<in> in_domain (occupancy st) d. g (the (occupancy st m))) = (\<Sum>q \<in> set ?rows. g (the (occupancy st (vqu_email q))))"
    unfolding in_domain_rows [OF ok] using rows(2) by (simp add: sum.reindex)
  also have "\<dots> = (\<Sum>q \<in> set ?rows. f q)" using occupancy_row [OF ok] g by (intro sum.cong) auto
  also have "\<dots> = sum_list (map f ?rows)" using rows(1) by (simp add: sum_list_distinct_conv_sum_set)
  finally show ?thesis by (simp add: sum_where_def)
qed

lemma totals_kept:
  assumes "occupancy_ok st" "q \<in> set (ms_quotaDomains st)"
  shows "vqd_bytes q = total_bytes (occupancy st) (vqd_domain q)"
    and "vqd_messages q = total_messages (occupancy st) (vqd_domain q)"
  using assms sum_rows [OF assms(1), of "\<lambda>v. fst (snd v)" vqu_bytes "vqd_domain q"]
    sum_rows [OF assms(1), of "\<lambda>v. snd (snd v)" vqu_messages "vqd_domain q"]
  by (auto simp: total_bytes_def total_messages_def view_of_def occupancy_ok_def counted_def)

section \<open>Simulation\<close>

text \<open>From a well-formed state, \<open>st'\<close> is well counted and reached by the steps of requests.\<close>

definition tracks :: "mail_state \<Rightarrow> mail_state \<Rightarrow> bool" where
  "tracks st st' = (users_fine st \<longrightarrow> occupancy_ok st \<longrightarrow> occupancy_ok st' \<and> occ_request\<^sup>*\<^sup>* (occupancy st) (occupancy st'))"

lemma tracks_refl [simp]: "tracks st st"
  by (simp add: tracks_def)

lemma tracks_trans: "tracks st st1 \<Longrightarrow> users_fine st1 \<Longrightarrow> tracks st1 st2 \<Longrightarrow> tracks st st2"
  unfolding tracks_def by (meson rtranclp_trans)

lemma tracks_quiet:
  assumes "ms_quotaUsers st' = ms_quotaUsers st" "ms_quotaDomains st' = ms_quotaDomains st" "ms_users st' = ms_users st"
  shows "tracks st st'"
proof -
  have "occupancy st' = occupancy st" by (rule ext) (simp add: occupancy_def assms)
  moreover have "occupancy_ok st' = occupancy_ok st" by (simp add: occupancy_ok_def counted_def assms)
  ultimately show ?thesis by (simp add: tracks_def)
qed

lemma tracks_same:
  assumes "ms_quotaUsers st2 = ms_quotaUsers st1" "ms_quotaDomains st2 = ms_quotaDomains st1" "ms_users st2 = ms_users st1"
  shows "tracks st st2 = tracks st st1"
proof -
  have "occupancy st2 = occupancy st1" by (rule ext) (simp add: occupancy_def assms)
  moreover have "occupancy_ok st2 = occupancy_ok st1" by (simp add: occupancy_ok_def counted_def assms)
  ultimately show ?thesis by (simp add: tracks_def)
qed

lemma tracks_save_user:
  assumes "u \<in> set (ms_users st)" "vu_id u' = vu_id u" "vu_email u' = vu_email u" "vu_domain u' = vu_domain u"
    "ms_users st' = ms_users (save_user u' st)" "ms_quotaUsers st' = ms_quotaUsers st" "ms_quotaDomains st' = ms_quotaDomains st"
  shows "tracks st st'"
proof -
  have occ: "occupancy st' = occupancy st" by (rule ext) (simp add: occupancy_def assms)
  have "occupancy_ok st'" if fine: "users_fine st" and ok: "occupancy_ok st"
  proof -
    have "\<exists>w' \<in> set (ms_users st'). vu_email w' = vu_email w \<and> vu_domain w' = vu_domain w" if w: "w \<in> set (ms_users st)" for w
    proof (cases "w = u")
      case True
      then show ?thesis using assms by (intro bexI [of _ u']) (auto simp: save_user_def set_save_row)
    next
      case False
      have "vu_id w \<noteq> vu_id u" using fine w assms(1) False by (auto simp: users_fine_def users_sound_def distinct_map dest: inj_onD)
      then show ?thesis using w assms by (intro bexI [of _ w]) (auto simp: save_user_def set_save_row)
    qed
    with ok show ?thesis unfolding occupancy_ok_def counted_def assms(6,7) by metis
  qed
  with occ show ?thesis by (simp add: tracks_def)
qed

section \<open>The triggers\<close>

lemma counters_mended:
  assumes "counters_but F st" "set fs = F"
  shows "\<forall>q \<in> set (ms_quotaDomains (fold recount_domain fs st)). counted (fold recount_domain fs st) q"
  using fold_recount_mends [OF assms(1), of fs] assms(2) by (simp add: counters_but_def)

lemma occupancy_ok_recounted:
  assumes "counters_but F st" "set fs = F" "distinct (map vqu_email (ms_quotaUsers st))"
    "\<forall>q \<in> set (ms_quotaUsers st). \<exists>u \<in> set (ms_users st). vu_email u = vqu_email q \<and> vu_domain u = vqu_domain q"
  shows "occupancy_ok (fold recount_domain fs st)"
  using counters_mended [OF assms(1,2)] assms(3,4) by (simp add: occupancy_ok_def)

lemma occupancy_recount [simp]:
  "occupancy (recount_domain f st) = occupancy st" "occupancy (fold recount_domain fs st) = occupancy st"
  by (rule ext, simp add: occupancy_def)+

text \<open>The rows of one address all stand in the domain recounted afterwards.\<close>

definition domains_of :: "string \<Rightarrow> mail_state \<Rightarrow> string list" where
  "domains_of email st = map vqu_domain (filter (\<lambda>q. vqu_email q = email) (ms_quotaUsers st))"

lemma counters_but_changed:
  assumes ok: "occupancy_ok st" and same: "ms_quotaDomains st' = ms_quotaDomains st"
    and sums: "\<And>d. d \<notin> F \<Longrightarrow> sum_where vqu_bytes (\<lambda>u. vqu_domain u = d) (ms_quotaUsers st') = sum_where vqu_bytes (\<lambda>u. vqu_domain u = d) (ms_quotaUsers st)
      \<and> sum_where vqu_messages (\<lambda>u. vqu_domain u = d) (ms_quotaUsers st') = sum_where vqu_messages (\<lambda>u. vqu_domain u = d) (ms_quotaUsers st)"
  shows "counters_but F st'"
  using ok sums by (auto simp: counters_but_def counted_def occupancy_ok_def same)

lemma insert_user_tracks:
  assumes "insert_user i now u st = (res, st')"
  shows "tracks st st'"
proof (cases "st' = st")
  case False
  let ?q = "\<lparr>vqu_id = i, vqu_domain = vu_domain u, vqu_email = vu_email u, vqu_bytes = 0, vqu_messages = 0, vqu_lastActivity = now\<rparr>"
  let ?st1 = "st\<lparr>ms_users := ms_users st @ [u]\<rparr>" and ?st2 = "st\<lparr>ms_users := ms_users st @ [u], ms_quotaUsers := ms_quotaUsers st @ [?q]\<rparr>"
  have new: "vu_email u \<notin> vu_email ` set (ms_users st)"
    and st': "st' = (if vu_email u \<in> vqu_email ` set (ms_quotaUsers st) then ?st1 else fold recount_domain [vu_domain u] ?st2)"
    using assms False by (auto simp: insert_user_def insert_quota_user_def Let_def split: if_splits)
  have "occupancy_ok st' \<and> occ_request\<^sup>*\<^sup>* (occupancy st) (occupancy st')" if ok: "occupancy_ok st"
  proof -
    have fresh: "vu_email u \<notin> vqu_email ` set (ms_quotaUsers st)"
    proof
      assume "vu_email u \<in> vqu_email ` set (ms_quotaUsers st)"
      then obtain q where "q \<in> set (ms_quotaUsers st)" "vqu_email q = vu_email u" by auto
      with ok obtain w where "w \<in> set (ms_users st)" "vu_email w = vu_email u" unfolding occupancy_ok_def by metis
      with new show False by (metis image_eqI)
    qed
    have but: "counters_but {vu_domain u} ?st2"
      by (rule counters_but_changed [OF ok]) (simp_all add: sum_where_def)
    have linked: "\<exists>w \<in> set (ms_users ?st2). vu_email w = vqu_email q \<and> vu_domain w = vqu_domain q" if "q \<in> set (ms_quotaUsers ?st2)" for q
      using that ok by (auto simp: occupancy_ok_def)
    have "occupancy_ok (fold recount_domain [vu_domain u] ?st2)"
    proof (rule occupancy_ok_recounted [OF but])
      show "distinct (map vqu_email (ms_quotaUsers ?st2))" using ok fresh by (simp add: occupancy_ok_def)
    qed (use linked in simp_all)
    moreover have "List.find (\<lambda>q. vqu_email q = vu_email u) (ms_quotaUsers st) = None"
      using fresh unfolding find_None_iff by (metis image_eqI)
    then have "occupancy ?st2 = (occupancy st)(vu_email u \<mapsto> (vu_domain u, 0, 0))"
      by (auto simp: fun_eq_iff occupancy_def find_append view_of_def split: option.splits)
    moreover have "occupancy st (vu_email u) = None" using fresh occupancy_None [of st "vu_email u"] by blast
    ultimately show ?thesis
      using fresh st' occ_request.opened [of "occupancy st" "vu_email u" "vu_domain u"] by auto
  qed
  then show ?thesis by (simp add: tracks_def)
qed simp

text \<open>Rows selected by address stand in the domains recounted.\<close>

lemma find_deleted: "List.find Q (delete_where P rows) = List.find (\<lambda>x. Q x \<and> \<not> P x) rows"
  by (induction rows) (auto simp: delete_where_def)

lemma row_domain: "q \<in> set (ms_quotaUsers st) \<Longrightarrow> vqu_email q = email \<Longrightarrow> vqu_domain q \<in> set (domains_of email st)"
  by (auto simp: domains_of_def)

lemma delete_quota_users_tracks: "tracks st (delete_quota_users email st)"
proof -
  let ?st1 = "st\<lparr>ms_quotaUsers := delete_where (\<lambda>q. vqu_email q = email) (ms_quotaUsers st)\<rparr>"
  have st': "delete_quota_users email st = fold recount_domain (domains_of email st) ?st1"
    by (simp add: delete_quota_users_def domains_of_def)
  have "occupancy_ok (fold recount_domain (domains_of email st) ?st1)" if ok: "occupancy_ok st"
  proof (rule occupancy_ok_recounted [OF counters_but_changed [OF ok] refl])
    fix d assume d: "d \<notin> set (domains_of email st)"
    have "\<not> vqu_domain q = d" if "q \<in> set (ms_quotaUsers st)" "vqu_email q = email" for q
      using d row_domain [OF that] by blast
    then show "sum_where vqu_bytes (\<lambda>u. vqu_domain u = d) (ms_quotaUsers ?st1) = sum_where vqu_bytes (\<lambda>u. vqu_domain u = d) (ms_quotaUsers st)
      \<and> sum_where vqu_messages (\<lambda>u. vqu_domain u = d) (ms_quotaUsers ?st1) = sum_where vqu_messages (\<lambda>u. vqu_domain u = d) (ms_quotaUsers st)"
      by (auto intro!: sum_where_other)
  qed (use ok in \<open>auto simp: occupancy_ok_def delete_where_def distinct_map_filter\<close>)
  moreover have "occupancy ?st1 = (occupancy st)(email := None)"
    by (auto simp: fun_eq_iff occupancy_def find_deleted find_None_iff intro!: arg_cong [where f = "map_option view_of"] find_cong)
  ultimately show ?thesis using occ_request.closed [of "occupancy st" email] by (auto simp: tracks_def st')
qed

lemma dovecot_counts_steps:
  assumes "occupancy_ok st"
  shows "occupancy_ok (dovecot_counts email bytes messages st)
    \<and> occ_step\<^sup>*\<^sup>* (occupancy st) (occupancy (dovecot_counts email bytes messages st))"
proof -
  let ?f = "\<lambda>q. q\<lparr>vqu_bytes := bytes, vqu_messages := messages\<rparr>"
  let ?st1 = "st\<lparr>ms_quotaUsers := update_where (\<lambda>q. vqu_email q = email) ?f (ms_quotaUsers st)\<rparr>"
  have st': "dovecot_counts email bytes messages st = fold recount_domain (domains_of email st) ?st1"
    by (simp add: dovecot_counts_def domains_of_def)
  have "occupancy_ok (fold recount_domain (domains_of email st) ?st1)" if ok: "occupancy_ok st"
  proof (rule occupancy_ok_recounted [OF counters_but_changed [OF ok] refl])
    fix d assume d: "d \<notin> set (domains_of email st)"
    have "\<not> vqu_domain q = d" if "q \<in> set (ms_quotaUsers st)" "vqu_email q = email" for q
      using d row_domain [OF that] by blast
    then show "sum_where vqu_bytes (\<lambda>u. vqu_domain u = d) (ms_quotaUsers ?st1) = sum_where vqu_bytes (\<lambda>u. vqu_domain u = d) (ms_quotaUsers st)
      \<and> sum_where vqu_messages (\<lambda>u. vqu_domain u = d) (ms_quotaUsers ?st1) = sum_where vqu_messages (\<lambda>u. vqu_domain u = d) (ms_quotaUsers st)"
      by (auto intro!: sum_where_update_other)
  next
    have "map vqu_email (ms_quotaUsers ?st1) = map vqu_email (ms_quotaUsers st)" by (simp add: update_where_def)
    with ok show "distinct (map vqu_email (ms_quotaUsers ?st1))" by (simp only: occupancy_ok_def)
  qed (use ok in \<open>auto simp: occupancy_ok_def update_where_def\<close>)
  moreover have "occ_step\<^sup>*\<^sup>* (occupancy st) (occupancy ?st1)"
  proof (cases "occupancy st email")
    case None
    then have "occupancy ?st1 = occupancy st"
      by (auto simp: fun_eq_iff occupancy_def find_None_iff update_where_def intro!: arg_cong [where f = "map_option view_of"]
         arg_cong2 [where f = List.find] map_idI)
    then show ?thesis by simp
  next
    case (Some v)
    obtain d b k where v: "v = (d, b, k)" by (cases v)
    have "occupancy ?st1 m = ((occupancy st)(email \<mapsto> (d, bytes, messages))) m" for m
      using Some v find_update_other [of "\<lambda>q. vqu_email q = m" ?f "\<lambda>q. vqu_email q = email" "ms_quotaUsers st"]
      by (cases "m = email") (auto simp: occupancy_def find_update_where view_of_def)
    then have "occupancy ?st1 = (occupancy st)(email \<mapsto> (d, bytes, messages))" by (rule ext)
    with occ_step.recounted [of "occupancy st" email d b k bytes messages] Some v show ?thesis by auto
  qed
  ultimately show ?thesis using assms by (simp add: st')
qed

section \<open>The operations\<close>

lemma users_fine_kept:
  "users_fine st \<Longrightarrow> ms_users st' = ms_users st \<Longrightarrow> ms_domains st' = ms_domains st \<Longrightarrow> users_fine st'"
  by (rule users_fine_ids)

lemma tracks_delete_user:
  assumes u: "u \<in> set (ms_users st)" and gone: "vu_email u \<notin> vqu_email ` set (ms_quotaUsers st)"
  shows "tracks st (delete_user u st)"
proof -
  let ?st = "delete_user u st"
  have rows: "ms_quotaUsers ?st = ms_quotaUsers st" "ms_quotaDomains ?st = ms_quotaDomains st"
    using gone unfolding delete_user_def delete_where_def by (simp_all add: filter_id_conv) (metis image_eqI)
  have "occupancy_ok ?st" if fine: "users_fine st" and ok: "occupancy_ok st"
  proof -
    have "\<exists>w \<in> set (ms_users ?st). vu_email w = vqu_email q \<and> vu_domain w = vqu_domain q" if q: "q \<in> set (ms_quotaUsers st)" for q
    proof -
      obtain w where w: "w \<in> set (ms_users st)" "vu_email w = vqu_email q" "vu_domain w = vqu_domain q"
        using ok q unfolding occupancy_ok_def by metis
      with gone q have "w \<noteq> u" by (metis image_eqI)
      with fine w(1) u have "vu_id w \<noteq> vu_id u" by (auto simp: users_fine_def users_sound_def distinct_map dest: inj_onD)
      with w show ?thesis by (intro bexI [of _ w]) (auto simp: delete_user_def delete_where_def)
    qed
    with ok show ?thesis unfolding occupancy_ok_def counted_def rows by blast
  qed
  moreover have "occupancy ?st = occupancy st" by (rule ext) (simp add: occupancy_def rows)
  ultimately show ?thesis by (simp add: tracks_def)
qed

lemma rcp_create_tracks:
  assumes "rcp_create env ctx ids b domain owner skip now st = (res, st')"
  shows "tracks st st'"
proof (cases "st' = st")
  case False
  then obtain u r st1 where "insert_user (ui_counter ids) now u st = (r, st1)"
    and "st' = st1 \<or> (\<exists>i. st' = note_recipient ctx ''recipients.created'' i st1)"
    using assms by (auto simp: rcp_create_def Let_def and_then_def split: option.splits if_splits sum.splits prod.splits)
  moreover have "tracks st (note_recipient ctx a i st1) = tracks st st1" for a i
    by (rule tracks_same) (simp_all add: note_recipient_def)
  ultimately show ?thesis using insert_user_tracks by metis
qed simp

lemma rcp_update_tracks:
  assumes "rcp_update env ctx i b domain skip now st = (res, st')"
  shows "tracks st st'"
proof (cases "st' = st")
  case False
  then obtain u where u: "rcp_get i domain st = Inr u" "st' = note_recipient ctx ''recipients.updated'' i (save_user (changed_user env b u) st)"
    using rcp_update_effect [OF assms] by auto
  from rcp_get_in [OF u(1)] show ?thesis
    by (intro tracks_save_user [of u st "changed_user env b u"]) (simp_all add: u(2) note_recipient_def changed_user_def save_user_def)
qed simp

lemma rcp_remove_tracks:
  assumes "rcp_remove env ctx i domain st = (res, st')"
  shows "tracks st st'"
proof (cases "st' = st")
  case False
  let ?e = "\<lambda>u. vu_email u"
  obtain u es where u: "rcp_get i domain st = Inr u"
    and st': "st' = note_recipient ctx ''recipients.deleted'' i ((delete_user u (delete_quota_users (vu_email u) st))\<lparr>ms_erased := es\<rparr>)"
    using rcp_remove_effect [OF assms] False by auto
  let ?st1 = "delete_quota_users (vu_email u) st"
  have same: "ms_users ?st1 = ms_users st" "ms_domains ?st1 = ms_domains st" by (simp_all add: delete_quota_users_def)
  have gone: "vu_email u \<notin> vqu_email ` set (ms_quotaUsers ?st1)" by (auto simp: delete_quota_users_def delete_where_def)
  have "tracks ?st1 (delete_user u ?st1)" using rcp_get_in [OF u] gone same by (intro tracks_delete_user) simp_all
  with delete_quota_users_tracks [of st "vu_email u"] have "tracks st (delete_user u ?st1)"
    using users_fine_kept [of st ?st1] same unfolding tracks_def by (meson rtranclp_trans)
  moreover have "tracks st st' = tracks st (delete_user u ?st1)" by (rule tracks_same) (simp_all add: st' note_recipient_def)
  ultimately show ?thesis by simp
qed simp

lemma rcp_owner_tracks:
  assumes "rcp_assignOwner i domain a st = (res, st') \<or> rcp_clearOwner i domain st = (res, st')"
  shows "tracks st st'"
proof (cases "st' = st")
  case False
  from assms have "\<exists>u w. rcp_get i domain st = Inr u \<and> st' = save_user (u\<lparr>vu_ownerId := w\<rparr>) st"
  proof
    assume "rcp_assignOwner i domain a st = (res, st')"
    with False show ?thesis by (simp add: rcp_assignOwner_def Let_def split: sum.splits option.splits if_splits) metis
  next
    assume "rcp_clearOwner i domain st = (res, st')"
    with False show ?thesis by (simp add: rcp_clearOwner_def Let_def split: sum.splits) metis
  qed
  then obtain u w where u: "rcp_get i domain st = Inr u" "st' = save_user (u\<lparr>vu_ownerId := w\<rparr>) st" by blast
  from rcp_get_in [OF u(1)] show ?thesis
    by (intro tracks_save_user [of u st "u\<lparr>vu_ownerId := w\<rparr>"]) (simp_all add: u(2) save_user_def)
qed simp

text \<open>A domain that comes, and one that goes.\<close>

lemma insert_domain_tracks:
  assumes "insert_domain i now d st = (Inr s, st')"
  shows "tracks st st'"
proof -
  have new: "vd_domain d \<notin> vd_domain ` set (ms_domains st)"
    and st': "ms_quotaUsers st' = ms_quotaUsers st" "ms_users st' = ms_users st"
      "set (ms_quotaDomains st') \<subseteq> insert \<lparr>vqd_id = i, vqd_domain = vd_domain d, vqd_bytes = 0, vqd_messages = 0, vqd_lastActivity = now\<rparr>
         (set (ms_quotaDomains st))"
    using assms by (auto simp: insert_domain_def split: if_splits)
  have "occupancy_ok st'" if fine: "users_fine st" and ok: "occupancy_ok st"
  proof -
    have "vqu_domain q \<noteq> vd_domain d" if q: "q \<in> set (ms_quotaUsers st)" for q
    proof -
      obtain w where "w \<in> set (ms_users st)" "vu_domain w = vqu_domain q" using ok q unfolding occupancy_ok_def by metis
      moreover from this(1) fine have "vu_domain w \<in> vd_domain ` set (ms_domains st)" by (simp add: users_fine_def users_sound_iff)
      ultimately show ?thesis using new by metis
    qed
    then have "filter (\<lambda>q. vqu_domain q = vd_domain d) (ms_quotaUsers st) = []" unfolding filter_empty_conv by blast
    then have "counted st' \<lparr>vqd_id = i, vqd_domain = vd_domain d, vqd_bytes = 0, vqd_messages = 0, vqd_lastActivity = now\<rparr>"
      by (simp add: counted_def sum_where_def st')
    moreover have "counted st' q = counted st q" for q by (simp add: counted_def st')
    ultimately show ?thesis using ok st' unfolding occupancy_ok_def by (metis insertE subsetD)
  qed
  moreover have "occupancy st' = occupancy st" by (rule ext) (simp add: occupancy_def st')
  ultimately show ?thesis by (simp add: tracks_def)
qed

lemma reservePostmaster_tracks:
  assumes "reservePostmaster env ids drawn domain now st = (res, st')"
  shows "tracks st st'"
proof (cases "List.find (\<lambda>u. vu_email u = ''postmaster@'' @ domain) (ms_users st)")
  case None
  with assms have "\<exists>u r. insert_user (ui_counter ids) now u st = (r, st')"
    by (auto simp: reservePostmaster_def Let_def and_then_def split: prod.splits sum.splits)
  with insert_user_tracks show ?thesis by blast
next
  case (Some u)
  with assms have "st' = st \<or> st' = save_user (u\<lparr>vu_active := 0\<rparr>) st" by (auto simp: reservePostmaster_def Let_def split: if_splits)
  then show ?thesis
  proof
    assume "st' = save_user (u\<lparr>vu_active := 0\<rparr>) st"
    with find_in_set [OF Some] show ?thesis by (intro tracks_save_user [of u st "u\<lparr>vu_active := 0\<rparr>"]) (simp_all add: save_user_def)
  qed simp
qed

lemma ensureDmarc_tracks:
  assumes "ensureDmarcReportsMailbox env hmac ids drawn domain now st = (res, st')"
  shows "tracks st st'"
proof (cases "List.find (\<lambda>u. vu_email u = dmarcReportsAddress domain) (ms_users st)")
  case None
  with assms have "\<exists>u r. insert_user (ui_counter ids) now u st = (r, st')"
    by (auto simp: ensureDmarcReportsMailbox_def Let_def and_then_def split: prod.splits sum.splits)
  with insert_user_tracks show ?thesis by blast
next
  case (Some u)
  have "st' = st \<or> (\<exists>h. st' = save_user (u\<lparr>vu_active := 1, vu_quota := 0, vu_password := h\<rparr>) st)"
    using Some assms by (auto simp: ensureDmarcReportsMailbox_def Let_def split: if_splits)
  then show ?thesis
  proof (elim disjE exE)
    fix h assume "st' = save_user (u\<lparr>vu_active := 1, vu_quota := 0, vu_password := h\<rparr>) st"
    with find_in_set [OF Some] show ?thesis
      by (intro tracks_save_user [of u st "u\<lparr>vu_active := 1, vu_quota := 0, vu_password := h\<rparr>"]) (simp_all add: save_user_def)
  qed simp
qed

lemma dom_create_tracks:
  assumes sound: "tables_sound st" and op: "dom_create env hmac dkim stats dw b a now st = (res, st')"
    and fresh: "dw_domainId dw \<notin> vd_id ` set (ms_domains st)" "ui_row (dw_postmaster dw) \<notin> vu_id ` set (ms_users st)"
  shows "tracks st st'"
proof (cases "st' = st")
  case False
  then obtain d st1 st2 o' where st1: "ms_domains st1 = ms_domains st @ [d]" "vd_domain d \<notin> vd_domain ` set (ms_domains st)"
      "ms_users st1 = ms_users st" "ms_aliases st1 = ms_aliases st" "ms_delegations st1 = ms_delegations st"
      "ms_invitations st1 = ms_invitations st" "vd_id d = dw_domainId dw" "vd_domain d = nd_domain b"
    and ins: "insert_domain (dw_domainCounter dw) now d st = (Inr d, st1)"
    and pm: "reservePostmaster env (dw_postmaster dw) (dw_password dw) (vd_domain d) now st1 = (Inr (), st2)"
    and dm: "ensureDmarcReportsMailbox env hmac (dw_dmarc dw) (dw_password dw) (vd_domain d) now st2 = (Inr o', st')"
    using dom_create_effect [OF op] by blast
  have "domains_sound st1" using sound st1 fresh(1) by (auto simp: tables_sound_parts domains_sound_def)
  moreover have fine1: "users_fine st1" using sound st1 by (intro users_fine_same [of st st1]) (auto simp: tables_sound_parts)
  ultimately have s1: "tables_sound st1" using sound st1 parts_cong(2-4) [of st1 st] by (simp add: tables_sound_parts)
  have s2: "tables_sound st2"
    by (rule reserve_effect_sound [OF s1, of _ "''postmaster''" "vd_domain d"]) (use reservePostmaster_effect [OF pm] fresh(2) st1(3) in simp_all)
  have "tracks st1 st2" "tracks st2 st'" using pm dm reservePostmaster_tracks ensureDmarc_tracks by blast+
  moreover have "users_fine st2" using s2 by (simp add: tables_sound_parts)
  ultimately have "tracks st1 st'" using tracks_trans by blast
  with insert_domain_tracks [OF ins] fine1 show ?thesis using tracks_trans by blast
qed simp

lemma find_distinct_and:
  "distinct (map vqu_email qs) \<Longrightarrow> List.find (\<lambda>q. vqu_email q = m \<and> P q) qs =
   (case List.find (\<lambda>q. vqu_email q = m) qs of None \<Rightarrow> None | Some q \<Rightarrow> if P q then Some q else None)"
proof (induction qs)
  case (Cons q qs)
  have "List.find (\<lambda>q. vqu_email q = m) qs = None" if "vqu_email q = m"
    using Cons.prems that unfolding find_None_iff by (metis distinct.simps(2) image_eqI list.simps(9) list.set_map)
  with Cons show ?case by (auto split: option.splits)
qed simp

lemma delete_domain_tracks:
  shows "tracks st (delete_domain d st)"
proof -
  let ?st = "delete_domain d st"
  have "occupancy_ok ?st \<and> occ_request (occupancy st) (occupancy ?st)" if fine: "users_fine st" and ok: "occupancy_ok st"
  proof -
    have link: "vqu_domain q = vd_domain d"
      if q: "q \<in> set (ms_quotaUsers st)" and w: "w \<in> set (ms_users st)" "vu_email w = vqu_email q" "vu_domain w = vd_domain d" for q w
    proof -
      obtain v where v: "v \<in> set (ms_users st)" "vu_email v = vqu_email q" "vu_domain v = vqu_domain q"
        using ok q unfolding occupancy_ok_def by metis
      moreover have "inj_on vu_email (set (ms_users st))" using fine by (simp add: users_fine_def users_sound_def distinct_map)
      ultimately have "v = w" using w by (metis inj_onD)
      with v w show ?thesis by simp
    qed
    have "ms_quotaUsers ?st = delete_where (\<lambda>q. vqu_domain q = vd_domain d) (ms_quotaUsers st)"
      using link unfolding delete_domain_def Let_def delete_where_def by (auto intro!: filter_cong)
    note rows = this
    have users: "ms_users ?st = delete_where (\<lambda>u. vu_domain u = vd_domain d) (ms_users st)"
      and totals: "ms_quotaDomains ?st = delete_where (\<lambda>q. vqd_domain q = vd_domain d) (ms_quotaDomains st)"
      by (simp_all add: delete_domain_def Let_def)
    have "\<exists>w \<in> set (ms_users ?st). vu_email w = vqu_email q \<and> vu_domain w = vqu_domain q" if q: "q \<in> set (ms_quotaUsers ?st)" for q
    proof -
      have "q \<in> set (ms_quotaUsers st)" "vqu_domain q \<noteq> vd_domain d" using q by (auto simp: rows delete_where_def)
      with ok obtain w where "w \<in> set (ms_users st)" "vu_email w = vqu_email q" "vu_domain w = vqu_domain q" "vu_domain w \<noteq> vd_domain d"
        unfolding occupancy_ok_def by metis
      then show ?thesis by (intro bexI [of _ w]) (auto simp: users delete_where_def)
    qed
    moreover have "counted ?st q" if q: "q \<in> set (ms_quotaDomains ?st)" for q
    proof -
      have "counted st q" "vqd_domain q \<noteq> vd_domain d" using q ok by (auto simp: totals delete_where_def occupancy_ok_def)
      moreover have "sum_where f (\<lambda>u. vqu_domain u = vqd_domain q) (ms_quotaUsers ?st)
          = sum_where f (\<lambda>u. vqu_domain u = vqd_domain q) (ms_quotaUsers st)" for f
        unfolding rows using calculation(2) by (intro sum_where_other) auto
      ultimately show ?thesis by (simp add: counted_def)
    qed
    moreover have "distinct (map vqu_email (ms_quotaUsers ?st))" using ok by (simp add: occupancy_ok_def rows delete_where_def distinct_map_filter)
    moreover have "occupancy ?st = (\<lambda>m. case occupancy st m of None \<Rightarrow> None | Some (d', u) \<Rightarrow> if d' = vd_domain d then None else Some (d', u))"
    proof
      fix m
      have "distinct (map vqu_email (ms_quotaUsers st))" using ok by (simp add: occupancy_ok_def)
      from find_distinct_and [OF this, of m "\<lambda>q. vqu_domain q \<noteq> vd_domain d"]
      show "occupancy ?st m = (case occupancy st m of None \<Rightarrow> None | Some (d', u) \<Rightarrow> if d' = vd_domain d then None else Some (d', u))"
        by (simp add: occupancy_def rows find_deleted view_of_def split: option.splits)
    qed
    ultimately show ?thesis using occ_request.domain_gone [of "occupancy st" "vd_domain d"] unfolding occupancy_ok_def by metis
  qed
  then show ?thesis by (auto simp: tracks_def)
qed

lemma dom_remove_tracks:
  assumes "dom_remove env i st = (res, st')"
  shows "tracks st st'"
proof (cases "st' = st")
  case False
  then obtain d es where "st' = (delete_domain d st)\<lparr>ms_erased := es\<rparr>" using dom_remove_effect [OF assms] by blast
  then have "tracks st st' = tracks st (delete_domain d st)" by (intro tracks_same) simp_all
  with delete_domain_tracks show ?thesis by simp
qed simp

section \<open>The requests\<close>

lemma grants_quiet:
  "grantOrInvite me n tk a i b url now st = (x, st') \<Longrightarrow> tracks st st'"
  "createToken me n tk a i b' url now st = (y, st') \<Longrightarrow> tracks st st'"
  "editInvitation i n b' now st = (z, st') \<Longrightarrow> tracks st st'"
  "revokeInvitation i n now st = (z, st') \<Longrightarrow> tracks st st'"
  "setCaps i a c now st = (w, st') \<Longrightarrow> tracks st st'"
  "dl_revoke i a st = (z, st') \<Longrightarrow> tracks st st'"
  by (rule tracks_quiet; auto simp: grantOrInvite_def createToken_def editInvitation_def revokeInvitation_def setCaps_def dl_revoke_def
      Let_def and_then_def insert_invitation_def send_invitation_def save_invitation_def upsertRow_def save_delegation_def expire_former_def
      split: sum.splits option.splits if_splits prod.splits)+

lemma alias_quiet:
  "als_create ctx n b dm o' now st = (x, st') \<Longrightarrow> tracks st st'"
  "als_update ctx i b' dm st = (x, st') \<Longrightarrow> tracks st st'"
  "als_remove ctx i dm st = (y, st') \<Longrightarrow> tracks st st'"
  "als_assignOwner i dm a st = (x, st') \<Longrightarrow> tracks st st'"
  "als_clearOwner i dm st = (x, st') \<Longrightarrow> tracks st st'"
  by (rule tracks_quiet; auto simp: als_create_def als_update_def als_remove_def als_assignOwner_def als_clearOwner_def save_alias_def
      note_alias_def Let_def split: sum.splits option.splits if_splits)+

lemma dom_update_tracks: "dom_update stats i b st = (res, st') \<Longrightarrow> tracks st st'"
  by (rule tracks_quiet; drule dom_update_effect; auto simp: save_domain_def)

lemma transferOwner_tracks: "transferOwner i me a now st = (res, st') \<Longrightarrow> tracks st st'"
  by (rule tracks_quiet; auto simp: transferOwner_def save_domain_def Let_def split: option.splits if_splits)

lemma protect_tracks:
  assumes "protect ctx t i root st = (res, st') \<or> unprotect ctx t i st = (res, st')"
  shows "tracks st st'"
proof (cases "st' = st")
  case False
  then obtain type v l st1 j where st1: "setProtected type i v st = (Inr l, st1)" "st' = st1\<lparr>ms_journal := j\<rparr>"
    using protect_run [OF assms] by blast
  have tables: "ms_quotaUsers st1 = ms_quotaUsers st" "ms_quotaDomains st1 = ms_quotaDomains st"
    using setProtected_effect [OF st1(1)] by auto
  have users: "ms_users st1 = ms_users st
      \<or> (\<exists>n f. ms_users st1 = update_where (\<lambda>r. vu_id r = n) (\<lambda>r. r\<lparr>vu_isProtected := f\<rparr>) (ms_users st))"
    using setProtected_effect [OF st1(1)] by (elim exE disjE; simp; blast)
  have "\<exists>u' \<in> set (ms_users st1). vu_email u' = vu_email u \<and> vu_domain u' = vu_domain u" if "u \<in> set (ms_users st)" for u
    using users
  proof (elim disjE exE)
    fix n f assume st1': "ms_users st1 = update_where (\<lambda>r. vu_id r = n) (\<lambda>r. r\<lparr>vu_isProtected := f\<rparr>) (ms_users st)"
    show ?thesis
      using that by (intro bexI [of _ "if vu_id u = n then u\<lparr>vu_isProtected := f\<rparr> else u"]) (auto simp: st1' update_where_def)
  qed (use that in auto)
  then have "occupancy_ok st1" if "occupancy_ok st"
    using that unfolding occupancy_ok_def counted_def tables by metis
  moreover have "occupancy st1 = occupancy st" by (rule ext) (simp add: occupancy_def tables)
  ultimately have "tracks st st1" by (simp add: tracks_def)
  moreover have "tracks st st' = tracks st st1" by (rule tracks_same) (simp_all add: st1(2))
  ultimately show ?thesis by simp
qed simp

lemma handle_tracks:
  assumes sound: "tables_sound st" and fresh: "drawn_fresh env st"
    and op: "handle env u d now r st = (res, st')"
  shows "tracks st st'"
proof (cases r)
  case (CreateDomain b)
  with op obtain x where "dom_create (re_mail env) (re_hmac env) (re_dkim env) (re_stats env) (re_draws env) b (gu_id u) now st = (x, st')"
    by (auto dest: done_with_state)
  then show ?thesis using fresh by (intro dom_create_tracks [OF sound]) (auto simp: drawn_fresh_def)
next
  case DeleteDomain
  with op show ?thesis by (auto intro: dom_remove_tracks split: sum.splits)
next
  case (MyCreateRecipient b)
  with op show ?thesis by (auto dest!: done_with_state my_create_run intro: rcp_create_tracks)
qed (use op in
  \<open>auto dest!: on_domain_run unprotected_then_run done_with_state my_update_run my_delete_run my_alias_create_run my_alias_update_run
       my_alias_delete_run rcp_create_tracks rcp_update_tracks rcp_remove_tracks rcp_owner_tracks [OF disjI1] rcp_owner_tracks [OF disjI2]
       grants_quiet alias_quiet dom_update_tracks transferOwner_tracks protect_tracks [OF disjI1] protect_tracks [OF disjI2]\<close>)

lemma serve_tracks:
  assumes "tables_sound st" "drawn_fresh env st" "serve env u d now r st = (res, st')"
  shows "tracks st st'"
proof (cases "st' = st")
  case False
  with serve_run [OF assms(3)] have "handle env u d now r st = (res, st')" by auto
  with handle_tracks assms show ?thesis by blast
qed simp

end
