(* ===== verification/ProtectedRows.thy ===== *)
theory ProtectedRows imports RequestBooks begin

text \<open>
  The protection flag of a mailbox, an alias or a domain: what a request may do to a row that carries it.
  A protected row stays in its table exactly as it is until the flag itself is taken off.
\<close>

definition protected_users :: "mail_state \<Rightarrow> virtual_user set" where
  "protected_users st = {u \<in> set (ms_users st). vu_isProtected u = 1}"

definition protected_aliases :: "mail_state \<Rightarrow> virtual_alias set" where
  "protected_aliases st = {a \<in> set (ms_aliases st). va_isProtected a = 1}"

definition protected_domains :: "mail_state \<Rightarrow> virtual_domain set" where
  "protected_domains st = {d \<in> set (ms_domains st). vd_isProtected d = 1}"

definition keeps_protected :: "mail_state \<Rightarrow> mail_state \<Rightarrow> bool" where
  "keeps_protected st st' = (protected_users st \<subseteq> protected_users st' \<and> protected_aliases st \<subseteq> protected_aliases st'
     \<and> protected_domains st \<subseteq> protected_domains st')"

lemma keeps_refl [simp]: "keeps_protected st st"
  by (simp add: keeps_protected_def)

lemma keeps_trans: "keeps_protected st st1 \<Longrightarrow> keeps_protected st1 st2 \<Longrightarrow> keeps_protected st st2"
  by (auto simp: keeps_protected_def)

lemma keeps_supersets:
  "set (ms_users st) \<subseteq> set (ms_users st') \<Longrightarrow> set (ms_aliases st) \<subseteq> set (ms_aliases st') \<Longrightarrow>
   set (ms_domains st) \<subseteq> set (ms_domains st') \<Longrightarrow> keeps_protected st st'"
  by (auto simp: keeps_protected_def protected_users_def protected_aliases_def protected_domains_def)

section \<open>A row by its identifier\<close>

lemma save_row_kept: "x \<in> set rows \<Longrightarrow> key x \<noteq> key r \<Longrightarrow> x \<in> set (save_row key r rows)"
  by (auto simp: set_save_row)

lemma not_isProtected_user:
  assumes "distinct (map vu_id (ms_users st))" "\<not> isProtected PRecipient (numbered i) st" "u \<in> protected_users st"
  shows "vu_id u \<noteq> i"
proof
  assume "vu_id u = i"
  with assms(1,3) have "find_user i st = Some u"
    using find_by_key [of vu_id "ms_users st" u] by (simp add: find_user_def protected_users_def)
  with assms(2,3) show False by (simp add: isProtected_def prot_find_def numbered_def protected_users_def)
qed

lemma not_isProtected_alias:
  assumes "distinct (map va_id (ms_aliases st))" "\<not> isProtected PAlias (numbered i) st" "a \<in> protected_aliases st"
  shows "va_id a \<noteq> i"
proof
  assume "va_id a = i"
  with assms(1,3) have "find_alias i st = Some a"
    using find_by_key [of va_id "ms_aliases st" a] by (simp add: find_alias_def protected_aliases_def)
  with assms(2,3) show False by (simp add: isProtected_def prot_find_def numbered_def protected_aliases_def)
qed

lemma not_isProtected_domain:
  assumes "distinct (map vd_id (ms_domains st))" "\<not> isProtected PDomain (numbered i) st" "d \<in> protected_domains st"
  shows "vd_id d \<noteq> i"
proof
  assume "vd_id d = i"
  with assms(1,3) have "find_domain i st = Some d"
    using find_by_key [of vd_id "ms_domains st" d] by (simp add: find_domain_def protected_domains_def)
  with assms(2,3) show False by (simp add: isProtected_def prot_find_def numbered_def protected_domains_def)
qed

lemma keeps_other_user:
  assumes "distinct (map vu_id (ms_users st))" "\<not> isProtected PRecipient (numbered i) st"
    "\<And>x. x \<in> set (ms_users st) \<Longrightarrow> vu_id x \<noteq> i \<Longrightarrow> x \<in> set (ms_users st')"
    "ms_aliases st' = ms_aliases st" "ms_domains st' = ms_domains st"
  shows "keeps_protected st st'"
  using not_isProtected_user [OF assms(1,2)] assms(3-5)
  by (auto simp: keeps_protected_def protected_users_def protected_aliases_def protected_domains_def)

lemma keeps_other_alias:
  assumes "distinct (map va_id (ms_aliases st))" "\<not> isProtected PAlias (numbered i) st"
    "\<And>x. x \<in> set (ms_aliases st) \<Longrightarrow> va_id x \<noteq> i \<Longrightarrow> x \<in> set (ms_aliases st')"
    "ms_users st' = ms_users st" "ms_domains st' = ms_domains st"
  shows "keeps_protected st st'"
  using not_isProtected_alias [OF assms(1,2)] assms(3-5)
  by (auto simp: keeps_protected_def protected_users_def protected_aliases_def protected_domains_def)

lemma keeps_other_domain:
  assumes "distinct (map vd_id (ms_domains st))" "\<not> isProtected PDomain (numbered i) st"
    "\<And>x. x \<in> set (ms_domains st) \<Longrightarrow> vd_id x \<noteq> i \<Longrightarrow> x \<in> set (ms_domains st')"
    "ms_users st' = ms_users st" "ms_aliases st' = ms_aliases st"
  shows "keeps_protected st st'"
  using not_isProtected_domain [OF assms(1,2)] assms(3-5)
  by (auto simp: keeps_protected_def protected_users_def protected_aliases_def protected_domains_def)

section \<open>Operations\<close>

lemma ids_unique: "tables_sound st \<Longrightarrow> distinct (map vu_id (ms_users st))" "tables_sound st \<Longrightarrow> distinct (map va_id (ms_aliases st))"
  "tables_sound st \<Longrightarrow> distinct (map vd_id (ms_domains st))"
  by (simp_all add: tables_sound_parts users_fine_def users_sound_def aliases_fine_def domains_sound_def)

lemma rcp_create_keeps: "rcp_create env ctx ids b domain owner skip now st = (res, st') \<Longrightarrow> keeps_protected st st'"
  using rcp_create_effect [of env ctx ids b domain owner skip now st res st']
  by (intro keeps_supersets) (auto simp: same_grants_def)

lemma rcp_update_keeps:
  assumes "tables_sound st" "rcp_update env ctx i b domain skip now st = (res, st')" "\<not> isProtected PRecipient (numbered i) st"
  shows "keeps_protected st st'"
proof (cases "st' = st")
  case False
  then obtain u where u: "rcp_get i domain st = Inr u" "st' = note_recipient ctx ''recipients.updated'' i (save_user (changed_user env b u) st)"
    using rcp_update_effect [OF assms(2)] by auto
  with rcp_get_in [OF u(1)] show ?thesis
    by (intro keeps_other_user [OF ids_unique(1) [OF assms(1)] assms(3)])
      (auto simp: note_recipient_def save_user_def changed_user_def intro: save_row_kept)
qed simp

lemma rcp_remove_keeps:
  assumes "tables_sound st" "rcp_remove env ctx i domain st = (res, st')" "\<not> isProtected PRecipient (numbered i) st"
  shows "keeps_protected st st'"
proof (cases "st' = st")
  case False
  obtain u es where u: "rcp_get i domain st = Inr u"
    and st': "st' = note_recipient ctx ''recipients.deleted'' i ((delete_user u (delete_quota_users (vu_email u) st))\<lparr>ms_erased := es\<rparr>)"
    using rcp_remove_effect [OF assms(2)] False by auto
  with rcp_get_in [OF u(1)] show ?thesis
    by (intro keeps_other_user [OF ids_unique(1) [OF assms(1)] assms(3)])
      (auto simp: note_recipient_def delete_user_def delete_quota_users_def delete_where_def)
qed simp

lemma rcp_owner_keeps:
  assumes "tables_sound st" "rcp_assignOwner i domain a st = (res, st') \<or> rcp_clearOwner i domain st = (res, st')"
    "\<not> isProtected PRecipient (numbered i) st"
  shows "keeps_protected st st'"
proof (rule keeps_other_user [OF ids_unique(1) [OF assms(1)] assms(3)])
  show "x \<in> set (ms_users st')" if "x \<in> set (ms_users st)" "vu_id x \<noteq> i" for x
    using assms(2) that by (auto simp: rcp_assignOwner_def rcp_clearOwner_def Let_def save_user_def
        split: sum.splits option.splits if_splits dest!: rcp_get_in intro!: save_row_kept)
qed (use assms(2) in \<open>auto simp: rcp_assignOwner_def rcp_clearOwner_def Let_def save_user_def
        split: sum.splits option.splits if_splits\<close>)

lemma als_create_keeps: "als_create ctx n b dm owner now st = (res, st') \<Longrightarrow> keeps_protected st st'"
  by (rule keeps_supersets; auto simp: als_create_def note_alias_def Let_def set_save_row save_alias_def split: sum.splits option.splits if_splits)

lemma als_update_keeps:
  assumes "tables_sound st" "als_update ctx i b domain st = (res, st')" "\<not> isProtected PAlias (numbered i) st"
  shows "keeps_protected st st'"
proof (cases "st' = st")
  case False
  then obtain a where a: "als_get i domain st = Inr a" "st' = note_alias ctx ''aliases.updated'' i (save_alias (changed_alias b a) st)"
    using als_update_effect [OF assms(2)] by auto
  with als_get_in [OF a(1)] show ?thesis
    by (intro keeps_other_alias [OF ids_unique(2) [OF assms(1)] assms(3)])
      (auto simp: save_alias_def changed_alias_def intro: save_row_kept)
qed simp

lemma als_remove_keeps:
  assumes "tables_sound st" "als_remove ctx i domain st = (res, st')" "\<not> isProtected PAlias (numbered i) st"
  shows "keeps_protected st st'"
proof (cases "als_get i domain st")
  case (Inr a)
  with als_get_in [OF Inr] assms(2) show ?thesis
    by (intro keeps_other_alias [OF ids_unique(2) [OF assms(1)] assms(3)]) (auto simp: als_remove_def delete_where_def)
qed (use assms(2) in \<open>simp add: als_remove_def\<close>)

lemma als_owner_keeps:
  assumes "tables_sound st" "als_assignOwner i domain w st = (res, st') \<or> als_clearOwner i domain st = (res, st')"
    "\<not> isProtected PAlias (numbered i) st"
  shows "keeps_protected st st'"
proof (rule keeps_other_alias [OF ids_unique(2) [OF assms(1)] assms(3)])
  show "x \<in> set (ms_aliases st')" if "x \<in> set (ms_aliases st)" "va_id x \<noteq> i" for x
    using assms(2) that by (auto simp: als_assignOwner_def als_clearOwner_def Let_def save_alias_def
        split: sum.splits option.splits if_splits dest!: als_get_in intro!: save_row_kept)
qed (use assms(2) in \<open>auto simp: als_assignOwner_def als_clearOwner_def Let_def save_alias_def
        split: sum.splits option.splits if_splits\<close>)

lemma save_domain_keeps:
  assumes "tables_sound st" "find_domain i st = Some d" "\<not> isProtected PDomain (numbered i) st" "vd_id d' = vd_id d"
  shows "keeps_protected st (save_domain d' st)"
  using assms(4) find_domain_in [OF assms(2)]
  by (intro keeps_other_domain [OF ids_unique(3) [OF assms(1)] assms(3)]) (auto simp: save_domain_def intro: save_row_kept)

lemma dom_update_keeps:
  assumes "tables_sound st" "dom_update stats i b st = (res, st')" "\<not> isProtected PDomain (numbered i) st"
  shows "keeps_protected st st'"
proof -
  consider "st' = st" | d where "find_domain i st = Some d" "st' = save_domain (changed_domain b d) st"
    using dom_update_effect [OF assms(2)] by blast
  then show ?thesis
  proof cases
    case 2
    have "vd_id (changed_domain b d) = vd_id d" by (simp add: changed_domain_def)
    from save_domain_keeps [OF assms(1) 2(1) assms(3) this] 2(2) show ?thesis by simp
  qed simp
qed

lemma transferOwner_keeps:
  assumes "tables_sound st" "transferOwner i me a now st = (res, st')" "\<not> isProtected PDomain (numbered i) st"
  shows "keeps_protected st st'"
proof (cases "st' = st")
  case False
  then obtain d w where d: "find_domain i st = Some d" "st' = (save_domain (d\<lparr>vd_ownerId := Some a\<rparr>) st)\<lparr>ms_audit := w\<rparr>"
    using assms(2) by (auto simp: transferOwner_def Let_def split: option.splits if_splits)
  from save_domain_keeps [OF assms(1) d(1) assms(3), of "d\<lparr>vd_ownerId := Some a\<rparr>"] show ?thesis
    by (rule keeps_trans) (auto simp: d(2) intro: keeps_supersets)
qed simp

lemma grants_keep:
  "grantOrInvite me n tk a i b url now st = (x, st') \<Longrightarrow> keeps_protected st st'"
  "createToken me n tk a i b' url now st = (y, st') \<Longrightarrow> keeps_protected st st'"
  "editInvitation i n b' now st = (z, st') \<Longrightarrow> keeps_protected st st'"
  "revokeInvitation i n now st = (z, st') \<Longrightarrow> keeps_protected st st'"
  "setCaps i a c now st = (w, st') \<Longrightarrow> keeps_protected st st'"
  "dl_revoke i a st = (z, st') \<Longrightarrow> keeps_protected st st'"
  by (rule keeps_supersets; auto simp: grantOrInvite_def createToken_def editInvitation_def revokeInvitation_def setCaps_def dl_revoke_def
      Let_def and_then_def insert_invitation_def send_invitation_def save_invitation_def upsertRow_def save_delegation_def expire_former_def
      split: sum.splits option.splits if_splits prod.splits)+

text \<open>A removable domain holds no protected row, and its removal takes no other.\<close>

lemma count_where_zero: "count_where P rows = 0 \<Longrightarrow> x \<in> set rows \<Longrightarrow> \<not> P x"
  by (auto simp: count_where_def filter_empty_conv)

lemma dom_remove_keeps:
  assumes "dom_remove env i st = (res, st')" "assertDomainRemovable i st = Inr ()" "tables_sound st"
  shows "keeps_protected st st'"
proof (cases "st' = st")
  case False
  then obtain d es where d: "find_domain i st = Some d" "st' = (delete_domain d st)\<lparr>ms_erased := es\<rparr>"
    using dom_remove_effect [OF assms(1)] by blast
  have ok: "vd_isProtected d \<noteq> 1" "count_where (\<lambda>r. vu_domain r = vd_domain d \<and> vu_isProtected r = 1) (ms_users st) = 0"
    "count_where (\<lambda>r. va_domain r = vd_domain d \<and> va_isProtected r = 1) (ms_aliases st) = 0"
    using assms(2) d(1) by (auto simp: assertDomainRemovable_def Let_def split: if_splits)
  have "protected_users st \<subseteq> protected_users st'" "protected_aliases st \<subseteq> protected_aliases st'"
    using count_where_zero [OF ok(2)] count_where_zero [OF ok(3)]
    by (auto simp: protected_users_def protected_aliases_def d(2) delete_domain_def Let_def delete_where_def)
  moreover have "protected_domains st \<subseteq> protected_domains st'"
  proof
    fix x assume x: "x \<in> protected_domains st"
    then have "x \<noteq> d" "x \<in> set (ms_domains st)" using ok(1) by (auto simp: protected_domains_def)
    moreover have "domains_sound st" using assms(3) by (simp add: tables_sound_parts)
    ultimately have "vd_id x \<noteq> vd_id d" using id_unique [of st x d] find_domain_in [OF d(1)] by blast
    with x show "x \<in> protected_domains st'"
      by (auto simp: protected_domains_def d(2) delete_domain_def Let_def delete_where_def)
  qed
  ultimately show ?thesis by (simp add: keeps_protected_def)
qed simp

text \<open>The reserved mailboxes of a new domain are rows of that domain: nobody's before.\<close>

lemma address_split:
  "CHR ''@'' \<notin> set l \<Longrightarrow> CHR ''@'' \<notin> set l' \<Longrightarrow> l @ ''@'' @ d = l' @ ''@'' @ d' \<Longrightarrow> d = d'"
  by (induction l arbitrary: l') (auto simp: Cons_eq_append_conv append_eq_Cons_conv)

lemma reserve_keeps:
  assumes eff: "reserve_effect i email domain sa sb" and ids: "distinct (map vu_id (ms_users sa))"
    and u: "u \<in> set (ms_users sa)" "vu_email u \<noteq> email"
  shows "u \<in> set (ms_users sb)"
proof -
  consider "ms_users sb = ms_users sa"
    | w w' where "w \<in> set (ms_users sa)" "vu_email w = email" "ms_users sb = ms_users (save_user w' sa)" "vu_id w' = vu_id w"
    | w where "ms_users sb = ms_users sa @ [w]"
    using eff unfolding reserve_effect_def by blast
  then show ?thesis
  proof cases
    case 2
    with u have "u \<noteq> w" by auto
    with ids u(1) 2(1) have "vu_id u \<noteq> vu_id w" by (auto simp: distinct_map dest: inj_onD)
    with u(1) 2 show ?thesis by (auto simp: save_user_def intro: save_row_kept)
  qed (use u in simp_all)
qed

lemma dom_create_keeps:
  assumes sound: "tables_sound st" and op: "dom_create env hmac dkim stats dw b a now st = (res, st')"
    and name: "toLowerCase (nd_domain b) = nd_domain b"
    and fresh: "dw_domainId dw \<notin> vd_id ` set (ms_domains st)" "ui_row (dw_postmaster dw) \<notin> vu_id ` set (ms_users st)"
  shows "keeps_protected st st'"
proof (cases "st' = st")
  case False
  then obtain d st1 st2 o' where st1: "ms_domains st1 = ms_domains st @ [d]" "vd_domain d \<notin> vd_domain ` set (ms_domains st)"
      "ms_users st1 = ms_users st" "ms_aliases st1 = ms_aliases st" "ms_delegations st1 = ms_delegations st"
      "ms_invitations st1 = ms_invitations st" "vd_id d = dw_domainId dw" "vd_domain d = nd_domain b"
    and pm: "reservePostmaster env (dw_postmaster dw) (dw_password dw) (vd_domain d) now st1 = (Inr (), st2)"
    and dm: "ensureDmarcReportsMailbox env hmac (dw_dmarc dw) (dw_password dw) (vd_domain d) now st2 = (Inr o', st')"
    using dom_create_effect [OF op] by blast
  have "domains_sound st1" using sound st1 fresh(1) by (auto simp: tables_sound_parts domains_sound_def)
  moreover have "users_fine st1" using sound st1 by (intro users_fine_same [of st st1]) (auto simp: tables_sound_parts)
  ultimately have s1: "tables_sound st1" using sound st1 parts_cong(2-4) [of st1 st] by (simp add: tables_sound_parts)
  note e1 = reservePostmaster_effect [OF pm] and e2 = ensureDmarc_effect [OF dm]
  have s2: "tables_sound st2"
    by (rule reserve_effect_sound [OF s1, of _ "''postmaster''" "vd_domain d"]) (use e1 fresh(2) st1(3) in simp_all)
  have other: "vu_email u \<noteq> l @ ''@'' @ vd_domain d" if u: "u \<in> set (ms_users st)" and l: "CHR ''@'' \<notin> set l" for u l
  proof
    assume eq: "vu_email u = l @ ''@'' @ vd_domain d"
    have "users_sound st" using sound by (simp add: tables_sound_parts users_fine_def)
    with u obtain k where k: "CHR ''@'' \<notin> set k" "vu_email u = k @ ''@'' @ vu_domain u" "vu_domain u \<in> vd_domain ` set (ms_domains st)"
      unfolding users_sound_def by blast
    have "vu_domain u = vd_domain d" by (rule address_split [OF k(1) l]) (use k(2) eq in simp)
    with k(3) st1(2) show False by simp
  qed
  have lower: "toLowerCase (vd_domain d) = vd_domain d" using name st1(8) by simp
  have users: "u \<in> set (ms_users st')" if u: "u \<in> set (ms_users st)" for u
  proof (rule reserve_keeps [OF e2 ids_unique(1) [OF s2]])
    show "u \<in> set (ms_users st2)"
      by (rule reserve_keeps [OF e1 ids_unique(1) [OF s1]]) (use u st1(3) other [OF u, of "''postmaster''"] in simp_all)
    show "vu_email u \<noteq> dmarcReportsAddress (vd_domain d)"
      using other [OF u, of DMARC_REPORTS_LOCAL_PART] by (simp add: dmarcReportsAddress_def lower DMARC_REPORTS_LOCAL_PART_def)
  qed
  have "ms_aliases st' = ms_aliases st" "ms_domains st' = ms_domains st @ [d]"
    using e1 e2 st1 by (auto simp: reserve_effect_def same_grants_def)
  then show ?thesis using users by (intro keeps_supersets) auto
qed simp

section \<open>The flag itself\<close>

lemma update_where_fixed: "x \<in> set rows \<Longrightarrow> (P x \<Longrightarrow> f x = x) \<Longrightarrow> x \<in> set (update_where P f rows)"
  unfolding update_where_def set_map by (rule image_eqI [of _ _ x]) auto

lemma flag_already_set:
  "vu_isProtected u = 1 \<Longrightarrow> u\<lparr>vu_isProtected := 1\<rparr> = u" "va_isProtected a = 1 \<Longrightarrow> a\<lparr>va_isProtected := 1\<rparr> = a"
  "vd_isProtected d = 1 \<Longrightarrow> d\<lparr>vd_isProtected := 1\<rparr> = d"
  by simp_all

lemma protect_keeps:
  assumes "protect ctx t i root st = (res, st')"
  shows "keeps_protected st st'"
proof (cases "resourceOf t i")
  case (Inr type)
  have flags: "keeps_protected st st1" if "setProtected type i True st = (r, st1)" for r st1
    using that
    by (auto simp: setProtected_def Let_def keeps_protected_def protected_users_def protected_aliases_def protected_domains_def
        flag_already_set split: option.splits if_splits intro!: update_where_fixed)
  obtain r st1 where run: "setProtected type i True st = (r, st1)" by fastforce
  from flags [OF run] have "keeps_protected st (st1\<lparr>ms_journal := j\<rparr>)" for j
    by (simp add: keeps_protected_def protected_users_def protected_aliases_def protected_domains_def)
  with assms Inr run flags [OF run] show ?thesis by (auto simp: protect_def and_then_def split: if_splits sum.splits)
qed (use assms in \<open>simp add: protect_def\<close>)

lemma handle_keeps_protected:
  assumes sound: "tables_sound st" and fresh: "drawn_fresh env st" and body: "body_ok r"
    and op: "handle env u d now r st = (res, st')" and r: "\<And>t i. r \<noteq> Unprotect t i"
  shows "keeps_protected st st'"
proof (cases r)
  case (CreateDomain b)
  with op obtain x where "dom_create (re_mail env) (re_hmac env) (re_dkim env) (re_stats env) (re_draws env) b (gu_id u) now st = (x, st')"
    by (auto dest: done_with_state)
  then show ?thesis using fresh body CreateDomain
    by (intro dom_create_keeps [OF sound]) (auto simp: drawn_fresh_def valid_fqdn_lower)
next
  case DeleteDomain
  with op sound show ?thesis by (auto intro: dom_remove_keeps split: sum.splits)
next
  case (MyCreateRecipient b)
  with op show ?thesis by (auto dest!: done_with_state my_create_run rcp_create_keeps)
next
  case (MyUpdateRecipient i b)
  with op sound show ?thesis by (auto dest!: unprotected_then_run my_update_run rcp_update_keeps)
next
  case (MyDeleteRecipient i)
  with op sound show ?thesis by (auto dest!: unprotected_then_run my_delete_run rcp_remove_keeps)
next
  case (MyUpdateAlias i b)
  with op sound show ?thesis by (auto dest!: unprotected_then_run my_alias_update_run als_update_keeps)
next
  case (MyDeleteAlias i)
  with op sound show ?thesis by (auto dest!: unprotected_then_run my_alias_delete_run als_remove_keeps)
qed (use op sound r in
  \<open>auto dest!: on_domain_run unprotected_then_run done_with_state my_alias_create_run
     dest: rcp_create_keeps rcp_update_keeps rcp_remove_keeps rcp_owner_keeps [OF _ disjI1] rcp_owner_keeps [OF _ disjI2]
       als_create_keeps als_update_keeps als_remove_keeps als_owner_keeps [OF _ disjI1] als_owner_keeps [OF _ disjI2]
       grants_keep dom_update_keeps transferOwner_keeps protect_keeps\<close>)

lemma serve_keeps_protected:
  assumes "tables_sound st" "drawn_fresh env st" "serve env u d now r st = (res, st')" "gu_isRoot u \<Longrightarrow> \<forall>t i. r \<noteq> Unprotect t i"
  shows "keeps_protected st st'"
proof (cases "st' = st")
  case False
  with serve_run [OF assms(3)] have run: "body_ok r" "needs_root r \<longrightarrow> gu_isRoot u" "handle env u d now r st = (res, st')" by auto
  have "r \<noteq> Unprotect t i" for t i using run(2) assms(4) by (auto simp: needs_root_def)
  with handle_keeps_protected [OF assms(1,2) run(1,3)] show ?thesis by blast
qed simp

end
