(* ===== verification/Erasure.thy ===== *)
theory Erasure imports RequestBooks begin

text \<open>
  What the requests erase from the mail volume: nothing outside \<open>vhosts\<close>, and for a mailbox its own
  directory, unless its local part is a dot.
\<close>

section \<open>Paths\<close>

lemma mailbox_parts:
  assumes "CHR ''/'' \<notin> set d" "d \<noteq> []" "CHR ''/'' \<notin> set l"
  shows "path_parts (d @ ''/'' @ l @ ''/'') = d # (if l = [] then [] else [l])"
  using split_on_append [OF assms(1), of "l @ ''/''"] split_on_append [OF assms(3), of "[]"] assms(2)
  by (simp add: path_parts_def)

lemma mailbox_relative:
  "CHR ''/'' \<notin> set d \<Longrightarrow> d \<noteq> [] \<Longrightarrow> \<not> is_absolute (d @ rest)"
  by (cases d) (auto simp: is_absolute_def)

lemma resolve_mailbox:
  assumes "CHR ''/'' \<notin> set d" "CHR ''/'' \<notin> set l" "d \<notin> {[], ''.'', ''..''}" "l \<notin> {[], ''..''}"
  shows "resolve_path root (d @ ''/'' @ l @ ''/'') = root @ (if l = ''.'' then [d] else [d, l])"
  using mailbox_parts [OF assms(1) _ assms(2)] mailbox_relative [OF assms(1), of "''/'' @ l @ ''/''"] assms(3,4)
  by (simp add: resolve_path_def)

lemma join_with_safe:
  assumes "CHR ''/'' \<notin> set d" "d \<noteq> []" "take 2 d \<noteq> ''..''"
  shows "take 2 (join_with ''/'' (d # ps)) \<noteq> ''..'' \<and> \<not> is_absolute (join_with ''/'' (d # ps)) \<and> join_with ''/'' (d # ps) \<noteq> []"
proof -
  obtain c cs where d: "d = c # cs" using assms(2) by (cases d) auto
  obtain rest where rest: "join_with ''/'' (d # ps) = d @ rest" and sep: "rest = [] \<or> hd rest = CHR ''/''"
    by (cases ps) auto
  have "take 2 (d @ rest) \<noteq> ''..''"
  proof (cases cs)
    case Nil
    with sep show ?thesis by (cases rest) (auto simp: d)
  qed (use assms(3) d in \<open>auto simp: numeral_2_eq_2\<close>)
  with assms(1) show ?thesis unfolding rest by (auto simp: d is_absolute_def)
qed

lemma safeResolve_mailbox:
  assumes "CHR ''/'' \<notin> set d" "CHR ''/'' \<notin> set l" "d \<notin> {[], ''.''}" "take 2 d \<noteq> ''..''" "l \<notin> {[], ''..''}"
  shows "safeResolve env (d @ ''/'' @ l @ ''/'') = Some (vhostsRoot env @ (if l = ''.'' then [d] else [d, l]))"
proof -
  have "d \<notin> {[], ''.'', ''..''}" using assms(3,4) by auto
  note r = resolve_mailbox [OF assms(1,2) this assms(5), of "vhostsRoot env"]
  have "relative_path (vhostsRoot env) (resolve_path (vhostsRoot env) (d @ ''/'' @ l @ ''/'')) = d # (if l = ''.'' then [] else [l])"
    unfolding r relative_prefix by simp
  with join_with_safe [OF assms(1) _ assms(4)] assms(3) r show ?thesis
    by (auto simp: safeResolve_def Let_def simp del: join_with.simps)
qed

section \<open>Requests\<close>

definition erases_under :: "mail_env \<Rightarrow> mail_state \<Rightarrow> mail_state \<Rightarrow> bool" where
  "erases_under env st st' = (\<forall>t \<in> set (ms_erased st'). t \<in> set (ms_erased st) \<or> (\<exists>x xs. t = vhostsRoot env @ x # xs))"

lemma erases_none: "ms_erased st' = ms_erased st \<Longrightarrow> erases_under env st st'"
  by (simp add: erases_under_def)

lemma rcp_remove_erases:
  assumes "rcp_remove env ctx i domain st = (res, st')"
  shows "erases_under env st st'"
proof (cases "rcp_get i domain st")
  case (Inr u)
  let ?st1 = "delete_user u (delete_quota_users (vu_email u) st)"
  obtain b st3 where t: "removeRecipientTree env (vu_maildir u) ?st1 = (b, st3)" by fastforce
  have "ms_erased ?st1 = ms_erased st" by (simp add: delete_quota_users_def)
  with removeTree_under [OF t [unfolded removeRecipientTree_def]] have "erases_under env st st3" by (auto simp: erases_under_def)
  with assms Inr t show ?thesis
    by (auto simp: rcp_remove_def Let_def note_recipient_def erases_under_def split: option.splits)
qed (use assms in \<open>simp add: rcp_remove_def erases_under_def\<close>)

lemma dom_remove_erases:
  assumes "dom_remove env i st = (res, st')"
  shows "erases_under env st st'"
proof (cases "dom_get i st")
  case (Inr p)
  obtain d e where p: "p = (d, e)" by (cases p)
  obtain b st3 where t: "removeDomainTree env (vd_domain d) (delete_domain d st) = (b, st3)" by fastforce
  have "ms_erased (delete_domain d st) = ms_erased st" by (simp add: delete_domain_def Let_def)
  with removeTree_under [OF t [unfolded removeDomainTree_def]] have "erases_under env st st3" by (auto simp: erases_under_def)
  with assms Inr p t show ?thesis by (simp add: dom_remove_def)
qed (use assms in \<open>simp add: dom_remove_def erases_under_def\<close>)

lemma insert_user_erased: "insert_user i now u st = (r, st') \<Longrightarrow> ms_erased st' = ms_erased st"
  by (auto simp: insert_user_def insert_quota_user_def Let_def split: if_splits)

lemma rcp_create_erased: "rcp_create env ctx ids b domain owner skip now st = (res, st') \<Longrightarrow> erases_under en st st'"
  by (rule erases_none; auto simp: rcp_create_def Let_def and_then_def note_recipient_def
      split: option.splits if_splits sum.splits prod.splits dest!: insert_user_erased)

lemma rcp_update_erased: "rcp_update env ctx i b domain skip now st = (res, st') \<Longrightarrow> erases_under en st st'"
  by (rule erases_none; auto dest!: rcp_update_effect simp: note_recipient_def save_user_def)

lemma rcp_owner_erased:
  "rcp_assignOwner i domain a st = (res, st') \<Longrightarrow> erases_under en st st'"
  "rcp_clearOwner i domain st = (res, st') \<Longrightarrow> erases_under en st st'"
  by (rule erases_none; auto simp: rcp_assignOwner_def rcp_clearOwner_def Let_def save_user_def split: sum.splits option.splits if_splits)+

lemma alias_erased:
  "als_create ctx n b dm o' now st = (x, st') \<Longrightarrow> erases_under en st st'"
  "als_update ctx i b' dm st = (x, st') \<Longrightarrow> erases_under en st st'"
  "als_remove ctx i dm st = (y, st') \<Longrightarrow> erases_under en st st'"
  "als_assignOwner i dm a st = (x, st') \<Longrightarrow> erases_under en st st'"
  "als_clearOwner i dm st = (x, st') \<Longrightarrow> erases_under en st st'"
  by (rule erases_none; auto simp: als_create_def als_update_def als_remove_def als_assignOwner_def als_clearOwner_def save_alias_def
      note_alias_def Let_def split: sum.splits option.splits if_splits)+

lemma grants_erased:
  "grantOrInvite me n tk a i b url now st = (x, st') \<Longrightarrow> erases_under en st st'"
  "createToken me n tk a i b' url now st = (y, st') \<Longrightarrow> erases_under en st st'"
  "editInvitation i n b' now st = (z, st') \<Longrightarrow> erases_under en st st'"
  "revokeInvitation i n now st = (z, st') \<Longrightarrow> erases_under en st st'"
  "setCaps i a c now st = (w, st') \<Longrightarrow> erases_under en st st'"
  "dl_revoke i a st = (z, st') \<Longrightarrow> erases_under en st st'"
  by (rule erases_none; auto simp: grantOrInvite_def createToken_def editInvitation_def revokeInvitation_def setCaps_def dl_revoke_def
      Let_def and_then_def insert_invitation_def send_invitation_def save_invitation_def upsertRow_def save_delegation_def expire_former_def
      split: sum.splits option.splits if_splits prod.splits)+

lemma dom_update_erased: "dom_update stats i b st = (res, st') \<Longrightarrow> erases_under en st st'"
  by (rule erases_none; drule dom_update_effect; auto simp: save_domain_def)

lemma transferOwner_erased: "transferOwner i me a now st = (res, st') \<Longrightarrow> erases_under en st st'"
  by (rule erases_none; auto simp: transferOwner_def save_domain_def Let_def split: option.splits if_splits)

lemma reserved_erased:
  "reservePostmaster env ids drawn domain now st = (r, st') \<Longrightarrow> ms_erased st' = ms_erased st"
  "ensureDmarcReportsMailbox env hmac ids drawn domain now st = (q, st') \<Longrightarrow> ms_erased st' = ms_erased st"
  by (auto simp: reservePostmaster_def ensureDmarcReportsMailbox_def Let_def and_then_def save_user_def
      split: option.splits prod.splits sum.splits if_splits dest!: insert_user_erased)

lemma dom_create_erased:
  assumes "dom_create env hmac dkim stats dw b a now st = (res, st')"
  shows "erases_under en st st'"
proof (cases "st' = st")
  case False
  from dom_create_effect [OF assms] False obtain d st1 st2 o' where
    "insert_domain (dw_domainCounter dw) now d st = (Inr d, st1)"
    "reservePostmaster env (dw_postmaster dw) (dw_password dw) (vd_domain d) now st1 = (Inr (), st2)"
    "ensureDmarcReportsMailbox env hmac (dw_dmarc dw) (dw_password dw) (vd_domain d) now st2 = (Inr o', st')" by blast
  then show ?thesis using reserved_erased
    by (intro erases_none) (auto simp: insert_domain_def split: if_splits)
qed (simp add: erases_none)

lemma protect_erased:
  "protect ctx t i root st = (res, st') \<Longrightarrow> erases_under en st st'"
  "unprotect ctx t i st = (res, st') \<Longrightarrow> erases_under en st st'"
  by (rule erases_none; auto simp: protect_def unprotect_def and_then_def setProtected_def Let_def
      split: sum.splits prod.splits option.splits if_splits)+

lemma handle_erases:
  assumes "handle env u d now r st = (res, st')"
  shows "erases_under (re_mail env) st st'"
proof (cases r)
  case (MyCreateRecipient b)
  with assms show ?thesis by (auto dest!: done_with_state my_create_run rcp_create_erased simp: erases_none)
next
  case DeleteDomain
  with assms show ?thesis by (auto dest: dom_remove_erases simp: erases_none split: sum.splits)
qed (use assms in
  \<open>auto simp: erases_none dest!: on_domain_run unprotected_then_run done_with_state my_alias_create_run my_update_run my_delete_run
       my_alias_update_run my_alias_delete_run
     dest: rcp_create_erased rcp_update_erased rcp_remove_erases rcp_owner_erased alias_erased grants_erased dom_update_erased
       transferOwner_erased dom_create_erased protect_erased\<close>)

lemma serve_erases:
  assumes "serve env u d now r st = (res, st')"
  shows "erases_under (re_mail env) st st'"
  using serve_run [OF assms] handle_erases by (auto simp: erases_none)

end
