(* ===== verification/Refusals.thy ===== *)
theory Refusals imports RequestBooks begin

text \<open>
  What a refused request leaves: the tables as they were. The one exception is an invitation whose
  mail cannot be handed over, which stays written.
\<close>

definition refuses :: "('a, mail_state) outcome \<Rightarrow> mail_state \<Rightarrow> bool" where
  "refuses r st = (\<forall>e. fst r = Inl e \<longrightarrow> snd r = st)"

lemma refuses_run: "refuses r st \<Longrightarrow> r = (Inl e, st') \<Longrightarrow> st' = st"
  by (simp add: refuses_def)

lemma refuses_value [simp]: "refuses (Inr x, st') st" "refuses (Inl e, st') st = (st' = st)"
  by (simp_all add: refuses_def)

lemma rcp_refuses:
  "refuses (rcp_create env ctx ids b domain owner skip now st) st"
  "refuses (rcp_update env ctx i b' domain skip now st) st"
  "refuses (rcp_remove env ctx i domain st) st"
  "refuses (rcp_assignOwner i domain a st) st"
  "refuses (rcp_clearOwner i domain st) st"
proof -
  show "refuses (rcp_create env ctx ids b domain owner skip now st) st"
    using rcp_create_effect [of env ctx ids b domain owner skip now st] by (metis Inl_Inr_False prod.collapse refuses_def)
  show "refuses (rcp_update env ctx i b' domain skip now st) st"
    using rcp_update_effect [of env ctx i b' domain skip now st] by (metis Inl_Inr_False prod.collapse refuses_def)
  show "refuses (rcp_remove env ctx i domain st) st"
    using rcp_remove_effect [of env ctx i domain st] by (metis Inl_Inr_False prod.collapse refuses_def)
qed (auto simp: rcp_assignOwner_def rcp_clearOwner_def Let_def split: sum.splits option.splits)

lemma alias_refuses:
  "refuses (als_create ctx n b dm o' now st) st" "refuses (als_update ctx i b' dm st) st" "refuses (als_remove ctx i dm st) st"
  "refuses (als_assignOwner i dm a st) st" "refuses (als_clearOwner i dm st) st"
  by (auto simp: als_create_def als_update_def als_remove_def als_assignOwner_def als_clearOwner_def Let_def
      split: sum.splits option.splits)

lemma grants_refuse:
  "refuses (createToken me n tk a i b' url now st) st" "refuses (editInvitation i n b'' now st) st"
  "refuses (revokeInvitation i n now st) st" "refuses (setCaps i a c now st) st" "refuses (dl_revoke i a st) st"
  by (auto simp: createToken_def editInvitation_def revokeInvitation_def setCaps_def dl_revoke_def Let_def and_then_def
      insert_invitation_def split: sum.splits option.splits prod.splits if_splits)

lemma insert_user_refuses: "refuses (insert_user i now u st) st"
  by (auto simp: insert_user_def Let_def)

lemma transaction_refuses: "refuses (transaction st r) st"
  by (auto simp: transaction_def refuses_def split: prod.splits sum.splits)

lemma and_then_refuses: "refuses r st \<Longrightarrow> (\<And>a s. refuses (f a s) st) \<Longrightarrow> refuses (and_then r f) st"
  by (cases r) (auto simp: and_then_def split: sum.splits)

lemma dom_create_refuses: "refuses (dom_create env hmac dkim stats dw b a now st) st"
  unfolding dom_create_def Let_def
  by (auto intro!: and_then_refuses transaction_refuses split: sum.split)

lemma domain_refuses:
  "refuses (dom_update stats i b' st) st" "refuses (dom_remove env i st) st" "refuses (transferOwner i me a now st) st"
  by (auto simp: dom_update_def dom_remove_def transferOwner_def Let_def split: sum.splits option.splits prod.splits)

lemma protect_refuses: "refuses (protect ctx t i root st) st" "refuses (unprotect ctx t i st) st"
  by (auto simp: protect_def unprotect_def and_then_def setProtected_def Let_def split: sum.splits option.splits prod.splits)

lemma done_with_refuses: "refuses r st \<Longrightarrow> refuses (done_with r) st"
  by (cases r) (auto simp: done_with_def refuses_def split: sum.splits)

lemma on_domain_refuses: "(\<And>d s. refuses (f d s) s) \<Longrightarrow> refuses (on_domain i p f st) st"
  by (auto simp: on_domain_def intro: done_with_refuses split: sum.splits option.splits prod.splits)

section \<open>Under a delegation\<close>

text \<open>The row an account has just created or changed is found again: reading it back does not fail.\<close>

lemma reads_back:
  assumes "u \<in> set (ms_users st)" "vu_id u = i" "vu_ownerId u = Some a"
  shows "\<exists>v. my_getRecipient a i st = Inr v"
proof -
  have "List.find (\<lambda>r. vu_id r = i \<and> vu_ownerId r = Some a) (ms_users st) \<noteq> None"
    using assms by (auto simp: find_None_iff)
  then obtain r where r: "List.find (\<lambda>r. vu_id r = i \<and> vu_ownerId r = Some a) (ms_users st) = Some r" by auto
  then have "r \<in> set (ms_users st)" by (auto dest: find_in_set)
  then have "List.find (\<lambda>x. vu_id x = vu_id r \<and> vu_domain x = vu_domain r) (ms_users st) \<noteq> None" by (auto simp: find_None_iff)
  with r show ?thesis by (auto simp: my_getRecipient_def ownedRecipient_def getWithUsage_def rcp_get_def split: option.splits)
qed

lemma reads_alias_back:
  assumes "x \<in> set (ms_aliases st)" "va_id x = i" "va_ownerId x = Some a"
  shows "\<exists>v. my_getAlias a i st = Inr v"
proof -
  have "List.find (\<lambda>r. va_id r = i \<and> va_ownerId r = Some a) (ms_aliases st) \<noteq> None"
    using assms by (auto simp: find_None_iff)
  then show ?thesis by (auto simp: my_getAlias_def ownedAlias_def split: option.splits)
qed

lemma my_create_refuses: "refuses (my_createRecipient env ctx ids a d b now st) st"
proof (cases "\<exists>n r. rcp_resolveDomain d st = Inr n \<and> assertCanCreateRecipient a d (nr_quota b) st = Inr r")
  case True
  then obtain n r where n: "rcp_resolveDomain d st = Inr n" "assertCanCreateRecipient a d (nr_quota b) st = Inr r" by blast
  obtain res st1 where run: "rcp_create env ctx ids b n (Some a) True now st = (res, st1)" by fastforce
  from rcp_create_effect [OF run] show ?thesis
  proof
    assume "\<exists>u. res = Inr u \<and> ms_users st1 = ms_users st @ [u] \<and> same_grants st st1 \<and> ms_aliases st1 = ms_aliases st
        \<and> vu_id u = ui_row ids \<and> vu_ownerId u = Some a \<and> vu_domain u = n \<and> vu_quota u = nr_quota b
        \<and> vu_email u = nr_localPart b @ ''@'' @ n \<and> vu_isProtected u = 0
        \<and> vu_email u \<notin> vu_email ` set (ms_users st) \<and> n \<in> vd_domain ` set (ms_domains st)
        \<and> (True \<or> assertQuotaFitsDomain n (nr_quota b) None now st = Inr ())"
    then obtain u where u: "res = Inr u" "ms_users st1 = ms_users st @ [u]" "vu_ownerId u = Some a" by blast
    then obtain v where "my_getRecipient a (vu_id u) st1 = Inr v" using reads_back [of u st1] by auto
    with n run u(1) show ?thesis by (simp add: my_createRecipient_def and_then_def)
  qed (use n run in \<open>auto simp: my_createRecipient_def and_then_def\<close>)
qed (auto simp: my_createRecipient_def split: sum.splits)

lemma my_update_refuses:
  assumes ids: "distinct (map vu_id (ms_users st))"
  shows "refuses (my_updateRecipient env ctx a i b now st) st"
proof (cases "ownedRecipient a i st")
  case (Inr u)
  then have u: "u \<in> set (ms_users st)" "vu_id u = i" "vu_ownerId u = Some a" using ownedRecipient_in [OF Inr] by auto
  obtain res st1 where run: "rcp_update env ctx i b (vu_domain u) (ur_quota b \<noteq> None) now st = (res, st1)" by fastforce
  from rcp_update_effect [OF run] show ?thesis
  proof
    assume "\<exists>w. rcp_get i (vu_domain u) st = Inr w \<and> res = Inr (changed_user env b w)
        \<and> st1 = note_recipient ctx ''recipients.updated'' i (save_user (changed_user env b w) st)
        \<and> quota_change_ok b w (vu_domain u) (ur_quota b \<noteq> None) now st = Inr () \<and> reservedLocalPartOf (vu_email w) (vu_domain u) = None"
    then obtain w where w: "rcp_get i (vu_domain u) st = Inr w" "res = Inr (changed_user env b w)"
      "st1 = note_recipient ctx ''recipients.updated'' i (save_user (changed_user env b w) st)" by blast
    have "w = u" using rcp_get_in [OF w(1)] u ids by (auto simp: distinct_map dest: inj_onD)
    then have "changed_user env b u \<in> set (ms_users st1)" using u(1) w(3)
      by (auto simp: note_recipient_def save_user_def set_save_row)
    with u obtain v where "my_getRecipient a i st1 = Inr v"
      using reads_back [of "changed_user env b u" st1 i a] by (auto simp: changed_user_def)
    then show ?thesis
      using Inr u(2) run w(2) by (auto simp: my_updateRecipient_def and_then_def split: sum.splits)
  qed (use Inr u(2) run in \<open>auto simp: my_updateRecipient_def and_then_def split: sum.splits\<close>)
qed (simp add: my_updateRecipient_def)

lemma my_delete_refuses: "refuses (my_deleteRecipient env ctx a i st) st"
  by (simp add: my_deleteRecipient_def rcp_refuses split: sum.split)

lemma my_create_alias_refuses: "refuses (my_createAlias ctx n a d b now st) st"
proof (cases "\<exists>x r. als_resolveDomain d st = Inr x \<and> assertCanCreateAlias a d st = Inr r")
  case True
  then obtain x r where x: "als_resolveDomain d st = Inr x" "assertCanCreateAlias a d st = Inr r" by blast
  show ?thesis
  proof (cases "als_create ctx n b x (Some a) now st")
    case (Pair res st1)
    show ?thesis
    proof (cases res)
      case (Inl e)
      with alias_refuses(1) [of ctx n b x "Some a" now st] Pair x show ?thesis by (simp add: my_createAlias_def)
    next
      case (Inr c)
      with Pair have "c \<in> set (ms_aliases st1) \<and> va_ownerId c = Some a"
        by (auto simp: als_create_def Let_def split: sum.splits)
      then obtain v where "my_getAlias a (va_id c) st1 = Inr v" using reads_alias_back [of c st1] by auto
      with Inr Pair x show ?thesis by (simp add: my_createAlias_def)
    qed
  qed
qed (auto simp: my_createAlias_def split: sum.splits)

lemma my_update_alias_refuses:
  assumes ids: "distinct (map va_id (ms_aliases st))"
  shows "refuses (my_updateAlias ctx a i b st) st"
proof (cases "ownedAlias a i st")
  case (Inr x)
  then have x: "x \<in> set (ms_aliases st)" "va_id x = i" "va_ownerId x = Some a" using ownedAlias_in [OF Inr] by auto
  let ?b = "b\<lparr>pa_localPart := None\<rparr>"
  show ?thesis
  proof (cases "als_update ctx i ?b (va_domain x) st")
    case (Pair res st1)
    show ?thesis
    proof (cases res)
      case (Inl e)
      with alias_refuses(2) [of ctx i ?b "va_domain x" st] Pair Inr x show ?thesis by (simp add: my_updateAlias_def)
    next
      case (Inr c)
      with Pair obtain w where w: "als_get i (va_domain x) st = Inr w" "c = changed_alias ?b w"
        "st1 = note_alias ctx ''aliases.updated'' i (save_alias c st)"
        by (auto simp: als_update_def Let_def split: sum.splits)
      have "w = x" using als_get_in [OF w(1)] x ids by (auto simp: distinct_map dest: inj_onD)
      with w x have "c \<in> set (ms_aliases st1) \<and> va_id c = i \<and> va_ownerId c = Some a"
        by (auto simp: save_alias_def set_save_row changed_alias_def)
      then obtain v where "my_getAlias a i st1 = Inr v" using reads_alias_back [of c st1] by auto
      with \<open>ownedAlias a i st = Inr x\<close> Inr Pair x show ?thesis by (simp add: my_updateAlias_def)
    qed
  qed
qed (simp add: my_updateAlias_def)

lemma my_delete_alias_refuses: "refuses (my_deleteAlias ctx a i st) st"
  by (simp add: my_deleteAlias_def alias_refuses split: sum.split)

section \<open>Requests\<close>

lemma unprotected_then_refuses: "refuses (f st) st \<Longrightarrow> refuses (unprotected_then type i f st) st"
  by (auto simp: unprotected_then_def intro: done_with_refuses split: sum.splits)

lemma handle_refuses:
  assumes "tables_sound st" "\<And>b. r \<noteq> InviteDelegate b"
  shows "refuses (handle env u d now r st) st"
proof -
  have ids: "distinct (map vu_id (ms_users st))" "distinct (map va_id (ms_aliases st))"
    using assms(1) by (simp_all add: tables_sound_parts users_fine_def users_sound_def aliases_fine_def)
  from assms(2) show ?thesis
    by (cases r) (auto intro!: done_with_refuses unprotected_then_refuses on_domain_refuses rcp_refuses alias_refuses grants_refuse
      dom_create_refuses domain_refuses protect_refuses my_create_refuses my_update_refuses [OF ids(1)] my_delete_refuses my_create_alias_refuses
      my_update_alias_refuses [OF ids(2)] my_delete_alias_refuses split: sum.split)
qed

lemma serve_refuses:
  assumes "tables_sound st" "\<And>b. r \<noteq> InviteDelegate b"
  shows "refuses (serve env u d now r st) st"
  using handle_refuses [OF assms] by (simp add: serve_def split: sum.split)

end
