(* ===== verification/MailRuns.thy ===== *)
theory MailRuns imports RequestBooks begin

text \<open>
  Runs of the mail administration: requests served one after another, dovecot counting between them, time
  going by. Along a run the tables stay well-formed and, ownership and quotas left alone, every domain stays
  covered by its quota.
\<close>

section \<open>Runs\<close>

text \<open>
  From a state at a time to a later one. \<open>allowed\<close> narrows the requests that are looked at; \<open>drawn_fresh\<close> is
  what the database's own numbering gives.
\<close>

inductive mail_run ::
  "(guard_user \<Rightarrow> mail_request \<Rightarrow> mail_state \<Rightarrow> bool) \<Rightarrow> mail_state \<Rightarrow> time \<Rightarrow> mail_state \<Rightarrow> time \<Rightarrow> bool"
  for allowed s t where
  start: "mail_run allowed s t s t"
| later: "mail_run allowed s t st now \<Longrightarrow> now \<le> now' \<Longrightarrow> mail_run allowed s t st now'"
| counts: "mail_run allowed s t st now \<Longrightarrow> mail_run allowed s t (dovecot_counts email bytes messages st) now"
| served: "mail_run allowed s t st now \<Longrightarrow> drawn_fresh env st \<Longrightarrow> allowed u r st \<Longrightarrow>
    serve env u d now r st = (res, st') \<Longrightarrow> mail_run allowed s t st' now"

definition any_request :: "guard_user \<Rightarrow> mail_request \<Rightarrow> mail_state \<Rightarrow> bool" where
  "any_request u r st = True"

lemma dovecot_counts_tables [simp]:
  "ms_domains (dovecot_counts m b k st) = ms_domains st" "ms_users (dovecot_counts m b k st) = ms_users st"
  "ms_aliases (dovecot_counts m b k st) = ms_aliases st" "ms_delegations (dovecot_counts m b k st) = ms_delegations st"
  "ms_invitations (dovecot_counts m b k st) = ms_invitations st" "ms_erased (dovecot_counts m b k st) = ms_erased st"
  "ms_accounts (dovecot_counts m b k st) = ms_accounts st"
  by (simp_all add: dovecot_counts_def)

lemma run_sound: "mail_run allowed s t st now \<Longrightarrow> tables_sound s \<Longrightarrow> tables_sound st"
proof (induction rule: mail_run.induct)
  case (counts st now email bytes messages)
  then show ?case by (simp add: same_tables_sound [of st "dovecot_counts email bytes messages st"])
next
  case (served st now env u r d res st')
  from served.IH [OF served.prems] served.hyps(2,4) show ?case by (rule serve_sound)
qed

section \<open>Cover\<close>

text \<open>
  \<open>delegations.service.ts\<close> asks that a domain's quota always cover the mailboxes, the pending offers and the
  unused part of every delegation. A quota of zero is no limit.
\<close>

definition covered :: "time \<Rightarrow> mail_state \<Rightarrow> bool" where
  "covered now st = (\<forall>e \<in> set (ms_domains st). 0 < vd_quota e \<longrightarrow> committed now e st \<le> vd_quota e)"

text \<open>An offer that has run out promises nothing any more.\<close>

lemma committed_later:
  assumes "offers_sound st" "now \<le> now'"
  shows "committed now' e st \<le> committed now e st"
proof -
  have "promised_on now' e i \<le> promised_on now e i" if "i \<in> set (ms_invitations st)" for i
    using assms that by (auto simp: promised_on_def stillPending_def offers_sound_def split: option.splits)
  then have "sum_list (map (promised_on now' e) (ms_invitations st)) \<le> sum_list (map (promised_on now e) (ms_invitations st))"
    by (rule sum_list_mono)
  then show ?thesis by (simp add: committed_def pending_promised)
qed

lemma serve_books:
  assumes sound: "tables_sound st" and fresh: "drawn_fresh env st" and op: "serve env u d now r st = (res, st')"
    and e: "e \<in> set (ms_domains st)" "0 < vd_quota e" "\<exists>e' \<in> set (ms_domains st'). vd_id e' = vd_id e"
    and r: "\<not> moves_ownership r" "spends_grant r \<Longrightarrow> baseline_kept (gu_id u) e st"
  shows "committed now e st' \<le> max (committed now e st) (vd_quota e)"
proof (cases "st' = st")
  case False
  with serve_run [OF op] have body: "body_ok r" and run: "handle env u d now r st = (res, st')" by auto
  show ?thesis by (rule handle_books [OF sound fresh body run e r])
qed simp

lemma committed_unknown:
  assumes sound: "tables_sound st" and new: "vd_domain e \<notin> vd_domain ` set (ms_domains st)"
    "vd_id e \<notin> dd_domainId ` set (ms_delegations st)" "Some (vd_id e) \<notin> iv_delegationDomainId ` set (ms_invitations st)"
  shows "committed now e st = 0"
proof -
  have none: "filter (\<lambda>r. vu_domain r = vd_domain e \<and> owned_by None (vu_ownerId r)) (ms_users st) = []"
  proof -
    have "vd_domain e \<noteq> vu_domain x" if "x \<in> set (ms_users st)" for x
      using sound new(1) that by (auto simp: tables_sound_parts users_fine_def users_sound_iff)
    then show ?thesis unfolding filter_empty_conv by metis
  qed
  have users: "sumQuota (vd_domain e) None st = 0" unfolding sumQuota_def sum_where_def none by simp
  have "delegations_on (vd_id e) st = []" 
    using new(2) unfolding delegations_on_def filter_empty_conv by (metis image_eqI)
  moreover have "sum_list (map (promised_on now e) (ms_invitations st)) = sum_list (map (\<lambda>i. 0) (ms_invitations st))"
    using new(3) by (intro sum_list_change_none) (auto simp: promised_on_def image_iff)
  then have "pendingReservedBytes (vd_id e) None now st = 0" by (simp add: pending_promised)
  ultimately show ?thesis using users by (simp add: committed_def reserve_sum_def)
qed

lemma born_books:
  assumes sound: "tables_sound st" and fresh: "drawn_fresh env st" and body: "body_ok r"
    and op: "handle env u d now r st = (res, st')" and e': "e' \<in> set (ms_domains st')" "domain_born env r e'"
  shows "committed now e' st' \<le> 0"
proof -
  obtain b where b: "r = CreateDomain b" "vd_id e' = dw_domainId (re_draws env)"
    using e'(2) by (auto simp: domain_born_def)
  with op obtain x where x: "dom_create (re_mail env) (re_hmac env) (re_dkim env) (re_stats env) (re_draws env) b (gu_id u) now st = (x, st')"
    by (auto dest: done_with_state)
  have f: "dw_domainId (re_draws env) \<notin> vd_id ` set (ms_domains st)" "ui_row (dw_postmaster (re_draws env)) \<notin> vu_id ` set (ms_users st)"
    and ids: "vd_id e' \<notin> dd_domainId ` set (ms_delegations st)" "Some (vd_id e') \<notin> iv_delegationDomainId ` set (ms_invitations st)"
    using fresh b(2) by (auto simp: drawn_fresh_def)
  have name: "toLowerCase (nd_domain b) = nd_domain b" using body b(1) by (auto intro: valid_fqdn_lower)
  have old: "e' \<notin> set (ms_domains st)" using f(1) b(2) by (metis image_eqI)
  with e'(1) dom_create_books(2) [OF sound x name f] have last: "ms_domains st' = ms_domains st @ [e']"
    by auto
  have "domains_sound st'" using handle_sound [OF sound fresh body op] by (simp add: tables_sound_parts)
  with last have "vd_domain e' \<notin> vd_domain ` set (ms_domains st)" by (simp add: domains_sound_def)
  from committed_unknown [OF sound this ids] dom_create_books(1) [OF sound x name f]
  show ?thesis by metis
qed

lemma serve_covered:
  assumes sound: "tables_sound st" and fresh: "drawn_fresh env st" and op: "serve env u d now r st = (res, st')"
    and cov: "covered now st" and r: "\<not> moves_ownership r" "\<forall>q. r \<noteq> ResizeQuota q"
      "spends_grant r \<Longrightarrow> \<forall>e \<in> set (ms_domains st). baseline_kept (gu_id u) e st"
  shows "covered now st'"
proof (cases "st' = st")
  case False
  with serve_run [OF op] have body: "body_ok r" and run: "handle env u d now r st = (res, st')" by auto
  show ?thesis unfolding covered_def
  proof (intro ballI impI)
    fix e' assume e': "e' \<in> set (ms_domains st')" "0 < vd_quota e'"
    from handle_domains [OF sound fresh body run e'(1)] show "committed now e' st' \<le> vd_quota e'"
    proof (elim disjE bexE)
      fix e assume e: "e \<in> set (ms_domains st)" "same_domain r e e'"
      with r(2) have eq: "vd_id e' = vd_id e" "vd_domain e' = vd_domain e" "vd_quota e' = vd_quota e"
        by (auto simp: same_domain_def)
      have "committed now e st' \<le> max (committed now e st) (vd_quota e)"
        using e' eq r(3) e(1) by (intro handle_books [OF sound fresh body run e(1) _ _ r(1)]) auto
      with cov e(1) e'(2) eq committed_same_domain [OF eq(1,2)] show ?thesis by (auto simp: covered_def max_def)
    next
      assume "domain_born env r e'"
      from born_books [OF sound fresh body run e'(1) this] e'(2) show ?thesis by simp
    qed
  qed
qed (use cov in simp)

definition keeps_cover :: "guard_user \<Rightarrow> mail_request \<Rightarrow> mail_state \<Rightarrow> bool" where
  "keeps_cover u r st = (\<not> moves_ownership r \<and> (\<forall>q. r \<noteq> ResizeQuota q)
     \<and> (spends_grant r \<longrightarrow> (\<forall>e \<in> set (ms_domains st). baseline_kept (gu_id u) e st)))"

lemma run_covered: "mail_run keeps_cover s t st now \<Longrightarrow> tables_sound s \<Longrightarrow> covered t s \<Longrightarrow> covered now st"
proof (induction rule: mail_run.induct)
  case (later st now now')
  have "offers_sound st" using run_sound [OF later.hyps(1) later.prems(1)] by (simp add: tables_sound_parts)
  from committed_later [OF this later.hyps(2)] later.IH [OF later.prems] show ?case
    unfolding covered_def by (meson order_trans)
next
  case (counts st now email bytes messages)
  have "committed now e (dovecot_counts email bytes messages st) = committed now e st" for e by (rule committed_cong) simp_all
  with counts show ?case by (simp add: covered_def)
next
  case (served st now env u r d res st')
  with run_sound [OF served.hyps(1) served.prems(1)] show ?case
    by (intro serve_covered [of st env u d now r res st']) (auto simp: keeps_cover_def)
qed

end
