(* ===== verification/MailSafety.thy ===== *)
theory MailSafety imports MailRuns Occupancy ProtectedRows Erasure Refusals begin

text \<open>
  The mail administration as a running system: requests served one after another, dovecot counting between
  them, time going by. What holds along every such run is stated here: the tables stay well-formed, no domain
  is committed beyond its quota, a protected row stays as it is, and nothing outside the volume is erased.
\<close>

section \<open>A small instance\<close>

text \<open>A domain of a hundred megabytes, all of it granted to the account \<open>d\<close>, and a protected mailbox.\<close>

definition toy_mail_env :: mail_env where
  "toy_mail_env = \<lparr>me_managerUrl = None, me_mailFails = (\<lambda>_. False), me_openssl = (\<lambda>salt plain. ''$6$'' @ salt @ ''$'' @ plain),
     me_salt = ''s'', me_eraseFails = (\<lambda>_. False), me_mailVolume = ''/var/mail''\<rparr>"

definition toy_route_env :: "int \<Rightarrow> route_env" where
  "toy_route_env n = \<lparr>re_mail = toy_mail_env,
     re_guard = \<lparr>gl_global = (\<lambda>_ _ _. Refused), gl_domain = (\<lambda>_ _ _ _. Refused)\<rparr>, re_ctx = None,
     re_stats = \<lparr>vs_blocks = 1000, vs_bavail = 1000, vs_bsize = MB\<rparr>, re_baseUrl = ''u'', re_row = n, re_token = ''t'',
     re_ids = \<lparr>ui_row = n, ui_counter = n\<rparr>,
     re_draws = \<lparr>dw_domainId = n, dw_domainCounter = n, dw_postmaster = \<lparr>ui_row = n, ui_counter = n\<rparr>,
       dw_dmarc = \<lparr>ui_row = n + 1, ui_counter = n + 1\<rparr>, dw_password = ''p''\<rparr>, re_hmac = None, re_dkim = (\<lambda>_. None)\<rparr>"

definition toy_domain :: virtual_domain where
  "toy_domain = \<lparr>vd_id = 1, vd_ownerId = Some ''o'', vd_domain = ''a.io'', vd_quota = 100 * MB, vd_active = 1, vd_isProtected = 0,
     vd_userStartDate = UNBOUNDED_START_DATE, vd_userEndDate = None, vd_lastActivity = 0, vd_createdAt = 0\<rparr>"

definition toy_user :: virtual_user where
  "toy_user = \<lparr>vu_id = 1, vu_ownerId = None, vu_domain = ''a.io'', vu_email = ''k@a.io'', vu_password = [], vu_maildir = ''a.io/k/'',
     vu_quota = 0, vu_active = 1, vu_isProtected = 1, vu_uid = ''vmail'', vu_gid = ''vmail'',
     vu_userStartDate = UNBOUNDED_START_DATE, vu_userEndDate = None, vu_lastActivity = None, vu_createdAt = 0\<rparr>"

definition toy_grant :: domain_delegation where
  "toy_grant = \<lparr>dd_id = 1, dd_accountId = ''d'', dd_domainId = 1, dd_maxRecipients = None, dd_maxAliases = None, dd_quotaMb = 100,
     dd_baseRecipients = 0, dd_baseAliases = 0, dd_baseBytes = 0, dd_createdBy = Some ''o'', dd_createdAt = 0, dd_updatedAt = 0\<rparr>"

definition toy_mail :: mail_state where
  "toy_mail = \<lparr>ms_domains = [toy_domain], ms_users = [toy_user], ms_aliases = [],
     ms_quotaUsers = [\<lparr>vqu_id = 1, vqu_domain = ''a.io'', vqu_email = ''k@a.io'', vqu_bytes = 7, vqu_messages = 1, vqu_lastActivity = 0\<rparr>],
     ms_quotaDomains = [\<lparr>vqd_id = 1, vqd_domain = ''a.io'', vqd_bytes = 7, vqd_messages = 1, vqd_lastActivity = 0\<rparr>],
     ms_delegations = [toy_grant], ms_invitations = [], ms_accounts = [], ms_journal = [], ms_audit = [], ms_mails = [], ms_erased = []\<rparr>"

definition toy_delegate :: guard_user where "toy_delegate = \<lparr>gu_id = ''d'', gu_isRoot = False\<rparr>"
definition toy_owner :: guard_user where "toy_owner = \<lparr>gu_id = ''o'', gu_isRoot = False\<rparr>"

definition toy_body :: "string \<Rightarrow> int \<Rightarrow> create_recipient" where
  "toy_body part mb = \<lparr>nr_localPart = part, nr_password = ''pppppppp'', nr_quota = mb * MB, nr_active = None,
     nr_userStartDate = None, nr_userEndDate = None\<rparr>"

lemma toy_sound: "tables_sound toy_mail"
proof -
  have "users_sound toy_mail"
    by (auto simp: users_sound_def toy_mail_def toy_user_def toy_domain_def intro: exI [of _ "''k''"])
  then show ?thesis
    by (simp add: tables_sound_def mail_rows_sound_def domains_sound_def offers_sound_def grants_sound_def one_grant_each_def
        toy_mail_def toy_user_def toy_grant_def)
qed

lemma toy_fresh: "drawn_fresh (toy_route_env 2) toy_mail"
  by (simp add: drawn_fresh_def toy_route_env_def toy_mail_def toy_domain_def toy_user_def toy_grant_def)

lemma toy_occupancy: "occupancy_ok toy_mail"
  by (simp add: occupancy_ok_def counted_def sum_where_def toy_mail_def toy_user_def)

lemma toy_covered: "covered 5 toy_mail" "covered 0 toy_mail"
  by code_simp+

lemma toy_baseline: "baseline_kept ''d'' toy_domain toy_mail" by code_simp

text \<open>The delegate opens a mailbox of forty megabytes.\<close>

definition toy_mail_after :: mail_state where
  "toy_mail_after = snd (serve (toy_route_env 2) toy_delegate 1 5 (MyCreateRecipient (toy_body ''x'' 40)) toy_mail)"

lemma toy_served: "serve (toy_route_env 2) toy_delegate 1 5 (MyCreateRecipient (toy_body ''x'' 40)) toy_mail = (Inr (), toy_mail_after)"
proof -
  have "fst (serve (toy_route_env 2) toy_delegate 1 5 (MyCreateRecipient (toy_body ''x'' 40)) toy_mail) = Inr ()" by code_simp
  then show ?thesis unfolding toy_mail_after_def by (metis prod.collapse)
qed

lemma toy_run:
  assumes "allowed toy_delegate (MyCreateRecipient (toy_body ''x'' 40)) toy_mail"
  shows "mail_run allowed toy_mail 0 toy_mail_after 5"
proof (rule mail_run.served [where allowed = allowed, OF _ toy_fresh assms toy_served])
  show "mail_run allowed toy_mail 0 toy_mail 5" by (rule mail_run.later [OF mail_run.start]) simp
qed

lemma toy_keeps_cover: "keeps_cover toy_delegate (MyCreateRecipient (toy_body ''x'' 40)) toy_mail"
  using toy_baseline by (simp add: keeps_cover_def moves_ownership_def toy_mail_def toy_delegate_def)

section \<open>Invariants of every run\<close>

text \<open>C22: Whatever requests are served, whoever sends them, with dovecot counting and time passing in between, the mail tables stay well-formed: unique keys, one delegation per account and domain, every mailbox in an existing domain under an address of that domain, no negative quota.\<close>
theorem mail_tables_stay_sound:
  assumes "mail_run allowed s t st now" "tables_sound s"
  shows "tables_sound st"
  using assms by (rule run_sound)

theorem mail_tables_stay_sound_witness: "tables_sound toy_mail_after \<and> length (ms_users toy_mail_after) = 2"
proof -
  have "tables_sound toy_mail_after"
    by (rule mail_tables_stay_sound [OF toy_run toy_sound, where allowed = any_request]) (simp add: any_request_def)
  moreover have "length (ms_users toy_mail_after) = 2" by code_simp
  ultimately show ?thesis by simp
qed

text \<open>C5: The anti-overcommit rule of \<open>delegations.service.ts\<close>: along every run in which no mailbox changes hands, no domain is resized and no delegate has dropped below what it owned before its grant, the quota of each domain keeps covering its mailboxes, the pending offers and the unused part of every delegation, through every grant, invitation, edition, revocation, creation, resizing and deletion, and as offers run out.\<close>
theorem domains_stay_covered:
  assumes "mail_run keeps_cover s t st now" "tables_sound s" "covered t s"
  shows "covered now st"
  using assms by (rule run_covered)

theorem domains_stay_covered_witness: "covered 5 toy_mail_after \<and> committed 5 toy_domain toy_mail_after = 100 * MB"
proof -
  have "covered 5 toy_mail_after" by (rule domains_stay_covered [OF toy_run [where allowed = keeps_cover, OF toy_keeps_cover] toy_sound toy_covered(2)])
  moreover have "committed 5 toy_domain toy_mail_after = 100 * MB" by code_simp
  ultimately show ?thesis by simp
qed

text \<open>C24: One request commits no domain further than the larger of what was already committed and its quota, also on a domain that was overcommitted before: every route but the two that move a mailbox's owner, a delegate's own routes under the condition that it still owns what it owned before its grant.\<close>
theorem request_commits_within_quota:
  assumes "tables_sound st" "drawn_fresh env st" "serve env u d now r st = (res, st')"
    "e \<in> set (ms_domains st)" "0 < vd_quota e" "\<exists>e' \<in> set (ms_domains st'). vd_id e' = vd_id e"
    "\<not> moves_ownership r" "spends_grant r \<Longrightarrow> baseline_kept (gu_id u) e st"
  shows "committed now e st' \<le> max (committed now e st) (vd_quota e)"
  using assms by (rule serve_books)

theorem request_commits_within_quota_witness: "committed 5 toy_domain toy_mail_after \<le> 100 * MB"
proof -
  have "committed 5 toy_domain toy_mail_after \<le> max (committed 5 toy_domain toy_mail) (vd_quota toy_domain)"
  proof (rule request_commits_within_quota [OF toy_sound toy_fresh toy_served])
    show "\<exists>e' \<in> set (ms_domains toy_mail_after). vd_id e' = vd_id toy_domain" by code_simp
    show "baseline_kept (gu_id toy_delegate) toy_domain toy_mail" using toy_baseline by (simp add: toy_delegate_def)
  qed (simp_all add: toy_mail_def toy_domain_def moves_ownership_def)
  moreover have "max (committed 5 toy_domain toy_mail) (vd_quota toy_domain) = 100 * MB" by code_simp
  ultimately show ?thesis by simp
qed

section \<open>Occupancy\<close>

lemma run_tracks:
  assumes "mail_run allowed s t st now" "tables_sound s" "occupancy_ok s"
  shows "occupancy_ok st \<and> occ_step\<^sup>*\<^sup>* (occupancy s) (occupancy st)"
  using assms
proof (induction rule: mail_run.induct)
  case (counts st now email bytes messages)
  from counts.IH [OF counts.prems] dovecot_counts_steps [of st email bytes messages] show ?case by (meson rtranclp_trans)
next
  case (served st now env u r d res st')
  have sound: "tables_sound st" using run_sound [OF served.hyps(1) served.prems(1)] .
  then have "users_fine st" by (simp add: tables_sound_parts)
  with served.IH [OF served.prems] serve_tracks [OF sound served.hyps(2,4)] show ?case
    unfolding tracks_def by (meson request_steps rtranclp_trans)
qed simp_all

text \<open>C8: The mailbox counters and the domain totals the triggers maintain implement one abstract map from addresses to what they hold: every run of the services and of dovecot is simulated by steps that open a mailbox empty, recount it, close it or drop a domain, and at its end each row of the per-domain table holds exactly the sums of the map over its domain. Only dovecot recounts: whatever request is served next, a mailbox holds afterwards what it held before, or nothing yet.\<close>
theorem occupancy_refines_map:
  assumes "mail_run allowed s t st now" "tables_sound s" "occupancy_ok s"
  shows "occ_step\<^sup>*\<^sup>* (occupancy s) (occupancy st)
    \<and> (\<forall>q \<in> set (ms_quotaDomains st). vqd_bytes q = total_bytes (occupancy st) (vqd_domain q)
          \<and> vqd_messages q = total_messages (occupancy st) (vqd_domain q))
    \<and> (\<forall>env u r d res st'. drawn_fresh env st \<longrightarrow> serve env u d now r st = (res, st') \<longrightarrow>
         occ_request\<^sup>*\<^sup>* (occupancy st) (occupancy st')
         \<and> (\<forall>m e b k. occupancy st' m = Some (e, b, k) \<longrightarrow> occupancy st m = Some (e, b, k) \<or> b = 0 \<and> k = 0))"
proof -
  have sound: "tables_sound st" using assms(1,2) by (rule run_sound)
  then have fine: "users_fine st" by (simp add: tables_sound_parts)
  have "occ_request\<^sup>*\<^sup>* (occupancy st) (occupancy st')" if "drawn_fresh env st" "serve env u d now r st = (res, st')" for env u r d res st'
    using serve_tracks [OF sound that] run_tracks [OF assms] fine by (simp add: tracks_def)
  with run_tracks [OF assms] totals_kept requests_invent_nothing show ?thesis by metis
qed

theorem occupancy_refines_map_witness:
  "total_bytes (occupancy (dovecot_counts ''x@a.io'' 30 2 toy_mail_after)) ''a.io'' = 37"
proof -
  have "mail_run any_request toy_mail 0 (dovecot_counts ''x@a.io'' 30 2 toy_mail_after) 5"
    by (rule mail_run.counts [OF toy_run]) (simp add: any_request_def)
  from occupancy_refines_map [OF this toy_sound toy_occupancy]
  have "\<forall>q \<in> set (ms_quotaDomains (dovecot_counts ''x@a.io'' 30 2 toy_mail_after)). vqd_bytes q
      = total_bytes (occupancy (dovecot_counts ''x@a.io'' 30 2 toy_mail_after)) (vqd_domain q)" by blast
  moreover have "map (\<lambda>q. (vqd_domain q, vqd_bytes q)) (ms_quotaDomains (dovecot_counts ''x@a.io'' 30 2 toy_mail_after)) = [(''a.io'', 37)]"
    by code_simp
  ultimately show ?thesis by auto
qed

section \<open>Protection\<close>

definition leaves_flags :: "guard_user \<Rightarrow> mail_request \<Rightarrow> mail_state \<Rightarrow> bool" where
  "leaves_flags u r st = (\<not> gu_isRoot u \<or> (\<forall>t i. r \<noteq> Unprotect t i))"

lemma run_keeps_protected:
  assumes "mail_run leaves_flags s t st now" "tables_sound s"
  shows "keeps_protected s st"
  using assms
proof (induction rule: mail_run.induct)
  case (counts st now email bytes messages)
  have "keeps_protected st (dovecot_counts email bytes messages st)" by (rule keeps_supersets) simp_all
  with counts keeps_trans show ?case by blast
next
  case (served st now env u r d res st')
  have "keeps_protected st st'"
    using serve_keeps_protected [OF run_sound [OF served.hyps(1) served.prems] served.hyps(2,4)] served.hyps(3)
    by (auto simp: leaves_flags_def)
  with served.IH [OF served.prems] keeps_trans show ?case by blast
qed simp_all

text \<open>C7: A protected mailbox, alias or domain is out of reach of the mail administration: along every run of its routes (domains, mailboxes, aliases, delegations, personal space and the flag itself) in which no root account lifts a protection, each protected row stays in its table exactly as it was, whoever asks for its update, a change of its owner, its deletion, the removal of its domain or the creation of reserved mailboxes. The two ways past the flag lie outside these routes: accepting an invitation gives a protected row a new owner, and deleting an account takes its owner from it.\<close>
theorem protected_rows_survive:
  assumes "mail_run leaves_flags s t st now" "tables_sound s"
  shows "protected_users s \<subseteq> protected_users st \<and> protected_aliases s \<subseteq> protected_aliases st
    \<and> protected_domains s \<subseteq> protected_domains st"
  using run_keeps_protected [OF assms] by (simp add: keeps_protected_def)

theorem protected_rows_survive_witness: "toy_user \<in> protected_users toy_mail_after"
proof -
  have "protected_users toy_mail \<subseteq> protected_users toy_mail_after"
    using protected_rows_survive [OF toy_run [where allowed = leaves_flags] toy_sound] by (simp add: leaves_flags_def toy_delegate_def)
  moreover have "toy_user \<in> protected_users toy_mail" by (simp add: protected_users_def toy_mail_def toy_user_def)
  ultimately show ?thesis by blast
qed

section \<open>Refusals\<close>

text \<open>C25: A request of the mail administration (domains, mailboxes, aliases, delegations, personal space, protection) that is answered by an error has changed no table, with one exception among its routes: the invitation of a delegate, whose offer to an unknown address stays written when its mail cannot be handed over. The routes of the invitations are not among them, and accepting one may fail half way.\<close>
theorem refused_request_changes_nothing:
  assumes "tables_sound st" "serve env u d now r st = (Inl e, st')" "\<And>b. r \<noteq> InviteDelegate b"
  shows "st' = st"
  using refuses_run [OF serve_refuses [OF assms(1,3)] assms(2)] .

theorem refused_request_changes_nothing_witness:
  "\<exists>e. serve (toy_route_env 2) toy_delegate 1 5 (MyCreateRecipient (toy_body ''x'' 101)) toy_mail = (Inl e, toy_mail)"
proof -
  let ?r = "serve (toy_route_env 2) toy_delegate 1 5 (MyCreateRecipient (toy_body ''x'' 101)) toy_mail"
  have "(case fst ?r of Inl e \<Rightarrow> True | Inr _ \<Rightarrow> False)" by code_simp
  then obtain e st' where run: "?r = (Inl e, st')" by (cases ?r) (auto split: sum.splits)
  from refused_request_changes_nothing [OF toy_sound run] run show ?thesis by simp
qed

section \<open>Erasure\<close>

text \<open>C23: Whatever a request erases lies strictly under the \<open>vhosts\<close> directory of the mail volume, whatever the tables hold: a directory with an absolute path, one that climbs out and the root itself are never removed.\<close>
theorem erasure_stays_under_vhosts:
  assumes "serve env u d now r st = (res, st')" "tree \<in> set (ms_erased st')" "tree \<notin> set (ms_erased st)"
  shows "\<exists>x xs. tree = vhostsRoot (re_mail env) @ x # xs"
  using serve_erases [OF assms(1)] assms(2,3) by (auto simp: erases_under_def)

theorem erasure_stays_under_vhosts_witness:
  "\<exists>x xs. [''var'', ''mail'', ''vhosts'', ''a.io'', ''x''] = vhostsRoot toy_mail_env @ x # xs"
proof -
  let ?r = "serve (toy_route_env 3) toy_delegate 1 6 (MyDeleteRecipient 2) toy_mail_after"
  have "serve (toy_route_env 3) toy_delegate 1 6 (MyDeleteRecipient 2) toy_mail_after = (fst ?r, snd ?r)" by simp
  moreover have "ms_erased (snd ?r) = [[''var'', ''mail'', ''vhosts'', ''a.io'', ''x'']]" "ms_erased toy_mail_after = []" by code_simp+
  ultimately show ?thesis
    using erasure_stays_under_vhosts [of "toy_route_env 3" toy_delegate 1 6 "MyDeleteRecipient 2" toy_mail_after "fst ?r" "snd ?r"]
    by (simp add: toy_route_env_def)
qed

text \<open>The directory of a mailbox, by its local part: its own, but the domain's for a dot and none for two.\<close>

definition erased_for :: "mail_env \<Rightarrow> string \<Rightarrow> string \<Rightarrow> path list" where
  "erased_for env domain part =
     (if part = ''..'' then []
      else let target = vhostsRoot env @ (if part = ''.'' then [domain] else [domain, part])
           in if me_eraseFails env (join_with ''/'' target) then [] else [target])"

lemma valid_local_part_plain: "valid_local_part l = Some l \<Longrightarrow> CHR ''/'' \<notin> set l \<and> l \<noteq> []"
  by (auto simp: valid_local_part_def list_all_iff local_part_char_def is_digit_def is_upper_def Let_def split: if_splits)

lemma safeResolve_parent:
  assumes "CHR ''/'' \<notin> set d" "d \<notin> {[], ''.'', ''..''}"
  shows "safeResolve env (d @ ''/'' @ ''..'' @ ''/'') = None"
proof -
  have "resolve_path (vhostsRoot env) (d @ ''/'' @ ''..'' @ ''/'') = vhostsRoot env"
    using mailbox_parts [OF assms(1), of "''..''"] mailbox_relative [OF assms(1), of "''/../''"] assms(2)
    by (simp add: resolve_path_def)
  moreover have "relative_path (vhostsRoot env) (vhostsRoot env) = []" using relative_prefix [of "vhostsRoot env" "[]"] by simp
  ultimately show ?thesis by (simp add: safeResolve_def Let_def)
qed

lemma removeRecipientTree_erased:
  assumes d: "CHR ''/'' \<notin> set d" "d \<notin> {[], ''.''}" "take 2 d \<noteq> ''..''" and l: "CHR ''/'' \<notin> set l" "l \<noteq> []"
    and run: "removeRecipientTree env (d @ ''/'' @ l @ ''/'') st = (b, st')"
  shows "ms_erased st' = ms_erased st @ erased_for env d l"
proof (cases "l = ''..''")
  case True
  have "d \<notin> {[], ''.'', ''..''}" using d by auto
  from safeResolve_parent [OF d(1) this, of env] run True show ?thesis
    by (simp add: removeRecipientTree_def removeTree_def erased_for_def)
next
  case False
  with safeResolve_mailbox [OF d(1) l(1) d(2,3)] l(2) run show ?thesis
    by (auto simp: removeRecipientTree_def removeTree_def erased_for_def Let_def split: if_splits)
qed

text \<open>A mailbox that is created and later removed takes with it exactly the directory of its domain named after its local part, with two exceptions the address schema lets through: the local part of one dot takes the directory of the whole domain, that of two dots nothing.\<close>
theorem mailbox_erasure_exact:
  assumes "rcp_create env ctx ids b domain owner skip now st = (Inr u, st1)"
    and "rcp_remove env ctx' (vu_id u) domain st1 = (Inr (), st2)"
    and "ui_row ids \<notin> vu_id ` set (ms_users st)" "valid_local_part (nr_localPart b) = Some (nr_localPart b)"
    and "CHR ''/'' \<notin> set domain" "domain \<notin> {[], ''.''}" "take 2 domain \<noteq> ''..''"
  shows "ms_erased st2 = ms_erased st @ erased_for env domain (nr_localPart b)"
proof -
  have u: "ms_users st1 = ms_users st @ [u]" "vu_id u = ui_row ids" "vu_domain u = domain"
    using rcp_create_effect [OF assms(1)] by auto
  have dir: "vu_maildir u = domain @ ''/'' @ nr_localPart b @ ''/''" and keep: "ms_erased st1 = ms_erased st"
    using assms(1) by (auto simp: rcp_create_def Let_def and_then_def note_recipient_def insert_user_def insert_quota_user_def
        split: option.splits if_splits sum.splits prod.splits)
  have "List.find (\<lambda>r. vu_id r = ui_row ids \<and> vu_domain r = domain) (ms_users st) = None"
    using assms(3) unfolding find_None_iff by (metis image_eqI)
  then have get: "rcp_get (vu_id u) domain st1 = Inr u" by (simp add: rcp_get_def u find_append)
  obtain ok st3 where run: "removeRecipientTree env (vu_maildir u) (delete_user u (delete_quota_users (vu_email u) st1)) = (ok, st3)"
    by fastforce
  have "ms_erased st3 = ms_erased (delete_user u (delete_quota_users (vu_email u) st1)) @ erased_for env domain (nr_localPart b)"
    using run valid_local_part_plain [OF assms(4)] unfolding dir
    by (intro removeRecipientTree_erased [OF assms(5,6,7)]) auto
  moreover have "ms_erased (delete_user u (delete_quota_users (vu_email u) st1)) = ms_erased st"
    by (simp add: delete_quota_users_def keep)
  moreover have "ms_erased st2 = ms_erased st3"
    using assms(2) get run by (auto simp: rcp_remove_def Let_def note_recipient_def split: option.splits)
  ultimately show ?thesis by simp
qed

definition toy_created :: "mail_state" where
  "toy_created = snd (rcp_create toy_mail_env None \<lparr>ui_row = 2, ui_counter = 2\<rparr> (toy_body ''x'' 40) ''a.io'' None True 5 toy_mail)"

theorem mailbox_erasure_exact_witness:
  "ms_erased (snd (rcp_remove toy_mail_env None 2 ''a.io'' toy_created)) = [[''var'', ''mail'', ''vhosts'', ''a.io'', ''x'']]"
proof -
  let ?c = "rcp_create toy_mail_env None \<lparr>ui_row = 2, ui_counter = 2\<rparr> (toy_body ''x'' 40) ''a.io'' None True 5 toy_mail"
  have "(case fst ?c of Inl _ \<Rightarrow> False | Inr u \<Rightarrow> vu_id u = 2)" by code_simp
  then obtain u where u: "?c = (Inr u, toy_created)" "vu_id u = 2"
    unfolding toy_created_def by (cases ?c) (auto split: sum.splits)
  have "fst (rcp_remove toy_mail_env None 2 ''a.io'' toy_created) = Inr ()" by code_simp
  then have gone: "rcp_remove toy_mail_env None (vu_id u) ''a.io'' toy_created = (Inr (), snd (rcp_remove toy_mail_env None 2 ''a.io'' toy_created))"
    using u(2) by (metis prod.collapse)
  have "ms_erased (snd (rcp_remove toy_mail_env None 2 ''a.io'' toy_created)) = ms_erased toy_mail @ erased_for toy_mail_env ''a.io'' ''x''"
    using mailbox_erasure_exact [OF u(1) gone] by (simp add: toy_mail_def toy_user_def toy_body_def valid_local_part_def
      local_part_char_def is_digit_def is_upper_def toLowerCase_def lower_char_def)
  moreover have "ms_erased toy_mail @ erased_for toy_mail_env ''a.io'' ''x'' = [[''var'', ''mail'', ''vhosts'', ''a.io'', ''x'']]" by code_simp
  ultimately show ?thesis by simp
qed

section \<open>Where the code falls short\<close>

text \<open>What the personal space needs to open a mailbox, and that these are enough: a grant with room, an address that is
  valid, free and not reserved, a quota above the least one, no closing date.\<close>

definition may_open :: "string \<Rightarrow> int \<Rightarrow> create_recipient \<Rightarrow> user_ids \<Rightarrow> virtual_domain \<Rightarrow> mail_state \<Rightarrow> bool" where
  "may_open a d b ids dm st = (find_domain d st = Some dm \<and> \<not> isl (assertCanCreateRecipient a d (nr_quota b) st)
     \<and> valid_local_part (nr_localPart b) = Some (nr_localPart b) \<and> asReservedLocalPart (nr_localPart b) = None
     \<and> nr_localPart b @ ''@'' @ vd_domain dm \<notin> vu_email ` set (ms_users st)
     \<and> recipient_quota_ok (nr_quota b) \<and> nr_userEndDate b = None \<and> ui_row ids \<notin> vu_id ` set (ms_users st))"

lemma find_appended: "\<forall>x \<in> set xs. \<not> P x \<Longrightarrow> P y \<Longrightarrow> List.find P (xs @ [y]) = Some y"
  by (induction xs) auto

lemma opened_for_delegate:
  assumes "may_open (gu_id u) d b (re_ids env) dm st"
  obtains w st1 where "serve env u d now (MyCreateRecipient b) st = (Inr (), st1)"
    "ms_users st1 = ms_users st @ [w]" "same_grants st st1" "ms_erased st1 = ms_erased st"
    "vu_id w = ui_row (re_ids env)" "vu_ownerId w = Some (gu_id u)" "vu_domain w = vd_domain dm" "vu_quota w = nr_quota b"
    "vu_email w = nr_localPart b @ ''@'' @ vd_domain dm" "vu_maildir w = vd_domain dm @ ''/'' @ nr_localPart b @ ''/''"
    "vu_isProtected w = 0"
proof -
  note may = assms [unfolded may_open_def]
  obtain dl where dl: "assertCanCreateRecipient (gu_id u) d (nr_quota b) st = Inr dl" using may by (cases "assertCanCreateRecipient (gu_id u) d (nr_quota b) st") auto
  have dm: "find_domain d st = Some dm" "vd_domain dm \<in> vd_domain ` set (ms_domains st)"
    using may by (auto simp: find_domain_def dest: find_in_set)
  obtain w st1 where run: "rcp_create (re_mail env) (re_ctx env) (re_ids env) b (vd_domain dm) (Some (gu_id u)) True now st = (Inr w, st1)"
    and dir: "vu_maildir w = vd_domain dm @ ''/'' @ nr_localPart b @ ''/''" and keep: "ms_erased st1 = ms_erased st"
    using may dm(2) by (auto simp: rcp_create_def Let_def and_then_def insert_user_def insert_quota_user_def note_recipient_def)
  from rcp_create_effect [OF run] have w: "ms_users st1 = ms_users st @ [w]" "same_grants st st1"
    "vu_id w = ui_row (re_ids env)" "vu_ownerId w = Some (gu_id u)" "vu_domain w = vd_domain dm" "vu_quota w = nr_quota b"
    "vu_email w = nr_localPart b @ ''@'' @ vd_domain dm" "vu_isProtected w = 0" by auto
  have fresh: "\<forall>x \<in> set (ms_users st). vu_id x \<noteq> vu_id w" using may w(3) by (metis imageI)
  have "ownedRecipient (gu_id u) (vu_id w) st1 = Inr w" "rcp_get (vu_id w) (vu_domain w) st1 = Inr w"
    using fresh w(4) by (simp_all add: ownedRecipient_def rcp_get_def w(1) find_appended)
  then obtain v where "my_getRecipient (gu_id u) (vu_id w) st1 = Inr v"
    by (simp add: my_getRecipient_def getWithUsage_def)
  with run dl dm(1) have "my_createRecipient (re_mail env) (re_ctx env) (re_ids env) (gu_id u) d b now st = (Inr v, st1)"
    by (simp add: my_createRecipient_def rcp_resolveDomain_def)
  then have "serve env u d now (MyCreateRecipient b) st = (Inr (), st1)"
    using may by (simp add: serve_def global_guard_def domain_guard_def needs_root_def done_with_def)
  from that [OF this w(1,2) keep w(3-7) dir w(8)] show thesis .
qed

lemma fresh_row:
  assumes "ms_users st1 = ms_users st @ [w]" "vu_id w \<notin> vu_id ` set (ms_users st)" "vu_isProtected w = 0"
  shows "assertUnprotected PRecipient (numbered (vu_id w)) st1 = Inr ()" "rcp_get (vu_id w) (vu_domain w) st1 = Inr w"
    "vu_ownerId w = Some a \<Longrightarrow> ownedRecipient a (vu_id w) st1 = Inr w"
proof -
  have fresh: "\<forall>x \<in> set (ms_users st). vu_id x \<noteq> vu_id w" using assms(2) by (metis imageI)
  then show "assertUnprotected PRecipient (numbered (vu_id w)) st1 = Inr ()"
    by (simp add: assertUnprotected_def isProtected_def prot_find_def numbered_def find_user_def assms(1,3) find_appended)
  show "rcp_get (vu_id w) (vu_domain w) st1 = Inr w" using fresh by (simp add: rcp_get_def assms(1) find_appended)
  show "ownedRecipient a (vu_id w) st1 = Inr w" if "vu_ownerId w = Some a"
    using fresh that by (simp add: ownedRecipient_def assms(1) find_appended)
qed

text \<open>C26: A delegate may open a mailbox whose local part is a single dot and delete it, and the deletion erases the
  directory of the whole domain: whatever the domain, the delegate and the other mailboxes, as long as the grant has
  room for one more and no mailbox has that address yet. Every other mailbox keeps its row, protected ones included,
  and the directory that each of them stores its mail in lies under the one that was erased.\<close>
theorem dot_mailbox_erases_domain:
  assumes "may_open (gu_id u) d b (re_ids env) dm st" and "nr_localPart b = ''.''"
    and "CHR ''/'' \<notin> set (vd_domain dm)" and "vd_domain dm \<notin> {[], ''.''}" and "take 2 (vd_domain dm) \<noteq> ''..''"
    and "\<not> me_eraseFails (re_mail env') (join_with ''/'' (vhostsRoot (re_mail env') @ [vd_domain dm]))"
  shows "\<exists>st1 st2. serve env u d now (MyCreateRecipient b) st = (Inr (), st1)
    \<and> serve env' u d' later (MyDeleteRecipient (ui_row (re_ids env))) st1 = (Inr (), st2)
    \<and> ms_erased st2 = ms_erased st @ [vhostsRoot (re_mail env') @ [vd_domain dm]]
    \<and> ms_users st2 = ms_users st
    \<and> (\<forall>w l. w \<in> set (ms_users st) \<longrightarrow> vu_maildir w = vd_domain dm @ ''/'' @ l @ ''/'' \<longrightarrow> valid_local_part l = Some l
         \<longrightarrow> l \<noteq> ''..'' \<longrightarrow> (\<exists>rest. safeResolve (re_mail env') (vu_maildir w) = Some (vhostsRoot (re_mail env') @ vd_domain dm # rest)))"
proof -
  obtain w st1 where s1: "serve env u d now (MyCreateRecipient b) st = (Inr (), st1)" and w: "ms_users st1 = ms_users st @ [w]"
    "ms_erased st1 = ms_erased st" "vu_id w = ui_row (re_ids env)" "vu_ownerId w = Some (gu_id u)" "vu_domain w = vd_domain dm"
    "vu_email w = ''.'' @ ''@'' @ vd_domain dm" "vu_maildir w = vd_domain dm @ ''/'' @ ''.'' @ ''/''" "vu_isProtected w = 0"
    using opened_for_delegate [OF assms(1)] unfolding assms(2) by metis
  have fresh: "vu_id w \<notin> vu_id ` set (ms_users st)" using assms(1) w(3) by (simp add: may_open_def)
  note row = fresh_row [OF w(1) fresh w(8)]
  let ?st = "delete_user w (delete_quota_users (vu_email w) st1)"
  obtain ok st2 where run: "removeRecipientTree (re_mail env') (vu_maildir w) ?st = (ok, st2)" by fastforce
  have "asReservedLocalPart (toLowerCase ''.'') = None" by code_simp
  then have "reservedLocalPartOf (vu_email w) (vu_domain w) = None"
    using reservedLocalPartOf_composed [of "''.''" "vd_domain dm"] by (simp only: w(5,6))
  with row(2) run have "rcp_remove (re_mail env') (re_ctx env') (vu_id w) (vu_domain w) st1
      = (Inr (), note_recipient (re_ctx env') ''recipients.deleted'' (vu_id w) st2)" by (simp add: rcp_remove_def)
  with row(1) row(3) [OF w(4)] have s2: "serve env' u d' later (MyDeleteRecipient (ui_row (re_ids env))) st1
      = (Inr (), note_recipient (re_ctx env') ''recipients.deleted'' (vu_id w) st2)"
    by (simp add: serve_def global_guard_def domain_guard_def needs_root_def unprotected_then_def my_deleteRecipient_def
        done_with_def w(3) [symmetric])
  have "ms_erased st2 = ms_erased ?st @ erased_for (re_mail env') (vd_domain dm) ''.''"
    by (rule removeRecipientTree_erased [OF assms(3-5) _ _ run [unfolded w(7)]]) simp_all
  then have erased: "ms_erased st2 = ms_erased st @ [vhostsRoot (re_mail env') @ [vd_domain dm]]"
    using assms(6) by (simp add: erased_for_def delete_quota_users_def w(2))
  have "ms_users st2 = ms_users ?st" using run by (auto simp: removeRecipientTree_def removeTree_def Let_def split: option.splits if_splits)
  also have "\<dots> = delete_where (\<lambda>x. vu_id x = vu_id w) (ms_users st @ [w])" by (simp add: delete_user_def delete_quota_users_def w(1))
  also have "\<dots> = ms_users st" using fresh by (simp add: delete_where_def filter_id_conv) (metis imageI)
  finally have users: "ms_users st2 = ms_users st" .
  have "\<exists>rest. safeResolve (re_mail env') (vd_domain dm @ ''/'' @ l @ ''/'') = Some (vhostsRoot (re_mail env') @ vd_domain dm # rest)"
    if "valid_local_part l = Some l" "l \<noteq> ''..''" for l
    using safeResolve_mailbox [OF assms(3) _ assms(4,5), of l "re_mail env'"] valid_local_part_plain [OF that(1)] that(2)
    by (cases "l = ''.''") auto
  then have "\<forall>x l. x \<in> set (ms_users st) \<longrightarrow> vu_maildir x = vd_domain dm @ ''/'' @ l @ ''/'' \<longrightarrow> valid_local_part l = Some l
      \<longrightarrow> l \<noteq> ''..'' \<longrightarrow> (\<exists>rest. safeResolve (re_mail env') (vu_maildir x) = Some (vhostsRoot (re_mail env') @ vd_domain dm # rest))"
    by metis
  moreover have "ms_erased (note_recipient (re_ctx env') a k st2) = ms_erased st2"
    "ms_users (note_recipient (re_ctx env') a k st2) = ms_users st2" for a k by (simp_all add: note_recipient_def)
  ultimately show ?thesis using s1 s2 erased users by metis
qed

theorem dot_mailbox_erases_domain_witness:
  "\<exists>st1 st2. serve (toy_route_env 2) toy_delegate 1 5 (MyCreateRecipient (toy_body ''.'' 1)) toy_mail = (Inr (), st1)
    \<and> serve (toy_route_env 3) toy_delegate 1 6 (MyDeleteRecipient 2) st1 = (Inr (), st2)
    \<and> ms_erased st2 = [[''var'', ''mail'', ''vhosts'', ''a.io'']] \<and> toy_user \<in> set (ms_users st2)"
proof -
  have "find_domain 1 toy_mail = Some toy_domain" "assertCanCreateRecipient ''d'' 1 MB toy_mail = Inr toy_grant"
    "valid_local_part ''.'' = Some ''.''" "asReservedLocalPart ''.'' = None" "recipient_quota_ok MB" by code_simp+
  then have may: "may_open (gu_id toy_delegate) 1 (toy_body ''.'' 1) (re_ids (toy_route_env 2)) toy_domain toy_mail"
    by (simp add: may_open_def toy_delegate_def toy_body_def toy_route_env_def toy_mail_def toy_user_def toy_domain_def)
  have root: "vhostsRoot toy_mail_env = [''var'', ''mail'', ''vhosts'']" by code_simp
  from dot_mailbox_erases_domain [OF may, of "toy_route_env 3" 5 1 6] obtain st1 st2 where
    "serve (toy_route_env 2) toy_delegate 1 5 (MyCreateRecipient (toy_body ''.'' 1)) toy_mail = (Inr (), st1)"
    "serve (toy_route_env 3) toy_delegate 1 6 (MyDeleteRecipient 2) st1 = (Inr (), st2)"
    "ms_erased st2 = ms_erased toy_mail @ [[''var'', ''mail'', ''vhosts''] @ [''a.io'']]" "ms_users st2 = ms_users toy_mail"
    by (auto simp: toy_body_def toy_domain_def toy_route_env_def root) (auto simp: toy_mail_env_def)
  then show ?thesis by (intro exI [of _ st1] exI [of _ st2]) (simp add: toy_mail_def)
qed

text \<open>A mailbox the delegate opens and the owner of the domain takes back, again and again.\<close>

fun taken_back ::
  "route_env \<Rightarrow> guard_user \<Rightarrow> guard_user \<Rightarrow> int \<Rightarrow> time \<Rightarrow> create_recipient \<Rightarrow> (string \<times> user_ids) list \<Rightarrow> mail_state
   \<Rightarrow> (err + unit) list \<times> mail_state"
where
  "taken_back env u holder d now b [] st = ([], st)"
| "taken_back env u holder d now b ((part, ids) # rounds) st =
     (let (opened, st1) = serve (env\<lparr>re_ids := ids\<rparr>) u d now (MyCreateRecipient (b\<lparr>nr_localPart := part\<rparr>)) st;
          (released, st2) = serve env holder d now (ReleaseRecipient (ui_row ids)) st1;
          (answers, st3) = taken_back env u holder d now b rounds st2
      in (opened # released # answers, st3))"

text \<open>After one round the mailbox stays and everything the check of the grant reads is as it was.\<close>

lemma opened_and_released:
  assumes may: "may_open (gu_id u) d (b\<lparr>nr_localPart := part\<rparr>) ids dm st" and holder: "vd_ownerId dm = Some (gu_id holder)"
  obtains w st1 st2 where
    "serve (env\<lparr>re_ids := ids\<rparr>) u d now (MyCreateRecipient (b\<lparr>nr_localPart := part\<rparr>)) st = (Inr (), st1)"
    "serve env holder d now (ReleaseRecipient (ui_row ids)) st1 = (Inr (), st2)"
    "ms_users st2 = ms_users st @ [w]" "same_grants st st2" "vu_id w = ui_row ids" "vu_ownerId w = None"
    "vu_domain w = vd_domain dm" "vu_quota w = nr_quota b" "vu_email w = part @ ''@'' @ vd_domain dm"
proof -
  have "may_open (gu_id u) d (b\<lparr>nr_localPart := part\<rparr>) (re_ids (env\<lparr>re_ids := ids\<rparr>)) dm st" using may by simp
  then obtain w st1 where s1: "serve (env\<lparr>re_ids := ids\<rparr>) u d now (MyCreateRecipient (b\<lparr>nr_localPart := part\<rparr>)) st = (Inr (), st1)"
    and w: "ms_users st1 = ms_users st @ [w]" "same_grants st st1" "vu_id w = ui_row ids" "vu_domain w = vd_domain dm"
      "vu_quota w = nr_quota b" "vu_email w = part @ ''@'' @ vd_domain dm" "vu_isProtected w = 0"
    by (rule opened_for_delegate) simp
  have fresh: "vu_id w \<notin> vu_id ` set (ms_users st)" using may w(3) by (simp add: may_open_def)
  note row = fresh_row [OF w(1) fresh w(7)]
  have dm: "find_domain d st1 = Some dm" using may w(2) by (simp add: may_open_def find_domain_def same_grants_def)
  let ?w = "w\<lparr>vu_ownerId := None\<rparr>"
  have clear: "rcp_clearOwner (vu_id w) (vd_domain dm) st1 = (Inr ?w, save_user ?w st1)"
    using row(2) w(4) by (simp add: rcp_clearOwner_def Let_def)
  have s2: "serve env holder d now (ReleaseRecipient (ui_row ids)) st1 = (Inr (), save_user ?w st1)"
    using dm holder row(1) clear
    by (simp add: serve_def global_guard_def domain_guard_def owner_of_def needs_root_def on_domain_def rcp_resolveDomain_def
        done_with_def w(3) [symmetric])
  have "map (\<lambda>x. if vu_id x = vu_id w then ?w else x) (ms_users st) = ms_users st"
    using fresh by (intro map_idI) (metis imageI)
  then have users: "ms_users (save_user ?w st1) = ms_users st @ [?w]" by (simp add: save_user_def save_row_def w(1))
  have "same_grants st (save_user ?w st1)" using w(2) by (simp add: same_grants_def save_user_def)
  from that [OF s1 s2 users this] w(3-6) show thesis by simp
qed

lemma released_keeps_allowance:
  assumes "ms_users st2 = ms_users st @ [w]" "same_grants st st2" "vu_ownerId w = None"
  shows "assertCanCreateRecipient a d q st2 = assertCanCreateRecipient a d q st" "find_domain d st2 = find_domain d st"
proof -
  have "usedRecipientsOf dl n st2 = usedRecipientsOf dl n st" "spentBytesOf dl n st2 = spentBytesOf dl n st" for dl n
    using assms by (simp_all add: usedRecipientsOf_def countRecipientsOf_def count_where_def spentBytesOf_def usedBytesOf_def
        sumQuota_def sum_where_def owned_by_def)
  moreover have "find_delegation a d st2 = find_delegation a d st" "find_domain d st2 = find_domain d st"
    using assms(2) by (simp_all add: find_domain_def find_delegation_def same_grants_def)
  ultimately show "assertCanCreateRecipient a d q st2 = assertCanCreateRecipient a d q st" "find_domain d st2 = find_domain d st"
    by (simp_all add: assertCanCreateRecipient_def resolveDomain_def split: option.split)
qed

text \<open>C27: Taking a mailbox away from a delegate gives the delegate its allowance back while the mailbox stays. Whoever
  may open one mailbox of a given size under a delegation may open any number of them, as long as the owner of the
  domain releases each before the next: every request is answered with success, the domain's row and quota stay what
  they were, and the quotas of its mailboxes grow by that size at each round, past any bound.\<close>
theorem released_mailbox_overcommits:
  assumes "\<forall>(part, ids) \<in> set rounds. may_open (gu_id u) d (b\<lparr>nr_localPart := part\<rparr>) ids dm st"
    and "vd_ownerId dm = Some (gu_id holder)" and "distinct (map fst rounds)" and "distinct (map (\<lambda>(part, ids). ui_row ids) rounds)"
  shows "\<exists>st'. taken_back env u holder d now b rounds st = (replicate (2 * length rounds) (Inr ()), st')
    \<and> ms_domains st' = ms_domains st
    \<and> sumQuota (vd_domain dm) None st' = sumQuota (vd_domain dm) None st + int (length rounds) * nr_quota b"
  using assms
proof (induction rounds arbitrary: st)
  case (Cons x rounds)
  obtain part ids where [simp]: "x = (part, ids)" by force
  have "may_open (gu_id u) d (b\<lparr>nr_localPart := part\<rparr>) ids dm st" using Cons.prems(1) by simp
  from opened_and_released [OF this Cons.prems(2), where env = env and now = now] obtain w st1 st2 where
    s: "serve (env\<lparr>re_ids := ids\<rparr>) u d now (MyCreateRecipient (b\<lparr>nr_localPart := part\<rparr>)) st = (Inr (), st1)"
      "serve env holder d now (ReleaseRecipient (ui_row ids)) st1 = (Inr (), st2)"
    and w: "ms_users st2 = ms_users st @ [w]" "same_grants st st2" "vu_id w = ui_row ids" "vu_ownerId w = None"
      "vu_domain w = vd_domain dm" "vu_quota w = nr_quota b" "vu_email w = part @ ''@'' @ vd_domain dm" .
  note kept = released_keeps_allowance [OF w(1,2,4)]
  have "may_open (gu_id u) d (b\<lparr>nr_localPart := p\<rparr>) k dm st2" if "(p, k) \<in> set rounds" for p k
  proof -
    have "p \<noteq> part" "ui_row k \<noteq> ui_row ids" using that Cons.prems(3,4) by force+
    moreover have "may_open (gu_id u) d (b\<lparr>nr_localPart := p\<rparr>) k dm st" using that Cons.prems(1) by auto
    ultimately show ?thesis by (auto simp: may_open_def kept w(1,3,7))
  qed
  then have "\<forall>(p, k) \<in> set rounds. may_open (gu_id u) d (b\<lparr>nr_localPart := p\<rparr>) k dm st2" by blast
  from Cons.IH [OF this Cons.prems(2)] Cons.prems(3,4) obtain st' where
    "taken_back env u holder d now b rounds st2 = (replicate (2 * length rounds) (Inr ()), st')" "ms_domains st' = ms_domains st2"
    "sumQuota (vd_domain dm) None st' = sumQuota (vd_domain dm) None st2 + int (length rounds) * nr_quota b" by auto
  moreover have "sumQuota (vd_domain dm) None st2 = sumQuota (vd_domain dm) None st + nr_quota b"
    using w by (simp add: sumQuota_def sum_where_def owned_by_def)
  ultimately show ?case using s w(2) by (simp add: same_grants_def algebra_simps)
qed simp

text \<open>A domain of a hundred megabytes, wholly granted, carries three hundred after three rounds.\<close>

theorem released_mailbox_overcommits_witness:
  "\<exists>st'. taken_back (toy_route_env 2) toy_delegate toy_owner 1 5 (toy_body [] 100)
       [(''x'', \<lparr>ui_row = 2, ui_counter = 2\<rparr>), (''y'', \<lparr>ui_row = 3, ui_counter = 3\<rparr>), (''z'', \<lparr>ui_row = 4, ui_counter = 4\<rparr>)] toy_mail
      = (replicate 6 (Inr ()), st')
    \<and> ms_domains st' = [toy_domain] \<and> vd_quota toy_domain = 100 * MB \<and> sumQuota ''a.io'' None st' = 300 * MB"
proof -
  let ?rounds = "[(''x'', \<lparr>ui_row = 2, ui_counter = 2\<rparr>), (''y'', \<lparr>ui_row = 3, ui_counter = 3\<rparr>), (''z'', \<lparr>ui_row = 4, ui_counter = 4\<rparr>)]"
  have "find_domain 1 toy_mail = Some toy_domain" "assertCanCreateRecipient ''d'' 1 (100 * MB) toy_mail = Inr toy_grant"
    "valid_local_part ''x'' = Some ''x''" "asReservedLocalPart ''x'' = None" "valid_local_part ''y'' = Some ''y''"
    "asReservedLocalPart ''y'' = None" "valid_local_part ''z'' = Some ''z''" "asReservedLocalPart ''z'' = None"
    "recipient_quota_ok (100 * MB)" by code_simp+
  then have "\<forall>(part, ids) \<in> set ?rounds. may_open (gu_id toy_delegate) 1 ((toy_body [] 100)\<lparr>nr_localPart := part\<rparr>) ids toy_domain toy_mail"
    by (simp add: may_open_def toy_delegate_def toy_body_def toy_mail_def toy_user_def toy_domain_def)
  moreover have "vd_ownerId toy_domain = Some (gu_id toy_owner)" "distinct (map fst ?rounds)" "distinct (map (\<lambda>(part, ids). ui_row ids) ?rounds)"
    by (simp_all add: toy_domain_def toy_owner_def)
  ultimately obtain st' where
    "taken_back (toy_route_env 2) toy_delegate toy_owner 1 5 (toy_body [] 100) ?rounds toy_mail = (replicate (2 * length ?rounds) (Inr ()), st')"
    "ms_domains st' = ms_domains toy_mail"
    "sumQuota (vd_domain toy_domain) None st' = sumQuota (vd_domain toy_domain) None toy_mail + int (length ?rounds) * nr_quota (toy_body [] 100)"
    using released_mailbox_overcommits [where rounds = ?rounds and u = toy_delegate and d = 1 and b = "toy_body [] 100"
        and dm = toy_domain and st = toy_mail and holder = toy_owner and env = "toy_route_env 2" and now = 5] by blast
  moreover have "sumQuota ''a.io'' None toy_mail = 0" "vd_quota toy_domain = 100 * MB" by code_simp+
  ultimately show ?thesis
    by (intro exI [of _ st']) (simp add: numeral_eq_Suc toy_mail_def toy_domain_def toy_body_def)
qed

end
