(* ===== verification/Invitations.thy ===== *)
theory Invitations imports AclGroups MailRoutes begin

text \<open>
  \<open>api/accounts/invitations\<close>: sending an invitation, reading it, accepting it with a new account, and taking
  the delegation of an open link with an account one already has. The tables are those of the mail
  administration and of the groups, in one state: the accounts, the domains and the trail both services see
  are the same rows. The methods write one statement after the other and share no transaction, so that an
  exception leaves what was written before it.
\<close>

section \<open>The tables\<close>

record admin_state =
  ad_mail :: mail_state
  ad_groups :: "acl_group list"
  ad_members :: "group_member list"
  ad_globalPerms :: "group_global_permission list"
  ad_domainPerms :: "group_domain_permission list"
  ad_profiles :: "profile list"

text \<open>The same database as the groups' service reads and writes it.\<close>

definition groups_view :: "admin_state \<Rightarrow> grp_state" where
  "groups_view st = \<lparr>gs_groups = ad_groups st, gs_members = ad_members st, gs_globalPerms = ad_globalPerms st,
     gs_domainPerms = ad_domainPerms st, gs_accounts = ms_accounts (ad_mail st), gs_profiles = ad_profiles st,
     gs_domains = ms_domains (ad_mail st), gs_audit = ms_audit (ad_mail st)\<rparr>"

definition with_groups :: "grp_state \<Rightarrow> admin_state \<Rightarrow> admin_state" where
  "with_groups g st = \<lparr>ad_mail = (ad_mail st)\<lparr>ms_accounts := gs_accounts g, ms_domains := gs_domains g, ms_audit := gs_audit g\<rparr>,
     ad_groups = gs_groups g, ad_members = gs_members g, ad_globalPerms = gs_globalPerms g,
     ad_domainPerms = gs_domainPerms g, ad_profiles = gs_profiles g\<rparr>"

definition on_groups :: "(grp_state \<Rightarrow> ('a, grp_state) outcome) \<Rightarrow> admin_state \<Rightarrow> ('a, admin_state) outcome" where
  "on_groups f st = (let (r, g) = f (groups_view st) in (r, with_groups g st))"

definition on_mail :: "(mail_state \<Rightarrow> ('a, mail_state) outcome) \<Rightarrow> admin_state \<Rightarrow> ('a, admin_state) outcome" where
  "on_mail f st = (let (r, m) = f (ad_mail st) in (r, st\<lparr>ad_mail := m\<rparr>))"

definition change_mail :: "(mail_state \<Rightarrow> mail_state) \<Rightarrow> admin_state \<Rightarrow> admin_state" where
  "change_mail f st = st\<lparr>ad_mail := f (ad_mail st)\<rparr>"

section \<open>Bodies\<close>

record send_body =
  sb_email :: string
  sb_domainId :: int
  sb_groupIds :: "string list"
  sb_recipientIds :: "int list"
  sb_aliasIds :: "int list"
  sb_makeOwner :: bool
  sb_useDomainGroup :: bool

record accept_body =
  ab_email :: "string option"
  ab_password :: string
  ab_firstName :: "string option"
  ab_lastName :: "string option"

text \<open>A body is what its schema puts out, the address in lower case; the form of an address and of a group's
  identifier is the schema library's to check.\<close>

definition sendInvitationSchema :: "send_body \<Rightarrow> bool" where
  "sendInvitationSchema b = (toLowerCase (sb_email b) = sb_email b \<and> 0 < sb_domainId b
     \<and> (\<forall>i \<in> set (sb_recipientIds b). 0 < i) \<and> (\<forall>i \<in> set (sb_aliasIds b). 0 < i))"

definition acceptInvitationSchema :: "accept_body \<Rightarrow> bool" where
  "acceptInvitationSchema b =
     ((case ab_email b of None \<Rightarrow> True | Some e \<Rightarrow> length e \<le> 255 \<and> toLowerCase e = e)
      \<and> 8 \<le> length (ab_password b)
      \<and> (case ab_firstName b of None \<Rightarrow> True | Some n \<Rightarrow> length n \<le> 255)
      \<and> (case ab_lastName b of None \<Rightarrow> True | Some n \<Rightarrow> length n \<le> 255))"

section \<open>What a request draws and reads from outside\<close>

record invite_env =
  ie_mail :: mail_env
  ie_guard :: guard_lib
  ie_ops :: guard_ops
  ie_scryptHash :: "string \<Rightarrow> string"
  ie_baseUrl :: string
  ie_invitation :: int
  ie_token :: string
  ie_group :: string
  ie_account :: string
  ie_delegation :: int

section \<open>The columns holding JSON\<close>

fun json_string :: "json \<Rightarrow> string option" where
  "json_string (JStr s) = Some s"
| "json_string _ = None"

fun json_number :: "json \<Rightarrow> int option" where
  "json_number (JNum n) = Some n"
| "json_number _ = None"

definition parseGroupIds :: "account_invitation \<Rightarrow> string list" where
  "parseGroupIds ivt =
     (case iv_groupIds ivt of
        Some (Some (JArr xs)) \<Rightarrow> List.map_filter json_string xs
      | _ \<Rightarrow> (case iv_groupId ivt of None \<Rightarrow> [] | Some g \<Rightarrow> if g = [] then [] else [g]))"

definition parseIds :: "json_column \<Rightarrow> int list" where
  "parseIds raw = (case raw of Some (Some (JArr xs)) \<Rightarrow> List.map_filter json_number xs | _ \<Rightarrow> [])"

text \<open>\<open>new Set(xs)\<close>, in the order of insertion.\<close>

definition js_set :: "'a list \<Rightarrow> 'a list" where
  "js_set xs = rev (remdups (rev xs))"

lemma js_set [simp]: "set (js_set xs) = set xs" "distinct (js_set xs)"
  by (simp_all add: js_set_def)

section \<open>Sending\<close>

text \<open>\<open>address.toLowerCase().startsWith(start)\<close>.\<close>

definition addressed_to :: "string \<Rightarrow> string \<Rightarrow> bool" where
  "addressed_to start address = (take (length start) (toLowerCase address) = start)"

text \<open>A string or \<open>null\<close> as a condition.\<close>

definition is_owned :: "string option \<Rightarrow> bool" where
  "is_owned owner = (case owner of None \<Rightarrow> False | Some a \<Rightarrow> a \<noteq> [])"

definition assertGlobal :: "guard_lib \<Rightarrow> guard_user \<Rightarrow> requirement list \<Rightarrow> err + bool" where
  "assertGlobal lib actor entries =
     (if gu_isRoot actor then Inr True else assert_all (\<lambda>(resource, acts). gl_global lib (gu_id actor) resource acts) entries)"

definition assertAssignableRecipients ::
  "guard_lib \<Rightarrow> guard_user \<Rightarrow> int list \<Rightarrow> string \<Rightarrow> mail_state \<Rightarrow> err + unit" where
  "assertAssignableRecipients lib actor ids domain st =
     (if ids = [] then Inr ()
      else case assertGlobal lib actor [(''accounts'', [''assign-recipient-owner''])] of
        Inl e \<Rightarrow> Inl e
      | Inr _ \<Rightarrow>
          (let rows = filter (\<lambda>r. vu_id r \<in> set ids) (ms_users st) in
           if length rows \<noteq> length (remdups ids) then Inl (HttpException NOT_FOUND ''One or more recipients not found'')
           else if \<exists>r \<in> set rows. vu_domain r \<noteq> domain
           then Inl (HttpException BAD_REQUEST ''A recipient does not belong to the chosen domain'')
           else if \<exists>r \<in> set rows. addressed_to ''postmaster@'' (vu_email r)
           then Inl (HttpException BAD_REQUEST ''postmaster@ cannot be assigned to an account'')
           else if \<exists>r \<in> set rows. addressed_to ''dmarc_reports@'' (vu_email r)
           then Inl (HttpException BAD_REQUEST ''dmarc_reports@ cannot be assigned to an account'')
           else if \<exists>r \<in> set rows. is_owned (vu_ownerId r)
           then Inl (HttpException CONFLICT ''A recipient is already assigned to an account'')
           else Inr ()))"

definition assertAssignableAliases ::
  "guard_lib \<Rightarrow> guard_user \<Rightarrow> int list \<Rightarrow> string \<Rightarrow> mail_state \<Rightarrow> err + unit" where
  "assertAssignableAliases lib actor ids domain st =
     (if ids = [] then Inr ()
      else case assertGlobal lib actor [(''accounts'', [''assign-alias-owner''])] of
        Inl e \<Rightarrow> Inl e
      | Inr _ \<Rightarrow>
          (let rows = filter (\<lambda>a. va_id a \<in> set ids) (ms_aliases st) in
           if length rows \<noteq> length (remdups ids) then Inl (HttpException NOT_FOUND ''One or more aliases not found'')
           else if \<exists>a \<in> set rows. va_domain a \<noteq> domain
           then Inl (HttpException BAD_REQUEST ''An alias does not belong to the chosen domain'')
           else if \<exists>a \<in> set rows. addressed_to ''postmaster@'' (va_source a)
           then Inl (HttpException BAD_REQUEST ''postmaster@ cannot be assigned to an account'')
           else if \<exists>a \<in> set rows. is_owned (va_ownerId a)
           then Inl (HttpException CONFLICT ''An alias is already assigned to an account'')
           else Inr ()))"

text \<open>The group dedicated to a domain, found by its imposed name or created.\<close>

definition dedicatedGroup :: "string \<Rightarrow> time \<Rightarrow> virtual_domain \<Rightarrow> admin_state \<Rightarrow> string \<times> admin_state" where
  "dedicatedGroup newId now domain st =
     (let dedicatedName = ''__custom-'' @ vd_domain domain @ ''-group'' in
      case List.find (\<lambda>g. gr_name g = dedicatedName) (ad_groups st) of
        Some g \<Rightarrow> (gr_id g, st)
      | None \<Rightarrow> (newId, st\<lparr>ad_groups := save_row gr_id \<lparr>gr_id = newId, gr_name = dedicatedName, gr_description = None,
            gr_ownerId = None, gr_isDefault = 0, gr_isProtected = 0, gr_isInvisible = 0, gr_createdAt = now\<rparr> (ad_groups st)\<rparr>))"

definition groups_in :: "string list \<Rightarrow> admin_state \<Rightarrow> acl_group list" where
  "groups_in ids st = filter (\<lambda>g. gr_id g \<in> set ids) (ad_groups st)"

fun assertHoldsEach :: "guard_ops \<Rightarrow> guard_user \<Rightarrow> grp_state \<Rightarrow> acl_group list \<Rightarrow> err + unit" where
  "assertHoldsEach ops actor st [] = Inr ()"
| "assertHoldsEach ops actor st (g # gs) =
     (case assertActingUserHolds (utils_at ops st) actor (go_findGroupGlobalPermissions ops (gr_id g) st)
             (go_findGroupDomainPermissions ops (gr_id g) st) ''Cannot grant a permission you do not hold'' of
        Inl e \<Rightarrow> Inl e
      | Inr _ \<Rightarrow> assertHoldsEach ops actor st gs)"

definition OWNERSHIP_REQUIREMENTS :: "requirement list" where
  "OWNERSHIP_REQUIREMENTS = [(''accounts'', [''set-domain-owner'']), (''domains'', [''transfer-domain-ownership'']),
     (''domain_owner_elevated'', [''transfer-domain-ownership''])]"

text \<open>The groups an invitation will join, once they exist and the inviter holds all they carry.\<close>

definition invitedGroups ::
  "invite_env \<Rightarrow> guard_user \<Rightarrow> send_body \<Rightarrow> virtual_domain \<Rightarrow> time \<Rightarrow> admin_state
   \<Rightarrow> (string list \<times> acl_group list, admin_state) outcome" where
  "invitedGroups env actor input domain now st =
     (let (extra, st1) = (if sb_useDomainGroup input
            then (let (i, s) = dedicatedGroup (ie_group env) now domain st in ([i], s)) else ([], st));
          groupIdList = js_set (sb_groupIds input @ extra);
          gs = groups_in groupIdList st1
      in if length gs \<noteq> length groupIdList then (Inl (HttpException NOT_FOUND ''One or more groups not found''), st1)
         else case assertHoldsEach (ie_ops env) actor (groups_view st1) gs of
           Inl e \<Rightarrow> (Inl e, st1)
         | Inr _ \<Rightarrow> (Inr (groupIdList, gs), st1))"

definition staged_account ::
  "invite_env \<Rightarrow> string \<Rightarrow> send_body \<Rightarrow> string list \<Rightarrow> time \<Rightarrow> account_invitation" where
  "staged_account env invitedBy input groupIdList now =
     \<lparr>iv_id = ie_invitation env, iv_token = ie_token env, iv_email = Some (sb_email input), iv_invitedBy = Some invitedBy,
      iv_groupId = None, iv_groupIds = Some (Some (JArr (map JStr groupIdList))),
      iv_recipientIds = Some (Some (JArr (map JNum (sb_recipientIds input)))),
      iv_aliasIds = Some (Some (JArr (map JNum (sb_aliasIds input)))),
      iv_ownerDomainId = (if sb_makeOwner input then Some (sb_domainId input) else None),
      iv_delegationDomainId = None, iv_delegationMaxRecipients = None, iv_delegationMaxAliases = None,
      iv_delegationQuotaMb = None, iv_note = None, iv_acceptedAt = None,
      iv_expiresAt = Some (now + 7 * 24 * 3600 * 1000), iv_createdAt = now\<rparr>"

definition sendInvitation ::
  "invite_env \<Rightarrow> guard_user \<Rightarrow> send_body \<Rightarrow> time \<Rightarrow> admin_state \<Rightarrow> (unit, admin_state) outcome" where
  "sendInvitation env actor input now st =
     (let st1 = change_mail (expire_former (sb_email input) now) st in
      case find_domain (sb_domainId input) (ad_mail st1) of
        None \<Rightarrow> (Inl (HttpException NOT_FOUND ''Domain not found''), st1)
      | Some domain \<Rightarrow>
          (case (if sb_makeOwner input then assertGlobal (ie_guard env) actor OWNERSHIP_REQUIREMENTS else Inr True) of
             Inl e \<Rightarrow> (Inl e, st1)
           | Inr _ \<Rightarrow>
               and_then (invitedGroups env actor input domain now st1) (\<lambda>(groupIdList, gs) st2.
                 case assertAssignableRecipients (ie_guard env) actor (sb_recipientIds input) (vd_domain domain) (ad_mail st2) of
                   Inl e \<Rightarrow> (Inl e, st2)
                 | Inr _ \<Rightarrow>
                     (case assertAssignableAliases (ie_guard env) actor (sb_aliasIds input) (vd_domain domain) (ad_mail st2) of
                        Inl e \<Rightarrow> (Inl e, st2)
                      | Inr _ \<Rightarrow>
                          and_then (on_mail (insert_invitation (staged_account env (gu_id actor) input groupIdList now)) st2)
                            (\<lambda>_ st3. on_mail (send_invitation (ie_mail env)
                               \<lparr>im_to = sb_email input, im_link = inviteLink (ie_mail env) (ie_baseUrl env) (ie_token env),
                                im_fromDomain = vd_domain domain, im_groupNames = map gr_name gs\<rparr>) st3)))))"

section \<open>Reading\<close>

definition find_token :: "string \<Rightarrow> mail_state \<Rightarrow> account_invitation option" where
  "find_token token st = List.find (\<lambda>i. iv_token i = token) (ms_invitations st)"

text \<open>The three refusals the routes of a token share.\<close>

definition usableInvitation :: "string \<Rightarrow> time \<Rightarrow> mail_state \<Rightarrow> err + account_invitation" where
  "usableInvitation token now st =
     (case find_token token st of
        None \<Rightarrow> Inl (HttpException NOT_FOUND ''Invitation not found'')
      | Some ivt \<Rightarrow>
          if iv_acceptedAt ivt \<noteq> None then Inl (HttpException BAD_REQUEST ''Invitation already used'')
          else if (case iv_expiresAt ivt of None \<Rightarrow> False | Some t \<Rightarrow> t < now)
          then Inl (HttpException BAD_REQUEST ''Invitation expired'')
          else Inr ivt)"

definition getInvitation ::
  "string \<Rightarrow> time \<Rightarrow> admin_state \<Rightarrow> err + (string option \<times> string list \<times> time option)" where
  "getInvitation token now st =
     (case usableInvitation token now (ad_mail st) of
        Inl e \<Rightarrow> Inl e
      | Inr ivt \<Rightarrow> Inr (iv_email ivt, map gr_name (groups_in (parseGroupIds ivt) st), iv_expiresAt ivt))"

definition openTokenEmailExists :: "string \<Rightarrow> string \<Rightarrow> time \<Rightarrow> mail_state \<Rightarrow> err + bool" where
  "openTokenEmailExists token email now st =
     (case find_token token st of
        None \<Rightarrow> Inl (HttpException NOT_FOUND ''Invitation not found'')
      | Some ivt \<Rightarrow>
          if \<not> stillPending now ivt \<or> iv_email ivt \<noteq> None then Inl (HttpException NOT_FOUND ''Invitation not found'')
          else Inr (find_account_by_email email (ms_accounts st) \<noteq> None))"

section \<open>Accepting\<close>

definition new_account :: "invite_env \<Rightarrow> string \<Rightarrow> string \<Rightarrow> time \<Rightarrow> account" where
  "new_account env email password now =
     \<lparr>ac_id = ie_account env, ac_email = email, ac_password = Some (ie_scryptHash env password), ac_isRoot = 0,
      ac_isProtected = 0, ac_enabled = 1, ac_lastLogin = None, ac_createdAt = now\<rparr>"

definition invited_profile :: "string \<Rightarrow> accept_body \<Rightarrow> time \<Rightarrow> profile" where
  "invited_profile accountId input now =
     \<lparr>pr_accountId = accountId, pr_presence = 0, pr_presenceAt = None, pr_locale = None, pr_offlineNotifiedAt = None,
      pr_firstName = ab_firstName input, pr_lastName = ab_lastName input, pr_gender = None, pr_avatarUrl = None,
      pr_phone = None, pr_addressLine = None, pr_addressComplement = None, pr_city = None, pr_postalCode = None,
      pr_country = None, pr_latitude = None, pr_longitude = None, pr_createdAt = now, pr_updatedAt = now\<rparr>"

definition createInvited :: "invite_env \<Rightarrow> string \<Rightarrow> accept_body \<Rightarrow> time \<Rightarrow> admin_state \<Rightarrow> admin_state" where
  "createInvited env email input now st =
     st\<lparr>ad_mail := (ad_mail st)\<lparr>ms_accounts := save_row ac_id (new_account env email (ab_password input) now) (ms_accounts (ad_mail st))\<rparr>,
        ad_profiles := save_row pr_accountId (invited_profile (ie_account env) input now) (ad_profiles st)\<rparr>"

definition joinedGroups :: "account_invitation \<Rightarrow> admin_state \<Rightarrow> string list" where
  "joinedGroups ivt st =
     js_set (parseGroupIds ivt @
       (case List.find (\<lambda>g. gr_isDefault g = 1) (ad_groups st) of None \<Rightarrow> [] | Some g \<Rightarrow> [gr_id g]))"

fun join_each :: "guard_ops \<Rightarrow> time \<Rightarrow> string \<Rightarrow> string list \<Rightarrow> admin_state \<Rightarrow> (unit, admin_state) outcome" where
  "join_each ops now accountId [] st = (Inr (), st)"
| "join_each ops now accountId (g # gs) st =
     and_then (on_groups (go_assignAccountToGroup ops now accountId g) st) (\<lambda>_ st1. join_each ops now accountId gs st1)"

text \<open>The domain's ownership, then the mailboxes and aliases still unassigned.\<close>

definition handOver :: "account_invitation \<Rightarrow> string \<Rightarrow> mail_state \<Rightarrow> mail_state" where
  "handOver ivt accountId st =
     (let st1 = (case iv_ownerDomainId ivt of None \<Rightarrow> st
            | Some d \<Rightarrow> if d = 0 then st
                else st\<lparr>ms_domains := update_where (\<lambda>v. vd_id v = d) (\<lambda>v. v\<lparr>vd_ownerId := Some accountId\<rparr>) (ms_domains st)\<rparr>);
          recipientIds = parseIds (iv_recipientIds ivt); aliasIds = parseIds (iv_aliasIds ivt)
      in st1\<lparr>ms_users := update_where (\<lambda>r. vu_id r \<in> set recipientIds \<and> vu_ownerId r = None)
                (\<lambda>r. r\<lparr>vu_ownerId := Some accountId\<rparr>) (ms_users st1),
             ms_aliases := update_where (\<lambda>a. va_id a \<in> set aliasIds \<and> va_ownerId a = None)
                (\<lambda>a. a\<lparr>va_ownerId := Some accountId\<rparr>) (ms_aliases st1)\<rparr>)"

text \<open>The delegation lands, the invitation is spent, the journal gets its line.\<close>

definition spendInvitation ::
  "int \<Rightarrow> time \<Rightarrow> account_invitation \<Rightarrow> string \<Rightarrow> string \<Rightarrow> mail_state \<Rightarrow> mail_state" where
  "spendInvitation newId now ivt accountId action st =
     (let st1 = save_invitation (ivt\<lparr>iv_acceptedAt := Some now\<rparr>) (grantFromInvitation newId now ivt accountId st)
      in st1\<lparr>ms_journal := ms_journal st1 @ [\<lparr>al_action = action, al_actorId = Some accountId, al_subjectId = Some accountId,
           al_entityType = Some ''domain'', al_entityId = map_option show_int (iv_delegationDomainId ivt)\<rparr>]\<rparr>)"

definition acceptInvitation ::
  "invite_env \<Rightarrow> string \<Rightarrow> accept_body \<Rightarrow> time \<Rightarrow> admin_state \<Rightarrow> (string, admin_state) outcome" where
  "acceptInvitation env token input now st =
     (case usableInvitation token now (ad_mail st) of
        Inl e \<Rightarrow> (Inl e, st)
      | Inr ivt \<Rightarrow>
          (case (case iv_email ivt of None \<Rightarrow> ab_email input | Some e \<Rightarrow> Some e) of
             None \<Rightarrow> (Inl (HttpException BAD_REQUEST ''This invitation requires an email address''), st)
           | Some email \<Rightarrow>
               if email = [] then (Inl (HttpException BAD_REQUEST ''This invitation requires an email address''), st)
               else if find_account_by_email email (ms_accounts (ad_mail st)) \<noteq> None
               then (Inl (HttpException CONFLICT ''An account with this email already exists''), st)
               else let st1 = createInvited env email input now st in
                 and_then (join_each (ie_ops env) now (ie_account env) (joinedGroups ivt st1) st1) (\<lambda>_ st2.
                   (Inr email, change_mail (\<lambda>m. spendInvitation (ie_delegation env) now ivt (ie_account env)
                      ''delegations.accepted'' (handOver ivt (ie_account env) m)) st2))))"

definition claimInvitation ::
  "invite_env \<Rightarrow> string \<Rightarrow> string \<Rightarrow> time \<Rightarrow> admin_state \<Rightarrow> (int, admin_state) outcome" where
  "claimInvitation env token accountId now st =
     (case usableInvitation token now (ad_mail st) of
        Inl e \<Rightarrow> (Inl e, st)
      | Inr ivt \<Rightarrow>
          if iv_email ivt \<noteq> None then (Inl (HttpException BAD_REQUEST ''This invitation is tied to an email address''), st)
          else (case iv_delegationDomainId ivt of
             None \<Rightarrow> (Inl (HttpException BAD_REQUEST ''This link carries nothing to claim''), st)
           | Some d \<Rightarrow>
               if d = 0 then (Inl (HttpException BAD_REQUEST ''This link carries nothing to claim''), st)
               else (Inr d, change_mail (spendInvitation (ie_delegation env) now ivt accountId ''delegations.claimed'') st)))"

section \<open>Serving\<close>

text \<open>\<open>accept\<close> is public; \<open>claim\<close> asks for a signed-in account and no more.\<close>

datatype invite_request =
    SendInvite send_body
  | AcceptInvite string accept_body
  | ClaimInvite string

definition dropped :: "('a, admin_state) outcome \<Rightarrow> (unit, admin_state) outcome" where
  "dropped r = (case fst r of Inl e \<Rightarrow> Inl e | Inr _ \<Rightarrow> Inr (), snd r)"

fun invite_serve ::
  "invite_env \<Rightarrow> guard_user option \<Rightarrow> time \<Rightarrow> invite_request \<Rightarrow> admin_state \<Rightarrow> (unit, admin_state) outcome" where
  "invite_serve env user now (SendInvite b) st =
     (case global_guard (ie_guard env) (Some [(''accounts'', [''access'', ''invite-account''])]) user of
        Inl e \<Rightarrow> (Inl e, st)
      | Inr _ \<Rightarrow>
          if \<not> sendInvitationSchema b then (Inl (HttpException BAD_REQUEST ''Validation failed''), st)
          else case user of None \<Rightarrow> (Inl (HttpException UNAUTHORIZED ''Unauthorized''), st)
            | Some u \<Rightarrow> sendInvitation env u b now st)"
| "invite_serve env user now (AcceptInvite token b) st =
     (if \<not> acceptInvitationSchema b then (Inl (HttpException BAD_REQUEST ''Validation failed''), st)
      else dropped (acceptInvitation env token b now st))"
| "invite_serve env user now (ClaimInvite token) st =
     (case user of None \<Rightarrow> (Inl (HttpException UNAUTHORIZED ''Unauthorized''), st)
      | Some u \<Rightarrow> dropped (claimInvitation env token (gu_id u) now st))"

end
