(* ===== verification/InviteBooks.thy ===== *)
theory InviteBooks imports Invitations MailRuns begin

text \<open>
  The invitations in the tables and the books of the mail administration: what an acceptance writes, that the
  tables stay well-formed and every domain covered by its quota, and that a spent invitation is never given
  back, by no request of either service.
\<close>

section \<open>Spent invitations\<close>

definition spent_tokens :: "mail_state \<Rightarrow> string set" where
  "spent_tokens m = iv_token ` {i \<in> set (ms_invitations m). iv_acceptedAt i \<noteq> None}"

lemma spent_same: "ms_invitations m' = ms_invitations m \<Longrightarrow> spent_tokens m' = spent_tokens m"
  by (simp add: spent_tokens_def)

lemma spent_grants: "same_grants m m' \<Longrightarrow> spent_tokens m' = spent_tokens m"
  by (rule spent_same) (simp add: same_grants_def)

lemma spentI: "i \<in> set (ms_invitations m) \<Longrightarrow> iv_acceptedAt i \<noteq> None \<Longrightarrow> iv_token i = t \<Longrightarrow> t \<in> spent_tokens m"
  by (auto simp: spent_tokens_def)

lemma spentE:
  assumes "t \<in> spent_tokens m"
  obtains i where "i \<in> set (ms_invitations m)" "iv_acceptedAt i \<noteq> None" "iv_token i = t"
  using assms by (auto simp: spent_tokens_def)

text \<open>Saving a row again keeps its token and, once set, the date it was accepted at.\<close>

lemma spent_save:
  assumes "distinct (map iv_id (ms_invitations m))"
    and "i \<in> set (ms_invitations m) \<and> iv_id i' = iv_id i \<and> iv_token i' = iv_token i \<and> (iv_acceptedAt i \<noteq> None \<longrightarrow> iv_acceptedAt i' \<noteq> None)
      \<or> iv_id i' \<notin> iv_id ` set (ms_invitations m)"
  shows "spent_tokens m \<subseteq> spent_tokens (save_invitation i' m)"
proof
  fix t assume "t \<in> spent_tokens m"
  then obtain x where x: "x \<in> set (ms_invitations m)" "iv_acceptedAt x \<noteq> None" "iv_token x = t" by (rule spentE)
  show "t \<in> spent_tokens (save_invitation i' m)"
  proof (cases "iv_id x = iv_id i'")
    case True
    with assms(2) x(1) obtain i where i: "i \<in> set (ms_invitations m)" "iv_id i' = iv_id i" "iv_token i' = iv_token i"
      "iv_acceptedAt i \<noteq> None \<longrightarrow> iv_acceptedAt i' \<noteq> None" by (metis image_eqI)
    with assms(1) x(1) True have "x = i" by (auto simp: distinct_map dest: inj_onD)
    with i x show ?thesis by (intro spentI [of i']) (auto simp: save_invitation_def set_save_row)
  next
    case False
    with x show ?thesis by (intro spentI [of x]) (auto simp: save_invitation_def set_save_row)
  qed
qed

lemma upsert_invitations [simp]: "ms_invitations (upsertRow n now dm a w caps m) = ms_invitations m"
  by (simp add: upsertRow_def split: option.splits)

lemma spent_expire:
  assumes "offers_sound m"
  shows "spent_tokens m \<subseteq> spent_tokens (expire_former e now m)"
proof (cases "List.find (\<lambda>i. iv_email i = Some e \<and> iv_acceptedAt i = None) (ms_invitations m)")
  case (Some i)
  have "spent_tokens m \<subseteq> spent_tokens (save_invitation (i\<lparr>iv_expiresAt := Some now\<rparr>) m)"
    using find_in_set [OF Some] assms by (intro spent_save) (auto simp: offers_sound_def)
  with Some show ?thesis by (simp add: expire_former_def split: option.split)
qed (simp add: expire_former_def)

lemma spent_insert:
  "offers_sound m \<Longrightarrow> insert_invitation i m = (res, m') \<Longrightarrow> iv_id i \<notin> iv_id ` set (ms_invitations m) \<Longrightarrow> spent_tokens m \<subseteq> spent_tokens m'"
  by (auto simp: insert_invitation_def offers_sound_def split: if_splits intro!: spent_save [THEN subsetD])

lemma spent_mail: "send_invitation env ml m = (res, m') \<Longrightarrow> spent_tokens m' = spent_tokens m"
  by (auto simp: send_invitation_def spent_tokens_def split: if_splits)

lemma spent_grantOrInvite:
  assumes sound: "offers_sound m" and op: "grantOrInvite env n tk me i b url now m = (res, m')"
    and fresh: "n \<notin> iv_id ` set (ms_invitations m)"
  shows "spent_tokens m \<subseteq> spent_tokens m'"
proof (cases "m' = m")
  case False
  let ?acc = "find_account_by_email (id_email b) (ms_accounts m)"
  obtain dm where dm: "resolveDomain i m = Inr dm" using op False by (auto simp: grantOrInvite_def split: sum.splits)
  show ?thesis
  proof (cases ?acc)
    case (Some a)
    have "m' = upsertRow n now dm (ac_id a) (Some me) b m"
      using op False dm Some by (auto simp: grantOrInvite_def Let_def split: if_splits sum.splits)
    then show ?thesis using spent_same [of m' m] by simp
  next
    case None
    let ?m1 = "expire_former (id_email b) now m" and ?o = "staged_offer n now tk (Some (id_email b)) me i b None"
    obtain r1 m2 where ins: "insert_invitation ?o ?m1 = (r1, m2)" by fastforce
    have ids: "iv_id ` set (ms_invitations ?m1) = iv_id ` set (ms_invitations m)" by (metis expire_former_ids image_set)
    have "offers_sound ?m1"
    proof (cases "List.find (\<lambda>i. iv_email i = Some (id_email b) \<and> iv_acceptedAt i = None) (ms_invitations m)")
      case (Some v)
      have "map iv_token (save_row iv_id (v\<lparr>iv_expiresAt := Some now\<rparr>) (ms_invitations m)) = map iv_token (ms_invitations m)"
        using find_in_set [OF Some] sound by (intro save_row_other_key [of _ _ v]) (auto simp: offers_sound_def)
      then have "offers_sound (save_invitation (v\<lparr>iv_expiresAt := Some now\<rparr>) m)"
        using find_in_set [OF Some] sound distinct_save_row [of iv_id "ms_invitations m" "v\<lparr>iv_expiresAt := Some now\<rparr>"]
        by (auto simp: offers_sound_def save_invitation_def set_save_row offered_mb_def)
      with Some sound show ?thesis by (simp add: expire_former_def split: option.split)
    qed (use sound in \<open>simp add: expire_former_def\<close>)
    from spent_insert [OF this ins] fresh ids have "spent_tokens ?m1 \<subseteq> spent_tokens m2" by simp
    moreover have "spent_tokens m' = spent_tokens m2"
      using op False dm None ins
      by (auto simp: grantOrInvite_def Let_def and_then_def dest!: spent_mail split: sum.splits if_splits prod.splits)
    ultimately show ?thesis using spent_expire [OF sound, of "id_email b" now] by simp
  qed
qed simp

lemma spent_delete_domain: "spent_tokens m \<subseteq> spent_tokens (delete_domain d m)"
proof
  let ?f = "\<lambda>i. if iv_delegationDomainId i = Some (vd_id d) then i\<lparr>iv_delegationDomainId := None\<rparr> else i"
  fix t assume "t \<in> spent_tokens m"
  then obtain x where x: "x \<in> set (ms_invitations m)" "iv_acceptedAt x \<noteq> None" "iv_token x = t" by (rule spentE)
  have rows: "ms_invitations (delete_domain d m) = map ?f (ms_invitations m)"
    by (simp add: delete_domain_def Let_def update_where_def)
  have "?f x \<in> set (ms_invitations (delete_domain d m))"
    unfolding rows set_map using x(1) by (rule imageI)
  then show "t \<in> spent_tokens (delete_domain d m)" using x(2,3) by (intro spentI [of "?f x"]) simp_all
qed

lemma spent_delegations:
  assumes sound: "offers_sound m"
  shows "createToken env n tk me i ob url now m = (r1, m') \<Longrightarrow> n \<notin> iv_id ` set (ms_invitations m) \<Longrightarrow> spent_tokens m \<subseteq> spent_tokens m'"
    and "editInvitation i k eb now m = (r2, m') \<Longrightarrow> spent_tokens m \<subseteq> spent_tokens m'"
    and "revokeInvitation i k now m = (r2, m') \<Longrightarrow> spent_tokens m \<subseteq> spent_tokens m'"
    and "setCaps i a caps now m = (r3, m') \<Longrightarrow> spent_tokens m' = spent_tokens m"
    and "dl_revoke i a m = (r2, m') \<Longrightarrow> spent_tokens m' = spent_tokens m"
proof -
  have ids: "distinct (map iv_id (ms_invitations m))" using sound by (simp add: offers_sound_def)
  show "spent_tokens m \<subseteq> spent_tokens m'" if "createToken env n tk me i ob url now m = (r1, m')" "n \<notin> iv_id ` set (ms_invitations m)"
    using that spent_insert [OF sound]
    by (fastforce simp: createToken_def and_then_def split: sum.splits prod.splits)
  show "spent_tokens m \<subseteq> spent_tokens m'" if op: "editInvitation i k eb now m = (r2, m')"
  proof (cases "m' = m")
    case False
    with op obtain v where v: "find_offer k i m = Some v" "m' = save_invitation (v\<lparr>
        iv_delegationMaxRecipients := cp_maxRecipients eb, iv_delegationMaxAliases := cp_maxAliases eb,
        iv_delegationQuotaMb := Some (cp_quotaMb eb), iv_expiresAt := expiryFrom now (of_expiresDays eb),
        iv_note := (if iv_email v = None then dt_note eb else iv_note v)\<rparr>) m"
      by (auto simp: editInvitation_def split: sum.splits option.splits if_splits)
    with find_offer_in [OF v(1)] show ?thesis by (simp only: v(2)) (intro spent_save [OF ids, of v], simp)
  qed simp
  show "spent_tokens m \<subseteq> spent_tokens m'" if op: "revokeInvitation i k now m = (r2, m')"
  proof (cases "m' = m")
    case False
    with op obtain v where v: "find_offer k i m = Some v" "m' = save_invitation (v\<lparr>iv_expiresAt := Some now\<rparr>) m"
      by (auto simp: revokeInvitation_def split: option.splits if_splits)
    with find_offer_in [OF v(1)] show ?thesis by (simp only: v(2)) (intro spent_save [OF ids, of v], simp)
  qed simp
  show "spent_tokens m' = spent_tokens m" if "setCaps i a caps now m = (r3, m')"
    using that by (intro spent_same) (auto simp: setCaps_def Let_def split: sum.splits option.splits)
  show "spent_tokens m' = spent_tokens m" if "dl_revoke i a m = (r2, m')"
    using that by (intro spent_same) (auto simp: dl_revoke_def split: option.splits)
qed

text \<open>The operations on mailboxes, aliases and domains leave the invitations as they are.\<close>

lemma rcp_invitations:
  "rcp_create env ctx ids b dm owner skip now m = (r1, m') \<Longrightarrow> ms_invitations m' = ms_invitations m"
  "rcp_update env ctx i ub dm skip now m = (r1, m') \<Longrightarrow> ms_invitations m' = ms_invitations m"
  "rcp_remove env ctx i dm m = (r2, m') \<Longrightarrow> ms_invitations m' = ms_invitations m"
  "rcp_assignOwner i dm a m = (r1, m') \<Longrightarrow> ms_invitations m' = ms_invitations m"
  "rcp_clearOwner i dm m = (r1, m') \<Longrightarrow> ms_invitations m' = ms_invitations m"
  by (auto simp: same_grants_def save_user_def delete_user_def rcp_assignOwner_def rcp_clearOwner_def Let_def
      dest!: rcp_create_effect rcp_update_effect rcp_remove_effect split: sum.splits option.splits if_splits)

lemma als_invitations:
  "als_create ctx n b dm owner now m = (r1, m') \<Longrightarrow> ms_invitations m' = ms_invitations m"
  "als_update ctx i ub dm m = (r1, m') \<Longrightarrow> ms_invitations m' = ms_invitations m"
  "als_remove ctx i dm m = (r2, m') \<Longrightarrow> ms_invitations m' = ms_invitations m"
  "als_assignOwner i dm a m = (r1, m') \<Longrightarrow> ms_invitations m' = ms_invitations m"
  "als_clearOwner i dm m = (r1, m') \<Longrightarrow> ms_invitations m' = ms_invitations m"
  by (auto simp: save_alias_def als_remove_def als_assignOwner_def als_clearOwner_def Let_def
      dest!: als_create_effect als_update_effect split: sum.splits option.splits if_splits)

lemma dom_invitations:
  "dom_update stats i b m = (r1, m') \<Longrightarrow> ms_invitations m' = ms_invitations m"
  "transferOwner i me a now m = (r2, m') \<Longrightarrow> ms_invitations m' = ms_invitations m"
  "dom_create env hmac dkim stats dw cb a now m = (r3, m') \<Longrightarrow> ms_invitations m' = ms_invitations m"
  "protect ctx t i' root m = (r4, m') \<Longrightarrow> ms_invitations m' = ms_invitations m"
  "unprotect ctx t i' m = (r4, m') \<Longrightarrow> ms_invitations m' = ms_invitations m"
proof -
  show "dom_update stats i b m = (r1, m') \<Longrightarrow> ms_invitations m' = ms_invitations m"
    by (auto simp: save_domain_def dest!: dom_update_effect)
  show "transferOwner i me a now m = (r2, m') \<Longrightarrow> ms_invitations m' = ms_invitations m"
    by (auto simp: transferOwner_def save_domain_def Let_def split: option.splits if_splits)
  show "ms_invitations m' = ms_invitations m" if "dom_create env hmac dkim stats dw cb a now m = (r3, m')"
    using dom_create_effect [OF that]
    by (auto simp: reserve_effect_def same_grants_def dest!: reservePostmaster_effect ensureDmarc_effect)
  have flags: "ms_invitations m' = ms_invitations m"
    if "protect ctx t i' root m = (r4, m') \<or> unprotect ctx t i' m = (r4, m')"
    using protect_run [OF that] by (auto dest!: setProtected_effect)
  show "protect ctx t i' root m = (r4, m') \<Longrightarrow> ms_invitations m' = ms_invitations m"
    "unprotect ctx t i' m = (r4, m') \<Longrightarrow> ms_invitations m' = ms_invitations m" using flags by blast+
qed

lemma handle_spends:
  assumes sound: "offers_sound m" and fresh: "re_row env \<notin> iv_id ` set (ms_invitations m)"
    and op: "handle env u d now r m = (res, m')"
  shows "spent_tokens m \<subseteq> spent_tokens m'"
proof -
  have same: "spent_tokens m \<subseteq> spent_tokens m'" if "ms_invitations m' = ms_invitations m"
    using spent_same [OF that] by simp
  show ?thesis
  proof (cases r)
    case (InviteDelegate b)
    with op fresh show ?thesis by (auto dest!: done_with_state dest: spent_grantOrInvite [OF sound, THEN subsetD])
  next
    case (OpenLink b)
    with op fresh show ?thesis by (auto dest!: done_with_state dest: spent_delegations(1) [OF sound, THEN subsetD])
  next
    case (EditOffer i b)
    with op show ?thesis by (simp add: spent_delegations(2) [OF sound])
  next
    case (RevokeOffer i)
    with op show ?thesis by (simp add: spent_delegations(3) [OF sound])
  next
    case (SetCaps a b)
    with op show ?thesis by (auto dest!: done_with_state dest: spent_delegations(4) [OF sound])
  next
    case (RevokeDelegation a)
    with op spent_delegations(5) [OF sound] show ?thesis by fastforce
  next
    case DeleteDomain
    with op consider "m' = m" | x where "dom_remove (re_mail env) d m = (x, m')" by (auto split: sum.splits)
    then show ?thesis
    proof cases
      case 2
      from dom_remove_effect [OF this] show ?thesis
      proof (elim disjE exE conjE)
        fix dm es assume "m' = (delete_domain dm m)\<lparr>ms_erased := es\<rparr>"
        then have "spent_tokens m' = spent_tokens (delete_domain dm m)" by (intro spent_same) simp
        with spent_delete_domain show ?thesis by simp
      qed simp
    qed simp
  qed (use op in \<open>auto intro!: same [THEN subsetD] dest!: on_domain_run unprotected_then_run done_with_state my_create_run my_update_run
      my_delete_run my_alias_create_run my_alias_update_run my_alias_delete_run
      dest: rcp_invitations als_invitations dom_invitations\<close>)
qed

lemma serve_spends:
  assumes "tables_sound m" "drawn_fresh env m" "serve env u d now r m = (res, m')"
  shows "spent_tokens m \<subseteq> spent_tokens m'"
  using serve_run [OF assms(3)] handle_spends [of m env u d now r res m'] assms(1,2)
  by (auto simp: tables_sound_parts drawn_fresh_def)

section \<open>One database\<close>

lemma groups_view_simps [simp]:
  "gs_groups (groups_view st) = ad_groups st" "gs_members (groups_view st) = ad_members st"
  "gs_globalPerms (groups_view st) = ad_globalPerms st" "gs_domainPerms (groups_view st) = ad_domainPerms st"
  "gs_accounts (groups_view st) = ms_accounts (ad_mail st)" "gs_profiles (groups_view st) = ad_profiles st"
  "gs_domains (groups_view st) = ms_domains (ad_mail st)" "gs_audit (groups_view st) = ms_audit (ad_mail st)"
  by (simp_all add: groups_view_def)

lemma groups_lens [simp]: "groups_view (with_groups g st) = g" "with_groups (groups_view st) st = st"
  by (simp_all add: groups_view_def with_groups_def)

lemma change_mail_simps [simp]:
  "ad_mail (change_mail f st) = f (ad_mail st)" "ad_groups (change_mail f st) = ad_groups st"
  "ad_members (change_mail f st) = ad_members st" "ad_globalPerms (change_mail f st) = ad_globalPerms st"
  "ad_domainPerms (change_mail f st) = ad_domainPerms st" "ad_profiles (change_mail f st) = ad_profiles st"
  by (simp_all add: change_mail_def)

lemma on_mail_Inr: "on_mail f st = (Inr a, st') \<longleftrightarrow> (\<exists>m. f (ad_mail st) = (Inr a, m) \<and> st' = st\<lparr>ad_mail := m\<rparr>)"
  by (auto simp: on_mail_def split: prod.splits)

section \<open>Joining the groups of an invitation\<close>

abbreviation group_known :: "string \<Rightarrow> admin_state \<Rightarrow> bool" where
  "group_known g st \<equiv> g \<in> gr_id ` set (ad_groups st)"

abbreviation account_known :: "string \<Rightarrow> admin_state \<Rightarrow> bool" where
  "account_known a st \<equiv> a \<in> ac_id ` set (ms_accounts (ad_mail st))"

lemma find_group_known: "find_group g (groups_view st) = None \<longleftrightarrow> \<not> group_known g st"
  by (auto simp: find_group_def find_None_iff)

lemma find_account_known: "find_account a (gs_accounts (groups_view st)) = None \<longleftrightarrow> \<not> account_known a st"
  by (auto simp: find_account_def find_None_iff)

lemma db_assign_frame:
  "db_assignAccountToGroup now a g v = (res, v') \<Longrightarrow> v' = v\<lparr>gs_members := gs_members v'\<rparr>"
  by (auto simp: db_assignAccountToGroup_def split: if_splits)

lemma join_step:
  assumes "guard_lawful ops" "on_groups (go_assignAccountToGroup ops now a g) st = (res, st')"
  shows "\<exists>ms. st' = st\<lparr>ad_members := ms\<rparr>"
    "res = Inr u \<Longrightarrow> set (member_pairs (groups_view st')) = insert (g, a) (set (member_pairs (groups_view st)))"
proof -
  obtain v where v: "db_assignAccountToGroup now a g (groups_view st) = (res, v)" "st' = with_groups v st"
    using assms lawful_finds(3) [OF assms(1)] by (auto simp: on_groups_def split: prod.splits)
  note frame = db_assign_frame [OF v(1)]
  have "with_groups v st = with_groups ((groups_view st)\<lparr>gs_members := gs_members v\<rparr>) st" using frame by simp
  also have "\<dots> = st\<lparr>ad_members := gs_members v\<rparr>" by (simp add: with_groups_def groups_view_def)
  finally show "\<exists>ms. st' = st\<lparr>ad_members := ms\<rparr>" using v(2) by blast
  show "set (member_pairs (groups_view st')) = insert (g, a) (set (member_pairs (groups_view st)))" if "res = Inr u"
    using assign_pairs [of now a g "groups_view st" u v] v that by simp
qed

lemma join_each_effect:
  assumes "guard_lawful ops"
  shows "join_each ops now a gs st = (res, st') \<Longrightarrow> (\<exists>ms. st' = st\<lparr>ad_members := ms\<rparr>)
     \<and> (res = Inr () \<longrightarrow> set (member_pairs (groups_view st')) = (\<lambda>g. (g, a)) ` set gs \<union> set (member_pairs (groups_view st)))"
proof (induction gs arbitrary: st)
  case (Cons g gs)
  obtain r st1 where one: "on_groups (go_assignAccountToGroup ops now a g) st = (r, st1)" by fastforce
  note eff = join_step [OF assms one]
  show ?case
  proof (cases r)
    case (Inl e)
    with Cons.prems one eff(1) show ?thesis by auto
  next
    case (Inr u)
    with Cons.prems one have "join_each ops now a gs st1 = (res, st')" by simp
    note rest = Cons.IH [OF this]
    from rest eff(1) have "\<exists>ms. st' = st\<lparr>ad_members := ms\<rparr>" by auto
    with rest eff(2) [OF Inr] show ?thesis by auto
  qed
qed (auto intro: exI [of _ "ad_members st'"])

text \<open>It goes through when the account and every group are there, and stops at the first that is gone.\<close>

lemma join_step_known:
  assumes "guard_lawful ops" "account_known a st"
  shows "group_known g st \<Longrightarrow> \<exists>st1. on_groups (go_assignAccountToGroup ops now a g) st = (Inr (), st1)"
    "\<not> group_known g st \<Longrightarrow> (g, a) \<notin> set (member_pairs (groups_view st)) \<Longrightarrow>
       on_groups (go_assignAccountToGroup ops now a g) st = (Inl (Crash ''ER_NO_REFERENCED_ROW''), st)"
  using assms(2) find_group_known [of g st] find_account_known [of a st]
  by (auto simp: lawful_finds [OF assms(1)] on_groups_def db_assignAccountToGroup_def member_pairs_def split: prod.splits)

lemma join_each_known:
  assumes "guard_lawful ops"
  shows "account_known a st \<Longrightarrow> \<forall>g \<in> set gs. group_known g st \<Longrightarrow> \<exists>st'. join_each ops now a gs st = (Inr (), st')"
proof (induction gs arbitrary: st)
  case (Cons g gs)
  have "group_known g st" using Cons.prems(2) by simp
  from join_step_known(1) [OF assms Cons.prems(1) this] obtain st1
    where one: "on_groups (go_assignAccountToGroup ops now a g) st = (Inr (), st1)" ..
  from join_step(1) [OF assms one] have "ad_mail st1 = ad_mail st" "ad_groups st1 = ad_groups st" by auto
  with Cons.prems have "account_known a st1" "\<forall>g \<in> set gs. group_known g st1" by auto
  from Cons.IH [OF this] one show ?case by simp
qed simp

lemma join_each_mail: "guard_lawful ops \<Longrightarrow> join_each ops now a gs st = (res, st') \<Longrightarrow> ad_mail st' = ad_mail st"
  by (auto dest: join_each_effect)

section \<open>What an acceptance writes in the mail tables\<close>

lemma created_mail [simp]:
  "ms_domains (ad_mail (createInvited env e b now st)) = ms_domains (ad_mail st)"
  "ms_users (ad_mail (createInvited env e b now st)) = ms_users (ad_mail st)"
  "ms_aliases (ad_mail (createInvited env e b now st)) = ms_aliases (ad_mail st)"
  "ms_delegations (ad_mail (createInvited env e b now st)) = ms_delegations (ad_mail st)"
  "ms_invitations (ad_mail (createInvited env e b now st)) = ms_invitations (ad_mail st)"
  "ad_groups (createInvited env e b now st) = ad_groups st" "ad_members (createInvited env e b now st) = ad_members st"
  "ad_globalPerms (createInvited env e b now st) = ad_globalPerms st" "ad_domainPerms (createInvited env e b now st) = ad_domainPerms st"
  by (simp_all add: createInvited_def)

lemma created_known [simp]: "account_known (ie_account env) (createInvited env e b now st)"
  by (simp add: createInvited_def new_account_def set_save_row)

lemma handOver_tables [simp]:
  "ms_delegations (handOver ivt a m) = ms_delegations m" "ms_invitations (handOver ivt a m) = ms_invitations m"
  "ms_accounts (handOver ivt a m) = ms_accounts m"
  by (simp_all add: handOver_def Let_def split: option.splits)

lemma handOver_domains:
  "ms_domains (handOver ivt a m) = map (\<lambda>v. if iv_ownerDomainId ivt = Some (vd_id v) \<and> vd_id v \<noteq> 0 then v\<lparr>vd_ownerId := Some a\<rparr> else v) (ms_domains m)"
  by (auto simp: handOver_def Let_def update_where_def split: option.splits intro!: map_idI [symmetric])

lemma handOver_users:
  "ms_users (handOver ivt a m) = map (\<lambda>r. if vu_id r \<in> set (parseIds (iv_recipientIds ivt)) \<and> vu_ownerId r = None
     then r\<lparr>vu_ownerId := Some a\<rparr> else r) (ms_users m)"
  by (simp add: handOver_def Let_def update_where_def split: option.splits)

lemma handOver_aliases:
  "ms_aliases (handOver ivt a m) = map (\<lambda>r. if va_id r \<in> set (parseIds (iv_aliasIds ivt)) \<and> va_ownerId r = None
     then r\<lparr>va_ownerId := Some a\<rparr> else r) (ms_aliases m)"
  by (simp add: handOver_def Let_def update_where_def split: option.splits)

lemma grant_tables [simp]:
  "ms_users (grantFromInvitation n now ivt a m) = ms_users m" "ms_aliases (grantFromInvitation n now ivt a m) = ms_aliases m"
  "ms_domains (grantFromInvitation n now ivt a m) = ms_domains m" "ms_accounts (grantFromInvitation n now ivt a m) = ms_accounts m"
  "ms_invitations (grantFromInvitation n now ivt a m) = ms_invitations m"
  by (simp_all add: grantFromInvitation_def upsertRow_def save_delegation_def split: option.splits)

lemma spend_tables [simp]:
  "ms_users (spendInvitation n now ivt a act m) = ms_users m" "ms_aliases (spendInvitation n now ivt a act m) = ms_aliases m"
  "ms_domains (spendInvitation n now ivt a act m) = ms_domains m" "ms_accounts (spendInvitation n now ivt a act m) = ms_accounts m"
  "ms_invitations (spendInvitation n now ivt a act m) = save_row iv_id (ivt\<lparr>iv_acceptedAt := Some now\<rparr>) (ms_invitations m)"
  "ms_delegations (spendInvitation n now ivt a act m) = ms_delegations (grantFromInvitation n now ivt a m)"
  by (simp_all add: spendInvitation_def Let_def save_invitation_def)

lemma usable_found:
  assumes "usableInvitation tk now m = Inr ivt"
  shows "ivt \<in> set (ms_invitations m)" "iv_token ivt = tk" "iv_acceptedAt ivt = None"
    "iv_expiresAt ivt = Some t \<Longrightarrow> now \<le> t"
  using assms by (auto simp: usableInvitation_def find_token_def split: option.splits if_splits dest: find_in_set)

text \<open>The three ways an acceptance ends: nothing written; the account made and the groups not all joined; all of it.\<close>

lemma accept_cases:
  assumes "acceptInvitation env tk b now st = (res, st')"
  obtains (refused) e where "res = Inl e" "st' = st"
    | (stopped) ivt email e where "usableInvitation tk now (ad_mail st) = Inr ivt"
        "(case iv_email ivt of None \<Rightarrow> ab_email b | Some e \<Rightarrow> Some e) = Some email" "email \<noteq> []"
        "find_account_by_email email (ms_accounts (ad_mail st)) = None" "res = Inl e"
        "join_each (ie_ops env) now (ie_account env) (joinedGroups ivt (createInvited env email b now st))
          (createInvited env email b now st) = (Inl e, st')"
    | (accepted) ivt email st2 where "usableInvitation tk now (ad_mail st) = Inr ivt"
        "(case iv_email ivt of None \<Rightarrow> ab_email b | Some e \<Rightarrow> Some e) = Some email" "email \<noteq> []"
        "find_account_by_email email (ms_accounts (ad_mail st)) = None" "res = Inr email"
        "join_each (ie_ops env) now (ie_account env) (joinedGroups ivt (createInvited env email b now st))
          (createInvited env email b now st) = (Inr (), st2)"
        "st' = change_mail (\<lambda>m. spendInvitation (ie_delegation env) now ivt (ie_account env) ''delegations.accepted''
          (handOver ivt (ie_account env) m)) st2"
proof (cases "usableInvitation tk now (ad_mail st)")
  case (Inl e)
  with assms show thesis by (intro refused [of e]) (auto simp: acceptInvitation_def)
next
  case (Inr ivt)
  let ?email = "case iv_email ivt of None \<Rightarrow> ab_email b | Some e \<Rightarrow> Some e"
  show thesis
  proof (cases "\<exists>email. ?email = Some email \<and> email \<noteq> [] \<and> find_account_by_email email (ms_accounts (ad_mail st)) = None")
    case False
    with assms Inr have "st' = st \<and> (\<exists>e. res = Inl e)"
      by (auto simp: acceptInvitation_def split: option.splits if_splits)
    with refused show thesis by blast
  next
    case True
    then obtain email where email: "?email = Some email" "email \<noteq> []" "find_account_by_email email (ms_accounts (ad_mail st)) = None"
      by blast
    let ?st1 = "createInvited env email b now st"
    obtain r st2 where join: "join_each (ie_ops env) now (ie_account env) (joinedGroups ivt ?st1) ?st1 = (r, st2)" by fastforce
    have run: "(res, st') = and_then (r, st2) (\<lambda>_ st2. (Inr email, change_mail (\<lambda>m. spendInvitation (ie_delegation env) now ivt
        (ie_account env) ''delegations.accepted'' (handOver ivt (ie_account env) m)) st2))"
      using assms Inr email join by (simp add: acceptInvitation_def Let_def)
    show thesis
    proof (cases r)
      case (Inl e)
      with stopped [OF Inr email] join run show thesis by simp
    next
      case (Inr u)
      with accepted [OF \<open>usableInvitation tk now (ad_mail st) = Inr ivt\<close> email] join run show thesis by simp
    qed
  qed
qed

section \<open>The tables stay well-formed\<close>

lemma map_columns:
  "map vu_id (ms_users (handOver ivt a m)) = map vu_id (ms_users m)"
  "map vu_email (ms_users (handOver ivt a m)) = map vu_email (ms_users m)"
  "map va_id (ms_aliases (handOver ivt a m)) = map va_id (ms_aliases m)"
  "map va_source (ms_aliases (handOver ivt a m)) = map va_source (ms_aliases m)"
  "map vd_id (ms_domains (handOver ivt a m)) = map vd_id (ms_domains m)"
  "map vd_domain (ms_domains (handOver ivt a m)) = map vd_domain (ms_domains m)"
  by (simp_all add: handOver_users handOver_aliases handOver_domains)

lemma handOver_sound:
  assumes "tables_sound m"
  shows "tables_sound (handOver ivt a m)"
proof -
  let ?m = "handOver ivt a m"
  have names: "vd_domain ` set (ms_domains ?m) = vd_domain ` set (ms_domains m)" by (metis map_columns(6) image_set)
  have "users_fine m" "domains_sound m" "aliases_fine m" using assms by (simp_all add: tables_sound_parts)
  have rows: "vu_domain u \<in> vd_domain ` set (ms_domains m) \<and> address_ok u \<and> 0 \<le> vu_quota u" if "u \<in> set (ms_users ?m)" for u
  proof -
    from that obtain x where x: "x \<in> set (ms_users m)" "vu_domain u = vu_domain x" "vu_email u = vu_email x" "vu_quota u = vu_quota x"
      by (auto simp: handOver_users)
    with \<open>users_fine m\<close> show ?thesis by (simp add: users_fine_def users_sound_iff address_ok_def)
  qed
  then have "users_fine ?m"
    using \<open>users_fine m\<close> unfolding users_fine_def users_sound_iff map_columns names by blast
  moreover have "domains_sound ?m" using \<open>domains_sound m\<close> by (simp add: domains_sound_def map_columns)
  moreover have "aliases_fine ?m" using \<open>aliases_fine m\<close> by (simp add: aliases_fine_def map_columns)
  moreover have "offers_sound ?m" "grants_sound ?m"
    using assms parts_cong(2,3) [of ?m m] by (simp_all add: tables_sound_parts)
  ultimately show ?thesis by (simp add: tables_sound_parts)
qed

lemma clamped_nonneg: "0 \<le> offered \<Longrightarrow> 0 \<le> clamped_mb g offered held"
  by (simp add: clamped_mb_def split: option.split)

lemma grant_sound:
  assumes sound: "tables_sound m" and ivt: "ivt \<in> set (ms_invitations m)" and fresh: "n \<notin> dd_id ` set (ms_delegations m)"
  shows "tables_sound (grantFromInvitation n now ivt a m)"
proof -
  have "0 \<le> offered_mb ivt" using sound ivt by (simp add: tables_sound_parts offers_sound_def)
  then show ?thesis using sound fresh
    by (auto simp: grantFromInvitation_def offered_mb_def clamped_nonneg split: option.splits intro!: upsert_sound)
qed

lemma journal_sound: "tables_sound m \<Longrightarrow> tables_sound (m\<lparr>ms_journal := j\<rparr>)"
  by (rule same_tables_sound) simp_all

lemma spend_sound:
  assumes sound: "tables_sound m" and ivt: "ivt \<in> set (ms_invitations m)" and fresh: "n \<notin> dd_id ` set (ms_delegations m)"
  shows "tables_sound (spendInvitation n now ivt a act m)"
proof -
  have "0 \<le> offered_mb (ivt\<lparr>iv_acceptedAt := Some now\<rparr>)"
    using sound ivt by (simp add: tables_sound_parts offers_sound_def offered_mb_def)
  from save_invitation_sound [OF grant_sound [OF sound ivt fresh] this, of ivt] ivt show ?thesis
    unfolding spendInvitation_def Let_def by (intro journal_sound) simp
qed

text \<open>What the database's own numbering and the drawn identifiers give.\<close>

definition invite_fresh :: "invite_env \<Rightarrow> admin_state \<Rightarrow> bool" where
  "invite_fresh env st = (guard_lawful (ie_ops env)
     \<and> ie_invitation env \<notin> iv_id ` set (ms_invitations (ad_mail st)) \<and> ie_delegation env \<notin> dd_id ` set (ms_delegations (ad_mail st))
     \<and> ie_account env \<noteq> [] \<and> ie_account env \<notin> ac_id ` set (ms_accounts (ad_mail st))
     \<and> ie_account env \<notin> dd_accountId ` set (ms_delegations (ad_mail st))
     \<and> ie_account env \<notin> gm_accountId ` set (ad_members st) \<and> ie_group env \<notin> gr_id ` set (ad_groups st))"

lemma created_sound: "tables_sound (ad_mail st) \<Longrightarrow> tables_sound (ad_mail (createInvited env e b now st))"
  by (rule same_tables_sound) simp_all

lemma accept_sound:
  assumes sound: "tables_sound (ad_mail st)" and fresh: "invite_fresh env st" and op: "acceptInvitation env tk b now st = (res, st')"
  shows "tables_sound (ad_mail st')"
  using op
proof (cases rule: accept_cases)
  case (stopped ivt email e)
  with fresh join_each_mail [OF _ stopped(6)] created_sound [OF sound] show ?thesis by (simp add: invite_fresh_def)
next
  case (accepted ivt email st2)
  have mail: "ad_mail st2 = ad_mail (createInvited env email b now st)"
    using fresh join_each_mail [OF _ accepted(6)] by (simp add: invite_fresh_def)
  have "tables_sound (handOver ivt (ie_account env) (ad_mail st2))"
    unfolding mail by (rule handOver_sound [OF created_sound [OF sound]])
  then show ?thesis using usable_found(1) [OF accepted(1)] fresh
    unfolding accepted(7) change_mail_simps by (intro spend_sound) (simp_all add: mail invite_fresh_def)
qed (use sound in simp)

lemma claim_cases:
  assumes "claimInvitation env tk a now st = (res, st')"
  obtains (refused) e where "res = Inl e" "st' = st"
    | (claimed) ivt d where "usableInvitation tk now (ad_mail st) = Inr ivt" "iv_email ivt = None"
        "iv_delegationDomainId ivt = Some d" "d \<noteq> 0" "res = Inr d"
        "st' = change_mail (spendInvitation (ie_delegation env) now ivt a ''delegations.claimed'') st"
  using assms by (auto simp: claimInvitation_def split: sum.splits option.splits if_splits)

lemma claim_sound:
  assumes sound: "tables_sound (ad_mail st)" and fresh: "invite_fresh env st" and op: "claimInvitation env tk a now st = (res, st')"
  shows "tables_sound (ad_mail st')"
  using op
proof (cases rule: claim_cases)
  case (claimed ivt d)
  with spend_sound [OF sound usable_found(1) [OF claimed(1)]] fresh show ?thesis by (simp add: invite_fresh_def)
qed (use sound in simp)

lemma assert_all_True: "assert_all ask es = Inr v \<Longrightarrow> v = True"
  by (induction ask es rule: assert_all.induct) (auto split: sum.splits)

text \<open>Sending: a former invitation may expire; on success one row is added, and a mail.\<close>

lemma invitedGroups_mail: "invitedGroups env actor b dm now st = (res, st') \<Longrightarrow> ad_mail st' = ad_mail st"
  by (auto simp: invitedGroups_def dedicatedGroup_def Let_def split: if_splits prod.splits option.splits sum.splits)

lemma send_cases:
  assumes "sendInvitation env actor b now st = (res, st')"
  obtains (refused) e where "res = Inl e" "ad_mail st' = expire_former (sb_email b) now (ad_mail st)"
    | (staged) dm groupIdList gs st2 m3 where
        "find_domain (sb_domainId b) (expire_former (sb_email b) now (ad_mail st)) = Some dm"
        "sb_makeOwner b \<Longrightarrow> assertGlobal (ie_guard env) actor OWNERSHIP_REQUIREMENTS = Inr True"
        "invitedGroups env actor b dm now (change_mail (expire_former (sb_email b) now) st) = (Inr (groupIdList, gs), st2)"
        "assertAssignableRecipients (ie_guard env) actor (sb_recipientIds b) (vd_domain dm) (ad_mail st2) = Inr ()"
        "assertAssignableAliases (ie_guard env) actor (sb_aliasIds b) (vd_domain dm) (ad_mail st2) = Inr ()"
        "insert_invitation (staged_account env (gu_id actor) b groupIdList now) (ad_mail st2) = (Inr (), m3)"
        "(res, st') = on_mail (send_invitation (ie_mail env)
            \<lparr>im_to = sb_email b, im_link = inviteLink (ie_mail env) (ie_baseUrl env) (ie_token env),
             im_fromDomain = vd_domain dm, im_groupNames = map gr_name gs\<rparr>) (st2\<lparr>ad_mail := m3\<rparr>)"
proof -
  let ?st1 = "change_mail (expire_former (sb_email b) now) st"
  show thesis
  proof (cases "find_domain (sb_domainId b) (ad_mail ?st1)")
    case None
    with assms refused show thesis by (auto simp: sendInvitation_def Let_def)
  next
    case (Some dm)
    let ?own = "if sb_makeOwner b then assertGlobal (ie_guard env) actor OWNERSHIP_REQUIREMENTS else Inr True"
    obtain g st2 where g: "invitedGroups env actor b dm now ?st1 = (g, st2)" by fastforce
    have mail: "ad_mail st2 = expire_former (sb_email b) now (ad_mail st)" using invitedGroups_mail [OF g] by simp
    show thesis
    proof (cases ?own)
      case (Inl e)
      with assms Some refused [of e] show thesis by (auto simp: sendInvitation_def Let_def)
    next
      case own: (Inr u)
      show thesis
      proof (cases g)
        case (Inl e)
        with assms Some own g mail refused [of e] show thesis by (auto simp: sendInvitation_def Let_def)
      next
        case (Inr p)
        obtain ids gs where p: "p = (ids, gs)" by fastforce
        let ?rcp = "assertAssignableRecipients (ie_guard env) actor (sb_recipientIds b) (vd_domain dm) (ad_mail st2)"
        let ?als = "assertAssignableAliases (ie_guard env) actor (sb_aliasIds b) (vd_domain dm) (ad_mail st2)"
        obtain i m3 where i: "insert_invitation (staged_account env (gu_id actor) b ids now) (ad_mail st2) = (i, m3)" by fastforce
        note run = assms [unfolded sendInvitation_def Let_def]
        show thesis
        proof (cases ?rcp)
          case (Inl e)
          with run Some own g Inr p mail refused [of e] show thesis by auto
        next
          case rcp: (Inr v)
          show thesis
          proof (cases ?als)
            case (Inl e)
            with run Some own g Inr p rcp mail refused [of e] show thesis by auto
          next
            case als: (Inr v)
            show thesis
            proof (cases i)
              case (Inl e)
              then have "m3 = ad_mail st2" using i by (auto simp: insert_invitation_def split: if_splits)
              with run Some own g \<open>g = Inr p\<close> p rcp als i Inl mail refused [of e] show thesis by (auto simp: on_mail_def)
            next
              case ins: (Inr v)
              show thesis
              proof (rule staged [of dm ids gs st2 m3])
                show "assertGlobal (ie_guard env) actor OWNERSHIP_REQUIREMENTS = Inr True" if "sb_makeOwner b"
                  using own that by (auto simp: assertGlobal_def dest: assert_all_True split: if_splits)
              qed (use run Some own g \<open>g = Inr p\<close> p rcp als i ins in \<open>simp_all add: on_mail_def\<close>)
            qed
          qed
        qed
      qed
    qed
  qed
qed

lemma offered_account [simp]:
  "offered_mb (staged_account env me b ids now) = 0" "iv_id (staged_account env me b ids now) = ie_invitation env"
  "iv_delegationDomainId (staged_account env me b ids now) = None" "iv_token (staged_account env me b ids now) = ie_token env"
  by (simp_all add: staged_account_def offered_mb_def)

lemma expired_ids: "iv_id ` set (ms_invitations (expire_former e now m)) = iv_id ` set (ms_invitations m)"
  by (metis expire_former_ids image_set)

lemma mailed_tables:
  assumes "(res, st') = on_mail (send_invitation me ml) (st2\<lparr>ad_mail := m3\<rparr>)"
  shows "\<exists>mls. ad_mail st' = m3\<lparr>ms_mails := mls\<rparr>" "groups_view st' = groups_view (st2\<lparr>ad_mail := m3\<rparr>)"
proof -
  from assms have "\<exists>mls. st' = st2\<lparr>ad_mail := m3\<lparr>ms_mails := mls\<rparr>\<rparr>"
    by (auto simp: on_mail_def send_invitation_def split: if_splits intro: exI [of _ "ms_mails m3"])
  then show "\<exists>mls. ad_mail st' = m3\<lparr>ms_mails := mls\<rparr>" "groups_view st' = groups_view (st2\<lparr>ad_mail := m3\<rparr>)"
    by (auto simp: groups_view_def)
qed

lemma send_sound:
  assumes sound: "tables_sound (ad_mail st)" and fresh: "invite_fresh env st" and op: "sendInvitation env actor b now st = (res, st')"
  shows "tables_sound (ad_mail st')"
  using op
proof (cases rule: send_cases)
  case (refused e)
  with expire_former_sound [OF sound] show ?thesis by simp
next
  case (staged dm ids gs st2 m3)
  have mail: "ad_mail st2 = expire_former (sb_email b) now (ad_mail st)" using invitedGroups_mail [OF staged(3)] by simp
  have "tables_sound m3"
    using fresh expire_former_sound [OF sound, of "sb_email b" now]
    by (intro insert_invitation_sound [OF _ staged(6)]) (simp_all add: mail expired_ids invite_fresh_def)
  with mailed_tables(1) [OF staged(7)] mails_sound show ?thesis by auto
qed

lemma dropped_state: "dropped r = (res, st') \<Longrightarrow> \<exists>x. r = (x, st')"
  by (cases r) (auto simp: dropped_def)

lemma invite_serve_run:
  assumes "invite_serve env user now r st = (res, st')"
  shows "st' = st
    \<or> (\<exists>b u x. r = SendInvite b \<and> user = Some u \<and> sendInvitationSchema b \<and> sendInvitation env u b now st = (x, st'))
    \<or> (\<exists>tk b x. r = AcceptInvite tk b \<and> acceptInvitationSchema b \<and> acceptInvitation env tk b now st = (x, st'))
    \<or> (\<exists>tk u x. r = ClaimInvite tk \<and> user = Some u \<and> claimInvitation env tk (gu_id u) now st = (x, st'))"
  using assms
  by (cases r) (auto dest: dropped_state split: sum.splits if_splits option.splits)

lemma invite_serve_sound:
  assumes "tables_sound (ad_mail st)" "invite_fresh env st" "invite_serve env user now r st = (res, st')"
  shows "tables_sound (ad_mail st')"
  using invite_serve_run [OF assms(3)] send_sound [OF assms(1,2)] accept_sound [OF assms(1,2)] claim_sound [OF assms(1,2)] assms(1)
  by blast

section \<open>Cover\<close>

text \<open>Handing over rows nobody owned to an account that holds no delegation moves nothing in the books.\<close>

lemma sumQuota_handOver:
  assumes "x \<noteq> Some a"
  shows "sumQuota f x (handOver ivt a m) = sumQuota f x m"
proof -
  have moved: "sum_where vu_quota P (map g us) = sum_where vu_quota P us"
    if "\<And>r. P (g r) = P r" "\<And>r. vu_quota (g r) = vu_quota r" for P g and us :: "virtual_user list"
    using that by (induction us) (auto simp: sum_where_def)
  show ?thesis using assms unfolding sumQuota_def handOver_users
    by (intro moved) (auto simp: owned_by_def split: option.split)
qed

lemma handOver_books:
  assumes "a \<notin> dd_accountId ` set (ms_delegations m)"
  shows "committed now d (handOver ivt a m) = committed now d m"
proof -
  let ?m = "handOver ivt a m"
  have unused: "unusedReserve r (vd_domain d) ?m = unusedReserve r (vd_domain d) m" if "r \<in> set (ms_delegations m)" for r
  proof -
    have "dd_accountId r \<noteq> a" using that assms by auto
    then show ?thesis using sumQuota_handOver [of "Some (dd_accountId r)" a]
      by (simp add: unusedReserve_def spentBytesOf_def usedBytesOf_def)
  qed
  have rows: "delegations_on (vd_id d) ?m = delegations_on (vd_id d) m" by (simp add: delegations_on_def)
  have "reserve_sum d ?m = reserve_sum d m"
    unfolding reserve_sum_def rows by (intro sum_list_change_none unused) (simp add: delegations_on_def)
  moreover have "pendingReservedBytes (vd_id d) None now ?m = pendingReservedBytes (vd_id d) None now m"
    by (simp add: pending_sum)
  ultimately show ?thesis using sumQuota_handOver [of None a] by (simp add: committed_def)
qed

text \<open>A staged grant is cut to what the domain can still commit, its own promise aside.\<close>

lemma grant_books:
  assumes sound: "tables_sound m" and ivt: "ivt \<in> set (ms_invitations m)" and fresh: "n \<notin> dd_id ` set (ms_delegations m)"
    and d: "d \<in> set (ms_domains m)" "vd_quota d \<noteq> 0"
  shows "books (Some (iv_id ivt)) now d (grantFromInvitation n now ivt a m) \<le> max (books (Some (iv_id ivt)) now d m) (vd_quota d)"
proof (cases "grantFromInvitation n now ivt a m = m")
  case False
  then obtain i q dm where i: "iv_delegationDomainId ivt = Some i" "iv_delegationQuotaMb ivt = Some q" "find_domain i m = Some dm" "i \<noteq> 0"
    by (auto simp: grantFromInvitation_def split: option.splits if_splits)
  have q: "0 \<le> q" using sound ivt i(2) by (auto simp: tables_sound_parts offers_sound_def offered_mb_def)
  let ?g = "grantableMb dm (Some a) (Some (iv_id ivt)) now m" and ?held = "held_mb a (vd_id dm) m"
  have fits: "?held + clamped_mb ?g q ?held \<le> g \<or> clamped_mb ?g q ?held = 0" if "?g = Some g" for g
    using that by (auto simp: clamped_mb_def)
  have "grants_sound m" "domains_sound m" using sound by (simp_all add: tables_sound_parts)
  with find_domain_in [OF i(3)] d fresh clamped_nonneg [OF q] fits i show ?thesis
    by (simp add: grantFromInvitation_def) (intro upsert_books, auto)
qed simp

lemma spend_books:
  assumes sound: "tables_sound m" and ivt: "ivt \<in> set (ms_invitations m)" and fresh: "n \<notin> dd_id ` set (ms_delegations m)"
    and d: "d \<in> set (ms_domains m)" "vd_quota d \<noteq> 0"
  shows "committed now d (spendInvitation n now ivt a act m) \<le> max (committed now d m) (vd_quota d)"
proof -
  let ?g = "grantFromInvitation n now ivt a m" and ?i = "ivt\<lparr>iv_acceptedAt := Some now\<rparr>"
  have ids: "distinct (map iv_id (ms_invitations m))" and pos: "0 \<le> offered_mb ivt"
    using sound ivt by (auto simp: tables_sound_parts offers_sound_def)
  have "committed now d (spendInvitation n now ivt a act m) = committed now d (save_invitation ?i ?g)"
    unfolding spendInvitation_def Let_def by (rule committed_cong) simp_all
  also have "\<dots> = committed now d ?g - promised_on now d ivt"
    using committed_save_invitation [of ?g ivt ?i now d] ids ivt by (simp add: promised_on_def stillPending_def)
  also have "\<dots> = books (Some (iv_id ivt)) now d ?g" using books_excluding [of ?g ivt now d] ids ivt by simp
  also have "\<dots> \<le> max (books (Some (iv_id ivt)) now d m) (vd_quota d)" by (rule grant_books [OF assms])
  also have "\<dots> \<le> max (committed now d m) (vd_quota d)"
    using books_excluding [OF ids ivt, of now d] promised_nonneg [OF pos, of now d] by simp
  finally show ?thesis .
qed

lemma handOver_domain:
  assumes "d \<in> set (ms_domains m)"
  shows "\<exists>d' \<in> set (ms_domains (handOver ivt a m)). vd_id d' = vd_id d \<and> vd_domain d' = vd_domain d \<and> vd_quota d' = vd_quota d"
proof -
  let ?f = "\<lambda>v. if iv_ownerDomainId ivt = Some (vd_id v) \<and> vd_id v \<noteq> 0 then v\<lparr>vd_ownerId := Some a\<rparr> else v"
  have "?f d \<in> set (ms_domains (handOver ivt a m))" unfolding handOver_domains set_map using assms by (rule imageI)
  then show ?thesis by (rule bexI [rotated]) simp
qed

lemma accept_books:
  assumes sound: "tables_sound (ad_mail st)" and fresh: "invite_fresh env st" and op: "acceptInvitation env tk b now st = (res, st')"
    and d: "d \<in> set (ms_domains (ad_mail st))" "vd_quota d \<noteq> 0"
  shows "committed now d (ad_mail st') \<le> max (committed now d (ad_mail st)) (vd_quota d)"
  using op
proof (cases rule: accept_cases)
  case (stopped ivt email e)
  with fresh join_each_mail [OF _ stopped(6)] have "ad_mail st' = ad_mail (createInvited env email b now st)"
    by (simp add: invite_fresh_def)
  moreover have "committed now d (ad_mail (createInvited env email b now st)) = committed now d (ad_mail st)"
    by (rule committed_cong) simp_all
  ultimately show ?thesis by simp
next
  case (accepted ivt email st2)
  let ?m = "ad_mail (createInvited env email b now st)" and ?a = "ie_account env"
  have mail: "ad_mail st2 = ?m" using fresh join_each_mail [OF _ accepted(6)] by (simp add: invite_fresh_def)
  have a: "?a \<notin> dd_accountId ` set (ms_delegations ?m)" using fresh by (simp add: invite_fresh_def)
  have same: "committed now e (handOver ivt ?a ?m) = committed now e (ad_mail st)" for e
    using handOver_books [OF a, of now e ivt] committed_cong [of ?m "ad_mail st" now e] by simp
  from d(1) obtain d' where d': "d' \<in> set (ms_domains (handOver ivt ?a ?m))" "vd_id d' = vd_id d" "vd_domain d' = vd_domain d"
    "vd_quota d' = vd_quota d" using handOver_domain [of d ?m ivt ?a] by auto
  have "committed now d' (spendInvitation (ie_delegation env) now ivt ?a ''delegations.accepted'' (handOver ivt ?a ?m))
      \<le> max (committed now d' (handOver ivt ?a ?m)) (vd_quota d')"
    using fresh usable_found(1) [OF accepted(1)] d d' handOver_sound [OF created_sound [OF sound]]
    by (intro spend_books) (simp_all add: invite_fresh_def)
  then show ?thesis using same committed_same_domain [OF d'(2,3)] d'(4) by (simp add: accepted(7) mail)
qed simp

lemma send_books:
  assumes sound: "tables_sound (ad_mail st)" and fresh: "invite_fresh env st" and op: "sendInvitation env actor b now st = (res, st')"
  shows "committed now d (ad_mail st') \<le> committed now d (ad_mail st)"
proof -
  have off: "offers_sound (ad_mail st)" using sound by (simp add: tables_sound_parts)
  note former = expire_former_books [OF off, of now d "sb_email b"]
  show ?thesis
    using op
  proof (cases rule: send_cases)
    case (refused e)
    with former show ?thesis by simp
  next
    case (staged dm ids gs st2 m3)
    have mail: "ad_mail st2 = expire_former (sb_email b) now (ad_mail st)" using invitedGroups_mail [OF staged(3)] by simp
    from insert_invitation_books [OF staged(6), of now d] fresh
    have "committed now d m3 \<le> committed now d (ad_mail st2)"
      by (simp add: mail expired_ids invite_fresh_def promised_on_def)
    moreover obtain mls where "ad_mail st' = m3\<lparr>ms_mails := mls\<rparr>" using mailed_tables(1) [OF staged(7)] ..
    then have "committed now d (ad_mail st') = committed now d m3" by (intro committed_cong) simp_all
    ultimately show ?thesis using former mail by simp
  qed
qed

lemma claim_books:
  assumes sound: "tables_sound (ad_mail st)" and fresh: "invite_fresh env st" and op: "claimInvitation env tk a now st = (res, st')"
    and d: "d \<in> set (ms_domains (ad_mail st))" "vd_quota d \<noteq> 0"
  shows "committed now d (ad_mail st') \<le> max (committed now d (ad_mail st)) (vd_quota d)"
  using op
proof (cases rule: claim_cases)
  case (claimed ivt i)
  with spend_books [OF sound usable_found(1) [OF claimed(1)] _ d] fresh show ?thesis by (simp add: invite_fresh_def)
qed simp

lemma send_domains: "sendInvitation env actor b now st = (res, st') \<Longrightarrow> ms_domains (ad_mail st') = ms_domains (ad_mail st)"
proof (erule send_cases)
  fix dm ids gs st2 m3
  assume g: "invitedGroups env actor b dm now (change_mail (expire_former (sb_email b) now) st) = (Inr (ids, gs), st2)"
    and i: "insert_invitation (staged_account env (gu_id actor) b ids now) (ad_mail st2) = (Inr (), m3)"
    and m: "(res, st') = on_mail (send_invitation (ie_mail env)
        \<lparr>im_to = sb_email b, im_link = inviteLink (ie_mail env) (ie_baseUrl env) (ie_token env),
         im_fromDomain = vd_domain dm, im_groupNames = map gr_name gs\<rparr>) (st2\<lparr>ad_mail := m3\<rparr>)"
  have "ms_domains m3 = ms_domains (ad_mail st2)" using i by (auto simp: insert_invitation_def save_invitation_def split: if_splits)
  with mailed_tables(1) [OF m] invitedGroups_mail [OF g] show ?thesis by auto
qed simp

text \<open>A domain after a request of the invitations is one of before, its owner aside.\<close>

lemma invite_domains:
  assumes fresh: "invite_fresh env st" and op: "invite_serve env user now r st = (res, st')" and e: "e' \<in> set (ms_domains (ad_mail st'))"
  shows "\<exists>e \<in> set (ms_domains (ad_mail st)). vd_id e' = vd_id e \<and> vd_domain e' = vd_domain e \<and> vd_quota e' = vd_quota e"
proof -
  have accept: ?thesis if run: "acceptInvitation env tk b now st = (x, st')" for tk b x
    using run
  proof (cases rule: accept_cases)
    case (stopped ivt email err)
    with fresh join_each_mail [OF _ stopped(6)] e show ?thesis by (auto simp: invite_fresh_def)
  next
    case (accepted ivt email st2)
    with fresh join_each_mail [OF _ accepted(6)] e show ?thesis by (force simp: invite_fresh_def handOver_domains)
  qed (use e in auto)
  have claim: ?thesis if run: "claimInvitation env tk a now st = (x, st')" for tk a x
    using run by (cases rule: claim_cases) (use e in auto)
  have send: ?thesis if run: "sendInvitation env u b now st = (x, st')" for u b x
    using send_domains [OF run] e by auto
  show ?thesis using invite_serve_run [OF op] accept claim send e by blast
qed

lemma invite_covered:
  assumes sound: "tables_sound (ad_mail st)" and fresh: "invite_fresh env st" and op: "invite_serve env user now r st = (res, st')"
    and cov: "covered now (ad_mail st)"
  shows "covered now (ad_mail st')"
  unfolding covered_def
proof (intro ballI impI)
  fix e' assume e': "e' \<in> set (ms_domains (ad_mail st'))" "0 < vd_quota e'"
  from invite_domains [OF fresh op e'(1)] obtain e where e: "e \<in> set (ms_domains (ad_mail st))"
    "vd_id e' = vd_id e" "vd_domain e' = vd_domain e" "vd_quota e' = vd_quota e" by blast
  have q: "vd_quota e \<noteq> 0" using e'(2) e(4) by simp
  have "committed now e (ad_mail st') \<le> max (committed now e (ad_mail st)) (vd_quota e)"
    using invite_serve_run [OF op] send_books [OF sound fresh, of _ _ now] accept_books [OF sound fresh _ e(1) q]
      claim_books [OF sound fresh _ e(1) q] by (fastforce simp: le_max_iff_disj)
  moreover have "committed now e (ad_mail st) \<le> vd_quota e" using cov e e'(2) by (simp add: covered_def)
  ultimately show "committed now e' (ad_mail st') \<le> vd_quota e'"
    using committed_same_domain [OF e(2,3)] e(4) by simp
qed

section \<open>Runs of both services\<close>

text \<open>
  The invitations and the mail administration at work on one database, the groups' service between them, which
  writes neither accounts nor domains.
\<close>

inductive office_run ::
  "(guard_user \<Rightarrow> mail_request \<Rightarrow> mail_state \<Rightarrow> bool) \<Rightarrow> admin_state \<Rightarrow> time \<Rightarrow> admin_state \<Rightarrow> time \<Rightarrow> bool"
  for allowed s t where
  start: "office_run allowed s t s t"
| mail: "office_run allowed s t st now \<Longrightarrow> mail_run allowed (ad_mail st) now m now' \<Longrightarrow>
    office_run allowed s t (st\<lparr>ad_mail := m\<rparr>) now'"
| groups: "office_run allowed s t st now \<Longrightarrow> gs_accounts g = ms_accounts (ad_mail st) \<Longrightarrow>
    gs_domains g = ms_domains (ad_mail st) \<Longrightarrow> office_run allowed s t (with_groups g st) now"
| invited: "office_run allowed s t st now \<Longrightarrow> invite_fresh env st \<Longrightarrow>
    invite_serve env user now r st = (res, st') \<Longrightarrow> office_run allowed s t st' now"

lemma regrouped_mail:
  assumes "gs_accounts g = ms_accounts (ad_mail st)" "gs_domains g = ms_domains (ad_mail st)"
  shows "\<exists>w. ad_mail (with_groups g st) = (ad_mail st)\<lparr>ms_audit := w\<rparr>"
  using assms by (intro exI [of _ "gs_audit g"]) (simp add: with_groups_def)

lemma office_sound: "office_run allowed s t st now \<Longrightarrow> tables_sound (ad_mail s) \<Longrightarrow> tables_sound (ad_mail st)"
proof (induction rule: office_run.induct)
  case (mail st now m now')
  then show ?case using run_sound [of allowed "ad_mail st" now m now'] by simp
next
  case (groups st now g)
  obtain w where "ad_mail (with_groups g st) = (ad_mail st)\<lparr>ms_audit := w\<rparr>" using regrouped_mail [OF groups.hyps(2,3)] ..
  with groups.IH [OF groups.prems] same_tables_sound [of "ad_mail st" "(ad_mail st)\<lparr>ms_audit := w\<rparr>"] show ?case by simp
next
  case (invited st now env user r res st')
  then show ?case using invite_serve_sound by blast
qed

lemma office_covered:
  "office_run keeps_cover s t st now \<Longrightarrow> tables_sound (ad_mail s) \<Longrightarrow> covered t (ad_mail s) \<Longrightarrow> covered now (ad_mail st)"
proof (induction rule: office_run.induct)
  case (mail st now m now')
  with run_covered [OF mail.hyps(2)] office_sound [OF mail.hyps(1)] show ?case by simp
next
  case (groups st now g)
  obtain w where "ad_mail (with_groups g st) = (ad_mail st)\<lparr>ms_audit := w\<rparr>" using regrouped_mail [OF groups.hyps(2,3)] ..
  moreover have "committed now e ((ad_mail st)\<lparr>ms_audit := w\<rparr>) = committed now e (ad_mail st)" for e
    by (rule committed_cong) simp_all
  ultimately show ?case using groups by (simp add: covered_def)
next
  case (invited st now env user r res st')
  with invite_covered [OF office_sound [OF invited.hyps(1)]] show ?case by blast
qed

end
