(* ===== verification/InviteSafety.thy ===== *)
theory InviteSafety imports InviteBooks begin

text \<open>
  What the invitations promise, along runs of both services: an invitation serves once, gives what was staged
  and takes from nobody, never commits a domain beyond its quota, and carries no permission its sender lacks;
  and the places where the code falls short of it.
\<close>

section \<open>Once\<close>

lemma spent_refused:
  assumes "offers_sound m" "tk \<in> spent_tokens m"
  shows "usableInvitation tk now m = Inl (HttpException BAD_REQUEST ''Invitation already used'')"
proof -
  from assms(2) obtain i where i: "i \<in> set (ms_invitations m)" "iv_acceptedAt i \<noteq> None" "iv_token i = tk" by (rule spentE)
  have "List.find (\<lambda>x. iv_token x = iv_token i) (ms_invitations m) = Some i"
    using assms(1) i(1) by (intro find_by_key) (simp_all add: offers_sound_def)
  with i show ?thesis by (simp add: usableInvitation_def find_token_def)
qed

lemma spend_spends:
  assumes "offers_sound m" "ivt \<in> set (ms_invitations m)"
  shows "iv_token ivt \<in> spent_tokens (spendInvitation n now ivt a act m)"
    "spent_tokens m \<subseteq> spent_tokens (spendInvitation n now ivt a act m)"
proof -
  show "iv_token ivt \<in> spent_tokens (spendInvitation n now ivt a act m)"
    by (rule spentI [of "ivt\<lparr>iv_acceptedAt := Some now\<rparr>"]) (simp_all add: set_save_row)
  have "spent_tokens m \<subseteq> spent_tokens (save_invitation (ivt\<lparr>iv_acceptedAt := Some now\<rparr>) m)"
    using assms by (intro spent_save) (auto simp: offers_sound_def)
  also have "\<dots> = spent_tokens (spendInvitation n now ivt a act m)"
    by (rule spent_same) (simp add: save_invitation_def)
  finally show "spent_tokens m \<subseteq> spent_tokens (spendInvitation n now ivt a act m)" .
qed

lemma accept_spends:
  assumes "offers_sound (ad_mail st)" "guard_lawful (ie_ops env)" "acceptInvitation env tk b now st = (res, st')"
  shows "spent_tokens (ad_mail st) \<subseteq> spent_tokens (ad_mail st')"
    "res = Inr email \<Longrightarrow> tk \<in> spent_tokens (ad_mail st')"
proof -
  have "spent_tokens (ad_mail st) \<subseteq> spent_tokens (ad_mail st') \<and> (res = Inr email \<longrightarrow> tk \<in> spent_tokens (ad_mail st'))"
    using assms(3)
  proof (cases rule: accept_cases)
    case (stopped ivt e err)
    with join_each_mail [OF assms(2) stopped(6)] spent_same [of "ad_mail st'" "ad_mail st"] show ?thesis by simp
  next
    case (accepted ivt e st2)
    note mail = join_each_mail [OF assms(2) accepted(6)]
    let ?m = "handOver ivt (ie_account env) (ad_mail st2)"
    have "ms_invitations ?m = ms_invitations (ad_mail st)" by (simp add: mail)
    then have "offers_sound ?m" "ivt \<in> set (ms_invitations ?m)" "spent_tokens ?m = spent_tokens (ad_mail st)"
      using assms(1) usable_found(1) [OF accepted(1)] parts_cong(2) [of ?m "ad_mail st"] spent_same [of ?m "ad_mail st"] by auto
    with spend_spends [of ?m ivt] usable_found(2) [OF accepted(1)] show ?thesis by (simp add: accepted(7))
  qed simp
  then show "spent_tokens (ad_mail st) \<subseteq> spent_tokens (ad_mail st')" "res = Inr email \<Longrightarrow> tk \<in> spent_tokens (ad_mail st')"
    by blast+
qed

lemma claim_spends:
  assumes "offers_sound (ad_mail st)" "claimInvitation env tk a now st = (res, st')"
  shows "spent_tokens (ad_mail st) \<subseteq> spent_tokens (ad_mail st')"
    "res = Inr d \<Longrightarrow> tk \<in> spent_tokens (ad_mail st')"
proof -
  have "spent_tokens (ad_mail st) \<subseteq> spent_tokens (ad_mail st') \<and> (res = Inr d \<longrightarrow> tk \<in> spent_tokens (ad_mail st'))"
    using assms(2)
  proof (cases rule: claim_cases)
    case (claimed ivt i)
    with spend_spends [OF assms(1) usable_found(1) [OF claimed(1)]] usable_found(2) [OF claimed(1)] show ?thesis by simp
  qed simp
  then show "spent_tokens (ad_mail st) \<subseteq> spent_tokens (ad_mail st')" "res = Inr d \<Longrightarrow> tk \<in> spent_tokens (ad_mail st')"
    by blast+
qed

lemma send_spends:
  assumes "tables_sound (ad_mail st)" "invite_fresh env st" "sendInvitation env actor b now st = (res, st')"
  shows "spent_tokens (ad_mail st) \<subseteq> spent_tokens (ad_mail st')"
proof -
  have off: "offers_sound (ad_mail st)" using assms(1) by (simp add: tables_sound_parts)
  let ?m = "expire_former (sb_email b) now (ad_mail st)"
  note former = spent_expire [OF off, of "sb_email b" now]
  show ?thesis
    using assms(3)
  proof (cases rule: send_cases)
    case (refused e)
    with former show ?thesis by simp
  next
    case (staged dm ids gs st2 m3)
    have mail: "ad_mail st2 = ?m" using invitedGroups_mail [OF staged(3)] by simp
    have "offers_sound ?m" using expire_former_sound [OF assms(1)] by (simp add: tables_sound_parts)
    with spent_insert [OF _ staged(6)] assms(2) have "spent_tokens ?m \<subseteq> spent_tokens m3"
      by (simp add: mail expired_ids invite_fresh_def)
    moreover obtain mls where "ad_mail st' = m3\<lparr>ms_mails := mls\<rparr>" using mailed_tables(1) [OF staged(7)] ..
    then have "spent_tokens (ad_mail st') = spent_tokens m3" by (intro spent_same) simp
    ultimately show ?thesis using former by simp
  qed
qed

lemma mail_run_spends:
  "mail_run allowed s t m now \<Longrightarrow> tables_sound s \<Longrightarrow> spent_tokens s \<subseteq> spent_tokens m"
proof (induction rule: mail_run.induct)
  case (counts m now email bytes messages)
  have "spent_tokens (dovecot_counts email bytes messages m) = spent_tokens m" by (rule spent_same) simp
  with counts show ?case by simp
next
  case (served m now env u r d res m')
  with serve_spends [OF run_sound [OF served.hyps(1) served.prems] served.hyps(2,4)] show ?case by blast
qed simp_all

lemma office_spends:
  "office_run allowed s t st now \<Longrightarrow> tables_sound (ad_mail s) \<Longrightarrow> spent_tokens (ad_mail s) \<subseteq> spent_tokens (ad_mail st)"
proof (induction rule: office_run.induct)
  case (mail st now m now')
  with mail_run_spends [OF mail.hyps(2) office_sound [OF mail.hyps(1) mail.prems]] show ?case by simp
next
  case (groups st now g)
  have "spent_tokens (ad_mail (with_groups g st)) = spent_tokens (ad_mail st)"
    by (rule spent_same) (simp add: with_groups_def)
  with groups show ?case by simp
next
  case (invited st now env user r res st')
  note sound = office_sound [OF invited.hyps(1) invited.prems]
  have "spent_tokens (ad_mail st) \<subseteq> spent_tokens (ad_mail st')"
    using invite_serve_run [OF invited.hyps(3)] send_spends [OF sound invited.hyps(2)] sound invited.hyps(2)
      accept_spends(1) claim_spends(1) by (fastforce simp: tables_sound_parts invite_fresh_def)
  with invited.IH [OF invited.prems] show ?case by blast
qed simp

text \<open>C9: An invitation serves once. From the request that accepts it or claims it on, along any run of the
  invitations, of the mail administration and of the groups, its token is refused as already used, to whoever
  accepts, claims or reads it, and nothing changes.\<close>
theorem invitation_used_once:
  assumes "tables_sound (ad_mail s)" and "invite_fresh env s"
    and "invite_serve env user now (AcceptInvite tk b) s = (Inr (), s1) \<or> invite_serve env user now (ClaimInvite tk) s = (Inr (), s1)"
    and "office_run any_request s1 now st later"
  shows "acceptInvitation env' tk b' later st = (Inl (HttpException BAD_REQUEST ''Invitation already used''), st)
    \<and> claimInvitation env' tk a later st = (Inl (HttpException BAD_REQUEST ''Invitation already used''), st)
    \<and> getInvitation tk later st = Inl (HttpException BAD_REQUEST ''Invitation already used'')"
proof -
  have off: "offers_sound (ad_mail s)" "guard_lawful (ie_ops env)" using assms(1,2) by (simp_all add: tables_sound_parts invite_fresh_def)
  have dropped: "dropped r = (Inr (), s1) \<Longrightarrow> \<exists>x. r = (Inr x, s1)" for r :: "('a, admin_state) outcome"
    by (cases r) (auto simp: dropped_def split: sum.splits)
  have "tk \<in> spent_tokens (ad_mail s1)"
    using assms(3)
  proof
    assume "invite_serve env user now (AcceptInvite tk b) s = (Inr (), s1)"
    then obtain x where "acceptInvitation env tk b now s = (Inr x, s1)" by (auto dest: dropped split: if_splits)
    then show ?thesis using accept_spends(2) [OF off] by blast
  next
    assume "invite_serve env user now (ClaimInvite tk) s = (Inr (), s1)"
    then obtain x a where "claimInvitation env tk a now s = (Inr x, s1)" by (auto dest: dropped split: option.splits)
    then show ?thesis using claim_spends(2) [OF off(1)] by blast
  qed
  moreover have sound: "tables_sound (ad_mail s1)" using assms(3) invite_serve_sound [OF assms(1,2)] by blast
  ultimately have "tk \<in> spent_tokens (ad_mail st)" using office_spends [OF assms(4)] by blast
  moreover have "offers_sound (ad_mail st)" using office_sound [OF assms(4) sound] by (simp add: tables_sound_parts)
  ultimately have "usableInvitation tk later (ad_mail st) = Inl (HttpException BAD_REQUEST ''Invitation already used'')"
    by (rule spent_refused [rotated])
  then show ?thesis by (simp add: acceptInvitation_def claimInvitation_def getInvitation_def)
qed

section \<open>Cover\<close>

text \<open>The invitations and the mail administration at work together keep the mail tables well-formed and
  every domain within its quota: what its mailboxes take, its pending offers promise and its delegations hold
  unused never passes it, when offers are accepted by new accounts or claimed by existing ones, mailboxes and
  domains are handed over, and groups come and go.\<close>
theorem invitations_stay_covered:
  assumes "office_run keeps_cover s t st now" and "tables_sound (ad_mail s)" and "covered t (ad_mail s)"
  shows "tables_sound (ad_mail st) \<and> covered now (ad_mail st)"
  using office_sound [OF assms(1,2)] office_covered [OF assms] by blast

section \<open>What accepting gives\<close>

lemma find_account_free:
  "find_account_by_email email accounts = None \<longleftrightarrow> email \<notin> ac_email ` set accounts"
  by (auto simp: find_account_by_email_def find_None_iff)

lemma created_accounts:
  "invite_fresh env st \<Longrightarrow>
   ms_accounts (ad_mail (createInvited env email b now st)) = ms_accounts (ad_mail st) @ [new_account env email (ab_password b) now]"
  by (simp add: createInvited_def invite_fresh_def save_row_new new_account_def)

lemma joined_groups:
  "set (joinedGroups ivt st) = set (parseGroupIds ivt)
     \<union> (case List.find (\<lambda>g. gr_isDefault g = 1) (ad_groups st) of None \<Rightarrow> {} | Some g \<Rightarrow> {gr_id g})"
  by (simp add: joinedGroups_def split: option.split)

lemma accept_effect:
  assumes "invite_fresh env st" and "acceptInvitation env tk b now st = (Inr email, st')"
  obtains ivt where "usableInvitation tk now (ad_mail st) = Inr ivt"
    "iv_email ivt = Some email \<or> iv_email ivt = None \<and> ab_email b = Some email" "email \<notin> ac_email ` set (ms_accounts (ad_mail st))"
    "ms_accounts (ad_mail st') = ms_accounts (ad_mail st) @ [new_account env email (ab_password b) now]"
    "set (member_pairs (groups_view st')) = set (member_pairs (groups_view st)) \<union> (\<lambda>g. (g, ie_account env)) ` set (joinedGroups ivt st)"
    "ms_users (ad_mail st') = ms_users (handOver ivt (ie_account env) (ad_mail st))"
    "ms_aliases (ad_mail st') = ms_aliases (handOver ivt (ie_account env) (ad_mail st))"
    "ms_domains (ad_mail st') = ms_domains (handOver ivt (ie_account env) (ad_mail st))"
  using assms(2)
proof (cases rule: accept_cases)
  case (accepted ivt e st2)
  have law: "guard_lawful (ie_ops env)" using assms(1) by (simp add: invite_fresh_def)
  let ?st1 = "createInvited env email b now st"
  have e: "e = email" using accepted(5) by simp
  have mail: "ad_mail st2 = ad_mail ?st1" using join_each_mail [OF law accepted(6)] e by simp
  have view: "gs_members (groups_view st') = gs_members (groups_view st2)" by (simp add: accepted(7))
  show thesis
  proof (rule that [OF accepted(1)])
    show "iv_email ivt = Some email \<or> iv_email ivt = None \<and> ab_email b = Some email"
      using accepted(2) e by (auto split: option.splits)
    show "set (member_pairs (groups_view st')) = set (member_pairs (groups_view st)) \<union> (\<lambda>g. (g, ie_account env)) ` set (joinedGroups ivt st)"
      using join_each_effect [OF law accepted(6)] view e by (auto simp: member_pairs_def joinedGroups_def)
  qed (use accepted(4) e created_accounts [OF assms(1), of email b now] in
    \<open>simp_all add: find_account_free accepted(7) mail handOver_users handOver_aliases handOver_domains\<close>)
qed simp_all

text \<open>C10: Accepting an invitation makes one account, under the pinned address or the visitor's own, which was
  free, enabled and not root, a member of the staged groups and of the default group and of no other; it gives
  it the staged mailboxes and aliases that nobody owns and, where the invitation says so, the domain. Nobody
  loses a mailbox, an alias, a membership or another domain by it.\<close>
theorem accepted_invitation_gives:
  assumes "tables_sound (ad_mail st)" and "invite_fresh env st" and "acceptInvitation env tk b now st = (Inr email, st')"
  shows "\<exists>ivt \<in> set (ms_invitations (ad_mail st)). iv_token ivt = tk \<and> iv_acceptedAt ivt = None
      \<and> (iv_email ivt = Some email \<or> iv_email ivt = None \<and> ab_email b = Some email)
      \<and> email \<notin> ac_email ` set (ms_accounts (ad_mail st))
      \<and> (\<exists>acc. ms_accounts (ad_mail st') = ms_accounts (ad_mail st) @ [acc] \<and> ac_id acc = ie_account env \<and> ac_email acc = email
            \<and> ac_isRoot acc = 0 \<and> ac_enabled acc = 1 \<and> ac_password acc = Some (ie_scryptHash env (ab_password b)))
      \<and> set (member_pairs (groups_view st')) = set (member_pairs (groups_view st)) \<union> (\<lambda>g. (g, ie_account env)) `
            (set (parseGroupIds ivt) \<union> (case List.find (\<lambda>g. gr_isDefault g = 1) (ad_groups st) of None \<Rightarrow> {} | Some g \<Rightarrow> {gr_id g}))
      \<and> (\<forall>u \<in> set (ms_users (ad_mail st)). if vu_ownerId u = None \<and> vu_id u \<in> set (parseIds (iv_recipientIds ivt))
            then u\<lparr>vu_ownerId := Some (ie_account env)\<rparr> \<in> set (ms_users (ad_mail st')) else u \<in> set (ms_users (ad_mail st')))
      \<and> (\<forall>x \<in> set (ms_aliases (ad_mail st)). if va_ownerId x = None \<and> va_id x \<in> set (parseIds (iv_aliasIds ivt))
            then x\<lparr>va_ownerId := Some (ie_account env)\<rparr> \<in> set (ms_aliases (ad_mail st')) else x \<in> set (ms_aliases (ad_mail st')))
      \<and> (\<forall>v \<in> set (ms_domains (ad_mail st)). if iv_ownerDomainId ivt = Some (vd_id v) \<and> vd_id v \<noteq> 0
            then v\<lparr>vd_ownerId := Some (ie_account env)\<rparr> \<in> set (ms_domains (ad_mail st')) else v \<in> set (ms_domains (ad_mail st')))"
proof -
  from accept_effect [OF assms(2,3)] obtain ivt where u: "usableInvitation tk now (ad_mail st) = Inr ivt"
    and e: "iv_email ivt = Some email \<or> iv_email ivt = None \<and> ab_email b = Some email" "email \<notin> ac_email ` set (ms_accounts (ad_mail st))"
    and acc: "ms_accounts (ad_mail st') = ms_accounts (ad_mail st) @ [new_account env email (ab_password b) now]"
    and pairs: "set (member_pairs (groups_view st')) = set (member_pairs (groups_view st)) \<union> (\<lambda>g. (g, ie_account env)) ` set (joinedGroups ivt st)"
    and rows: "ms_users (ad_mail st') = ms_users (handOver ivt (ie_account env) (ad_mail st))"
      "ms_aliases (ad_mail st') = ms_aliases (handOver ivt (ie_account env) (ad_mail st))"
      "ms_domains (ad_mail st') = ms_domains (handOver ivt (ie_account env) (ad_mail st))" .
  note found = usable_found [OF u]
  show ?thesis
    by (intro bexI [OF _ found(1)] conjI)
      (use found e acc pairs in \<open>simp_all add: joined_groups new_account_def rows handOver_users handOver_aliases handOver_domains image_iff\<close>,
       (force+)?)
qed

section \<open>What accepting needs\<close>

lemma usable_pending:
  assumes "offers_sound m" "ivt \<in> set (ms_invitations m)" "stillPending now ivt"
  shows "usableInvitation (iv_token ivt) now m = Inr ivt"
proof -
  have "List.find (\<lambda>x. iv_token x = iv_token ivt) (ms_invitations m) = Some ivt"
    using assms(1,2) by (intro find_by_key) (simp_all add: offers_sound_def)
  with assms(3) show ?thesis
    by (auto simp: usableInvitation_def find_token_def stillPending_def split: option.splits)
qed

lemma accept_pending:
  assumes "offers_sound (ad_mail st)" "ivt \<in> set (ms_invitations (ad_mail st))" "stillPending now ivt"
    and "(case iv_email ivt of None \<Rightarrow> ab_email b | Some e \<Rightarrow> Some e) = Some email" "email \<noteq> []"
    and "email \<notin> ac_email ` set (ms_accounts (ad_mail st))"
  shows "acceptInvitation env (iv_token ivt) b now st =
    and_then (join_each (ie_ops env) now (ie_account env) (joinedGroups ivt st) (createInvited env email b now st))
      (\<lambda>_ st2. (Inr email, change_mail (\<lambda>m. spendInvitation (ie_delegation env) now ivt (ie_account env)
         ''delegations.accepted'' (handOver ivt (ie_account env) m)) st2))"
  using usable_pending [OF assms(1-3)] assms(4-6)
  by (simp add: acceptInvitation_def find_account_free [THEN iffD2] Let_def joinedGroups_def)

text \<open>C12: A pending invitation can be accepted. Whoever sends a well-formed body for a token that is neither
  spent nor out of date, with an address nobody has (its own, for an open link), gets the account, provided the
  staged groups are still there.\<close>
theorem pending_invitation_opens_an_account:
  assumes "tables_sound (ad_mail st)" and "invite_fresh env st"
    and "ivt \<in> set (ms_invitations (ad_mail st))" and "stillPending now ivt" and "acceptInvitationSchema b"
    and "(case iv_email ivt of None \<Rightarrow> ab_email b | Some e \<Rightarrow> Some e) = Some email" and "email \<noteq> []"
    and "email \<notin> ac_email ` set (ms_accounts (ad_mail st))"
    and "\<forall>g \<in> set (parseGroupIds ivt). group_known g st"
  shows "\<exists>st'. invite_serve env user now (AcceptInvite (iv_token ivt) b) st = (Inr (), st')
    \<and> (\<exists>acc \<in> set (ms_accounts (ad_mail st')). ac_email acc = email \<and> ac_id acc = ie_account env \<and> ac_enabled acc = 1)"
proof -
  have law: "guard_lawful (ie_ops env)" using assms(2) by (simp add: invite_fresh_def)
  let ?st1 = "createInvited env email b now st"
  have default: "List.find (\<lambda>g. gr_isDefault g = 1) (ad_groups st) = Some g \<Longrightarrow> group_known (gr_id g) st" for g
    by (auto dest: find_in_set)
  have "\<forall>g \<in> set (joinedGroups ivt st). group_known g ?st1"
    using assms(9) default by (auto simp: joined_groups split: option.splits)
  from join_each_known [OF law created_known this] obtain st2
    where join: "join_each (ie_ops env) now (ie_account env) (joinedGroups ivt st) ?st1 = (Inr (), st2)" by blast
  have off: "offers_sound (ad_mail st)" using assms(1) by (simp add: tables_sound_parts)
  from accept_pending [OF off assms(3,4,6,7,8), of env] join obtain st'
    where run: "acceptInvitation env (iv_token ivt) b now st = (Inr email, st')" by simp
  from accept_effect [OF assms(2) run] have
    "ms_accounts (ad_mail st') = ms_accounts (ad_mail st) @ [new_account env email (ab_password b) now]" .
  then have "\<exists>acc \<in> set (ms_accounts (ad_mail st')). ac_email acc = email \<and> ac_id acc = ie_account env \<and> ac_enabled acc = 1"
    by (simp add: new_account_def)
  with run assms(5) show ?thesis by (simp add: dropped_def)
qed

section \<open>A group that is gone\<close>

lemma join_each_unknown:
  assumes "guard_lawful ops"
  shows "account_known a st \<Longrightarrow> \<forall>g. \<not> group_known g st \<longrightarrow> (g, a) \<notin> set (member_pairs (groups_view st)) \<Longrightarrow>
    \<exists>g \<in> set gs. \<not> group_known g st \<Longrightarrow> \<exists>st'. join_each ops now a gs st = (Inl (Crash ''ER_NO_REFERENCED_ROW''), st')"
proof (induction gs arbitrary: st)
  case (Cons g gs)
  show ?case
  proof (cases "group_known g st")
    case False
    with join_step_known(2) [OF assms Cons.prems(1)] Cons.prems(2) show ?thesis by simp
  next
    case True
    from join_step_known(1) [OF assms Cons.prems(1) this] obtain st1
      where one: "on_groups (go_assignAccountToGroup ops now a g) st = (Inr (), st1)" ..
    note step = join_step [OF assms one]
    from step(1) have "ad_mail st1 = ad_mail st" "ad_groups st1 = ad_groups st" by auto
    moreover from this step(2) True Cons.prems(2)
    have "\<forall>g. \<not> group_known g st1 \<longrightarrow> (g, a) \<notin> set (member_pairs (groups_view st1))" by auto
    ultimately have "\<exists>st'. join_each ops now a gs st1 = (Inl (Crash ''ER_NO_REFERENCED_ROW''), st')"
      using Cons.prems(1,3) True by (intro Cons.IH) auto
    with one show ?thesis by simp
  qed
qed simp

text \<open>C30: An invitation whose staged group has been deleted since cannot be accepted, and the attempt spoils it:
  the request fails on the database's foreign key and the account it made stays, enabled and with the password given,
  while no mailbox, domain or delegation is handed over to it; the invitation stays pending, and every further
  attempt is refused because the account exists.\<close>
theorem deleted_group_strands_invitation:
  assumes "tables_sound (ad_mail st)" and "invite_fresh env st"
    and "ivt \<in> set (ms_invitations (ad_mail st))" and "stillPending now ivt" and "acceptInvitationSchema b"
    and "iv_email ivt = Some email" and "email \<noteq> []" and "email \<notin> ac_email ` set (ms_accounts (ad_mail st))"
    and "g \<in> set (parseGroupIds ivt)" and "\<not> group_known g st"
  shows "\<exists>st1. invite_serve env user now (AcceptInvite (iv_token ivt) b) st = (Inl (Crash ''ER_NO_REFERENCED_ROW''), st1)
    \<and> ms_accounts (ad_mail st1) = ms_accounts (ad_mail st) @ [new_account env email (ab_password b) now]
    \<and> ms_users (ad_mail st1) = ms_users (ad_mail st) \<and> ms_domains (ad_mail st1) = ms_domains (ad_mail st)
    \<and> ms_delegations (ad_mail st1) = ms_delegations (ad_mail st) \<and> ms_invitations (ad_mail st1) = ms_invitations (ad_mail st)
    \<and> (\<forall>env' user' b' now'. acceptInvitationSchema b' \<longrightarrow> stillPending now' ivt \<longrightarrow>
         invite_serve env' user' now' (AcceptInvite (iv_token ivt) b') st1
           = (Inl (HttpException CONFLICT ''An account with this email already exists''), st1))"
proof -
  have law: "guard_lawful (ie_ops env)" using assms(2) by (simp add: invite_fresh_def)
  have off: "offers_sound (ad_mail st)" using assms(1) by (simp add: tables_sound_parts)
  let ?st1 = "createInvited env email b now st"
  have "(g, ie_account env) \<notin> set (member_pairs (groups_view ?st1))" for g
    using assms(2) by (auto simp: invite_fresh_def member_pairs_def image_iff)
  moreover have "\<exists>g \<in> set (joinedGroups ivt st). \<not> group_known g ?st1" using assms(9,10) by (auto simp: joined_groups)
  ultimately obtain st1 where join: "join_each (ie_ops env) now (ie_account env) (joinedGroups ivt st) ?st1
      = (Inl (Crash ''ER_NO_REFERENCED_ROW''), st1)" using join_each_unknown [OF law created_known] by blast
  have run: "invite_serve env user now (AcceptInvite (iv_token ivt) b) st = (Inl (Crash ''ER_NO_REFERENCED_ROW''), st1)"
    using accept_pending [OF off assms(3,4), of b email env] assms(5-8) join by (simp add: dropped_def)
  have mail: "ad_mail st1 = ad_mail ?st1" by (rule join_each_mail [OF law join])
  have accounts: "ms_accounts (ad_mail st1) = ms_accounts (ad_mail st) @ [new_account env email (ab_password b) now]"
    by (simp add: mail created_accounts [OF assms(2)])
  have "offers_sound (ad_mail st1)" using off parts_cong(2) [of "ad_mail st1" "ad_mail st"] by (simp add: mail)
  moreover have "ivt \<in> set (ms_invitations (ad_mail st1))" using assms(3) by (simp add: mail)
  moreover have taken: "find_account_by_email email (ms_accounts (ad_mail st1)) \<noteq> None"
    by (simp only: find_account_free accounts) (simp add: new_account_def)
  ultimately have again: "invite_serve env' user' now' (AcceptInvite (iv_token ivt) b') st1
      = (Inl (HttpException CONFLICT ''An account with this email already exists''), st1)"
    if "acceptInvitationSchema b'" "stillPending now' ivt" for env' user' b' now'
    using that usable_pending [of "ad_mail st1" ivt now'] assms(6,7) by (auto simp: acceptInvitation_def dropped_def)
  show ?thesis
    by (intro exI [of _ st1] conjI run accounts) (use again in \<open>simp_all add: mail del: invite_serve.simps\<close>)
qed

section \<open>What an inviter may give\<close>

lemma assert_all_granted:
  "assert_all (\<lambda>(resource, acts). gl_global lib a resource acts) es = Inr True \<longleftrightarrow> (\<forall>(r, acts) \<in> set es. gl_global lib a r acts = Granted)"
proof (induction es)
  case (Cons e es)
  then show ?case by (cases e; cases "gl_global lib a (fst e) (snd e)") (auto simp: lib_throw_def)
qed simp

lemma assertGlobal_granted:
  "\<not> gu_isRoot actor \<Longrightarrow> assertGlobal lib actor es = Inr v \<Longrightarrow> \<forall>(r, acts) \<in> set es. gl_global lib (gu_id actor) r acts = Granted"
  using assert_all_True [of "\<lambda>(resource, acts). gl_global lib (gu_id actor) resource acts" es v]
  by (auto simp: assertGlobal_def assert_all_granted)

text \<open>A list of identifiers all of which are found names only rows that are there.\<close>

lemma found_all:
  assumes "distinct (map key rows)" "length (filter (\<lambda>r. key r \<in> set ids) rows) = length (remdups ids)" "i \<in> set ids"
  shows "\<exists>r \<in> set rows. key r = i"
proof -
  let ?found = "filter (\<lambda>r. key r \<in> set ids) rows"
  have "distinct (map key ?found)" by (rule distinct_map_filter [OF assms(1)])
  then have "card (key ` set ?found) = length ?found" by (metis distinct_card length_map list.set_map)
  moreover have "card (set ids) = length (remdups ids)" by (metis length_remdups_card_conv)
  ultimately have "card (key ` set ?found) = card (set ids)" using assms(2) by simp
  moreover have "key ` set ?found \<subseteq> set ids" by auto
  ultimately have "key ` set ?found = set ids" by (simp add: card_subset_eq)
  with assms(3) have "i \<in> key ` set ?found" by simp
  then show ?thesis by auto
qed

lemma holds_each:
  assumes "guard_lawful ops" "holds_in h ops" "\<not> gu_isRoot actor"
  shows "assertHoldsEach ops actor st gs = Inr () \<Longrightarrow> g \<in> set gs \<Longrightarrow>
    (\<forall>p \<in> set (db_findGlobalPermissions (gr_id g) st). ho_global (h st) (gu_id actor) p)
    \<and> (\<forall>p \<in> set (db_findDomainPermissions (gr_id g) st). ho_domain (h st) (gu_id actor) p)"
proof (induction gs)
  case (Cons x gs)
  have law: "utils_lawful (h st) (utils_at ops st)" using assms(2) by (simp add: holds_in_def)
  have x: "assertActingUserHolds (utils_at ops st) actor (db_findGlobalPermissions (gr_id x) st) (db_findDomainPermissions (gr_id x) st)
      ''Cannot grant a permission you do not hold'' = Inr ()" and rest: "assertHoldsEach ops actor st gs = Inr ()"
    using Cons.prems(1) by (auto simp: lawful_finds [OF assms(1)] split: sum.splits)
  from x have "\<forall>p \<in> set (db_findGlobalPermissions (gr_id x) st). ho_global (h st) (gu_id actor) p"
    "\<forall>p \<in> set (db_findDomainPermissions (gr_id x) st). ho_domain (h st) (gu_id actor) p"
    using holds_iff [OF law] assms(3) by auto
  with Cons.IH [OF rest] Cons.prems(2) show ?case by auto
qed simp

lemma assignable_recipients:
  assumes "users_fine m" "assertAssignableRecipients lib actor ids domain m = Inr ()" "i \<in> set ids"
  shows "\<exists>u \<in> set (ms_users m). vu_id u = i \<and> vu_domain u = domain \<and> \<not> is_owned (vu_ownerId u)
      \<and> \<not> addressed_to ''postmaster@'' (vu_email u) \<and> \<not> addressed_to ''dmarc_reports@'' (vu_email u)"
    "\<not> gu_isRoot actor \<Longrightarrow> gl_global lib (gu_id actor) ''accounts'' [''assign-recipient-owner''] = Granted"
proof -
  let ?rows = "filter (\<lambda>r. vu_id r \<in> set ids) (ms_users m)"
  from assms(2,3) obtain v where v: "assertGlobal lib actor [(''accounts'', [''assign-recipient-owner''])] = Inr v"
    and checks: "length ?rows = length (remdups ids)" "\<forall>r \<in> set ?rows. vu_domain r = domain"
      "\<forall>r \<in> set ?rows. \<not> addressed_to ''postmaster@'' (vu_email r)" "\<forall>r \<in> set ?rows. \<not> addressed_to ''dmarc_reports@'' (vu_email r)"
      "\<forall>r \<in> set ?rows. \<not> is_owned (vu_ownerId r)"
    unfolding assertAssignableRecipients_def Let_def by (simp split: sum.splits if_splits)
  have "distinct (map vu_id (ms_users m))" using assms(1) by (simp add: users_fine_def users_sound_iff)
  from found_all [OF this checks(1) assms(3)] obtain u where "u \<in> set (ms_users m)" "vu_id u = i" by blast
  with checks(2-5) assms(3) show "\<exists>u \<in> set (ms_users m). vu_id u = i \<and> vu_domain u = domain \<and> \<not> is_owned (vu_ownerId u)
      \<and> \<not> addressed_to ''postmaster@'' (vu_email u) \<and> \<not> addressed_to ''dmarc_reports@'' (vu_email u)"
    by (intro bexI [of _ u]) auto
  show "\<not> gu_isRoot actor \<Longrightarrow> gl_global lib (gu_id actor) ''accounts'' [''assign-recipient-owner''] = Granted"
    using assertGlobal_granted [OF _ v] by simp
qed

lemma assignable_aliases:
  assumes "aliases_fine m" "assertAssignableAliases lib actor ids domain m = Inr ()" "i \<in> set ids"
  shows "\<exists>x \<in> set (ms_aliases m). va_id x = i \<and> va_domain x = domain \<and> \<not> is_owned (va_ownerId x)
      \<and> \<not> addressed_to ''postmaster@'' (va_source x)"
    "\<not> gu_isRoot actor \<Longrightarrow> gl_global lib (gu_id actor) ''accounts'' [''assign-alias-owner''] = Granted"
proof -
  let ?rows = "filter (\<lambda>r. va_id r \<in> set ids) (ms_aliases m)"
  from assms(2,3) obtain v where v: "assertGlobal lib actor [(''accounts'', [''assign-alias-owner''])] = Inr v"
    and checks: "length ?rows = length (remdups ids)" "\<forall>r \<in> set ?rows. va_domain r = domain"
      "\<forall>r \<in> set ?rows. \<not> addressed_to ''postmaster@'' (va_source r)" "\<forall>r \<in> set ?rows. \<not> is_owned (va_ownerId r)"
    unfolding assertAssignableAliases_def Let_def by (simp split: sum.splits if_splits)
  have "distinct (map va_id (ms_aliases m))" using assms(1) by (simp add: aliases_fine_def)
  from found_all [OF this checks(1) assms(3)] obtain x where "x \<in> set (ms_aliases m)" "va_id x = i" by blast
  with checks(2-4) assms(3) show "\<exists>x \<in> set (ms_aliases m). va_id x = i \<and> va_domain x = domain \<and> \<not> is_owned (va_ownerId x)
      \<and> \<not> addressed_to ''postmaster@'' (va_source x)" by (intro bexI [of _ x]) auto
  show "\<not> gu_isRoot actor \<Longrightarrow> gl_global lib (gu_id actor) ''accounts'' [''assign-alias-owner''] = Granted"
    using assertGlobal_granted [OF _ v] by simp
qed

lemma json_columns [simp]:
  "List.map_filter json_string (map JStr xs) = xs" "List.map_filter json_number (map JNum ns) = ns"
  by (induction xs) (simp_all add: List.map_filter_def, induction ns, simp_all)

lemma staged_columns [simp]:
  "parseGroupIds (staged_account env me b ids now) = ids"
  "parseIds (iv_recipientIds (staged_account env me b ids now)) = sb_recipientIds b"
  "parseIds (iv_aliasIds (staged_account env me b ids now)) = sb_aliasIds b"
  "iv_email (staged_account env me b ids now) = Some (sb_email b)"
  "iv_ownerDomainId (staged_account env me b ids now) = (if sb_makeOwner b then Some (sb_domainId b) else None)"
  by (simp_all add: parseGroupIds_def parseIds_def staged_account_def)

lemma dedicated_groups:
  assumes "distinct (map gr_id (ad_groups st))" "newId \<notin> gr_id ` set (ad_groups st)" "dedicatedGroup newId now dm st = (i, st')"
  shows "distinct (map gr_id (ad_groups st'))" "group_known i st'" "set (ad_groups st) \<subseteq> set (ad_groups st')"
  using assms by (auto simp: dedicatedGroup_def Let_def save_row_new split: option.splits dest: find_in_set)

lemma invited_groups:
  assumes keys: "distinct (map gr_id (ad_groups st))" "ie_group env \<notin> gr_id ` set (ad_groups st)"
    and op: "invitedGroups env actor b dm now st = (Inr (ids, gs), st')"
  shows "assertHoldsEach (ie_ops env) actor (groups_view st') gs = Inr ()" "\<forall>g \<in> set ids. \<exists>x \<in> set gs. gr_id x = g"
    "set gs \<subseteq> set (ad_groups st')"
proof -
  obtain extra st1 where extra: "(if sb_useDomainGroup b then (let (i, s) = dedicatedGroup (ie_group env) now dm st in ([i], s)) else ([], st))
      = (extra, st1)" by fastforce
  let ?ids = "js_set (sb_groupIds b @ extra)"
  from op extra have st': "st' = st1" "ids = ?ids" "gs = groups_in ?ids st1" "length gs = length ?ids"
    and held: "assertHoldsEach (ie_ops env) actor (groups_view st1) gs = Inr ()"
    unfolding invitedGroups_def Let_def by (auto split: if_splits sum.splits)
  have "distinct (map gr_id (ad_groups st1))"
    using extra keys dedicated_groups(1) [OF keys] by (auto split: if_splits prod.splits)
  moreover have "length (filter (\<lambda>g. gr_id g \<in> set ?ids) (ad_groups st1)) = length (remdups ?ids)"
    using st'(3,4) by (simp add: groups_in_def distinct_remdups_id)
  ultimately have "\<exists>x \<in> set (ad_groups st1). gr_id x = g" if "g \<in> set ?ids" for g by (rule found_all) (rule that)
  then show "\<forall>g \<in> set ids. \<exists>x \<in> set gs. gr_id x = g" unfolding st' groups_in_def by fastforce
  show "assertHoldsEach (ie_ops env) actor (groups_view st') gs = Inr ()" using held st'(1) by simp
  show "set gs \<subseteq> set (ad_groups st')" by (auto simp: st' groups_in_def)
qed

text \<open>What the words of the next property stand for: all a group carries is held; the staged rows exist on the
  domain, are nobody's and are no reserved address; the permissions the staged parts take are granted.\<close>

definition carries_only_held :: "holdings \<Rightarrow> string \<Rightarrow> grp_state \<Rightarrow> string \<Rightarrow> bool" where
  "carries_only_held h me v g = ((\<forall>p \<in> set (db_findGlobalPermissions g v). ho_global h me p)
     \<and> (\<forall>p \<in> set (db_findDomainPermissions g v). ho_domain h me p))"

definition staged_rows_free :: "string \<Rightarrow> account_invitation \<Rightarrow> mail_state \<Rightarrow> bool" where
  "staged_rows_free domain ivt m =
     ((\<forall>i \<in> set (parseIds (iv_recipientIds ivt)). \<exists>u \<in> set (ms_users m). vu_id u = i \<and> vu_domain u = domain
          \<and> \<not> is_owned (vu_ownerId u) \<and> \<not> addressed_to ''postmaster@'' (vu_email u) \<and> \<not> addressed_to ''dmarc_reports@'' (vu_email u))
      \<and> (\<forall>i \<in> set (parseIds (iv_aliasIds ivt)). \<exists>x \<in> set (ms_aliases m). va_id x = i \<and> va_domain x = domain
          \<and> \<not> is_owned (va_ownerId x) \<and> \<not> addressed_to ''postmaster@'' (va_source x)))"

definition may_stage :: "guard_lib \<Rightarrow> string \<Rightarrow> account_invitation \<Rightarrow> bool" where
  "may_stage lib me ivt =
     ((parseIds (iv_recipientIds ivt) \<noteq> [] \<longrightarrow> gl_global lib me ''accounts'' [''assign-recipient-owner''] = Granted)
      \<and> (parseIds (iv_aliasIds ivt) \<noteq> [] \<longrightarrow> gl_global lib me ''accounts'' [''assign-alias-owner''] = Granted)
      \<and> (iv_ownerDomainId ivt \<noteq> None \<longrightarrow> (\<forall>(r, acts) \<in> set OWNERSHIP_REQUIREMENTS. gl_global lib me r acts = Granted)))"

lemma staged_rows:
  assumes "tables_sound m" and "assertAssignableRecipients lib actor (sb_recipientIds b) domain m = Inr ()"
    and "assertAssignableAliases lib actor (sb_aliasIds b) domain m = Inr ()"
  shows "staged_rows_free domain (staged_account env me b ids now) m"
  using assignable_recipients(1) [OF _ assms(2)] assignable_aliases(1) [OF _ assms(3)] assms(1)
  by (simp add: staged_rows_free_def tables_sound_parts)

lemma staged_permissions:
  assumes "tables_sound m" "\<not> gu_isRoot actor" and "assertAssignableRecipients lib actor (sb_recipientIds b) domain m = Inr ()"
    and "assertAssignableAliases lib actor (sb_aliasIds b) domain m = Inr ()"
    and "sb_makeOwner b \<Longrightarrow> assertGlobal lib actor OWNERSHIP_REQUIREMENTS = Inr True"
  shows "may_stage lib (gu_id actor) (staged_account env me b ids now)"
proof -
  have "users_fine m" "aliases_fine m" using assms(1) by (simp_all add: tables_sound_parts)
  then have "gl_global lib (gu_id actor) ''accounts'' [''assign-recipient-owner''] = Granted" if "sb_recipientIds b \<noteq> []"
    using assignable_recipients(2) [OF _ assms(3) _ assms(2), of "hd (sb_recipientIds b)"] that by simp
  moreover have "gl_global lib (gu_id actor) ''accounts'' [''assign-alias-owner''] = Granted" if "sb_aliasIds b \<noteq> []"
    using assignable_aliases(2) [OF \<open>aliases_fine m\<close> assms(4) _ assms(2), of "hd (sb_aliasIds b)"] that by simp
  ultimately show ?thesis using assertGlobal_granted [OF assms(2) assms(5)] by (simp add: may_stage_def)
qed

lemma expire_former_aliases [simp]: "ms_aliases (expire_former e now m) = ms_aliases m"
  by (simp add: expire_former_def save_invitation_def split: option.split)

text \<open>What a successful sending leaves of the mail tables and of the groups.\<close>

lemma sent_tables:
  assumes "invitedGroups env actor b dm now (change_mail (expire_former (sb_email b) now) st) = (Inr (ids, gs), st2)"
    and "insert_invitation i (ad_mail st2) = (Inr (), m3)"
    and "(res, st') = on_mail (send_invitation me ml) (st2\<lparr>ad_mail := m3\<rparr>)"
  shows "ms_users (ad_mail st') = ms_users (ad_mail st)" "ms_aliases (ad_mail st') = ms_aliases (ad_mail st)"
    "ms_domains (ad_mail st') = ms_domains (ad_mail st)" "ms_accounts (ad_mail st') = ms_accounts (ad_mail st)"
    "ms_delegations (ad_mail st') = ms_delegations (ad_mail st)" "i \<in> set (ms_invitations (ad_mail st'))"
    "groups_view st' = groups_view st2"
proof -
  have mail: "ad_mail st2 = expire_former (sb_email b) now (ad_mail st)" using invitedGroups_mail [OF assms(1)] by simp
  have m3: "m3 = save_invitation i (ad_mail st2)" using assms(2) by (auto simp: insert_invitation_def split: if_splits)
  obtain mls where st': "ad_mail st' = m3\<lparr>ms_mails := mls\<rparr>" using mailed_tables(1) [OF assms(3)] ..
  then show "ms_users (ad_mail st') = ms_users (ad_mail st)" "ms_aliases (ad_mail st') = ms_aliases (ad_mail st)"
    "ms_domains (ad_mail st') = ms_domains (ad_mail st)" "ms_accounts (ad_mail st') = ms_accounts (ad_mail st)"
    "ms_delegations (ad_mail st') = ms_delegations (ad_mail st)" "i \<in> set (ms_invitations (ad_mail st'))"
    by (simp_all add: m3 save_invitation_def mail set_save_row)
  show "groups_view st' = groups_view st2"
    using mailed_tables(2) [OF assms(3)] by (simp add: m3 groups_view_def save_invitation_def)
qed

text \<open>C11: An inviter that is not root stages only what it may give. Every group of the invitation exists, and the
  inviter holds every permission of both tiers it carries; every staged mailbox or alias exists on the chosen
  domain, belongs to nobody and is no reserved address, and the inviter may assign it; making the invitee the
  owner of the domain takes three permissions. Nothing else of the mail tables changes.\<close>
theorem inviter_gives_what_it_holds:
  assumes "tables_sound (ad_mail st)" and "distinct (map gr_id (ad_groups st))" and "invite_fresh env st"
    and "holds_in h (ie_ops env)" and "\<not> gu_isRoot actor" and "sendInvitation env actor b now st = (Inr (), st')"
  shows "\<exists>ivt \<in> set (ms_invitations (ad_mail st')). iv_token ivt = ie_token env \<and> iv_email ivt = Some (sb_email b)
      \<and> (\<forall>g \<in> set (parseGroupIds ivt). group_known g st'
           \<and> carries_only_held (h (groups_view st')) (gu_id actor) (groups_view st') g)
      \<and> (\<exists>dm \<in> set (ms_domains (ad_mail st')). vd_id dm = sb_domainId b \<and> staged_rows_free (vd_domain dm) ivt (ad_mail st')
           \<and> (\<forall>d. iv_ownerDomainId ivt = Some d \<longrightarrow> d = vd_id dm))
      \<and> may_stage (ie_guard env) (gu_id actor) ivt
      \<and> ms_users (ad_mail st') = ms_users (ad_mail st) \<and> ms_aliases (ad_mail st') = ms_aliases (ad_mail st)
      \<and> ms_domains (ad_mail st') = ms_domains (ad_mail st) \<and> ms_accounts (ad_mail st') = ms_accounts (ad_mail st)
      \<and> ms_delegations (ad_mail st') = ms_delegations (ad_mail st)"
  using assms(6)
proof (cases rule: send_cases)
  case (staged dm ids gs st2 m3)
  have law: "guard_lawful (ie_ops env)" using assms(3) by (simp add: invite_fresh_def)
  let ?i = "staged_account env (gu_id actor) b ids now" and ?m = "expire_former (sb_email b) now (ad_mail st)"
  note sent = sent_tables [OF staged(3,6,7)]
  have mail: "ad_mail st2 = ?m" using invitedGroups_mail [OF staged(3)] by simp
  have sound: "tables_sound (ad_mail st2)" unfolding mail by (rule expire_former_sound [OF assms(1)])
  have keys: "distinct (map gr_id (ad_groups (change_mail (expire_former (sb_email b) now) st)))"
    "ie_group env \<notin> gr_id ` set (ad_groups (change_mail (expire_former (sb_email b) now) st))"
    using assms(2,3) by (simp_all add: invite_fresh_def)
  note groups = invited_groups [OF keys staged(3)]
  have known: "group_known g st' \<and> carries_only_held (h (groups_view st')) (gu_id actor) (groups_view st') g" if g: "g \<in> set ids" for g
  proof -
    from groups(2) g obtain x where x: "x \<in> set gs" "gr_id x = g" by blast
    have "ad_groups st' = ad_groups st2" using sent(7) by (metis groups_view_simps(1))
    with x groups(3) have "group_known g st'" by auto
    with holds_each [OF law assms(4,5) groups(1) x(1)] x(2) sent(7) show ?thesis by (simp add: carries_only_held_def)
  qed
  have "staged_rows_free (vd_domain dm) ?i (ad_mail st2)" by (rule staged_rows [OF sound staged(4,5)])
  then have free: "staged_rows_free (vd_domain dm) ?i (ad_mail st')"
    using sent(1,2) by (simp add: staged_rows_free_def mail)
  have dm: "dm \<in> set (ms_domains (ad_mail st'))" "vd_id dm = sb_domainId b"
    using find_domain_in [OF staged(1)] sent(3) by simp_all
  show ?thesis
    by (intro bexI [OF _ sent(6)] conjI bexI [OF _ dm(1)] staged_permissions [OF sound assms(5) staged(4,5,2)])
      (use known dm(2) sent free in \<open>auto split: if_splits\<close>)
qed simp_all

section \<open>Where the code falls short\<close>

text \<open>A new invitation does not always replace the former one. Only the first invitation to the address that
  was not accepted is looked at; once that one is out of date, which the second sending makes it, every later
  sending leaves the invitations in between open: both the old and the new token work.\<close>
theorem former_invitation_stays_open:
  assumes "tables_sound (ad_mail st)" and "invite_fresh env st"
    and "List.find (\<lambda>i. iv_email i = Some (sb_email b) \<and> iv_acceptedAt i = None) (ms_invitations (ad_mail st)) = Some i"
    and "\<not> stillPending now i" and "j \<in> set (ms_invitations (ad_mail st))"
    and "iv_email j = Some (sb_email b)" and "stillPending now j"
    and "sendInvitation env actor b now st = (Inr (), st')"
  shows "usableInvitation (iv_token j) now (ad_mail st') = Inr j
    \<and> (\<exists>k. usableInvitation (ie_token env) now (ad_mail st') = Inr k \<and> iv_email k = iv_email j \<and> iv_id k \<noteq> iv_id j)"
  using assms(8)
proof (cases rule: send_cases)
  case (staged dm ids gs st2 m3)
  let ?i = "staged_account env (gu_id actor) b ids now"
  have "iv_acceptedAt i = None" using find_in_set [OF assms(3)] by simp
  with assms(3,4) have "expire_former (sb_email b) now (ad_mail st) = ad_mail st"
    by (auto simp: expire_former_def stillPending_def split: option.splits)
  then have mail: "ad_mail st2 = ad_mail st" using invitedGroups_mail [OF staged(3)] by simp
  have fresh: "ie_invitation env \<notin> iv_id ` set (ms_invitations (ad_mail st))" using assms(2) by (simp add: invite_fresh_def)
  have m3: "m3 = save_invitation ?i (ad_mail st)" using staged(6) by (auto simp: mail insert_invitation_def split: if_splits)
  obtain mls where st': "ad_mail st' = m3\<lparr>ms_mails := mls\<rparr>" using mailed_tables(1) [OF staged(7)] ..
  have rows: "ms_invitations (ad_mail st') = ms_invitations (ad_mail st) @ [?i]"
    using fresh by (simp add: st' m3 save_invitation_def save_row_new)
  have "tables_sound (ad_mail st')" by (rule send_sound [OF assms(1,2,8)])
  then have off: "offers_sound (ad_mail st')" by (simp add: tables_sound_parts)
  have "stillPending now ?i" by (simp add: stillPending_def staged_account_def)
  with usable_pending [OF off, of ?i now] rows have "usableInvitation (ie_token env) now (ad_mail st') = Inr ?i" by simp
  moreover have "iv_id ?i \<noteq> iv_id j" using fresh assms(5) by auto
  moreover have "usableInvitation (iv_token j) now (ad_mail st') = Inr j"
    using usable_pending [OF off _ assms(7)] assms(5) rows by simp
  ultimately show ?thesis using assms(6) by auto
qed simp_all

lemma protected_refused:
  assumes "tables_sound m"
  shows "v \<in> set (ms_domains m) \<Longrightarrow> vd_isProtected v = 1 \<Longrightarrow> handle renv a (vd_id v) now (TransferDomain x) m = (Inl locked, m)"
    "u \<in> set (ms_users m) \<Longrightarrow> vu_isProtected u = 1 \<Longrightarrow> \<exists>e. handle renv a d now (AssignRecipient (vu_id u) x) m = (Inl e, m)"
proof -
  have keys: "distinct (map vd_id (ms_domains m))" "distinct (map vu_id (ms_users m))"
    using assms by (simp_all add: tables_sound_parts domains_sound_def users_fine_def users_sound_iff)
  show "handle renv a (vd_id v) now (TransferDomain x) m = (Inl locked, m)" if "v \<in> set (ms_domains m)" "vd_isProtected v = 1"
    using find_by_key [OF keys(1) that(1)] that(2)
    by (simp add: unprotected_then_def assertUnprotected_def isProtected_def prot_find_def numbered_def find_domain_def)
  show "\<exists>e. handle renv a d now (AssignRecipient (vu_id u) x) m = (Inl e, m)" if "u \<in> set (ms_users m)" "vu_isProtected u = 1"
    using find_by_key [OF keys(2) that(1)] that(2)
    by (simp add: on_domain_def assertUnprotected_def isProtected_def prot_find_def numbered_def find_user_def split: sum.split)
qed

text \<open>C31: An invitation gets round the protection flag. The route that transfers a domain refuses a protected one,
  whoever asks and whoever is to receive it, and the route of a domain that assigns a mailbox refuses a protected
  one; accepting an invitation that stages them gives both to the new account, the flag notwithstanding.\<close>
theorem invitation_moves_protected_rows:
  assumes "tables_sound (ad_mail st)" and "invite_fresh env st" and "acceptInvitation env tk b now st = (Inr email, st')"
    and "ivt \<in> set (ms_invitations (ad_mail st))" and "iv_token ivt = tk"
    and "v \<in> set (ms_domains (ad_mail st))" and "vd_isProtected v = 1" and "iv_ownerDomainId ivt = Some (vd_id v)" and "vd_id v \<noteq> 0"
    and "u \<in> set (ms_users (ad_mail st))" and "vu_isProtected u = 1" and "vu_ownerId u = None"
    and "vu_id u \<in> set (parseIds (iv_recipientIds ivt))"
  shows "v\<lparr>vd_ownerId := Some (ie_account env)\<rparr> \<in> set (ms_domains (ad_mail st'))
    \<and> u\<lparr>vu_ownerId := Some (ie_account env)\<rparr> \<in> set (ms_users (ad_mail st'))
    \<and> handle renv root (vd_id v) now (TransferDomain x) (ad_mail st) = (Inl locked, ad_mail st)
    \<and> (\<exists>e. handle renv root d now (AssignRecipient (vu_id u) x) (ad_mail st) = (Inl e, ad_mail st))"
proof -
  have tokens: "inj_on iv_token (set (ms_invitations (ad_mail st)))"
    using assms(1) by (simp add: tables_sound_parts offers_sound_def distinct_map)
  from accept_effect [OF assms(2,3)] obtain i where i: "usableInvitation tk now (ad_mail st) = Inr i"
    "ms_users (ad_mail st') = ms_users (handOver i (ie_account env) (ad_mail st))"
    "ms_domains (ad_mail st') = ms_domains (handOver i (ie_account env) (ad_mail st))" .
  have "i = ivt" using inj_onD [OF tokens, of i ivt] usable_found [OF i(1)] assms(4,5) by simp
  with i(2,3) assms(6-13) protected_refused [OF assms(1)] show ?thesis
    by (auto simp: handOver_users handOver_domains image_iff)
qed

section \<open>A small instance\<close>

text \<open>A protected domain of a hundred megabytes with a protected mailbox nobody owns, two groups, one account, and
  five invitations: one pinned with all it may stage, an open link carrying ten megabytes, one whose group is
  gone, and two to the same address, the first out of date.\<close>

definition guest_env :: "int \<Rightarrow> string \<Rightarrow> invite_env" where
  "guest_env n tk = \<lparr>ie_mail = \<lparr>me_managerUrl = Some ''https://m/'', me_mailFails = (\<lambda>m. False), me_openssl = (\<lambda>s p. s @ p),
       me_salt = [], me_eraseFails = (\<lambda>p. False), me_mailVolume = ''/v''\<rparr>,
     ie_guard = \<lparr>gl_global = (\<lambda>a r acts. Granted), gl_domain = (\<lambda>a d r acts. Granted)\<rparr>, ie_ops = plain_ops,
     ie_scryptHash = (\<lambda>s. CHR ''h'' # s), ie_baseUrl = ''https://b'', ie_invitation = n, ie_token = tk, ie_group = ''x'',
     ie_account = ''n'', ie_delegation = 7\<rparr>"

definition guest_invitation :: "int \<Rightarrow> string \<Rightarrow> string option \<Rightarrow> string list \<Rightarrow> account_invitation" where
  "guest_invitation i tk email gs = \<lparr>iv_id = i, iv_token = tk, iv_email = email, iv_invitedBy = Some ''a'', iv_groupId = None,
     iv_groupIds = Some (Some (JArr (map JStr gs))), iv_recipientIds = Some (Some (JArr [])), iv_aliasIds = Some (Some (JArr [])),
     iv_ownerDomainId = None, iv_delegationDomainId = None, iv_delegationMaxRecipients = None, iv_delegationMaxAliases = None,
     iv_delegationQuotaMb = None, iv_note = None, iv_acceptedAt = None, iv_expiresAt = Some 100, iv_createdAt = 0\<rparr>"

definition guest_domain :: virtual_domain where
  "guest_domain = \<lparr>vd_id = 1, vd_ownerId = None, vd_domain = ''d.org'', vd_quota = 100 * MB, vd_active = 1, vd_isProtected = 1,
     vd_userStartDate = ''1970-01-01'', vd_userEndDate = None, vd_lastActivity = 0, vd_createdAt = 0\<rparr>"

definition guest_mailbox :: virtual_user where
  "guest_mailbox = \<lparr>vu_id = 5, vu_ownerId = None, vu_domain = ''d.org'', vu_email = ''u@d.org'', vu_password = [], vu_maildir = [],
     vu_quota = 40 * MB, vu_active = 1, vu_isProtected = 1, vu_uid = [], vu_gid = [], vu_userStartDate = ''1970-01-01'',
     vu_userEndDate = None, vu_lastActivity = None, vu_createdAt = 0\<rparr>"

definition pinned :: account_invitation where
  "pinned = (guest_invitation 1 ''p'' (Some ''p@x'') [''g''])\<lparr>iv_recipientIds := Some (Some (JArr [JNum 5])), iv_ownerDomainId := Some 1\<rparr>"

definition open_link :: account_invitation where
  "open_link = (guest_invitation 2 ''k'' None [])\<lparr>iv_delegationDomainId := Some 1, iv_delegationQuotaMb := Some 10\<rparr>"

definition guest_mail :: mail_state where
  "guest_mail = \<lparr>ms_domains = [guest_domain], ms_users = [guest_mailbox], ms_aliases = [], ms_quotaUsers = [], ms_quotaDomains = [],
     ms_delegations = [], ms_invitations = [pinned, open_link, guest_invitation 3 ''s'' (Some ''s@x'') [''gone''],
       (guest_invitation 4 ''o'' (Some ''b@x'') [])\<lparr>iv_expiresAt := Some 3\<rparr>, guest_invitation 5 ''i'' (Some ''b@x'') []],
     ms_accounts = [toy_account ''a''], ms_journal = [], ms_audit = [], ms_mails = [], ms_erased = []\<rparr>"

definition guest_state :: admin_state where
  "guest_state = \<lparr>ad_mail = guest_mail, ad_groups = [toy_group ''g'' 0 0, (toy_group ''f'' 0 0)\<lparr>gr_isDefault := 1\<rparr>],
     ad_members = [\<lparr>gm_groupId = ''g'', gm_accountId = ''a'', gm_createdAt = 0\<rparr>],
     ad_globalPerms = [\<lparr>gg_groupId = ''g'', gg_resource = ''tickets'', gg_action = ''access''\<rparr>], ad_domainPerms = [], ad_profiles = []\<rparr>"

definition guest_body :: accept_body where
  "guest_body = \<lparr>ab_email = Some ''v@x'', ab_password = ''12345678'', ab_firstName = None, ab_lastName = None\<rparr>"

definition guest_send :: send_body where
  "guest_send = \<lparr>sb_email = ''b@x'', sb_domainId = 1, sb_groupIds = [''g''], sb_recipientIds = [5], sb_aliasIds = [],
     sb_makeOwner = True, sb_useDomainGroup = True\<rparr>"

lemmas guest_defs = guest_state_def guest_mail_def pinned_def open_link_def guest_invitation_def guest_domain_def guest_mailbox_def

lemma guest_sound: "tables_sound (ad_mail guest_state)"
  by (auto simp: guest_defs tables_sound_parts domains_sound_def offers_sound_def offered_mb_def grants_sound_def one_grant_each_def
      users_fine_def users_sound_iff address_ok_def aliases_fine_def MB_def intro!: exI [of _ "''u''"])

lemma guest_fresh: "n \<notin> {1, 2, 3, 4, 5} \<Longrightarrow> invite_fresh (guest_env n tk) guest_state"
  by (simp add: invite_fresh_def guest_env_def plain_lawful guest_defs toy_account_def toy_group_def)

lemma guest_covered: "covered 5 (ad_mail guest_state)"
  by code_simp

lemma guest_schema: "acceptInvitationSchema guest_body"
  by (simp add: acceptInvitationSchema_def guest_body_def toLowerCase_def lower_char_def)

definition guest_accepted :: admin_state where
  "guest_accepted = snd (acceptInvitation (guest_env 9 ''y'') ''p'' guest_body 5 guest_state)"

definition guest_claimed :: admin_state where
  "guest_claimed = snd (claimInvitation (guest_env 9 ''y'') ''k'' ''a'' 5 guest_state)"

definition guest_sent :: admin_state where
  "guest_sent = snd (sendInvitation (guest_env 9 ''y'') toy_actor guest_send 5 guest_state)"

lemma guest_runs:
  "acceptInvitation (guest_env 9 ''y'') ''p'' guest_body 5 guest_state = (Inr ''p@x'', guest_accepted)"
  "claimInvitation (guest_env 9 ''y'') ''k'' ''a'' 5 guest_state = (Inr 1, guest_claimed)"
  "sendInvitation (guest_env 9 ''y'') toy_actor guest_send 5 guest_state = (Inr (), guest_sent)"
proof -
  have "fst (acceptInvitation (guest_env 9 ''y'') ''p'' guest_body 5 guest_state) = Inr ''p@x''" by code_simp
  then show "acceptInvitation (guest_env 9 ''y'') ''p'' guest_body 5 guest_state = (Inr ''p@x'', guest_accepted)"
    by (simp add: guest_accepted_def prod_eq_iff)
  have "fst (claimInvitation (guest_env 9 ''y'') ''k'' ''a'' 5 guest_state) = Inr 1" by code_simp
  then show "claimInvitation (guest_env 9 ''y'') ''k'' ''a'' 5 guest_state = (Inr 1, guest_claimed)"
    by (simp add: guest_claimed_def prod_eq_iff)
  have "fst (sendInvitation (guest_env 9 ''y'') toy_actor guest_send 5 guest_state) = Inr ()" by code_simp
  then show "sendInvitation (guest_env 9 ''y'') toy_actor guest_send 5 guest_state = (Inr (), guest_sent)"
    by (simp add: guest_sent_def prod_eq_iff)
qed

lemma guest_served:
  "invite_serve (guest_env 9 ''y'') None 5 (AcceptInvite ''p'' guest_body) guest_state = (Inr (), guest_accepted)"
  "invite_serve (guest_env 9 ''y'') (Some toy_actor) 5 (ClaimInvite ''k'') guest_state = (Inr (), guest_claimed)"
  by (simp_all add: guest_runs guest_schema dropped_def)

lemma guest_fresh9: "invite_fresh (guest_env 9 ''y'') guest_state"
  by (rule guest_fresh) simp

theorem invitation_used_once_witness:
  "claimInvitation (guest_env 9 ''y'') ''p'' ''a'' 6 guest_accepted
     = (Inl (HttpException BAD_REQUEST ''Invitation already used''), guest_accepted)"
proof -
  have "mail_run any_request (ad_mail guest_accepted) 5 (ad_mail guest_accepted) 6"
    by (rule mail_run.later [OF mail_run.start]) simp
  from office_run.mail [OF office_run.start this] have "office_run any_request guest_accepted 5 guest_accepted 6" by simp
  from invitation_used_once [OF guest_sound guest_fresh9 disjI1 [OF guest_served(1)] this] show ?thesis by simp
qed

theorem invitations_stay_covered_witness:
  "covered 5 (ad_mail guest_claimed) \<and> committed 5 guest_domain (ad_mail guest_claimed) = 50 * MB
   \<and> length (ms_delegations (ad_mail guest_claimed)) = 1"
proof -
  have "committed 5 guest_domain (ad_mail guest_claimed) = 50 * MB \<and> length (ms_delegations (ad_mail guest_claimed)) = 1"
    by code_simp
  with invitations_stay_covered [OF office_run.invited [OF office_run.start guest_fresh9 guest_served(2)] guest_sound guest_covered]
  show ?thesis by simp
qed

theorem accepted_invitation_gives_witness:
  "\<exists>acc. ms_accounts (ad_mail guest_accepted) = [toy_account ''a'', acc] \<and> ac_email acc = ''p@x'' \<and> ac_isRoot acc = 0"
  using accepted_invitation_gives [OF guest_sound guest_fresh9 guest_runs(1)] by (auto simp: guest_state_def guest_mail_def)

theorem pending_invitation_opens_an_account_witness:
  "\<exists>st'. invite_serve (guest_env 9 ''y'') None 5 (AcceptInvite ''k'' guest_body) guest_state = (Inr (), st')
    \<and> (\<exists>acc \<in> set (ms_accounts (ad_mail st')). ac_email acc = ''v@x'' \<and> ac_id acc = ''n'' \<and> ac_enabled acc = 1)"
proof -
  have link: "iv_token open_link = ''k''" "ie_account (guest_env 9 ''y'') = ''n''" by (simp_all add: guest_defs guest_env_def)
  have "\<exists>st'. invite_serve (guest_env 9 ''y'') None 5 (AcceptInvite (iv_token open_link) guest_body) guest_state = (Inr (), st')
    \<and> (\<exists>acc \<in> set (ms_accounts (ad_mail st')). ac_email acc = ''v@x'' \<and> ac_id acc = ie_account (guest_env 9 ''y'') \<and> ac_enabled acc = 1)"
    by (rule pending_invitation_opens_an_account [OF guest_sound guest_fresh9 _ _ guest_schema])
      (simp_all add: guest_defs stillPending_def guest_body_def toy_account_def parseGroupIds_def)
  then show ?thesis by (simp only: link)
qed

theorem deleted_group_strands_invitation_witness:
  "\<exists>st1. invite_serve (guest_env 9 ''y'') None 5 (AcceptInvite ''s'' guest_body) guest_state = (Inl (Crash ''ER_NO_REFERENCED_ROW''), st1)
    \<and> length (ms_accounts (ad_mail st1)) = 2
    \<and> invite_serve (guest_env 9 ''y'') None 6 (AcceptInvite ''s'' guest_body) st1
        = (Inl (HttpException CONFLICT ''An account with this email already exists''), st1)"
proof -
  let ?i = "guest_invitation 3 ''s'' (Some ''s@x'') [''gone'']"
  have i: "?i \<in> set (ms_invitations (ad_mail guest_state))" "stillPending 5 ?i" "stillPending 6 ?i" "iv_email ?i = Some ''s@x''"
    "''gone'' \<in> set (parseGroupIds ?i)" "\<not> group_known ''gone'' guest_state" "''s@x'' \<notin> ac_email ` set (ms_accounts (ad_mail guest_state))"
    "iv_token ?i = ''s''" "length (ms_accounts (ad_mail guest_state)) = 1"
    by (simp_all add: guest_defs stillPending_def parseGroupIds_def toy_group_def toy_account_def)
  from deleted_group_strands_invitation [OF guest_sound guest_fresh9 i(1,2) guest_schema i(4) _ i(7,5,6), of None] guest_schema i(3,8,9)
  show ?thesis by (auto simp del: invite_serve.simps)
qed

lemma actor_plain: "\<not> gu_isRoot toy_actor"
  by simp

theorem inviter_gives_what_it_holds_witness:
  "\<exists>ivt \<in> set (ms_invitations (ad_mail guest_sent)). iv_token ivt = ''y'' \<and> iv_email ivt = Some ''b@x''
     \<and> (\<forall>g \<in> set (parseGroupIds ivt). carries_only_held (held_in (groups_view guest_sent)) ''a'' (groups_view guest_sent) g)"
proof -
  have "distinct (map gr_id (ad_groups guest_state))" by (simp add: guest_defs toy_group_def)
  moreover have "holds_in held_in (ie_ops (guest_env 9 ''y''))" using plain_holds by (simp add: guest_env_def)
  ultimately have "\<exists>ivt \<in> set (ms_invitations (ad_mail guest_sent)). iv_token ivt = ie_token (guest_env 9 ''y'') \<and> iv_email ivt = Some (sb_email guest_send)
     \<and> (\<forall>g \<in> set (parseGroupIds ivt). carries_only_held (held_in (groups_view guest_sent)) (gu_id toy_actor) (groups_view guest_sent) g)"
    using inviter_gives_what_it_holds [OF guest_sound _ guest_fresh9 _ actor_plain guest_runs(3)] by blast
  then show ?thesis by (simp add: guest_env_def guest_send_def)
qed

theorem former_invitation_stays_open_witness:
  "\<exists>k. usableInvitation ''i'' 5 (ad_mail guest_sent) = Inr (guest_invitation 5 ''i'' (Some ''b@x'') [])
     \<and> usableInvitation ''y'' 5 (ad_mail guest_sent) = Inr k \<and> iv_email k = Some ''b@x''"
proof -
  let ?i = "(guest_invitation 4 ''o'' (Some ''b@x'') [])\<lparr>iv_expiresAt := Some 3\<rparr>" and ?j = "guest_invitation 5 ''i'' (Some ''b@x'') []"
  have i: "List.find (\<lambda>i. iv_email i = Some (sb_email guest_send) \<and> iv_acceptedAt i = None) (ms_invitations (ad_mail guest_state)) = Some ?i"
    "\<not> stillPending 5 ?i" "?j \<in> set (ms_invitations (ad_mail guest_state))" "iv_email ?j = Some (sb_email guest_send)" "stillPending 5 ?j"
    by (simp_all add: guest_defs guest_send_def stillPending_def)
  have "iv_token ?j = ''i''" "ie_token (guest_env 9 ''y'') = ''y''" "iv_email ?j = Some ''b@x''"
    by (simp_all add: guest_invitation_def guest_env_def)
  with former_invitation_stays_open [OF guest_sound guest_fresh9 i guest_runs(3)] show ?thesis by auto
qed

theorem invitation_moves_protected_rows_witness:
  "guest_domain\<lparr>vd_ownerId := Some ''n''\<rparr> \<in> set (ms_domains (ad_mail guest_accepted))
   \<and> guest_mailbox\<lparr>vu_ownerId := Some ''n''\<rparr> \<in> set (ms_users (ad_mail guest_accepted))"
proof -
  have "pinned \<in> set (ms_invitations (ad_mail guest_state))" "iv_token pinned = ''p''" "guest_domain \<in> set (ms_domains (ad_mail guest_state))"
    "vd_isProtected guest_domain = 1" "iv_ownerDomainId pinned = Some (vd_id guest_domain)" "vd_id guest_domain \<noteq> 0"
    "guest_mailbox \<in> set (ms_users (ad_mail guest_state))" "vu_isProtected guest_mailbox = 1" "vu_ownerId guest_mailbox = None"
    "vu_id guest_mailbox \<in> set (parseIds (iv_recipientIds pinned))"
    by (simp_all add: guest_defs parseIds_def List.map_filter_def)
  from invitation_moves_protected_rows [OF guest_sound guest_fresh9 guest_runs(1) this] show ?thesis by (simp add: guest_env_def)
qed

end
