(* ===== verification/AccountAdmin.thy ===== *)
theory AccountAdmin
  imports Invitations Sessions "HOL-Library.Char_ord" "HOL-Library.List_Lexorder"
begin

text \<open>
  \<open>api/accounts/crud\<close>: what an administrator does to the accounts. Its state puts side by side the
  tables of the administration and those of the sign-in, an account being one row for both, and each service
  writing its own lines of the journal. Deleting an account runs the foreign keys that name it.
\<close>

section \<open>The tables\<close>

record account_identity =
  lk_id :: string
  lk_accountId :: string
  lk_provider :: string
  lk_subject :: string
  lk_createdAt :: time

record console_state =
  cs_admin :: admin_state
  cs_tokens :: "refresh_token list"
  cs_nextToken :: int
  cs_log :: "activity_row list"
  cs_twoFactor :: tf_state
  cs_challenges :: tf_store
  cs_risk :: lr_state
  cs_mfa :: mfa_login
  cs_keys :: "api_token list"
  cs_nextKey :: nat
  cs_keyLog :: "activity_row list"
  cs_identities :: "account_identity list"
  cs_exchange :: passport_store

abbreviation cs_mail :: "console_state \<Rightarrow> mail_state" where "cs_mail c \<equiv> ad_mail (cs_admin c)"

definition on_mail_tables :: "(mail_state \<Rightarrow> mail_state) \<Rightarrow> console_state \<Rightarrow> console_state" where
  "on_mail_tables f c = c\<lparr>cs_admin := change_mail f (cs_admin c)\<rparr>"

text \<open>The same database as the session service and the guard in front of the routes see it.\<close>

definition session_view :: "console_state \<Rightarrow> session_state" where
  "session_view c = \<lparr>ss_accounts = ms_accounts (cs_mail c), ss_profiles = ad_profiles (cs_admin c),
     ss_groups = ad_groups (cs_admin c), ss_members = ad_members (cs_admin c), ss_tokens = cs_tokens c,
     ss_nextId = cs_nextToken c, ss_log = cs_log c, ss_twoFactor = cs_twoFactor c, ss_challenges = cs_challenges c,
     ss_risk = cs_risk c, ss_mfa = (cs_mfa c)\<lparr>ml_accounts := map (\<lambda>a. (ac_id a, ac_email a)) (ms_accounts (cs_mail c))\<rparr>\<rparr>"

definition with_sessions :: "session_state \<Rightarrow> console_state \<Rightarrow> console_state" where
  "with_sessions s c = c\<lparr>cs_admin := (cs_admin c)\<lparr>ad_mail := (cs_mail c)\<lparr>ms_accounts := ss_accounts s\<rparr>,
       ad_profiles := ss_profiles s, ad_groups := ss_groups s, ad_members := ss_members s\<rparr>,
     cs_tokens := ss_tokens s, cs_nextToken := ss_nextId s, cs_log := ss_log s, cs_twoFactor := ss_twoFactor s,
     cs_challenges := ss_challenges s, cs_risk := ss_risk s, cs_mfa := ss_mfa s\<rparr>"

definition guard_view :: "console_state \<Rightarrow> auth_state" where
  "guard_view c = \<lparr>as_sessions = session_view c,
     as_tokens = \<lparr>tks_rows = cs_keys c, tks_accounts = ms_accounts (cs_mail c), tks_nextId = cs_nextKey c, tks_log = cs_keyLog c\<rparr>\<rparr>"

section \<open>The journal\<close>

text \<open>A line names accounts by foreign key: the insert of one that names a missing account fails, and
  \<open>record\<close> swallows the failure.\<close>

definition known_account :: "console_state \<Rightarrow> string option \<Rightarrow> bool" where
  "known_account c a = (case a of None \<Rightarrow> True | Some i \<Rightarrow> find_account i (ms_accounts (cs_mail c)) \<noteq> None)"

definition crud_note :: "activity_context \<Rightarrow> activity_input \<Rightarrow> console_state \<Rightarrow> console_state" where
  "crud_note ctx input c =
     (let rows = record_activity ctx input (ms_journal (cs_mail c)); line = last rows
      in if known_account c (al_actorId line) \<and> known_account c (al_subjectId line)
         then on_mail_tables (\<lambda>m. m\<lparr>ms_journal := rows\<rparr>) c else c)"

section \<open>Reading\<close>

text \<open>The list says whether a security question is set; one account's page does not.\<close>

record account_view =
  av_account :: account
  av_profile :: "profile option"
  av_displayName :: "string option"
  av_twoFactorEnabled :: bool
  av_securityQuestionSet :: "bool option"
  av_groups :: "(string \<times> string) list"

definition profile_of :: "string \<Rightarrow> console_state \<Rightarrow> profile option" where
  "profile_of i c = List.find (\<lambda>p. pr_accountId p = i) (ad_profiles (cs_admin c))"

definition name_in :: "profile option \<Rightarrow> string option" where
  "name_in p = (case p of None \<Rightarrow> None | Some r \<Rightarrow> composeDisplayName (pr_firstName r) (pr_lastName r))"

definition enrichWithGroups :: "account list \<Rightarrow> console_state \<Rightarrow> account_view list" where
  "enrichWithGroups allAccounts c =
     (let accountIds = map ac_id allAccounts;
          memberRows = filter (\<lambda>m. gm_accountId m \<in> set accountIds) (ad_members (cs_admin c));
          twoFactorOn = enabledAmong accountIds (cs_twoFactor c);
          questionOn = questionSetAmong accountIds (cs_mfa c);
          group_name = (\<lambda>g. case List.find (\<lambda>r. gr_id r = g) (ad_groups (cs_admin c)) of None \<Rightarrow> [] | Some r \<Rightarrow> gr_name r)
      in map (\<lambda>acc. let p = profile_of (ac_id acc) c in
           \<lparr>av_account = acc, av_profile = p, av_displayName = name_in p,
            av_twoFactorEnabled = (ac_id acc \<in> twoFactorOn), av_securityQuestionSet = Some (ac_id acc \<in> questionOn),
            av_groups = map (\<lambda>m. (gm_groupId m, group_name (gm_groupId m))) (filter (\<lambda>m. gm_accountId m = ac_id acc) memberRows)\<rparr>)
         allAccounts)"

definition accountGroups :: "string \<Rightarrow> console_state \<Rightarrow> (string \<times> string) list" where
  "accountGroups accountId c =
     (let ids = map gm_groupId (filter (\<lambda>m. gm_accountId m = accountId) (ad_members (cs_admin c)))
      in map (\<lambda>g. (gr_id g, gr_name g)) (groups_in ids (cs_admin c)))"

definition crud_getById :: "string \<Rightarrow> console_state \<Rightarrow> err + account_view" where
  "crud_getById i c =
     (case find_account i (ms_accounts (cs_mail c)) of
        None \<Rightarrow> Inl (HttpException NOT_FOUND ''Account not found'')
      | Some acc \<Rightarrow> (let p = profile_of i c in
          Inr \<lparr>av_account = acc, av_profile = p, av_displayName = name_in p,
               av_twoFactorEnabled = tf_isEnabled i (cs_twoFactor c),
               av_securityQuestionSet = None, av_groups = accountGroups i c\<rparr>))"

definition getOverview ::
  "string \<Rightarrow> console_state \<Rightarrow> err + (account_view \<times> virtual_domain list \<times> virtual_user list \<times> virtual_alias list)" where
  "getOverview i c =
     (case crud_getById i c of
        Inl e \<Rightarrow> Inl e
      | Inr view \<Rightarrow> Inr (view,
          sort_key vd_domain (filter (\<lambda>d. vd_ownerId d = Some i) (ms_domains (cs_mail c))),
          sort_key vu_email (filter (\<lambda>r. vu_ownerId r = Some i) (ms_users (cs_mail c))),
          sort_key va_source (filter (\<lambda>a. va_ownerId a = Some i) (ms_aliases (cs_mail c)))))"

section \<open>The two factors of another account\<close>

definition resetTwoFactor :: "activity_context \<Rightarrow> string \<Rightarrow> console_state \<Rightarrow> (bool, console_state) outcome" where
  "resetTwoFactor ctx i c =
     (if find_account i (ms_accounts (cs_mail c)) = None then (Inl (HttpException NOT_FOUND ''Account not found''), c)
      else (let (reset, t) = tf_reset ctx i (cs_twoFactor c) in (Inr reset, c\<lparr>cs_twoFactor := t\<rparr>)))"

definition resetSecurityQuestion ::
  "activity_context \<Rightarrow> string \<Rightarrow> time \<Rightarrow> console_state \<Rightarrow> (bool \<times> nat, console_state) outcome" where
  "resetSecurityQuestion ctx i now c =
     (if find_account i (ms_accounts (cs_mail c)) = None then (Inl (HttpException NOT_FOUND ''Account not found''), c)
      else (case resetQuestion ctx i (cs_mfa c) of
          (Inl e, m) \<Rightarrow> (Inl e, c\<lparr>cs_mfa := m\<rparr>)
        | (Inr reset, m) \<Rightarrow>
            (let c1 = c\<lparr>cs_mfa := m\<rparr>; (revoked, s) = revokeAllActiveSessions i now (session_view c1)
             in (Inr (reset, revoked), c1\<lparr>cs_tokens := ss_tokens s\<rparr>))))"

section \<open>Editing\<close>

text \<open>The fields of the personal edit, the language apart, and the flag that is the administrator's.\<close>

record update_account = update_profile +
  ua_enabled :: "bool option"

abbreviation personal_fields :: "update_account \<Rightarrow> update_profile" where
  "personal_fields input \<equiv> update_profile.truncate input"

definition short_field :: "nat \<Rightarrow> string option option \<Rightarrow> bool" where
  "short_field n v = (case v of Some (Some s) \<Rightarrow> length s \<le> n | _ \<Rightarrow> True)"

definition updateAccountSchema :: "update_account \<Rightarrow> bool" where
  "updateAccountSchema b =
     ((case up_email b of None \<Rightarrow> True | Some e \<Rightarrow> e \<noteq> [] \<and> length e \<le> 255) \<and> up_locale b = None
      \<and> short_field 255 (up_firstName b) \<and> short_field 255 (up_lastName b)
      \<and> (case up_gender b of Some (Some g) \<Rightarrow> g \<in> {''mr'', ''mrs'', ''other''} | _ \<Rightarrow> True)
      \<and> short_field 1024 (up_avatarUrl b) \<and> short_field 32 (up_phone b) \<and> short_field 255 (up_addressLine b)
      \<and> short_field 255 (up_addressComplement b) \<and> short_field 255 (up_city b) \<and> short_field 32 (up_postalCode b)
      \<and> short_field 255 (up_country b))"

definition edited_account :: "string \<Rightarrow> update_account \<Rightarrow> account list \<Rightarrow> account \<Rightarrow> err + account" where
  "edited_account i input accounts acc =
     (let moves = (up_email input \<noteq> None \<and> up_email input \<noteq> Some (ac_email acc))
      in if moves \<and> (\<exists>x \<in> set accounts. Some (ac_email x) = up_email input \<and> ac_id x \<noteq> i)
         then Inl (HttpException CONFLICT ''Email is already used by another account'')
         else let acc1 = (if moves then acc\<lparr>ac_email := the (up_email input)\<rparr> else acc) in
           case ua_enabled input of
             None \<Rightarrow> Inr acc1
           | Some v \<Rightarrow> if ac_isRoot acc = 1 \<and> \<not> v then Inl (HttpException BAD_REQUEST ''Cannot disable a root account'')
               else Inr (acc1\<lparr>ac_enabled := (if v then 1 else 0)\<rparr>))"

text \<open>A profile is written only when one of its fields is given, whether or not it changes it.\<close>

definition edited_profile_row :: "session_env \<Rightarrow> string \<Rightarrow> update_account \<Rightarrow> time \<Rightarrow> console_state \<Rightarrow> console_state" where
  "edited_profile_row env i input now c =
     (if \<not> profile_fields (personal_fields input) then c
      else let p = (case profile_of i c of None \<Rightarrow> new_profile i now | Some r \<Rightarrow> r);
               p' = edited_profile env (personal_fields input) p
           in c\<lparr>cs_admin := (cs_admin c)\<lparr>ad_profiles := save_row pr_accountId (if p' = p then p else p'\<lparr>pr_updatedAt := now\<rparr>)
                  (ad_profiles (cs_admin c))\<rparr>\<rparr>)"

definition updateAccount ::
  "session_env \<Rightarrow> activity_context \<Rightarrow> string \<Rightarrow> update_account \<Rightarrow> time \<Rightarrow> console_state \<Rightarrow> (account_view, console_state) outcome" where
  "updateAccount env ctx i input now c =
     (case find_account i (ms_accounts (cs_mail c)) of
        None \<Rightarrow> (Inl (HttpException NOT_FOUND ''Account not found''), c)
      | Some acc \<Rightarrow>
          (case edited_account i input (ms_accounts (cs_mail c)) acc of
             Inl e \<Rightarrow> (Inl e, c)
           | Inr acc' \<Rightarrow>
               (let c1 = on_mail_tables (\<lambda>m. m\<lparr>ms_accounts := save_row ac_id acc' (ms_accounts m)\<rparr>) c;
                    c2 = edited_profile_row env i input now c1;
                    c3 = crud_note ctx \<lparr>ai_action = ''accounts.updated'', ai_actorId = None, ai_subjectId = Some (Some i),
                           ai_entity = Some (''account'', i)\<rparr> c2
                in (crud_getById i c3, c3))))"

section \<open>Deleting\<close>

definition unless_account :: "string \<Rightarrow> string option \<Rightarrow> string option" where
  "unless_account i v = (if v = Some i then None else v)"

definition unnamed_lines :: "string \<Rightarrow> activity_row list \<Rightarrow> activity_row list" where
  "unnamed_lines i rows =
     map (\<lambda>l. l\<lparr>al_actorId := unless_account i (al_actorId l), al_subjectId := unless_account i (al_subjectId l)\<rparr>) rows"

text \<open>The foreign keys on \<open>accounts\<close>: a row of the account's own goes with it, a reference becomes null. The
  owner of an alias is a column without a foreign key.\<close>

definition domains_released :: "string \<Rightarrow> virtual_domain list \<Rightarrow> virtual_domain list" where
  "domains_released i rows = map (\<lambda>d. d\<lparr>vd_ownerId := unless_account i (vd_ownerId d)\<rparr>) rows"

definition users_released :: "string \<Rightarrow> virtual_user list \<Rightarrow> virtual_user list" where
  "users_released i rows = map (\<lambda>r. r\<lparr>vu_ownerId := unless_account i (vu_ownerId r)\<rparr>) rows"

definition delegations_dropped :: "string \<Rightarrow> domain_delegation list \<Rightarrow> domain_delegation list" where
  "delegations_dropped i rows = map (\<lambda>r. r\<lparr>dd_createdBy := unless_account i (dd_createdBy r)\<rparr>)
     (delete_where (\<lambda>r. dd_accountId r = i) rows)"

definition invitations_unsigned :: "string \<Rightarrow> account_invitation list \<Rightarrow> account_invitation list" where
  "invitations_unsigned i rows = map (\<lambda>v. v\<lparr>iv_invitedBy := unless_account i (iv_invitedBy v)\<rparr>) rows"

definition audit_unsigned :: "string \<Rightarrow> audit_log list \<Rightarrow> audit_log list" where
  "audit_unsigned i rows = map (\<lambda>l. l\<lparr>au_actorId := unless_account i (au_actorId l)\<rparr>) rows"

declare domains_released_def [simp] users_released_def [simp] delegations_dropped_def [simp]
  invitations_unsigned_def [simp] audit_unsigned_def [simp]

definition account_cascade :: "string \<Rightarrow> mail_state \<Rightarrow> mail_state" where
  "account_cascade i m = m\<lparr>
     ms_accounts := delete_where (\<lambda>a. ac_id a = i) (ms_accounts m),
     ms_domains := domains_released i (ms_domains m),
     ms_users := users_released i (ms_users m),
     ms_delegations := delegations_dropped i (ms_delegations m),
     ms_invitations := invitations_unsigned i (ms_invitations m),
     ms_journal := unnamed_lines i (ms_journal m),
     ms_audit := audit_unsigned i (ms_audit m)\<rparr>"

definition admin_cascade :: "string \<Rightarrow> admin_state \<Rightarrow> admin_state" where
  "admin_cascade i ad = ad\<lparr>ad_mail := account_cascade i (ad_mail ad),
     ad_groups := map (\<lambda>g. g\<lparr>gr_ownerId := unless_account i (gr_ownerId g)\<rparr>) (ad_groups ad),
     ad_members := delete_where (\<lambda>m. gm_accountId m = i) (ad_members ad),
     ad_profiles := delete_where (\<lambda>p. pr_accountId p = i) (ad_profiles ad)\<rparr>"

definition delete_account :: "string \<Rightarrow> console_state \<Rightarrow> console_state" where
  "delete_account i c = c\<lparr>cs_admin := admin_cascade i (cs_admin c),
     cs_tokens := delete_where (\<lambda>t. rt_accountId t = i) (cs_tokens c),
     cs_log := unnamed_lines i (cs_log c),
     cs_twoFactor := (cs_twoFactor c)\<lparr>tf_rows := delete_where (\<lambda>r. at_accountId r = i) (tf_rows (cs_twoFactor c)),
       tf_log := unnamed_lines i (tf_log (cs_twoFactor c))\<rparr>,
     cs_risk := (cs_risk c)\<lparr>lr_networks := delete_where (\<lambda>r. an_accountId r = i) (lr_networks (cs_risk c)),
       lr_addresses := delete_where (\<lambda>r. aa_accountId r = i) (lr_addresses (cs_risk c))\<rparr>,
     cs_mfa := (cs_mfa c)\<lparr>mf_rows := delete_where (\<lambda>r. am_accountId r = i) (mf_rows (cs_mfa c)),
       mf_log := unnamed_lines i (mf_log (cs_mfa c))\<rparr>,
     cs_keys := delete_where (\<lambda>t. tk_accountId t = i) (cs_keys c),
     cs_keyLog := unnamed_lines i (cs_keyLog c),
     cs_identities := delete_where (\<lambda>l. lk_accountId l = i) (cs_identities c)\<rparr>"

definition deleteAccount :: "activity_context \<Rightarrow> string \<Rightarrow> console_state \<Rightarrow> (unit, console_state) outcome" where
  "deleteAccount ctx i c =
     (case find_account i (ms_accounts (cs_mail c)) of
        None \<Rightarrow> (Inl (HttpException NOT_FOUND ''Account not found''), c)
      | Some acc \<Rightarrow>
          if ac_isRoot acc = 1 then (Inl (HttpException BAD_REQUEST ''Cannot delete a root account''), c)
          else (Inr (), crud_note ctx \<lparr>ai_action = ''accounts.deleted'', ai_actorId = None, ai_subjectId = Some None,
                   ai_entity = Some (''account'', i)\<rparr> (delete_account i c)))"

section \<open>Who owns what\<close>

definition assertAccount :: "string \<Rightarrow> mail_state \<Rightarrow> err + unit" where
  "assertAccount i m =
     (if find_account i (ms_accounts m) = None then Inl (HttpException NOT_FOUND ''Account not found'') else Inr ())"

definition domainIdByName :: "string list \<Rightarrow> mail_state \<Rightarrow> string \<Rightarrow> int option" where
  "domainIdByName names m =
     (\<lambda>n. map_option vd_id (List.find (\<lambda>d. vd_domain d = n) (rev (filter (\<lambda>d. vd_domain d \<in> set names) (ms_domains m)))))"

definition ownedRecipients :: "string \<Rightarrow> mail_state \<Rightarrow> err + (virtual_user \<times> int option) list" where
  "ownedRecipients i m =
     (case assertAccount i m of
        Inl e \<Rightarrow> Inl e
      | Inr _ \<Rightarrow> (let rows = sort_key vu_email (filter (\<lambda>r. vu_ownerId r = Some i) (ms_users m));
                      ids = domainIdByName (map vu_domain rows) m
                  in Inr (map (\<lambda>r. (r, ids (vu_domain r))) rows)))"

definition ownedAliases :: "string \<Rightarrow> mail_state \<Rightarrow> err + (virtual_alias \<times> int option) list" where
  "ownedAliases i m =
     (case assertAccount i m of
        Inl e \<Rightarrow> Inl e
      | Inr _ \<Rightarrow> (let rows = sort_key va_source (filter (\<lambda>r. va_ownerId r = Some i) (ms_aliases m));
                      ids = domainIdByName (map va_domain rows) m
                  in Inr (map (\<lambda>r. (r, ids (va_domain r))) rows)))"

text \<open>SQL's \<open>LIKE\<close>: \<open>%\<close> stands for any text, \<open>_\<close> for any character, a backslash takes the next one literally.\<close>

fun sql_like :: "string \<Rightarrow> string \<Rightarrow> bool" where
  "sql_like [] s = (s = [])"
| "sql_like (p # ps) s =
     (if p = CHR ''%'' then sql_like ps s \<or> (case s of [] \<Rightarrow> False | x # xs \<Rightarrow> sql_like (p # ps) xs)
      else if p = CHR ''_'' then (case s of [] \<Rightarrow> False | x # xs \<Rightarrow> sql_like ps xs)
      else if p = CHR 0x5C \<and> ps \<noteq> [] then (case s of [] \<Rightarrow> False | x # xs \<Rightarrow> x = hd ps \<and> sql_like (tl ps) xs)
      else (case s of [] \<Rightarrow> False | x # xs \<Rightarrow> x = p \<and> sql_like ps xs))"

text \<open>\<open>column LIKE :s\<close> with the term between two percent signs; the collation folds case.\<close>

definition searched :: "string option \<Rightarrow> string list \<Rightarrow> bool" where
  "searched term columns =
     (case term of None \<Rightarrow> True | Some s \<Rightarrow> s = []
       \<or> (\<exists>v \<in> set columns. sql_like (''%'' @ toLowerCase s @ ''%'') (toLowerCase v)))"

text \<open>What a picker lists, then the list, whole or by pages; the order of a page is the database's, an argument.\<close>

definition listNames ::
  "string option \<Rightarrow> string option \<Rightarrow> nat option \<Rightarrow> console_state \<Rightarrow> (string \<times> string \<times> string option) list" where
  "listNames notInGroup search limit c =
     (let member = (\<lambda>a. \<exists>m \<in> set (ad_members (cs_admin c)). gm_accountId m = ac_id a \<and> Some (gm_groupId m) = notInGroup);
          rows = sort_key ac_email (filter (\<lambda>a. (truthy notInGroup \<longrightarrow> \<not> member a)
            \<and> searched search [ac_email a, concat_ws_name (profile_of (ac_id a) c)]) (ms_accounts (cs_mail c)));
          page = (case limit of None \<Rightarrow> rows | Some n \<Rightarrow> take n rows)
      in map (\<lambda>a. let n = sql_trim (concat_ws_name (profile_of (ac_id a) c))
           in (ac_id a, ac_email a, if n = [] then None else Some n)) page)"

definition ACCOUNTS_SORTABLE_COLUMNS :: "string list" where
  "ACCOUNTS_SORTABLE_COLUMNS = [''email'', ''displayName'', ''enabled'', ''createdAt'']"

definition ACCOUNTS_SORT_EXPR :: "string \<Rightarrow> string list" where
  "ACCOUNTS_SORT_EXPR column = (if column = ''displayName'' then [''lastName'', ''firstName''] else [column])"

definition ACCOUNTS_SEARCHABLE_COLUMNS :: "string list" where
  "ACCOUNTS_SEARCHABLE_COLUMNS = [''email'', ''displayName'']"

definition list_accounts :: "group_db \<Rightarrow> pagination_query \<Rightarrow> console_state \<Rightarrow> account_view list \<times> nat option" where
  "list_accounts db q c =
     (case pq_limit q of
        None \<Rightarrow> (enrichWithGroups (sort_key ac_email (ms_accounts (cs_mail c))) c, None)
      | Some limit \<Rightarrow>
          (let joined = map (\<lambda>a. (a, profile_of (ac_id a) c)) (ms_accounts (cs_mail c));
               columns = (case resolveSearchColumn (pq_searchBy q) ACCOUNTS_SEARCHABLE_COLUMNS of
                 None \<Rightarrow> ACCOUNTS_SEARCHABLE_COLUMNS | Some column \<Rightarrow> [column]);
               matching = (case pq_search q of None \<Rightarrow> joined
                 | Some term \<Rightarrow> if term = [] then joined else filter (\<lambda>r. \<exists>column \<in> set columns. member_like db term column r) joined);
               order = ACCOUNTS_SORT_EXPR (resolveSortColumn (pq_sortBy q) ACCOUNTS_SORTABLE_COLUMNS ''createdAt'')
           in (enrichWithGroups (map fst (page_of (pq_offset q) limit (gb_order_accounts db order (pq_sortDir q = ''asc'') matching))) c,
               Some (length matching))))"

definition user_assignable :: "virtual_user \<Rightarrow> bool" where
  "user_assignable r = (vu_ownerId r = None \<and> \<not> addressed_to ''postmaster@'' (vu_email r)
     \<and> \<not> addressed_to ''dmarc_reports@'' (vu_email r))"

definition alias_assignable :: "virtual_alias \<Rightarrow> bool" where
  "alias_assignable a = (va_ownerId a = None \<and> \<not> addressed_to ''postmaster@'' (va_source a))"

definition unassignedDomains :: "bool \<Rightarrow> mail_state \<Rightarrow> virtual_domain list" where
  "unassignedDomains recipients m =
     (let names = (if recipients then map vu_domain (filter user_assignable (ms_users m))
                   else map va_domain (filter alias_assignable (ms_aliases m)))
      in sort_key vd_domain (filter (\<lambda>d. vd_domain d \<in> set names) (ms_domains m)))"

text \<open>The domain picked, and the rows of one page: 25, in the order of the address.\<close>

definition of_picked :: "int option \<Rightarrow> virtual_domain list \<Rightarrow> string list option" where
  "of_picked domainId domains =
     (case domainId of None \<Rightarrow> Some (map vd_domain domains)
      | Some d \<Rightarrow> map_option (\<lambda>p. [vd_domain p]) (List.find (\<lambda>v. vd_id v = d) domains))"

definition assignableRecipients ::
  "int option \<Rightarrow> string option \<Rightarrow> mail_state \<Rightarrow> virtual_domain list \<times> virtual_user list" where
  "assignableRecipients domainId search m =
     (let domains = unassignedDomains True m in
      case of_picked domainId domains of
        None \<Rightarrow> (domains, [])
      | Some names \<Rightarrow> (domains, take 25 (sort_key vu_email (filter (\<lambda>r. user_assignable r
          \<and> (domainId = None \<or> vu_domain r \<in> set names) \<and> searched search [vu_email r]) (ms_users m)))))"

definition assignableAliases ::
  "int option \<Rightarrow> string option \<Rightarrow> mail_state \<Rightarrow> virtual_domain list \<times> virtual_alias list" where
  "assignableAliases domainId search m =
     (let domains = unassignedDomains False m in
      case of_picked domainId domains of
        None \<Rightarrow> (domains, [])
      | Some names \<Rightarrow> (domains, take 25 (sort_key va_source (filter (\<lambda>a. alias_assignable a
          \<and> (domainId = None \<or> va_domain a \<in> set names) \<and> searched search [va_source a, va_destination a]) (ms_aliases m)))))"

definition attachRecipient :: "string \<Rightarrow> int \<Rightarrow> mail_state \<Rightarrow> (virtual_user, mail_state) outcome" where
  "attachRecipient accountId recipientId m =
     (case assertAccount accountId m of
        Inl e \<Rightarrow> (Inl e, m)
      | Inr _ \<Rightarrow>
          (case find_user recipientId m of
             None \<Rightarrow> (Inl (HttpException NOT_FOUND ''Recipient not found''), m)
           | Some r \<Rightarrow>
               if addressed_to ''postmaster@'' (vu_email r) then (Inl (ApiError FORBIDDEN ''recipients.postmasterUnassignable''), m)
               else if addressed_to ''dmarc_reports@'' (vu_email r)
               then (Inl (ApiError FORBIDDEN ''recipients.dmarcReportsUnassignable''), m)
               else let r' = r\<lparr>vu_ownerId := Some accountId\<rparr> in (Inr r', save_user r' m)))"

definition detachRecipient :: "string \<Rightarrow> int \<Rightarrow> mail_state \<Rightarrow> (virtual_user, mail_state) outcome" where
  "detachRecipient accountId recipientId m =
     (case List.find (\<lambda>r. vu_id r = recipientId \<and> vu_ownerId r = Some accountId) (ms_users m) of
        None \<Rightarrow> (Inl (HttpException NOT_FOUND ''Recipient not owned by account''), m)
      | Some r \<Rightarrow> let r' = r\<lparr>vu_ownerId := None\<rparr> in (Inr r', save_user r' m))"

definition attachAlias :: "string \<Rightarrow> int \<Rightarrow> mail_state \<Rightarrow> (virtual_alias, mail_state) outcome" where
  "attachAlias accountId aliasId m =
     (case assertAccount accountId m of
        Inl e \<Rightarrow> (Inl e, m)
      | Inr _ \<Rightarrow>
          (case find_alias aliasId m of
             None \<Rightarrow> (Inl (HttpException NOT_FOUND ''Alias not found''), m)
           | Some a \<Rightarrow>
               if addressed_to ''postmaster@'' (va_source a) then (Inl (ApiError FORBIDDEN ''aliases.postmasterUnassignable''), m)
               else let a' = a\<lparr>va_ownerId := Some accountId\<rparr> in (Inr a', save_alias a' m)))"

definition detachAlias :: "string \<Rightarrow> int \<Rightarrow> mail_state \<Rightarrow> (virtual_alias, mail_state) outcome" where
  "detachAlias accountId aliasId m =
     (case List.find (\<lambda>a. va_id a = aliasId \<and> va_ownerId a = Some accountId) (ms_aliases m) of
        None \<Rightarrow> (Inl (HttpException NOT_FOUND ''Alias not owned by account''), m)
      | Some a \<Rightarrow> let a' = a\<lparr>va_ownerId := None\<rparr> in (Inr a', save_alias a' m))"

section \<open>Serving\<close>

datatype crud_request =
    EditAccount string update_account
  | DeleteAccount string
  | ResetTwoFactor string
  | ResetQuestion string
  | ForgetNetwork string string nat
  | AttachRecipient string int
  | DetachRecipient string int
  | AttachAlias string int
  | DetachAlias string int

fun crud_action :: "crud_request \<Rightarrow> string" where
  "crud_action (EditAccount i b) = ''edit-account''"
| "crud_action (DeleteAccount i) = ''revoke-account''"
| "crud_action (ResetTwoFactor i) = ''edit-account''"
| "crud_action (ResetQuestion i) = ''edit-account''"
| "crud_action (ForgetNetwork i cc asn) = ''edit-account''"
| "crud_action (AttachRecipient i r) = ''assign-recipient-owner''"
| "crud_action (DetachRecipient i r) = ''unassign-recipient-owner''"
| "crud_action (AttachAlias i a) = ''assign-alias-owner''"
| "crud_action (DetachAlias i a) = ''unassign-alias-owner''"

text \<open>The row each handler asks the protection of, before anything else.\<close>

fun crud_resource :: "crud_request \<Rightarrow> (protectable \<times> row_id) option" where
  "crud_resource (EditAccount i b) = Some (PAccount, \<lparr>ri_text = i, ri_number = None\<rparr>)"
| "crud_resource (DeleteAccount i) = Some (PAccount, \<lparr>ri_text = i, ri_number = None\<rparr>)"
| "crud_resource (ResetTwoFactor i) = Some (PAccount, \<lparr>ri_text = i, ri_number = None\<rparr>)"
| "crud_resource (ResetQuestion i) = Some (PAccount, \<lparr>ri_text = i, ri_number = None\<rparr>)"
| "crud_resource (ForgetNetwork i cc asn) = None"
| "crud_resource (AttachRecipient i r) = Some (PRecipient, numbered r)"
| "crud_resource (DetachRecipient i r) = Some (PRecipient, numbered r)"
| "crud_resource (AttachAlias i a) = Some (PAlias, numbered a)"
| "crud_resource (DetachAlias i a) = Some (PAlias, numbered a)"

definition silent :: "('a, 's) outcome \<Rightarrow> (unit, 's) outcome" where
  "silent r = (case fst r of Inl e \<Rightarrow> Inl e | Inr _ \<Rightarrow> Inr (), snd r)"

definition on_cs_mail :: "(mail_state \<Rightarrow> ('a, mail_state) outcome) \<Rightarrow> console_state \<Rightarrow> (unit, console_state) outcome" where
  "on_cs_mail f c = (let (r, m) = f (cs_mail c) in silent (r, on_mail_tables (\<lambda>_. m) c))"

fun crud_handle ::
  "session_env \<Rightarrow> activity_context \<Rightarrow> time \<Rightarrow> crud_request \<Rightarrow> console_state \<Rightarrow> (unit, console_state) outcome" where
  "crud_handle env ctx now (EditAccount i b) c = silent (updateAccount env ctx i b now c)"
| "crud_handle env ctx now (DeleteAccount i) c = deleteAccount ctx i c"
| "crud_handle env ctx now (ResetTwoFactor i) c = silent (resetTwoFactor ctx i c)"
| "crud_handle env ctx now (ResetQuestion i) c = silent (resetSecurityQuestion ctx i now c)"
| "crud_handle env ctx now (ForgetNetwork i cc asn) c =
     (let (r, s) = forget i (take 2 (toUpperCase cc)) asn (cs_risk c) in silent (r, c\<lparr>cs_risk := s\<rparr>))"
| "crud_handle env ctx now (AttachRecipient i r) c = on_cs_mail (attachRecipient i r) c"
| "crud_handle env ctx now (DetachRecipient i r) c = on_cs_mail (detachRecipient i r) c"
| "crud_handle env ctx now (AttachAlias i a) c = on_cs_mail (attachAlias i a) c"
| "crud_handle env ctx now (DetachAlias i a) c = on_cs_mail (detachAlias i a) c"

text \<open>The guard, the pipe on the body, the protection, the handler. The pipes on the identifiers check their form.\<close>

definition crud_serve ::
  "session_env \<Rightarrow> guard_lib \<Rightarrow> guard_user option \<Rightarrow> time \<Rightarrow> crud_request \<Rightarrow> console_state \<Rightarrow> (unit, console_state) outcome" where
  "crud_serve env lib user now r c =
     (case global_guard lib (Some [(''accounts'', [''access'', crud_action r])]) user of
        Inl e \<Rightarrow> (Inl e, c)
      | Inr _ \<Rightarrow>
          if (case r of EditAccount i b \<Rightarrow> \<not> updateAccountSchema b | _ \<Rightarrow> False)
          then (Inl (HttpException BAD_REQUEST ''Validation failed''), c)
          else case (case crud_resource r of None \<Rightarrow> Inr () | Some (t, i) \<Rightarrow> assertUnprotected t i (cs_mail c)) of
            Inl e \<Rightarrow> (Inl e, c)
          | Inr _ \<Rightarrow> crud_handle env (map_option gu_id user) now r c)"

end
