(* ===== verification/ProviderSignIn.thy ===== *)
theory ProviderSignIn imports AccountAdmin begin

text \<open>
  \<open>core/auth/passport\<close>: the sign-in by an outside provider. The provider proves an identity, which is an
  argument; the service finds or makes the account it stands for, mints a one-time code for it, and trades the code
  for the session a password opens. The credentials of the providers are sealed in a table and read into memory.
\<close>

section \<open>The identity a provider proves\<close>

record google_email =
  ge_value :: "string option"
  ge_verified :: bool

record google_profile =
  gp_id :: string
  gp_emails :: "google_email list option"
  gp_givenName :: "string option"
  gp_familyName :: "string option"
  gp_photos :: "string list option"

record provider_identity =
  pi_provider :: string
  pi_subject :: string
  pi_email :: string
  pi_emailVerified :: bool
  pi_firstName :: "string option"
  pi_lastName :: "string option"
  pi_picture :: "string option"

definition PROVIDER_ID :: string where "PROVIDER_ID = ''google''"
definition PASSPORT_PROVIDERS :: "string list" where "PASSPORT_PROVIDERS = [PROVIDER_ID]"

definition first_of :: "'a list option \<Rightarrow> 'a option" where
  "first_of xs = (case xs of Some (x # rest) \<Rightarrow> Some x | _ \<Rightarrow> None)"

text \<open>\<open>v?.trim() || null\<close>\<close>

definition trimmed_or_null :: "string option \<Rightarrow> string option" where
  "trimmed_or_null v = (case v of None \<Rightarrow> None | Some s \<Rightarrow> if str_trim s = [] then None else Some (str_trim s))"

definition toIdentity :: "google_profile \<Rightarrow> provider_identity" where
  "toIdentity profile =
     (let primary = first_of (gp_emails profile)
      in \<lparr>pi_provider = PROVIDER_ID, pi_subject = gp_id profile,
          pi_email = (case primary of None \<Rightarrow> [] | Some e \<Rightarrow>
             (case ge_value e of None \<Rightarrow> [] | Some v \<Rightarrow> toLowerCase (str_trim v))),
          pi_emailVerified = (case primary of None \<Rightarrow> False | Some e \<Rightarrow> ge_verified e),
          pi_firstName = trimmed_or_null (gp_givenName profile), pi_lastName = trimmed_or_null (gp_familyName profile),
          pi_picture = first_of (gp_photos profile)\<rparr>)"

section \<open>The registry of providers\<close>

record provider_credential =
  cd_provider :: string
  cd_clientId :: string
  cd_clientSecretCipher :: string
  cd_enabled :: int

record provider_state =
  pv_configured :: bool
  pv_enabled :: bool
  pv_clientId :: string

text \<open>The table, whether it can be read, and what was last read of it.\<close>

record registry =
  rg_rows :: "provider_credential list"
  rg_readable :: bool
  rg_state :: "string \<rightharpoonup> provider_state"

definition state_of_row :: "crypto \<Rightarrow> string \<Rightarrow> provider_credential option \<Rightarrow> provider_state" where
  "state_of_row cr pepper row =
     (let secret = (case row of None \<Rightarrow> None | Some r \<Rightarrow> decryptSecret cr (cd_clientSecretCipher r) pepper);
          configured = (case row of None \<Rightarrow> False | Some r \<Rightarrow> str_trim (cd_clientId r) \<noteq> [] \<and> truthy secret)
      in \<lparr>pv_configured = configured,
          pv_enabled = (configured \<and> (case row of None \<Rightarrow> False | Some r \<Rightarrow> cd_enabled r = 1)),
          pv_clientId = (case row of None \<Rightarrow> [] | Some r \<Rightarrow> cd_clientId r)\<rparr>)"

definition credential_row :: "string \<Rightarrow> registry \<Rightarrow> provider_credential option" where
  "credential_row i rg = List.find (\<lambda>r. cd_provider r = i) (rg_rows rg)"

text \<open>The pepper is asked for only where a row has a secret to open.\<close>

definition registry_reload :: "crypto \<Rightarrow> registry \<Rightarrow> (unit, registry) outcome" where
  "registry_reload cr rg =
     (let row = (\<lambda>i. if rg_readable rg then credential_row i rg else None) in
      if (\<exists>i \<in> set PASSPORT_PROVIDERS. row i \<noteq> None) \<and> \<not> truthy (cr_pepper cr)
      then (Inl (Crash ''MANAGER_API_TOKEN_PEPPER env var is required''), rg)
      else (Inr (), rg\<lparr>rg_state := map_of (map (\<lambda>i. (i, state_of_row cr (or_empty (cr_pepper cr)) (row i))) PASSPORT_PROVIDERS)\<rparr>))"

definition registry_isEnabled :: "string \<Rightarrow> registry \<Rightarrow> bool" where
  "registry_isEnabled i rg = (case rg_state rg i of None \<Rightarrow> False | Some s \<Rightarrow> pv_enabled s)"

definition registry_upsert ::
  "crypto \<Rightarrow> byte list \<Rightarrow> string \<Rightarrow> string \<Rightarrow> string option \<Rightarrow> bool \<Rightarrow> registry \<Rightarrow> (unit, registry) outcome" where
  "registry_upsert cr iv i clientId clientSecret enabled rg =
     (if i \<notin> set PASSPORT_PROVIDERS then (Inl (Crash ''Unknown provider''), rg)
      else let existing = credential_row i rg; secret = trimmed_or_null clientSecret in
        if existing = None \<and> secret = None
        then (Inl (Crash ''A client secret is required the first time a provider is configured''), rg)
        else if secret \<noteq> None \<and> \<not> truthy (cr_pepper cr)
        then (Inl (Crash ''MANAGER_API_TOKEN_PEPPER env var is required''), rg)
        else let sealed = (case secret of
                   Some s \<Rightarrow> encryptSecret cr iv s (or_empty (cr_pepper cr)) | None \<Rightarrow> cd_clientSecretCipher (the existing));
                 row = \<lparr>cd_provider = i, cd_clientId = str_trim clientId, cd_clientSecretCipher = sealed,
                        cd_enabled = (if enabled then 1 else 0)\<rparr>
             in registry_reload cr (rg\<lparr>rg_rows := save_row cd_provider row (rg_rows rg)\<rparr>))"

definition registry_remove :: "crypto \<Rightarrow> string \<Rightarrow> registry \<Rightarrow> (unit, registry) outcome" where
  "registry_remove cr i rg = registry_reload cr (rg\<lparr>rg_rows := delete_where (\<lambda>r. cd_provider r = i) (rg_rows rg)\<rparr>)"

section \<open>The settings\<close>

record passport_settings =
  ps_managerUrl :: string
  ps_passportEnabled :: bool
  ps_passportAutoProvision :: bool

definition managerUrlSet :: "passport_settings \<Rightarrow> bool" where
  "managerUrlSet cfg = (str_trim (ps_managerUrl cfg) \<noteq> [])"

definition isUsable :: "passport_settings \<Rightarrow> registry \<Rightarrow> string \<Rightarrow> bool" where
  "isUsable cfg rg i = (managerUrlSet cfg \<and> ps_passportEnabled cfg \<and> i \<in> set PASSPORT_PROVIDERS \<and> registry_isEnabled i rg)"

definition publicProviders :: "passport_settings \<Rightarrow> registry \<Rightarrow> string list" where
  "publicProviders cfg rg = filter (isUsable cfg rg) PASSPORT_PROVIDERS"

definition url_base :: "passport_settings \<Rightarrow> string" where
  "url_base cfg = rev (dropWhile (\<lambda>c. c = CHR ''/'') (rev (str_trim (ps_managerUrl cfg))))"

definition callbackUrl :: "passport_settings \<Rightarrow> string \<Rightarrow> string" where
  "callbackUrl cfg i = url_base cfg @ ''/api/v1/auth/passport/'' @ i @ ''/callback''"

text \<open>A path this interface can render, never another site.\<close>

definition path_char :: "char \<Rightarrow> bool" where
  "path_char c = (is_upper c \<or> (97 \<le> (of_char c :: nat) \<and> (of_char c :: nat) \<le> 122) \<or> is_digit c \<or> c \<in> set ''-._~/'')"

definition returnPath :: "string option \<Rightarrow> string" where
  "returnPath raw =
     (let path = str_trim (or_empty raw)
      in if take 2 path = ''//'' \<or> \<not> (take 1 path = ''/'' \<and> list_all path_char (drop 1 path)) then ''/login'' else path)"

section \<open>From an identity to an account\<close>

record passport_env =
  pe_settings :: passport_settings
  pe_ops :: guard_ops
  pe_account :: string
  pe_link :: string
  pe_code :: string

definition find_identity :: "provider_identity \<Rightarrow> console_state \<Rightarrow> account_identity option" where
  "find_identity x c = List.find (\<lambda>l. lk_provider l = pi_provider x \<and> lk_subject l = pi_subject x) (cs_identities c)"

definition link_identity ::
  "string \<Rightarrow> string \<Rightarrow> provider_identity \<Rightarrow> time \<Rightarrow> console_state \<Rightarrow> (unit, console_state) outcome" where
  "link_identity newId accountId x now c =
     (if find_identity x c \<noteq> None then (Inl (Crash ''ER_DUP_ENTRY''), c)
      else (Inr (), c\<lparr>cs_identities := save_row lk_id \<lparr>lk_id = newId, lk_accountId = accountId, lk_provider = pi_provider x,
              lk_subject = pi_subject x, lk_createdAt = now\<rparr> (cs_identities c)\<rparr>))"

definition provided_account :: "string \<Rightarrow> string \<Rightarrow> time \<Rightarrow> account" where
  "provided_account i email now =
     \<lparr>ac_id = i, ac_email = email, ac_password = None, ac_isRoot = 0, ac_isProtected = 0, ac_enabled = 1,
      ac_lastLogin = None, ac_createdAt = now\<rparr>"

definition insert_profile :: "profile \<Rightarrow> console_state \<Rightarrow> console_state" where
  "insert_profile p c = c\<lparr>cs_admin := (cs_admin c)\<lparr>ad_profiles := save_row pr_accountId p (ad_profiles (cs_admin c))\<rparr>\<rparr>"

definition join_default :: "guard_ops \<Rightarrow> time \<Rightarrow> string \<Rightarrow> console_state \<Rightarrow> (unit, console_state) outcome" where
  "join_default ops now i c =
     (case List.find (\<lambda>g. gr_isDefault g = 1) (ad_groups (cs_admin c)) of
        None \<Rightarrow> (Inr (), c)
      | Some g \<Rightarrow> (let (r, ad) = on_groups (go_assignAccountToGroup ops now i (gr_id g)) (cs_admin c) in (r, c\<lparr>cs_admin := ad\<rparr>)))"

definition provision :: "passport_env \<Rightarrow> provider_identity \<Rightarrow> time \<Rightarrow> console_state \<Rightarrow> (account, console_state) outcome" where
  "provision env x now c =
     (let acc = provided_account (pe_account env) (pi_email x) now;
          c1 = on_mail_tables (\<lambda>m. m\<lparr>ms_accounts := save_row ac_id acc (ms_accounts m)\<rparr>) c
      in and_then (link_identity (pe_link env) (ac_id acc) x now c1) (\<lambda>_ c2.
           let c3 = insert_profile ((new_profile (ac_id acc) now)\<lparr>pr_firstName := pi_firstName x, pr_lastName := pi_lastName x\<rparr>) c2
           in and_then (join_default (pe_ops env) now (ac_id acc) c3) (\<lambda>_ c4. (Inr acc, c4))))"

definition findOrCreate :: "passport_env \<Rightarrow> provider_identity \<Rightarrow> time \<Rightarrow> console_state \<Rightarrow> (account, console_state) outcome" where
  "findOrCreate env x now c =
     (case (case find_identity x c of None \<Rightarrow> None | Some l \<Rightarrow> find_account (lk_accountId l) (ms_accounts (cs_mail c))) of
        Some acc \<Rightarrow> (Inr acc, c)
      | None \<Rightarrow>
          if pi_email x = [] \<or> \<not> pi_emailVerified x
          then (Inl (HttpException UNAUTHORIZED ''The provider did not confirm a verified email address for this identity''), c)
          else (case find_account_by_email (pi_email x) (ms_accounts (cs_mail c)) of
             Some byEmail \<Rightarrow> and_then (link_identity (pe_link env) (ac_id byEmail) x now c) (\<lambda>_ c1. (Inr byEmail, c1))
           | None \<Rightarrow>
               if \<not> ps_passportAutoProvision (pe_settings env)
               then (Inl (HttpException UNAUTHORIZED ''No account here answers to this address''), c)
               else provision env x now c))"

text \<open>What the provider says fills the fields that are empty.\<close>

definition filled :: "string option \<Rightarrow> string option \<Rightarrow> string option" where
  "filled given held = (if truthy given \<and> \<not> truthy held then given else held)"

definition fillMissingProfile :: "string \<Rightarrow> provider_identity \<Rightarrow> time \<Rightarrow> console_state \<Rightarrow> console_state" where
  "fillMissingProfile i x now c =
     (let p = (case profile_of i c of None \<Rightarrow> new_profile i now | Some r \<Rightarrow> r);
          p' = p\<lparr>pr_avatarUrl := filled (pi_picture x) (pr_avatarUrl p), pr_firstName := filled (pi_firstName x) (pr_firstName p),
                 pr_lastName := filled (pi_lastName x) (pr_lastName p)\<rparr>
      in if p' = p then c else insert_profile (p'\<lparr>pr_updatedAt := now\<rparr>) c)"

definition codeForIdentity :: "passport_env \<Rightarrow> provider_identity \<Rightarrow> time \<Rightarrow> console_state \<Rightarrow> (string, console_state) outcome" where
  "codeForIdentity env x now c =
     and_then (findOrCreate env x now c) (\<lambda>acc c1.
       if ac_enabled acc \<noteq> 1 then (Inl (HttpException UNAUTHORIZED ''This account is disabled''), c1)
       else let c2 = fillMissingProfile (ac_id acc) x now c1; (code, s) = passport_mint (pe_code env) (ac_id acc) now (cs_exchange c2)
            in (Inr code, c2\<lparr>cs_exchange := s\<rparr>))"

definition redeem ::
  "session_env \<Rightarrow> session_draws \<Rightarrow> string \<Rightarrow> string option \<Rightarrow> string option \<Rightarrow> time \<Rightarrow> console_state \<Rightarrow> (sign_in, console_state) outcome" where
  "redeem senv draws code ua ip now c =
     (let (claimed, s) = passport_claim code now (cs_exchange c); c1 = c\<lparr>cs_exchange := s\<rparr> in
      if \<not> truthy claimed then (Inl (HttpException UNAUTHORIZED ''This sign-in link has expired, please start again''), c1)
      else (case find_account (the claimed) (ms_accounts (cs_mail c1)) of
          None \<Rightarrow> (Inl (HttpException UNAUTHORIZED ''This account is disabled''), c1)
        | Some acc \<Rightarrow>
            if ac_enabled acc \<noteq> 1 then (Inl (HttpException UNAUTHORIZED ''This account is disabled''), c1)
            else (let (signed, t) = openSessionFor senv None draws acc ua ip now (session_view c1) in (Inr signed, with_sessions t c1))))"

section \<open>Serving\<close>

text \<open>\<open>callback\<close>: the browser leaves with a code or with a refusal, whatever the reason of the refusal.\<close>

record browser_redirect =
  br_path :: string
  br_code :: "string option"

definition provider_callback ::
  "passport_env \<Rightarrow> registry \<Rightarrow> string \<Rightarrow> provider_identity option \<Rightarrow> string option \<Rightarrow> time \<Rightarrow> console_state
   \<Rightarrow> (browser_redirect, console_state) outcome" where
  "provider_callback env rg provider user returnTo now c =
     (if \<not> isUsable (pe_settings env) rg provider
      then (Inl (HttpException SERVICE_UNAVAILABLE ''Sign-in with this provider is not available on this server''), c)
      else case user of
        None \<Rightarrow> (Inr \<lparr>br_path = returnPath returnTo, br_code = None\<rparr>, c)
      | Some x \<Rightarrow>
          (let (r, c1) = codeForIdentity env x now c
           in (Inr \<lparr>br_path = returnPath returnTo, br_code = (case r of Inl e \<Rightarrow> None | Inr code \<Rightarrow> Some code)\<rparr>, c1)))"

end
