(* ===== verification/AccountBooks.thy ===== *)
theory AccountBooks imports ProviderSignIn InviteBooks SessionSafety begin

text \<open>
  What the administration of the accounts does to the tables it shares: the deletion of an account and the mail
  tables, the rows every request leaves alone, and the accounts themselves, along runs of all the services
  (\<open>console_run\<close>).
\<close>

section \<open>Views\<close>

lemma on_mail_tables_simps [simp]:
  "cs_mail (on_mail_tables f c) = f (cs_mail c)" "cs_tokens (on_mail_tables f c) = cs_tokens c"
  "cs_twoFactor (on_mail_tables f c) = cs_twoFactor c" "cs_mfa (on_mail_tables f c) = cs_mfa c"
  "cs_risk (on_mail_tables f c) = cs_risk c" "cs_keys (on_mail_tables f c) = cs_keys c"
  "cs_identities (on_mail_tables f c) = cs_identities c" "cs_exchange (on_mail_tables f c) = cs_exchange c"
  "cs_log (on_mail_tables f c) = cs_log c" "cs_keyLog (on_mail_tables f c) = cs_keyLog c"
  "cs_nextToken (on_mail_tables f c) = cs_nextToken c" "cs_challenges (on_mail_tables f c) = cs_challenges c"
  "ad_members (cs_admin (on_mail_tables f c)) = ad_members (cs_admin c)" "ad_groups (cs_admin (on_mail_tables f c)) = ad_groups (cs_admin c)"
  "ad_profiles (cs_admin (on_mail_tables f c)) = ad_profiles (cs_admin c)"
  by (simp_all add: on_mail_tables_def change_mail_def)

lemma session_view_simps [simp]:
  "ss_accounts (session_view c) = ms_accounts (cs_mail c)" "ss_tokens (session_view c) = cs_tokens c"
  "ss_twoFactor (session_view c) = cs_twoFactor c" "ss_nextId (session_view c) = cs_nextToken c"
  "ss_challenges (session_view c) = cs_challenges c" "ss_risk (session_view c) = cs_risk c"
  "ss_profiles (session_view c) = ad_profiles (cs_admin c)"
  by (simp_all add: session_view_def)

lemma with_sessions_simps [simp]:
  "cs_mail (with_sessions s c) = (cs_mail c)\<lparr>ms_accounts := ss_accounts s\<rparr>" "cs_tokens (with_sessions s c) = ss_tokens s"
  "cs_twoFactor (with_sessions s c) = ss_twoFactor s" "cs_identities (with_sessions s c) = cs_identities c"
  "cs_exchange (with_sessions s c) = cs_exchange c"
  by (simp_all add: with_sessions_def)

text \<open>A line of the journal changes no other table.\<close>

lemma crud_note_cases:
  obtains (kept) "crud_note ctx x c = c" | (noted) j where "crud_note ctx x c = on_mail_tables (\<lambda>m. m\<lparr>ms_journal := j\<rparr>) c"
proof (cases "crud_note ctx x c = c")
  case False
  then have "crud_note ctx x c = on_mail_tables (\<lambda>m. m\<lparr>ms_journal := record_activity ctx x (ms_journal (cs_mail c))\<rparr>) c"
    by (simp add: crud_note_def Let_def split: if_splits)
  then show thesis by (rule noted)
qed (rule kept)

lemma crud_note_simps [simp]:
  "ms_accounts (cs_mail (crud_note ctx x c)) = ms_accounts (cs_mail c)" "ms_users (cs_mail (crud_note ctx x c)) = ms_users (cs_mail c)"
  "ms_aliases (cs_mail (crud_note ctx x c)) = ms_aliases (cs_mail c)" "ms_domains (cs_mail (crud_note ctx x c)) = ms_domains (cs_mail c)"
  "ms_delegations (cs_mail (crud_note ctx x c)) = ms_delegations (cs_mail c)"
  "ms_invitations (cs_mail (crud_note ctx x c)) = ms_invitations (cs_mail c)" "ms_audit (cs_mail (crud_note ctx x c)) = ms_audit (cs_mail c)"
  "cs_tokens (crud_note ctx x c) = cs_tokens c" "cs_twoFactor (crud_note ctx x c) = cs_twoFactor c"
  "cs_mfa (crud_note ctx x c) = cs_mfa c" "cs_risk (crud_note ctx x c) = cs_risk c" "cs_keys (crud_note ctx x c) = cs_keys c"
  "cs_identities (crud_note ctx x c) = cs_identities c" "cs_exchange (crud_note ctx x c) = cs_exchange c"
  "cs_log (crud_note ctx x c) = cs_log c" "cs_keyLog (crud_note ctx x c) = cs_keyLog c"
  "cs_nextToken (crud_note ctx x c) = cs_nextToken c" "cs_challenges (crud_note ctx x c) = cs_challenges c"
  "ad_members (cs_admin (crud_note ctx x c)) = ad_members (cs_admin c)" "ad_groups (cs_admin (crud_note ctx x c)) = ad_groups (cs_admin c)"
  "ad_profiles (cs_admin (crud_note ctx x c)) = ad_profiles (cs_admin c)"
  by (cases rule: crud_note_cases [of ctx x c]; simp)+

lemma note_mail_sound: "tables_sound (cs_mail c) \<Longrightarrow> tables_sound (cs_mail (crud_note ctx x c))"
  by (cases rule: crud_note_cases [of ctx x c]) (simp_all add: journal_sound)

lemma note_committed [simp]: "committed now e (cs_mail (crud_note ctx x c)) = committed now e (cs_mail c)"
  by (rule committed_cong) simp_all

section \<open>The deletion of an account and the mail tables\<close>

lemma unless_account_simps [simp]: "unless_account i v \<noteq> Some i" "unless_account i v = Some a \<longleftrightarrow> v = Some a \<and> a \<noteq> i"
  by (auto simp: unless_account_def)

lemma account_cascade_sound:
  assumes "tables_sound m"
  shows "tables_sound (account_cascade i m)"
proof -
  let ?m = "account_cascade i m"
  have keys: "map vd_id (ms_domains ?m) = map vd_id (ms_domains m)" "map vd_domain (ms_domains ?m) = map vd_domain (ms_domains m)"
    "map iv_id (ms_invitations ?m) = map iv_id (ms_invitations m)" "map iv_token (ms_invitations ?m) = map iv_token (ms_invitations m)"
    "map vu_id (ms_users ?m) = map vu_id (ms_users m)" "map vu_email (ms_users ?m) = map vu_email (ms_users m)"
    by (simp_all add: account_cascade_def comp_def)
  have domains: "domains_sound ?m" using assms keys by (simp add: tables_sound_parts domains_sound_def)
  have offers: "offers_sound ?m"
    using assms keys(3,4) unfolding tables_sound_parts offers_sound_def by (auto simp: account_cascade_def offered_mb_def comp_def)
  have grants: "grants_sound ?m"
    using assms by (auto simp: tables_sound_parts grants_sound_def one_grant_each_def account_cascade_def delete_where_def comp_def
        distinct_map_filter)
  have "vd_domain ` set (ms_domains ?m) = vd_domain ` set (ms_domains m)" using keys(2) by (metis image_set)
  then have users: "users_fine ?m"
    using assms keys(5,6) by (auto simp: tables_sound_parts users_fine_def users_sound_iff account_cascade_def address_ok_def comp_def)
  have aliases: "aliases_fine ?m" using assms by (simp add: tables_sound_parts aliases_fine_def account_cascade_def)
  from domains offers grants users aliases show ?thesis by (simp add: tables_sound_parts)
qed

lemma sum_where_map: "sum_where f P (map g xs) = sum_where (\<lambda>x. f (g x)) (\<lambda>x. P (g x)) xs"
  by (simp add: sum_where_def filter_map comp_def)

lemma account_cascade_books: "committed now e (account_cascade i m) \<le> committed now e m"
proof -
  let ?m = "account_cascade i m"
  have used: "usedBytesOf a d ?m = usedBytesOf a d m" if "a \<noteq> i" for a d
    using that by (simp add: usedBytesOf_def sumQuota_def account_cascade_def sum_where_map owned_by_def)
  have all: "sumQuota d None ?m = sumQuota d None m" for d
    by (simp add: sumQuota_def account_cascade_def sum_where_map owned_by_def)
  have "promised_on now e (v\<lparr>iv_invitedBy := x\<rparr>) = promised_on now e v" for v x
    by (simp add: promised_on_def stillPending_def offered_mb_def)
  then have offers: "pendingReservedBytes (vd_id e) None now ?m = pendingReservedBytes (vd_id e) None now m"
    by (simp add: pending_promised account_cascade_def comp_def)
  have row: "unusedReserve (r\<lparr>dd_createdBy := x\<rparr>) d ?m = unusedReserve r d m" if "dd_accountId r \<noteq> i" for r x d
    using used [OF that] by (simp add: unusedReserve_def spentBytesOf_def)
  have "reserve_sum e ?m \<le> reserve_sum e m"
  proof -
    have "sum_list (map (\<lambda>r. unusedReserve r d ?m) (filter P (map (\<lambda>r. r\<lparr>dd_createdBy := g r\<rparr>) (delete_where (\<lambda>r. dd_accountId r = i) rows))))
        \<le> sum_list (map (\<lambda>r. unusedReserve r d m) (filter P rows))" if "\<And>r x. P (r\<lparr>dd_createdBy := x\<rparr>) = P r" for d P g rows
    proof (induction rows)
      case (Cons r rows)
      have "0 \<le> unusedReserve r d m" by (simp add: unusedReserve_def)
      from add_mono [OF this Cons] Cons row [of r] that show ?case by (simp add: delete_where_def)
    qed (simp add: delete_where_def)
    from this [of "\<lambda>r. dd_domainId r = vd_id e"] show ?thesis
      by (simp add: reserve_sum_def delegations_on_def account_cascade_def)
  qed
  with all offers show ?thesis by (simp add: committed_def)
qed

section \<open>The requests\<close>

lemma silent_state: "silent r = (res, c') \<Longrightarrow> \<exists>x. r = (x, c')"
  by (cases r) (auto simp: silent_def)

lemma silent_ok: "silent r = (Inr u, c') \<Longrightarrow> \<exists>x. r = (Inr x, c')"
  by (cases r; cases "fst r") (auto simp: silent_def)

lemma on_cs_mail_run: "on_cs_mail f c = (res, c') \<Longrightarrow> \<exists>x m. f (cs_mail c) = (x, m) \<and> c' = on_mail_tables (\<lambda>_. m) c"
  by (auto simp: on_cs_mail_def split: prod.splits dest!: silent_state)

lemma sum_answer: "(\<exists>v. x = Inr v) \<or> (\<exists>e. x = Inl e)"
  by (cases x) auto

text \<open>A request that gets past the guards and the protection runs its handler; one that does not changes nothing.\<close>

lemma crud_serve_run:
  assumes "crud_serve env lib user now r c = (res, c')"
  obtains (refused) e where "res = Inl e" "c' = c"
    | (handled) "crud_handle env (map_option gu_id user) now r c = (res, c')"
        "global_guard lib (Some [(''accounts'', [''access'', crud_action r])]) user = Inr True"
        "\<And>t i. crud_resource r = Some (t, i) \<Longrightarrow> \<not> isProtected t i (cs_mail c)"
proof -
  let ?g = "global_guard lib (Some [(''accounts'', [''access'', crud_action r])]) user"
  let ?p = "case crud_resource r of None \<Rightarrow> Inr () | Some (t, i) \<Rightarrow> assertUnprotected t i (cs_mail c)"
  let ?b = "case r of EditAccount i b \<Rightarrow> \<not> updateAccountSchema b | _ \<Rightarrow> False"
  show thesis
  proof (cases "(\<exists>v. ?g = Inr v) \<and> \<not> ?b \<and> ?p = Inr ()")
    case True
    then obtain v where v: "?g = Inr v" by blast
    then have "v = True" by (auto simp: global_guard_def simp del: assert_all.simps split: option.splits if_splits dest: assert_all_True)
    moreover have "\<not> isProtected t i (cs_mail c)" if "crud_resource r = Some (t, i)" for t i
      using True that by (simp add: assertUnprotected_def split: if_splits)
    moreover have "crud_handle env (map_option gu_id user) now r c = (res, c')"
      using assms conjunct1 [OF conjunct2 [OF True]] conjunct2 [OF conjunct2 [OF True]]
      by (simp only: crud_serve_def v sum.case if_False)
    ultimately show thesis using handled v by blast
  next
    case False
    moreover have "(\<exists>v. ?g = Inr v) \<or> (\<exists>e. ?g = Inl e)" by (rule sum_answer)
    moreover have "(\<exists>u. ?p = Inr u) \<or> (\<exists>e. ?p = Inl e)" by (rule sum_answer)
    ultimately have "(\<exists>e. ?g = Inl e) \<or> ?b \<or> (\<exists>e. ?p = Inl e)" by (metis (full_types) unit_eq)
    then have "c' = c \<and> (\<exists>e. res = Inl e)"
    proof (elim disjE exE)
      fix e assume "?p = Inl e"
      from assms [unfolded crud_serve_def this sum.case] show ?thesis by (auto split: sum.splits if_split_asm)
    qed (use assms in \<open>auto simp: crud_serve_def split: sum.splits\<close>)
    with refused show thesis by blast
  qed
qed

text \<open>What an edit leaves: the account's row saved again, its profile's perhaps, and a line.\<close>

lemma edited_account_row:
  assumes "edited_account i input as acc = Inr acc'" "ac_id acc = i"
  shows "ac_id acc' = i" "ac_isRoot acc' = ac_isRoot acc" "ac_isProtected acc' = ac_isProtected acc"
    "ac_password acc' = ac_password acc" "ac_email acc' = (case up_email input of None \<Rightarrow> ac_email acc | Some e \<Rightarrow> e)"
    "ac_enabled acc' = (case ua_enabled input of None \<Rightarrow> ac_enabled acc | Some v \<Rightarrow> if v then 1 else 0)"
    "ac_isRoot acc = 1 \<Longrightarrow> ua_enabled input \<noteq> Some False"
    "ac_email acc' = ac_email acc \<or> (\<forall>x \<in> set as. ac_email x = ac_email acc' \<longrightarrow> ac_id x = i)"
  using assms by (auto simp: edited_account_def Let_def split: if_splits option.splits)

lemma edited_profile_simps [simp]:
  "cs_mail (edited_profile_row env i input now c) = cs_mail c" "cs_tokens (edited_profile_row env i input now c) = cs_tokens c"
  "cs_twoFactor (edited_profile_row env i input now c) = cs_twoFactor c" "cs_keys (edited_profile_row env i input now c) = cs_keys c"
  "cs_identities (edited_profile_row env i input now c) = cs_identities c"
  "cs_exchange (edited_profile_row env i input now c) = cs_exchange c" "cs_risk (edited_profile_row env i input now c) = cs_risk c"
  "cs_mfa (edited_profile_row env i input now c) = cs_mfa c" "cs_nextToken (edited_profile_row env i input now c) = cs_nextToken c"
  by (simp_all add: edited_profile_row_def Let_def)

lemma update_cases:
  assumes "updateAccount env ctx i input now c = (res, c')"
  obtains (refused) e where "res = Inl e" "c' = c"
    | (edited) acc acc' where "find_account i (ms_accounts (cs_mail c)) = Some acc"
        "edited_account i input (ms_accounts (cs_mail c)) acc = Inr acc'" "res = crud_getById i c'"
        "ms_accounts (cs_mail c') = save_row ac_id acc' (ms_accounts (cs_mail c))"
        "\<exists>j. cs_mail c' = (cs_mail c)\<lparr>ms_accounts := save_row ac_id acc' (ms_accounts (cs_mail c)), ms_journal := j\<rparr>"
        "cs_tokens c' = cs_tokens c" "cs_twoFactor c' = cs_twoFactor c" "cs_keys c' = cs_keys c" "cs_identities c' = cs_identities c"
        "cs_exchange c' = cs_exchange c" "cs_risk c' = cs_risk c" "cs_mfa c' = cs_mfa c" "cs_nextToken c' = cs_nextToken c"
proof (cases "c' = c \<and> (\<exists>e. res = Inl e)")
  case False
  then obtain acc acc' where a: "find_account i (ms_accounts (cs_mail c)) = Some acc"
    "edited_account i input (ms_accounts (cs_mail c)) acc = Inr acc'"
    using assms by (auto simp: updateAccount_def split: option.splits sum.splits)
  let ?x = "\<lparr>ai_action = ''accounts.updated'', ai_actorId = None, ai_subjectId = Some (Some i), ai_entity = Some (''account'', i)\<rparr>"
  let ?c = "edited_profile_row env i input now (on_mail_tables (\<lambda>m. m\<lparr>ms_accounts := save_row ac_id acc' (ms_accounts m)\<rparr>) c)"
  have "updateAccount env ctx i input now c = (crud_getById i (crud_note ctx ?x ?c), crud_note ctx ?x ?c)"
    using a by (simp add: updateAccount_def Let_def)
  from trans [OF assms [symmetric] this] have c': "c' = crud_note ctx ?x ?c" and r: "res = crud_getById i (crud_note ctx ?x ?c)" by blast+
  from r have res: "res = crud_getById i c'" unfolding c' .
  have "\<exists>j. cs_mail c' = (cs_mail c)\<lparr>ms_accounts := save_row ac_id acc' (ms_accounts (cs_mail c)), ms_journal := j\<rparr>"
    unfolding c'
  proof (cases rule: crud_note_cases [of ctx ?x ?c])
    case kept
    then show "\<exists>j. cs_mail (crud_note ctx ?x ?c) = (cs_mail c)\<lparr>ms_accounts := save_row ac_id acc' (ms_accounts (cs_mail c)), ms_journal := j\<rparr>"
      by (intro exI [of _ "ms_journal (cs_mail c)"]) simp
  next
    case (noted j)
    then show "\<exists>j. cs_mail (crud_note ctx ?x ?c) = (cs_mail c)\<lparr>ms_accounts := save_row ac_id acc' (ms_accounts (cs_mail c)), ms_journal := j\<rparr>"
      by (intro exI [of _ j]) simp
  qed
  then show thesis by (intro edited [OF a res]) (simp_all add: c')
qed (use refused in blast)

lemma delete_cases:
  assumes "deleteAccount ctx i c = (res, c')"
  obtains (refused) e where "res = Inl e" "c' = c"
    | (deleted) acc x where "find_account i (ms_accounts (cs_mail c)) = Some acc" "ac_isRoot acc \<noteq> 1" "res = Inr ()"
        "c' = crud_note ctx x (delete_account i c)" "ai_subjectId x = Some None"
  using assms by (auto simp: deleteAccount_def split: option.splits if_splits)

lemma delete_account_simps [simp]: "cs_mail (delete_account i c) = account_cascade i (cs_mail c)"
  "cs_exchange (delete_account i c) = cs_exchange c" "cs_nextToken (delete_account i c) = cs_nextToken c"
  by (simp_all add: delete_account_def admin_cascade_def)

lemma attach_cases:
  "attachRecipient a i m = (r1, m') \<Longrightarrow> m' = m \<or> (\<exists>u \<in> set (ms_users m). vu_id u = i \<and> m' = save_user (u\<lparr>vu_ownerId := Some a\<rparr>) m)"
  "detachRecipient a i m = (r1, m') \<Longrightarrow> m' = m \<or> (\<exists>u \<in> set (ms_users m). vu_ownerId u = Some a \<and> m' = save_user (u\<lparr>vu_ownerId := None\<rparr>) m)"
  "attachAlias a i m = (r2, m') \<Longrightarrow> m' = m \<or> (\<exists>u \<in> set (ms_aliases m). va_id u = i \<and> m' = save_alias (u\<lparr>va_ownerId := Some a\<rparr>) m)"
  "detachAlias a i m = (r2, m') \<Longrightarrow> m' = m \<or> (\<exists>u \<in> set (ms_aliases m). va_ownerId u = Some a \<and> m' = save_alias (u\<lparr>va_ownerId := None\<rparr>) m)"
  by (auto simp: attachRecipient_def detachRecipient_def attachAlias_def detachAlias_def Let_def find_user_def find_alias_def
      split: sum.splits option.splits if_splits dest!: find_in_set)

section \<open>The mail tables stay well-formed and covered\<close>

text \<open>The requests that leave the owners of the mailboxes alone, deletions apart.\<close>

definition keeps_owners :: "crud_request \<Rightarrow> bool" where
  "keeps_owners r = (\<forall>a k. r \<noteq> AttachRecipient a k \<and> r \<noteq> DetachRecipient a k)"

lemma crud_mail_effect:
  assumes "crud_serve env lib user now r c = (res, c')"
  shows "cs_mail c' = cs_mail c
    \<or> (\<exists>as j. cs_mail c' = (cs_mail c)\<lparr>ms_accounts := as, ms_journal := j\<rparr>)
    \<or> (\<exists>i x. cs_mail c' = cs_mail (crud_note (map_option gu_id user) x (delete_account i c)))
    \<or> (\<exists>u o'. \<not> keeps_owners r \<and> u \<in> set (ms_users (cs_mail c))
         \<and> cs_mail c' = save_user (u\<lparr>vu_ownerId := o'\<rparr>) (cs_mail c))
    \<or> (\<exists>u o'. u \<in> set (ms_aliases (cs_mail c)) \<and> cs_mail c' = save_alias (u\<lparr>va_ownerId := o'\<rparr>) (cs_mail c))"
  using assms
proof (cases rule: crud_serve_run)
  case handled
  show ?thesis
  proof (cases r)
    case (EditAccount i b)
    with handled(1) obtain x where "updateAccount env (map_option gu_id user) i b now c = (x, c')"
      by (auto dest: silent_state)
    then show ?thesis by (cases rule: update_cases) auto
  next
    case (DeleteAccount i)
    with handled(1) have "deleteAccount (map_option gu_id user) i c = (res, c')" by simp
    then show ?thesis by (cases rule: delete_cases) auto
  next
    case (ResetTwoFactor i)
    with handled(1) show ?thesis
      by (auto simp: resetTwoFactor_def dest!: silent_state split: if_splits prod.splits)
  next
    case (ResetQuestion i)
    with handled(1) show ?thesis
      by (auto simp: resetSecurityQuestion_def Let_def dest!: silent_state split: if_splits prod.splits sum.splits)
  next
    case (ForgetNetwork i cc asn)
    with handled(1) show ?thesis by (auto dest!: silent_state split: prod.splits)
  next
    case (AttachRecipient i k)
    with handled(1) obtain x m where "attachRecipient i k (cs_mail c) = (x, m)" "cs_mail c' = m" by (auto dest!: on_cs_mail_run)
    with attach_cases(1) [OF this(1)] AttachRecipient show ?thesis unfolding keeps_owners_def by blast
  next
    case (DetachRecipient i k)
    with handled(1) obtain x m where "detachRecipient i k (cs_mail c) = (x, m)" "cs_mail c' = m" by (auto dest!: on_cs_mail_run)
    with attach_cases(2) [OF this(1)] DetachRecipient show ?thesis unfolding keeps_owners_def by blast
  next
    case (AttachAlias i k)
    with handled(1) obtain x m where "attachAlias i k (cs_mail c) = (x, m)" "cs_mail c' = m" by (auto dest!: on_cs_mail_run)
    with attach_cases(3) [OF this(1)] AttachAlias show ?thesis unfolding keeps_owners_def by blast
  next
    case (DetachAlias i k)
    with handled(1) obtain x m where "detachAlias i k (cs_mail c) = (x, m)" "cs_mail c' = m" by (auto dest!: on_cs_mail_run)
    with attach_cases(4) [OF this(1)] DetachAlias show ?thesis unfolding keeps_owners_def by blast
  qed
qed simp

lemma save_alias_fine:
  assumes "aliases_fine m" "u \<in> set (ms_aliases m)" "va_id u' = va_id u" "va_source u' = va_source u"
  shows "aliases_fine (save_alias u' m)"
proof -
  have "map f (ms_aliases (save_alias u' m)) = map f (ms_aliases m)" if "f u' = f u" for f :: "virtual_alias \<Rightarrow> 'b"
    using assms that by (simp add: save_alias_def aliases_fine_def save_row_other_key [of va_id _ u])
  from this [of va_id] this [of va_source] assms show ?thesis by (simp add: aliases_fine_def)
qed

lemma crud_sound:
  assumes sound: "tables_sound (cs_mail c)" and op: "crud_serve env lib user now r c = (res, c')"
  shows "tables_sound (cs_mail c')"
  using crud_mail_effect [OF op]
proof (elim disjE exE conjE)
  fix as j assume "cs_mail c' = (cs_mail c)\<lparr>ms_accounts := as, ms_journal := j\<rparr>"
  then show ?thesis using same_tables_sound [OF sound, of "cs_mail c'"] by simp
next
  fix i x assume "cs_mail c' = cs_mail (crud_note (map_option gu_id user) x (delete_account i c))"
  with note_mail_sound [of "delete_account i c"] account_cascade_sound [OF sound] show ?thesis by simp
next
  fix u o' assume u: "u \<in> set (ms_users (cs_mail c))" "cs_mail c' = save_user (u\<lparr>vu_ownerId := o'\<rparr>) (cs_mail c)"
  have "0 \<le> vu_quota u" using sound u(1) by (simp add: tables_sound_def)
  with u show ?thesis
    by (intro save_user_sound [OF sound u(1), of "u\<lparr>vu_ownerId := o'\<rparr>"]) (simp_all add: same_grants_def save_user_def)
next
  fix u o' assume u: "u \<in> set (ms_aliases (cs_mail c))" "cs_mail c' = save_alias (u\<lparr>va_ownerId := o'\<rparr>) (cs_mail c)"
  have "aliases_fine (cs_mail c')"
    unfolding u(2) using sound by (intro save_alias_fine [OF _ u(1)]) (simp_all add: tables_sound_parts)
  then show ?thesis by (intro only_aliases [OF sound]) (simp_all add: u(2) same_grants_def save_alias_def)
qed (use sound in simp)

lemma crud_books:
  assumes op: "crud_serve env lib user now r c = (res, c')" and r: "keeps_owners r"
  shows "committed now e (cs_mail c') \<le> committed now e (cs_mail c)"
    and "e' \<in> set (ms_domains (cs_mail c')) \<Longrightarrow>
      \<exists>d \<in> set (ms_domains (cs_mail c)). vd_id e' = vd_id d \<and> vd_domain e' = vd_domain d \<and> vd_quota e' = vd_quota d"
proof -
  have "committed now e (cs_mail c') \<le> committed now e (cs_mail c)
    \<and> (e' \<in> set (ms_domains (cs_mail c')) \<longrightarrow>
      (\<exists>d \<in> set (ms_domains (cs_mail c)). vd_id e' = vd_id d \<and> vd_domain e' = vd_domain d \<and> vd_quota e' = vd_quota d))"
    using crud_mail_effect [OF op]
  proof (elim disjE exE conjE)
    fix as j assume c': "cs_mail c' = (cs_mail c)\<lparr>ms_accounts := as, ms_journal := j\<rparr>"
    have "committed now e (cs_mail c') = committed now e (cs_mail c)" by (rule committed_cong) (simp_all add: c')
    with c' show ?thesis by auto
  next
    fix i x assume c': "cs_mail c' = cs_mail (crud_note (map_option gu_id user) x (delete_account i c))"
    then have "ms_domains (cs_mail c') = ms_domains (account_cascade i (cs_mail c))" by simp
    with c' account_cascade_books [of now e i "cs_mail c"] show ?thesis by (auto simp: account_cascade_def)
  next
    fix u o' assume c': "cs_mail c' = save_alias (u\<lparr>va_ownerId := o'\<rparr>) (cs_mail c)"
    have "committed now e (cs_mail c') = committed now e (cs_mail c)" by (rule committed_cong) (simp_all add: c' save_alias_def)
    with c' show ?thesis by (auto simp: save_alias_def)
  qed (use r in auto)
  then show "committed now e (cs_mail c') \<le> committed now e (cs_mail c)"
    "e' \<in> set (ms_domains (cs_mail c')) \<Longrightarrow>
      \<exists>d \<in> set (ms_domains (cs_mail c)). vd_id e' = vd_id d \<and> vd_domain e' = vd_domain d \<and> vd_quota e' = vd_quota d" by blast+
qed

lemma crud_covered:
  assumes op: "crud_serve env lib user now r c = (res, c')" and r: "keeps_owners r" and cov: "covered now (cs_mail c)"
  shows "covered now (cs_mail c')"
  unfolding covered_def
proof (intro ballI impI)
  fix e' assume e': "e' \<in> set (ms_domains (cs_mail c'))" "0 < vd_quota e'"
  from crud_books(2) [OF op r e'(1)] obtain d where d: "d \<in> set (ms_domains (cs_mail c))" "vd_id e' = vd_id d"
    "vd_domain e' = vd_domain d" "vd_quota e' = vd_quota d" by blast
  have "committed now e' (cs_mail c') = committed now d (cs_mail c')" by (rule committed_same_domain [OF d(2,3)])
  also have "\<dots> \<le> committed now d (cs_mail c)" by (rule crud_books(1) [OF op r])
  also have "\<dots> \<le> vd_quota d" using cov d e'(2) by (simp add: covered_def)
  finally show "committed now e' (cs_mail c') \<le> vd_quota e'" using d(4) by simp
qed

section \<open>The accounts themselves\<close>

definition accounts_distinct :: "account list \<Rightarrow> bool" where
  "accounts_distinct as = (distinct (map ac_id as) \<and> distinct (map ac_email as))"

definition roots :: "account list \<Rightarrow> string set" where
  "roots as = ac_id ` {a \<in> set as. ac_isRoot a = 1}"

definition open_roots :: "account list \<Rightarrow> string set" where
  "open_roots as = ac_id ` {a \<in> set as. ac_isRoot a = 1 \<and> ac_enabled a = 1}"

lemma roots_Cons [simp]: "roots [] = {}" "roots (a # as) = (if ac_isRoot a = 1 then insert (ac_id a) (roots as) else roots as)"
  by (auto simp: roots_def)

lemma open_roots_Cons [simp]: "open_roots [] = {}"
  "open_roots (a # as) = (if ac_isRoot a = 1 \<and> ac_enabled a = 1 then insert (ac_id a) (open_roots as) else open_roots as)"
  by (auto simp: open_roots_def)

lemma roots_pairs: "roots as = {i. (i, 1) \<in> set (map (\<lambda>a. (ac_id a, ac_isRoot a)) as)}"
  by (auto simp: roots_def)

text \<open>What every service may do to the table: nobody becomes or ceases to be root, no root account is disabled.\<close>

definition accounts_step :: "account list \<Rightarrow> account list \<Rightarrow> bool" where
  "accounts_step as bs = (accounts_distinct as \<longrightarrow>
     accounts_distinct bs \<and> roots bs = roots as \<and> open_roots as \<subseteq> open_roots bs)"

lemma accounts_step_refl [simp]: "accounts_step as as"
  by (simp add: accounts_step_def)

lemma accounts_step_trans: "accounts_step as bs \<Longrightarrow> accounts_step bs cs \<Longrightarrow> accounts_step as cs"
  by (auto simp: accounts_step_def)

lemma map_unique:
  assumes "distinct (map key xs)" "x \<in> set xs" "y \<in> set xs" "key x = key y"
  shows "x = y"
  using assms by (auto simp: distinct_map dest: inj_onD)

lemma step_saved:
  assumes a: "a \<in> set as" "ac_id b = ac_id a" "ac_isRoot b = ac_isRoot a" "ac_isRoot a = 1 \<longrightarrow> ac_enabled a = 1 \<longrightarrow> ac_enabled b = 1"
    and free: "ac_email b = ac_email a \<or> (\<forall>x \<in> set as. ac_email x = ac_email b \<longrightarrow> ac_id x = ac_id a)"
  shows "accounts_step as (save_row ac_id b as)"
  unfolding accounts_step_def
proof (intro impI conjI)
  assume d: "accounts_distinct as"
  let ?f = "\<lambda>x. if ac_id x = ac_id b then b else x"
  have rows: "save_row ac_id b as = map ?f as" using a(1,2) by (auto simp: save_row_def)
  have same: "x = a" if "x \<in> set as" "ac_id x = ac_id a" for x
    using map_unique [OF _ that(1) a(1) that(2)] d by (simp add: accounts_distinct_def)
  have ids: "map (\<lambda>x. ac_id (?f x)) as = map ac_id as" using same a(2) by (auto cong: map_cong)
  have inj: "inj_on (\<lambda>x. ac_email (?f x)) (set as)"
  proof (rule inj_onI)
    fix x y assume xy: "x \<in> set as" "y \<in> set as" "ac_email (?f x) = ac_email (?f y)"
    have emails: "distinct (map ac_email as)" using d by (simp add: accounts_distinct_def)
    have away: False if "z \<in> set as" "ac_id z \<noteq> ac_id a" "ac_email z = ac_email b" for z
      using free that map_unique [OF emails that(1) a(1)] by auto
    consider "ac_id x = ac_id a" "ac_id y = ac_id a" | "ac_id x = ac_id a" "ac_id y \<noteq> ac_id a"
      | "ac_id x \<noteq> ac_id a" "ac_id y = ac_id a" | "ac_id x \<noteq> ac_id a" "ac_id y \<noteq> ac_id a" by blast
    then show "x = y"
    proof cases
      case 1
      from same [OF xy(1) 1(1)] same [OF xy(2) 1(2)] show ?thesis by simp
    next
      case 2
      with xy(3) a(2) have "ac_email y = ac_email b" by simp
      with away [OF xy(2) 2(2)] show ?thesis by simp
    next
      case 3
      with xy(3) a(2) have "ac_email x = ac_email b" by simp
      with away [OF xy(1) 3(1)] show ?thesis by simp
    next
      case 4
      with xy(3) a(2) have "ac_email x = ac_email y" by simp
      with map_unique [OF emails xy(1,2)] show ?thesis by simp
    qed
  qed
  have "distinct as" using d by (simp add: accounts_distinct_def distinct_map)
  with inj have "distinct (map (\<lambda>x. ac_email (?f x)) as)" unfolding distinct_map by blast
  with ids d show "accounts_distinct (save_row ac_id b as)"
    unfolding rows accounts_distinct_def map_map comp_def by (simp only: simp_thms)
  have members: "x \<in> set (save_row ac_id b as) \<longleftrightarrow> x = b \<or> x \<in> set as \<and> ac_id x \<noteq> ac_id a" for x
    unfolding rows using a(1,2) by (auto simp: image_iff)
  have "(ac_id (?f x), ac_isRoot (?f x)) = (ac_id x, ac_isRoot x)" if "x \<in> set as" for x
    using same [OF that] a(2,3) by auto
  then have "map (\<lambda>x. (ac_id x, ac_isRoot x)) (save_row ac_id b as) = map (\<lambda>x. (ac_id x, ac_isRoot x)) as"
    unfolding rows by (simp add: comp_def cong: map_cong)
  then show "roots (save_row ac_id b as) = roots as" by (simp only: roots_pairs)
  show "open_roots as \<subseteq> open_roots (save_row ac_id b as)"
  proof
    fix i assume "i \<in> open_roots as"
    then obtain y where y: "y \<in> set as" "ac_isRoot y = 1" "ac_enabled y = 1" "ac_id y = i" by (auto simp: open_roots_def)
    show "i \<in> open_roots (save_row ac_id b as)"
    proof (cases "ac_id y = ac_id a")
      case True
      with same [OF y(1)] y a(2-4) members [of b] show ?thesis by (auto simp: open_roots_def intro!: image_eqI [of _ _ b])
    next
      case False
      with y members [of y] show ?thesis by (auto simp: open_roots_def)
    qed
  qed
qed

lemma step_deleted:
  assumes "\<And>a. a \<in> set as \<Longrightarrow> ac_id a = i \<Longrightarrow> ac_isRoot a \<noteq> 1"
  shows "accounts_step as (delete_where (\<lambda>a. ac_id a = i) as)"
  using assms
  by (auto simp: accounts_step_def accounts_distinct_def roots_def open_roots_def delete_where_def distinct_map_filter image_iff)

lemma step_added:
  assumes "ac_id b \<notin> ac_id ` set as" "ac_email b \<notin> ac_email ` set as" "ac_isRoot b \<noteq> 1"
  shows "accounts_step as (save_row ac_id b as)"
  using assms by (auto simp: accounts_step_def accounts_distinct_def roots_def open_roots_def save_row_new)

text \<open>A change of the other columns, row by row.\<close>

definition same_identities :: "account list \<Rightarrow> account list \<Rightarrow> bool" where
  "same_identities as bs = list_all2 (\<lambda>a b. ac_id b = ac_id a \<and> ac_email b = ac_email a \<and> ac_isRoot b = ac_isRoot a
     \<and> ac_enabled b = ac_enabled a) as bs"

lemma step_same: 
  assumes "same_identities as bs"
  shows "accounts_step as bs"
proof -
  have cols: "map ac_id bs = map ac_id as \<and> map ac_email bs = map ac_email as \<and> roots bs = roots as \<and> open_roots bs = open_roots as"
    using assms unfolding same_identities_def
    by (induction rule: list_all2_induct) simp_all
  then show ?thesis by (simp add: accounts_step_def accounts_distinct_def)
qed

lemma same_identities_refl [simp]: "same_identities as as"
  by (simp add: same_identities_def list_all2_same)

lemma flagged_same: "same_identities as (update_where P (\<lambda>r. r\<lparr>ac_isProtected := v\<rparr>) as)"
  by (simp add: same_identities_def update_where_def list_all2_map2 list_all2_same)

subsection \<open>The mail administration leaves the accounts alone, their protection apart\<close>

lemma rcp_accounts:
  "rcp_create env ctx ids b dm owner skip now m = (r1, m') \<Longrightarrow> ms_accounts m' = ms_accounts m"
  "rcp_update env ctx i ub dm skip now m = (r1, m') \<Longrightarrow> ms_accounts m' = ms_accounts m"
  "rcp_remove env ctx i dm m = (r2, m') \<Longrightarrow> ms_accounts m' = ms_accounts m"
  "rcp_assignOwner i dm a m = (r1, m') \<Longrightarrow> ms_accounts m' = ms_accounts m"
  "rcp_clearOwner i dm m = (r1, m') \<Longrightarrow> ms_accounts m' = ms_accounts m"
  by (auto simp: same_grants_def save_user_def delete_user_def rcp_assignOwner_def rcp_clearOwner_def Let_def
      dest!: rcp_create_effect rcp_update_effect rcp_remove_effect split: sum.splits option.splits if_splits)

lemma als_accounts:
  "als_create ctx n b dm owner now m = (r1, m') \<Longrightarrow> ms_accounts m' = ms_accounts m"
  "als_update ctx i ub dm m = (r1, m') \<Longrightarrow> ms_accounts m' = ms_accounts m"
  "als_remove ctx i dm m = (r2, m') \<Longrightarrow> ms_accounts m' = ms_accounts m"
  "als_assignOwner i dm a m = (r1, m') \<Longrightarrow> ms_accounts m' = ms_accounts m"
  "als_clearOwner i dm m = (r1, m') \<Longrightarrow> ms_accounts m' = ms_accounts m"
  by (auto simp: save_alias_def als_remove_def als_assignOwner_def als_clearOwner_def Let_def
      dest!: als_create_effect als_update_effect split: sum.splits option.splits if_splits)

lemma dom_accounts:
  "dom_update stats i b m = (r1, m') \<Longrightarrow> ms_accounts m' = ms_accounts m"
  "transferOwner i me a now m = (r2, m') \<Longrightarrow> ms_accounts m' = ms_accounts m"
  "dom_create env hmac dkim stats dw cb a now m = (r3, m') \<Longrightarrow> ms_accounts m' = ms_accounts m"
  "dom_remove env i m = (r4, m') \<Longrightarrow> ms_accounts m' = ms_accounts m"
proof -
  show "dom_update stats i b m = (r1, m') \<Longrightarrow> ms_accounts m' = ms_accounts m"
    by (auto simp: save_domain_def dest!: dom_update_effect)
  show "transferOwner i me a now m = (r2, m') \<Longrightarrow> ms_accounts m' = ms_accounts m"
    by (auto simp: transferOwner_def save_domain_def Let_def split: option.splits if_splits)
  show "ms_accounts m' = ms_accounts m" if "dom_create env hmac dkim stats dw cb a now m = (r3, m')"
    using dom_create_effect [OF that]
    by (auto simp: reserve_effect_def same_grants_def insert_domain_def dest!: reservePostmaster_effect ensureDmarc_effect
        split: if_splits)
  show "ms_accounts m' = ms_accounts m" if "dom_remove env i m = (r4, m')"
    using dom_remove_effect [OF that] by (auto simp: delete_domain_def Let_def)
qed

lemma delegation_accounts:
  "grantOrInvite env n tk me i b url now m = (r1, m') \<Longrightarrow> ms_accounts m' = ms_accounts m"
  "createToken env n tk me i ob url now m = (r2, m') \<Longrightarrow> ms_accounts m' = ms_accounts m"
  "editInvitation i k eb now m = (r3, m') \<Longrightarrow> ms_accounts m' = ms_accounts m"
  "revokeInvitation i k now m = (r3, m') \<Longrightarrow> ms_accounts m' = ms_accounts m"
  "setCaps i a caps now m = (r4, m') \<Longrightarrow> ms_accounts m' = ms_accounts m"
  "dl_revoke i a m = (r3, m') \<Longrightarrow> ms_accounts m' = ms_accounts m"
  by (auto simp: grantOrInvite_def createToken_def editInvitation_def revokeInvitation_def setCaps_def dl_revoke_def
      and_then_def insert_invitation_def save_invitation_def send_invitation_def save_delegation_def upsertRow_def Let_def
      split: sum.splits option.splits if_splits prod.splits)

lemma setProtected_accounts:
  assumes "setProtected type i v m = (Inr l, m')"
  shows "same_identities (ms_accounts m) (ms_accounts m')"
  using assms flagged_same by (auto simp: setProtected_def Let_def split: option.splits if_splits)

lemma handle_accounts:
  assumes op: "handle env u d now r m = (res, m')"
  shows "same_identities (ms_accounts m) (ms_accounts m')"
proof -
  have same: "same_identities (ms_accounts m) (ms_accounts m')" if "ms_accounts m' = ms_accounts m"
    using that by simp
  have flags: "same_identities (ms_accounts m) (ms_accounts m')"
    if "protect ctx t i root m = (r4, m') \<or> unprotect ctx t i m = (r4, m')" for ctx t i root r4
    using protect_run [OF that] same by (auto dest!: setProtected_accounts)
  show ?thesis
  proof (cases r)
    case DeleteDomain
    with op show ?thesis by (auto intro!: same dest: dom_accounts split: sum.splits)
  next
    case (Protect t i)
    with op have "protect (re_ctx env) t i (gu_isRoot u) m = (res, m')" by simp
    then show ?thesis by (intro flags disjI1)
  next
    case (Unprotect t i)
    with op have "unprotect (re_ctx env) t i m = (res, m')" by simp
    then show ?thesis by (intro flags disjI2)
  qed (use op in \<open>auto intro!: same dest!: on_domain_run unprotected_then_run done_with_state my_create_run my_update_run
      my_delete_run my_alias_create_run my_alias_update_run my_alias_delete_run
      dest: rcp_accounts als_accounts dom_accounts delegation_accounts\<close>)
qed

subsection \<open>The other services\<close>

lemma mail_run_accounts: "mail_run allowed s t st now \<Longrightarrow> accounts_step (ms_accounts s) (ms_accounts st)"
proof (induction rule: mail_run.induct)
  case (served st now env u r d res st')
  have "accounts_step (ms_accounts st) (ms_accounts st')"
    using serve_run [OF served.hyps(4)] step_same [OF handle_accounts] by auto
  with served.IH show ?case by (rule accounts_step_trans)
qed simp_all

lemma send_accounts: "sendInvitation env actor b now st = (res, st') \<Longrightarrow> ms_accounts (ad_mail st') = ms_accounts (ad_mail st)"
proof (erule send_cases)
  fix dm ids gs st2 m3
  assume g: "invitedGroups env actor b dm now (change_mail (expire_former (sb_email b) now) st) = (Inr (ids, gs), st2)"
    and i: "insert_invitation (staged_account env (gu_id actor) b ids now) (ad_mail st2) = (Inr (), m3)"
    and m: "(res, st') = on_mail (send_invitation (ie_mail env)
        \<lparr>im_to = sb_email b, im_link = inviteLink (ie_mail env) (ie_baseUrl env) (ie_token env),
         im_fromDomain = vd_domain dm, im_groupNames = map gr_name gs\<rparr>) (st2\<lparr>ad_mail := m3\<rparr>)"
  have "ms_accounts m3 = ms_accounts (ad_mail st2)" using i by (auto simp: insert_invitation_def save_invitation_def split: if_splits)
  with mailed_tables(1) [OF m] invitedGroups_mail [OF g] show ?thesis by auto
qed simp

lemma invite_accounts:
  assumes fresh: "invite_fresh env st" and op: "invite_serve env user now r st = (res, st')"
  shows "accounts_step (ms_accounts (ad_mail st)) (ms_accounts (ad_mail st'))"
proof -
  have made: "accounts_step (ms_accounts (ad_mail st)) (ms_accounts (ad_mail (createInvited env email b now st)))"
    if "find_account_by_email email (ms_accounts (ad_mail st)) = None" for email b
    using fresh that unfolding createInvited_def
    by (simp, intro step_added) (auto simp: new_account_def invite_fresh_def find_account_by_email_def find_None_iff)
  have accept: ?thesis if run: "acceptInvitation env tk b now st = (x, st')" for tk b x
    using run
  proof (cases rule: accept_cases)
    case (stopped ivt email err)
    with fresh join_each_mail [OF _ stopped(6)] made [of email b] show ?thesis by (simp add: invite_fresh_def)
  next
    case (accepted ivt email st2)
    with fresh join_each_mail [OF _ accepted(6)] made [of email b] show ?thesis by (simp add: invite_fresh_def)
  qed simp
  have claim: ?thesis if run: "claimInvitation env tk a now st = (x, st')" for tk a x
    using run by (cases rule: claim_cases) auto
  show ?thesis using invite_serve_run [OF op] accept claim send_accounts by fastforce
qed

lemma office_accounts: "office_run allowed s t st now \<Longrightarrow> accounts_step (ms_accounts (ad_mail s)) (ms_accounts (ad_mail st))"
proof (induction rule: office_run.induct)
  case (mail st now m now')
  from accounts_step_trans [OF mail.IH mail_run_accounts [OF mail.hyps(2)]] show ?case by simp
next
  case (groups st now g)
  then show ?case by (simp add: with_groups_def)
next
  case (invited st now env user r res st')
  from accounts_step_trans [OF invited.IH invite_accounts [OF invited.hyps(2,3)]] show ?case .
qed simp

text \<open>The administration: an edit keeps the flags it may not touch, a deletion spares the root accounts.\<close>

lemma found_account: "find_account i as = Some a \<Longrightarrow> a \<in> set as \<and> ac_id a = i"
  by (auto simp: find_account_def dest: find_in_set)

lemma crud_accounts:
  assumes d: "accounts_distinct (ms_accounts (cs_mail c))" and op: "crud_serve env lib user now r c = (res, c')"
  shows "accounts_step (ms_accounts (cs_mail c)) (ms_accounts (cs_mail c'))"
  using op
proof (cases rule: crud_serve_run)
  case handled
  have same: ?thesis if "ms_accounts (cs_mail c') = ms_accounts (cs_mail c)" using that by simp
  show ?thesis
  proof (cases r)
    case (EditAccount i b)
    with handled(1) obtain x where "updateAccount env (map_option gu_id user) i b now c = (x, c')" by (auto dest: silent_state)
    then show ?thesis
    proof (cases rule: update_cases)
      case (edited acc acc')
      note a = found_account [OF edited(1)]
      note row = edited_account_row [OF edited(2) conjunct2 [OF a]]
      show ?thesis unfolding edited(4)
        using a row by (intro step_saved [of acc]) (auto split: option.splits)
    qed simp
  next
    case (DeleteAccount i)
    with handled(1) have "deleteAccount (map_option gu_id user) i c = (res, c')" by simp
    then show ?thesis
    proof (cases rule: delete_cases)
      case (deleted acc x)
      have "ac_isRoot a \<noteq> 1" if "a \<in> set (ms_accounts (cs_mail c))" "ac_id a = i" for a
        using found_account [OF deleted(1)] deleted(2) map_unique [of ac_id _ a acc] d that by (auto simp: accounts_distinct_def)
      from step_deleted [OF this] show ?thesis by (simp add: deleted(4) account_cascade_def)
    qed simp
  next
    case (ResetTwoFactor i)
    with handled(1) show ?thesis
      by (auto simp: resetTwoFactor_def dest!: silent_state split: if_splits prod.splits)
  next
    case (ResetQuestion i)
    with handled(1) show ?thesis
      by (auto simp: resetSecurityQuestion_def Let_def dest!: silent_state split: if_splits prod.splits sum.splits)
  next
    case (ForgetNetwork i cc asn)
    with handled(1) show ?thesis by (auto dest!: silent_state split: prod.splits)
  qed (use handled(1) in \<open>auto intro!: same dest!: on_cs_mail_run attach_cases simp: save_user_def save_alias_def\<close>)
qed simp

subsection \<open>The sign-in by a provider\<close>

definition passport_fresh :: "passport_env \<Rightarrow> console_state \<Rightarrow> bool" where
  "passport_fresh env c = (guard_lawful (pe_ops env) \<and> pe_account env \<noteq> [] \<and> pe_account env \<notin> ac_id ` set (ms_accounts (cs_mail c))
     \<and> pe_link env \<notin> lk_id ` set (cs_identities c))"

lemma join_default_parts:
  assumes "guard_lawful ops" "join_default ops now i c = (res, c')"
  shows "\<exists>ms. c' = c\<lparr>cs_admin := (cs_admin c)\<lparr>ad_members := ms\<rparr>\<rparr>"
proof (cases "List.find (\<lambda>g. gr_isDefault g = 1) (ad_groups (cs_admin c))")
  case None
  with assms(2) have "c' = c" by (simp add: join_default_def)
  then show ?thesis by (intro exI [of _ "ad_members (cs_admin c)"]) simp
next
  case (Some g)
  obtain r ad where step: "on_groups (go_assignAccountToGroup ops now i (gr_id g)) (cs_admin c) = (r, ad)" by fastforce
  with assms(2) Some have "c' = c\<lparr>cs_admin := ad\<rparr>" by (simp add: join_default_def)
  with join_step(1) [OF assms(1) step] show ?thesis by blast
qed

lemma insert_profile_simps [simp]:
  "cs_mail (insert_profile p c) = cs_mail c" "cs_identities (insert_profile p c) = cs_identities c"
  "cs_tokens (insert_profile p c) = cs_tokens c" "cs_twoFactor (insert_profile p c) = cs_twoFactor c"
  "cs_exchange (insert_profile p c) = cs_exchange c" "ad_groups (cs_admin (insert_profile p c)) = ad_groups (cs_admin c)"
  "cs_risk (insert_profile p c) = cs_risk c" "cs_mfa (insert_profile p c) = cs_mfa c" "cs_nextToken (insert_profile p c) = cs_nextToken c"
  by (simp_all add: insert_profile_def)

lemma find_identity_accounts [simp]: "find_identity x (on_mail_tables f c) = find_identity x c"
  by (simp add: find_identity_def)

definition new_link :: "passport_env \<Rightarrow> string \<Rightarrow> provider_identity \<Rightarrow> time \<Rightarrow> account_identity" where
  "new_link env a x now = \<lparr>lk_id = pe_link env, lk_accountId = a, lk_provider = pi_provider x, lk_subject = pi_subject x,
     lk_createdAt = now\<rparr>"

lemma provision_run:
  assumes none: "find_identity x c = None" and new: "pe_account env \<notin> ac_id ` set (ms_accounts (cs_mail c))"
    "pe_link env \<notin> lk_id ` set (cs_identities c)"
  shows "provision env x now c =
    and_then (join_default (pe_ops env) now (pe_account env) (insert_profile
        ((new_profile (pe_account env) now)\<lparr>pr_firstName := pi_firstName x, pr_lastName := pi_lastName x\<rparr>)
        ((on_mail_tables (\<lambda>m. m\<lparr>ms_accounts := ms_accounts m @ [provided_account (pe_account env) (pi_email x) now]\<rparr>) c)
          \<lparr>cs_identities := cs_identities c @ [new_link env (pe_account env) x now]\<rparr>)))
      (\<lambda>_ c4. (Inr (provided_account (pe_account env) (pi_email x) now), c4))"
proof -
  define acc where "acc = provided_account (pe_account env) (pi_email x) now"
  define c1 where "c1 = on_mail_tables (\<lambda>m. m\<lparr>ms_accounts := ms_accounts m @ [acc]\<rparr>) c"
  have id: "ac_id acc = pe_account env" by (simp add: acc_def provided_account_def)
  have saved: "on_mail_tables (\<lambda>m. m\<lparr>ms_accounts := save_row ac_id acc (ms_accounts m)\<rparr>) c = c1"
    using new(1) save_row_new [of ac_id acc "ms_accounts (cs_mail c)"]
    by (simp add: c1_def on_mail_tables_def change_mail_def id)
  have "cs_identities c1 = cs_identities c" "find_identity x c1 = None" using none by (simp_all add: c1_def)
  moreover have "save_row lk_id (new_link env (pe_account env) x now) (cs_identities c) = cs_identities c @ [new_link env (pe_account env) x now]"
    using new(2) by (intro save_row_new) (simp add: new_link_def)
  ultimately have link: "link_identity (pe_link env) (pe_account env) x now c1
      = (Inr (), c1\<lparr>cs_identities := cs_identities c @ [new_link env (pe_account env) x now]\<rparr>)"
    by (simp add: link_identity_def new_link_def)
  show ?thesis unfolding provision_def Let_def acc_def [symmetric] c1_def [symmetric] saved id link and_then_simps ..
qed

text \<open>What an identity answered with an account leaves: the account it was linked to, the one of its address,
  linked now, or a new one; or a refusal, of which a failed insert keeps the rows written before it.\<close>

lemma find_or_create_cases:
  assumes fresh: "passport_fresh env c" and op: "findOrCreate env x now c = (res, c')"
  obtains (refused) e where "res = Inl e" "c' = c"
    | (known) l acc where "find_identity x c = Some l" "find_account (lk_accountId l) (ms_accounts (cs_mail c)) = Some acc" "res = Inr acc" "c' = c"
    | (linked) acc where "pi_email x \<noteq> []" "pi_emailVerified x" "find_identity x c = None"
        "find_account_by_email (pi_email x) (ms_accounts (cs_mail c)) = Some acc" "res = Inr acc"
        "c' = c\<lparr>cs_identities := cs_identities c @ [new_link env (ac_id acc) x now]\<rparr>"
    | (made) ms p where "pi_email x \<noteq> []" "pi_emailVerified x" "ps_passportAutoProvision (pe_settings env)" "find_identity x c = None"
        "find_account_by_email (pi_email x) (ms_accounts (cs_mail c)) = None"
        "res = Inr (provided_account (pe_account env) (pi_email x) now) \<or> (\<exists>e. res = Inl e)"
        "pr_accountId p = pe_account env"
        "c' = c\<lparr>cs_admin := (cs_admin c)\<lparr>ad_mail := (cs_mail c)\<lparr>ms_accounts := ms_accounts (cs_mail c) @
                [provided_account (pe_account env) (pi_email x) now]\<rparr>, ad_profiles := save_row pr_accountId p (ad_profiles (cs_admin c)),
              ad_members := ms\<rparr>, cs_identities := cs_identities c @ [new_link env (pe_account env) x now]\<rparr>"
    | (stopped) e where "res = Inl e" "find_identity x c \<noteq> None"
        "find_account_by_email (pi_email x) (ms_accounts (cs_mail c)) = None"
        "c' = on_mail_tables (\<lambda>m. m\<lparr>ms_accounts := ms_accounts m @ [provided_account (pe_account env) (pi_email x) now]\<rparr>) c"
proof -
  let ?acc = "provided_account (pe_account env) (pi_email x) now"
  have new: "save_row ac_id ?acc (ms_accounts (cs_mail c)) = ms_accounts (cs_mail c) @ [?acc]"
    using fresh by (intro save_row_new) (simp add: passport_fresh_def provided_account_def)
  have link: "save_row lk_id \<lparr>lk_id = pe_link env, lk_accountId = a, lk_provider = pi_provider x, lk_subject = pi_subject x,
      lk_createdAt = now\<rparr> (cs_identities c) = cs_identities c @ [new_link env a x now]" for a
    using fresh unfolding new_link_def by (intro save_row_new) (simp add: passport_fresh_def)
  show thesis
  proof (cases "\<exists>l acc. find_identity x c = Some l \<and> find_account (lk_accountId l) (ms_accounts (cs_mail c)) = Some acc")
    case True
    then obtain l acc where l: "find_identity x c = Some l" "find_account (lk_accountId l) (ms_accounts (cs_mail c)) = Some acc" by blast
    with op have "res = Inr acc" "c' = c" by (simp_all add: findOrCreate_def)
    with known l show thesis by blast
  next
    case False
    then have none: "(case find_identity x c of None \<Rightarrow> None | Some l \<Rightarrow> find_account (lk_accountId l) (ms_accounts (cs_mail c))) = None"
      by (auto split: option.splits)
    show thesis
    proof (cases "pi_email x = [] \<or> \<not> pi_emailVerified x")
      case True
      with op none have "c' = c \<and> (\<exists>e. res = Inl e)" by (auto simp: findOrCreate_def)
      with refused show thesis by blast
    next
      case shown: False
      show thesis
      proof (cases "find_account_by_email (pi_email x) (ms_accounts (cs_mail c))")
        case (Some acc)
        with op none shown have "and_then (link_identity (pe_link env) (ac_id acc) x now c) (\<lambda>_ c1. (Inr acc, c1)) = (res, c')"
          by (simp add: findOrCreate_def)
        with Some shown refused linked show thesis
          by (cases "find_identity x c") (auto simp: link_identity_def link)
      next
        case nobody: None
        show thesis
        proof (cases "ps_passportAutoProvision (pe_settings env)")
          case False
          with op none shown nobody have "c' = c \<and> (\<exists>e. res = Inl e)" by (auto simp: findOrCreate_def)
          with refused show thesis by blast
        next
          case auto: True
          have run: "provision env x now c = (res, c')" using op none shown nobody auto by (simp add: findOrCreate_def)
          show thesis
          proof (cases "find_identity x c")
            case (Some l)
            with run have "res = Inl (Crash ''ER_DUP_ENTRY'')"
              "c' = on_mail_tables (\<lambda>m. m\<lparr>ms_accounts := save_row ac_id ?acc (ms_accounts m)\<rparr>) c"
              by (auto simp: provision_def link_identity_def Let_def)
            moreover from this(2) new have "c' = on_mail_tables (\<lambda>m. m\<lparr>ms_accounts := ms_accounts m @ [?acc]\<rparr>) c"
              by (simp add: on_mail_tables_def change_mail_def)
            ultimately show thesis using stopped Some nobody by simp
          next
            case None
            let ?p = "(new_profile (pe_account env) now)\<lparr>pr_firstName := pi_firstName x, pr_lastName := pi_lastName x\<rparr>"
            let ?c3 = "insert_profile ?p ((on_mail_tables (\<lambda>m. m\<lparr>ms_accounts := ms_accounts m @ [?acc]\<rparr>) c)
                \<lparr>cs_identities := cs_identities c @ [new_link env (pe_account env) x now]\<rparr>)"
            obtain r c4 where join: "join_default (pe_ops env) now (pe_account env) ?c3 = (r, c4)" by fastforce
            have made_of: "provision env x now c = and_then (r, c4) (\<lambda>_ c4. (Inr ?acc, c4))"
              unfolding join [symmetric] using fresh by (intro provision_run None) (simp_all add: passport_fresh_def)
            from trans [OF made_of [symmetric] run] have "and_then (r, c4) (\<lambda>_ c4. (Inr ?acc, c4)) = (res, c')" .
            then have c4: "c' = c4" and res: "res = Inr ?acc \<or> (\<exists>e. res = Inl e)" by (cases r; auto)+
            obtain ms where ms: "c4 = ?c3\<lparr>cs_admin := (cs_admin ?c3)\<lparr>ad_members := ms\<rparr>\<rparr>"
              using join_default_parts [OF _ join] fresh by (auto simp: passport_fresh_def)
            have "c' = c\<lparr>cs_admin := (cs_admin c)\<lparr>ad_mail := (cs_mail c)\<lparr>ms_accounts := ms_accounts (cs_mail c) @ [?acc]\<rparr>,
                ad_profiles := save_row pr_accountId ?p (ad_profiles (cs_admin c)), ad_members := ms\<rparr>,
                cs_identities := cs_identities c @ [new_link env (pe_account env) x now]\<rparr>"
              unfolding c4 ms by (simp add: insert_profile_def on_mail_tables_def change_mail_def)
            from made [OF _ _ auto None nobody res _ this] shown show thesis by (simp add: new_profile_def)
          qed
        qed
      qed
    qed
  qed
qed

lemma fill_parts [simp]:
  "cs_mail (fillMissingProfile i x now c) = cs_mail c" "cs_identities (fillMissingProfile i x now c) = cs_identities c"
  "cs_tokens (fillMissingProfile i x now c) = cs_tokens c" "cs_twoFactor (fillMissingProfile i x now c) = cs_twoFactor c"
  "cs_exchange (fillMissingProfile i x now c) = cs_exchange c" "cs_risk (fillMissingProfile i x now c) = cs_risk c"
  "cs_mfa (fillMissingProfile i x now c) = cs_mfa c" "cs_nextToken (fillMissingProfile i x now c) = cs_nextToken c"
  by (simp_all add: fillMissingProfile_def Let_def)

lemma provider_mail:
  assumes fresh: "passport_fresh env c" and op: "provider_callback env rg p user ret now c = (res, c')"
  shows "\<exists>as. cs_mail c' = (cs_mail c)\<lparr>ms_accounts := as\<rparr> \<and> accounts_step (ms_accounts (cs_mail c)) as"
proof (cases "cs_mail c' = cs_mail c")
  case False
  then obtain x r where code: "codeForIdentity env x now c = (r, c')"
    using op by (auto simp: provider_callback_def Let_def split: if_splits option.splits prod.splits)
  obtain r1 c1 where found: "findOrCreate env x now c = (r1, c1)" by fastforce
  have mail: "cs_mail c' = cs_mail c1"
    using code found by (cases r1) (auto simp: codeForIdentity_def Let_def split: if_splits prod.splits)
  have added: "accounts_step (ms_accounts (cs_mail c)) (ms_accounts (cs_mail c) @ [provided_account (pe_account env) (pi_email x) now])"
    if "find_account_by_email (pi_email x) (ms_accounts (cs_mail c)) = None"
  proof -
    let ?acc = "provided_account (pe_account env) (pi_email x) now"
    have "ac_email ?acc \<notin> ac_email ` set (ms_accounts (cs_mail c))"
      using that by (auto simp: provided_account_def find_account_by_email_def find_None_iff)
    moreover have "ac_id ?acc \<notin> ac_id ` set (ms_accounts (cs_mail c))" "ac_isRoot ?acc \<noteq> 1"
      using fresh by (simp_all add: passport_fresh_def provided_account_def)
    ultimately show ?thesis using step_added [of ?acc "ms_accounts (cs_mail c)"] by (simp add: save_row_new)
  qed
  from fresh found show ?thesis
  proof (cases rule: find_or_create_cases)
    case (made ms q)
    then show ?thesis unfolding mail using added [OF made(5)] by (intro exI conjI) (auto simp: made(8))
  next
    case (stopped e)
    then show ?thesis unfolding mail using added [OF stopped(3)] by (intro exI conjI) auto
  qed (use False mail in auto)
next
  case True
  then show ?thesis by (intro exI [of _ "ms_accounts (cs_mail c)"]) simp
qed

lemma open_session_accounts:
  assumes "openSessionFor senv ctx draws acc ua ip now s = (r, t)"
  shows "ss_accounts t = ss_accounts s \<or> ss_accounts t = save_row ac_id (acc\<lparr>ac_lastLogin := Some now\<rparr>) (ss_accounts s)"
  using assms
  by (auto simp: openSessionFor_def finishSession_def issueTokens_def revokeDeviceSessions_def ss_note_def ss_saveAccount_def Let_def
      split: if_splits option.splits prod.splits)

lemma redeem_mail:
  assumes "redeem senv draws code ua ip now c = (res, c')"
  shows "\<exists>as. cs_mail c' = (cs_mail c)\<lparr>ms_accounts := as\<rparr> \<and> accounts_step (ms_accounts (cs_mail c)) as"
proof (cases "cs_mail c' = cs_mail c")
  case False
  obtain claimed s where claim: "passport_claim code now (cs_exchange c) = (claimed, s)" by fastforce
  let ?c1 = "c\<lparr>cs_exchange := s\<rparr>"
  from assms False claim obtain acc where acc: "find_account (the claimed) (ms_accounts (cs_mail c)) = Some acc"
    by (cases "find_account (the claimed) (ms_accounts (cs_mail c))") (auto simp: redeem_def Let_def split: if_splits)
  obtain r t where run: "openSessionFor senv None draws acc ua ip now (session_view ?c1) = (r, t)" by fastforce
  have c': "c' = with_sessions t ?c1" using assms False claim acc run by (auto simp: redeem_def Let_def split: if_splits)
  have "accounts_step (ms_accounts (cs_mail c)) (ss_accounts t)"
    using open_session_accounts [OF run] step_saved [of acc "ms_accounts (cs_mail c)" "acc\<lparr>ac_lastLogin := Some now\<rparr>"]
      found_account [OF acc] by auto
  with c' show ?thesis by auto
next
  case True
  then show ?thesis by (intro exI [of _ "ms_accounts (cs_mail c)"]) simp
qed

section \<open>Runs of all the services\<close>

text \<open>What the session service writes of the accounts: a password, an address, the last sign-in. A session is
  opened for an account read from the table.\<close>

definition session_op_ok :: "session_op \<Rightarrow> session_state \<Rightarrow> bool" where
  "session_op_ok op st = (case op of SOpen ctx draws a ua ip now \<Rightarrow> a \<in> set (ss_accounts st) | _ \<Rightarrow> True)"

lemma finish_accounts:
  assumes "finishSession env ctx draws a ua ip w now st = (i, t)"
  shows "ss_accounts t = save_row ac_id (a\<lparr>ac_lastLogin := Some now\<rparr>) (ss_accounts st)"
  using assms
  by (auto simp: finishSession_def issueTokens_def revokeDeviceSessions_def ss_note_def ss_saveAccount_def Let_def split: if_splits)

lemma step_seen:
  assumes "a \<in> set as"
  shows "accounts_step as (save_row ac_id (a\<lparr>ac_lastLogin := t\<rparr>) as)"
  using assms by (intro step_saved [of a]) auto

lemma enabled_in: "enabled_account i st = Some a \<Longrightarrow> a \<in> set (ss_accounts st) \<and> ac_id a = i"
  by (auto simp: enabled_account_def dest!: find_in_set)

lemma second_step_accounts:
  "accounts_step (ss_accounts st) (ss_accounts (snd (completeMfa env ctx draws challenge answer ua ip now st)))"
  "accounts_step (ss_accounts st) (ss_accounts (snd (completeTwoFactor env ctx draws challenge code ua ip now st)))"
  by (auto simp: completeMfa_def completeTwoFactor_def ss_note_def Let_def finish_accounts split: prod.splits sum.splits option.splits bool.splits
      intro!: step_seen dest!: enabled_in)

lemma profile_accounts: "accounts_step (ss_accounts st) (ss_accounts (snd (updateProfile env ctx i input now st)))"
proof (cases "find_account i (ss_accounts st)")
  case (Some a)
  then have a: "a \<in> set (ss_accounts st)" "ac_id a = i" by (auto simp: find_account_def dest: find_in_set)
  let ?e = "the (up_email input)"
  have "accounts_step (ss_accounts st) (save_row ac_id (a\<lparr>ac_email := ?e\<rparr>) (ss_accounts st))"
    if "\<forall>x \<in> set (ss_accounts st). ac_email x = ?e \<longrightarrow> ac_id x = i"
    using a that by (intro step_saved [of a]) auto
  then show ?thesis
    by (auto simp: updateProfile_def Some Let_def ss_note_def ss_saveAccount_def)
qed (simp add: updateProfile_def)

lemma password_accounts: "accounts_step (ss_accounts st) (ss_accounts (snd (changePassword env ctx i old new st)))"
proof (cases "find_account i (ss_accounts st)")
  case (Some a)
  then have a: "a \<in> set (ss_accounts st)" by (auto simp: find_account_def dest: find_in_set)
  then have "accounts_step (ss_accounts st) (save_row ac_id (a\<lparr>ac_password := p\<rparr>) (ss_accounts st))" for p
    by (intro step_saved [of a]) auto
  then show ?thesis by (auto simp: changePassword_def Some ss_note_def ss_saveAccount_def)
qed (simp add: changePassword_def)

lemma session_accounts:
  assumes "session_op_ok op st"
  shows "accounts_step (ss_accounts st) (ss_accounts (se_exec env op st))"
proof (cases op)
  case (SOpen ctx draws a ua ip now)
  obtain r t where run: "openSessionFor env ctx draws a ua ip now st = (r, t)" by fastforce
  from open_session_accounts [OF run] step_seen [of a] assms run SOpen show ?thesis by (auto simp: session_op_ok_def)
next
  case (SRevokeSession ctx a i now)
  then show ?thesis by (auto simp: revokeSession_def Let_def split: option.splits)
next
  case (SRefresh draws raw ua ip now)
  then show ?thesis by (auto simp: refresh_def Let_def split: option.splits)
qed (use second_step_accounts profile_accounts password_accounts in \<open>auto simp: revoke_def purgeAccountSessionHistory_def
    revokeAllActiveSessions_def sessionIsLive_def Let_def split: option.splits\<close>)

text \<open>
  The requests of the administration of accounts and of the sign-in by a provider, the runs of the mail
  administration, the invitations and the groups, and the operations of the session service, in any order.
\<close>

inductive console_run ::
  "(guard_user \<Rightarrow> mail_request \<Rightarrow> mail_state \<Rightarrow> bool) \<Rightarrow> (crud_request \<Rightarrow> bool) \<Rightarrow> console_state \<Rightarrow> time \<Rightarrow> console_state \<Rightarrow> time \<Rightarrow> bool"
  for allowed crud_ok s t where
  start: "console_run allowed crud_ok s t s t"
| office: "console_run allowed crud_ok s t c now \<Longrightarrow> office_run allowed (cs_admin c) now ad now' \<Longrightarrow>
    console_run allowed crud_ok s t (c\<lparr>cs_admin := ad\<rparr>) now'"
| crud: "console_run allowed crud_ok s t c now \<Longrightarrow> crud_ok r \<Longrightarrow> crud_serve env lib user now r c = (res, c') \<Longrightarrow>
    console_run allowed crud_ok s t c' now"
| provider: "console_run allowed crud_ok s t c now \<Longrightarrow> passport_fresh penv c \<Longrightarrow>
    provider_callback penv rg p x ret now c = (res, c') \<Longrightarrow> console_run allowed crud_ok s t c' now"
| redeemed: "console_run allowed crud_ok s t c now \<Longrightarrow> redeem senv draws code ua ip now c = (res, c') \<Longrightarrow>
    console_run allowed crud_ok s t c' now"
| session: "console_run allowed crud_ok s t c now \<Longrightarrow> session_op_ok op (session_view c) \<Longrightarrow>
    console_run allowed crud_ok s t (with_sessions (se_exec senv op (session_view c)) c) now"

lemma console_accounts:
  assumes "console_run allowed crud_ok s t c now" "accounts_distinct (ms_accounts (cs_mail s))"
  shows "accounts_step (ms_accounts (cs_mail s)) (ms_accounts (cs_mail c))"
  using assms(1)
proof (induction rule: console_run.induct)
  case (office c now ad now')
  from accounts_step_trans [OF office.IH office_accounts [OF office.hyps(2)]] show ?case by simp
next
  case (crud c now r env lib user res c')
  have "accounts_distinct (ms_accounts (cs_mail c))" using crud.IH assms(2) by (simp add: accounts_step_def)
  from accounts_step_trans [OF crud.IH crud_accounts [OF this crud.hyps(3)]] show ?case .
next
  case (provider c now penv rg p x ret res c')
  from provider_mail [OF provider.hyps(2,3)] accounts_step_trans [OF provider.IH] show ?case by auto
next
  case (redeemed c now senv draws code ua ip res c')
  from redeem_mail [OF redeemed.hyps(2)] accounts_step_trans [OF redeemed.IH] show ?case by auto
next
  case (session c now op senv)
  from accounts_step_trans [OF session.IH session_accounts [OF session.hyps(2), of senv, unfolded session_view_simps]] show ?case by simp
qed simp

lemma other_accounts:
  assumes "m' = m\<lparr>ms_accounts := as\<rparr>"
  shows "tables_sound m \<Longrightarrow> tables_sound m'" "covered now m \<Longrightarrow> covered now m'"
proof -
  show "tables_sound m \<Longrightarrow> tables_sound m'" using assms flags_sound(1) by simp
  have "committed now e m' = committed now e m" for e by (rule committed_cong) (simp_all add: assms)
  then show "covered now m \<Longrightarrow> covered now m'" by (simp add: covered_def assms)
qed

lemma console_sound: "console_run allowed crud_ok s t c now \<Longrightarrow> tables_sound (cs_mail s) \<Longrightarrow> tables_sound (cs_mail c)"
proof (induction rule: console_run.induct)
  case (office c now ad now')
  then show ?case using office_sound [of allowed "cs_admin c" now ad now'] by simp
next
  case (crud c now r env lib user res c')
  then show ?case using crud_sound by blast
next
  case (provider c now penv rg p x ret res c')
  from provider_mail [OF provider.hyps(2,3)] other_accounts(1) provider.IH [OF provider.prems] show ?case by blast
next
  case (redeemed c now senv draws code ua ip res c')
  from redeem_mail [OF redeemed.hyps(2)] other_accounts(1) redeemed.IH [OF redeemed.prems] show ?case by blast
next
  case (session c now op senv)
  from other_accounts(1) [of "cs_mail (with_sessions (se_exec senv op (session_view c)) c)" "ss_accounts (se_exec senv op (session_view c))" "cs_mail c"] session.IH [OF session.prems] show ?case by simp
qed

lemma console_covered:
  "console_run keeps_cover keeps_owners s t c now \<Longrightarrow> tables_sound (cs_mail s) \<Longrightarrow> covered t (cs_mail s) \<Longrightarrow> covered now (cs_mail c)"
proof (induction rule: console_run.induct)
  case (office c now ad now')
  then show ?case using office_covered [of "cs_admin c" now ad now'] console_sound [OF office.hyps(1)] by simp
next
  case (crud c now r env lib user res c')
  then show ?case using crud_covered by blast
next
  case (provider c now penv rg p x ret res c')
  from provider_mail [OF provider.hyps(2,3)] other_accounts(2) provider.IH [OF provider.prems] show ?case by blast
next
  case (redeemed c now senv draws code ua ip res c')
  from redeem_mail [OF redeemed.hyps(2)] other_accounts(2) redeemed.IH [OF redeemed.prems] show ?case by blast
next
  case (session c now op senv)
  from other_accounts(2) [of "cs_mail (with_sessions (se_exec senv op (session_view c)) c)" "ss_accounts (se_exec senv op (session_view c))" "cs_mail c" now] session.IH [OF session.prems]
  show ?case by simp
qed

end
