(* ===== verification/AccountSafety.thy ===== *)
theory AccountSafety imports AccountBooks InviteSafety begin

text \<open>
  What the administration of the accounts and the sign-in by a provider promise, alone and along runs of all the
  services: who is root never changes, a deleted account is out, an identity opens the account it proves; and the
  places where the code falls short.
\<close>

section \<open>Runs of all the services\<close>

text \<open>C3: Nobody becomes root and no root account is lost. Whatever the services do, in any order: mail, groups,
  invitations, the administration of the accounts, sign-ins by password or provider, refreshes, edits of one's own
  profile. Identifiers and addresses stay unique, the root accounts stay exactly the ones they were, and a root
  account that is enabled stays enabled.\<close>
theorem nobody_becomes_root:
  assumes "console_run allowed crud_ok s t c now" and "accounts_distinct (ms_accounts (cs_mail s))"
  shows "accounts_distinct (ms_accounts (cs_mail c))
    \<and> roots (ms_accounts (cs_mail c)) = roots (ms_accounts (cs_mail s))
    \<and> open_roots (ms_accounts (cs_mail s)) \<subseteq> open_roots (ms_accounts (cs_mail c))"
  using console_accounts [OF assms] assms(2) by (simp add: accounts_step_def)

text \<open>C6: All the services at work, invitations accepted and claimed and accounts deleted included (whose domains,
  mailboxes, delegations and offers the foreign keys rewrite), keep the mail tables well-formed and every domain
  covering what is committed on it, along every run with none of the moves that break the rule: no mailbox changes
  hands by a request (assigned or released by the domain's administration, attached to an account or detached from
  it), no domain is resized, and no delegate spends a grant while it owns less than it did when it was granted.\<close>
theorem console_stays_covered:
  assumes "console_run keeps_cover keeps_owners s t c now" and "tables_sound (cs_mail s)" and "covered t (cs_mail s)"
  shows "tables_sound (cs_mail c) \<and> covered now (cs_mail c)"
  using console_sound [OF assms(1,2)] console_covered [OF assms] by blast

section \<open>A deleted account\<close>

text \<open>No row of the session service names the account.\<close>

definition gone :: "string \<Rightarrow> session_state \<Rightarrow> bool" where
  "gone i st = ((\<forall>a \<in> set (ss_accounts st). ac_id a \<noteq> i) \<and> (\<forall>t \<in> set (ss_tokens st). rt_accountId t \<noteq> i))"

lemma gone_account: "gone i st \<Longrightarrow> a \<in> set (ss_accounts st) \<Longrightarrow> ac_id a \<noteq> i"
  by (auto simp: gone_def)

lemma gone_parts [simp]:
  "gone i (st\<lparr>ss_mfa := m\<rparr>) = gone i st" "gone i (st\<lparr>ss_twoFactor := t\<rparr>) = gone i st"
  "gone i (st\<lparr>ss_challenges := c\<rparr>) = gone i st" "gone i (st\<lparr>ss_profiles := p\<rparr>) = gone i st"
  "gone i (ss_note ctx x st) = gone i st"
  by (simp_all add: gone_def)

lemma gone_save_account: "gone i st \<Longrightarrow> ac_id a \<noteq> i \<Longrightarrow> gone i (ss_saveAccount a st)"
  by (auto simp: gone_def ss_saveAccount_def set_save_row)

lemma gone_save_token: "gone i st \<Longrightarrow> rt_accountId t \<noteq> i \<Longrightarrow> gone i (ss_saveToken t st)"
  by (auto simp: gone_def set_save_row)

lemma gone_rows:
  "gone i st \<Longrightarrow> (\<And>t. rt_accountId (f t) = rt_accountId t) \<Longrightarrow> gone i (st\<lparr>ss_tokens := update_where P f (ss_tokens st)\<rparr>)"
  "gone i st \<Longrightarrow> gone i (st\<lparr>ss_tokens := delete_where P (ss_tokens st)\<rparr>)"
  by (auto simp: gone_def update_where_def delete_where_def)

lemma gone_found: "gone i st \<Longrightarrow> List.find P (ss_tokens st) = Some t \<Longrightarrow> rt_accountId t \<noteq> i"
  by (auto simp: gone_def dest: find_in_set)

lemma gone_finish:
  assumes "gone i st" "ac_id a \<noteq> i" "finishSession env ctx draws a ua ip w now st = (r, st')"
  shows "gone i st'"
proof -
  have "\<forall>t \<in> set (ss_tokens (revokeDeviceSessions (ac_id a) ua ip now st)). rt_accountId t \<noteq> i"
    using assms(1) by (auto simp: gone_def revokeDeviceSessions_def update_where_def)
  then show ?thesis
    using finish_tokens [OF assms(3)] finish_accounts [OF assms(3)] assms(1,2) by (auto simp: gone_def set_save_row)
qed

lemma gone_exec:
  assumes g: "gone i st" and ok: "session_op_ok op st"
  shows "gone i (se_exec env op st)"
proof (cases op)
  case (SOpen ctx draws a ua ip now)
  then have "ac_id a \<noteq> i" using ok gone_account [OF g] by (simp add: session_op_ok_def)
  with g show ?thesis unfolding SOpen
    by (auto simp: openSessionFor_def Let_def split: prod.splits option.splits dest: gone_finish [rotated 2])
next
  case (SMfa ctx draws challenge answer ua ip now)
  have "gone i t" if "enabled_account k (st\<lparr>ss_mfa := m\<rparr>) = Some a"
    "finishSession env ctx draws a ua ip None now (st\<lparr>ss_mfa := m\<rparr>) = (r, t)" for k m a r t
    using enabled_in [OF that(1)] gone_account [OF g] g by (intro gone_finish [OF _ _ that(2)]) auto
  with g show ?thesis unfolding SMfa
    by (auto simp: completeMfa_def Let_def split: prod.splits sum.splits option.splits)
next
  case (STwoFactor ctx draws challenge code ua ip now)
  have "gone i u" if "enabled_account k (st\<lparr>ss_twoFactor := t, ss_challenges := c\<rparr>) = Some a"
    "finishSession env ctx draws a ua ip None now (st\<lparr>ss_twoFactor := t, ss_challenges := c\<rparr>) = (r, u)" for k t c a r u
    using enabled_in [OF that(1)] gone_account [OF g] g by (intro gone_finish [OF _ _ that(2)]) auto
  with g show ?thesis unfolding STwoFactor
    by (auto simp: completeTwoFactor_def Let_def split: prod.splits sum.splits bool.splits option.splits)
next
  case (SRefresh draws raw ua ip now)
  show ?thesis
  proof (cases "List.find (\<lambda>t. rt_tokenHash t = sv_sha256 env raw) (ss_tokens st)")
    case (Some t)
    note t = gone_found [OF g Some]
    show ?thesis unfolding SRefresh using g
      by (auto simp: refresh_def Some t t [symmetric] Let_def split: option.splits intro!: gone_save_token)
  qed (simp add: SRefresh refresh_def g)
next
  case (SRevoke ctx raw now)
  show ?thesis
  proof (cases "List.find (\<lambda>t. rt_tokenHash t = sv_sha256 env raw) (ss_tokens st)")
    case (Some t)
    note t = gone_found [OF g Some]
    show ?thesis unfolding SRevoke using g by (auto simp: revoke_def Some t t [symmetric] intro!: gone_save_token)
  qed (simp add: SRevoke revoke_def g)
next
  case (SRevokeSession ctx a k now)
  show ?thesis
  proof (cases "List.find (\<lambda>t. rt_id t = k \<and> rt_accountId t = a) (ss_tokens st)")
    case (Some t)
    note t = gone_found [OF g Some]
    show ?thesis unfolding SRevokeSession using g by (auto simp: revokeSession_def Some t t [symmetric] Let_def intro!: gone_save_token)
  qed (simp add: SRevokeSession revokeSession_def g)
next
  case (SPassword ctx a old new)
  have "ac_id x \<noteq> i" if "find_account a (ss_accounts st) = Some x" for x
    using gone_account [OF g] found_account [OF that] by blast
  then show ?thesis unfolding SPassword using g
    by (auto simp: changePassword_def split: option.splits intro!: gone_save_account)
next
  case (SProfile ctx a input now)
  have "ac_id x \<noteq> i" if "find_account a (ss_accounts st) = Some x" for x
    using gone_account [OF g] found_account [OF that] by blast
  then show ?thesis unfolding SProfile using g
    by (auto simp: updateProfile_def Let_def split: option.splits intro!: gone_save_account)
qed (use g in \<open>auto simp: purgeAccountSessionHistory_def revokeAllActiveSessions_def sessionIsLive_def Let_def
    split: option.splits intro!: gone_rows\<close>)

text \<open>Operations one after the other, each session opened for an account the table has at that moment.\<close>

fun session_ops_ok :: "session_env \<Rightarrow> session_op list \<Rightarrow> session_state \<Rightarrow> bool" where
  "session_ops_ok env [] st = True"
| "session_ops_ok env (op # ops) st = (session_op_ok op st \<and> session_ops_ok env ops (se_exec env op st))"

lemma gone_run: "gone i st \<Longrightarrow> session_ops_ok env ops st \<Longrightarrow> gone i (fold (se_exec env) ops st)"
  by (induction ops arbitrary: st) (simp_all add: gone_exec)

text \<open>What the guard may answer.\<close>

definition bearer_honest :: "session_env \<Rightarrow> time \<Rightarrow> session_state \<Rightarrow> bool" where
  "bearer_honest env now st = (\<forall>token p. sv_verify env token now = Some p \<longrightarrow>
     (\<exists>sid. jp_sid p = Some sid \<and> (\<forall>t \<in> set (ss_tokens st). rt_id t = sid \<longrightarrow> rt_accountId t = jp_sub p)))"

lemma gone_live:
  assumes "gone i st" "bearer_honest env now st" "sv_verify env token now = Some p" "sessionIsLive p now st = (True, st')"
  shows "jp_sub p \<noteq> i"
  using assms unfolding bearer_honest_def gone_def sessionIsLive_def
  by (fastforce split: option.splits if_splits dest: find_in_set)

lemma key_account:
  assumes "tk_validate cr key ip now st = (r, st1)"
  shows "tks_accounts st1 = tks_accounts st \<and> (\<forall>u s. r = Inr (Some (u, s)) \<longrightarrow> (\<exists>a \<in> set (tks_accounts st). ru_id u = ac_id a))"
proof -
  have saved: "tks_accounts st2 = tks_accounts st \<and> (x = Inr y \<or> (\<exists>e. x = Inl e))"
    if "and_then (tk_save t st) (\<lambda>_ st. (Inr y, st)) = (x, st2)" for t st2
      and x :: "err + (request_user \<times> token_scopes option) option" and y
    using that by (auto simp: tk_save_def split: if_splits)
  show ?thesis
    using assms
    by (auto simp: tk_validate_def Let_def split: option.splits sum.splits if_split_asm prod.splits
        dest!: saved found_account; metis)
qed

lemma gone_strategies:
  assumes "gone i (as_sessions st)" "bearer_honest env now (as_sessions st)"
    "\<forall>a \<in> set (tks_accounts (as_tokens st)). ac_id a \<noteq> i" "try_strategies env req now strategies st = (Inr u, st')"
  shows "us_id u \<noteq> i"
  using assms
proof (induction strategies arbitrary: st)
  case (Cons s strategies)
  show ?case
  proof (cases s)
    case AuthApiToken
    obtain r st1 where r: "try_api_key env req now st = (r, st1)" by fastforce
    have st1: "as_sessions st1 = as_sessions st" "tks_accounts (as_tokens st1) = tks_accounts (as_tokens st)"
      and key: "\<And>v. r = Inr (Some v) \<Longrightarrow> us_id v \<noteq> i"
      using r Cons.prems(3) by (auto simp: try_api_key_def Let_def split: if_splits prod.splits sum.splits option.splits
          dest!: key_account; blast)+
    show ?thesis
    proof (cases r)
      case (Inr v)
      with r AuthApiToken Cons.IH [of st1] Cons.prems st1 key show ?thesis by (cases v) auto
    qed (use r AuthApiToken Cons.prems in simp)
  next
    case AuthJwt
    obtain r st1 where r: "try_jwt env req now st = (r, st1)" by fastforce
    show ?thesis
    proof (cases r)
      case None
      have "gone i (as_sessions st1)" "bearer_honest env now (as_sessions st1)" "as_tokens st1 = as_tokens st"
        using r Cons.prems(1,2) by (auto simp: try_jwt_def sessionIsLive_def None Let_def split: if_splits option.splits prod.splits)
      with None r AuthJwt Cons.IH [of st1] Cons.prems show ?thesis by simp
    next
      case (Some v)
      have "us_id v \<noteq> i"
        using r Some
        by (auto simp: try_jwt_def Let_def split: if_splits option.splits prod.splits dest: gone_live [OF Cons.prems(1,2)])
      with Some r AuthJwt Cons.prems show ?thesis by simp
    qed
  qed
qed simp

lemma served_delete:
  assumes "crud_serve env lib user now (DeleteAccount i) c = (Inr (), c')"
  obtains acc x where "find_account i (ms_accounts (cs_mail c)) = Some acc" "ac_isRoot acc \<noteq> 1"
    "c' = crud_note (map_option gu_id user) x (delete_account i c)"
    "global_guard lib (Some [(''accounts'', [''access'', ''revoke-account''])]) user = Inr True"
    "\<not> isProtected PAccount \<lparr>ri_text = i, ri_number = None\<rparr> (cs_mail c)"
  using assms
proof (cases rule: crud_serve_run)
  case handled
  then have run: "deleteAccount (map_option gu_id user) i c = (Inr (), c')" by simp
  then show thesis
  proof (cases rule: delete_cases)
    case (deleted acc x)
    with that [of acc x] handled(2,3) show thesis by simp
  qed simp
qed simp

lemma deleted_rows [simp]:
  "cs_tokens (delete_account i c) = delete_where (\<lambda>t. rt_accountId t = i) (cs_tokens c)"
  "cs_keys (delete_account i c) = delete_where (\<lambda>t. tk_accountId t = i) (cs_keys c)"
  "cs_identities (delete_account i c) = delete_where (\<lambda>l. lk_accountId l = i) (cs_identities c)"
  "ad_members (cs_admin (delete_account i c)) = delete_where (\<lambda>m. gm_accountId m = i) (ad_members (cs_admin c))"
  "tf_rows (cs_twoFactor (delete_account i c)) = delete_where (\<lambda>r. at_accountId r = i) (tf_rows (cs_twoFactor c))"
  by (simp_all add: delete_account_def admin_cascade_def)

lemma cascade_rows [simp]:
  "ms_accounts (account_cascade i m) = delete_where (\<lambda>a. ac_id a = i) (ms_accounts m)"
  "ms_users (account_cascade i m) = map (\<lambda>r. r\<lparr>vu_ownerId := unless_account i (vu_ownerId r)\<rparr>) (ms_users m)"
  "ms_domains (account_cascade i m) = map (\<lambda>d. d\<lparr>vd_ownerId := unless_account i (vd_ownerId d)\<rparr>) (ms_domains m)"
  "ms_aliases (account_cascade i m) = ms_aliases m"
  "ms_delegations (account_cascade i m) = map (\<lambda>r. r\<lparr>dd_createdBy := unless_account i (dd_createdBy r)\<rparr>)
       (delete_where (\<lambda>r. dd_accountId r = i) (ms_delegations m))"
  by (simp_all add: account_cascade_def)

lemma gone_deleted: "gone i (session_view (crud_note ctx x (delete_account i c)))"
  by (simp add: gone_def delete_where_def)

lemma redeem_gone:
  assumes "\<forall>a \<in> set (ms_accounts (cs_mail c)). ac_id a \<noteq> i" "cs_exchange c code = Some e" "pc_accountId e = i"
  shows "\<exists>err c1. redeem senv draws code ua ip now c = (Inl err, c1)"
proof -
  have "find_account i (ms_accounts (cs_mail c)) = None" using assms(1) by (auto simp: find_account_def find_None_iff)
  with assms(2,3) show ?thesis by (auto simp: redeem_def passport_claim_def truthy_def Let_def)
qed

text \<open>C4: A deleted account is out, at once and for good. Only an account that exists, is not root and is not protected
  is deleted, by someone who may. Its sessions, keys, linked identities, memberships and delegations are gone; no
  one-time code minted for it is redeemed; and whatever the session service does next - pending second factors,
  refreshes and sign-ins included - it has no session, and no request is answered as that account, by bearer token or
  by key, as long as the access tokens that verify are ones whose session row is their account's.\<close>
theorem deleted_account_is_out:
  assumes "crud_serve env lib user now (DeleteAccount i) c = (Inr (), c')"
    and "session_ops_ok senv ops (session_view c')" and "st = fold (se_exec senv) ops (session_view c')"
    and "bearer_honest senv later st"
  shows "(\<exists>acc. find_account i (ms_accounts (cs_mail c)) = Some acc \<and> ac_isRoot acc \<noteq> 1)
    \<and> global_guard lib (Some [(''accounts'', [''access'', ''revoke-account''])]) user = Inr True
    \<and> \<not> isProtected PAccount \<lparr>ri_text = i, ri_number = None\<rparr> (cs_mail c)
    \<and> find_account i (ms_accounts (cs_mail c')) = None
    \<and> (\<forall>k \<in> set (cs_keys c'). tk_accountId k \<noteq> i) \<and> (\<forall>l \<in> set (cs_identities c'). lk_accountId l \<noteq> i)
    \<and> (\<forall>m \<in> set (ad_members (cs_admin c')). gm_accountId m \<noteq> i)
    \<and> (\<forall>r \<in> set (ms_delegations (cs_mail c')). dd_accountId r \<noteq> i)
    \<and> (\<forall>code e draws ua ip. cs_exchange c' code = Some e \<longrightarrow> pc_accountId e = i
         \<longrightarrow> (\<exists>err c1. redeem senv draws code ua ip later c' = (Inl err, c1)))
    \<and> (\<forall>t \<in> set (ss_tokens st). rt_accountId t \<noteq> i)
    \<and> (\<forall>req u st'. auth_guard senv req later \<lparr>as_sessions = st, as_tokens = as_tokens (guard_view c')\<rparr> = (Inr (Some u), st')
         \<longrightarrow> us_id u \<noteq> i)"
proof -
  from assms(1) obtain acc x where del: "find_account i (ms_accounts (cs_mail c)) = Some acc" "ac_isRoot acc \<noteq> 1"
    "c' = crud_note (map_option gu_id user) x (delete_account i c)"
    "global_guard lib (Some [(''accounts'', [''access'', ''revoke-account''])]) user = Inr True"
    "\<not> isProtected PAccount \<lparr>ri_text = i, ri_number = None\<rparr> (cs_mail c)" by (rule served_delete)
  have out: "gone i st" unfolding assms(3) using gone_deleted assms(2) unfolding del(3) by (rule gone_run)
  have accounts: "\<forall>a \<in> set (ms_accounts (cs_mail c')). ac_id a \<noteq> i" by (simp add: del(3) delete_where_def)
  then have none: "find_account i (ms_accounts (cs_mail c')) = None" by (auto simp: find_account_def find_None_iff)
  have guard: "us_id u \<noteq> i"
    if "auth_guard senv req later \<lparr>as_sessions = st, as_tokens = as_tokens (guard_view c')\<rparr> = (Inr (Some u), st')" for req u st'
  proof -
    let ?s = "\<lparr>as_sessions = st, as_tokens = as_tokens (guard_view c')\<rparr>"
    let ?ss = "case rq_strategies req of None \<Rightarrow> [AuthApiToken, AuthJwt] | Some ss \<Rightarrow> ss"
    obtain r st1 where run: "try_strategies senv req later ?ss ?s = (r, st1)" by fastforce
    with that have "r = Inr u" by (cases r) (auto simp: auth_guard_def Let_def split: if_splits)
    with run have "try_strategies senv req later ?ss ?s = (Inr u, st1)" by simp
    from gone_strategies [OF _ _ _ this] out assms(4) accounts show ?thesis by (simp add: guard_view_def)
  qed
  have "\<exists>err c1. redeem senv draws code ua ip later c' = (Inl err, c1)"
    if "cs_exchange c' code = Some e" "pc_accountId e = i" for code e draws ua ip
    using redeem_gone [OF accounts that] .
  with del none out guard show ?thesis by (simp add: gone_def delete_where_def)
qed

text \<open>C29: The aliases of a deleted account are stranded. Its domains and mailboxes become nobody's, as the foreign
  keys say; the owner of an alias has none, so each of its aliases still names it. The alias then appears under no
  account, is never offered to another one as unassigned, and the account page it would appear on answers 404.\<close>
theorem deleted_account_keeps_its_aliases:
  assumes "crud_serve env lib user now (DeleteAccount i) c = (Inr (), c')"
    and "a \<in> set (ms_aliases (cs_mail c))" and "va_ownerId a = Some i"
  shows "a \<in> set (ms_aliases (cs_mail c'))
    \<and> ownedAliases i (cs_mail c') = Inl (HttpException NOT_FOUND ''Account not found'')
    \<and> (\<forall>j rows p. ownedAliases j (cs_mail c') = Inr rows \<longrightarrow> (a, p) \<notin> set rows)
    \<and> (\<forall>domainId search. a \<notin> set (snd (assignableAliases domainId search (cs_mail c'))))
    \<and> (\<forall>r \<in> set (ms_users (cs_mail c')). vu_ownerId r \<noteq> Some i) \<and> (\<forall>d \<in> set (ms_domains (cs_mail c')). vd_ownerId d \<noteq> Some i)"
proof -
  from assms(1) obtain acc x where c': "c' = crud_note (map_option gu_id user) x (delete_account i c)" by (rule served_delete)
  have none: "find_account i (ms_accounts (cs_mail c')) = None"
    by (auto simp: c' find_account_def find_None_iff delete_where_def)
  have other: "(a, p) \<notin> set rows" if "ownedAliases j (cs_mail c') = Inr rows" for j rows p
    using that none assms(3) by (cases "j = i") (auto simp: ownedAliases_def assertAccount_def Let_def split: if_splits)
  have offered: "a \<notin> set (snd (assignableAliases domainId search (cs_mail c')))" for domainId search
    using assms(3) by (auto simp: assignableAliases_def alias_assignable_def Let_def split: option.splits dest!: in_set_takeD)
  show ?thesis
    using assms(2) none other offered by (auto simp: c' ownedAliases_def assertAccount_def)
qed

section \<open>An account that is disabled\<close>

text \<open>An edit that succeeds.\<close>

lemma served_edit:
  assumes "crud_serve env lib user now (EditAccount i b) c = (Inr (), c')"
  obtains acc acc' where "find_account i (ms_accounts (cs_mail c)) = Some acc"
    "edited_account i b (ms_accounts (cs_mail c)) acc = Inr acc'" "find_account i (ms_accounts (cs_mail c')) = Some acc'"
    "ms_accounts (cs_mail c') = save_row ac_id acc' (ms_accounts (cs_mail c))" "cs_tokens c' = cs_tokens c"
    "cs_exchange c' = cs_exchange c" "cs_identities c' = cs_identities c" "cs_twoFactor c' = cs_twoFactor c" "cs_risk c' = cs_risk c"
  using assms
proof (cases rule: crud_serve_run)
  case handled
  then have "silent (updateAccount env (map_option gu_id user) i b now c) = (Inr (), c')" by simp
  from silent_ok [OF this] obtain v where "updateAccount env (map_option gu_id user) i b now c = (Inr v, c')" by blast
  then show thesis
  proof (cases rule: update_cases)
    case (edited acc acc')
    have "ac_id acc' = i"
      using edited_account_row(1) [OF edited(2) conjunct2 [OF found_account [OF edited(1)]]] .
    then have "find_account i (ms_accounts (cs_mail c')) = Some acc'"
      using find_save_same [of ac_id acc' "ms_accounts (cs_mail c)"] by (simp add: edited(4) find_account_def)
    with that [OF edited(1,2) _ edited(4)] edited(6,7,9-11) show thesis by blast
  qed simp
qed simp

lemma live_bearer:
  assumes "t \<in> set (ss_tokens st)" "distinct (map rt_id (ss_tokens st))" "rt_live now t"
    "\<not> rq_public req" "rq_strategies req = None" "\<not> truthy (rq_apiKey req)" "rq_authorization req = Some (''Bearer '' @ token)"
    "sv_verify env token now = Some p" "jp_sub p \<noteq> []" "jp_sid p = Some (rt_id t)" "as_sessions s = st"
  shows "\<exists>s'. auth_guard env req now s = (Inr (Some \<lparr>us_id = jp_sub p, us_email = jp_email p, us_isRoot = jp_isRoot p\<rparr>), s')"
proof -
  have "List.find (\<lambda>x. rt_id x = rt_id t) (ss_tokens st) = Some t" using assms(1,2) by (intro find_by_key)
  then have "fst (sessionIsLive p now (as_sessions s))"
    using assms(3,10,11) by (simp add: sessionIsLive_iff session_usable_def session_row_def)
  then have "\<exists>s'. try_jwt env req now s = (Some \<lparr>us_id = jp_sub p, us_email = jp_email p, us_isRoot = jp_isRoot p\<rparr>, s')"
    using assms(7-9) by (auto simp: try_jwt_def Let_def split: prod.splits)
  with assms(4-6) show ?thesis by (auto simp: auth_guard_def try_api_key_def Let_def)
qed

text \<open>C28: Disabling an account does not end its sessions. An edit that disables an account leaves every session it had
  open: requests with the access token are still answered as that account and refreshing still hands out new tokens.
  The sign-in by a provider does look at the flag: a proven identity linked to the account is sent back with no code,
  and a code minted before the edit is refused.\<close>
theorem disabled_account_keeps_its_sessions:
  assumes "crud_serve env lib user now (EditAccount i b) c = (Inr (), c')" and "ua_enabled b = Some False"
    and "tokens_ok (session_view c)" and "t \<in> set (cs_tokens c)" and "rt_accountId t = i" and "rt_live later t"
    and "rt_tokenHash t = sv_sha256 senv raw"
    and "\<not> rq_public req" and "rq_strategies req = None" and "\<not> truthy (rq_apiKey req)"
    and "rq_authorization req = Some (''Bearer '' @ token)" and "sv_verify senv token later = Some p"
    and "jp_sub p = i" and "i \<noteq> []" and "jp_sid p = Some (rt_id t)"
  shows "(\<exists>acc. find_account i (ms_accounts (cs_mail c')) = Some acc \<and> ac_enabled acc = 0)
    \<and> (\<exists>s. auth_guard senv req later (guard_view c') = (Inr (Some \<lparr>us_id = i, us_email = jp_email p, us_isRoot = jp_isRoot p\<rparr>), s))
    \<and> (\<exists>r s. refresh senv draws raw ua ip later (session_view c') = (Inr r, s))
    \<and> (\<forall>penv rg q x l ret br c2. find_identity x c' = Some l \<longrightarrow> lk_accountId l = i
         \<longrightarrow> provider_callback penv rg q (Some x) ret later c' = (Inr br, c2) \<longrightarrow> br_code br = None)
    \<and> (\<forall>code e. cs_exchange c' code = Some e \<longrightarrow> pc_accountId e = i \<longrightarrow> (\<exists>err s. redeem senv draws code ua ip later c' = (Inl err, s)))"
proof -
  from assms(1) obtain acc acc' where e: "find_account i (ms_accounts (cs_mail c)) = Some acc"
    "edited_account i b (ms_accounts (cs_mail c)) acc = Inr acc'" "find_account i (ms_accounts (cs_mail c')) = Some acc'"
    "cs_tokens c' = cs_tokens c" by (rule served_edit)
  have off: "ac_enabled acc' = 0"
    using edited_account_row(6) [OF e(2) conjunct2 [OF found_account [OF e(1)]]] assms(2) by simp
  have unique: "distinct (map rt_id (cs_tokens c))" "distinct (map rt_tokenHash (cs_tokens c))"
    using assms(3) by (simp_all add: tokens_ok_def)
  have "List.find (\<lambda>x. rt_tokenHash x = rt_tokenHash t) (cs_tokens c) = Some t" using assms(4) unique(2) by (intro find_by_key)
  with assms(5-7) e(3,4) have refreshed: "\<exists>r s. refresh senv draws raw ua ip later (session_view c') = (Inr r, s)"
    by (simp add: refresh_def rt_live_def Let_def)
  have guard: "\<exists>s. auth_guard senv req later (guard_view c') = (Inr (Some \<lparr>us_id = i, us_email = jp_email p, us_isRoot = jp_isRoot p\<rparr>), s)"
    using live_bearer [of t "session_view c'" later req token senv p "guard_view c'"] assms unique(1) e(4) by (simp add: guard_view_def)
  have "\<exists>err s. redeem senv draws code ua ip later c' = (Inl err, s)"
    if "cs_exchange c' code = Some x" "pc_accountId x = i" for code x
    using that e(3) off by (auto simp: redeem_def passport_claim_def truthy_def Let_def)
  moreover have "br_code br = None"
    if "find_identity x c' = Some l" "lk_accountId l = i" "provider_callback penv rg q (Some x) ret later c' = (Inr br, c2)"
    for penv rg q x l ret br c2
    using that e(3) off by (auto simp: provider_callback_def codeForIdentity_def findOrCreate_def split: if_splits)
  ultimately show ?thesis using e(3) off guard refreshed by blast
qed

section \<open>A question that is reset\<close>

lemma revoked_rows:
  "rt_accountId t = i \<and> rt_live now t \<Longrightarrow> \<not> rt_live now (t\<lparr>rt_revokedAt := Some now\<rparr>)"
  by (simp add: rt_live_def)

text \<open>Resetting the security question of an account ends the account's sessions, every one of them, and no other
  account's; the question is gone, so the next sign-in asks for a new one, and no row of the session table is added
  or lost.\<close>
theorem question_reset_ends_sessions:
  assumes "crud_serve env lib user now (ResetQuestion i) c = (Inr (), c')"
  shows "(\<forall>t \<in> set (cs_tokens c'). rt_accountId t = i \<longrightarrow> \<not> rt_live now t)
    \<and> (\<forall>t \<in> set (cs_tokens c). rt_accountId t \<noteq> i \<longrightarrow> t \<in> set (cs_tokens c'))
    \<and> map rt_id (cs_tokens c') = map rt_id (cs_tokens c)
    \<and> \<not> hasQuestion i (cs_mfa c') \<and> ms_accounts (cs_mail c') = ms_accounts (cs_mail c)"
  using assms
proof (cases rule: crud_serve_run)
  case handled
  let ?ctx = "map_option gu_id user"
  from handled(1) have "silent (resetSecurityQuestion ?ctx i now c) = (Inr (), c')" by simp
  from silent_ok [OF this] obtain v where run: "resetSecurityQuestion ?ctx i now c = (Inr v, c')" by blast
  then obtain r m where reset: "resetQuestion ?ctx i (cs_mfa c) = (Inr r, m)"
    by (auto simp: resetSecurityQuestion_def split: if_splits prod.splits sum.splits)
  let ?live = "\<lambda>t. rt_accountId t = i \<and> rt_live now t"
  have c': "cs_tokens c' = update_where ?live (\<lambda>t. t\<lparr>rt_revokedAt := Some now\<rparr>) (cs_tokens c)" "cs_mfa c' = m"
    "ms_accounts (cs_mail c') = ms_accounts (cs_mail c)"
    using run reset by (auto simp: resetSecurityQuestion_def revokeAllActiveSessions_def session_view_def Let_def split: if_splits)
  have "\<not> hasQuestion i m"
  proof (cases "mf_rowOf i (cs_mfa c)")
    case None
    with reset show ?thesis by (auto simp: resetQuestion_def hasQuestion_def)
  next
    case (Some row)
    show ?thesis
    proof (cases "truthy (am_answerHash row)")
      case True
      with reset Some obtain u m1 where save: "mf_save (row\<lparr>am_question := None, am_answerHash := None\<rparr>) (cs_mfa c) = (Inr u, m1)"
        and m: "m = mf_note ?ctx (about_account ''auth.security-question.reset'' i) m1"
        by (auto simp: resetQuestion_def and_then_Inr)
      have "mf_rowOf i m1 = Some (row\<lparr>am_question := None, am_answerHash := None\<rparr>)"
        using mf_row_after_save [OF save] mf_rowOf_key [OF Some] by simp
      then show ?thesis by (auto simp: m hasQuestion_def mf_rowOf_def mf_note_def truthy_def split: if_splits)
    next
      case False
      with reset Some show ?thesis by (auto simp: resetQuestion_def hasQuestion_def)
    qed
  qed
  moreover define f where "f = (\<lambda>t. if rt_accountId t = i \<and> rt_live now t then t\<lparr>rt_revokedAt := Some now\<rparr> else t)"
  then have rows: "cs_tokens c' = map f (cs_tokens c)" by (simp only: c'(1) update_where_def)
  have f: "\<not> (rt_accountId (f t) = i \<and> rt_live now (f t))" "rt_accountId t \<noteq> i \<Longrightarrow> f t = t" "rt_id (f t) = rt_id t" for t
    using revoked_rows [of t i now] by (simp_all add: f_def)
  have "\<forall>t \<in> set (cs_tokens c'). rt_accountId t = i \<longrightarrow> \<not> rt_live now t"
    using f(1) unfolding rows set_map ball_simps by blast
  moreover have "\<forall>t \<in> set (cs_tokens c). rt_accountId t \<noteq> i \<longrightarrow> t \<in> set (cs_tokens c')"
    using f(2) unfolding rows set_map image_iff by metis
  moreover have "map rt_id (cs_tokens c') = map rt_id (cs_tokens c)"
    unfolding rows map_map comp_def f(3) ..
  ultimately show ?thesis using c'(2,3) by simp
qed simp

section \<open>The identity a provider proves\<close>

lemma redeemed_once:
  assumes "cs_exchange c code = Some e" "later \<le> pc_expiresAt e" "find_account (pc_accountId e) (ms_accounts (cs_mail c)) = Some acc"
    "ac_enabled acc = 1" "pc_accountId e \<noteq> []"
  shows "\<exists>c1. redeem senv draws code ua ip later c
      = (Inr (fst (openSessionFor senv None draws acc ua ip later (session_view (c\<lparr>cs_exchange := (cs_exchange c)(code := None)\<rparr>)))), c1)
    \<and> redeem senv draws' code ua' ip' later' c1
      = (Inl (HttpException UNAUTHORIZED ''This sign-in link has expired, please start again''), c1)"
proof -
  let ?c = "c\<lparr>cs_exchange := (cs_exchange c)(code := None)\<rparr>"
  obtain r t where opened: "openSessionFor senv None draws acc ua ip later (session_view ?c) = (r, t)" by fastforce
  have first: "redeem senv draws code ua ip later c = (Inr r, with_sessions t ?c)"
    using assms opened by (simp add: redeem_def passport_claim_def truthy_def Let_def)
  have "cs_exchange (with_sessions t ?c) code = None" by simp
  moreover from this have "(with_sessions t ?c)\<lparr>cs_exchange := (cs_exchange (with_sessions t ?c))(code := None)\<rparr> = with_sessions t ?c"
    by (simp add: with_sessions_def)
  ultimately have "redeem senv draws' code ua' ip' later' (with_sessions t ?c)
      = (Inl (HttpException UNAUTHORIZED ''This sign-in link has expired, please start again''), with_sessions t ?c)"
    by (simp add: redeem_def passport_claim_def truthy_def Let_def)
  with first opened show ?thesis by (intro exI [of _ "with_sessions t ?c"]) simp
qed

lemma identified:
  assumes fresh: "passport_fresh env c" and d: "accounts_distinct (ms_accounts (cs_mail c))"
    and op: "findOrCreate env x now c = (Inr acc, c1)"
  shows "find_account (ac_id acc) (ms_accounts (cs_mail c1)) = Some acc"
    "ac_id acc \<in> ac_id ` set (ms_accounts (cs_mail c)) \<or> ac_id acc = pe_account env"
    "\<exists>l. find_identity x c1 = Some l \<and> lk_accountId l = ac_id acc
    \<and> (ms_accounts (cs_mail c1) = ms_accounts (cs_mail c)
        \<and> (find_identity x c = Some l \<or> find_identity x c = None \<and> pi_emailVerified x \<and> pi_email x \<noteq> [] \<and> ac_email acc = pi_email x)
      \<or> ps_passportAutoProvision (pe_settings env) \<and> pi_emailVerified x \<and> ac_email acc = pi_email x \<and> ac_isRoot acc = 0
        \<and> ms_accounts (cs_mail c1) = ms_accounts (cs_mail c) @ [acc])"
proof -
  have ids: "distinct (map ac_id (ms_accounts (cs_mail c)))" using d by (simp add: accounts_distinct_def)
  have linked: "find_identity x (c2\<lparr>cs_identities := cs_identities c @ [new_link env a x now]\<rparr>) = Some (new_link env a x now)"
    if "find_identity x c = None" for c2 a
    using that by (simp add: find_identity_def find_append new_link_def)
  show "find_account (ac_id acc) (ms_accounts (cs_mail c1)) = Some acc"
    using fresh op
  proof (cases rule: find_or_create_cases)
    case (known l a)
    then show ?thesis using found_account [OF known(2)] by simp
  next
    case (linked a)
    have "a \<in> set (ms_accounts (cs_mail c))" using linked(4) by (auto simp: find_account_by_email_def dest: find_in_set)
    with linked(5,6) ids show ?thesis by (auto simp: find_account_def intro!: find_by_key)
  next
    case (made ms q)
    from made(6) have acc: "acc = provided_account (pe_account env) (pi_email x) now" by simp
    have "List.find (\<lambda>a. ac_id a = pe_account env) (ms_accounts (cs_mail c)) = None"
      using fresh unfolding passport_fresh_def find_None_iff by (metis imageI)
    then show ?thesis by (simp add: made(8) acc find_account_def find_append provided_account_def)
  qed simp_all
  show "ac_id acc \<in> ac_id ` set (ms_accounts (cs_mail c)) \<or> ac_id acc = pe_account env"
    using fresh op
  proof (cases rule: find_or_create_cases)
    case (known l a)
    with found_account [OF known(2)] show ?thesis by (intro disjI1) blast
  next
    case (linked a)
    then show ?thesis by (auto simp: find_account_by_email_def dest: find_in_set)
  qed (auto simp: provided_account_def)
  show "\<exists>l. find_identity x c1 = Some l \<and> lk_accountId l = ac_id acc
    \<and> (ms_accounts (cs_mail c1) = ms_accounts (cs_mail c)
        \<and> (find_identity x c = Some l \<or> find_identity x c = None \<and> pi_emailVerified x \<and> pi_email x \<noteq> [] \<and> ac_email acc = pi_email x)
      \<or> ps_passportAutoProvision (pe_settings env) \<and> pi_emailVerified x \<and> ac_email acc = pi_email x \<and> ac_isRoot acc = 0
        \<and> ms_accounts (cs_mail c1) = ms_accounts (cs_mail c) @ [acc])"
    using fresh op
  proof (cases rule: find_or_create_cases)
    case (known l a)
    then show ?thesis using found_account [OF known(2)] by simp
  next
    case (linked a)
    have "ac_email a = pi_email x" using linked(4) by (auto simp: find_account_by_email_def dest: find_in_set)
    with linked(1-3,5,6) \<open>\<And>c2 a. find_identity x c = None \<Longrightarrow> find_identity x (c2\<lparr>cs_identities := cs_identities c @ [new_link env a x now]\<rparr>)
      = Some (new_link env a x now)\<close> show ?thesis by (simp add: new_link_def)
  next
    case (made ms q)
    from made(6) have acc: "acc = provided_account (pe_account env) (pi_email x) now" by simp
    have "find_identity x c1 = Some (new_link env (pe_account env) x now)" unfolding made(8) by (rule linked [OF made(4)])
    then show ?thesis using made(2,3) by (simp add: acc made(8) new_link_def provided_account_def)
  qed simp_all
qed

text \<open>C13: An identity opens the account it proves and no other. When the callback of a provider leaves with a code, the
  code stands for one enabled account, the one the identity is linked to from then on: the account it was linked to
  before, in which case no account changes; or else the one whose address is the identity's, which the provider says
  it verified; or a new account at that address, if accounts are made for newcomers here, which is not root. For thirty
  seconds the code opens for that account what a password opens, and it does so once.\<close>
theorem provider_opens_its_account:
  assumes "passport_fresh env c" and "provider_callback env rg p (Some x) ret now c = (Inr br, c')" and "br_code br = Some code"
    and "accounts_distinct (ms_accounts (cs_mail c))" and "[] \<notin> ac_id ` set (ms_accounts (cs_mail c))"
    and "later \<le> now + PASSPORT_TTL_MS"
  shows "\<exists>acc l. find_account (ac_id acc) (ms_accounts (cs_mail c')) = Some acc \<and> ac_enabled acc = 1
    \<and> find_identity x c' = Some l \<and> lk_accountId l = ac_id acc
    \<and> (ms_accounts (cs_mail c') = ms_accounts (cs_mail c)
        \<and> (find_identity x c = Some l \<or> find_identity x c = None \<and> pi_emailVerified x \<and> pi_email x \<noteq> [] \<and> ac_email acc = pi_email x)
      \<or> ps_passportAutoProvision (pe_settings env) \<and> pi_emailVerified x \<and> ac_email acc = pi_email x \<and> ac_isRoot acc = 0
        \<and> ms_accounts (cs_mail c') = ms_accounts (cs_mail c) @ [acc])
    \<and> (\<exists>c1. redeem senv draws code ua ip later c'
          = (Inr (fst (openSessionFor senv None draws acc ua ip later (session_view (c'\<lparr>cs_exchange := (cs_exchange c')(code := None)\<rparr>)))), c1)
        \<and> redeem senv draws' code ua' ip' later' c1
            = (Inl (HttpException UNAUTHORIZED ''This sign-in link has expired, please start again''), c1))"
proof -
  obtain r where minted: "codeForIdentity env x now c = (r, c')" and "r = Inr code"
    using assms(2,3) by (auto simp: provider_callback_def Let_def split: if_splits prod.splits sum.splits)
  then obtain acc c1 where found: "findOrCreate env x now c = (Inr acc, c1)" and on: "ac_enabled acc = 1" and code: "code = pe_code env"
    and c': "c' = (fillMissingProfile (ac_id acc) x now c1)\<lparr>cs_exchange := snd (passport_mint code (ac_id acc) now (cs_exchange c1))\<rparr>"
    by (auto simp: codeForIdentity_def and_then_Inr passport_mint_def Let_def split: if_splits)
  note known = identified [OF assms(1,4) found]
  have same: "cs_mail c' = cs_mail c1" "find_identity x c' = find_identity x c1" by (simp_all add: c' find_identity_def)
  have e: "cs_exchange c' code = Some \<lparr>pc_accountId = ac_id acc, pc_expiresAt = now + PASSPORT_TTL_MS\<rparr>"
    by (simp add: c' passport_mint_def)
  have "ac_id acc \<noteq> []"
    using known(2) assms(1,5) unfolding passport_fresh_def by metis
  with redeemed_once [OF e, where acc = acc and later = later] known(1) same(1) on assms(6) have
    "\<exists>c1. redeem senv draws code ua ip later c'
          = (Inr (fst (openSessionFor senv None draws acc ua ip later (session_view (c'\<lparr>cs_exchange := (cs_exchange c')(code := None)\<rparr>)))), c1)
        \<and> redeem senv draws' code ua' ip' later' c1
            = (Inl (HttpException UNAUTHORIZED ''This sign-in link has expired, please start again''), c1)" by simp
  with known(1,3) on same show ?thesis by (intro exI [of _ acc]) auto
qed

section \<open>Whoever may edit accounts may become root\<close>

definition email_edit :: "string \<Rightarrow> update_account" where
  "email_edit e = \<lparr>up_email = Some e, up_firstName = None, up_lastName = None, up_gender = None, up_locale = None, up_avatarUrl = None,
     up_phone = None, up_addressLine = None, up_addressComplement = None, up_city = None, up_postalCode = None, up_country = None,
     ua_enabled = None\<rparr>"

lemma edit_moves:
  assumes acc: "find_account r (ms_accounts (cs_mail c)) = Some acc"
    and guard: "global_guard lib (Some [(''accounts'', [''access'', ''edit-account''])]) user = Inr True"
    and open_row: "\<not> isProtected PAccount \<lparr>ri_text = r, ri_number = None\<rparr> (cs_mail c)"
    and free: "e \<notin> ac_email ` set (ms_accounts (cs_mail c))" and e: "e \<noteq> []" "length e \<le> 255"
  shows "\<exists>c1. crud_serve env lib user now (EditAccount r (email_edit e)) c = (Inr (), c1)"
    "edited_account r (email_edit e) (ms_accounts (cs_mail c)) acc = Inr (acc\<lparr>ac_email := e\<rparr>)"
proof -
  note a = found_account [OF acc]
  show edited: "edited_account r (email_edit e) (ms_accounts (cs_mail c)) acc = Inr (acc\<lparr>ac_email := e\<rparr>)"
    using a free by (auto simp: edited_account_def email_edit_def image_iff)
  let ?run = "updateAccount env (map_option gu_id user) r (email_edit e) now c"
  obtain res c1 where run: "?run = (res, c1)" by fastforce
  have "ac_id (acc\<lparr>ac_email := e\<rparr>) = r" using a by simp
  from find_save_same [of ac_id "acc\<lparr>ac_email := e\<rparr>" "ms_accounts (cs_mail c)", unfolded this]
  have "\<exists>v. res = Inr v"
    using run acc edited by (auto simp: updateAccount_def crud_getById_def find_account_def Let_def)
  with run have "silent ?run = (Inr (), c1)" by (auto simp: silent_def)
  moreover have "updateAccountSchema (email_edit e)" using e by (simp add: updateAccountSchema_def email_edit_def short_field_def)
  ultimately show "\<exists>c1. crud_serve env lib user now (EditAccount r (email_edit e)) c = (Inr (), c1)"
    using guard open_row by (simp add: crud_serve_def assertUnprotected_def)
qed

lemma opens_unasked:
  assumes "\<not> tf_isEnabled (ac_id a) (ss_twoFactor st)"
    "ra_suspicious (assess (sv_settings env) (ac_id a) (ac_lastLogin a) (sv_locate env ip) now (ss_risk st)) = None"
  shows "\<exists>i st'. openSessionFor env ctx draws a ua ip now st = (Opened i, st') \<and> is_accessToken i = sv_sign env (payload_of a (ss_nextId st)) now"
  using assms finish_parts [of env ctx draws a ua ip "Some (sv_locate env ip)" now st]
  by (auto simp: openSessionFor_def Let_def)

lemma find_linked_row:
  assumes "List.find P rows = None" "P r"
  shows "List.find P (save_row key r rows) = Some r"
proof -
  have "List.find P (map (\<lambda>x. if key x = key r then r else x) xs) = Some r"
    if "\<exists>x \<in> set xs. key x = key r" "\<forall>x \<in> set xs. \<not> P x" for xs using that assms(2) by (induction xs) auto
  moreover have "\<forall>x \<in> set rows. \<not> P x" using assms(1) by (simp add: find_None_iff)
  ultimately show ?thesis using assms by (simp add: save_row_def find_append)
qed

lemma redeem_keeps_identities: "redeem senv draws code ua ip now c = (s, c') \<Longrightarrow> cs_identities c' = cs_identities c"
  by (auto simp: redeem_def Let_def split: prod.splits if_splits option.splits)

text \<open>C14: Whoever may edit accounts may sign in as root. An account that is not root but may edit accounts gives a root
  account, enabled and not protected, a new address that no account has, resets its authenticator, and signs in by
  the provider with that address, which the provider verified for them. As long as their identity is linked to no
  account, the provider may be used and the place they sign in from is not judged suspicious for the root account,
  the sign-in links their identity to the root account and opens a session that carries the root flag: the editor was
  never asked to hold what the edited account holds.\<close>
theorem editor_takes_over_root:
  assumes "find_account r (ms_accounts (cs_mail c)) = Some acc" and "ac_isRoot acc = 1" and "ac_enabled acc = 1" and "r \<noteq> []"
    and "\<not> isProtected PAccount \<lparr>ri_text = r, ri_number = None\<rparr> (cs_mail c)"
    and "global_guard lib (Some [(''accounts'', [''access'', ''edit-account''])]) (Some \<lparr>gu_id = e, gu_isRoot = False\<rparr>) = Inr True"
    and "pi_email x \<notin> ac_email ` set (ms_accounts (cs_mail c))" and "pi_email x \<noteq> []" and "length (pi_email x) \<le> 255"
    and "pi_emailVerified x" and "find_identity x c = None" and "isUsable (pe_settings penv) rg p"
    and "ra_suspicious (assess (sv_settings senv) r (ac_lastLogin acc) (sv_locate senv ip) later (cs_risk c)) = None"
    and "later \<le> now + PASSPORT_TTL_MS"
  shows "\<exists>c1 c2 c3 c4 br code i sid.
      crud_serve env lib (Some \<lparr>gu_id = e, gu_isRoot = False\<rparr>) now (EditAccount r (email_edit (pi_email x))) c = (Inr (), c1)
    \<and> crud_serve env lib (Some \<lparr>gu_id = e, gu_isRoot = False\<rparr>) now (ResetTwoFactor r) c1 = (Inr (), c2)
    \<and> provider_callback penv rg p (Some x) ret now c2 = (Inr br, c3) \<and> br_code br = Some code
    \<and> redeem senv draws code ua ip later c3 = (Inr (Opened i), c4)
    \<and> is_accessToken i = sv_sign senv \<lparr>jp_sub = r, jp_email = pi_email x, jp_isRoot = True, jp_sid = Some sid\<rparr> later
    \<and> (\<exists>l. find_identity x c4 = Some l \<and> lk_accountId l = r)"
proof -
  let ?u = "Some \<lparr>gu_id = e, gu_isRoot = False\<rparr>" and ?acc = "acc\<lparr>ac_email := pi_email x\<rparr>"
  from edit_moves [OF assms(1,6,5,7,8,9)] obtain c1 where
    c1: "crud_serve env lib ?u now (EditAccount r (email_edit (pi_email x))) c = (Inr (), c1)"
    and edited: "edited_account r (email_edit (pi_email x)) (ms_accounts (cs_mail c)) acc = Inr ?acc" by blast
  from c1 obtain a a' where "find_account r (ms_accounts (cs_mail c)) = Some a"
    "edited_account r (email_edit (pi_email x)) (ms_accounts (cs_mail c)) a = Inr a'"
    and e1: "find_account r (ms_accounts (cs_mail c1)) = Some a'" "ms_accounts (cs_mail c1) = save_row ac_id a' (ms_accounts (cs_mail c))"
      "cs_exchange c1 = cs_exchange c" "cs_identities c1 = cs_identities c" "cs_risk c1 = cs_risk c" by (rule served_edit)
  then have a': "a' = ?acc" using assms(1) edited by simp
  define c2 where "c2 = c1\<lparr>cs_twoFactor := snd (tf_reset (Some e) r (cs_twoFactor c1))\<rparr>"
  have "\<not> isProtected PAccount \<lparr>ri_text = r, ri_number = None\<rparr> (cs_mail c1)"
    using assms(1,5) e1(1) by (simp add: isProtected_def prot_find_def a')
  then have c2: "crud_serve env lib ?u now (ResetTwoFactor r) c1 = (Inr (), c2)"
    using assms(6) e1(1) by (simp add: crud_serve_def assertUnprotected_def resetTwoFactor_def silent_def c2_def Let_def split: prod.split)
  have nobody: "find_identity x c2 = None" using assms(11) by (simp add: find_identity_def c2_def e1(4))
  have away: "\<forall>y \<in> set (ms_accounts (cs_mail c)). ac_email y \<noteq> pi_email x" using assms(7) by (metis imageI)
  have "find_account_by_email (pi_email x) (ms_accounts (cs_mail c2)) = Some ?acc"
    unfolding find_account_by_email_def
  proof (rule find_unique)
    show "?acc \<in> set (ms_accounts (cs_mail c2))" using e1(1) found_account by (auto simp: c2_def a')
    show "\<forall>y \<in> set (ms_accounts (cs_mail c2)). ac_email y = pi_email x \<longrightarrow> y = ?acc"
      using away by (auto simp: c2_def e1(2) a' set_save_row)
  qed simp
  with nobody obtain c3 where c3: "findOrCreate penv x now c2 = (Inr ?acc, c3)" "cs_mail c3 = cs_mail c2" "cs_risk c3 = cs_risk c2"
    "cs_twoFactor c3 = cs_twoFactor c2" "cs_exchange c3 = cs_exchange c2" "cs_nextToken c3 = cs_nextToken c2"
    "cs_identities c3 = save_row lk_id \<lparr>lk_id = pe_link penv, lk_accountId = ac_id ?acc, lk_provider = pi_provider x,
       lk_subject = pi_subject x, lk_createdAt = now\<rparr> (cs_identities c2)"
    using assms(8,10) by (simp add: findOrCreate_def link_identity_def)
  let ?code = "pe_code penv"
  define c4 where "c4 = (fillMissingProfile r x now c3)\<lparr>cs_exchange := snd (passport_mint ?code r now (cs_exchange c3))\<rparr>"
  have r: "ac_id ?acc = r" using found_account [OF assms(1)] by simp
  have "codeForIdentity penv x now c2 = (Inr ?code, c4)"
    using c3(1) assms(3) r by (simp add: codeForIdentity_def c4_def passport_mint_def Let_def)
  then have called: "provider_callback penv rg p (Some x) ret now c2 = (Inr \<lparr>br_path = returnPath ret, br_code = Some ?code\<rparr>, c4)"
    using assms(12) by (simp add: provider_callback_def)
  have minted: "cs_exchange c4 ?code = Some \<lparr>pc_accountId = r, pc_expiresAt = now + PASSPORT_TTL_MS\<rparr>"
    by (simp add: c4_def passport_mint_def)
  have found: "find_account r (ms_accounts (cs_mail c4)) = Some ?acc" using e1(1) by (simp add: c4_def c3(2) c2_def a')
  let ?v = "session_view (c4\<lparr>cs_exchange := (cs_exchange c4)(?code := None)\<rparr>)"
  have "\<not> tf_isEnabled r (cs_twoFactor c2)"
    by (auto simp: c2_def tf_isEnabled_def tf_row_def tf_reset_def tf_note_def delete_where_def find_None_iff Let_def
        split: option.split dest!: find_in_set)
  then have off: "\<not> tf_isEnabled (ac_id ?acc) (ss_twoFactor ?v)" using r by (simp add: c4_def c3)
  have calm: "ra_suspicious (assess (sv_settings senv) (ac_id ?acc) (ac_lastLogin ?acc) (sv_locate senv ip) later (ss_risk ?v)) = None"
    using assms(13) r by (simp add: c4_def c3 c2_def e1(5))
  obtain i t where opened: "openSessionFor senv None draws ?acc ua ip later ?v = (Opened i, t)"
    and token: "is_accessToken i = sv_sign senv (payload_of ?acc (ss_nextId ?v)) later" using opens_unasked [OF off calm] by blast
  have "\<exists>c5. redeem senv draws ?code ua ip later c4 = (Inr (Opened i), c5)"
    using redeemed_once [OF minted, where acc = ?acc and later = later and senv = senv and draws = draws and ua = ua and ip = ip
        and draws' = draws and ua' = ua and ip' = ip and later' = later]
      found assms(3,4,14) opened by auto
  then obtain c5 where redeemed: "redeem senv draws ?code ua ip later c4 = (Inr (Opened i), c5)" by blast
  have "\<exists>l. find_identity x c4 = Some l \<and> lk_accountId l = r"
    using find_linked_row [OF nobody [unfolded find_identity_def], where key = lk_id] r by (simp add: find_identity_def c4_def c3(7))
  with redeem_keeps_identities [OF redeemed] have linked: "\<exists>l. find_identity x c5 = Some l \<and> lk_accountId l = r"
    by (simp add: find_identity_def)
  moreover note redeemed
  moreover have "payload_of ?acc (ss_nextId ?v) = \<lparr>jp_sub = r, jp_email = pi_email x, jp_isRoot = True, jp_sid = Some (ss_nextId ?v)\<rparr>"
    using r assms(2) by (simp add: payload_of_def)
  ultimately show ?thesis using c1 c2 called token
    by (intro exI [of _ c1] exI [of _ c2] exI [of _ c4] exI [of _ c5] exI [of _ "\<lparr>br_path = returnPath ret, br_code = Some ?code\<rparr>"]
        exI [of _ ?code] exI [of _ i] exI [of _ "ss_nextId ?v"]) (simp add: linked)
qed

section \<open>At concrete inputs\<close>

text \<open>A root account \<open>r\<close>, and \<open>a\<close>, which has a session, an authenticator and an alias.\<close>

definition hall_alias :: virtual_alias where
  "hall_alias = \<lparr>va_id = 1, va_ownerId = Some ''a'', va_isProtected = 0, va_domain = ''d.org'', va_source = ''s@d.org'',
     va_destination = ''u@d.org'', va_userStartDate = ''1970-01-01'', va_userEndDate = None, va_lastActivity = 0, va_createdAt = 0\<rparr>"

definition hall_root :: account where "hall_root = (toy_account ''r'')\<lparr>ac_isRoot := 1\<rparr>"

definition hall :: console_state where
  "hall = \<lparr>cs_admin = guest_state\<lparr>ad_mail := guest_mail\<lparr>ms_accounts := [hall_root, toy_account ''a''], ms_aliases := [hall_alias]\<rparr>\<rparr>,
     cs_tokens = [toy_session_row], cs_nextToken = 2, cs_log = [], cs_twoFactor = toy_tf_state, cs_challenges = (\<lambda>_. None),
     cs_risk = toy_lr_state, cs_mfa = toy_login_state, cs_keys = [], cs_nextKey = 1, cs_keyLog = [], cs_identities = [],
     cs_exchange = (\<lambda>_. None)\<rparr>"

definition open_lib :: guard_lib where
  "open_lib = \<lparr>gl_global = (\<lambda>a r acts. Granted), gl_domain = (\<lambda>a d r acts. Granted)\<rparr>"

abbreviation the_root :: guard_user where "the_root \<equiv> \<lparr>gu_id = ''r'', gu_isRoot = True\<rparr>"

definition hall_deleted :: console_state where
  "hall_deleted = snd (crud_serve toy_session_env open_lib (Some the_root) 5 (DeleteAccount ''a'') hall)"

lemma hall_facts:
  "find_account ''a'' (ms_accounts (cs_mail hall)) = Some (toy_account ''a'')" "find_account ''r'' (ms_accounts (cs_mail hall)) = Some hall_root"
  "ac_isRoot (toy_account ''a'') = 0" "ac_isRoot hall_root = 1" "ac_enabled hall_root = 1" "ac_lastLogin hall_root = None"
  "\<not> isProtected PAccount \<lparr>ri_text = ''a'', ri_number = None\<rparr> (cs_mail hall)"
  "\<not> isProtected PAccount \<lparr>ri_text = ''r'', ri_number = None\<rparr> (cs_mail hall)"
  "cs_tokens hall = [toy_session_row]" "cs_identities hall = []" "ac_email ` set (ms_accounts (cs_mail hall)) = {''r'', ''a''}"
  "ac_id ` set (ms_accounts (cs_mail hall)) = {''r'', ''a''}"
  by (simp_all add: hall_def hall_root_def toy_account_def find_account_def isProtected_def prot_find_def)

lemma hall_distinct: "accounts_distinct (ms_accounts (cs_mail hall))"
  by (simp add: accounts_distinct_def hall_def hall_root_def toy_account_def)

lemma hall_sound: "tables_sound (cs_mail hall)"
proof -
  have "tables_sound (guest_mail\<lparr>ms_accounts := [hall_root, toy_account ''a'']\<rparr>)"
    by (rule other_accounts(1) [OF refl]) (use guest_sound in \<open>simp add: guest_state_def\<close>)
  then have "tables_sound (guest_mail\<lparr>ms_accounts := [hall_root, toy_account ''a''], ms_aliases := [hall_alias]\<rparr>)"
    by (rule only_aliases) (simp_all add: aliases_fine_def same_grants_def)
  then show ?thesis by (simp add: hall_def)
qed

lemma hall_covered: "covered 5 (cs_mail hall)"
proof -
  have "committed 5 e (cs_mail hall) = committed 5 e guest_mail" for e
    by (rule committed_cong) (simp_all add: hall_def)
  then show ?thesis using guest_covered by (simp add: covered_def hall_def guest_state_def)
qed

lemma hall_delete: "crud_serve toy_session_env open_lib (Some the_root) 5 (DeleteAccount ''a'') hall = (Inr (), hall_deleted)"
proof -
  have "fst (crud_serve toy_session_env open_lib (Some the_root) 5 (DeleteAccount ''a'') hall) = Inr ()"
    using hall_facts by (simp add: crud_serve_def global_guard_def assertUnprotected_def deleteAccount_def)
  then show ?thesis by (simp add: hall_deleted_def prod_eq_iff)
qed

lemma hall_run:
  assumes "crud_ok (DeleteAccount ''a'')"
  shows "console_run allowed crud_ok hall 5 hall_deleted 5"
  by (rule console_run.crud, rule console_run.start, rule assms, rule hall_delete)

theorem nobody_becomes_root_witness: "roots (ms_accounts (cs_mail hall_deleted)) = {''r''}"
  using nobody_becomes_root [OF hall_run [of "\<lambda>_. True" any_request] hall_distinct]
  by (simp add: hall_def hall_root_def toy_account_def)

theorem console_stays_covered_witness: "tables_sound (cs_mail hall_deleted) \<and> covered 5 (cs_mail hall_deleted)"
  by (rule console_stays_covered [OF hall_run hall_sound hall_covered]) (simp add: keeps_owners_def)

theorem deleted_account_is_out_witness:
  "find_account ''a'' (ms_accounts (cs_mail hall_deleted)) = None
   \<and> \<not> (\<exists>st'. auth_guard toy_session_env toy_request 7
         \<lparr>as_sessions = fold (se_exec toy_session_env) [SRefresh toy_draws ''old'' None None 6] (session_view hall_deleted),
          as_tokens = as_tokens (guard_view hall_deleted)\<rparr>
       = (Inr (Some \<lparr>us_id = ''a'', us_email = ''a'', us_isRoot = False\<rparr>), st'))"
proof -
  let ?ops = "[SRefresh toy_draws ''old'' None None 6]"
  have ok: "session_ops_ok toy_session_env ?ops (session_view hall_deleted)" by (simp add: session_op_ok_def)
  have "gone ''a'' (session_view hall_deleted)"
    using hall_delete by (rule served_delete) (metis gone_deleted)
  from gone_run [OF this ok] have "\<forall>t \<in> set (ss_tokens (fold (se_exec toy_session_env) ?ops (session_view hall_deleted))). rt_id t \<noteq> 1 \<or> rt_accountId t \<noteq> ''a''"
    by (auto simp: gone_def)
  then have "bearer_honest toy_session_env 7 (fold (se_exec toy_session_env) ?ops (session_view hall_deleted))"
    using hall_delete by (auto simp: bearer_honest_def toy_session_env_def crud_serve_def refresh_def hall_deleted_def deleteAccount_def
        assertUnprotected_def hall_facts global_guard_def delete_where_def toy_session_row_def Let_def)
  from deleted_account_is_out [OF hall_delete ok refl this] show ?thesis by fastforce
qed

theorem deleted_account_keeps_its_aliases_witness:
  "hall_alias \<in> set (ms_aliases (cs_mail hall_deleted))
   \<and> ownedAliases ''a'' (cs_mail hall_deleted) = Inl (HttpException NOT_FOUND ''Account not found'')"
proof -
  have "hall_alias \<in> set (ms_aliases (cs_mail hall))" "va_ownerId hall_alias = Some ''a''" by (simp_all add: hall_def hall_alias_def)
  from deleted_account_keeps_its_aliases [OF hall_delete this] show ?thesis by simp
qed

lemma hall_tokens_ok: "tokens_ok (session_view hall)"
  by (simp add: tokens_ok_def session_view_def hall_def toy_session_row_def)

theorem disabled_account_keeps_its_sessions_witness:
  "\<exists>c' s. crud_serve toy_session_env open_lib (Some the_root) 5 (EditAccount ''a'' ((email_edit ''a'')\<lparr>ua_enabled := Some False\<rparr>)) hall
      = (Inr (), c')
    \<and> auth_guard toy_session_env toy_request 7 (guard_view c') = (Inr (Some \<lparr>us_id = ''a'', us_email = ''a'', us_isRoot = False\<rparr>), s)"
proof -
  let ?b = "(email_edit ''a'')\<lparr>ua_enabled := Some False\<rparr>"
  obtain v c' where run: "updateAccount toy_session_env (Some ''r'') ''a'' ?b 5 hall = (Inr v, c')"
    by (simp add: updateAccount_def hall_def hall_root_def toy_account_def find_account_def edited_account_def email_edit_def
        crud_getById_def Let_def save_row_def)
  have schema: "updateAccountSchema ?b" by (simp add: updateAccountSchema_def email_edit_def short_field_def)
  have "crud_serve toy_session_env open_lib (Some the_root) 5 (EditAccount ''a'' ?b) hall = (Inr (), c')"
    using run schema hall_facts by (simp add: crud_serve_def global_guard_def assertUnprotected_def silent_def)
  moreover from disabled_account_keeps_its_sessions [OF this, of toy_session_row 7 toy_session_env "''old''" toy_request "''T''"
      "\<lparr>jp_sub = ''a'', jp_email = ''a'', jp_isRoot = False, jp_sid = Some 1\<rparr>"]
  have "\<exists>s. auth_guard toy_session_env toy_request 7 (guard_view c') = (Inr (Some \<lparr>us_id = ''a'', us_email = ''a'', us_isRoot = False\<rparr>), s)"
    using hall_tokens_ok hall_facts(9)
    by (simp add: toy_session_row_def toy_request_def toy_session_env_def rt_live_def truthy_def)
  ultimately show ?thesis by blast
qed

theorem question_reset_ends_sessions_witness:
  "\<exists>c'. crud_serve toy_session_env open_lib (Some the_root) 5 (ResetQuestion ''a'') hall = (Inr (), c')
     \<and> map rt_id (cs_tokens c') = [1] \<and> \<not> (\<exists>t. t \<in> set (cs_tokens c') \<and> rt_accountId t = ''a'' \<and> rt_live 5 t)"
proof -
  have "resetQuestion (Some ''r'') ''a'' (cs_mfa hall) = (Inr False, cs_mfa hall)"
    by (simp add: resetQuestion_def mf_rowOf_def hall_def toy_login_state_def)
  then obtain v c' where run: "resetSecurityQuestion (Some ''r'') ''a'' 5 hall = (Inr v, c')"
    by (cases "revokeAllActiveSessions ''a'' 5 (session_view hall)") (simp add: resetSecurityQuestion_def hall_facts)
  then have served: "crud_serve toy_session_env open_lib (Some the_root) 5 (ResetQuestion ''a'') hall = (Inr (), c')"
    using hall_facts by (simp add: crud_serve_def global_guard_def assertUnprotected_def silent_def)
  from question_reset_ends_sessions [OF served] have "map rt_id (cs_tokens c') = [1]"
    "\<not> (\<exists>t. t \<in> set (cs_tokens c') \<and> rt_accountId t = ''a'' \<and> rt_live 5 t)"
    by (auto simp: hall_facts toy_session_row_def)
  with served show ?thesis by (intro exI [of _ c'] conjI)
qed

definition hall_penv :: passport_env where
  "hall_penv = \<lparr>pe_settings = \<lparr>ps_managerUrl = ''https://m'', ps_passportEnabled = True, ps_passportAutoProvision = True\<rparr>,
     pe_ops = plain_ops, pe_account = ''n'', pe_link = ''l'', pe_code = ''code''\<rparr>"

definition hall_registry :: registry where
  "hall_registry = \<lparr>rg_rows = [], rg_readable = True,
     rg_state = [''google'' \<mapsto> \<lparr>pv_configured = True, pv_enabled = True, pv_clientId = ''c''\<rparr>]\<rparr>"

definition hall_identity :: "string \<Rightarrow> provider_identity" where
  "hall_identity email = \<lparr>pi_provider = ''google'', pi_subject = ''7'', pi_email = email, pi_emailVerified = True,
     pi_firstName = None, pi_lastName = None, pi_picture = None\<rparr>"

lemma hall_provider: "isUsable (pe_settings hall_penv) hall_registry ''google''" "passport_fresh hall_penv hall"
proof -
  have "str_trim ''https://m'' \<noteq> []" by code_simp
  then show "isUsable (pe_settings hall_penv) hall_registry ''google''"
    by (simp add: isUsable_def managerUrlSet_def registry_isEnabled_def hall_penv_def hall_registry_def PASSPORT_PROVIDERS_def PROVIDER_ID_def)
  show "passport_fresh hall_penv hall"
    using hall_facts plain_lawful by (simp add: passport_fresh_def hall_penv_def hall_def hall_root_def toy_account_def)
qed

theorem provider_opens_its_account_witness:
  "\<exists>c' s c1. provider_callback hall_penv hall_registry ''google'' (Some (hall_identity ''a'')) None 5 hall
       = (Inr \<lparr>br_path = returnPath None, br_code = Some ''code''\<rparr>, c')
     \<and> redeem toy_session_env toy_draws ''code'' None None 6 c' = (Inr s, c1)"
proof -
  have "find_identity (hall_identity ''a'') hall = None" by (simp add: find_identity_def hall_facts)
  moreover have "find_account_by_email ''a'' (ms_accounts (cs_mail hall)) = Some (toy_account ''a'')"
    by (simp add: find_account_by_email_def hall_def hall_root_def toy_account_def)
  ultimately obtain c' where called: "provider_callback hall_penv hall_registry ''google'' (Some (hall_identity ''a'')) None 5 hall
       = (Inr \<lparr>br_path = returnPath None, br_code = Some ''code''\<rparr>, c')"
    using hall_provider(1)
    by (simp add: provider_callback_def codeForIdentity_def findOrCreate_def link_identity_def hall_identity_def passport_mint_def
        hall_penv_def toy_account_def Let_def)
  have "[] \<notin> ac_id ` set (ms_accounts (cs_mail hall))" by (simp add: hall_facts)
  from provider_opens_its_account [OF hall_provider(2) called _ hall_distinct this, of "''code''" 6 toy_session_env toy_draws None None
      toy_draws None None 6]
  obtain s c1 where "redeem toy_session_env toy_draws ''code'' None None 6 c' = (Inr s, c1)" by (auto simp: PASSPORT_TTL_MS_def)
  with called show ?thesis by blast
qed

theorem editor_takes_over_root_witness:
  "\<exists>c c' code i sid. redeem toy_session_env toy_draws code None None 7 c = (Inr (Opened i), c')
     \<and> is_accessToken i = sv_sign toy_session_env \<lparr>jp_sub = ''r'', jp_email = ''n@x'', jp_isRoot = True, jp_sid = Some sid\<rparr> 7"
proof -
  have e: "pi_email (hall_identity ''n@x'') = ''n@x''" "pi_emailVerified (hall_identity ''n@x'')"
    "find_identity (hall_identity ''n@x'') hall = None" by (simp_all add: hall_identity_def find_identity_def hall_facts)
  have guard: "global_guard open_lib (Some [(''accounts'', [''access'', ''edit-account''])]) (Some \<lparr>gu_id = ''a'', gu_isRoot = False\<rparr>) = Inr True"
    by (simp add: global_guard_def open_lib_def lib_throw_def)
  have calm: "ra_suspicious (assess (sv_settings toy_session_env) ''r'' (ac_lastLogin hall_root) (sv_locate toy_session_env None) 7 (cs_risk hall)) = None"
    by (simp add: assess_def toy_session_env_def)
  from editor_takes_over_root [OF hall_facts(2,4,5) _ hall_facts(8) guard _ _ _ e(2,3) hall_provider(1) calm, of 5 toy_session_env None toy_draws None]
  show ?thesis by (clarsimp simp: e hall_facts PASSPORT_TTL_MS_def) (intro exI conjI; assumption)
qed

end
