(* ===== verification/QrField.thy ===== *)
theory QrField imports Prelude begin

text \<open>
  The Galois field of the QR code encoder (\<open>utils/qrcode.ts\<close>): the power and logarithm tables
  the module fills when it loads, the table product, the generator polynomial and the remainder
  \<open>errorCorrection\<close> computes byte after byte.  The reference is the field itself: the
  carry-less product modulo \<open>0x11d\<close>, a commutative ring (\<open>gf\<close>), and Horner evaluation
  over it.  The numbers are the source's, none of them above 511, so no shift of theirs leaves
  32 bits.
\<close>

declare upt_rec_numeral [simp del] upto_rec_numeral [simp del]

section \<open>The tables\<close>

text \<open>\<open>x <<= 1; if (x & 0x100) x ^= 0x11d\<close>\<close>

definition gf_next :: "int \<Rightarrow> int" where
  "gf_next x = (let y = push_bit 1 x in if y AND 0x100 \<noteq> 0 then y XOR 0x11d else y)"

text \<open>The first loop of the initialiser, from \<open>i\<close> on.\<close>

function gf_tables :: "nat \<Rightarrow> int \<Rightarrow> int list \<Rightarrow> nat list \<Rightarrow> int list \<times> nat list" where
  "gf_tables i x exps logs =
    (if i < 255 then gf_tables (i + 1) (gf_next x) (exps @ [x]) (logs[nat x := i]) else (exps, logs))"
  by pat_completeness auto
termination by (relation "measure (\<lambda>(i, x, exps, logs). 255 - i)") auto

declare gf_tables.simps [simp del]

text \<open>\<open>xs[i] ?? 0\<close>, and the second loop: \<open>EXP[i] = EXP[i - 255] ?? 0\<close> up to 511.\<close>

definition at0 :: "'a::zero list \<Rightarrow> nat \<Rightarrow> 'a" where
  "at0 xs i = (if i < length xs then xs ! i else 0)"

function exp_tail :: "nat \<Rightarrow> int list \<Rightarrow> int list" where
  "exp_tail i exps = (if i < 512 then exp_tail (i + 1) (exps @ [at0 exps (i - 255)]) else exps)"
  by pat_completeness auto
termination by (relation "measure (\<lambda>(i, exps). 512 - i)") auto

declare exp_tail.simps [simp del]

definition EXP :: "int list" where
  "EXP = exp_tail 255 (fst (gf_tables 0 1 [] (replicate 256 0)))"

definition LOG :: "nat list" where
  "LOG = snd (gf_tables 0 1 [] (replicate 256 0))"

definition multiply :: "int \<Rightarrow> int \<Rightarrow> int" where
  "multiply a b = (if a = 0 \<or> b = 0 then 0 else at0 EXP (at0 LOG (nat a) + at0 LOG (nat b)))"

section \<open>What the tables hold\<close>

abbreviation is_byte :: "int \<Rightarrow> bool" where
  "is_byte x \<equiv> 0 \<le> x \<and> x < 256"

text \<open>The powers of \<open>x\<close> modulo the polynomial.\<close>

definition gf_pow :: "nat \<Rightarrow> int" where
  "gf_pow n = (gf_next ^^ n) 1"

lemma gf_pow_simps [simp]: "gf_pow 0 = 1" "gf_pow (Suc n) = gf_next (gf_pow n)"
  by (simp_all add: gf_pow_def)

lemma gf_next_alt: "gf_next x = push_bit 1 x XOR (if bit x 7 then 0x11d else 0)"
proof -
  have "push_bit 1 x AND 2 ^ 8 \<noteq> 0 \<longleftrightarrow> bit (push_bit 1 x) 8"
    by (simp only: and_exp_eq_0_iff_not_bit) simp
  moreover have "bit (push_bit 1 x) 8 = bit x 7"
    by (simp only: bit_push_bit_iff) simp
  ultimately show ?thesis by (simp add: gf_next_def Let_def)
qed

lemma gf_next_xor: "gf_next (x XOR y) = gf_next x XOR gf_next y"
  by (auto simp: gf_next_alt push_bit_xor bit_xor_iff xor.assoc xor.left_commute)

lemma gf_next_0 [simp]: "gf_next 0 = 0"
  by (simp add: gf_next_alt)

lemma gf_next_bytes: "list_all (\<lambda>i. is_byte (gf_next i)) [0..255]"
  by code_simp

lemma gf_next_byte: "is_byte x \<Longrightarrow> is_byte (gf_next x)"
  using gf_next_bytes by (simp add: list_all_iff)

lemma gf_pow_byte: "is_byte (gf_pow n)"
  by (induction n) (use gf_next_byte in auto)

text \<open>\<open>x\<close> has order 255: the powers run through every byte but zero, and only once.\<close>

fun all_powers :: "nat \<Rightarrow> int \<Rightarrow> (int \<Rightarrow> bool) \<Rightarrow> bool" where
  "all_powers 0 x P = True"
| "all_powers (Suc n) x P = (P x \<and> all_powers n (gf_next x) P)"

lemma all_powers_funpow: "all_powers n x P \<longleftrightarrow> (\<forall>k < n. P ((gf_next ^^ k) x))"
proof (induction n arbitrary: x)
  case (Suc n)
  have "(gf_next ^^ k) (gf_next x) = (gf_next ^^ Suc k) x" for k by (simp add: funpow_swap1)
  then show ?case using Suc by (simp add: All_less_Suc2)
qed simp

lemma gf_pow_short: "all_powers 254 2 (\<lambda>x. x \<noteq> 1)"
  by code_simp

fun gf_iterate :: "nat \<Rightarrow> int \<Rightarrow> int" where
  "gf_iterate 0 x = x"
| "gf_iterate (Suc n) x = gf_iterate n (gf_next x)"

lemma gf_pow_255: "gf_pow 255 = 1"
proof -
  have "gf_iterate n x = (gf_next ^^ n) x" for n x
    by (induction n arbitrary: x) (simp_all add: funpow_swap1)
  moreover have "gf_iterate 255 1 = 1" by code_simp
  ultimately show ?thesis by (simp only: gf_pow_def)
qed

lemma gf_next_nonzero: "list_all (\<lambda>x. gf_next x \<noteq> 0) [1..255]"
  by code_simp

lemma gf_next_inject:
  assumes "is_byte x" "is_byte y" "gf_next x = gf_next y"
  shows "x = y"
proof -
  have "gf_next (x XOR y) = 0" using assms(3) by (simp add: gf_next_xor)
  moreover have "0 \<le> x XOR y" "x XOR y \<le> 255" using assms(1,2) XOR_upper [of x 8 y] by simp_all
  ultimately have "\<not> 1 \<le> x XOR y" using gf_next_nonzero by (auto simp: list_all_iff)
  then have "x XOR y = 0" using \<open>0 \<le> x XOR y\<close> by linarith
  then show ?thesis by (metis xor.assoc xor.right_neutral xor_self_eq)
qed

lemma gf_pow_shift: "gf_pow (i + d) = gf_pow i \<Longrightarrow> gf_pow d = 1"
proof (induction i)
  case (Suc i)
  then show ?case using gf_next_inject [OF gf_pow_byte gf_pow_byte, of "i + d" i] by simp
qed simp

lemma gf_pow_inj: "inj_on gf_pow {..<255}"
proof -
  have "gf_pow d \<noteq> 1" if "0 < d" "d < 255" for d
  proof -
    obtain k where k: "d = Suc k" "k < 254" using \<open>0 < d\<close> \<open>d < 255\<close> by (cases d) auto
    have "gf_pow d = (gf_next ^^ k) (gf_next 1)"
      unfolding k gf_pow_def by (simp add: funpow_swap1)
    moreover have "gf_next 1 = 2" by code_simp
    ultimately show ?thesis using gf_pow_short k(2) by (simp add: all_powers_funpow)
  qed
  then have "gf_pow i \<noteq> gf_pow j" if "i < j" "j < 255" for i j
    using gf_pow_shift [of i "j - i"] that by (metis add_diff_inverse_nat less_imp_diff_less
      less_imp_le_nat linorder_not_less zero_less_diff)
  then show ?thesis unfolding inj_on_def by (metis lessThan_iff linorder_neqE_nat)
qed

lemma gf_pow_surj: "0 < a \<Longrightarrow> a < 256 \<Longrightarrow> \<exists>i < 255. gf_pow i = a"
proof -
  assume a: "0 < a" "a < 256"
  have nonzero: "gf_pow i \<noteq> 0" for i
  proof (induction i)
    case (Suc i)
    then show ?case using gf_next_inject [OF gf_pow_byte, of 0 i] by auto
  qed simp
  have "gf_pow ` {..<255} \<subseteq> {1..255}"
  proof
    fix x
    assume "x \<in> gf_pow ` {..<255}"
    then obtain i where "x = gf_pow i" by blast
    then show "x \<in> {1..255}" using nonzero [of i] gf_pow_byte [of i] by auto
  qed
  moreover have "card (gf_pow ` {..<255}) = card {1..255::int}"
    by (simp add: card_image [OF gf_pow_inj])
  ultimately have "gf_pow ` {..<255} = {1..255}" by (intro card_subset_eq) simp_all
  moreover have "a \<in> {1..255}" using a by simp
  ultimately show ?thesis by (metis imageE lessThan_iff)
qed

lemma gf_tables_exps:
  "i \<le> 255 \<Longrightarrow> fst (gf_tables i (gf_pow i) (map gf_pow [0..<i]) logs) = map gf_pow [0..<255]"
proof (induction "255 - i" arbitrary: i logs)
  case 0
  then show ?case by (subst gf_tables.simps) simp
next
  case (Suc d)
  then have "d = 255 - Suc i" "Suc i \<le> 255" by simp_all
  from Suc(1) [OF this] show ?case
    using Suc by (simp add: gf_tables.simps [of i])
qed

lemma gf_tables_logs:
  assumes "i \<le> 255" "length logs = 256" "\<And>k. k < i \<Longrightarrow> logs ! nat (gf_pow k) = k"
  shows "length (snd (gf_tables i (gf_pow i) exps logs)) = 256
      \<and> (\<forall>k < 255. snd (gf_tables i (gf_pow i) exps logs) ! nat (gf_pow k) = k)"
  using assms
proof (induction "255 - i" arbitrary: i exps logs)
  case 0
  then have "i = 255" by simp
  then show ?case using 0 by (subst (1 2) gf_tables.simps) simp
next
  case (Suc d)
  let ?logs = "logs[nat (gf_pow i) := i]"
  have i: "i < 255" "d = 255 - Suc i" "Suc i \<le> 255" using Suc(2) by simp_all
  have "?logs ! nat (gf_pow k) = k" if "k < Suc i" for k
  proof (cases "k = i")
    case True
    moreover have "nat (gf_pow i) < length logs" using gf_pow_byte [of i] Suc.prems(2) by linarith
    ultimately show ?thesis by (simp only: nth_list_update_eq)
  next
    case False
    then have "gf_pow k \<noteq> gf_pow i"
      using inj_onD [OF gf_pow_inj, of k i] that i(1) by auto
    then have "nat (gf_pow k) \<noteq> nat (gf_pow i)"
      using gf_pow_byte [of i] gf_pow_byte [of k] by linarith
    then show ?thesis using Suc.prems(3) [of k] False that by simp
  qed
  then show ?case
    using Suc(1) [OF i(2,3), of ?logs "exps @ [gf_pow i]"] Suc.prems(2) i(1)
    by (subst (1 2) gf_tables.simps) simp
qed

lemma LOG_EXP:
  "length LOG = 256"
  "0 < a \<Longrightarrow> a < 256 \<Longrightarrow> LOG ! nat a < 255 \<and> gf_pow (LOG ! nat a) = a"
proof -
  have logs: "length (snd (gf_tables 0 1 [] (replicate 256 0))) = 256"
    "k < 255 \<Longrightarrow> snd (gf_tables 0 1 [] (replicate 256 0)) ! nat (gf_pow k) = k" for k
    using gf_tables_logs [of 0 "replicate 256 0" "[]"] by simp_all
  show "length LOG = 256" using logs(1) by (simp add: LOG_def)
  assume "0 < a" "a < 256"
  then obtain i where i: "i < 255" "gf_pow i = a" using gf_pow_surj by blast
  then have "LOG ! nat a = i" using logs(2) [of i] by (simp add: LOG_def)
  then show "LOG ! nat a < 255 \<and> gf_pow (LOG ! nat a) = a" using i by simp
qed

lemma gf_pow_add_255: "gf_pow (n + 255) = gf_pow n"
proof -
  have "(gf_next ^^ (n + 255)) 1 = (gf_next ^^ n) ((gf_next ^^ 255) 1)"
    by (simp only: funpow_add comp_apply)
  then show ?thesis using gf_pow_255 by (simp only: gf_pow_def)
qed

lemma exp_tail_pow:
  "255 \<le> i \<Longrightarrow> i \<le> 512 \<Longrightarrow> exp_tail i (map gf_pow [0..<i]) = map gf_pow [0..<512]"
proof (induction "512 - i" arbitrary: i)
  case 0
  then show ?case by (subst exp_tail.simps) simp
next
  case (Suc d)
  have "gf_pow (i - 255) = gf_pow i"
    using gf_pow_add_255 [of "i - 255"] Suc.prems by simp
  then show ?case
    using Suc(1) [of "Suc i"] Suc(2-) by (simp add: exp_tail.simps [of i] at0_def)
qed

lemma EXP_pow: "EXP = map gf_pow [0..<512]"
  using gf_tables_exps [of 0 "replicate 256 0"] exp_tail_pow [of 255]
  by (simp add: EXP_def)

lemma EXP_at: "i < 512 \<Longrightarrow> at0 EXP i = gf_pow i"
  by (simp add: at0_def EXP_pow)

section \<open>The field\<close>

text \<open>The carry-less product of two bytes, reduced at each step: what the tables stand for.\<close>

definition gf_times :: "int \<Rightarrow> int \<Rightarrow> int" where
  "gf_times a b =
    foldl (\<lambda>acc i. gf_next acc XOR (if bit b i then a else 0)) 0 [7, 6, 5, 4, 3, 2, 1, 0]"

lemma gf_times_0 [simp]: "gf_times 0 b = 0" "gf_times a 0 = 0"
  by (simp_all add: gf_times_def)

lemma gf_times_xor: "gf_times (a XOR a') b = gf_times a b XOR gf_times a' b"
proof -
  let ?f = "\<lambda>a acc i. gf_next acc XOR (if bit b i then a else 0)"
  have "foldl (?f (a XOR a')) (x XOR x') is = foldl (?f a) x is XOR foldl (?f a') x' is" for x x' "is"
  proof (induction "is" arbitrary: x x')
    case (Cons i "is")
    have "?f (a XOR a') (x XOR x') i = ?f a x i XOR ?f a' x' i"
      by (simp add: gf_next_xor xor.assoc xor.left_commute)
    then show ?case by (simp only: foldl_Cons Cons.IH)
  qed simp
  from this [of 0 0] show ?thesis by (simp only: gf_times_def xor.left_neutral)
qed

lemma gf_times_next: "gf_times (gf_next a) b = gf_next (gf_times a b)"
proof -
  let ?f = "\<lambda>a acc i. gf_next acc XOR (if bit b i then a else 0)"
  have "foldl (?f (gf_next a)) (gf_next x) is = gf_next (foldl (?f a) x is)" for x "is"
    by (induction "is" arbitrary: x) (simp_all add: gf_next_xor [symmetric] if_distrib [of gf_next])
  from this [of 0] show ?thesis by (simp only: gf_times_def gf_next_0)
qed

lemma gf_times_1: "is_byte b \<Longrightarrow> gf_times 1 b = b"
proof -
  assume b: "is_byte b"
  have high: "\<not> bit b (k + 8)" for k
  proof -
    have "take_bit 8 b = b" using b by (simp add: take_bit_int_eq_self_iff)
    then show ?thesis by (metis bit_take_bit_iff not_add_less2)
  qed
  have step: "gf_next (drop_bit (Suc k) b) XOR (if bit b k then 1 else 0) = drop_bit k b" for k
  proof (rule bit_eqI)
    fix n
    have "bit (1::int) n \<longleftrightarrow> n = 0" by (simp add: bit_1_iff)
    moreover have "\<not> bit b (Suc k + 7)" using high [of k] by (simp add: add.commute)
    ultimately show "bit (gf_next (drop_bit (Suc k) b) XOR (if bit b k then 1 else 0)) n
        \<longleftrightarrow> bit (drop_bit k b) n"
      by (cases n)
        (simp_all add: gf_next_alt bit_drop_bit_eq bit_xor_iff bit_double_iff mult.commute [of _ 2] add.commute
          )
  qed
  have "drop_bit 8 b = 0" using b by (simp add: drop_bit_eq_div)
  then show ?thesis
    using step [of 7] step [of 6] step [of 5] step [of 4] step [of 3] step [of 2] step [of 1, unfolded One_nat_def, folded numeral_2_eq_2]
      step [of 0]
    by (simp add: gf_times_def)
qed

lemma gf_times_pow: "gf_times (gf_pow i) (gf_pow j) = gf_pow (i + j)"
  by (induction i) (simp_all add: gf_times_next gf_times_1 gf_pow_byte)

text \<open>The table product is the field's product.\<close>

lemma multiply_gf_times:
  assumes "is_byte a" "is_byte b"
  shows "multiply a b = gf_times a b"
proof (cases "a = 0 \<or> b = 0")
  case False
  then have ab: "0 < a" "0 < b" using assms by auto
  note la = LOG_EXP(2) [OF ab(1)] and lb = LOG_EXP(2) [OF ab(2)]
  have "at0 LOG (nat a) = LOG ! nat a" "at0 LOG (nat b) = LOG ! nat b"
    using assms by (auto simp: at0_def LOG_EXP(1))
  then have "multiply a b = gf_pow (LOG ! nat a + LOG ! nat b)"
    using False la lb assms by (simp add: multiply_def EXP_at)
  also have "\<dots> = gf_times a b"
    using la lb assms by (metis gf_times_pow)
  finally show ?thesis .
qed (auto simp: multiply_def)

lemma gf_byte_cases: "is_byte a \<Longrightarrow> a = 0 \<or> (\<exists>i. a = gf_pow i)"
  by (metis LOG_EXP(2) order_le_less)

lemma gf_times_byte: "is_byte a \<Longrightarrow> is_byte b \<Longrightarrow> is_byte (gf_times a b)"
  using gf_byte_cases [of a] gf_byte_cases [of b] by (auto simp: gf_times_pow gf_pow_byte)

lemma gf_times_commute: "is_byte a \<Longrightarrow> is_byte b \<Longrightarrow> gf_times a b = gf_times b a"
  using gf_byte_cases [of a] gf_byte_cases [of b] by (auto simp: gf_times_pow add.commute)

lemma gf_times_assoc:
  "is_byte a \<Longrightarrow> is_byte b \<Longrightarrow> is_byte c
    \<Longrightarrow> gf_times (gf_times a b) c = gf_times a (gf_times b c)"
  using gf_byte_cases [of a] gf_byte_cases [of b] gf_byte_cases [of c]
  by (auto simp: gf_times_pow add.assoc)

lemma is_byte_xor: "is_byte a \<Longrightarrow> is_byte b \<Longrightarrow> is_byte (a XOR b)"
  using XOR_upper [of a 8 b] by simp

typedef gf = "{x::int. is_byte x}" by (rule exI [of _ 0]) simp

setup_lifting type_definition_gf

instantiation gf :: comm_ring_1
begin

lift_definition zero_gf :: gf is 0 by simp

lift_definition one_gf :: gf is 1 by simp

lift_definition plus_gf :: "gf \<Rightarrow> gf \<Rightarrow> gf" is "(XOR)" by (rule is_byte_xor)

lift_definition uminus_gf :: "gf \<Rightarrow> gf" is "\<lambda>a. a" .

lift_definition minus_gf :: "gf \<Rightarrow> gf \<Rightarrow> gf" is "(XOR)" by (rule is_byte_xor)

lift_definition times_gf :: "gf \<Rightarrow> gf \<Rightarrow> gf" is gf_times by (rule gf_times_byte)

instance
proof
  fix a b c :: gf
  show "a + b + c = a + (b + c)" by transfer (simp add: xor.assoc)
  show "a + b = b + a" by transfer (simp add: xor.commute)
  show "0 + a = a" "- a + a = 0" "a - b = a + - b" by (transfer, simp)+
  show "a * b * c = a * (b * c)" by transfer (rule gf_times_assoc)
  show "a * b = b * a" by transfer (rule gf_times_commute)
  show "1 * a = a" by transfer (rule gf_times_1)
  show "(a + b) * c = a * c + b * c" by transfer (rule gf_times_xor)
  show "(0::gf) \<noteq> 1" by transfer simp
qed

end

lemma gf_uminus [simp]: "- a = (a::gf)"
  by transfer simp

lemma gf_twice [simp]: "(a::gf) + a = 0"
  by transfer simp

text \<open>The source's numbers as elements of the field.\<close>

lift_definition gf_of :: "int \<Rightarrow> gf" is "\<lambda>x. if is_byte x then x else 0" by simp

lemma gf_of_0 [simp]: "gf_of 0 = 0"
  by transfer simp

lemma gf_of_xor: "is_byte a \<Longrightarrow> is_byte b \<Longrightarrow> gf_of (a XOR b) = gf_of a + gf_of b"
  by transfer (use is_byte_xor in auto)

lemma multiply_byte: "is_byte a \<Longrightarrow> is_byte b \<Longrightarrow> is_byte (multiply a b)"
  using multiply_gf_times gf_times_byte by simp

lemma gf_of_multiply: "is_byte a \<Longrightarrow> is_byte b \<Longrightarrow> gf_of (multiply a b) = gf_of a * gf_of b"
  by transfer (use multiply_gf_times multiply_byte in auto)

lemma gf_of_eq_0: "is_byte a \<Longrightarrow> gf_of a = 0 \<longleftrightarrow> a = 0"
  by transfer simp

section \<open>Generator polynomial and remainder\<close>

text \<open>Polynomials as the source keeps them, the leading coefficient first.  The pass over
  \<open>poly\<close> adds each coefficient to its place and its product with \<open>EXP[i]\<close> to the next.\<close>

definition poly_times_root :: "nat \<Rightarrow> int list \<Rightarrow> int list" where
  "poly_times_root i poly =
    foldl (\<lambda>next (j, coefficient).
        let next = next[j := at0 next j XOR coefficient]
        in next[j + 1 := at0 next (j + 1) XOR multiply coefficient (at0 EXP i)])
      (replicate (length poly + 1) 0) (enumerate 0 poly)"

definition generatorPolynomial :: "nat \<Rightarrow> int list" where
  "generatorPolynomial degree = foldl (\<lambda>poly i. poly_times_root i poly) [1] [0..<degree]"

text \<open>One byte of \<open>errorCorrection\<close>: \<open>remainder.shift() ?? 0\<close>, then a zero pushed behind
  and every place reduced.\<close>

definition ec_step :: "int list \<Rightarrow> nat \<Rightarrow> int list \<Rightarrow> int \<Rightarrow> int list" where
  "ec_step generator degree remainder byte =
    (let factor = byte XOR at0 remainder 0;
         remainder = tl remainder @ [0]
     in foldl (\<lambda>remainder i.
          remainder[i := at0 remainder i XOR multiply (at0 generator (i + 1)) factor])
        remainder [0..<degree])"

definition errorCorrection :: "int list \<Rightarrow> nat \<Rightarrow> int list" where
  "errorCorrection data degree =
    (let generator = generatorPolynomial degree
     in foldl (ec_step generator degree) (replicate degree 0) data)"

text \<open>A reader's check: the value of the received polynomial at the \<open>i\<close>-th root.\<close>

definition syndrome :: "int list \<Rightarrow> nat \<Rightarrow> int" where
  "syndrome word i = foldl (\<lambda>acc c. multiply acc (at0 EXP i) XOR c) 0 word"

section \<open>Remainders are what a reader expects\<close>

abbreviation bytes_of :: "int list \<Rightarrow> bool" where
  "bytes_of xs \<equiv> \<forall>x \<in> set xs. is_byte x"

fun horner :: "gf list \<Rightarrow> gf \<Rightarrow> gf" where
  "horner [] x = 0"
| "horner (c # cs) x = c * x ^ length cs + horner cs x"

lemma horner_append: "horner (xs @ ys) x = horner xs x * x ^ length ys + horner ys x"
  by (induction xs) (simp_all add: algebra_simps power_add)

lemma horner_zeros: "horner (map gf_of (replicate n 0)) x = 0"
  by (induction n) simp_all

lemma horner_foldl:
  "foldl (\<lambda>acc c. acc * x + c) a cs = a * x ^ length cs + horner cs x"
  by (induction cs arbitrary: a) (simp_all add: algebra_simps)

lemma gf_of_root: "is_byte (at0 EXP i)"
  using gf_pow_byte [of i] by (cases "i < 512") (simp_all add: EXP_at at0_def EXP_pow)

lemma syndrome_horner:
  assumes "bytes_of word"
  shows "is_byte (syndrome word i)"
    "gf_of (syndrome word i) = horner (map gf_of word) (gf_of (at0 EXP i))"
proof -
  let ?f = "\<lambda>acc c. multiply acc (at0 EXP i) XOR c"
  have "is_byte (foldl ?f a cs) \<and> gf_of (foldl ?f a cs)
      = foldl (\<lambda>acc c. acc * gf_of (at0 EXP i) + c) (gf_of a) (map gf_of cs)"
    if "is_byte a" "bytes_of cs" for a cs
    using that
  proof (induction cs arbitrary: a)
    case (Cons c cs)
    have "is_byte (multiply a (at0 EXP i))" using multiply_byte gf_of_root Cons.prems by simp
    moreover then have "is_byte (?f a c)" using is_byte_xor Cons.prems by simp
    ultimately show ?case
      using Cons.IH [of "?f a c"] Cons.prems gf_of_root by (simp add: gf_of_xor gf_of_multiply)
  qed simp
  from this [of 0 word] show "is_byte (syndrome word i)"
    "gf_of (syndrome word i) = horner (map gf_of word) (gf_of (at0 EXP i))"
    using assms by (simp_all add: syndrome_def horner_foldl)
qed

text \<open>The pass over a polynomial multiplies it by \<open>x + EXP[i]\<close>.\<close>

lemma poly_times_root_map2:
  "poly_times_root i poly = map2 (XOR) (poly @ [0]) (0 # map (\<lambda>c. multiply c (at0 EXP i)) poly)"
proof -
  let ?m = "\<lambda>c. multiply c (at0 EXP i)"
  let ?f = "\<lambda>next (j, c). let next = next[j := at0 next j XOR c]
      in next[j + 1 := at0 next (j + 1) XOR ?m c]"
  have "foldl ?f (done @ z # replicate (length cs) 0) (enumerate (length done) cs)
      = done @ map2 (XOR) (cs @ [0]) (z # map ?m cs)" for "done" z cs
  proof (induction cs arbitrary: "done" z)
    case (Cons c cs)
    have "?f (done @ z # replicate (length (c # cs)) 0) (length done, c)
        = (done @ [z XOR c]) @ ?m c # replicate (length cs) 0"
      by (simp add: at0_def nth_append list_update_append Let_def)
    moreover have "foldl ?f s (enumerate (length done) (c # cs))
        = foldl ?f (?f s (length done, c)) (enumerate (length (done @ [z XOR c])) cs)" for s
      by (simp only: enumerate_simps foldl_Cons length_append length_Cons list.size) simp
    ultimately have "foldl ?f (done @ z # replicate (length (c # cs)) 0)
          (enumerate (length done) (c # cs))
        = (done @ [z XOR c]) @ map2 (XOR) (cs @ [0]) (?m c # map ?m cs)"
      by (simp only: Cons.IH)
    also have "\<dots> = done @ map2 (XOR) ((c # cs) @ [0]) (z # map ?m (c # cs))"
      by (simp add: xor.commute)
    finally show ?case .
  qed simp
  from this [of "[]" 0 poly] show ?thesis
    by (simp add: poly_times_root_def)
qed

lemma bytes_of_map2:
  assumes "bytes_of xs" "bytes_of ys"
  shows "bytes_of (map2 (XOR) xs ys)"
proof
  fix x
  assume "x \<in> set (map2 (XOR) xs ys)"
  then obtain a b where "(a, b) \<in> set (zip xs ys)" "x = a XOR b" by auto
  then show "is_byte x"
    using assms is_byte_xor [of a b] set_zip_leftD [of a b] set_zip_rightD [of a b] by auto
qed

lemma horner_map2:
  assumes "length xs = length ys" "bytes_of xs" "bytes_of ys"
  shows "horner (map gf_of (map2 (XOR) xs ys)) x
    = horner (map gf_of xs) x + horner (map gf_of ys) x"
  using assms
  by (induction xs ys rule: list_induct2) (simp_all add: gf_of_xor algebra_simps)

lemma bytes_of_multiply: "is_byte f \<Longrightarrow> bytes_of xs \<Longrightarrow> bytes_of (map (\<lambda>c. multiply c f) xs)"
  using multiply_byte by simp

lemma horner_multiply:
  assumes "is_byte f" "bytes_of xs"
  shows "horner (map gf_of (map (\<lambda>c. multiply c f) xs)) x = horner (map gf_of xs) x * gf_of f"
  using assms by (induction xs) (simp_all add: gf_of_multiply algebra_simps)

lemma bytes_of_root: "bytes_of poly \<Longrightarrow> bytes_of (poly_times_root i poly)"
  unfolding poly_times_root_map2
proof (rule bytes_of_map2)
  assume p: "bytes_of poly"
  then show "bytes_of (poly @ [0])" by simp
  have "bytes_of (map (\<lambda>c. multiply c (at0 EXP i)) poly)" by (rule bytes_of_multiply [OF gf_of_root p])
  then show "bytes_of (0 # map (\<lambda>c. multiply c (at0 EXP i)) poly)" by (simp del: set_map)
qed

lemma horner_times_root:
  assumes "bytes_of poly"
  shows "horner (map gf_of (poly_times_root i poly)) x
    = horner (map gf_of poly) x * (x + gf_of (at0 EXP i))"
proof -
  let ?ys = "map (\<lambda>c. multiply c (at0 EXP i)) poly"
  have ys: "bytes_of ?ys" using bytes_of_multiply [OF gf_of_root assms] .
  have "horner (map gf_of (poly_times_root i poly)) x
      = horner (map gf_of (poly @ [0])) x + horner (map gf_of (0 # ?ys)) x"
    unfolding poly_times_root_map2 by (rule horner_map2) (use assms ys in auto)
  also have "horner (map gf_of (0 # ?ys)) x = horner (map gf_of poly) x * gf_of (at0 EXP i)"
    using horner_multiply [OF gf_of_root assms, of i x] by (simp del: map_map)
  finally show ?thesis by (simp add: horner_append algebra_simps)
qed

lemma generatorPolynomial_Suc:
  "generatorPolynomial 0 = [1]"
  "generatorPolynomial (Suc n) = poly_times_root n (generatorPolynomial n)"
  by (simp_all add: generatorPolynomial_def)

lemma generator_length: "length (generatorPolynomial n) = n + 1"
  by (induction n) (simp_all add: generatorPolynomial_Suc poly_times_root_map2)

lemma generator_bytes: "bytes_of (generatorPolynomial n)"
proof (induction n)
  case 0
  then show ?case unfolding generatorPolynomial_Suc by simp
next
  case (Suc n)
  then show ?case unfolding generatorPolynomial_Suc by (rule bytes_of_root)
qed

text \<open>It is monic and vanishes at each of its roots.\<close>

lemma generator_monic: "generatorPolynomial n = 1 # tl (generatorPolynomial n)"
proof (induction n)
  case (Suc n)
  show ?case
    by (subst (1 2) generatorPolynomial_Suc, subst (1 2) poly_times_root_map2, subst (1 2) Suc) simp
qed (simp add: generatorPolynomial_Suc)

lemma generator_roots:
  "j < n \<Longrightarrow> horner (map gf_of (generatorPolynomial n)) (gf_of (at0 EXP j)) = 0"
proof (induction n)
  case (Suc n)
  then show ?case
    using horner_times_root [OF generator_bytes, of n n "gf_of (at0 EXP j)"]
    by (cases "j = n") (simp_all add: generatorPolynomial_Suc)
qed simp

lemma foldl_update_upt:
  assumes "n \<le> length r"
  shows "foldl (\<lambda>r i. r[i := f i (at0 r i)]) r [0..<n]
    = map (\<lambda>i. f i (r ! i)) [0..<n] @ drop n r"
  using assms
proof (induction n)
  case (Suc n)
  then have "drop n r = r ! n # drop (Suc n) r" by (simp add: Cons_nth_drop_Suc)
  moreover have "n < length r" using Suc by simp
  ultimately show ?case using Suc.IH by (auto simp: at0_def nth_append list_update_append)
qed simp

lemma ec_step_map2:
  assumes "length r = degree" "0 < degree" "length g = degree + 1"
  shows "ec_step g degree r b
    = map2 (XOR) (tl r @ [0]) (map (\<lambda>c. multiply c (b XOR hd r)) (tl g))"
proof -
  have r: "at0 r 0 = hd r" using assms by (cases r) (auto simp: at0_def)
  have "ec_step g degree r b
      = map (\<lambda>i. (tl r @ [0]) ! i XOR multiply (at0 g (i + 1)) (b XOR hd r)) [0..<degree]"
    using assms foldl_update_upt [of degree "tl r @ [0]"
        "\<lambda>i x. x XOR multiply (at0 g (i + 1)) (b XOR hd r)"]
    by (simp add: ec_step_def r)
  also have "\<dots> = map2 (XOR) (tl r @ [0]) (map (\<lambda>c. multiply c (b XOR hd r)) (tl g))"
    using assms by (intro nth_equalityI) (auto simp: at0_def nth_tl)
  finally show ?thesis .
qed

text \<open>The invariant of the loop over the data: what was read, followed by the remainder, is a
  multiple of the generator, so it vanishes at every root.\<close>

lemma ec_step_invariant:
  assumes "bytes_of r" "is_byte b" "length r = degree" "0 < degree"
    and root: "horner (map gf_of (generatorPolynomial degree)) x = 0"
    and before: "D * x ^ degree + horner (map gf_of r) x = 0"
  defines "r' \<equiv> ec_step (generatorPolynomial degree) degree r b"
  shows "bytes_of r' \<and> length r' = degree
    \<and> (D * x + gf_of b) * x ^ degree + horner (map gf_of r') x = 0"
proof -
  let ?g = "generatorPolynomial degree"
  define f where "f = b XOR hd r"
  obtain a t where r: "r = a # t" using assms by (cases r) auto
  have f: "is_byte f" "gf_of f = gf_of b + gf_of a"
    using assms r is_byte_xor by (simp_all add: f_def gf_of_xor)
  have g: "bytes_of (tl ?g)" using generator_bytes [of degree] by (metis generator_monic list.set_intros(2))
  have deg: "degree = Suc (length t)" using assms r by simp
  have r': "r' = map2 (XOR) (t @ [0]) (map (\<lambda>c. multiply c f) (tl ?g))"
    unfolding r'_def using ec_step_map2 [of r degree ?g b] assms r generator_length
    by (simp add: f_def)
  have one: "gf_of 1 = 1" by transfer simp
  have "horner (map gf_of (1 # tl ?g)) x = 0" using root generator_monic by metis
  then have tail: "horner (map gf_of (tl ?g)) x = x ^ degree"
    using generator_length [of degree] one by (simp add: add_eq_0_iff)
  have "horner (map gf_of r') x
      = horner (map gf_of (t @ [0])) x + horner (map gf_of (map (\<lambda>c. multiply c f) (tl ?g))) x"
    unfolding r' by (rule horner_map2)
      (use assms r generator_length bytes_of_multiply [OF f(1) g] in auto)
  also have "\<dots> = horner (map gf_of t) x * x + x ^ degree * (gf_of b + gf_of a)"
    using horner_multiply [OF f(1) g, of x] f(2) tail by (simp add: horner_append del: map_map)
  finally have "(D * x + gf_of b) * x ^ degree + horner (map gf_of r') x
      = x * (D * x ^ degree + horner (map gf_of r) x) + (gf_of b * x ^ degree + gf_of b * x ^ degree)"
    unfolding r deg by (simp only: list.map horner.simps length_map power_Suc) (simp only: algebra_simps)
  then have "(D * x + gf_of b) * x ^ degree + horner (map gf_of r') x = 0"
    using before by simp
  moreover have "bytes_of r'"
    unfolding r' by (rule bytes_of_map2) (use assms r bytes_of_multiply [OF f(1) g] in auto)
  moreover have "length r' = degree"
    unfolding r' using deg generator_length [of degree] by simp
  ultimately show ?thesis by blast
qed

lemma ec_loop_invariant:
  assumes "bytes_of data" "0 < degree"
    and root: "horner (map gf_of (generatorPolynomial degree)) x = 0"
    and "bytes_of r" "length r = degree" "D * x ^ degree + horner (map gf_of r) x = 0"
  defines "r' \<equiv> foldl (ec_step (generatorPolynomial degree) degree) r data"
  shows "bytes_of r' \<and> length r' = degree
    \<and> foldl (\<lambda>acc c. acc * x + c) D (map gf_of data) * x ^ degree + horner (map gf_of r') x = 0"
  using assms(1,4-6) unfolding r'_def
proof (induction data arbitrary: r D)
  case (Cons b data)
  let ?r = "ec_step (generatorPolynomial degree) degree r b"
  have b: "is_byte b" "bytes_of data" using Cons.prems(1) by simp_all
  note step = ec_step_invariant [OF Cons.prems(2) b(1) Cons.prems(3) assms(2) root Cons.prems(4)]
  show ?case
    unfolding list.map foldl_Cons
    by (rule Cons.IH [OF b(2) conjunct1 [OF step] conjunct1 [OF conjunct2 [OF step]]
          conjunct2 [OF conjunct2 [OF step]]])
qed simp

text \<open>A block and its error correction codewords have no syndrome: what a reader computes at
  each root of the generator is zero.\<close>

lemma errorCorrection_block:
  assumes "bytes_of data" "0 < degree"
  shows "length (errorCorrection data degree) = degree"
    "bytes_of (errorCorrection data degree)"
    "i < degree \<Longrightarrow> syndrome (data @ errorCorrection data degree) i = 0"
proof -
  let ?ec = "errorCorrection data degree"
  have zeros: "bytes_of (replicate degree 0)" by simp
  have *: "bytes_of ?ec \<and> length ?ec = degree
      \<and> horner (map gf_of data) x * x ^ degree + horner (map gf_of ?ec) x = 0"
    if "horner (map gf_of (generatorPolynomial degree)) x = 0" for x
    using ec_loop_invariant [OF assms that zeros, of 0] horner_zeros [of degree x]
    by (simp add: errorCorrection_def Let_def horner_foldl)
  note first = * [OF generator_roots [OF assms(2)]]
  then show len: "length ?ec = degree" and ec: "bytes_of ?ec" by simp_all
  show "syndrome (data @ ?ec) i = 0" if "i < degree"
  proof -
    have all: "bytes_of (data @ ?ec)" using assms ec by auto
    have "gf_of (syndrome (data @ ?ec) i) = 0"
      using * [OF generator_roots [OF that]] len syndrome_horner(2) [OF all, of i]
      by (simp add: horner_append)
    then show ?thesis using gf_of_eq_0 syndrome_horner(1) [OF all] by simp
  qed
qed

end
