(* ===== verification/QrCode.thy ===== *)
theory QrCode imports QrField begin

text \<open>
  The codewords of a QR code (\<open>utils/qrcode.ts\<close>): the table of versions, the smallest one a
  text fits in, the bit stream with its padding, its blocks with their error correction, and
  the order they are interleaved in.  A \<open>Bit\<close> is a boolean; \<open>Uint8Array\<close> is a list of
  8-bit words.  The reference is a reader: it takes the blocks apart, checks every syndrome and
  reads the bytes back.
\<close>

section \<open>Versions\<close>

type_synonym version_info = "nat \<times> nat \<times> nat"

definition VERSIONS :: "version_info list" where
  "VERSIONS = [
    (26, 10, 1), (44, 16, 1), (70, 26, 1), (100, 18, 2), (134, 24, 2), (172, 16, 4),
    (196, 18, 4), (242, 22, 4), (292, 22, 5), (346, 26, 5), (404, 30, 5), (466, 22, 8),
    (532, 22, 9), (581, 24, 9), (655, 24, 10), (733, 28, 10), (815, 28, 11), (901, 26, 13),
    (991, 26, 14), (1085, 26, 16), (1156, 26, 17), (1258, 28, 17), (1364, 28, 18),
    (1474, 28, 20), (1588, 28, 21), (1706, 28, 23), (1828, 28, 25), (1921, 28, 26),
    (2051, 28, 28), (2185, 28, 29), (2323, 28, 31), (2465, 28, 33), (2611, 28, 35),
    (2761, 28, 37), (2876, 28, 38), (3034, 28, 40), (3196, 28, 43), (3362, 28, 45),
    (3532, 28, 47), (3706, 28, 49)]"

definition versionInfo :: "nat \<Rightarrow> err + version_info" where
  "versionInfo version =
    (if 1 \<le> version \<and> version - 1 < length VERSIONS then Inr (VERSIONS ! (version - 1))
     else Inl (Crash ''QR version does not exist''))"

text \<open>An exception of a callee is the caller's.\<close>

definition or_throw :: "err + 'a \<Rightarrow> ('a \<Rightarrow> err + 'b) \<Rightarrow> err + 'b" where
  "or_throw r f = (case r of Inl e \<Rightarrow> Inl e | Inr a \<Rightarrow> f a)"

lemma or_throw_simps [simp]: "or_throw (Inl e) f = Inl e" "or_throw (Inr a) f = f a"
  by (simp_all add: or_throw_def)

definition qr_size :: "nat \<Rightarrow> nat" where
  "qr_size version = version * 4 + 17"

definition dataCodewords :: "nat \<Rightarrow> err + nat" where
  "dataCodewords version =
    or_throw (versionInfo version) (\<lambda>(total, ecPerBlock, blocks). Inr (total - ecPerBlock * blocks))"

definition bitsNeeded :: "nat \<Rightarrow> nat \<Rightarrow> nat" where
  "bitsNeeded version bytes = 4 + (if version \<le> 9 then 8 else 16) + bytes * 8"

text \<open>The loop of \<open>smallestVersion\<close>, from \<open>version\<close> on.\<close>

function smallest_from :: "nat \<Rightarrow> nat \<Rightarrow> err + nat" where
  "smallest_from version bytes =
    (if version \<le> 40
     then or_throw (dataCodewords version) (\<lambda>d.
       if bitsNeeded version bytes \<le> d * 8 then Inr version else smallest_from (version + 1) bytes)
     else Inl (Crash ''Too much data for a QR code''))"
  by pat_completeness auto
termination by (relation "measure (\<lambda>(version, bytes). 41 - version)") auto

declare smallest_from.simps [simp del]

definition smallestVersion :: "nat \<Rightarrow> err + nat" where
  "smallestVersion bytes = smallest_from 1 bytes"

section \<open>The bit stream\<close>

text \<open>\<open>push(value, length)\<close>: the lowest \<open>length\<close> bits, the highest of them first.\<close>

definition push :: "bool list \<Rightarrow> int \<Rightarrow> nat \<Rightarrow> bool list" where
  "push bits value n = bits @ map (\<lambda>i. bit value i) (rev [0..<n])"

text \<open>\<open>while (bits.length % 8 !== 0) bits.push(0)\<close>\<close>

function byte_align :: "bool list \<Rightarrow> bool list" where
  "byte_align bits = (if length bits mod 8 \<noteq> 0 then byte_align (bits @ [False]) else bits)"
  by pat_completeness auto
termination
proof (relation "measure (\<lambda>bits. (8 - length bits mod 8) mod 8)")
  fix bits :: "bool list"
  assume "length bits mod 8 \<noteq> 0"
  then show "(bits @ [False], bits) \<in> measure (\<lambda>bits. (8 - length bits mod 8) mod 8)"
    using mod_less_divisor [of 8 "length bits"]
    by (cases "Suc (length bits mod 8) = 8") (auto simp: mod_Suc)
qed simp

declare byte_align.simps [simp del]

text \<open>\<open>for (let pad = 0xec; bits.length < capacity; pad ^= 0xec ^ 0x11) push(pad, 8)\<close>\<close>

function pad_loop :: "nat \<Rightarrow> int \<Rightarrow> bool list \<Rightarrow> bool list" where
  "pad_loop capacity pad bits =
    (if length bits < capacity then pad_loop capacity (pad XOR (0xec XOR 0x11)) (push bits pad 8)
     else bits)"
  by pat_completeness auto
termination
  by (relation "measure (\<lambda>(capacity, pad, bits). capacity - length bits)") (auto simp: push_def)

declare pad_loop.simps [simp del]

definition bit_stream :: "nat \<Rightarrow> nat \<Rightarrow> byte list \<Rightarrow> bool list" where
  "bit_stream capacity version bytes =
    (let bits = push [] 0b0100 4;
         bits = push bits (int (length bytes)) (if version \<le> 9 then 8 else 16);
         bits = foldl (\<lambda>bits byte. push bits (uint byte) 8) bits bytes;
         bits = push bits 0 (min 4 (capacity - length bits))
     in pad_loop capacity 0xec (byte_align bits))"

text \<open>\<open>byte = (byte << 1) | (bits[i + j] ?? 0)\<close>, eight bits at a time.\<close>

definition byte_at :: "bool list \<Rightarrow> int" where
  "byte_at bits =
    foldl (\<lambda>byte j. push_bit 1 byte OR (if j < length bits \<and> bits ! j then 1 else 0)) 0
      [0, 1, 2, 3, 4, 5, 6, 7]"

fun data_bytes :: "bool list \<Rightarrow> int list" where
  "data_bytes bits = (if bits = [] then [] else byte_at bits # data_bytes (drop 8 bits))"

declare data_bytes.simps [simp del]

section \<open>Blocks\<close>

text \<open>The loop over the blocks: \<open>offset\<close>, the blocks and their error correction.\<close>

definition split_blocks :: "int list \<Rightarrow> version_info \<Rightarrow> int list list \<times> int list list" where
  "split_blocks data info =
    (\<lambda>(total, ecPerBlock, blockCount).
      let shortBlocks = blockCount - total mod blockCount;
          shortLength = total div blockCount - ecPerBlock
      in snd (foldl (\<lambda>(offset, blocks, ecBlocks) b.
           let n = shortLength + (if b < shortBlocks then 0 else 1);
               block = take n (drop offset data)
           in (offset + n, blocks @ [block], ecBlocks @ [errorCorrection block ecPerBlock]))
         (0, [], []) [0..<blockCount])) info"

definition interleave :: "version_info \<Rightarrow> int list list \<Rightarrow> int list list \<Rightarrow> int list" where
  "interleave info blocks ecBlocks =
    (\<lambda>(total, ecPerBlock, blockCount).
      let shortLength = total div blockCount - ecPerBlock
      in concat (map (\<lambda>i. map (\<lambda>block. at0 block i) (filter (\<lambda>block. i < length block) blocks))
           [0..<shortLength + 1])
         @ concat (map (\<lambda>i. map (\<lambda>block. at0 block i) ecBlocks) [0..<ecPerBlock])) info"

definition codewords :: "nat \<Rightarrow> byte list \<Rightarrow> err + int list" where
  "codewords version bytes =
    or_throw (dataCodewords version) (\<lambda>d.
    or_throw (versionInfo version) (\<lambda>info.
      let data = data_bytes (bit_stream (d * 8) version bytes);
          (blocks, ecBlocks) = split_blocks data info
      in Inr (interleave info blocks ecBlocks)))"

section \<open>The table of versions\<close>

text \<open>What the arithmetic of the blocks needs, by evaluation of the table.\<close>

lemma VERSIONS_sound:
  "list_all (\<lambda>(cws, ec, blocks). 0 < ec \<and> 0 < blocks \<and> ec < cws div blocks
     \<and> ec * blocks \<le> cws) VERSIONS"
  by (simp add: VERSIONS_def)

lemma VERSIONS_length [simp]: "length VERSIONS = 40"
  by (simp add: VERSIONS_def)

lemma versionInfo_Inr:
  "1 \<le> version \<Longrightarrow> version \<le> 40 \<Longrightarrow> versionInfo version = Inr (VERSIONS ! (version - 1))"
  by (auto simp: versionInfo_def)

lemma version_sound:
  assumes "versionInfo version = Inr (cws, ec, blocks)"
  shows "1 \<le> version" "version \<le> 40" "0 < ec" "0 < blocks" "ec < cws div blocks"
    "ec * blocks \<le> cws"
proof -
  have v: "1 \<le> version \<and> version - 1 < 40" "VERSIONS ! (version - 1) = (cws, ec, blocks)"
    using assms by (auto simp: versionInfo_def split: if_splits)
  then have "(cws, ec, blocks) \<in> set VERSIONS" by (metis VERSIONS_length nth_mem)
  then show "0 < ec" "0 < blocks" "ec < cws div blocks" "ec * blocks \<le> cws"
    using VERSIONS_sound by (auto simp: list_all_iff)
  show "1 \<le> version" "version \<le> 40" using v by arith+
qed

text \<open>No version holds more than 2334 data codewords, and the first nine, whose count has
  eight bits, at most 182.\<close>

lemma version_capacity:
  assumes "versionInfo version = Inr (cws, ec, blocks)"
  shows "cws - ec * blocks \<le> 2334" "version \<le> 9 \<Longrightarrow> cws - ec * blocks \<le> 182"
proof -
  let ?P = "\<lambda>m (cws, ec, blocks). cws - ec * blocks \<le> (m :: nat)"
  have caps: "list_all (?P 2334) VERSIONS" "list_all (?P 182) (take 9 VERSIONS)"
    by (simp_all add: VERSIONS_def)
  have v: "version - 1 < length VERSIONS" "VERSIONS ! (version - 1) = (cws, ec, blocks)"
    using assms by (auto simp: versionInfo_def split: if_splits)
  show "cws - ec * blocks \<le> 2334"
    using caps(1) v by (metis (mono_tags, lifting) case_prod_conv list_all_length)
  assume "version \<le> 9"
  then have w: "version - 1 < length (take 9 VERSIONS)" by simp
  then have "take 9 VERSIONS ! (version - 1) = (cws, ec, blocks)" using v(2) by simp
  then show "cws - ec * blocks \<le> 182" using caps(2) w by (metis (mono_tags, lifting) case_prod_conv list_all_length)
qed

lemma versionInfo_cases:
  assumes "1 \<le> version" "version \<le> 40"
  obtains cws ec blocks where "versionInfo version = Inr (cws, ec, blocks)"
    "dataCodewords version = Inr (cws - ec * blocks)"
  using versionInfo_Inr [OF assms] by (cases "VERSIONS ! (version - 1)") (simp add: dataCodewords_def)

text \<open>Whether \<open>n\<close> bytes fit in a version.\<close>

definition version_fits :: "nat \<Rightarrow> nat \<Rightarrow> bool" where
  "version_fits n version =
    (case dataCodewords version of Inr d \<Rightarrow> bitsNeeded version n \<le> d * 8 | Inl e \<Rightarrow> False)"

lemma smallest_from_find:
  "1 \<le> v \<Longrightarrow> smallest_from v n =
    (case find (version_fits n) [v..<41] of
       Some version \<Rightarrow> Inr version | None \<Rightarrow> Inl (Crash ''Too much data for a QR code''))"
proof (induction v n rule: smallest_from.induct)
  case (1 v n)
  show ?case
  proof (cases "v \<le> 40")
    case True
    then obtain d where d: "dataCodewords v = Inr d" using versionInfo_cases 1(2) by blast
    have "[v..<41] = v # [v + 1..<41]" using True by (simp add: upt_conv_Cons)
    then show ?thesis
      using 1(1) [OF True, of d] True d by (subst smallest_from.simps) (simp add: version_fits_def [abs_def])
  next
    case False
    then show ?thesis by (subst smallest_from.simps) simp
  qed
qed

lemma smallestVersion_Inr:
  "smallestVersion n = Inr version
    \<longleftrightarrow> 1 \<le> version \<and> version \<le> 40 \<and> version_fits n version
      \<and> (\<forall>w. 1 \<le> w \<longrightarrow> w < version \<longrightarrow> \<not> version_fits n w)"
proof -
  have "smallestVersion n = Inr version \<longleftrightarrow> find (version_fits n) [1..<41] = Some version"
    unfolding smallestVersion_def using smallest_from_find [of 1 n] by (auto split: option.splits)
  also have "\<dots> \<longleftrightarrow> (\<exists>i < 40. version_fits n (i + 1) \<and> version = i + 1
      \<and> (\<forall>j < i. \<not> version_fits n (j + 1)))"
    by (auto simp: find_Some_iff)
  also have "\<dots> \<longleftrightarrow> 1 \<le> version \<and> version \<le> 40 \<and> version_fits n version
      \<and> (\<forall>w. 1 \<le> w \<longrightarrow> w < version \<longrightarrow> \<not> version_fits n w)"
    (is "?l \<longleftrightarrow> ?r")
  proof
    assume ?l
    then obtain i where i: "i < 40" "version_fits n (i + 1)" "version = i + 1"
      "\<And>j. j < i \<Longrightarrow> \<not> version_fits n (j + 1)" by blast
    have "\<not> version_fits n w" if "1 \<le> w" "w < version" for w
      using i(4) [of "w - 1"] i(3) that by simp
    then show ?r using i by simp
  next
    assume ?r
    moreover then have "version - 1 < 40" by arith
    ultimately show ?l by (intro exI [of _ "version - 1"]) simp
  qed
  finally show ?thesis .
qed

text \<open>The largest version takes 2331 bytes, and no text above that has one.\<close>

lemma smallestVersion_total:
  "(\<exists>version. smallestVersion n = Inr version) \<longleftrightarrow> n \<le> 2331"
proof
  assume "n \<le> 2331"
  moreover have "dataCodewords 40 = Inr 2334"
    by (simp add: dataCodewords_def versionInfo_def VERSIONS_def)
  ultimately have "version_fits n 40" by (simp add: version_fits_def bitsNeeded_def)
  then have "\<exists>w. (1 \<le> w \<and> w \<le> 40 \<and> version_fits n w)
      \<and> (\<forall>w'. w' < w \<longrightarrow> \<not> (1 \<le> w' \<and> w' \<le> 40 \<and> version_fits n w'))"
    using exists_least_iff [of "\<lambda>w. 1 \<le> w \<and> w \<le> 40 \<and> version_fits n w"]
    by (metis (no_types, lifting) le_refl one_le_numeral)
  then show "\<exists>version. smallestVersion n = Inr version"
    unfolding smallestVersion_Inr by (meson less_imp_le_nat order_trans)
next
  assume "\<exists>version. smallestVersion n = Inr version"
  then obtain v where v: "1 \<le> v" "v \<le> 40" "version_fits n v" by (auto simp: smallestVersion_Inr)
  obtain cws ec blocks where info: "versionInfo v = Inr (cws, ec, blocks)"
    "dataCodewords v = Inr (cws - ec * blocks)"
    using versionInfo_cases [OF v(1,2)] .
  then show "n \<le> 2331"
    using v(3) version_capacity [OF info(1)] by (auto simp: version_fits_def bitsNeeded_def split: if_splits)
qed

text \<open>A text that fits in a version has a length the header can hold.\<close>

lemma version_fits_smallest:
  "1 \<le> version \<Longrightarrow> version \<le> 40 \<Longrightarrow> version_fits n version \<Longrightarrow> \<exists>w. smallestVersion n = Inr w"
proof (induction version rule: less_induct)
  case (less version)
  then show ?case unfolding smallestVersion_Inr by (meson less_imp_le_nat order_trans)
qed

lemma version_fits_small:
  assumes "1 \<le> version" "version \<le> 9" "version_fits n version"
  shows "n < 256"
proof -
  have "version \<le> 40" using assms by simp
  then obtain cws ec blocks where info: "versionInfo version = Inr (cws, ec, blocks)"
    "dataCodewords version = Inr (cws - ec * blocks)"
    using versionInfo_cases assms(1) by blast
  then show ?thesis
    using assms version_capacity(2) [OF info(1)] by (simp add: version_fits_def bitsNeeded_def)
qed

section \<open>A reader of the bit stream\<close>

text \<open>A number from its bits, the highest first, and back.\<close>

definition read_number :: "bool list \<Rightarrow> int" where
  "read_number bits = foldl (\<lambda>n b. 2 * n + of_bool b) 0 bits"

definition bits_of :: "int \<Rightarrow> nat \<Rightarrow> bool list" where
  "bits_of value n = map (\<lambda>i. bit value i) (rev [0..<n])"

definition read_stream :: "nat \<Rightarrow> bool list \<Rightarrow> byte list option" where
  "read_stream version bits =
    (let count = (if version \<le> 9 then 8 else 16);
         n = nat (read_number (take count (drop 4 bits)));
         payload = drop (4 + count) bits
     in if read_number (take 4 bits) = 4
        then Some (map (\<lambda>i. word_of_int (read_number (take 8 (drop (8 * i) payload)))) [0..<n])
        else None)"

lemma bits_of_length [simp]: "length (bits_of v n) = n"
  by (simp add: bits_of_def)

lemma push_bits_of: "push bits v n = bits @ bits_of v n"
  by (simp add: push_def bits_of_def)

lemma read_number_snoc: "read_number (bs @ [b]) = 2 * read_number bs + of_bool b"
  by (simp add: read_number_def)

lemma read_number_bits_of: "read_number (bits_of v n) = take_bit n v"
proof -
  have "foldl (\<lambda>n b. 2 * n + of_bool b) a (bits_of v n) = a * 2 ^ n + take_bit n v" for a
  proof (induction n arbitrary: a)
    case (Suc n)
    have "bits_of v (Suc n) = bit v n # bits_of v n" by (simp add: bits_of_def)
    then show ?case
      using Suc [of "2 * a + of_bool (bit v n)"]
      by (simp add: take_bit_Suc_from_most algebra_simps)
  qed (simp add: bits_of_def)
  from this [of 0] show ?thesis by (simp add: read_number_def)
qed

lemma bits_of_snoc: "bits_of (2 * m + of_bool b) (Suc n) = bits_of m n @ [b]"
proof -
  have "rev [0..<Suc n] = map Suc (rev [0..<n]) @ [0]"
    by (simp add: rev_map [symmetric] map_Suc_upt upt_conv_Cons del: upt_Suc)
  then show ?thesis by (simp add: bits_of_def bit_Suc bit_0 o_def)
qed

lemma bits_of_read_number: "bits_of (read_number bs) (length bs) = bs"
proof (induction bs rule: rev_induct)
  case Nil
  then show ?case by (simp add: bits_of_def)
next
  case (snoc b bs)
  then show ?case by (simp add: read_number_snoc bits_of_snoc)
qed

lemma read_number_range: "0 \<le> read_number bs" "read_number bs < 2 ^ length bs"
  using read_number_bits_of [of "read_number bs" "length bs"]
  unfolding bits_of_read_number
  by (metis take_bit_nonnegative, metis take_bit_int_less_exp)

section \<open>The bit stream of a text\<close>

lemma byte_align_append:
  "\<exists>zs. byte_align bits = bits @ zs \<and> length (byte_align bits) = (length bits + 7) div 8 * 8"
proof (induction bits rule: byte_align.induct)
  case (1 bits)
  show ?case
  proof (cases "length bits mod 8 = 0")
    case True
    then show ?thesis by (subst (1 2) byte_align.simps) auto
  next
    case False
    have "length bits = length bits div 8 * 8 + (length bits mod 8 - 1) + 1" using False by simp
    moreover have "length bits mod 8 - 1 < 7" using False mod_less_divisor [of 8 "length bits"] by simp
    ultimately obtain q r where q: "length bits = q * 8 + r + 1" "r < 7" by blast
    then have "length bits + 1 + 7 = r + 1 + (q + 1) * 8" "length bits + 7 = r + (q + 1) * 8"
      by simp_all
    then have "(length bits + 1 + 7) div 8 = q + 1" "(length bits + 7) div 8 = q + 1"
      using q(2) by (simp_all only: div_mult_self3) simp_all
    then have "(length bits + 1 + 7) div 8 = (length bits + 7) div 8" by simp
    then show ?thesis using 1 [OF False] False by (subst (1 2) byte_align.simps) auto
  qed
qed

lemma pad_loop_append:
  assumes "length bits \<le> capacity" "8 dvd capacity" "8 dvd length bits"
  shows "\<exists>zs. pad_loop capacity pad bits = bits @ zs \<and> length (pad_loop capacity pad bits) = capacity"
  using assms
proof (induction capacity pad bits rule: pad_loop.induct)
  case (1 capacity pad bits)
  show ?case
  proof (cases "length bits < capacity")
    case True
    have "length (push bits pad 8) \<le> capacity"
      using True 1(3,4) by (auto simp: push_bits_of elim!: dvdE)
    moreover have "8 dvd length (push bits pad 8)" using 1(4) by (simp add: push_bits_of)
    ultimately have "\<exists>zs. pad_loop capacity (pad XOR (0xec XOR 0x11)) (push bits pad 8)
          = push bits pad 8 @ zs
        \<and> length (pad_loop capacity (pad XOR (0xec XOR 0x11)) (push bits pad 8)) = capacity"
      using 1(1) [OF True _ 1(3)] by blast
    then show ?thesis using True by (subst (1 2) pad_loop.simps) (auto simp: push_bits_of)
  next
    case False
    then show ?thesis using 1(2) by (subst (1 2) pad_loop.simps) simp
  qed
qed

lemma foldl_push: "foldl (\<lambda>bits b. push bits (uint b) 8) bits bs
    = bits @ concat (map (\<lambda>b. bits_of (uint b) 8) bs)" for bs :: "byte list"
  by (induction bs arbitrary: bits) (simp_all add: push_bits_of)

lemma concat_length_8: "length (concat (map (\<lambda>b. bits_of (f b) 8) bs)) = 8 * length bs"
  by (induction bs) simp_all

lemma concat_take_8:
  "i < length bs \<Longrightarrow> take 8 (drop (8 * i) (concat (map (\<lambda>b. bits_of (f b) 8) bs) @ zs)) = bits_of (f (bs ! i)) 8"
proof (induction bs arbitrary: i)
  case (Cons b bs)
  then show ?case by (cases i) simp_all
qed simp

text \<open>The stream: the header, the bytes, and a padding that ends exactly at the capacity.\<close>

lemma bit_stream_shape:
  assumes "bitsNeeded version (length bytes) \<le> capacity" "8 dvd capacity"
  obtains zs where
    "bit_stream capacity version bytes
      = bits_of 4 4 @ bits_of (int (length bytes)) (if version \<le> 9 then 8 else 16)
        @ concat (map (\<lambda>b. bits_of (uint b) 8) bytes) @ zs"
    "length (bit_stream capacity version bytes) = capacity"
proof -
  let ?c = "if version \<le> 9 then 8 else 16 :: nat"
  define head where "head = bits_of 4 4 @ bits_of (int (length bytes)) ?c
    @ concat (map (\<lambda>b. bits_of (uint b) 8) bytes)"
  have len: "length head = bitsNeeded version (length bytes)"
    by (simp add: head_def bitsNeeded_def concat_length_8)
  define body where "body = push head 0 (min 4 (capacity - length head))"
  have "length body \<le> capacity" using len assms(1) by (simp add: body_def push_bits_of)
  then have fits: "(length body + 7) div 8 * 8 \<le> capacity" using assms(2) by (auto elim!: dvdE)
  obtain as where as: "byte_align body = body @ as"
    "length (byte_align body) = (length body + 7) div 8 * 8" using byte_align_append by blast
  obtain zs where zs: "pad_loop capacity 0xec (byte_align body) = byte_align body @ zs"
    "length (pad_loop capacity 0xec (byte_align body)) = capacity"
    using pad_loop_append [of "byte_align body" capacity "0xec"] as(2) fits assms(2) by auto
  have "bit_stream capacity version bytes = pad_loop capacity 0xec (byte_align body)"
    by (simp only: bit_stream_def Let_def foldl_push)
      (simp only: body_def head_def push_bits_of append_Nil append_assoc)
  then show thesis
    using that [of "bits_of 0 (min 4 (capacity - length head)) @ as @ zs"] zs as
    by (simp add: body_def push_bits_of) (simp add: head_def)
qed

lemma read_stream_bit_stream:
  assumes "bitsNeeded version (length bytes) \<le> capacity" "8 dvd capacity"
    and "length bytes < 2 ^ (if version \<le> 9 then 8 else 16)"
  shows "read_stream version (bit_stream capacity version bytes) = Some bytes"
proof -
  let ?c = "if version \<le> 9 then 8 else 16 :: nat"
  obtain zs where zs: "bit_stream capacity version bytes
      = bits_of 4 4 @ bits_of (int (length bytes)) ?c
        @ concat (map (\<lambda>b. bits_of (uint b) 8) bytes) @ zs" (is "?s = _")
    using bit_stream_shape [OF assms(1,2)] .
  have "take 4 ?s = bits_of 4 4" "take ?c (drop 4 ?s) = bits_of (int (length bytes)) ?c"
    "drop (4 + ?c) ?s = concat (map (\<lambda>b. bits_of (uint b) 8) bytes) @ zs"
    unfolding zs by (simp_all del: if_split)
  moreover have "take_bit ?c (int (length bytes)) = int (length bytes)"
    using assms(3) by (simp add: take_bit_int_eq_self_iff split: if_splits)
  moreover have "map (\<lambda>i. word_of_int (read_number (take 8 (drop (8 * i)
      (concat (map (\<lambda>b. bits_of (uint b) 8) bytes) @ zs))))) [0..<length bytes] = bytes"
  proof (rule nth_equalityI)
    fix i
    assume "i < length (map (\<lambda>i. word_of_int (read_number (take 8 (drop (8 * i)
      (concat (map (\<lambda>b. bits_of (uint b) 8) bytes) @ zs)))) :: byte) [0..<length bytes])"
    then have i: "i < length bytes" by simp
    have "take_bit 8 (uint (bytes ! i)) = uint (bytes ! i)"
      using uint_lt2p [of "bytes ! i"] by (simp add: take_bit_int_eq_self_iff)
    then show "map (\<lambda>i. word_of_int (read_number (take 8 (drop (8 * i)
      (concat (map (\<lambda>b. bits_of (uint b) 8) bytes) @ zs))))) [0..<length bytes] ! i = bytes ! i"
      using i by (simp add: concat_take_8 read_number_bits_of del: take_append drop_append)
  qed simp
  ultimately show ?thesis
    by (simp add: read_stream_def Let_def read_number_bits_of
        del: if_split drop_drop take_append drop_append)
qed

section \<open>The data codewords\<close>

lemma byte_at_read_number: "8 \<le> length bits \<Longrightarrow> byte_at bits = read_number (take 8 bits)"
proof -
  assume len: "8 \<le> length bits"
  have bit_or: "push_bit 1 x OR (if b then 1 else 0) = 2 * x + of_bool b" for x :: int and b
    by (cases b) (simp_all add: or_one_eq)
  then have bit_or': "x * 2 OR (if b then 1 else 0) = 2 * x + of_bool b" for x :: int and b
    by (simp add: mult.commute)
  have idx: "[0..<8] = [0, 1, 2, 3, 4, 5, 6, 7 :: nat]" by (simp add: upt_conv_Cons)
  have "take 8 bits = map ((!) bits) [0..<8]"
    using len by (intro nth_equalityI) simp_all
  then have "read_number (take 8 bits)
      = foldl (\<lambda>n j. 2 * n + of_bool (bits ! j)) 0 [0, 1, 2, 3, 4, 5, 6, 7]"
    by (simp only: idx read_number_def foldl_map)
  moreover have "foldl (\<lambda>n j. push_bit 1 n OR (if j < length bits \<and> bits ! j then 1 else 0)) a js
      = foldl (\<lambda>n j. 2 * n + of_bool (bits ! j)) a js"
    if "\<forall>j \<in> set js. j < length bits" for a :: int and js
    using that by (induction js arbitrary: a) (simp_all add: bit_or')
  moreover have "bits \<noteq> []" using len by auto
  ultimately show ?thesis unfolding byte_at_def using len by simp
qed

lemma data_bytes_read:
  "length bits = 8 * n \<Longrightarrow> length (data_bytes bits) = n \<and> bytes_of (data_bytes bits)
    \<and> concat (map (\<lambda>b. bits_of b 8) (data_bytes bits)) = bits"
proof (induction n arbitrary: bits)
  case 0
  then show ?case by (subst (1 2 3) data_bytes.simps) simp
next
  case (Suc n)
  have len: "length (take 8 bits) = 8" using Suc.prems by simp
  have "bits_of (byte_at bits) 8 = take 8 bits"
    using byte_at_read_number [of bits] bits_of_read_number [of "take 8 bits"] len Suc.prems by simp
  moreover have "is_byte (byte_at bits)"
    using byte_at_read_number [of bits] read_number_range [of "take 8 bits"] len Suc.prems by simp
  moreover have "data_bytes bits = byte_at bits # data_bytes (drop 8 bits)"
    using Suc.prems by (subst data_bytes.simps) auto
  ultimately show ?case using Suc.IH [of "drop 8 bits"] Suc.prems by simp
qed

section \<open>The blocks\<close>

text \<open>The length of block \<open>b\<close>, and the place of its \<open>i\<close>-th codeword in the interleaved
  sequence: the shorter blocks come first and have no last codeword.\<close>

definition short_blocks :: "version_info \<Rightarrow> nat" where
  "short_blocks info = (\<lambda>(cws, ec, n). n - cws mod n) info"

definition short_length :: "version_info \<Rightarrow> nat" where
  "short_length info = (\<lambda>(cws, ec, n). cws div n - ec) info"

definition block_length :: "version_info \<Rightarrow> nat \<Rightarrow> nat" where
  "block_length info b = short_length info + (if b < short_blocks info then 0 else 1)"

definition data_place :: "version_info \<Rightarrow> nat \<Rightarrow> nat \<Rightarrow> nat" where
  "data_place info b i = (\<lambda>(cws, ec, n).
     if i < short_length info then i * n + b
     else short_length info * n + (b - short_blocks info)) info"

definition ec_place :: "version_info \<Rightarrow> nat \<Rightarrow> nat \<Rightarrow> nat" where
  "ec_place info b i = (\<lambda>(cws, ec, n). cws - ec * n + (i * n + b)) info"

definition read_blocks :: "version_info \<Rightarrow> int list \<Rightarrow> int list list" where
  "read_blocks info cw =
    (\<lambda>(cws, ec, n). map (\<lambda>b. map (\<lambda>i. cw ! data_place info b i) [0..<block_length info b]) [0..<n]) info"

definition read_ec :: "version_info \<Rightarrow> int list \<Rightarrow> int list list" where
  "read_ec info cw =
    (\<lambda>(cws, ec, n). map (\<lambda>b. map (\<lambda>i. cw ! ec_place info b i) [0..<ec]) [0..<n]) info"

definition read_codewords :: "nat \<Rightarrow> int list \<Rightarrow> byte list option" where
  "read_codewords version cw =
    (case versionInfo version of
       Inl e \<Rightarrow> None
     | Inr (cws, ec, n) \<Rightarrow>
         let info = (cws, ec, n); blocks = read_blocks info cw
         in if length cw = cws
             \<and> list_all2 (\<lambda>block e. list_all (\<lambda>i. syndrome (block @ e) i = 0) [0..<ec])
                 blocks (read_ec info cw)
            then read_stream version (concat (map (\<lambda>b. bits_of b 8) (concat blocks)))
            else None)"

lemma sum_block_length:
  "sum_list (map (\<lambda>b. m + (if b < s then 0 else 1)) [0..<n]) = n * m + (n - s)"
  by (induction n) auto

lemma sum_block_lengths:
  assumes "0 < n" "ec < cws div n"
  shows "sum_list (map (block_length (cws, ec, n)) [0..<n]) = cws - ec * n"
proof -
  have "n - (n - cws mod n) = cws mod n" using assms by simp
  moreover have "n * (cws div n - ec) + cws mod n = cws - ec * n"
  proof -
    have "cws = n * (cws div n) + cws mod n" by simp
    moreover have "ec * n \<le> n * (cws div n)" using assms by (simp add: mult.commute)
    ultimately show ?thesis by (simp add: diff_mult_distrib2 mult.commute)
  qed
  ultimately show ?thesis
    using sum_block_length [of "short_length (cws, ec, n)" "short_blocks (cws, ec, n)" n]
    by (simp add: block_length_def [abs_def] short_length_def short_blocks_def)
qed

lemma split_blocks_read:
  assumes "length data = sum_list (map (block_length (cws, ec, n)) [0..<n])"
  obtains blocks where "split_blocks data (cws, ec, n) = (blocks, map (\<lambda>b. errorCorrection b ec) blocks)"
    "map length blocks = map (block_length (cws, ec, n)) [0..<n]" "concat blocks = data"
proof -
  let ?len = "block_length (cws, ec, n)"
  let ?f = "\<lambda>(offset, blocks, ecBlocks) b.
    let m = cws div n - ec + (if b < n - cws mod n then 0 else 1); block = take m (drop offset data)
    in (offset + m, blocks @ [block], ecBlocks @ [errorCorrection block ec])"
  have "\<exists>blocks. foldl ?f (0, [], []) [0..<k]
        = (sum_list (map ?len [0..<k]), blocks, map (\<lambda>b. errorCorrection b ec) blocks)
      \<and> map length blocks = map ?len [0..<k]
      \<and> concat blocks = take (sum_list (map ?len [0..<k])) data" if "k \<le> n" for k
    using that
  proof (induction k)
    case (Suc k)
    let ?off = "sum_list (map ?len [0..<k])"
    obtain blocks where b: "foldl ?f (0, [], []) [0..<k]
          = (?off, blocks, map (\<lambda>b. errorCorrection b ec) blocks)"
      "map length blocks = map ?len [0..<k]" "concat blocks = take ?off data"
      using Suc by auto
    have step: "?f (?off, blocks, map (\<lambda>b. errorCorrection b ec) blocks) k
        = (?off + ?len k, blocks @ [take (?len k) (drop ?off data)],
           map (\<lambda>b. errorCorrection b ec) (blocks @ [take (?len k) (drop ?off data)]))"
      by (simp add: block_length_def short_length_def short_blocks_def Let_def)
    have "[0..<n] = [0..<k] @ k # [Suc k..<n]"
      using Suc.prems upt_add_eq_append [of 0 k "n - k"] by (simp add: upt_conv_Cons)
    then have "?off + ?len k \<le> length data" using assms by simp
    then have "length (take (?len k) (drop ?off data)) = ?len k" by simp
    then show ?case
      using b step by (intro exI [of _ "blocks @ [take (?len k) (drop ?off data)]"])
        (simp add: take_add)
  qed simp
  from this [of n] obtain blocks where "foldl ?f (0, [], []) [0..<n]
        = (length data, blocks, map (\<lambda>b. errorCorrection b ec) blocks)"
      "map length blocks = map ?len [0..<n]" "concat blocks = data"
    using assms by auto
  then show thesis by (intro that [of blocks]) (simp_all add: split_blocks_def Let_def)
qed

section \<open>Interleaving\<close>

lemma concat_rows:
  assumes "\<And>i. i < k \<Longrightarrow> length (f i) = n"
  shows "length (concat (map f [0..<k])) = k * n"
    "i < k \<Longrightarrow> b < n \<Longrightarrow> (concat (map f [0..<k]) @ zs) ! (i * n + b) = f i ! b"
proof -
  have "length (concat (map f [0..<k])) = k * n
      \<and> (\<forall>i < k. \<forall>b < n. \<forall>zs. (concat (map f [0..<k]) @ zs) ! (i * n + b) = f i ! b)"
    using assms
  proof (induction k)
    case (Suc k)
    have IH: "length (concat (map f [0..<k])) = k * n"
      "\<And>i b zs. i < k \<Longrightarrow> b < n \<Longrightarrow> (concat (map f [0..<k]) @ zs) ! (i * n + b) = f i ! b"
      using Suc by auto
    have "(concat (map f [0..<Suc k]) @ zs) ! (i * n + b) = f i ! b" if "i < Suc k" "b < n" for i b zs
    proof (cases "i < k")
      case True
      then show ?thesis using IH(2) [of i b "f k @ zs"] that by simp
    next
      case False
      then have "i = k" using that by simp
      then show ?thesis using IH(1) that Suc.prems [of k] by (simp add: nth_append)
    qed
    then show ?case using IH(1) Suc.prems [of k] by simp
  qed simp
  then show "length (concat (map f [0..<k])) = k * n"
    "i < k \<Longrightarrow> b < n \<Longrightarrow> (concat (map f [0..<k]) @ zs) ! (i * n + b) = f i ! b" by blast+
qed

text \<open>What an interleaving holds at the place of a codeword.\<close>

lemma interleave_places:
  assumes info: "info = (cws, ec, n)" "0 < n" "ec < cws div n"
    and blocks: "map length blocks = map (block_length info) [0..<n]"
    and ecs: "map length ecs = replicate n ec"
  shows "length (interleave info blocks ecs) = cws"
    "b < n \<Longrightarrow> i < block_length info b
      \<Longrightarrow> interleave info blocks ecs ! data_place info b i = blocks ! b ! i"
    "b < n \<Longrightarrow> i < ec \<Longrightarrow> interleave info blocks ecs ! ec_place info b i = ecs ! b ! i"
proof -
  define sl where "sl = short_length info"
  define sb where "sb = short_blocks info"
  have nb: "length blocks = n" using blocks by (metis length_map length_upt diff_zero)
  have ne: "length ecs = n" using ecs by (metis length_map length_replicate)
  have bl: "length (blocks ! b) = block_length info b" if "b < n" for b
    using arg_cong [OF blocks, of "\<lambda>xs. xs ! b"] that nb by simp
  have el: "length (ecs ! b) = ec" if "b < n" for b
    using arg_cong [OF ecs, of "\<lambda>xs. xs ! b"] that ne by simp
  have sb: "sb \<le> n" by (simp add: sb_def short_blocks_def info)
  define row where "row i = map (\<lambda>block. at0 block i) (filter (\<lambda>block. i < length block) blocks)" for i
  define ecrow where "ecrow i = map (\<lambda>block. at0 block i) ecs" for i
  have full: "row i = map (\<lambda>block. at0 block i) blocks" if "i < sl" for i
  proof -
    have "\<forall>block \<in> set blocks. i < length block"
      using that bl nb by (auto simp: in_set_conv_nth block_length_def sl_def)
    then show ?thesis unfolding row_def by simp
  qed
  have long: "row sl = map (\<lambda>block. at0 block sl) (drop sb blocks)"
  proof -
    have "\<forall>block \<in> set (take sb blocks). \<not> sl < length block"
      using bl nb sb by (auto simp: in_set_conv_nth block_length_def sl_def sb_def)
    moreover have "\<forall>block \<in> set (drop sb blocks). sl < length block"
      using bl nb sb by (auto simp: in_set_conv_nth block_length_def sl_def sb_def)
    ultimately have "filter (\<lambda>block. sl < length block) (take sb blocks @ drop sb blocks)
        = drop sb blocks" by (simp del: append_take_drop_id)
    then show ?thesis unfolding row_def by simp
  qed
  let ?rows = "concat (map row [0..<sl])"
  let ?ecs = "concat (map ecrow [0..<ec])"
  have out: "interleave info blocks ecs = ?rows @ row sl @ ?ecs"
    by (simp add: interleave_def info row_def [abs_def] ecrow_def [abs_def] sl_def short_length_def Let_def)
  have rows: "length ?rows = sl * n"
      "\<And>i b zs. i < sl \<Longrightarrow> b < n \<Longrightarrow> (?rows @ zs) ! (i * n + b) = row i ! b"
    by (rule concat_rows; simp add: full nb)+
  have ecrows: "length ?ecs = ec * n"
      "\<And>i b zs. i < ec \<Longrightarrow> b < n \<Longrightarrow> (?ecs @ zs) ! (i * n + b) = ecrow i ! b"
    by (rule concat_rows; simp add: ecrow_def ne)+
  have rowsl: "length (row sl) = n - sb" by (simp add: long nb)
  have dataTotal: "sl * n + (n - sb) = cws - ec * n"
    using sum_block_lengths [OF info(2,3)]
      sum_block_length [of "short_length info" "short_blocks info" n]
    by (simp add: block_length_def [abs_def] info(1) sl_def sb_def mult.commute)
  have le: "ec * n \<le> cws" using info(3) by (metis div_times_less_eq_dividend less_imp_le_nat mult_le_mono1 order_trans)
  show "length (interleave info blocks ecs) = cws"
    unfolding out using rows(1) rowsl ecrows(1) dataTotal le by simp
  show "interleave info blocks ecs ! data_place info b i = blocks ! b ! i"
    if "b < n" "i < block_length info b"
  proof (cases "i < sl")
    case True
    then have "data_place info b i = i * n + b" by (simp add: data_place_def info sl_def)
    then show ?thesis
      unfolding out using rows(2) [OF True that(1)] True that bl nb full by (simp add: at0_def)
  next
    case False
    then have i: "i = sl" "sb \<le> b" using that(2) by (auto simp: block_length_def sl_def sb_def split: if_splits)
    then have "data_place info b i = length ?rows + (b - sb)"
      using rows(1) by (simp add: data_place_def info(1) sl_def sb_def)
    then have "interleave info blocks ecs ! data_place info b i = (row sl @ ?ecs) ! (b - sb)"
      unfolding out by (metis nth_append_length_plus)
    moreover have "b - sb < n - sb" using i(2) that(1) by arith
    ultimately show ?thesis
      using i that bl [of b] nb rowsl by (simp add: nth_append long at0_def)
  qed
  show "interleave info blocks ecs ! ec_place info b i = ecs ! b ! i" if "b < n" "i < ec"
  proof -
    have "ec_place info b i = length (?rows @ row sl) + (i * n + b)"
      using rows(1) rowsl dataTotal by (simp add: ec_place_def info(1))
    then have "interleave info blocks ecs ! ec_place info b i = ?ecs ! (i * n + b)"
      unfolding out append_assoc [symmetric] by (metis nth_append_length_plus)
    then show ?thesis using ecrows(2) [OF that(2,1), of "[]"] that el ne by (simp add: ecrow_def at0_def)
  qed
qed

lemma interleave_bytes:
  assumes "\<And>block. block \<in> set blocks \<union> set ecs \<Longrightarrow> bytes_of block"
  shows "bytes_of (interleave info blocks ecs)"
proof
  fix x
  assume x: "x \<in> set (interleave info blocks ecs)"
  obtain cws ec n where info: "info = (cws, ec, n)" by (cases info) auto
  obtain block i where "block \<in> set blocks \<union> set ecs" "x = at0 block i"
    using x by (auto simp: interleave_def info Let_def)
  then show "is_byte x" using assms [of block] nth_mem [of i block] by (auto simp: at0_def)
qed

section \<open>Reading the codewords of a text\<close>

lemma concat_bytes_blocks: "bytes_of (concat blocks) \<Longrightarrow> block \<in> set blocks \<Longrightarrow> bytes_of block"
  by auto

text \<open>The sequence has the version's length, every block passes a reader's check, and a reader
  finds the bytes back.\<close>

lemma codewords_read:
  assumes "1 \<le> version" "version \<le> 40" "version_fits (length bytes) version"
  obtains cw where "codewords version bytes = Inr cw" "read_codewords version cw = Some bytes"
    "bytes_of cw"
    "\<And>cws ec n. versionInfo version = Inr (cws, ec, n) \<Longrightarrow> length cw = cws"
proof -
  obtain cws ec n where info: "versionInfo version = Inr (cws, ec, n)"
      "dataCodewords version = Inr (cws - ec * n)"
    using versionInfo_cases [OF assms(1,2)] .
  note sound = version_sound [OF info(1)]
  let ?d = "cws - ec * n" and ?info = "(cws, ec, n)"
  let ?bits = "bit_stream (?d * 8) version bytes"
  have fits: "bitsNeeded version (length bytes) \<le> ?d * 8"
    using assms(3) info(2) by (simp add: version_fits_def)
  have small: "length bytes < 2 ^ (if version \<le> 9 then 8 else 16)"
  proof -
    have "smallestVersion (length bytes) = Inr w \<Longrightarrow> length bytes \<le> 2331" for w
      using smallestVersion_total by blast
    moreover have "\<exists>w. smallestVersion (length bytes) = Inr w"
      using version_fits_smallest [OF assms] by blast
    ultimately have "length bytes \<le> 2331" by blast
    moreover have "length bytes < 256" if "version \<le> 9"
      using version_fits_small [OF assms(1) that assms(3)] .
    ultimately show ?thesis by simp
  qed
  have bits: "length ?bits = 8 * ?d" "read_stream version ?bits = Some bytes"
    using bit_stream_shape [OF fits] read_stream_bit_stream [OF fits _ small] by (force, simp)
  note data = data_bytes_read [OF bits(1)]
  let ?data = "data_bytes ?bits"
  have "length ?data = sum_list (map (block_length ?info) [0..<n])"
    using data sum_block_lengths [OF sound(4,5)] by simp
  then obtain blocks where blocks:
      "split_blocks ?data ?info = (blocks, map (\<lambda>b. errorCorrection b ec) blocks)"
      "map length blocks = map (block_length ?info) [0..<n]" "concat blocks = ?data"
    using split_blocks_read by blast
  let ?ecs = "map (\<lambda>b. errorCorrection b ec) blocks"
  let ?cw = "interleave ?info blocks ?ecs"
  have nb: "length blocks = n" using blocks(2) by (metis length_map length_upt diff_zero)
  have bytes_blocks: "bytes_of block" if "block \<in> set blocks" for block
    using concat_bytes_blocks [of blocks] blocks(3) data that by metis
  have ecs: "map length ?ecs = replicate n ec"
    using nb errorCorrection_block(1) [OF bytes_blocks sound(3)]
    by (auto intro!: nth_equalityI)
  have bl: "length (blocks ! b) = block_length ?info b" if "b < n" for b
    using arg_cong [OF blocks(2), of "\<lambda>xs. xs ! b"] that nb by simp
  note places = interleave_places [OF refl sound(4,5) blocks(2) ecs]
  have rb: "read_blocks ?info ?cw = blocks"
    using places(2) bl nb by (auto simp: read_blocks_def intro!: nth_equalityI)
  have re: "read_ec ?info ?cw = ?ecs"
    using places(3) nb errorCorrection_block(1) [OF bytes_blocks sound(3)]
    by (auto simp: read_ec_def intro!: nth_equalityI)
  have "list_all2 (\<lambda>block e. list_all (\<lambda>i. syndrome (block @ e) i = 0) [0..<ec]) blocks ?ecs"
    using errorCorrection_block(3) [OF bytes_blocks sound(3)]
    by (auto simp: list_all2_conv_all_nth list_all_iff)
  then have "read_codewords version ?cw = Some bytes"
    using places(1) data bits(2) blocks(3) rb re info(1) by (simp add: read_codewords_def Let_def)
  moreover have "codewords version bytes = Inr ?cw"
    using info blocks(1) by (simp add: codewords_def Let_def)
  moreover have "bytes_of ?cw"
    using bytes_blocks errorCorrection_block(2) [OF bytes_blocks sound(3)]
    by (intro interleave_bytes) auto
  ultimately show thesis using that [of ?cw] places(1) info(1) by simp
qed

end
