(* ===== verification/QrMatrix.thy ===== *)
theory QrMatrix imports QrCode begin

text \<open>
  The square of a QR code (\<open>utils/qrcode.ts\<close>): the alignment positions, the function patterns
  with the cells they reserve, the data placed in zigzag order, the masks, the format bits, the
  penalty the mask is chosen by, and the SVG path.  A loop that only calls \<open>set\<close> or
  \<open>setCell\<close> is the list of its calls, in order.  The coordinates are integers, as the calls
  near a border leave the square.
\<close>

section \<open>Cells\<close>

type_synonym matrix = "bool list list"

type_synonym drawing = "(int \<times> int \<times> bool) list"

text \<open>\<open>modules[row]?.[col] ?? 0\<close>, and \<open>reserved[row]?.[col] ?? false\<close>.\<close>

definition cell :: "matrix \<Rightarrow> int \<Rightarrow> int \<Rightarrow> bool" where
  "cell modules row col =
    (0 \<le> row \<and> row < int (length modules)
      \<and> 0 \<le> col \<and> col < int (length (modules ! nat row)) \<and> modules ! nat row ! nat col)"

definition setCell :: "matrix \<Rightarrow> int \<Rightarrow> int \<Rightarrow> bool \<Rightarrow> matrix" where
  "setCell modules row col value =
    (if 0 \<le> row \<and> row < int (length modules)
        \<and> 0 \<le> col \<and> col < int (length (modules ! nat row))
     then modules[nat row := (modules ! nat row)[nat col := value]] else modules)"

definition set_cells :: "matrix \<Rightarrow> drawing \<Rightarrow> matrix" where
  "set_cells modules calls = foldl (\<lambda>m (row, col, value). setCell m row col value) modules calls"

section \<open>Alignment positions\<close>

text \<open>\<open>positions.splice(1, 0, pos)\<close> until there are \<open>count\<close> of them.\<close>

function align_loop :: "nat \<Rightarrow> int \<Rightarrow> int \<Rightarrow> int list \<Rightarrow> int list" where
  "align_loop count step pos positions =
    (if length positions < count
     then align_loop count step (pos - step) (take 1 positions @ pos # drop 1 positions)
     else positions)"
  by pat_completeness auto
termination by (relation "measure (\<lambda>(count, step, pos, positions). count - length positions)") auto

declare align_loop.simps [simp del]

definition alignmentPositions :: "nat \<Rightarrow> int list" where
  "alignmentPositions version =
    (if version = 1 then []
     else let count = version div 7 + 2;
              rise = qr_size version - 13; run = 2 * count - 2;
              step = (if version = 32 then 26 else (rise + run - 1) div run * 2)
          in align_loop count (int step) (int (qr_size version) - 7) [6])"

section \<open>Function patterns\<close>

text \<open>The calls of \<open>set\<close> for a finder pattern, its separator included.\<close>

definition finder :: "int \<Rightarrow> int \<Rightarrow> drawing" where
  "finder row col =
    [(row + r, col + c, let edge = max \<bar>r - 3\<bar> \<bar>c - 3\<bar> in edge \<noteq> 2 \<and> edge \<noteq> 4).
      r \<leftarrow> [-1..7], c \<leftarrow> [-1..7]]"

definition timing :: "int \<Rightarrow> drawing" where
  "timing n = concat (map (\<lambda>i. [(6, i, i mod 2 = 0), (i, 6, i mod 2 = 0)]) [8..n - 9])"

definition alignment_at :: "int \<Rightarrow> int \<Rightarrow> drawing" where
  "alignment_at row col =
    [(row + r, col + c, max \<bar>r\<bar> \<bar>c\<bar> \<noteq> 1). r \<leftarrow> [-2..2], c \<leftarrow> [-2..2]]"

text \<open>Every crossing of the positions but the three corners of the finder patterns.\<close>

definition alignment :: "int list \<Rightarrow> drawing" where
  "alignment positions =
    (let last = length positions - 1
     in concat (map (\<lambda>(i, row). concat (map (\<lambda>(j, col).
          if (i = 0 \<and> j = 0) \<or> (i = 0 \<and> j = last) \<or> (i = last \<and> j = 0) then []
          else alignment_at row col) (enumerate 0 positions))) (enumerate 0 positions)))"

text \<open>The cells kept for the format bits, and the module that is always dark.\<close>

definition format_area :: "int \<Rightarrow> drawing" where
  "format_area n =
    concat (map (\<lambda>i. if i \<noteq> 6 then [(8, i, False), (i, 8, False)] else []) [0..8])
    @ concat (map (\<lambda>i. [(8, n - 1 - i, False), (n - 1 - i, 8, False)]) [0..7])
    @ [(n - 8, 8, True)]"

text \<open>The version bits: the remainder of the version by \<open>0x1f25\<close>, then both in one word.\<close>

definition version_bits :: "nat \<Rightarrow> int" where
  "version_bits version =
    (let bits = foldl (\<lambda>bits i. if bit bits i then bits XOR push_bit (i - 12) 0x1f25 else bits)
                  (push_bit 12 (int version)) [17, 16, 15, 14, 13, 12]
     in push_bit 12 (int version) OR bits)"

definition version_area :: "nat \<Rightarrow> int \<Rightarrow> drawing" where
  "version_area version n =
    (if version \<ge> 7
     then concat (map (\<lambda>i. let dark = bit (version_bits version) (nat i);
                            a = i div 3; b = n - 11 + i mod 3
                        in [(a, b, dark), (b, a, dark)]) [0..17])
     else [])"

text \<open>\<open>functionPatterns\<close>: the calls of its \<open>set\<close>, which ignores a cell outside the square,
  draws the others and reserves them.\<close>

definition pattern_calls :: "nat \<Rightarrow> drawing" where
  "pattern_calls version =
    (let n = int (qr_size version)
     in finder 0 0 @ finder 0 (n - 7) @ finder (n - 7) 0 @ timing n
        @ alignment (alignmentPositions version) @ format_area n @ version_area version n)"

definition set_pattern :: "nat \<Rightarrow> matrix \<times> matrix \<Rightarrow> int \<times> int \<times> bool \<Rightarrow> matrix \<times> matrix" where
  "set_pattern n = (\<lambda>(modules, reserved) (row, col, dark).
    if row < 0 \<or> col < 0 \<or> row \<ge> int n \<or> col \<ge> int n then (modules, reserved)
    else (setCell modules row col dark, setCell reserved row col True))"

definition functionPatterns :: "nat \<Rightarrow> matrix \<times> matrix" where
  "functionPatterns version =
    (let n = qr_size version; blank = replicate n (replicate n False)
     in foldl (set_pattern n) (blank, blank) (pattern_calls version))"

section \<open>Data\<close>

text \<open>One cell of the zigzag: \<open>data[bitIndex >>> 3] ?? 0\<close>, its bits from the highest.\<close>

definition place_cell :: "matrix \<Rightarrow> int list \<Rightarrow> matrix \<times> nat \<Rightarrow> int \<times> int \<Rightarrow> matrix \<times> nat" where
  "place_cell reserved data = (\<lambda>(modules, bitIndex) (row, col).
    if cell reserved row col then (modules, bitIndex)
    else (setCell modules row col (bit (at0 data (bitIndex div 8)) (7 - bitIndex mod 8)),
          bitIndex + 1))"

text \<open>The two columns that end at \<open>right\<close>, upwards or downwards.\<close>

definition column_pair :: "int \<Rightarrow> int \<Rightarrow> (int \<times> int) list" where
  "column_pair n right =
    [(if (right + 1) AND 2 = 0 then n - 1 - vert else vert, right - j).
      vert \<leftarrow> [0..n - 1], j \<leftarrow> [0, 1]]"

function place_columns :: "matrix \<Rightarrow> int list \<Rightarrow> int \<Rightarrow> int \<Rightarrow> matrix \<times> nat \<Rightarrow> matrix \<times> nat" where
  "place_columns reserved data n right state =
    (if 1 \<le> right
     then let right = (if right = 6 then right - 1 else right)
          in place_columns reserved data n (right - 2)
               (foldl (place_cell reserved data) state (column_pair n right))
     else state)"
  by pat_completeness auto
termination by (relation "measure (\<lambda>(reserved, data, n, right, state). nat right)") (auto split: if_splits)

declare place_columns.simps [simp del]

definition placeData :: "matrix \<Rightarrow> matrix \<Rightarrow> int list \<Rightarrow> matrix" where
  "placeData modules reserved data =
    (let n = int (length modules) in fst (place_columns reserved data n (n - 1) (modules, 0)))"

section \<open>Masks and format\<close>

definition maskBit :: "nat \<Rightarrow> int \<Rightarrow> int \<Rightarrow> bool" where
  "maskBit msk row col =
    (if msk = 0 then (row + col) mod 2 = 0
     else if msk = 1 then row mod 2 = 0
     else if msk = 2 then col mod 3 = 0
     else if msk = 3 then (row + col) mod 3 = 0
     else if msk = 4 then (row div 2 + col div 3) mod 2 = 0
     else if msk = 5 then (row * col) mod 2 + (row * col) mod 3 = 0
     else if msk = 6 then ((row * col) mod 2 + (row * col) mod 3) mod 2 = 0
     else ((row + col) mod 2 + (row * col) mod 3) mod 2 = 0)"

definition mask_cell :: "matrix \<Rightarrow> nat \<Rightarrow> matrix \<Rightarrow> int \<times> int \<Rightarrow> matrix" where
  "mask_cell reserved msk modules = (\<lambda>(row, col).
    if \<not> cell reserved row col \<and> maskBit msk row col
    then setCell modules row col (\<not> cell modules row col) else modules)"

definition applyMask :: "matrix \<Rightarrow> matrix \<Rightarrow> nat \<Rightarrow> matrix" where
  "applyMask modules reserved msk =
    (let n = int (length modules)
     in foldl (mask_cell reserved msk) modules [(row, col). row \<leftarrow> [0..n - 1], col \<leftarrow> [0..n - 1]])"

text \<open>\<open>EC_LEVEL_M << 3 | mask\<close>, its remainder, and the standard's own mask over both.\<close>

definition format_bits :: "nat \<Rightarrow> int" where
  "format_bits msk =
    (let data = push_bit 3 0 OR int msk;
         rem = foldl (\<lambda>rem i. push_bit 1 rem XOR drop_bit 9 rem * 0x537) data
                 [0, 1, 2, 3, 4, 5, 6, 7, 8, 9 :: nat]
     in (push_bit 10 data OR rem) XOR 0x5412)"

definition format_calls :: "int \<Rightarrow> int \<Rightarrow> drawing" where
  "format_calls n bits =
    map (\<lambda>i. (i, 8, bit bits (nat i))) [0..5]
    @ [(7, 8, bit bits 6), (8, 8, bit bits 7), (8, 7, bit bits 8)]
    @ map (\<lambda>i. (8, 14 - i, bit bits (nat i))) [9..14]
    @ map (\<lambda>i. (8, n - 1 - i, bit bits (nat i))) [0..7]
    @ map (\<lambda>i. (n - 15 + i, 8, bit bits (nat i))) [8..14]
    @ [(n - 8, 8, True)]"

definition writeFormat :: "matrix \<Rightarrow> nat \<Rightarrow> matrix" where
  "writeFormat modules msk =
    set_cells modules (format_calls (int (length modules)) (format_bits msk))"

section \<open>Penalty\<close>

text \<open>\<open>runs\<close>: five equal cells in a row cost three, each further one costs one.\<close>

definition runs :: "nat \<Rightarrow> (nat \<Rightarrow> bool) \<Rightarrow> nat" where
  "runs n line =
    snd (foldl (\<lambda>(run, score) i.
        if line i = line (i - 1)
        then (run + 1, if run + 1 = 5 then score + 3 else if run + 1 > 5 then score + 1 else score)
        else (1, score))
      (1 :: nat, 0) [1..<n])"

definition squares :: "matrix \<Rightarrow> nat" where
  "squares modules =
    (let n = length modules
     in sum_list (map (\<lambda>row. sum_list (map (\<lambda>col.
          let v = cell modules (int row) (int col)
          in if v = cell modules (int row) (int col + 1) \<and> v = cell modules (int row + 1) (int col)
                \<and> v = cell modules (int row + 1) (int col + 1) then 3 else 0)
        [0..<n - 1])) [0..<n - 1]))"

text \<open>\<open>finderLike\<close>: the pattern of a finder with four light cells on one side of it.\<close>

definition finder_pattern :: "bool list" where
  "finder_pattern = [True, False, True, True, True, False, True]"

definition finderLike :: "nat \<Rightarrow> (nat \<Rightarrow> bool) \<Rightarrow> nat" where
  "finderLike n line =
    (let matches = (\<lambda>i offset. list_all (\<lambda>(k, p). line (i + offset + k) = p)
                       (enumerate 0 finder_pattern));
         quiet = (\<lambda>i start. list_all (\<lambda>k. \<not> line (i + start + k)) [0, 1, 2, 3])
     in sum_list (map (\<lambda>i.
          if (matches i 0 \<and> quiet i 7) \<or> (quiet i 0 \<and> matches i 4) then 40 else 0)
        [0..<n - 10]))"

text \<open>The share of dark cells: \<open>Math.floor(Math.abs(ratio - 50) / 5) * 10\<close> over the exact
  ratio, from which the double differs by less than the distance to the next multiple of five.\<close>

definition dark_penalty :: "matrix \<Rightarrow> nat" where
  "dark_penalty modules =
    (let n = int (length modules);
         dark = int (sum_list (map (\<lambda>row. length (filter id row)) modules))
     in nat (\<bar>dark * 100 - 50 * (n * n)\<bar> div (5 * (n * n))) * 10)"

definition penalty :: "matrix \<Rightarrow> nat" where
  "penalty modules =
    (let n = length modules
     in sum_list (map (\<lambda>i. runs n (\<lambda>j. cell modules (int i) (int j))
                          + runs n (\<lambda>j. cell modules (int j) (int i))) [0..<n])
        + squares modules
        + sum_list (map (\<lambda>i. finderLike n (\<lambda>j. cell modules (int i) (int j))
                          + finderLike n (\<lambda>j. cell modules (int j) (int i))) [0..<n])
        + dark_penalty modules)"

section \<open>The square and its path\<close>

text \<open>One candidate, and the loop that keeps the first one of the lowest penalty.\<close>

definition candidate :: "nat \<Rightarrow> int list \<Rightarrow> nat \<Rightarrow> matrix" where
  "candidate version data msk =
    (let (modules, reserved) = functionPatterns version;
         modules = placeData modules reserved data;
         modules = applyMask modules reserved msk
     in writeFormat modules msk)"

definition choose_mask :: "nat \<Rightarrow> int list \<Rightarrow> matrix \<times> nat option" where
  "choose_mask version data =
    foldl (\<lambda>(best, bestScore) msk.
        let modules = candidate version data msk; score = penalty modules
        in if (case bestScore of None \<Rightarrow> True | Some b \<Rightarrow> score < b) then (modules, Some score)
           else (best, bestScore))
      ([], None) [0..<8]"

definition qrModules :: "byte list \<Rightarrow> err + matrix" where
  "qrModules bytes =
    or_throw (smallestVersion (length bytes)) (\<lambda>version.
    or_throw (codewords version bytes) (\<lambda>data. Inr (fst (choose_mask version data))))"

text \<open>A decimal number, as a template string prints it.\<close>

fun digits :: "nat \<Rightarrow> string" where
  "digits n = (if n < 10 then [char_of (n + 48)] else digits (n div 10) @ [char_of (n mod 10 + 48)])"

declare digits.simps [simp del]

definition qrSvgPath :: "matrix \<Rightarrow> string" where
  "qrSvgPath modules =
    concat (concat (map (\<lambda>(y, row). concat (map (\<lambda>(x, value).
        if value then [''M'' @ digits x @ '' '' @ digits y @ ''h1v1h-1z''] else [])
      (enumerate 0 row))) (enumerate 0 modules)))"

section \<open>Squares and their cells\<close>

definition square :: "nat \<Rightarrow> matrix \<Rightarrow> bool" where
  "square n m \<longleftrightarrow> length m = n \<and> (\<forall>row \<in> set m. length row = n)"

definition inside :: "nat \<Rightarrow> int \<Rightarrow> int \<Rightarrow> bool" where
  "inside n row col \<longleftrightarrow> 0 \<le> row \<and> row < int n \<and> 0 \<le> col \<and> col < int n"

lemma square_blank: "square n (replicate n (replicate n False))"
  by (simp add: square_def)

lemma square_nth: "square n m \<Longrightarrow> i < n \<Longrightarrow> length (m ! i) = n"
  by (simp add: square_def)

lemma square_setCell: "square n m \<Longrightarrow> square n (setCell m r c v)"
proof -
  assume sq: "square n m"
  have "length (m ! nat r) = n" if "0 \<le> r" "r < int (length m)"
    using that sq by (simp add: square_def)
  then show ?thesis
    using sq set_update_subset_insert [of m "nat r" "(m ! nat r)[nat c := v]"]
    by (auto simp: square_def setCell_def)
qed

lemma cell_inside: "square n m \<Longrightarrow> cell m r c \<Longrightarrow> inside n r c"
  by (auto simp: cell_def square_def inside_def)

lemma cell_blank: "\<not> cell (replicate n (replicate n False)) r c"
  by (auto simp: cell_def)

lemma cell_setCell:
  assumes "square n m"
  shows "cell (setCell m r c v) r' c' =
    (if r' = r \<and> c' = c \<and> inside n r c then v else cell m r' c')"
proof (cases "inside n r c")
  case True
  then have r: "nat r < n" "nat c < n" "0 \<le> r" "0 \<le> c" by (auto simp: inside_def)
  have len: "length m = n" "length (m ! nat r) = n" using assms r(1) by (auto simp: square_def)
  have new: "setCell m r c v = m[nat r := (m ! nat r)[nat c := v]]"
    using True len by (simp add: setCell_def inside_def)
  show ?thesis
  proof (cases "r' = r")
    case row: True
    show ?thesis
    proof (cases "c' = c")
      case True
      then show ?thesis using \<open>inside n r c\<close> row r len by (auto simp: new cell_def inside_def)
    next
      case False
      then have "0 \<le> c' \<Longrightarrow> nat c' \<noteq> nat c" using r(4) by (simp add: nat_eq_iff)
      then show ?thesis using False row r len by (auto simp: new cell_def)
    qed
  next
    case False
    then have "0 \<le> r' \<Longrightarrow> nat r' \<noteq> nat r" using r(3) by (simp add: nat_eq_iff)
    then show ?thesis using False len by (auto simp: new cell_def)
  qed
next
  case False
  have "setCell m r c v = m"
  proof (cases "0 \<le> r \<and> r < int n")
    case True
    then have "length (m ! nat r) = n" "length m = n" using assms by (auto simp: square_def)
    then show ?thesis using False True by (auto simp: setCell_def inside_def)
  next
    case False
    then show ?thesis using assms by (auto simp: setCell_def square_def)
  qed
  then show ?thesis using False by simp
qed

text \<open>The value a list of calls leaves in a cell: the last one that names it.\<close>

definition drawn :: "drawing \<Rightarrow> int \<times> int \<Rightarrow> bool option" where
  "drawn calls = map_of (rev (map (\<lambda>(row, col, v). ((row, col), v)) calls))"

lemma drawn_Nil [simp]: "drawn [] = Map.empty"
  by (simp add: drawn_def)

lemma drawn_snoc: "drawn (calls @ [(row, col, v)]) = (drawn calls)((row, col) \<mapsto> v)"
  by (simp add: drawn_def)

lemma set_cells_square: "square n m \<Longrightarrow> square n (set_cells m calls)"
  unfolding set_cells_def
  by (induction calls arbitrary: m) (auto simp: square_setCell)

lemma cell_set_cells:
  assumes "square n m" "inside n r c"
  shows "cell (set_cells m calls) r c =
    (case drawn calls (r, c) of Some v \<Rightarrow> v | None \<Rightarrow> cell m r c)"
proof (induction calls rule: rev_induct)
  case Nil
  then show ?case by (simp add: set_cells_def)
next
  case (snoc call calls)
  obtain row col v where call: "call = (row, col, v)" by (cases call) auto
  have "set_cells m (calls @ [call]) = setCell (set_cells m calls) row col v"
    by (simp add: set_cells_def call)
  then show ?case
    using snoc cell_setCell [OF set_cells_square [OF assms(1)], of calls row col v r c] assms(2)
    by (auto simp: call drawn_snoc)
qed

text \<open>The function patterns: both matrices are squares, and the cells reserved are those some
  call names.\<close>

text \<open>The cells a list of calls names.\<close>

definition called :: "drawing \<Rightarrow> (int \<times> int) set" where
  "called calls = (\<lambda>(row, col, v). (row, col)) ` set calls"

lemma called_simps [simp]:
  "called [] = {}" "called ((row, col, v) # calls) = insert (row, col) (called calls)"
  "called (as @ bs) = called as \<union> called bs"
  "called (concat css) = (\<Union>cs \<in> set css. called cs)"
  by (simp_all add: called_def image_Un image_UN)

lemma dom_drawn: "dom (drawn calls) = called calls"
  by (force simp: drawn_def dom_map_of_conv_image_fst called_def)

lemma set_patterns_square:
  assumes "square n (fst s)" "square n (snd s)"
  shows "square n (fst (foldl (set_pattern n) s calls))
    \<and> square n (snd (foldl (set_pattern n) s calls))
    \<and> (cell (snd (foldl (set_pattern n) s calls)) r c
        \<longleftrightarrow> cell (snd s) r c \<or> (inside n r c \<and> (r, c) \<in> called calls))"
  using assms
proof (induction calls arbitrary: s)
  case (Cons call calls)
  obtain row col v where call: "call = (row, col, v)" by (cases call) auto
  obtain m res where s: "s = (m, res)" by (cases s) auto
  let ?s = "set_pattern n s call"
  have sq: "square n (fst ?s)" "square n (snd ?s)"
    using Cons.prems by (simp_all add: s call square_setCell set_pattern_def)
  have "cell (snd ?s) r c \<longleftrightarrow> cell (snd s) r c \<or> (inside n r c \<and> (r, c) = (row, col))"
    using cell_setCell [of n res row col True r c] Cons.prems
    by (auto simp: s call inside_def set_pattern_def)
  then show ?case using Cons.IH [OF sq] by (auto simp: call)
qed simp

lemma functionPatterns_square:
  "square (qr_size version) (fst (functionPatterns version))"
  "square (qr_size version) (snd (functionPatterns version))"
  "cell (snd (functionPatterns version)) r c
    \<longleftrightarrow> inside (qr_size version) r c
      \<and> (r, c) \<in> called (pattern_calls version)"
  using set_patterns_square [of "qr_size version"
      "(replicate (qr_size version) (replicate (qr_size version) False),
        replicate (qr_size version) (replicate (qr_size version) False))"
      "pattern_calls version" r c]
  by (simp_all add: functionPatterns_def Let_def square_blank cell_blank)

section \<open>Placing and masking\<close>

text \<open>The cells in the order the data visits them.\<close>

function right_columns :: "int \<Rightarrow> int list" where
  "right_columns right =
    (if 1 \<le> right
     then let right = (if right = 6 then right - 1 else right) in right # right_columns (right - 2)
     else [])"
  by pat_completeness auto
termination by (relation "measure nat") (auto split: if_splits)

declare right_columns.simps [simp del]

definition zigzag :: "nat \<Rightarrow> (int \<times> int) list" where
  "zigzag n = concat (map (column_pair (int n)) (right_columns (int n - 1)))"

lemma place_columns_zigzag:
  "place_columns reserved data n right s
    = foldl (place_cell reserved data) s (concat (map (column_pair n) (right_columns right)))"
proof (induction reserved data n right s rule: place_columns.induct)
  case (1 reserved data n right s)
  then show ?case
    by (subst place_columns.simps, subst right_columns.simps) (simp add: Let_def foldl_append)
qed

lemma placeData_zigzag:
  "square n m \<Longrightarrow> placeData m reserved data
    = fst (foldl (place_cell reserved data) (m, 0) (zigzag n))"
  by (simp add: placeData_def Let_def place_columns_zigzag zigzag_def square_def)

lemma right_columns_range:
  "right \<noteq> 6 \<Longrightarrow> r \<in> set (right_columns right) \<Longrightarrow> 1 \<le> r \<and> r \<le> right"
  "right = 6 \<Longrightarrow> r \<in> set (right_columns right) \<Longrightarrow> 1 \<le> r \<and> r \<le> 5"
proof -
  have "r \<in> set (right_columns right) \<Longrightarrow> 1 \<le> r \<and> r \<le> (if right = 6 then 5 else right)"
  proof (induction right rule: right_columns.induct)
    case (1 right)
    then show ?case
      by (subst (asm) right_columns.simps) (auto simp: Let_def split: if_splits)
  qed
  then show "right \<noteq> 6 \<Longrightarrow> r \<in> set (right_columns right) \<Longrightarrow> 1 \<le> r \<and> r \<le> right"
    "right = 6 \<Longrightarrow> r \<in> set (right_columns right) \<Longrightarrow> 1 \<le> r \<and> r \<le> 5" by (auto split: if_splits)
qed

lemma column_pair_range:
  "(row, col) \<in> set (column_pair n right) \<longleftrightarrow> 0 \<le> row \<and> row < n \<and> (col = right \<or> col = right - 1)"
proof -
  have "row \<in> (\<lambda>vert. if (right + 1) AND 2 = 0 then n - 1 - vert else vert) ` {0..n - 1}
      \<longleftrightarrow> 0 \<le> row \<and> row < n"
    by (auto simp: image_iff intro: bexI [of _ "n - 1 - row"])
  then show ?thesis by (auto simp: column_pair_def image_iff)
qed

lemma column_pair_distinct: "distinct (column_pair n right)"
proof -
  have "distinct (concat (map (\<lambda>vert. map (\<lambda>j. (f vert, right - j)) [0, 1 :: int]) verts))"
    if "inj_on f (set verts)" "distinct verts" for f :: "int \<Rightarrow> int" and verts
    using that by (induction verts) (auto simp: inj_on_def)
  moreover have "inj_on (\<lambda>vert. if (right + 1) AND 2 = 0 then n - 1 - vert else vert) A" for A
    by (auto simp: inj_on_def)
  ultimately show ?thesis by (simp add: column_pair_def del: concat.simps)
qed

lemma zigzag_columns_distinct:
  "distinct (concat (map (column_pair n) (right_columns right)))"
proof (induction right rule: right_columns.induct)
  case (1 right)
  show ?case
  proof (cases "1 \<le> right")
    case True
    let ?r = "if right = 6 then right - 1 else right"
    have below: "c \<le> ?r - 2"
      if mem: "(r, c) \<in> set (concat (map (column_pair n) (right_columns (?r - 2))))" for r c
    proof -
      obtain r' where r': "r' \<in> set (right_columns (?r - 2))" "(r, c) \<in> set (column_pair n r')"
        using mem by (auto simp del: right_columns.simps split del: if_split)
      then have "r' \<le> ?r - 2"
        using right_columns_range [of "?r - 2" r'] by (cases "?r - 2 = 6") auto
      then show ?thesis using r'(2) by (auto simp: column_pair_range)
    qed
    have "set (column_pair n ?r)
        \<inter> set (concat (map (column_pair n) (right_columns (?r - 2)))) = {}"
    proof (rule equals0I)
      fix p
      assume p: "p \<in> set (column_pair n ?r)
        \<inter> set (concat (map (column_pair n) (right_columns (?r - 2))))"
      obtain r c where rc: "p = (r, c)" by (cases p)
      have "c \<le> ?r - 2" using below p rc by blast
      moreover have "(r, c) \<in> set (column_pair n ?r)" using p rc by blast
      ultimately show False by (simp only: column_pair_range) linarith
    qed
    then show ?thesis
      using 1 [OF True refl] True column_pair_distinct
      by (subst right_columns.simps) (simp add: Let_def)
  qed (subst right_columns.simps, simp)
qed

lemma zigzag_distinct: "distinct (zigzag n)"
  by (simp add: zigzag_def zigzag_columns_distinct)

text \<open>Data placed over distinct cells inside the square: the \<open>k\<close>-th free one holds the
  \<open>k\<close>-th bit, the others stay.\<close>

definition free_cells :: "matrix \<Rightarrow> (int \<times> int) list \<Rightarrow> (int \<times> int) list" where
  "free_cells reserved cells = filter (\<lambda>(row, col). \<not> cell reserved row col) cells"

definition data_bit :: "int list \<Rightarrow> nat \<Rightarrow> bool" where
  "data_bit data k = bit (at0 data (k div 8)) (7 - k mod 8)"

lemma place_cells:
  fixes reserved data b
  assumes "square n m" "distinct cells" "\<And>r c. (r, c) \<in> set cells \<Longrightarrow> inside n r c"
  defines "t \<equiv> fst (foldl (place_cell reserved data) (m, b) cells)"
  shows "square n t
    \<and> (\<forall>r c. (r, c) \<notin> set (free_cells reserved cells) \<longrightarrow> cell t r c = cell m r c)
    \<and> (\<forall>k < length (free_cells reserved cells).
        case_prod (cell t) (free_cells reserved cells ! k) = data_bit data (b + k))"
  using assms(1-3) unfolding t_def
proof (induction cells arbitrary: m b)
  case Nil
  then show ?case by (simp add: free_cells_def)
next
  case (Cons p cells)
  obtain r c where p: "p = (r, c)" by (cases p)
  show ?case
  proof (cases "cell reserved r c")
    case True
    then show ?thesis
      using Cons.IH [OF Cons.prems(1)] Cons.prems(2,3) by (simp add: p place_cell_def free_cells_def)
  next
    case False
    let ?m = "setCell m r c (data_bit data b)"
    let ?t = "fst (foldl (place_cell reserved data) (?m, b + 1) cells)"
    have in_rc: "inside n r c" using Cons.prems(3) [of r c] p by simp
    have sq: "square n ?m" using Cons.prems(1) by (rule square_setCell)
    have IH: "square n ?t"
        "\<And>r c. (r, c) \<notin> set (free_cells reserved cells) \<Longrightarrow> cell ?t r c = cell ?m r c"
        "\<And>k. k < length (free_cells reserved cells) \<Longrightarrow>
          case_prod (cell ?t) (free_cells reserved cells ! k) = data_bit data (b + 1 + k)"
      using Cons.IH [OF sq, of "b + 1"] Cons.prems(2,3) by auto
    have free: "free_cells reserved (p # cells) = (r, c) # free_cells reserved cells"
      using False by (simp add: free_cells_def p)
    have step: "foldl (place_cell reserved data) (m, b) (p # cells)
        = foldl (place_cell reserved data) (?m, b + 1) cells"
      using False by (simp add: place_cell_def p data_bit_def)
    have "(r, c) \<notin> set (free_cells reserved cells)"
      using Cons.prems(2) p by (auto simp: free_cells_def)
    then have head: "cell ?t r c = data_bit data b"
      using IH(2) cell_setCell [OF Cons.prems(1)] in_rc by simp
    have "case_prod (cell ?t) (free_cells reserved (p # cells) ! k) = data_bit data (b + k)"
      if "k < length (free_cells reserved (p # cells))" for k
      using that IH(3) [of "k - 1"] head by (cases k) (simp_all add: free)
    moreover have "cell ?t r' c' = cell m r' c'"
      if "(r', c') \<notin> set (free_cells reserved (p # cells))" for r' c'
      using that IH(2) [of r' c'] cell_setCell [OF Cons.prems(1), of r c "data_bit data b" r' c']
      by (auto simp: free)
    ultimately show ?thesis using IH(1) unfolding step by blast
  qed
qed

text \<open>The mask turns the free cells it names, and only those.\<close>

lemma mask_cells:
  fixes reserved msk
  assumes "square n m" "distinct cells"
  defines "t \<equiv> foldl (mask_cell reserved msk) m cells"
  shows "square n t
    \<and> (\<forall>r c. inside n r c \<longrightarrow> cell t r c =
        (cell m r c \<noteq> ((r, c) \<in> set cells \<and> \<not> cell reserved r c \<and> maskBit msk r c)))"
  using assms(1,2) unfolding t_def
proof (induction cells arbitrary: m)
  case (Cons p cells)
  obtain r c where p: "p = (r, c)" by (cases p)
  let ?m = "mask_cell reserved msk m p"
  have sq: "square n ?m"
    using Cons.prems(1) by (simp add: p mask_cell_def square_setCell)
  have m: "cell ?m r' c' = (cell m r' c' \<noteq> ((r', c') = (r, c) \<and> \<not> cell reserved r c \<and> maskBit msk r c))"
    if "inside n r' c'" for r' c'
    using that cell_setCell [OF Cons.prems(1), of r c "\<not> cell m r c" r' c']
    by (auto simp: p mask_cell_def)
  have "(r, c) \<notin> set cells" using Cons.prems(2) p by simp
  then show ?case using Cons.IH [OF sq] Cons.prems(2) m by (auto simp: p)
qed simp

lemma all_cells: "distinct [(row, col). row \<leftarrow> [0..n - 1], col \<leftarrow> [0..n - 1 :: int]]"
  "set [(row, col). row \<leftarrow> [0..n - 1], col \<leftarrow> [0..n - 1 :: int]] = {0..n - 1} \<times> {0..n - 1}"
proof -
  have "distinct (concat (map (\<lambda>row. map (Pair row) cols) rows))"
    if "distinct rows" "distinct cols" for rows cols :: "int list"
    using that by (induction rows) (auto simp: distinct_map inj_on_def)
  then show "distinct [(row, col). row \<leftarrow> [0..n - 1], col \<leftarrow> [0..n - 1 :: int]]" by simp
qed auto

lemma applyMask_cell:
  assumes "square n m" "inside n r c"
  shows "square n (applyMask m reserved msk)"
    "cell (applyMask m reserved msk) r c
      = (cell m r c \<noteq> (\<not> cell reserved r c \<and> maskBit msk r c))"
proof -
  define cells where "cells = [(row, col). row \<leftarrow> [0..int n - 1], col \<leftarrow> [0..int n - 1]]"
  have "applyMask m reserved msk = foldl (mask_cell reserved msk) m cells"
    using assms(1) by (simp only: applyMask_def Let_def cells_def square_def)
  moreover have "distinct cells" unfolding cells_def by (rule all_cells)
  note mask_cells [OF assms(1) this, of reserved msk]
  moreover have "(r, c) \<in> set cells"
    unfolding cells_def all_cells(2) using assms(2) by (auto simp: inside_def)
  ultimately show "square n (applyMask m reserved msk)"
    "cell (applyMask m reserved msk) r c
      = (cell m r c \<noteq> (\<not> cell reserved r c \<and> maskBit msk r c))"
    using assms(2) by simp_all
qed

end
