(* ===== verification/QrReader.thy ===== *)
theory QrReader imports QrMatrix begin

text \<open>
  A reader of the square a QR code is (\<open>utils/qrcode.ts\<close>): it finds the version by the size,
  the mask in the format bits, takes the mask off the cells no function pattern reserves, reads
  them in zigzag order and decodes the codewords with every check.  What it needs of the
  encoder: each version leaves room for all its codewords, no cell is written twice, and the
  mask and the format bits touch different cells.
\<close>

section \<open>The cells the standard keeps\<close>

text \<open>The coordinates of the alignment patterns, as the standard tabulates them (ISO 18004,
  annex E), and their centres: every crossing but the three a finder pattern takes.\<close>

definition alignment_table :: "int list list" where
  "alignment_table =
    [[], [6, 18], [6, 22], [6, 26], [6, 30], [6, 34], [6, 22, 38], [6, 24, 42], [6, 26, 46],
     [6, 28, 50], [6, 30, 54], [6, 32, 58], [6, 34, 62], [6, 26, 46, 66], [6, 26, 48, 70], [6,
     26, 50, 74], [6, 30, 54, 78], [6, 30, 56, 82], [6, 30, 58, 86], [6, 34, 62, 90], [6, 28,
     50, 72, 94], [6, 26, 50, 74, 98], [6, 30, 54, 78, 102], [6, 28, 54, 80, 106], [6, 32, 58,
     84, 110], [6, 30, 58, 86, 114], [6, 34, 62, 90, 118], [6, 26, 50, 74, 98, 122], [6, 30,
     54, 78, 102, 126], [6, 26, 52, 78, 104, 130], [6, 30, 56, 82, 108, 134], [6, 34, 60, 86,
     112, 138], [6, 30, 58, 86, 114, 142], [6, 34, 62, 90, 118, 146], [6, 30, 54, 78, 102, 126,
     150], [6, 24, 50, 76, 102, 128, 154], [6, 28, 54, 80, 106, 132, 158], [6, 32, 58, 84, 110,
     136, 162], [6, 26, 54, 82, 110, 138, 166], [6, 30, 58, 86, 114, 142, 170]]"

definition centres :: "nat \<Rightarrow> (int \<times> int) list" where
  "centres version =
    (let ps = alignment_table ! (version - 1); n = int version * 4 + 17
     in filter (\<lambda>(a, b). (a, b) \<noteq> (6, 6) \<and> (a, b) \<noteq> (6, n - 7) \<and> (a, b) \<noteq> (n - 7, 6))
          (concat (map (\<lambda>a. map (Pair a) ps) ps)))"

definition function_cell :: "nat \<Rightarrow> int \<Rightarrow> int \<Rightarrow> bool" where
  "function_cell version r c =
    (let n = int version * 4 + 17
     in (r \<le> 8 \<and> (c \<le> 8 \<or> n - 8 \<le> c)) \<or> (n - 8 \<le> r \<and> c \<le> 8) \<or> r = 6 \<or> c = 6
        \<or> list_ex (\<lambda>(a, b). \<bar>r - a\<bar> \<le> 2 \<and> \<bar>c - b\<bar> \<le> 2) (centres version)
        \<or> (7 \<le> version
            \<and> (r \<le> 5 \<and> n - 11 \<le> c \<and> c \<le> n - 9 \<or> n - 11 \<le> r \<and> r \<le> n - 9 \<and> c \<le> 5)))"

text \<open>The crossings the encoder draws are these centres, by evaluation of its loop.\<close>

definition crossings :: "int list \<Rightarrow> (int \<times> int) list" where
  "crossings positions =
    (let last = length positions - 1
     in concat (map (\<lambda>(i, row). concat (map (\<lambda>(j, col).
          if (i = 0 \<and> j = 0) \<or> (i = 0 \<and> j = last) \<or> (i = last \<and> j = 0) then []
          else [(row, col)]) (enumerate 0 positions))) (enumerate 0 positions)))"

lemma alignmentPositions_table:
  "list_all2 (\<lambda>version ps. alignmentPositions version = ps) [1..<41] alignment_table"
  by code_simp

lemma crossings_centres:
  "list_all (\<lambda>version. crossings (alignment_table ! (version - 1)) = centres version) [1..<41]"
  by code_simp

lemma called_finder:
  "(r, c) \<in> called (finder row col) \<longleftrightarrow> row - 1 \<le> r \<and> r \<le> row + 7 \<and> col - 1 \<le> c \<and> c \<le> col + 7"
proof -
  have "(r, c) \<in> called (finder row col)
      \<longleftrightarrow> (\<exists>r' \<in> {-1..7}. \<exists>c' \<in> {-1..7}. r = row + r' \<and> c = col + c')"
    by (force simp: finder_def called_def)
  also have "\<dots> \<longleftrightarrow> row - 1 \<le> r \<and> r \<le> row + 7 \<and> col - 1 \<le> c \<and> c \<le> col + 7"
    by (auto intro: bexI [of _ "r - row"] bexI [of _ "c - col"])
  finally show ?thesis .
qed

lemma called_alignment_at:
  "(r, c) \<in> called (alignment_at row col) \<longleftrightarrow> row - 2 \<le> r \<and> r \<le> row + 2 \<and> col - 2 \<le> c \<and> c \<le> col + 2"
proof -
  have "(r, c) \<in> called (alignment_at row col)
      \<longleftrightarrow> (\<exists>r' \<in> {-2..2}. \<exists>c' \<in> {-2..2}. r = row + r' \<and> c = col + c')"
    by (force simp: alignment_at_def called_def)
  also have "\<dots> \<longleftrightarrow> row - 2 \<le> r \<and> r \<le> row + 2 \<and> col - 2 \<le> c \<and> c \<le> col + 2"
    by (auto intro: bexI [of _ "r - row"] bexI [of _ "c - col"])
  finally show ?thesis .
qed

lemma called_alignment:
  "called (alignment positions) = (\<Union>(row, col) \<in> set (crossings positions). called (alignment_at row col))"
  unfolding alignment_def crossings_def Let_def by (simp add: split_beta)

lemma called_timing:
  "(r, c) \<in> called (timing n) \<longleftrightarrow> (r = 6 \<and> 8 \<le> c \<and> c \<le> n - 9) \<or> (c = 6 \<and> 8 \<le> r \<and> r \<le> n - 9)"
  by (auto simp: timing_def)

lemma called_format_area:
  "(r, c) \<in> called (format_area n) \<longleftrightarrow>
    (r = 8 \<and> (0 \<le> c \<and> c \<le> 8 \<and> c \<noteq> 6 \<or> n - 8 \<le> c \<and> c \<le> n - 1))
    \<or> (c = 8 \<and> (0 \<le> r \<and> r \<le> 8 \<and> r \<noteq> 6 \<or> n - 8 \<le> r \<and> r \<le> n - 1))"
proof -
  have "(r, c) \<in> called (format_area n) \<longleftrightarrow>
      (\<exists>i \<in> {0..8}. i \<noteq> 6 \<and> ((r = 8 \<and> c = i) \<or> (r = i \<and> c = 8)))
      \<or> (\<exists>i \<in> {0..7}. (r = 8 \<and> c = n - 1 - i) \<or> (r = n - 1 - i \<and> c = 8)) \<or> (r = n - 8 \<and> c = 8)"
    by (auto simp: format_area_def split: if_splits)
  also have "\<dots> \<longleftrightarrow>
      (r = 8 \<and> (0 \<le> c \<and> c \<le> 8 \<and> c \<noteq> 6 \<or> n - 8 \<le> c \<and> c \<le> n - 1))
      \<or> (c = 8 \<and> (0 \<le> r \<and> r \<le> 8 \<and> r \<noteq> 6 \<or> n - 8 \<le> r \<and> r \<le> n - 1))"
    by (auto intro: bexI [of _ "n - 1 - c"] bexI [of _ "n - 1 - r"])
  finally show ?thesis .
qed

lemma called_version_area:
  "(r, c) \<in> called (version_area version n) \<longleftrightarrow> 7 \<le> version
    \<and> (0 \<le> r \<and> r \<le> 5 \<and> n - 11 \<le> c \<and> c \<le> n - 9 \<or> n - 11 \<le> r \<and> r \<le> n - 9 \<and> 0 \<le> c \<and> c \<le> 5)"
proof -
  have digits: "(\<exists>i. 0 \<le> i \<and> i \<le> 17 \<and> x = i div 3 \<and> y = n - 11 + i mod 3)
      \<longleftrightarrow> 0 \<le> x \<and> x \<le> 5 \<and> n - 11 \<le> y \<and> y \<le> n - 9" for x y :: int
  proof
    assume xy: "0 \<le> x \<and> x \<le> 5 \<and> n - 11 \<le> y \<and> y \<le> n - 9"
    define d where "d = y - (n - 11)"
    have "0 \<le> d" "d \<le> 2" "y = n - 11 + d" using xy by (simp_all add: d_def)
    moreover then have "(d + x * 3) div 3 = x" "(d + x * 3) mod 3 = d" by simp_all
    ultimately show "\<exists>i. 0 \<le> i \<and> i \<le> 17 \<and> x = i div 3 \<and> y = n - 11 + i mod 3"
      using xy by (intro exI [of _ "d + x * 3"]) simp
  next
    assume "\<exists>i. 0 \<le> i \<and> i \<le> 17 \<and> x = i div 3 \<and> y = n - 11 + i mod 3"
    then obtain i where i: "0 \<le> i" "i \<le> 17" "x = i div 3" "y = n - 11 + i mod 3" by blast
    have "i = 3 * (i div 3) + i mod 3" "0 \<le> i mod 3" "i mod 3 < 3" by simp_all
    then show "0 \<le> x \<and> x \<le> 5 \<and> n - 11 \<le> y \<and> y \<le> n - 9" using i by linarith
  qed
  have set17: "set [0..17 :: int] = {0..17}" by (rule set_upto)
  have "called (version_area version n) = (if 7 \<le> version
      then \<Union>i \<in> {0..17}. {(i div 3, n - 11 + i mod 3), (n - 11 + i mod 3, i div 3)} else {})"
    unfolding version_area_def Let_def by (simp only: called_simps set_map set17 UN_simps if_distrib)
      simp
  then have "(r, c) \<in> called (version_area version n) \<longleftrightarrow> 7 \<le> version
      \<and> ((\<exists>i. 0 \<le> i \<and> i \<le> 17 \<and> r = i div 3 \<and> c = n - 11 + i mod 3)
         \<or> (\<exists>i. 0 \<le> i \<and> i \<le> 17 \<and> c = i div 3 \<and> r = n - 11 + i mod 3))"
    by (simp only: UN_iff Bex_def atLeastAtMost_iff insert_iff empty_iff prod.inject split: if_split) blast
  then show ?thesis unfolding digits by blast
qed

lemma crossings_alignment:
  assumes "1 \<le> version" "version \<le> 40"
  shows "crossings (alignmentPositions version) = centres version"
proof -
  have "version \<in> set [1..<41]" using assms by simp
  moreover have "alignmentPositions version = alignment_table ! (version - 1)"
    using list_all2_nthD [OF alignmentPositions_table, of "version - 1"] assms by (simp add: nth_upt)
  ultimately show ?thesis using crossings_centres by (simp add: list_all_iff)
qed

lemma frame_cells:
  fixes r c n :: int
  assumes "21 \<le> n" "0 \<le> r" "r < n" "0 \<le> c" "c < n"
  shows "(r \<le> 7 \<and> c \<le> 7) \<or> (r \<le> 7 \<and> n - 8 \<le> c) \<or> (n - 8 \<le> r \<and> c \<le> 7)
      \<or> (r = 6 \<and> 8 \<le> c \<and> c \<le> n - 9) \<or> (c = 6 \<and> 8 \<le> r \<and> r \<le> n - 9)
      \<or> (r = 8 \<and> (c \<le> 8 \<and> c \<noteq> 6 \<or> n - 8 \<le> c)) \<or> (c = 8 \<and> (r \<le> 8 \<and> r \<noteq> 6 \<or> n - 8 \<le> r))
    \<longleftrightarrow> (r \<le> 8 \<and> (c \<le> 8 \<or> n - 8 \<le> c)) \<or> (n - 8 \<le> r \<and> c \<le> 8) \<or> r = 6 \<or> c = 6"
proof -
  consider "r < 6" | "r = 6" | "r = 7" | "r = 8" | "8 < r" "r < n - 8" | "n - 8 \<le> r" by linarith
  then show ?thesis
    by cases (use assms in \<open>auto simp: not_le not_less\<close>)
qed

text \<open>The cells the encoder reserves are the standard's.\<close>

lemma reserved_function_cell:
  assumes "1 \<le> version" "version \<le> 40"
  shows "cell (snd (functionPatterns version)) r c
    \<longleftrightarrow> inside (qr_size version) r c \<and> function_cell version r c"
proof (cases "inside (qr_size version) r c")
  case True
  define n where "n = int (qr_size version)"
  have n: "21 \<le> n" "int version * 4 + 17 = n" using assms(1) by (simp_all add: n_def qr_size_def)
  have rc: "0 \<le> r" "r < n" "0 \<le> c" "c < n" using True by (auto simp: inside_def n_def)
  define aligned where "aligned \<longleftrightarrow> list_ex (\<lambda>(a, b). \<bar>r - a\<bar> \<le> 2 \<and> \<bar>c - b\<bar> \<le> 2) (centres version)"
  have al: "(r, c) \<in> called (alignment (alignmentPositions version)) \<longleftrightarrow> aligned"
  proof -
    have "(r, c) \<in> called (alignment_at a b) \<longleftrightarrow> \<bar>r - a\<bar> \<le> 2 \<and> \<bar>c - b\<bar> \<le> 2" for a b
      unfolding called_alignment_at by linarith
    then show ?thesis
      by (simp add: called_alignment crossings_alignment [OF assms] aligned_def list_ex_iff split_beta)
  qed
  define va where "va \<longleftrightarrow> 7 \<le> version
    \<and> (r \<le> 5 \<and> n - 11 \<le> c \<and> c \<le> n - 9 \<or> n - 11 \<le> r \<and> r \<le> n - 9 \<and> c \<le> 5)"
  have parts: "(r, c) \<in> called (finder 0 0) \<longleftrightarrow> r \<le> 7 \<and> c \<le> 7"
      "(r, c) \<in> called (finder 0 (n - 7)) \<longleftrightarrow> r \<le> 7 \<and> n - 8 \<le> c"
      "(r, c) \<in> called (finder (n - 7) 0) \<longleftrightarrow> n - 8 \<le> r \<and> c \<le> 7"
      "(r, c) \<in> called (format_area n) \<longleftrightarrow> (r = 8 \<and> (c \<le> 8 \<and> c \<noteq> 6 \<or> n - 8 \<le> c))
        \<or> (c = 8 \<and> (r \<le> 8 \<and> r \<noteq> 6 \<or> n - 8 \<le> r))"
      "(r, c) \<in> called (version_area version n) \<longleftrightarrow> va"
    using rc by (simp_all add: called_finder called_format_area called_version_area va_def)
  have "(r, c) \<in> called (pattern_calls version) \<longleftrightarrow>
      ((r \<le> 7 \<and> c \<le> 7) \<or> (r \<le> 7 \<and> n - 8 \<le> c) \<or> (n - 8 \<le> r \<and> c \<le> 7)
      \<or> (r = 6 \<and> 8 \<le> c \<and> c \<le> n - 9) \<or> (c = 6 \<and> 8 \<le> r \<and> r \<le> n - 9)
      \<or> (r = 8 \<and> (c \<le> 8 \<and> c \<noteq> 6 \<or> n - 8 \<le> c)) \<or> (c = 8 \<and> (r \<le> 8 \<and> r \<noteq> 6 \<or> n - 8 \<le> r)))
      \<or> aligned \<or> va"
    unfolding pattern_calls_def Let_def n_def [symmetric] called_simps Un_iff al parts called_timing
    by blast
  also have "\<dots> \<longleftrightarrow> function_cell version r c"
    unfolding frame_cells [OF n(1) rc] function_cell_def Let_def n(2) aligned_def [symmetric]
      va_def [symmetric]
    by blast
  finally show ?thesis using True by (simp add: functionPatterns_square)
qed (simp add: functionPatterns_square)

section \<open>Room for the codewords\<close>

definition area :: "int \<Rightarrow> int \<Rightarrow> int \<Rightarrow> int \<Rightarrow> (int \<times> int) list" where
  "area r0 r1 c0 c1 = concat (map (\<lambda>r. map (Pair r) [c0..c1]) [r0..r1])"

lemma set_area [simp]: "(r, c) \<in> set (area r0 r1 c0 c1) \<longleftrightarrow> r0 \<le> r \<and> r \<le> r1 \<and> c0 \<le> c \<and> c \<le> c1"
  by (force simp: area_def)

lemma length_area: "length (area r0 r1 c0 c1) = nat (r1 - r0 + 1) * nat (c1 - c0 + 1)"
proof -
  have "length (concat (map (\<lambda>r. map (Pair r) cs) rs)) = length rs * length cs" for rs cs :: "int list"
    by (induction rs) simp_all
  then show ?thesis by (simp add: area_def)
qed

text \<open>The cells an alignment pattern may take besides the timing lines.\<close>

definition align_area :: "int \<Rightarrow> int \<Rightarrow> (int \<times> int) list" where
  "align_area row col =
    (if row = 6 then area 4 5 (col - 2) (col + 2) @ area 7 8 (col - 2) (col + 2)
     else if col = 6 then area (row - 2) (row + 2) 4 5 @ area (row - 2) (row + 2) 7 8
     else area (row - 2) (row + 2) (col - 2) (col + 2))"

definition cover :: "nat \<Rightarrow> (int \<times> int) list" where
  "cover version =
    (let n = int (qr_size version)
     in area 0 8 0 5 @ area 0 8 7 8 @ area 0 8 (n - 8) (n - 1)
        @ area (n - 8) (n - 1) 0 5 @ area (n - 8) (n - 1) 7 8 @ area 6 6 9 (n - 9)
        @ concat (map (\<lambda>(row, col). align_area row col) (centres version))
        @ (if 7 \<le> version then area 0 5 (n - 11) (n - 9) @ area (n - 11) (n - 9) 0 5 else []))"

definition crossing_cells :: "nat \<Rightarrow> int" where
  "crossing_cells version =
    sum_list (map (\<lambda>(row, col). if row = 6 \<or> col = 6 then 20 else 25) (centres version))"

definition cover_size :: "nat \<Rightarrow> int" where
  "cover_size version =
    191 + int (qr_size version) + crossing_cells version
    + (if 7 \<le> version then 36 else 0)"

lemma length_cover: "int (length (cover version)) = cover_size version" if "1 \<le> version"
proof -
  have "int (length (align_area row col)) = (if row = 6 \<or> col = 6 then 20 else 25)" for row col
    by (simp add: align_area_def length_area)
  then have "int (length (concat (map (\<lambda>(row, col). align_area row col) ps)))
      = sum_list (map (\<lambda>(row, col). if row = 6 \<or> col = 6 then 20 else 25) ps)" for ps
    by (induction ps) auto
  moreover have "21 \<le> int (qr_size version)" using that by (simp add: qr_size_def)
  ultimately show ?thesis
    by (simp add: cover_def cover_size_def crossing_cells_def Let_def length_area)
qed

text \<open>What the alignment patterns of the forty versions take, and the room they leave.\<close>

definition crossing_table :: "int list" where
  "crossing_table =
    [0, 25, 25, 25, 25, 25, 140, 140, 140, 140, 140, 140, 140, 305, 305, 305, 305, 305, 305,
     305, 520, 520, 520, 520, 520, 520, 520, 785, 785, 785, 785, 785, 785, 785, 1100, 1100,
     1100, 1100, 1100, 1100]"

lemma crossing_table:
  "list_all2 (\<lambda>version cells. crossing_cells version = cells)
     [1..<41] crossing_table"
  by code_simp

lemma table_fits:
  "list_all (\<lambda>(version, cells, cws, ec, blocks).
     191 + (4 * version + 17) + cells + (if 7 \<le> version then 36 else 0) + 8 * int cws
       \<le> (4 * version + 17) * (4 * version + 16))
   (zip [1..40] (zip crossing_table VERSIONS))"
proof -
  have "[1..40] = [1 :: int, 2, 3, 4, 5, 6, 7, 8, 9, 10, 11, 12, 13, 14, 15, 16, 17, 18, 19, 20, 21, 22, 23, 24, 25,
     26, 27, 28, 29, 30, 31, 32, 33, 34, 35, 36, 37, 38, 39, 40]"
    by (simp add: upto_rec1)
  then show ?thesis by (simp add: VERSIONS_def crossing_table_def)
qed

lemma cover_fits:
  assumes "versionInfo version = Inr (cws, ec, blocks)"
  shows "cover_size version + 8 * int cws \<le> int (qr_size version) * (int (qr_size version) - 1)"
proof -
  let ?i = "version - 1"
  have v: "1 \<le> version" "?i < 40" "VERSIONS ! ?i = (cws, ec, blocks)"
    using assms by (auto simp: versionInfo_def split: if_splits)
  have table: "length crossing_table = 40" by (simp add: crossing_table_def)
  have "crossing_cells version = crossing_table ! ?i"
    using list_all2_nthD [OF crossing_table, of ?i] v by (simp add: nth_upt)
  moreover have "(int version, crossing_table ! ?i, cws, ec, blocks)
      \<in> set (zip [1..40] (zip crossing_table VERSIONS))"
    using v table by (auto simp: in_set_zip nth_upto of_nat_diff intro!: exI [of _ ?i])
  then have "191 + (4 * int version + 17) + crossing_table ! ?i
      + (if 7 \<le> int version then 36 else 0) + 8 * int cws
      \<le> (4 * int version + 17) * (4 * int version + 16)"
    using table_fits by (fastforce simp: list_all_iff)
  ultimately show ?thesis
    by (simp add: cover_size_def qr_size_def algebra_simps)
qed

text \<open>Outside the vertical timing line, every function cell is in the cover.\<close>

lemma function_cell_cover:
  assumes "1 \<le> version" "c \<noteq> 6" "inside (qr_size version) r c" "function_cell version r c"
  shows "(r, c) \<in> set (cover version)"
proof -
  define n where "n = int (qr_size version)"
  have n: "21 \<le> n" "int version * 4 + 17 = n" using assms(1) by (simp_all add: n_def qr_size_def)
  have in_rc: "0 \<le> r" "r < n" "0 \<le> c" "c < n" using assms(3) by (auto simp: inside_def n_def)
  define aligned where "aligned = concat (map (\<lambda>(row, col). align_area row col) (centres version))"
  have cover: "(r, c) \<in> set (cover version) \<longleftrightarrow>
      (0 \<le> r \<and> r \<le> 8 \<and> 0 \<le> c \<and> c \<le> 5) \<or> (0 \<le> r \<and> r \<le> 8 \<and> 7 \<le> c \<and> c \<le> 8)
      \<or> (0 \<le> r \<and> r \<le> 8 \<and> n - 8 \<le> c \<and> c \<le> n - 1)
      \<or> (n - 8 \<le> r \<and> r \<le> n - 1 \<and> 0 \<le> c \<and> c \<le> 5) \<or> (n - 8 \<le> r \<and> r \<le> n - 1 \<and> 7 \<le> c \<and> c \<le> 8)
      \<or> (6 \<le> r \<and> r \<le> 6 \<and> 9 \<le> c \<and> c \<le> n - 9)
      \<or> (r, c) \<in> set aligned
      \<or> (7 \<le> version \<and> (0 \<le> r \<and> r \<le> 5 \<and> n - 11 \<le> c \<and> c \<le> n - 9
          \<or> n - 11 \<le> r \<and> r \<le> n - 9 \<and> 0 \<le> c \<and> c \<le> 5))"
    unfolding cover_def Let_def n_def [symmetric] aligned_def [symmetric] set_append Un_iff set_area
    by (simp only: if_distrib [of set] set_append set_area Un_iff split: if_split) simp
  have corner: "(r, c) \<in> set (cover version)" if "r \<le> 8 \<and> (c \<le> 8 \<or> n - 8 \<le> c) \<or> n - 8 \<le> r \<and> c \<le> 8"
  proof -
    have "c \<le> 5 \<or> 7 \<le> c" using assms(2) by linarith
    with that in_rc consider "0 \<le> r \<and> r \<le> 8 \<and> 0 \<le> c \<and> c \<le> 5" | "0 \<le> r \<and> r \<le> 8 \<and> 7 \<le> c \<and> c \<le> 8"
      | "0 \<le> r \<and> r \<le> 8 \<and> n - 8 \<le> c \<and> c \<le> n - 1"
      | "n - 8 \<le> r \<and> r \<le> n - 1 \<and> 0 \<le> c \<and> c \<le> 5" | "n - 8 \<le> r \<and> r \<le> n - 1 \<and> 7 \<le> c \<and> c \<le> 8"
      by fastforce
    then show ?thesis unfolding cover by cases simp_all
  qed
  have row6: "(r, c) \<in> set (cover version)" if "r = 6"
  proof (cases "c \<le> 8 \<or> n - 8 \<le> c")
    case True
    then show ?thesis by (intro corner) (simp add: that)
  next
    case False
    then have "6 \<le> r \<and> r \<le> 6 \<and> 9 \<le> c \<and> c \<le> n - 9" using that by simp
    then show ?thesis unfolding cover by blast
  qed
  consider "r \<le> 8 \<and> (c \<le> 8 \<or> n - 8 \<le> c) \<or> n - 8 \<le> r \<and> c \<le> 8" | "r = 6"
    | "list_ex (\<lambda>(a, b). \<bar>r - a\<bar> \<le> 2 \<and> \<bar>c - b\<bar> \<le> 2) (centres version)" "r \<noteq> 6"
    | "7 \<le> version \<and> (r \<le> 5 \<and> n - 11 \<le> c \<and> c \<le> n - 9 \<or> n - 11 \<le> r \<and> r \<le> n - 9 \<and> c \<le> 5)"
    using assms(2,4) unfolding function_cell_def Let_def n(2) by blast
  then show ?thesis
  proof cases
    case 3
    then obtain a b where ab: "(a, b) \<in> set (centres version)" "\<bar>r - a\<bar> \<le> 2" "\<bar>c - b\<bar> \<le> 2"
      by (auto simp: list_ex_iff)
    then have "(r, c) \<in> set (align_area a b)"
      using 3(2) assms(2) by (auto simp: align_area_def)
    then have "(r, c) \<in> set aligned" using ab(1) by (force simp: aligned_def)
    then show ?thesis unfolding cover by blast
  next
    case 4
    then have "7 \<le> version \<and> (0 \<le> r \<and> r \<le> 5 \<and> n - 11 \<le> c \<and> c \<le> n - 9
        \<or> n - 11 \<le> r \<and> r \<le> n - 9 \<and> 0 \<le> c \<and> c \<le> 5)" using in_rc by blast
    then show ?thesis unfolding cover by - ((rule disjI2)+, assumption)
  qed (rule corner row6; assumption)+
qed

text \<open>The zigzag visits every cell but the vertical timing line, once.\<close>

lemma small_or_even:
  fixes right :: int
  assumes "0 < right" "odd right \<and> right \<le> 5 \<or> even right \<and> 6 \<le> right" "right \<noteq> 1"
  shows "right = 3 \<or> right = 5 \<or> right = 6 \<or> even right \<and> 8 \<le> right"
  using assms by presburger

lemma right_columns_cover:
  "0 < right \<Longrightarrow> odd right \<and> right \<le> 5 \<or> even right \<and> 6 \<le> right
    \<Longrightarrow> (\<exists>r \<in> set (right_columns right). c = r \<or> c = r - 1) \<longleftrightarrow> 0 \<le> c \<and> c \<le> right \<and> (c \<noteq> 6 \<or> odd right)"
proof (induction right rule: right_columns.induct)
  case (1 right)
  let ?r = "if right = 6 then right - 1 else right"
  have "right_columns right = ?r # right_columns (?r - 2)"
    using 1(2) by (subst right_columns.simps) (simp add: Let_def)
  then have ex: "(\<exists>r \<in> set (right_columns right). c = r \<or> c = r - 1)
      \<longleftrightarrow> c = ?r \<or> c = ?r - 1 \<or> (\<exists>r \<in> set (right_columns (?r - 2)). c = r \<or> c = r - 1)" by auto
  show ?case
  proof (cases "right = 1")
    case True
    have "right_columns (- 1) = []" by (subst right_columns.simps) simp
    then show ?thesis unfolding ex using True by auto
  next
    case False
    have "0 < ?r - 2" "odd (?r - 2) \<and> ?r - 2 \<le> 5 \<or> even (?r - 2) \<and> 6 \<le> ?r - 2"
      using small_or_even [OF 1(2,3) False] by auto
    then have "(\<exists>r \<in> set (right_columns (?r - 2)). c = r \<or> c = r - 1)
        \<longleftrightarrow> 0 \<le> c \<and> c \<le> ?r - 2 \<and> (c \<noteq> 6 \<or> odd (?r - 2))"
      using 1(1) [OF _ refl] 1(2) by simp
    then show ?thesis unfolding ex using 1(2,3) by (auto split: if_splits)
  qed
qed

lemma set_zigzag:
  assumes "odd n" "7 \<le> n"
  shows "set (zigzag n) = {0..int n - 1} \<times> ({0..int n - 1} - {6})"
proof -
  have "(r, c) \<in> set (zigzag n) \<longleftrightarrow> 0 \<le> r \<and> r < int n
      \<and> (\<exists>right \<in> set (right_columns (int n - 1)). c = right \<or> c = right - 1)" for r c
    by (auto simp: zigzag_def column_pair_range)
  also have "\<dots> r c \<longleftrightarrow> 0 \<le> r \<and> r < int n \<and> 0 \<le> c \<and> c \<le> int n - 1 \<and> c \<noteq> 6" for r c
    using right_columns_cover [of "int n - 1" c] assms by auto
  finally show ?thesis by auto
qed

lemma length_zigzag: "odd n \<Longrightarrow> 7 \<le> n \<Longrightarrow> length (zigzag n) = n * (n - 1)"
  using distinct_card [OF zigzag_distinct, of n] by (simp add: set_zigzag card_cartesian_product)

lemma zigzag_inside: "odd n \<Longrightarrow> 7 \<le> n \<Longrightarrow> (r, c) \<in> set (zigzag n) \<Longrightarrow> inside n r c"
  by (auto simp: set_zigzag inside_def)

text \<open>The cells a reader reads the data from; each version has room for all its codewords.\<close>

definition data_cells :: "nat \<Rightarrow> (int \<times> int) list" where
  "data_cells version = filter (\<lambda>(r, c). \<not> function_cell version r c) (zigzag (qr_size version))"

lemma data_cells_free:
  assumes "1 \<le> version" "version \<le> 40"
  shows "free_cells (snd (functionPatterns version)) (zigzag (qr_size version)) = data_cells version"
proof -
  have "odd (qr_size version)" "7 \<le> qr_size version" using assms by (simp_all add: qr_size_def)
  note zigzag_inside [OF this]
  then show ?thesis
    by (auto simp: free_cells_def data_cells_def reserved_function_cell [OF assms] intro!: filter_cong)
qed

lemma room_for_codewords:
  assumes "versionInfo version = Inr (cws, ec, blocks)"
  shows "8 * cws \<le> length (data_cells version)"
proof -
  let ?n = "qr_size version"
  have v: "1 \<le> version" "version \<le> 40" using version_sound [OF assms] by simp_all
  have n: "odd ?n" "7 \<le> ?n" using v by (simp_all add: qr_size_def)
  let ?taken = "filter (\<lambda>(r, c). function_cell version r c) (zigzag ?n)"
  have "set ?taken \<subseteq> set (cover version)"
    using n zigzag_inside [OF n] by (auto simp: set_zigzag intro!: function_cell_cover [OF v(1)])
  then have "card (set ?taken) \<le> length (cover version)"
    by (meson List.finite_set card_length card_mono order_trans)
  then have "int (length ?taken) \<le> cover_size version"
    using distinct_card [of ?taken] zigzag_distinct length_cover [OF v(1)] by simp
  moreover note cover_fits [OF assms]
  moreover have "length (data_cells version) + length ?taken = ?n * (?n - 1)"
    using sum_length_filter_compl [of "\<lambda>(r, c). function_cell version r c" "zigzag ?n"]
      length_zigzag [OF n]
    unfolding data_cells_def case_prod_unfold by simp
  moreover have "int (?n * (?n - 1)) = int ?n * (int ?n - 1)" using n by (simp add: of_nat_diff)
  ultimately show ?thesis by linarith
qed

section \<open>The reader\<close>

text \<open>Where the first copy of format bit \<open>i\<close> stands.\<close>

definition format_place :: "int \<Rightarrow> int \<times> int" where
  "format_place i =
    (if i \<le> 5 then (i, 8) else if i = 6 then (7, 8) else if i = 7 then (8, 8)
     else if i = 8 then (8, 7) else (8, 14 - i))"

definition read_mask :: "matrix \<Rightarrow> nat option" where
  "read_mask m =
    (let bits = read_number (map (\<lambda>i. case_prod (cell m) (format_place i)) (rev [0..14]));
         data = drop_bit 10 (bits XOR 0x5412)
     in if data < 8 then Some (nat data) else None)"

definition read_matrix :: "matrix \<Rightarrow> byte list option" where
  "read_matrix m =
    (let version = (length m - 17) div 4
     in case (versionInfo version, read_mask m) of
          (Inr (cws, ec, blocks), Some msk) \<Rightarrow>
            let bits = map (\<lambda>(r, c). cell m r c \<noteq> maskBit msk r c) (data_cells version)
            in read_codewords version (data_bytes (take (8 * cws) bits))
        | _ \<Rightarrow> None)"

section \<open>Format bits\<close>

lemma format_bits_read:
  "msk < 8 \<Longrightarrow> 0 \<le> format_bits msk \<and> format_bits msk < 2 ^ 15
    \<and> drop_bit 10 (format_bits msk XOR 0x5412) = int msk"
proof -
  have "list_all (\<lambda>msk. 0 \<le> format_bits msk \<and> format_bits msk < 2 ^ 15
      \<and> drop_bit 10 (format_bits msk XOR 0x5412) = int msk) [0..<8]" by code_simp
  moreover assume "msk < 8"
  ultimately show ?thesis by (simp add: list_all_iff)
qed

lemma upto_literals:
  "[0..5] = [0, 1, 2, 3, 4, 5 :: int]" "[9..14] = [9, 10, 11, 12, 13, 14 :: int]"
  "[0..7] = [0, 1, 2, 3, 4, 5, 6, 7 :: int]" "[8..14] = [8, 9, 10, 11, 12, 13, 14 :: int]"
  "[0..14] = [0, 1, 2, 3, 4, 5, 6, 7, 8, 9, 10, 11, 12, 13, 14 :: int]"
  by (simp_all add: upto_rec1)

lemma format_calls_drawn:
  assumes "21 \<le> n" "i \<in> set [0..14]"
  shows "drawn (format_calls n bits) (format_place i) = Some (bit bits (nat i))"
proof -
  have "i \<in> {0, 1, 2, 3, 4, 5} \<or> i \<in> {6, 7, 8} \<or> i \<in> {9, 10, 11, 12, 13, 14}"
    using assms(2) unfolding set_upto atLeastAtMost_iff insert_iff empty_iff by presburger
  then show ?thesis
    using assms(1)
    by (elim disjE insertE) (simp_all add: drawn_def format_calls_def upto_literals format_place_def)
qed

lemma format_calls_reserved:
  assumes "21 \<le> n"
  shows "called (format_calls n bits) \<subseteq> called (format_area n)"
proof -
  have "(r, c) \<in> called (format_area n)" if "(r, c) \<in> called (format_calls n bits)" for r c
    using that assms unfolding called_format_area by (auto simp: format_calls_def called_def)
  then show ?thesis by auto
qed

lemma read_mask_writeFormat:
  assumes "square n m" "21 \<le> n" "msk < 8"
  shows "read_mask (writeFormat m msk) = Some msk"
proof -
  let ?fb = "format_bits msk"
  have n: "int (length m) = int n" using assms(1) by (simp add: square_def)
  have "case_prod (cell (writeFormat m msk)) (format_place i) = bit ?fb (nat i)"
    if i: "i \<in> set [0..14]" for i
  proof -
    obtain r c where rc: "format_place i = (r, c)" by (cases "format_place i")
    then have "inside n r c"
      using i assms(2) by (auto simp: format_place_def inside_def split: if_splits)
    then show ?thesis
      using cell_set_cells [OF assms(1)] format_calls_drawn [of "int n" i ?fb] i assms(2) rc
      by (simp add: writeFormat_def n)
  qed
  then have "map (\<lambda>i. case_prod (cell (writeFormat m msk)) (format_place i)) (rev [0..14])
      = map (\<lambda>i. bit ?fb (nat i)) (rev [0..14])" by (intro map_cong) simp_all
  also have "\<dots> = bits_of ?fb 15"
  proof -
    have "[0..14] = map int [0..<15]" by (simp add: upto_literals upt_conv_Cons)
    then show ?thesis by (simp add: bits_of_def rev_map [symmetric] del: upt_rec_numeral)
  qed
  moreover have "take_bit 15 ?fb = ?fb"
    using format_bits_read [OF assms(3)] by (simp add: take_bit_int_eq_self_iff)
  ultimately have "read_number (map (\<lambda>i. case_prod (cell (writeFormat m msk)) (format_place i))
      (rev [0..14])) = ?fb" by (simp add: read_number_bits_of)
  then show ?thesis
    using format_bits_read [OF assms(3)] assms(3) by (simp only: read_mask_def Let_def) simp
qed

section \<open>Data bits\<close>

lemma data_bits: "map (data_bit data) [0..<8 * length data] = concat (map (\<lambda>b. bits_of b 8) data)"
proof (induction data rule: rev_induct)
  case (snoc b data)
  have "[0..<8 * length (data @ [b])]
      = [0..<8 * length data] @ map (\<lambda>k. k + 8 * length data) [0..<8]"
    using upt_add_eq_append [of 0 "8 * length data" 8]
    by (simp add: map_add_upt add.commute del: upt_conv_Cons)
  moreover have "map (data_bit (data @ [b])) [0..<8 * length data]
      = map (data_bit data) [0..<8 * length data]"
    by (auto simp: data_bit_def at0_def nth_append)
  moreover have "map (\<lambda>k. data_bit (data @ [b]) (k + 8 * length data)) [0..<8] = bits_of b 8"
  proof -
    have "map (\<lambda>k. data_bit (data @ [b]) (k + 8 * length data)) [0..<8]
        = map (\<lambda>k. bit b (7 - k)) [0..<8]"
      by (auto simp: data_bit_def at0_def nth_append)
    also have "\<dots> = bits_of b 8" by (rule nth_equalityI) (auto simp: bits_of_def rev_nth)
    finally show ?thesis .
  qed
  ultimately show ?case using snoc by (simp add: o_def)
qed simp

lemma data_bytes_bits: "bytes_of data \<Longrightarrow> data_bytes (concat (map (\<lambda>b. bits_of b 8) data)) = data"
proof (induction data)
  case Nil
  then show ?case by (subst data_bytes.simps) simp
next
  case (Cons b data)
  let ?bits = "bits_of b 8 @ concat (map (\<lambda>b. bits_of b 8) data)"
  have "?bits \<noteq> []" by (metis append_is_Nil_conv bits_of_length list.size(3) zero_neq_numeral)
  moreover have "byte_at ?bits = b"
    using byte_at_read_number [of ?bits] Cons.prems
    by (simp add: read_number_bits_of take_bit_int_eq_self_iff)
  ultimately show ?case using Cons by (subst data_bytes.simps) simp
qed

section \<open>Reading a candidate\<close>

lemma candidate_square:
  "square (qr_size version) (candidate version data msk)"
proof -
  let ?n = "qr_size version"
  obtain m res where f: "functionPatterns version = (m, res)" by (cases "functionPatterns version")
  then have "square ?n m" using functionPatterns_square(1) [of version] by simp
  moreover have place: "square n (fst (foldl (place_cell res data) (m, b) cells))"
    if "square n m" for n m b cells
    using that
    by (induction cells arbitrary: m b) (auto simp: place_cell_def square_setCell)
  ultimately have "square ?n (placeData m res data)" by (simp add: placeData_zigzag)
  moreover have "square n (foldl (mask_cell res msk) m cells)" if "square n m" for n m cells
    using that by (induction cells arbitrary: m) (auto simp: mask_cell_def square_setCell)
  ultimately show ?thesis
    by (simp add: candidate_def f applyMask_def Let_def writeFormat_def set_cells_square)
qed

lemma candidate_bits:
  fixes data
  assumes "1 \<le> version" "version \<le> 40" "msk < 8"
  defines "m \<equiv> candidate version data msk"
    and "free \<equiv> data_cells version"
  shows "read_mask m = Some msk"
    "map (\<lambda>(r, c). cell m r c \<noteq> maskBit msk r c) free = map (data_bit data) [0..<length free]"
proof -
  define n where "n = qr_size version"
  have n: "odd n" "21 \<le> n" "7 \<le> n" using assms(1) by (simp_all add: n_def qr_size_def)
  obtain m0 res where f: "functionPatterns version = (m0, res)" by (cases "functionPatterns version")
  note fp = functionPatterns_square [of version, unfolded f fst_conv snd_conv n_def [symmetric]]
  define m1 where "m1 = placeData m0 res data"
  define m2 where "m2 = applyMask m1 res msk"
  have m: "m = writeFormat m2 msk" by (simp add: m_def candidate_def f m1_def m2_def)
  have free: "free = free_cells res (zigzag n)"
    using data_cells_free [OF assms(1,2)] by (simp add: free_def f n_def)
  note place = place_cells [OF fp(1) zigzag_distinct zigzag_inside [OF n(1,3)], of n res data 0]
  have m1: "square n m1"
      "\<And>k. k < length free \<Longrightarrow> case_prod (cell m1) (free ! k) = data_bit data k"
    using place unfolding m1_def placeData_zigzag [OF fp(1)] free by simp_all
  have "inside n 0 0" using n by (simp add: inside_def)
  note m2 = applyMask_cell [OF m1(1), of _ _ res msk, folded m2_def]
  have sq2: "square n m2" by (rule m2(1) [OF \<open>inside n 0 0\<close>])
  show "read_mask m = Some msk"
    unfolding m by (rule read_mask_writeFormat [OF sq2 n(2) assms(3)])
  have "(case free ! k of (r, c) \<Rightarrow> cell m r c \<noteq> maskBit msk r c) = data_bit data k"
    if k: "k < length free" for k
  proof -
    obtain r c where rc: "free ! k = (r, c)" by (cases "free ! k")
    then have "(r, c) \<in> set free" using k by (metis nth_mem)
    then have cell_rc: "inside n r c" "\<not> cell res r c"
      using zigzag_inside [OF n(1,3)] by (auto simp: free free_cells_def)
    have "called (format_area (int n)) \<subseteq> called (pattern_calls version)"
      by (auto simp: pattern_calls_def Let_def n_def)
    then have "(r, c) \<notin> called (format_calls (int n) (format_bits msk))"
      using cell_rc fp(3) format_calls_reserved [of "int n" "format_bits msk"] n(2) by auto
    then have "drawn (format_calls (int n) (format_bits msk)) (r, c) = None"
      using dom_drawn by blast
    then have "cell m r c = cell m2 r c"
      using cell_set_cells [OF sq2 cell_rc(1)] sq2 by (simp add: m writeFormat_def square_def)
    then show ?thesis
      using m2(2) [OF cell_rc(1)] cell_rc(2) m1(2) [OF k] by (auto simp: rc)
  qed
  then show "map (\<lambda>(r, c). cell m r c \<noteq> maskBit msk r c) free = map (data_bit data) [0..<length free]"
    by (intro nth_equalityI) simp_all
qed

text \<open>Whatever the mask, a reader finds the text in the candidate.\<close>

lemma candidate_read:
  assumes "1 \<le> version" "version \<le> 40" "version_fits (length bytes) version" "msk < 8"
    and "codewords version bytes = Inr data"
  shows "read_matrix (candidate version data msk) = Some bytes"
proof -
  obtain cw where cw: "codewords version bytes = Inr cw" "read_codewords version cw = Some bytes"
      "bytes_of cw" "\<And>cws ec n. versionInfo version = Inr (cws, ec, n) \<Longrightarrow> length cw = cws"
    using codewords_read [OF assms(1-3)] by blast
  have data: "read_codewords version data = Some bytes" "bytes_of data" using cw assms(5) by simp_all
  obtain cws ec blocks where info: "versionInfo version = Inr (cws, ec, blocks)"
    using versionInfo_cases [OF assms(1,2)] by blast
  have len: "length data = cws" using cw(1,4) info assms(5) by simp
  let ?m = "candidate version data msk"
  let ?free = "data_cells version"
  have "length ?m = qr_size version" using candidate_square by (simp add: square_def)
  then have size: "length ?m = qr_size version" "(length ?m - 17) div 4 = version"
    by (simp_all add: qr_size_def)
  note bits = candidate_bits [OF assms(1,2,4), of data]
  have "take (8 * cws) (map (data_bit data) [0..<length ?free]) = map (data_bit data) [0..<8 * cws]"
    using room_for_codewords [OF info] by (simp add: take_map)
  also have "\<dots> = concat (map (\<lambda>b. bits_of b 8) data)" using data_bits len by blast
  finally have "data_bytes (take (8 * cws)
      (map (\<lambda>(r, c). cell ?m r c \<noteq> maskBit msk r c) ?free)) = data"
    using data_bytes_bits [OF data(2)] bits(2) by simp
  then show ?thesis
    using bits(1) size info data(1) by (simp add: read_matrix_def Let_def)
qed

section \<open>The square of a text\<close>

text \<open>The loop over the masks keeps the first candidate of the lowest penalty.\<close>

lemma arg_min_list_snoc:
  fixes f :: "'a \<Rightarrow> nat"
  shows "arg_min_list f (x # xs @ [y])
    = (if f y < f (arg_min_list f (x # xs)) then y else arg_min_list f (x # xs))"
proof (induction xs arbitrary: x)
  case (Cons z xs)
  then show ?case by (auto simp: Let_def)
qed simp

lemma choose_mask_min:
  "fst (choose_mask version data)
    = candidate version data (arg_min_list (\<lambda>msk. penalty (candidate version data msk)) [0..<8])"
proof -
  let ?c = "candidate version data"
  let ?f = "\<lambda>msk. penalty (?c msk)"
  let ?step = "\<lambda>(best, bestScore) msk.
    let modules = ?c msk; score = penalty modules
    in if (case bestScore of None \<Rightarrow> True | Some b \<Rightarrow> score < b) then (modules, Some score)
       else (best, bestScore)"
  have "foldl ?step (?c m, Some (?f m)) ms = (?c (arg_min_list ?f (m # ms)), Some (?f (arg_min_list ?f (m # ms))))"
    for m ms
  proof (induction ms rule: rev_induct)
    case (snoc m' ms)
    have "arg_min_list ?f (m # ms @ [m'])
        = (if ?f m' < ?f (arg_min_list ?f (m # ms)) then m' else arg_min_list ?f (m # ms))"
      by (rule arg_min_list_snoc)
    then show ?case using snoc by (simp add: Let_def)
  qed simp
  moreover have "[0..<8] = 0 # [1..<8 :: nat]" by (simp add: upt_conv_Cons)
  ultimately show ?thesis by (simp add: choose_mask_def Let_def del: arg_min_list.simps)
qed

end
