(* ===== verification/QrSafety.thy ===== *)
theory QrSafety imports QrReader begin

text \<open>
  What the square the interface draws for a setup is worth (\<open>utils/qrcode.ts\<close>): every text
  that fits is read back from it, its field arithmetic is the field's, each block passes a
  reader's check, the function patterns are the standard's, and the mask is the one of the
  lowest penalty.
\<close>

text \<open>C37: a QR code is drawn for every text of at most 2331 bytes and for no other, and a reader
  that knows the standard's function cells, zigzag, masks, blocks and syndromes, and nothing of
  the encoder's state, finds exactly the text in it.\<close>
theorem qr_round_trip:
  "case qrModules bytes of
     Inr modules \<Rightarrow> length bytes \<le> 2331 \<and> read_matrix modules = Some bytes
   | Inl e \<Rightarrow> 2331 < length bytes \<and> e = Crash ''Too much data for a QR code''"
proof (cases "length bytes \<le> 2331")
  case True
  then obtain version where v: "smallestVersion (length bytes) = Inr version"
    using smallestVersion_total by blast
  then have fits: "1 \<le> version" "version \<le> 40" "version_fits (length bytes) version"
    unfolding smallestVersion_Inr by blast+
  obtain data where data: "codewords version bytes = Inr data"
    by (rule codewords_read [OF fits], rule that)
  define msk where "msk = arg_min_list (\<lambda>msk. penalty (candidate version data msk)) [0..<8]"
  have "msk \<in> set [0..<8]" unfolding msk_def by (rule arg_min_list_in) simp
  then have "read_matrix (candidate version data msk) = Some bytes"
    using candidate_read [OF fits _ data] by simp
  moreover have "qrModules bytes = Inr (candidate version data msk)"
    using v data choose_mask_min [of version data, folded msk_def] by (simp add: qrModules_def)
  ultimately show ?thesis using True by simp
next
  case False
  moreover have "find (version_fits (length bytes)) [1..<41] = None"
    using False smallestVersion_total [of "length bytes"] smallest_from_find [of 1 "length bytes"]
    by (cases "find (version_fits (length bytes)) [1..<41]") (simp_all add: smallestVersion_def)
  ultimately show ?thesis
    using smallest_from_find [of 1 "length bytes"] by (simp add: qrModules_def smallestVersion_def)
qed

text \<open>The product the module takes from its power and logarithm tables is the product of
  the field, the carry-less product of the two bytes modulo \<open>0x11d\<close>.\<close>
theorem qr_multiply_is_field_product:
  assumes "is_byte a" "is_byte b"
  shows "multiply a b = gf_times a b"
  using assms by (rule multiply_gf_times)

theorem qr_multiply_is_field_product_witness: "multiply 0x53 0xca = gf_times 0x53 0xca"
  by (rule qr_multiply_is_field_product) simp_all

text \<open>C39: a block of data followed by the codewords \<open>errorCorrection\<close> computes for it has no
  syndrome: as a polynomial it vanishes at every root of the generator, which is what lets a
  reader repair it.\<close>
theorem qr_blocks_have_no_syndrome:
  assumes "bytes_of data" "i < degree"
  shows "length (errorCorrection data degree) = degree
    \<and> syndrome (data @ errorCorrection data degree) i = 0"
  using errorCorrection_block(1,3) [of data degree] assms by simp

theorem qr_blocks_have_no_syndrome_witness:
  "length (errorCorrection [64, 86, 134, 86] 10) = 10
    \<and> syndrome ([64, 86, 134, 86] @ errorCorrection [64, 86, 134, 86] 10) 7 = 0"
  by (rule qr_blocks_have_no_syndrome) simp_all

text \<open>The version chosen is the smallest whose capacity, less the mode and the count, holds
  the bytes, and only a text above 2331 bytes has none.\<close>
theorem qr_smallest_version:
  "case smallestVersion n of
     Inr version \<Rightarrow> n \<le> 2331 \<and> 1 \<le> version \<and> version \<le> 40 \<and> version_fits n version
       \<and> list_all (\<lambda>w. \<not> version_fits n w) [1..<version]
   | Inl e \<Rightarrow> 2331 < n"
proof (cases "smallestVersion n")
  case (Inl e)
  then show ?thesis using smallestVersion_total [of n] by simp
next
  case (Inr version)
  then have "n \<le> 2331" using smallestVersion_total by blast
  then show ?thesis using Inr smallestVersion_Inr [of n version] by (simp add: list_all_iff)
qed

text \<open>C38: for every version, the cells \<open>functionPatterns\<close> reserves are the function cells of
  the standard: the corners of the finder patterns with the format bits, the two timing lines,
  the alignment patterns at the standard's coordinates, those lying on a timing line included,
  and the version blocks.\<close>
theorem qr_function_patterns_are_the_standards:
  assumes "1 \<le> version" "version \<le> 40"
  shows "cell (snd (functionPatterns version)) r c
    \<longleftrightarrow> inside (qr_size version) r c \<and> function_cell version r c"
  using assms by (rule reserved_function_cell)

theorem qr_function_patterns_are_the_standards_witness:
  "cell (snd (functionPatterns 7)) 6 22 \<longleftrightarrow> inside (qr_size 7) 6 22 \<and> function_cell 7 6 22"
  by (rule qr_function_patterns_are_the_standards) simp_all

text \<open>The square drawn is the candidate of the first mask whose penalty is the lowest of the
  eight.\<close>
theorem qr_mask_of_lowest_penalty:
  "fst (choose_mask version data)
    = candidate version data (arg_min_list (\<lambda>msk. penalty (candidate version data msk)) [0..<8])"
  by (rule choose_mask_min)

end
