(* ===== verification/Tickets.thy ===== *)
theory Tickets imports MailDb AclGroups begin

text \<open>
  The support desk: \<open>api/tickets/tickets.service.ts\<close> on the tables of \<open>support-ticket*.entity.ts\<close> beside the
  mail tables, who sees a ticket, what a ticket may name, who is notified, and every operation of the
  service.  The permission library's answers, the presence of readers on a topic, the server's setting, the
  collation of the database and the delivery of a notification are arguments.
\<close>

section \<open>Tables\<close>

record support_ticket =
  sk_id :: int
  sk_domainId :: int
  sk_createdBy :: "string option"
  sk_assignedTo :: "string option"
  sk_subject :: string
  sk_status :: string
  sk_visibility :: string
  sk_createdAt :: time
  sk_updatedAt :: time

record ticket_message =
  sm_id :: int
  sm_ticketId :: int
  sm_authorId :: "string option"
  sm_body :: string
  sm_createdAt :: time
  sm_updatedAt :: "time option"
  sm_editCount :: int

record ticket_read =
  sr_ticketId :: int
  sr_accountId :: string
  sr_lastReadMessageId :: int
  sr_readAt :: time

text \<open>The pairs of \<open>support_ticket_recipients\<close> and \<open>support_ticket_aliases\<close>.\<close>

type_synonym ticket_pivot = "int \<times> int"

text \<open>What \<open>notifications.dispatch\<close> is handed; \<open>extra\<close> is the new status, of a change of status.\<close>

record ticket_notice =
  tn_accountIds :: "string list"
  tn_type :: string
  tn_ticketId :: int
  tn_subject :: string
  tn_domainName :: "string option"
  tn_actor :: "string option"
  tn_status :: "string option"

text \<open>The two counters are the \<open>AUTO_INCREMENT\<close> of the tickets and of the messages.\<close>

record ticket_state =
  ts_mail :: mail_state
  ts_profiles :: "profile list"
  ts_tickets :: "support_ticket list"
  ts_messages :: "ticket_message list"
  ts_reads :: "ticket_read list"
  ts_recipients :: "ticket_pivot list"
  ts_aliases :: "ticket_pivot list"
  ts_nextTicket :: int
  ts_nextMessage :: int
  ts_notices :: "ticket_notice list"

record ticket_env =
  te_lib :: guard_lib
  te_check :: "string \<Rightarrow> string \<Rightarrow> string \<Rightarrow> bool"
  te_effective :: "string \<Rightarrow> perm_set"
  te_required :: bool
  te_watchers :: "int \<Rightarrow> string list"
  te_dispatchFails :: "ticket_notice \<Rightarrow> bool"
  te_ctx :: activity_context
  te_like :: "string \<Rightarrow> string \<Rightarrow> bool"
  te_orderTickets :: "string \<Rightarrow> bool \<Rightarrow> support_ticket list \<Rightarrow> support_ticket list"
  te_orderDomains :: "virtual_domain list \<Rightarrow> virtual_domain list"
  te_orderUsers :: "virtual_user list \<Rightarrow> virtual_user list"
  te_orderAliases :: "virtual_alias list \<Rightarrow> virtual_alias list"

abbreviation ts_domains :: "ticket_state \<Rightarrow> virtual_domain list" where
  "ts_domains st \<equiv> ms_domains (ts_mail st)"

abbreviation ts_accounts :: "ticket_state \<Rightarrow> account list" where
  "ts_accounts st \<equiv> ms_accounts (ts_mail st)"

definition TICKET_SORTABLE_COLUMNS :: "string list" where
  "TICKET_SORTABLE_COLUMNS = [''subject'', ''status'', ''createdAt'', ''updatedAt'']"

definition MESSAGE_PAGE :: nat where "MESSAGE_PAGE = 10"

definition TICKET_MESSAGE_EDIT_WINDOW_MS :: int where
  "TICKET_MESSAGE_EDIT_WINDOW_MS = 60 * 60 * 1000"

text \<open>\<open>CURRENT_TIMESTAMP\<close> of a \<open>datetime\<close> column, which keeps whole seconds.\<close>

definition sql_now :: "time \<Rightarrow> time" where "sql_now now = now - now mod 1000"

section \<open>Names\<close>

record ticket_author =
  ta_email :: string
  ta_name :: string
  ta_avatarUrl :: "string option"

definition ticket_profile :: "string \<Rightarrow> ticket_state \<Rightarrow> profile option" where
  "ticket_profile i st = List.find (\<lambda>p. pr_accountId p = i) (ts_profiles st)"

definition authorsFor :: "string option list \<Rightarrow> ticket_state \<Rightarrow> (string \<rightharpoonup> ticket_author)" where
  "authorsFor ids st = (\<lambda>i.
     if Some i \<notin> set ids \<or> i = [] then None
     else map_option (\<lambda>a.
         let p = ticket_profile (ac_id a) st
         in \<lparr>ta_email = ac_email a,
             ta_name = (case Option.bind p (\<lambda>p. composeDisplayName (pr_firstName p) (pr_lastName p)) of
                          None \<Rightarrow> ac_email a | Some name \<Rightarrow> name),
             ta_avatarUrl = Option.bind p pr_avatarUrl\<rparr>)
       (find_account i (ts_accounts st)))"

definition author_of :: "(string \<rightharpoonup> ticket_author) \<Rightarrow> string option \<Rightarrow> ticket_author option" where
  "author_of authors i = (case i of None \<Rightarrow> None | Some i \<Rightarrow> if i = [] then None else authors i)"

definition domainNamesFor :: "int list \<Rightarrow> ticket_state \<Rightarrow> (int \<rightharpoonup> string)" where
  "domainNamesFor ids st = (\<lambda>i.
     if i \<in> set ids then map_option vd_domain (find_domain i (ts_mail st)) else None)"

section \<open>The thread\<close>

record message_row =
  mr_message :: ticket_message
  mr_authorEmail :: "string option"
  mr_authorName :: "string option"
  mr_authorAvatarUrl :: "string option"

text \<open>\<open>ORDER BY created_at DESC, id DESC\<close>: two stable sorts, the last one first in rank, reversed.\<close>

definition newest_first :: "ticket_message list \<Rightarrow> ticket_message list" where
  "newest_first rows = rev (sort_key sm_createdAt (sort_key sm_id rows))"

definition messageRows :: "int \<Rightarrow> nat \<Rightarrow> nat \<Rightarrow> ticket_state \<Rightarrow> message_row list \<times> nat" where
  "messageRows ticketId offset limit st =
     (let found = filter (\<lambda>m. sm_ticketId m = ticketId) (ts_messages st);
          rows = page_of offset limit (newest_first found);
          authors = authorsFor (map sm_authorId rows) st
      in (map (\<lambda>m. let author = author_of authors (sm_authorId m)
                  in \<lparr>mr_message = m, mr_authorEmail = map_option ta_email author,
                      mr_authorName = map_option ta_name author,
                      mr_authorAvatarUrl = Option.bind author ta_avatarUrl\<rparr>) (rev rows),
          length found))"

section \<open>Who sees what\<close>

definition isSupport :: "ticket_env \<Rightarrow> guard_user \<Rightarrow> bool" where
  "isSupport env c = (gu_isRoot c \<or> te_check env (gu_id c) ''tickets'' ''handle-ticket'')"

definition privateReach :: "ticket_env \<Rightarrow> guard_user \<Rightarrow> bool" where
  "privateReach env c = isSupport env c"

definition canSeePrivate :: "ticket_env \<Rightarrow> guard_user \<Rightarrow> support_ticket \<Rightarrow> ticket_state \<Rightarrow> bool" where
  "canSeePrivate env c ticket st =
     (if sk_createdBy ticket = Some (gu_id c) then True
      else if privateReach env c then True
      else 0 < count_where (\<lambda>d. vd_id d = sk_domainId ticket \<and> vd_ownerId d = Some (gu_id c)) (ts_domains st))"

definition lists_all_domains :: "perm_set \<Rightarrow> bool" where
  "lists_all_domains effective = ((''domains'', ''list-all-domains'') \<in> set (ps_global effective))"

text \<open>\<open>null\<close> is every domain.\<close>

definition visibleDomainIds :: "ticket_env \<Rightarrow> guard_user \<Rightarrow> ticket_state \<Rightarrow> int list option" where
  "visibleDomainIds env c st =
     (if gu_isRoot c then None
      else let effective = te_effective env (gu_id c)
      in if lists_all_domains effective then None
      else let mine = Some (gu_id c);
               owned = filter (\<lambda>d. vd_ownerId d = mine) (ts_domains st);
               delegated = filter (\<lambda>r. dd_accountId r = gu_id c) (ms_delegations (ts_mail st));
               ownedRecipients = filter (\<lambda>u. vu_ownerId u = mine) (ms_users (ts_mail st));
               ownedAliases = filter (\<lambda>a. va_ownerId a = mine) (ms_aliases (ts_mail st));
               fqdns = remdups (map vu_domain ownedRecipients @ map va_domain ownedAliases);
               footholds = filter (\<lambda>d. vd_domain d \<in> set fqdns) (ts_domains st)
           in Some (remdups (map fst (ps_domain effective) @ map vd_id owned @ map dd_domainId delegated
                @ map vd_id footholds)))"

definition domain_in_reach :: "int list option \<Rightarrow> int \<Rightarrow> bool" where
  "domain_in_reach ids i = (case ids of None \<Rightarrow> True | Some ids \<Rightarrow> i \<in> set ids)"

definition ticketableDomains :: "ticket_env \<Rightarrow> guard_user \<Rightarrow> ticket_state \<Rightarrow> (int \<times> string) list" where
  "ticketableDomains env c st =
     (let rows = (case visibleDomainIds env c st of
                    None \<Rightarrow> te_orderDomains env (ts_domains st)
                  | Some ids \<Rightarrow> if ids = [] then []
                      else te_orderDomains env (filter (\<lambda>d. vd_id d \<in> set ids) (ts_domains st)))
      in map (\<lambda>d. (vd_id d, vd_domain d)) rows)"

section \<open>What a ticket may name\<close>

definition readsEveryAddress :: "ticket_env \<Rightarrow> guard_user \<Rightarrow> virtual_domain \<Rightarrow> string \<Rightarrow> bool" where
  "readsEveryAddress env c domain resource =
     (if gu_isRoot c then True
      else if vd_ownerId domain = Some (gu_id c) then True
      else let action = (if resource = ''recipients'' then ''list-recipients'' else ''list-aliases'')
           in (vd_id domain, resource, action) \<in> set (ps_domain (te_effective env (gu_id c))))"

record ticketable_resources =
  tr_required :: bool
  tr_recipients :: "(int \<times> string) list"
  tr_aliases :: "(int \<times> string \<times> string) list"

definition domain_missing :: err where
  "domain_missing = HttpException NOT_FOUND ''Domain not found''"

definition ticketableResources ::
  "ticket_env \<Rightarrow> int \<Rightarrow> guard_user \<Rightarrow> ticket_state \<Rightarrow> err + ticketable_resources" where
  "ticketableResources env domainId c st =
     (case find_domain domainId (ts_mail st) of
        None \<Rightarrow> Inl domain_missing
      | Some domain \<Rightarrow>
          if \<not> domain_in_reach (visibleDomainIds env c st) domainId then Inl domain_missing
          else let everyRecipient = readsEveryAddress env c domain ''recipients'';
                   everyAlias = readsEveryAddress env c domain ''aliases'';
                   recipients = te_orderUsers env (filter (\<lambda>u. vu_domain u = vd_domain domain
                       \<and> (everyRecipient \<or> vu_ownerId u = Some (gu_id c))) (ms_users (ts_mail st)));
                   aliases = te_orderAliases env (filter (\<lambda>a. va_domain a = vd_domain domain
                       \<and> (everyAlias \<or> va_ownerId a = Some (gu_id c))) (ms_aliases (ts_mail st)))
               in Inr \<lparr>tr_required = te_required env,
                       tr_recipients = map (\<lambda>u. (vu_id u, vu_email u)) recipients,
                       tr_aliases = map (\<lambda>a. (va_id a, va_source a, va_destination a)) aliases\<rparr>)"

definition assertNamedResources :: "ticketable_resources \<Rightarrow> int list \<Rightarrow> int list \<Rightarrow> err + unit" where
  "assertNamedResources offered recipientIds aliasIds =
     (if \<exists>i \<in> set recipientIds. i \<notin> fst ` set (tr_recipients offered)
      then Inl (HttpException BAD_REQUEST ''A named mailbox does not belong to this domain, or is not yours to name'')
      else if \<exists>i \<in> set aliasIds. i \<notin> fst ` set (tr_aliases offered)
      then Inl (HttpException BAD_REQUEST ''A named alias does not belong to this domain, or is not yours to name'')
      else Inr ())"

text \<open>The rows are found by their identifiers, so the order they are read in is without effect.\<close>

definition namedResourcesFor ::
  "support_ticket list \<Rightarrow> ticket_state \<Rightarrow> support_ticket \<Rightarrow> (int \<times> string) list \<times> (int \<times> string \<times> string) list" where
  "namedResourcesFor rows st =
     (let ticketIds = map sk_id rows
      in if ticketIds = [] then (\<lambda>_. ([], []))
         else let recipientLinks = filter (\<lambda>l. fst l \<in> set ticketIds) (ts_recipients st);
                  aliasLinks = filter (\<lambda>l. fst l \<in> set ticketIds) (ts_aliases st)
              in (\<lambda>ticket.
                   (List.map_filter (\<lambda>l. map_option (\<lambda>u. (vu_id u, vu_email u))
                        (List.find (\<lambda>u. vu_id u = snd l) (ms_users (ts_mail st))))
                      (filter (\<lambda>l. fst l = sk_id ticket) recipientLinks),
                    List.map_filter (\<lambda>l. map_option (\<lambda>a. (va_id a, va_source a, va_destination a))
                        (List.find (\<lambda>a. va_id a = snd l) (ms_aliases (ts_mail st))))
                      (filter (\<lambda>l. fst l = sk_id ticket) aliasLinks))))"

section \<open>Notifications\<close>

definition mayBeNotified :: "ticket_env \<Rightarrow> guard_user \<Rightarrow> bool" where
  "mayBeNotified env c = (if gu_isRoot c then True else te_check env (gu_id c) ''tickets'' ''notification'')"

definition parties :: "support_ticket \<Rightarrow> string list option" where
  "parties ticket =
     (case sk_assignedTo ticket of
        None \<Rightarrow> None
      | Some assignee \<Rightarrow>
          if assignee = [] then None
          else Some (filter (\<lambda>i. i \<noteq> []) (case sk_createdBy ticket of None \<Rightarrow> [assignee] | Some i \<Rightarrow> [i, assignee])))"

definition notifiable :: "ticket_env \<Rightarrow> support_ticket \<Rightarrow> string \<Rightarrow> ticket_state \<Rightarrow> account \<Rightarrow> bool" where
  "notifiable env ticket actorId st a =
     (if ac_id a = actorId then False
      else if (case parties ticket of None \<Rightarrow> False | Some ps \<Rightarrow> ac_id a \<notin> set ps) then False
      else let c = \<lparr>gu_id = ac_id a, gu_isRoot = (ac_isRoot a = 1)\<rparr>
           in if \<not> mayBeNotified env c then False
              else if \<not> domain_in_reach (visibleDomainIds env c st) (sk_domainId ticket) then False
              else if sk_visibility ticket \<noteq> ''public'' \<and> \<not> canSeePrivate env c ticket st then False
              else True)"

definition notifiableAccounts :: "ticket_env \<Rightarrow> support_ticket \<Rightarrow> string \<Rightarrow> ticket_state \<Rightarrow> string list" where
  "notifiableAccounts env ticket actorId st =
     map ac_id (filter (notifiable env ticket actorId st) (filter (\<lambda>a. ac_enabled a = 1) (ts_accounts st)))"

definition ticket_notify ::
  "ticket_env \<Rightarrow> support_ticket \<Rightarrow> string \<Rightarrow> string \<Rightarrow> string option \<Rightarrow> ticket_state \<Rightarrow> ticket_state" where
  "ticket_notify env ticket type actorId status st =
     (let watching = te_watchers env (sk_id ticket);
          accountIds = filter (\<lambda>i. i \<notin> set watching) (notifiableAccounts env ticket actorId st)
      in if accountIds = [] then st
         else let notice = \<lparr>tn_accountIds = accountIds, tn_type = type, tn_ticketId = sk_id ticket,
                    tn_subject = sk_subject ticket,
                    tn_domainName = domainNamesFor [sk_domainId ticket] st (sk_domainId ticket),
                    tn_actor = map_option ta_name (authorsFor [Some actorId] st actorId), tn_status = status\<rparr>
              in if te_dispatchFails env notice then st
                 else st\<lparr>ts_notices := ts_notices st @ [notice]\<rparr>)"

definition ticket_record :: "ticket_env \<Rightarrow> string \<Rightarrow> string \<Rightarrow> int \<Rightarrow> ticket_state \<Rightarrow> ticket_state" where
  "ticket_record env action actorId ticketId st =
     st\<lparr>ts_mail := (ts_mail st)\<lparr>ms_journal := record_activity (te_ctx env)
          \<lparr>ai_action = action, ai_actorId = Some (Some actorId), ai_subjectId = None,
           ai_entity = Some (''ticket'', show_int ticketId)\<rparr> (ms_journal (ts_mail st))\<rparr>\<rparr>"

section \<open>Listing\<close>

record ticket_list_query = pagination_query +
  lq_mine :: "string option"
  lq_hideClosed :: "string option"

text \<open>The identifier of the newest message of a ticket, and whose that message is.\<close>

definition newest_message :: "int \<Rightarrow> ticket_state \<Rightarrow> int option" where
  "newest_message ticketId st =
     (case map sm_id (filter (\<lambda>m. sm_ticketId m = ticketId) (ts_messages st)) of
        [] \<Rightarrow> None | i # rest \<Rightarrow> Some (foldl max i rest))"

definition lastAuthorByTicket :: "int list \<Rightarrow> ticket_state \<Rightarrow> (int \<rightharpoonup> string option)" where
  "lastAuthorByTicket ticketIds st = (\<lambda>i.
     if i \<notin> set ticketIds then None
     else case newest_message i st of None \<Rightarrow> None
          | Some newest \<Rightarrow> map_option sm_authorId (List.find (\<lambda>m. sm_id m = newest) (ts_messages st)))"

record ticket_item =
  ti_ticket :: support_ticket
  ti_assigneeEmail :: "string option"
  ti_assigneeName :: "string option"
  ti_creatorEmail :: "string option"
  ti_creatorName :: "string option"
  ti_creatorAvatarUrl :: "string option"
  ti_domainName :: "string option"
  ti_awaitingMyReply :: bool
  ti_recipients :: "(int \<times> string) list"
  ti_aliases :: "(int \<times> string \<times> string) list"

definition ticket_enrich :: "support_ticket list \<Rightarrow> string \<Rightarrow> ticket_state \<Rightarrow> ticket_item list" where
  "ticket_enrich rows callerId st =
     (let authors = authorsFor (map sk_assignedTo rows @ map sk_createdBy rows) st;
          domains = domainNamesFor (map sk_domainId rows) st;
          lastAuthor = lastAuthorByTicket (map sk_id rows) st;
          named = namedResourcesFor rows st
      in map (\<lambda>r. let assignee = author_of authors (sk_assignedTo r); creator = author_of authors (sk_createdBy r)
           in \<lparr>ti_ticket = r,
               ti_assigneeEmail = map_option ta_email assignee, ti_assigneeName = map_option ta_name assignee,
               ti_creatorEmail = map_option ta_email creator, ti_creatorName = map_option ta_name creator,
               ti_creatorAvatarUrl = Option.bind creator ta_avatarUrl,
               ti_domainName = domains (sk_domainId r),
               ti_awaitingMyReply = (case lastAuthor (sk_id r) of None \<Rightarrow> False | Some a \<Rightarrow> a \<noteq> Some callerId),
               ti_recipients = fst (named r), ti_aliases = snd (named r)\<rparr>) rows)"

text \<open>The conditions the query builder is given, one after the other.\<close>

definition ticket_filters ::
  "ticket_env \<Rightarrow> ticket_list_query \<Rightarrow> guard_user \<Rightarrow> int list option \<Rightarrow> ticket_state \<Rightarrow> support_ticket list" where
  "ticket_filters env q c domainIds st =
     (let owned = map vd_id (filter (\<lambda>d. vd_ownerId d = Some (gu_id c)) (ts_domains st));
          rows = filter (\<lambda>t. domain_in_reach domainIds (sk_domainId t)) (ts_tickets st);
          rows = (if privateReach env c then rows
                  else filter (\<lambda>t. sk_visibility t = ''public'' \<or> sk_createdBy t = Some (gu_id c)
                                 \<or> sk_domainId t \<in> set owned) rows);
          rows = (if lq_mine q = Some ''true'' then filter (\<lambda>t. sk_assignedTo t = Some (gu_id c)) rows else rows);
          rows = (if lq_hideClosed q = Some ''true'' then filter (\<lambda>t. sk_status t \<noteq> ''closed'') rows else rows)
      in case pq_search q of None \<Rightarrow> rows
         | Some term \<Rightarrow> if term = [] then rows
             else filter (\<lambda>t. te_like env (sk_subject t) (''%'' @ term @ ''%'')) rows)"

text \<open>The bare list without a limit, a page with the total otherwise.\<close>

definition ticket_list ::
  "ticket_env \<Rightarrow> ticket_list_query \<Rightarrow> guard_user \<Rightarrow> ticket_state \<Rightarrow> ticket_item list \<times> nat option" where
  "ticket_list env q c st =
     (let domainIds = visibleDomainIds env c st
      in if domainIds = Some [] then (case pq_limit q of None \<Rightarrow> ([], None) | Some _ \<Rightarrow> ([], Some 0))
         else let rows = ticket_filters env q c domainIds st;
                  sortBy = resolveSortColumn (pq_sortBy q) TICKET_SORTABLE_COLUMNS ''createdAt'';
                  sorted = te_orderTickets env sortBy (pq_sortDir q = ''asc'') rows
              in case pq_limit q of
                   None \<Rightarrow> (ticket_enrich sorted (gu_id c) st, None)
                 | Some limit \<Rightarrow>
                     (ticket_enrich (page_of (pq_offset q) limit sorted) (gu_id c) st, Some (length rows)))"

section \<open>One ticket\<close>

definition ticket_missing :: err where
  "ticket_missing = HttpException NOT_FOUND ''Ticket not found''"

definition find_ticket :: "int \<Rightarrow> ticket_state \<Rightarrow> support_ticket option" where
  "find_ticket i st = List.find (\<lambda>t. sk_id t = i) (ts_tickets st)"

definition visibleTicket :: "ticket_env \<Rightarrow> int \<Rightarrow> guard_user \<Rightarrow> ticket_state \<Rightarrow> err + support_ticket" where
  "visibleTicket env i c st =
     (case find_ticket i st of
        None \<Rightarrow> Inl ticket_missing
      | Some ticket \<Rightarrow>
          if \<not> domain_in_reach (visibleDomainIds env c st) (sk_domainId ticket) then Inl ticket_missing
          else if sk_visibility ticket \<noteq> ''public'' \<and> \<not> canSeePrivate env c ticket st then Inl ticket_missing
          else Inr ticket)"

record ticket_reader =
  rd_accountId :: string
  rd_name :: "string option"
  rd_avatarUrl :: "string option"
  rd_lastReadMessageId :: int
  rd_readAt :: time

definition readersOf :: "int \<Rightarrow> ticket_state \<Rightarrow> ticket_reader list" where
  "readersOf ticketId st =
     (let rows = filter (\<lambda>r. sr_ticketId r = ticketId) (ts_reads st);
          authors = authorsFor (map (\<lambda>r. Some (sr_accountId r)) rows) st
      in map (\<lambda>r. \<lparr>rd_accountId = sr_accountId r, rd_name = map_option ta_name (authors (sr_accountId r)),
                   rd_avatarUrl = Option.bind (authors (sr_accountId r)) ta_avatarUrl,
                   rd_lastReadMessageId = sr_lastReadMessageId r, rd_readAt = sr_readAt r\<rparr>) rows)"

record ticket_detail =
  td_ticket :: support_ticket
  td_domainName :: "string option"
  td_creator :: "ticket_author option"
  td_assignee :: "ticket_author option"
  td_messages :: "message_row list"
  td_messagesTotal :: nat
  td_readers :: "ticket_reader list"
  td_recipients :: "(int \<times> string) list"
  td_aliases :: "(int \<times> string \<times> string) list"

definition ticket_detail_of :: "support_ticket \<Rightarrow> ticket_state \<Rightarrow> ticket_detail" where
  "ticket_detail_of ticket st =
     (let (items, found) = messageRows (sk_id ticket) 0 MESSAGE_PAGE st;
          authors = authorsFor [sk_createdBy ticket, sk_assignedTo ticket] st;
          named = namedResourcesFor [ticket] st ticket
      in \<lparr>td_ticket = ticket, td_domainName = domainNamesFor [sk_domainId ticket] st (sk_domainId ticket),
          td_creator = author_of authors (sk_createdBy ticket), td_assignee = author_of authors (sk_assignedTo ticket),
          td_messages = items, td_messagesTotal = found, td_readers = readersOf (sk_id ticket) st,
          td_recipients = fst named, td_aliases = snd named\<rparr>)"

definition ticket_get :: "ticket_env \<Rightarrow> int \<Rightarrow> guard_user \<Rightarrow> ticket_state \<Rightarrow> err + ticket_detail" where
  "ticket_get env i c st =
     (case visibleTicket env i c st of Inl e \<Rightarrow> Inl e | Inr ticket \<Rightarrow> Inr (ticket_detail_of ticket st))"

definition ticket_thread :: "int \<Rightarrow> ticket_state \<Rightarrow> ticket_detail option" where
  "ticket_thread i st = map_option (\<lambda>t. ticket_detail_of t st) (find_ticket i st)"

definition messagesPage ::
  "ticket_env \<Rightarrow> int \<Rightarrow> guard_user \<Rightarrow> pagination_query \<Rightarrow> ticket_state \<Rightarrow> err + message_row list \<times> nat" where
  "messagesPage env i c q st =
     (case visibleTicket env i c st of Inl e \<Rightarrow> Inl e
      | Inr _ \<Rightarrow> Inr (messageRows i (pq_offset q) (case pq_limit q of None \<Rightarrow> MESSAGE_PAGE | Some l \<Rightarrow> l) st))"

definition canWatch :: "ticket_env \<Rightarrow> int \<Rightarrow> guard_user \<Rightarrow> ticket_state \<Rightarrow> bool" where
  "canWatch env i c st =
     ((gu_isRoot c \<or> gl_global (te_lib env) (gu_id c) ''tickets'' [''access'', ''view-ticket''] = Granted)
      \<and> (case visibleTicket env i c st of Inl _ \<Rightarrow> False | Inr _ \<Rightarrow> True))"

section \<open>What changes a ticket\<close>

definition markRead ::
  "ticket_env \<Rightarrow> time \<Rightarrow> int \<Rightarrow> guard_user \<Rightarrow> ticket_state \<Rightarrow> (int, ticket_state) outcome" where
  "markRead env now i c st =
     (case visibleTicket env i c st of
        Inl e \<Rightarrow> (Inl e, st)
      | Inr _ \<Rightarrow>
          let newest = (case newest_message i st of None \<Rightarrow> 0 | Some n \<Rightarrow> n);
              row = \<lparr>sr_ticketId = i, sr_accountId = gu_id c, sr_lastReadMessageId = newest,
                     sr_readAt = sql_now now\<rparr>
          in case List.find (\<lambda>r. sr_ticketId r = i \<and> sr_accountId r = gu_id c) (ts_reads st) of
               Some existing \<Rightarrow>
                 if sr_lastReadMessageId existing \<ge> newest then (Inr newest, st)
                 else (Inr newest, st\<lparr>ts_reads := save_row (\<lambda>r. (sr_ticketId r, sr_accountId r)) row (ts_reads st)\<rparr>)
             | None \<Rightarrow>
                 (Inr newest, st\<lparr>ts_reads := save_row (\<lambda>r. (sr_ticketId r, sr_accountId r)) row (ts_reads st)\<rparr>))"

record new_ticket =
  nt_domainId :: int
  nt_subject :: string
  nt_body :: string
  nt_visibility :: "string option"
  nt_recipientIds :: "int list option"
  nt_aliasIds :: "int list option"

definition insert_ticket :: "time \<Rightarrow> int \<Rightarrow> string \<Rightarrow> string \<Rightarrow> string \<Rightarrow> ticket_state \<Rightarrow> support_ticket \<times> ticket_state" where
  "insert_ticket now domainId createdBy subject visibility st =
     (let ticket = \<lparr>sk_id = ts_nextTicket st, sk_domainId = domainId, sk_createdBy = Some createdBy,
            sk_assignedTo = None, sk_subject = subject, sk_status = ''open'', sk_visibility = visibility,
            sk_createdAt = sql_now now, sk_updatedAt = sql_now now\<rparr>
      in (ticket, st\<lparr>ts_tickets := ts_tickets st @ [ticket], ts_nextTicket := ts_nextTicket st + 1\<rparr>))"

definition insert_message :: "time \<Rightarrow> int \<Rightarrow> string \<Rightarrow> string \<Rightarrow> ticket_state \<Rightarrow> ticket_message \<times> ticket_state" where
  "insert_message now ticketId authorId body st =
     (let message = \<lparr>sm_id = ts_nextMessage st, sm_ticketId = ticketId, sm_authorId = Some authorId,
            sm_body = body, sm_createdAt = sql_now now, sm_updatedAt = None, sm_editCount = 0\<rparr>
      in (message, st\<lparr>ts_messages := ts_messages st @ [message], ts_nextMessage := ts_nextMessage st + 1\<rparr>))"

definition ticket_create ::
  "ticket_env \<Rightarrow> time \<Rightarrow> new_ticket \<Rightarrow> guard_user \<Rightarrow> ticket_state \<Rightarrow> (support_ticket, ticket_state) outcome" where
  "ticket_create env now input c st =
     (case find_domain (nt_domainId input) (ts_mail st) of
        None \<Rightarrow> (Inl domain_missing, st)
      | Some domain \<Rightarrow>
          if \<not> domain_in_reach (visibleDomainIds env c st) (nt_domainId input)
          then (Inl (HttpException FORBIDDEN ''You cannot open a ticket about a domain you have no access to''), st)
          else let recipientIds = remdups (case nt_recipientIds input of None \<Rightarrow> [] | Some l \<Rightarrow> l);
                   aliasIds = remdups (case nt_aliasIds input of None \<Rightarrow> [] | Some l \<Rightarrow> l)
               in case ticketableResources env (vd_id domain) c st of
                    Inl e \<Rightarrow> (Inl e, st)
                  | Inr offered \<Rightarrow>
                      let namesSomething = 0 < length recipientIds \<or> 0 < length aliasIds;
                          hasSomethingToName = 0 < length (tr_recipients offered) \<or> 0 < length (tr_aliases offered)
                      in if tr_required offered \<and> hasSomethingToName \<and> \<not> namesSomething
                         then (Inl (HttpException BAD_REQUEST
                             ''This server asks a ticket to name at least one mailbox or alias of its domain''), st)
                         else case assertNamedResources offered recipientIds aliasIds of
                             Inl e \<Rightarrow> (Inl e, st)
                           | Inr _ \<Rightarrow>
                               let (ticket, st1) = insert_ticket now (nt_domainId input) (gu_id c) (nt_subject input)
                                     (case nt_visibility input of None \<Rightarrow> ''private'' | Some v \<Rightarrow> v) st;
                                   st2 = st1\<lparr>ts_recipients := ts_recipients st1 @ map (Pair (sk_id ticket)) recipientIds,
                                            ts_aliases := ts_aliases st1 @ map (Pair (sk_id ticket)) aliasIds\<rparr>;
                                   (message, st3) = insert_message now (sk_id ticket) (gu_id c) (nt_body input) st2;
                                   st4 = ticket_notify env ticket ''ticket-created'' (gu_id c) None st3
                               in (Inr ticket, ticket_record env ''tickets.created'' (gu_id c) (sk_id ticket) st4))"

definition ticket_reply ::
  "ticket_env \<Rightarrow> time \<Rightarrow> int \<Rightarrow> string \<Rightarrow> guard_user \<Rightarrow> ticket_state \<Rightarrow> (ticket_message, ticket_state) outcome" where
  "ticket_reply env now i body c st =
     (case visibleTicket env i c st of
        Inl e \<Rightarrow> (Inl e, st)
      | Inr ticket \<Rightarrow>
          if sk_status ticket = ''closed''
          then (Inl (HttpException FORBIDDEN ''This ticket is closed and takes no further message''), st)
          else if sk_createdBy ticket \<noteq> Some (gu_id c) \<and> \<not> gu_isRoot c
                  \<and> \<not> te_check env (gu_id c) ''tickets'' ''reply-ticket''
          then (Inl (HttpException FORBIDDEN ''You may only reply to a ticket you opened''), st)
          else let (message, st1) = insert_message now i (gu_id c) body st;
                   st2 = st1\<lparr>ts_tickets := update_where (\<lambda>t. sk_id t = i) (sk_updatedAt_update (\<lambda>_. sql_now now))
                               (ts_tickets st1)\<rparr>;
                   st3 = ticket_notify env ticket ''ticket-replied'' (gu_id c) None st2
               in (Inr message, ticket_record env ''tickets.replied'' (gu_id c) (sk_id ticket) st3))"

definition editMessage ::
  "ticket_env \<Rightarrow> time \<Rightarrow> int \<Rightarrow> int \<Rightarrow> string \<Rightarrow> guard_user \<Rightarrow> ticket_state \<Rightarrow> (ticket_message, ticket_state) outcome" where
  "editMessage env now ticketId messageId body c st =
     (case visibleTicket env ticketId c st of
        Inl e \<Rightarrow> (Inl e, st)
      | Inr ticket \<Rightarrow>
          if sk_status ticket = ''closed''
          then (Inl (HttpException FORBIDDEN ''This ticket is closed and its messages can no longer be edited''), st)
          else case List.find (\<lambda>m. sm_id m = messageId \<and> sm_ticketId m = ticketId) (ts_messages st) of
              None \<Rightarrow> (Inl (HttpException NOT_FOUND ''Message not found''), st)
            | Some message \<Rightarrow>
                if sm_authorId message \<noteq> Some (gu_id c)
                then (Inl (HttpException FORBIDDEN ''You may only edit your own message''), st)
                else if now - sm_createdAt message > TICKET_MESSAGE_EDIT_WINDOW_MS
                then (Inl (HttpException FORBIDDEN ''This message is older than an hour and can no longer be edited''), st)
                else let saved = message\<lparr>sm_body := body, sm_updatedAt := Some now,
                                         sm_editCount := sm_editCount message + 1\<rparr>;
                         st1 = st\<lparr>ts_messages := save_row sm_id saved (ts_messages st)\<rparr>
                     in (Inr saved, ticket_record env ''tickets.message-edited'' (gu_id c) ticketId st1))"

text \<open>\<open>tickets.save\<close> of a row that was read: the columns that changed are written, and the database stamps
  \<open>updated_at\<close> when one did.\<close>

definition save_ticket :: "time \<Rightarrow> support_ticket \<Rightarrow> ticket_state \<Rightarrow> ticket_state" where
  "save_ticket now ticket st =
     st\<lparr>ts_tickets := update_where (\<lambda>t. sk_id t = sk_id ticket)
         (\<lambda>t. if t = ticket then t else ticket\<lparr>sk_updatedAt := sql_now now\<rparr>) (ts_tickets st)\<rparr>"

definition ticket_take ::
  "ticket_env \<Rightarrow> time \<Rightarrow> int \<Rightarrow> guard_user \<Rightarrow> ticket_state \<Rightarrow> (support_ticket, ticket_state) outcome" where
  "ticket_take env now i c st =
     (case visibleTicket env i c st of
        Inl e \<Rightarrow> (Inl e, st)
      | Inr ticket \<Rightarrow>
          if sk_createdBy ticket = Some (gu_id c)
          then (Inl (HttpException FORBIDDEN ''You cannot take charge of a ticket you opened''), st)
          else let taken = ticket\<lparr>sk_assignedTo := Some (gu_id c)\<rparr>;
                   saved = (if sk_status taken = ''open'' then taken\<lparr>sk_status := ''in_progress''\<rparr> else taken);
                   st1 = ticket_notify env saved ''ticket-taken'' (gu_id c) None (save_ticket now saved st)
               in (Inr saved, ticket_record env ''tickets.taken'' (gu_id c) (sk_id saved) st1))"

definition setStatus ::
  "ticket_env \<Rightarrow> time \<Rightarrow> int \<Rightarrow> string \<Rightarrow> guard_user \<Rightarrow> ticket_state \<Rightarrow> (support_ticket, ticket_state) outcome" where
  "setStatus env now i status c st =
     (case visibleTicket env i c st of
        Inl e \<Rightarrow> (Inl e, st)
      | Inr ticket \<Rightarrow>
          let isAuthorClosing = (sk_createdBy ticket = Some (gu_id c) \<and> status = ''closed'')
          in if \<not> isAuthorClosing \<and> \<not> isSupport env c
             then (Inl (HttpException FORBIDDEN ''You may only close a ticket you opened''), st)
             else let saved = ticket\<lparr>sk_status := status\<rparr>;
                      st1 = ticket_notify env saved ''ticket-status'' (gu_id c) (Some status) (save_ticket now saved st)
                  in (Inr saved, ticket_record env ''tickets.status-changed'' (gu_id c) (sk_id saved) st1))"

section \<open>Routes\<close>

text \<open>The requests of \<open>tickets.controller.ts\<close>, each with what its body or its query holds before the schema.\<close>

datatype ticket_request =
    ListTickets ticket_list_query
  | CreateTicket new_ticket
  | TicketDomains
  | TicketResources int
  | GetTicket int
  | TicketMessages int pagination_query
  | ReplyTicket int string
  | EditMessage int int string
  | MarkRead int
  | TakeTicket int
  | SetTicketStatus int string

definition TICKET_STATUSES :: "string list" where
  "TICKET_STATUSES = [''open'', ''in_progress'', ''resolved'', ''closed'']"

definition TICKET_VISIBILITIES :: "string list" where
  "TICKET_VISIBILITIES = [''public'', ''private'']"

text \<open>\<open>z.string().trim().min(1).max(n)\<close>.\<close>

definition trimmed_text :: "nat \<Rightarrow> string \<Rightarrow> string option" where
  "trimmed_text n s = (let t = str_trim s in if 1 \<le> length t \<and> length t \<le> n then Some t else None)"

definition ids_ok :: "int list option \<Rightarrow> bool" where
  "ids_ok ids = (case ids of None \<Rightarrow> True | Some l \<Rightarrow> list_all (\<lambda>i. 0 < i) l \<and> length l \<le> 50)"

definition createTicketSchema :: "new_ticket \<Rightarrow> new_ticket option" where
  "createTicketSchema b =
     (case (trimmed_text 255 (nt_subject b), trimmed_text 10000 (nt_body b)) of
        (Some subject, Some body) \<Rightarrow>
          if 0 < nt_domainId b
             \<and> (case nt_visibility b of None \<Rightarrow> True | Some v \<Rightarrow> v \<in> set TICKET_VISIBILITIES)
             \<and> ids_ok (nt_recipientIds b) \<and> ids_ok (nt_aliasIds b)
          then Some (b\<lparr>nt_subject := subject, nt_body := body\<rparr>) else None
      | _ \<Rightarrow> None)"

definition paginationQuerySchema :: "'a pagination_query_scheme \<Rightarrow> 'a pagination_query_scheme option" where
  "paginationQuerySchema q =
     (let search = (case pq_search q of None \<Rightarrow> Some None | Some s \<Rightarrow> map_option Some (trimmed_text 200 s));
          sortBy = map_option str_trim (pq_sortBy q); searchBy = map_option str_trim (pq_searchBy q);
          short = (\<lambda>s. case s of None \<Rightarrow> True | Some s \<Rightarrow> length s \<le> 50)
      in case search of None \<Rightarrow> None
         | Some search \<Rightarrow>
             if (case pq_limit q of None \<Rightarrow> True | Some l \<Rightarrow> l \<in> {10, 25, 50})
                \<and> pq_sortDir q \<in> {''asc'', ''desc''} \<and> short sortBy \<and> short searchBy
             then Some (q\<lparr>pq_search := search, pq_sortBy := sortBy, pq_searchBy := searchBy\<rparr>) else None)"

definition true_or_false :: "string option \<Rightarrow> bool" where
  "true_or_false s = (case s of None \<Rightarrow> True | Some s \<Rightarrow> s \<in> {''true'', ''false''})"

fun ticket_schema :: "ticket_request \<Rightarrow> ticket_request option" where
  "ticket_schema (ListTickets q) =
     (if true_or_false (lq_mine q) \<and> true_or_false (lq_hideClosed q)
      then map_option ListTickets (paginationQuerySchema q) else None)"
| "ticket_schema (CreateTicket b) = map_option CreateTicket (createTicketSchema b)"
| "ticket_schema (TicketMessages i q) = map_option (TicketMessages i) (paginationQuerySchema q)"
| "ticket_schema (ReplyTicket i body) = map_option (ReplyTicket i) (trimmed_text 10000 body)"
| "ticket_schema (EditMessage i m body) = map_option (EditMessage i m) (trimmed_text 10000 body)"
| "ticket_schema (SetTicketStatus i status) =
     (if status \<in> set TICKET_STATUSES then Some (SetTicketStatus i status) else None)"
| "ticket_schema r = Some r"

fun ticket_action :: "ticket_request \<Rightarrow> string" where
  "ticket_action (ListTickets q) = ''list-tickets''"
| "ticket_action (CreateTicket b) = ''create-ticket''"
| "ticket_action TicketDomains = ''create-ticket''"
| "ticket_action (TicketResources i) = ''create-ticket''"
| "ticket_action (TakeTicket i) = ''handle-ticket''"
| "ticket_action _ = ''view-ticket''"

datatype ticket_answer =
    TicketList "ticket_item list" "nat option"
  | TicketRow support_ticket
  | DomainList "(int \<times> string) list"
  | ResourceList ticketable_resources
  | TicketPage ticket_detail
  | MessagePage "message_row list" nat
  | MessageRow ticket_message
  | LastRead int

definition answered :: "('a \<Rightarrow> 'b) \<Rightarrow> ('a, 's) outcome \<Rightarrow> ('b, 's) outcome" where
  "answered f r = (map_sum id f (fst r), snd r)"

fun ticket_handle ::
  "ticket_env \<Rightarrow> time \<Rightarrow> guard_user \<Rightarrow> ticket_request \<Rightarrow> ticket_state \<Rightarrow> (ticket_answer, ticket_state) outcome" where
  "ticket_handle env now c (ListTickets q) st = (Inr (case_prod TicketList (ticket_list env q c st)), st)"
| "ticket_handle env now c (CreateTicket b) st = answered TicketRow (ticket_create env now b c st)"
| "ticket_handle env now c TicketDomains st = (Inr (DomainList (ticketableDomains env c st)), st)"
| "ticket_handle env now c (TicketResources i) st = (map_sum id ResourceList (ticketableResources env i c st), st)"
| "ticket_handle env now c (GetTicket i) st = (map_sum id TicketPage (ticket_get env i c st), st)"
| "ticket_handle env now c (TicketMessages i q) st =
     (map_sum id (case_prod MessagePage) (messagesPage env i c q st), st)"
| "ticket_handle env now c (ReplyTicket i body) st = answered MessageRow (ticket_reply env now i body c st)"
| "ticket_handle env now c (EditMessage i m body) st = answered MessageRow (editMessage env now i m body c st)"
| "ticket_handle env now c (MarkRead i) st = answered LastRead (markRead env now i c st)"
| "ticket_handle env now c (TakeTicket i) st = answered TicketRow (ticket_take env now i c st)"
| "ticket_handle env now c (SetTicketStatus i status) st = answered TicketRow (setStatus env now i status c st)"

definition ticket_serve ::
  "ticket_env \<Rightarrow> time \<Rightarrow> guard_user \<Rightarrow> ticket_request \<Rightarrow> ticket_state \<Rightarrow> (ticket_answer, ticket_state) outcome" where
  "ticket_serve env now c r st =
     (case global_guard (te_lib env) (Some [(''tickets'', [''access'', ticket_action r])]) (Some c) of
        Inl e \<Rightarrow> (Inl e, st)
      | Inr _ \<Rightarrow>
          (case ticket_schema r of
             None \<Rightarrow> (Inl (HttpException BAD_REQUEST ''Validation failed''), st)
           | Some r' \<Rightarrow> ticket_handle env now c r' st))"

section \<open>What the foreign keys do\<close>

text \<open>The mail tables and the accounts changed by another service: a domain or a mailbox that is gone takes
  its rows with it, a closed account leaves its tickets and its messages without a name.\<close>

definition still_there :: "account list \<Rightarrow> string option \<Rightarrow> string option" where
  "still_there accounts i =
     (case i of None \<Rightarrow> None | Some i \<Rightarrow> if i \<in> ac_id ` set accounts then Some i else None)"

definition cascade_tickets :: "mail_state \<Rightarrow> support_ticket list \<Rightarrow> support_ticket list" where
  "cascade_tickets mail tickets =
     map (\<lambda>t. t\<lparr>sk_createdBy := still_there (ms_accounts mail) (sk_createdBy t),
                  sk_assignedTo := still_there (ms_accounts mail) (sk_assignedTo t)\<rparr>)
       (filter (\<lambda>t. sk_domainId t \<in> vd_id ` set (ms_domains mail)) tickets)"

definition cascade_messages :: "int set \<Rightarrow> mail_state \<Rightarrow> ticket_message list \<Rightarrow> ticket_message list" where
  "cascade_messages kept mail messages =
     map (\<lambda>m. m\<lparr>sm_authorId := still_there (ms_accounts mail) (sm_authorId m)\<rparr>)
       (filter (\<lambda>m. sm_ticketId m \<in> kept) messages)"

definition cascade_reads :: "int set \<Rightarrow> mail_state \<Rightarrow> ticket_read list \<Rightarrow> ticket_read list" where
  "cascade_reads kept mail reads =
     filter (\<lambda>r. sr_ticketId r \<in> kept \<and> sr_accountId r \<in> ac_id ` set (ms_accounts mail)) reads"

definition cascade_recipients :: "int set \<Rightarrow> mail_state \<Rightarrow> ticket_pivot list \<Rightarrow> ticket_pivot list" where
  "cascade_recipients kept mail links = filter (\<lambda>l. fst l \<in> kept \<and> snd l \<in> vu_id ` set (ms_users mail)) links"

definition cascade_aliases :: "int set \<Rightarrow> mail_state \<Rightarrow> ticket_pivot list \<Rightarrow> ticket_pivot list" where
  "cascade_aliases kept mail links = filter (\<lambda>l. fst l \<in> kept \<and> snd l \<in> va_id ` set (ms_aliases mail)) links"

definition ticket_cascade :: "mail_state \<Rightarrow> ticket_state \<Rightarrow> ticket_state" where
  "ticket_cascade mail st =
     (let tickets = cascade_tickets mail (ts_tickets st); kept = sk_id ` set tickets
      in st\<lparr>ts_mail := mail, ts_tickets := tickets, ts_messages := cascade_messages kept mail (ts_messages st),
            ts_reads := cascade_reads kept mail (ts_reads st),
            ts_recipients := cascade_recipients kept mail (ts_recipients st),
            ts_aliases := cascade_aliases kept mail (ts_aliases st)\<rparr>)"

lemmas cascade_defs = ticket_cascade_def cascade_tickets_def cascade_messages_def cascade_reads_def
  cascade_recipients_def cascade_aliases_def

end
