(* ===== verification/TicketEffects.thy ===== *)
theory TicketEffects imports Tickets begin

text \<open>
  What one request leaves of the tickets' tables.  \<open>ticket_effect\<close> is the specification of the service: the six
  changes a request may make, each with the condition it is made under; \<open>serve_effect\<close> shows that the
  requests of \<open>Tickets\<close> make no other.  The notices and the journal are left aside by \<open>tables_of\<close>.
\<close>

section \<open>The tables without their traces\<close>

definition tables_of :: "ticket_state \<Rightarrow> ticket_state" where
  "tables_of st = st\<lparr>ts_mail := (ts_mail st)\<lparr>ms_journal := []\<rparr>, ts_notices := []\<rparr>"

lemma tables_of_trace [simp]:
  "tables_of (ticket_record env action actorId i st) = tables_of st"
  "tables_of (ticket_notify env t type actorId status st) = tables_of st"
  by (simp_all add: tables_of_def ticket_record_def ticket_notify_def Let_def)

text \<open>Everything the conditions and the invariants read is a function of these.\<close>

lemma tables_of_eqD:
  assumes "tables_of st = tables_of st'"
  shows "ts_tickets st = ts_tickets st'" "ts_messages st = ts_messages st'" "ts_reads st = ts_reads st'"
    "ts_recipients st = ts_recipients st'" "ts_aliases st = ts_aliases st'"
    "ts_nextTicket st = ts_nextTicket st'" "ts_nextMessage st = ts_nextMessage st'"
    "ts_domains st = ts_domains st'" "ts_accounts st = ts_accounts st'"
    "ms_users (ts_mail st) = ms_users (ts_mail st')" "ms_aliases (ts_mail st) = ms_aliases (ts_mail st')"
    "ms_delegations (ts_mail st) = ms_delegations (ts_mail st')"
proof -
  have "f (tables_of st) = f (tables_of st')" for f :: "ticket_state \<Rightarrow> 'b" by (simp add: assms)
  note this [of ts_tickets] this [of ts_messages] this [of ts_reads] this [of ts_recipients]
    this [of ts_aliases] this [of ts_nextTicket] this [of ts_nextMessage] this [of ts_domains]
    this [of ts_accounts] this [of "\<lambda>s. ms_users (ts_mail s)"] this [of "\<lambda>s. ms_aliases (ts_mail s)"]
    this [of "\<lambda>s. ms_delegations (ts_mail s)"]
  then show "ts_tickets st = ts_tickets st'" "ts_messages st = ts_messages st'" "ts_reads st = ts_reads st'"
    "ts_recipients st = ts_recipients st'" "ts_aliases st = ts_aliases st'"
    "ts_nextTicket st = ts_nextTicket st'" "ts_nextMessage st = ts_nextMessage st'"
    "ts_domains st = ts_domains st'" "ts_accounts st = ts_accounts st'"
    "ms_users (ts_mail st) = ms_users (ts_mail st')" "ms_aliases (ts_mail st) = ms_aliases (ts_mail st')"
    "ms_delegations (ts_mail st) = ms_delegations (ts_mail st')"
    by (simp_all add: tables_of_def)
qed

section \<open>The changes\<close>

text \<open>\<open>may_answer\<close>: who writes on a ticket.\<close>

definition may_answer :: "ticket_env \<Rightarrow> guard_user \<Rightarrow> support_ticket \<Rightarrow> bool" where
  "may_answer env c t =
     (sk_createdBy t = Some (gu_id c) \<or> gu_isRoot c \<or> te_check env (gu_id c) ''tickets'' ''reply-ticket'')"

definition named_ids :: "int list option \<Rightarrow> int list" where
  "named_ids ids = remdups (case ids of None \<Rightarrow> [] | Some l \<Rightarrow> l)"

definition opened_ticket :: "time \<Rightarrow> new_ticket \<Rightarrow> guard_user \<Rightarrow> ticket_state \<Rightarrow> support_ticket" where
  "opened_ticket now b c st =
     \<lparr>sk_id = ts_nextTicket st, sk_domainId = nt_domainId b, sk_createdBy = Some (gu_id c), sk_assignedTo = None,
      sk_subject = nt_subject b, sk_status = ''open'',
      sk_visibility = (case nt_visibility b of None \<Rightarrow> ''private'' | Some v \<Rightarrow> v),
      sk_createdAt = sql_now now, sk_updatedAt = sql_now now\<rparr>"

definition written_message :: "time \<Rightarrow> int \<Rightarrow> string \<Rightarrow> guard_user \<Rightarrow> ticket_state \<Rightarrow> ticket_message" where
  "written_message now i body c st =
     \<lparr>sm_id = ts_nextMessage st, sm_ticketId = i, sm_authorId = Some (gu_id c), sm_body = body,
      sm_createdAt = sql_now now, sm_updatedAt = None, sm_editCount = 0\<rparr>"

definition opened_state :: "time \<Rightarrow> new_ticket \<Rightarrow> guard_user \<Rightarrow> ticket_state \<Rightarrow> ticket_state" where
  "opened_state now b c st =
     (let t = opened_ticket now b c st
      in st\<lparr>ts_tickets := ts_tickets st @ [t], ts_nextTicket := ts_nextTicket st + 1,
            ts_recipients := ts_recipients st @ map (Pair (sk_id t)) (named_ids (nt_recipientIds b)),
            ts_aliases := ts_aliases st @ map (Pair (sk_id t)) (named_ids (nt_aliasIds b)),
            ts_messages := ts_messages st @ [written_message now (sk_id t) (nt_body b) c st],
            ts_nextMessage := ts_nextMessage st + 1\<rparr>)"

definition replied_state :: "time \<Rightarrow> int \<Rightarrow> string \<Rightarrow> guard_user \<Rightarrow> ticket_state \<Rightarrow> ticket_state" where
  "replied_state now i body c st =
     st\<lparr>ts_messages := ts_messages st @ [written_message now i body c st], ts_nextMessage := ts_nextMessage st + 1,
        ts_tickets := update_where (\<lambda>t. sk_id t = i) (sk_updatedAt_update (\<lambda>_. sql_now now)) (ts_tickets st)\<rparr>"

definition reworded :: "time \<Rightarrow> string \<Rightarrow> ticket_message \<Rightarrow> ticket_message" where
  "reworded now body m = m\<lparr>sm_body := body, sm_updatedAt := Some now, sm_editCount := sm_editCount m + 1\<rparr>"

definition taken_by :: "guard_user \<Rightarrow> support_ticket \<Rightarrow> support_ticket" where
  "taken_by c t =
     t\<lparr>sk_assignedTo := Some (gu_id c),
       sk_status := (if sk_status t = ''open'' then ''in_progress'' else sk_status t)\<rparr>"

definition read_row :: "time \<Rightarrow> int \<Rightarrow> guard_user \<Rightarrow> int \<Rightarrow> ticket_read" where
  "read_row now i c newest =
     \<lparr>sr_ticketId = i, sr_accountId = gu_id c, sr_lastReadMessageId = newest, sr_readAt = sql_now now\<rparr>"

abbreviation read_key :: "ticket_read \<Rightarrow> int \<times> string" where
  "read_key r \<equiv> (sr_ticketId r, sr_accountId r)"

definition newest_or_zero :: "int \<Rightarrow> ticket_state \<Rightarrow> int" where
  "newest_or_zero i st = (case newest_message i st of None \<Rightarrow> 0 | Some n \<Rightarrow> n)"

inductive ticket_effect ::
  "ticket_env \<Rightarrow> time \<Rightarrow> guard_user \<Rightarrow> ticket_request \<Rightarrow> ticket_state \<Rightarrow> ticket_state \<Rightarrow> bool"
  for env :: ticket_env and now :: time and c :: guard_user where
  unchanged: "ticket_effect env now c r st st"
| opened: "createTicketSchema raw = Some b \<Longrightarrow> ticketableResources env (nt_domainId b) c st = Inr offered \<Longrightarrow>
    assertNamedResources offered (named_ids (nt_recipientIds b)) (named_ids (nt_aliasIds b)) = Inr () \<Longrightarrow>
    (tr_required offered \<and> (tr_recipients offered \<noteq> [] \<or> tr_aliases offered \<noteq> []) \<Longrightarrow>
       named_ids (nt_recipientIds b) \<noteq> [] \<or> named_ids (nt_aliasIds b) \<noteq> []) \<Longrightarrow>
    ticket_effect env now c (CreateTicket raw) st (opened_state now b c st)"
| replied: "trimmed_text 10000 raw = Some body \<Longrightarrow> visibleTicket env i c st = Inr t \<Longrightarrow>
    sk_status t \<noteq> ''closed'' \<Longrightarrow> may_answer env c t \<Longrightarrow>
    ticket_effect env now c (ReplyTicket i raw) st (replied_state now i body c st)"
| edited: "trimmed_text 10000 raw = Some body \<Longrightarrow> visibleTicket env i c st = Inr t \<Longrightarrow>
    sk_status t \<noteq> ''closed'' \<Longrightarrow> m \<in> set (ts_messages st) \<Longrightarrow> sm_id m = j \<Longrightarrow> sm_ticketId m = i \<Longrightarrow>
    sm_authorId m = Some (gu_id c) \<Longrightarrow> now - sm_createdAt m \<le> TICKET_MESSAGE_EDIT_WINDOW_MS \<Longrightarrow>
    ticket_effect env now c (EditMessage i j raw) st
      (st\<lparr>ts_messages := save_row sm_id (reworded now body m) (ts_messages st)\<rparr>)"
| seen: "visibleTicket env i c st = Inr t \<Longrightarrow>
    (\<And>r. List.find (\<lambda>r. sr_ticketId r = i \<and> sr_accountId r = gu_id c) (ts_reads st) = Some r \<Longrightarrow>
       sr_lastReadMessageId r < newest_or_zero i st) \<Longrightarrow>
    ticket_effect env now c (MarkRead i) st
      (st\<lparr>ts_reads := save_row read_key (read_row now i c (newest_or_zero i st)) (ts_reads st)\<rparr>)"
| taken: "visibleTicket env i c st = Inr t \<Longrightarrow> sk_createdBy t \<noteq> Some (gu_id c) \<Longrightarrow>
    ticket_effect env now c (TakeTicket i) st (save_ticket now (taken_by c t) st)"
| moved: "visibleTicket env i c st = Inr t \<Longrightarrow> status \<in> set TICKET_STATUSES \<Longrightarrow>
    (sk_createdBy t = Some (gu_id c) \<and> status = ''closed'') \<or> isSupport env c \<Longrightarrow>
    ticket_effect env now c (SetTicketStatus i status) st (save_ticket now (t\<lparr>sk_status := status\<rparr>) st)"

section \<open>Each operation makes one of them\<close>

lemma visibleTicket_Inr:
  "visibleTicket env i c st = Inr t \<Longrightarrow> t \<in> set (ts_tickets st) \<and> sk_id t = i"
  by (auto simp: visibleTicket_def find_ticket_def find_Some_iff split: option.splits if_splits dest: nth_mem)

lemma visibleTicket_Inl: "visibleTicket env i c st = Inl e \<Longrightarrow> e = ticket_missing"
  by (auto simp: visibleTicket_def split: option.splits if_splits)

lemma domain_of_ticket_found:
  "find_domain i (ts_mail st) = Some d \<Longrightarrow> d \<in> set (ts_domains st) \<and> vd_id d = i"
  by (auto simp: find_domain_def find_Some_iff dest: nth_mem)

lemma create_effect:
  assumes "createTicketSchema raw = Some b" "ticket_create env now b c st = (res, st')"
  shows "\<exists>st1. ticket_effect env now c (CreateTicket raw) st st1 \<and> tables_of st' = tables_of st1
    \<and> (case res of Inl e \<Rightarrow> st' = st | Inr t \<Rightarrow> t = opened_ticket now b c st \<and> st1 = opened_state now b c st)"
proof (cases "find_domain (nt_domainId b) (ts_mail st)")
  case None
  then show ?thesis using assms(2) by (auto simp: ticket_create_def intro: unchanged)
next
  case (Some domain)
  have id: "vd_id domain = nt_domainId b" using domain_of_ticket_found [OF Some] by simp
  show ?thesis
  proof (cases "domain_in_reach (visibleDomainIds env c st) (nt_domainId b)")
    case False
    then show ?thesis using assms(2) Some by (auto simp: ticket_create_def intro: unchanged)
  next
    case reach: True
    show ?thesis
    proof (cases "ticketableResources env (nt_domainId b) c st")
      case (Inl e)
      then show ?thesis using assms(2) Some reach id by (auto simp: ticket_create_def Let_def intro: unchanged)
    next
      case (Inr offered)
      show ?thesis
      proof (cases "(tr_required offered \<and> (tr_recipients offered \<noteq> [] \<or> tr_aliases offered \<noteq> []) \<longrightarrow>
          named_ids (nt_recipientIds b) \<noteq> [] \<or> named_ids (nt_aliasIds b) \<noteq> [])
          \<and> assertNamedResources offered (named_ids (nt_recipientIds b)) (named_ids (nt_aliasIds b)) = Inr ()")
        case False
        then have "st' = st \<and> (\<exists>e. res = Inl e)"
          using assms(2) Some reach id Inr
          by (auto simp: ticket_create_def Let_def named_ids_def split: if_splits sum.splits)
        then show ?thesis by (auto intro: unchanged)
      next
        case True
        then have "res = Inr (opened_ticket now b c st) \<and> tables_of st' = tables_of (opened_state now b c st)"
          using assms(2) Some reach id Inr
          by (auto simp: ticket_create_def Let_def named_ids_def insert_ticket_def insert_message_def
              opened_ticket_def opened_state_def written_message_def split: if_splits)
        moreover have "ticket_effect env now c (CreateTicket raw) st (opened_state now b c st)"
          using True by (intro opened [OF assms(1) Inr]) auto
        ultimately show ?thesis by auto
      qed
    qed
  qed
qed

lemma reply_effect:
  assumes "trimmed_text 10000 raw = Some body" "ticket_reply env now i body c st = (res, st')"
  shows "\<exists>st1. ticket_effect env now c (ReplyTicket i raw) st st1 \<and> tables_of st' = tables_of st1
    \<and> (case res of Inl e \<Rightarrow> st' = st | Inr m \<Rightarrow> m = written_message now i body c st)"
proof (cases "visibleTicket env i c st")
  case (Inl e)
  then show ?thesis using assms by (auto simp: ticket_reply_def intro: unchanged)
next
  case (Inr t)
  show ?thesis
  proof (cases "sk_status t \<noteq> ''closed'' \<and> may_answer env c t")
    case True
    then have "ticket_effect env now c (ReplyTicket i raw) st (replied_state now i body c st)"
      by (intro replied [OF assms(1) Inr]) auto
    moreover have "res = Inr (written_message now i body c st)"
      "tables_of st' = tables_of (replied_state now i body c st)"
      using assms(2) Inr True
      by (auto simp: ticket_reply_def may_answer_def insert_message_def written_message_def replied_state_def Let_def
          split: if_splits)
    ultimately show ?thesis by auto
  next
    case False
    then show ?thesis using assms(2) Inr
      by (auto simp: ticket_reply_def may_answer_def intro: unchanged split: if_splits)
  qed
qed

lemma edit_effect:
  assumes "trimmed_text 10000 raw = Some body" "editMessage env now i j body c st = (res, st')"
  shows "\<exists>st1. ticket_effect env now c (EditMessage i j raw) st st1 \<and> tables_of st' = tables_of st1
    \<and> (case res of Inl e \<Rightarrow> st' = st | Inr m \<Rightarrow> True)"
proof (cases res)
  case (Inl e)
  then have "st' = st" using assms(2)
    by (auto simp: editMessage_def Let_def split: sum.splits if_splits option.splits)
  with Inl show ?thesis by (auto intro: unchanged)
next
  case (Inr saved)
  then obtain t m where v: "visibleTicket env i c st = Inr t" "sk_status t \<noteq> ''closed''"
    and m: "List.find (\<lambda>m. sm_id m = j \<and> sm_ticketId m = i) (ts_messages st) = Some m"
      "sm_authorId m = Some (gu_id c)" "now - sm_createdAt m \<le> TICKET_MESSAGE_EDIT_WINDOW_MS"
    and st': "tables_of st' = tables_of (st\<lparr>ts_messages := save_row sm_id (reworded now body m) (ts_messages st)\<rparr>)"
    using assms(2)
    by (auto simp: editMessage_def Let_def reworded_def split: sum.splits if_splits option.splits)
  from m(1) have "m \<in> set (ts_messages st)" "sm_id m = j" "sm_ticketId m = i"
    by (auto simp: find_Some_iff dest: nth_mem)
  from edited [OF assms(1) v this m(2,3)] st' Inr show ?thesis by auto
qed

lemma read_effect:
  assumes "markRead env now i c st = (res, st')"
  shows "\<exists>st1. ticket_effect env now c (MarkRead i) st st1 \<and> tables_of st' = tables_of st1
    \<and> (case res of Inl e \<Rightarrow> st' = st | Inr n \<Rightarrow> n = newest_or_zero i st)"
proof (cases "visibleTicket env i c st")
  case (Inl e)
  then show ?thesis using assms by (auto simp: markRead_def intro: unchanged)
next
  case (Inr t)
  let ?own = "List.find (\<lambda>r. sr_ticketId r = i \<and> sr_accountId r = gu_id c) (ts_reads st)"
  have res: "res = Inr (newest_or_zero i st)"
    using assms Inr by (auto simp: markRead_def newest_or_zero_def Let_def split: option.splits if_splits)
  show ?thesis
  proof (cases "\<exists>r. ?own = Some r \<and> newest_or_zero i st \<le> sr_lastReadMessageId r")
    case True
    then have "st' = st" using assms Inr
      by (auto simp: markRead_def newest_or_zero_def Let_def split: option.splits if_splits)
    with res show ?thesis by (auto intro: unchanged)
  next
    case False
    then have "st' = st\<lparr>ts_reads := save_row read_key (read_row now i c (newest_or_zero i st)) (ts_reads st)\<rparr>"
      using assms Inr
      by (auto simp: markRead_def newest_or_zero_def read_row_def Let_def split: option.splits if_splits)
    moreover have "ticket_effect env now c (MarkRead i) st
        (st\<lparr>ts_reads := save_row read_key (read_row now i c (newest_or_zero i st)) (ts_reads st)\<rparr>)"
      by (rule seen [OF Inr]) (use False in force)
    ultimately show ?thesis using res by auto
  qed
qed

lemma take_effect:
  assumes "ticket_take env now i c st = (res, st')"
  shows "\<exists>st1. ticket_effect env now c (TakeTicket i) st st1 \<and> tables_of st' = tables_of st1
    \<and> (case res of Inl e \<Rightarrow> st' = st | Inr t \<Rightarrow> True)"
proof (cases "visibleTicket env i c st")
  case (Inl e)
  then have "res = Inl e" "st' = st" using assms by (simp_all add: ticket_take_def)
  then show ?thesis by (auto intro: unchanged)
next
  case (Inr t)
  show ?thesis
  proof (cases "sk_createdBy t = Some (gu_id c)")
    case True
    then show ?thesis using assms Inr by (auto simp: ticket_take_def intro: unchanged)
  next
    case False
    have "(if sk_status (t\<lparr>sk_assignedTo := Some (gu_id c)\<rparr>) = ''open''
        then (t\<lparr>sk_assignedTo := Some (gu_id c)\<rparr>)\<lparr>sk_status := ''in_progress''\<rparr>
        else t\<lparr>sk_assignedTo := Some (gu_id c)\<rparr>) = taken_by c t" by (simp add: taken_by_def)
    then have "res = Inr (taken_by c t)" "tables_of st' = tables_of (save_ticket now (taken_by c t) st)"
      using assms Inr False by (auto simp: ticket_take_def Let_def)
    moreover have "ticket_effect env now c (TakeTicket i) st (save_ticket now (taken_by c t) st)"
      by (rule taken [OF Inr False])
    ultimately show ?thesis by auto
  qed
qed

lemma status_effect:
  assumes "status \<in> set TICKET_STATUSES" "setStatus env now i status c st = (res, st')"
  shows "\<exists>st1. ticket_effect env now c (SetTicketStatus i status) st st1 \<and> tables_of st' = tables_of st1
    \<and> (case res of Inl e \<Rightarrow> st' = st | Inr t \<Rightarrow> True)"
proof (cases "visibleTicket env i c st")
  case (Inl e)
  then have "res = Inl e" "st' = st" using assms by (simp_all add: setStatus_def)
  then show ?thesis by (auto intro: unchanged)
next
  case (Inr t)
  show ?thesis
  proof (cases "(sk_createdBy t = Some (gu_id c) \<and> status = ''closed'') \<or> isSupport env c")
    case True
    then have "tables_of st' = tables_of (save_ticket now (t\<lparr>sk_status := status\<rparr>) st)" "\<exists>t. res = Inr t"
      using assms(2) Inr by (auto simp: setStatus_def Let_def split: if_splits)
    moreover have "ticket_effect env now c (SetTicketStatus i status) st (save_ticket now (t\<lparr>sk_status := status\<rparr>) st)"
      by (rule moved [OF Inr assms(1) True])
    ultimately show ?thesis by auto
  next
    case False
    then show ?thesis using assms(2) Inr by (auto simp: setStatus_def Let_def intro: unchanged split: if_splits)
  qed
qed

section \<open>A request\<close>

lemma answered_eq: "answered f r = (res, st') \<longleftrightarrow> (\<exists>x. r = (x, st') \<and> res = map_sum id f x)"
  by (cases r) (auto simp: answered_def)

lemma answered_Inr: "answered f r = (Inr y, st') \<longleftrightarrow> (\<exists>x. r = (Inr x, st') \<and> y = f x)"
  by (cases r; cases "fst r") (auto simp: answered_def)

text \<open>A read answers from the state and leaves it.\<close>

fun only_reads :: "ticket_request \<Rightarrow> bool" where
  "only_reads (CreateTicket b) = False"
| "only_reads (ReplyTicket i body) = False"
| "only_reads (EditMessage i m body) = False"
| "only_reads (MarkRead i) = False"
| "only_reads (TakeTicket i) = False"
| "only_reads (SetTicketStatus i status) = False"
| "only_reads _ = True"

lemma read_leaves: "only_reads r \<Longrightarrow> snd (ticket_handle env now c r st) = st"
  by (cases r) simp_all

lemma schema_reads: "ticket_schema r = Some r' \<Longrightarrow> only_reads r' = only_reads r"
  by (cases r) (auto split: if_splits)

definition error_keeps :: "(err + 'a) \<Rightarrow> ticket_state \<Rightarrow> ticket_state \<Rightarrow> bool" where
  "error_keeps res st st' = (case res of Inl e \<Rightarrow> st' = st | Inr _ \<Rightarrow> True)"

lemma handle_effect:
  assumes "ticket_schema r = Some r'" "ticket_handle env now c r' st = (res, st')"
  shows "\<exists>st1. ticket_effect env now c r st st1 \<and> tables_of st' = tables_of st1 \<and> error_keeps res st st'"
proof (cases "only_reads r")
  case True
  then have "st' = st" using read_leaves [of r' env now c st] schema_reads [OF assms(1)] assms(2) by simp
  then show ?thesis by (auto simp: error_keeps_def intro: unchanged split: sum.splits)
next
  case False
  then show ?thesis
  proof (cases r)
    case (CreateTicket raw)
    then obtain b x where "createTicketSchema raw = Some b" "ticket_create env now b c st = (x, st')"
      "res = map_sum id TicketRow x" using assms by (auto simp: answered_eq)
    then show ?thesis using create_effect [of raw b env now c st x st'] CreateTicket
      by (fastforce simp: error_keeps_def split: sum.splits)
  next
    case (ReplyTicket i raw)
    then obtain b x where "trimmed_text 10000 raw = Some b" "ticket_reply env now i b c st = (x, st')"
      "res = map_sum id MessageRow x" using assms by (auto simp: answered_eq)
    then show ?thesis using reply_effect [of raw b env now i c st x st'] ReplyTicket
      by (fastforce simp: error_keeps_def split: sum.splits)
  next
    case (EditMessage i j raw)
    then obtain b x where "trimmed_text 10000 raw = Some b" "editMessage env now i j b c st = (x, st')"
      "res = map_sum id MessageRow x" using assms by (auto simp: answered_eq)
    then show ?thesis using edit_effect [of raw b env now i j c st x st'] EditMessage
      by (fastforce simp: error_keeps_def split: sum.splits)
  next
    case (MarkRead i)
    then obtain x where "markRead env now i c st = (x, st')" "res = map_sum id LastRead x"
      using assms by (auto simp: answered_eq)
    then show ?thesis using read_effect [of env now i c st x st'] MarkRead
      by (fastforce simp: error_keeps_def split: sum.splits)
  next
    case (TakeTicket i)
    then obtain x where "ticket_take env now i c st = (x, st')" "res = map_sum id TicketRow x"
      using assms by (auto simp: answered_eq)
    then show ?thesis using take_effect [of env now i c st x st'] TakeTicket
      by (fastforce simp: error_keeps_def split: sum.splits)
  next
    case (SetTicketStatus i status)
    then obtain x where "status \<in> set TICKET_STATUSES" "setStatus env now i status c st = (x, st')"
      "res = map_sum id TicketRow x" using assms by (auto simp: answered_eq split: if_splits)
    then show ?thesis using status_effect [of status env now i c st x st'] SetTicketStatus
      by (fastforce simp: error_keeps_def split: sum.splits)
  qed simp_all
qed

lemma serve_effect:
  assumes "ticket_serve env now c r st = (res, st')"
  obtains st1 where "ticket_effect env now c r st st1" "tables_of st' = tables_of st1" "error_keeps res st st'"
proof (cases "\<exists>ok r'. global_guard (te_lib env) (Some [(''tickets'', [''access'', ticket_action r])]) (Some c) = Inr ok
    \<and> ticket_schema r = Some r'")
  case True
  then obtain ok r' where g: "global_guard (te_lib env) (Some [(''tickets'', [''access'', ticket_action r])]) (Some c) = Inr ok"
    and r': "ticket_schema r = Some r'" by blast
  then have "ticket_handle env now c r' st = (res, st')" using assms by (simp add: ticket_serve_def)
  from handle_effect [OF r' this] that show thesis by blast
next
  case False
  then have "st' = st" "\<exists>e. res = Inl e"
    using assms by (auto simp: ticket_serve_def split: sum.splits option.splits)
  then show thesis using that [OF unchanged] by (simp add: error_keeps_def split: sum.splits)
qed

end
