(* ===== verification/TicketInvariant.thy ===== *)
theory TicketInvariant imports TicketEffects "HOL-Library.Multiset" begin

text \<open>
  The runs of the support desk, requests of signed-in accounts in any order between changes other services make,
  and what holds of the tables all along: \<open>tickets_sound\<close>.
\<close>

section \<open>Runs\<close>

text \<open>What \<open>ORDER BY\<close> is relied on for: the same rows, in some order.\<close>

definition database_sorts :: "ticket_env \<Rightarrow> bool" where
  "database_sorts env =
     ((\<forall>column asc rows. mset (te_orderTickets env column asc rows) = mset rows)
      \<and> (\<forall>rows. mset (te_orderDomains env rows) = mset rows) \<and> (\<forall>rows. mset (te_orderUsers env rows) = mset rows)
      \<and> (\<forall>rows. mset (te_orderAliases env rows) = mset rows))"

lemma database_sorts_set:
  assumes "database_sorts env"
  shows "set (te_orderTickets env column asc ts) = set ts" "set (te_orderDomains env ds) = set ds"
    "set (te_orderUsers env us) = set us" "set (te_orderAliases env als) = set als"
  using assms by (auto simp: database_sorts_def intro!: mset_eq_setD)

text \<open>The account the authentication guard put on the request: it exists, it is enabled.\<close>

definition signed_in :: "guard_user \<Rightarrow> ticket_state \<Rightarrow> bool" where
  "signed_in c st =
     (case find_account (gu_id c) (ts_accounts st) of None \<Rightarrow> False
      | Some a \<Rightarrow> ac_enabled a = 1 \<and> gu_isRoot c = (ac_isRoot a = 1))"

datatype ticket_event =
    Asked ticket_env time guard_user ticket_request
  | Elsewhere mail_state

inductive ticket_run :: "ticket_state \<Rightarrow> ticket_event list \<Rightarrow> ticket_state \<Rightarrow> bool" where
  begins: "ticket_run st [] st"
| asked: "ticket_run s evs st \<Longrightarrow> database_sorts env \<Longrightarrow> signed_in c st \<Longrightarrow>
    ticket_serve env now c r st = (res, st') \<Longrightarrow> ticket_run s (evs @ [Asked env now c r]) st'"
| elsewhere: "ticket_run s evs st \<Longrightarrow> ticket_run s (evs @ [Elsewhere mail]) (ticket_cascade mail st)"

section \<open>Sound tables\<close>

definition known :: "account list \<Rightarrow> string option \<Rightarrow> bool" where
  "known accounts i = (case i of None \<Rightarrow> True | Some i \<Rightarrow> i \<in> ac_id ` set accounts)"

definition ticket_sound :: "ticket_state \<Rightarrow> support_ticket \<Rightarrow> bool" where
  "ticket_sound st t =
     (sk_id t < ts_nextTicket st \<and> sk_domainId t \<in> vd_id ` set (ts_domains st)
      \<and> known (ts_accounts st) (sk_createdBy t) \<and> known (ts_accounts st) (sk_assignedTo t)
      \<and> sk_status t \<in> set TICKET_STATUSES \<and> sk_visibility t \<in> set TICKET_VISIBILITIES
      \<and> (sk_assignedTo t \<noteq> None \<longrightarrow> sk_assignedTo t \<noteq> sk_createdBy t))"

definition message_sound :: "ticket_state \<Rightarrow> ticket_message \<Rightarrow> bool" where
  "message_sound st m =
     (0 < sm_id m \<and> sm_id m < ts_nextMessage st \<and> sm_ticketId m \<in> sk_id ` set (ts_tickets st)
      \<and> known (ts_accounts st) (sm_authorId m)
      \<and> 0 \<le> sm_editCount m \<and> (sm_updatedAt m = None \<longleftrightarrow> sm_editCount m = 0))"

definition read_sound :: "ticket_state \<Rightarrow> ticket_read \<Rightarrow> bool" where
  "read_sound st r =
     (sr_accountId r \<in> ac_id ` set (ts_accounts st)
      \<and> (\<exists>m \<in> set (ts_messages st). sm_id m = sr_lastReadMessageId r \<and> sm_ticketId m = sr_ticketId r))"

definition pivots_sound :: "ticket_state \<Rightarrow> bool" where
  "pivots_sound st =
     (distinct (ts_recipients st) \<and> distinct (ts_aliases st)
      \<and> (\<forall>l \<in> set (ts_recipients st). fst l \<in> sk_id ` set (ts_tickets st) \<and> snd l \<in> vu_id ` set (ms_users (ts_mail st)))
      \<and> (\<forall>l \<in> set (ts_aliases st). fst l \<in> sk_id ` set (ts_tickets st) \<and> snd l \<in> va_id ` set (ms_aliases (ts_mail st))))"

definition tickets_sound :: "ticket_state \<Rightarrow> bool" where
  "tickets_sound st =
     (distinct (map sk_id (ts_tickets st)) \<and> distinct (map sm_id (ts_messages st))
      \<and> distinct (map read_key (ts_reads st)) \<and> 0 < ts_nextMessage st
      \<and> (\<forall>t \<in> set (ts_tickets st). ticket_sound st t \<and> (\<exists>m \<in> set (ts_messages st). sm_ticketId m = sk_id t))
      \<and> (\<forall>m \<in> set (ts_messages st). message_sound st m)
      \<and> (\<forall>r \<in> set (ts_reads st). read_sound st r)
      \<and> pivots_sound st)"

lemma tickets_soundD:
  assumes "tickets_sound st"
  shows "distinct (map sk_id (ts_tickets st))" "distinct (map sm_id (ts_messages st))"
    "distinct (map read_key (ts_reads st))" "0 < ts_nextMessage st" "pivots_sound st"
    "\<And>t. t \<in> set (ts_tickets st) \<Longrightarrow> ticket_sound st t"
    "\<And>t. t \<in> set (ts_tickets st) \<Longrightarrow> \<exists>m \<in> set (ts_messages st). sm_ticketId m = sk_id t"
    "\<And>m. m \<in> set (ts_messages st) \<Longrightarrow> message_sound st m"
    "\<And>r. r \<in> set (ts_reads st) \<Longrightarrow> read_sound st r"
  using assms unfolding tickets_sound_def by blast+

text \<open>The invariant reads the tables only.\<close>

lemma tickets_sound_tables:
  assumes "tables_of st = tables_of st'"
  shows "tickets_sound st = tickets_sound st'"
  using tables_of_eqD [OF assms]
  by (simp add: tickets_sound_def ticket_sound_def message_sound_def read_sound_def pivots_sound_def)

lemma signed_in_known: "signed_in c st \<Longrightarrow> gu_id c \<in> ac_id ` set (ts_accounts st)"
  by (auto simp: signed_in_def find_account_def dest!: find_in_set split: option.splits intro: rev_image_eqI)

section \<open>The newest message\<close>

lemma newest_message_Some:
  "newest_message i st = Some n \<Longrightarrow>
     (\<exists>m \<in> set (ts_messages st). sm_ticketId m = i \<and> sm_id m = n)
     \<and> (\<forall>m \<in> set (ts_messages st). sm_ticketId m = i \<longrightarrow> sm_id m \<le> n)"
proof -
  assume n: "newest_message i st = Some n"
  define ids where "ids = map sm_id (filter (\<lambda>m. sm_ticketId m = i) (ts_messages st))"
  obtain j rest where ids_eq: "ids = j # rest" and n_eq: "n = foldl max j rest"
    using n by (auto simp: newest_message_def ids_def split: list.splits)
  have greatest: "foldl max j rest \<in> set (j # rest) \<and> (\<forall>x \<in> set (j # rest). x \<le> foldl max j rest)"
    for j and rest :: "int list"
  proof (induction rest arbitrary: j)
    case (Cons x rest)
    from Cons.IH [of "max j x"] show ?case by (auto simp: max_def split: if_splits)
  qed simp
  have "n \<in> set ids \<and> (\<forall>x \<in> set ids. x \<le> n)" unfolding ids_eq n_eq by (rule greatest)
  then show ?thesis by (auto simp: ids_def)
qed

lemma newest_message_None: "newest_message i st = None \<longleftrightarrow> (\<forall>m \<in> set (ts_messages st). sm_ticketId m \<noteq> i)"
proof -
  have "newest_message i st = None \<longleftrightarrow> filter (\<lambda>m. sm_ticketId m = i) (ts_messages st) = []"
    by (cases "filter (\<lambda>m. sm_ticketId m = i) (ts_messages st)") (simp_all add: newest_message_def)
  then show ?thesis by (simp add: filter_empty_conv)
qed

section \<open>Every change keeps the tables sound\<close>

lemma createTicketSchema_Some:
  "createTicketSchema raw = Some b \<Longrightarrow>
     (case nt_visibility b of None \<Rightarrow> ''private'' | Some v \<Rightarrow> v) \<in> set TICKET_VISIBILITIES"
  by (auto simp: createTicketSchema_def TICKET_VISIBILITIES_def split: option.splits if_splits)

lemma resources_Inr:
  assumes "ticketableResources env i c st = Inr offered"
  obtains d where "find_domain i (ts_mail st) = Some d" "domain_in_reach (visibleDomainIds env c st) i"
    "tr_required offered = te_required env"
    "tr_recipients offered = map (\<lambda>u. (vu_id u, vu_email u)) (te_orderUsers env (filter (\<lambda>u. vu_domain u = vd_domain d
       \<and> (readsEveryAddress env c d ''recipients'' \<or> vu_ownerId u = Some (gu_id c))) (ms_users (ts_mail st))))"
    "tr_aliases offered = map (\<lambda>a. (va_id a, va_source a, va_destination a)) (te_orderAliases env
       (filter (\<lambda>a. va_domain a = vd_domain d
       \<and> (readsEveryAddress env c d ''aliases'' \<or> va_ownerId a = Some (gu_id c))) (ms_aliases (ts_mail st))))"
  using assms by (auto simp: ticketableResources_def Let_def split: option.splits if_splits)

lemma assertNamedResources_Inr:
  "assertNamedResources offered rs as = Inr ()
     \<longleftrightarrow> set rs \<subseteq> fst ` set (tr_recipients offered) \<and> set as \<subseteq> fst ` set (tr_aliases offered)"
  by (auto simp: assertNamedResources_def)

lemma known_Some [simp]: "known accounts None" "known accounts (Some i) = (i \<in> ac_id ` set accounts)"
  by (simp_all add: known_def)

lemma distinct_new_pivots:
  "distinct ps \<Longrightarrow> distinct ids \<Longrightarrow> (\<And>l. l \<in> set ps \<Longrightarrow> fst l \<noteq> i) \<Longrightarrow> distinct (ps @ map (Pair i) ids)"
  by (force simp: distinct_map inj_on_def)

lemma pivots_distinct: "pivots_sound st \<Longrightarrow> distinct (ts_recipients st)" "pivots_sound st \<Longrightarrow> distinct (ts_aliases st)"
  by (simp_all add: pivots_sound_def)

lemma opened_sound:
  assumes sound: "tickets_sound st" and user: "gu_id c \<in> ac_id ` set (ts_accounts st)" and db: "database_sorts env"
    and schema: "createTicketSchema raw = Some b" and offered: "ticketableResources env (nt_domainId b) c st = Inr offered"
    and named: "assertNamedResources offered (named_ids (nt_recipientIds b)) (named_ids (nt_aliasIds b)) = Inr ()"
  shows "tickets_sound (opened_state now b c st)"
proof -
  obtain d where d: "find_domain (nt_domainId b) (ts_mail st) = Some d"
    by (rule resources_Inr [OF offered])
  have rs: "fst ` set (tr_recipients offered) \<subseteq> vu_id ` set (ms_users (ts_mail st))"
    by (rule resources_Inr [OF offered]) (auto simp: database_sorts_set [OF db])
  have als: "fst ` set (tr_aliases offered) \<subseteq> va_id ` set (ms_aliases (ts_mail st))"
    by (rule resources_Inr [OF offered]) (auto simp: database_sorts_set [OF db])
  let ?t = "opened_ticket now b c st" and ?m = "written_message now (ts_nextTicket st) (nt_body b) c st"
  let ?st = "opened_state now b c st"
  have parts: "ts_tickets ?st = ts_tickets st @ [?t]" "ts_messages ?st = ts_messages st @ [?m]"
    "ts_reads ?st = ts_reads st" "ts_mail ?st = ts_mail st" "ts_nextTicket ?st = ts_nextTicket st + 1"
    "ts_nextMessage ?st = ts_nextMessage st + 1" and id: "sk_id ?t = ts_nextTicket st"
    by (simp_all add: opened_state_def Let_def opened_ticket_def)
  have old: "ticket_sound ?st t" if "t \<in> set (ts_tickets st)" for t
    using tickets_soundD(6) [OF sound that] by (simp add: ticket_sound_def parts)
  have new: "ticket_sound ?st ?t"
    using domain_of_ticket_found [OF d] user createTicketSchema_Some [OF schema]
    by (auto simp: ticket_sound_def parts opened_ticket_def TICKET_STATUSES_def intro: rev_image_eqI)
  have "message_sound ?st m" if "m \<in> set (ts_messages st)" for m
    using tickets_soundD(8) [OF sound that] by (auto simp: message_sound_def parts)
  moreover have "message_sound ?st ?m"
    using tickets_soundD(4) [OF sound] user by (simp add: message_sound_def parts written_message_def id)
  moreover have "read_sound ?st r" if "r \<in> set (ts_reads st)" for r
    using tickets_soundD(9) [OF sound that] by (auto simp: read_sound_def parts)
  moreover have fresh: "ts_nextTicket st \<notin> sk_id ` set (ts_tickets st)"
    using tickets_soundD(6) [OF sound] by (force simp: ticket_sound_def)
  moreover have "ts_nextMessage st \<notin> sm_id ` set (ts_messages st)"
    using tickets_soundD(8) [OF sound] by (force simp: message_sound_def)
  moreover have "pivots_sound ?st"
  proof -
    have p: "pivots_sound st" by (rule tickets_soundD(5) [OF sound])
    have n: "set (named_ids (nt_recipientIds b)) \<subseteq> vu_id ` set (ms_users (ts_mail st))"
      "set (named_ids (nt_aliasIds b)) \<subseteq> va_id ` set (ms_aliases (ts_mail st))"
      using named rs als unfolding assertNamedResources_Inr by blast+
    have q: "ts_recipients ?st = ts_recipients st @ map (Pair (ts_nextTicket st)) (named_ids (nt_recipientIds b))"
      "ts_aliases ?st = ts_aliases st @ map (Pair (ts_nextTicket st)) (named_ids (nt_aliasIds b))"
      by (simp_all add: opened_state_def Let_def opened_ticket_def)
    have "fst l \<noteq> ts_nextTicket st" if "l \<in> set (ts_recipients st) \<or> l \<in> set (ts_aliases st)" for l
      using p that fresh unfolding pivots_sound_def by metis
    moreover have "distinct (named_ids ids)" for ids by (simp add: named_ids_def)
    ultimately have "distinct (ts_recipients ?st)" "distinct (ts_aliases ?st)"
      unfolding q using p by (blast intro: distinct_new_pivots pivots_distinct)+
    moreover have "fst l \<in> sk_id ` set (ts_tickets ?st) \<and> snd l \<in> vu_id ` set (ms_users (ts_mail ?st))"
      if "l \<in> set (ts_recipients ?st)" for l
      using that p n(1) unfolding q parts pivots_sound_def by (auto simp: id)
    moreover have "fst l \<in> sk_id ` set (ts_tickets ?st) \<and> snd l \<in> va_id ` set (ms_aliases (ts_mail ?st))"
      if "l \<in> set (ts_aliases ?st)" for l
      using that p n(2) unfolding q parts pivots_sound_def by (auto simp: id)
    ultimately show ?thesis unfolding pivots_sound_def by blast
  qed
  ultimately show ?thesis
    using tickets_soundD(1-4,7) [OF sound] old new
    unfolding tickets_sound_def parts
    by (auto simp: id written_message_def)
qed

lemma tickets_mapped_sound:
  assumes sound: "tickets_sound st"
    and keep: "\<And>t. t \<in> set (ts_tickets st) \<Longrightarrow> sk_id (f t) = sk_id t \<and> ticket_sound st (f t)"
  shows "tickets_sound (st\<lparr>ts_tickets := map f (ts_tickets st)\<rparr>)"
proof -
  let ?st = "st\<lparr>ts_tickets := map f (ts_tickets st)\<rparr>"
  have ids: "map sk_id (map f (ts_tickets st)) = map sk_id (ts_tickets st)" using keep by simp
  then have ids': "sk_id ` set (ts_tickets ?st) = sk_id ` set (ts_tickets st)"
    by (metis list.set_map ticket_state.select_convs(3) ticket_state.surjective ticket_state.update_convs(3))
  have t: "ticket_sound ?st t \<and> (\<exists>m \<in> set (ts_messages ?st). sm_ticketId m = sk_id t)" if "t \<in> set (ts_tickets ?st)" for t
  proof -
    from that obtain u where u: "u \<in> set (ts_tickets st)" "t = f u" by auto
    then show ?thesis using keep [OF u(1)] tickets_soundD(7) [OF sound u(1)] by (simp add: ticket_sound_def)
  qed
  have m: "message_sound ?st m" if "m \<in> set (ts_messages st)" for m
    using tickets_soundD(8) [OF sound that] ids' by (simp add: message_sound_def)
  have r: "read_sound ?st r" if "r \<in> set (ts_reads st)" for r
    using tickets_soundD(9) [OF sound that] by (simp add: read_sound_def)
  have p: "pivots_sound ?st" using tickets_soundD(5) [OF sound] ids' by (simp add: pivots_sound_def)
  have "distinct (map sk_id (map f (ts_tickets st)))" unfolding ids by (rule tickets_soundD(1) [OF sound])
  then show ?thesis
    using tickets_soundD(2-4) [OF sound] t m r p unfolding tickets_sound_def by (simp del: map_map)
qed

lemma message_added_sound:
  assumes sound: "tickets_sound st" and "gu_id c \<in> ac_id ` set (ts_accounts st)" "i \<in> sk_id ` set (ts_tickets st)"
  shows "tickets_sound (st\<lparr>ts_messages := ts_messages st @ [written_message now i body c st],
    ts_nextMessage := ts_nextMessage st + 1\<rparr>)" (is "tickets_sound ?st")
proof -
  have "message_sound ?st m" if "m \<in> set (ts_messages ?st)" for m
    using that tickets_soundD(4) [OF sound] tickets_soundD(8) [OF sound, of m] assms(2,3)
    by (auto simp: message_sound_def written_message_def)
  moreover have "read_sound ?st r" if "r \<in> set (ts_reads ?st)" for r
    using that tickets_soundD(9) [OF sound, of r] by (auto simp: read_sound_def)
  moreover have "ticket_sound ?st t \<and> (\<exists>m \<in> set (ts_messages ?st). sm_ticketId m = sk_id t)"
    if "t \<in> set (ts_tickets ?st)" for t
    using that tickets_soundD(6,7) [OF sound, of t] by (auto simp: ticket_sound_def)
  moreover have "ts_nextMessage st \<notin> sm_id ` set (ts_messages st)"
    using tickets_soundD(8) [OF sound] by (force simp: message_sound_def)
  moreover have "pivots_sound ?st" using tickets_soundD(5) [OF sound] by (simp add: pivots_sound_def)
  ultimately show ?thesis
    using tickets_soundD(1-4) [OF sound] unfolding tickets_sound_def by (simp add: written_message_def)
qed

lemma replied_sound:
  assumes "tickets_sound st" "gu_id c \<in> ac_id ` set (ts_accounts st)" "i \<in> sk_id ` set (ts_tickets st)"
  shows "tickets_sound (replied_state now i body c st)"
proof -
  let ?st1 = "st\<lparr>ts_messages := ts_messages st @ [written_message now i body c st],
    ts_nextMessage := ts_nextMessage st + 1\<rparr>"
  have "tickets_sound (?st1\<lparr>ts_tickets := map (\<lambda>t. if sk_id t = i then t\<lparr>sk_updatedAt := sql_now now\<rparr> else t)
      (ts_tickets ?st1)\<rparr>)"
    using message_added_sound [OF assms] tickets_soundD(6) [OF message_added_sound [OF assms]]
    by (intro tickets_mapped_sound) (auto simp: ticket_sound_def)
  then show ?thesis by (simp add: replied_state_def update_where_def)
qed

lemma save_ticket_sound:
  assumes "tickets_sound st" "ticket_sound st t"
  shows "tickets_sound (save_ticket now t st)"
  unfolding save_ticket_def update_where_def
  using assms tickets_soundD(6) [OF assms(1)]
  by (intro tickets_mapped_sound) (auto simp: ticket_sound_def)

lemma edited_sound:
  assumes sound: "tickets_sound st" and m: "m \<in> set (ts_messages st)"
  shows "tickets_sound (st\<lparr>ts_messages := save_row sm_id (reworded now body m) (ts_messages st)\<rparr>)" (is "tickets_sound ?st")
proof -
  let ?new = "reworded now body m"
  have new: "sm_id ?new = sm_id m" "sm_ticketId ?new = sm_ticketId m" by (simp_all add: reworded_def)
  have set_eq: "set (ts_messages ?st) = insert ?new {x \<in> set (ts_messages st). sm_id x \<noteq> sm_id m}"
    by (simp add: set_save_row new)
  have same: "\<exists>y \<in> set (ts_messages ?st). sm_id y = sm_id x \<and> sm_ticketId y = sm_ticketId x"
    if x: "x \<in> set (ts_messages st)" for x
  proof (cases "sm_id x = sm_id m")
    case True
    then have "x = m" using tickets_soundD(2) [OF sound] x m by (auto simp: distinct_map inj_on_def)
    then show ?thesis unfolding set_eq using new by blast
  next
    case False
    then show ?thesis unfolding set_eq using x by blast
  qed
  have "message_sound ?st x" if "x \<in> set (ts_messages ?st)" for x
    using that tickets_soundD(8) [OF sound m] tickets_soundD(8) [OF sound, of x] unfolding set_eq
    by (auto simp: message_sound_def reworded_def)
  moreover have "read_sound ?st r" if r: "r \<in> set (ts_reads ?st)" for r
  proof -
    have "read_sound st r" using tickets_soundD(9) [OF sound] r by simp
    then obtain x where x: "x \<in> set (ts_messages st)" "sm_id x = sr_lastReadMessageId r" "sm_ticketId x = sr_ticketId r"
      and a: "sr_accountId r \<in> ac_id ` set (ts_accounts st)" by (auto simp: read_sound_def)
    from same [OF x(1)] x a show ?thesis unfolding read_sound_def by simp
  qed
  moreover have "ticket_sound ?st t \<and> (\<exists>m \<in> set (ts_messages ?st). sm_ticketId m = sk_id t)"
    if t: "t \<in> set (ts_tickets ?st)" for t
  proof -
    obtain x where x: "x \<in> set (ts_messages st)" "sm_ticketId x = sk_id t" using tickets_soundD(7) [OF sound] t by auto
    have "ticket_sound ?st t" using tickets_soundD(6) [OF sound] t by (simp add: ticket_sound_def)
    with same [OF x(1)] x show ?thesis by (metis (no_types, lifting))
  qed
  moreover have "distinct (map sm_id (ts_messages ?st))"
    using distinct_save_row [OF tickets_soundD(2) [OF sound], of ?new] by simp
  moreover have "pivots_sound ?st" using tickets_soundD(5) [OF sound] by (simp add: pivots_sound_def)
  ultimately show ?thesis using tickets_soundD(1-4) [OF sound] unfolding tickets_sound_def by simp
qed

lemma seen_sound:
  assumes sound: "tickets_sound st" and user: "gu_id c \<in> ac_id ` set (ts_accounts st)"
    and t: "t \<in> set (ts_tickets st)" "sk_id t = i"
  shows "tickets_sound (st\<lparr>ts_reads := save_row read_key (read_row now i c (newest_or_zero i st)) (ts_reads st)\<rparr>)"
    (is "tickets_sound ?st")
proof -
  let ?row = "read_row now i c (newest_or_zero i st)"
  obtain m where "m \<in> set (ts_messages st)" "sm_ticketId m = i" using tickets_soundD(7) [OF sound t(1)] t(2) by auto
  then obtain n where n: "newest_message i st = Some n" using newest_message_None [of i st] by (cases "newest_message i st") auto
  have new: "read_sound ?st ?row"
    using newest_message_Some [OF n] user by (auto simp: read_sound_def read_row_def newest_or_zero_def n)
  have "read_sound ?st r" if "r \<in> set (ts_reads ?st)" for r
    using that new tickets_soundD(9) [OF sound, of r] by (auto simp: set_save_row read_sound_def)
  moreover have "distinct (map read_key (ts_reads ?st))"
    using distinct_save_row [OF tickets_soundD(3) [OF sound], of ?row] by simp
  moreover have "pivots_sound ?st" using tickets_soundD(5) [OF sound] by (simp add: pivots_sound_def)
  ultimately show ?thesis
    using tickets_soundD(1-4,6-8) [OF sound] unfolding tickets_sound_def
    by (simp add: ticket_sound_def message_sound_def)
qed

section \<open>The foreign keys keep them sound\<close>

lemma known_still_there [simp]: "known accounts (still_there accounts i)"
  by (auto simp: still_there_def known_def split: option.splits)

lemma still_there_same:
  "still_there accounts i = still_there accounts j \<Longrightarrow> still_there accounts i \<noteq> None \<Longrightarrow> i = j"
  by (auto simp: still_there_def split: option.splits if_splits)

lemma cascade_sound:
  assumes sound: "tickets_sound st"
  shows "tickets_sound (ticket_cascade mail st)"
proof -
  let ?st = "ticket_cascade mail st"
  define kept where "kept = filter (\<lambda>t. sk_domainId t \<in> vd_id ` set (ms_domains mail)) (ts_tickets st)"
  define blank where "blank = (\<lambda>t :: support_ticket. t\<lparr>sk_createdBy := still_there (ms_accounts mail) (sk_createdBy t),
    sk_assignedTo := still_there (ms_accounts mail) (sk_assignedTo t)\<rparr>)"
  define unsigned where "unsigned = (\<lambda>m :: ticket_message. m\<lparr>sm_authorId := still_there (ms_accounts mail) (sm_authorId m)\<rparr>)"
  have parts: "ts_tickets ?st = map blank kept" "ts_mail ?st = mail" "ts_nextTicket ?st = ts_nextTicket st"
    "ts_nextMessage ?st = ts_nextMessage st"
    "ts_messages ?st = map unsigned (filter (\<lambda>m. sm_ticketId m \<in> sk_id ` set kept) (ts_messages st))"
    "ts_reads ?st = filter (\<lambda>r. sr_ticketId r \<in> sk_id ` set kept \<and> sr_accountId r \<in> ac_id ` set (ms_accounts mail)) (ts_reads st)"
    "ts_recipients ?st = filter (\<lambda>l. fst l \<in> sk_id ` set kept \<and> snd l \<in> vu_id ` set (ms_users mail)) (ts_recipients st)"
    "ts_aliases ?st = filter (\<lambda>l. fst l \<in> sk_id ` set kept \<and> snd l \<in> va_id ` set (ms_aliases mail)) (ts_aliases st)"
    by (simp_all add: cascade_defs Let_def kept_def blank_def unsigned_def image_image)
  have blank: "sk_id (blank t) = sk_id t" for t by (simp add: blank_def)
  have unsigned: "sm_id (unsigned m) = sm_id m" "sm_ticketId (unsigned m) = sm_ticketId m" for m
    by (simp_all add: unsigned_def)
  have ids: "sk_id ` set (ts_tickets ?st) = sk_id ` set kept" unfolding parts by (simp add: image_image blank)
  have "ticket_sound ?st t \<and> (\<exists>m \<in> set (ts_messages ?st). sm_ticketId m = sk_id t)" if "t \<in> set (ts_tickets ?st)" for t
  proof -
    from that obtain u where u: "u \<in> set kept" "t = blank u" unfolding parts by auto
    then have u': "u \<in> set (ts_tickets st)" "sk_domainId u \<in> vd_id ` set (ms_domains mail)" by (simp_all add: kept_def)
    have "still_there (ms_accounts mail) (sk_assignedTo u) \<noteq> still_there (ms_accounts mail) (sk_createdBy u)"
      if "still_there (ms_accounts mail) (sk_assignedTo u) \<noteq> None"
    proof
      assume same: "still_there (ms_accounts mail) (sk_assignedTo u) = still_there (ms_accounts mail) (sk_createdBy u)"
      have "sk_assignedTo u = sk_createdBy u" by (rule still_there_same [OF same that])
      moreover have "sk_assignedTo u \<noteq> None" using that by (cases "sk_assignedTo u") (simp_all add: still_there_def)
      ultimately show False using tickets_soundD(6) [OF sound u'(1)] by (simp add: ticket_sound_def)
    qed
    then have "ticket_sound ?st t"
      using tickets_soundD(6) [OF sound u'(1)] u'(2) by (simp add: ticket_sound_def parts u(2) blank_def)
    moreover obtain m where "m \<in> set (ts_messages st)" "sm_ticketId m = sk_id u"
      using tickets_soundD(7) [OF sound u'(1)] by blast
    then have "unsigned m \<in> set (ts_messages ?st) \<and> sm_ticketId (unsigned m) = sk_id t"
      using u by (auto simp: parts unsigned blank)
    ultimately show ?thesis by blast
  qed
  moreover have "message_sound ?st m" if "m \<in> set (ts_messages ?st)" for m
  proof -
    from that obtain x where "x \<in> set (ts_messages st)" "sm_ticketId x \<in> sk_id ` set kept" "m = unsigned x"
      unfolding parts by auto
    then show ?thesis using tickets_soundD(8) [OF sound, of x] ids
      by (simp add: message_sound_def parts(2-4) unsigned_def)
  qed
  moreover have "read_sound ?st r" if "r \<in> set (ts_reads ?st)" for r
  proof -
    have r: "r \<in> set (ts_reads st)" "sr_ticketId r \<in> sk_id ` set kept" "sr_accountId r \<in> ac_id ` set (ms_accounts mail)"
      using that unfolding parts by simp_all
    then obtain m where m: "m \<in> set (ts_messages st)" "sm_id m = sr_lastReadMessageId r" "sm_ticketId m = sr_ticketId r"
      using tickets_soundD(9) [OF sound r(1)] by (auto simp: read_sound_def)
    then have "unsigned m \<in> set (ts_messages ?st)" using r(2) by (auto simp: parts)
    then show ?thesis using m r(3) unsigned [of m] by (auto simp: read_sound_def parts(2) intro!: bexI [of _ "unsigned m"])
  qed
  moreover have "pivots_sound ?st"
    using tickets_soundD(5) [OF sound] ids by (simp add: pivots_sound_def parts(2,7,8))
  moreover have "distinct (map sk_id (ts_tickets ?st))"
  proof -
    have "map sk_id (ts_tickets ?st) = map sk_id kept" by (simp add: parts blank)
    then show ?thesis using tickets_soundD(1) [OF sound] by (simp add: kept_def distinct_map_filter)
  qed
  moreover have "distinct (map sm_id (ts_messages ?st))"
  proof -
    have "map sm_id (ts_messages ?st) = map sm_id (filter (\<lambda>m. sm_ticketId m \<in> sk_id ` set kept) (ts_messages st))"
      by (simp add: parts unsigned)
    then show ?thesis using tickets_soundD(2) [OF sound] by (simp add: distinct_map_filter)
  qed
  moreover have "distinct (map read_key (ts_reads ?st))"
    using tickets_soundD(3) [OF sound] by (simp add: parts distinct_map_filter)
  ultimately show ?thesis
    using tickets_soundD(4) [OF sound] unfolding tickets_sound_def by (simp only: parts(4)) simp
qed

section \<open>Every run keeps them sound\<close>

lemma effect_sound:
  assumes "ticket_effect env now c r st st'" "tickets_sound st" "gu_id c \<in> ac_id ` set (ts_accounts st)" "database_sorts env"
  shows "tickets_sound st'"
  using assms
proof (cases rule: ticket_effect.cases)
  case (opened raw b offered)
  then show ?thesis using opened_sound [OF assms(2-4)] by blast
next
  case (replied raw body i t)
  then show ?thesis using replied_sound [OF assms(2,3)] visibleTicket_Inr by blast
next
  case (edited raw body i t m j)
  then show ?thesis using edited_sound [OF assms(2)] by blast
next
  case (seen i t)
  then show ?thesis using seen_sound [OF assms(2,3)] visibleTicket_Inr by blast
next
  case (taken i t)
  then have t: "ticket_sound st t" using visibleTicket_Inr tickets_soundD(6) [OF assms(2)] by blast
  have "ticket_sound st (taken_by c t)"
    using t taken(4) assms(3) by (auto simp: ticket_sound_def taken_by_def TICKET_STATUSES_def)
  then show ?thesis using save_ticket_sound [OF assms(2)] taken by simp
next
  case (moved i t status)
  then have t: "ticket_sound st t" using visibleTicket_Inr tickets_soundD(6) [OF assms(2)] by blast
  then have "ticket_sound st (t\<lparr>sk_status := status\<rparr>)" using moved by (simp add: ticket_sound_def)
  then show ?thesis using save_ticket_sound [OF assms(2)] moved by simp
qed simp

lemma ticket_serve_sound:
  assumes "tickets_sound st" "signed_in c st" "database_sorts env" "ticket_serve env now c r st = (res, st')"
  shows "tickets_sound st'"
proof -
  obtain st1 where "ticket_effect env now c r st st1" "tables_of st' = tables_of st1"
    by (rule serve_effect [OF assms(4)])
  then show ?thesis
    using effect_sound [OF _ assms(1) signed_in_known [OF assms(2)] assms(3)] tickets_sound_tables by blast
qed

lemma run_keeps_sound: "ticket_run s evs st \<Longrightarrow> tickets_sound s \<Longrightarrow> tickets_sound st"
  by (induction rule: ticket_run.induct) (auto intro: ticket_serve_sound cascade_sound)

end
