(* ===== verification/TicketSafety.thy ===== *)
theory TicketSafety imports TicketInvariant begin

text \<open>
  What the support desk promises (\<open>api/tickets\<close>), over one request or over every run of requests: what the list
  shows is what opens, a closed ticket is frozen, words stay their author's, a receipt never goes back,
  nobody is told of a ticket they could not open, and no ticket is ever stuck.
\<close>

section \<open>What a run keeps\<close>

text \<open>A property of the tables every change keeps, of those a kind of event may make.\<close>

locale run_property =
  fixes allowed :: "ticket_event \<Rightarrow> bool" and J :: "ticket_state \<Rightarrow> bool"
  assumes of_tables: "tables_of st = tables_of st' \<Longrightarrow> J st' \<Longrightarrow> J st"
    and effect: "ticket_effect env now c r st st' \<Longrightarrow> allowed (Asked env now c r) \<Longrightarrow> tickets_sound st \<Longrightarrow> J st \<Longrightarrow> J st'"
    and cascade: "tickets_sound st \<Longrightarrow> J st \<Longrightarrow> J (ticket_cascade mail st)"
begin

lemma served:
  assumes "ticket_serve env now c r st = (res, st')" "allowed (Asked env now c r)" "tickets_sound st" "J st"
  shows "J st'"
proof -
  obtain st1 where "ticket_effect env now c r st st1" "tables_of st' = tables_of st1"
    by (rule serve_effect [OF assms(1)])
  then show ?thesis using effect [OF _ assms(2-4)] of_tables by blast
qed

lemma kept: "ticket_run s evs st \<Longrightarrow> \<forall>e \<in> set evs. allowed e \<Longrightarrow> tickets_sound s \<Longrightarrow> J s \<Longrightarrow> J st"
proof (induction rule: ticket_run.induct)
  case (asked s evs st env c now r res st')
  then have "J st" "tickets_sound st" using run_keeps_sound by auto
  then show ?case using served [OF asked.hyps(4)] asked.prems(1) by simp
next
  case (elsewhere s evs st mail)
  then show ?case using cascade run_keeps_sound by simp
qed

end

section \<open>A closed ticket\<close>

fun moves :: "int \<Rightarrow> ticket_event \<Rightarrow> bool" where
  "moves i (Asked env now c (SetTicketStatus j status)) = (i = j)"
| "moves i _ = False"

text \<open>What a closed ticket keeps: its status, and its messages, but for the name of an account that was closed.\<close>

definition same_words :: "ticket_message \<Rightarrow> ticket_message \<Rightarrow> bool" where
  "same_words m m0 = (m = m0 \<or> m = m0\<lparr>sm_authorId := None\<rparr>)"

definition frozen_since :: "int \<Rightarrow> ticket_state \<Rightarrow> ticket_state \<Rightarrow> bool" where
  "frozen_since i s st =
     (i < ts_nextTicket st
      \<and> (\<forall>t \<in> set (ts_tickets st). sk_id t = i \<longrightarrow> sk_status t = ''closed'')
      \<and> (\<forall>m \<in> set (ts_messages st). sm_ticketId m = i \<longrightarrow> (\<exists>m0 \<in> set (ts_messages s). same_words m m0)))"

lemma same_words_still_there:
  "same_words m m0 \<Longrightarrow> same_words (m\<lparr>sm_authorId := still_there accounts (sm_authorId m)\<rparr>) m0"
  by (auto simp: same_words_def still_there_def split: option.splits)

lemma save_ticket_rows:
  "u \<in> set (ts_tickets (save_ticket now t st)) \<Longrightarrow>
     u \<in> set (ts_tickets st) \<and> sk_id u \<noteq> sk_id t \<or> u = t \<or> u = t\<lparr>sk_updatedAt := sql_now now\<rparr>"
  by (auto simp: save_ticket_def update_where_def split: if_splits)

lemma save_ticket_other [simp]:
  "ts_messages (save_ticket now t st) = ts_messages st" "ts_nextTicket (save_ticket now t st) = ts_nextTicket st"
  "ts_reads (save_ticket now t st) = ts_reads st" "ts_mail (save_ticket now t st) = ts_mail st"
  "ts_notices (save_ticket now t st) = ts_notices st"
  by (simp_all add: save_ticket_def)

lemma frozen_effect:
  assumes "ticket_effect env now c r st st'" "\<not> moves i (Asked env now c r)" "tickets_sound st" "frozen_since i s st"
  shows "frozen_since i s st'"
proof -
  have next_i: "i < ts_nextTicket st"
    and closed: "\<And>t. t \<in> set (ts_tickets st) \<Longrightarrow> sk_id t = i \<Longrightarrow> sk_status t = ''closed''"
    and words: "\<And>m. m \<in> set (ts_messages st) \<Longrightarrow> sm_ticketId m = i \<Longrightarrow> \<exists>m0 \<in> set (ts_messages s). same_words m m0"
    using assms(4) unfolding frozen_since_def by blast+
  from assms(1) show ?thesis
  proof (cases rule: ticket_effect.cases)
    case unchanged
    then show ?thesis using assms(4) by simp
  next
    case (opened raw b offered)
    then show ?thesis using next_i closed words
      by (auto simp: frozen_since_def opened_state_def opened_ticket_def written_message_def Let_def)
  next
    case (replied raw body j t)
    then have "j \<noteq> i" using closed visibleTicket_Inr by blast
    then show ?thesis using next_i closed words replied(2)
      by (auto simp: frozen_since_def replied_state_def written_message_def update_where_def)
  next
    case (edited raw body j t m k)
    then have "j \<noteq> i" using closed visibleTicket_Inr by blast
    then show ?thesis using next_i closed words edited(2,8)
      by (auto simp: frozen_since_def set_save_row reworded_def)
  next
    case (seen j t)
    then show ?thesis using next_i closed words by (simp add: frozen_since_def)
  next
    case (taken j t)
    have t: "t \<in> set (ts_tickets st)" using visibleTicket_Inr [OF taken(3)] by blast
    have status: "sk_id (taken_by c t) = sk_id t" "sk_status t = ''closed'' \<Longrightarrow> sk_status (taken_by c t) = ''closed''"
      by (simp_all add: taken_by_def)
    have "sk_status u = ''closed''" if u: "u \<in> set (ts_tickets st')" "sk_id u = i" for u
    proof -
      consider "u \<in> set (ts_tickets st)" | "u = taken_by c t" | "u = taken_by c t\<lparr>sk_updatedAt := sql_now now\<rparr>"
        using save_ticket_rows [of u now "taken_by c t" st] u(1) unfolding taken(2) by blast
      then show ?thesis using closed [OF t] closed [of u] u(2) status by cases simp_all
    qed
    then show ?thesis using next_i words taken(2) by (simp add: frozen_since_def)
  next
    case (moved j t status)
    have "sk_status u = ''closed''" if "u \<in> set (ts_tickets st')" "sk_id u = i" for u
      using save_ticket_rows [of u now "t\<lparr>sk_status := status\<rparr>" st] that closed visibleTicket_Inr [OF moved(3)]
        moved(1,2) assms(2) by auto
    then show ?thesis using next_i words moved(2) by (simp add: frozen_since_def)
  qed
qed

lemma frozen_cascade: "frozen_since i s st \<Longrightarrow> frozen_since i s (ticket_cascade mail st)"
  unfolding frozen_since_def cascade_defs Let_def by (fastforce intro: same_words_still_there)

interpretation frozen: run_property "\<lambda>e. \<not> moves i e" "frozen_since i s" for i s
proof
  fix st st' :: ticket_state
  assume "tables_of st = tables_of st'" "frozen_since i s st'"
  then show "frozen_since i s st" using tables_of_eqD [of st st'] by (simp add: frozen_since_def)
qed (simp_all add: frozen_effect frozen_cascade)

text \<open>C32: once a ticket is closed, and until its status is set again, whatever anyone asks and whatever happens to
  the mail tables and the accounts: it stays closed, it takes no message, and no message of it is reworded; an
  account that is closed only loses its name on them.\<close>
theorem closed_ticket_is_frozen:
  assumes "ticket_run s evs st" "tickets_sound s" "t \<in> set (ts_tickets s)" "sk_status t = ''closed''"
    and "\<forall>e \<in> set evs. \<not> moves (sk_id t) e"
  shows "(\<forall>u \<in> set (ts_tickets st). sk_id u = sk_id t \<longrightarrow> sk_status u = ''closed'')
    \<and> (\<forall>m \<in> set (ts_messages st). sm_ticketId m = sk_id t \<longrightarrow> (\<exists>m0 \<in> set (ts_messages s). same_words m m0))"
proof -
  have "u = t" if "u \<in> set (ts_tickets s)" "sk_id u = sk_id t" for u
    using tickets_soundD(1) [OF assms(2)] that assms(3) by (auto simp: distinct_map inj_on_def)
  then have "frozen_since (sk_id t) s s"
    using tickets_soundD(6) [OF assms(2,3)] assms(4)
    by (auto simp: frozen_since_def ticket_sound_def same_words_def)
  from frozen.kept [OF assms(1,5,2) this] show ?thesis by (simp add: frozen_since_def)
qed

section \<open>Receipts\<close>

definition receipts_since :: "ticket_state \<Rightarrow> ticket_state \<Rightarrow> bool" where
  "receipts_since s st =
     (\<forall>r \<in> set (ts_reads s). sr_ticketId r < ts_nextTicket st
        \<and> (\<forall>r' \<in> set (ts_reads st). read_key r' = read_key r \<longrightarrow> sr_lastReadMessageId r \<le> sr_lastReadMessageId r')
        \<and> (sr_ticketId r \<in> sk_id ` set (ts_tickets st) \<longrightarrow>
             (\<exists>m \<in> set (ts_messages st). sm_id m = sr_lastReadMessageId r \<and> sm_ticketId m = sr_ticketId r)))"

text \<open>No request takes a message away from its ticket, or a ticket out of the table.\<close>

lemma effect_keeps_rows:
  assumes "ticket_effect env now c r st st'" "tickets_sound st"
  shows "\<And>m. m \<in> set (ts_messages st) \<Longrightarrow>
      \<exists>m' \<in> set (ts_messages st'). sm_id m' = sm_id m \<and> sm_ticketId m' = sm_ticketId m"
    and "ts_nextTicket st \<le> ts_nextTicket st'"
    and "\<And>t. t \<in> sk_id ` set (ts_tickets st') \<Longrightarrow> t \<in> sk_id ` set (ts_tickets st) \<or> t = ts_nextTicket st"
proof -
  show "\<exists>m' \<in> set (ts_messages st'). sm_id m' = sm_id m \<and> sm_ticketId m' = sm_ticketId m"
    if m: "m \<in> set (ts_messages st)" for m
    using assms(1)
  proof (cases rule: ticket_effect.cases)
    case (edited raw body j t k n)
    show ?thesis
    proof (cases "sm_id m = sm_id k")
      case True
      then have "m = k" using tickets_soundD(2) [OF assms(2)] m edited(6) by (auto simp: distinct_map inj_on_def)
      then show ?thesis using edited(2) by (auto simp: set_save_row reworded_def)
    next
      case False
      then show ?thesis using edited(2) m by (auto simp: set_save_row reworded_def)
    qed
  qed (use m in \<open>auto simp: opened_state_def replied_state_def Let_def\<close>)
  show "ts_nextTicket st \<le> ts_nextTicket st'"
    using assms(1) by (cases rule: ticket_effect.cases) (auto simp: opened_state_def replied_state_def Let_def)
  show "t \<in> sk_id ` set (ts_tickets st) \<or> t = ts_nextTicket st" if "t \<in> sk_id ` set (ts_tickets st')" for t
    using assms(1) that
  proof (cases rule: ticket_effect.cases)
    case (taken i u)
    then show ?thesis using that visibleTicket_Inr [OF taken(3)]
      by (auto simp: save_ticket_def update_where_def taken_by_def split: if_splits)
  next
    case (moved i u status)
    then show ?thesis using that visibleTicket_Inr [OF moved(3)]
      by (auto simp: save_ticket_def update_where_def split: if_splits)
  qed (auto simp: opened_state_def replied_state_def Let_def opened_ticket_def update_where_def split: if_splits)
qed

lemma newest_is_greatest:
  assumes "m \<in> set (ts_messages st)" "sm_ticketId m = i"
  shows "sm_id m \<le> newest_or_zero i st"
proof -
  obtain n where n: "newest_message i st = Some n"
    using newest_message_None [of i st] assms by (cases "newest_message i st") auto
  then show ?thesis using newest_message_Some [OF n] assms by (simp add: newest_or_zero_def)
qed

lemma receipts_effect:
  assumes eff: "ticket_effect env now c r st st'" and sound: "tickets_sound st" and J: "receipts_since s st"
  shows "receipts_since s st'"
  unfolding receipts_since_def
proof (intro ballI conjI impI)
  fix q assume q: "q \<in> set (ts_reads s)"
  then have low: "sr_ticketId q < ts_nextTicket st"
    and mono: "\<And>r'. r' \<in> set (ts_reads st) \<Longrightarrow> read_key r' = read_key q \<Longrightarrow> sr_lastReadMessageId q \<le> sr_lastReadMessageId r'"
    and there: "sr_ticketId q \<in> sk_id ` set (ts_tickets st) \<Longrightarrow>
      \<exists>m \<in> set (ts_messages st). sm_id m = sr_lastReadMessageId q \<and> sm_ticketId m = sr_ticketId q"
    using J unfolding receipts_since_def by blast+
  show "sr_ticketId q < ts_nextTicket st'" using low effect_keeps_rows(2) [OF eff sound] by simp
  show "\<exists>m \<in> set (ts_messages st'). sm_id m = sr_lastReadMessageId q \<and> sm_ticketId m = sr_ticketId q"
    if "sr_ticketId q \<in> sk_id ` set (ts_tickets st')"
  proof -
    have "sr_ticketId q \<in> sk_id ` set (ts_tickets st)" using effect_keeps_rows(3) [OF eff sound that] low by auto
    from there [OF this] show ?thesis using effect_keeps_rows(1) [OF eff sound] by fastforce
  qed
  fix r' assume r': "r' \<in> set (ts_reads st')" and key: "read_key r' = read_key q"
  show "sr_lastReadMessageId q \<le> sr_lastReadMessageId r'"
  proof (cases "r' \<in> set (ts_reads st)")
    case True
    then show ?thesis by (rule mono) (rule key)
  next
    case False
    obtain i t where i: "r' = read_row now i c (newest_or_zero i st)" "visibleTicket env i c st = Inr t"
      using eff r' False
      by (cases rule: ticket_effect.cases) (auto simp: opened_state_def replied_state_def Let_def set_save_row)
    then have "sr_ticketId q = i" using key by (simp add: read_row_def)
    moreover from this have "sr_ticketId q \<in> sk_id ` set (ts_tickets st)" using visibleTicket_Inr [OF i(2)] by (auto intro: image_eqI [of _ sk_id t])
    ultimately show ?thesis using there newest_is_greatest i(1) by (fastforce simp: read_row_def)
  qed
qed

lemma receipts_cascade:
  assumes J: "receipts_since s st"
  shows "receipts_since s (ticket_cascade mail st)"
  unfolding receipts_since_def
proof (intro ballI conjI impI)
  let ?st = "ticket_cascade mail st"
  fix q assume q: "q \<in> set (ts_reads s)"
  then have low: "sr_ticketId q < ts_nextTicket st"
    and mono: "\<And>r'. r' \<in> set (ts_reads st) \<Longrightarrow> read_key r' = read_key q \<Longrightarrow> sr_lastReadMessageId q \<le> sr_lastReadMessageId r'"
    and there: "sr_ticketId q \<in> sk_id ` set (ts_tickets st) \<Longrightarrow>
      \<exists>m \<in> set (ts_messages st). sm_id m = sr_lastReadMessageId q \<and> sm_ticketId m = sr_ticketId q"
    using J unfolding receipts_since_def by blast+
  show "sr_ticketId q < ts_nextTicket ?st" using low by (simp add: cascade_defs Let_def)
  show "\<exists>m \<in> set (ts_messages ?st). sm_id m = sr_lastReadMessageId q \<and> sm_ticketId m = sr_ticketId q"
    if id: "sr_ticketId q \<in> sk_id ` set (ts_tickets ?st)"
  proof -
    have kept: "sr_ticketId q \<in> sk_id ` set (filter (\<lambda>t. sk_domainId t \<in> vd_id ` set (ms_domains mail)) (ts_tickets st))"
      using id by (auto simp: cascade_defs Let_def)
    then obtain m where "m \<in> set (ts_messages st)" "sm_id m = sr_lastReadMessageId q" "sm_ticketId m = sr_ticketId q"
      using there by auto
    then show ?thesis using kept
      by (intro bexI [of _ "m\<lparr>sm_authorId := still_there (ms_accounts mail) (sm_authorId m)\<rparr>"])
        (auto simp: cascade_defs Let_def image_image intro!: imageI)
  qed
  fix r' assume "r' \<in> set (ts_reads ?st)" "read_key r' = read_key q"
  then show "sr_lastReadMessageId q \<le> sr_lastReadMessageId r'"
    using mono by (auto simp: cascade_defs Let_def)
qed

interpretation receipts: run_property "\<lambda>_. True" "receipts_since s" for s
proof
  fix st st' :: ticket_state
  assume "tables_of st = tables_of st'" "receipts_since s st'"
  then show "receipts_since s st" using tables_of_eqD [of st st'] by (simp add: receipts_since_def)
qed (simp_all add: receipts_effect receipts_cascade)

text \<open>What an account has read of a ticket never goes back, whatever run of requests and of changes elsewhere
  stands between two receipts, even when the account is closed and opened anew in between.\<close>
theorem receipts_never_go_back:
  assumes "ticket_run s evs st" "tickets_sound s"
    and "r \<in> set (ts_reads s)" "r' \<in> set (ts_reads st)" "read_key r' = read_key r"
  shows "sr_lastReadMessageId r \<le> sr_lastReadMessageId r'"
proof -
  have "q' = q" if "q \<in> set (ts_reads s)" "q' \<in> set (ts_reads s)" "read_key q' = read_key q" for q q'
    using tickets_soundD(3) [OF assms(2)] that by (auto simp: distinct_map inj_on_def)
  moreover have "sr_ticketId q < ts_nextTicket s" if "q \<in> set (ts_reads s)" for q
    using tickets_soundD(9) [OF assms(2) that] tickets_soundD(8) [OF assms(2)] tickets_soundD(6) [OF assms(2)]
    by (force simp: read_sound_def message_sound_def ticket_sound_def)
  ultimately have "receipts_since s s"
    using tickets_soundD(9) [OF assms(2)] by (force simp: receipts_since_def read_sound_def)
  from receipts.kept [OF assms(1) _ assms(2) this] show ?thesis
    using assms(3-5) by (simp add: receipts_since_def)
qed

section \<open>Words\<close>

text \<open>C33: a request changes a message in one way only: its own author rewords it, on a ticket that is open to
  messages, within the hour of writing it, which the message then shows; every other message stays as it is,
  and none disappears.\<close>
theorem words_are_their_authors:
  assumes "ticket_serve env now c r st = (res, st')" "tickets_sound st" "m \<in> set (ts_messages st)"
  shows "m \<in> set (ts_messages st')
    \<or> (\<exists>raw body t. r = EditMessage (sm_ticketId m) (sm_id m) raw \<and> trimmed_text 10000 raw = Some body
         \<and> visibleTicket env (sm_ticketId m) c st = Inr t \<and> sk_status t \<noteq> ''closed''
         \<and> sm_authorId m = Some (gu_id c) \<and> now - sm_createdAt m \<le> 3600000
         \<and> reworded now body m \<in> set (ts_messages st'))"
proof -
  obtain st1 where eff: "ticket_effect env now c r st st1" and st1: "tables_of st' = tables_of st1"
    by (rule serve_effect [OF assms(1)])
  from eff show ?thesis unfolding tables_of_eqD(2) [OF st1]
  proof (cases rule: ticket_effect.cases)
    case (edited raw body i t k j)
    show "m \<in> set (ts_messages st1) \<or> (\<exists>raw body t. r = EditMessage (sm_ticketId m) (sm_id m) raw
         \<and> trimmed_text 10000 raw = Some body
         \<and> visibleTicket env (sm_ticketId m) c st = Inr t \<and> sk_status t \<noteq> ''closed''
         \<and> sm_authorId m = Some (gu_id c) \<and> now - sm_createdAt m \<le> 3600000
         \<and> reworded now body m \<in> set (ts_messages st1))"
    proof (cases "sm_id m = sm_id k")
      case True
      then have "m = k" using tickets_soundD(2) [OF assms(2)] assms(3) edited(6) by (auto simp: distinct_map inj_on_def)
      then show ?thesis using edited
        by (intro disjI2 exI [of _ raw] exI [of _ body] exI [of _ t])
          (simp add: set_save_row TICKET_MESSAGE_EDIT_WINDOW_MS_def)
    next
      case False
      then show ?thesis using edited(2) assms(3) by (auto simp: set_save_row reworded_def)
    qed
  qed (use assms(3) in \<open>auto simp: opened_state_def replied_state_def Let_def\<close>)
qed

section \<open>Who sees, who is told\<close>

lemma visibleTicket_iff:
  assumes "tickets_sound st" "t \<in> set (ts_tickets st)"
  shows "visibleTicket env (sk_id t) c st = Inr t
    \<longleftrightarrow> domain_in_reach (visibleDomainIds env c st) (sk_domainId t)
      \<and> (sk_visibility t = ''public'' \<or> canSeePrivate env c t st)"
proof -
  have "find_ticket (sk_id t) st = Some t"
    unfolding find_ticket_def by (rule find_by_key [OF tickets_soundD(1) [OF assms(1)] assms(2)])
  then show ?thesis by (simp add: visibleTicket_def)
qed

definition ticket_matches :: "ticket_env \<Rightarrow> ticket_list_query \<Rightarrow> guard_user \<Rightarrow> support_ticket \<Rightarrow> bool" where
  "ticket_matches env q c t =
     ((lq_mine q = Some ''true'' \<longrightarrow> sk_assignedTo t = Some (gu_id c))
      \<and> (lq_hideClosed q = Some ''true'' \<longrightarrow> sk_status t \<noteq> ''closed'')
      \<and> (case pq_search q of None \<Rightarrow> True
         | Some term \<Rightarrow> term = [] \<or> te_like env (sk_subject t) (''%'' @ term @ ''%'')))"

lemma canSeePrivate_iff:
  "canSeePrivate env c t st \<longleftrightarrow> sk_createdBy t = Some (gu_id c) \<or> privateReach env c
     \<or> sk_domainId t \<in> vd_id ` set (filter (\<lambda>d. vd_ownerId d = Some (gu_id c)) (ts_domains st))"
  by (force simp: canSeePrivate_def count_where_def filter_empty_conv)

lemma filters_visible:
  assumes "tickets_sound st"
  shows "ticket_filters env q c (visibleDomainIds env c st) st
    = filter (\<lambda>t. visibleTicket env (sk_id t) c st = Inr t \<and> ticket_matches env q c t) (ts_tickets st)"
proof -
  have "filter (\<lambda>t. visibleTicket env (sk_id t) c st = Inr t \<and> ticket_matches env q c t) (ts_tickets st)
    = filter (\<lambda>t. (domain_in_reach (visibleDomainIds env c st) (sk_domainId t)
        \<and> (sk_visibility t = ''public'' \<or> canSeePrivate env c t st)) \<and> ticket_matches env q c t) (ts_tickets st)"
    by (rule filter_cong) (simp_all add: visibleTicket_iff [OF assms])
  also have "\<dots> = ticket_filters env q c (visibleDomainIds env c st) st"
    unfolding ticket_filters_def ticket_matches_def canSeePrivate_iff
    by (auto simp: Let_def filter_filter intro!: filter_cong split: option.splits)
  finally show ?thesis by simp
qed

lemma enrich_tickets: "map ti_ticket (ticket_enrich rows c st) = rows"
  by (simp add: ticket_enrich_def Let_def comp_def)

text \<open>The list shows exactly the tickets the caller could open one by one, among those its filters keep: all of
  them without a page, and with one the page asked for of them and their number.\<close>
theorem list_shows_what_opens:
  assumes "tickets_sound st" "database_sorts env"
  shows "(let found = filter (\<lambda>t. visibleTicket env (sk_id t) c st = Inr t \<and> ticket_matches env q c t) (ts_tickets st);
              shown = map ti_ticket (fst (ticket_list env q c st))
          in case pq_limit q of
               None \<Rightarrow> mset shown = mset found \<and> snd (ticket_list env q c st) = None
             | Some limit \<Rightarrow> mset shown \<subseteq># mset found \<and> length shown = min limit (length found - pq_offset q)
                 \<and> snd (ticket_list env q c st) = Some (length found))"
proof -
  define found where
    "found = filter (\<lambda>t. visibleTicket env (sk_id t) c st = Inr t \<and> ticket_matches env q c t) (ts_tickets st)"
  let ?sortBy = "resolveSortColumn (pq_sortBy q) TICKET_SORTABLE_COLUMNS ''createdAt''"
  let ?sorted = "te_orderTickets env ?sortBy (pq_sortDir q = ''asc'') found"
  have sorted: "mset ?sorted = mset found" using assms(2) by (simp add: database_sorts_def)
  then have len: "length ?sorted = length found" by (rule mset_eq_length)
  have page: "mset (page_of off n ?sorted) \<subseteq># mset found" for off n
  proof -
    have "mset (page_of off n ?sorted) \<subseteq># mset (drop off ?sorted)"
      unfolding page_of_def by (metis append_take_drop_id mset_append mset_subset_eq_add_left)
    also have "mset (drop off ?sorted) \<subseteq># mset ?sorted"
      by (metis append_take_drop_id mset_append mset_subset_eq_add_right)
    finally show ?thesis by (simp only: sorted)
  qed
  show ?thesis
  proof (cases "visibleDomainIds env c st = Some []")
    case True
    then have "found = []" by (auto simp: found_def filter_empty_conv visibleTicket_iff [OF assms(1)] domain_in_reach_def)
    then show ?thesis using True by (simp add: ticket_list_def Let_def found_def [symmetric] split: option.splits)
  next
    case False
    have "ticket_filters env q c (visibleDomainIds env c st) st = found"
      by (simp only: filters_visible [OF assms(1)] found_def)
    then show ?thesis using False sorted len page
      by (simp add: ticket_list_def Let_def found_def [symmetric] enrich_tickets split: option.splits)
        (simp add: page_of_def min.commute)
  qed
qed

section \<open>Notices\<close>

definition user_of :: "account \<Rightarrow> guard_user" where
  "user_of a = \<lparr>gu_id = ac_id a, gu_isRoot = (ac_isRoot a = 1)\<rparr>"

text \<open>An account that may hear of a ticket: enabled, holding the permission to be notified, one the service shows the
  ticket to (\<open>visibleTicket\<close>, the permissions of the routes apart), and one of its two parties once it is in
  someone's charge.\<close>

definition may_hear :: "ticket_env \<Rightarrow> string \<Rightarrow> ticket_state \<Rightarrow> int \<Rightarrow> string \<Rightarrow> bool" where
  "may_hear env actor st i who =
     (who \<noteq> actor
      \<and> (\<exists>a \<in> set (ts_accounts st). ac_id a = who \<and> ac_enabled a = 1 \<and> mayBeNotified env (user_of a)
          \<and> (\<exists>t. visibleTicket env i (user_of a) st = Inr t
                \<and> (case parties t of None \<Rightarrow> True | Some ps \<Rightarrow> who \<in> set ps))))"

lemma sees_tables:
  assumes "tables_of st = tables_of st'"
  shows "visibleDomainIds env c st = visibleDomainIds env c st'" "canSeePrivate env c t st = canSeePrivate env c t st'"
    "find_ticket i st = find_ticket i st'" "visibleTicket env i c st = visibleTicket env i c st'"
proof -
  show ids: "visibleDomainIds env c st = visibleDomainIds env c st'" for c
    unfolding visibleDomainIds_def by (simp only: tables_of_eqD [OF assms])
  show reach: "canSeePrivate env c t st = canSeePrivate env c t st'" for c t
    unfolding canSeePrivate_def by (simp only: tables_of_eqD [OF assms])
  show "find_ticket i st = find_ticket i st'" unfolding find_ticket_def by (simp only: tables_of_eqD [OF assms])
  then show "visibleTicket env i c st = visibleTicket env i c st'"
    unfolding visibleTicket_def by (simp only: ids reach)
qed

lemma notify_notices:
  assumes "n \<in> set (ts_notices (ticket_notify env t type actor status st))" "n \<notin> set (ts_notices st)"
  shows "tn_ticketId n = sk_id t \<and> set (tn_accountIds n) \<subseteq> set (notifiableAccounts env t actor st)"
  using assms by (auto simp: ticket_notify_def Let_def split: if_splits)

lemma told:
  assumes st': "st' = ticket_record env action x y (ticket_notify env t type actor status st1)"
    and n: "n \<in> set (ts_notices st')" "n \<notin> set (ts_notices st1)" and who: "who \<in> set (tn_accountIds n)"
    and u: "find_ticket (sk_id t) st1 = Some u" "sk_domainId u = sk_domainId t" "sk_visibility u = sk_visibility t"
      "sk_createdBy u = sk_createdBy t" "sk_assignedTo u = sk_assignedTo t"
  shows "may_hear env actor st' (tn_ticketId n) who"
proof -
  have tables: "tables_of st' = tables_of st1" by (simp add: st')
  have "n \<in> set (ts_notices (ticket_notify env t type actor status st1))" using n(1) by (simp add: st' ticket_record_def)
  from notify_notices [OF this n(2)] who obtain a where a: "a \<in> set (ts_accounts st1)" "ac_id a = who" "ac_enabled a = 1"
    "notifiable env t actor st1 a" and id: "tn_ticketId n = sk_id t"
    by (auto simp: notifiableAccounts_def)
  from a(4) have ok: "who \<noteq> actor" "mayBeNotified env (user_of a)"
    "domain_in_reach (visibleDomainIds env (user_of a) st1) (sk_domainId t)"
    "sk_visibility t = ''public'' \<or> canSeePrivate env (user_of a) t st1"
    "case parties t of None \<Rightarrow> True | Some ps \<Rightarrow> who \<in> set ps"
    by (auto simp: notifiable_def user_of_def a(2) Let_def split: if_splits option.splits)
  have "canSeePrivate env (user_of a) u st1 = canSeePrivate env (user_of a) t st1" "parties u = parties t"
    unfolding canSeePrivate_def parties_def by (simp_all only: u)
  then have "visibleTicket env (sk_id t) (user_of a) st1 = Inr u" using ok u by (simp add: visibleTicket_def)
  then have "visibleTicket env (sk_id t) (user_of a) st' = Inr u" by (simp only: sees_tables(4) [OF tables])
  then show ?thesis
    using a(1-3) ok(1,2,5) \<open>parties u = parties t\<close> tables_of_eqD(9) [OF tables]
    by (auto simp: may_hear_def id)
qed

lemma create_state:
  assumes "ticket_create env now b c st = (Inr t, st')"
  shows "t = opened_ticket now b c st
    \<and> st' = ticket_record env ''tickets.created'' (gu_id c) (sk_id t)
        (ticket_notify env t ''ticket-created'' (gu_id c) None (opened_state now b c st))"
  using assms
  by (auto simp: ticket_create_def Let_def insert_ticket_def insert_message_def opened_ticket_def opened_state_def
      written_message_def named_ids_def split: option.splits if_splits sum.splits)

lemma find_saved:
  assumes "find_ticket i st = Some t" "sk_id t' = i"
  shows "\<exists>u. find_ticket i (save_ticket now t' st) = Some u \<and> (u = t' \<or> u = t'\<lparr>sk_updatedAt := sql_now now\<rparr>)"
proof -
  let ?f = "\<lambda>x. if x = t' then x else t'\<lparr>sk_updatedAt := sql_now now\<rparr>"
  have "List.find (\<lambda>x. sk_id x = i) (update_where (\<lambda>x. sk_id x = i) ?f rows) = map_option ?f (List.find (\<lambda>x. sk_id x = i) rows)" for rows
    using assms(2) by (induction rows) (auto simp: update_where_def)
  then show ?thesis using assms unfolding find_ticket_def save_ticket_def by simp
qed

lemma visible_found: "visibleTicket env i c st = Inr t \<Longrightarrow> find_ticket i st = Some t"
  by (auto simp: visibleTicket_def split: option.splits if_splits)

lemma find_ticket_id: "find_ticket i st = Some t \<Longrightarrow> sk_id t = i"
  by (auto simp: find_ticket_def dest: find_in_set)

lemma reply_state:
  assumes "ticket_reply env now i body c st = (Inr m, st')"
  obtains t where "visibleTicket env i c st = Inr t"
    "st' = ticket_record env ''tickets.replied'' (gu_id c) (sk_id t)
       (ticket_notify env t ''ticket-replied'' (gu_id c) None (replied_state now i body c st))"
  using assms
  by (auto simp: ticket_reply_def Let_def insert_message_def written_message_def replied_state_def
      split: sum.splits if_splits)

lemma take_state:
  assumes "ticket_take env now i c st = (Inr t', st')"
  obtains t where "visibleTicket env i c st = Inr t" "t' = taken_by c t" "sk_createdBy t \<noteq> Some (gu_id c)"
    "st' = ticket_record env ''tickets.taken'' (gu_id c) (sk_id t')
       (ticket_notify env t' ''ticket-taken'' (gu_id c) None (save_ticket now t' st))"
proof -
  obtain t where t: "visibleTicket env i c st = Inr t" "sk_createdBy t \<noteq> Some (gu_id c)"
    using assms by (auto simp: ticket_take_def Let_def split: sum.splits if_splits)
  have "(if sk_status (t\<lparr>sk_assignedTo := Some (gu_id c)\<rparr>) = ''open''
      then (t\<lparr>sk_assignedTo := Some (gu_id c)\<rparr>)\<lparr>sk_status := ''in_progress''\<rparr>
      else t\<lparr>sk_assignedTo := Some (gu_id c)\<rparr>) = taken_by c t" by (simp add: taken_by_def)
  then show thesis using assms t by (intro that [OF t(1) _ t(2)]) (auto simp: ticket_take_def Let_def)
qed

lemma status_state:
  assumes "setStatus env now i status c st = (Inr t', st')"
  obtains t where "visibleTicket env i c st = Inr t" "t' = t\<lparr>sk_status := status\<rparr>"
    "(sk_createdBy t = Some (gu_id c) \<and> status = ''closed'') \<or> isSupport env c"
    "st' = ticket_record env ''tickets.status-changed'' (gu_id c) (sk_id t')
       (ticket_notify env t' ''ticket-status'' (gu_id c) (Some status) (save_ticket now t' st))"
  using assms by (auto simp: setStatus_def Let_def split: sum.splits if_splits)

lemma saved_told:
  assumes "visibleTicket env i c st = Inr t" "sk_id t' = sk_id t"
    and "st' = ticket_record env action x y (ticket_notify env t' type actor status (save_ticket now t' st))"
    and "n \<in> set (ts_notices st')" "n \<notin> set (ts_notices st)" "who \<in> set (tn_accountIds n)"
  shows "may_hear env actor st' (tn_ticketId n) who"
proof -
  have "find_ticket (sk_id t') st = Some t" using visible_found [OF assms(1)] find_ticket_id assms(2) by fastforce
  from find_saved [OF this] obtain u where u: "find_ticket (sk_id t') (save_ticket now t' st) = Some u"
    "u = t' \<or> u = t'\<lparr>sk_updatedAt := sql_now now\<rparr>" by blast
  show ?thesis by (rule told [OF assms(3,4) _ assms(6) u(1)]) (use assms(5) u(2) in auto)
qed

lemma handle_told:
  assumes "ticket_handle env now c r st = (Inr answer, st')" "tickets_sound st"
    and n: "n \<in> set (ts_notices st')" "n \<notin> set (ts_notices st)" "who \<in> set (tn_accountIds n)"
  shows "may_hear env (gu_id c) st' (tn_ticketId n) who"
proof (cases r)
  case (CreateTicket b)
  then obtain t where "ticket_create env now b c st = (Inr t, st')" using assms(1) by (auto simp: answered_Inr)
  from create_state [OF this] have t: "t = opened_ticket now b c st"
    and st': "st' = ticket_record env ''tickets.created'' (gu_id c) (sk_id t)
        (ticket_notify env t ''ticket-created'' (gu_id c) None (opened_state now b c st))" by blast+
  have "\<not> (\<exists>x \<in> set (ts_tickets st). sk_id x = ts_nextTicket st)"
    using tickets_soundD(6) [OF assms(2)] by (force simp: ticket_sound_def)
  then have found: "find_ticket (sk_id t) (opened_state now b c st) = Some t"
    by (simp add: find_ticket_def t opened_state_def Let_def opened_ticket_def find_append find_none_notin)
  show ?thesis by (rule told [OF st' n(1) _ n(3) found]) (use n(2) in \<open>simp_all add: opened_state_def Let_def\<close>)
next
  case (ReplyTicket i body)
  then obtain m where m: "ticket_reply env now i body c st = (Inr m, st')" using assms(1) by (auto simp: answered_Inr)
  obtain t where t: "visibleTicket env i c st = Inr t"
    and st': "st' = ticket_record env ''tickets.replied'' (gu_id c) (sk_id t)
       (ticket_notify env t ''ticket-replied'' (gu_id c) None (replied_state now i body c st))"
    by (rule reply_state [OF m])
  have found: "find_ticket (sk_id t) (replied_state now i body c st) = Some (t\<lparr>sk_updatedAt := sql_now now\<rparr>)"
    using visible_found [OF t] find_ticket_id [OF visible_found [OF t]]
    by (simp add: find_ticket_def replied_state_def find_update_where)
  show ?thesis by (rule told [OF st' n(1) _ n(3) found]) (use n(2) in \<open>simp_all add: replied_state_def\<close>)
next
  case (TakeTicket i)
  then obtain t' where t': "ticket_take env now i c st = (Inr t', st')" using assms(1) by (auto simp: answered_Inr)
  obtain t where "visibleTicket env i c st = Inr t" "t' = taken_by c t"
    "st' = ticket_record env ''tickets.taken'' (gu_id c) (sk_id t')
       (ticket_notify env t' ''ticket-taken'' (gu_id c) None (save_ticket now t' st))" by (rule take_state [OF t'])
  then show ?thesis using n by (intro saved_told) (auto simp: taken_by_def)
next
  case (SetTicketStatus i status)
  then obtain t' where t': "setStatus env now i status c st = (Inr t', st')" using assms(1) by (auto simp: answered_Inr)
  obtain t where "visibleTicket env i c st = Inr t" "t' = t\<lparr>sk_status := status\<rparr>"
    "st' = ticket_record env ''tickets.status-changed'' (gu_id c) (sk_id t')
       (ticket_notify env t' ''ticket-status'' (gu_id c) (Some status) (save_ticket now t' st))"
    by (rule status_state [OF t'])
  then show ?thesis using n by (intro saved_told) auto
next
  case (EditMessage i j body)
  then have "ts_notices st' = ts_notices st" using assms(1)
    by (auto simp: answered_Inr editMessage_def Let_def ticket_record_def split: sum.splits if_splits option.splits)
  with n show ?thesis by simp
next
  case (MarkRead i)
  then have "ts_notices st' = ts_notices st" using assms(1)
    by (auto simp: answered_Inr markRead_def Let_def split: sum.splits if_splits option.splits)
  with n show ?thesis by simp
qed (use assms(1) n in auto)

text \<open>C34: a notice reaches only accounts to which the service itself would show the ticket, as it is once the request is
  done: enabled, holding the permission to be notified, with the ticket's domain in reach and, of a private ticket,
  the right to see it; never the account that acted, and only the author and the handler once someone is in charge.
  The permission tickets:view-ticket, which the route of a ticket asks for before the service is reached, is not asked
  of them.\<close>
theorem notices_reach_only_viewers:
  assumes "ticket_serve env now c r st = (res, st')" "tickets_sound st"
    and "n \<in> set (ts_notices st')" "n \<notin> set (ts_notices st)" "who \<in> set (tn_accountIds n)"
  shows "may_hear env (gu_id c) st' (tn_ticketId n) who"
proof (cases res)
  case (Inl e)
  obtain st1 where "error_keeps res st st'" by (rule serve_effect [OF assms(1)])
  then show ?thesis using Inl assms(3,4) by (simp add: error_keeps_def)
next
  case (Inr answer)
  then obtain r' where "ticket_handle env now c r' st = (Inr answer, st')"
    using assms(1) by (auto simp: ticket_serve_def split: sum.splits option.splits)
  then show ?thesis by (rule handle_told [OF _ assms(2-5)])
qed

section \<open>What a ticket names\<close>

definition may_name_mailbox :: "ticket_env \<Rightarrow> guard_user \<Rightarrow> ticket_state \<Rightarrow> int \<Rightarrow> int \<Rightarrow> bool" where
  "may_name_mailbox env c st domainId i =
     (\<exists>d \<in> set (ts_domains st). vd_id d = domainId
        \<and> (\<exists>u \<in> set (ms_users (ts_mail st)). vu_id u = i \<and> vu_domain u = vd_domain d
             \<and> (readsEveryAddress env c d ''recipients'' \<or> vu_ownerId u = Some (gu_id c))))"

definition may_name_alias :: "ticket_env \<Rightarrow> guard_user \<Rightarrow> ticket_state \<Rightarrow> int \<Rightarrow> int \<Rightarrow> bool" where
  "may_name_alias env c st domainId i =
     (\<exists>d \<in> set (ts_domains st). vd_id d = domainId
        \<and> (\<exists>a \<in> set (ms_aliases (ts_mail st)). va_id a = i \<and> va_domain a = vd_domain d
             \<and> (readsEveryAddress env c d ''aliases'' \<or> va_ownerId a = Some (gu_id c))))"

lemma offered_may_be_named:
  assumes "ticketableResources env i c st = Inr offered" "database_sorts env"
  shows "j \<in> fst ` set (tr_recipients offered) \<Longrightarrow> may_name_mailbox env c st i j"
    and "j \<in> fst ` set (tr_aliases offered) \<Longrightarrow> may_name_alias env c st i j"
proof -
  obtain d where d: "find_domain i (ts_mail st) = Some d"
    and r: "tr_recipients offered = map (\<lambda>u. (vu_id u, vu_email u)) (te_orderUsers env (filter (\<lambda>u. vu_domain u = vd_domain d
       \<and> (readsEveryAddress env c d ''recipients'' \<or> vu_ownerId u = Some (gu_id c))) (ms_users (ts_mail st))))"
    and a: "tr_aliases offered = map (\<lambda>a. (va_id a, va_source a, va_destination a)) (te_orderAliases env
       (filter (\<lambda>a. va_domain a = vd_domain d
       \<and> (readsEveryAddress env c d ''aliases'' \<or> va_ownerId a = Some (gu_id c))) (ms_aliases (ts_mail st))))"
    by (rule resources_Inr [OF assms(1)])
  show "may_name_mailbox env c st i j" if "j \<in> fst ` set (tr_recipients offered)"
    using that domain_of_ticket_found [OF d] database_sorts_set(3) [OF assms(2)]
    by (auto simp: r may_name_mailbox_def intro!: bexI [of _ d])
  show "may_name_alias env c st i j" if "j \<in> fst ` set (tr_aliases offered)"
    using that domain_of_ticket_found [OF d] database_sorts_set(4) [OF assms(2)]
    by (auto simp: a may_name_alias_def intro!: bexI [of _ d])
qed

text \<open>A ticket that was opened names exactly the mailboxes and aliases asked for, each of them of the ticket's own
  domain and its author's, or one its author may read there; it belongs to a domain in its author's reach, it is
  open, private unless asked otherwise, in nobody's charge; and where the server requires an address, it names
  one, unless the domain offers its author none.\<close>
theorem opened_ticket_names_what_it_may:
  assumes "ticket_serve env now c (CreateTicket raw) st = (Inr (TicketRow t), st')" "tickets_sound st" "database_sorts env"
  shows "\<exists>b offered. createTicketSchema raw = Some b \<and> ticketableResources env (nt_domainId b) c st = Inr offered
    \<and> t = opened_ticket now b c st \<and> t \<in> set (ts_tickets st')
    \<and> domain_in_reach (visibleDomainIds env c st) (sk_domainId t)
    \<and> {i. (sk_id t, i) \<in> set (ts_recipients st')} = set (named_ids (nt_recipientIds b))
    \<and> {i. (sk_id t, i) \<in> set (ts_aliases st')} = set (named_ids (nt_aliasIds b))
    \<and> set (named_ids (nt_recipientIds b)) \<subseteq> {i. may_name_mailbox env c st (sk_domainId t) i}
    \<and> set (named_ids (nt_aliasIds b)) \<subseteq> {i. may_name_alias env c st (sk_domainId t) i}
    \<and> (te_required env \<and> nt_recipientIds b = None \<and> nt_aliasIds b = None
         \<longrightarrow> tr_recipients offered = [] \<and> tr_aliases offered = [])"
proof -
  obtain b where b: "createTicketSchema raw = Some b" "ticket_create env now b c st = (Inr t, st')"
    using assms(1) by (auto simp: ticket_serve_def answered_Inr split: sum.splits option.splits)
  from create_effect [OF b] obtain st1 where eff: "ticket_effect env now c (CreateTicket raw) st st1"
    and tables: "tables_of st' = tables_of st1" and t: "t = opened_ticket now b c st" and st1: "st1 = opened_state now b c st"
    by auto
  obtain offered where off: "ticketableResources env (nt_domainId b) c st = Inr offered"
    and named: "assertNamedResources offered (named_ids (nt_recipientIds b)) (named_ids (nt_aliasIds b)) = Inr ()"
    and req: "tr_required offered \<and> (tr_recipients offered \<noteq> [] \<or> tr_aliases offered \<noteq> []) \<Longrightarrow>
       named_ids (nt_recipientIds b) \<noteq> [] \<or> named_ids (nt_aliasIds b) \<noteq> []"
    using eff
  proof (cases rule: ticket_effect.cases)
    case unchanged
    then have "ts_nextTicket (opened_state now b c st) = ts_nextTicket st" by (simp add: st1)
    then show ?thesis by (simp add: opened_state_def Let_def)
  next
    case (opened b' offered)
    then show ?thesis using that b(1) by simp
  qed
  have free: "(ts_nextTicket st, i) \<notin> set (ts_recipients st) \<and> (ts_nextTicket st, i) \<notin> set (ts_aliases st)" for i
    using tickets_soundD(5,6) [OF assms(2)] by (force simp: pivots_sound_def ticket_sound_def)
  have "t \<in> set (ts_tickets st')" unfolding tables_of_eqD(1) [OF tables] by (simp add: st1 t opened_state_def Let_def)
  moreover have "{i. (sk_id t, i) \<in> set (ts_recipients st')} = set (named_ids (nt_recipientIds b))"
    "{i. (sk_id t, i) \<in> set (ts_aliases st')} = set (named_ids (nt_aliasIds b))"
    unfolding tables_of_eqD(4,5) [OF tables] using free by (auto simp: st1 t opened_state_def Let_def opened_ticket_def)
  moreover have "sk_domainId t = nt_domainId b" by (simp add: t opened_ticket_def)
  moreover have "domain_in_reach (visibleDomainIds env c st) (nt_domainId b)" "tr_required offered = te_required env"
    by (rule resources_Inr [OF off], assumption)+
  moreover have "set (named_ids (nt_recipientIds b)) \<subseteq> {i. may_name_mailbox env c st (nt_domainId b) i}"
    "set (named_ids (nt_aliasIds b)) \<subseteq> {i. may_name_alias env c st (nt_domainId b) i}"
    using named offered_may_be_named [OF off assms(3)] unfolding assertNamedResources_Inr by blast+
  moreover have "named_ids None = []" by (simp add: named_ids_def)
  ultimately show ?thesis using b(1) off t req by auto
qed

section \<open>A ticket one cannot see\<close>

fun about_ticket :: "ticket_request \<Rightarrow> int option" where
  "about_ticket (GetTicket i) = Some i"
| "about_ticket (TicketMessages i q) = Some i"
| "about_ticket (ReplyTicket i body) = Some i"
| "about_ticket (EditMessage i m body) = Some i"
| "about_ticket (MarkRead i) = Some i"
| "about_ticket (TakeTicket i) = Some i"
| "about_ticket (SetTicketStatus i status) = Some i"
| "about_ticket _ = None"

definition without_ticket :: "int \<Rightarrow> ticket_state \<Rightarrow> ticket_state" where
  "without_ticket i st = st\<lparr>ts_tickets := filter (\<lambda>t. sk_id t \<noteq> i) (ts_tickets st)\<rparr>"

lemma missing_ticket: "visibleTicket env i c (without_ticket i st) = Inl ticket_missing"
proof -
  have "find_ticket i (without_ticket i st) = None"
    by (simp add: find_ticket_def without_ticket_def find_None_iff)
  then show ?thesis by (simp add: visibleTicket_def)
qed

lemma unseen_handled:
  "about_ticket r = Some i \<Longrightarrow> visibleTicket env i c st = Inl e \<Longrightarrow> ticket_handle env now c r st = (Inl e, st)"
  by (cases r) (simp_all add: ticket_get_def messagesPage_def ticket_reply_def editMessage_def markRead_def
      ticket_take_def setStatus_def answered_def)

lemma about_schema: "ticket_schema r = Some r' \<Longrightarrow> about_ticket r' = about_ticket r"
  by (cases r) (auto split: if_splits)

text \<open>Whatever an account asks of a ticket it may not see, it gets the answer it would get if there were no such
  ticket, and nothing is written.\<close>
theorem unseen_ticket_like_none:
  assumes "about_ticket r = Some i" "visibleTicket env i c st = Inl e"
  shows "ticket_serve env now c r st = (fst (ticket_serve env now c r (without_ticket i st)), st)"
proof -
  have e: "e = ticket_missing" by (rule visibleTicket_Inl [OF assms(2)])
  have "ticket_handle env now c r' st = (Inl e, st) \<and> ticket_handle env now c r' (without_ticket i st) = (Inl e, without_ticket i st)"
    if "ticket_schema r = Some r'" for r'
    using unseen_handled [of r' i] about_schema [OF that] assms missing_ticket e by simp
  then show ?thesis by (auto simp: ticket_serve_def split: sum.splits option.splits)
qed

section \<open>No ticket is stuck\<close>

lemma status_served:
  assumes guard: "gu_isRoot c \<or> gl_global (te_lib env) (gu_id c) ''tickets'' [''access'', ''view-ticket''] = Granted"
    and t: "visibleTicket env i c st = Inr t" and status: "status \<in> set TICKET_STATUSES"
    and may: "sk_createdBy t = Some (gu_id c) \<and> status = ''closed'' \<or> isSupport env c"
  obtains st' where "ticket_serve env now c (SetTicketStatus i status) st = (Inr (TicketRow (t\<lparr>sk_status := status\<rparr>)), st')"
    "\<exists>u \<in> set (ts_tickets st'). sk_id u = i \<and> sk_status u = status" "ts_messages st' = ts_messages st"
proof -
  let ?t = "t\<lparr>sk_status := status\<rparr>"
  define st1 where "st1 = ticket_record env ''tickets.status-changed'' (gu_id c) (sk_id ?t)
       (ticket_notify env ?t ''ticket-status'' (gu_id c) (Some status) (save_ticket now ?t st))"
  have found: "find_ticket i st = Some t" "sk_id ?t = i" using visible_found [OF t] visibleTicket_Inr [OF t] by simp_all
  have tables: "tables_of st1 = tables_of (save_ticket now ?t st)" by (simp add: st1_def)
  from find_saved [OF found] obtain u where "find_ticket i (save_ticket now ?t st) = Some u" "sk_status u = status" "sk_id u = i"
    using found(2) by force
  then have "\<exists>u \<in> set (ts_tickets st1). sk_id u = i \<and> sk_status u = status"
    unfolding tables_of_eqD(1) [OF tables] find_ticket_def by (auto dest: find_in_set)
  moreover have "ticket_serve env now c (SetTicketStatus i status) st = (Inr (TicketRow ?t), st1)"
  proof -
    have "\<exists>ok. global_guard (te_lib env) (Some [(''tickets'', [''access'', ''view-ticket''])]) (Some c) = Inr ok"
      using guard by (auto simp: global_guard_def lib_throw_def)
    moreover have "setStatus env now i status c st = (Inr ?t, st1)"
      using t may by (auto simp: setStatus_def Let_def st1_def)
    ultimately show ?thesis using status by (auto simp: ticket_serve_def answered_def)
  qed
  moreover have "ts_messages st1 = ts_messages st" unfolding tables_of_eqD(2) [OF tables] by simp
  ultimately show thesis using that by blast
qed

text \<open>C35: wherever a run has led, no ticket is stuck: one request of an enabled root account brings it to any status
  wanted, with its messages.\<close>
theorem no_ticket_is_stuck:
  assumes "ticket_run s evs st" "tickets_sound s" "t \<in> set (ts_tickets st)" "status \<in> set TICKET_STATUSES"
    and "database_sorts env" "find_account (ac_id a) (ts_accounts st) = Some a" "ac_isRoot a = 1" "ac_enabled a = 1"
  shows "\<exists>st'. ticket_run s (evs @ [Asked env now (user_of a) (SetTicketStatus (sk_id t) status)]) st'
    \<and> (\<exists>u \<in> set (ts_tickets st'). sk_id u = sk_id t \<and> sk_status u = status) \<and> ts_messages st' = ts_messages st"
proof -
  have root: "gu_isRoot (user_of a)" "signed_in (user_of a) st" using assms(6-8) by (simp_all add: user_of_def signed_in_def)
  have "visibleTicket env (sk_id t) (user_of a) st = Inr t"
    using root(1) visibleTicket_iff [OF run_keeps_sound [OF assms(1,2)] assms(3), of env "user_of a"]
    by (simp add: visibleDomainIds_def domain_in_reach_def canSeePrivate_def privateReach_def isSupport_def)
  then have sees: "visibleTicket env (sk_id t) (user_of a) st = Inr t" .
  obtain st' where "ticket_serve env now (user_of a) (SetTicketStatus (sk_id t) status) st
      = (Inr (TicketRow (t\<lparr>sk_status := status\<rparr>)), st')"
    "\<exists>u \<in> set (ts_tickets st'). sk_id u = sk_id t \<and> sk_status u = status" "ts_messages st' = ts_messages st"
    by (rule status_served [OF disjI1 [OF root(1)] sees assms(4)]) (simp_all add: isSupport_def root(1))
  then show ?thesis using asked [OF assms(1,5) root(2)] by blast
qed

text \<open>An account that may read tickets closes its own in one request, from any status, as long as it sees it,
  and needs no other right for it.\<close>
theorem author_closes_own_ticket:
  assumes "visibleTicket env i c st = Inr t" "sk_createdBy t = Some (gu_id c)"
    and "gl_global (te_lib env) (gu_id c) ''tickets'' [''access'', ''view-ticket''] = Granted"
  shows "\<exists>st'. ticket_serve env now c (SetTicketStatus i ''closed'') st = (Inr (TicketRow (t\<lparr>sk_status := ''closed''\<rparr>)), st')
    \<and> (\<exists>u \<in> set (ts_tickets st'). sk_id u = i \<and> sk_status u = ''closed'') \<and> ts_messages st' = ts_messages st"
proof -
  have "''closed'' \<in> set TICKET_STATUSES" by (simp add: TICKET_STATUSES_def)
  from status_served [OF disjI2 [OF assms(3)] assms(1) this] assms(2) show ?thesis by blast
qed

section \<open>The tables\<close>

text \<open>C36: over every run of requests and of changes elsewhere the tables stay sound: identifiers and receipts are
  unique, every ticket has a domain and a message, every message, receipt and named address its ticket, a
  status is one of the four, nobody is in charge of a ticket they opened, a receipt points at a message of its
  ticket, and a message shows that it was edited exactly when it was.\<close>
theorem ticket_tables_stay_sound:
  assumes "ticket_run s evs st" "tickets_sound s"
  shows "tickets_sound st"
  by (rule run_keeps_sound [OF assms])

section \<open>A desk to try them on\<close>

definition desk_account :: "string \<Rightarrow> int \<Rightarrow> account" where
  "desk_account i root = \<lparr>ac_id = i, ac_email = i @ ''@d.t'', ac_password = None, ac_isRoot = root, ac_isProtected = 0,
     ac_enabled = 1, ac_lastLogin = None, ac_createdAt = 0\<rparr>"

definition desk_mail :: mail_state where
  "desk_mail = \<lparr>
     ms_domains = [\<lparr>vd_id = 1, vd_ownerId = Some ''o'', vd_domain = ''d.t'', vd_quota = 0, vd_active = 1, vd_isProtected = 0,
       vd_userStartDate = ''1970-01-01'', vd_userEndDate = None, vd_lastActivity = 0, vd_createdAt = 0\<rparr>],
     ms_users = [\<lparr>vu_id = 5, vu_ownerId = Some ''m'', vu_domain = ''d.t'', vu_email = ''m@d.t'', vu_password = [],
       vu_maildir = [], vu_quota = 0, vu_active = 1, vu_isProtected = 0, vu_uid = [], vu_gid = [],
       vu_userStartDate = ''1970-01-01'', vu_userEndDate = None, vu_lastActivity = None, vu_createdAt = 0\<rparr>],
     ms_aliases = [], ms_quotaUsers = [], ms_quotaDomains = [], ms_delegations = [], ms_invitations = [],
     ms_accounts = [desk_account ''r'' 1, desk_account ''m'' 0, desk_account ''o'' 0], ms_journal = [], ms_audit = [],
     ms_mails = [], ms_erased = []\<rparr>"

definition desk_ticket :: support_ticket where
  "desk_ticket = \<lparr>sk_id = 1, sk_domainId = 1, sk_createdBy = Some ''m'', sk_assignedTo = Some ''r'', sk_subject = ''s'',
     sk_status = ''closed'', sk_visibility = ''private'', sk_createdAt = 0, sk_updatedAt = 0\<rparr>"

definition desk_message :: ticket_message where
  "desk_message = \<lparr>sm_id = 1, sm_ticketId = 1, sm_authorId = Some ''m'', sm_body = ''b'', sm_createdAt = 0,
     sm_updatedAt = None, sm_editCount = 0\<rparr>"

definition desk_read :: ticket_read where
  "desk_read = \<lparr>sr_ticketId = 1, sr_accountId = ''r'', sr_lastReadMessageId = 1, sr_readAt = 0\<rparr>"

definition desk_state :: ticket_state where
  "desk_state = \<lparr>ts_mail = desk_mail, ts_profiles = [], ts_tickets = [desk_ticket], ts_messages = [desk_message],
     ts_reads = [desk_read], ts_recipients = [(1, 5)], ts_aliases = [], ts_nextTicket = 2, ts_nextMessage = 2,
     ts_notices = []\<rparr>"

text \<open>The same with the ticket in progress.\<close>

definition open_desk :: ticket_state where
  "open_desk = desk_state\<lparr>ts_tickets := [desk_ticket\<lparr>sk_status := ''in_progress''\<rparr>]\<rparr>"

definition desk_env :: ticket_env where
  "desk_env = \<lparr>te_lib = \<lparr>gl_global = (\<lambda>_ _ _. Granted), gl_domain = (\<lambda>_ _ _ _. Refused)\<rparr>,
     te_check = (\<lambda>_ _ _. False), te_effective = (\<lambda>_. \<lparr>ps_global = [], ps_domain = []\<rparr>), te_required = True,
     te_watchers = (\<lambda>_. []), te_dispatchFails = (\<lambda>_. False), te_ctx = None, te_like = (\<lambda>_ _. True),
     te_orderTickets = (\<lambda>_ _ rows. rows), te_orderDomains = (\<lambda>rows. rows), te_orderUsers = (\<lambda>rows. rows),
     te_orderAliases = (\<lambda>rows. rows)\<rparr>"

definition desk_root :: guard_user where "desk_root = user_of (desk_account ''r'' 1)"
definition desk_member :: guard_user where "desk_member = user_of (desk_account ''m'' 0)"

lemma desk_sound: "tickets_sound desk_state" "tickets_sound open_desk"
  by (simp_all add: tickets_sound_def ticket_sound_def message_sound_def read_sound_def pivots_sound_def open_desk_def
      desk_state_def desk_mail_def desk_ticket_def desk_message_def desk_read_def desk_account_def TICKET_STATUSES_def
      TICKET_VISIBILITIES_def)

lemma desk_sorts: "database_sorts desk_env"
  by (simp add: database_sorts_def desk_env_def)

lemma desk_signed: "signed_in desk_root desk_state" "signed_in desk_root open_desk"
  by (simp_all add: signed_in_def find_account_def desk_root_def user_of_def open_desk_def desk_state_def desk_mail_def
      desk_account_def)

lemma desk_run: "signed_in c st \<Longrightarrow> ticket_run st [Asked desk_env now c r] (snd (ticket_serve desk_env now c r st))"
  using asked [OF begins desk_sorts, of c st now r "fst (ticket_serve desk_env now c r st)"
      "snd (ticket_serve desk_env now c r st)"] by simp

definition desk_query :: ticket_list_query where
  "desk_query = \<lparr>pq_limit = Some 10, pq_offset = 0, pq_search = None, pq_sortDir = ''desc'', pq_sortBy = None,
     pq_searchBy = None, lq_mine = None, lq_hideClosed = Some ''true''\<rparr>"

definition desk_new :: new_ticket where
  "desk_new = \<lparr>nt_domainId = 1, nt_subject = '' t '', nt_body = ''b'', nt_visibility = None, nt_recipientIds = Some [5, 5],
     nt_aliasIds = None\<rparr>"

text \<open>The author answers, then the handler reads; the author rewords; the author opens another ticket.\<close>

definition replied_desk :: ticket_state where
  "replied_desk = snd (ticket_serve desk_env 1500 desk_member (ReplyTicket 1 '' hello '') open_desk)"

definition read_desk :: ticket_state where
  "read_desk = snd (ticket_serve desk_env 2500 desk_root (MarkRead 1) replied_desk)"

definition edited_desk :: ticket_state where
  "edited_desk = snd (ticket_serve desk_env 3600000 desk_member (EditMessage 1 1 ''new'') open_desk)"

definition opened_desk :: ticket_state where
  "opened_desk = snd (ticket_serve desk_env 1500 desk_member (CreateTicket desk_new) open_desk)"

text \<open>The guards let them through and the schemas trim; what is left is evaluated once.\<close>

lemma desk_trims: "trimmed_text 10000 '' hello '' = Some ''hello''" "trimmed_text 10000 ''new'' = Some ''new''"
  "trimmed_text 255 '' t '' = Some ''t''" "trimmed_text 10000 ''b'' = Some ''b''"
  by (simp_all add: trimmed_text_def str_trim_def is_space_def)

definition desk_trimmed :: new_ticket where "desk_trimmed = desk_new\<lparr>nt_subject := ''t''\<rparr>"

lemma desk_schema: "createTicketSchema desk_new = Some desk_trimmed"
  by (simp add: createTicketSchema_def desk_new_def desk_trims desk_trimmed_def ids_ok_def)

lemma desk_serves: "ticket_schema r = Some r' \<Longrightarrow> ticket_serve desk_env now c r st = ticket_handle desk_env now c r' st"
  by (simp add: ticket_serve_def global_guard_def lib_throw_def desk_env_def)

lemma desk_served:
  "ticket_serve desk_env now c (ReplyTicket 1 '' hello '') st = ticket_handle desk_env now c (ReplyTicket 1 ''hello'') st"
  "ticket_serve desk_env now c (EditMessage 1 1 ''new'') st = ticket_handle desk_env now c (EditMessage 1 1 ''new'') st"
  "ticket_serve desk_env now c (MarkRead 1) st = ticket_handle desk_env now c (MarkRead 1) st"
  "ticket_serve desk_env now c (TakeTicket 1) st = ticket_handle desk_env now c (TakeTicket 1) st"
  "ticket_serve desk_env now c (CreateTicket desk_new) st = ticket_handle desk_env now c (CreateTicket desk_trimmed) st"
  by (simp_all add: desk_serves desk_trims desk_schema)

lemma desk_facts:
  "fst (ticket_serve desk_env 1500 desk_member (CreateTicket desk_new) open_desk)
     = Inr (TicketRow \<lparr>sk_id = 2, sk_domainId = 1, sk_createdBy = Some ''m'', sk_assignedTo = None, sk_subject = ''t'',
        sk_status = ''open'', sk_visibility = ''private'', sk_createdAt = 1000, sk_updatedAt = 1000\<rparr>)
   \<and> signed_in desk_member open_desk \<and> signed_in desk_root replied_desk
   \<and> length (ts_messages read_desk) = 2
   \<and> ts_reads read_desk = [\<lparr>sr_ticketId = 1, sr_accountId = ''r'', sr_lastReadMessageId = 2, sr_readAt = 2000\<rparr>]
   \<and> map sk_id (ts_tickets read_desk) = [1]
   \<and> find_account ''r'' (ts_accounts read_desk) = Some (desk_account ''r'' 1)
   \<and> map (\<lambda>n. (tn_ticketId n, tn_accountIds n)) (ts_notices replied_desk) = [(1, [''r''])]
   \<and> map sk_id (ts_tickets (snd (ticket_serve desk_env 0 desk_root (TakeTicket 1) desk_state))) = [1]
   \<and> desk_message \<notin> set (ts_messages edited_desk)
   \<and> filter (\<lambda>t. visibleTicket desk_env (sk_id t) desk_member open_desk = Inr t
        \<and> ticket_matches desk_env desk_query desk_member t) (ts_tickets open_desk)
      = [desk_ticket\<lparr>sk_status := ''in_progress''\<rparr>]
   \<and> visibleTicket desk_env 1 \<lparr>gu_id = ''x'', gu_isRoot = False\<rparr> open_desk = Inl ticket_missing
   \<and> visibleTicket desk_env 1 desk_member open_desk = Inr (desk_ticket\<lparr>sk_status := ''in_progress''\<rparr>)"
  unfolding replied_desk_def read_desk_def edited_desk_def opened_desk_def desk_served by code_simp

lemma desk_run2: "ticket_run open_desk [Asked desk_env 1500 desk_member (ReplyTicket 1 '' hello ''),
    Asked desk_env 2500 desk_root (MarkRead 1)] read_desk"
proof -
  have "signed_in desk_member open_desk" using desk_facts by blast
  from desk_run [OF this] have one: "ticket_run open_desk [Asked desk_env 1500 desk_member (ReplyTicket 1 '' hello '')] replied_desk"
    by (simp only: replied_desk_def)
  have two: "signed_in desk_root replied_desk" using desk_facts by blast
  have "ticket_serve desk_env 2500 desk_root (MarkRead 1) replied_desk
      = (fst (ticket_serve desk_env 2500 desk_root (MarkRead 1) replied_desk), read_desk)" by (simp add: read_desk_def)
  from asked [OF one desk_sorts two this] show ?thesis by simp
qed

theorem ticket_tables_stay_sound_witness: "tickets_sound read_desk \<and> length (ts_messages read_desk) = 2"
proof -
  have "tickets_sound read_desk" by (rule ticket_tables_stay_sound [OF desk_run2 desk_sound(2)])
  moreover have "length (ts_messages read_desk) = 2" using desk_facts by blast
  ultimately show ?thesis by simp
qed

theorem closed_ticket_is_frozen_witness:
  "map sk_status (ts_tickets (snd (ticket_serve desk_env 0 desk_root (TakeTicket 1) desk_state))) = [''closed'']"
proof -
  let ?st = "snd (ticket_serve desk_env 0 desk_root (TakeTicket 1) desk_state)"
  have "map sk_id (ts_tickets ?st) = [1]" using desk_facts by blast
  moreover have "\<forall>u \<in> set (ts_tickets ?st). sk_id u = 1 \<longrightarrow> sk_status u = ''closed''"
    using closed_ticket_is_frozen [OF desk_run [OF desk_signed(1)] desk_sound(1), of desk_ticket 0 "TakeTicket 1"]
    by (simp add: desk_ticket_def desk_state_def)
  ultimately show ?thesis by (cases "ts_tickets ?st") auto
qed

theorem receipts_never_go_back_witness:
  "sr_lastReadMessageId desk_read \<le> sr_lastReadMessageId (hd (ts_reads read_desk)) \<and> length (ts_reads read_desk) = 1"
proof -
  have "hd (ts_reads read_desk) = \<lparr>sr_ticketId = 1, sr_accountId = ''r'', sr_lastReadMessageId = 2, sr_readAt = 2000\<rparr>
      \<and> length (ts_reads read_desk) = 1" using desk_facts by simp
  moreover from this have "hd (ts_reads read_desk) \<in> set (ts_reads read_desk)" by (cases "ts_reads read_desk") simp_all
  ultimately show ?thesis
    using receipts_never_go_back [OF desk_run2 desk_sound(2), of desk_read "hd (ts_reads read_desk)"]
    by (simp add: desk_read_def open_desk_def desk_state_def)
qed

theorem words_are_their_authors_witness: "reworded 3600000 ''new'' desk_message \<in> set (ts_messages edited_desk)"
proof -
  have "desk_message \<notin> set (ts_messages edited_desk)" using desk_facts by blast
  moreover have "trimmed_text 10000 ''new'' = Some ''new''" by (rule desk_trims)
  ultimately show ?thesis
    using words_are_their_authors [of desk_env 3600000 desk_member "EditMessage 1 1 ''new''" open_desk
        "fst (ticket_serve desk_env 3600000 desk_member (EditMessage 1 1 ''new'') open_desk)" edited_desk desk_message]
      desk_sound(2)
    by (auto simp: edited_desk_def open_desk_def desk_state_def)
qed

theorem list_shows_what_opens_witness:
  "snd (ticket_list desk_env desk_query desk_member open_desk) = Some 1
   \<and> length (fst (ticket_list desk_env desk_query desk_member open_desk)) = 1"
proof -
  have found: "filter (\<lambda>t. visibleTicket desk_env (sk_id t) desk_member open_desk = Inr t
      \<and> ticket_matches desk_env desk_query desk_member t) (ts_tickets open_desk)
    = [desk_ticket\<lparr>sk_status := ''in_progress''\<rparr>]" using desk_facts by blast
  have page: "pq_limit desk_query = Some 10" "pq_offset desk_query = 0" by (simp_all add: desk_query_def)
  show ?thesis
    using list_shows_what_opens [OF desk_sound(2) desk_sorts, where q = desk_query and c = desk_member]
    unfolding found by (simp add: Let_def page)
qed

theorem notices_reach_only_viewers_witness: "may_hear desk_env ''m'' replied_desk 1 ''r''"
proof -
  let ?n = "hd (ts_notices replied_desk)"
  have "map (\<lambda>n. (tn_ticketId n, tn_accountIds n)) (ts_notices replied_desk) = [(1, [''r''])]" using desk_facts by blast
  then have n: "tn_ticketId ?n = 1 \<and> tn_accountIds ?n = [''r''] \<and> length (ts_notices replied_desk) = 1"
    by (cases "ts_notices replied_desk") simp_all
  then have "?n \<in> set (ts_notices replied_desk)" by (cases "ts_notices replied_desk") simp_all
  then have "may_hear desk_env (gu_id desk_member) replied_desk (tn_ticketId ?n) ''r''"
    by (intro notices_reach_only_viewers [where res = "fst (ticket_serve desk_env 1500 desk_member (ReplyTicket 1 '' hello '') open_desk)"
        and st = open_desk and n = ?n and now = 1500 and r = "ReplyTicket 1 '' hello ''"])
      (simp_all add: replied_desk_def [symmetric] desk_sound n, simp_all add: replied_desk_def open_desk_def desk_state_def)
  then show ?thesis using n by (simp add: desk_member_def user_of_def desk_account_def)
qed

theorem opened_ticket_names_what_it_may_witness: "{i. (2, i) \<in> set (ts_recipients opened_desk)} = {5}"
proof -
  have serve: "ticket_serve desk_env 1500 desk_member (CreateTicket desk_new) open_desk
      = (Inr (TicketRow \<lparr>sk_id = 2, sk_domainId = 1, sk_createdBy = Some ''m'', sk_assignedTo = None, sk_subject = ''t'',
        sk_status = ''open'', sk_visibility = ''private'', sk_createdAt = 1000, sk_updatedAt = 1000\<rparr>), opened_desk)"
    using desk_facts by (simp add: opened_desk_def prod_eq_iff)
  have "map_option nt_recipientIds (createTicketSchema desk_new) = Some (Some [5, 5])"
    unfolding desk_schema by (simp add: desk_trimmed_def desk_new_def)
  then show ?thesis
    using opened_ticket_names_what_it_may [OF serve desk_sound(2) desk_sorts] by (auto simp: named_ids_def)
qed

theorem unseen_ticket_like_none_witness:
  "ticket_serve desk_env 0 \<lparr>gu_id = ''x'', gu_isRoot = False\<rparr> (SetTicketStatus 1 ''closed'') open_desk
    = (fst (ticket_serve desk_env 0 \<lparr>gu_id = ''x'', gu_isRoot = False\<rparr> (SetTicketStatus 1 ''closed'')
         (without_ticket 1 open_desk)), open_desk)"
proof (rule unseen_ticket_like_none)
  show "visibleTicket desk_env 1 \<lparr>gu_id = ''x'', gu_isRoot = False\<rparr> open_desk = Inl ticket_missing" using desk_facts by blast
qed simp

theorem no_ticket_is_stuck_witness:
  "\<exists>st'. ticket_run open_desk [Asked desk_env 1500 desk_member (ReplyTicket 1 '' hello ''),
       Asked desk_env 2500 desk_root (MarkRead 1), Asked desk_env 9 (user_of (desk_account ''r'' 1)) (SetTicketStatus 1 ''open'')] st'
     \<and> (\<exists>u \<in> set (ts_tickets st'). sk_id u = 1 \<and> sk_status u = ''open'') \<and> ts_messages st' = ts_messages read_desk"
proof -
  let ?t = "hd (ts_tickets read_desk)"
  have "map sk_id (ts_tickets read_desk) = [1]" using desk_facts by blast
  then have t: "sk_id ?t = 1 \<and> length (ts_tickets read_desk) = 1" by (cases "ts_tickets read_desk") simp_all
  then have "?t \<in> set (ts_tickets read_desk)" by (cases "ts_tickets read_desk") simp_all
  moreover have "find_account (ac_id (desk_account ''r'' 1)) (ts_accounts read_desk) = Some (desk_account ''r'' 1)"
    using desk_facts by (simp add: desk_account_def)
  ultimately show ?thesis
    using no_ticket_is_stuck [OF desk_run2 desk_sound(2), of ?t "''open''" desk_env "desk_account ''r'' 1" 9] t desk_sorts
    by (simp add: TICKET_STATUSES_def desk_account_def)
qed

theorem author_closes_own_ticket_witness:
  "fst (ticket_serve desk_env 0 desk_member (SetTicketStatus 1 ''closed'') open_desk) = Inr (TicketRow desk_ticket)"
proof -
  have "visibleTicket desk_env 1 desk_member open_desk = Inr (desk_ticket\<lparr>sk_status := ''in_progress''\<rparr>)"
    using desk_facts by blast
  moreover have "sk_createdBy (desk_ticket\<lparr>sk_status := ''in_progress''\<rparr>) = Some (gu_id desk_member)"
    "gl_global (te_lib desk_env) (gu_id desk_member) ''tickets'' [''access'', ''view-ticket''] = Granted"
    by (simp_all add: desk_ticket_def desk_member_def user_of_def desk_account_def desk_env_def)
  moreover have "desk_ticket\<lparr>sk_status := ''in_progress''\<rparr>\<lparr>sk_status := ''closed''\<rparr> = desk_ticket"
    by (simp add: desk_ticket_def)
  ultimately show ?thesis
    using author_closes_own_ticket [of desk_env 1 desk_member open_desk "desk_ticket\<lparr>sk_status := ''in_progress''\<rparr>" 0] by auto
qed

end
