(* ===== verification/Spec2Isabelle.thy ===== *)
theory Spec2Isabelle
  imports Totp Challenges Cipher Activity Lockout TwoFactor Mfa LoginRisk MfaLogin Accounts ApiToken
    PermissionCatalog Guards MailTables AclGroups Sessions SessionSafety
    MailState MailDb MailStorage Protection Delegations Recipients Aliases MySpace DomainAdmin MailRoutes
    MailLedger GrantBooks MailboxBooks MailInvariant RequestBooks Occupancy ProtectedRows Erasure Refusals MailRuns MailSafety
    Invitations InviteBooks InviteSafety AccountAdmin ProviderSignIn AccountBooks AccountSafety
    QrField QrCode QrMatrix QrReader QrSafety Tickets TicketEffects TicketInvariant TicketSafety
begin

text \<open>
  The manager API of a dockerized mail server (\<open>src/manager-api/src\<close>): who may sign in, what a
  session or a key may do, what the administration of groups may give away, and what the administration
  of domains, mailboxes, aliases and delegations does to the mail server's tables and disk; the support desk's
  tickets; and the QR code the interface draws for the setup of a second factor.

  \<^bold>\<open>Parts of the program.\<close> A request passes \<open>core/auth/auth.guard.ts\<close>, which finds its account from an
  access token or an API key, then the guards of \<open>core/custom-permission-guard\<close>, then the service
  of its route. Sessions are opened by \<open>core/auth/jwt/jwt.service.ts\<close>, which leans on the second
  factor (\<open>core/auth/two-factor\<close>), on the judgement of where a sign-in comes from and the proof asked
  of an unusual one (\<open>core/auth/mfa\<close>). Groups (\<open>api/groups\<close>) carry the permissions the guards read. Behind the guards, \<open>api/domains\<close> and \<open>api/my-space\<close>
  keep the tables postfix and dovecot read: domains with a quota, mailboxes and aliases in them, and
  delegations, by which an account may open mailboxes of its own under caps. An invitation (\<open>api/accounts/invitations\<close>)
  stages groups, mailboxes, a domain or a delegation for the account that accepts it. The administration of the accounts
  (\<open>api/accounts/crud\<close>) edits, disables and deletes them, and a provider's proof of an identity opens the session of the
  account it stands for (\<open>core/auth/passport\<close>). Rows may be
  protected (\<open>core/protection\<close>), and a removal erases directories of the mail volume (\<open>core/mail-storage\<close>).

  \<^bold>\<open>Theories.\<close>
  \<^item> \<open>Prelude\<close>: errors as values, \<open>outcome\<close> (a result and the state it leaves), JavaScript strings and
    lists, the updates of a table kept as a list of rows.
  \<^item> \<open>Totp\<close>, \<open>Cipher\<close>: \<open>totp.ts\<close> and \<open>api-token.cipher.ts\<close>. Round trips, and what \<open>matchTotp\<close> accepts.
  \<^item> \<open>Challenges\<close>: the three in-memory stores, on the contract \<open>bounded_tickets\<close>.
  \<^item> \<open>Activity\<close>, \<open>Accounts\<close>, \<open>MailTables\<close>: the rows of the tables and the two journals.
  \<^item> \<open>Lockout\<close>, \<open>TwoFactor\<close>, \<open>Mfa\<close>: the brake on wrong answers as a locale, and the two services that
    provide it: \<open>two-factor.service.ts\<close> and \<open>mfa.service.ts\<close>.
  \<^item> \<open>LoginRisk\<close>, \<open>MfaLogin\<close>: \<open>login-risk.service.ts\<close> and \<open>mfa-login.service.ts\<close>.
  \<^item> \<open>ApiToken\<close>: \<open>core/auth/api-token\<close>, every operation on the keys of an account.
  \<^item> \<open>PermissionCatalog\<close>, \<open>Guards\<close>: the catalog, the guards and the anti-escalation check.
  \<^item> \<open>AclGroups\<close>: \<open>groups.service.ts\<close> on the queries of \<open>custom-permission-guard.service.ts\<close>, with the
    step relation \<open>grp_step\<close> of all its operations.
  \<^item> \<open>Sessions\<close>, \<open>SessionSafety\<close>: \<open>jwt.service.ts\<close> and \<open>auth.guard.ts\<close>, then what holds of every sequence
    of their operations.
  \<^item> \<open>MailState\<close>, \<open>MailDb\<close>, \<open>MailStorage\<close>: the tables of the mail server as one state, the triggers and cascades
    of \<open>1782760166966-CreateVirtualMail.ts\<close>, and the directories \<open>mail-storage.service.ts\<close> may erase.
  \<^item> \<open>Protection\<close>, \<open>Delegations\<close>, \<open>Recipients\<close>, \<open>Aliases\<close>, \<open>MySpace\<close>, \<open>DomainAdmin\<close>: the services of those names,
    every operation that changes a table. \<open>MailRoutes\<close>: the routes, each with its guards, the schema of its body
    and its handler, as the requests \<open>serve\<close> runs.
  \<^item> \<open>MailLedger\<close>, \<open>GrantBooks\<close>, \<open>MailboxBooks\<close>: \<open>committed\<close>, what a domain has promised, and what each operation does
    to it. \<open>MailInvariant\<close>: the well-formedness of the tables. \<open>RequestBooks\<close>: both, for a request.
  \<^item> \<open>Occupancy\<close>: the counters as an abstract map and its simulation; \<open>ProtectedRows\<close>, \<open>Erasure\<close>, \<open>Refusals\<close>: what a
    request leaves of a protected row, erases, and writes before it fails. \<open>MailRuns\<close>: runs of requests
    (\<open>mail_run\<close>). \<open>MailSafety\<close>: the properties, with two families of runs on which the code breaks its own rules.
  \<^item> \<open>Invitations\<close>: \<open>invitations.service.ts\<close> and its routes, on the tables of the mail administration and of the
    groups together. \<open>InviteBooks\<close>: what an acceptance does to both, and the runs of all three (\<open>office_run\<close>).
    \<open>InviteSafety\<close>: the properties, with three ways in which an invitation goes wrong.
  \<^item> \<open>AccountAdmin\<close>: \<open>crud.service.ts\<close>, its schema and its routes, on the tables of the administration and of the sign-in
    together (\<open>console_state\<close>), with the foreign keys a deletion runs. \<open>ProviderSignIn\<close>: \<open>passport.service.ts\<close>, the registry of
    providers and the callback. \<open>AccountBooks\<close>: what both do to the mail tables and to the accounts, along runs of all the
    services (\<open>console_run\<close>). \<open>AccountSafety\<close>: the properties, with three things an edit or a deletion leaves undone.
  \<^item> \<open>Tickets\<close>: \<open>tickets.service.ts\<close>, its routes and the foreign keys of its tables, beside the mail tables.
    \<open>TicketEffects\<close>: the six changes a request may make (\<open>ticket_effect\<close>), which every operation is shown to keep to.
    \<open>TicketInvariant\<close>: runs of requests between changes made elsewhere (\<open>ticket_run\<close>) and the soundness they keep.
    \<open>TicketSafety\<close>: the properties, those over runs on the contract \<open>run_property\<close>.
  \<^item> \<open>QrField\<close>, \<open>QrCode\<close>, \<open>QrMatrix\<close>: \<open>utils/qrcode.ts\<close> of the interface: the field of 256 elements and the
    error correction, the versions, the bits and the blocks, the drawing, the masks and their penalty. \<open>QrReader\<close>: a
    reader, written from the standard's own tables. \<open>QrSafety\<close>: the properties, the round trip first.

  \<^bold>\<open>State.\<close> A table is the list of its rows, a service's state the record of the tables it writes. An
  operation answers \<open>Inl\<close> what it throws or \<open>Inr\<close> its value, with the state it leaves in both cases, so
  what a refused request has already written is part of the model. Times are milliseconds.

  \<^bold>\<open>Arguments.\<close> HMAC, SHA-256, AES-256-GCM, scrypt, token signing, random draws, the mail transport,
  geocoding and the permission library are not under \<open>src/\<close>: they are arguments, with what the code
  relies on as named hypotheses.

  \<^bold>\<open>Bounds.\<close> The definitions recurse on lists and need no fuel; the three loops of the QR encoder that wait for a length are
  functions with a measure. Sums of bytes stay below \<open>2 ^ 53\<close> under the bounds
  of the schemas, so JavaScript's numbers are integers. Names are compared exactly: the collation of the
  database, which folds case, is met by the schemas' lower-casing, and column widths are left out.

  \<^bold>\<open>Not modelled.\<close> The interface, the listings of the mail tables sorted and paged in SQL, the reading routes, the exchange with an outside
  provider, whose outcome is an argument, DMARC and supervision, the controllers' remaining declarations, the services that run commands or talk
  to other programs, and the deployment.
\<close>

end
